(* ===== verification/Prelude.thy ===== *)
theory Prelude
  imports Main "HOL-Library.Word"
begin

text \<open>
  Shared vocabulary of the development: bytes and little-endian numbers, the C string
  functions the sources call on byte buffers, the error codes of \<open>wm_error.h\<close> and
  \<open>wm_nvs.h\<close>, the environment (everything the modelled code calls that is hardware or
  operating system), and the generic lemmas on lists and numbers the components share.

  Machine integers. Unsigned 32-bit quantities (addresses, lengths, serial numbers) are
  \<open>nat\<close> with the wrap-around \<open>u32\<close> written where the C expression can wrap; \<open>uint8_t\<close>
  and \<open>uint16_t\<close> fields are \<open>nat\<close> with \<open>u8n\<close> / \<open>u16n\<close> at each assignment. Bytes
  are \<open>8 word\<close>, checksums \<open>32 word\<close>. Return codes are \<open>int\<close>.
\<close>

unbundle bit_operations_syntax

section \<open>Types and constants\<close>

type_synonym u8 = "8 word"
type_synonym bytes = "u8 list"
type_synonym crc = "32 word"

abbreviation (input) WM_ERR_SUCCESS :: int where "WM_ERR_SUCCESS \<equiv> 0"
abbreviation (input) WM_ERR_FAILED :: int where "WM_ERR_FAILED \<equiv> -1"
abbreviation (input) WM_ERR_NO_MEM :: int where "WM_ERR_NO_MEM \<equiv> -2"
abbreviation (input) WM_ERR_INVALID_PARAM :: int where "WM_ERR_INVALID_PARAM \<equiv> -3"
abbreviation (input) WM_ERR_NO_INITED :: int where "WM_ERR_NO_INITED \<equiv> -7"
abbreviation (input) WM_ERR_ALREADY_INITED :: int where "WM_ERR_ALREADY_INITED \<equiv> -10"
abbreviation (input) WM_ERR_NOT_FOUND :: int where "WM_ERR_NOT_FOUND \<equiv> -8"

abbreviation (input) WM_NVS_ERR_OK :: int where "WM_NVS_ERR_OK \<equiv> 0"
abbreviation (input) WM_NVS_ERR_FAIL :: int where "WM_NVS_ERR_FAIL \<equiv> -20001"
abbreviation (input) WM_NVS_ERR_INVALID_PARAM :: int where "WM_NVS_ERR_INVALID_PARAM \<equiv> -20002"
abbreviation (input) WM_NVS_ERR_NOT_INIT :: int where "WM_NVS_ERR_NOT_INIT \<equiv> -20003"
abbreviation (input) WM_NVS_ERR_AREADY_INIT :: int where "WM_NVS_ERR_AREADY_INIT \<equiv> -20004"
abbreviation (input) WM_NVS_ERR_NO_MEM :: int where "WM_NVS_ERR_NO_MEM \<equiv> -20005"
abbreviation (input) WM_NVS_ERR_NOT_FOUND :: int where "WM_NVS_ERR_NOT_FOUND \<equiv> -20006"
abbreviation (input) WM_NVS_ERR_READ_ONLY :: int where "WM_NVS_ERR_READ_ONLY \<equiv> -20007"
abbreviation (input) WM_NVS_ERR_NO_SPACE :: int where "WM_NVS_ERR_NO_SPACE \<equiv> -20008"
abbreviation (input) WM_NVS_ERR_INVALID_HANDLE :: int where "WM_NVS_ERR_INVALID_HANDLE \<equiv> -20009"
abbreviation (input) WM_NVS_ERR_SECTOR_FULL :: int where "WM_NVS_ERR_SECTOR_FULL \<equiv> -20010"
abbreviation (input) WM_NVS_ERR_INVALID_LENGTH :: int where "WM_NVS_ERR_INVALID_LENGTH \<equiv> -20011"
abbreviation (input) WM_NVS_ERR_VALUE_TOO_LONG :: int where "WM_NVS_ERR_VALUE_TOO_LONG \<equiv> -20012"
abbreviation (input) WM_NVS_ERR_CALL_IN_ISR :: int where "WM_NVS_ERR_CALL_IN_ISR \<equiv> -20013"

text \<open>The value an assignment to an unsigned field of that width leaves.\<close>

definition u8n :: "nat \<Rightarrow> nat" where "u8n n = n mod 2 ^ 8"
definition u16n :: "nat \<Rightarrow> nat" where "u16n n = n mod 2 ^ 16"
definition u32 :: "nat \<Rightarrow> nat" where "u32 n = n mod 2 ^ 32"

lemma u8n_id [simp]: "n < 256 \<Longrightarrow> u8n n = n"
  by (simp add: u8n_def)

lemma u16n_id [simp]: "n < 65536 \<Longrightarrow> u16n n = n"
  by (simp add: u16n_def)

lemma u32_id [simp]: "n < 4294967296 \<Longrightarrow> u32 n = n"
  by (simp add: u32_def)

lemma u8n_lt [simp]: "u8n n < 256"
  by (simp add: u8n_def)

lemma u32_lt [simp]: "u32 n < 4294967296"
  by (simp add: u32_def)

section \<open>The environment\<close>

text \<open>
  What the modelled code calls and the repository does not define: the CRC unit behind
  \<open>wm_drv_crc_update\<close>, plain and with the reversed settings of \<open>wm_drv_crc32_reverse\<close> (and
  whether its device exists), the MD5 unit behind \<open>wm_drv_md5\<close>, the cell physics of the NOR flash
  (what programming a byte over an old byte leaves), the allocator (does a request of this
  size succeed), what uninitialised memory reads as, and the mutex and interrupt state of the operating system.
\<close>

record env =
  crc32 :: "crc \<Rightarrow> bytes \<Rightarrow> crc"
  crc32_rev :: "bytes \<Rightarrow> crc"
  md5 :: "bytes \<Rightarrow> int \<times> bytes"
  crc_dev :: bool
  pp_cell :: "u8 \<Rightarrow> u8 \<Rightarrow> u8"
  alloc_ok :: "nat \<Rightarrow> bool"
  raw_word :: "nat \<Rightarrow> nat"
  mutex_create_ret :: int
  mutex_acquire_ret :: int
  isr_count :: nat

text \<open>The documented behaviour of a NOR cell: programming only clears bits.\<close>

definition nor_cells :: "env \<Rightarrow> bool" where
  "nor_cells env \<longleftrightarrow> (\<forall>old new. pp_cell env old new = old AND new)"

definition heap_ok :: "env \<Rightarrow> bool" where
  "heap_ok env \<longleftrightarrow> (\<forall>n. alloc_ok env n)"

lemma pp_cell_nor: "nor_cells env \<Longrightarrow> pp_cell env old new = old AND new"
  by (simp add: nor_cells_def)

lemma alloc_ok_heap [simp]: "heap_ok env \<Longrightarrow> alloc_ok env n"
  by (simp add: heap_ok_def)

lemma word8_max_and [simp]: "(0xFF :: u8) AND b = b"
proof -
  have "(0xFF :: u8) = - 1" by simp
  then show ?thesis by (simp only: and.left_neutral)
qed

text \<open>A concrete environment for witnesses: a real NOR cell, a heap that never fails.\<close>

definition demo_env :: env where
  "demo_env = \<lparr>crc32 = (\<lambda>c bs. c + of_nat (\<Sum>b\<leftarrow>bs. unat b)),
     crc32_rev = (\<lambda>bs. of_nat (\<Sum>b\<leftarrow>bs. unat b)), md5 = (\<lambda>_. (0, replicate 16 0)), crc_dev = True,
     pp_cell = (\<lambda>old new. old AND new), alloc_ok = (\<lambda>_. True), raw_word = (\<lambda>_. 0),
     mutex_create_ret = 0,
     mutex_acquire_ret = 0, isr_count = 0\<rparr>"

lemma demo_env_nor [simp]: "nor_cells demo_env"
  by (simp add: nor_cells_def demo_env_def)

lemma demo_env_heap [simp]: "heap_ok demo_env"
  by (simp add: heap_ok_def demo_env_def)

section \<open>Little-endian numbers\<close>

fun le_bytes :: "nat \<Rightarrow> nat \<Rightarrow> bytes" where
  "le_bytes 0 x = []"
| "le_bytes (Suc n) x = of_nat x # le_bytes n (x div 256)"

fun le_nat :: "bytes \<Rightarrow> nat" where
  "le_nat [] = 0"
| "le_nat (b # bs) = unat b + 256 * le_nat bs"

lemma length_le_bytes [simp]: "length (le_bytes n x) = n"
  by (induction n arbitrary: x) auto

lemma unat_of_nat_u8 [simp]: "unat (of_nat x :: u8) = x mod 256"
  by (simp add: unat_of_nat)

lemma u8_lt [simp]: "unat (b :: u8) < 256"
  using unsigned_less [of b] by simp

lemma of_nat_unat_add_u8: "(of_nat (unat b + 256 * n) :: u8) = b"
proof -
  have "(256 :: u8) = 0" by simp
  then show ?thesis by (simp only: of_nat_add of_nat_mult of_nat_numeral mult_zero_left) simp
qed

lemma le_nat_le_bytes: "le_nat (le_bytes n x) = x mod 256 ^ n"
proof (induction n arbitrary: x)
  case 0
  show ?case by simp
next
  case (Suc n)
  have "x mod (256 * 256 ^ n) = 256 * (x div 256 mod 256 ^ n) + x mod 256"
    by (rule mod_mult2_eq)
  with Suc show ?case by simp
qed

lemma le_nat_lt: "le_nat bs < 256 ^ length bs"
proof (induction bs)
  case (Cons b bs)
  have "unat b < 256" using u8_lt [of b] .
  moreover from Cons have "le_nat bs + 1 \<le> 256 ^ length bs" by simp
  then have "256 * le_nat bs + 256 \<le> 256 * 256 ^ length bs" by simp
  ultimately show ?case unfolding le_nat.simps length_Cons power_Suc by linarith
qed simp

lemma le_bytes_le_nat: "le_bytes (length bs) (le_nat bs) = bs"
proof (induction bs)
  case (Cons b bs)
  have "unat b div 256 = 0" by simp
  with Cons show ?case by (simp del: of_nat_add add: of_nat_unat_add_u8)
qed simp

text \<open>A checksum field of a header.\<close>

definition crc_bytes :: "crc \<Rightarrow> bytes" where "crc_bytes c = le_bytes 4 (unat c)"
definition crc_of :: "bytes \<Rightarrow> crc" where "crc_of bs = of_nat (le_nat bs)"

lemma length_crc_bytes [simp]: "length (crc_bytes c) = 4"
  by (simp add: crc_bytes_def)

lemma crc_of_crc_bytes [simp]: "crc_of (crc_bytes c) = c"
proof -
  have "unat c < 4294967296" using unsigned_less [of c] by simp
  then show ?thesis by (simp add: crc_of_def crc_bytes_def le_nat_le_bytes)
qed

section \<open>C strings and buffers\<close>

text \<open>
  A C string argument is the list of its bytes up to the terminator; reading past the end of
  the list reads the terminator. A fixed-size name field may fill its buffer without one.
\<close>

definition c_at :: "bytes \<Rightarrow> u8" where
  "c_at s = (case s of [] \<Rightarrow> 0 | b # _ \<Rightarrow> b)"

definition strnlen :: "bytes \<Rightarrow> nat \<Rightarrow> nat" where
  "strnlen s n = length (takeWhile (\<lambda>b. b \<noteq> 0) (take n s))"

definition strlen :: "bytes \<Rightarrow> nat" where
  "strlen s = length (takeWhile (\<lambda>b. b \<noteq> 0) s)"

fun strncmp_eq :: "bytes \<Rightarrow> bytes \<Rightarrow> nat \<Rightarrow> bool" where
  "strncmp_eq a b 0 = True"
| "strncmp_eq a b (Suc n) =
     (c_at a = c_at b \<and> (c_at a = 0 \<or> strncmp_eq (tl a) (tl b) n))"

definition strcmp_eq :: "bytes \<Rightarrow> bytes \<Rightarrow> bool" where
  "strcmp_eq a b \<longleftrightarrow> takeWhile (\<lambda>x. x \<noteq> 0) a = takeWhile (\<lambda>x. x \<noteq> 0) b"

text \<open>\<open>memcpy (buf + off, src, length src)\<close> into a buffer of known content.\<close>

definition overlay :: "'a list \<Rightarrow> nat \<Rightarrow> 'a list \<Rightarrow> 'a list" where
  "overlay buf off src = take off buf @ src @ drop (off + length src) buf"

lemma length_overlay [simp]:
  "off + length src \<le> length buf \<Longrightarrow> length (overlay buf off src) = length buf"
  by (simp add: overlay_def)

lemma nth_overlay:
  assumes "off + length src \<le> length buf" and "i < length buf"
  shows "overlay buf off src ! i =
    (if off \<le> i \<and> i < off + length src then src ! (i - off) else buf ! i)"
proof -
  have m: "min (length buf) off = off" using assms(1) by simp
  consider "i < off" | "off \<le> i" "i < off + length src" | "off + length src \<le> i"
    by linarith
  then show ?thesis
  proof cases
    case 1
    then show ?thesis by (simp add: overlay_def nth_append m)
  next
    case 2
    then have "i - off < length src" by arith
    with 2 show ?thesis by (simp add: overlay_def nth_append m)
  next
    case 3
    then have "\<not> i - off < length src" and "\<not> i < off" by arith+
    moreover have "off + length src + (i - off - length src) = i" using 3 by arith
    ultimately show ?thesis using assms 3 by (simp add: overlay_def nth_append m)
  qed
qed

lemma overlay_all: "length src = length buf \<Longrightarrow> overlay buf 0 src = src"
  by (simp add: overlay_def)

lemma strnlen_le [simp]: "strnlen s n \<le> n"
  using length_takeWhile_le [of "\<lambda>b. b \<noteq> 0" "take n s"] by (simp add: strnlen_def)

section \<open>Byte memories\<close>

text \<open>A stretch of a memory, and the memory after a stretch is overwritten.\<close>

definition mem_slice :: "(nat \<Rightarrow> u8) \<Rightarrow> nat \<Rightarrow> nat \<Rightarrow> bytes" where
  "mem_slice m a n = map m [a..<a + n]"

definition splice :: "(nat \<Rightarrow> u8) \<Rightarrow> nat \<Rightarrow> bytes \<Rightarrow> nat \<Rightarrow> u8" where
  "splice m a bs = (\<lambda>x. if a \<le> x \<and> x < a + length bs then bs ! (x - a) else m x)"

lemma length_mem_slice [simp]: "length (mem_slice m a n) = n"
  by (simp add: mem_slice_def)

lemma nth_mem_slice [simp]: "i < n \<Longrightarrow> mem_slice m a n ! i = m (a + i)"
  by (simp add: mem_slice_def)

lemma mem_slice_append: "mem_slice m a n @ mem_slice m (a + n) k = mem_slice m a (n + k)"
proof -
  have "[a..<a + (n + k)] = [a..<a + n] @ [a + n..<a + n + k]"
    using upt_add_eq_append [of a "a + n" k] by (simp add: add.assoc)
  then show ?thesis by (simp add: mem_slice_def)
qed

lemma take_mem_slice: "k \<le> n \<Longrightarrow> take k (mem_slice m a n) = mem_slice m a k"
  by (simp add: mem_slice_def take_map take_upt)

lemma drop_mem_slice: "k \<le> n \<Longrightarrow> drop k (mem_slice m a n) = mem_slice m (a + k) (n - k)"
  by (simp add: mem_slice_def drop_map)

lemma mem_slice_0 [simp]: "mem_slice m a 0 = []"
  by (simp add: mem_slice_def)

lemma mem_slice_cong:
  "(\<And>x. a \<le> x \<Longrightarrow> x < a + n \<Longrightarrow> m x = m' x) \<Longrightarrow> mem_slice m a n = mem_slice m' a n"
  by (simp add: mem_slice_def)

lemma splice_append: "splice (splice m a xs) (a + length xs) ys = splice m a (xs @ ys)"
  by (auto simp: splice_def fun_eq_iff nth_append)

lemma mem_slice_splice: "mem_slice (splice m a bs) a (length bs) = bs"
  by (rule nth_equalityI) (auto simp: splice_def)

declare One_nat_def [simp del]

end
