(* ===== verification/FlashHal.thy ===== *)
theory FlashHal
  imports Prelude
begin

text \<open>
  The flash HAL of \<open>wm_hal_flash.c\<close>: page programming, page and sector reads and sector
  erasure of the internal SPI flash. The SPI commands themselves (\<open>flash_exec_cmd\<close> and the
  FIFO behind it) are the chip's: a page program combines every cell of the page with the
  data through \<open>pp_cell\<close>, a sector erase sets a sector to \<open>0xFF\<close>, a read returns the
  cells. The address is a \<open>uint32_t\<close> that wraps from page to page; those of reads and erasures
  are masked to 25 bits, that of a page program is not, as in the code.
\<close>

section \<open>Memory\<close>

text \<open>
  The chip and the driver context of \<open>wm_hal_flash_dev_t\<close>: whether \<open>dev->drv\<close> is set,
  the geometry of \<open>wm_flash_device_info_t\<close>, and the cells.
\<close>

record flash_dev =
  fd_drv :: bool
  fd_page :: nat
  fd_sector :: nat
  fd_size :: nat
  fd_vendor :: nat
  fd_uid :: bytes
  fd_mem :: "nat \<Rightarrow> u8"

definition prog_mem :: "env \<Rightarrow> (nat \<Rightarrow> u8) \<Rightarrow> nat \<Rightarrow> bytes \<Rightarrow> nat \<Rightarrow> u8" where
  "prog_mem env m a bs =
     (\<lambda>x. if a \<le> x \<and> x < a + length bs then pp_cell env (m x) (bs ! (x - a)) else m x)"

definition erase_mem :: "(nat \<Rightarrow> u8) \<Rightarrow> nat \<Rightarrow> nat \<Rightarrow> nat \<Rightarrow> u8" where
  "erase_mem m a n = (\<lambda>x. if a \<le> x \<and> x < a + n then 0xFF else m x)"

definition WM_FLS_ADDR_MAX_BIT :: nat where "WM_FLS_ADDR_MAX_BIT = 0x1FFFFFF"

definition addr_mask :: "nat \<Rightarrow> nat" where
  "addr_mask a = a mod (WM_FLS_ADDR_MAX_BIT + 1)"

section \<open>The HAL operations\<close>

definition wm_hal_flash_program_page :: "env \<Rightarrow> flash_dev \<Rightarrow> nat \<Rightarrow> bytes \<Rightarrow> flash_dev" where
  "wm_hal_flash_program_page env dev flash_addr buf =
     dev\<lparr>fd_mem := prog_mem env (fd_mem dev) flash_addr (take (fd_page dev) buf)\<rparr>"

fun write_pages_loop :: "env \<Rightarrow> flash_dev \<Rightarrow> nat \<Rightarrow> bytes \<Rightarrow> nat \<Rightarrow> flash_dev" where
  "write_pages_loop env dev flash_addr buf 0 = dev"
| "write_pages_loop env dev flash_addr buf (Suc n) =
     write_pages_loop env (wm_hal_flash_program_page env dev flash_addr buf)
       (u32 (flash_addr + fd_page dev)) (drop (fd_page dev) buf) n"

definition wm_hal_flash_write_pages ::
  "env \<Rightarrow> flash_dev \<Rightarrow> nat \<Rightarrow> bytes \<Rightarrow> nat \<Rightarrow> int \<times> flash_dev" where
  "wm_hal_flash_write_pages env dev flash_addr buf write_page_num =
     (if flash_addr mod fd_page dev \<noteq> 0 then (WM_ERR_INVALID_PARAM, dev)
      else (WM_ERR_SUCCESS, write_pages_loop env dev flash_addr buf write_page_num))"

fun read_pages_loop :: "flash_dev \<Rightarrow> nat \<Rightarrow> nat \<Rightarrow> bytes" where
  "read_pages_loop dev flash_addr 0 = []"
| "read_pages_loop dev flash_addr (Suc n) =
     mem_slice (fd_mem dev) (addr_mask flash_addr) (fd_page dev)
       @ read_pages_loop dev (u32 (flash_addr + fd_page dev)) n"

text \<open>The buffer argument is its content before the call; on an error it is unchanged.\<close>

definition wm_hal_flash_read_pages ::
  "flash_dev \<Rightarrow> nat \<Rightarrow> bytes \<Rightarrow> nat \<Rightarrow> int \<times> bytes" where
  "wm_hal_flash_read_pages dev flash_addr read_buf read_page_num =
     (if flash_addr mod fd_page dev \<noteq> 0 then (WM_ERR_INVALID_PARAM, read_buf)
      else (WM_ERR_SUCCESS, overlay read_buf 0 (read_pages_loop dev flash_addr read_page_num)))"

definition wm_hal_flash_read_sectors ::
  "flash_dev \<Rightarrow> nat \<Rightarrow> bytes \<Rightarrow> nat \<Rightarrow> int \<times> bytes" where
  "wm_hal_flash_read_sectors dev flash_addr read_buf read_sector_num =
     (if flash_addr mod fd_sector dev \<noteq> 0 then (WM_ERR_INVALID_PARAM, read_buf)
      else wm_hal_flash_read_pages dev flash_addr read_buf
             (u32 (read_sector_num * fd_sector dev) div fd_page dev))"

fun erase_sectors_loop :: "flash_dev \<Rightarrow> nat \<Rightarrow> nat \<Rightarrow> flash_dev" where
  "erase_sectors_loop dev flash_addr 0 = dev"
| "erase_sectors_loop dev flash_addr (Suc n) =
     erase_sectors_loop
       (dev\<lparr>fd_mem := erase_mem (fd_mem dev) (addr_mask flash_addr) (fd_sector dev)\<rparr>)
       (u32 (flash_addr + fd_sector dev)) n"

definition wm_hal_flash_erase_sectors :: "flash_dev \<Rightarrow> nat \<Rightarrow> nat \<Rightarrow> int \<times> flash_dev" where
  "wm_hal_flash_erase_sectors dev flash_addr sector_num =
     (if flash_addr mod fd_sector dev \<noteq> 0 then (WM_ERR_INVALID_PARAM, dev)
      else (WM_ERR_SUCCESS, erase_sectors_loop dev flash_addr sector_num))"

definition wm_hal_flash_erase_chip :: "flash_dev \<Rightarrow> flash_dev" where
  "wm_hal_flash_erase_chip dev = dev\<lparr>fd_mem := (\<lambda>_. 0xFF)\<rparr>"

section \<open>Lemmas on memory\<close>

lemma mem_slice_prog_disjoint:
  "a + n \<le> b \<or> b + length bs \<le> a \<Longrightarrow> mem_slice (prog_mem env m b bs) a n = mem_slice m a n"
  by (rule mem_slice_cong) (auto simp: prog_mem_def)

lemma mem_slice_erase_disjoint:
  "a + n \<le> b \<or> b + k \<le> a \<Longrightarrow> mem_slice (erase_mem m b k) a n = mem_slice m a n"
  by (rule mem_slice_cong) (auto simp: erase_mem_def)

lemma mem_slice_erase_inside:
  "b \<le> a \<Longrightarrow> a + n \<le> b + k \<Longrightarrow> mem_slice (erase_mem m b k) a n = replicate n 0xFF"
  by (rule nth_equalityI) (auto simp: erase_mem_def)

lemma prog_mem_Nil [simp]: "prog_mem env m a [] = m"
  by (auto simp: prog_mem_def fun_eq_iff)

lemma prog_mem_append:
  "prog_mem env (prog_mem env m a xs) (a + length xs) ys = prog_mem env m a (xs @ ys)"
  by (auto simp: prog_mem_def fun_eq_iff nth_append)

text \<open>Programming blank cells stores the data; programming a cell with itself is harmless.\<close>

lemma mem_slice_prog_blank:
  assumes "nor_cells env" and "mem_slice m a (length bs) = replicate (length bs) 0xFF"
  shows "mem_slice (prog_mem env m a bs) a (length bs) = bs"
proof (rule nth_equalityI)
  fix i assume "i < length (mem_slice (prog_mem env m a bs) a (length bs))"
  then have i: "i < length bs" by simp
  have "mem_slice m a (length bs) ! i = 0xFF" using i assms(2) by simp
  with i have "m (a + i) = 0xFF" by simp
  with i assms(1) show "mem_slice (prog_mem env m a bs) a (length bs) ! i = bs ! i"
    by (simp add: prog_mem_def pp_cell_nor del: word8_max_and) simp
qed simp

lemma prog_mem_page:
  assumes nor: "nor_cells env" and fit: "poff + length src \<le> n"
  shows "prog_mem env m a (overlay (mem_slice m a n) poff src) = prog_mem env m (a + poff) src"
proof
  fix x
  show "prog_mem env m a (overlay (mem_slice m a n) poff src) x =
        prog_mem env m (a + poff) src x"
  proof (cases "a \<le> x \<and> x < a + n")
    case True
    then have "x - a < n" and ax: "a + (x - a) = x" by arith+
    with fit have "overlay (mem_slice m a n) poff src ! (x - a) =
      (if poff \<le> x - a \<and> x - a < poff + length src then src ! (x - a - poff) else m x)"
      by (simp add: nth_overlay)
    with True fit nor show ?thesis
      by (auto simp: prog_mem_def pp_cell_nor)
  next
    case False
    with fit show ?thesis by (auto simp: prog_mem_def)
  qed
qed

lemma prog_mem_erased:
  assumes "nor_cells env" and "length bs = n"
  shows "prog_mem env (erase_mem m a n) a bs =
    (\<lambda>x. if a \<le> x \<and> x < a + n then bs ! (x - a) else m x)"
  using assms by (auto simp: prog_mem_def erase_mem_def pp_cell_nor fun_eq_iff)

lemma erase_mem_append:
  "erase_mem (erase_mem m a n) (a + n) k = erase_mem m a (n + k)"
  by (auto simp: erase_mem_def fun_eq_iff)

lemma erase_mem_0 [simp]: "erase_mem m a 0 = m"
  by (auto simp: erase_mem_def fun_eq_iff)

section \<open>What the HAL operations do\<close>

lemma addr_mask_id [simp]: "a < 0x2000000 \<Longrightarrow> addr_mask a = a"
  by (simp add: addr_mask_def WM_FLS_ADDR_MAX_BIT_def)

lemma write_pages_loop_fields [simp]:
  "fd_drv (write_pages_loop env dev a buf n) = fd_drv dev"
  "fd_page (write_pages_loop env dev a buf n) = fd_page dev"
  "fd_sector (write_pages_loop env dev a buf n) = fd_sector dev"
  "fd_size (write_pages_loop env dev a buf n) = fd_size dev"
  by (induction env dev a buf n rule: write_pages_loop.induct)
    (auto simp: wm_hal_flash_program_page_def)

lemma write_pages_loop_spec:
  "length buf = n * fd_page dev \<Longrightarrow> a + n * fd_page dev \<le> 0x2000000 \<Longrightarrow>
   write_pages_loop env dev a buf n = dev\<lparr>fd_mem := prog_mem env (fd_mem dev) a buf\<rparr>"
proof (induction env dev a buf n rule: write_pages_loop.induct)
  case (1 env dev a buf)
  then show ?case by simp
next
  case (2 env dev a buf n)
  let ?p = "fd_page dev"
  have l: "length (take ?p buf) = ?p" using 2(2) by simp
  have "prog_mem env (prog_mem env (fd_mem dev) a (take ?p buf)) (a + ?p) (drop ?p buf)
      = prog_mem env (fd_mem dev) a buf"
    using prog_mem_append [of env "fd_mem dev" a "take ?p buf" "drop ?p buf"] l by simp
  moreover have "length (drop ?p buf) = n * fd_page (wm_hal_flash_program_page env dev a buf)"
    using 2(2) by (simp add: wm_hal_flash_program_page_def)
  moreover have "u32 (a + ?p) = a + ?p" using 2(3) by simp
  ultimately show ?case using 2(1,3)
    by (simp add: wm_hal_flash_program_page_def)
qed

lemma read_pages_loop_spec:
  "a + n * fd_page dev \<le> 0x2000000 \<Longrightarrow> 0 < fd_page dev \<Longrightarrow>
   read_pages_loop dev a n = mem_slice (fd_mem dev) a (n * fd_page dev)"
proof (induction dev a n rule: read_pages_loop.induct)
  case (2 dev a n)
  then show ?case by (simp add: mem_slice_append)
qed simp

lemma erase_sectors_loop_spec:
  "a + n * fd_sector dev \<le> 0x2000000 \<Longrightarrow> 0 < fd_sector dev \<Longrightarrow>
   erase_sectors_loop dev a n =
     dev\<lparr>fd_mem := erase_mem (fd_mem dev) a (n * fd_sector dev)\<rparr>"
proof (induction dev a n rule: erase_sectors_loop.induct)
  case (2 dev a n)
  then show ?case by (simp add: erase_mem_append)
qed simp

end
