(* ===== verification/InternalFlash.thy ===== *)
theory InternalFlash
  imports FlashHal
begin

text \<open>
  The internal flash driver (\<open>wm_drv_ops_internal_flash.c\<close>) over the HAL, and the device
  front end of \<open>wm_drv_flash.c\<close>. Reads and writes of any offset and length are broken into
  pages (or sectors) with a read-modify-write of the partial ones; the driver's mutex has no
  effect on a sequential run and is not modelled. A fresh \<open>malloc\<close>ed buffer is
  \<open>replicate n 0\<close>: every byte of it is overwritten before it is used, which the
  theorems below show. In the loops the guard \<open>remain_size = 0\<close> only serves a chip of page
  size 0, on which the code has already divided by zero. Offsets, lengths, indices and
  addresses are \<open>uint32_t\<close>: every sum and product of them that can pass 32 bits wraps, in the
  range checks and in the addresses alike.
\<close>

definition WM_FT_REGION :: nat where "WM_FT_REGION = 0x2000"

section \<open>Reading\<close>

function iflash_read_loop :: "flash_dev \<Rightarrow> nat \<Rightarrow> nat \<Rightarrow> nat \<Rightarrow> nat \<Rightarrow> bytes \<Rightarrow> bytes" where
  "iflash_read_loop dev page_idx page_offset remain_size read_len tmp_buf =
     (let tmp_buf = snd (wm_hal_flash_read_pages dev (u32 (page_idx * fd_page dev)) tmp_buf 1);
          out = take remain_size (drop page_offset tmp_buf)
      in if read_len = remain_size \<or> remain_size = 0 then out
         else let read_len = read_len - remain_size
              in if read_len = 0 then out
                 else out @ iflash_read_loop dev (u32 (page_idx + 1)) 0
                        (if read_len > fd_page dev then fd_page dev else read_len) read_len tmp_buf)"
  by pat_completeness auto
termination
  by (relation "measure (\<lambda>(dev, page_idx, page_offset, remain_size, read_len, tmp). read_len)")
    auto

definition wm_drv_internal_flash_read ::
  "env \<Rightarrow> flash_dev \<Rightarrow> nat \<Rightarrow> bytes \<Rightarrow> nat \<Rightarrow> int \<times> bytes" where
  "wm_drv_internal_flash_read env dev offset out_buf out_len =
     (if \<not> fd_drv dev \<or> out_len = 0 then (WM_ERR_INVALID_PARAM, out_buf)
      else if u32 (offset + out_len) > fd_size dev then (WM_ERR_INVALID_PARAM, out_buf)
      else if \<not> alloc_ok env (fd_page dev) then (WM_ERR_NO_MEM, out_buf)
      else
        let page_idx = offset div fd_page dev;
            page_offset = offset mod fd_page dev;
            remain_size = fd_page dev - page_offset;
            remain_size = (if out_len \<le> remain_size then out_len else remain_size)
        in (WM_ERR_SUCCESS,
            overlay out_buf 0
              (iflash_read_loop dev page_idx page_offset remain_size out_len
                 (replicate (fd_page dev) 0))))"

section \<open>Writing\<close>

text \<open>One turn of the loop: the page buffer and the device it leaves.\<close>

definition iflash_write_page ::
  "env \<Rightarrow> flash_dev \<Rightarrow> nat \<Rightarrow> nat \<Rightarrow> nat \<Rightarrow> bytes \<Rightarrow> bytes \<Rightarrow> bytes \<times> flash_dev" where
  "iflash_write_page env dev page_idx page_offset remain_size src_buf tmp_buf =
     (let addr = u32 (page_idx * fd_page dev);
          tmp_buf = (if remain_size \<noteq> fd_page dev
                     then snd (wm_hal_flash_read_pages dev addr tmp_buf 1) else tmp_buf);
          tmp_buf = overlay tmp_buf page_offset (take remain_size src_buf)
      in (tmp_buf, snd (wm_hal_flash_write_pages env dev addr tmp_buf 1)))"

function iflash_write_loop ::
  "env \<Rightarrow> flash_dev \<Rightarrow> nat \<Rightarrow> nat \<Rightarrow> nat \<Rightarrow> bytes \<Rightarrow> nat \<Rightarrow> bytes \<Rightarrow> flash_dev" where
  "iflash_write_loop env dev page_idx page_offset remain_size src_buf write_len tmp_buf =
     (case iflash_write_page env dev page_idx page_offset remain_size src_buf tmp_buf of
        (tmp_buf, dev') \<Rightarrow>
          if write_len = remain_size \<or> remain_size = 0 then dev'
          else let write_len = write_len - remain_size
               in if write_len = 0 then dev'
                  else iflash_write_loop env dev' (u32 (page_idx + 1)) 0
                         (if write_len > fd_page dev then fd_page dev else write_len)
                         (drop remain_size src_buf) write_len tmp_buf)"
  by pat_completeness auto
termination
  by (relation "measure (\<lambda>(env, dev, page_idx, page_offset, remain_size, src, write_len, tmp).
        write_len)") auto

definition wm_drv_internal_flash_write ::
  "env \<Rightarrow> flash_dev \<Rightarrow> nat \<Rightarrow> bytes \<Rightarrow> nat \<Rightarrow> int \<times> flash_dev" where
  "wm_drv_internal_flash_write env dev offset in_buf in_buf_len =
     (if \<not> fd_drv dev \<or> in_buf_len = 0 then (WM_ERR_INVALID_PARAM, dev)
      else if u32 (offset + in_buf_len) > fd_size dev then (WM_ERR_INVALID_PARAM, dev)
      else if offset \<le> WM_FT_REGION then (WM_ERR_INVALID_PARAM, dev)
      else if \<not> alloc_ok env (fd_page dev) then (WM_ERR_NO_MEM, dev)
      else
        let page_idx = offset div fd_page dev;
            page_offset = offset mod fd_page dev;
            remain_size = fd_page dev - page_offset;
            remain_size = (if in_buf_len \<le> remain_size then in_buf_len else remain_size)
        in (WM_ERR_SUCCESS,
            iflash_write_loop env dev page_idx page_offset remain_size in_buf in_buf_len
              (replicate (fd_page dev) 0)))"

text \<open>Read-erase-write of whole sectors: the loop both erasing writes share.\<close>

definition iflash_erase_write_sector ::
  "env \<Rightarrow> flash_dev \<Rightarrow> nat \<Rightarrow> nat \<Rightarrow> nat \<Rightarrow> bytes \<Rightarrow> bytes \<Rightarrow> bytes \<times> flash_dev" where
  "iflash_erase_write_sector env dev secotr_idx sector_offset remain_size src_buf tmp_buf =
     (let addr = u32 (secotr_idx * fd_sector dev);
          n_pages = fd_sector dev div fd_page dev;
          tmp_buf = (if remain_size \<noteq> fd_sector dev
                     then snd (wm_hal_flash_read_pages dev addr tmp_buf n_pages) else tmp_buf);
          dev1 = snd (wm_hal_flash_erase_sectors dev addr 1);
          tmp_buf = overlay tmp_buf sector_offset (take remain_size src_buf)
      in (tmp_buf, snd (wm_hal_flash_write_pages env dev1 addr tmp_buf n_pages)))"

function iflash_erase_write_loop ::
  "env \<Rightarrow> flash_dev \<Rightarrow> nat \<Rightarrow> nat \<Rightarrow> nat \<Rightarrow> bytes \<Rightarrow> nat \<Rightarrow> bytes \<Rightarrow> flash_dev" where
  "iflash_erase_write_loop env dev secotr_idx sector_offset remain_size src_buf write_len tmp_buf =
     (case iflash_erase_write_sector env dev secotr_idx sector_offset remain_size src_buf tmp_buf of
        (tmp_buf, dev') \<Rightarrow>
          if write_len = remain_size \<or> remain_size = 0 then dev'
          else let write_len = write_len - remain_size
               in if write_len = 0 then dev'
                  else iflash_erase_write_loop env dev' (u32 (secotr_idx + 1)) 0
                         (if write_len > fd_sector dev then fd_sector dev else write_len)
                         (drop remain_size src_buf) write_len tmp_buf)"
  by pat_completeness auto
termination
  by (relation "measure (\<lambda>(env, dev, secotr_idx, sector_offset, remain_size, src, write_len,
        tmp). write_len)") auto

definition iflash_erase_write_body :: "env \<Rightarrow> flash_dev \<Rightarrow> nat \<Rightarrow> bytes \<Rightarrow> nat \<Rightarrow> int \<times> flash_dev"
where
  "iflash_erase_write_body env dev offset in_buf in_buf_len =
     (if \<not> alloc_ok env (fd_sector dev) then (WM_ERR_NO_MEM, dev)
      else
        let secotr_idx = offset div fd_sector dev;
            sector_offset = offset mod fd_sector dev;
            remain_size = fd_sector dev - sector_offset;
            remain_size = (if in_buf_len \<le> remain_size then in_buf_len else remain_size)
        in (WM_ERR_SUCCESS,
            iflash_erase_write_loop env dev secotr_idx sector_offset remain_size in_buf
              in_buf_len (replicate (fd_sector dev) 0)))"

definition wm_drv_internal_flash_write_with_erase ::
  "env \<Rightarrow> flash_dev \<Rightarrow> nat \<Rightarrow> bytes \<Rightarrow> nat \<Rightarrow> int \<times> flash_dev" where
  "wm_drv_internal_flash_write_with_erase env dev offset in_buf in_buf_len =
     (if \<not> fd_drv dev \<or> in_buf_len = 0 then (WM_ERR_INVALID_PARAM, dev)
      else if u32 (offset + in_buf_len) > fd_size dev then (WM_ERR_INVALID_PARAM, dev)
      else if offset \<le> WM_FT_REGION then (WM_ERR_INVALID_PARAM, dev)
      else iflash_erase_write_body env dev offset in_buf in_buf_len)"

text \<open>The unguarded variant the factory parameters use; its device may be missing.\<close>

definition wm_drv_iflash_wr_with_erase_private ::
  "env \<Rightarrow> flash_dev option \<Rightarrow> nat \<Rightarrow> bytes \<Rightarrow> nat \<Rightarrow> int \<times> flash_dev option" where
  "wm_drv_iflash_wr_with_erase_private env dev offset in_buf in_buf_len =
     (case dev of
        None \<Rightarrow> (WM_ERR_INVALID_PARAM, None)
      | Some d \<Rightarrow>
          if \<not> fd_drv d \<or> in_buf_len = 0 then (WM_ERR_INVALID_PARAM, dev)
          else if u32 (offset + in_buf_len) > fd_size d then (WM_ERR_INVALID_PARAM, dev)
          else let (ret, d') = iflash_erase_write_body env d offset in_buf in_buf_len
               in (ret, Some d'))"

section \<open>Erasing\<close>

text \<open>The five cases of the erase comment; \<open>tmp_buf\<close> holds the sector being patched.\<close>

definition fill_ff :: "bytes \<Rightarrow> nat \<Rightarrow> nat \<Rightarrow> bytes" where
  "fill_ff buf first till = overlay buf first (replicate (till - first) 0xFF)"

definition erase_region_case2 :: "env \<Rightarrow> flash_dev \<Rightarrow> nat \<Rightarrow> nat \<Rightarrow> nat \<Rightarrow> flash_dev" where
  "erase_region_case2 env dev secotr_start_idx erase_len erase_len_offset =
     (let ss = fd_sector dev;
          ers_sector_num = erase_len div ss + 1;
          recovery_start_addr = u32 ((secotr_start_idx + ers_sector_num - 1) * ss);
          tmp_buf = snd (wm_hal_flash_read_sectors dev recovery_start_addr (replicate ss 0) 1);
          dev1 = snd (wm_hal_flash_erase_sectors dev (u32 (secotr_start_idx * ss)) ers_sector_num);
          tmp_buf = fill_ff tmp_buf 0 erase_len_offset
      in snd (wm_hal_flash_write_pages env dev1 recovery_start_addr tmp_buf (ss div fd_page dev)))"

definition erase_region_case3 :: "env \<Rightarrow> flash_dev \<Rightarrow> nat \<Rightarrow> nat \<Rightarrow> nat \<Rightarrow> flash_dev" where
  "erase_region_case3 env dev secotr_start_idx secotr_offset erase_len =
     (let ss = fd_sector dev;
          addr = u32 (secotr_start_idx * ss);
          tmp_buf = snd (wm_hal_flash_read_sectors dev addr (replicate ss 0) 1);
          tmp_buf = fill_ff tmp_buf secotr_offset (u32 (secotr_offset + erase_len));
          dev1 = snd (wm_hal_flash_erase_sectors dev addr 1)
      in snd (wm_hal_flash_write_pages env dev1 addr tmp_buf (ss div fd_page dev)))"

definition erase_region_case4 ::
  "env \<Rightarrow> flash_dev \<Rightarrow> nat \<Rightarrow> nat \<Rightarrow> nat \<Rightarrow> nat \<Rightarrow> flash_dev" where
  "erase_region_case4 env dev secotr_start_idx secotr_offset erase_len erase_len_offset =
     (let ss = fd_sector dev;
          n_pages = ss div fd_page dev;
          fist_page_addr = u32 (secotr_start_idx * ss);
          tmp_buf = snd (wm_hal_flash_read_sectors dev fist_page_addr (replicate ss 0) 1);
          dev1 = snd (wm_hal_flash_erase_sectors dev fist_page_addr 1);
          tmp_buf = fill_ff tmp_buf secotr_offset ss;
          dev2 = snd (wm_hal_flash_write_pages env dev1 fist_page_addr tmp_buf n_pages);
          left_erase_len = erase_len - (ss - secotr_offset);
          dev3 = (if left_erase_len div ss \<noteq> 0
                  then snd (wm_hal_flash_erase_sectors dev2 (u32 ((secotr_start_idx + 1) * ss))
                              (left_erase_len div ss))
                  else dev2);
          last_page_addr = u32 ((secotr_start_idx + left_erase_len div ss + 1) * ss);
          tmp_buf = snd (wm_hal_flash_read_sectors dev3 last_page_addr tmp_buf 1);
          dev4 = snd (wm_hal_flash_erase_sectors dev3 last_page_addr 1);
          tmp_buf = fill_ff tmp_buf 0 erase_len_offset
      in snd (wm_hal_flash_write_pages env dev4 last_page_addr tmp_buf n_pages))"

definition wm_drv_internal_flash_erase_region ::
  "env \<Rightarrow> flash_dev \<Rightarrow> nat \<Rightarrow> nat \<Rightarrow> int \<times> flash_dev" where
  "wm_drv_internal_flash_erase_region env dev offset erase_len =
     (if \<not> fd_drv dev \<or> erase_len = 0 then (WM_ERR_INVALID_PARAM, dev)
      else if u32 (offset + erase_len) > fd_size dev then (WM_ERR_INVALID_PARAM, dev)
      else if offset \<le> WM_FT_REGION then (WM_ERR_INVALID_PARAM, dev)
      else if \<not> alloc_ok env (fd_sector dev) then (WM_ERR_NO_MEM, dev)
      else
        let ss = fd_sector dev;
            secotr_start_idx = offset div ss;
            secotr_offset = offset mod ss;
            erase_len_offset = u32 (erase_len + secotr_offset) mod ss
        in if secotr_offset = 0 \<and> erase_len_offset = 0 then
             (WM_ERR_SUCCESS,
              snd (wm_hal_flash_erase_sectors dev (u32 (secotr_start_idx * ss)) (erase_len div ss)))
           else if secotr_offset = 0 \<and> erase_len_offset \<noteq> 0 then
             (WM_ERR_SUCCESS, erase_region_case2 env dev secotr_start_idx erase_len erase_len_offset)
           else if secotr_offset \<noteq> 0 \<and> u32 (secotr_offset + erase_len) \<le> ss then
             (WM_ERR_SUCCESS, erase_region_case3 env dev secotr_start_idx secotr_offset erase_len)
           else if secotr_offset \<noteq> 0 \<and> u32 (secotr_offset + erase_len) > ss then
             (WM_ERR_SUCCESS,
              erase_region_case4 env dev secotr_start_idx secotr_offset erase_len erase_len_offset)
           else (WM_ERR_FAILED, dev))"

definition wm_drv_internal_flash_erase_sector ::
  "flash_dev \<Rightarrow> nat \<Rightarrow> nat \<Rightarrow> int \<times> flash_dev" where
  "wm_drv_internal_flash_erase_sector dev sector_idx sector_count =
     (if \<not> fd_drv dev \<or> sector_count = 0 then (WM_ERR_INVALID_PARAM, dev)
      else if u32 ((sector_idx + sector_count) * fd_sector dev) > fd_size dev
        then (WM_ERR_INVALID_PARAM, dev)
      else if u32 (sector_idx * fd_sector dev) < WM_FT_REGION then (WM_ERR_INVALID_PARAM, dev)
      else (WM_ERR_SUCCESS,
            snd (wm_hal_flash_erase_sectors dev (u32 (sector_idx * fd_sector dev)) sector_count)))"

definition wm_drv_internal_flash_erase_chip :: "flash_dev \<Rightarrow> int \<times> flash_dev" where
  "wm_drv_internal_flash_erase_chip dev =
     (if \<not> fd_drv dev then (WM_ERR_INVALID_PARAM, dev)
      else (WM_ERR_SUCCESS, wm_hal_flash_erase_chip dev))"

record flash_info =
  fi_flash_size :: nat
  fi_sector_size :: nat
  fi_page_size :: nat
  fi_vendor_id :: nat
  fi_unique_id :: bytes

definition wm_drv_internal_flash_get_device_info :: "flash_dev \<Rightarrow> int \<times> flash_info option" where
  "wm_drv_internal_flash_get_device_info dev =
     (if \<not> fd_drv dev then (WM_ERR_INVALID_PARAM, None)
      else (WM_ERR_SUCCESS,
            Some \<lparr>fi_flash_size = fd_size dev, fi_sector_size = u16n (fd_sector dev),
                  fi_page_size = u16n (fd_page dev), fi_vendor_id = fd_vendor dev,
                  fi_unique_id = fd_uid dev\<rparr>))"

section \<open>The device front end\<close>

text \<open>
  \<open>wm_drv_flash.c\<close>: a missing device or buffer is refused, everything else goes to the
  device's operation table, which for the internal flash is \<open>wm_drv_internal_flash_ops\<close>.
\<close>

definition wm_drv_flash_read ::
  "env \<Rightarrow> flash_dev option \<Rightarrow> nat \<Rightarrow> bytes option \<Rightarrow> nat \<Rightarrow> int \<times> bytes option" where
  "wm_drv_flash_read env dev addr rd_buf rd_len =
     (case (dev, rd_buf) of
        (Some d, Some buf) \<Rightarrow>
          (let (ret, out) = wm_drv_internal_flash_read env d addr buf rd_len in (ret, Some out))
      | _ \<Rightarrow> (WM_ERR_INVALID_PARAM, rd_buf))"

definition wm_drv_flash_write ::
  "env \<Rightarrow> flash_dev option \<Rightarrow> nat \<Rightarrow> bytes option \<Rightarrow> nat \<Rightarrow> int \<times> flash_dev option" where
  "wm_drv_flash_write env dev addr wr_buf wr_len =
     (case (dev, wr_buf) of
        (Some d, Some buf) \<Rightarrow>
          (let (ret, d') = wm_drv_internal_flash_write env d addr buf wr_len in (ret, Some d'))
      | _ \<Rightarrow> (WM_ERR_INVALID_PARAM, dev))"

definition wm_drv_flash_write_with_erase ::
  "env \<Rightarrow> flash_dev option \<Rightarrow> nat \<Rightarrow> bytes option \<Rightarrow> nat \<Rightarrow> int \<times> flash_dev option" where
  "wm_drv_flash_write_with_erase env dev addr wr_buf wr_len =
     (case (dev, wr_buf) of
        (Some d, Some buf) \<Rightarrow>
          (let (ret, d') = wm_drv_internal_flash_write_with_erase env d addr buf wr_len
           in (ret, Some d'))
      | _ \<Rightarrow> (WM_ERR_INVALID_PARAM, dev))"

definition wm_drv_flash_erase_region ::
  "env \<Rightarrow> flash_dev option \<Rightarrow> nat \<Rightarrow> nat \<Rightarrow> int \<times> flash_dev option" where
  "wm_drv_flash_erase_region env dev addr erase_len =
     (case dev of
        Some d \<Rightarrow>
          (let (ret, d') = wm_drv_internal_flash_erase_region env d addr erase_len in (ret, Some d'))
      | None \<Rightarrow> (WM_ERR_INVALID_PARAM, dev))"

definition wm_drv_flash_erase_sector ::
  "flash_dev option \<Rightarrow> nat \<Rightarrow> nat \<Rightarrow> int \<times> flash_dev option" where
  "wm_drv_flash_erase_sector dev sector_idx sector_count =
     (case dev of
        Some d \<Rightarrow>
          (let (ret, d') = wm_drv_internal_flash_erase_sector d sector_idx sector_count
           in (ret, Some d'))
      | None \<Rightarrow> (WM_ERR_INVALID_PARAM, dev))"

definition wm_drv_flash_erase_chip :: "flash_dev option \<Rightarrow> int \<times> flash_dev option" where
  "wm_drv_flash_erase_chip dev =
     (case dev of
        Some d \<Rightarrow> (let (ret, d') = wm_drv_internal_flash_erase_chip d in (ret, Some d'))
      | None \<Rightarrow> (WM_ERR_INVALID_PARAM, dev))"

definition wm_drv_flash_get_device_info :: "flash_dev option \<Rightarrow> int \<times> flash_info option" where
  "wm_drv_flash_get_device_info dev =
     (case dev of
        Some d \<Rightarrow> wm_drv_internal_flash_get_device_info d
      | None \<Rightarrow> (WM_ERR_INVALID_PARAM, None))"

declare iflash_read_loop.simps [simp del]
declare iflash_write_loop.simps [simp del]
declare iflash_erase_write_loop.simps [simp del]

end
