(* ===== verification/InternalFlashSpec.thy ===== *)
theory InternalFlashSpec
  imports InternalFlash
begin

text \<open>
  What the driver guarantees, stated on the cells alone: a read returns exactly the cells of
  the range, a write programs exactly the cells of the range, an erasing write stores exactly
  the data, and an erase of any region (all five cases) sets exactly that region to \<open>0xFF\<close>.
\<close>

section \<open>Geometry and the abstract operations\<close>

text \<open>What \<open>wm_hal_flash_init\<close> leaves: sectors are whole pages, the chip is whole sectors and
  fits the 25 address bits.\<close>

definition flash_geom :: "flash_dev \<Rightarrow> bool" where
  "flash_geom dev \<longleftrightarrow> fd_drv dev \<and> 0 < fd_page dev \<and> 0 < fd_sector dev \<and>
     fd_page dev dvd fd_sector dev \<and> fd_sector dev dvd fd_size dev \<and>
     fd_size dev \<le> 0x2000000"

lemma erase_mem_splice: "erase_mem m a n = splice m a (replicate n 0xFF)"
  by (auto simp: splice_def erase_mem_def fun_eq_iff)

text \<open>Erasing a unit and programming it back with a patch stores just the patch.\<close>

lemma patch_unit:
  assumes nor: "nor_cells env" and fit: "off + length src \<le> n"
  shows "prog_mem env (erase_mem m a n) a (overlay (mem_slice m a n) off src) =
         splice m (a + off) src"
proof
  fix x
  have l: "length (overlay (mem_slice m a n) off src) = n" using fit by simp
  show "prog_mem env (erase_mem m a n) a (overlay (mem_slice m a n) off src) x =
        splice m (a + off) src x"
  proof (cases "a \<le> x \<and> x < a + n")
    case True
    then have "x - a < n" and "a + (x - a) = x" by arith+
    with fit have "overlay (mem_slice m a n) off src ! (x - a) =
      (if off \<le> x - a \<and> x - a < off + length src then src ! (x - a - off) else m x)"
      by (simp add: nth_overlay)
    with True show ?thesis
      unfolding prog_mem_erased [OF nor l] by (auto simp: splice_def)
  next
    case False
    with fit show ?thesis unfolding prog_mem_erased [OF nor l] by (auto simp: splice_def)
  qed
qed

lemma dev_mem_upd_id [simp]: "dev\<lparr>fd_mem := fd_mem dev\<rparr> = dev"
  by simp

lemma flash_geom_mem_upd [simp]: "flash_geom (dev\<lparr>fd_mem := m\<rparr>) = flash_geom dev"
  by (simp add: flash_geom_def)

section \<open>The HAL on whole units\<close>

text \<open>Addresses and numbers of units inside the chip do not wrap.\<close>

lemma u32_unit:
  assumes "i * u + u \<le> 0x2000000"
  shows "u32 (i * u) = i * u" and "0 < u \<Longrightarrow> u32 (Suc i) = Suc i" and "0 < u \<Longrightarrow> u32 (i + 1) = i + 1"
proof -
  show "u32 (i * u) = i * u" using assms by simp
  assume "0 < u"
  then have "Suc i * 1 \<le> Suc i * u" by (intro mult_le_mono2) simp
  then have "Suc i \<le> 0x2000000" using assms by simp
  then show "u32 (Suc i) = Suc i" and "u32 (i + 1) = i + 1" by simp_all
qed

lemma read_one_page:
  assumes "flash_geom dev" and "i * fd_page dev + fd_page dev \<le> 0x2000000"
    and "length buf = fd_page dev"
  shows "snd (wm_hal_flash_read_pages dev (i * fd_page dev) buf 1) =
         mem_slice (fd_mem dev) (i * fd_page dev) (fd_page dev)"
proof -
  have "read_pages_loop dev (i * fd_page dev) 1 = mem_slice (fd_mem dev) (i * fd_page dev) (fd_page dev)"
    using read_pages_loop_spec [of "i * fd_page dev" 1 dev] assms by (simp add: flash_geom_def)
  with assms(3) show ?thesis by (simp add: wm_hal_flash_read_pages_def overlay_all)
qed

lemma write_one_page:
  assumes "length buf = fd_page dev" and "i * fd_page dev + fd_page dev \<le> 0x2000000"
  shows "snd (wm_hal_flash_write_pages env dev (i * fd_page dev) buf 1) =
         dev\<lparr>fd_mem := prog_mem env (fd_mem dev) (i * fd_page dev) buf\<rparr>"
proof -
  have "write_pages_loop env dev (i * fd_page dev) buf 1 =
      dev\<lparr>fd_mem := prog_mem env (fd_mem dev) (i * fd_page dev) buf\<rparr>"
    using assms by (intro write_pages_loop_spec) simp_all
  then show ?thesis by (simp add: wm_hal_flash_write_pages_def)
qed

lemma sector_mod_page: "fd_page dev dvd fd_sector dev \<Longrightarrow> i * fd_sector dev mod fd_page dev = 0"
  by (simp add: mod_eq_0_iff_dvd)

lemma read_one_sector:
  assumes g: "flash_geom dev" and "i * fd_sector dev + fd_sector dev \<le> 0x2000000"
    and l: "length buf = fd_sector dev"
  shows "snd (wm_hal_flash_read_pages dev (i * fd_sector dev) buf (fd_sector dev div fd_page dev))
         = mem_slice (fd_mem dev) (i * fd_sector dev) (fd_sector dev)"
    and "snd (wm_hal_flash_read_sectors dev (i * fd_sector dev) buf 1) =
         mem_slice (fd_mem dev) (i * fd_sector dev) (fd_sector dev)"
proof -
  have d: "fd_sector dev div fd_page dev * fd_page dev = fd_sector dev"
    using g by (simp add: flash_geom_def)
  have "read_pages_loop dev (i * fd_sector dev) (fd_sector dev div fd_page dev) =
        mem_slice (fd_mem dev) (i * fd_sector dev) (fd_sector dev)"
    using read_pages_loop_spec [of "i * fd_sector dev" "fd_sector dev div fd_page dev" dev] assms d
    by (simp add: flash_geom_def)
  with g l show 1: "snd (wm_hal_flash_read_pages dev (i * fd_sector dev) buf
      (fd_sector dev div fd_page dev)) = mem_slice (fd_mem dev) (i * fd_sector dev) (fd_sector dev)"
    by (simp add: wm_hal_flash_read_pages_def overlay_all sector_mod_page flash_geom_def)
  moreover have "u32 (fd_sector dev) = fd_sector dev" using assms(2) by simp
  ultimately show "snd (wm_hal_flash_read_sectors dev (i * fd_sector dev) buf 1) =
         mem_slice (fd_mem dev) (i * fd_sector dev) (fd_sector dev)"
    using g by (simp add: wm_hal_flash_read_sectors_def)
qed

lemma erase_sectors_spec:
  assumes "flash_geom dev" and "i * fd_sector dev + n * fd_sector dev \<le> 0x2000000"
  shows "wm_hal_flash_erase_sectors dev (i * fd_sector dev) n =
    (WM_ERR_SUCCESS, dev\<lparr>fd_mem := erase_mem (fd_mem dev) (i * fd_sector dev) (n * fd_sector dev)\<rparr>)"
  using assms by (simp add: wm_hal_flash_erase_sectors_def erase_sectors_loop_spec flash_geom_def)

lemma write_one_sector:
  assumes "flash_geom dev" and "length buf = fd_sector dev"
    and "i * fd_sector dev + fd_sector dev \<le> 0x2000000"
  shows "snd (wm_hal_flash_write_pages env dev (i * fd_sector dev) buf
           (fd_sector dev div fd_page dev)) =
         dev\<lparr>fd_mem := prog_mem env (fd_mem dev) (i * fd_sector dev) buf\<rparr>"
  using assms
  by (simp add: wm_hal_flash_write_pages_def sector_mod_page flash_geom_def
      write_pages_loop_spec)

section \<open>Loops\<close>

lemma dvd_unit_fits:
  fixes a b n :: nat
  assumes "b dvd n" and "a * b < n"
  shows "a * b + b \<le> n"
proof -
  from assms(1) obtain k where k: "n = b * k" by (rule dvdE)
  with assms(2) have "a < k" by (simp add: mult.commute)
  then have "Suc a * b \<le> k * b" by (intro mult_le_mono1) simp
  with k show ?thesis by (simp add: mult.commute)
qed

lemma page_dvd_size: "flash_geom dev \<Longrightarrow> fd_page dev dvd fd_size dev"
  by (auto simp: flash_geom_def intro: dvd_trans)

lemma unit_in_chip:
  assumes "flash_geom dev"
  shows "i * fd_page dev < fd_size dev \<Longrightarrow> i * fd_page dev + fd_page dev \<le> 0x2000000"
    and "i * fd_sector dev < fd_size dev \<Longrightarrow> i * fd_sector dev + fd_sector dev \<le> 0x2000000"
proof -
  have d: "fd_sector dev dvd fd_size dev" and sz: "fd_size dev \<le> 0x2000000"
    using assms by (simp_all add: flash_geom_def)
  show "i * fd_page dev + fd_page dev \<le> 0x2000000" if "i * fd_page dev < fd_size dev"
    using dvd_unit_fits [OF page_dvd_size [OF assms] that] sz by (rule le_trans)
  show "i * fd_sector dev + fd_sector dev \<le> 0x2000000" if "i * fd_sector dev < fd_size dev"
    using dvd_unit_fits [OF d that] sz by (rule le_trans)
qed

lemma iflash_read_loop_spec:
  assumes "flash_geom dev" and "0 < remain" and "remain \<le> rlen"
    and "poff + remain \<le> fd_page dev" and "remain = rlen \<or> poff + remain = fd_page dev"
    and "idx * fd_page dev + poff + rlen \<le> fd_size dev" and "length tmp = fd_page dev"
  shows "iflash_read_loop dev idx poff remain rlen tmp =
    mem_slice (fd_mem dev) (idx * fd_page dev + poff) rlen"
  using assms
proof (induction dev idx poff remain rlen tmp rule: iflash_read_loop.induct)
  case (1 dev idx poff remain rlen tmp)
  let ?p = "fd_page dev" and ?m = "fd_mem dev"
  let ?t = "mem_slice ?m (idx * ?p) ?p"
  have "idx * ?p < fd_size dev" using 1 by linarith
  with page_dvd_size [OF 1(2)] have "idx * ?p + ?p \<le> fd_size dev" by (rule dvd_unit_fits)
  then have fit: "idx * ?p + ?p \<le> 0x2000000" using 1(2) by (simp add: flash_geom_def)
  note w = u32_unit [OF fit]
  have t: "snd (wm_hal_flash_read_pages dev (idx * ?p) tmp 1) = ?t"
    using read_one_page [OF 1(2) fit 1(8)] .
  have out: "take remain (drop poff ?t) = mem_slice ?m (idx * ?p + poff) remain"
    using 1 by (simp add: drop_mem_slice take_mem_slice)
  show ?case
  proof (cases "rlen = remain")
    case True
    then show ?thesis by (simp add: iflash_read_loop.simps w(1) t out)
  next
    case False
    then have ge: "poff + remain = ?p" "remain < rlen" using 1 by auto
    let ?r = "if rlen - remain > ?p then ?p else rlen - remain"
    have step: "(idx + 1) * ?p + 0 = idx * ?p + poff + remain"
      using ge(1) by (simp add: algebra_simps)
    have p: "0 < ?p" using 1(2) by (simp add: flash_geom_def)
    have "iflash_read_loop dev (u32 (idx + 1)) 0 ?r (rlen - remain)
        (snd (wm_hal_flash_read_pages dev (u32 (idx * ?p)) tmp 1)) =
        mem_slice ?m (u32 (idx + 1) * ?p + 0) (rlen - remain)"
      using ge step 1(2-7) w(3) [OF p]
      by (intro 1(1) [OF refl refl _ refl]) (auto simp: flash_geom_def w(1) t)
    moreover have "mem_slice ?m (idx * ?p + poff) remain @
        mem_slice ?m ((idx + 1) * ?p + 0) (rlen - remain) = mem_slice ?m (idx * ?p + poff) rlen"
      unfolding step mem_slice_append using ge(2) by simp
    ultimately show ?thesis using False ge 1(3)
      by (subst iflash_read_loop.simps) (simp add: w(1) w(3) [OF p] t out Let_def)
  qed
qed

lemma take_plus_drop: "take r xs @ take k (drop r xs) = take (r + k) xs"
  by (metis take_add)

lemma iflash_write_page_spec:
  assumes "flash_geom dev" and "nor_cells env" and "0 < r" and "poff + r \<le> fd_page dev"
    and "r \<le> length src" and "idx * fd_page dev < fd_size dev" and "length tmp = fd_page dev"
  shows "\<exists>tb. length tb = fd_page dev \<and> iflash_write_page env dev idx poff r src tmp =
    (tb, dev\<lparr>fd_mem := prog_mem env (fd_mem dev) (idx * fd_page dev + poff) (take r src)\<rparr>)"
proof -
  let ?p = "fd_page dev" and ?m = "fd_mem dev"
  let ?a = "idx * ?p"
  have "?a + ?p \<le> fd_size dev" by (rule dvd_unit_fits [OF page_dvd_size [OF assms(1)] assms(6)])
  then have fit: "?a + ?p \<le> 0x2000000" using assms(1) by (simp add: flash_geom_def)
  note w = u32_unit(1) [OF fit]
  have t: "(if r \<noteq> ?p then snd (wm_hal_flash_read_pages dev ?a tmp 1) else tmp) =
      (if r \<noteq> ?p then mem_slice ?m ?a ?p else tmp)" (is "_ = ?t")
    using read_one_page [OF assms(1) fit assms(7)] by simp
  let ?tb = "overlay ?t poff (take r src)"
  have l: "length ?tb = ?p" using assms by simp
  have "prog_mem env ?m ?a ?tb = prog_mem env ?m (?a + poff) (take r src)"
  proof (cases "r = ?p")
    case True
    with assms have "poff = 0" by simp
    with True assms show ?thesis by (simp add: overlay_all)
  next
    case False
    with assms show ?thesis by (simp add: prog_mem_page)
  qed
  then have "iflash_write_page env dev idx poff r src tmp =
      (?tb, dev\<lparr>fd_mem := prog_mem env ?m (?a + poff) (take r src)\<rparr>)"
    unfolding iflash_write_page_def Let_def w t using write_one_page [OF l fit, of env] by simp
  with l show ?thesis by blast
qed

lemma iflash_write_loop_spec:
  assumes "flash_geom dev" and "nor_cells env" and "0 < remain" and "remain \<le> wlen"
    and "wlen \<le> length src" and "poff + remain \<le> fd_page dev"
    and "remain = wlen \<or> poff + remain = fd_page dev"
    and "idx * fd_page dev + poff + wlen \<le> fd_size dev" and "length tmp = fd_page dev"
  shows "iflash_write_loop env dev idx poff remain src wlen tmp =
    dev\<lparr>fd_mem := prog_mem env (fd_mem dev) (idx * fd_page dev + poff) (take wlen src)\<rparr>"
  using assms
proof (induction env dev idx poff remain src wlen tmp rule: iflash_write_loop.induct)
  case (1 env dev idx poff remain src wlen tmp)
  let ?p = "fd_page dev" and ?m = "fd_mem dev"
  let ?a = "idx * ?p"
  let ?dev = "dev\<lparr>fd_mem := prog_mem env ?m (?a + poff) (take remain src)\<rparr>"
  have "?a < fd_size dev" using 1 by linarith
  note w = u32_unit [OF unit_in_chip(1) [OF 1(2) this]]
  from \<open>?a < fd_size dev\<close> 1 obtain tb where tb: "length tb = ?p"
      "iflash_write_page env dev idx poff remain src tmp = (tb, ?dev)"
    using iflash_write_page_spec [of dev env remain poff src idx tmp] by auto
  show ?case
  proof (cases "wlen = remain")
    case True
    then show ?thesis by (simp add: iflash_write_loop.simps tb)
  next
    case False
    then have ge: "poff + remain = ?p" "remain < wlen" using 1 by auto
    let ?r = "if wlen - remain > ?p then ?p else wlen - remain"
    have step: "(idx + 1) * ?p + 0 = ?a + poff + remain"
      using ge(1) by (simp add: algebra_simps)
    have "length (take remain src) = remain" using 1 by simp
    then have rest: "prog_mem env (fd_mem ?dev) (?a + poff + remain)
        (take (wlen - remain) (drop remain src)) = prog_mem env ?m (?a + poff) (take wlen src)"
      using prog_mem_append [of env ?m "?a + poff" "take remain src"] ge(2)
      by (simp add: take_plus_drop)
    have p: "0 < ?p" using 1(2) by (simp add: flash_geom_def)
    have "iflash_write_loop env ?dev (u32 (idx + 1)) 0 ?r (drop remain src) (wlen - remain) tb =
        ?dev\<lparr>fd_mem := prog_mem env (fd_mem ?dev) (u32 (idx + 1) * fd_page ?dev + 0)
                (take (wlen - remain) (drop remain src))\<rparr>"
      using ge step tb(1) 1(2-10) w(3) [OF p]
      by (intro 1(1) [OF tb(2) [symmetric] _ refl]) (auto simp: flash_geom_def)
    then show ?thesis using False ge 1(4) rest step
      by (subst iflash_write_loop.simps) (simp add: tb w(3) [OF p] Let_def)
  qed
qed

lemma iflash_erase_write_sector_spec:
  assumes "flash_geom dev" and "nor_cells env" and "0 < r" and "soff + r \<le> fd_sector dev"
    and "r \<le> length src" and "idx * fd_sector dev < fd_size dev" and "length tmp = fd_sector dev"
  shows "\<exists>tb. length tb = fd_sector dev \<and> iflash_erase_write_sector env dev idx soff r src tmp =
    (tb, dev\<lparr>fd_mem := splice (fd_mem dev) (idx * fd_sector dev + soff) (take r src)\<rparr>)"
proof -
  let ?s = "fd_sector dev" and ?m = "fd_mem dev"
  let ?a = "idx * ?s"
  note bound = unit_in_chip(2) [OF assms(1,6)]
  note w = u32_unit(1) [OF bound]
  have t: "(if r \<noteq> ?s then snd (wm_hal_flash_read_pages dev ?a tmp (?s div fd_page dev)) else tmp)
      = (if r \<noteq> ?s then mem_slice ?m ?a ?s else tmp)" (is "_ = ?t")
    using read_one_sector(1) [OF assms(1) bound assms(7)] by simp
  let ?tb = "overlay ?t soff (take r src)"
  let ?d1 = "dev\<lparr>fd_mem := erase_mem ?m ?a ?s\<rparr>"
  have l: "length ?tb = ?s" using assms by simp
  have er: "snd (wm_hal_flash_erase_sectors dev ?a 1) = ?d1"
    using erase_sectors_spec [of dev idx 1] assms(1) bound by simp
  have "prog_mem env (erase_mem ?m ?a ?s) ?a ?tb = splice ?m (?a + soff) (take r src)"
  proof (cases "r = ?s")
    case True
    with assms have "soff = 0" by simp
    with True assms show ?thesis
      using patch_unit [of env 0 "take r src" ?s ?m ?a] by (simp add: overlay_all)
  next
    case False
    with assms show ?thesis by (simp add: patch_unit)
  qed
  moreover have "snd (wm_hal_flash_write_pages env ?d1 ?a ?tb (?s div fd_page dev)) =
      ?d1\<lparr>fd_mem := prog_mem env (fd_mem ?d1) ?a ?tb\<rparr>"
    using write_one_sector [of ?d1 ?tb idx env] assms(1) l bound by simp
  ultimately have "iflash_erase_write_sector env dev idx soff r src tmp =
      (?tb, dev\<lparr>fd_mem := splice ?m (?a + soff) (take r src)\<rparr>)"
    unfolding iflash_erase_write_sector_def Let_def w t er by simp
  with l show ?thesis by blast
qed

lemma iflash_erase_write_loop_spec:
  assumes "flash_geom dev" and "nor_cells env" and "0 < remain" and "remain \<le> wlen"
    and "wlen \<le> length src" and "soff + remain \<le> fd_sector dev"
    and "remain = wlen \<or> soff + remain = fd_sector dev"
    and "idx * fd_sector dev + soff + wlen \<le> fd_size dev" and "length tmp = fd_sector dev"
  shows "iflash_erase_write_loop env dev idx soff remain src wlen tmp =
    dev\<lparr>fd_mem := splice (fd_mem dev) (idx * fd_sector dev + soff) (take wlen src)\<rparr>"
  using assms
proof (induction env dev idx soff remain src wlen tmp rule: iflash_erase_write_loop.induct)
  case (1 env dev idx soff remain src wlen tmp)
  let ?s = "fd_sector dev" and ?m = "fd_mem dev"
  let ?a = "idx * ?s"
  let ?dev = "dev\<lparr>fd_mem := splice ?m (?a + soff) (take remain src)\<rparr>"
  have "?a < fd_size dev" using 1 by linarith
  note w = u32_unit [OF unit_in_chip(2) [OF 1(2) this]]
  from \<open>?a < fd_size dev\<close> 1 obtain tb where tb: "length tb = ?s"
      "iflash_erase_write_sector env dev idx soff remain src tmp = (tb, ?dev)"
    using iflash_erase_write_sector_spec [of dev env remain soff src idx tmp] by auto
  show ?case
  proof (cases "wlen = remain")
    case True
    then show ?thesis by (simp add: iflash_erase_write_loop.simps tb)
  next
    case False
    then have ge: "soff + remain = ?s" "remain < wlen" using 1 by auto
    let ?r = "if wlen - remain > ?s then ?s else wlen - remain"
    have step: "(idx + 1) * ?s + 0 = ?a + soff + remain"
      using ge(1) by (simp add: algebra_simps)
    have "length (take remain src) = remain" using 1 by simp
    then have rest: "splice (fd_mem ?dev) (?a + soff + remain)
        (take (wlen - remain) (drop remain src)) = splice ?m (?a + soff) (take wlen src)"
      using splice_append [of ?m "?a + soff" "take remain src"] ge(2)
      by (simp add: take_plus_drop)
    have p: "0 < ?s" using 1(2) by (simp add: flash_geom_def)
    have "iflash_erase_write_loop env ?dev (u32 (idx + 1)) 0 ?r (drop remain src) (wlen - remain) tb =
        ?dev\<lparr>fd_mem := splice (fd_mem ?dev) (u32 (idx + 1) * fd_sector ?dev + 0)
                (take (wlen - remain) (drop remain src))\<rparr>"
      using ge step tb(1) 1(2-10) w(3) [OF p]
      by (intro 1(1) [OF tb(2) [symmetric] _ refl]) (auto simp: flash_geom_def)
    then show ?thesis using False ge 1(4) rest step
      by (subst iflash_erase_write_loop.simps) (simp add: tb w(3) [OF p] Let_def)
  qed
qed

section \<open>The driver operations\<close>

text \<open>The first chunk the loops start with.\<close>

lemma first_chunk:
  fixes off u n :: nat
  assumes "0 < u" and "0 < n"
  defines "r \<equiv> (if n \<le> u - off mod u then n else u - off mod u)"
  shows "0 < r" and "r \<le> n" and "off mod u + r \<le> u" and "r = n \<or> off mod u + r = u"
    and "off div u * u + off mod u = off"
  using assms mod_less_divisor [of u off] by (auto simp: r_def)

lemma wm_drv_internal_flash_read_spec:
  assumes "flash_geom dev" and "0 < n" and "off + n \<le> fd_size dev" and "alloc_ok env (fd_page dev)"
  shows "wm_drv_internal_flash_read env dev off buf n =
    (WM_ERR_SUCCESS, overlay buf 0 (mem_slice (fd_mem dev) off n))"
proof -
  have p: "0 < fd_page dev" using assms(1) by (simp add: flash_geom_def)
  note c = first_chunk [OF p assms(2), of off]
  have "fd_size dev \<le> 0x2000000" using assms(1) by (simp add: flash_geom_def)
  with assms(3) have u: "u32 (off + n) = off + n" by simp
  show ?thesis using assms u
    unfolding wm_drv_internal_flash_read_def Let_def
    by (subst iflash_read_loop_spec [OF assms(1) c(1-4)]) (simp_all add: flash_geom_def c(5))
qed

lemma wm_drv_internal_flash_write_spec:
  assumes "flash_geom dev" and "nor_cells env" and "alloc_ok env (fd_page dev)"
    and "0 < n" and "n \<le> length buf" and "off + n \<le> fd_size dev" and "WM_FT_REGION < off"
  shows "wm_drv_internal_flash_write env dev off buf n =
    (WM_ERR_SUCCESS, dev\<lparr>fd_mem := prog_mem env (fd_mem dev) off (take n buf)\<rparr>)"
proof -
  have p: "0 < fd_page dev" using assms(1) by (simp add: flash_geom_def)
  note c = first_chunk [OF p assms(4), of off]
  have "fd_size dev \<le> 0x2000000" using assms(1) by (simp add: flash_geom_def)
  with assms(6) have u: "u32 (off + n) = off + n" by simp
  show ?thesis using assms u
    unfolding wm_drv_internal_flash_write_def Let_def
    by (subst iflash_write_loop_spec [OF assms(1,2) c(1,2) assms(5) c(3,4)])
      (simp_all add: flash_geom_def c(5))
qed

lemma iflash_erase_write_body_spec:
  assumes "flash_geom dev" and "nor_cells env" and "alloc_ok env (fd_sector dev)"
    and "0 < n" and "n \<le> length buf" and "off + n \<le> fd_size dev"
  shows "iflash_erase_write_body env dev off buf n =
    (WM_ERR_SUCCESS, dev\<lparr>fd_mem := splice (fd_mem dev) off (take n buf)\<rparr>)"
proof -
  have p: "0 < fd_sector dev" using assms(1) by (simp add: flash_geom_def)
  note c = first_chunk [OF p assms(4), of off]
  show ?thesis using assms
    unfolding iflash_erase_write_body_def Let_def
    by (subst iflash_erase_write_loop_spec [OF assms(1,2) c(1,2) assms(5) c(3,4)])
      (simp_all add: c(5))
qed

section \<open>Erasing a region\<close>

text \<open>Saving a sector, erasing it and writing it back with a blanked stretch.\<close>

lemma erase_patch_sector:
  assumes g: "flash_geom dev" and nor: "nor_cells env"
    and fit: "i * fd_sector dev + fd_sector dev \<le> fd_size dev" and "f \<le> t" "t \<le> fd_sector dev"
  shows "snd (wm_hal_flash_write_pages env (snd (wm_hal_flash_erase_sectors dev (i * fd_sector dev) 1))
      (i * fd_sector dev) (fill_ff (mem_slice (fd_mem dev) (i * fd_sector dev) (fd_sector dev)) f t)
      (fd_sector dev div fd_page dev)) =
    dev\<lparr>fd_mem := erase_mem (fd_mem dev) (i * fd_sector dev + f) (t - f)\<rparr>"
proof -
  let ?s = "fd_sector dev" and ?m = "fd_mem dev"
  let ?d1 = "dev\<lparr>fd_mem := erase_mem ?m (i * ?s) ?s\<rparr>"
  let ?b = "fill_ff (mem_slice ?m (i * ?s) ?s) f t"
  have er: "snd (wm_hal_flash_erase_sectors dev (i * ?s) 1) = ?d1"
    using erase_sectors_spec [of dev i 1] g fit by (simp add: flash_geom_def)
  have l: "length ?b = ?s" using assms by (simp add: fill_ff_def)
  have "prog_mem env (erase_mem ?m (i * ?s) ?s) (i * ?s) ?b = erase_mem ?m (i * ?s + f) (t - f)"
    using assms patch_unit [OF nor, of f "replicate (t - f) 0xFF" ?s ?m "i * ?s"]
    by (simp add: fill_ff_def erase_mem_splice)
  moreover have "i * ?s + ?s \<le> 0x2000000" using fit g by (simp add: flash_geom_def)
  ultimately show ?thesis using write_one_sector [of ?d1 ?b i env] g l by (simp add: er)
qed

lemma read_one_sector_inside:
  assumes "flash_geom dev" and "i * fd_sector dev < fd_size dev" and "length buf = fd_sector dev"
  shows "snd (wm_hal_flash_read_sectors dev (i * fd_sector dev) buf 1) =
         mem_slice (fd_mem dev) (i * fd_sector dev) (fd_sector dev)"
    and "i * fd_sector dev + fd_sector dev \<le> fd_size dev"
proof -
  have "fd_sector dev dvd fd_size dev" using assms(1) by (simp add: flash_geom_def)
  then show fit: "i * fd_sector dev + fd_sector dev \<le> fd_size dev"
    using assms(2) by (rule dvd_unit_fits)
  then show "snd (wm_hal_flash_read_sectors dev (i * fd_sector dev) buf 1) =
         mem_slice (fd_mem dev) (i * fd_sector dev) (fd_sector dev)"
    using read_one_sector(2) [OF assms(1) _ assms(3)] assms(1) by (simp add: flash_geom_def)
qed

lemma erase_region_case2_spec:
  assumes g: "flash_geom dev" and nor: "nor_cells env"
    and r: "n mod fd_sector dev = r" "0 < r" and fit: "i * fd_sector dev + n \<le> fd_size dev"
  shows "erase_region_case2 env dev i n r =
    dev\<lparr>fd_mem := erase_mem (fd_mem dev) (i * fd_sector dev) n\<rparr>"
proof -
  let ?s = "fd_sector dev" and ?m = "fd_mem dev"
  let ?k = "n div ?s" and ?a = "i * ?s"
  let ?b = "(i + ?k) * ?s" and ?m1 = "erase_mem ?m ?a (?k * ?s)"
  let ?t = "fill_ff (mem_slice ?m ?b ?s) 0 r"
  have s: "0 < ?s" "?s dvd fd_size dev" using g by (auto simp: flash_geom_def)
  have n: "n = ?k * ?s + r" using r(1) div_mult_mod_eq [of n ?s] by simp
  have b: "?b = ?a + ?k * ?s" by (simp add: add_mult_distrib)
  have "?b < fd_size dev" using fit n r(2) b by linarith
  note rd = read_one_sector_inside [OF g this, of "replicate ?s 0", simplified]
  have lim: "?b + ?s \<le> 0x2000000" using rd(2) g by (simp add: flash_geom_def)
  then have w: "u32 ?b = ?b" "u32 ?a = ?a" using b by simp_all
  have rs: "r < ?s" using r s by auto
  have e: "erase_mem ?m ?a ((?k + 1) * ?s) = erase_mem ?m1 ?b ?s"
    using erase_mem_append [of ?m ?a "?k * ?s" ?s] by (simp add: b add_mult_distrib)
  have er: "snd (wm_hal_flash_erase_sectors dev ?a (?k + 1)) = dev\<lparr>fd_mem := erase_mem ?m1 ?b ?s\<rparr>"
  proof -
    have "?a + (?k + 1) * ?s = ?b + ?s" by (simp add: b add_mult_distrib)
    also have "\<dots> \<le> 0x2000000" using rd(2) g by (simp add: flash_geom_def)
    finally show ?thesis using erase_sectors_spec [OF g, of i "?k + 1"] e by simp
  qed
  have "mem_slice ?m1 ?b ?s = mem_slice ?m ?b ?s"
    by (rule mem_slice_erase_disjoint) (simp add: b)
  then have "prog_mem env (erase_mem ?m1 ?b ?s) ?b ?t = splice ?m1 (?b + 0) (replicate r 0xFF)"
    using patch_unit [OF nor, of 0 "replicate r 0xFF" ?s ?m1 ?b] rs by (simp add: fill_ff_def)
  also have "\<dots> = erase_mem ?m ?a n"
    using n b erase_mem_append [of ?m ?a "?k * ?s" r] by (simp flip: erase_mem_splice)
  finally have "prog_mem env (erase_mem ?m1 ?b ?s) ?b ?t = erase_mem ?m ?a n" .
  moreover have "length ?t = ?s" using rs by (simp add: fill_ff_def)
  ultimately show ?thesis
    using write_one_sector [of "dev\<lparr>fd_mem := erase_mem ?m1 ?b ?s\<rparr>" ?t "i + ?k" env] g lim
    by (simp add: erase_region_case2_def Let_def rd(1) er w)
qed

lemma erase_region_case3_spec:
  assumes g: "flash_geom dev" and "nor_cells env" and "soff + n \<le> fd_sector dev" and "0 < n"
    and "i * fd_sector dev + soff + n \<le> fd_size dev"
  shows "erase_region_case3 env dev i soff n =
    dev\<lparr>fd_mem := erase_mem (fd_mem dev) (i * fd_sector dev + soff) n\<rparr>"
proof -
  have "i * fd_sector dev < fd_size dev" using assms by linarith
  note rd = read_one_sector_inside [OF g this, of "replicate (fd_sector dev) 0", simplified]
  have "i * fd_sector dev + fd_sector dev \<le> 0x2000000" using rd(2) g by (simp add: flash_geom_def)
  then have w: "u32 (i * fd_sector dev) = i * fd_sector dev" "u32 (soff + n) = soff + n"
    using assms(3) by simp_all
  show ?thesis using assms erase_patch_sector [OF g assms(2) rd(2), of soff "soff + n"]
    by (simp add: erase_region_case3_def Let_def w rd(1))
qed

text \<open>
  The last sector of case 4 is read, erased and rewritten even when the region ends on its
  first byte; that sector must exist for the operation to stay inside the chip.
\<close>

lemma erase_region_case4_spec:
  assumes g: "flash_geom dev" and nor: "nor_cells env" and soff: "soff < fd_sector dev"
    and big: "fd_sector dev < soff + n"
    and fit: "i * fd_sector dev + soff + n < fd_size dev \<or>
      (soff + n) mod fd_sector dev \<noteq> 0 \<and> i * fd_sector dev + soff + n = fd_size dev"
  shows "erase_region_case4 env dev i soff n ((n + soff) mod fd_sector dev) =
    dev\<lparr>fd_mem := erase_mem (fd_mem dev) (i * fd_sector dev + soff) n\<rparr>"
proof -
  let ?s = "fd_sector dev" and ?m = "fd_mem dev"
  let ?a = "i * ?s + soff" and ?l = "n - (?s - soff)"
  let ?k = "?l div ?s" and ?r = "(n + soff) mod ?s"
  have s: "0 < ?s" "?s dvd fd_size dev" using g by (auto simp: flash_geom_def)
  have lr: "?l mod ?s = ?r"
  proof -
    have "n + soff = ?l + ?s" using soff big by linarith
    then show ?thesis by (metis mod_add_self2)
  qed
  then have l: "?l = ?k * ?s + ?r" using div_mult_mod_eq [of ?l ?s] by simp
  have "?r < ?s" using s by simp
  have e: "(i + ?k + 1) * ?s = i * ?s + ?s + ?k * ?s" by (simp add: algebra_simps)
  have end1: "i * ?s + ?s + ?k * ?s + ?r = ?a + n" using l soff big by linarith
  have last: "(i + ?k + 1) * ?s < fd_size dev"
    using fit
  proof
    assume "i * ?s + soff + n < fd_size dev"
    then show ?thesis unfolding e using end1 by linarith
  next
    assume a: "(soff + n) mod ?s \<noteq> 0 \<and> i * ?s + soff + n = fd_size dev"
    then have "0 < ?r" by (simp add: add.commute)
    with a show ?thesis unfolding e using end1 by linarith
  qed
  have "i * ?s < fd_size dev" using last e by linarith
  note first = read_one_sector_inside [OF g this, of "replicate ?s 0", simplified]
  let ?m2 = "erase_mem ?m ?a (?s - soff)"
  let ?d2 = "dev\<lparr>fd_mem := ?m2\<rparr>"
  have d2: "snd (wm_hal_flash_write_pages env
      (snd (wm_hal_flash_erase_sectors dev (i * ?s) 1)) (i * ?s)
      (fill_ff (mem_slice ?m (i * ?s) ?s) soff ?s) (?s div fd_page dev)) = ?d2"
    using erase_patch_sector [OF g nor first(2), of soff ?s] soff by simp
  have a1: "?a + (?s - soff) = (i + 1) * ?s" using soff by (simp add: algebra_simps)
  let ?m3 = "erase_mem ?m ?a (?s - soff + ?k * ?s)"
  let ?d3 = "dev\<lparr>fd_mem := ?m3\<rparr>"
  have "(i + 1) * ?s + ?k * ?s = (i + ?k + 1) * ?s" by (simp add: algebra_simps)
  then have "(i + 1) * ?s + ?k * ?s \<le> 0x2000000" using last g by (simp add: flash_geom_def)
  then have d3: "(if ?k \<noteq> 0 then snd (wm_hal_flash_erase_sectors ?d2 ((i + 1) * ?s) ?k) else ?d2)
      = ?d3"
    using erase_sectors_spec [of ?d2 "i + 1" ?k] g erase_mem_append [of ?m ?a "?s - soff" "?k * ?s"]
    unfolding a1 by (cases "?k = 0") simp_all
  have g3: "flash_geom ?d3" using g by simp
  have b: "length (fill_ff (mem_slice ?m (i * ?s) ?s) soff ?s) = ?s"
    using soff by (simp add: fill_ff_def)
  note rd = read_one_sector_inside [of ?d3 "i + ?k + 1", OF g3 _ , simplified, OF last b]
  have "snd (wm_hal_flash_write_pages env
      (snd (wm_hal_flash_erase_sectors ?d3 ((i + ?k + 1) * ?s) 1)) ((i + ?k + 1) * ?s)
      (fill_ff (mem_slice ?m3 ((i + ?k + 1) * ?s) ?s) 0 ?r) (?s div fd_page dev)) =
      dev\<lparr>fd_mem := erase_mem ?m3 ((i + ?k + 1) * ?s) ?r\<rparr>"
    using erase_patch_sector [OF g3 nor, of "i + ?k + 1" 0 ?r] rd(2) \<open>?r < ?s\<close> by simp
  moreover have "erase_mem ?m3 ((i + ?k + 1) * ?s) ?r = erase_mem ?m ?a n"
  proof -
    have "(i + ?k + 1) * ?s = ?a + (?s - soff + ?k * ?s)" unfolding e using soff by linarith
    moreover have "?s - soff + ?k * ?s + ?r = n" using end1 soff by linarith
    ultimately show ?thesis
      using erase_mem_append [of ?m ?a "?s - soff + ?k * ?s" ?r] by simp
  qed
  moreover have "u32 (i * ?s) = i * ?s" "u32 ((i + 1) * ?s) = (i + 1) * ?s"
    "u32 ((i + ?k + 1) * ?s) = (i + ?k + 1) * ?s"
  proof -
    have "(i + ?k + 1) * ?s < 0x2000000" using last g by (simp add: flash_geom_def)
    moreover have "i * ?s \<le> (i + ?k + 1) * ?s" "(i + 1) * ?s \<le> (i + ?k + 1) * ?s"
      by (intro mult_le_mono1; simp)+
    ultimately have "i * ?s < 4294967296" "(i + 1) * ?s < 4294967296" "(i + ?k + 1) * ?s < 4294967296"
      by linarith+
    then show "u32 (i * ?s) = i * ?s" "u32 ((i + 1) * ?s) = (i + 1) * ?s"
      "u32 ((i + ?k + 1) * ?s) = (i + ?k + 1) * ?s" by (simp_all only: u32_id)
  qed
  ultimately show ?thesis
    by (simp only: erase_region_case4_def Let_def first(1) d2 d3 rd(1))
qed

lemma wm_drv_internal_flash_erase_region_spec:
  assumes g: "flash_geom dev" and nor: "nor_cells env" and al: "alloc_ok env (fd_sector dev)"
    and n: "0 < n" and ft: "WM_FT_REGION < off"
    and fit: "off + n < fd_size dev \<or>
      (off mod fd_sector dev = 0 \<or> (off + n) mod fd_sector dev \<noteq> 0) \<and> off + n = fd_size dev"
  shows "wm_drv_internal_flash_erase_region env dev off n =
    (WM_ERR_SUCCESS, dev\<lparr>fd_mem := erase_mem (fd_mem dev) off n\<rparr>)"
proof -
  let ?s = "fd_sector dev"
  let ?i = "off div ?s" and ?o = "off mod ?s"
  have s: "0 < ?s" and drv: "fd_drv dev" and sz: "fd_size dev \<le> 0x2000000"
    using g by (auto simp: flash_geom_def)
  have le: "off + n \<le> fd_size dev" using fit by auto
  then have u: "u32 (off + n) = off + n" using sz by simp
  have o: "?i * ?s + ?o = off" by simp
  have os: "?o < ?s" using s by simp
  have "n + ?o < 4294967296" "?o + n < 4294967296" "?i * ?s < 4294967296"
    using le sz o by linarith+
  then have v: "u32 (n + ?o) = n + ?o" "u32 (?o + n) = ?o + n" "u32 (?i * ?s) = ?i * ?s"
    by (simp_all only: u32_id)
  note defs = wm_drv_internal_flash_erase_region_def Let_def v
  consider (c1) "?o = 0" "(n + ?o) mod ?s = 0" | (c2) "?o = 0" "(n + ?o) mod ?s \<noteq> 0"
    | (c3) "?o \<noteq> 0" "?o + n \<le> ?s" | (c4) "?o \<noteq> 0" "?s < ?o + n" by linarith
  then show ?thesis
  proof cases
    case c1
    then have k: "n div ?s * ?s = n" "?i * ?s = off" by auto
    then have "off + n \<le> 0x2000000" using le sz by linarith
    then show ?thesis using erase_sectors_spec [OF g, of ?i "n div ?s"] c1 k assms u drv le
      by (simp add: defs)
  next
    case c2
    then have io: "?i * ?s = off" "u32 n = n" using v(1) by auto
    then show ?thesis using erase_region_case2_spec [OF g nor, of n "n mod ?s" ?i] c2 assms u drv le
      by (simp add: defs)
  next
    case c3
    then show ?thesis using erase_region_case3_spec [OF g nor, of ?o n ?i] assms u drv le
      by (simp add: defs)
  next
    case c4
    have m: "(?o + n) mod ?s = (off + n) mod ?s" by presburger
    have "?i * ?s + ?o + n < fd_size dev \<or>
      (?o + n) mod ?s \<noteq> 0 \<and> ?i * ?s + ?o + n = fd_size dev"
      using fit c4(1) unfolding m o by auto
    then show ?thesis using erase_region_case4_spec [OF g nor os c4(2), of ?i] c4 assms u drv le
      by (simp add: defs)
  qed
qed

section \<open>Ranges that wrap\<close>

text \<open>What a turn of the loop keeps wherever its sector lies, the loop one turn at a time, and a
  sector whose address wrapped to the start of the chip.\<close>

lemma length_read_pages_loop: "length (read_pages_loop dev a n) = n * fd_page dev"
  by (induction dev a n rule: read_pages_loop.induct) simp_all

lemma length_hal_read_pages:
  "n * fd_page dev \<le> length buf \<Longrightarrow> length (snd (wm_hal_flash_read_pages dev a buf n)) = length buf"
  by (simp add: wm_hal_flash_read_pages_def length_read_pages_loop)

lemma erase_sectors_loop_fields [simp]:
  "fd_drv (erase_sectors_loop dev a n) = fd_drv dev"
  "fd_page (erase_sectors_loop dev a n) = fd_page dev"
  "fd_sector (erase_sectors_loop dev a n) = fd_sector dev"
  "fd_size (erase_sectors_loop dev a n) = fd_size dev"
  by (induction dev a n rule: erase_sectors_loop.induct) auto

lemma hal_fields [simp]:
  "fd_drv (snd (wm_hal_flash_erase_sectors dev a n)) = fd_drv dev"
  "fd_page (snd (wm_hal_flash_erase_sectors dev a n)) = fd_page dev"
  "fd_sector (snd (wm_hal_flash_erase_sectors dev a n)) = fd_sector dev"
  "fd_size (snd (wm_hal_flash_erase_sectors dev a n)) = fd_size dev"
  "fd_drv (snd (wm_hal_flash_write_pages env dev a buf n)) = fd_drv dev"
  "fd_page (snd (wm_hal_flash_write_pages env dev a buf n)) = fd_page dev"
  "fd_sector (snd (wm_hal_flash_write_pages env dev a buf n)) = fd_sector dev"
  "fd_size (snd (wm_hal_flash_write_pages env dev a buf n)) = fd_size dev"
  by (simp_all add: wm_hal_flash_erase_sectors_def wm_hal_flash_write_pages_def)

lemma erase_write_sector_keeps:
  assumes "flash_geom dev" and "soff + r \<le> fd_sector dev" and "r \<le> length src"
    and "length tmp = fd_sector dev"
    and "iflash_erase_write_sector env dev idx soff r src tmp = (tb, dev')"
  shows "length tb = fd_sector dev" and "flash_geom dev'" and "fd_sector dev' = fd_sector dev"
    and "fd_size dev' = fd_size dev"
proof -
  have d: "fd_sector dev div fd_page dev * fd_page dev = fd_sector dev"
    using assms(1) by (simp add: flash_geom_def)
  then show "length tb = fd_sector dev"
    using assms(2-5) by (auto simp: iflash_erase_write_sector_def Let_def length_hal_read_pages)
  have f: "fd_drv dev' = fd_drv dev \<and> fd_page dev' = fd_page dev \<and> fd_sector dev' = fd_sector dev \<and>
      fd_size dev' = fd_size dev"
    using assms(5) by (auto simp: iflash_erase_write_sector_def Let_def)
  then show "fd_sector dev' = fd_sector dev" "fd_size dev' = fd_size dev" by simp_all
  show "flash_geom dev'" using f assms(1) by (simp add: flash_geom_def)
qed

lemma erase_write_loop_last:
  assumes "iflash_erase_write_sector env dev idx soff r src tmp = (tb, dev')"
  shows "iflash_erase_write_loop env dev idx soff r src r tmp = dev'"
  using assms by (subst iflash_erase_write_loop.simps) simp

lemma erase_write_loop_turn:
  assumes "iflash_erase_write_sector env dev idx soff r src tmp = (tb, dev')"
    and "0 < r" and "0 < k" and "k \<le> fd_sector dev"
  shows "iflash_erase_write_loop env dev idx soff r src (r + k) tmp =
    iflash_erase_write_loop env dev' (u32 (idx + 1)) 0 k (drop r src) k tb"
  using assms by (subst iflash_erase_write_loop.simps) (simp add: Let_def)

lemma erase_write_sector_wrapped:
  "u32 (idx * fd_sector dev) = 0 \<Longrightarrow>
   iflash_erase_write_sector env dev idx soff r src tmp = iflash_erase_write_sector env dev 0 soff r src tmp"
  by (simp add: iflash_erase_write_sector_def)

end
