(* ===== verification/PartitionTable.thy ===== *)
theory PartitionTable
  imports InternalFlashSpec
begin

text \<open>
  The partition table (\<open>wm_partition_table.c\<close>): reading and verifying the table that the
  flashing tool burns, and finding a partition by name. The argument \<open>dev\<close> is the result of
  \<open>wm_dt_get_device_by_name ("iflash")\<close>, \<open>tbl_off\<close> the build's
  \<open>CONFIG_WM_PARTITION_TABLE_OFFSET\<close>. The loop counter of the lookup is a \<open>uint8_t\<close>, so
  the lookup loop is a partial function: it diverges on a table of 256 or more items, which
  the size check of the initialisation excludes.
\<close>

definition WM_PARTITION_TABLE_MAGIC_NUMBER :: nat where
  "WM_PARTITION_TABLE_MAGIC_NUMBER = 0xA1F2F39F"

section \<open>Data\<close>

record part_header =
  ph_magic :: nat
  ph_version :: nat
  ph_count :: nat
  ph_option :: nat

record part_item =
  pi_name :: bytes
  pi_offset :: nat
  pi_size :: nat
  pi_flag :: nat

text \<open>The file-scope variables.\<close>

record part_table =
  g_verified :: bool
  g_addr :: nat
  g_count :: nat

definition part_header_of_bytes :: "bytes \<Rightarrow> part_header" where
  "part_header_of_bytes bs =
     \<lparr>ph_magic = le_nat (take 4 bs), ph_version = le_nat (take 2 (drop 4 bs)),
      ph_count = le_nat (take 2 (drop 6 bs)), ph_option = le_nat (take 4 (drop 8 bs))\<rparr>"

definition part_item_of_bytes :: "bytes \<Rightarrow> part_item" where
  "part_item_of_bytes bs =
     \<lparr>pi_name = take 16 bs, pi_offset = le_nat (take 4 (drop 16 bs)),
      pi_size = le_nat (take 4 (drop 20 bs)), pi_flag = le_nat (take 4 (drop 24 bs))\<rparr>"

definition part_item_bytes :: "part_item \<Rightarrow> bytes" where
  "part_item_bytes it =
     pi_name it @ le_bytes 4 (pi_offset it) @ le_bytes 4 (pi_size it) @ le_bytes 4 (pi_flag it)"

abbreviation (input) PART_HEADER_SIZE :: nat where "PART_HEADER_SIZE \<equiv> 12"
abbreviation (input) PART_ITEM_SIZE :: nat where "PART_ITEM_SIZE \<equiv> 28"
abbreviation (input) PART_MD5_SIZE :: nat where "PART_MD5_SIZE \<equiv> 16"

section \<open>Initialisation\<close>

text \<open>The items of the buffer, and the check that each of them ends inside the chip; the sum
  is computed in 32 bits.\<close>

fun part_items :: "bytes \<Rightarrow> nat \<Rightarrow> part_item list" where
  "part_items bs 0 = []"
| "part_items bs (Suc n) = part_item_of_bytes (take 28 bs) # part_items (drop 28 bs) n"

definition part_items_fit :: "part_item list \<Rightarrow> nat \<Rightarrow> bool" where
  "part_items_fit items flash_size =
     list_all (\<lambda>it. u32 (pi_offset it + pi_size it) \<le> flash_size) items"

text \<open>The second half of the initialisation: the body, its checksum and its items.\<close>

definition part_table_verify ::
  "env \<Rightarrow> flash_dev option \<Rightarrow> part_table \<Rightarrow> flash_info \<Rightarrow> bytes \<Rightarrow> nat \<Rightarrow> int \<times> part_table" where
  "part_table_verify env dev g fls_info header count =
     (let total = PART_HEADER_SIZE + count * PART_ITEM_SIZE + PART_MD5_SIZE
      in if total > fi_sector_size fls_info then (WM_ERR_FAILED, g)
         else if \<not> alloc_ok env total then (WM_ERR_NO_MEM, g)
         else case wm_drv_flash_read env dev (g_addr g + PART_HEADER_SIZE)
                 (Some (replicate (count * PART_ITEM_SIZE + PART_MD5_SIZE) 0))
                 (count * PART_ITEM_SIZE + PART_MD5_SIZE) of
            (ret, body) \<Rightarrow>
              if ret \<noteq> 0 then (ret, g)
              else let body = the body;
                       md5_in = header @ take (count * PART_ITEM_SIZE) body;
                       (r, md5_checksum) = md5 env md5_in
                   in if r \<noteq> 0 \<or> drop (count * PART_ITEM_SIZE) body \<noteq> take 16 md5_checksum
                      then (WM_ERR_FAILED, g)
                      else if \<not> part_items_fit (part_items body count) (fi_flash_size fls_info)
                      then (WM_ERR_FAILED, g)
                      else (WM_ERR_SUCCESS, g\<lparr>g_count := count, g_verified := True\<rparr>))"

definition wm_partition_table_init ::
  "env \<Rightarrow> flash_dev option \<Rightarrow> nat \<Rightarrow> part_table \<Rightarrow> int \<times> part_table" where
  "wm_partition_table_init env dev tbl_off g =
     (case dev of
        None \<Rightarrow> (WM_ERR_FAILED, g)
      | Some d \<Rightarrow>
          (case wm_drv_flash_get_device_info dev of
             (ret, None) \<Rightarrow> (ret, g)
           | (ret, Some fls_info) \<Rightarrow>
               let g = g\<lparr>g_addr := tbl_off\<rparr>
               in case wm_drv_flash_read env dev tbl_off (Some (replicate PART_HEADER_SIZE 0))
                         PART_HEADER_SIZE of
                    (ret, hb) \<Rightarrow>
                      if ret \<noteq> 0 then (ret, g)
                      else let h = part_header_of_bytes (the hb)
                           in if ph_magic h \<noteq> WM_PARTITION_TABLE_MAGIC_NUMBER
                              then (WM_ERR_FAILED, g)
                              else part_table_verify env dev g fls_info (the hb) (ph_count h)))"

section \<open>Lookup\<close>

partial_function (option) part_find_loop ::
  "bytes \<Rightarrow> bytes \<Rightarrow> nat \<Rightarrow> nat \<Rightarrow> (int \<times> part_item option) option" where
  "part_find_loop name items i count =
     (if i < count then
        (let it = part_item_of_bytes (take 28 items)
         in if strcmp_eq name (pi_name it) then Some (WM_ERR_SUCCESS, Some it)
            else part_find_loop name (drop 28 items) (u8n (i + 1)) count)
      else Some (WM_ERR_NOT_FOUND, None))"

text \<open>The result is the return code and the item written to the caller; \<open>None\<close> as a whole
  is a lookup that does not return.\<close>

definition wm_partition_table_find ::
  "env \<Rightarrow> flash_dev option \<Rightarrow> part_table \<Rightarrow> bytes option \<Rightarrow> (int \<times> part_item option) option" where
  "wm_partition_table_find env dev g name =
     (case name of
        None \<Rightarrow> Some (WM_ERR_INVALID_PARAM, None)
      | Some nm \<Rightarrow>
          if \<not> g_verified g then Some (WM_ERR_NO_INITED, None)
          else if \<not> alloc_ok env (g_count g * PART_ITEM_SIZE) then Some (WM_ERR_NO_MEM, None)
          else case wm_drv_flash_read env dev (g_addr g + PART_HEADER_SIZE)
                      (Some (replicate (g_count g * PART_ITEM_SIZE) 0)) (g_count g * PART_ITEM_SIZE) of
                 (ret, buf) \<Rightarrow>
                   if ret \<noteq> 0 then Some (ret, None)
                   else part_find_loop nm (the buf) 0 (g_count g))"

section \<open>What the lookup does\<close>

lemma length_part_items [simp]: "length (part_items bs n) = n"
  by (induction n arbitrary: bs) auto

text \<open>A table that passed the size check has few enough items for the 8-bit counter.\<close>

lemma part_table_verify_count:
  assumes "part_table_verify env dev g info h n = (WM_ERR_SUCCESS, g')" "fi_sector_size info \<le> 4096"
  shows "g_count g' = n \<and> g_verified g' \<and> n \<le> 145 \<and> g_addr g' = g_addr g"
  using assms unfolding part_table_verify_def Let_def
  by (auto split: if_splits prod.splits)

lemma part_find_loop_spec:
  "i + n \<le> 255 \<Longrightarrow> part_find_loop name bs i (i + n) =
     Some (case find (\<lambda>it. strcmp_eq name (pi_name it)) (part_items bs n) of
             None \<Rightarrow> (WM_ERR_NOT_FOUND, None) | Some it \<Rightarrow> (WM_ERR_SUCCESS, Some it))"
proof (induction n arbitrary: i bs)
  case 0
  then show ?case by (subst part_find_loop.simps) simp
next
  case (Suc n)
  then have "u8n (i + 1) = i + 1" by simp
  moreover have "i + Suc n = i + 1 + n" by simp
  moreover note Suc.IH [of "i + 1" "drop 28 bs"] Suc.prems
  ultimately show ?case
    by (subst part_find_loop.simps) (simp only: Let_def, simp)
qed

lemma part_item_roundtrip:
  assumes "length (pi_name it) = 16"
    and "pi_offset it < 2 ^ 32" "pi_size it < 2 ^ 32" "pi_flag it < 2 ^ 32"
  shows "part_item_of_bytes (part_item_bytes it) = it"
  using assms by (simp add: part_item_of_bytes_def part_item_bytes_def le_nat_le_bytes)

end
