(* ===== verification/NvsItem.thy ===== *)
theory NvsItem
  imports Prelude
begin

text \<open>
  The 32-byte entry head of the key-value store (\<open>wm_nvs_item.c\<close>, \<open>wm_nvs_item.h\<close>): its
  record, the flash image the packed C structure has on the little-endian core (bit fields
  from the low end), its span in slices, its two checksums and its initialisation. The last
  eight bytes are a union in C: they are kept as bytes, with a view for each of its members.
\<close>

section \<open>Constants\<close>

abbreviation (input) NVS_SLICE_SIZE :: nat where "NVS_SLICE_SIZE \<equiv> 32"
abbreviation (input) NVS_SECTION_SIZE :: nat where "NVS_SECTION_SIZE \<equiv> 4096"
abbreviation (input) NVS_ENTRY_COUNT :: nat where "NVS_ENTRY_COUNT \<equiv> 127"
abbreviation (input) NVS_SINGLE_ITEM_MAX_DATA :: nat where "NVS_SINGLE_ITEM_MAX_DATA \<equiv> 4032"
abbreviation (input) NVS_MAX_KEY_LEN :: nat where "NVS_MAX_KEY_LEN \<equiv> 15"
abbreviation (input) NVS_GROUP_ID_MAX :: nat where "NVS_GROUP_ID_MAX \<equiv> 63"
abbreviation (input) NVS_GROUP_ID_ANY :: nat where "NVS_GROUP_ID_ANY \<equiv> 63"
abbreviation (input) NVS_GROUP_ITSELF_ID :: nat where "NVS_GROUP_ITSELF_ID \<equiv> 0"
abbreviation (input) NVS_SEG_ID_ANY :: nat where "NVS_SEG_ID_ANY \<equiv> 255"
abbreviation (input) NVS_SEG_NUM_MAX :: nat where "NVS_SEG_NUM_MAX \<equiv> 127"

abbreviation (input) ITEM_UNUSED :: u8 where "ITEM_UNUSED \<equiv> 0xFF"
abbreviation (input) ITEM_USING :: u8 where "ITEM_USING \<equiv> 0xFE"
abbreviation (input) ITEM_DROPED :: u8 where "ITEM_DROPED \<equiv> 0xFC"

abbreviation (input) SEG_START_VER_0 :: nat where "SEG_START_VER_0 \<equiv> 0"
abbreviation (input) SEG_START_VER_1 :: nat where "SEG_START_VER_1 \<equiv> 0x80"
abbreviation (input) SEG_START_ANY :: nat where "SEG_START_ANY \<equiv> 0xFF"

abbreviation (input) TYPE_ANY :: nat where "TYPE_ANY \<equiv> 0"
abbreviation (input) TYPE_STRING :: nat where "TYPE_STRING \<equiv> 1"
abbreviation (input) TYPE_INT8 :: nat where "TYPE_INT8 \<equiv> 2"
abbreviation (input) TYPE_UINT8 :: nat where "TYPE_UINT8 \<equiv> 3"
abbreviation (input) TYPE_INT16 :: nat where "TYPE_INT16 \<equiv> 4"
abbreviation (input) TYPE_UINT16 :: nat where "TYPE_UINT16 \<equiv> 5"
abbreviation (input) TYPE_INT32 :: nat where "TYPE_INT32 \<equiv> 6"
abbreviation (input) TYPE_UINT32 :: nat where "TYPE_UINT32 \<equiv> 7"
abbreviation (input) TYPE_INT64 :: nat where "TYPE_INT64 \<equiv> 8"
abbreviation (input) TYPE_UINT64 :: nat where "TYPE_UINT64 \<equiv> 9"
abbreviation (input) TYPE_DOUBLE :: nat where "TYPE_DOUBLE \<equiv> 10"
abbreviation (input) TYPE_BINARY :: nat where "TYPE_BINARY \<equiv> 11"
abbreviation (input) TYPE_BLOB :: nat where "TYPE_BLOB \<equiv> 12"
abbreviation (input) TYPE_MAX :: nat where "TYPE_MAX \<equiv> 13"
abbreviation (input) TYPE_BLOB_SEG :: nat where "TYPE_BLOB_SEG \<equiv> 13"
abbreviation (input) TYPE_ANY_WITHOUT_SEG :: nat where "TYPE_ANY_WITHOUT_SEG \<equiv> 14"

section \<open>The item\<close>

record item =
  it_state :: u8
  it_name :: bytes
  it_group_id :: nat
  it_recv1 :: nat
  it_seg_id :: nat
  it_type :: nat
  it_length :: nat
  it_crc_item :: crc
  it_data :: bytes

definition item_wf :: "item \<Rightarrow> bool" where
  "item_wf it \<longleftrightarrow> length (it_name it) = 15 \<and> it_group_id it < 64 \<and> it_recv1 it < 4 \<and>
     it_seg_id it < 256 \<and> it_type it < 16 \<and> it_length it < 4096 \<and> length (it_data it) = 8"

definition item_tag :: "item \<Rightarrow> bytes" where
  "item_tag it = [of_nat (it_group_id it + 64 * it_recv1 it), of_nat (it_seg_id it)]"

definition item_len_bytes :: "item \<Rightarrow> bytes" where
  "item_len_bytes it = le_bytes 2 (it_type it + 16 * it_length it)"

definition item_bytes :: "item \<Rightarrow> bytes" where
  "item_bytes it = it_state it # it_name it @ item_tag it @ item_len_bytes it @
     crc_bytes (it_crc_item it) @ it_data it"

definition item_of_bytes :: "bytes \<Rightarrow> item" where
  "item_of_bytes bs =
     \<lparr>it_state = bs ! 0, it_name = take 15 (drop 1 bs),
      it_group_id = unat (bs ! 16) mod 64, it_recv1 = unat (bs ! 16) div 64,
      it_seg_id = unat (bs ! 17),
      it_type = le_nat (take 2 (drop 18 bs)) mod 16,
      it_length = le_nat (take 2 (drop 18 bs)) div 16,
      it_crc_item = crc_of (take 4 (drop 20 bs)), it_data = take 8 (drop 24 bs)\<rparr>"

text \<open>The members of the union.\<close>

definition it_all_size :: "item \<Rightarrow> nat" where "it_all_size it = le_nat (take 4 (it_data it))"
definition it_seg_count :: "item \<Rightarrow> nat" where "it_seg_count it = unat (it_data it ! 4)"
definition it_seg_start :: "item \<Rightarrow> nat" where "it_seg_start it = unat (it_data it ! 5)"
definition it_crc_data :: "item \<Rightarrow> crc" where "it_crc_data it = crc_of (take 4 (it_data it))"

definition set_blob_desc :: "item \<Rightarrow> nat \<Rightarrow> nat \<Rightarrow> nat \<Rightarrow> item" where
  "set_blob_desc it all_size seg_count seg_start =
     it\<lparr>it_data := le_bytes 4 all_size @ [of_nat seg_count, of_nat seg_start] @ drop 6 (it_data it)\<rparr>"

section \<open>Operations\<close>

definition wm_nvs_item_get_span :: "item \<Rightarrow> nat" where
  "wm_nvs_item_get_span it =
     (if it_length it > 8 then 1 + (it_length it + (NVS_SLICE_SIZE - 1)) div NVS_SLICE_SIZE else 1)"

text \<open>\<open>wm_nvs_port_crc32\<close>: the driver's CRC32 unit, or the seed when there is no CRC device.\<close>

definition wm_nvs_port_crc32 :: "env \<Rightarrow> crc \<Rightarrow> bytes \<Rightarrow> crc" where
  "wm_nvs_port_crc32 env last_crc data = (if crc_dev env then crc32 env last_crc data else last_crc)"

definition wm_nvs_item_crc_hash :: "env \<Rightarrow> item \<Rightarrow> crc" where
  "wm_nvs_item_crc_hash env it = wm_nvs_port_crc32 env 0xFFFFFFFF (it_name it @ item_tag it)"

definition wm_nvs_item_crc_head :: "env \<Rightarrow> item \<Rightarrow> crc" where
  "wm_nvs_item_crc_head env it =
     wm_nvs_port_crc32 env
       (wm_nvs_port_crc32 env 0xFFFFFFFF (it_name it @ item_tag it @ item_len_bytes it))
       (it_data it)"

text \<open>The name field of a key: its bytes, a terminator if there is room, then the \<open>0xFF\<close> fill.\<close>

definition key_field :: "bytes \<Rightarrow> bytes" where
  "key_field key =
     (let key_len = strnlen key NVS_MAX_KEY_LEN;
          name = overlay (replicate 15 0xFF) 0 (take key_len key)
      in if key_len < NVS_MAX_KEY_LEN then name[key_len := 0] else name)"

definition wm_nvs_item_init ::
  "env \<Rightarrow> u8 \<Rightarrow> nat \<Rightarrow> nat \<Rightarrow> bytes \<Rightarrow> bytes option \<Rightarrow> nat \<Rightarrow> nat \<Rightarrow> item" where
  "wm_nvs_item_init env state group_id type key data len seg_id =
     (let it = \<lparr>it_state = state, it_name = key_field key, it_group_id = group_id mod 64,
                it_recv1 = 0, it_seg_id = u8n seg_id, it_type = type mod 16,
                it_length = len mod 4096, it_crc_item = 0xFFFFFFFF,
                it_data = replicate 8 0xFF\<rparr>
      in case data of
           None \<Rightarrow> it
         | Some d \<Rightarrow>
             let it = (if len > 8
                       then it\<lparr>it_data := overlay (it_data it) 0
                                 (crc_bytes (wm_nvs_port_crc32 env 0xFFFFFFFF (take len d)))\<rparr>
                       else it\<lparr>it_data := overlay (it_data it) 0 (take len d)\<rparr>)
             in it\<lparr>it_crc_item := wm_nvs_item_crc_head env it\<rparr>)"

section \<open>The flash image\<close>

lemma length_item_tag [simp]: "length (item_tag it) = 2"
  by (simp add: item_tag_def)

lemma length_item_len_bytes [simp]: "length (item_len_bytes it) = 2"
  by (simp add: item_len_bytes_def)

lemma length_item_bytes [simp]: "item_wf it \<Longrightarrow> length (item_bytes it) = 32"
  by (simp add: item_bytes_def item_wf_def)

lemma item_bytes_state [simp]: "item_bytes it ! 0 = it_state it"
  by (simp add: item_bytes_def)

lemma nth_item_bytes_16:
  assumes "length (it_name it) = 15"
  shows "item_bytes it ! 16 = of_nat (it_group_id it + 64 * it_recv1 it)"
    and "item_bytes it ! 17 = of_nat (it_seg_id it)"
proof -
  have "drop 15 (tl (item_bytes it)) =
      item_tag it @ item_len_bytes it @ crc_bytes (it_crc_item it) @ it_data it"
    using assms by (simp add: item_bytes_def)
  then have d: "drop 16 (item_bytes it) =
      item_tag it @ item_len_bytes it @ crc_bytes (it_crc_item it) @ it_data it"
    by (simp add: drop_Suc item_bytes_def assms)
  have "16 \<le> length (item_bytes it)" using assms by (simp add: item_bytes_def)
  then have "item_bytes it ! 16 = drop 16 (item_bytes it) ! 0"
    and "item_bytes it ! 17 = drop 16 (item_bytes it) ! 1" by (simp_all add: nth_drop)
  then show "item_bytes it ! 16 = of_nat (it_group_id it + 64 * it_recv1 it)"
    and "item_bytes it ! 17 = of_nat (it_seg_id it)"
    by (simp_all add: d item_tag_def One_nat_def)
qed

lemma item_of_bytes_item_bytes:
  assumes "item_wf it"
  shows "item_of_bytes (item_bytes it) = it"
proof -
  have n: "length (it_name it) = 15" and d: "length (it_data it) = 8"
    using assms by (auto simp: item_wf_def)
  let ?b = "item_bytes it"
  have 1: "take 15 (drop 1 ?b) = it_name it" using n by (simp add: item_bytes_def One_nat_def)
  have 2: "take 2 (drop 18 ?b) = item_len_bytes it" "take 4 (drop 20 ?b) = crc_bytes (it_crc_item it)"
    "take 8 (drop 24 ?b) = it_data it"
    using n d by (simp_all add: item_bytes_def numeral_eq_Suc item_tag_def)
  have g: "unat (?b ! 16) = it_group_id it + 64 * it_recv1 it" "unat (?b ! 17) = it_seg_id it"
    using assms by (simp_all add: nth_item_bytes_16 item_wf_def del: of_nat_add)
  have t: "le_nat (item_len_bytes it) = it_type it + 16 * it_length it"
    using assms by (simp add: item_len_bytes_def le_nat_le_bytes item_wf_def)
  show ?thesis using assms unfolding item_of_bytes_def g 1 2 t
    by (simp add: item_wf_def)
qed

lemma item_of_bytes_wf:
  assumes "length bs = 32"
  shows "item_wf (item_of_bytes bs)"
proof -
  have "le_nat (take 2 (drop 18 bs)) < 256 ^ length (take 2 (drop 18 bs))" by (rule le_nat_lt)
  with assms have "le_nat (take 2 (drop 18 bs)) < 65536" by simp
  moreover have "unat (bs ! 16) div 64 < 4"
    by (rule less_mult_imp_div_less) (use u8_lt [of "bs ! 16"] in simp)
  ultimately show ?thesis using assms u8_lt [of "bs ! 17"]
    by (auto simp: item_wf_def item_of_bytes_def)
qed

lemma item_state_of_bytes [simp]: "it_state (item_of_bytes bs) = bs ! 0"
  by (simp add: item_of_bytes_def)

section \<open>Bounds\<close>

lemma span_pos [simp]: "0 < wm_nvs_item_get_span it" "wm_nvs_item_get_span it \<noteq> 0"
  by (auto simp: wm_nvs_item_get_span_def)

lemma span_ge_1: "1 \<le> wm_nvs_item_get_span it"
  using span_pos(1) [of it] by linarith

lemma span_bound: "item_wf it \<Longrightarrow> wm_nvs_item_get_span it \<le> 129"
  by (auto simp: wm_nvs_item_get_span_def item_wf_def)

lemma span_covers: "8 < it_length it \<Longrightarrow> it_length it \<le> (wm_nvs_item_get_span it - 1) * 32"
  by (simp add: wm_nvs_item_get_span_def)

lemma length_key_field [simp]: "length (key_field key) = 15"
proof -
  have "length (take (strnlen key 15) key) \<le> 15" by (simp add: min_le_iff_disj)
  then have "length (overlay (replicate 15 0xFF) 0 (take (strnlen key 15) key)) = 15"
    by (subst length_overlay) simp_all
  then show ?thesis by (simp add: key_field_def Let_def)
qed

lemma item_init_wf:
  assumes "case data of None \<Rightarrow> True | Some d \<Rightarrow> len \<le> length d"
  shows "item_wf (wm_nvs_item_init env st gid type key data len seg)"
  using assms
  by (auto simp: wm_nvs_item_init_def item_wf_def Let_def split: option.splits)

lemma item_init_fields [simp]:
  "it_state (wm_nvs_item_init env st gid type key data len seg) = st"
  "it_name (wm_nvs_item_init env st gid type key data len seg) = key_field key"
  "it_group_id (wm_nvs_item_init env st gid type key data len seg) = gid mod 64"
  "it_recv1 (wm_nvs_item_init env st gid type key data len seg) = 0"
  "it_seg_id (wm_nvs_item_init env st gid type key data len seg) = u8n seg"
  "it_type (wm_nvs_item_init env st gid type key data len seg) = type mod 16"
  "it_length (wm_nvs_item_init env st gid type key data len seg) = len mod 4096"
  by (auto simp: wm_nvs_item_init_def Let_def split: option.splits)

lemma crc_head_upd [simp]:
  "wm_nvs_item_crc_head env (it\<lparr>it_crc_item := c\<rparr>) = wm_nvs_item_crc_head env it"
  "wm_nvs_item_crc_head env (it\<lparr>it_state := s\<rparr>) = wm_nvs_item_crc_head env it"
  by (simp_all add: wm_nvs_item_crc_head_def item_tag_def item_len_bytes_def)

lemma item_init_crc:
  "it_crc_item (wm_nvs_item_init env st gid type key (Some d) len seg) =
   wm_nvs_item_crc_head env (wm_nvs_item_init env st gid type key (Some d) len seg)"
  by (simp add: wm_nvs_item_init_def Let_def)

lemma crc_hash_upd [simp]:
  "wm_nvs_item_crc_hash env (it\<lparr>it_state := s\<rparr>) = wm_nvs_item_crc_hash env it"
  by (simp add: wm_nvs_item_crc_hash_def item_tag_def)

lemma crc_hash_init:
  "wm_nvs_item_crc_hash env (wm_nvs_item_init env st gid type key data len seg) =
   wm_nvs_port_crc32 env 0xFFFFFFFF (key_field key @ [of_nat (gid mod 64), of_nat (u8n seg)])"
  by (simp add: wm_nvs_item_crc_hash_def item_tag_def)

end
