(* ===== verification/Interfaces.thy ===== *)
theory Interfaces
  imports Prelude
begin

text \<open>
  The contracts between the layers, each stated once for any provider: a window of NOR flash
  (what the partition promises to the sectors), a table of hashed positions (what the hash
  list promises to the sector lookup), and a store of records (what the storage promises to
  the public functions). The lemmas a client needs are proved here from the contract alone;
  the theories of the providers interpret the locales on the modelled operations.
\<close>

section \<open>A window of NOR flash\<close>

locale nor_window =
  fixes ok :: "'d \<Rightarrow> bool"
    and cell :: "'d \<Rightarrow> nat \<Rightarrow> u8"
    and prog :: "'d \<Rightarrow> nat \<Rightarrow> bytes \<Rightarrow> 'd"
    and wipe :: "'d \<Rightarrow> nat \<Rightarrow> 'd"
    and unit_size :: nat
  assumes ok_prog: "ok d \<Longrightarrow> ok (prog d a bs)"
    and ok_wipe: "ok d \<Longrightarrow> ok (wipe d a)"
    and cell_prog: "ok d \<Longrightarrow> cell (prog d a bs) x =
      (if a \<le> x \<and> x < a + length bs then cell d x AND bs ! (x - a) else cell d x)"
    and cell_wipe: "ok d \<Longrightarrow> cell (wipe d a) x =
      (if a \<le> x \<and> x < a + unit_size then 0xFF else cell d x)"
begin

lemma prog_blank:
  assumes "ok d" and "\<And>x. a \<le> x \<Longrightarrow> x < a + length bs \<Longrightarrow> cell d x = 0xFF" and "i < length bs"
  shows "cell (prog d a bs) (a + i) = bs ! i"
  using assms by (simp add: cell_prog)

lemma prog_clears:
  assumes "ok d"
  shows "cell (prog d a bs) x AND cell d x = cell (prog d a bs) x"
  using assms by (simp add: cell_prog ac_simps)

lemma prog_seq_clears:
  assumes "ok d"
  shows "ok (fold (\<lambda>(a, bs) d. prog d a bs) ws d)"
    and "cell (fold (\<lambda>(a, bs) d. prog d a bs) ws d) x AND cell d x =
      cell (fold (\<lambda>(a, bs) d. prog d a bs) ws d) x"
proof -
  have "ok (fold (\<lambda>(a, bs) d. prog d a bs) ws d) \<and>
    cell (fold (\<lambda>(a, bs) d. prog d a bs) ws d) x AND cell d x =
      cell (fold (\<lambda>(a, bs) d. prog d a bs) ws d) x"
    using assms
  proof (induction ws arbitrary: d)
    case (Cons w ws)
    obtain a bs where w: "w = (a, bs)" by (cases w)
    let ?d = "prog d a bs" and ?e = "fold (\<lambda>(a, bs) d. prog d a bs) ws (prog d a bs)"
    have IH: "ok ?e" "cell ?e x AND cell ?d x = cell ?e x" using Cons(1) [OF ok_prog [OF Cons(2)]] by auto
    have "cell ?e x AND cell d x = (cell ?e x AND cell ?d x) AND cell d x" using IH by simp
    also have "\<dots> = cell ?e x AND (cell ?d x AND cell d x)" by (simp only: and.assoc)
    also have "\<dots> = cell ?e x" using prog_clears [OF Cons(2), of a bs x] IH(2) by simp
    finally show ?case using IH(1) w by simp
  qed simp
  then show "ok (fold (\<lambda>(a, bs) d. prog d a bs) ws d)"
    and "cell (fold (\<lambda>(a, bs) d. prog d a bs) ws d) x AND cell d x =
      cell (fold (\<lambda>(a, bs) d. prog d a bs) ws d) x" by auto
qed

text \<open>After a wipe the window takes any data.\<close>

lemma wipe_prog:
  assumes "ok d" and "b \<le> a" and "a + length bs \<le> b + unit_size" and "i < length bs"
  shows "cell (prog (wipe d b) a bs) (a + i) = bs ! i"
  using assms by (intro prog_blank) (auto simp: ok_wipe cell_wipe)

end

section \<open>A table of hashed positions\<close>

lemma find_append: "find P (xs @ ys) = (case find P xs of None \<Rightarrow> find P ys | Some x \<Rightarrow> Some x)"
  by (induction xs) auto

lemma find_SomeD: "find P xs = Some x \<Longrightarrow> x \<in> set xs \<and> P x"
  by (auto simp: find_Some_iff)

locale hash_table =
  fixes inv :: "'h \<Rightarrow> bool"
    and list_of :: "'h \<Rightarrow> (nat \<times> nat) list"
    and append :: "'h \<Rightarrow> 'i \<Rightarrow> nat \<Rightarrow> 'h"
    and erase :: "'h \<Rightarrow> nat \<Rightarrow> 'h"
    and lookup :: "'h \<Rightarrow> nat \<Rightarrow> 'i \<Rightarrow> int"
    and key :: "'i \<Rightarrow> nat"
    and cap :: nat
  assumes append_inv: "inv h \<Longrightarrow> length (list_of h) < cap \<Longrightarrow> i < cap \<Longrightarrow> inv (append h it i)"
    and append_list: "inv h \<Longrightarrow> length (list_of h) < cap \<Longrightarrow> i < cap \<Longrightarrow>
      list_of (append h it i) = list_of h @ [(key it, i)]"
    and erase_inv: "inv h \<Longrightarrow> distinct (map snd (list_of h)) \<Longrightarrow> i < cap \<Longrightarrow> inv (erase h i)"
    and erase_list: "inv h \<Longrightarrow> distinct (map snd (list_of h)) \<Longrightarrow> i < cap \<Longrightarrow>
      list_of (erase h i) = filter (\<lambda>x. snd x \<noteq> i) (list_of h)"
    and lookup_list: "inv h \<Longrightarrow> lookup h start it =
      (case find (\<lambda>(c, i). start \<le> i \<and> c = key it) (list_of h) of None \<Rightarrow> -1 | Some (c, i) \<Rightarrow> int i)"
begin

text \<open>What was appended is found, unless something older answers first.\<close>

lemma lookup_append:
  assumes "inv h" and "length (list_of h) < cap" and "i < cap" and "start \<le> i"
  shows "lookup (append h it i) start it =
    (if lookup h start it = -1 then int i else lookup h start it)"
proof -
  show ?thesis
    using assms append_inv append_list by (auto simp: lookup_list find_append split: option.splits)
qed

text \<open>An erased position is never found again.\<close>

lemma lookup_erase:
  assumes "inv h" and "distinct (map snd (list_of h))" and "i < cap"
  shows "lookup (erase h i) start it \<noteq> int i"
proof
  assume a: "lookup (erase h i) start it = int i"
  have l: "list_of (erase h i) = filter (\<lambda>x. snd x \<noteq> i) (list_of h)" "inv (erase h i)"
    using assms erase_list erase_inv by auto
  then obtain c where "find (\<lambda>(c, i). start \<le> i \<and> c = key it) (filter (\<lambda>x. snd x \<noteq> i) (list_of h)) = Some (c, i)"
    using a by (auto simp: lookup_list split: option.splits)
  from find_SomeD [OF this] show False by simp
qed

text \<open>A run of appends to an empty table, then lookups: the first position of each key.\<close>

lemma appends_list:
  assumes "inv h" and "length (list_of h) + length ps \<le> cap" and "\<forall>(it, i) \<in> set ps. i < cap"
  shows "inv (fold (\<lambda>(it, i) h. append h it i) ps h) \<and>
    list_of (fold (\<lambda>(it, i) h. append h it i) ps h) = list_of h @ map (\<lambda>(it, i). (key it, i)) ps"
  using assms
proof (induction ps arbitrary: h)
  case (Cons p ps)
  obtain it i where p: "p = (it, i)" by (cases p)
  have c: "length (list_of h) < cap" "i < cap" using Cons(3,4) p by auto
  have "length (list_of (append h it i)) + length ps \<le> cap"
    using append_list [OF Cons(2) c, of it] Cons(3) by simp
  then show ?case using Cons(1) [OF append_inv [OF Cons(2) c, of it]] append_list [OF Cons(2) c, of it] Cons(4) p
    by simp
qed simp

end

section \<open>A store of records\<close>

fun remove_first :: "('a \<Rightarrow> bool) \<Rightarrow> 'a list \<Rightarrow> 'a list" where
  "remove_first P [] = []"
| "remove_first P (x # xs) = (if P x then xs else x # remove_first P xs)"

lemma remove_first_split:
  "(\<And>y. y \<in> set A \<Longrightarrow> \<not> P y) \<Longrightarrow> P x \<Longrightarrow> remove_first P (A @ x # B) = A @ B"
  by (induction A) auto

lemma remove_first_none: "find P xs = None \<Longrightarrow> remove_first P xs = xs"
  by (induction xs) (auto split: if_splits)

lemma remove_first_append:
  "find P xs \<noteq> None \<Longrightarrow> remove_first P (xs @ ys) = remove_first P xs @ ys"
  by (induction xs) auto

lemma remove_first_filter: "filter P (remove_first P xs) = tl (filter P xs)"
  by (induction xs) auto

lemma remove_first_other:
  "(\<And>x. Q x \<Longrightarrow> \<not> P x) \<Longrightarrow> filter Q (remove_first P xs) = filter Q xs"
  by (induction xs) auto

lemma find_filter: "find P xs = (case filter P xs of [] \<Rightarrow> None | x # _ \<Rightarrow> Some x)"
  by (induction xs) auto

lemma filter_sub: "(\<And>x. P x \<Longrightarrow> Q x) \<Longrightarrow> filter P xs = filter P (filter Q xs)"
  by (induction xs) auto

text \<open>
  Keys are \<open>'k\<close>, types \<open>'t\<close>, values \<open>'v\<close>, stored records \<open>'r\<close>. A record can answer for a key
  with any type (\<open>owns\<close>) or with the wanted one (\<open>is_of\<close>).
\<close>

locale record_store =
  fixes ok :: "'s \<Rightarrow> bool"
    and content :: "'s \<Rightarrow> 'r list"
    and owns :: "'k \<Rightarrow> 'r \<Rightarrow> bool"
    and is_of :: "'t \<Rightarrow> 'k \<Rightarrow> 'r \<Rightarrow> bool"
    and val :: "'r \<Rightarrow> 'v"
    and mk :: "'t \<Rightarrow> 'k \<Rightarrow> 'v \<Rightarrow> 'r"
    and valid :: "'t \<Rightarrow> 'k \<Rightarrow> 'v \<Rightarrow> bool"
    and ready :: "'s \<Rightarrow> 'v \<Rightarrow> bool"
    and get :: "'s \<Rightarrow> 't \<Rightarrow> 'k \<Rightarrow> 'v option"
    and put :: "'s \<Rightarrow> 't \<Rightarrow> 'k \<Rightarrow> 'v \<Rightarrow> 's"
    and del :: "'s \<Rightarrow> 'k \<Rightarrow> 's"
  assumes get: "ok s \<Longrightarrow> valid t k w \<Longrightarrow> get s t k = map_option val (find (is_of t k) (content s))"
    and put_ok: "ok s \<Longrightarrow> valid t k v \<Longrightarrow> ready s v \<Longrightarrow> ok (put s t k v)"
    and put: "ok s \<Longrightarrow> valid t k v \<Longrightarrow> ready s v \<Longrightarrow>
      content (put s t k v) =
        (case find (owns k) (content s) of
           None \<Rightarrow> content s @ [mk t k v]
         | Some r \<Rightarrow> if is_of t k r \<and> val r = v then content s
                     else remove_first (owns k) (content s) @ [mk t k v])"
    and del_ok: "ok s \<Longrightarrow> ok (del s k)"
    and del: "ok s \<Longrightarrow> content (del s k) = remove_first (owns k) (content s)"
    and mk: "valid t k v \<Longrightarrow> is_of t k (mk t k v) \<and> val (mk t k v) = v"
    and is_of_owns: "valid t k v \<Longrightarrow> is_of t k r \<Longrightarrow> owns k r"
    and is_of_type: "valid t k v \<Longrightarrow> valid t' k v' \<Longrightarrow> is_of t k r \<Longrightarrow> is_of t' k r \<Longrightarrow> t = t'"
begin

text \<open>At most one record per key.\<close>

lemma put_unique:
  assumes "ok s" and "valid t k v" and "ready s v" and "length (filter (owns k) (content s)) \<le> 1"
  shows "length (filter (owns k) (content (put s t k v))) \<le> 1"
proof (cases "find (owns k) (content s)")
  case None
  then have "filter (owns k) (content s) = []" by (simp add: find_filter split: list.splits)
  with None assms(1-3) show ?thesis by (simp add: put)
next
  case (Some r)
  have "filter (owns k) (remove_first (owns k) (content s)) = []"
    using assms(4) by (cases "filter (owns k) (content s)") (auto simp: remove_first_filter)
  with Some assms show ?thesis by (simp add: put)
qed

text \<open>A value that was put is what a get of that key and type returns.\<close>

lemma get_put:
  assumes s: "ok s" and v: "valid t k v" and r: "ready s v"
    and u: "length (filter (owns k) (content s)) \<le> 1"
  shows "get (put s t k v) t k = Some v"
proof -
  have g: "get (put s t k v) t k = map_option val (find (is_of t k) (content (put s t k v)))"
    by (rule get [OF put_ok [OF s v r] v])
  have sub: "\<And>x. is_of t k x \<Longrightarrow> owns k x" by (rule is_of_owns [OF v])
  show ?thesis
  proof (cases "find (owns k) (content s)")
    case None
    then have "filter (owns k) (content s) = []" by (simp add: find_filter split: list.splits)
    then have "filter (is_of t k) (content s) = []" using filter_sub [where P = "is_of t k" and Q = "owns k", OF sub, where xs = "content s"] by simp
    then show ?thesis unfolding g find_filter using None mk [OF v] by (simp add: put [OF s v r])
  next
    case (Some x)
    have x: "filter (owns k) (content s) = [x]"
      using Some u by (auto simp: find_filter split: list.splits)
    show ?thesis
    proof (cases "is_of t k x \<and> val x = v")
      case True
      then have "filter (is_of t k) (content s) = [x]" using filter_sub [where P = "is_of t k" and Q = "owns k", OF sub, where xs = "content s"] x by simp
      then show ?thesis unfolding g find_filter using Some True by (simp add: put [OF s v r])
    next
      case False
      have "filter (owns k) (remove_first (owns k) (content s)) = []" using x by (simp add: remove_first_filter)
      then have "filter (is_of t k) (remove_first (owns k) (content s)) = []"
        using filter_sub [where P = "is_of t k" and Q = "owns k", OF sub, where xs = "remove_first (owns k) (content s)"] by simp
      moreover have "content (put s t k v) = remove_first (owns k) (content s) @ [mk t k v]"
        using Some False by (auto simp: put [OF s v r])
      ultimately show ?thesis unfolding g find_filter using mk [OF v] by simp
    qed
  qed
qed

lemma get_del:
  assumes s: "ok s" and v: "valid t k v" and u: "length (filter (owns k) (content s)) \<le> 1"
  shows "get (del s k) t k = None"
proof -
  have "filter (owns k) (remove_first (owns k) (content s)) = []"
    using u by (cases "filter (owns k) (content s)") (auto simp: remove_first_filter)
  then have "filter (is_of t k) (content (del s k)) = []"
    using filter_sub [where P = "is_of t k" and Q = "owns k", OF is_of_owns [OF v], where xs = "content (del s k)"] by (simp add: del [OF s])
  then show ?thesis by (simp add: get [OF del_ok [OF s] v] find_filter)
qed

text \<open>Another key does not notice.\<close>

lemma get_put_other:
  assumes s: "ok s" and v: "valid t k v" and r: "ready s v" and v': "valid t' k' w"
    and d: "\<And>x. owns k x \<Longrightarrow> \<not> owns k' x"
  shows "get (put s t k v) t' k' = get s t' k'"
proof -
  have o: "\<And>x. is_of t' k' x \<Longrightarrow> \<not> owns k x" using is_of_owns [OF v'] d by blast
  have "\<not> is_of t' k' (mk t k v)" using o is_of_owns [OF v] mk [OF v] by blast
  then have "filter (is_of t' k') (content (put s t k v)) = filter (is_of t' k') (content s)"
    using remove_first_other [where Q = "is_of t' k'" and P = "owns k", OF o, where xs = "content s"] by (simp add: put [OF s v r] split: option.splits)
  then show ?thesis by (simp add: get [OF put_ok [OF s v r] v'] get [OF s v'] find_filter)
qed

text \<open>
  Seen through a set of keys that never share a record, the store is a map from keys to typed
  values: \<open>sim ks m s\<close> relates the two, and every operation keeps it.
\<close>

definition apart :: "'k set \<Rightarrow> bool" where
  "apart ks \<longleftrightarrow> (\<forall>k \<in> ks. \<forall>k' \<in> ks. k \<noteq> k' \<longrightarrow> (\<forall>r. owns k r \<longrightarrow> \<not> owns k' r))"

definition sim :: "'k set \<Rightarrow> ('k \<rightharpoonup> 't \<times> 'v) \<Rightarrow> 's \<Rightarrow> bool" where
  "sim ks m s \<longleftrightarrow> ok s \<and>
     (\<forall>k \<in> ks. case m k of None \<Rightarrow> filter (owns k) (content s) = []
              | Some (t, v) \<Rightarrow> \<exists>r. filter (owns k) (content s) = [r] \<and> is_of t k r \<and> val r = v \<and> valid t k v)"

lemma sim_key:
  "sim ks m s \<Longrightarrow> k \<in> ks \<Longrightarrow> case m k of None \<Rightarrow> filter (owns k) (content s) = []
     | Some (t, v) \<Rightarrow> \<exists>r. filter (owns k) (content s) = [r] \<and> is_of t k r \<and> val r = v \<and> valid t k v"
  by (simp add: sim_def)

lemma sim_put:
  assumes s: "sim ks m s" and k: "k \<in> ks" and a: "apart ks" and v: "valid t k v" and rd: "ready s v"
  shows "sim ks (m(k \<mapsto> (t, v))) (put s t k v)"
proof -
  have ok: "ok s" using s by (simp add: sim_def)
  have o: "owns k (mk t k v)" using is_of_owns [OF v] mk [OF v] by blast
  have other: "filter (owns k') (content (put s t k v)) = filter (owns k') (content s)"
    if "k' \<in> ks" "k' \<noteq> k" for k'
  proof -
    have d: "\<And>x. owns k' x \<Longrightarrow> \<not> owns k x" using a k that by (auto simp: apart_def)
    have "\<not> owns k' (mk t k v)" using d o by blast
    then show ?thesis using remove_first_other [where Q = "owns k'" and P = "owns k", OF d, where xs = "content s"]
      by (simp add: put [OF ok v rd] split: option.splits)
  qed
  have same: "\<exists>r. filter (owns k) (content (put s t k v)) = [r] \<and> is_of t k r \<and> val r = v"
  proof (cases "find (owns k) (content s)")
    case None
    then have "filter (owns k) (content s) = []" by (simp add: find_filter split: list.splits)
    then show ?thesis using o mk [OF v] None by (simp add: put [OF ok v rd])
  next
    case (Some r)
    then obtain t' v' where r: "filter (owns k) (content s) = [r]"
      using sim_key [OF s k] by (auto simp: find_filter split: option.splits list.splits)
    show ?thesis
    proof (cases "is_of t k r \<and> val r = v")
      case True
      then show ?thesis using r Some by (simp add: put [OF ok v rd])
    next
      case False
      have "filter (owns k) (remove_first (owns k) (content s)) = []" using r by (simp add: remove_first_filter)
      moreover have "content (put s t k v) = remove_first (owns k) (content s) @ [mk t k v]"
        using Some False by (auto simp: put [OF ok v rd])
      ultimately show ?thesis using o mk [OF v] by simp
    qed
  qed
  show ?thesis
    unfolding sim_def
  proof (intro conjI ballI)
    show "ok (put s t k v)" by (rule put_ok [OF ok v rd])
    fix k' assume k': "k' \<in> ks"
    show "case (m(k \<mapsto> (t, v))) k' of None \<Rightarrow> filter (owns k') (content (put s t k v)) = []
      | Some (t', v') \<Rightarrow> \<exists>r. filter (owns k') (content (put s t k v)) = [r] \<and> is_of t' k' r \<and> val r = v' \<and> valid t' k' v'"
    proof (cases "k' = k")
      case True
      then show ?thesis using same v by simp
    next
      case False
      then show ?thesis using other [OF k' False] sim_key [OF s k'] by (auto split: option.splits)
    qed
  qed
qed

lemma sim_del:
  assumes s: "sim ks m s" and k: "k \<in> ks" and a: "apart ks"
  shows "sim ks (m(k := None)) (del s k)"
proof -
  have ok: "ok s" using s by (simp add: sim_def)
  have other: "filter (owns k') (content (del s k)) = filter (owns k') (content s)"
    if "k' \<in> ks" "k' \<noteq> k" for k'
  proof -
    have d: "\<And>x. owns k' x \<Longrightarrow> \<not> owns k x" using a k that by (auto simp: apart_def)
    show ?thesis using remove_first_other [where Q = "owns k'" and P = "owns k", OF d, where xs = "content s"]
      by (simp add: del [OF ok])
  qed
  have "length (filter (owns k) (content s)) \<le> 1" using sim_key [OF s k] by (auto split: option.splits)
  then have same: "filter (owns k) (content (del s k)) = []"
    by (cases "filter (owns k) (content s)") (auto simp: del [OF ok] remove_first_filter)
  show ?thesis
    unfolding sim_def
  proof (intro conjI ballI)
    show "ok (del s k)" by (rule del_ok [OF ok])
    fix k' assume k': "k' \<in> ks"
    show "case (m(k := None)) k' of None \<Rightarrow> filter (owns k') (content (del s k)) = []
      | Some (t', v') \<Rightarrow> \<exists>r. filter (owns k') (content (del s k)) = [r] \<and> is_of t' k' r \<and> val r = v' \<and> valid t' k' v'"
      using same other [OF k'] sim_key [OF s k']
      by (cases "k' = k") (auto split: option.splits)
  qed
qed

lemma sim_get:
  assumes s: "sim ks m s" and k: "k \<in> ks" and v: "valid t k w"
  shows "get s t k = (case m k of None \<Rightarrow> None | Some (t', v) \<Rightarrow> if t' = t then Some v else None)"
proof -
  have ok: "ok s" using s by (simp add: sim_def)
  have f: "filter (is_of t k) (content s) = filter (is_of t k) (filter (owns k) (content s))"
    by (rule filter_sub, rule is_of_owns [OF v])
  show ?thesis
  proof (cases "m k")
    case None
    then show ?thesis using sim_key [OF s k] f by (simp add: get [OF ok v] find_filter)
  next
    case (Some tv)
    obtain t' v' where tv: "tv = (t', v')" by (cases tv)
    then obtain r where r: "filter (owns k) (content s) = [r]" "is_of t' k r" "val r = v'" "valid t' k v'"
      using sim_key [OF s k] Some by auto
    have "is_of t k r \<longleftrightarrow> t' = t" using is_of_type [OF v r(4) _ r(2)] r(2) by auto
    then show ?thesis using f r Some tv by (simp add: get [OF ok v] find_filter)
  qed
qed

end

end
