(* ===== verification/NvsPartition.thy ===== *)
theory NvsPartition
  imports PartitionTable NvsItem Interfaces
begin

text \<open>
  The store's partition (\<open>wm_nvs_partition.c\<close>): a window of the flash device, found by name
  in the partition table, with bounds and read-only checks before every access. \<open>pt->dev\<close> is
  never null in an initialised partition, so the operations take the device itself and return
  it. A buffer argument is its content before the call; a failed read leaves it as it was.
\<close>

record pt =
  pt_name :: bytes
  pt_offset :: nat
  pt_sec_num :: nat
  pt_sec_size :: nat
  pt_size :: nat
  pt_encrypted :: nat
  pt_readonly :: nat

section \<open>Initialisation\<close>

definition WM_NVS_PARTITION_NAME_SIZE :: nat where "WM_NVS_PARTITION_NAME_SIZE = 16"

text \<open>What \<open>snprintf (name, 16, "%s", partition_name)\<close> writes, without the rest of the array.\<close>

definition pt_name_copy :: "bytes \<Rightarrow> bytes" where
  "pt_name_copy nm = takeWhile (\<lambda>b. b \<noteq> 0) (take (WM_NVS_PARTITION_NAME_SIZE - 1) nm)"

text \<open>\<open>None\<close>: the lookup in the partition table does not return. Otherwise the code and the
  partition as far as it has been filled in.\<close>

definition wm_nvs_pt_init ::
  "env \<Rightarrow> flash_dev option \<Rightarrow> part_table \<Rightarrow> bytes \<Rightarrow> pt \<Rightarrow> (int \<times> pt) option" where
  "wm_nvs_pt_init env dev g partition_name p =
     (case wm_partition_table_find env dev g (Some partition_name) of
        None \<Rightarrow> None
      | Some (ret, ptable) \<Rightarrow>
          Some (case ptable of
                  None \<Rightarrow> (WM_NVS_ERR_FAIL, p)
                | Some it \<Rightarrow>
                    if ret \<noteq> WM_NVS_ERR_OK then (WM_NVS_ERR_FAIL, p)
                    else if dev = None then (WM_NVS_ERR_FAIL, p)
                    else
                      let p = \<lparr>pt_name = pt_name_copy partition_name, pt_offset = pi_offset it,
                               pt_sec_num = u16n (pi_size it div NVS_SECTION_SIZE),
                               pt_sec_size = NVS_SECTION_SIZE, pt_size = pi_size it,
                               pt_encrypted = 0, pt_readonly = 0\<rparr>
                      in if (pt_sec_num p < 2 \<and> pt_readonly p = 0) \<or> pt_sec_num p < 1
                         then (WM_NVS_ERR_FAIL, p) else (WM_NVS_ERR_OK, p)))"

definition wm_nvs_pt_erase_all ::
  "env \<Rightarrow> flash_dev option \<Rightarrow> part_table \<Rightarrow> bytes \<Rightarrow> (int \<times> flash_dev option) option" where
  "wm_nvs_pt_erase_all env dev g partition_name =
     (case wm_partition_table_find env dev g (Some partition_name) of
        None \<Rightarrow> None
      | Some (ret, ptable) \<Rightarrow>
          Some (case ptable of
                  None \<Rightarrow> (WM_NVS_ERR_FAIL, dev)
                | Some it \<Rightarrow>
                    if ret \<noteq> WM_NVS_ERR_OK then (WM_NVS_ERR_FAIL, dev)
                    else case dev of
                           None \<Rightarrow> (WM_NVS_ERR_FAIL, None)
                         | Some d \<Rightarrow> wm_drv_flash_erase_region env (Some d) (pi_offset it) (pi_size it)))"

section \<open>Access\<close>

definition wm_nvs_pt_erase :: "pt \<Rightarrow> flash_dev \<Rightarrow> nat \<Rightarrow> int \<times> flash_dev" where
  "wm_nvs_pt_erase p dev address =
     (if pt_readonly p \<noteq> 0 then (WM_NVS_ERR_READ_ONLY, dev)
      else if \<not> (u32 (address + NVS_SECTION_SIZE) \<le> pt_size p) then (WM_NVS_ERR_INVALID_PARAM, dev)
      else apsnd the (wm_drv_flash_erase_sector (Some dev)
                        (u32 (pt_offset p + address) div NVS_SECTION_SIZE) 1))"

definition wm_nvs_pt_read :: "env \<Rightarrow> pt \<Rightarrow> flash_dev \<Rightarrow> nat \<Rightarrow> bytes \<Rightarrow> nat \<Rightarrow> int \<times> bytes" where
  "wm_nvs_pt_read env p dev address data len =
     (if \<not> (u32 (address + len) \<le> pt_size p) then (WM_NVS_ERR_INVALID_PARAM, data)
      else apsnd the (wm_drv_flash_read env (Some dev) (u32 (pt_offset p + address)) (Some data) len))"

definition wm_nvs_pt_write ::
  "env \<Rightarrow> pt \<Rightarrow> flash_dev \<Rightarrow> nat \<Rightarrow> bytes \<Rightarrow> nat \<Rightarrow> int \<times> flash_dev" where
  "wm_nvs_pt_write env p dev address data len =
     (if \<not> (u32 (address + len) \<le> pt_size p) then (WM_NVS_ERR_INVALID_PARAM, dev)
      else if pt_readonly p \<noteq> 0 then (WM_NVS_ERR_READ_ONLY, dev)
      else apsnd the (wm_drv_flash_write env (Some dev) (u32 (pt_offset p + address)) (Some data) len))"

definition wm_nvs_pt_read_raw ::
  "env \<Rightarrow> pt \<Rightarrow> flash_dev \<Rightarrow> nat \<Rightarrow> bytes \<Rightarrow> nat \<Rightarrow> int \<times> bytes" where
  "wm_nvs_pt_read_raw env p dev address data len =
     (if \<not> (u32 (address + len) \<le> pt_size p) then (WM_NVS_ERR_INVALID_PARAM, data)
      else apsnd the (wm_drv_flash_read env (Some dev) (u32 (pt_offset p + address)) (Some data) len))"

definition wm_nvs_pt_write_raw ::
  "env \<Rightarrow> pt \<Rightarrow> flash_dev \<Rightarrow> nat \<Rightarrow> bytes \<Rightarrow> nat \<Rightarrow> int \<times> flash_dev" where
  "wm_nvs_pt_write_raw env p dev address data len =
     (if \<not> (u32 (address + len) \<le> pt_size p) then (WM_NVS_ERR_INVALID_PARAM, dev)
      else if pt_readonly p \<noteq> 0 then (WM_NVS_ERR_READ_ONLY, dev)
      else apsnd the (wm_drv_flash_write env (Some dev) (u32 (pt_offset p + address)) (Some data) len))"

definition wm_nvs_pt_read_item :: "env \<Rightarrow> pt \<Rightarrow> flash_dev \<Rightarrow> nat \<Rightarrow> item \<Rightarrow> int \<times> item" where
  "wm_nvs_pt_read_item env p dev address it =
     (if \<not> (u32 (address + 32) \<le> pt_size p) then (WM_NVS_ERR_INVALID_PARAM, it)
      else apsnd (item_of_bytes \<circ> the)
             (wm_drv_flash_read env (Some dev) (u32 (pt_offset p + address)) (Some (item_bytes it)) 32))"

definition wm_nvs_pt_write_item :: "env \<Rightarrow> pt \<Rightarrow> flash_dev \<Rightarrow> nat \<Rightarrow> item \<Rightarrow> int \<times> flash_dev" where
  "wm_nvs_pt_write_item env p dev address it =
     (if \<not> (u32 (address + 32) \<le> pt_size p) then (WM_NVS_ERR_INVALID_PARAM, dev)
      else if pt_readonly p \<noteq> 0 then (WM_NVS_ERR_READ_ONLY, dev)
      else apsnd the (wm_drv_flash_write env (Some dev) (u32 (pt_offset p + address))
                        (Some (item_bytes it)) 32))"

section \<open>The window\<close>

text \<open>
  A partition that \<open>wm_nvs_pt_init\<close> accepted on a verified table, on a chip in working order:
  it lies on the chip, above the factory region, in whole erase sectors of 4 KiB.
\<close>

definition pt_ok :: "env \<Rightarrow> pt \<Rightarrow> flash_dev \<Rightarrow> bool" where
  "pt_ok env p dev \<longleftrightarrow> flash_geom dev \<and> nor_cells env \<and> heap_ok env \<and> fd_sector dev = NVS_SECTION_SIZE \<and>
     pt_readonly p = 0 \<and> pt_sec_size p = NVS_SECTION_SIZE \<and> WM_FT_REGION < pt_offset p \<and>
     pt_offset p mod NVS_SECTION_SIZE = 0 \<and> pt_offset p + pt_size p \<le> fd_size dev"

text \<open>The cells of the partition, addressed from its start.\<close>

definition pt_mem :: "pt \<Rightarrow> flash_dev \<Rightarrow> nat \<Rightarrow> u8" where
  "pt_mem p dev a = fd_mem dev (pt_offset p + a)"

definition pt_slice :: "pt \<Rightarrow> flash_dev \<Rightarrow> nat \<Rightarrow> nat \<Rightarrow> bytes" where
  "pt_slice p dev a n = mem_slice (pt_mem p dev) a n"

lemma pt_slice_mem: "pt_slice p dev a n = mem_slice (fd_mem dev) (pt_offset p + a) n"
  by (simp add: pt_slice_def mem_slice_def pt_mem_def list_eq_iff_nth_eq ac_simps)

lemma length_pt_slice [simp]: "length (pt_slice p dev a n) = n"
  by (simp add: pt_slice_def)

lemma nth_pt_slice [simp]: "i < n \<Longrightarrow> pt_slice p dev a n ! i = pt_mem p dev (a + i)"
  by (simp add: pt_slice_def)

lemma pt_ok_u32:
  assumes "pt_ok env p dev" and "a + n \<le> pt_size p"
  shows "u32 (a + n) = a + n" and "u32 (pt_offset p + a) = pt_offset p + a"
    and "pt_offset p + a + n \<le> fd_size dev" and "WM_FT_REGION < pt_offset p + a"
proof -
  have "fd_size dev \<le> 0x2000000" and le: "pt_offset p + pt_size p \<le> fd_size dev"
    and "WM_FT_REGION < pt_offset p"
    using assms(1) by (auto simp: pt_ok_def flash_geom_def)
  with assms(2) show "u32 (a + n) = a + n" "u32 (pt_offset p + a) = pt_offset p + a"
    "pt_offset p + a + n \<le> fd_size dev" "WM_FT_REGION < pt_offset p + a"
    by simp_all
qed

lemma pt_read_spec:
  assumes "pt_ok env p dev" and "a + n \<le> pt_size p" and "0 < n" and "length buf = n"
  shows "wm_nvs_pt_read env p dev a buf n = (WM_NVS_ERR_OK, pt_slice p dev a n)"
    and "wm_nvs_pt_read_raw env p dev a buf n = (WM_NVS_ERR_OK, pt_slice p dev a n)"
proof -
  note u = pt_ok_u32 [OF assms(1,2)]
  have g: "flash_geom dev" "alloc_ok env (fd_page dev)" using assms(1) by (auto simp: pt_ok_def)
  note r = wm_drv_internal_flash_read_spec [OF g(1) assms(3) u(3) g(2)]
  show "wm_nvs_pt_read env p dev a buf n = (WM_NVS_ERR_OK, pt_slice p dev a n)"
    using assms u r by (simp add: wm_nvs_pt_read_def wm_drv_flash_read_def pt_slice_mem overlay_all)
  show "wm_nvs_pt_read_raw env p dev a buf n = (WM_NVS_ERR_OK, pt_slice p dev a n)"
    using assms u r by (simp add: wm_nvs_pt_read_raw_def wm_drv_flash_read_def pt_slice_mem overlay_all)
qed

lemma pt_read_item_spec:
  assumes "pt_ok env p dev" and "a + 32 \<le> pt_size p" and "item_wf it"
  shows "wm_nvs_pt_read_item env p dev a it = (WM_NVS_ERR_OK, item_of_bytes (pt_slice p dev a 32))"
proof -
  note u = pt_ok_u32 [OF assms(1,2)]
  have g: "flash_geom dev" "alloc_ok env (fd_page dev)" using assms(1) by (auto simp: pt_ok_def)
  have "wm_drv_internal_flash_read env dev (pt_offset p + a) (item_bytes it) 32 =
      (WM_ERR_SUCCESS, overlay (item_bytes it) 0 (mem_slice (fd_mem dev) (pt_offset p + a) 32))"
    by (rule wm_drv_internal_flash_read_spec [OF g(1) _ u(3) g(2)]) simp
  with assms u show ?thesis
    by (simp add: wm_nvs_pt_read_item_def wm_drv_flash_read_def pt_slice_mem overlay_all)
qed

text \<open>A write programs the cells of the window and no other.\<close>

definition pt_prog :: "env \<Rightarrow> pt \<Rightarrow> flash_dev \<Rightarrow> nat \<Rightarrow> bytes \<Rightarrow> flash_dev" where
  "pt_prog env p dev a bs = dev\<lparr>fd_mem := prog_mem env (fd_mem dev) (pt_offset p + a) bs\<rparr>"

definition pt_blank :: "pt \<Rightarrow> flash_dev \<Rightarrow> nat \<Rightarrow> flash_dev" where
  "pt_blank p dev a = dev\<lparr>fd_mem := erase_mem (fd_mem dev) (pt_offset p + a) NVS_SECTION_SIZE\<rparr>"

lemma pt_write_spec:
  assumes "pt_ok env p dev" and "a + n \<le> pt_size p" and "0 < n" and "n \<le> length bs"
  shows "wm_nvs_pt_write env p dev a bs n = (WM_NVS_ERR_OK, pt_prog env p dev a (take n bs))"
    and "wm_nvs_pt_write_raw env p dev a bs n = (WM_NVS_ERR_OK, pt_prog env p dev a (take n bs))"
proof -
  note u = pt_ok_u32 [OF assms(1,2)]
  have g: "flash_geom dev" "nor_cells env" "alloc_ok env (fd_page dev)" "pt_readonly p = 0"
    using assms(1) by (auto simp: pt_ok_def)
  note w = wm_drv_internal_flash_write_spec [OF g(1-3) assms(3,4) u(3,4)]
  show "wm_nvs_pt_write env p dev a bs n = (WM_NVS_ERR_OK, pt_prog env p dev a (take n bs))"
    using assms u w g by (simp add: wm_nvs_pt_write_def wm_drv_flash_write_def pt_prog_def)
  show "wm_nvs_pt_write_raw env p dev a bs n = (WM_NVS_ERR_OK, pt_prog env p dev a (take n bs))"
    using assms u w g by (simp add: wm_nvs_pt_write_raw_def wm_drv_flash_write_def pt_prog_def)
qed

lemma pt_write_item_spec:
  assumes "pt_ok env p dev" and "a + 32 \<le> pt_size p" and "item_wf it"
  shows "wm_nvs_pt_write_item env p dev a it = (WM_NVS_ERR_OK, pt_prog env p dev a (item_bytes it))"
proof -
  note u = pt_ok_u32 [OF assms(1,2)]
  have g: "flash_geom dev" "nor_cells env" "alloc_ok env (fd_page dev)" "pt_readonly p = 0"
    using assms(1) by (auto simp: pt_ok_def)
  have "wm_drv_internal_flash_write env dev (pt_offset p + a) (item_bytes it) 32 =
      (WM_ERR_SUCCESS, dev\<lparr>fd_mem := prog_mem env (fd_mem dev) (pt_offset p + a) (take 32 (item_bytes it))\<rparr>)"
    by (rule wm_drv_internal_flash_write_spec [OF g(1-3) _ _ u(3,4)]) (simp_all add: assms(3))
  with assms u g show ?thesis
    by (simp add: wm_nvs_pt_write_item_def wm_drv_flash_write_def pt_prog_def)
qed

lemma pt_erase_spec:
  assumes "pt_ok env p dev" and "a + NVS_SECTION_SIZE \<le> pt_size p" and "a mod NVS_SECTION_SIZE = 0"
  shows "wm_nvs_pt_erase p dev a = (WM_NVS_ERR_OK, pt_blank p dev a)"
proof -
  note u = pt_ok_u32 [OF assms(1,2)]
  have g: "flash_geom dev" "fd_sector dev = 4096" "fd_size dev \<le> 0x2000000" "pt_readonly p = 0"
    "fd_drv dev" using assms(1) by (auto simp: pt_ok_def flash_geom_def)
  have "4096 dvd pt_offset p" and "4096 dvd a"
    using assms(1,3) by (simp_all add: pt_ok_def mod_eq_0_iff_dvd)
  then have "4096 dvd pt_offset p + a" by (rule dvd_add)
  then obtain i where i: "pt_offset p + a = i * 4096" by (metis dvdE mult.commute)
  have er: "wm_hal_flash_erase_sectors dev (i * 4096) 1 = (WM_ERR_SUCCESS, pt_blank p dev a)"
    using erase_sectors_spec [OF g(1), of i 1] u(3) g i by (simp add: pt_blank_def)
  have "wm_drv_internal_flash_erase_sector dev i 1 = (WM_ERR_SUCCESS, pt_blank p dev a)"
    using u(3,4) g er i by (simp add: wm_drv_internal_flash_erase_sector_def)
  with u assms(2) g(4) i show ?thesis
    by (simp add: wm_nvs_pt_erase_def wm_drv_flash_erase_sector_def)
qed

lemma pt_ok_prog [simp]: "pt_ok env p (pt_prog env p dev a bs) = pt_ok env p dev"
  by (simp add: pt_ok_def pt_prog_def)

lemma pt_ok_blank [simp]: "pt_ok env p (pt_blank p dev a) = pt_ok env p dev"
  by (simp add: pt_ok_def pt_blank_def)

lemma pt_slice_prog_disjoint:
  "a + n \<le> b \<or> b + length bs \<le> a \<Longrightarrow> pt_slice p (pt_prog env p dev b bs) a n = pt_slice p dev a n"
  by (auto simp: pt_slice_mem pt_prog_def mem_slice_prog_disjoint)

lemma pt_slice_prog_blank:
  assumes "nor_cells env" and "pt_slice p dev a (length bs) = replicate (length bs) 0xFF"
  shows "pt_slice p (pt_prog env p dev a bs) a (length bs) = bs"
  using assms by (simp add: pt_slice_mem pt_prog_def mem_slice_prog_blank)

lemma pt_slice_blank_disjoint:
  "a + n \<le> b \<or> b + NVS_SECTION_SIZE \<le> a \<Longrightarrow> pt_slice p (pt_blank p dev b) a n = pt_slice p dev a n"
  by (auto simp: pt_slice_mem pt_blank_def mem_slice_erase_disjoint)

lemma pt_slice_blank_inside:
  "b \<le> a \<Longrightarrow> a + n \<le> b + NVS_SECTION_SIZE \<Longrightarrow> pt_slice p (pt_blank p dev b) a n = replicate n 0xFF"
  by (simp add: pt_slice_mem pt_blank_def mem_slice_erase_inside)

lemma pt_slice_append: "pt_slice p dev a n @ pt_slice p dev (a + n) k = pt_slice p dev a (n + k)"
  by (simp add: pt_slice_def mem_slice_append)

section \<open>The contract\<close>

interpretation pw: nor_window "pt_ok env p" "pt_mem p" "pt_prog env p" "pt_blank p" NVS_SECTION_SIZE
  for env p
proof unfold_locales
  fix d a bs x
  assume "pt_ok env p d"
  then show "pt_ok env p (pt_prog env p d a bs)" "pt_ok env p (pt_blank p d a)"
    "pt_mem p (pt_prog env p d a bs) x =
      (if a \<le> x \<and> x < a + length bs then pt_mem p d x AND bs ! (x - a) else pt_mem p d x)"
    "pt_mem p (pt_blank p d a) x = (if a \<le> x \<and> x < a + NVS_SECTION_SIZE then 0xFF else pt_mem p d x)"
    by (simp_all, auto simp: pt_mem_def pt_prog_def pt_blank_def prog_mem_def erase_mem_def pt_ok_def pp_cell_nor)
qed

end
