(* ===== verification/NvsHash.thy ===== *)
theory NvsHash
  imports NvsItem Interfaces
begin

text \<open>
  The per-sector hash list (\<open>wm_nvs_hash.c\<close>): an array of nodes holding 24 bits of a key's
  checksum and the slice index of the item, grown in steps of ten. The list is an array of
  \<open>h_size\<close> nodes of which \<open>h_count\<close> are in use; \<open>h_table = None\<close> is the null pointer, and
  a node of it, or one that was never written, reads as \<open>raw_node\<close>.
\<close>

record hash_node =
  hn_hash :: nat
  hn_id :: nat

record nvs_hash =
  h_table :: "hash_node list option"
  h_count :: nat
  h_size :: nat

definition raw_node :: "env \<Rightarrow> nat \<Rightarrow> hash_node" where
  "raw_node env i = \<lparr>hn_hash = raw_word env i div 256 mod 2 ^ 24, hn_id = raw_word env i mod 256\<rparr>"

definition hash_at :: "env \<Rightarrow> nvs_hash \<Rightarrow> nat \<Rightarrow> hash_node" where
  "hash_at env h i =
     (case h_table h of None \<Rightarrow> raw_node env i
      | Some l \<Rightarrow> if i < length l then l ! i else raw_node env i)"

text \<open>The signed 8-bit view of the id, as \<open>int\<close> and converted to \<open>size_t\<close>.\<close>

definition node_index :: "hash_node \<Rightarrow> int" where
  "node_index n = (let b = hn_id n mod 256 in if b < 128 then int b else int b - 256)"

definition node_index_sz :: "hash_node \<Rightarrow> nat" where
  "node_index_sz n = nat (node_index n mod 2 ^ 32)"

definition wm_nvs_hash_init :: "nvs_hash \<Rightarrow> int \<times> nvs_hash" where
  "wm_nvs_hash_init h = (WM_NVS_ERR_OK, \<lparr>h_table = None, h_count = 0, h_size = 0\<rparr>)"

definition hash_enlarge :: "env \<Rightarrow> nvs_hash \<Rightarrow> bool \<times> nvs_hash" where
  "hash_enlarge env h =
     (if h_size h \<le> h_count h then
        let new_num = h_size h + 10
        in if \<not> alloc_ok env (new_num * 4) then (False, h\<lparr>h_table := None\<rparr>)
           else let old = (case h_table h of None \<Rightarrow> [] | Some l \<Rightarrow> l)
                in (True, h\<lparr>h_table := Some (take new_num old @ map (raw_node env) [length old..<new_num]),
                            h_size := u8n new_num\<rparr>)
      else (True, h))"

definition wm_nvs_hash_append :: "env \<Rightarrow> nvs_hash \<Rightarrow> item \<Rightarrow> nat \<Rightarrow> int \<times> nvs_hash" where
  "wm_nvs_hash_append env h it index =
     (if h_count h \<ge> NVS_ENTRY_COUNT then (WM_NVS_ERR_NO_SPACE, h)
      else case hash_enlarge env h of
             (False, h) \<Rightarrow> (WM_NVS_ERR_NO_MEM, h)
           | (True, h) \<Rightarrow>
               let node = \<lparr>hn_hash = unat (wm_nvs_item_crc_hash env it) mod 2 ^ 24, hn_id = u8n index\<rparr>
               in (WM_NVS_ERR_OK,
                   h\<lparr>h_table := map_option (\<lambda>l. l[h_count h := node]) (h_table h),
                     h_count := u8n (h_count h + 1)\<rparr>))"

text \<open>The first node of \<open>i, i + 1, \<dots>\<close> below the count with a property.\<close>

function hash_scan :: "env \<Rightarrow> nvs_hash \<Rightarrow> (hash_node \<Rightarrow> bool) \<Rightarrow> nat \<Rightarrow> nat option" where
  "hash_scan env h p i =
     (if i < h_count h then if p (hash_at env h i) then Some i else hash_scan env h p (i + 1)
      else None)"
  by pat_completeness auto
termination by (relation "measure (\<lambda>(env, h, p, i). h_count h - i)") auto

declare hash_scan.simps [simp del]

definition wm_nvs_hash_erase :: "env \<Rightarrow> nvs_hash \<Rightarrow> nat \<Rightarrow> bool \<times> nvs_hash" where
  "wm_nvs_hash_erase env h index =
     (case hash_scan env h (\<lambda>n. node_index_sz n = index) 0 of
        None \<Rightarrow> (False, h)
      | Some i \<Rightarrow>
          let h = (if i \<noteq> h_count h - 1
                   then h\<lparr>h_table := map_option (\<lambda>l. overlay l i (take (h_count h - i - 1) (drop (i + 1) l)))
                                       (h_table h)\<rparr>
                   else h)
          in (True, h\<lparr>h_count := h_count h - 1\<rparr>))"

definition wm_nvs_hash_find :: "env \<Rightarrow> nvs_hash \<Rightarrow> nat \<Rightarrow> item \<Rightarrow> int" where
  "wm_nvs_hash_find env h start it =
     (let crc = wm_nvs_item_crc_hash env it
      in case hash_scan env h (\<lambda>n. node_index_sz n \<ge> start \<and> node_index n \<noteq> -1 \<and>
                                    hn_hash n = unat crc mod 2 ^ 24) 0 of
           None \<Rightarrow> -1
         | Some i \<Rightarrow> node_index (hash_at env h i))"

definition wm_nvs_hash_clear :: "nvs_hash \<Rightarrow> nvs_hash" where
  "wm_nvs_hash_clear h =
     (case h_table h of None \<Rightarrow> h | Some _ \<Rightarrow> \<lparr>h_table = None, h_count = 0, h_size = 0\<rparr>)"

section \<open>The list it represents\<close>

text \<open>The pairs of hash and slice index, in insertion order.\<close>

definition hash_list :: "nvs_hash \<Rightarrow> (nat \<times> nat) list" where
  "hash_list h = (case h_table h of None \<Rightarrow> [] | Some l \<Rightarrow>
     map (\<lambda>n. (hn_hash n, hn_id n)) (take (h_count h) l))"

definition hash_inv :: "nvs_hash \<Rightarrow> bool" where
  "hash_inv h \<longleftrightarrow> h_count h \<le> NVS_ENTRY_COUNT \<and> h_count h \<le> h_size h \<and> h_size h \<le> 130 \<and>
     h_size h mod 10 = 0 \<and>
     (case h_table h of None \<Rightarrow> h_count h = 0 \<and> h_size h = 0
      | Some l \<Rightarrow> length l = h_size h \<and> (\<forall>i < h_count h. hn_id (l ! i) < NVS_ENTRY_COUNT))"

definition item_hash24 :: "env \<Rightarrow> item \<Rightarrow> nat" where
  "item_hash24 env it = unat (wm_nvs_item_crc_hash env it) mod 2 ^ 24"

lemma hash_list_length: "hash_inv h \<Longrightarrow> length (hash_list h) = h_count h"
  by (auto simp: hash_list_def hash_inv_def split: option.splits)

lemma hash_inv_init [simp]: "hash_inv (snd (wm_nvs_hash_init h))" "hash_list (snd (wm_nvs_hash_init h)) = []"
  by (simp_all add: wm_nvs_hash_init_def hash_inv_def hash_list_def)

lemma hash_list_id: "hash_inv h \<Longrightarrow> (x, i) \<in> set (hash_list h) \<Longrightarrow> i < NVS_ENTRY_COUNT"
  by (auto simp: hash_list_def hash_inv_def in_set_conv_nth split: option.splits)

lemma hash_at_list:
  assumes "hash_inv h" and "i < h_count h"
  shows "(hn_hash (hash_at env h i), hn_id (hash_at env h i)) = hash_list h ! i"
    and "hn_id (hash_at env h i) < NVS_ENTRY_COUNT"
  using assms by (auto simp: hash_list_def hash_inv_def hash_at_def split: option.splits)

lemma node_index_small:
  assumes "hn_id n < NVS_ENTRY_COUNT"
  shows "node_index_sz n = hn_id n" and "node_index n = int (hn_id n)"
  using assms by (simp_all add: node_index_sz_def node_index_def Let_def)

lemma hash_enlarge_spec:
  assumes "hash_inv h" and "heap_ok env" and "h_count h < NVS_ENTRY_COUNT"
  obtains h' l where "hash_enlarge env h = (True, h')" "hash_inv h'" "h_table h' = Some l"
    "h_count h' = h_count h" "h_count h < length l" "hash_list h' = hash_list h"
proof (cases "h_size h \<le> h_count h")
  case False
  with assms that [of h "the (h_table h)"] show ?thesis
    by (auto simp: hash_enlarge_def hash_inv_def split: option.splits)
next
  case True
  let ?old = "case h_table h of None \<Rightarrow> [] | Some l \<Rightarrow> l"
  let ?l = "take (h_size h + 10) ?old @ map (raw_node env) [length ?old..<h_size h + 10]"
  let ?h = "h\<lparr>h_table := Some ?l, h_size := u8n (h_size h + 10)\<rparr>"
  have s: "length ?old = h_size h" "h_size h = h_count h" "h_size h < 127"
    using assms True by (auto simp: hash_inv_def split: option.splits)
  moreover have "h_size h mod 10 = 0" using assms(1) by (simp add: hash_inv_def)
  with s(3) have "h_size h \<le> 120" by presburger
  ultimately have "hash_inv ?h" and "hash_list ?h = hash_list h"
    using assms True
    by (auto simp: hash_inv_def hash_list_def nth_append split: option.splits)
  with s True assms show ?thesis by (intro that [of ?h ?l]) (auto simp: hash_enlarge_def Let_def)
qed

lemma wm_nvs_hash_append_spec:
  assumes "hash_inv h" and "heap_ok env" and "h_count h < NVS_ENTRY_COUNT" and "index < NVS_ENTRY_COUNT"
  shows "fst (wm_nvs_hash_append env h it index) = WM_NVS_ERR_OK"
    and "hash_inv (snd (wm_nvs_hash_append env h it index))"
    and "hash_list (snd (wm_nvs_hash_append env h it index)) = hash_list h @ [(item_hash24 env it, index)]"
proof -
  obtain h' l where e: "hash_enlarge env h = (True, h')" "hash_inv h'" "h_table h' = Some l"
    "h_count h' = h_count h" "h_count h < length l" "hash_list h' = hash_list h"
    using hash_enlarge_spec [OF assms(1-3)] .
  show "fst (wm_nvs_hash_append env h it index) = WM_NVS_ERR_OK"
    using assms e by (simp add: wm_nvs_hash_append_def Let_def)
  show "hash_inv (snd (wm_nvs_hash_append env h it index))"
    using assms e
    by (auto simp: wm_nvs_hash_append_def Let_def hash_inv_def nth_list_update less_Suc_eq)
  show "hash_list (snd (wm_nvs_hash_append env h it index)) = hash_list h @ [(item_hash24 env it, index)]"
    using assms e
    by (auto simp: wm_nvs_hash_append_def Let_def hash_list_def take_Suc_conv_app_nth item_hash24_def
        simp flip: Suc_eq_plus1)
qed

lemma hash_scan_Some:
  "hash_scan env h p i = Some j \<Longrightarrow>
   i \<le> j \<and> j < h_count h \<and> p (hash_at env h j) \<and> (\<forall>k. i \<le> k \<and> k < j \<longrightarrow> \<not> p (hash_at env h k))"
proof (induction env h p i rule: hash_scan.induct)
  case (1 env h p i)
  show ?case
  proof (cases "i < h_count h \<and> \<not> p (hash_at env h i)")
    case True
    with 1(2) have "hash_scan env h p (i + 1) = Some j" by (subst (asm) hash_scan.simps) simp
    with 1(1) True have IH: "i + 1 \<le> j" "j < h_count h" "p (hash_at env h j)"
      "\<And>k. i + 1 \<le> k \<Longrightarrow> k < j \<Longrightarrow> \<not> p (hash_at env h k)" by auto
    have "\<not> p (hash_at env h k)" if "i \<le> k" "k < j" for k
      using that True IH(4) [of k] by (cases "k = i") auto
    with IH show ?thesis by auto
  next
    case False
    with 1(2) show ?thesis by (subst (asm) hash_scan.simps) (auto split: if_splits)
  qed
qed

lemma hash_scan_None:
  "hash_scan env h p i = None \<Longrightarrow> i \<le> k \<Longrightarrow> k < h_count h \<Longrightarrow> \<not> p (hash_at env h k)"
proof (induction env h p i rule: hash_scan.induct)
  case (1 env h p i)
  then have "i < h_count h" by linarith
  with 1(2) have "\<not> p (hash_at env h i)" "hash_scan env h p (i + 1) = None"
    by (subst (asm) hash_scan.simps, auto split: if_splits)+
  with 1 \<open>i < h_count h\<close> show ?case by (cases "k = i") auto
qed

lemma find_first:
  "j < length xs \<Longrightarrow> P (xs ! j) \<Longrightarrow> (\<And>k. k < j \<Longrightarrow> \<not> P (xs ! k)) \<Longrightarrow>
   find P xs = Some (xs ! j)"
  by (auto simp: find_Some_iff)

lemma wm_nvs_hash_find_spec:
  assumes "hash_inv h"
  shows "wm_nvs_hash_find env h start it =
    (case find (\<lambda>(c, i). start \<le> i \<and> c = item_hash24 env it) (hash_list h) of
       None \<Rightarrow> -1 | Some (c, i) \<Rightarrow> int i)"
proof -
  let ?p = "\<lambda>n. node_index_sz n \<ge> start \<and> node_index n \<noteq> -1 \<and>
     hn_hash n = unat (wm_nvs_item_crc_hash env it) mod 2 ^ 24"
  let ?q = "\<lambda>(c, i). start \<le> i \<and> c = item_hash24 env it"
  have len: "length (hash_list h) = h_count h" using hash_list_length [OF assms] .
  have pq: "?p (hash_at env h k) = ?q (hash_list h ! k)" if "k < h_count h" for k
    using hash_at_list [OF assms that, of env] node_index_small [OF hash_at_list(2) [OF assms that]]
    by (auto simp: item_hash24_def simp flip: hash_at_list(1) [OF assms that, of env])
  show ?thesis
  proof (cases "hash_scan env h ?p 0")
    case None
    then have "\<not> ?q (hash_list h ! k)" if "k < h_count h" for k
      using hash_scan_None [OF None le0 that] by (simp only: pq [OF that] simp_thms)
    then have "\<forall>x \<in> set (hash_list h). \<not> ?q x" by (metis in_set_conv_nth len)
    then have "find ?q (hash_list h) = None" unfolding find_None_iff by blast
    with None show ?thesis by (simp add: wm_nvs_hash_find_def Let_def)
  next
    case (Some j)
    note s = hash_scan_Some [OF Some]
    then have jc: "j < h_count h" and pj: "?p (hash_at env h j)" by simp_all
    have j: "j < length (hash_list h)" using jc len by simp
    have qj: "?q (hash_list h ! j)" using pj by (simp only: pq [OF jc] simp_thms)
    have "\<not> ?q (hash_list h ! k)" if "k < j" for k
    proof -
      have "\<not> ?p (hash_at env h k)" and kc: "k < h_count h" using s that le0 by simp_all
      then show ?thesis by (simp only: pq [OF kc] simp_thms)
    qed
    with j qj have "find ?q (hash_list h) = Some (hash_list h ! j)" by (rule find_first)
    moreover have "hash_list h ! j = (hn_hash (hash_at env h j), hn_id (hash_at env h j))"
      using hash_at_list(1) [OF assms, of j env] s by simp
    moreover have "node_index (hash_at env h j) = int (hn_id (hash_at env h j))"
      using node_index_small(2) [OF hash_at_list(2) [OF assms]] s by simp
    ultimately show ?thesis using Some by (simp add: wm_nvs_hash_find_def Let_def)
  qed
qed

lemma remove_nth_distinct:
  assumes "distinct (map f xs)" and "j < length xs"
  shows "take j xs @ drop (Suc j) xs = filter (\<lambda>x. f x \<noteq> f (xs ! j)) xs"
proof -
  have xs: "xs = take j xs @ xs ! j # drop (Suc j) xs" using assms(2) by (simp add: id_take_nth_drop)
  then have "distinct (map f (take j xs @ xs ! j # drop (Suc j) xs))" using assms(1) by simp
  then have "filter (\<lambda>x. f x \<noteq> f (xs ! j)) (take j xs @ xs ! j # drop (Suc j) xs)
    = take j xs @ drop (Suc j) xs"
    by (auto simp: image_iff) (metis (mono_tags, lifting) append_eq_append_conv filter_True)+
  with xs show ?thesis by simp
qed

lemma wm_nvs_hash_erase_spec:
  assumes "hash_inv h" and d: "distinct (map snd (hash_list h))" and ix: "index < NVS_ENTRY_COUNT"
  shows "hash_inv (snd (wm_nvs_hash_erase env h index))"
    and "hash_list (snd (wm_nvs_hash_erase env h index)) = filter (\<lambda>x. snd x \<noteq> index) (hash_list h)"
    and "fst (wm_nvs_hash_erase env h index) = (index \<in> snd ` set (hash_list h))"
proof -
  let ?p = "\<lambda>n. node_index_sz n = index"
  have len: "length (hash_list h) = h_count h" using hash_list_length [OF assms(1)] .
  have pq: "?p (hash_at env h k) = (snd (hash_list h ! k) = index)" if "k < h_count h" for k
    using node_index_small(1) [OF hash_at_list(2) [OF assms(1) that]]
    by (simp flip: hash_at_list(1) [OF assms(1) that, of env])
  have "hash_inv (snd (wm_nvs_hash_erase env h index)) \<and>
    hash_list (snd (wm_nvs_hash_erase env h index)) = filter (\<lambda>x. snd x \<noteq> index) (hash_list h) \<and>
    fst (wm_nvs_hash_erase env h index) = (index \<in> snd ` set (hash_list h))"
  proof (cases "hash_scan env h ?p 0")
    case None
    then have "snd (hash_list h ! k) \<noteq> index" if "k < h_count h" for k
      using hash_scan_None [OF None, of k] pq [OF that] that by simp
    then have "\<forall>x \<in> set (hash_list h). snd x \<noteq> index"
      by (metis in_set_conv_nth len)
    with None assms(1) show ?thesis by (auto simp: wm_nvs_hash_erase_def filter_id_conv)
  next
    case (Some j)
    note s = hash_scan_Some [OF Some]
    then have j: "j < h_count h" "snd (hash_list h ! j) = index" using pq by auto
    then obtain l where l: "h_table h = Some l" "length l = h_size h" "h_count h \<le> h_size h"
      using assms(1) by (auto simp: hash_inv_def split: option.splits)
    let ?l = "overlay l j (take (h_count h - j - 1) (drop (j + 1) l))"
    have lo: "length ?l = length l" using l j by simp
    have tk: "take (h_count h - 1) (if j \<noteq> h_count h - 1 then ?l else l) =
        take j l @ drop (Suc j) (take (h_count h) l)"
    proof (cases "j = h_count h - 1")
      case True
      then show ?thesis using j l by simp
    next
      case False
      then have "\<not> h_count h - 1 \<le> j" using j by linarith
      then show ?thesis using j l False
        by (simp add: overlay_def drop_take min_def flip: Suc_eq_plus1 Suc_eq_plus1_left)
    qed
    have "map (\<lambda>n. (hn_hash n, hn_id n)) (take j l @ drop (Suc j) (take (h_count h) l)) =
        take j (hash_list h) @ drop (Suc j) (hash_list h)"
      using j l by (simp add: hash_list_def take_map drop_map min_def)
    also have "\<dots> = filter (\<lambda>x. snd x \<noteq> index) (hash_list h)"
      using remove_nth_distinct [OF d, of j] j len by simp
    finally have hl: "hash_list (snd (wm_nvs_hash_erase env h index)) =
        filter (\<lambda>x. snd x \<noteq> index) (hash_list h)"
      using Some l tk by (auto simp: wm_nvs_hash_erase_def hash_list_def Let_def)
    have "\<forall>i < h_count h - 1. hn_id ((if j \<noteq> h_count h - 1 then ?l else l) ! i) < NVS_ENTRY_COUNT"
      using assms(1) l j by (auto simp: hash_inv_def nth_overlay)
    then have "hash_inv (snd (wm_nvs_hash_erase env h index))"
      using Some l lo assms(1) j
      by (cases "j = h_count h - 1") (auto simp: wm_nvs_hash_erase_def hash_inv_def Let_def)
    moreover have "index \<in> snd ` set (hash_list h)" using j len by (metis image_eqI nth_mem)
    ultimately show ?thesis using hl Some by (simp add: wm_nvs_hash_erase_def Let_def)
  qed
  then show "hash_inv (snd (wm_nvs_hash_erase env h index))"
    and "hash_list (snd (wm_nvs_hash_erase env h index)) = filter (\<lambda>x. snd x \<noteq> index) (hash_list h)"
    and "fst (wm_nvs_hash_erase env h index) = (index \<in> snd ` set (hash_list h))"
    by auto
qed

lemma hash_clear_inv [simp]:
  "hash_inv h \<Longrightarrow> hash_inv (wm_nvs_hash_clear h)"
  "hash_inv h \<Longrightarrow> hash_list (wm_nvs_hash_clear h) = []"
  by (auto simp: wm_nvs_hash_clear_def hash_inv_def hash_list_def split: option.splits)

section \<open>The contract\<close>

interpretation ht: hash_table "\<lambda>h. hash_inv h \<and> heap_ok env" hash_list
  "\<lambda>h it i. snd (wm_nvs_hash_append env h it i)" "\<lambda>h i. snd (wm_nvs_hash_erase env h i)"
  "\<lambda>h start it. wm_nvs_hash_find env h start it" "item_hash24 env" NVS_ENTRY_COUNT
  for env
proof unfold_locales
  fix h it start and i :: nat
  assume h: "hash_inv h \<and> heap_ok env"
  show "wm_nvs_hash_find env h start it = (case find (\<lambda>(c, i). start \<le> i \<and> c = item_hash24 env it) (hash_list h) of
      None \<Rightarrow> -1 | Some (c, i) \<Rightarrow> int i)"
    using h by (intro wm_nvs_hash_find_spec) simp
  assume l: "i < NVS_ENTRY_COUNT"
  show "hash_inv (snd (wm_nvs_hash_append env h it i)) \<and> heap_ok env"
    "hash_list (snd (wm_nvs_hash_append env h it i)) = hash_list h @ [(item_hash24 env it, i)]"
    if "length (hash_list h) < NVS_ENTRY_COUNT"
    using h l that wm_nvs_hash_append_spec(2,3) [of h env i it] by (simp_all add: hash_list_length)
  show "hash_inv (snd (wm_nvs_hash_erase env h i)) \<and> heap_ok env"
    "hash_list (snd (wm_nvs_hash_erase env h i)) = filter (\<lambda>x. snd x \<noteq> i) (hash_list h)"
    if "distinct (map snd (hash_list h))"
    using h l that wm_nvs_hash_erase_spec(1,2) [of h i env] by simp_all
qed

end
