(* ===== verification/NvsSector.thy ===== *)
theory NvsSector
  imports NvsPartition NvsHash
begin

text \<open>
  One 4 KiB sector of the store (\<open>wm_nvs_sector.c\<close>): a header slice and 127 entry slices
  written in order. The record holds the RAM copy of \<open>wm_nvs_sector_t\<close>; its \<open>pt\<close> pointer is
  the same for every sector and is an argument of the operations, which return the code, the
  flash device and the sector. Slice indices and counters are \<open>uint8_t\<close> fields (\<open>u8n\<close>). A
  local item or header that the C code leaves uninitialised is only read after a successful
  flash read has filled it; it starts as zero bytes here.
\<close>

abbreviation (input) SEC_UNINIT :: u8 where "SEC_UNINIT \<equiv> 0xFF"
abbreviation (input) SEC_USING :: u8 where "SEC_USING \<equiv> 0xFE"
abbreviation (input) SEC_FULL :: u8 where "SEC_FULL \<equiv> 0xFC"
abbreviation (input) SEC_DELETTING :: u8 where "SEC_DELETTING \<equiv> 0xF8"
abbreviation (input) SEC_CRASH :: u8 where "SEC_CRASH \<equiv> 0xF0"
abbreviation (input) SEC_INVALID :: u8 where "SEC_INVALID \<equiv> 0x00"

abbreviation (input) NVS_SECTOR_STATE_OFFSET :: nat where "NVS_SECTOR_STATE_OFFSET \<equiv> 2"
abbreviation (input) NVS_SECTOR_MAGIC :: nat where "NVS_SECTOR_MAGIC \<equiv> 0x4D57"
abbreviation (input) NVS_VER_NUM :: nat where "NVS_VER_NUM \<equiv> 1"

section \<open>Data\<close>

record sec_header =
  sh_magic :: nat
  sh_state :: u8
  sh_resv1 :: u8
  sh_crc32 :: crc
  sh_serial :: nat
  sh_version :: nat
  sh_resv2 :: bytes

record sector =
  s_state :: u8
  s_version :: nat
  s_next_free :: nat
  s_used :: nat
  s_droped :: nat
  s_address :: nat
  s_serial :: nat
  s_hash :: nvs_hash

definition header_body :: "sec_header \<Rightarrow> bytes" where
  "header_body h = le_bytes 4 (sh_serial h) @ [of_nat (sh_version h)] @ sh_resv2 h"

definition header_bytes :: "sec_header \<Rightarrow> bytes" where
  "header_bytes h = le_bytes 2 (sh_magic h) @ [sh_state h, sh_resv1 h] @ crc_bytes (sh_crc32 h) @
     header_body h"

definition header_of_bytes :: "bytes \<Rightarrow> sec_header" where
  "header_of_bytes bs =
     \<lparr>sh_magic = le_nat (take 2 bs), sh_state = bs ! 2, sh_resv1 = bs ! 3,
      sh_crc32 = crc_of (take 4 (drop 4 bs)), sh_serial = le_nat (take 4 (drop 8 bs)),
      sh_version = unat (bs ! 12), sh_resv2 = take 19 (drop 13 bs)\<rparr>"

definition blank_item :: item where "blank_item = item_of_bytes (replicate 32 0)"

lemma diff_add_less: "a < till \<Longrightarrow> a \<le> s \<Longrightarrow> 0 < n \<Longrightarrow> till - (s + n) < till - (a :: nat)"
  by arith

section \<open>State and header\<close>

definition sector_crc32 :: "env \<Rightarrow> sec_header \<Rightarrow> crc" where
  "sector_crc32 env h = wm_nvs_port_crc32 env 0xFFFFFFFF (header_body h)"

definition wm_nvs_sector_set_state ::
  "env \<Rightarrow> pt \<Rightarrow> flash_dev \<Rightarrow> sector \<Rightarrow> u8 \<Rightarrow> int \<times> flash_dev \<times> sector" where
  "wm_nvs_sector_set_state env p dev sec state =
     (let sec = sec\<lparr>s_state := state\<rparr>
      in case wm_nvs_pt_write_raw env p dev (s_address sec + NVS_SECTOR_STATE_OFFSET) [state] 1 of
           (err, dev) \<Rightarrow> (err, dev, sec))"

definition wm_nvs_sector_erase ::
  "env \<Rightarrow> pt \<Rightarrow> flash_dev \<Rightarrow> sector \<Rightarrow> int \<times> flash_dev \<times> sector" where
  "wm_nvs_sector_erase env p dev sec =
     (case wm_nvs_sector_set_state env p dev sec SEC_CRASH of
        (_, dev, sec) \<Rightarrow>
          case wm_nvs_pt_erase p dev (s_address sec) of
            (err, dev) \<Rightarrow>
              if err \<noteq> WM_NVS_ERR_OK then (err, dev, sec)
              else (WM_NVS_ERR_OK, dev,
                    sec\<lparr>s_state := SEC_UNINIT, s_version := NVS_VER_NUM, s_next_free := 0,
                        s_used := 0, s_droped := 0, s_hash := wm_nvs_hash_clear (s_hash sec)\<rparr>))"

definition sector_get_next_address :: "sector \<Rightarrow> nat" where
  "sector_get_next_address sec = s_address sec + NVS_SLICE_SIZE + s_next_free sec * NVS_SLICE_SIZE"

definition wm_nvs_sector_init ::
  "env \<Rightarrow> pt \<Rightarrow> flash_dev \<Rightarrow> sector \<Rightarrow> int \<times> flash_dev \<times> sector" where
  "wm_nvs_sector_init env p dev sec =
     (let sec = sec\<lparr>s_state := SEC_USING, s_version := NVS_VER_NUM, s_next_free := 0, s_used := 0,
                    s_droped := 0\<rparr>;
          header = \<lparr>sh_magic = NVS_SECTOR_MAGIC, sh_state = SEC_USING, sh_resv1 = 0xFF,
                    sh_crc32 = 0xFFFFFFFF, sh_serial = s_serial sec, sh_version = NVS_VER_NUM,
                    sh_resv2 = replicate 19 0xFF\<rparr>;
          header = header\<lparr>sh_crc32 := sector_crc32 env header\<rparr>
      in case wm_nvs_pt_write_raw env p dev (s_address sec) (header_bytes header) 32 of
           (err, dev) \<Rightarrow> (err, dev, sec))"

section \<open>Dropping an entry\<close>

definition wm_nvs_sector_erase_item ::
  "env \<Rightarrow> pt \<Rightarrow> flash_dev \<Rightarrow> sector \<Rightarrow> nat \<Rightarrow> item \<Rightarrow> bool \<Rightarrow> int \<times> flash_dev \<times> sector" where
  "wm_nvs_sector_erase_item env p dev sec index it erase_hash =
     (let offset = s_address sec + (index + 1) * NVS_SLICE_SIZE;
          span = wm_nvs_item_get_span it;
          sec = sec\<lparr>s_droped := u8n (s_droped sec + span)\<rparr>
      in case wm_nvs_pt_write_raw env p dev offset [ITEM_DROPED] 1 of
           (err, dev) \<Rightarrow>
             (err, dev,
              if erase_hash then sec\<lparr>s_hash := snd (wm_nvs_hash_erase env (s_hash sec) index)\<rparr>
              else sec))"

section \<open>Loading\<close>

text \<open>One entry of the load scan: the counters and the hash list.\<close>

definition sector_account_item ::
  "env \<Rightarrow> pt \<Rightarrow> flash_dev \<Rightarrow> sector \<Rightarrow> nat \<Rightarrow> item \<Rightarrow> int \<times> flash_dev \<times> sector" where
  "sector_account_item env p dev sec i it =
     (let span = wm_nvs_item_get_span it
      in if it_state it = ITEM_USING then
           if it_crc_item it = wm_nvs_item_crc_head env it then
             (WM_NVS_ERR_OK, dev,
              sec\<lparr>s_hash := snd (wm_nvs_hash_append env (s_hash sec) it i),
                  s_used := u8n (s_used sec + span)\<rparr>)
           else
             wm_nvs_sector_erase_item env p dev
               (sec\<lparr>s_used := u8n (s_used sec + span), s_droped := u8n (s_droped sec + span)\<rparr>)
               i it False
         else if it_state it = ITEM_DROPED then
           (WM_NVS_ERR_OK, dev,
            sec\<lparr>s_droped := u8n (s_droped sec + span), s_used := u8n (s_used sec + span)\<rparr>)
         else (WM_NVS_ERR_OK, dev, sec))"

function sector_update_loop ::
  "env \<Rightarrow> pt \<Rightarrow> flash_dev \<Rightarrow> sector \<Rightarrow> nat \<Rightarrow> nat \<Rightarrow> int \<times> flash_dev \<times> sector" where
  "sector_update_loop env p dev sec i offset =
     (if i < NVS_ENTRY_COUNT then
        case wm_nvs_pt_read_raw env p dev offset (replicate 32 0) 32 of
          (err, bs) \<Rightarrow>
            if err \<noteq> WM_NVS_ERR_OK then (err, dev, sec\<lparr>s_state := SEC_INVALID\<rparr>)
            else let it = item_of_bytes bs
                 in if it_state it = ITEM_UNUSED then (WM_NVS_ERR_OK, dev, sec\<lparr>s_next_free := i\<rparr>)
                    else let span = wm_nvs_item_get_span it
                         in case sector_account_item env p dev sec i it of
                              (err, dev, sec) \<Rightarrow>
                                if err \<noteq> WM_NVS_ERR_OK then (err, dev, sec\<lparr>s_state := SEC_INVALID\<rparr>)
                                else sector_update_loop env p dev sec (i + span)
                                       (offset + span * NVS_SLICE_SIZE)
      else (WM_NVS_ERR_OK, dev, sec\<lparr>s_next_free := NVS_ENTRY_COUNT\<rparr>))"
  by pat_completeness auto
termination
by (relation "measure (\<lambda>(env, p, dev, sec, i, offset). NVS_ENTRY_COUNT - i)")
  (auto intro!: diff_add_less)

declare sector_update_loop.simps [simp del]

definition sector_update_slice_and_hash ::
  "env \<Rightarrow> pt \<Rightarrow> flash_dev \<Rightarrow> sector \<Rightarrow> int \<times> flash_dev \<times> sector" where
  "sector_update_slice_and_hash env p dev sec =
     sector_update_loop env p dev sec 0 (s_address sec + NVS_SLICE_SIZE)"

definition sector_check_empty ::
  "env \<Rightarrow> pt \<Rightarrow> flash_dev \<Rightarrow> sector \<Rightarrow> sec_header \<Rightarrow> int \<times> sector" where
  "sector_check_empty env p dev sec header =
     (let sec = sec\<lparr>s_state := sh_state header\<rparr>
      in if \<not> alloc_ok env (pt_sec_size p) then (WM_NVS_ERR_NO_MEM, sec)
         else case wm_nvs_pt_read_raw env p dev (s_address sec) (replicate (pt_sec_size p) 0)
                     (pt_sec_size p) of
                (err, block) \<Rightarrow>
                  (err,
                   if err \<noteq> WM_NVS_ERR_OK then sec\<lparr>s_state := SEC_INVALID\<rparr>
                   else if list_all (\<lambda>b. b = 0xFF) block then sec
                   else sec\<lparr>s_state := SEC_CRASH\<rparr>))"

text \<open>The state a header in flash gives its sector, once it has been read.\<close>

definition sector_classify ::
  "env \<Rightarrow> pt \<Rightarrow> flash_dev \<Rightarrow> sector \<Rightarrow> sec_header \<Rightarrow> int \<times> sector" where
  "sector_classify env p dev sec header =
     (if sh_state header = SEC_UNINIT then sector_check_empty env p dev sec header
      else if sh_magic header \<noteq> NVS_SECTOR_MAGIC \<or> sh_crc32 header \<noteq> sector_crc32 env header then
        (WM_NVS_ERR_OK, sec\<lparr>s_state := SEC_CRASH\<rparr>)
      else if sh_version header \<noteq> NVS_VER_NUM then (WM_NVS_ERR_OK, sec\<lparr>s_state := SEC_CRASH\<rparr>)
      else (WM_NVS_ERR_OK, sec\<lparr>s_serial := sh_serial header, s_state := sh_state header\<rparr>))"

definition wm_nvs_sector_load ::
  "env \<Rightarrow> pt \<Rightarrow> flash_dev \<Rightarrow> sector \<Rightarrow> nat \<Rightarrow> int \<times> flash_dev \<times> sector" where
  "wm_nvs_sector_load env p dev sec sec_index =
     (let sec = sec\<lparr>s_address := sec_index * pt_sec_size p, s_used := 0, s_droped := 0,
                    s_hash := snd (wm_nvs_hash_init (s_hash sec))\<rparr>
      in case wm_nvs_pt_read_raw env p dev (s_address sec) (replicate 32 0) 32 of
           (err, hb) \<Rightarrow>
             if err \<noteq> WM_NVS_ERR_OK then (err, dev, sec\<lparr>s_state := SEC_INVALID\<rparr>)
             else let header = header_of_bytes hb;
                      sec = sec\<lparr>s_state := sh_state header\<rparr>
                  in case sector_classify env p dev sec header of
                       (err, sec) \<Rightarrow>
                         if err \<noteq> WM_NVS_ERR_OK then (err, dev, sec)
                         else if s_state sec = SEC_FULL \<or> s_state sec = SEC_USING \<or>
                                 s_state sec = SEC_DELETTING
                         then sector_update_slice_and_hash env p dev sec
                         else (WM_NVS_ERR_OK, dev, sec))"

section \<open>Writing and reading entries\<close>

text \<open>The two flash writes; their codes are dropped as in the source.\<close>

definition wm_nvs_sector_write_item_data ::
  "env \<Rightarrow> pt \<Rightarrow> flash_dev \<Rightarrow> sector \<Rightarrow> item \<Rightarrow> bytes option \<Rightarrow> nat \<Rightarrow> nat \<Rightarrow>
   int \<times> flash_dev \<times> sector" where
  "wm_nvs_sector_write_item_data env p dev sec it extra_data len entry_cnt =
     (let offset = sector_get_next_address sec;
          dev = snd (wm_nvs_pt_write_item env p dev offset it);
          dev = (case extra_data of None \<Rightarrow> dev
                 | Some d \<Rightarrow> snd (wm_nvs_pt_write env p dev (offset + NVS_SLICE_SIZE) d len))
      in (WM_ERR_SUCCESS, dev,
          sec\<lparr>s_next_free := u8n (s_next_free sec + entry_cnt),
              s_used := u8n (s_used sec + entry_cnt)\<rparr>))"

definition wm_nvs_sector_read_item_data ::
  "env \<Rightarrow> pt \<Rightarrow> flash_dev \<Rightarrow> sector \<Rightarrow> nat \<Rightarrow> item \<Rightarrow> bytes \<Rightarrow> nat \<Rightarrow> int \<times> bytes" where
  "wm_nvs_sector_read_item_data env p dev sec found_slice_index it data len =
     (if len \<le> 8 then (WM_NVS_ERR_OK, overlay data 0 (take len (it_data it)))
      else wm_nvs_pt_read env p dev (s_address sec + (found_slice_index + 1 + 1) * NVS_SLICE_SIZE)
             data len)"

definition wm_nvs_sector_write_item ::
  "env \<Rightarrow> pt \<Rightarrow> flash_dev \<Rightarrow> sector \<Rightarrow> nat \<Rightarrow> nat \<Rightarrow> bytes \<Rightarrow> bytes option \<Rightarrow> nat \<Rightarrow> nat \<Rightarrow>
   int \<times> flash_dev \<times> sector" where
  "wm_nvs_sector_write_item env p dev sec gid type key data len seg_id =
     (if s_state sec = SEC_INVALID then (WM_NVS_ERR_FAIL, dev, sec)
      else if s_state sec = SEC_FULL then (WM_NVS_ERR_SECTOR_FULL, dev, sec)
      else
        case (if s_state sec = SEC_UNINIT then wm_nvs_sector_init env p dev sec
              else (WM_NVS_ERR_OK, dev, sec)) of
          (err, dev, sec) \<Rightarrow>
            if err \<noteq> WM_NVS_ERR_OK then (err, dev, sec)
            else if len > NVS_SINGLE_ITEM_MAX_DATA then (WM_NVS_ERR_VALUE_TOO_LONG, dev, sec)
            else
              let entry_cnt = 1 + (if len > 8 then (len + NVS_SLICE_SIZE - 1) div NVS_SLICE_SIZE else 0)
              in if s_next_free sec + entry_cnt > NVS_ENTRY_COUNT then
                   (WM_NVS_ERR_SECTOR_FULL, dev, sec)
                 else
                   let it = wm_nvs_item_init env ITEM_USING gid type key data len seg_id;
                       write_cntry = s_next_free sec
                   in case wm_nvs_sector_write_item_data env p dev sec it
                             (if len > 8 then data else None) (if len > 8 then len else 0) entry_cnt of
                        (err, dev, sec) \<Rightarrow>
                          let sec = (if err = WM_NVS_ERR_OK
                                     then sec\<lparr>s_hash := snd (wm_nvs_hash_append env (s_hash sec) it
                                                               write_cntry)\<rparr>
                                     else sec)
                          in if err = WM_NVS_ERR_SECTOR_FULL \<and> s_state sec \<noteq> SEC_FULL
                             then (case wm_nvs_sector_set_state env p dev sec SEC_FULL of
                                     (_, dev, sec) \<Rightarrow> (err, dev, sec))
                             else (err, dev, sec))"

section \<open>Finding an entry\<close>

text \<open>The condition of the scan on an entry in use. A missing key matches every name; a given
  one is compared over its own length only.\<close>

definition item_match ::
  "nat \<Rightarrow> nat \<Rightarrow> bytes option \<Rightarrow> nat \<Rightarrow> nat \<Rightarrow> item \<Rightarrow> bool" where
  "item_match group_id type key seg_index seg_start it \<longleftrightarrow>
     (group_id = NVS_GROUP_ID_ANY \<or> group_id = it_group_id it) \<and>
     ((type = TYPE_ANY \<or> type = it_type it) \<or>
      (type = TYPE_ANY_WITHOUT_SEG \<and> it_type it \<noteq> TYPE_BLOB_SEG)) \<and>
     (seg_index = NVS_SEG_ID_ANY \<or> seg_index = it_seg_id it) \<and>
     (seg_start = SEG_START_ANY \<or> (it_seg_id it \<ge> seg_start \<and> it_seg_id it - seg_start < 0x80)) \<and>
     (case key of None \<Rightarrow> True | Some k \<Rightarrow> strncmp_eq (it_name it) k (strnlen k NVS_MAX_KEY_LEN))"

text \<open>The entry the scan looks at next: with a key, the next one the hash list offers.\<close>

definition sector_find_next ::
  "env \<Rightarrow> sector \<Rightarrow> nat \<Rightarrow> nat \<Rightarrow> bytes option \<Rightarrow> nat \<Rightarrow> nat \<Rightarrow> item \<Rightarrow> int \<times> item" where
  "sector_find_next env sec group_id type key seg_index start it =
     (case key of None \<Rightarrow> (int start, it)
      | Some k \<Rightarrow>
          let it = wm_nvs_item_init env ITEM_USING group_id type k None 0 seg_index
          in (wm_nvs_hash_find env (s_hash sec) start it, it))"

lemma hash_find_ge:
  assumes "\<not> wm_nvs_hash_find env h start it < 0"
  shows "start \<le> nat (wm_nvs_hash_find env h start it)"
proof (cases "hash_scan env h (\<lambda>n. node_index_sz n \<ge> start \<and> node_index n \<noteq> -1 \<and>
    hn_hash n = unat (wm_nvs_item_crc_hash env it) mod 2 ^ 24) 0")
  case None
  with assms show ?thesis by (simp add: wm_nvs_hash_find_def Let_def)
next
  case (Some j)
  let ?n = "hash_at env h j"
  have f: "wm_nvs_hash_find env h start it = node_index ?n"
    using Some by (simp add: wm_nvs_hash_find_def Let_def)
  moreover have "start \<le> node_index_sz ?n" using hash_scan_Some [OF Some] by simp
  moreover have "node_index_sz ?n = nat (node_index ?n)"
    using assms f by (auto simp: node_index_sz_def node_index_def Let_def split: if_splits)
  ultimately show ?thesis by simp
qed

lemma sector_find_next_ge:
  "sector_find_next env sec g t key si start it = (s, it') \<Longrightarrow> \<not> s < 0 \<Longrightarrow> start \<le> nat s"
  using hash_find_ge by (auto simp: sector_find_next_def Let_def split: option.splits)

function sector_find_loop ::
  "env \<Rightarrow> pt \<Rightarrow> flash_dev \<Rightarrow> sector \<Rightarrow> nat \<Rightarrow> nat \<Rightarrow> bytes option \<Rightarrow> nat \<Rightarrow> item \<Rightarrow> nat \<Rightarrow> nat \<Rightarrow>
   nat \<Rightarrow> nat \<Rightarrow> int \<times> sector \<times> nat \<times> item" where
  "sector_find_loop env p dev sec group_id type key item_index it seg_index seg_start start till =
     (if start < till then
        case sector_find_next env sec group_id type key seg_index start it of
          (slice_index, it) \<Rightarrow>
            if slice_index < 0 then (WM_NVS_ERR_NOT_FOUND, sec, item_index, it)
            else
              let start = nat slice_index
              in case wm_nvs_pt_read_item env p dev (s_address sec + (start + 1) * NVS_SLICE_SIZE) it of
                   (err, it) \<Rightarrow>
                     if err \<noteq> WM_NVS_ERR_OK
                     then (err, sec\<lparr>s_state := SEC_INVALID\<rparr>, item_index, it)
                     else
                       let span = wm_nvs_item_get_span it
                       in if it_state it = ITEM_DROPED then
                            sector_find_loop env p dev sec group_id type key item_index it seg_index
                              seg_start (start + span) till
                          else if it_state it = ITEM_USING then
                            if item_match group_id type key seg_index seg_start it
                            then (WM_NVS_ERR_OK, sec, start, it)
                            else sector_find_loop env p dev sec group_id type key item_index it
                                   seg_index seg_start (start + span) till
                          else (WM_NVS_ERR_NOT_FOUND, sec, item_index, it)
      else (WM_NVS_ERR_NOT_FOUND, sec, item_index, it))"
  by pat_completeness auto
termination
by (relation "measure (\<lambda>(env, p, dev, sec, group_id, type, key, item_index, it, seg_index,
    seg_start, start, till). till - start)")
  (auto intro!: diff_add_less dest!: sector_find_next_ge [OF sym])

declare sector_find_loop.simps [simp del]

definition wm_nvs_sector_find_item ::
  "env \<Rightarrow> pt \<Rightarrow> flash_dev \<Rightarrow> sector \<Rightarrow> nat \<Rightarrow> nat \<Rightarrow> bytes option \<Rightarrow> nat \<Rightarrow> item \<Rightarrow> nat \<Rightarrow> nat \<Rightarrow>
   int \<times> sector \<times> nat \<times> item" where
  "wm_nvs_sector_find_item env p dev sec group_id type key item_index it seg_index seg_start =
     (if s_state sec = SEC_CRASH \<or> s_state sec = SEC_INVALID \<or> s_state sec = SEC_UNINIT then
        (WM_NVS_ERR_NOT_FOUND, sec, item_index, it)
      else if item_index \<ge> NVS_ENTRY_COUNT then (WM_NVS_ERR_NOT_FOUND, sec, item_index, it)
      else sector_find_loop env p dev sec group_id type key item_index it seg_index seg_start
             item_index (min (s_next_free sec) NVS_ENTRY_COUNT))"

section \<open>Copying the live entries\<close>

text \<open>One live entry: its head, its data when it has extra slices, and the target's metadata.\<close>

definition sector_copy_item ::
  "env \<Rightarrow> pt \<Rightarrow> flash_dev \<Rightarrow> sector \<Rightarrow> sector \<Rightarrow> nat \<Rightarrow> nat \<Rightarrow> item \<Rightarrow>
   int \<times> flash_dev \<times> sector \<times> sector" where
  "sector_copy_item env p dev dst src dst_index src_index it =
     (let span = wm_nvs_item_get_span it;
          done = (\<lambda>dev. (WM_NVS_ERR_OK, dev,
                   dst\<lparr>s_hash := snd (wm_nvs_hash_append env (s_hash dst) it dst_index),
                       s_used := u8n (s_used dst + span),
                       s_next_free := u8n (s_next_free dst + span)\<rparr>, src))
      in case wm_nvs_pt_write_item env p dev (s_address dst + (dst_index + 1) * NVS_SLICE_SIZE) it of
           (err, dev) \<Rightarrow>
             if err \<noteq> WM_NVS_ERR_OK then (err, dev, dst\<lparr>s_state := SEC_INVALID\<rparr>, src)
             else if span > 1 then
               if \<not> alloc_ok env (it_length it) then (WM_NVS_ERR_NO_MEM, dev, dst, src)
               else case wm_nvs_pt_read env p dev (s_address src + (src_index + 2) * NVS_SLICE_SIZE)
                           (replicate (it_length it) 0) (it_length it) of
                      (err, data) \<Rightarrow>
                        if err \<noteq> WM_NVS_ERR_OK then (err, dev, dst, src\<lparr>s_state := SEC_INVALID\<rparr>)
                        else case wm_nvs_pt_write env p dev
                                    (s_address dst + (dst_index + 2) * NVS_SLICE_SIZE) data
                                    (it_length it) of
                               (err, dev) \<Rightarrow>
                                 if err \<noteq> WM_NVS_ERR_OK
                                 then (err, dev, dst\<lparr>s_state := SEC_INVALID\<rparr>, src)
                                 else done dev
             else done dev)"

function sector_copy_loop ::
  "env \<Rightarrow> pt \<Rightarrow> flash_dev \<Rightarrow> sector \<Rightarrow> sector \<Rightarrow> nat \<Rightarrow> nat \<Rightarrow> int \<times> flash_dev \<times> sector \<times> sector"
where
  "sector_copy_loop env p dev dst src dst_index src_index =
     (if src_index < NVS_ENTRY_COUNT then
        case wm_nvs_pt_read_item env p dev (s_address src + (src_index + 1) * NVS_SLICE_SIZE)
               blank_item of
          (err, it) \<Rightarrow>
            if err \<noteq> WM_NVS_ERR_OK then (err, dev, dst, src\<lparr>s_state := SEC_INVALID\<rparr>)
            else let span = wm_nvs_item_get_span it
                 in if it_state it = ITEM_DROPED then
                      sector_copy_loop env p dev dst src dst_index (src_index + span)
                    else if it_state it = ITEM_USING then
                      case sector_copy_item env p dev dst src dst_index src_index it of
                        (err, dev, dst, src) \<Rightarrow>
                          if err \<noteq> WM_NVS_ERR_OK then (err, dev, dst, src)
                          else sector_copy_loop env p dev dst src (dst_index + span)
                                 (src_index + span)
                    else (WM_NVS_ERR_OK, dev, dst\<lparr>s_next_free := s_used dst\<rparr>, src)
      else (WM_NVS_ERR_OK, dev, dst, src))"
  by pat_completeness auto
termination
by (relation "measure (\<lambda>(env, p, dev, dst, src, dst_index, src_index).
    NVS_ENTRY_COUNT - src_index)") (auto intro!: diff_add_less)

declare sector_copy_loop.simps [simp del]

definition wm_nvs_sector_copy ::
  "env \<Rightarrow> pt \<Rightarrow> flash_dev \<Rightarrow> sector \<Rightarrow> sector \<Rightarrow> int \<times> flash_dev \<times> sector \<times> sector" where
  "wm_nvs_sector_copy env p dev dst src = sector_copy_loop env p dev dst src 0 0"

end
