(* ===== verification/NvsSectorLog.thy ===== *)
theory NvsSectorLog
  imports NvsSector
begin

text \<open>
  What a sector holds, read off the flash alone: the list of its entries in slice order
  (\<open>sector_entries\<close>), and how programming the flash changes that list: writing a head at the
  free position appends an entry, clearing the state byte of a head drops that entry.
\<close>

section \<open>The entries of a sector\<close>

text \<open>The head in slice \<open>i\<close> of the sector at address \<open>a\<close>.\<close>

definition head_at :: "pt \<Rightarrow> flash_dev \<Rightarrow> nat \<Rightarrow> nat \<Rightarrow> item" where
  "head_at p dev a i = item_of_bytes (pt_slice p dev (a + (i + 1) * NVS_SLICE_SIZE) 32)"

function entries_from :: "pt \<Rightarrow> flash_dev \<Rightarrow> nat \<Rightarrow> nat \<Rightarrow> (nat \<times> item) list" where
  "entries_from p dev a i =
     (if i < NVS_ENTRY_COUNT \<and> it_state (head_at p dev a i) \<noteq> ITEM_UNUSED
      then (i, head_at p dev a i) # entries_from p dev a (i + wm_nvs_item_get_span (head_at p dev a i))
      else [])"
  by pat_completeness auto
termination
  by (relation "measure (\<lambda>(p, dev, a, i). NVS_ENTRY_COUNT - i)") (auto intro!: diff_add_less)

declare entries_from.simps [simp del]

lemma entries_Cons:
  assumes "i < NVS_ENTRY_COUNT" and "it_state (head_at p dev a i) \<noteq> ITEM_UNUSED"
  shows "entries_from p dev a i = (i, head_at p dev a i) #
    entries_from p dev a (i + wm_nvs_item_get_span (head_at p dev a i))"
  using assms by (subst entries_from.simps) simp

lemma entries_Nil_iff:
  "entries_from p dev a i = [] \<longleftrightarrow>
   \<not> (i < NVS_ENTRY_COUNT \<and> it_state (head_at p dev a i) \<noteq> ITEM_UNUSED)"
  by (subst entries_from.simps) simp

definition sector_entries :: "pt \<Rightarrow> flash_dev \<Rightarrow> sector \<Rightarrow> (nat \<times> item) list" where
  "sector_entries p dev sec = entries_from p dev (s_address sec) 0"

text \<open>The position after the last entry of a list that starts at \<open>i\<close>.\<close>

fun log_end :: "nat \<Rightarrow> (nat \<times> item) list \<Rightarrow> nat" where
  "log_end i [] = i"
| "log_end i ((j, it) # es) = log_end (j + wm_nvs_item_get_span it) es"

text \<open>The entries follow each other without a gap.\<close>

fun chained :: "nat \<Rightarrow> (nat \<times> item) list \<Rightarrow> bool" where
  "chained i [] = True"
| "chained i ((j, it) # es) = (j = i \<and> chained (i + wm_nvs_item_get_span it) es)"

definition spans :: "(nat \<times> item) list \<Rightarrow> nat" where
  "spans es = (\<Sum>(i, it)\<leftarrow>es. wm_nvs_item_get_span it)"

abbreviation is_using :: "nat \<times> item \<Rightarrow> bool" where "is_using e \<equiv> it_state (snd e) = ITEM_USING"
abbreviation is_droped :: "nat \<times> item \<Rightarrow> bool" where "is_droped e \<equiv> it_state (snd e) = ITEM_DROPED"

lemma chained_entries [simp]: "chained i (entries_from p dev a i)"
proof (induction p dev a i rule: entries_from.induct)
  case (1 p dev a i)
  then show ?case by (subst entries_from.simps) auto
qed

lemma log_end_ge: "chained i es \<Longrightarrow> i \<le> log_end i es"
proof (induction i es rule: chained.induct)
  case (2 i j it es)
  then have "i + wm_nvs_item_get_span it \<le> log_end (i + wm_nvs_item_get_span it) es" by simp
  with 2 show ?case by simp
qed simp

lemma chained_mem:
  "chained i es \<Longrightarrow> (j, it) \<in> set es \<Longrightarrow> i \<le> j \<and> j + wm_nvs_item_get_span it \<le> log_end i es"
proof (induction i es rule: chained.induct)
  case (2 i k x es)
  then show ?case using log_end_ge [of "i + wm_nvs_item_get_span x" es] by fastforce
qed simp

lemma log_end_spans: "chained i es \<Longrightarrow> log_end i es = i + spans es"
  by (induction i es rule: chained.induct) (auto simp: spans_def)

lemma log_end_append [simp]: "log_end i (es @ es') = log_end (log_end i es) es'"
  by (induction i es rule: log_end.induct) auto

lemma chained_append: "chained i (es @ es') \<longleftrightarrow> chained i es \<and> chained (log_end i es) es'"
  by (induction i es rule: chained.induct) auto

lemma chained_distinct: "chained i es \<Longrightarrow> distinct (map fst es)"
proof (induction i es rule: chained.induct)
  case (2 i j it es)
  then show ?case using chained_mem [of "i + wm_nvs_item_get_span it" es i] span_pos(1) [of it]
    by fastforce
qed simp

lemma chained_after:
  assumes "chained i es" and "(j, x) \<in> set es" and "(k, y) \<in> set es" and "j < k"
  shows "j + wm_nvs_item_get_span x \<le> k"
  using assms
proof (induction i es rule: chained.induct)
  case (2 i l z es)
  then have c: "chained (i + wm_nvs_item_get_span z) es" by simp
  have "(k, y) \<in> set es" using 2 chained_mem [OF c, of j x] by auto
  with 2 c show ?case using chained_mem [OF c, of k y] by auto
qed simp

lemma entries_mem:
  assumes "(j, it) \<in> set (entries_from p dev a i)"
  shows "it = head_at p dev a j" and "j < NVS_ENTRY_COUNT" and "it_state it \<noteq> ITEM_UNUSED"
    and "item_wf it"
proof -
  have "it = head_at p dev a j \<and> j < NVS_ENTRY_COUNT \<and> it_state it \<noteq> ITEM_UNUSED"
    using assms
  proof (induction p dev a i rule: entries_from.induct)
    case (1 p dev a i)
    from 1(2) have b: "i < NVS_ENTRY_COUNT \<and> it_state (head_at p dev a i) \<noteq> ITEM_UNUSED"
      by (subst (asm) entries_from.simps) (auto split: if_splits)
    with 1(2) show ?case using 1(1) [OF b]
      by (subst (asm) entries_from.simps) auto
  qed
  moreover have "item_wf (head_at p dev a j)" by (simp add: head_at_def item_of_bytes_wf)
  ultimately show "it = head_at p dev a j" and "j < NVS_ENTRY_COUNT" and "it_state it \<noteq> ITEM_UNUSED"
    and "item_wf it" by auto
qed

text \<open>A suffix of the entries is the entries from its first position.\<close>

lemma entries_split:
  "(j, it) \<in> set (entries_from p dev a i) \<Longrightarrow>
   \<exists>es. entries_from p dev a i = es @ entries_from p dev a j \<and> (\<forall>e \<in> set es. fst e < j)"
proof (induction p dev a i rule: entries_from.induct)
  case (1 p dev a i)
  let ?h = "head_at p dev a i"
  from 1(2) have b: "i < NVS_ENTRY_COUNT \<and> it_state ?h \<noteq> ITEM_UNUSED"
    by (subst (asm) entries_from.simps) (auto split: if_splits)
  then have e: "entries_from p dev a i = (i, ?h) # entries_from p dev a (i + wm_nvs_item_get_span ?h)"
    by (subst entries_from.simps) simp
  show ?case
  proof (cases "j = i")
    case True
    then show ?thesis by (intro exI [of _ "[]"]) simp
  next
    case False
    with 1(2) e have m: "(j, it) \<in> set (entries_from p dev a (i + wm_nvs_item_get_span ?h))" by auto
    then obtain es where "entries_from p dev a (i + wm_nvs_item_get_span ?h) = es @ entries_from p dev a j"
      "\<forall>e \<in> set es. fst e < j" using 1(1) [OF b] by blast
    moreover have "i < j"
      using chained_mem [OF chained_entries m] span_pos(1) [of ?h] by linarith
    ultimately show ?thesis using e by (intro exI [of _ "(i, ?h) # es"]) auto
  qed
qed

lemma entries_end: "entries_from p dev a (log_end i (entries_from p dev a i)) = []"
proof (induction p dev a i rule: entries_from.induct)
  case (1 p dev a i)
  then show ?case
    by (cases "i < NVS_ENTRY_COUNT \<and> it_state (head_at p dev a i) \<noteq> ITEM_UNUSED")
      (simp_all add: entries_Cons entries_Nil_iff [THEN iffD2])
qed

section \<open>Changes of the flash\<close>

lemma pt_mem_prog:
  "pt_mem p (pt_prog env p dev b bs) x =
   (if b \<le> x \<and> x < b + length bs then pp_cell env (pt_mem p dev x) (bs ! (x - b)) else pt_mem p dev x)"
  by (auto simp: pt_mem_def pt_prog_def prog_mem_def)

lemma pt_mem_blank:
  "pt_mem p (pt_blank p dev b) x = (if b \<le> x \<and> x < b + NVS_SECTION_SIZE then 0xFF else pt_mem p dev x)"
  by (auto simp: pt_mem_def pt_blank_def erase_mem_def)

lemma pt_slice_cong:
  "(\<And>x. a \<le> x \<Longrightarrow> x < a + n \<Longrightarrow> pt_mem p dev' x = pt_mem p dev x) \<Longrightarrow>
   pt_slice p dev' a n = pt_slice p dev a n"
  unfolding pt_slice_def by (rule mem_slice_cong) simp

lemma head_at_cong:
  assumes "\<And>x. a + (i + 1) * 32 \<le> x \<Longrightarrow> x < a + (i + 2) * 32 \<Longrightarrow> pt_mem p dev' x = pt_mem p dev x"
  shows "head_at p dev' a i = head_at p dev a i"
  unfolding head_at_def by (rule arg_cong [where f = item_of_bytes], rule pt_slice_cong) (auto intro: assms)

lemma head_state: "it_state (head_at p dev a i) = pt_mem p dev (a + (i + 1) * 32)"
  by (simp add: head_at_def)

text \<open>How the entry list follows a change: every old entry keeps its place and its span.\<close>

lemma entries_update:
  assumes "\<And>j it. (j, it) \<in> set (entries_from p dev a i) \<Longrightarrow>
      head_at p dev' a j = f j it \<and> it_state (f j it) \<noteq> ITEM_UNUSED \<and>
      wm_nvs_item_get_span (f j it) = wm_nvs_item_get_span it"
    and "entries_from p dev' a (log_end i (entries_from p dev a i)) = rest"
  shows "entries_from p dev' a i = map (\<lambda>(j, it). (j, f j it)) (entries_from p dev a i) @ rest"
  using assms
proof (induction p dev a i rule: entries_from.induct)
  case (1 p dev a i)
  let ?h = "head_at p dev a i"
  show ?case
  proof (cases "i < NVS_ENTRY_COUNT \<and> it_state ?h \<noteq> ITEM_UNUSED")
    case True
    then have e: "entries_from p dev a i = (i, ?h) # entries_from p dev a (i + wm_nvs_item_get_span ?h)"
      by (subst entries_from.simps) simp
    have h: "head_at p dev' a i = f i ?h" "it_state (f i ?h) \<noteq> ITEM_UNUSED"
      "wm_nvs_item_get_span (f i ?h) = wm_nvs_item_get_span ?h"
      using 1(2) [of i ?h] by (simp_all add: e)
    have IH: "entries_from p dev' a (i + wm_nvs_item_get_span ?h) =
        map (\<lambda>(j, it). (j, f j it)) (entries_from p dev a (i + wm_nvs_item_get_span ?h)) @ rest"
      using 1(2,3) by (intro 1(1) [OF True]) (auto simp: e)
    show ?thesis unfolding e using IH h True by (subst entries_from.simps) simp
  next
    case False
    then have "entries_from p dev a i = []" by (simp only: entries_Nil_iff simp_thms)
    with 1(3) show ?thesis by simp
  qed
qed

lemma entries_cong:
  assumes "\<And>x. a + 32 \<le> x \<Longrightarrow> x < a + NVS_SECTION_SIZE \<Longrightarrow> pt_mem p dev' x = pt_mem p dev x"
  shows "entries_from p dev' a i = entries_from p dev a i"
proof -
  have h: "head_at p dev' a j = head_at p dev a j" if "j < NVS_ENTRY_COUNT" for j
    by (rule head_at_cong, rule assms) (use that in auto)
  let ?n = "log_end i (entries_from p dev a i)"
  have "entries_from p dev a ?n = []" by (rule entries_end)
  then have "entries_from p dev' a ?n = []" using h by (auto simp: entries_Nil_iff)
  then have "entries_from p dev' a i = map (\<lambda>(j, it). (j, it)) (entries_from p dev a i) @ []"
    by (intro entries_update) (use h entries_mem in \<open>auto simp: split_beta\<close>)
  then show ?thesis by simp
qed

text \<open>Changing the state byte of one slice.\<close>

lemma item_of_bytes_state_upd:
  "bs \<noteq> [] \<Longrightarrow> item_of_bytes (bs[0 := b]) = (item_of_bytes bs)\<lparr>it_state := b\<rparr>"
  by (simp add: item_of_bytes_def One_nat_def)

lemma pt_slice_prog_first:
  assumes "0 < n"
  shows "pt_slice p (pt_prog env p dev a [b]) a n = (pt_slice p dev a n)[0 := pp_cell env (pt_mem p dev a) b]"
  using assms by (intro nth_equalityI) (auto simp: pt_mem_prog nth_list_update)

lemma head_at_prog_state:
  assumes "j < NVS_ENTRY_COUNT"
  shows "head_at p (pt_prog env p dev (a + (k + 1) * 32) [b]) a j =
    (if j = k then (head_at p dev a k)\<lparr>it_state := pp_cell env (it_state (head_at p dev a k)) b\<rparr>
     else head_at p dev a j)"
proof (cases "j = k")
  case True
  have "pt_slice p dev (a + (k + 1) * 32) 32 \<noteq> []"
    by (metis length_pt_slice length_0_conv zero_neq_numeral)
  with True show ?thesis
    by (simp add: head_at_def pt_slice_prog_first item_of_bytes_state_upd)
next
  case False
  then have "j * 32 \<noteq> k * 32" by simp
  have "head_at p (pt_prog env p dev (a + (k + 1) * 32) [b]) a j = head_at p dev a j"
  proof (rule head_at_cong)
    fix x assume x: "a + (j + 1) * 32 \<le> x" "x < a + (j + 2) * 32"
    have "x \<noteq> a + (k + 1) * 32"
    proof
      assume "x = a + (k + 1) * 32"
      with x have "j \<le> k" "k < j + 1" by auto
      with False show False by simp
    qed
    then show "pt_mem p (pt_prog env p dev (a + (k + 1) * 32) [b]) x = pt_mem p dev x"
      by (auto simp: pt_mem_prog)
  qed
  with False show ?thesis by simp
qed

definition drop_entry :: "nat \<Rightarrow> nat \<times> item \<Rightarrow> nat \<times> item" where
  "drop_entry k e = (if fst e = k then (k, (snd e)\<lparr>it_state := ITEM_DROPED\<rparr>) else e)"

lemma span_upd [simp]:
  "wm_nvs_item_get_span (it\<lparr>it_state := s\<rparr>) = wm_nvs_item_get_span it"
  by (simp add: wm_nvs_item_get_span_def)

lemma entries_drop:
  assumes "nor_cells env" and "(k, it) \<in> set (entries_from p dev a 0)"
    and "it_state it = ITEM_USING \<or> it_state it = ITEM_DROPED"
  shows "entries_from p (pt_prog env p dev (a + (k + 1) * 32) [ITEM_DROPED]) a 0 =
    map (drop_entry k) (entries_from p dev a 0)"
proof -
  let ?dev = "pt_prog env p dev (a + (k + 1) * 32) [ITEM_DROPED]"
  let ?es = "entries_from p dev a 0"
  let ?f = "\<lambda>j x. snd (drop_entry k (j, x))"
  have st: "it_state (head_at p dev a k) = ITEM_USING \<or> it_state (head_at p dev a k) = ITEM_DROPED"
    using entries_mem(1) [OF assms(2)] assms(3) by simp
  then have pp: "pp_cell env (it_state (head_at p dev a k)) ITEM_DROPED = ITEM_DROPED"
    using assms(1) by (auto simp: pp_cell_nor)
  have "entries_from p ?dev a (log_end 0 ?es) = []"
  proof -
    let ?n = "log_end 0 ?es"
    have "?n \<noteq> k" using chained_mem [OF chained_entries assms(2)] span_pos(1) [of it] by linarith
    moreover have "entries_from p dev a ?n = []" by (rule entries_end)
    ultimately show ?thesis by (auto simp: entries_Nil_iff head_at_prog_state [simplified])
  qed
  then have "entries_from p ?dev a 0 = map (\<lambda>(j, x). (j, ?f j x)) ?es @ []"
  proof (intro entries_update)
    fix j x assume m: "(j, x) \<in> set ?es"
    note e = entries_mem [OF m]
    show "head_at p ?dev a j = ?f j x \<and> it_state (?f j x) \<noteq> ITEM_UNUSED \<and>
        wm_nvs_item_get_span (?f j x) = wm_nvs_item_get_span x"
      using e pp by (auto simp: head_at_prog_state [simplified] drop_entry_def)
  qed
  then show ?thesis by (simp add: drop_entry_def split_beta cong: map_cong if_cong)
qed

end
