(* ===== verification/NvsSectorFind.thy ===== *)
theory NvsSectorFind
  imports NvsSectorLog
begin

text \<open>
  The invariant that ties the RAM copy of a sector to its flash, and the lookup: on a sector
  that satisfies it, the scan (with its hash list when a key is given) returns the first entry
  in use, at or after the start position, that has the wanted attributes.
\<close>

section \<open>The invariant\<close>

text \<open>The flash side: entries in use or dropped, checksums of the ones in use, blank cells after
  the last entry.\<close>

definition log_ok :: "env \<Rightarrow> pt \<Rightarrow> flash_dev \<Rightarrow> nat \<Rightarrow> bool" where
  "log_ok env p dev a \<longleftrightarrow>
     (\<forall>(j, it) \<in> set (entries_from p dev a 0).
        (it_state it = ITEM_USING \<or> it_state it = ITEM_DROPED) \<and>
        (it_state it = ITEM_USING \<longrightarrow> it_crc_item it = wm_nvs_item_crc_head env it)) \<and>
     log_end 0 (entries_from p dev a 0) \<le> NVS_ENTRY_COUNT \<and>
     (\<forall>x. a + (log_end 0 (entries_from p dev a 0) + 1) * 32 \<le> x \<and> x < a + NVS_SECTION_SIZE \<longrightarrow>
        pt_mem p dev x = 0xFF)"

definition hash_keys :: "env \<Rightarrow> (nat \<times> item) list \<Rightarrow> (nat \<times> nat) list" where
  "hash_keys env es = map (\<lambda>e. (item_hash24 env (snd e), fst e)) (filter is_using es)"

definition sector_live :: "sector \<Rightarrow> bool" where
  "sector_live sec \<longleftrightarrow> s_state sec = SEC_USING \<or> s_state sec = SEC_FULL \<or> s_state sec = SEC_DELETTING"

definition sector_place :: "pt \<Rightarrow> sector \<Rightarrow> bool" where
  "sector_place p sec \<longleftrightarrow> s_address sec + NVS_SECTION_SIZE \<le> pt_size p \<and>
     s_address sec mod NVS_SECTION_SIZE = 0"

text \<open>The RAM side: the counters and the hash list describe exactly these entries.\<close>

definition sector_ok :: "env \<Rightarrow> pt \<Rightarrow> flash_dev \<Rightarrow> sector \<Rightarrow> bool" where
  "sector_ok env p dev sec \<longleftrightarrow>
     pt_ok env p dev \<and> sector_place p sec \<and> sector_live sec \<and> log_ok env p dev (s_address sec) \<and>
     s_next_free sec = log_end 0 (sector_entries p dev sec) \<and>
     s_used sec = spans (sector_entries p dev sec) \<and>
     s_droped sec = spans (filter is_droped (sector_entries p dev sec)) \<and>
     hash_inv (s_hash sec) \<and> hash_list (s_hash sec) = hash_keys env (sector_entries p dev sec)"

lemma chained_sector [simp]: "chained 0 (sector_entries p dev sec)"
  by (simp add: sector_entries_def)

lemma sector_ok_entry:
  assumes "sector_ok env p dev sec" and "(j, it) \<in> set (sector_entries p dev sec)"
  shows "it_state it = ITEM_USING \<or> it_state it = ITEM_DROPED"
    and "it_state it = ITEM_USING \<Longrightarrow> it_crc_item it = wm_nvs_item_crc_head env it"
    and "j + wm_nvs_item_get_span it \<le> s_next_free sec"
    and "s_next_free sec \<le> NVS_ENTRY_COUNT"
    and "item_wf it" and "it = head_at p dev (s_address sec) j" and "j < NVS_ENTRY_COUNT"
proof -
  have m: "(j, it) \<in> set (entries_from p dev (s_address sec) 0)"
    using assms(2) by (simp add: sector_entries_def)
  show "it_state it = ITEM_USING \<or> it_state it = ITEM_DROPED"
    and "it_state it = ITEM_USING \<Longrightarrow> it_crc_item it = wm_nvs_item_crc_head env it"
    and "s_next_free sec \<le> NVS_ENTRY_COUNT"
    using assms m by (auto simp: sector_ok_def log_ok_def sector_entries_def)
  show "j + wm_nvs_item_get_span it \<le> s_next_free sec"
    using assms chained_mem [OF chained_sector assms(2)] by (simp add: sector_ok_def)
  show "item_wf it" "it = head_at p dev (s_address sec) j" "j < NVS_ENTRY_COUNT"
    using entries_mem [OF m] by simp_all
qed

lemma sector_ok_next_free: "sector_ok env p dev sec \<Longrightarrow> s_next_free sec \<le> NVS_ENTRY_COUNT"
  by (simp add: sector_ok_def log_ok_def sector_entries_def)

lemma read_head:
  assumes "pt_ok env p dev" and "sector_place p sec" and "j < NVS_ENTRY_COUNT" and "item_wf it"
  shows "wm_nvs_pt_read_item env p dev (s_address sec + (j + 1) * NVS_SLICE_SIZE) it =
    (WM_NVS_ERR_OK, head_at p dev (s_address sec) j)"
  using assms by (subst pt_read_item_spec) (auto simp: head_at_def sector_place_def)

section \<open>The lookup\<close>

text \<open>With a key, only entries whose 24-bit hash is that of the key, group and segment count.\<close>

definition cand :: "env \<Rightarrow> nat \<Rightarrow> bytes option \<Rightarrow> nat \<Rightarrow> item \<Rightarrow> bool" where
  "cand env g key si x = (case key of None \<Rightarrow> True
     | Some k \<Rightarrow> item_hash24 env x = item_hash24 env (wm_nvs_item_init env ITEM_USING g 0 k None 0 si))"

definition wanted ::
  "env \<Rightarrow> nat \<Rightarrow> nat \<Rightarrow> bytes option \<Rightarrow> nat \<Rightarrow> nat \<Rightarrow> nat \<times> item \<Rightarrow> bool" where
  "wanted env g t key si ss e \<longleftrightarrow>
     is_using e \<and> cand env g key si (snd e) \<and> item_match g t key si ss (snd e)"

lemma item_hash24_init:
  "item_hash24 env (wm_nvs_item_init env st g t k d n si) =
   item_hash24 env (wm_nvs_item_init env ITEM_USING g 0 k None 0 si)"
  by (simp add: item_hash24_def crc_hash_init)

definition start_ok :: "(nat \<times> item) list \<Rightarrow> bytes option \<Rightarrow> nat \<Rightarrow> bool" where
  "start_ok es key start \<longleftrightarrow> key \<noteq> None \<or> start \<in> fst ` set es \<or> log_end 0 es \<le> start"

lemma chained_next:
  "chained i es \<Longrightarrow> (j, x) \<in> set es \<Longrightarrow>
   j + wm_nvs_item_get_span x \<in> fst ` set es \<or> j + wm_nvs_item_get_span x = log_end i es"
proof (induction i es rule: chained.induct)
  case (2 i k y es)
  show ?case
  proof (cases "j = i \<and> x = y")
    case True
    with 2 show ?thesis by (cases es) auto
  next
    case False
    with 2 show ?thesis by (auto simp: image_iff)
  qed
qed simp

lemma start_ok_zero: "chained 0 es \<Longrightarrow> start_ok es key 0"
  by (cases es) (auto simp: start_ok_def)

lemma start_ok_next:
  "chained 0 es \<Longrightarrow> (j, x) \<in> set es \<Longrightarrow> start_ok es key (j + wm_nvs_item_get_span x)"
  using chained_next [of 0 es j x] by (auto simp: start_ok_def)

lemma find_map_filter:
  "find P (map f (filter Q xs)) = map_option f (find (\<lambda>x. Q x \<and> P (f x)) xs)"
  by (induction xs) auto

lemma chained_less: "chained i es \<Longrightarrow> e \<in> set es \<Longrightarrow> fst e < log_end i es"
proof -
  assume "chained i es" "e \<in> set es"
  then have "fst e + wm_nvs_item_get_span (snd e) \<le> log_end i es"
    using chained_mem [of i es "fst e" "snd e"] by simp
  with span_pos(1) [of "snd e"] show ?thesis by linarith
qed

lemma chained_tail_less:
  "chained (i + wm_nvs_item_get_span y) es \<Longrightarrow> (j, x) \<in> set es \<Longrightarrow> i < j"
  using chained_mem [of "i + wm_nvs_item_get_span y" es j x] span_pos(1) [of y] by linarith

lemma find_least:
  "chained i es \<Longrightarrow> (j, x) \<in> set es \<Longrightarrow> P (j, x) \<Longrightarrow> (\<And>e. e \<in> set es \<Longrightarrow> P e \<Longrightarrow> j \<le> fst e) \<Longrightarrow>
   find P es = Some (j, x)"
proof (induction i es rule: chained.induct)
  case (2 i k y es)
  show ?case
  proof (cases "(j, x) = (k, y)")
    case True
    with 2(4) show ?thesis by simp
  next
    case False
    then have m: "(j, x) \<in> set es" using 2(3) by auto
    then have "k < j" using chained_tail_less [of i y es j x] 2(2) by auto
    then have "\<not> P (k, y)" using 2(5) [of "(k, y)"] by auto
    with 2 m show ?thesis by auto
  qed
qed simp

lemma find_is_least:
  "chained i es \<Longrightarrow> find P es = Some e \<Longrightarrow> e' \<in> set es \<Longrightarrow> P e' \<Longrightarrow> fst e \<le> fst e'"
proof (induction i es rule: chained.induct)
  case (2 i k y es)
  show ?case
  proof (cases "P (k, y)")
    case True
    then have "fst e = i" using 2 by auto
    moreover have "i \<le> fst e'"
      using 2(2,4) chained_mem [of "i + wm_nvs_item_get_span y" es "fst e'" "snd e'"] by auto
    ultimately show ?thesis by simp
  next
    case False
    with 2 show ?thesis by auto
  qed
qed simp

text \<open>The position the scan reads next.\<close>

lemma sector_find_next_spec:
  assumes ok: "sector_ok env p dev sec" and st: "start_ok (sector_entries p dev sec) key start"
    and lt: "start < s_next_free sec" and wf: "item_wf it"
    and n: "sector_find_next env sec g t key si start it = (sl, it')"
  shows "item_wf it'"
    and "sl < 0 \<Longrightarrow> e \<in> set (sector_entries p dev sec) \<Longrightarrow> start \<le> fst e \<Longrightarrow>
           \<not> (is_using e \<and> cand env g key si (snd e))"
    and "\<not> sl < 0 \<Longrightarrow> \<exists>x. (nat sl, x) \<in> set (sector_entries p dev sec) \<and> start \<le> nat sl \<and>
           cand env g key si x \<and>
           (\<forall>e \<in> set (sector_entries p dev sec).
              start \<le> fst e \<and> is_using e \<and> cand env g key si (snd e) \<longrightarrow> nat sl \<le> fst e)"
proof -
  let ?es = "sector_entries p dev sec"
  have A: "item_wf it' \<and> (sl < 0 \<longrightarrow> (\<forall>e \<in> set ?es. start \<le> fst e \<longrightarrow>
      \<not> (is_using e \<and> cand env g key si (snd e)))) \<and>
    (\<not> sl < 0 \<longrightarrow> (\<exists>x. (nat sl, x) \<in> set ?es \<and> start \<le> nat sl \<and> cand env g key si x \<and>
       (\<forall>e \<in> set ?es. start \<le> fst e \<and> is_using e \<and> cand env g key si (snd e) \<longrightarrow> nat sl \<le> fst e)))"
  proof (cases key)
    case None
    have "s_next_free sec = log_end 0 ?es" using ok by (simp add: sector_ok_def)
    with st lt None obtain x where "(start, x) \<in> set ?es" by (auto simp: start_ok_def)
    with n None wf show ?thesis by (auto simp: sector_find_next_def cand_def)
  next
    case (Some k)
    let ?it = "wm_nvs_item_init env ITEM_USING g t k None 0 si"
    let ?P = "\<lambda>e. is_using e \<and> start \<le> fst e \<and> item_hash24 env (snd e) = item_hash24 env ?it"
    have c: "cand env g key si x \<longleftrightarrow> item_hash24 env x = item_hash24 env ?it" for x
      using Some by (simp add: cand_def item_hash24_init [of env ITEM_USING g t])
    have n': "sl = wm_nvs_hash_find env (s_hash sec) start ?it" "it' = ?it"
      using n Some by (auto simp: sector_find_next_def Let_def)
    have wf': "item_wf it'" using n' by (simp add: item_init_wf)
    have h: "wm_nvs_hash_find env (s_hash sec) start ?it =
        (case find ?P ?es of None \<Rightarrow> -1 | Some e \<Rightarrow> int (fst e))"
      using ok by (simp add: wm_nvs_hash_find_spec sector_ok_def hash_keys_def find_map_filter
          split: option.splits)
    show ?thesis
    proof (cases "find ?P ?es")
      case None
      then have "sl < 0" using n' h by simp
      moreover have "\<forall>e \<in> set ?es. \<not> ?P e" using None by (auto simp: find_None_iff)
      ultimately show ?thesis using c wf' by auto
    next
      case (Some e)
      then have sl: "sl = int (fst e)" using n' h by simp
      have e: "e \<in> set ?es" "?P e" using Some by (auto simp: find_Some_iff)
      have "fst e \<le> fst e'" if "e' \<in> set ?es" "?P e'" for e'
        using find_is_least [OF chained_sector Some that] .
      moreover have "(fst e, snd e) \<in> set ?es" using e by simp
      moreover have "cand env g key si (snd e)" using e c by simp
      ultimately show ?thesis using e(2) sl wf' c by (intro conjI impI exI [of _ "snd e"]) auto
    qed
  qed
  then show "item_wf it'"
    and "sl < 0 \<Longrightarrow> e \<in> set (sector_entries p dev sec) \<Longrightarrow> start \<le> fst e \<Longrightarrow>
           \<not> (is_using e \<and> cand env g key si (snd e))"
    and "\<not> sl < 0 \<Longrightarrow> \<exists>x. (nat sl, x) \<in> set (sector_entries p dev sec) \<and> start \<le> nat sl \<and>
           cand env g key si x \<and>
           (\<forall>e \<in> set (sector_entries p dev sec).
              start \<le> fst e \<and> is_using e \<and> cand env g key si (snd e) \<longrightarrow> nat sl \<le> fst e)"
    by blast+
qed

definition find_result ::
  "sector \<Rightarrow> nat \<Rightarrow> (nat \<times> item) option \<Rightarrow> int \<times> sector \<times> nat \<times> item \<Rightarrow> bool" where
  "find_result sec ix r out =
     (case r of Some (j, x) \<Rightarrow> out = (WM_NVS_ERR_OK, sec, j, x)
      | None \<Rightarrow> \<exists>it. item_wf it \<and> out = (WM_NVS_ERR_NOT_FOUND, sec, ix, it))"

text \<open>Skipping an entry that is not wanted does not change what is found.\<close>

lemma find_skip:
  assumes "chained 0 es" and "(j, x) \<in> set es" and "start \<le> j" and "\<not> Q (j, x)"
    and "\<And>e. e \<in> set es \<Longrightarrow> start \<le> fst e \<Longrightarrow> Q e \<Longrightarrow> j \<le> fst e"
  shows "find (\<lambda>e. j + wm_nvs_item_get_span x \<le> fst e \<and> Q e) es =
         find (\<lambda>e. start \<le> fst e \<and> Q e) es"
proof (rule find_cong [OF refl])
  fix e assume e: "e \<in> set es"
  have "j + wm_nvs_item_get_span x \<le> fst e" if "start \<le> fst e" "Q e"
  proof -
    have "j \<le> fst e" using assms(5) [OF e that] .
    moreover have "fst e \<noteq> j"
    proof
      assume "fst e = j"
      with e assms(2) chained_distinct [OF assms(1)] have "e = (j, x)"
        by (metis eq_key_imp_eq_value prod.collapse)
      with that(2) assms(4) show False by simp
    qed
    ultimately show ?thesis
      using chained_after [OF assms(1,2), of "fst e" "snd e"] e by simp
  qed
  with assms(3) show "(j + wm_nvs_item_get_span x \<le> fst e \<and> Q e) = (start \<le> fst e \<and> Q e)" by auto
qed

lemma sector_find_loop_spec:
  assumes "sector_ok env p dev sec" and "start_ok (sector_entries p dev sec) key start"
    and "item_wf it" and "till = s_next_free sec"
  shows "find_result sec ix (find (\<lambda>e. start \<le> fst e \<and> wanted env g t key si ss e)
      (sector_entries p dev sec)) (sector_find_loop env p dev sec g t key ix it si ss start till)"
  using assms
proof (induction env p dev sec g t key ix it si ss start till rule: sector_find_loop.induct)
  case (1 env p dev sec g t key ix it si ss start till)
  let ?es = "sector_entries p dev sec" and ?Q = "wanted env g t key si ss"
  note ok = 1(3) and wf = 1(5)
  have nf: "s_next_free sec = log_end 0 ?es" using ok by (simp add: sector_ok_def)
  show ?case
  proof (cases "start < till")
    case False
    have "fst e < start" if "e \<in> set ?es" for e
      using chained_less [OF chained_sector that] False nf 1(6) by simp
    then have "find (\<lambda>e. start \<le> fst e \<and> ?Q e) ?es = None"
      unfolding find_None_iff by fastforce
    with False wf show ?thesis by (subst sector_find_loop.simps) (simp add: find_result_def)
  next
    case True
    obtain sl it1 where n: "sector_find_next env sec g t key si start it = (sl, it1)"
      by (cases "sector_find_next env sec g t key si start it")
    note nx = sector_find_next_spec [OF ok 1(4) True [unfolded 1(6)] wf n]
    show ?thesis
    proof (cases "sl < 0")
      case neg: True
      then have "find (\<lambda>e. start \<le> fst e \<and> ?Q e) ?es = None"
        unfolding find_None_iff using nx(2) by (auto simp: wanted_def)
      with True neg n nx(1) show ?thesis
        by (subst sector_find_loop.simps) (auto simp: find_result_def)
    next
      case pos: False
      then obtain x where x: "(nat sl, x) \<in> set ?es" "start \<le> nat sl" "cand env g key si x"
        "\<And>e. e \<in> set ?es \<Longrightarrow> start \<le> fst e \<Longrightarrow> is_using e \<Longrightarrow> cand env g key si (snd e) \<Longrightarrow> nat sl \<le> fst e"
        using nx(3) by blast
      note xe = sector_ok_entry [OF ok x(1)]
      have rd: "wm_nvs_pt_read_item env p dev (s_address sec + (nat sl + 1) * NVS_SLICE_SIZE) it1 =
          (WM_NVS_ERR_OK, x)"
        using read_head [of env p dev sec "nat sl" it1] ok xe nx(1) by (simp add: sector_ok_def)
      let ?s = "nat sl + wm_nvs_item_get_span x"
      have least: "\<And>e. e \<in> set ?es \<Longrightarrow> start \<le> fst e \<Longrightarrow> ?Q e \<Longrightarrow> nat sl \<le> fst e"
        using x(4) by (auto simp: wanted_def)
      have so: "start_ok ?es key ?s" by (rule start_ok_next [OF chained_sector x(1)])
      show ?thesis
      proof (cases "?Q (nat sl, x)")
        case match: True
        have "find (\<lambda>e. start \<le> fst e \<and> ?Q e) ?es = Some (nat sl, x)"
          by (rule find_least [OF chained_sector x(1)]) (use match x(2) least in auto)
        with True n pos rd match show ?thesis
          by (subst sector_find_loop.simps) (simp add: find_result_def Let_def wanted_def algebra_simps)
      next
        case nomatch: False
        have eq: "find (\<lambda>e. ?s \<le> fst e \<and> ?Q e) ?es = find (\<lambda>e. start \<le> fst e \<and> ?Q e) ?es"
          by (rule find_skip [where Q = ?Q, OF chained_sector x(1,2) nomatch least])
        have step: "sector_find_loop env p dev sec g t key ix it si ss start till =
            sector_find_loop env p dev sec g t key ix x si ss ?s till"
          using True n pos rd nomatch xe(1) x(3)
          by (subst sector_find_loop.simps) (auto simp: Let_def wanted_def algebra_simps)
        have "find_result sec ix (find (\<lambda>e. ?s \<le> fst e \<and> ?Q e) ?es)
            (sector_find_loop env p dev sec g t key ix x si ss ?s till)"
        proof (cases "it_state x = ITEM_DROPED")
          case True
          show ?thesis
            by (rule 1(1) [OF \<open>start < till\<close> n [symmetric] pos refl rd [symmetric] _ refl True ok so])
              (use xe 1(6) in simp_all)
        next
          case False
          then have "it_state x = ITEM_USING" using xe by simp
          moreover from this have "\<not> item_match g t key si ss x" using nomatch x(3) by (simp add: wanted_def)
          ultimately show ?thesis
            by (intro 1(2) [OF \<open>start < till\<close> n [symmetric] pos refl rd [symmetric] _ refl False _ _ ok so])
              (use xe 1(6) in simp_all)
        qed
        then show ?thesis unfolding eq step .
      qed
    qed
  qed
qed

text \<open>The lookup on a sector that satisfies the invariant.\<close>

lemma wm_nvs_sector_find_item_spec:
  assumes "sector_ok env p dev sec" and "start_ok (sector_entries p dev sec) key ix" and "item_wf it"
  shows "find_result sec ix (find (\<lambda>e. ix \<le> fst e \<and> wanted env g t key si ss e)
      (sector_entries p dev sec)) (wm_nvs_sector_find_item env p dev sec g t key ix it si ss)"
proof (cases "ix \<ge> NVS_ENTRY_COUNT")
  case True
  have "find (\<lambda>e. ix \<le> fst e \<and> wanted env g t key si ss e) (sector_entries p dev sec) = None"
    unfolding find_None_iff using sector_ok_entry(7) [OF assms(1)] True by fastforce
  with True assms show ?thesis
    by (auto simp: wm_nvs_sector_find_item_def find_result_def sector_ok_def sector_live_def)
next
  case False
  have "min (s_next_free sec) NVS_ENTRY_COUNT = s_next_free sec"
    using sector_ok_next_free [OF assms(1)] by simp
  with False assms sector_find_loop_spec [OF assms refl, of ix g t si ss] show ?thesis
    by (auto simp: wm_nvs_sector_find_item_def sector_ok_def sector_live_def)
qed

end
