(* ===== verification/NvsSectorOps.thy ===== *)
theory NvsSectorOps
  imports NvsSectorFind
begin

text \<open>
  What the sector operations do to the entry list: a write appends an entry, dropping marks
  one, and both keep the invariant; whatever does not touch a sector leaves it alone.
\<close>

section \<open>Frames\<close>

definition same_on :: "pt \<Rightarrow> flash_dev \<Rightarrow> flash_dev \<Rightarrow> nat \<Rightarrow> nat \<Rightarrow> bool" where
  "same_on p dev dev' lo hi \<longleftrightarrow> (\<forall>x. lo \<le> x \<and> x < hi \<longrightarrow> pt_mem p dev' x = pt_mem p dev x)"

text \<open>The payload of an entry.\<close>

definition entry_data :: "pt \<Rightarrow> flash_dev \<Rightarrow> nat \<Rightarrow> nat \<times> item \<Rightarrow> bytes" where
  "entry_data p dev a e =
     (if it_length (snd e) \<le> 8 then take (it_length (snd e)) (it_data (snd e))
      else pt_slice p dev (a + (fst e + 1 + 1) * NVS_SLICE_SIZE) (it_length (snd e)))"

lemma entries_same:
  "same_on p dev dev' (a + 32) (a + NVS_SECTION_SIZE) \<Longrightarrow> entries_from p dev' a i = entries_from p dev a i"
  by (rule entries_cong) (simp add: same_on_def)

lemma log_ok_same:
  assumes "same_on p dev dev' (a + 32) (a + NVS_SECTION_SIZE)" and "log_ok env p dev a"
  shows "log_ok env p dev' a"
  using assms(2) assms(1) unfolding log_ok_def entries_same [OF assms(1)]
  by (auto simp: same_on_def)

lemma sector_ok_same:
  assumes s: "same_on p dev dev' (s_address sec + 32) (s_address sec + NVS_SECTION_SIZE)"
    and "sector_ok env p dev sec" and "pt_ok env p dev'"
  shows "sector_ok env p dev' sec" and "sector_entries p dev' sec = sector_entries p dev sec"
proof -
  show e: "sector_entries p dev' sec = sector_entries p dev sec"
    unfolding sector_entries_def by (rule entries_same [OF s])
  show "sector_ok env p dev' sec"
    using assms log_ok_same [OF s] unfolding sector_ok_def e by simp
qed

lemma entry_data_same:
  assumes "same_on p dev dev' (a + 32) (a + (n + 1) * 32)"
    and "j + wm_nvs_item_get_span it \<le> n"
  shows "entry_data p dev' a (j, it) = entry_data p dev a (j, it)"
proof (cases "it_length it \<le> 8")
  case False
  then have "it_length it \<le> (wm_nvs_item_get_span it - 1) * 32" using span_covers [of it] by simp
  moreover have "1 \<le> wm_nvs_item_get_span it" by (rule span_ge_1)
  ultimately have "(j + 1 + 1) * 32 + it_length it \<le> (j + wm_nvs_item_get_span it + 1) * 32"
    by (simp add: algebra_simps)
  also have "\<dots> \<le> (n + 1) * 32" using assms(2) by simp
  finally have "pt_slice p dev' (a + (j + 1 + 1) * 32) (it_length it) =
      pt_slice p dev (a + (j + 1 + 1) * 32) (it_length it)"
    using assms(1) by (intro pt_slice_cong) (auto simp: same_on_def)
  with False show ?thesis by (simp add: entry_data_def)
qed (simp add: entry_data_def)

text \<open>The live content: the entries in use, in order, with their payload.\<close>

definition live :: "pt \<Rightarrow> flash_dev \<Rightarrow> sector \<Rightarrow> (item \<times> bytes) list" where
  "live p dev sec =
     map (\<lambda>e. (snd e, entry_data p dev (s_address sec) e)) (filter is_using (sector_entries p dev sec))"

lemma live_same:
  assumes "sector_ok env p dev sec"
    and "same_on p dev dev' (s_address sec + 32) (s_address sec + NVS_SECTION_SIZE)"
  shows "live p dev' sec = live p dev sec"
proof -
  have e: "sector_entries p dev' sec = sector_entries p dev sec"
    unfolding sector_entries_def by (rule entries_same [OF assms(2)])
  have "entry_data p dev' (s_address sec) x = entry_data p dev (s_address sec) x"
    if "x \<in> set (sector_entries p dev sec)" for x
  proof -
    have "fst x + wm_nvs_item_get_span (snd x) \<le> 127"
      using sector_ok_entry(3,4) [OF assms(1), of "fst x" "snd x"] that by simp
    with entry_data_same [of p dev dev' "s_address sec" 127 "fst x" "snd x"] assms(2)
    show ?thesis by simp
  qed
  then show ?thesis unfolding live_def e by simp
qed

section \<open>Appending\<close>

lemma log_append:
  assumes ok: "log_ok env p dev a" and nf: "nf = log_end 0 (entries_from p dev a 0)"
    and fit: "nf + wm_nvs_item_get_span it \<le> NVS_ENTRY_COUNT" and wf: "item_wf it"
    and us: "it_state it = ITEM_USING" and crc: "it_crc_item it = wm_nvs_item_crc_head env it"
    and old: "same_on p dev dev' (a + 32) (a + (nf + 1) * 32)"
    and new: "pt_slice p dev' (a + (nf + 1) * 32) 32 = item_bytes it"
    and blank: "\<And>x. a + (nf + wm_nvs_item_get_span it + 1) * 32 \<le> x \<Longrightarrow> x < a + NVS_SECTION_SIZE \<Longrightarrow>
      pt_mem p dev' x = 0xFF"
  shows "entries_from p dev' a 0 = entries_from p dev a 0 @ [(nf, it)]" and "log_ok env p dev' a"
proof -
  let ?es = "entries_from p dev a 0" and ?n = "nf + wm_nvs_item_get_span it"
  have h: "head_at p dev' a nf = it" using wf new by (simp add: head_at_def item_of_bytes_item_bytes)
  have "entries_from p dev' a ?n = []"
  proof (cases "?n < NVS_ENTRY_COUNT")
    case True
    then have "pt_mem p dev' (a + (?n + 1) * 32) = 0xFF" by (intro blank) auto
    then show ?thesis by (simp add: entries_Nil_iff head_state)
  qed (simp add: entries_Nil_iff)
  moreover have "nf < NVS_ENTRY_COUNT" using fit span_pos(1) [of it] by linarith
  ultimately have r: "entries_from p dev' a nf = [(nf, it)]"
    using h us by (simp add: entries_Cons)
  have "entries_from p dev' a 0 = map (\<lambda>(j, x). (j, x)) ?es @ [(nf, it)]"
  proof (rule entries_update)
    fix j x assume m: "(j, x) \<in> set ?es"
    have "j < nf" using chained_less [OF chained_entries m] nf by simp
    then have "head_at p dev' a j = head_at p dev a j"
      using old by (intro head_at_cong) (auto simp: same_on_def)
    with entries_mem [OF m] show "head_at p dev' a j = x \<and> it_state x \<noteq> ITEM_UNUSED \<and>
        wm_nvs_item_get_span x = wm_nvs_item_get_span x" by simp
  next
    show "entries_from p dev' a (log_end 0 ?es) = [(nf, it)]" using r nf by simp
  qed
  then show e: "entries_from p dev' a 0 = ?es @ [(nf, it)]" by simp
  show "log_ok env p dev' a"
    using ok us crc fit blank unfolding log_ok_def e by (auto simp: nf)
qed

lemma hash_keys_append: "hash_keys env (es @ es') = hash_keys env es @ hash_keys env es'"
  by (simp add: hash_keys_def)

lemma spans_append [simp]: "spans (es @ es') = spans es + spans es'"
  by (simp add: spans_def)

lemma spans_Cons [simp]: "spans ((j, it) # es) = wm_nvs_item_get_span it + spans es" "spans [] = 0"
  by (simp_all add: spans_def)

lemma spans_filter_le: "spans (filter P es) \<le> spans es"
  by (induction es) (auto simp: spans_def)

lemma sector_ok_used:
  assumes "sector_ok env p dev sec"
  shows "s_used sec = s_next_free sec" and "s_droped sec \<le> s_used sec" and "s_used sec \<le> NVS_ENTRY_COUNT"
  using assms log_end_spans [OF chained_sector, of p dev sec] spans_filter_le sector_ok_next_free [OF assms]
  by (auto simp: sector_ok_def)

lemma length_hash_keys: "chained 0 es \<Longrightarrow> length (hash_keys env es) \<le> log_end 0 es"
proof -
  have "length (filter P es) \<le> spans es" for P
  proof (induction es)
    case (Cons e es)
    then show ?case using span_ge_1 [of "snd e"] by (cases e) auto
  qed simp
  moreover assume "chained 0 es"
  ultimately show ?thesis using log_end_spans [of 0 es] by (simp add: hash_keys_def)
qed

text \<open>The metadata after an append.\<close>

lemma sector_ok_append:
  assumes ok: "sector_ok env p dev sec" and pt: "pt_ok env p dev'"
    and e: "entries_from p dev' (s_address sec) 0 = sector_entries p dev sec @ [(s_next_free sec, it)]"
    and log: "log_ok env p dev' (s_address sec)" and us: "it_state it = ITEM_USING"
    and fit: "s_next_free sec + wm_nvs_item_get_span it \<le> NVS_ENTRY_COUNT"
    and sec': "sec' = sec\<lparr>s_next_free := u8n (s_next_free sec + wm_nvs_item_get_span it),
        s_used := u8n (s_used sec + wm_nvs_item_get_span it),
        s_hash := snd (wm_nvs_hash_append env (s_hash sec) it (s_next_free sec))\<rparr>"
  shows "sector_ok env p dev' sec'"
    and "sector_entries p dev' sec' = sector_entries p dev sec @ [(s_next_free sec, it)]"
proof -
  let ?es = "sector_entries p dev sec"
  show se: "sector_entries p dev' sec' = ?es @ [(s_next_free sec, it)]"
    using e sec' by (simp add: sector_entries_def)
  have nf: "s_next_free sec = log_end 0 ?es" "s_next_free sec < NVS_ENTRY_COUNT"
    using ok fit span_pos(1) [of it] by (simp add: sector_ok_def, linarith)
  have h: "hash_inv (s_hash sec)" "hash_list (s_hash sec) = hash_keys env ?es"
    using ok by (auto simp: sector_ok_def)
  have "h_count (s_hash sec) < NVS_ENTRY_COUNT"
    using hash_list_length [OF h(1)] length_hash_keys [OF chained_sector, of env p dev sec] h(2) nf by simp
  moreover have "heap_ok env" using pt by (simp add: pt_ok_def)
  ultimately have ha: "hash_inv (s_hash sec')"
    "hash_list (s_hash sec') = hash_keys env (?es @ [(s_next_free sec, it)])"
    using wm_nvs_hash_append_spec(2,3) [OF h(1), of env "s_next_free sec" it] nf(2) h(2) us sec'
    by (simp_all add: hash_keys_append, simp_all add: hash_keys_def)
  have u: "u8n (s_next_free sec + wm_nvs_item_get_span it) = s_next_free sec + wm_nvs_item_get_span it"
    "u8n (s_used sec + wm_nvs_item_get_span it) = s_used sec + wm_nvs_item_get_span it"
    using fit sector_ok_used(1) [OF ok] by simp_all
  have a: "s_address sec' = s_address sec" using sec' by simp
  show "sector_ok env p dev' sec'"
    using ok pt log ha us nf(1) u unfolding sector_ok_def se a
    by (simp add: sec' sector_place_def sector_live_def)
qed

section \<open>Writing an entry\<close>

definition write_span :: "nat \<Rightarrow> nat" where
  "write_span len = 1 + (if len > 8 then (len + NVS_SLICE_SIZE - 1) div NVS_SLICE_SIZE else 0)"

lemma write_span_item:
  "it_length it = len \<Longrightarrow> wm_nvs_item_get_span it = write_span len"
  by (simp add: wm_nvs_item_get_span_def write_span_def add.commute)

lemma write_span_covers: "8 < len \<Longrightarrow> len \<le> (write_span len - 1) * 32"
  by (simp add: write_span_def)

lemma write_span_pos [simp]: "0 < write_span len"
  by (simp add: write_span_def)

text \<open>The flash after the two writes: the head, then the data right behind it.\<close>

definition prog_entry :: "env \<Rightarrow> pt \<Rightarrow> flash_dev \<Rightarrow> nat \<Rightarrow> item \<Rightarrow> bytes \<Rightarrow> flash_dev" where
  "prog_entry env p dev off it d =
     (if it_length it > 8 then pt_prog env p (pt_prog env p dev off (item_bytes it)) (off + 32) d
      else pt_prog env p dev off (item_bytes it))"

lemma pt_ok_prog_entry [simp]: "pt_ok env p (prog_entry env p dev off it d) = pt_ok env p dev"
  by (simp add: prog_entry_def)

lemma pt_slice_blankI:
  "(\<And>x. a \<le> x \<Longrightarrow> x < a + n \<Longrightarrow> pt_mem p dev x = 0xFF) \<Longrightarrow> pt_slice p dev a n = replicate n 0xFF"
  by (intro nth_equalityI) simp_all

lemma prog_entry_spec:
  assumes "nor_cells env" and wf: "item_wf it" and d: "it_length it > 8 \<longrightarrow> length d = it_length it"
    and blank: "\<And>x. off \<le> x \<Longrightarrow> x < off + wm_nvs_item_get_span it * 32 \<Longrightarrow> pt_mem p dev x = 0xFF"
  defines "dev' \<equiv> prog_entry env p dev off it d"
  shows "pt_slice p dev' off 32 = item_bytes it"
    and "it_length it > 8 \<Longrightarrow> pt_slice p dev' (off + 32) (it_length it) = d"
    and "x < off \<or> off + wm_nvs_item_get_span it * 32 \<le> x \<Longrightarrow> pt_mem p dev' x = pt_mem p dev x"
proof -
  let ?d1 = "pt_prog env p dev off (item_bytes it)"
  have sp: "32 \<le> wm_nvs_item_get_span it * 32" using span_ge_1 [of it] by simp
  have cov: "it_length it > 8 \<Longrightarrow> 32 + it_length it \<le> wm_nvs_item_get_span it * 32"
    using span_covers [of it] span_ge_1 [of it] by (simp add: diff_mult_distrib)
  have l: "length (item_bytes it) = 32" using wf by simp
  have "pt_slice p dev off 32 = replicate 32 0xFF"
    by (rule pt_slice_blankI, rule blank) (use sp in auto)
  then have h1: "pt_slice p ?d1 off 32 = item_bytes it"
    using pt_slice_prog_blank [OF assms(1), of p dev off "item_bytes it"] l by simp
  show "pt_slice p dev' off 32 = item_bytes it"
    using h1 by (simp add: dev'_def prog_entry_def pt_slice_prog_disjoint)
  show "pt_slice p dev' (off + 32) (it_length it) = d" if big: "it_length it > 8"
  proof -
    have "pt_slice p ?d1 (off + 32) (it_length it) = pt_slice p dev (off + 32) (it_length it)"
      using l by (intro pt_slice_prog_disjoint) simp
    also have "\<dots> = replicate (it_length it) 0xFF"
      by (rule pt_slice_blankI, rule blank) (use cov [OF big] in auto)
    finally show ?thesis
      using pt_slice_prog_blank [OF assms(1), of p ?d1 "off + 32" d] big d
      by (simp add: dev'_def prog_entry_def)
  qed
  show "pt_mem p dev' x = pt_mem p dev x" if "x < off \<or> off + wm_nvs_item_get_span it * 32 \<le> x"
    using that sp cov d l by (auto simp: dev'_def prog_entry_def pt_mem_prog)
qed

lemma sector_free_blank:
  assumes "sector_ok env p dev sec" and "s_address sec + (s_next_free sec + 1) * 32 \<le> x"
    and "x < s_address sec + NVS_SECTION_SIZE"
  shows "pt_mem p dev x = 0xFF"
  using assms by (simp add: sector_ok_def log_ok_def sector_entries_def)

lemma write_item_data_flash:
  assumes "pt_ok env p dev" and "item_wf it" and "it_length it \<le> length d"
    and "off = sector_get_next_address sec" and "off + wm_nvs_item_get_span it * 32 \<le> pt_size p"
  shows "wm_nvs_sector_write_item_data env p dev sec it (if it_length it > 8 then Some d else None)
      (if it_length it > 8 then it_length it else 0) cnt =
    (WM_ERR_SUCCESS, prog_entry env p dev off it (take (it_length it) d),
     sec\<lparr>s_next_free := u8n (s_next_free sec + cnt), s_used := u8n (s_used sec + cnt)\<rparr>)"
proof -
  have sp: "32 \<le> wm_nvs_item_get_span it * 32" using span_ge_1 [of it] by simp
  have cov: "it_length it > 8 \<Longrightarrow> 32 + it_length it \<le> wm_nvs_item_get_span it * 32"
    using span_covers [of it] span_ge_1 [of it] by (simp add: diff_mult_distrib)
  have w: "wm_nvs_pt_write_item env p dev off it = (WM_NVS_ERR_OK, pt_prog env p dev off (item_bytes it))"
    using assms sp by (intro pt_write_item_spec) auto
  have w2: "wm_nvs_pt_write env p (pt_prog env p dev off (item_bytes it)) (off + 32) d (it_length it) =
      (WM_NVS_ERR_OK, pt_prog env p (pt_prog env p dev off (item_bytes it)) (off + 32) (take (it_length it) d))"
    if "it_length it > 8"
    using pt_write_spec(1) [of env p "pt_prog env p dev off (item_bytes it)" "off + 32" "it_length it" d]
      assms that cov by simp
  show ?thesis
    using w w2 by (simp add: wm_nvs_sector_write_item_data_def assms(4) [symmetric] prog_entry_def)
qed

text \<open>The item a write stores.\<close>

definition new_item :: "env \<Rightarrow> nat \<Rightarrow> nat \<Rightarrow> bytes \<Rightarrow> bytes \<Rightarrow> nat \<Rightarrow> nat \<Rightarrow> item" where
  "new_item env g t k d len si = wm_nvs_item_init env ITEM_USING g t k (Some d) len si"

lemma new_item_facts:
  assumes "len \<le> NVS_SINGLE_ITEM_MAX_DATA" and "len \<le> length d"
  shows "item_wf (new_item env g t k d len si)" and "it_length (new_item env g t k d len si) = len"
    and "it_state (new_item env g t k d len si) = ITEM_USING"
    and "it_crc_item (new_item env g t k d len si) = wm_nvs_item_crc_head env (new_item env g t k d len si)"
    and "wm_nvs_item_get_span (new_item env g t k d len si) = write_span len"
    and "len \<le> 8 \<Longrightarrow> take len (it_data (new_item env g t k d len si)) = take len d"
proof -
  show "item_wf (new_item env g t k d len si)" using assms by (simp add: new_item_def item_init_wf)
  show l: "it_length (new_item env g t k d len si) = len" using assms by (simp add: new_item_def)
  show "it_state (new_item env g t k d len si) = ITEM_USING" by (simp add: new_item_def)
  show "it_crc_item (new_item env g t k d len si) = wm_nvs_item_crc_head env (new_item env g t k d len si)"
    unfolding new_item_def by (rule item_init_crc)
  show "wm_nvs_item_get_span (new_item env g t k d len si) = write_span len"
    using l by (rule write_span_item)
  show "take len (it_data (new_item env g t k d len si)) = take len d" if "len \<le> 8"
    using that assms by (simp add: new_item_def wm_nvs_item_init_def Let_def overlay_def)
qed

text \<open>A write into a sector with room: the entry is appended with its data, the invariant
  holds, and nothing else of the flash changes.\<close>

lemma write_item_fits:
  fixes g t si :: nat and k :: bytes
  assumes ok: "sector_ok env p dev sec" and st: "s_state sec \<noteq> SEC_FULL"
    and len: "len \<le> NVS_SINGLE_ITEM_MAX_DATA" "len \<le> length d"
    and fit: "s_next_free sec + write_span len \<le> NVS_ENTRY_COUNT"
  defines "it \<equiv> new_item env g t k d len si"
  shows "\<exists>dev' sec'. wm_nvs_sector_write_item env p dev sec g t k (Some d) len si = (WM_NVS_ERR_OK, dev', sec') \<and>
    sector_ok env p dev' sec' \<and>
    sector_entries p dev' sec' = sector_entries p dev sec @ [(s_next_free sec, it)] \<and>
    entry_data p dev' (s_address sec) (s_next_free sec, it) = take len d \<and>
    same_on p dev dev' 0 (s_address sec + (s_next_free sec + 1) * 32) \<and>
    same_on p dev dev' (s_address sec + (s_next_free sec + write_span len + 1) * 32) (pt_size p) \<and>
    s_address sec' = s_address sec \<and> s_state sec' = s_state sec \<and> s_serial sec' = s_serial sec \<and>
    s_next_free sec' = s_next_free sec + write_span len"
proof -
  note f = new_item_facts [OF len, of env g t k si, folded it_def]
  let ?a = "s_address sec" and ?nf = "s_next_free sec"
  let ?off = "?a + (?nf + 1) * 32" and ?d = "take len d"
  let ?dev = "prog_entry env p dev ?off it ?d"
  let ?secb = "sec\<lparr>s_next_free := u8n (?nf + write_span len), s_used := u8n (s_used sec + write_span len)\<rparr>"
  let ?sec = "?secb\<lparr>s_hash := snd (wm_nvs_hash_append env (s_hash sec) it ?nf)\<rparr>"
  have pt: "pt_ok env p dev" and nor: "nor_cells env" and pl: "?a + NVS_SECTION_SIZE \<le> pt_size p"
    and live: "sector_live sec" and log: "log_ok env p dev ?a"
    and nf: "?nf = log_end 0 (entries_from p dev ?a 0)"
    using ok by (auto simp: sector_ok_def pt_ok_def sector_place_def sector_entries_def)
  have off: "?off = sector_get_next_address sec" by (simp add: sector_get_next_address_def)
  have fits: "?off + write_span len * 32 \<le> ?a + NVS_SECTION_SIZE" using fit by simp
  have blank: "pt_mem p dev x = 0xFF" if "?off \<le> x" "x < ?off + wm_nvs_item_get_span it * 32" for x
    by (rule sector_free_blank [OF ok that(1)]) (use that(2) fits f(5) in linarith)
  have dl: "it_length it > 8 \<longrightarrow> length ?d = it_length it" using len f(2) by simp
  note pe = prog_entry_spec [where off = ?off, OF nor f(1) dl blank]
  have W: "wm_nvs_sector_write_item_data env p dev sec it (if len > 8 then Some d else None)
      (if len > 8 then len else 0) (write_span len) = (WM_NVS_ERR_OK, ?dev, ?secb)"
    using write_item_data_flash [OF pt f(1) _ off, of d "write_span len"] len f fits pl
    by (cases "8 < len") simp_all
  have it: "wm_nvs_item_init env ITEM_USING g t k (Some d) len si = it"
    by (simp add: it_def new_item_def)
  have ns: "s_state sec \<noteq> SEC_INVALID" "s_state sec \<noteq> SEC_UNINIT"
    using live by (auto simp: sector_live_def)
  have res: "wm_nvs_sector_write_item env p dev sec g t k (Some d) len si = (WM_NVS_ERR_OK, ?dev, ?sec)"
    using st ns len fit W
    by (simp add: wm_nvs_sector_write_item_def Let_def it write_span_def [symmetric])
  have ap: "entries_from p ?dev ?a 0 = entries_from p dev ?a 0 @ [(?nf, it)]" "log_ok env p ?dev ?a"
  proof -
    have old: "same_on p dev ?dev (?a + 32) (?a + (?nf + 1) * 32)"
      using pe(3) by (simp add: same_on_def)
    have bl: "pt_mem p ?dev x = 0xFF"
      if "?a + (?nf + wm_nvs_item_get_span it + 1) * 32 \<le> x" "x < ?a + NVS_SECTION_SIZE" for x
    proof -
      have "?off + wm_nvs_item_get_span it * 32 \<le> x" using that(1) by (simp add: algebra_simps)
      moreover from this have "pt_mem p dev x = 0xFF"
        by (intro sector_free_blank [OF ok _ that(2)]) simp
      ultimately show ?thesis using pe(3) by simp
    qed
    have ft: "?nf + wm_nvs_item_get_span it \<le> NVS_ENTRY_COUNT" using fit f(5) by simp
    show "entries_from p ?dev ?a 0 = entries_from p dev ?a 0 @ [(?nf, it)]" "log_ok env p ?dev ?a"
      by (rule log_append [OF log nf ft f(1,3,4) old pe(1) bl], assumption+)+
  qed
  have sok: "sector_ok env p ?dev ?sec"
    "sector_entries p ?dev ?sec = sector_entries p dev sec @ [(?nf, it)]"
    using sector_ok_append [OF ok _ _ ap(2) f(3), of ?sec] ap(1) pt fit f(5)
    by (simp_all add: sector_entries_def)
  have "entry_data p ?dev ?a (?nf, it) = take len d"
  proof (cases "len \<le> 8")
    case True
    then show ?thesis using f(2,6) by (simp add: entry_data_def)
  next
    case False
    have "?a + (?nf + 1 + 1) * 32 = ?off + 32" by simp
    moreover have "pt_slice p ?dev (?off + 32) (it_length it) = take len d"
      using pe(2) False f(2) by simp
    ultimately show ?thesis using False f(2) by (simp only: entry_data_def fst_conv snd_conv if_False)
  qed
  moreover have "same_on p dev ?dev 0 ?off" using pe(3) by (simp add: same_on_def)
  moreover have "same_on p dev ?dev (?a + (?nf + write_span len + 1) * 32) (pt_size p)"
    using pe(3) f(5) by (auto simp: same_on_def algebra_simps)
  ultimately show ?thesis using res sok fit by (intro exI [of _ ?dev] exI [of _ ?sec]) simp
qed

lemma live_append:
  assumes ok: "sector_ok env p dev sec"
    and e: "sector_entries p dev' sec' = sector_entries p dev sec @ [(s_next_free sec, it)]"
    and us: "it_state it = ITEM_USING" and d: "entry_data p dev' (s_address sec) (s_next_free sec, it) = d"
    and s: "same_on p dev dev' 0 (s_address sec + (s_next_free sec + 1) * 32)"
    and a: "s_address sec' = s_address sec"
  shows "live p dev' sec' = live p dev sec @ [(it, d)]"
proof -
  have "entry_data p dev' (s_address sec) x = entry_data p dev (s_address sec) x"
    if "x \<in> set (sector_entries p dev sec)" for x
  proof -
    have "fst x + wm_nvs_item_get_span (snd x) \<le> s_next_free sec"
      using sector_ok_entry(3) [OF ok, of "fst x" "snd x"] that by simp
    moreover have "same_on p dev dev' (s_address sec + 32) (s_address sec + (s_next_free sec + 1) * 32)"
      using s by (simp add: same_on_def)
    ultimately show ?thesis
      using entry_data_same [of p dev dev' "s_address sec" "s_next_free sec" "fst x" "snd x"] by simp
  qed
  then show ?thesis unfolding live_def e a using us d by simp
qed

text \<open>A sector without room refuses, and nothing changes.\<close>

lemma write_item_full:
  assumes "sector_ok env p dev sec" and "s_state sec \<noteq> SEC_FULL" and "len \<le> NVS_SINGLE_ITEM_MAX_DATA"
    and "NVS_ENTRY_COUNT < s_next_free sec + write_span len"
  shows "wm_nvs_sector_write_item env p dev sec g t k d len si = (WM_NVS_ERR_SECTOR_FULL, dev, sec)"
  using assms
  by (auto simp: wm_nvs_sector_write_item_def sector_live_def sector_ok_def Let_def write_span_def)

section \<open>Reading an entry's data\<close>

lemma read_item_data_spec:
  assumes ok: "sector_ok env p dev sec" and m: "(j, it) \<in> set (sector_entries p dev sec)"
    and "length buf = it_length it"
  shows "wm_nvs_sector_read_item_data env p dev sec j it buf (it_length it) =
    (WM_NVS_ERR_OK, entry_data p dev (s_address sec) (j, it))"
proof (cases "it_length it \<le> 8")
  case True
  have "item_wf it" using sector_ok_entry(5) [OF ok m] .
  with True assms(3) show ?thesis
    by (simp add: wm_nvs_sector_read_item_data_def entry_data_def item_wf_def overlay_all)
next
  case False
  note e = sector_ok_entry [OF ok m]
  have "it_length it \<le> (wm_nvs_item_get_span it - 1) * 32" using False span_covers [of it] by simp
  then have "(j + 1 + 1) * 32 + it_length it \<le> (j + wm_nvs_item_get_span it + 1) * 32"
    using span_ge_1 [of it] by (simp add: algebra_simps)
  also have "\<dots> \<le> NVS_SECTION_SIZE" using e(3,4) by simp
  finally have "s_address sec + (j + 1 + 1) * 32 + it_length it \<le> pt_size p"
    using ok by (simp add: sector_ok_def sector_place_def)
  with False assms show ?thesis
    by (simp add: wm_nvs_sector_read_item_data_def entry_data_def pt_read_spec(1) sector_ok_def)
qed

section \<open>Dropping an entry\<close>

lemma hash_keys_drop:
  assumes "chained 0 es"
  shows "hash_keys env (map (drop_entry k) es) = filter (\<lambda>x. snd x \<noteq> k) (hash_keys env es)"
  by (induction es) (auto simp: hash_keys_def drop_entry_def)

lemma spans_drop: "spans (map (drop_entry k) es) = spans es"
  by (induction es) (auto simp: spans_def drop_entry_def)

lemma spans_droped_drop:
  "chained i es \<Longrightarrow> (k, it) \<in> set es \<Longrightarrow> it_state it = ITEM_USING \<Longrightarrow>
   spans (filter is_droped (map (drop_entry k) es)) = spans (filter is_droped es) + wm_nvs_item_get_span it"
proof (induction i es rule: chained.induct)
  case (2 i j x es)
  show ?case
  proof (cases "j = k")
    case True
    have "map (drop_entry k) es = es"
    proof (rule map_idI)
      fix e assume "e \<in> set es"
      then have "k < fst e" using chained_tail_less [of i x es "fst e" "snd e"] 2(2) True by auto
      then show "drop_entry k e = e" by (simp add: drop_entry_def)
    qed
    moreover have "x = it"
      using 2(2,3) True chained_tail_less [of i x es k it] by auto
    note xit = this
    ultimately have "map (drop_entry k) ((j, x) # es) = (k, it\<lparr>it_state := ITEM_DROPED\<rparr>) # es"
      using True by (simp add: drop_entry_def [of k "(k, it)"])
    with xit 2(4) show ?thesis by simp
  next
    case False
    with 2 show ?thesis by (auto simp: drop_entry_def)
  qed
qed simp

lemma log_end_drop: "log_end i (map (drop_entry k) es) = log_end i es"
  by (induction i es rule: log_end.induct) (auto simp: drop_entry_def)

lemma erase_item_spec:
  assumes ok: "sector_ok env p dev sec" and m: "(k, it) \<in> set (sector_entries p dev sec)"
    and us: "it_state it = ITEM_USING"
  shows "\<exists>dev' sec'. wm_nvs_sector_erase_item env p dev sec k it True = (WM_NVS_ERR_OK, dev', sec') \<and>
    sector_ok env p dev' sec' \<and>
    sector_entries p dev' sec' = map (drop_entry k) (sector_entries p dev sec) \<and>
    same_on p dev dev' 0 (s_address sec + (k + 1) * 32) \<and>
    same_on p dev dev' (s_address sec + (k + 1) * 32 + 1) (pt_size p) \<and>
    sec' = sec\<lparr>s_droped := s_droped sec + wm_nvs_item_get_span it, s_hash := s_hash sec'\<rparr>"
proof -
  let ?a = "s_address sec" and ?es = "sector_entries p dev sec"
  let ?off = "?a + (k + 1) * 32"
  let ?dev = "pt_prog env p dev ?off [ITEM_DROPED]"
  let ?sec = "sec\<lparr>s_droped := u8n (s_droped sec + wm_nvs_item_get_span it),
      s_hash := snd (wm_nvs_hash_erase env (s_hash sec) k)\<rparr>"
  note e = sector_ok_entry [OF ok m]
  have pt: "pt_ok env p dev" and nor: "nor_cells env" and pl: "?a + NVS_SECTION_SIZE \<le> pt_size p"
    and h: "hash_inv (s_hash sec)" "hash_list (s_hash sec) = hash_keys env ?es"
    using ok by (auto simp: sector_ok_def pt_ok_def sector_place_def)
  have "wm_nvs_pt_write_raw env p dev ?off [ITEM_DROPED] 1 = (WM_NVS_ERR_OK, ?dev)"
    using pt_write_spec(2) [OF pt, of ?off 1 "[ITEM_DROPED]"] pl e(7) by (simp add: One_nat_def)
  then have res: "wm_nvs_sector_erase_item env p dev sec k it True = (WM_NVS_ERR_OK, ?dev, ?sec)"
    by (simp add: wm_nvs_sector_erase_item_def Let_def)
  have es: "sector_entries p ?dev ?sec = map (drop_entry k) ?es"
    using entries_drop [OF nor, of k it p dev ?a] m us by (simp add: sector_entries_def)
  have dist: "distinct (map snd (hash_list (s_hash sec)))"
  proof -
    have "map snd (hash_keys env ?es) = map fst (filter is_using ?es)" by (simp add: hash_keys_def)
    moreover have "distinct (map fst (filter is_using ?es))"
      using chained_distinct [OF chained_sector, of p dev sec] by (rule distinct_map_filter)
    ultimately show ?thesis using h(2) by simp
  qed
  have hh: "hash_inv (s_hash ?sec)" "hash_list (s_hash ?sec) = hash_keys env (map (drop_entry k) ?es)"
    using wm_nvs_hash_erase_spec(1,2) [OF h(1) dist e(7), of env]
    by (simp_all add: h(2) hash_keys_drop [OF chained_sector])
  have dr: "spans (filter is_droped (map (drop_entry k) ?es)) = s_droped sec + wm_nvs_item_get_span it"
    using spans_droped_drop [OF chained_sector m us] ok by (simp add: sector_ok_def)
  moreover have "spans (filter is_droped (map (drop_entry k) ?es)) \<le> NVS_ENTRY_COUNT"
    using spans_filter_le [of is_droped "map (drop_entry k) ?es"] sector_ok_used(3) [OF ok] ok
    by (simp add: spans_drop sector_ok_def)
  ultimately have u: "u8n (s_droped sec + wm_nvs_item_get_span it) = s_droped sec + wm_nvs_item_get_span it"
    by simp
  have log: "log_ok env p ?dev ?a"
  proof -
    have el: "entries_from p ?dev ?a 0 = map (drop_entry k) ?es" using es by (simp add: sector_entries_def)
    have kn: "?off < ?a + (log_end 0 ?es + 1) * 32" using chained_less [OF chained_sector m] by simp
    have "pt_mem p ?dev x = 0xFF"
      if "?a + (log_end 0 ?es + 1) * 32 \<le> x" "x < ?a + NVS_SECTION_SIZE" for x
    proof -
      have "pt_mem p dev x = 0xFF" using ok that by (simp add: sector_ok_def log_ok_def sector_entries_def)
      moreover have "x \<noteq> ?off" using that(1) kn by linarith
      ultimately show ?thesis by (auto simp: pt_mem_prog)
    qed
    moreover have "\<forall>(j, x) \<in> set (map (drop_entry k) ?es).
        (it_state x = ITEM_USING \<or> it_state x = ITEM_DROPED) \<and>
        (it_state x = ITEM_USING \<longrightarrow> it_crc_item x = wm_nvs_item_crc_head env x)"
      using sector_ok_entry(1,2) [OF ok] by (fastforce simp: drop_entry_def)
    ultimately show ?thesis
      using ok unfolding log_ok_def el log_end_drop
      by (simp add: sector_ok_def log_ok_def sector_entries_def)
  qed
  have "sector_ok env p ?dev ?sec"
    using ok log hh dr u unfolding sector_ok_def es log_end_drop spans_drop
    by (simp add: sector_place_def sector_live_def)
  moreover have "same_on p dev ?dev 0 ?off" "same_on p dev ?dev (?off + 1) (pt_size p)"
    by (auto simp: same_on_def pt_mem_prog)
  ultimately show ?thesis using res es u by (intro exI [of _ ?dev] exI [of _ ?sec]) simp
qed

lemma live_drop:
  assumes ok: "sector_ok env p dev sec" and k: "k < NVS_ENTRY_COUNT"
    and km: "k \<in> fst ` set (sector_entries p dev sec)"
    and e: "sector_entries p dev' sec' = map (drop_entry k) (sector_entries p dev sec)"
    and s: "same_on p dev dev' 0 (s_address sec + (k + 1) * 32)"
      "same_on p dev dev' (s_address sec + (k + 1) * 32 + 1) (pt_size p)"
    and a: "s_address sec' = s_address sec"
  shows "live p dev' sec' =
    map (\<lambda>e. (snd e, entry_data p dev (s_address sec) e))
      (filter (\<lambda>e. is_using e \<and> fst e \<noteq> k) (sector_entries p dev sec))"
proof -
  let ?es = "sector_entries p dev sec"
  have pl: "s_address sec + NVS_SECTION_SIZE \<le> pt_size p"
    using ok by (simp add: sector_ok_def sector_place_def)
  have f: "filter is_using (map (drop_entry k) es) = filter (\<lambda>e. is_using e \<and> fst e \<noteq> k) es" for es
    by (induction es) (auto simp: drop_entry_def)
  have "entry_data p dev' (s_address sec) x = entry_data p dev (s_address sec) x"
    if "x \<in> set ?es" "fst x \<noteq> k" for x
  proof (cases "it_length (snd x) \<le> 8")
    case False
    have x: "(fst x, snd x) \<in> set ?es" using that by simp
    note xe = sector_ok_entry [OF ok x]
    have c: "it_length (snd x) \<le> (wm_nvs_item_get_span (snd x) - 1) * 32"
      using False span_covers [of "snd x"] by simp
    have sp: "(fst x + 1 + 1) * 32 + it_length (snd x) \<le> (fst x + wm_nvs_item_get_span (snd x) + 1) * 32"
      using c span_ge_1 [of "snd x"] by (simp add: algebra_simps)
    also have "\<dots> \<le> NVS_SECTION_SIZE" using xe(3,4) by simp
    finally have hi: "s_address sec + (fst x + 1 + 1) * 32 + it_length (snd x) \<le> pt_size p" using pl by simp
    obtain y where y: "(k, y) \<in> set ?es" using km by auto
    have "pt_slice p dev' (s_address sec + (fst x + 1 + 1) * 32) (it_length (snd x)) =
        pt_slice p dev (s_address sec + (fst x + 1 + 1) * 32) (it_length (snd x))"
    proof (rule pt_slice_cong)
      fix b assume b: "s_address sec + (fst x + 1 + 1) * 32 \<le> b"
        "b < s_address sec + (fst x + 1 + 1) * 32 + it_length (snd x)"
      have "b \<noteq> s_address sec + (k + 1) * 32"
      proof
        assume bk: "b = s_address sec + (k + 1) * 32"
        have "fst x < k" using b(1) bk by simp
        then have "fst x + wm_nvs_item_get_span (snd x) \<le> k"
          using chained_after [OF chained_sector x y] by simp
        then have "(fst x + wm_nvs_item_get_span (snd x) + 1) * 32 \<le> (k + 1) * 32" by simp
        with sp b(2) bk show False by linarith
      qed
      moreover have "b < pt_size p" using b(2) hi by simp
      ultimately show "pt_mem p dev' b = pt_mem p dev b"
        using s unfolding same_on_def by (cases "b < s_address sec + (k + 1) * 32") auto
    qed
    with False show ?thesis by (simp add: entry_data_def)
  qed (simp add: entry_data_def)
  then show ?thesis unfolding live_def e a f by simp
qed

end
