(* ===== verification/NvsSectorLife.thy ===== *)
theory NvsSectorLife
  imports NvsSectorOps
begin

text \<open>
  The life of a sector: erased, given a header, loaded again at mount, copied by a collection.
  Loading rebuilds the RAM copy from the flash alone, and a copy holds exactly the live
  entries of its source.
\<close>

section \<open>Headers\<close>

definition header_wf :: "sec_header \<Rightarrow> bool" where
  "header_wf h \<longleftrightarrow> sh_magic h < 65536 \<and> sh_serial h < 2 ^ 32 \<and> sh_version h < 256 \<and> length (sh_resv2 h) = 19"

lemma length_header_bytes [simp]: "header_wf h \<Longrightarrow> length (header_bytes h) = 32"
  by (simp add: header_bytes_def header_body_def header_wf_def)

lemma header_roundtrip:
  assumes "header_wf h"
  shows "header_of_bytes (header_bytes h) = h"
proof -
  obtain m st r1 c sn v r2 where h: "h = \<lparr>sh_magic = m, sh_state = st, sh_resv1 = r1, sh_crc32 = c,
      sh_serial = sn, sh_version = v, sh_resv2 = r2\<rparr>" by (cases h)
  have l: "length (le_bytes 2 m) = 2" "length (crc_bytes c) = 4" "length (le_bytes 4 sn) = 4"
    "length r2 = 19" using assms by (simp_all add: h header_wf_def)
  have b: "header_bytes h = le_bytes 2 m @ [st, r1] @ crc_bytes c @ le_bytes 4 sn @ [of_nat v] @ r2"
    by (simp add: h header_bytes_def header_body_def)
  have dr: "drop 2 (x # y # xs) = xs" "drop 1 (x # xs) = xs" for x y :: u8 and xs
    by (simp_all add: numeral_2_eq_2 One_nat_def)
  have d2: "drop 2 (header_bytes h) = st # r1 # crc_bytes c @ le_bytes 4 sn @ of_nat v # r2"
    "take 2 (header_bytes h) = le_bytes 2 m" using l(1) by (simp_all add: b)
  have d4: "drop 4 (header_bytes h) = crc_bytes c @ le_bytes 4 sn @ of_nat v # r2"
    using arg_cong [OF d2(1), of "drop 2"] dr(1) by simp
  have d8: "drop 8 (header_bytes h) = le_bytes 4 sn @ of_nat v # r2"
    using arg_cong [OF d4, of "drop 4"] by simp
  have d12: "drop 12 (header_bytes h) = of_nat v # r2"
    using arg_cong [OF d8, of "drop 4"] by simp
  have d13: "drop 13 (header_bytes h) = r2"
    using arg_cong [OF d12, of "drop 1"] dr(2) by simp
  have len: "length (header_bytes h) = 32" using assms by simp
  have "header_bytes h ! 2 = drop 2 (header_bytes h) ! 0"
    "header_bytes h ! 3 = drop 2 (header_bytes h) ! 1"
    "header_bytes h ! 12 = drop 12 (header_bytes h) ! 0"
    using len by simp_all
  then have n: "header_bytes h ! 2 = st" "header_bytes h ! 3 = r1" "header_bytes h ! 12 = of_nat v"
    unfolding d2(1) d12 by (simp_all add: One_nat_def)
  have v: "m < 65536" "sn < 4294967296" "v < 256" using assms by (simp_all add: h header_wf_def)
  have e: "le_nat (le_bytes 2 m) = m" "le_nat (le_bytes 4 sn) = sn"
    using v by (simp_all add: le_nat_le_bytes)
  show ?thesis
    unfolding header_of_bytes_def n d2(2) d4 d8 d13 using l v(3) by (simp add: h e)
qed

text \<open>The header in flash is the one the RAM copy stands for.\<close>

definition header_ok :: "env \<Rightarrow> pt \<Rightarrow> flash_dev \<Rightarrow> sector \<Rightarrow> bool" where
  "header_ok env p dev sec \<longleftrightarrow>
     (let h = header_of_bytes (pt_slice p dev (s_address sec) 32)
      in sh_magic h = NVS_SECTOR_MAGIC \<and> sh_crc32 h = sector_crc32 env h \<and> sh_version h = NVS_VER_NUM \<and>
         sh_serial h = s_serial sec \<and> sh_state h = s_state sec)"

text \<open>An erased sector, in flash and in RAM.\<close>

definition sector_fresh :: "env \<Rightarrow> pt \<Rightarrow> flash_dev \<Rightarrow> sector \<Rightarrow> bool" where
  "sector_fresh env p dev sec \<longleftrightarrow>
     pt_ok env p dev \<and> sector_place p sec \<and> s_state sec = SEC_UNINIT \<and>
     (\<forall>x. s_address sec \<le> x \<and> x < s_address sec + NVS_SECTION_SIZE \<longrightarrow> pt_mem p dev x = 0xFF) \<and>
     hash_inv (s_hash sec) \<and> hash_list (s_hash sec) = [] \<and> s_used sec = 0 \<and> s_droped sec = 0"

section \<open>Erasing\<close>

lemma set_state_flash:
  assumes "pt_ok env p dev" and "sector_place p sec"
  shows "wm_nvs_sector_set_state env p dev sec st =
    (WM_NVS_ERR_OK, pt_prog env p dev (s_address sec + 2) [st], sec\<lparr>s_state := st\<rparr>)"
  using assms pt_write_spec(2) [of env p dev "s_address sec + 2" 1 "[st]"]
  by (simp add: wm_nvs_sector_set_state_def Let_def sector_place_def)

lemma sector_erase_spec:
  assumes "pt_ok env p dev" and pl: "sector_place p sec" and "hash_inv (s_hash sec)"
  shows "\<exists>dev' sec'. wm_nvs_sector_erase env p dev sec = (WM_NVS_ERR_OK, dev', sec') \<and>
    sector_fresh env p dev' sec' \<and> s_address sec' = s_address sec \<and>
    same_on p dev dev' 0 (s_address sec) \<and>
    same_on p dev dev' (s_address sec + NVS_SECTION_SIZE) (pt_size p)"
proof -
  let ?d1 = "pt_prog env p dev (s_address sec + 2) [SEC_CRASH]"
  let ?d2 = "pt_blank p ?d1 (s_address sec)"
  let ?sec = "sec\<lparr>s_state := SEC_UNINIT, s_version := NVS_VER_NUM, s_next_free := 0, s_used := 0,
      s_droped := 0, s_hash := wm_nvs_hash_clear (s_hash sec)\<rparr>"
  have "wm_nvs_pt_erase p ?d1 (s_address sec) = (WM_NVS_ERR_OK, ?d2)"
    using assms by (intro pt_erase_spec [of env]) (simp_all add: sector_place_def)
  then have "wm_nvs_sector_erase env p dev sec = (WM_NVS_ERR_OK, ?d2, ?sec)"
    using set_state_flash [OF assms(1,2), of SEC_CRASH] by (simp add: wm_nvs_sector_erase_def)
  moreover have "sector_fresh env p ?d2 ?sec"
    using assms by (auto simp: sector_fresh_def sector_place_def pt_mem_blank)
  moreover have "same_on p dev ?d2 0 (s_address sec)"
    "same_on p dev ?d2 (s_address sec + NVS_SECTION_SIZE) (pt_size p)"
    by (auto simp: same_on_def pt_mem_blank pt_mem_prog)
  ultimately show ?thesis by (intro exI [of _ ?d2] exI [of _ ?sec]) simp
qed

section \<open>Giving a header\<close>

lemma sector_init_spec:
  assumes fr: "sector_fresh env p dev sec" and sn: "s_serial sec < 2 ^ 32"
  shows "\<exists>dev' sec'. wm_nvs_sector_init env p dev sec = (WM_NVS_ERR_OK, dev', sec') \<and>
    sector_ok env p dev' sec' \<and> sector_entries p dev' sec' = [] \<and> header_ok env p dev' sec' \<and>
    s_state sec' = SEC_USING \<and> s_address sec' = s_address sec \<and> s_serial sec' = s_serial sec \<and>
    s_next_free sec' = 0 \<and>
    same_on p dev dev' 0 (s_address sec) \<and> same_on p dev dev' (s_address sec + 32) (pt_size p)"
proof -
  let ?a = "s_address sec"
  define h0 where "h0 = \<lparr>sh_magic = NVS_SECTOR_MAGIC, sh_state = SEC_USING, sh_resv1 = 0xFF,
      sh_crc32 = 0xFFFFFFFF, sh_serial = s_serial sec, sh_version = NVS_VER_NUM,
      sh_resv2 = replicate 19 0xFF\<rparr>"
  define h where "h = h0\<lparr>sh_crc32 := sector_crc32 env h0\<rparr>"
  define dv where "dv = pt_prog env p dev ?a (header_bytes h)"
  let ?sec = "sec\<lparr>s_state := SEC_USING, s_version := NVS_VER_NUM, s_next_free := 0, s_used := 0,
      s_droped := 0\<rparr>"
  have pt: "pt_ok env p dev" and nor: "nor_cells env" and pl: "?a + NVS_SECTION_SIZE \<le> pt_size p"
    using fr by (auto simp: sector_fresh_def pt_ok_def sector_place_def)
  have wf: "header_wf h" using sn by (simp add: header_wf_def h_def h0_def)
  have hf: "sh_magic h = NVS_SECTOR_MAGIC" "sh_state h = SEC_USING" "sh_serial h = s_serial sec"
    "sh_version h = NVS_VER_NUM" "sh_crc32 h = sector_crc32 env h"
    by (simp_all add: h_def h0_def sector_crc32_def header_body_def)
  note l = length_header_bytes [OF wf]
  have "wm_nvs_pt_write_raw env p dev ?a (header_bytes h) 32 = (WM_NVS_ERR_OK, dv)"
    using pt_write_spec(2) [OF pt, of ?a 32 "header_bytes h"] pl l by (simp add: dv_def)
  then have res: "wm_nvs_sector_init env p dev sec = (WM_NVS_ERR_OK, dv, ?sec)"
    by (simp add: wm_nvs_sector_init_def Let_def h_def h0_def)
  have "pt_slice p dev ?a 32 = replicate 32 0xFF"
    by (rule pt_slice_blankI) (use fr in \<open>simp add: sector_fresh_def\<close>)
  then have sl: "pt_slice p dv ?a 32 = header_bytes h"
    using pt_slice_prog_blank [OF nor, of p dev ?a "header_bytes h"] l by (simp add: dv_def)
  have hk: "header_ok env p dv ?sec"
    using header_roundtrip [OF wf] sl hf by (simp add: header_ok_def)
  have bl: "pt_mem p dv x = 0xFF" if "?a + 32 \<le> x" "x < ?a + NVS_SECTION_SIZE" for x
    using that fr l by (auto simp: dv_def pt_mem_prog sector_fresh_def)
  have e: "entries_from p dv ?a 0 = []" using bl [of "?a + 32"] by (simp add: entries_Nil_iff head_state)
  have "log_ok env p dv ?a" using bl unfolding log_ok_def e by simp
  moreover have "pt_ok env p dv" using pt by (simp add: dv_def)
  ultimately have "sector_ok env p dv ?sec"
    using fr pt by (simp add: sector_ok_def sector_entries_def e sector_fresh_def sector_place_def
        sector_live_def hash_keys_def)
  moreover have "same_on p dev dv 0 ?a" "same_on p dev dv (?a + 32) (pt_size p)"
    using l by (auto simp: dv_def same_on_def pt_mem_prog)
  ultimately show ?thesis using res hk e
    by (intro exI [of _ dv] exI [of _ ?sec]) (simp add: sector_entries_def)
qed

text \<open>A write to an erased sector first gives it a header and then is a write like any other.\<close>

lemma write_item_fresh:
  assumes "s_state sec = SEC_UNINIT" and "wm_nvs_sector_init env p dev sec = (WM_NVS_ERR_OK, dev', sec')"
    and "s_state sec' = SEC_USING"
  shows "wm_nvs_sector_write_item env p dev sec g t k d len si =
    wm_nvs_sector_write_item env p dev' sec' g t k d len si"
  using assms by (simp add: wm_nvs_sector_write_item_def)

section \<open>Loading\<close>

lemma hash_append_ok:
  assumes "hash_inv h" and "heap_ok env" and "hash_list h = hash_keys env pre"
    and "chained 0 pre" and "log_end 0 pre = i" and "i < NVS_ENTRY_COUNT"
  shows "hash_inv (snd (wm_nvs_hash_append env h it i))"
    and "it_state it = ITEM_USING \<Longrightarrow>
      hash_list (snd (wm_nvs_hash_append env h it i)) = hash_keys env (pre @ [(i, it)])"
proof -
  have "h_count h < NVS_ENTRY_COUNT"
    using hash_list_length [OF assms(1)] length_hash_keys [OF assms(4), of env] assms by simp
  note a = wm_nvs_hash_append_spec [OF assms(1,2) this assms(6)]
  show "hash_inv (snd (wm_nvs_hash_append env h it i))" by (rule a)
  show "hash_list (snd (wm_nvs_hash_append env h it i)) = hash_keys env (pre @ [(i, it)])"
    if "it_state it = ITEM_USING"
    using a(3) that assms(3) by (simp add: hash_keys_append, simp add: hash_keys_def)
qed

text \<open>The scan of the load, after the entries \<open>pre\<close>.\<close>

lemma sector_update_loop_spec:
  assumes "pt_ok env p dev" and "sector_place p sec" and "log_ok env p dev a" and "a = s_address sec"
    and "entries_from p dev a 0 = pre @ entries_from p dev a i" and "log_end 0 pre = i"
    and "s_used sec = spans pre" and "s_droped sec = spans (filter is_droped pre)"
    and "hash_inv (s_hash sec)" and "hash_list (s_hash sec) = hash_keys env pre"
    and "offset = a + (i + 1) * 32"
  shows "\<exists>sec'. sector_update_loop env p dev sec i offset = (WM_NVS_ERR_OK, dev, sec') \<and>
    s_state sec' = s_state sec \<and> s_address sec' = a \<and> s_serial sec' = s_serial sec \<and>
    s_next_free sec' = log_end 0 (entries_from p dev a 0) \<and>
    s_used sec' = spans (entries_from p dev a 0) \<and>
    s_droped sec' = spans (filter is_droped (entries_from p dev a 0)) \<and>
    hash_inv (s_hash sec') \<and> hash_list (s_hash sec') = hash_keys env (entries_from p dev a 0)"
  using assms
proof (induction env p dev sec i offset arbitrary: pre rule: sector_update_loop.induct)
  case (1 env p dev sec i offset)
  let ?es = "entries_from p dev a 0" and ?it = "head_at p dev a i"
  have le: "log_end 0 ?es \<le> NVS_ENTRY_COUNT" using 1(4) by (simp add: log_ok_def)
  have ch: "chained 0 pre" using chained_entries [of 0 p dev a] 1(6) by (simp add: chained_append)
  show ?case
  proof (cases "i < NVS_ENTRY_COUNT")
    case False
    then have n: "entries_from p dev a i = []" by (simp add: entries_Nil_iff)
    with 1(6,7) False le have "i = NVS_ENTRY_COUNT" by simp
    with n 1(5-12) False show ?thesis by (subst sector_update_loop.simps) simp
  next
    case True
    have pl: "a + NVS_SECTION_SIZE \<le> pt_size p" using 1(3,5) by (simp add: sector_place_def)
    let ?bs = "pt_slice p dev offset 32"
    have rd: "wm_nvs_pt_read_raw env p dev offset (replicate 32 0) 32 = (WM_NVS_ERR_OK, ?bs)"
      by (rule pt_read_spec(2) [OF 1(2)]) (use pl True 1(12) in simp_all)
    have it: "item_of_bytes ?bs = ?it" by (simp add: head_at_def 1(12))
    show ?thesis
    proof (cases "it_state ?it = ITEM_UNUSED")
      case unused: True
      then have n: "entries_from p dev a i = []" by (simp add: entries_Nil_iff)
      have "sector_update_loop env p dev sec i offset = (WM_NVS_ERR_OK, dev, sec\<lparr>s_next_free := i\<rparr>)"
        using True rd unused [folded it] by (subst sector_update_loop.simps) (simp add: Let_def del: item_state_of_bytes)
      with n 1(5-11) show ?thesis by simp
    next
      case used: False
      let ?s = "wm_nvs_item_get_span ?it"
      have e: "entries_from p dev a i = (i, ?it) # entries_from p dev a (i + ?s)"
        using True used by (simp add: entries_Cons)
      have mem: "(i, ?it) \<in> set ?es" using 1(6) e by simp
      have st: "it_state ?it = ITEM_USING \<or> it_state ?it = ITEM_DROPED"
        "it_state ?it = ITEM_USING \<Longrightarrow> it_crc_item ?it = wm_nvs_item_crc_head env ?it"
        using 1(4) mem by (auto simp: log_ok_def)
      have fit: "i + ?s \<le> NVS_ENTRY_COUNT" using chained_mem [OF chained_entries mem] le by simp
      have sp: "spans pre = i" using log_end_spans [OF ch] 1(7) by simp
      have dl: "spans (filter is_droped pre) \<le> i" using spans_filter_le [of is_droped pre] sp by simp
      have heap: "heap_ok env" using 1(2) by (simp add: pt_ok_def)
      note ha = hash_append_ok [OF 1(10) heap 1(11) ch 1(7) True, of ?it]
      let ?sec1 = "if it_state ?it = ITEM_USING
        then sec\<lparr>s_hash := snd (wm_nvs_hash_append env (s_hash sec) ?it i), s_used := s_used sec + ?s\<rparr>
        else sec\<lparr>s_droped := s_droped sec + ?s, s_used := s_used sec + ?s\<rparr>"
      have u: "u8n (s_used sec + ?s) = s_used sec + ?s" "u8n (s_droped sec + ?s) = s_droped sec + ?s"
        using fit sp dl 1(8,9) by simp_all
      have acc: "sector_account_item env p dev sec i ?it = (WM_NVS_ERR_OK, dev, ?sec1)"
        using st u by (auto simp: sector_account_item_def Let_def)
      have step: "sector_update_loop env p dev sec i offset =
          sector_update_loop env p dev ?sec1 (i + ?s) (offset + ?s * NVS_SLICE_SIZE)"
        using True rd it used acc
        by (subst sector_update_loop.simps) (simp add: Let_def del: item_state_of_bytes)
      have pre': "?es = (pre @ [(i, ?it)]) @ entries_from p dev a (i + ?s)"
        "log_end 0 (pre @ [(i, ?it)]) = i + ?s"
        using 1(6,7) e by simp_all
      have sec1: "sector_place p ?sec1" "a = s_address ?sec1"
        "s_used ?sec1 = spans (pre @ [(i, ?it)])"
        "s_droped ?sec1 = spans (filter is_droped (pre @ [(i, ?it)]))"
        "hash_inv (s_hash ?sec1)" "hash_list (s_hash ?sec1) = hash_keys env (pre @ [(i, ?it)])"
        "s_state ?sec1 = s_state sec" "s_serial ?sec1 = s_serial sec"
        using 1(3,5,8-11) st ha by (auto simp: sector_place_def hash_keys_def)
      have off: "offset + ?s * NVS_SLICE_SIZE = a + (i + ?s + 1) * 32" using 1(12) by simp
      show ?thesis
        unfolding step
        using 1(1) [OF True rd [symmetric] _ it [symmetric] _ refl acc [symmetric] refl _ 1(2) sec1(1) 1(4)
            sec1(2) pre' sec1(3-6) off] used sec1(7,8)
        by simp
    qed
  qed
qed

text \<open>Mounting a sector whose header and log are intact rebuilds its RAM copy.\<close>

lemma sector_load_spec:
  assumes ok: "sector_ok env p dev sec" and h: "header_ok env p dev sec"
    and idx: "idx * NVS_SECTION_SIZE = s_address sec"
  shows "\<exists>sec'. wm_nvs_sector_load env p dev old idx = (WM_NVS_ERR_OK, dev, sec') \<and>
    sector_ok env p dev sec' \<and> header_ok env p dev sec' \<and> s_address sec' = s_address sec \<and>
    s_state sec' = s_state sec \<and> s_serial sec' = s_serial sec \<and>
    s_next_free sec' = s_next_free sec \<and> s_used sec' = s_used sec \<and> s_droped sec' = s_droped sec \<and>
    hash_list (s_hash sec') = hash_list (s_hash sec)"
proof -
  let ?a = "s_address sec" and ?hd = "header_of_bytes (pt_slice p dev (s_address sec) 32)"
  let ?s0 = "old\<lparr>s_address := ?a, s_used := 0, s_droped := 0,
      s_hash := snd (wm_nvs_hash_init (s_hash old))\<rparr>"
  let ?s1 = "?s0\<lparr>s_state := s_state sec, s_serial := s_serial sec\<rparr>"
  have pt: "pt_ok env p dev" and pl: "sector_place p sec" and live: "sector_live sec"
    and log: "log_ok env p dev ?a" using ok by (auto simp: sector_ok_def)
  have ss: "pt_sec_size p = NVS_SECTION_SIZE" using pt by (simp add: pt_ok_def)
  have rd: "wm_nvs_pt_read_raw env p dev ?a (replicate 32 0) 32 = (WM_NVS_ERR_OK, pt_slice p dev ?a 32)"
    by (rule pt_read_spec(2) [OF pt]) (use pl in \<open>simp_all add: sector_place_def\<close>)
  have hd: "sh_magic ?hd = NVS_SECTOR_MAGIC" "sh_crc32 ?hd = sector_crc32 env ?hd"
    "sh_version ?hd = NVS_VER_NUM" "sh_serial ?hd = s_serial sec" "sh_state ?hd = s_state sec"
    using h by (auto simp: header_ok_def Let_def)
  have ne: "s_state sec \<noteq> SEC_UNINIT" using live by (auto simp: sector_live_def)
  have cl: "sector_classify env p dev (?s0\<lparr>s_state := s_state sec\<rparr>) ?hd = (WM_NVS_ERR_OK, ?s1)"
    using hd ne by (simp add: sector_classify_def)
  have "\<exists>sec'. sector_update_loop env p dev ?s1 0 (?a + 32) = (WM_NVS_ERR_OK, dev, sec') \<and>
    s_state sec' = s_state ?s1 \<and> s_address sec' = ?a \<and> s_serial sec' = s_serial ?s1 \<and>
    s_next_free sec' = log_end 0 (entries_from p dev ?a 0) \<and>
    s_used sec' = spans (entries_from p dev ?a 0) \<and>
    s_droped sec' = spans (filter is_droped (entries_from p dev ?a 0)) \<and>
    hash_inv (s_hash sec') \<and> hash_list (s_hash sec') = hash_keys env (entries_from p dev ?a 0)"
    by (rule sector_update_loop_spec [OF pt _ log, of ?s1 "[]"])
      (use pl in \<open>simp_all add: sector_place_def hash_keys_def\<close>)
  then obtain sec' where u: "sector_update_loop env p dev ?s1 0 (?a + 32) = (WM_NVS_ERR_OK, dev, sec')"
    "s_state sec' = s_state sec" "s_address sec' = ?a" "s_serial sec' = s_serial sec"
    "s_next_free sec' = log_end 0 (sector_entries p dev sec)"
    "s_used sec' = spans (sector_entries p dev sec)"
    "s_droped sec' = spans (filter is_droped (sector_entries p dev sec))"
    "hash_inv (s_hash sec')" "hash_list (s_hash sec') = hash_keys env (sector_entries p dev sec)"
    by (auto simp: sector_entries_def)
  have "wm_nvs_sector_load env p dev old idx = (WM_NVS_ERR_OK, dev, sec')"
    using rd hd cl u(1) live
    by (auto simp: wm_nvs_sector_load_def Let_def ss idx sector_live_def sector_update_slice_and_hash_def)
  moreover have "sector_entries p dev sec' = sector_entries p dev sec"
    using u(3) by (simp add: sector_entries_def)
  ultimately show ?thesis using ok h u
    by (intro exI [of _ sec']) (simp add: sector_ok_def header_ok_def sector_place_def sector_live_def)
qed

end
