(* ===== verification/NvsSectorCopy.thy ===== *)
theory NvsSectorCopy
  imports NvsSectorLife
begin

text \<open>
  The copy of a collection: the target receives exactly the live entries of the source, in
  order and with their data, behind what it already had; dropped entries are left behind.
\<close>

definition sec_disjoint :: "sector \<Rightarrow> sector \<Rightarrow> bool" where
  "sec_disjoint x y \<longleftrightarrow> s_address x + NVS_SECTION_SIZE \<le> s_address y \<or>
     s_address y + NVS_SECTION_SIZE \<le> s_address x"

lemma span_gt_1: "wm_nvs_item_get_span it > 1 \<longleftrightarrow> it_length it > 8"
  by (auto simp: wm_nvs_item_get_span_def)

lemma data_fits:
  assumes "8 < it_length it" and "j + wm_nvs_item_get_span it \<le> n"
  shows "(j + 2) * 32 + it_length it \<le> (n + 1) * 32"
  using assms span_covers [of it] span_ge_1 [of it] by (simp add: algebra_simps)

lemma copy_item_spec:
  assumes dst: "sector_ok env p dev dst" and src: "sector_ok env p dev src"
    and dis: "sec_disjoint dst src" and m: "(i, it) \<in> set (sector_entries p dev src)"
    and us: "it_state it = ITEM_USING" and nf: "s_next_free dst + wm_nvs_item_get_span it \<le> NVS_ENTRY_COUNT"
  shows "\<exists>dev' dst'. sector_copy_item env p dev dst src (s_next_free dst) i it = (WM_NVS_ERR_OK, dev', dst', src) \<and>
    sector_ok env p dev' dst' \<and>
    live p dev' dst' = live p dev dst @ [(it, entry_data p dev (s_address src) (i, it))] \<and>
    same_on p dev dev' 0 (s_address dst + 32) \<and>
    same_on p dev dev' (s_address dst + NVS_SECTION_SIZE) (pt_size p) \<and>
    s_address dst' = s_address dst \<and> s_state dst' = s_state dst \<and> s_serial dst' = s_serial dst \<and>
    s_next_free dst' = s_next_free dst + wm_nvs_item_get_span it"
proof -
  let ?a = "s_address dst" and ?nf = "s_next_free dst" and ?b = "s_address src"
  let ?off = "?a + (?nf + 1) * 32" and ?soff = "?b + (i + 2) * 32" and ?s = "wm_nvs_item_get_span it"
  let ?d = "pt_slice p dev ?soff (it_length it)"
  let ?d1 = "pt_prog env p dev ?off (item_bytes it)"
  let ?dev = "prog_entry env p dev ?off it ?d"
  let ?dst = "dst\<lparr>s_next_free := u8n (?nf + ?s), s_used := u8n (s_used dst + ?s),
      s_hash := snd (wm_nvs_hash_append env (s_hash dst) it ?nf)\<rparr>"
  note e = sector_ok_entry [OF src m]
  have pt: "pt_ok env p dev" and nor: "nor_cells env" and heap: "heap_ok env"
    and pa: "?a + NVS_SECTION_SIZE \<le> pt_size p" and pb: "?b + NVS_SECTION_SIZE \<le> pt_size p"
    and log: "log_ok env p dev ?a" and nfe: "?nf = log_end 0 (entries_from p dev ?a 0)"
    using dst src by (auto simp: sector_ok_def pt_ok_def sector_place_def sector_entries_def)
  have ls: "8 < it_length it \<Longrightarrow> ?soff + it_length it \<le> ?b + NVS_SECTION_SIZE"
    "8 < it_length it \<Longrightarrow> ?off + 32 + it_length it \<le> ?a + NVS_SECTION_SIZE"
    using data_fits [of it i "s_next_free src"] data_fits [of it ?nf "?nf + ?s"] e(3,4) nf by simp_all
  have fo: "?off + ?s * 32 \<le> ?a + NVS_SECTION_SIZE" using nf by simp
  have sp: "32 \<le> ?s * 32" using span_ge_1 [of it] by simp
  have w1: "wm_nvs_pt_write_item env p dev ?off it = (WM_NVS_ERR_OK, ?d1)"
    by (rule pt_write_item_spec [OF pt _ e(5)]) (use fo sp pa in linarith)
  have li: "length (item_bytes it) = 32" using e(5) by simp
  have dd: "8 < it_length it \<Longrightarrow> pt_slice p ?d1 ?soff (it_length it) = ?d"
    using dis ls fo sp li by (intro pt_slice_prog_disjoint) (auto simp: sec_disjoint_def)
  have r: "8 < it_length it \<Longrightarrow>
      wm_nvs_pt_read env p ?d1 ?soff (replicate (it_length it) 0) (it_length it) = (WM_NVS_ERR_OK, ?d)"
    using dd ls pb pt pt_read_spec(1) [of env p ?d1 ?soff "it_length it" "replicate (it_length it) 0"] by simp
  have w2: "8 < it_length it \<Longrightarrow> wm_nvs_pt_write env p ?d1 (?off + 32) ?d (it_length it) =
      (WM_NVS_ERR_OK, pt_prog env p ?d1 (?off + 32) ?d)"
    using ls pa pt pt_write_spec(1) [of env p ?d1 "?off + 32" "it_length it" ?d] by simp
  have res: "sector_copy_item env p dev dst src ?nf i it = (WM_NVS_ERR_OK, ?dev, ?dst, src)"
    using w1 r w2 heap
    by (simp add: sector_copy_item_def Let_def span_gt_1 prog_entry_def add_ac)
  have blank: "pt_mem p dev x = 0xFF" if "?off \<le> x" "x < ?off + ?s * 32" for x
    by (rule sector_free_blank [OF dst that(1)]) (use that(2) fo in linarith)
  have dl: "it_length it > 8 \<longrightarrow> length ?d = it_length it" by simp
  note pe = prog_entry_spec [where off = ?off, OF nor e(5) dl blank]
  have ap: "entries_from p ?dev ?a 0 = entries_from p dev ?a 0 @ [(?nf, it)]" "log_ok env p ?dev ?a"
  proof -
    have old: "same_on p dev ?dev (?a + 32) (?a + (?nf + 1) * 32)"
      using pe(3) by (simp add: same_on_def)
    have bl: "pt_mem p ?dev x = 0xFF"
      if "?a + (?nf + ?s + 1) * 32 \<le> x" "x < ?a + NVS_SECTION_SIZE" for x
    proof -
      have "?off + ?s * 32 \<le> x" using that(1) by (simp add: algebra_simps)
      moreover from this have "pt_mem p dev x = 0xFF"
        by (intro sector_free_blank [OF dst _ that(2)]) simp
      ultimately show ?thesis using pe(3) by simp
    qed
    show "entries_from p ?dev ?a 0 = entries_from p dev ?a 0 @ [(?nf, it)]" "log_ok env p ?dev ?a"
      by (rule log_append [OF log nfe nf e(5) us e(2) [OF us] old pe(1) bl], assumption+)+
  qed
  have sok: "sector_ok env p ?dev ?dst"
    "sector_entries p ?dev ?dst = sector_entries p dev dst @ [(?nf, it)]"
    using sector_ok_append [OF dst _ _ ap(2) us nf, of ?dst] ap(1) pt
    by (simp_all add: sector_entries_def)
  have "entry_data p ?dev ?a (?nf, it) = entry_data p dev ?b (i, it)"
  proof (cases "it_length it \<le> 8")
    case False
    have "?a + (?nf + 1 + 1) * 32 = ?off + 32" "?b + (i + 1 + 1) * 32 = ?soff" by simp_all
    moreover have "pt_slice p ?dev (?off + 32) (it_length it) = ?d"
      using pe(2) False by simp
    ultimately show ?thesis using False by (simp only: entry_data_def fst_conv snd_conv if_False)
  qed (simp add: entry_data_def)
  moreover have "same_on p dev ?dev 0 ?off" using pe(3) by (simp add: same_on_def)
  ultimately have lv: "live p ?dev ?dst = live p dev dst @ [(it, entry_data p dev ?b (i, it))]"
    by (intro live_append [OF dst sok(2) us]) simp_all
  have "same_on p dev ?dev 0 (?a + 32)" "same_on p dev ?dev (?a + NVS_SECTION_SIZE) (pt_size p)"
    using pe(3) fo by (auto simp: same_on_def)
  with res sok lv nf show ?thesis by (intro exI [of _ ?dev] exI [of _ ?dst]) simp
qed

definition live_from :: "pt \<Rightarrow> flash_dev \<Rightarrow> sector \<Rightarrow> nat \<Rightarrow> (item \<times> bytes) list" where
  "live_from p dev sec i =
     map (\<lambda>e. (snd e, entry_data p dev (s_address sec) e))
       (filter is_using (entries_from p dev (s_address sec) i))"

lemma live_from_0: "live_from p dev sec 0 = live p dev sec"
  by (simp add: live_from_def live_def sector_entries_def)

text \<open>What changes only the target leaves the source as it is.\<close>

lemma sec_disjoint_same:
  assumes "sec_disjoint dst src" and "sector_place p src"
    and "same_on p dev dev' 0 (s_address dst + 32)"
    and "same_on p dev dev' (s_address dst + NVS_SECTION_SIZE) (pt_size p)"
  shows "same_on p dev dev' (s_address src) (s_address src + NVS_SECTION_SIZE)"
  using assms by (auto simp: same_on_def sec_disjoint_def sector_place_def)

lemma same_on_sub: "same_on p dev dev' lo hi \<Longrightarrow> lo \<le> lo' \<Longrightarrow> hi' \<le> hi \<Longrightarrow> same_on p dev dev' lo' hi'"
  by (simp add: same_on_def)

lemma same_on_trans: "same_on p d1 d2 lo hi \<Longrightarrow> same_on p d2 d3 lo hi \<Longrightarrow> same_on p d1 d3 lo hi"
  by (simp add: same_on_def)

lemma live_from_same:
  assumes "sector_ok env p dev sec" and "entries_from p dev (s_address sec) i = es"
    and "set es \<subseteq> set (sector_entries p dev sec)"
    and "same_on p dev dev' (s_address sec + 32) (s_address sec + NVS_SECTION_SIZE)"
  shows "live_from p dev' sec i = live_from p dev sec i"
proof -
  have e: "entries_from p dev' (s_address sec) i = entries_from p dev (s_address sec) i"
    by (rule entries_same [OF assms(4)])
  have "entry_data p dev' (s_address sec) x = entry_data p dev (s_address sec) x" if "x \<in> set es" for x
  proof -
    have "fst x + wm_nvs_item_get_span (snd x) \<le> 127"
      using sector_ok_entry(3,4) [OF assms(1), of "fst x" "snd x"] that assms(3) by auto
    with entry_data_same [of p dev dev' "s_address sec" 127 "fst x" "snd x"] assms(4)
    show ?thesis by simp
  qed
  then show ?thesis unfolding live_from_def e using assms(2) by simp
qed

lemma sector_copy_loop_spec:
  assumes "sector_ok env p dev dst" and "sector_ok env p dev src" and "sec_disjoint dst src"
    and "sector_entries p dev src = pre @ entries_from p dev (s_address src) si" and "log_end 0 pre = si"
    and "di = s_next_free dst"
    and "di + spans (filter is_using (entries_from p dev (s_address src) si)) \<le> NVS_ENTRY_COUNT"
  shows "\<exists>dev' dst'. sector_copy_loop env p dev dst src di si = (WM_NVS_ERR_OK, dev', dst', src) \<and>
    sector_ok env p dev' dst' \<and> live p dev' dst' = live p dev dst @ live_from p dev src si \<and>
    same_on p dev dev' 0 (s_address dst + 32) \<and>
    same_on p dev dev' (s_address dst + NVS_SECTION_SIZE) (pt_size p) \<and>
    s_address dst' = s_address dst \<and> s_state dst' = s_state dst \<and> s_serial dst' = s_serial dst \<and>
    s_next_free dst' = di + spans (filter is_using (entries_from p dev (s_address src) si))"
  using assms
proof (induction env p dev dst src di si arbitrary: pre rule: sector_copy_loop.induct)
  case (1 env p dev dst src di si)
  let ?b = "s_address src"
  let ?es = "entries_from p dev ?b si" and ?it = "head_at p dev ?b si"
  note dst = 1(3) and src = 1(4)
  have le: "log_end 0 (sector_entries p dev src) \<le> NVS_ENTRY_COUNT"
    using src by (simp add: sector_ok_def log_ok_def sector_entries_def)
  show ?case
  proof (cases "si < NVS_ENTRY_COUNT")
    case False
    then have n: "?es = []" by (simp add: entries_Nil_iff)
    with 1(3-9) False show ?thesis
      by (intro exI [of _ dev] exI [of _ dst], subst sector_copy_loop.simps)
        (simp add: live_from_def same_on_def)
  next
    case True
    have rd: "wm_nvs_pt_read_item env p dev (?b + (si + 1) * 32) blank_item = (WM_NVS_ERR_OK, ?it)"
      using src True by (intro read_head) (auto simp: sector_ok_def blank_item_def item_of_bytes_wf)
    show ?thesis
    proof (cases "it_state ?it = ITEM_UNUSED")
      case unused: True
      then have n: "?es = []" by (simp add: entries_Nil_iff)
      have "s_used dst = s_next_free dst" using sector_ok_used(1) [OF dst] .
      then have "dst\<lparr>s_next_free := s_used dst\<rparr> = dst" by simp
      then have "sector_copy_loop env p dev dst src di si = (WM_NVS_ERR_OK, dev, dst, src)"
        using True rd unused by (subst sector_copy_loop.simps) (simp add: Let_def)
      with 1(3,8) n show ?thesis
        by (intro exI [of _ dev] exI [of _ dst]) (simp add: live_from_def same_on_def)
    next
      case used: False
      let ?s = "wm_nvs_item_get_span ?it"
      have e: "?es = (si, ?it) # entries_from p dev ?b (si + ?s)"
        using True used by (simp add: entries_Cons)
      have m: "(si, ?it) \<in> set (sector_entries p dev src)" using 1(6) e by simp
      note st = sector_ok_entry(1) [OF src m]
      have pre': "sector_entries p dev src = (pre @ [(si, ?it)]) @ entries_from p dev ?b (si + ?s)"
        "log_end 0 (pre @ [(si, ?it)]) = si + ?s" using 1(6,7) e by simp_all
      show ?thesis
      proof (cases "it_state ?it = ITEM_DROPED")
        case dr: True
        have step: "sector_copy_loop env p dev dst src di si = sector_copy_loop env p dev dst src di (si + ?s)"
          using True rd dr by (subst sector_copy_loop.simps) (simp add: Let_def)
        have f: "filter is_using ?es = filter is_using (entries_from p dev ?b (si + ?s))"
          using e dr by simp
        then have lf: "live_from p dev src si = live_from p dev src (si + ?s)"
          by (simp add: live_from_def)
        show ?thesis
          unfolding step lf f
          using 1(1) [OF True rd [symmetric] _ refl dr dst src 1(5) pre' 1(8)] 1(9) f by simp
      next
        case nd: False
        with st have us: "it_state ?it = ITEM_USING" by simp
        have sf: "spans (filter is_using ?es) = ?s + spans (filter is_using (entries_from p dev ?b (si + ?s)))"
          using e us by simp
        obtain dev1 dst1 where c: "sector_copy_item env p dev dst src di si ?it = (WM_NVS_ERR_OK, dev1, dst1, src)"
          "sector_ok env p dev1 dst1"
          "live p dev1 dst1 = live p dev dst @ [(?it, entry_data p dev ?b (si, ?it))]"
          "same_on p dev dev1 0 (s_address dst + 32)"
          "same_on p dev dev1 (s_address dst + NVS_SECTION_SIZE) (pt_size p)"
          "s_address dst1 = s_address dst" "s_state dst1 = s_state dst" "s_serial dst1 = s_serial dst"
          "s_next_free dst1 = di + ?s"
          using copy_item_spec [OF dst src 1(5) m us] 1(8,9) sf by auto
        have sb: "same_on p dev dev1 (?b + 32) (?b + NVS_SECTION_SIZE)"
          using sec_disjoint_same [OF 1(5) _ c(4,5)] src by (simp add: sector_ok_def same_on_def)
        have pt1: "pt_ok env p dev1" using c(2) by (simp add: sector_ok_def)
        note src1 = sector_ok_same [OF sb src pt1]
        have ee: "entries_from p dev1 ?b j = entries_from p dev ?b j" for j by (rule entries_same [OF sb])
        have dis1: "sec_disjoint dst1 src" using 1(5) c(6) by (simp add: sec_disjoint_def)
        have lf: "live_from p dev1 src (si + ?s) = live_from p dev src (si + ?s)"
          by (rule live_from_same [OF src refl _ sb]) (use pre'(1) in auto)
        have lfs: "live_from p dev src si = (?it, entry_data p dev ?b (si, ?it)) # live_from p dev src (si + ?s)"
          using e us by (simp add: live_from_def)
        have step: "sector_copy_loop env p dev dst src di si = sector_copy_loop env p dev1 dst1 src (di + ?s) (si + ?s)"
          using True rd us c(1) by (subst sector_copy_loop.simps) (simp add: Let_def)
        have "\<exists>dev' dst'. sector_copy_loop env p dev1 dst1 src (di + ?s) (si + ?s) = (WM_NVS_ERR_OK, dev', dst', src) \<and>
            sector_ok env p dev' dst' \<and> live p dev' dst' = live p dev1 dst1 @ live_from p dev1 src (si + ?s) \<and>
            same_on p dev1 dev' 0 (s_address dst1 + 32) \<and>
            same_on p dev1 dev' (s_address dst1 + NVS_SECTION_SIZE) (pt_size p) \<and>
            s_address dst' = s_address dst1 \<and> s_state dst' = s_state dst1 \<and> s_serial dst' = s_serial dst1 \<and>
            s_next_free dst' = di + ?s + spans (filter is_using (entries_from p dev1 ?b (si + ?s)))"
          by (rule 1(2) [OF True rd [symmetric] _ refl nd us c(1) [symmetric] refl refl, of "pre @ [(si, ?it)]"])
            (use c src1 dis1 pre' 1(9) sf in \<open>simp_all add: ee\<close>)
        then show ?thesis
          unfolding step using c(3-8) lf lfs sf ee
          by (auto intro: same_on_trans)
      qed
    qed
  qed
qed

lemma spans_split:
  "\<forall>e \<in> set es. is_using e \<longleftrightarrow> \<not> is_droped e \<Longrightarrow>
   spans (filter is_using es) + spans (filter is_droped es) = spans es"
  by (induction es) (auto simp: spans_def)

text \<open>The whole copy into a target that only has a header.\<close>

lemma wm_nvs_sector_copy_spec:
  assumes "sector_ok env p dev dst" and "s_next_free dst = 0" and "sector_ok env p dev src"
    and "sec_disjoint dst src"
  shows "\<exists>dev' dst'. wm_nvs_sector_copy env p dev dst src = (WM_NVS_ERR_OK, dev', dst', src) \<and>
    sector_ok env p dev' dst' \<and> live p dev' dst' = live p dev src \<and>
    same_on p dev dev' 0 (s_address dst + 32) \<and>
    same_on p dev dev' (s_address dst + NVS_SECTION_SIZE) (pt_size p) \<and>
    s_address dst' = s_address dst \<and> s_state dst' = s_state dst \<and> s_serial dst' = s_serial dst \<and>
    s_next_free dst' = s_used src - s_droped src"
proof -
  let ?es = "sector_entries p dev src"
  have st: "\<forall>e \<in> set ?es. is_using e \<longleftrightarrow> \<not> is_droped e"
    using sector_ok_entry(1) [OF assms(3)] by fastforce
  then have "spans (filter is_using ?es) + spans (filter is_droped ?es) = spans ?es"
    by (rule spans_split)
  then have n: "spans (filter is_using ?es) = s_used src - s_droped src"
    using assms(3) by (simp add: sector_ok_def)
  have es: "entries_from p dev (s_address src) 0 = ?es" by (simp add: sector_entries_def)
  have "spans (filter is_using ?es) \<le> NVS_ENTRY_COUNT"
    using n sector_ok_used(3) [OF assms(3)] by simp
  moreover have "sector_entries p dev dst = []"
  proof (cases "sector_entries p dev dst")
    case (Cons e es)
    have "s_next_free dst = spans (sector_entries p dev dst)"
      using sector_ok_used(1) [OF assms(1)] assms(1) by (simp add: sector_ok_def)
    then show ?thesis using Cons assms(2) span_pos(1) [of "snd e"] by (cases e) simp
  qed
  then have "live p dev dst = []" by (simp add: live_def)
  ultimately show ?thesis
    using sector_copy_loop_spec [OF assms(1,3,4), of "[]" 0 0] assms(2) es n
    by (simp add: wm_nvs_sector_copy_def live_from_0)
qed

end
