(* ===== verification/NvsSectorManager.thy ===== *)
theory NvsSectorManager
  imports NvsSector
begin

text \<open>
  The sectors of one partition (\<open>wm_nvs_sector_manager.c\<close>): the array of sectors, the active
  list in serial-number order and the idle list. A sector pointer is an index into the array,
  a \<open>dl_list\<close> a list of indices. An outcome of \<open>None\<close> is a null or out-of-range pointer
  being dereferenced (an empty idle list, a \<open>calloc\<close> that failed, no dirty sector to collect);
  \<open>Some\<close> holds the return code and the state.
\<close>

record sm =
  sm_active :: "nat list"
  sm_idle :: "nat list"
  sm_pt :: pt
  sm_secs :: "sector list"
  sm_serial :: nat

record nvs_status =
  ns_total_size :: nat
  ns_using_size :: nat
  ns_droped_size :: nat
  ns_free_size :: nat
  ns_group_num :: nat
  ns_handle_num :: nat

type_synonym sm_result = "(int \<times> flash_dev \<times> sm) option"

definition sm_sec :: "sm \<Rightarrow> nat \<Rightarrow> sector" where "sm_sec m i = sm_secs m ! i"

definition sm_upd :: "sm \<Rightarrow> nat \<Rightarrow> sector \<Rightarrow> sm" where
  "sm_upd m i sec = m\<lparr>sm_secs := (sm_secs m)[i := sec]\<rparr>"

text \<open>Continue after a step that returned \<open>WM_NVS_ERR_OK\<close>; return its code otherwise.\<close>

definition sm_then :: "sm_result \<Rightarrow> (flash_dev \<Rightarrow> sm \<Rightarrow> sm_result) \<Rightarrow> sm_result" where
  "sm_then r k =
     (case r of None \<Rightarrow> None
      | Some (err, dev, m) \<Rightarrow> if err \<noteq> WM_NVS_ERR_OK then Some (err, dev, m) else k dev m)"

text \<open>A sector operation on one sector of the array.\<close>

definition sm_on ::
  "(pt \<Rightarrow> flash_dev \<Rightarrow> sector \<Rightarrow> int \<times> flash_dev \<times> sector) \<Rightarrow> flash_dev \<Rightarrow> sm \<Rightarrow> nat \<Rightarrow> sm_result"
where
  "sm_on f dev m i =
     (case f (sm_pt m) dev (sm_sec m i) of (err, dev, sec) \<Rightarrow> Some (err, dev, sm_upd m i sec))"

definition wm_nvs_sm_get_gc_size :: "sector \<Rightarrow> int" where
  "wm_nvs_sm_get_gc_size sec =
     (int NVS_ENTRY_COUNT - int (s_used sec) + int (s_droped sec)) * int NVS_SLICE_SIZE"

definition wm_nvs_sm_get_free_size :: "sector \<Rightarrow> int" where
  "wm_nvs_sm_get_free_size sec = (int NVS_ENTRY_COUNT - int (s_used sec)) * int NVS_SLICE_SIZE"

definition list_last :: "'a list \<Rightarrow> 'a option" where
  "list_last xs = (if xs = [] then None else Some (last xs))"

definition wm_nvs_sm_get_current_sector :: "sm \<Rightarrow> nat option" where
  "wm_nvs_sm_get_current_sector m = list_last (sm_active m)"

section \<open>Activating an idle sector\<close>

definition sm_active_sector :: "env \<Rightarrow> flash_dev \<Rightarrow> sm \<Rightarrow> sm_result" where
  "sm_active_sector env dev m =
     (case sm_idle m of
        [] \<Rightarrow> None
      | i # rest \<Rightarrow>
          sm_then
            (if s_state (sm_sec m i) = SEC_CRASH \<or> s_state (sm_sec m i) = SEC_INVALID
             then sm_on (wm_nvs_sector_erase env) dev m i
             else Some (WM_NVS_ERR_OK, dev, m))
            (\<lambda>dev m. Some (WM_NVS_ERR_OK, dev,
               (sm_upd m i ((sm_sec m i)\<lparr>s_serial := sm_serial m\<rparr>))
                 \<lparr>sm_serial := u32 (sm_serial m + 1), sm_idle := rest,
                  sm_active := sm_active m @ [i]\<rparr>)))"

section \<open>Loading the sectors\<close>

definition zero_sector :: sector where
  "zero_sector = \<lparr>s_state = 0, s_version = 0, s_next_free = 0, s_used = 0, s_droped = 0,
     s_address = 0, s_serial = 0, s_hash = \<lparr>h_table = None, h_count = 0, h_size = 0\<rparr>\<rparr>"

text \<open>\<open>sizeof (wm_nvs_sector_t)\<close> on the 32-bit core.\<close>

definition SECTOR_T_SIZE :: nat where "SECTOR_T_SIZE = 36"

definition sm_init_default :: "env \<Rightarrow> sm \<Rightarrow> pt \<Rightarrow> int \<times> sm" where
  "sm_init_default env m p =
     (WM_NVS_ERR_OK,
      m\<lparr>sm_secs := (if alloc_ok env (pt_sec_num p * SECTOR_T_SIZE)
                    then replicate (pt_sec_num p) zero_sector else []),
        sm_pt := p, sm_active := [], sm_idle := []\<rparr>)"

text \<open>Insert a loaded sector before the first active one with a larger serial number.\<close>

fun insert_by_serial :: "sector list \<Rightarrow> nat \<Rightarrow> nat list \<Rightarrow> nat list" where
  "insert_by_serial secs i [] = [i]"
| "insert_by_serial secs i (j # js) =
     (if s_serial (secs ! j) > s_serial (secs ! i) then i # j # js
      else j # insert_by_serial secs i js)"

function sm_load_loop :: "env \<Rightarrow> flash_dev \<Rightarrow> sm \<Rightarrow> nat \<Rightarrow> sm_result" where
  "sm_load_loop env dev m i =
     (if i < pt_sec_num (sm_pt m) then
        if i < length (sm_secs m) then
          case wm_nvs_sector_load env (sm_pt m) dev (sm_sec m i) i of
            (err, dev, sec) \<Rightarrow>
              let m = sm_upd m i sec
              in if err \<noteq> WM_NVS_ERR_OK then Some (err, dev, m)
                 else if s_state sec = SEC_UNINIT \<or> s_state sec = SEC_CRASH \<or>
                         s_state sec = SEC_INVALID
                 then sm_load_loop env dev (m\<lparr>sm_idle := sm_idle m @ [i]\<rparr>) (i + 1)
                 else sm_load_loop env dev
                        (m\<lparr>sm_active := insert_by_serial (sm_secs m) i (sm_active m)\<rparr>) (i + 1)
        else None
      else Some (WM_NVS_ERR_OK, dev, m))"
  by pat_completeness auto
termination
  by (relation "measure (\<lambda>(env, dev, m, i). pt_sec_num (sm_pt m) - i)") (auto simp: sm_upd_def)

declare sm_load_loop.simps [simp del]

definition sm_load_sectors :: "env \<Rightarrow> flash_dev \<Rightarrow> sm \<Rightarrow> sm_result" where
  "sm_load_sectors env dev m =
     sm_then (sm_load_loop env dev m 0)
       (\<lambda>dev m. case list_last (sm_active m) of
                  None \<Rightarrow> sm_active_sector env dev (m\<lparr>sm_serial := 1\<rparr>)
                | Some l \<Rightarrow>
                    Some (WM_NVS_ERR_OK, dev, m\<lparr>sm_serial := u32 (s_serial (sm_sec m l) + 1)\<rparr>))"

section \<open>Recovery of an incomplete write\<close>

definition sm_check_item_data ::
  "env \<Rightarrow> pt \<Rightarrow> flash_dev \<Rightarrow> sector \<Rightarrow> nat \<Rightarrow> item \<Rightarrow> int \<times> flash_dev \<times> sector" where
  "sm_check_item_data env p dev sec index it =
     (if (it_type it = TYPE_STRING \<or> it_type it = TYPE_BINARY \<or> it_type it = TYPE_BLOB_SEG) \<and>
         it_length it > 8 \<and> alloc_ok env (it_length it) then
        case wm_nvs_pt_read env p dev (s_address sec + (index + 2) * NVS_SLICE_SIZE)
               (replicate (it_length it) 0) (it_length it) of
          (err, data) \<Rightarrow>
            if err = WM_NVS_ERR_OK \<and> wm_nvs_port_crc32 env 0xFFFFFFFF data \<noteq> it_crc_data it
            then (case wm_nvs_sector_erase_item env p dev sec index it True of
                    (_, dev, sec) \<Rightarrow> (WM_NVS_ERR_FAIL, dev, sec))
            else (err, dev, sec)
      else (WM_NVS_ERR_OK, dev, sec))"

text \<open>The scan for the last entry of a sector: the sector, whether one was found, its index, and
  the item variable, which at the end holds the last entry that was read.\<close>

lemma sector_find_loop_index:
  "sector_find_loop env p dev sec g t key ix it si ss start till = (WM_NVS_ERR_OK, sec', ix', it') \<Longrightarrow>
   start \<le> ix' \<and> start < till"
proof (induction env p dev sec g t key ix it si ss start till rule: sector_find_loop.induct)
  case (1 env p dev sec g t key ix it si ss start till)
  from 1(3) have lt: "start < till"
    by (subst (asm) sector_find_loop.simps) (auto split: if_splits)
  obtain sl it1 where n: "sector_find_next env sec g t key si start it = (sl, it1)"
    by (cases "sector_find_next env sec g t key si start it")
  have ns: "\<not> sl < 0"
    using 1(3) lt n by (subst (asm) sector_find_loop.simps) (auto split: if_splits)
  have ge: "start \<le> nat sl" using sector_find_next_ge [OF n ns] .
  obtain err it2 where r: "wm_nvs_pt_read_item env p dev
      (s_address sec + (nat sl + 1) * NVS_SLICE_SIZE) it1 = (err, it2)"
    by (cases "wm_nvs_pt_read_item env p dev (s_address sec + (nat sl + 1) * NVS_SLICE_SIZE) it1")
  have err: "err = WM_NVS_ERR_OK"
    using 1(3) lt n ns r
    by (subst (asm) sector_find_loop.simps) (auto simp: Let_def algebra_simps split: if_splits)
  note IH = 1(1,2) [OF lt n [symmetric] ns refl r [symmetric], unfolded err, simplified]
  show ?case
    using 1(3) lt n ns r err IH ge
    by (subst (asm) sector_find_loop.simps) (auto simp: Let_def split: if_splits)
qed

lemma sector_find_item_index:
  "wm_nvs_sector_find_item env p dev sec g t key ix it si ss = (WM_NVS_ERR_OK, sec', ix', it') \<Longrightarrow>
   ix \<le> ix' \<and> ix < NVS_ENTRY_COUNT"
  using sector_find_loop_index
  by (auto simp: wm_nvs_sector_find_item_def split: if_splits)

function sm_find_last ::
  "env \<Rightarrow> pt \<Rightarrow> flash_dev \<Rightarrow> sector \<Rightarrow> bool \<Rightarrow> nat \<Rightarrow> nat \<Rightarrow> item \<Rightarrow> sector \<times> bool \<times> nat \<times> item" where
  "sm_find_last env p dev sec found last_index next_index it =
     (case wm_nvs_sector_find_item env p dev sec NVS_GROUP_ID_ANY TYPE_ANY None next_index it
             NVS_SEG_ID_ANY SEG_START_ANY of
        (err, sec, idx, it) \<Rightarrow>
          if err \<noteq> WM_NVS_ERR_OK then (sec, found, last_index, it)
          else sm_find_last env p dev sec True idx (idx + wm_nvs_item_get_span it) it)"
  by pat_completeness auto
termination
  by (relation "measure (\<lambda>(env, p, dev, sec, found, last_index, next_index, it).
        NVS_ENTRY_COUNT - next_index)")
    (auto intro!: diff_add_less dest!: sector_find_item_index [OF sym])

declare sm_find_last.simps [simp del]

text \<open>Drop an older entry of the same key, in the first active sector that has one.\<close>

fun sm_drop_old ::
  "env \<Rightarrow> flash_dev \<Rightarrow> sm \<Rightarrow> nat \<Rightarrow> nat \<Rightarrow> item \<Rightarrow> nat \<Rightarrow> nat list \<Rightarrow> flash_dev \<times> sm" where
  "sm_drop_old env dev m lst last_index it seg_id [] = (dev, m)"
| "sm_drop_old env dev m lst last_index it seg_id (i # is) =
     (case wm_nvs_sector_find_item env (sm_pt m) dev (sm_sec m i) (it_group_id it) (it_type it)
             (Some (it_name it)) 0 blank_item seg_id SEG_START_ANY of
        (err, sec, old_index, old) \<Rightarrow>
          if err = WM_NVS_ERR_OK \<and> (i \<noteq> lst \<or> old_index \<noteq> last_index)
          then (case wm_nvs_sector_erase_item env (sm_pt m) dev sec old_index old True of
                  (_, dev, sec) \<Rightarrow> (dev, sm_upd m i sec))
          else sm_drop_old env dev (sm_upd m i sec) lst last_index it seg_id is)"

definition sm_check_imcomplete_write :: "env \<Rightarrow> flash_dev \<Rightarrow> sm \<Rightarrow> int \<times> flash_dev \<times> sm" where
  "sm_check_imcomplete_write env dev m =
     (case list_last (sm_active m) of
        None \<Rightarrow> (WM_NVS_ERR_FAIL, dev, m)
      | Some l \<Rightarrow>
          case sm_find_last env (sm_pt m) dev (sm_sec m l) False 0 0 blank_item of
            (sec, found, last_index, it) \<Rightarrow>
              let m = sm_upd m l sec
              in if \<not> found then (WM_NVS_ERR_OK, dev, m)
                 else case sm_check_item_data env (sm_pt m) dev sec last_index it of
                        (err, dev, sec) \<Rightarrow>
                          let m = sm_upd m l sec
                          in if err \<noteq> WM_NVS_ERR_OK then (WM_NVS_ERR_OK, dev, m)
                             else let seg_id = (if it_type it = TYPE_BLOB_SEG then it_seg_id it
                                                else NVS_SEG_ID_ANY)
                                  in case sm_drop_old env dev m l last_index it seg_id (sm_active m) of
                                       (dev, m) \<Rightarrow> (WM_NVS_ERR_OK, dev, m))"

section \<open>Garbage collection\<close>

text \<open>The steps both collections share once the source \<open>d\<close> is known: a new sector, its header,
  the mark on the source (only when the collection starts), the copy, the erasure.\<close>

definition sm_gc_header :: "env \<Rightarrow> flash_dev \<Rightarrow> sm \<Rightarrow> sm_result" where
  "sm_gc_header env dev m =
     (case list_last (sm_active m) of
        None \<Rightarrow> None
      | Some n \<Rightarrow> if s_state (sm_sec m n) = SEC_UNINIT then sm_on (wm_nvs_sector_init env) dev m n
                  else Some (WM_NVS_ERR_OK, dev, m))"

definition sm_gc_copy :: "env \<Rightarrow> flash_dev \<Rightarrow> sm \<Rightarrow> nat \<Rightarrow> sm_result" where
  "sm_gc_copy env dev m d =
     (case list_last (sm_active m) of
        None \<Rightarrow> None
      | Some n \<Rightarrow>
          case wm_nvs_sector_copy env (sm_pt m) dev (sm_sec m n) (sm_sec m d) of
            (err, dev, new_sec, src) \<Rightarrow> Some (err, dev, sm_upd (sm_upd m d src) n new_sec))"

definition sm_gc_retire :: "env \<Rightarrow> flash_dev \<Rightarrow> sm \<Rightarrow> nat \<Rightarrow> sm_result" where
  "sm_gc_retire env dev m d =
     sm_then (sm_on (wm_nvs_sector_erase env) dev m d)
       (\<lambda>dev m. Some (WM_NVS_ERR_OK, dev,
          m\<lparr>sm_active := remove1 d (sm_active m), sm_idle := sm_idle m @ [d]\<rparr>))"

definition sm_check_imcomplete_gc :: "env \<Rightarrow> flash_dev \<Rightarrow> sm \<Rightarrow> sm_result" where
  "sm_check_imcomplete_gc env dev m =
     (case find (\<lambda>i. s_state (sm_sec m i) = SEC_DELETTING) (sm_active m) of
        None \<Rightarrow> Some (WM_NVS_ERR_OK, dev, m)
      | Some d \<Rightarrow>
          let l = last (sm_active m)
          in sm_then
               (if s_state (sm_sec m l) = SEC_USING
                then sm_then (sm_on (wm_nvs_sector_erase env) dev m l)
                       (\<lambda>dev m. Some (WM_NVS_ERR_OK, dev,
                          m\<lparr>sm_active := remove1 l (sm_active m), sm_idle := sm_idle m @ [l]\<rparr>))
                else Some (WM_NVS_ERR_OK, dev, m))
               (\<lambda>dev m. sm_then (sm_active_sector env dev m)
                 (\<lambda>dev m. sm_then (sm_gc_header env dev m)
                   (\<lambda>dev m. sm_then (sm_gc_copy env dev m d)
                     (\<lambda>dev m. sm_gc_retire env dev m d)))))"

text \<open>The dirtiest sector: the first with the largest collectable size, if that is positive.\<close>

fun sm_dirtiest :: "sm \<Rightarrow> nat list \<Rightarrow> int \<Rightarrow> nat option \<Rightarrow> int \<times> nat option" where
  "sm_dirtiest m [] most d = (most, d)"
| "sm_dirtiest m (i # is) most d =
     (let can_get_size = wm_nvs_sm_get_gc_size (sm_sec m i)
      in if can_get_size > most then sm_dirtiest m is can_get_size (Some i)
         else sm_dirtiest m is most d)"

definition sm_garbage_collection :: "env \<Rightarrow> flash_dev \<Rightarrow> sm \<Rightarrow> int \<Rightarrow> sm_result" where
  "sm_garbage_collection env dev m need_size =
     (case sm_dirtiest m (sm_active m) 0 None of
        (most_dirty_size, dirtiest) \<Rightarrow>
          if most_dirty_size \<ge> need_size then
            sm_then (sm_active_sector env dev m)
              (\<lambda>dev m. sm_then (sm_gc_header env dev m)
                (\<lambda>dev m. case dirtiest of
                   None \<Rightarrow> None
                 | Some d \<Rightarrow>
                     sm_then (sm_on (\<lambda>p dev sec. wm_nvs_sector_set_state env p dev sec SEC_DELETTING)
                                dev m d)
                       (\<lambda>dev m. sm_then (sm_gc_copy env dev m d)
                         (\<lambda>dev m. sm_gc_retire env dev m d))))
          else Some (WM_NVS_ERR_NO_SPACE, dev, m))"

definition wm_nvs_sm_request_sector :: "env \<Rightarrow> flash_dev \<Rightarrow> sm \<Rightarrow> int \<Rightarrow> sm_result" where
  "wm_nvs_sm_request_sector env dev m need_size =
     (let num = length (sm_idle m)
      in if num = 0 then Some (WM_NVS_ERR_NO_MEM, dev, m)
         else if num = 1 then sm_garbage_collection env dev m need_size
         else sm_active_sector env dev m)"

section \<open>Mounting and unmounting\<close>

text \<open>Keep one sector for collections: the last active one goes back when none is idle.\<close>

definition sm_keep_idle :: "flash_dev \<Rightarrow> sm \<Rightarrow> sm_result" where
  "sm_keep_idle dev m =
     (if pt_readonly (sm_pt m) = 0 \<and> sm_idle m = [] then
        case list_last (sm_active m) of
          None \<Rightarrow> None
        | Some l \<Rightarrow> Some (WM_NVS_ERR_OK, dev, m\<lparr>sm_active := butlast (sm_active m), sm_idle := [l]\<rparr>)
      else Some (WM_NVS_ERR_OK, dev, m))"

definition wm_nvs_sm_load :: "env \<Rightarrow> flash_dev \<Rightarrow> sm \<Rightarrow> pt \<Rightarrow> sm_result" where
  "wm_nvs_sm_load env dev m p =
     (case sm_init_default env m p of
        (err, m) \<Rightarrow>
          if err \<noteq> WM_NVS_ERR_OK then Some (WM_NVS_ERR_NO_MEM, dev, m)
          else sm_then (sm_load_sectors env dev m)
                 (\<lambda>dev m. case sm_check_imcomplete_write env dev m of
                    (_, dev, m) \<Rightarrow>
                      case sm_check_imcomplete_gc env dev m of
                        None \<Rightarrow> None
                      | Some (_, dev, m) \<Rightarrow> sm_keep_idle dev m))"

definition wm_nvs_sm_unload :: "sm \<Rightarrow> int \<times> sm" where
  "wm_nvs_sm_unload m = (WM_NVS_ERR_OK, m\<lparr>sm_secs := []\<rparr>)"

section \<open>Lookup and space\<close>

text \<open>The result: the code, the manager (a failed read invalidates its sector), the item index,
  the sector that has the item, the item variable.\<close>

fun sm_find_list ::
  "env \<Rightarrow> flash_dev \<Rightarrow> sm \<Rightarrow> nat list \<Rightarrow> nat \<Rightarrow> nat \<Rightarrow> bytes option \<Rightarrow> nat \<Rightarrow> item \<Rightarrow> nat \<Rightarrow> nat \<Rightarrow>
   int \<times> sm \<times> nat \<times> nat option \<times> item" where
  "sm_find_list env dev m [] group_id type key item_index it seg_index seg_start =
     (WM_NVS_ERR_NOT_FOUND, m, item_index, None, it)"
| "sm_find_list env dev m (i # is) group_id type key item_index it seg_index seg_start =
     (case wm_nvs_sector_find_item env (sm_pt m) dev (sm_sec m i) group_id type key item_index it
             seg_index seg_start of
        (err, sec, item_index, it) \<Rightarrow>
          let m = sm_upd m i sec
          in if err = WM_NVS_ERR_OK then (WM_NVS_ERR_OK, m, item_index, Some i, it)
             else sm_find_list env dev m is group_id type key item_index it seg_index seg_start)"

definition wm_nvs_sm_find_item ::
  "env \<Rightarrow> flash_dev \<Rightarrow> sm \<Rightarrow> nat \<Rightarrow> nat \<Rightarrow> bytes option \<Rightarrow> nat \<Rightarrow> item \<Rightarrow> nat \<Rightarrow> nat \<Rightarrow>
   int \<times> sm \<times> nat \<times> nat option \<times> item" where
  "wm_nvs_sm_find_item env dev m group_id type key item_index it seg_index seg_start =
     sm_find_list env dev m (sm_active m) group_id type key item_index it seg_index seg_start"

fun sm_blob_size_loop :: "sm \<Rightarrow> nat list \<Rightarrow> int \<Rightarrow> nat \<Rightarrow> int" where
  "sm_blob_size_loop m [] left_size seg_count = WM_NVS_ERR_NO_SPACE"
| "sm_blob_size_loop m (i # is) left_size seg_count =
     (let free_size = wm_nvs_sm_get_gc_size (sm_sec m i)
      in if left_size > 0 \<and> seg_count \<ge> NVS_SEG_NUM_MAX then WM_NVS_ERR_NO_SPACE
         else if left_size > 0 then
           if left_size + 32 \<le> free_size then
             if s_next_free (sm_sec m i) + 1 \<le> NVS_ENTRY_COUNT then WM_NVS_ERR_OK
             else sm_blob_size_loop m is 0 (seg_count + 1)
           else if free_size \<ge> 512 + 32
           then sm_blob_size_loop m is (left_size - (free_size - 32)) (seg_count + 1)
           else sm_blob_size_loop m is left_size seg_count
         else if free_size \<ge> 32 then WM_NVS_ERR_OK
         else sm_blob_size_loop m is left_size seg_count)"

definition wm_nvs_sm_check_write_blob_size :: "sm \<Rightarrow> nat \<Rightarrow> int" where
  "wm_nvs_sm_check_write_blob_size m len =
     (let left_size = int len;
          idle_num = int (length (sm_idle m));
          max_write_size = (int (pt_sec_num (sm_pt m)) - 1) * int NVS_SINGLE_ITEM_MAX_DATA
      in if left_size > max_write_size then WM_NVS_ERR_NO_SPACE
         else if left_size > int (NVS_SEG_NUM_MAX * NVS_SINGLE_ITEM_MAX_DATA)
         then WM_NVS_ERR_INVALID_LENGTH
         else let left_size = left_size - (idle_num - 1) * int NVS_SINGLE_ITEM_MAX_DATA
              in if left_size \<le> -32 then WM_NVS_ERR_OK
                 else sm_blob_size_loop m (sm_active m) left_size 0)"

definition wm_nvs_sm_get_status :: "sm \<Rightarrow> nvs_status \<Rightarrow> int \<times> nvs_status" where
  "wm_nvs_sm_get_status m status =
     (let used_slice = u32 (\<Sum>i\<leftarrow>sm_active m. s_used (sm_sec m i) + 1);
          droped_slice = u32 (\<Sum>i\<leftarrow>sm_active m. s_droped (sm_sec m i));
          total = u32 (pt_sec_size (sm_pt m) * pt_sec_num (sm_pt m));
          using_size = u32 (used_slice * NVS_SLICE_SIZE)
      in (WM_NVS_ERR_OK,
          status\<lparr>ns_total_size := total, ns_using_size := using_size,
                 ns_droped_size := u32 (droped_slice * NVS_SLICE_SIZE),
                 ns_free_size := nat ((int total - int using_size) mod 2 ^ 32)\<rparr>))"

end
