(* ===== verification/NvsSmSpec.thy ===== *)
theory NvsSmSpec
  imports NvsSectorCopy NvsSectorManager
begin

text \<open>
  What the sector manager promises: the invariant of the sector array with its two lists, the
  content of the store as the live entries of the active sectors in order, the lookup over
  all of them, and the space operations, which move entries but never lose one.
\<close>

section \<open>The invariant\<close>

definition sec_good :: "env \<Rightarrow> pt \<Rightarrow> flash_dev \<Rightarrow> sector \<Rightarrow> bool" where
  "sec_good env p dev s \<longleftrightarrow> (sector_ok env p dev s \<and> header_ok env p dev s) \<or>
     (sector_fresh env p dev s \<and> s_serial s < 2 ^ 32)"

definition sec_idle :: "env \<Rightarrow> pt \<Rightarrow> flash_dev \<Rightarrow> sector \<Rightarrow> bool" where
  "sec_idle env p dev s \<longleftrightarrow> sector_fresh env p dev s \<or>
     ((s_state s = SEC_CRASH \<or> s_state s = SEC_INVALID) \<and> hash_inv (s_hash s) \<and> sector_place p s)"

definition sm_shape :: "sm \<Rightarrow> bool" where
  "sm_shape m \<longleftrightarrow> length (sm_secs m) = pt_sec_num (sm_pt m) \<and>
     pt_sec_num (sm_pt m) * NVS_SECTION_SIZE \<le> pt_size (sm_pt m) \<and>
     (\<forall>i < length (sm_secs m). s_address (sm_sec m i) = i * NVS_SECTION_SIZE) \<and>
     distinct (sm_active m @ sm_idle m) \<and> set (sm_active m @ sm_idle m) \<subseteq> {..<length (sm_secs m)}"

definition sm_ok :: "env \<Rightarrow> flash_dev \<Rightarrow> sm \<Rightarrow> bool" where
  "sm_ok env dev m \<longleftrightarrow> pt_ok env (sm_pt m) dev \<and> sm_shape m \<and> sm_serial m < 2 ^ 32 \<and>
     (\<forall>i \<in> set (sm_active m). sec_good env (sm_pt m) dev (sm_sec m i)) \<and>
     (\<forall>i \<in> set (sm_idle m). sec_idle env (sm_pt m) dev (sm_sec m i))"

text \<open>The serial numbers: increasing along the active list, below the next one.\<close>

definition serials_ok :: "sm \<Rightarrow> bool" where
  "serials_ok m \<longleftrightarrow> sorted_wrt (<) (map (\<lambda>i. s_serial (sm_sec m i)) (sm_active m)) \<and>
     (\<forall>i \<in> set (sm_active m). s_serial (sm_sec m i) < sm_serial m)"

text \<open>The content.\<close>

definition sm_live :: "flash_dev \<Rightarrow> sm \<Rightarrow> (item \<times> bytes) list" where
  "sm_live dev m = concat (map (\<lambda>i. live (sm_pt m) dev (sm_sec m i)) (sm_active m))"

definition sm_entries :: "flash_dev \<Rightarrow> sm \<Rightarrow> (nat \<times> nat \<times> item) list" where
  "sm_entries dev m =
     concat (map (\<lambda>i. map (\<lambda>e. (i, e)) (sector_entries (sm_pt m) dev (sm_sec m i))) (sm_active m))"

section \<open>Frames\<close>

definition only_sector :: "pt \<Rightarrow> flash_dev \<Rightarrow> flash_dev \<Rightarrow> nat \<Rightarrow> bool" where
  "only_sector p dev dev' a \<longleftrightarrow>
     same_on p dev dev' 0 a \<and> same_on p dev dev' (a + NVS_SECTION_SIZE) (pt_size p)"

lemma only_sector_refl [simp]: "only_sector p dev dev a"
  by (simp add: only_sector_def same_on_def)

lemma only_sector_trans: "only_sector p d1 d2 a \<Longrightarrow> only_sector p d2 d3 a \<Longrightarrow> only_sector p d1 d3 a"
  by (auto simp: only_sector_def intro: same_on_trans)

lemma only_sector_same:
  assumes "only_sector p dev dev' (i * NVS_SECTION_SIZE)" and "i \<noteq> j"
    and "j * NVS_SECTION_SIZE + NVS_SECTION_SIZE \<le> pt_size p"
  shows "same_on p dev dev' (j * NVS_SECTION_SIZE) (j * NVS_SECTION_SIZE + NVS_SECTION_SIZE)"
proof -
  have "i < j \<or> j < i" using assms(2) by linarith
  then have "i * NVS_SECTION_SIZE + NVS_SECTION_SIZE \<le> j * NVS_SECTION_SIZE \<or>
      j * NVS_SECTION_SIZE + NVS_SECTION_SIZE \<le> i * NVS_SECTION_SIZE" by auto
  with assms show ?thesis by (auto simp: only_sector_def same_on_def)
qed

lemma sector_fresh_same:
  assumes "same_on p dev dev' (s_address s) (s_address s + NVS_SECTION_SIZE)"
    and "sector_fresh env p dev s" and "pt_ok env p dev'"
  shows "sector_fresh env p dev' s"
  using assms by (simp add: sector_fresh_def same_on_def)

lemma same_on_tail: "same_on p dev dev' a b \<Longrightarrow> same_on p dev dev' (a + 32) b"
  by (erule same_on_sub) simp_all

lemma header_ok_same:
  assumes "same_on p dev dev' (s_address s) (s_address s + 32)"
  shows "header_ok env p dev' s = header_ok env p dev s"
proof -
  have "pt_slice p dev' (s_address s) 32 = pt_slice p dev (s_address s) 32"
    by (rule pt_slice_cong) (use assms in \<open>simp add: same_on_def\<close>)
  then show ?thesis by (simp add: header_ok_def)
qed

lemma same_on_head: "same_on p dev dev' a (a + NVS_SECTION_SIZE) \<Longrightarrow> same_on p dev dev' a (a + 32)"
  by (erule same_on_sub) simp_all

lemma sec_good_same:
  assumes "same_on p dev dev' (s_address s) (s_address s + NVS_SECTION_SIZE)"
    and "sec_good env p dev s" and "pt_ok env p dev'"
  shows "sec_good env p dev' s"
  using assms sector_ok_same(1) [OF same_on_tail [OF assms(1)] _ assms(3)] sector_fresh_same [OF assms(1) _ assms(3)]
    header_ok_same [OF same_on_head [OF assms(1)], of env]
  by (auto simp: sec_good_def)

lemma sec_idle_same:
  assumes "same_on p dev dev' (s_address s) (s_address s + NVS_SECTION_SIZE)"
    and "sec_idle env p dev s" and "pt_ok env p dev'"
  shows "sec_idle env p dev' s"
  using assms sector_fresh_same [OF assms(1) _ assms(3)] by (auto simp: sec_idle_def)

lemma fresh_entries:
  assumes "sector_fresh env p dev s"
  shows "sector_entries p dev s = []" and "live p dev s = []"
proof -
  have "pt_mem p dev (s_address s + 32) = 0xFF" using assms by (simp add: sector_fresh_def)
  then show "sector_entries p dev s = []" by (simp add: sector_entries_def entries_Nil_iff head_state)
  then show "live p dev s = []" by (simp add: live_def)
qed

lemma good_entries_same:
  assumes "sec_good env p dev s" and "pt_ok env p dev'"
    and "same_on p dev dev' (s_address s) (s_address s + NVS_SECTION_SIZE)"
  shows "sector_entries p dev' s = sector_entries p dev s" and "live p dev' s = live p dev s"
proof -
  show "sector_entries p dev' s = sector_entries p dev s"
    unfolding sector_entries_def by (rule entries_same [OF same_on_tail [OF assms(3)]])
  show "live p dev' s = live p dev s"
    using assms(1) live_same [OF _ same_on_tail [OF assms(3)]] fresh_entries(2)
      sector_fresh_same [OF assms(3) _ assms(2)] by (auto simp: sec_good_def)
qed

section \<open>The sector array\<close>

lemma sm_upd_simps [simp]:
  "sm_active (sm_upd m i s) = sm_active m" "sm_idle (sm_upd m i s) = sm_idle m"
  "sm_pt (sm_upd m i s) = sm_pt m" "sm_serial (sm_upd m i s) = sm_serial m"
  "length (sm_secs (sm_upd m i s)) = length (sm_secs m)"
  by (simp_all add: sm_upd_def)

lemma sm_sec_upd: "i < length (sm_secs m) \<Longrightarrow> sm_sec (sm_upd m i s) j = (if j = i then s else sm_sec m j)"
  by (simp add: sm_sec_def sm_upd_def nth_list_update)

lemma sm_upd_upd [simp]: "sm_upd (sm_upd m i a) i b = sm_upd m i b"
  by (simp add: sm_upd_def)

lemma sm_upd_id [simp]: "sm_upd m i (sm_sec m i) = m"
  by (simp add: sm_upd_def sm_sec_def)

lemma sm_sec_more [simp]:
  "sm_sec (m\<lparr>sm_active := a\<rparr>) i = sm_sec m i" "sm_sec (m\<lparr>sm_idle := a\<rparr>) i = sm_sec m i"
  "sm_sec (m\<lparr>sm_serial := n\<rparr>) i = sm_sec m i"
  by (simp_all add: sm_sec_def)

lemma sm_shape_upd:
  assumes "sm_shape m" and "i < length (sm_secs m)" and "s_address s = i * NVS_SECTION_SIZE"
  shows "sm_shape (sm_upd m i s)"
  using assms by (auto simp: sm_shape_def sm_sec_upd)

lemma sm_shape_active:
  assumes "sm_shape m" and "i \<in> set (sm_active m) \<or> i \<in> set (sm_idle m)"
  shows "i < length (sm_secs m)" and "s_address (sm_sec m i) = i * NVS_SECTION_SIZE"
    and "i * NVS_SECTION_SIZE + NVS_SECTION_SIZE \<le> pt_size (sm_pt m)"
    and "sector_place (sm_pt m) (sm_sec m i)"
proof -
  show i: "i < length (sm_secs m)" using assms by (auto simp: sm_shape_def)
  show a: "s_address (sm_sec m i) = i * NVS_SECTION_SIZE" using assms(1) i by (simp add: sm_shape_def)
  have "(i + 1) * NVS_SECTION_SIZE \<le> length (sm_secs m) * NVS_SECTION_SIZE" using i by simp
  then show b: "i * NVS_SECTION_SIZE + NVS_SECTION_SIZE \<le> pt_size (sm_pt m)"
    using assms(1) by (simp add: sm_shape_def)
  show "sector_place (sm_pt m) (sm_sec m i)" using a b by (simp add: sector_place_def)
qed

text \<open>One sector changes, in flash and in RAM; the others keep what they have.\<close>

lemma sm_frame:
  assumes ok: "sm_ok env dev m" and i: "i < length (sm_secs m)"
    and dev': "pt_ok env (sm_pt m) dev'" "only_sector (sm_pt m) dev dev' (i * NVS_SECTION_SIZE)"
    and s: "s_address s = i * NVS_SECTION_SIZE"
    and j: "j \<in> set (sm_active m) \<or> j \<in> set (sm_idle m)" "j \<noteq> i"
  shows "same_on (sm_pt m) dev dev' (s_address (sm_sec m j)) (s_address (sm_sec m j) + NVS_SECTION_SIZE)"
    and "j \<in> set (sm_active m) \<Longrightarrow> sec_good env (sm_pt m) dev' (sm_sec m j)"
    and "j \<in> set (sm_active m) \<Longrightarrow> sector_entries (sm_pt m) dev' (sm_sec m j) = sector_entries (sm_pt m) dev (sm_sec m j)"
    and "j \<in> set (sm_active m) \<Longrightarrow> live (sm_pt m) dev' (sm_sec m j) = live (sm_pt m) dev (sm_sec m j)"
    and "j \<in> set (sm_idle m) \<Longrightarrow> sec_idle env (sm_pt m) dev' (sm_sec m j)"
proof -
  have sh: "sm_shape m" using ok by (simp add: sm_ok_def)
  note a = sm_shape_active [OF sh j(1)]
  show e: "same_on (sm_pt m) dev dev' (s_address (sm_sec m j)) (s_address (sm_sec m j) + NVS_SECTION_SIZE)"
    unfolding a(2) by (rule only_sector_same [OF dev'(2) _ a(3)]) (use j(2) in simp)
  show "sec_good env (sm_pt m) dev' (sm_sec m j)"
    "sector_entries (sm_pt m) dev' (sm_sec m j) = sector_entries (sm_pt m) dev (sm_sec m j)"
    "live (sm_pt m) dev' (sm_sec m j) = live (sm_pt m) dev (sm_sec m j)" if "j \<in> set (sm_active m)"
    using ok that sec_good_same [OF e _ dev'(1)] good_entries_same [OF _ dev'(1) e] by (auto simp: sm_ok_def)
  show "sec_idle env (sm_pt m) dev' (sm_sec m j)" if "j \<in> set (sm_idle m)"
    using ok that sec_idle_same [OF e _ dev'(1)] by (simp add: sm_ok_def)
qed

lemma sm_ok_update:
  assumes ok: "sm_ok env dev m" and i: "i < length (sm_secs m)"
    and dev': "pt_ok env (sm_pt m) dev'" "only_sector (sm_pt m) dev dev' (i * NVS_SECTION_SIZE)"
    and s: "s_address s = i * NVS_SECTION_SIZE"
    and act: "i \<in> set (sm_active m) \<Longrightarrow> sec_good env (sm_pt m) dev' s"
    and idl: "i \<in> set (sm_idle m) \<Longrightarrow> sec_idle env (sm_pt m) dev' s"
  shows "sm_ok env dev' (sm_upd m i s)"
proof -
  note fr = sm_frame [OF ok i dev' s]
  have "sm_shape (sm_upd m i s)" using ok i s by (simp add: sm_ok_def sm_shape_upd)
  moreover have "sec_good env (sm_pt m) dev' (sm_sec (sm_upd m i s) j)" if "j \<in> set (sm_active m)" for j
    using fr(2) that act by (cases "j = i") (simp_all add: sm_sec_upd i)
  moreover have "sec_idle env (sm_pt m) dev' (sm_sec (sm_upd m i s) j)" if "j \<in> set (sm_idle m)" for j
    using fr(5) that idl by (cases "j = i") (simp_all add: sm_sec_upd i)
  ultimately show ?thesis using dev'(1) ok by (simp add: sm_ok_def)
qed

section \<open>What an update keeps\<close>

text \<open>The lists, the serial numbers, the states of the sectors that have a header, and the erased
  sectors are as before.\<close>

definition kept :: "env \<Rightarrow> flash_dev \<Rightarrow> sm \<Rightarrow> flash_dev \<Rightarrow> sm \<Rightarrow> bool" where
  "kept env dev m dev' m' \<longleftrightarrow> sm_active m' = sm_active m \<and> sm_idle m' = sm_idle m \<and> sm_pt m' = sm_pt m \<and>
     sm_serial m' = sm_serial m \<and> length (sm_secs m') = length (sm_secs m) \<and>
     (\<forall>i \<in> set (sm_active m). s_serial (sm_sec m' i) = s_serial (sm_sec m i) \<and>
        (s_state (sm_sec m i) \<noteq> SEC_UNINIT \<longrightarrow> s_state (sm_sec m' i) = s_state (sm_sec m i))) \<and>
     (\<forall>i \<in> set (sm_idle m). sector_fresh env (sm_pt m) dev (sm_sec m i) \<longrightarrow>
        sector_fresh env (sm_pt m) dev' (sm_sec m' i))"

lemma kept_refl [simp]: "kept env dev m dev m"
  by (simp add: kept_def)

lemma kept_trans: "kept env d1 m1 d2 m2 \<Longrightarrow> kept env d2 m2 d3 m3 \<Longrightarrow> kept env d1 m1 d3 m3"
  by (simp add: kept_def)

lemma kept_update:
  assumes ok: "sm_ok env dev m" and i: "i \<in> set (sm_active m)"
    and dev': "pt_ok env (sm_pt m) dev'" "only_sector (sm_pt m) dev dev' (i * NVS_SECTION_SIZE)"
    and s: "s_address s = i * NVS_SECTION_SIZE" "s_serial s = s_serial (sm_sec m i)"
      "s_state (sm_sec m i) \<noteq> SEC_UNINIT \<longrightarrow> s_state s = s_state (sm_sec m i)"
  shows "kept env dev m dev' (sm_upd m i s)"
proof -
  have il: "i < length (sm_secs m)" and ni: "i \<notin> set (sm_idle m)"
    using ok i by (auto simp: sm_ok_def sm_shape_def)
  have "sector_fresh env (sm_pt m) dev' (sm_sec (sm_upd m i s) j)"
    if j: "j \<in> set (sm_idle m)" and f: "sector_fresh env (sm_pt m) dev (sm_sec m j)" for j
  proof -
    have n: "j \<noteq> i" using j ni by auto
    have "same_on (sm_pt m) dev dev' (s_address (sm_sec m j)) (s_address (sm_sec m j) + NVS_SECTION_SIZE)"
      by (rule sm_frame(1) [OF ok il dev' s(1)]) (use j n in simp_all)
    from sector_fresh_same [OF this f dev'(1)] show ?thesis using n il by (simp add: sm_sec_upd)
  qed
  then show ?thesis using s(2,3) il by (auto simp: kept_def sm_sec_upd)
qed

text \<open>What a restart needs of the lists: serial numbers in order, the idle sectors erased, every
  sector in one of the lists.\<close>

definition lists_ok :: "env \<Rightarrow> flash_dev \<Rightarrow> sm \<Rightarrow> bool" where
  "lists_ok env dev m \<longleftrightarrow> serials_ok m \<and>
     (\<forall>i \<in> set (sm_idle m). sector_fresh env (sm_pt m) dev (sm_sec m i)) \<and>
     set (sm_active m) \<union> set (sm_idle m) = {..<length (sm_secs m)}"

text \<open>Besides, every active sector has its header and no collection is under way.\<close>

definition orderly :: "env \<Rightarrow> flash_dev \<Rightarrow> sm \<Rightarrow> bool" where
  "orderly env dev m \<longleftrightarrow> lists_ok env dev m \<and>
     (\<forall>i \<in> set (sm_active m). s_state (sm_sec m i) \<noteq> SEC_UNINIT \<and> s_state (sm_sec m i) \<noteq> SEC_DELETTING)"

lemma lists_ok_kept: "lists_ok env dev m \<Longrightarrow> kept env dev m dev' m' \<Longrightarrow> lists_ok env dev' m'"
  by (simp add: lists_ok_def kept_def serials_ok_def cong: map_cong)

section \<open>Lookup\<close>

text \<open>The lookup over the active sectors, from the start of each: the first wanted entry.\<close>

lemma fresh_find:
  "sector_fresh env p dev s \<Longrightarrow>
   wm_nvs_sector_find_item env p dev s g t key ix it si ss = (WM_NVS_ERR_NOT_FOUND, s, ix, it)"
  by (simp add: wm_nvs_sector_find_item_def sector_fresh_def)

lemma find_map_pair: "find P (map f xs) = map_option f (find (P \<circ> f) xs)"
  by (induction xs) auto

lemma sm_find_list_spec:
  assumes "\<forall>i \<in> set is. sec_good env (sm_pt m) dev (sm_sec m i)" and "item_wf it"
  shows "case find (\<lambda>e. wanted env g t key si ss (snd e))
      (concat (map (\<lambda>i. map (\<lambda>e. (i, e)) (sector_entries (sm_pt m) dev (sm_sec m i))) is)) of
      Some (i, j, x) \<Rightarrow> sm_find_list env dev m is g t key 0 it si ss = (WM_NVS_ERR_OK, m, j, Some i, x)
    | None \<Rightarrow> \<exists>it'. item_wf it' \<and> sm_find_list env dev m is g t key 0 it si ss =
        (WM_NVS_ERR_NOT_FOUND, m, 0, None, it')"
  using assms
proof (induction "is" arbitrary: it)
  case (Cons i "is")
  let ?p = "sm_pt m" and ?W = "wanted env g t key si ss"
  let ?es = "sector_entries ?p dev (sm_sec m i)"
  let ?rest = "concat (map (\<lambda>i. map (\<lambda>e. (i, e)) (sector_entries ?p dev (sm_sec m i))) is)"
  let ?find = "wm_nvs_sector_find_item env ?p dev (sm_sec m i) g t key 0 it si ss"
  have r: "find_result (sm_sec m i) 0 (find ?W ?es) ?find"
  proof (cases "sector_ok env ?p dev (sm_sec m i)")
    case True
    then show ?thesis
      using wm_nvs_sector_find_item_spec [OF True start_ok_zero [OF chained_sector] Cons(3), where g = g and t = t and si = si and ss = ss]
      by simp
  next
    case False
    then have f: "sector_fresh env ?p dev (sm_sec m i)" using Cons(2) by (auto simp: sec_good_def)
    show ?thesis using fresh_find [OF f] fresh_entries(1) [OF f] Cons(3) by (simp add: find_result_def)
  qed
  show ?case
  proof (cases "find ?W ?es")
    case None
    then obtain it' where f: "?find = (WM_NVS_ERR_NOT_FOUND, sm_sec m i, 0, it')" "item_wf it'"
      using r by (auto simp: find_result_def)
    have s: "sm_find_list env dev m (i # is) g t key 0 it si ss = sm_find_list env dev m is g t key 0 it' si ss"
      using f by simp
    show ?thesis
      unfolding s using Cons(1) [OF _ f(2)] Cons(2) None
      by (simp add: find_append find_map_pair comp_def)
  next
    case (Some e)
    then obtain j x where e: "find ?W ?es = Some (j, x)" by (cases e) auto
    then have "?find = (WM_NVS_ERR_OK, sm_sec m i, j, x)" using r by (simp add: find_result_def)
    with e show ?thesis by (simp add: find_append find_map_pair comp_def)
  qed
qed simp

lemma wm_nvs_sm_find_item_spec:
  assumes "sm_ok env dev m" and "item_wf it"
  shows "case find (\<lambda>e. wanted env g t key si ss (snd e)) (sm_entries dev m) of
      Some (i, j, x) \<Rightarrow> wm_nvs_sm_find_item env dev m g t key 0 it si ss = (WM_NVS_ERR_OK, m, j, Some i, x)
    | None \<Rightarrow> \<exists>it'. item_wf it' \<and> wm_nvs_sm_find_item env dev m g t key 0 it si ss =
        (WM_NVS_ERR_NOT_FOUND, m, 0, None, it')"
  unfolding wm_nvs_sm_find_item_def sm_entries_def
  by (rule sm_find_list_spec) (use assms in \<open>simp_all add: sm_ok_def\<close>)

section \<open>Activation\<close>

text \<open>The oldest idle sector becomes the last active one, blank, with the next serial number.\<close>

lemma sm_active_sector_spec:
  assumes ok: "sm_ok env dev m" and idle: "sm_idle m = i # rest"
  shows "\<exists>dev' s. sm_active_sector env dev m = Some (WM_NVS_ERR_OK, dev',
      (sm_upd m i s)\<lparr>sm_serial := u32 (sm_serial m + 1), sm_idle := rest, sm_active := sm_active m @ [i]\<rparr>) \<and>
    sector_fresh env (sm_pt m) dev' s \<and> s_address s = i * NVS_SECTION_SIZE \<and> s_serial s = sm_serial m \<and>
    only_sector (sm_pt m) dev dev' (i * NVS_SECTION_SIZE) \<and> pt_ok env (sm_pt m) dev'"
proof -
  have sh: "sm_shape m" and pt: "pt_ok env (sm_pt m) dev" using ok by (auto simp: sm_ok_def)
  note a = sm_shape_active [OF sh, of i]
  have i: "i \<in> set (sm_idle m)" using idle by simp
  have si: "sec_idle env (sm_pt m) dev (sm_sec m i)" using ok i by (simp add: sm_ok_def)
  show ?thesis
  proof (cases "s_state (sm_sec m i) = SEC_CRASH \<or> s_state (sm_sec m i) = SEC_INVALID")
    case True
    then have h: "hash_inv (s_hash (sm_sec m i))" "sector_place (sm_pt m) (sm_sec m i)"
      using si by (auto simp: sec_idle_def sector_fresh_def)
    obtain dev' s where e: "wm_nvs_sector_erase env (sm_pt m) dev (sm_sec m i) = (WM_NVS_ERR_OK, dev', s)"
      "sector_fresh env (sm_pt m) dev' s" "s_address s = s_address (sm_sec m i)"
      "same_on (sm_pt m) dev dev' 0 (s_address (sm_sec m i))"
      "same_on (sm_pt m) dev dev' (s_address (sm_sec m i) + NVS_SECTION_SIZE) (pt_size (sm_pt m))"
      using sector_erase_spec [OF pt h(2,1)] by blast
    let ?s = "s\<lparr>s_serial := sm_serial m\<rparr>"
    have "sm_active_sector env dev m = Some (WM_NVS_ERR_OK, dev',
        (sm_upd m i ?s)\<lparr>sm_serial := u32 (sm_serial m + 1), sm_idle := rest, sm_active := sm_active m @ [i]\<rparr>)"
      using True idle e(1) a(1) i
      by (simp add: sm_active_sector_def sm_then_def sm_on_def sm_sec_upd)
    moreover have "sector_fresh env (sm_pt m) dev' ?s" using e(2)
      by (simp add: sector_fresh_def sector_place_def)
    ultimately show ?thesis using e a(2) i
      by (intro exI [of _ dev'] exI [of _ ?s]) (simp add: only_sector_def sector_fresh_def)
  next
    case False
    then have f: "sector_fresh env (sm_pt m) dev (sm_sec m i)" using si by (auto simp: sec_idle_def)
    let ?s = "(sm_sec m i)\<lparr>s_serial := sm_serial m\<rparr>"
    have "sm_active_sector env dev m = Some (WM_NVS_ERR_OK, dev,
        (sm_upd m i ?s)\<lparr>sm_serial := u32 (sm_serial m + 1), sm_idle := rest, sm_active := sm_active m @ [i]\<rparr>)"
      using False idle by (simp add: sm_active_sector_def sm_then_def)
    moreover have "sector_fresh env (sm_pt m) dev ?s" using f
      by (simp add: sector_fresh_def sector_place_def)
    ultimately show ?thesis using a(2) i pt
      by (intro exI [of _ dev] exI [of _ ?s]) simp
  qed
qed

lemma sm_ok_activate:
  fixes n :: nat
  assumes n: "n < 2 ^ 32" and ok: "sm_ok env dev m" and idle: "sm_idle m = i # rest"
    and s: "sec_good env (sm_pt m) dev' s" "s_address s = i * NVS_SECTION_SIZE"
    and dev': "only_sector (sm_pt m) dev dev' (i * NVS_SECTION_SIZE)" "pt_ok env (sm_pt m) dev'"
  defines "m' \<equiv> (sm_upd m i s)\<lparr>sm_serial := n, sm_idle := rest, sm_active := sm_active m @ [i]\<rparr>"
  shows "sm_ok env dev' m'" and "sm_live dev' m' = sm_live dev m @ live (sm_pt m) dev' s"
    and "sm_entries dev' m' = sm_entries dev m @ map (\<lambda>e. (i, e)) (sector_entries (sm_pt m) dev' s)"
proof -
  have i: "i < length (sm_secs m)" and nd: "i \<notin> set (sm_active m)" "i \<notin> set rest"
    and sh: "sm_shape m"
    using ok idle by (auto simp: sm_ok_def sm_shape_def)
  note fr = sm_frame [OF ok i dev'(2,1) s(2)]
  have ss: "sm_sec m' j = (if j = i then s else sm_sec m j)" for j
    using i by (simp add: m'_def sm_sec_upd)
  have pm: "sm_pt m' = sm_pt m" by (simp add: m'_def)
  have "sm_shape m'"
    using sm_shape_upd [OF sh i s(2)] idle by (auto simp: sm_shape_def m'_def)
  moreover have "sec_good env (sm_pt m') dev' (sm_sec m' j)" if "j \<in> set (sm_active m')" for j
    using fr(2) that s(1) nd by (auto simp: ss pm) (auto simp: m'_def)
  moreover have "sec_idle env (sm_pt m') dev' (sm_sec m' j)" if "j \<in> set (sm_idle m')" for j
    using fr(5) that nd idle by (auto simp: ss pm) (auto simp: m'_def)
  ultimately show "sm_ok env dev' m'" using dev'(2) pm n by (simp add: sm_ok_def m'_def)
  have l: "live (sm_pt m) dev' (sm_sec m' j) = live (sm_pt m) dev (sm_sec m j)"
    "sector_entries (sm_pt m) dev' (sm_sec m' j) = sector_entries (sm_pt m) dev (sm_sec m j)"
    if "j \<in> set (sm_active m)" for j
  proof -
    have "j \<noteq> i" using that nd by auto
    with that show "live (sm_pt m) dev' (sm_sec m' j) = live (sm_pt m) dev (sm_sec m j)"
      "sector_entries (sm_pt m) dev' (sm_sec m' j) = sector_entries (sm_pt m) dev (sm_sec m j)"
      using fr(3,4) by (simp_all add: ss)
  qed
  have act: "sm_active m' = sm_active m @ [i]" by (simp add: m'_def)
  show "sm_live dev' m' = sm_live dev m @ live (sm_pt m) dev' s"
    unfolding sm_live_def act pm using l(1) by (simp add: ss cong: map_cong)
  show "sm_entries dev' m' = sm_entries dev m @ map (\<lambda>e. (i, e)) (sector_entries (sm_pt m) dev' s)"
    unfolding sm_entries_def act pm using l(2) by (simp add: ss cong: map_cong)
qed

lemma lists_ok_activate:
  assumes l: "lists_ok env dev m" and ok: "sm_ok env dev m" and idle: "sm_idle m = i # rest"
    and s: "s_address s = i * NVS_SECTION_SIZE" "s_serial s = sm_serial m"
    and dev': "only_sector (sm_pt m) dev dev' (i * NVS_SECTION_SIZE)" "pt_ok env (sm_pt m) dev'"
  shows "lists_ok env dev' ((sm_upd m i s)\<lparr>sm_serial := sm_serial m + 1, sm_idle := rest, sm_active := sm_active m @ [i]\<rparr>)"
proof -
  let ?m = "(sm_upd m i s)\<lparr>sm_serial := sm_serial m + 1, sm_idle := rest, sm_active := sm_active m @ [i]\<rparr>"
  have i: "i < length (sm_secs m)" and nd: "i \<notin> set (sm_active m)" "i \<notin> set rest"
    using ok idle by (auto simp: sm_ok_def sm_shape_def)
  have mp: "map (\<lambda>j. s_serial (sm_sec ?m j)) (sm_active ?m) = map (\<lambda>j. s_serial (sm_sec m j)) (sm_active m) @ [sm_serial m]"
    using nd i s(2) by (auto simp: sm_sec_upd)
  have "sorted_wrt (<) (map (\<lambda>j. s_serial (sm_sec ?m j)) (sm_active ?m))"
    unfolding mp using l by (auto simp: lists_ok_def serials_ok_def sorted_wrt_append)
  moreover have "s_serial (sm_sec ?m j) < sm_serial ?m" if "j \<in> set (sm_active ?m)" for j
    using that l i nd s(2) by (auto simp: lists_ok_def serials_ok_def sm_sec_upd less_Suc_eq)
  ultimately have "serials_ok ?m" by (simp only: serials_ok_def) blast
  moreover have "sector_fresh env (sm_pt m) dev' (sm_sec ?m j)" if j: "j \<in> set rest" for j
  proof -
    have n: "j \<noteq> i" "j \<in> set (sm_idle m)" using j nd idle by auto
    have "same_on (sm_pt m) dev dev' (s_address (sm_sec m j)) (s_address (sm_sec m j) + NVS_SECTION_SIZE)"
      by (rule sm_frame(1) [OF ok i dev'(2,1) s(1)]) (use n in simp_all)
    from sector_fresh_same [OF this _ dev'(2)] show ?thesis using n l i by (simp add: sm_sec_upd lists_ok_def)
  qed
  moreover have "set (sm_active m @ [i]) \<union> set rest = {..<length (sm_secs m)}"
    using l idle by (auto simp: lists_ok_def)
  ultimately show ?thesis by (simp add: lists_ok_def)
qed

section \<open>Collecting a sector\<close>

lemma sector_ok_state:
  "sector_ok env p dev s \<Longrightarrow> st = SEC_USING \<or> st = SEC_FULL \<or> st = SEC_DELETTING \<Longrightarrow>
   sector_ok env p dev (s\<lparr>s_state := st\<rparr>)"
  by (simp add: sector_ok_def sector_place_def sector_live_def sector_entries_def)

lemma live_state [simp]:
  "live p dev (s\<lparr>s_state := st\<rparr>) = live p dev s"
  by (simp add: live_def sector_entries_def)

text \<open>The state byte of a header.\<close>

lemma header_of_bytes_state:
  assumes "length bs = 32"
  shows "header_of_bytes (bs[2 := b]) = (header_of_bytes bs)\<lparr>sh_state := b\<rparr>"
  using assms by (simp add: header_of_bytes_def)

lemma header_ok_set_state:
  assumes nor: "nor_cells env" and h: "header_ok env p dev s" and st: "s_state s AND st = st"
  shows "header_ok env p (pt_prog env p dev (s_address s + 2) [st]) (s\<lparr>s_state := st\<rparr>)"
proof -
  let ?dev = "pt_prog env p dev (s_address s + 2) [st]" and ?bs = "pt_slice p dev (s_address s) 32"
  have "sh_state (header_of_bytes ?bs) = pt_mem p dev (s_address s + 2)"
    by (simp add: header_of_bytes_def)
  then have b: "pt_mem p dev (s_address s + 2) = s_state s" using h by (simp add: header_ok_def Let_def)
  have "pt_slice p ?dev (s_address s) 32 = ?bs[2 := st]"
  proof (rule nth_equalityI)
    fix k assume "k < length (pt_slice p ?dev (s_address s) 32)"
    then show "pt_slice p ?dev (s_address s) 32 ! k = ?bs[2 := st] ! k"
      using st b by (cases "k = 2") (auto simp: pt_mem_prog pp_cell_nor [OF nor])
  qed simp
  then show ?thesis
    using h by (simp add: header_ok_def Let_def header_of_bytes_state sector_crc32_def header_body_def)
qed

lemma set_delete_spec:
  assumes ok: "sector_ok env p dev s" and h: "header_ok env p dev s"
  shows "\<exists>dev'. wm_nvs_sector_set_state env p dev s SEC_DELETTING = (WM_NVS_ERR_OK, dev', s\<lparr>s_state := SEC_DELETTING\<rparr>) \<and>
    sector_ok env p dev' (s\<lparr>s_state := SEC_DELETTING\<rparr>) \<and> header_ok env p dev' (s\<lparr>s_state := SEC_DELETTING\<rparr>) \<and>
    live p dev' s = live p dev s \<and> only_sector p dev dev' (s_address s)"
proof -
  let ?dev = "pt_prog env p dev (s_address s + 2) [SEC_DELETTING]"
  have pt: "pt_ok env p dev" "sector_place p s" "nor_cells env" and lv: "sector_live s"
    using ok by (auto simp: sector_ok_def pt_ok_def)
  have same: "same_on p dev ?dev (s_address s + 32) (s_address s + NVS_SECTION_SIZE)"
    "only_sector p dev ?dev (s_address s)"
    by (auto simp: same_on_def only_sector_def pt_mem_prog)
  have "s_state s AND SEC_DELETTING = SEC_DELETTING" using lv by (auto simp: sector_live_def)
  note hd = header_ok_set_state [OF pt(3) h this]
  have "sector_ok env p ?dev s" by (rule sector_ok_same(1) [OF same(1) ok]) (use pt in simp)
  then have "sector_ok env p ?dev (s\<lparr>s_state := SEC_DELETTING\<rparr>)" by (rule sector_ok_state) simp
  with set_state_flash [OF pt(1,2), of SEC_DELETTING] hd live_same [OF ok same(1)] same(2)
  show ?thesis by blast
qed

lemma sm_dirtiest_spec:
  assumes "sm_dirtiest m is b d0 = (b', d')"
  shows "b \<le> b'" and "j \<in> set is \<Longrightarrow> wm_nvs_sm_get_gc_size (sm_sec m j) \<le> b'"
    and "(b' = b \<and> d' = d0) \<or> (\<exists>d \<in> set is. d' = Some d \<and> b' = wm_nvs_sm_get_gc_size (sm_sec m d))"
  using assms by (induction m "is" b d0 rule: sm_dirtiest.induct) (fastforce simp: Let_def split: if_splits)+

text \<open>The copy into the new sector and the erasure of the source.\<close>

lemma gc_copy_retire:
  assumes ok: "sm_ok env dev m" and act: "sm_active m = act @ [i]" and d: "d \<in> set act"
    and dst: "sector_ok env (sm_pt m) dev (sm_sec m i)" "header_ok env (sm_pt m) dev (sm_sec m i)"
      "s_next_free (sm_sec m i) = 0"
    and src: "sector_ok env (sm_pt m) dev (sm_sec m d)"
  shows "\<exists>dev' si sd. sm_then (sm_gc_copy env dev m d) (\<lambda>dev m. sm_gc_retire env dev m d) =
      Some (WM_NVS_ERR_OK, dev', (sm_upd (sm_upd m i si) d sd)\<lparr>sm_active := remove1 d act @ [i],
        sm_idle := sm_idle m @ [d]\<rparr>) \<and>
    sm_ok env dev' ((sm_upd (sm_upd m i si) d sd)\<lparr>sm_active := remove1 d act @ [i], sm_idle := sm_idle m @ [d]\<rparr>) \<and>
    sector_ok env (sm_pt m) dev' si \<and> live (sm_pt m) dev' si = live (sm_pt m) dev (sm_sec m d) \<and>
    s_serial si = s_serial (sm_sec m i) \<and> s_state si = s_state (sm_sec m i) \<and>
    s_used si = s_used (sm_sec m d) - s_droped (sm_sec m d) \<and>
    (\<forall>j \<in> set (remove1 d act). live (sm_pt m) dev' (sm_sec m j) = live (sm_pt m) dev (sm_sec m j))"
proof -
  let ?p = "sm_pt m"
  have sh: "sm_shape m" and pt: "pt_ok env ?p dev" using ok by (auto simp: sm_ok_def)
  have dist: "distinct (act @ [i] @ sm_idle m)" using sh act by (simp add: sm_shape_def)
  have ia: "i \<in> set (sm_active m)" "d \<in> set (sm_active m)" and di: "d \<noteq> i"
    using act d dist by auto
  note ai = sm_shape_active [OF sh disjI1 [OF ia(1)]] and ad = sm_shape_active [OF sh disjI1 [OF ia(2)]]
  have dj: "sec_disjoint (sm_sec m i) (sm_sec m d)"
    using di unfolding sec_disjoint_def ai(2) ad(2) by (cases "i < d") auto
  obtain dev1 si where c: "wm_nvs_sector_copy env ?p dev (sm_sec m i) (sm_sec m d) =
      (WM_NVS_ERR_OK, dev1, si, sm_sec m d)" "sector_ok env ?p dev1 si"
    "live ?p dev1 si = live ?p dev (sm_sec m d)"
    "same_on ?p dev dev1 0 (s_address (sm_sec m i) + 32)"
    "same_on ?p dev dev1 (s_address (sm_sec m i) + NVS_SECTION_SIZE) (pt_size ?p)"
    "s_address si = s_address (sm_sec m i)" "s_state si = s_state (sm_sec m i)"
    "s_serial si = s_serial (sm_sec m i)"
    "s_next_free si = s_used (sm_sec m d) - s_droped (sm_sec m d)"
    using wm_nvs_sector_copy_spec [OF dst(1,3) src dj] by blast
  have pt1: "pt_ok env ?p dev1" using c(2) by (simp add: sector_ok_def)
  have o1: "only_sector ?p dev dev1 (i * NVS_SECTION_SIZE)"
    using c(4,5) ai(2) by (simp add: only_sector_def same_on_def)
  have h1: "header_ok env ?p dev1 si"
  proof -
    have "header_ok env ?p dev1 (sm_sec m i) = header_ok env ?p dev (sm_sec m i)"
      by (rule header_ok_same) (use c(4) in \<open>simp add: same_on_def\<close>)
    with dst(2) c(6-8) show ?thesis by (simp add: header_ok_def)
  qed
  let ?m1 = "sm_upd m i si"
  have gi: "sec_good env ?p dev1 si" using c(2) h1 by (simp add: sec_good_def)
  have ok1: "sm_ok env dev1 ?m1"
    by (rule sm_ok_update [OF ok ai(1) pt1 o1]) (use c(6) ai(2) gi dist act ia in auto)
  have sd: "sm_sec ?m1 d = sm_sec m d" "sm_sec ?m1 i = si" using di ai(1) by (simp_all add: sm_sec_upd)
  have l1: "live ?p dev1 (sm_sec m j) = live ?p dev (sm_sec m j)" if "j \<in> set act" for j
    using sm_frame(4) [OF ok ai(1) pt1 o1, of si j] that act dist c(6) ai(2) by auto
  have copy: "sm_gc_copy env dev m d = Some (WM_NVS_ERR_OK, dev1, ?m1)"
    using c(1) act by (simp add: sm_gc_copy_def list_last_def)
  have hd: "hash_inv (s_hash (sm_sec m d))" using src by (simp add: sector_ok_def)
  obtain dev2 s2 where e: "wm_nvs_sector_erase env ?p dev1 (sm_sec m d) = (WM_NVS_ERR_OK, dev2, s2)"
    "sector_fresh env ?p dev2 s2" "s_address s2 = s_address (sm_sec m d)"
    "same_on ?p dev1 dev2 0 (s_address (sm_sec m d))"
    "same_on ?p dev1 dev2 (s_address (sm_sec m d) + NVS_SECTION_SIZE) (pt_size ?p)"
    using sector_erase_spec [OF pt1 ad(4) hd] by blast
  have pt2: "pt_ok env ?p dev2" using e(2) by (simp add: sector_fresh_def)
  have o2: "only_sector (sm_pt ?m1) dev1 dev2 (d * NVS_SECTION_SIZE)"
    using e(4,5) ad(2) by (simp add: only_sector_def)
  have ld: "d < length (sm_secs ?m1)" using ad(1) by simp
  have pt2': "pt_ok env (sm_pt ?m1) dev2" using pt2 by simp
  have a2: "s_address s2 = d * NVS_SECTION_SIZE" using e(3) ad(2) by simp
  note fr = sm_frame [OF ok1 ld pt2' o2 a2]
  let ?m2 = "(sm_upd ?m1 d s2)\<lparr>sm_active := remove1 d act @ [i], sm_idle := sm_idle m @ [d]\<rparr>"
  have ss: "sm_sec ?m2 j = (if j = d then s2 else sm_sec ?m1 j)" for j
    using ld by (simp add: sm_sec_upd)
  have rm: "remove1 d (act @ [i]) = remove1 d act @ [i]" using d by (simp add: remove1_append)
  have retire: "sm_gc_retire env dev1 ?m1 d = Some (WM_NVS_ERR_OK, dev2, ?m2)"
    using e(1) sd(1) act rm by (simp add: sm_gc_retire_def sm_then_def sm_on_def)
  have da: "set (remove1 d act) = set act - {d}" using dist by simp
  have "sm_shape (sm_upd ?m1 d s2)"
    by (rule sm_shape_upd [OF _ ld a2]) (use ok1 in \<open>simp add: sm_ok_def\<close>)
  moreover have "distinct ((remove1 d act @ [i]) @ sm_idle m @ [d])"
    using dist da d di by (auto simp: distinct_remove1)
  moreover have "set ((remove1 d act @ [i]) @ sm_idle m @ [d]) \<subseteq> {..<length (sm_secs m)}"
    using sh act ad(1) da unfolding sm_shape_def by auto
  ultimately have "sm_shape ?m2" by (simp add: sm_shape_def)
  moreover have "sec_good env ?p dev2 (sm_sec ?m2 j)" if "j \<in> set (sm_active ?m2)" for j
  proof -
    have j: "j \<in> set (sm_active ?m1)" "j \<noteq> d" using that da di act by auto
    have "sec_good env ?p dev2 (sm_sec ?m1 j)" using fr(2) [of j] j by simp
    with j show ?thesis by (simp only: ss if_False)
  qed
  moreover have "sec_idle env ?p dev2 (sm_sec ?m2 j)" if "j \<in> set (sm_idle ?m2)" for j
  proof (cases "j = d")
    case True
    then show ?thesis using e(2) unfolding sec_idle_def True ss by simp
  next
    case False
    then have j: "j \<in> set (sm_idle ?m1)" using that by simp
    have "sec_idle env ?p dev2 (sm_sec ?m1 j)" using fr(5) [of j] j False by simp
    with False show ?thesis by (simp only: ss if_False)
  qed
  ultimately have ok2: "sm_ok env dev2 ?m2" using pt2 ok by (simp add: sm_ok_def)
  have "sec_good env ?p dev2 si" and li: "live ?p dev2 si = live ?p dev1 si"
    using fr(2,4) [of i] ia di sd(2) by auto
  moreover have "s_state si \<noteq> SEC_UNINIT" using c(2) by (auto simp: sector_ok_def sector_live_def)
  ultimately have "sector_ok env ?p dev2 si" by (auto simp: sec_good_def sector_fresh_def)
  moreover have "live ?p dev2 (sm_sec m j) = live ?p dev (sm_sec m j)" if "j \<in> set (remove1 d act)" for j
  proof -
    have j: "j \<in> set act" "j \<noteq> d" "j \<noteq> i" using that dist by auto
    then show ?thesis using fr(4) [of j] l1 act by (simp add: sm_sec_upd ai(1))
  qed
  moreover have "s_used si = s_used (sm_sec m d) - s_droped (sm_sec m d)"
    using sector_ok_used(1) [OF c(2)] c(9) by simp
  ultimately show ?thesis
    using copy retire ok2 li c(3,7,8)
    by (intro exI [of _ dev2] exI [of _ si] exI [of _ s2]) (simp add: sm_then_def)
qed

end
