(* ===== verification/NvsSmGc.thy ===== *)
theory NvsSmGc
  imports NvsSmSpec
begin

text \<open>
  The space operations of the sector manager: opening a new sector, collecting the dirtiest
  one, requesting room. None of them loses a live entry, and the idle reserve survives.
\<close>

lemma sec_good_live:
  assumes "sec_good env p dev s" and "s_state s \<noteq> SEC_UNINIT"
  shows "sector_ok env p dev s" and "header_ok env p dev s"
  using assms by (auto simp: sec_good_def sector_fresh_def)

text \<open>A new sector with a header behind the active ones.\<close>

lemma gc_open:
  assumes ok: "sm_ok env dev m" and idle: "sm_idle m = i # rest"
  shows "\<exists>dev' m'. (\<forall>F. sm_then (sm_active_sector env dev m)
        (\<lambda>dev m. sm_then (sm_gc_header env dev m) F) = F dev' m') \<and>
    sm_ok env dev' m' \<and> sm_active m' = sm_active m @ [i] \<and> sm_idle m' = rest \<and> sm_pt m' = sm_pt m \<and>
    length (sm_secs m') = length (sm_secs m) \<and>
    sm_serial m' = u32 (sm_serial m + 1) \<and>
    sector_ok env (sm_pt m) dev' (sm_sec m' i) \<and> header_ok env (sm_pt m) dev' (sm_sec m' i) \<and>
    s_next_free (sm_sec m' i) = 0 \<and> s_serial (sm_sec m' i) = sm_serial m \<and> live (sm_pt m) dev' (sm_sec m' i) = [] \<and>
    (\<forall>j \<in> set (sm_active m). sm_sec m' j = sm_sec m j \<and>
       live (sm_pt m) dev' (sm_sec m j) = live (sm_pt m) dev (sm_sec m j))"
proof -
  let ?p = "sm_pt m"
  obtain dev1 s where a: "sm_active_sector env dev m = Some (WM_NVS_ERR_OK, dev1,
      (sm_upd m i s)\<lparr>sm_serial := u32 (sm_serial m + 1), sm_idle := rest, sm_active := sm_active m @ [i]\<rparr>)"
    "sector_fresh env ?p dev1 s" "s_address s = i * NVS_SECTION_SIZE" "s_serial s = sm_serial m"
    "only_sector ?p dev dev1 (i * NVS_SECTION_SIZE)" "pt_ok env ?p dev1"
    using sm_active_sector_spec [OF ok idle] by blast
  let ?m1 = "(sm_upd m i s)\<lparr>sm_serial := u32 (sm_serial m + 1), sm_idle := rest, sm_active := sm_active m @ [i]\<rparr>"
  have un: "u32 (sm_serial m + 1) < 2 ^ 32" by simp
  have gs: "sec_good env ?p dev1 s" using a(2,4) ok by (simp add: sec_good_def sm_ok_def)
  have ok1: "sm_ok env dev1 ?m1" by (rule sm_ok_activate(1) [OF un ok idle gs a(3,5,6)])
  have i: "i < length (sm_secs m)" "i \<notin> set (sm_active m)" "i \<notin> set rest"
    using ok idle by (auto simp: sm_ok_def sm_shape_def)
  have s1: "sm_sec ?m1 i = s" using i(1) by (simp add: sm_sec_upd)
  have sn: "s_serial s < 2 ^ 32" using a(4) ok by (simp add: sm_ok_def)
  obtain dev2 s2 where b: "wm_nvs_sector_init env ?p dev1 s = (WM_NVS_ERR_OK, dev2, s2)"
    "sector_ok env ?p dev2 s2" "sector_entries ?p dev2 s2 = []" "header_ok env ?p dev2 s2"
    "s_state s2 = SEC_USING" "s_address s2 = s_address s" "s_serial s2 = s_serial s" "s_next_free s2 = 0"
    "same_on ?p dev1 dev2 0 (s_address s)" "same_on ?p dev1 dev2 (s_address s + 32) (pt_size ?p)"
    using sector_init_spec [OF a(2) sn] by blast
  let ?m2 = "sm_upd ?m1 i s2"
  have pt2: "pt_ok env (sm_pt ?m1) dev2" using b(2) by (simp add: sector_ok_def)
  have o2: "only_sector (sm_pt ?m1) dev1 dev2 (i * NVS_SECTION_SIZE)"
    using b(9,10) a(3) by (simp add: only_sector_def same_on_def)
  have i1: "i < length (sm_secs ?m1)" using i(1) by simp
  have a2: "s_address s2 = i * NVS_SECTION_SIZE" using b(6) a(3) by simp
  have ok2: "sm_ok env dev2 ?m2"
    by (rule sm_ok_update [OF ok1 i1 pt2 o2 a2]) (use b(2,4) i(3) in \<open>simp_all add: sec_good_def\<close>)
  have hd: "sm_gc_header env dev1 ?m1 = Some (WM_NVS_ERR_OK, dev2, ?m2)"
    using a(2) b(1) s1 by (simp add: sm_gc_header_def list_last_def sm_on_def sector_fresh_def)
  have "\<forall>F. sm_then (sm_active_sector env dev m) (\<lambda>dev m. sm_then (sm_gc_header env dev m) F) = F dev2 ?m2"
    using a(1) hd by (simp add: sm_then_def)
  moreover have "\<forall>j \<in> set (sm_active m). sm_sec ?m2 j = sm_sec m j \<and>
      live ?p dev2 (sm_sec m j) = live ?p dev (sm_sec m j)"
  proof
    fix j assume j: "j \<in> set (sm_active m)"
    have ji: "j \<noteq> i" using j i(2) by auto
    have "sm_sec ?m1 j = sm_sec m j" using ji i(1) by (simp add: sm_sec_upd)
    moreover have "live (sm_pt ?m1) dev2 (sm_sec ?m1 j) = live (sm_pt ?m1) dev1 (sm_sec ?m1 j)"
      by (rule sm_frame(4) [OF ok1 i1 pt2 o2 a2]) (use j ji in simp_all)
    moreover have "live ?p dev1 (sm_sec m j) = live ?p dev (sm_sec m j)"
      by (rule sm_frame(4) [OF ok i(1) a(6,5,3)]) (use j ji in simp_all)
    ultimately show "sm_sec ?m2 j = sm_sec m j \<and> live ?p dev2 (sm_sec m j) = live ?p dev (sm_sec m j)"
      using ji i1 by (simp add: sm_sec_upd)
  qed
  moreover have s2: "sm_sec ?m2 i = s2" using i1 by (simp add: sm_sec_upd)
  moreover have "live ?p dev2 s2 = []" using b(3) by (simp add: live_def)
  moreover have "sm_active ?m2 = sm_active m @ [i]" "sm_idle ?m2 = rest" "sm_pt ?m2 = ?p"
    "length (sm_secs ?m2) = length (sm_secs m)" "sm_serial ?m2 = u32 (sm_serial m + 1)" by simp_all
  ultimately show ?thesis using ok2 b(2,4,7,8) a(4)
    by (intro exI [of _ dev2] exI [of _ ?m2]) (simp only: simp_thms)
qed

lemma gc_size_free:
  assumes "sector_ok env p dev s" and "s_used t = s_used s - s_droped s"
  shows "wm_nvs_sm_get_free_size t = wm_nvs_sm_get_gc_size s"
  using sector_ok_used [OF assms(1)] assms(2)
  by (simp add: wm_nvs_sm_get_free_size_def wm_nvs_sm_get_gc_size_def)

text \<open>A collection.\<close>

lemma sm_garbage_collection_spec:
  assumes ok: "sm_ok env dev m" and idle: "sm_idle m = i # rest"
    and hd: "\<forall>j \<in> set (sm_active m). s_state (sm_sec m j) \<noteq> SEC_UNINIT"
    and dirt: "sm_dirtiest m (sm_active m) 0 None = (most, dd)" and need: "0 < need" "need \<le> most"
  shows "\<exists>dev' m' d. sm_garbage_collection env dev m need = Some (WM_NVS_ERR_OK, dev', m') \<and>
    sm_ok env dev' m' \<and> d \<in> set (sm_active m) \<and> wm_nvs_sm_get_gc_size (sm_sec m d) = most \<and>
    (\<forall>j \<in> set (sm_active m). wm_nvs_sm_get_gc_size (sm_sec m j) \<le> most) \<and>
    sm_active m' = remove1 d (sm_active m) @ [i] \<and> sm_idle m' = rest @ [d] \<and>
    sm_live dev' m' = concat (map (\<lambda>j. live (sm_pt m) dev (sm_sec m j)) (remove1 d (sm_active m))) @
      live (sm_pt m) dev (sm_sec m d) \<and>
    wm_nvs_sm_get_free_size (sm_sec m' i) = most \<and>
    (\<forall>j \<in> set (remove1 d (sm_active m)). sm_sec m' j = sm_sec m j) \<and>
    s_serial (sm_sec m' i) = sm_serial m \<and> s_state (sm_sec m' i) \<noteq> SEC_UNINIT \<and>
    sm_serial m' = u32 (sm_serial m + 1) \<and> sm_pt m' = sm_pt m"
proof -
  let ?p = "sm_pt m" and ?act = "sm_active m"
  note ds = sm_dirtiest_spec [OF dirt]
  obtain d where d: "d \<in> set ?act" "dd = Some d" "most = wm_nvs_sm_get_gc_size (sm_sec m d)"
    using ds(3) need by auto
  obtain dev2 m2 where o: "\<And>F. sm_then (sm_active_sector env dev m)
        (\<lambda>dev m. sm_then (sm_gc_header env dev m) F) = F dev2 m2"
    "sm_ok env dev2 m2" "sm_active m2 = ?act @ [i]" "sm_idle m2 = rest" "sm_pt m2 = ?p"
    "length (sm_secs m2) = length (sm_secs m)" "sm_serial m2 = u32 (sm_serial m + 1)"
    "sector_ok env ?p dev2 (sm_sec m2 i)" "header_ok env ?p dev2 (sm_sec m2 i)"
    "s_next_free (sm_sec m2 i) = 0" "s_serial (sm_sec m2 i) = sm_serial m"
    "\<forall>j \<in> set ?act. sm_sec m2 j = sm_sec m j \<and> live ?p dev2 (sm_sec m j) = live ?p dev (sm_sec m j)"
    using gc_open [OF ok idle] by blast
  have d2: "sm_sec m2 d = sm_sec m d" "live ?p dev2 (sm_sec m d) = live ?p dev (sm_sec m d)"
    using o(12) d(1) by auto
  have di: "d \<noteq> i" and ld: "d < length (sm_secs m2)" "i < length (sm_secs m2)"
    and ad: "s_address (sm_sec m2 d) = d * NVS_SECTION_SIZE"
    using o(2,3) d(1) by (auto simp: sm_ok_def sm_shape_def)
  have gd: "sec_good env ?p dev2 (sm_sec m2 d)" using o(2,3,5) d(1) by (simp add: sm_ok_def)
  have "s_state (sm_sec m2 d) \<noteq> SEC_UNINIT" using hd d(1) d2(1) by simp
  note gdl = sec_good_live [OF gd this]
  let ?s3 = "(sm_sec m2 d)\<lparr>s_state := SEC_DELETTING\<rparr>"
  obtain dev3 where t: "wm_nvs_sector_set_state env ?p dev2 (sm_sec m2 d) SEC_DELETTING = (WM_NVS_ERR_OK, dev3, ?s3)"
    "sector_ok env ?p dev3 ?s3" "header_ok env ?p dev3 ?s3"
    "live ?p dev3 (sm_sec m2 d) = live ?p dev2 (sm_sec m2 d)" "only_sector ?p dev2 dev3 (s_address (sm_sec m2 d))"
    using set_delete_spec [OF gdl] by blast
  let ?m3 = "sm_upd m2 d ?s3"
  have pt3: "pt_ok env (sm_pt m2) dev3" using t(2) o(5) by (simp add: sector_ok_def)
  have o3: "only_sector (sm_pt m2) dev2 dev3 (d * NVS_SECTION_SIZE)" using t(5) ad o(5) by simp
  have a3: "s_address ?s3 = d * NVS_SECTION_SIZE" using ad by simp
  have nid: "d \<notin> set (sm_idle m2)" using o(2,3) d(1) by (auto simp: sm_ok_def sm_shape_def)
  have ok3: "sm_ok env dev3 ?m3"
    by (rule sm_ok_update [OF o(2) ld(1) pt3 o3 a3]) (use t nid o(5) in \<open>simp_all add: sec_good_def\<close>)
  note fr = sm_frame [OF o(2) ld(1) pt3 o3 a3]
  have i3: "sm_sec ?m3 i = sm_sec m2 i" "sm_sec ?m3 d = ?s3" using di ld by (simp_all add: sm_sec_upd)
  have gi: "sec_good env ?p dev3 (sm_sec m2 i)" using fr(2) [of i] o(3,5) di by simp
  have iu: "s_state (sm_sec m2 i) \<noteq> SEC_UNINIT" using o(8) by (auto simp: sector_ok_def sector_live_def)
  have act3: "sm_active ?m3 = ?act @ [i]" using o(3) by simp
  obtain dev4 si sd where c: "sm_then (sm_gc_copy env dev3 ?m3 d) (\<lambda>dev m. sm_gc_retire env dev m d) =
      Some (WM_NVS_ERR_OK, dev4, (sm_upd (sm_upd ?m3 i si) d sd)\<lparr>sm_active := remove1 d ?act @ [i],
        sm_idle := sm_idle ?m3 @ [d]\<rparr>)"
    "sm_ok env dev4 ((sm_upd (sm_upd ?m3 i si) d sd)\<lparr>sm_active := remove1 d ?act @ [i], sm_idle := sm_idle ?m3 @ [d]\<rparr>)"
    "sector_ok env (sm_pt ?m3) dev4 si" "live (sm_pt ?m3) dev4 si = live (sm_pt ?m3) dev3 (sm_sec ?m3 d)"
    "s_serial si = s_serial (sm_sec ?m3 i)" "s_state si = s_state (sm_sec ?m3 i)"
    "s_used si = s_used (sm_sec ?m3 d) - s_droped (sm_sec ?m3 d)"
    "\<forall>j \<in> set (remove1 d ?act). live (sm_pt ?m3) dev4 (sm_sec ?m3 j) = live (sm_pt ?m3) dev3 (sm_sec ?m3 j)"
    using gc_copy_retire [OF ok3 act3 d(1)] sec_good_live [OF gi iu] o(5,10) t(2) i3 by auto
  let ?m4 = "(sm_upd (sm_upd ?m3 i si) d sd)\<lparr>sm_active := remove1 d ?act @ [i], sm_idle := sm_idle ?m3 @ [d]\<rparr>"
  have "sm_garbage_collection env dev m need = Some (WM_NVS_ERR_OK, dev4, ?m4)"
    using dirt need(2) o(1) t(1) c(1) d(2) o(5)
    by (simp add: sm_garbage_collection_def sm_on_def sm_then_def [of "Some _"])
  moreover have j4: "sm_sec ?m4 j = sm_sec m j \<and> live ?p dev4 (sm_sec m j) = live ?p dev (sm_sec m j)"
    if j: "j \<in> set (remove1 d ?act)" for j
  proof -
    have dist: "distinct (?act @ [i])" using o(2,3) by (simp add: sm_ok_def sm_shape_def)
    have n: "j \<in> set ?act" "j \<noteq> d" "j \<noteq> i" using j dist by auto
    have "sm_sec ?m3 j = sm_sec m2 j" using n ld by (simp add: sm_sec_upd)
    moreover have "sm_sec m2 j = sm_sec m j" "live ?p dev2 (sm_sec m j) = live ?p dev (sm_sec m j)"
      using o(12) n by auto
    moreover have "live ?p dev3 (sm_sec m2 j) = live ?p dev2 (sm_sec m2 j)"
      using fr(4) [of j] n o(3,5) by simp
    ultimately show ?thesis using bspec [OF c(8) j] n ld o(5) by (simp add: sm_sec_upd)
  qed
  moreover have i4: "sm_sec ?m4 i = si" using di ld by (simp add: sm_sec_upd)
  moreover have "live ?p dev4 si = live ?p dev (sm_sec m d)"
    using c(4) i3 t(4) d2 o(5) by simp
  then have "sm_live dev4 ?m4 = concat (map (\<lambda>j. live ?p dev (sm_sec m j)) (remove1 d ?act)) @
      live ?p dev (sm_sec m d)"
    using j4 i4 o(5) by (simp add: sm_live_def cong: map_cong)
  moreover have "wm_nvs_sm_get_free_size si = most"
    using gc_size_free [OF gdl(1), of si] c(7) i3 d(3) d2(1) by simp
  moreover have "s_serial si = sm_serial m" "s_state si \<noteq> SEC_UNINIT" using c(5,6) i3 o(11) iu by simp_all
  ultimately show ?thesis using c(2) d(1,3) ds(2) o(4,5,7)
    by (intro exI [of _ dev4] exI [of _ ?m4] exI [of _ d]) simp
qed

end
