(* ===== verification/NvsStorage.thy ===== *)
theory NvsStorage
  imports NvsSectorManager
begin

text \<open>
  Groups, items and blobs of one partition (\<open>wm_nvs_storage.c\<close>). The storage holds the
  sector manager (whose \<open>sm_pt\<close> is the storage's own copy of the partition) and the list of
  groups. As in the manager, \<open>None\<close> stands for a run that does not return: a null pointer is
  dereferenced, or the segment loop of a blob write never ends. The loops of the form "for
  every active sector, find every item of a kind" are one function here, \<open>sm_scan\<close>, which
  takes the body of the inner loop; the body may end the whole scan with a return code.
\<close>

record nvs_group =
  g_name :: bytes
  g_id :: nat

record storage =
  st_sm :: sm
  st_groups :: "nvs_group list"

type_synonym st_result = "(int \<times> flash_dev \<times> storage) option"

definition GROUP_T_SIZE :: nat where "GROUP_T_SIZE = 28"
definition BLOB_INFO_T_SIZE :: nat where "BLOB_INFO_T_SIZE = 36"
definition STORAGE_T_SIZE :: nat where "STORAGE_T_SIZE = 80"

text \<open>An outcome of the sector manager as one of the storage.\<close>

definition st_lift :: "storage \<Rightarrow> sm_result \<Rightarrow> st_result" where
  "st_lift st r =
     (case r of None \<Rightarrow> None | Some (err, dev, m) \<Rightarrow> Some (err, dev, st\<lparr>st_sm := m\<rparr>))"

definition st_then :: "st_result \<Rightarrow> (flash_dev \<Rightarrow> storage \<Rightarrow> st_result) \<Rightarrow> st_result" where
  "st_then r k =
     (case r of None \<Rightarrow> None
      | Some (err, dev, st) \<Rightarrow> if err \<noteq> WM_NVS_ERR_OK then Some (err, dev, st) else k dev st)"

section \<open>Scanning the active sectors\<close>

text \<open>The inner loop over one sector \<open>i\<close>. The body gets the index and the item and returns an
  accumulator; \<open>Some err\<close> leaves all loops. At the end: that code, and the item variables.\<close>

function sector_scan ::
  "env \<Rightarrow> (flash_dev \<Rightarrow> sm \<Rightarrow> 'a \<Rightarrow> nat \<Rightarrow> nat \<Rightarrow> item \<Rightarrow> int option \<times> flash_dev \<times> sm \<times> 'a) \<Rightarrow>
   nat \<Rightarrow> nat \<Rightarrow> flash_dev \<Rightarrow> sm \<Rightarrow> 'a \<Rightarrow> nat \<Rightarrow> nat \<Rightarrow> item \<Rightarrow>
   int option \<times> flash_dev \<times> sm \<times> 'a \<times> nat \<times> int" where
  "sector_scan env body group_id type dev m a i item_index it =
     (case wm_nvs_sector_find_item env (sm_pt m) dev (sm_sec m i) group_id type None item_index it
             NVS_SEG_ID_ANY SEG_START_ANY of
        (err, sec, idx, it) \<Rightarrow>
          let m = sm_upd m i sec
          in if err \<noteq> WM_NVS_ERR_OK then (None, dev, m, a, item_index, err)
             else case body dev m a i idx it of
                    (Some e, dev, m, a) \<Rightarrow> (Some e, dev, m, a, idx, err)
                  | (None, dev, m, a) \<Rightarrow>
                      sector_scan env body group_id type dev m a i (idx + wm_nvs_item_get_span it) it)"
  by pat_completeness auto
termination
  by (relation "measure (\<lambda>(env, body, group_id, type, dev, m, a, i, item_index, it).
        NVS_ENTRY_COUNT - item_index)")
    (auto intro!: diff_add_less dest!: sector_find_item_index [OF sym])

declare sector_scan.simps [simp del]

fun sm_scan_list ::
  "env \<Rightarrow> (flash_dev \<Rightarrow> sm \<Rightarrow> 'a \<Rightarrow> nat \<Rightarrow> nat \<Rightarrow> item \<Rightarrow> int option \<times> flash_dev \<times> sm \<times> 'a) \<Rightarrow>
   nat \<Rightarrow> nat \<Rightarrow> flash_dev \<Rightarrow> sm \<Rightarrow> 'a \<Rightarrow> nat list \<Rightarrow> nat \<Rightarrow> int option \<times> flash_dev \<times> sm \<times> 'a \<times> nat"
where
  "sm_scan_list env body group_id type dev m a [] idx = (None, dev, m, a, idx)"
| "sm_scan_list env body group_id type dev m a (i # is) idx =
     (case sector_scan env body group_id type dev m a i 0 blank_item of
        (Some e, dev, m, a, idx, _) \<Rightarrow> (Some e, dev, m, a, idx)
      | (None, dev, m, a, idx, _) \<Rightarrow> sm_scan_list env body group_id type dev m a is idx)"

text \<open>The last component is the value the item index is left with.\<close>

definition sm_scan ::
  "env \<Rightarrow> (flash_dev \<Rightarrow> sm \<Rightarrow> 'a \<Rightarrow> nat \<Rightarrow> nat \<Rightarrow> item \<Rightarrow> int option \<times> flash_dev \<times> sm \<times> 'a) \<Rightarrow>
   nat \<Rightarrow> nat \<Rightarrow> flash_dev \<Rightarrow> sm \<Rightarrow> 'a \<Rightarrow> int option \<times> flash_dev \<times> sm \<times> 'a \<times> nat" where
  "sm_scan env body group_id type dev m a =
     sm_scan_list env body group_id type dev m a (sm_active m) 0"

section \<open>Groups\<close>

text \<open>The id of a group by name, or the lowest free one; ids are below 64.\<close>

definition storage_find_group :: "storage \<Rightarrow> bytes \<Rightarrow> int \<times> nat" where
  "storage_find_group st grp =
     (case find (\<lambda>g. strcmp_eq (g_name g) grp) (st_groups st) of
        Some g \<Rightarrow> (WM_NVS_ERR_OK, g_id g)
      | None \<Rightarrow>
          (WM_NVS_ERR_FAIL,
           case find (\<lambda>i. i \<notin> set (map g_id (st_groups st))) [1..<NVS_GROUP_ID_MAX] of
             Some i \<Rightarrow> i | None \<Rightarrow> NVS_GROUP_ID_MAX))"

definition storage_add_group ::
  "env \<Rightarrow> nvs_group list \<Rightarrow> nat \<Rightarrow> bytes \<Rightarrow> nat \<Rightarrow> int \<times> nvs_group list" where
  "storage_add_group env gs group_id group_name max_size =
     (if \<not> alloc_ok env GROUP_T_SIZE then (WM_NVS_ERR_NO_MEM, gs)
      else (WM_NVS_ERR_OK,
            gs @ [\<lparr>g_name = takeWhile (\<lambda>b. b \<noteq> 0) (take (min max_size NVS_MAX_KEY_LEN) group_name),
                   g_id = group_id\<rparr>]))"

definition storage_load_groups :: "env \<Rightarrow> flash_dev \<Rightarrow> storage \<Rightarrow> int \<times> storage" where
  "storage_load_groups env dev st =
     (case sm_scan env
             (\<lambda>dev m gs i idx it.
                (None, dev, m,
                 snd (storage_add_group env gs (unat (it_data it ! 0)) (it_name it) NVS_MAX_KEY_LEN)))
             NVS_GROUP_ITSELF_ID TYPE_UINT8 dev (st_sm st) (st_groups st) of
        (_, _, m, gs, _) \<Rightarrow> (WM_NVS_ERR_OK, st\<lparr>st_sm := m, st_groups := gs\<rparr>))"

definition wm_nvs_storage_find_group_by_name :: "storage \<Rightarrow> bytes \<Rightarrow> nvs_group option" where
  "wm_nvs_storage_find_group_by_name st group_name =
     find (\<lambda>g. strcmp_eq (g_name g) group_name) (st_groups st)"

definition wm_nvs_storage_find_group_by_id :: "storage \<Rightarrow> nat \<Rightarrow> nvs_group option" where
  "wm_nvs_storage_find_group_by_id st group_id = find (\<lambda>g. g_id g = group_id) (st_groups st)"

section \<open>Comparing a stored item with new data\<close>

definition storage_cmp_find_item ::
  "env \<Rightarrow> flash_dev \<Rightarrow> storage \<Rightarrow> nat option \<Rightarrow> nat \<Rightarrow> item \<Rightarrow> bytes \<Rightarrow> nat \<Rightarrow> int" where
  "storage_cmp_find_item env dev st find_sector item_index it data len =
     (case find_sector of
        None \<Rightarrow> WM_NVS_ERR_FAIL
      | Some f \<Rightarrow>
          if len \<noteq> it_length it then WM_NVS_ERR_FAIL
          else if len \<le> 8 then
            if take len data = take len (it_data it) then WM_NVS_ERR_OK else WM_NVS_ERR_FAIL
          else if \<not> alloc_ok env len then WM_NVS_ERR_FAIL
          else case wm_nvs_pt_read env (sm_pt (st_sm st)) dev
                      (s_address (sm_sec (st_sm st) f) + (item_index + 2) * NVS_SLICE_SIZE)
                      (replicate len 0) len of
                 (err, p) \<Rightarrow>
                   if err = WM_NVS_ERR_OK then
                     if take len data = p then WM_NVS_ERR_OK else WM_NVS_ERR_FAIL
                   else err)"

section \<open>The blob check of the mount\<close>

record blob_info =
  bi_name :: bytes
  bi_group_id :: nat
  bi_seg_count :: nat
  bi_count_seg_cnt :: nat
  bi_seg_start :: nat
  bi_desc_data_size :: nat
  bi_count_data_size :: nat

definition blob_info_of_item :: "item \<Rightarrow> blob_info" where
  "blob_info_of_item it =
     \<lparr>bi_name = it_name it @ [0], bi_group_id = it_group_id it, bi_seg_count = it_seg_count it,
      bi_count_seg_cnt = 0, bi_seg_start = it_seg_start it, bi_desc_data_size = it_all_size it,
      bi_count_data_size = 0\<rparr>"

text \<open>The descriptors; \<open>WM_NVS_ERR_NO_MEM\<close> ends the collection.\<close>

definition storage_blob_init_info ::
  "env \<Rightarrow> flash_dev \<Rightarrow> sm \<Rightarrow> int \<times> sm \<times> blob_info list" where
  "storage_blob_init_info env dev m =
     (case sm_scan env
             (\<lambda>dev m info i idx it.
                if \<not> alloc_ok env BLOB_INFO_T_SIZE then (Some WM_NVS_ERR_NO_MEM, dev, m, info)
                else (None, dev, m, info @ [blob_info_of_item it]))
             NVS_GROUP_ID_ANY TYPE_BLOB dev m [] of
        (err, _, m, info, _) \<Rightarrow>
          (case err of Some e \<Rightarrow> e | None \<Rightarrow> WM_NVS_ERR_OK, m, info))"

definition storage_blob_deinit_info :: "blob_info list \<Rightarrow> int \<times> blob_info list" where
  "storage_blob_deinit_info info = (WM_NVS_ERR_OK, [])"

text \<open>The segment ids a descriptor owns: its own half of the id space.\<close>

definition seg_of_blob :: "item \<Rightarrow> blob_info \<Rightarrow> bool" where
  "seg_of_blob it desc \<longleftrightarrow>
     it_group_id it = bi_group_id desc \<and> bi_seg_start desc \<le> it_seg_id it \<and>
     it_seg_id it < (if bi_seg_start desc = SEG_START_VER_1 then SEG_START_ANY else SEG_START_VER_1)"

fun count_segment :: "item \<Rightarrow> blob_info list \<Rightarrow> blob_info list" where
  "count_segment it [] = []"
| "count_segment it (desc # info) =
     (if strncmp_eq (it_name it) (bi_name desc) NVS_MAX_KEY_LEN \<and> seg_of_blob it desc
      then desc\<lparr>bi_count_seg_cnt := u8n (bi_count_seg_cnt desc + 1),
                bi_count_data_size := u32 (bi_count_data_size desc + it_length it)\<rparr> # info
      else desc # count_segment it info)"

text \<open>Erase the descriptors whose segments do not add up; what is left of the list. The item
  index is not reset before the search, as in the source.\<close>

fun erase_mismatched ::
  "env \<Rightarrow> flash_dev \<Rightarrow> sm \<Rightarrow> nat \<Rightarrow> blob_info list \<Rightarrow> flash_dev \<times> sm \<times> blob_info list" where
  "erase_mismatched env dev m item_index [] = (dev, m, [])"
| "erase_mismatched env dev m item_index (desc # info) =
     (if bi_count_seg_cnt desc \<noteq> bi_seg_count desc \<or>
         bi_count_data_size desc \<noteq> bi_desc_data_size desc then
        case wm_nvs_sm_find_item env dev m (bi_group_id desc) TYPE_BLOB (Some (bi_name desc))
               item_index blank_item NVS_SEG_ID_ANY SEG_START_ANY of
          (err, m, item_index, sec, it) \<Rightarrow>
            (case (if err = WM_NVS_ERR_OK then sec else None) of
               Some s \<Rightarrow>
                 (case wm_nvs_sector_erase_item env (sm_pt m) dev (sm_sec m s) item_index it True of
                    (_, dev, sector) \<Rightarrow> erase_mismatched env dev (sm_upd m s sector) item_index info)
             | None \<Rightarrow> erase_mismatched env dev m item_index info)
      else case erase_mismatched env dev m item_index info of
             (dev, m, rest) \<Rightarrow> (dev, m, desc # rest))"

definition storage_blob_check_match ::
  "env \<Rightarrow> flash_dev \<Rightarrow> sm \<Rightarrow> blob_info list \<Rightarrow> int \<times> flash_dev \<times> sm \<times> blob_info list" where
  "storage_blob_check_match env dev m info =
     (if info = [] then (WM_NVS_ERR_OK, dev, m, info)
      else case sm_scan env (\<lambda>dev m info i idx it. (None, dev, m, count_segment it info))
                  NVS_GROUP_ID_ANY TYPE_BLOB_SEG dev m info of
             (_, dev, m, info, item_index) \<Rightarrow>
               case erase_mismatched env dev m item_index info of
                 (dev, m, info) \<Rightarrow> (WM_NVS_ERR_OK, dev, m, info))"

definition storage_blob_check_drop ::
  "env \<Rightarrow> flash_dev \<Rightarrow> sm \<Rightarrow> blob_info list \<Rightarrow> int \<times> flash_dev \<times> sm" where
  "storage_blob_check_drop env dev m info =
     (case sm_scan env
             (\<lambda>dev m a i idx it.
                if list_ex (\<lambda>desc. strncmp_eq (it_name it) (bi_name desc)
                                     (strnlen (bi_name desc) NVS_MAX_KEY_LEN) \<and>
                                   seg_of_blob it desc) info
                then (None, dev, m, a)
                else case wm_nvs_sector_erase_item env (sm_pt m) dev (sm_sec m i) idx it True of
                       (_, dev, sec) \<Rightarrow> (None, dev, sm_upd m i sec, a))
             NVS_GROUP_ID_ANY TYPE_BLOB_SEG dev m () of
        (_, dev, m, _, _) \<Rightarrow> (WM_NVS_ERR_OK, dev, m))"

definition storage_blob_check :: "env \<Rightarrow> flash_dev \<Rightarrow> storage \<Rightarrow> int \<times> flash_dev \<times> storage" where
  "storage_blob_check env dev st =
     (case storage_blob_init_info env dev (st_sm st) of
        (err, m, info) \<Rightarrow>
          if err \<noteq> WM_NVS_ERR_OK then (err, dev, st\<lparr>st_sm := m\<rparr>)
          else case storage_blob_check_match env dev m info of
                 (err, dev, m, info) \<Rightarrow>
                   if err \<noteq> WM_NVS_ERR_OK then (err, dev, st\<lparr>st_sm := m\<rparr>)
                   else case storage_blob_check_drop env dev m info of
                          (err, dev, m) \<Rightarrow> (err, dev, st\<lparr>st_sm := m\<rparr>))"

section \<open>Mounting\<close>

definition zero_sm :: "pt \<Rightarrow> sm" where
  "zero_sm p = \<lparr>sm_active = [], sm_idle = [], sm_pt = p, sm_secs = [], sm_serial = 0\<rparr>"

text \<open>The storage is handed out only on success.\<close>

definition wm_nvs_storage_init ::
  "env \<Rightarrow> flash_dev \<Rightarrow> pt \<Rightarrow> (int \<times> flash_dev \<times> storage option) option" where
  "wm_nvs_storage_init env dev p =
     (if \<not> alloc_ok env STORAGE_T_SIZE then Some (WM_NVS_ERR_NO_MEM, dev, None)
      else case wm_nvs_sm_load env dev (zero_sm p) p of
             None \<Rightarrow> None
           | Some (err, dev, m) \<Rightarrow>
               if err \<noteq> WM_NVS_ERR_OK then Some (err, dev, None)
               else case storage_load_groups env dev \<lparr>st_sm = m, st_groups = []\<rparr> of
                      (err, st) \<Rightarrow>
                        if err \<noteq> WM_NVS_ERR_OK then Some (err, dev, None)
                        else case storage_blob_check env dev st of
                               (err, dev, st) \<Rightarrow>
                                 if err \<noteq> WM_NVS_ERR_OK then Some (err, dev, None)
                                 else Some (WM_NVS_ERR_OK, dev, Some st))"

definition wm_nvs_storage_deinit :: "storage \<Rightarrow> int \<times> storage" where
  "wm_nvs_storage_deinit st =
     (WM_NVS_ERR_OK, st\<lparr>st_groups := [], st_sm := snd (wm_nvs_sm_unload (st_sm st))\<rparr>)"

section \<open>Blob segments\<close>

text \<open>Segment \<open>i\<close> of the blob whose descriptor is \<open>it\<close>.\<close>

definition find_segment ::
  "env \<Rightarrow> flash_dev \<Rightarrow> sm \<Rightarrow> item \<Rightarrow> nat \<Rightarrow> int \<times> sm \<times> nat \<times> nat option \<times> item" where
  "find_segment env dev m it i =
     wm_nvs_sm_find_item env dev m (it_group_id it) TYPE_BLOB_SEG (Some (it_name it)) 0 blank_item
       (u8n (it_seg_start it + i)) (it_seg_start it)"

text \<open>The comparing loop from segment \<open>i\<close>: the manager, the segments and the bytes compared.\<close>

function cmp_blob_loop ::
  "env \<Rightarrow> flash_dev \<Rightarrow> sm \<Rightarrow> item \<Rightarrow> bytes \<Rightarrow> nat \<Rightarrow> nat \<Rightarrow> nat \<Rightarrow> sm \<times> nat \<times> nat" where
  "cmp_blob_loop env dev m it data len i offset =
     (if i < it_seg_count it then
        case find_segment env dev m it i of
          (err, m, seg_index, seg_sec, seg) \<Rightarrow>
            case (if err = WM_NVS_ERR_OK then seg_sec else None) of
              None \<Rightarrow> (m, i, offset)
            | Some s \<Rightarrow>
                if it_length seg + offset > len then (m, i, offset)
                else case wm_nvs_sector_read_item_data env (sm_pt m) dev (sm_sec m s) seg_index seg
                            (replicate (it_length seg) 0) (it_length seg) of
                       (err, pdata) \<Rightarrow>
                         if err \<noteq> WM_NVS_ERR_OK then (m, i, offset)
                         else if pdata \<noteq> take (it_length seg) (drop offset data) then (m, i, offset)
                         else cmp_blob_loop env dev m it data len (i + 1) (offset + it_length seg)
      else (m, i, offset))"
  by pat_completeness auto
termination
  by (relation "measure (\<lambda>(env, dev, m, it, data, len, i, offset). it_seg_count it - i)") auto

definition storage_cmp_blob ::
  "env \<Rightarrow> flash_dev \<Rightarrow> storage \<Rightarrow> item \<Rightarrow> bytes \<Rightarrow> nat \<Rightarrow> int \<times> storage" where
  "storage_cmp_blob env dev st it data len =
     (if it_all_size it \<noteq> len then (WM_NVS_ERR_FAIL, st)
      else if \<not> alloc_ok env NVS_SINGLE_ITEM_MAX_DATA then (WM_NVS_ERR_NO_MEM, st)
      else case cmp_blob_loop env dev (st_sm st) it data len 0 0 of
             (m, i, offset) \<Rightarrow>
               (if i = it_seg_count it \<and> offset = len then WM_NVS_ERR_OK else WM_NVS_ERR_FAIL,
                st\<lparr>st_sm := m\<rparr>))"

text \<open>The reading loop: the code with which it leaves early, and what it has read.\<close>

function read_blob_loop ::
  "env \<Rightarrow> flash_dev \<Rightarrow> sm \<Rightarrow> item \<Rightarrow> bytes \<Rightarrow> nat \<Rightarrow> nat \<Rightarrow> nat \<Rightarrow> int option \<times> sm \<times> bytes \<times> nat" where
  "read_blob_loop env dev m it data len i offset =
     (if i < it_seg_count it then
        case find_segment env dev m it i of
          (err, m, seg_index, seg_sec, seg) \<Rightarrow>
            case (if err = WM_NVS_ERR_OK then seg_sec else None) of
              None \<Rightarrow> (Some err, m, data, offset)
            | Some s \<Rightarrow>
                if it_length seg + offset > len
                then (Some WM_NVS_ERR_INVALID_LENGTH, m, data, offset)
                else case wm_nvs_sector_read_item_data env (sm_pt m) dev (sm_sec m s) seg_index seg
                            (take (it_length seg) (drop offset data)) (it_length seg) of
                       (err, part) \<Rightarrow>
                         if err \<noteq> WM_NVS_ERR_OK then (Some err, m, data, offset)
                         else read_blob_loop env dev m it (overlay data offset part) len (i + 1)
                                (offset + it_length seg)
      else (None, m, data, offset))"
  by pat_completeness auto
termination
  by (relation "measure (\<lambda>(env, dev, m, it, data, len, i, offset). it_seg_count it - i)") auto

definition storage_read_blob ::
  "env \<Rightarrow> flash_dev \<Rightarrow> storage \<Rightarrow> item \<Rightarrow> bytes \<Rightarrow> nat \<Rightarrow> int \<times> storage \<times> bytes" where
  "storage_read_blob env dev st it data len =
     (case read_blob_loop env dev (st_sm st) it data len 0 0 of
        (ret, m, data, offset) \<Rightarrow>
          (case ret of
             Some err \<Rightarrow> err
           | None \<Rightarrow> if offset = len then WM_NVS_ERR_OK
                     else if offset > 0 then WM_NVS_ERR_INVALID_LENGTH else WM_NVS_ERR_NOT_FOUND,
           st\<lparr>st_sm := m\<rparr>, data))"

definition erase_at ::
  "env \<Rightarrow> flash_dev \<Rightarrow> sm \<Rightarrow> nat \<Rightarrow> nat \<Rightarrow> item \<Rightarrow> int \<times> flash_dev \<times> sm" where
  "erase_at env dev m s index it =
     (case wm_nvs_sector_erase_item env (sm_pt m) dev (sm_sec m s) index it True of
        (err, dev, sec) \<Rightarrow> (err, dev, sm_upd m s sec))"

function erase_blob_loop ::
  "env \<Rightarrow> flash_dev \<Rightarrow> sm \<Rightarrow> item \<Rightarrow> nat \<Rightarrow> int \<Rightarrow> int \<times> flash_dev \<times> sm" where
  "erase_blob_loop env dev m it i err =
     (if i < it_seg_count it then
        case find_segment env dev m it i of
          (err, m, seg_index, seg_sec, seg) \<Rightarrow>
            case (if err = WM_NVS_ERR_OK then seg_sec else None) of
              None \<Rightarrow> (err, dev, m)
            | Some s \<Rightarrow>
                (case erase_at env dev m s seg_index seg of
                   (_, dev, m) \<Rightarrow> erase_blob_loop env dev m it (i + 1) err)
      else (err, dev, m))"
  by pat_completeness auto
termination
  by (relation "measure (\<lambda>(env, dev, m, it, i, err). it_seg_count it - i)") auto

declare cmp_blob_loop.simps [simp del] read_blob_loop.simps [simp del] erase_blob_loop.simps [simp del]

definition storage_erase_blob ::
  "env \<Rightarrow> flash_dev \<Rightarrow> sm \<Rightarrow> nat \<Rightarrow> nat \<Rightarrow> item \<Rightarrow> int \<times> flash_dev \<times> sm" where
  "storage_erase_blob env dev m find_sector found_index it =
     (case erase_at env dev m find_sector found_index it of
        (err, dev, m) \<Rightarrow> erase_blob_loop env dev m it 0 err)"

end
