(* ===== verification/NvsStorageOps.thy ===== *)
theory NvsStorageOps
  imports NvsStorage
begin

text \<open>
  The read, write and delete operations of \<open>wm_nvs_storage.c\<close> over the parts of
  \<open>NvsStorage\<close>. A write looks up the old entry first, writes the new one to the current
  (last active) sector, asking for another sector when it is full, and only then drops the
  old entry at the place where it was found.
\<close>

abbreviation (input) BLOB_MIN_SEG_SIZE :: nat where "BLOB_MIN_SEG_SIZE \<equiv> 512"

definition storage_get_non_blob_write_req_size :: "nat \<Rightarrow> nat \<Rightarrow> int" where
  "storage_get_non_blob_write_req_size type len =
     (if type = TYPE_STRING \<or> type = TYPE_BINARY
      then if len \<le> 8 then int NVS_SLICE_SIZE else int (NVS_SLICE_SIZE + len)
      else int NVS_SLICE_SIZE)"

section \<open>Writing a blob\<close>

definition blob_desc_data :: "nat \<Rightarrow> nat \<Rightarrow> nat \<Rightarrow> bytes" where
  "blob_desc_data len seg_count seg_start =
     le_bytes 4 len @ [of_nat seg_count, of_nat seg_start, 0xFF, 0xFF]"

text \<open>An entry written to sector \<open>s\<close> of the manager.\<close>

definition write_at ::
  "env \<Rightarrow> flash_dev \<Rightarrow> sm \<Rightarrow> nat \<Rightarrow> nat \<Rightarrow> nat \<Rightarrow> bytes \<Rightarrow> bytes \<Rightarrow> nat \<Rightarrow> nat \<Rightarrow> int \<times> flash_dev \<times> sm"
where
  "write_at env dev m s group_id type key data len seg_id =
     (case wm_nvs_sector_write_item env (sm_pt m) dev (sm_sec m s) group_id type key (Some data) len
             seg_id of
        (err, dev, sec) \<Rightarrow> (err, dev, sm_upd m s sec))"

definition storage_write_blob_desc ::
  "env \<Rightarrow> flash_dev \<Rightarrow> sm \<Rightarrow> nat \<Rightarrow> nat \<Rightarrow> bytes \<Rightarrow> nat \<Rightarrow> nat \<Rightarrow> nat \<Rightarrow> int \<times> flash_dev \<times> sm" where
  "storage_write_blob_desc env dev m s group_id key len seg_count seg_start =
     write_at env dev m s group_id TYPE_BLOB key (blob_desc_data len (u8n seg_count) seg_start) 8
       NVS_SEG_ID_ANY"

text \<open>The position of the segment loop: bytes left, offset in the data, next segment id.\<close>

record blob_pos =
  bp_left :: int
  bp_offset :: nat
  bp_seg_id :: nat

text \<open>One turn of the loop on the current sector: it returns, or goes on to the next sector.\<close>

datatype blob_step =
    BlobReturn int flash_dev sm
  | BlobNext flash_dev sm blob_pos

definition write_blob_turn ::
  "env \<Rightarrow> flash_dev \<Rightarrow> sm \<Rightarrow> nat \<Rightarrow> nat \<Rightarrow> bytes \<Rightarrow> bytes \<Rightarrow> nat \<Rightarrow> nat \<Rightarrow> blob_pos \<Rightarrow> blob_step" where
  "write_blob_turn env dev m s group_id key data len seg_start pos =
     (let left_size = bp_left pos;
          seg_id = bp_seg_id pos;
          free_size = wm_nvs_sm_get_free_size (sm_sec m s);
          desc = (\<lambda>dev m seg_id.
            case storage_write_blob_desc env dev m s group_id key len
                   (nat (int seg_id - int seg_start)) seg_start of
              (err, dev, m) \<Rightarrow> BlobReturn err dev m)
      in if int seg_id - int seg_start \<ge> int NVS_SEG_NUM_MAX \<and> left_size > 0
         then BlobReturn WM_NVS_ERR_NO_SPACE dev m
         else if left_size > 0 then
           if left_size + int NVS_SLICE_SIZE \<le> free_size then
             case write_at env dev m s group_id TYPE_BLOB_SEG key (drop (bp_offset pos) data)
                    (nat left_size) seg_id of
               (err, dev, m) \<Rightarrow>
                 if err \<noteq> WM_NVS_ERR_OK then BlobReturn err dev m
                 else if s_next_free (sm_sec m s) + 1 \<le> NVS_ENTRY_COUNT
                 then desc dev m (u8n (seg_id + 1))
                 else BlobNext dev m (pos\<lparr>bp_left := 0, bp_seg_id := u8n (seg_id + 1)\<rparr>)
           else if free_size \<ge> int BLOB_MIN_SEG_SIZE + int NVS_SLICE_SIZE then
             let cur_seg_size = free_size - int NVS_SLICE_SIZE
             in case write_at env dev m s group_id TYPE_BLOB_SEG key (drop (bp_offset pos) data)
                       (nat cur_seg_size) seg_id of
                  (err, dev, m) \<Rightarrow>
                    if err \<noteq> WM_NVS_ERR_OK then BlobReturn err dev m
                    else BlobNext dev m
                           \<lparr>bp_left = left_size - cur_seg_size,
                            bp_offset = bp_offset pos + nat cur_seg_size,
                            bp_seg_id = u8n (seg_id + 1)\<rparr>
           else BlobNext dev m pos
         else if free_size \<ge> int NVS_SLICE_SIZE then desc dev m seg_id
         else BlobNext dev m pos)"

text \<open>The loop: \<open>None\<close> also when it never ends.\<close>

partial_function (option) write_blob_loop ::
  "env \<Rightarrow> flash_dev \<Rightarrow> sm \<Rightarrow> nat \<Rightarrow> nat \<Rightarrow> nat \<Rightarrow> bytes \<Rightarrow> bytes \<Rightarrow> nat \<Rightarrow> nat \<Rightarrow> blob_pos \<Rightarrow> sm_result"
where
  "write_blob_loop env dev m s start_sec group_id key data len seg_start pos =
     (case write_blob_turn env dev m s group_id key data len seg_start pos of
        BlobReturn err dev m \<Rightarrow> Some (err, dev, m)
      | BlobNext dev m pos \<Rightarrow>
          (case wm_nvs_sm_request_sector env dev m (int NVS_SLICE_SIZE) of
             None \<Rightarrow> None
           | Some (err, dev, m) \<Rightarrow>
               if err \<noteq> WM_NVS_ERR_OK then Some (WM_NVS_ERR_NO_SPACE, dev, m)
               else (case wm_nvs_sm_get_current_sector m of
                       None \<Rightarrow> Some (WM_NVS_ERR_FAIL, dev, m)
                     | Some s \<Rightarrow>
                         if s = start_sec then Some (WM_NVS_ERR_NO_SPACE, dev, m)
                         else write_blob_loop env dev m s start_sec group_id key data len seg_start
                                pos)))"

definition storage_write_blob ::
  "env \<Rightarrow> flash_dev \<Rightarrow> sm \<Rightarrow> nat \<Rightarrow> bytes \<Rightarrow> bytes \<Rightarrow> nat \<Rightarrow> nat \<Rightarrow> sm_result" where
  "storage_write_blob env dev m group_id key data len seg_start =
     (case wm_nvs_sm_get_current_sector m of
        None \<Rightarrow> Some (WM_NVS_ERR_FAIL, dev, m)
      | Some s \<Rightarrow>
          let left_size = int len; sec = sm_sec m s;
              pos = \<lparr>bp_left = left_size, bp_offset = 0, bp_seg_id = seg_start\<rparr>
          in if (s_droped sec > 0 \<and> left_size + int NVS_SLICE_SIZE > wm_nvs_sm_get_free_size sec) \<or>
                left_size > int ((NVS_SEG_NUM_MAX - 1) * NVS_SINGLE_ITEM_MAX_DATA)
             then case wm_nvs_sm_request_sector env dev m (int NVS_SLICE_SIZE) of
                    None \<Rightarrow> None
                  | Some (_, dev, m) \<Rightarrow>
                      (case wm_nvs_sm_get_current_sector m of
                         None \<Rightarrow> None
                       | Some s \<Rightarrow> write_blob_loop env dev m s s group_id key data len seg_start pos)
             else write_blob_loop env dev m s s group_id key data len seg_start pos)"

section \<open>Writing an item\<close>

text \<open>The lookup both branches start from: any item of the key that is not a segment.\<close>

definition find_any ::
  "env \<Rightarrow> flash_dev \<Rightarrow> sm \<Rightarrow> nat \<Rightarrow> nat \<Rightarrow> bytes \<Rightarrow> int \<times> sm \<times> nat \<times> nat option \<times> item" where
  "find_any env dev m group_id type key =
     wm_nvs_sm_find_item env dev m group_id type (Some key) 0 blank_item NVS_SEG_ID_ANY SEG_START_ANY"

text \<open>The branches return whether the whole write is over (the same value is stored, or an
  error), with the code, the device and the storage.\<close>

definition write_blob_branch ::
  "env \<Rightarrow> flash_dev \<Rightarrow> storage \<Rightarrow> nat option \<Rightarrow> item \<Rightarrow> nat \<Rightarrow> bytes \<Rightarrow> bytes \<Rightarrow> nat \<Rightarrow>
   (bool \<times> int \<times> flash_dev \<times> storage) option" where
  "write_blob_branch env dev st find_sector it group_id key data len =
     (let old = (find_sector \<noteq> None \<and> it_type it = TYPE_BLOB)
      in case (if old then storage_cmp_blob env dev st it data len else (WM_NVS_ERR_FAIL, st)) of
           (err, st) \<Rightarrow>
             if err = WM_NVS_ERR_OK then Some (True, err, dev, st)
             else
               let seg_start = (if old \<and> it_seg_start it = SEG_START_VER_0 then SEG_START_VER_1
                                else SEG_START_VER_0);
                   err = wm_nvs_sm_check_write_blob_size (st_sm st) len
               in if err \<noteq> WM_NVS_ERR_OK then Some (True, err, dev, st)
                  else case storage_write_blob env dev (st_sm st) group_id key data len seg_start of
                         None \<Rightarrow> None
                       | Some (err, dev, m) \<Rightarrow> Some (err \<noteq> WM_NVS_ERR_OK, err, dev, st\<lparr>st_sm := m\<rparr>))"

definition write_plain_branch ::
  "env \<Rightarrow> flash_dev \<Rightarrow> storage \<Rightarrow> nat option \<Rightarrow> nat \<Rightarrow> item \<Rightarrow> nat \<Rightarrow> nat \<Rightarrow> bytes \<Rightarrow> bytes \<Rightarrow> nat \<Rightarrow>
   (bool \<times> int \<times> flash_dev \<times> storage) option" where
  "write_plain_branch env dev st find_sector found_index it group_id type key data len =
     (if find_sector \<noteq> None \<and> type = it_type it \<and>
         storage_cmp_find_item env dev st find_sector found_index it data len = WM_NVS_ERR_OK
      then Some (True, WM_NVS_ERR_OK, dev, st)
      else case wm_nvs_sm_get_current_sector (st_sm st) of
             None \<Rightarrow> Some (True, WM_NVS_ERR_OK, dev, st)
           | Some s \<Rightarrow>
               case write_at env dev (st_sm st) s group_id type key data len NVS_SEG_ID_ANY of
                 (err, dev, m) \<Rightarrow>
                   if err = WM_NVS_ERR_SECTOR_FULL then
                     (case wm_nvs_sm_request_sector env dev m
                             (storage_get_non_blob_write_req_size type len) of
                        None \<Rightarrow> None
                      | Some (err, dev, m) \<Rightarrow>
                          if err \<noteq> WM_NVS_ERR_OK then Some (True, err, dev, st\<lparr>st_sm := m\<rparr>)
                          else case wm_nvs_sm_get_current_sector m of
                                 None \<Rightarrow> Some (True, WM_NVS_ERR_OK, dev, st\<lparr>st_sm := m\<rparr>)
                               | Some s \<Rightarrow>
                                   case write_at env dev m s group_id type key data len
                                          NVS_SEG_ID_ANY of
                                     (err, dev, m) \<Rightarrow>
                                       Some (err \<noteq> WM_NVS_ERR_OK, err, dev, st\<lparr>st_sm := m\<rparr>))
                   else Some (err \<noteq> WM_NVS_ERR_OK, err, dev, st\<lparr>st_sm := m\<rparr>))"

text \<open>Drop the old entry where the lookup found it.\<close>

definition erase_old ::
  "env \<Rightarrow> flash_dev \<Rightarrow> storage \<Rightarrow> nat option \<Rightarrow> nat \<Rightarrow> item \<Rightarrow> int \<Rightarrow> int \<times> flash_dev \<times> storage" where
  "erase_old env dev st find_sector found_index it err =
     (case find_sector of
        None \<Rightarrow> (err, dev, st)
      | Some f \<Rightarrow>
          case (if it_type it = TYPE_BLOB then storage_erase_blob env dev (st_sm st) f found_index it
                else erase_at env dev (st_sm st) f found_index it) of
            (err, dev, m) \<Rightarrow> (err, dev, st\<lparr>st_sm := m\<rparr>))"

definition wm_nvs_storage_write_item ::
  "env \<Rightarrow> flash_dev \<Rightarrow> storage \<Rightarrow> nat \<Rightarrow> nat \<Rightarrow> bytes \<Rightarrow> bytes \<Rightarrow> nat \<Rightarrow> st_result" where
  "wm_nvs_storage_write_item env dev st group_id type key data len =
     (case find_any env dev (st_sm st) group_id TYPE_ANY_WITHOUT_SEG key of
        (err, m, found_index, find_sector, it) \<Rightarrow>
          let st = st\<lparr>st_sm := m\<rparr>
          in if \<not> (err = WM_NVS_ERR_OK \<or> err = WM_NVS_ERR_NOT_FOUND) then Some (err, dev, st)
             else case (if type = TYPE_BLOB
                        then write_blob_branch env dev st find_sector it group_id key data len
                        else write_plain_branch env dev st find_sector found_index it group_id type
                               key data len) of
                    None \<Rightarrow> None
                  | Some (over, err, dev, st) \<Rightarrow>
                      if over then Some (err, dev, st)
                      else Some (erase_old env dev st find_sector found_index it err))"

section \<open>Reading, deleting, finding\<close>

text \<open>The buffer is its content before the call, \<open>len\<close> the caller's \<open>*size\<close>; both are returned
  as the call leaves them.\<close>

definition wm_nvs_storage_read_item ::
  "env \<Rightarrow> flash_dev \<Rightarrow> storage \<Rightarrow> nat \<Rightarrow> nat \<Rightarrow> bytes \<Rightarrow> bytes \<Rightarrow> nat \<Rightarrow>
   int \<times> flash_dev \<times> storage \<times> bytes \<times> nat" where
  "wm_nvs_storage_read_item env dev st group_id type key data len =
     (case find_any env dev (st_sm st) group_id type key of
        (err, m, found_index, find_sector, it) \<Rightarrow>
          let st = st\<lparr>st_sm := m\<rparr>
          in case (if err = WM_NVS_ERR_OK then find_sector else None) of
               None \<Rightarrow> (err, dev, st, data, len)
             | Some f \<Rightarrow>
                 let data_size = (if type = TYPE_BLOB then it_all_size it else it_length it)
                 in if len < data_size then (WM_NVS_ERR_VALUE_TOO_LONG, dev, st, data, data_size)
                    else if type = TYPE_BLOB then
                      (case storage_read_blob env dev st it data data_size of
                         (err, st, data) \<Rightarrow>
                           if err = WM_NVS_ERR_NOT_FOUND \<or> err = WM_NVS_ERR_INVALID_LENGTH
                           then (case erase_at env dev (st_sm st) f found_index it of
                                   (_, dev, m) \<Rightarrow> (err, dev, st\<lparr>st_sm := m\<rparr>, data, data_size))
                           else (err, dev, st, data, data_size))
                    else
                      (case wm_nvs_sector_read_item_data env (sm_pt (st_sm st)) dev
                              (sm_sec (st_sm st) f) found_index it (take data_size data) data_size of
                         (err, part) \<Rightarrow> (err, dev, st, overlay data 0 part, data_size)))"

definition wm_nvs_storage_del_item ::
  "env \<Rightarrow> flash_dev \<Rightarrow> storage \<Rightarrow> nat \<Rightarrow> nat \<Rightarrow> bytes \<Rightarrow> int \<times> flash_dev \<times> storage" where
  "wm_nvs_storage_del_item env dev st group_id type key =
     (case find_any env dev (st_sm st) group_id type key of
        (err, m, found_index, find_sector, it) \<Rightarrow>
          let st = st\<lparr>st_sm := m\<rparr>
          in case (if err = WM_NVS_ERR_OK then find_sector else None) of
               None \<Rightarrow> (err, dev, st)
             | Some f \<Rightarrow> erase_old env dev st (Some f) found_index it err)"

fun del_group_list ::
  "env \<Rightarrow> flash_dev \<Rightarrow> sm \<Rightarrow> nat \<Rightarrow> nat list \<Rightarrow> int \<times> flash_dev \<times> sm" where
  "del_group_list env dev m group_id [] = (WM_NVS_ERR_OK, dev, m)"
| "del_group_list env dev m group_id (i # is) =
     (case sector_scan env
             (\<lambda>dev m a i idx it.
                case (if it_type it = TYPE_BLOB then storage_erase_blob env dev m i idx it
                      else erase_at env dev m i idx it) of
                  (_, dev, m) \<Rightarrow> (None, dev, m, a))
             group_id TYPE_ANY_WITHOUT_SEG dev m () i 0 blank_item of
        (_, dev, m, _, _, err) \<Rightarrow>
          if err = WM_NVS_ERR_NOT_FOUND then del_group_list env dev m group_id is
          else (err, dev, m))"

definition wm_nvs_storage_del_group ::
  "env \<Rightarrow> flash_dev \<Rightarrow> storage \<Rightarrow> nat \<Rightarrow> int \<times> flash_dev \<times> storage" where
  "wm_nvs_storage_del_group env dev st group_id =
     (case del_group_list env dev (st_sm st) group_id (sm_active (st_sm st)) of
        (err, dev, m) \<Rightarrow> (err, dev, st\<lparr>st_sm := m\<rparr>))"

definition wm_nvs_storage_find_key ::
  "env \<Rightarrow> flash_dev \<Rightarrow> storage \<Rightarrow> nat \<Rightarrow> bytes \<Rightarrow> int \<times> storage \<times> item" where
  "wm_nvs_storage_find_key env dev st group_id key =
     (case find_any env dev (st_sm st) group_id TYPE_ANY_WITHOUT_SEG key of
        (err, m, _, _, it) \<Rightarrow> (err, st\<lparr>st_sm := m\<rparr>, it))"

section \<open>Opening and erasing groups\<close>

text \<open>The flag \<open>create_new\<close> is not used by the source either. The id is returned as well.\<close>

definition wm_nvs_storage_open_group ::
  "env \<Rightarrow> flash_dev \<Rightarrow> storage \<Rightarrow> bytes \<Rightarrow> bool \<Rightarrow> (int \<times> flash_dev \<times> storage \<times> nat) option" where
  "wm_nvs_storage_open_group env dev st grp create_new =
     (case storage_find_group st grp of
        (err, group_id) \<Rightarrow>
          if err = WM_NVS_ERR_OK then Some (WM_NVS_ERR_OK, dev, st, group_id)
          else if group_id = NVS_GROUP_ID_ANY then Some (WM_NVS_ERR_NO_SPACE, dev, st, group_id)
          else case wm_nvs_storage_write_item env dev st NVS_GROUP_ITSELF_ID TYPE_UINT8 grp
                      [of_nat group_id] 1 of
                 None \<Rightarrow> None
               | Some (err, dev, st) \<Rightarrow>
                   if err \<noteq> WM_NVS_ERR_OK then Some (err, dev, st, group_id)
                   else case storage_add_group env (st_groups st) group_id grp
                               (strnlen grp NVS_MAX_KEY_LEN) of
                          (err, gs) \<Rightarrow> Some (err, dev, st\<lparr>st_groups := gs\<rparr>, group_id))"

definition wm_nvs_storage_erase_group_id ::
  "env \<Rightarrow> flash_dev \<Rightarrow> storage \<Rightarrow> nat \<Rightarrow> int \<times> flash_dev \<times> storage" where
  "wm_nvs_storage_erase_group_id env dev st group_id =
     (case wm_nvs_storage_find_group_by_id st group_id of
        None \<Rightarrow> (WM_NVS_ERR_OK, dev, st)
      | Some g \<Rightarrow>
          case wm_nvs_storage_del_item env dev st NVS_GROUP_ITSELF_ID TYPE_UINT8 (g_name g) of
            (err, dev, st) \<Rightarrow>
              (err, dev,
               if err = WM_NVS_ERR_OK then st\<lparr>st_groups := remove1 g (st_groups st)\<rparr> else st))"

end
