(* ===== verification/NvsKv.thy ===== *)
theory NvsKv
  imports NvsSmGc NvsStorageOps
begin

text \<open>
  The store as an abstract list of records. The live entries of the active sectors, in order,
  are the abstract content; an entry answers for a key when its 24-bit hash, group, type and
  name do. Reading, deleting and writing of plain items are functions of that list: first
  match, removal of the first match, append.
\<close>

section \<open>The abstract store\<close>

definition kv_match :: "env \<Rightarrow> nat \<Rightarrow> nat \<Rightarrow> bytes \<Rightarrow> item \<times> bytes \<Rightarrow> bool" where
  "kv_match env g t k e \<longleftrightarrow>
     cand env g (Some k) NVS_SEG_ID_ANY (fst e) \<and>
     item_match g t (Some k) NVS_SEG_ID_ANY SEG_START_ANY (fst e)"

lemma find_concat_Some:
  "find P (concat (map f xs)) = Some y \<Longrightarrow>
   \<exists>as x bs A B. xs = as @ x # bs \<and> f x = A @ y # B \<and> P y \<and>
     (\<forall>a \<in> set as. \<forall>z \<in> set (f a). \<not> P z) \<and> (\<forall>z \<in> set A. \<not> P z)"
proof (induction xs)
  case (Cons a xs)
  show ?case
  proof (cases "find P (f a)")
    case None
    then have "find P (concat (map f xs)) = Some y" using Cons(2) by (simp add: find_append)
    then obtain as x bs A B where s: "xs = as @ x # bs" "f x = A @ y # B" "P y"
      "\<forall>a \<in> set as. \<forall>z \<in> set (f a). \<not> P z" "\<forall>z \<in> set A. \<not> P z" using Cons(1) by blast
    have "\<forall>z \<in> set (f a). \<not> P z" using None by (simp add: find_None_iff)
    then show ?thesis using s by (intro exI [of _ "a # as"]) auto
  next
    case (Some z)
    then have z: "find P (f a) = Some y" using Cons(2) by (simp add: find_append)
    then obtain n where n: "n < length (f a)" "P (f a ! n)" "y = f a ! n" "\<forall>k < n. \<not> P (f a ! k)"
      by (auto simp: find_Some_iff)
    have sp: "f a = take n (f a) @ y # drop (Suc n) (f a)" using n(1,3) by (simp add: id_take_nth_drop)
    have nt: "\<forall>z \<in> set (take n (f a)). \<not> P z" using n(1,4) by (auto simp: in_set_conv_nth)
    show ?thesis
      by (rule exI [of _ "[]"], rule exI [of _ a], rule exI [of _ xs],
          rule exI [of _ "take n (f a)"], rule exI [of _ "drop (Suc n) (f a)"]) (use sp nt n in auto)
  qed
qed simp

section \<open>Entries and content\<close>

definition entry_live :: "flash_dev \<Rightarrow> sm \<Rightarrow> nat \<times> nat \<times> item \<Rightarrow> item \<times> bytes" where
  "entry_live dev m e =
     (snd (snd e), entry_data (sm_pt m) dev (s_address (sm_sec m (fst e))) (snd e))"

lemma sm_live_entries:
  "sm_live dev m = map (entry_live dev m) (filter (\<lambda>e. is_using (snd e)) (sm_entries dev m))"
proof -
  have "concat (map (\<lambda>i. live (sm_pt m) dev (sm_sec m i)) is) =
      map (entry_live dev m) (filter (\<lambda>e. is_using (snd e))
        (concat (map (\<lambda>i. map (\<lambda>e. (i, e)) (sector_entries (sm_pt m) dev (sm_sec m i))) is)))" for "is"
    by (induction "is") (auto simp: entry_live_def live_def filter_map comp_def)
  then show ?thesis by (simp add: sm_live_def sm_entries_def)
qed

lemma wanted_match:
  "wanted env g t (Some k) NVS_SEG_ID_ANY SEG_START_ANY (snd e) \<longleftrightarrow>
   is_using (snd e) \<and> kv_match env g t k (entry_live dev m e)"
  by (simp add: wanted_def kv_match_def entry_live_def)

lemma find_live:
  "find (kv_match env g t k) (sm_live dev m) = map_option (entry_live dev m)
     (find (\<lambda>e. wanted env g t (Some k) NVS_SEG_ID_ANY SEG_START_ANY (snd e)) (sm_entries dev m))"
  by (simp add: sm_live_entries find_map_filter wanted_match [of env g t k _ dev m])

text \<open>The lookup both as positions and as content.\<close>

lemma find_any_spec:
  assumes "sm_ok env dev m"
  shows "case find (\<lambda>e. wanted env g t (Some k) NVS_SEG_ID_ANY SEG_START_ANY (snd e)) (sm_entries dev m) of
      Some (i, j, x) \<Rightarrow> find_any env dev m g t k = (WM_NVS_ERR_OK, m, j, Some i, x) \<and>
        find (kv_match env g t k) (sm_live dev m) = Some (entry_live dev m (i, j, x))
    | None \<Rightarrow> \<exists>it. find_any env dev m g t k = (WM_NVS_ERR_NOT_FOUND, m, 0, None, it) \<and>
        find (kv_match env g t k) (sm_live dev m) = None"
proof -
  have "item_wf blank_item" by (simp add: blank_item_def item_of_bytes_wf)
  note f = wm_nvs_sm_find_item_spec [OF assms this, of g t "Some k" NVS_SEG_ID_ANY SEG_START_ANY]
  show ?thesis
    using f unfolding find_any_def find_live by (auto split: option.splits)
qed

lemma sm_entry_sector:
  assumes "sm_ok env dev m" and "(i, j, x) \<in> set (sm_entries dev m)"
  shows "i \<in> set (sm_active m)" and "(j, x) \<in> set (sector_entries (sm_pt m) dev (sm_sec m i))"
    and "sector_ok env (sm_pt m) dev (sm_sec m i)" and "header_ok env (sm_pt m) dev (sm_sec m i)"
proof -
  show i: "i \<in> set (sm_active m)" and e: "(j, x) \<in> set (sector_entries (sm_pt m) dev (sm_sec m i))"
    using assms(2) by (auto simp: sm_entries_def)
  then have "sec_good env (sm_pt m) dev (sm_sec m i)" using assms(1) by (simp add: sm_ok_def)
  moreover have "\<not> sector_fresh env (sm_pt m) dev (sm_sec m i)" using e fresh_entries(1) by fastforce
  ultimately show "sector_ok env (sm_pt m) dev (sm_sec m i)" "header_ok env (sm_pt m) dev (sm_sec m i)"
    by (auto simp: sec_good_def)
qed

text \<open>No two entries have the same place.\<close>

lemma entries_distinct:
  assumes "sm_ok env dev m"
  shows "distinct (map (\<lambda>e. (fst e, fst (snd e))) (sm_entries dev m))"
proof -
  have "distinct (map (\<lambda>e. (fst e, fst (snd e)))
      (concat (map (\<lambda>i. map (\<lambda>e. (i, e)) (sector_entries (sm_pt m) dev (sm_sec m i))) xs)))" if "distinct xs" for xs
    using that
  proof (induction xs)
    case (Cons i xs)
    have "distinct (map (Pair i) (map fst (sector_entries (sm_pt m) dev (sm_sec m i))))"
      using chained_distinct [OF chained_sector, of "sm_pt m" dev "sm_sec m i"] by (auto simp: distinct_map inj_on_def)
    with Cons show ?case by (auto simp: comp_def)
  qed simp
  then show ?thesis using assms by (simp add: sm_entries_def sm_ok_def sm_shape_def)
qed

section \<open>Dropping what a lookup found\<close>

definition live_of :: "flash_dev \<Rightarrow> sm \<Rightarrow> nat list \<Rightarrow> (item \<times> bytes) list" where
  "live_of dev m is = concat (map (\<lambda>i. live (sm_pt m) dev (sm_sec m i)) is)"

lemma sm_live_of: "sm_live dev m = live_of dev m (sm_active m)"
  by (simp add: sm_live_def live_of_def)

lemma live_of_append: "live_of dev m (is @ js) = live_of dev m is @ live_of dev m js"
  by (simp add: live_of_def)

lemma live_of_cong:
  "(\<And>i. i \<in> set is \<Longrightarrow> live (sm_pt m') dev' (sm_sec m' i) = live (sm_pt m) dev (sm_sec m i)) \<Longrightarrow>
   live_of dev' m' is = live_of dev m is"
  by (simp add: live_of_def cong: map_cong)

lemma erase_found:
  assumes ok: "sm_ok env dev m"
    and f: "find (\<lambda>e. wanted env g t (Some k) NVS_SEG_ID_ANY SEG_START_ANY (snd e)) (sm_entries dev m) = Some (i, j, x)"
  shows "\<exists>dev' m'. erase_at env dev m i j x = (WM_NVS_ERR_OK, dev', m') \<and> sm_ok env dev' m' \<and>
    sm_live dev' m' = remove_first (kv_match env g t k) (sm_live dev m) \<and>
    sm_active m' = sm_active m \<and> sm_idle m' = sm_idle m \<and> sm_pt m' = sm_pt m \<and> sm_serial m' = sm_serial m \<and>
    kept env dev m dev' m' \<and>
    sm_entries dev' m' = map (\<lambda>e. if fst e = i then (i, drop_entry j (snd e)) else e) (sm_entries dev m)"
proof -
  let ?p = "sm_pt m" and ?s = "sm_sec m i"
  let ?W = "\<lambda>e. wanted env g t (Some k) NVS_SEG_ID_ANY SEG_START_ANY e"
  obtain as i' bs A B where sp: "sm_active m = as @ i' # bs"
    "map (\<lambda>e. (i', e)) (sector_entries ?p dev (sm_sec m i')) = A @ (i, j, x) # B" "?W (j, x)"
    "\<forall>a \<in> set as. \<forall>z \<in> set (map (\<lambda>e. (a, e)) (sector_entries ?p dev (sm_sec m a))). \<not> ?W (snd z)"
    "\<forall>z \<in> set A. \<not> ?W (snd z)"
    using find_concat_Some [of "\<lambda>e. ?W (snd e)", OF f [unfolded sm_entries_def]] by auto
  have "(i, j, x) \<in> set (map (\<lambda>e. (i', e)) (sector_entries ?p dev (sm_sec m i')))" using sp(2) by simp
  then have ii: "i' = i" and m: "(j, x) \<in> set (sector_entries ?p dev ?s)" by auto
  obtain P Q where es: "sector_entries ?p dev ?s = P @ (j, x) # Q" "A = map (\<lambda>e. (i, e)) P"
    using sp(2) unfolding ii by (auto simp: map_eq_append_conv)
  have ent: "(i, j, x) \<in> set (sm_entries dev m)" using m sp(1) ii by (auto simp: sm_entries_def)
  note se = sm_entry_sector [OF ok ent]
  have us: "it_state x = ITEM_USING" using sp(3) by (simp add: wanted_def)
  have sh: "sm_shape m" using ok by (simp add: sm_ok_def)
  note ai = sm_shape_active [OF sh disjI1 [OF se(1)]]
  obtain dev' s' where e: "wm_nvs_sector_erase_item env ?p dev ?s j x True = (WM_NVS_ERR_OK, dev', s')"
    "sector_ok env ?p dev' s'" "sector_entries ?p dev' s' = map (drop_entry j) (sector_entries ?p dev ?s)"
    "same_on ?p dev dev' 0 (s_address ?s + (j + 1) * 32)"
    "same_on ?p dev dev' (s_address ?s + (j + 1) * 32 + 1) (pt_size ?p)"
    "s' = ?s\<lparr>s_droped := s_droped ?s + wm_nvs_item_get_span x, s_hash := s_hash s'\<rparr>"
    using erase_item_spec [OF se(3) m us] by blast
  have a': "s_address s' = s_address ?s" using arg_cong [OF e(6), of s_address] by simp
  have st': "s_state s' = s_state ?s" "s_serial s' = s_serial ?s"
    using arg_cong [OF e(6), of s_state] arg_cong [OF e(6), of s_serial] by simp_all
  have j: "j < NVS_ENTRY_COUNT" using sector_ok_entry(7) [OF se(3) m] .
  have pt: "pt_ok env ?p dev'" using e(2) by (simp add: sector_ok_def)
  have o: "only_sector ?p dev dev' (i * NVS_SECTION_SIZE)"
    using e(4,5) j ai(2) by (auto simp: only_sector_def same_on_def)
  have ad: "s_address s' = i * NVS_SECTION_SIZE" using a' ai(2) by simp
  have h: "header_ok env ?p dev' s'"
  proof -
    have "header_ok env ?p dev' ?s" using se(4) header_ok_same [of ?p dev dev' ?s env] e(4)
      by (simp add: same_on_def)
    then show ?thesis using a' st' by (simp add: header_ok_def)
  qed
  let ?m = "sm_upd m i s'"
  have nid: "i \<notin> set (sm_idle m)" using sh se(1) by (auto simp: sm_shape_def)
  have ok': "sm_ok env dev' ?m"
    by (rule sm_ok_update [OF ok ai(1) pt o ad]) (use e(2) h nid in \<open>simp_all add: sec_good_def\<close>)
  let ?f = "\<lambda>e. (snd e, entry_data ?p dev (s_address ?s) e)"
  have fk: "filter (\<lambda>e. is_using e \<and> fst e \<noteq> j) (P @ (j, x) # Q) = filter is_using P @ filter is_using Q"
  proof -
    have "distinct (map fst (P @ (j, x) # Q))"
      using chained_distinct [OF chained_sector, of ?p dev ?s] es(1) by simp
    then have "\<forall>e \<in> set P \<union> set Q. fst e \<noteq> j" by (auto simp: image_iff)
    then show ?thesis by (auto cong: filter_cong)
  qed
  have "j \<in> fst ` set (sector_entries ?p dev ?s)" using m by force
  then have lv': "live ?p dev' s' = map ?f (filter is_using P) @ map ?f (filter is_using Q)"
    using live_drop [OF se(3) j _ e(3,4,5) a'] unfolding es(1) fk by simp
  have lv: "live ?p dev ?s = map ?f (filter is_using P) @ ?f (j, x) # map ?f (filter is_using Q)"
    using es(1) us by (simp add: live_def)
  have "distinct (sm_active m)" using sh by (simp add: sm_shape_def)
  then have dist: "distinct (as @ i # bs)" using sp(1) ii by simp
  have other: "live (sm_pt ?m) dev' (sm_sec ?m a) = live (sm_pt m) dev (sm_sec m a)"
    if "a \<in> set as \<or> a \<in> set bs" for a
  proof -
    have a: "a \<in> set (sm_active m)" "a \<noteq> i" using that dist sp(1) by auto
    show ?thesis using sm_frame(4) [OF ok ai(1) pt o ad disjI1 [OF a(1)] a(2) a(1)] a(2) ai(1)
      by (simp add: sm_sec_upd)
  qed
  have oab: "live_of dev' ?m as = live_of dev m as" "live_of dev' ?m bs = live_of dev m bs"
    by (rule live_of_cong, rule other, simp)+
  let ?A = "live_of dev m as @ map ?f (filter is_using P)"
  let ?B = "map ?f (filter is_using Q) @ live_of dev m bs"
  have L1: "sm_live dev m = ?A @ ?f (j, x) # ?B"
    using sp(1) ii lv by (simp add: sm_live_of live_of_append) (simp add: live_of_def)
  have L2: "sm_live dev' ?m = ?A @ ?B"
    using sp(1) ii lv' oab ai(1)
    by (simp add: sm_live_of live_of_append) (simp add: live_of_def sm_sec_upd)
  have NM: "\<not> kv_match env g t k y" if y: "y \<in> set ?A" for y
  proof
    assume k: "kv_match env g t k y"
    from y consider a e where "a \<in> set as" "e \<in> set (sector_entries ?p dev (sm_sec m a))" "is_using e" "fst y = snd e"
      | e where "e \<in> set P" "is_using e" "fst y = snd e"
      by (auto simp: live_of_def live_def)
    then show False
    proof cases
      case 1
      then have "?W e" using k by (simp add: wanted_def kv_match_def)
      with sp(4) 1 show False by auto
    next
      case 2
      then have "?W e" using k by (simp add: wanted_def kv_match_def)
      with sp(5) es(2) 2 show False by auto
    qed
  qed
  have KM: "kv_match env g t k (?f (j, x))" using sp(3) by (simp add: wanted_def kv_match_def)
  have "sm_live dev' ?m = remove_first (kv_match env g t k) (sm_live dev m)"
    unfolding L1 L2 by (rule remove_first_split [where P = "kv_match env g t k" and A = ?A, OF NM KM, symmetric])
  moreover have "erase_at env dev m i j x = (WM_NVS_ERR_OK, dev', ?m)" using e(1) by (simp add: erase_at_def)
  moreover have "kept env dev m dev' ?m"
    by (rule kept_update [OF ok se(1) pt o ad]) (use st' in simp_all)
  moreover have "sm_entries dev' ?m = map (\<lambda>e. if fst e = i then (i, drop_entry j (snd e)) else e) (sm_entries dev m)"
  proof -
    have E: "sector_entries ?p dev' (sm_sec ?m a) =
        (if a = i then map (drop_entry j) (sector_entries ?p dev ?s) else sector_entries ?p dev (sm_sec m a))"
      if a: "a \<in> set (sm_active m)" for a
      using sm_frame(3) [OF ok ai(1) pt o ad disjI1 [OF a] _ a] e(3) ai(1) by (simp add: sm_sec_upd)
    have "concat (map (\<lambda>a. map (\<lambda>e. (a, e)) (sector_entries ?p dev' (sm_sec ?m a))) xs) =
        map (\<lambda>e. if fst e = i then (i, drop_entry j (snd e)) else e)
          (concat (map (\<lambda>a. map (\<lambda>e. (a, e)) (sector_entries ?p dev (sm_sec m a))) xs))"
      if "set xs \<subseteq> set (sm_active m)" for xs
      using that by (induction xs) (simp_all add: E comp_def)
    then show ?thesis by (simp add: sm_entries_def)
  qed
  ultimately show ?thesis using ok' by (intro exI [of _ dev'] exI [of _ ?m]) simp
qed

end
