(* ===== verification/NvsKvOps.thy ===== *)
theory NvsKvOps
  imports NvsKv
begin

text \<open>
  Reading, deleting and writing plain items, against the abstract list of live records.
\<close>

section \<open>Appending to the current sector\<close>

text \<open>The current sector takes the entry: it is blank, or has the slices left.\<close>

definition sec_room :: "sector \<Rightarrow> nat \<Rightarrow> bool" where
  "sec_room s len \<longleftrightarrow> s_state s = SEC_UNINIT \<or> s_next_free s + write_span len \<le> NVS_ENTRY_COUNT"

lemma write_span_max: "len \<le> NVS_SINGLE_ITEM_MAX_DATA \<Longrightarrow> write_span len \<le> NVS_ENTRY_COUNT"
proof -
  assume "len \<le> NVS_SINGLE_ITEM_MAX_DATA"
  then have "(len + 32 - 1) div 32 \<le> (4032 + 32 - 1) div 32" by (intro div_le_mono) simp
  then show ?thesis by (simp add: write_span_def)
qed

lemma sector_ok_not_uninit: "sector_ok env p dev s \<Longrightarrow> s_state s \<noteq> SEC_UNINIT"
  by (auto simp: sector_ok_def sector_live_def)

text \<open>Whether blank or not, the write continues on a sector that has its header.\<close>

lemma write_prepare:
  assumes good: "sec_good env p dev s" and st: "s_state s \<noteq> SEC_FULL" and rm: "sec_room s len"
    and len: "len \<le> NVS_SINGLE_ITEM_MAX_DATA"
  shows "\<exists>dev1 s1. wm_nvs_sector_write_item env p dev s g t k d len si =
      wm_nvs_sector_write_item env p dev1 s1 g t k d len si \<and>
    sector_ok env p dev1 s1 \<and> header_ok env p dev1 s1 \<and> live p dev1 s1 = live p dev s \<and>
    sector_entries p dev1 s1 = sector_entries p dev s \<and> only_sector p dev dev1 (s_address s) \<and>
    s_address s1 = s_address s \<and> s_state s1 \<noteq> SEC_FULL \<and> s_next_free s1 + write_span len \<le> NVS_ENTRY_COUNT \<and>
    s_serial s1 = s_serial s \<and> s_state s1 = (if s_state s = SEC_UNINIT then SEC_USING else s_state s)"
proof (cases "s_state s = SEC_UNINIT")
  case True
  then have f: "sector_fresh env p dev s" "s_serial s < 2 ^ 32"
    using good sector_ok_not_uninit by (auto simp: sec_good_def)
  obtain dev1 s1 where i: "wm_nvs_sector_init env p dev s = (WM_NVS_ERR_OK, dev1, s1)"
    "sector_ok env p dev1 s1" "sector_entries p dev1 s1 = []" "header_ok env p dev1 s1"
    "s_state s1 = SEC_USING" "s_address s1 = s_address s" "s_serial s1 = s_serial s" "s_next_free s1 = 0"
    "same_on p dev dev1 0 (s_address s)" "same_on p dev dev1 (s_address s + 32) (pt_size p)"
    using sector_init_spec [OF f] by blast
  have "live p dev1 s1 = []" using i(3) by (simp add: live_def)
  moreover have "only_sector p dev dev1 (s_address s)"
    using i(9,10) by (simp add: only_sector_def same_on_def)
  ultimately show ?thesis
    using True write_item_fresh [OF True i(1,5)] i fresh_entries [OF f(1)] write_span_max [OF len]
    by (intro exI [of _ dev1] exI [of _ s1]) simp
next
  case False
  with sec_good_live [OF good False] st rm show ?thesis
    by (intro exI [of _ dev] exI [of _ s]) (simp add: sec_room_def)
qed

lemma write_last:
  fixes g t si :: nat and k :: bytes
  assumes ok: "sm_ok env dev m" and act: "sm_active m = as @ [s]"
    and st: "s_state (sm_sec m s) \<noteq> SEC_FULL" and rm: "sec_room (sm_sec m s) len"
    and len: "len \<le> NVS_SINGLE_ITEM_MAX_DATA" "len \<le> length d"
  defines "it \<equiv> new_item env g t k d len si"
  shows "\<exists>dev' m' j. write_at env dev m s g t k d len si = (WM_NVS_ERR_OK, dev', m') \<and> sm_ok env dev' m' \<and>
    sm_live dev' m' = sm_live dev m @ [(it, take len d)] \<and>
    sm_entries dev' m' = sm_entries dev m @ [(s, j, it)] \<and>
    sm_active m' = sm_active m \<and> sm_idle m' = sm_idle m \<and> sm_pt m' = sm_pt m \<and> sm_serial m' = sm_serial m \<and>
    kept env dev m dev' m' \<and>
    s_state (sm_sec m' s) = (if s_state (sm_sec m s) = SEC_UNINIT then SEC_USING else s_state (sm_sec m s))"
proof -
  let ?p = "sm_pt m" and ?s = "sm_sec m s"
  have sh: "sm_shape m" using ok by (simp add: sm_ok_def)
  have sa: "s \<in> set (sm_active m)" using act by simp
  note as = sm_shape_active [OF sh disjI1 [OF sa]]
  have good: "sec_good env ?p dev ?s" using ok sa by (simp add: sm_ok_def)
  obtain dev1 s1 where w1: "wm_nvs_sector_write_item env ?p dev ?s g t k (Some d) len si =
      wm_nvs_sector_write_item env ?p dev1 s1 g t k (Some d) len si"
    "sector_ok env ?p dev1 s1" "header_ok env ?p dev1 s1" "live ?p dev1 s1 = live ?p dev ?s"
    "sector_entries ?p dev1 s1 = sector_entries ?p dev ?s" "only_sector ?p dev dev1 (s_address ?s)"
    "s_address s1 = s_address ?s" "s_state s1 \<noteq> SEC_FULL" "s_next_free s1 + write_span len \<le> NVS_ENTRY_COUNT"
    "s_serial s1 = s_serial ?s" "s_state s1 = (if s_state ?s = SEC_UNINIT then SEC_USING else s_state ?s)"
    using write_prepare [OF good st rm len(1), of g t k "Some d" si] by blast
  obtain dev2 s2 where w2: "wm_nvs_sector_write_item env ?p dev1 s1 g t k (Some d) len si = (WM_NVS_ERR_OK, dev2, s2)"
    "sector_ok env ?p dev2 s2"
    "sector_entries ?p dev2 s2 = sector_entries ?p dev1 s1 @ [(s_next_free s1, it)]"
    "entry_data ?p dev2 (s_address s1) (s_next_free s1, it) = take len d"
    "same_on ?p dev1 dev2 0 (s_address s1 + (s_next_free s1 + 1) * 32)"
    "same_on ?p dev1 dev2 (s_address s1 + (s_next_free s1 + write_span len + 1) * 32) (pt_size ?p)"
    "s_address s2 = s_address s1" "s_state s2 = s_state s1" "s_serial s2 = s_serial s1"
    using write_item_fits [OF w1(2,8) len w1(9), of g t k si] unfolding it_def by blast
  have us: "it_state it = ITEM_USING" by (simp add: it_def new_item_def)
  have lv: "live ?p dev2 s2 = live ?p dev ?s @ [(it, take len d)]"
    using live_append [OF w1(2) w2(3) us w2(4,5,7)] w1(4) by simp
  have o2: "only_sector ?p dev1 dev2 (s_address ?s)"
    using w2(5,6) w1(7,9) by (auto simp: only_sector_def same_on_def)
  have o: "only_sector ?p dev dev2 (s * NVS_SECTION_SIZE)"
    using only_sector_trans [OF w1(6) o2] as(2) by simp
  have h: "header_ok env ?p dev2 s2"
  proof -
    have "header_ok env ?p dev2 s1" using w1(3) header_ok_same [of ?p dev1 dev2 s1 env] w2(5)
      by (simp add: same_on_def)
    then show ?thesis using w2(7-9) by (simp add: header_ok_def)
  qed
  let ?m = "sm_upd m s s2"
  have pt: "pt_ok env ?p dev2" using w2(2) by (simp add: sector_ok_def)
  have ad: "s_address s2 = s * NVS_SECTION_SIZE" using w2(7) w1(7) as(2) by simp
  have nid: "s \<notin> set (sm_idle m)" using sh sa by (auto simp: sm_shape_def)
  have ok': "sm_ok env dev2 ?m"
    by (rule sm_ok_update [OF ok as(1) pt o ad]) (use w2(2) h nid in \<open>simp_all add: sec_good_def\<close>)
  have "distinct (sm_active m)" using sh by (simp add: sm_shape_def)
  then have nas: "s \<notin> set as" using act by simp
  have other: "live ?p dev2 (sm_sec ?m a) = live ?p dev (sm_sec m a)"
    "sector_entries ?p dev2 (sm_sec ?m a) = sector_entries ?p dev (sm_sec m a)" if a: "a \<in> set as" for a
  proof -
    have n: "a \<in> set (sm_active m)" "a \<noteq> s" using a act nas by auto
    note fr = sm_frame(3,4) [OF ok as(1) pt o ad disjI1 [OF n(1)] n(2) n(1)]
    show "live ?p dev2 (sm_sec ?m a) = live ?p dev (sm_sec m a)"
      "sector_entries ?p dev2 (sm_sec ?m a) = sector_entries ?p dev (sm_sec m a)"
      using fr n(2) as(1) by (simp_all add: sm_sec_upd)
  qed
  have s2: "sm_sec ?m s = s2" using as(1) by (simp add: sm_sec_upd)
  have "sm_live dev2 ?m = sm_live dev m @ [(it, take len d)]"
    using other(1) s2 lv by (simp add: sm_live_def act cong: map_cong)
  moreover have "sm_entries dev2 ?m = sm_entries dev m @ [(s, s_next_free s1, it)]"
    using other(2) s2 w2(3) w1(5) by (simp add: sm_entries_def act cong: map_cong)
  moreover have "write_at env dev m s g t k d len si = (WM_NVS_ERR_OK, dev2, ?m)"
    using w1(1) w2(1) by (simp add: write_at_def)
  moreover have "kept env dev m dev2 ?m"
    by (rule kept_update [OF ok sa pt o ad]) (use w1(10,11) w2(8,9) in simp_all)
  ultimately show ?thesis using ok' s2 w1(11) w2(8)
    by (intro exI [of _ dev2] exI [of _ ?m] exI [of _ "s_next_free s1"]) simp
qed

section \<open>Reading\<close>

text \<open>A plain read is a lookup in the list: not found, too long for the buffer, or the data.\<close>

lemma read_item_refines:
  assumes ok: "sm_ok env dev (st_sm st)" and t: "t \<noteq> TYPE_BLOB" and buf: "length buf = len"
  shows "wm_nvs_storage_read_item env dev st g t k buf len =
    (case find (kv_match env g t k) (sm_live dev (st_sm st)) of
       None \<Rightarrow> (WM_NVS_ERR_NOT_FOUND, dev, st, buf, len)
     | Some (x, d) \<Rightarrow>
         if len < length d then (WM_NVS_ERR_VALUE_TOO_LONG, dev, st, buf, length d)
         else (WM_NVS_ERR_OK, dev, st, overlay buf 0 d, length d))"
proof -
  let ?m = "st_sm st"
  have st: "st\<lparr>st_sm := st_sm st\<rparr> = st" by simp
  note f = find_any_spec [OF ok, of g t k]
  show ?thesis
  proof (cases "find (\<lambda>e. wanted env g t (Some k) NVS_SEG_ID_ANY SEG_START_ANY (snd e)) (sm_entries dev ?m)")
    case None
    then obtain it where "find_any env dev ?m g t k = (WM_NVS_ERR_NOT_FOUND, ?m, 0, None, it)"
      "find (kv_match env g t k) (sm_live dev ?m) = None" using f by auto
    then show ?thesis by (simp add: wm_nvs_storage_read_item_def st)
  next
    case (Some e)
    then obtain i j x where e: "find (\<lambda>e. wanted env g t (Some k) NVS_SEG_ID_ANY SEG_START_ANY (snd e))
        (sm_entries dev ?m) = Some (i, j, x)" by (cases e) auto
    have r: "find_any env dev ?m g t k = (WM_NVS_ERR_OK, ?m, j, Some i, x)"
      "find (kv_match env g t k) (sm_live dev ?m) = Some (entry_live dev ?m (i, j, x))"
      using f e by auto
    have mem: "(i, j, x) \<in> set (sm_entries dev ?m)"
      using e by (auto simp: find_Some_iff)
    note se = sm_entry_sector [OF ok mem]
    let ?d = "entry_data (sm_pt ?m) dev (s_address (sm_sec ?m i)) (j, x)"
    have wf: "item_wf x" using sector_ok_entry(5) [OF se(3,2)] .
    have ld: "length ?d = it_length x" using wf by (simp add: entry_data_def item_wf_def)
    have "wm_nvs_sector_read_item_data env (sm_pt ?m) dev (sm_sec ?m i) j x (take (it_length x) buf)
        (it_length x) = (WM_NVS_ERR_OK, ?d)" if "it_length x \<le> len"
      by (rule read_item_data_spec [OF se(3,2)]) (use that buf in simp)
    then show ?thesis
      using r ld t by (simp add: wm_nvs_storage_read_item_def entry_live_def st Let_def)
  qed
qed

section \<open>Deleting\<close>

lemma del_item_refines:
  assumes ok: "sm_ok env dev (st_sm st)"
    and plain: "\<forall>x d. find (kv_match env g t k) (sm_live dev (st_sm st)) = Some (x, d) \<longrightarrow> it_type x \<noteq> TYPE_BLOB"
  shows "\<exists>dev' m'. wm_nvs_storage_del_item env dev st g t k =
      ((if find (kv_match env g t k) (sm_live dev (st_sm st)) = None then WM_NVS_ERR_NOT_FOUND else WM_NVS_ERR_OK),
       dev', st\<lparr>st_sm := m'\<rparr>) \<and>
    sm_ok env dev' m' \<and> sm_live dev' m' = remove_first (kv_match env g t k) (sm_live dev (st_sm st)) \<and>
    sm_active m' = sm_active (st_sm st) \<and> sm_idle m' = sm_idle (st_sm st)"
proof -
  let ?m = "st_sm st"
  note f = find_any_spec [OF ok, of g t k]
  show ?thesis
  proof (cases "find (\<lambda>e. wanted env g t (Some k) NVS_SEG_ID_ANY SEG_START_ANY (snd e)) (sm_entries dev ?m)")
    case None
    then obtain it where "find_any env dev ?m g t k = (WM_NVS_ERR_NOT_FOUND, ?m, 0, None, it)"
      "find (kv_match env g t k) (sm_live dev ?m) = None" using f by auto
    then show ?thesis using ok
      by (intro exI [of _ dev] exI [of _ ?m]) (simp add: wm_nvs_storage_del_item_def remove_first_none)
  next
    case (Some e)
    then obtain i j x where e: "find (\<lambda>e. wanted env g t (Some k) NVS_SEG_ID_ANY SEG_START_ANY (snd e))
        (sm_entries dev ?m) = Some (i, j, x)" by (cases e) auto
    have r: "find_any env dev ?m g t k = (WM_NVS_ERR_OK, ?m, j, Some i, x)"
      "find (kv_match env g t k) (sm_live dev ?m) = Some (entry_live dev ?m (i, j, x))"
      using f e by auto
    have nb: "it_type x \<noteq> TYPE_BLOB" using plain r(2) by (simp add: entry_live_def)
    obtain dev' m' where d: "erase_at env dev ?m i j x = (WM_NVS_ERR_OK, dev', m')" "sm_ok env dev' m'"
      "sm_live dev' m' = remove_first (kv_match env g t k) (sm_live dev ?m)"
      "sm_active m' = sm_active ?m" "sm_idle m' = sm_idle ?m"
      using erase_found [OF ok e] by blast
    then show ?thesis using r nb
      by (intro exI [of _ dev'] exI [of _ m']) (simp add: wm_nvs_storage_del_item_def erase_old_def)
  qed
qed

end
