(* ===== verification/NvsKvWrite.thy ===== *)
theory NvsKvWrite
  imports NvsKvOps
begin

text \<open>
  Writing a plain item: the new record goes to the end of the abstract list and the first old
  record of the key goes away; writing the stored value again changes nothing. Then reading
  gives back what was written.
\<close>

section \<open>The new record answers for its key\<close>

lemma strncmp_eq_take:
  "n \<le> length a \<Longrightarrow> n \<le> length b \<Longrightarrow> take n a = take n b \<Longrightarrow> strncmp_eq a b n"
proof (induction a b n rule: strncmp_eq.induct)
  case (2 a b n)
  then show ?case by (cases a; cases b) (auto simp: c_at_def)
qed simp

lemma strnlen_length: "strnlen s n \<le> length s"
  using length_takeWhile_le [of "\<lambda>b. b \<noteq> 0" "take n s"] by (simp add: strnlen_def)

lemma take_key_field: "take (strnlen k 15) (key_field k) = take (strnlen k 15) k"
proof -
  let ?n = "strnlen k 15"
  let ?nm = "overlay (replicate 15 0xFF) 0 (take ?n k)"
  have l: "length (take ?n k) = ?n" using strnlen_length [of k 15] by simp
  then have "take ?n ?nm = take ?n k" by (simp add: overlay_def)
  moreover have "take ?n (?nm[?n := 0]) = take ?n ?nm" by simp
  ultimately show ?thesis by (simp add: key_field_def Let_def)
qed

lemma key_field_cmp: "strncmp_eq (key_field k) k (strnlen k 15)"
  by (rule strncmp_eq_take) (simp_all add: strnlen_length take_key_field)

lemma new_item_match:
  assumes "g < NVS_GROUP_ID_MAX" and "t < TYPE_BLOB_SEG"
    and "t' = TYPE_ANY_WITHOUT_SEG \<or> t' = t"
  shows "kv_match env g t' k (new_item env g t k d len NVS_SEG_ID_ANY, v)"
proof -
  have "item_hash24 env (wm_nvs_item_init env ITEM_USING g t k (Some d) len NVS_SEG_ID_ANY) =
      item_hash24 env (wm_nvs_item_init env ITEM_USING g 0 k None 0 NVS_SEG_ID_ANY)"
    by (rule item_hash24_init)
  then show ?thesis
    using assms key_field_cmp [of k] by (auto simp: kv_match_def cand_def item_match_def new_item_def)
qed

section \<open>Writing\<close>

abbreviation kv_any :: "env \<Rightarrow> nat \<Rightarrow> bytes \<Rightarrow> item \<times> bytes \<Rightarrow> bool" where
  "kv_any env g k \<equiv> kv_match env g TYPE_ANY_WITHOUT_SEG k"

lemma cmp_find_item_spec:
  assumes ok: "sm_ok env dev (st_sm st)" and mem: "(i, j, x) \<in> set (sm_entries dev (st_sm st))"
    and len: "len \<le> length data"
  shows "storage_cmp_find_item env dev st (Some i) j x data len = WM_NVS_ERR_OK \<longleftrightarrow>
    entry_live dev (st_sm st) (i, j, x) = (x, take len data)"
proof -
  let ?m = "st_sm st" and ?s = "sm_sec (st_sm st) i"
  note se = sm_entry_sector [OF ok mem]
  note e = sector_ok_entry [OF se(3,2)]
  have pt: "pt_ok env (sm_pt ?m) dev" "heap_ok env" using ok by (auto simp: sm_ok_def pt_ok_def)
  have pl: "s_address ?s + NVS_SECTION_SIZE \<le> pt_size (sm_pt ?m)"
    using se(3) by (simp add: sector_ok_def sector_place_def)
  show ?thesis
  proof (cases "len = it_length x")
    case False
    have "length (entry_data (sm_pt ?m) dev (s_address ?s) (j, x)) = it_length x"
      using e(5) by (simp add: entry_data_def item_wf_def)
    with False len have "entry_data (sm_pt ?m) dev (s_address ?s) (j, x) \<noteq> take len data" by auto
    with False show ?thesis by (simp add: storage_cmp_find_item_def entry_live_def)
  next
    case True
    show ?thesis
    proof (cases "len \<le> 8")
      case small: True
      with True show ?thesis by (auto simp: storage_cmp_find_item_def entry_live_def entry_data_def)
    next
      case False
      have "(j + 2) * 32 + it_length x \<le> (s_next_free ?s + 1) * 32"
        by (rule data_fits [OF _ e(3)]) (use False True in simp)
      then have "s_address ?s + (j + 2) * 32 + len \<le> pt_size (sm_pt ?m)" using pl e(4) True by simp
      then have "wm_nvs_pt_read env (sm_pt ?m) dev (s_address ?s + (j + 2) * 32) (replicate len 0) len =
          (WM_NVS_ERR_OK, pt_slice (sm_pt ?m) dev (s_address ?s + (j + 2) * 32) len)"
        using pt_read_spec(1) [OF pt(1)] False by simp
      moreover have "j + 1 + 1 = j + 2" by simp
      ultimately show ?thesis using False True pt(2)
        by (auto simp: storage_cmp_find_item_def entry_live_def entry_data_def)
    qed
  qed
qed

text \<open>The second half of a write: append to a sector with room, then drop the old entry.\<close>

lemma write_then_drop:
  fixes g t :: nat and k :: bytes
  assumes ok: "sm_ok env dev m" and act: "sm_active m = as @ [s]"
    and st: "s_state (sm_sec m s) \<noteq> SEC_FULL" and rm: "sec_room (sm_sec m s) len"
    and len: "len \<le> NVS_SINGLE_ITEM_MAX_DATA" "len \<le> length d"
    and old: "find (\<lambda>e. wanted env g TYPE_ANY_WITHOUT_SEG (Some k) NVS_SEG_ID_ANY SEG_START_ANY (snd e))
      (sm_entries dev m) = r" and plain: "\<forall>i j x. r = Some (i, j, x) \<longrightarrow> it_type x \<noteq> TYPE_BLOB"
  defines "new \<equiv> (new_item env g t k d len NVS_SEG_ID_ANY, take len d)"
  shows "\<exists>dev1 m1 dev' m'. write_at env dev m s g t k d len NVS_SEG_ID_ANY = (WM_NVS_ERR_OK, dev1, m1) \<and>
    erase_old env dev1 (st\<lparr>st_sm := m1\<rparr>) (map_option fst r) (case r of None \<Rightarrow> ix | Some (i, j, x) \<Rightarrow> j)
      (case r of None \<Rightarrow> it | Some (i, j, x) \<Rightarrow> x) WM_NVS_ERR_OK = (WM_NVS_ERR_OK, dev', st\<lparr>st_sm := m'\<rparr>) \<and>
    sm_ok env dev' m' \<and> sm_live dev' m' = remove_first (kv_any env g k) (sm_live dev m) @ [new] \<and>
    sm_active m' = sm_active m \<and> sm_idle m' = sm_idle m \<and> kept env dev m dev' m' \<and>
    s_state (sm_sec m' s) = (if s_state (sm_sec m s) = SEC_UNINIT then SEC_USING else s_state (sm_sec m s)) \<and>
    (\<exists>xs j. sm_entries dev' m' = xs @ [(s, j, fst new)])"
proof -
  obtain dev1 m1 j1 where w: "write_at env dev m s g t k d len NVS_SEG_ID_ANY = (WM_NVS_ERR_OK, dev1, m1)"
    "sm_ok env dev1 m1" "sm_live dev1 m1 = sm_live dev m @ [new]"
    "sm_entries dev1 m1 = sm_entries dev m @ [(s, j1, fst new)]"
    "sm_active m1 = sm_active m" "sm_idle m1 = sm_idle m" "kept env dev m dev1 m1"
    "s_state (sm_sec m1 s) = (if s_state (sm_sec m s) = SEC_UNINIT then SEC_USING else s_state (sm_sec m s))"
    using write_last [OF ok act st rm len, of g t k NVS_SEG_ID_ANY] unfolding new_def by auto
  have fl: "find (kv_any env g k) (sm_live dev m) = map_option (entry_live dev m) r"
    using find_live [of env g TYPE_ANY_WITHOUT_SEG k dev m] old by simp
  show ?thesis
  proof (cases r)
    case None
    then have "remove_first (kv_any env g k) (sm_live dev m) = sm_live dev m"
      using fl by (simp add: remove_first_none)
    then show ?thesis using w None
      by (intro exI [of _ dev1] exI [of _ m1]) (simp add: erase_old_def)
  next
    case (Some e)
    then obtain i j x where r: "r = Some (i, j, x)" by (cases e) auto
    have f1: "find (\<lambda>e. wanted env g TYPE_ANY_WITHOUT_SEG (Some k) NVS_SEG_ID_ANY SEG_START_ANY (snd e))
        (sm_entries dev1 m1) = Some (i, j, x)"
      using old r w(4) by (simp add: find_append)
    obtain dev2 m2 where e: "erase_at env dev1 m1 i j x = (WM_NVS_ERR_OK, dev2, m2)" "sm_ok env dev2 m2"
      "sm_live dev2 m2 = remove_first (kv_any env g k) (sm_live dev1 m1)"
      "sm_active m2 = sm_active m1" "sm_idle m2 = sm_idle m1" "kept env dev1 m1 dev2 m2"
      "sm_entries dev2 m2 = map (\<lambda>e. if fst e = i then (i, drop_entry j (snd e)) else e) (sm_entries dev1 m1)"
      using erase_found [OF w(2) f1] by blast
    have k: "kept env dev m dev2 m2" using w(7) e(6) by (rule kept_trans)
    have sa: "s \<in> set (sm_active m1)" "s_state (sm_sec m1 s) \<noteq> SEC_UNINIT" using w(5,8) act by simp_all
    then have st2: "s_state (sm_sec m2 s) = s_state (sm_sec m1 s)" using e(6) by (simp add: kept_def)
    have "(i, j, x) \<in> set (sm_entries dev m)" using old r by (auto simp: find_Some_iff)
    then have "i \<noteq> s \<or> j1 \<noteq> j" using entries_distinct [OF w(2)] w(4) by force
    then have en: "sm_entries dev2 m2 = map (\<lambda>e. if fst e = i then (i, drop_entry j (snd e)) else e) (sm_entries dev m) @
        [(s, j1, fst new)]"
      unfolding e(7) w(4) by (auto simp: drop_entry_def)
    have "sm_live dev2 m2 = remove_first (kv_any env g k) (sm_live dev m) @ [new]"
      using e(3) w(3) fl r by (simp add: remove_first_append)
    then show ?thesis using w e(1-5) k st2 en r plain
      by (intro exI [of _ dev1] exI [of _ m1] exI [of _ dev2] exI [of _ m2]) (simp add: erase_old_def)
  qed
qed

text \<open>The current sector can take the entry, or another one can be activated for it.\<close>

definition write_ready :: "sm \<Rightarrow> nat \<Rightarrow> bool" where
  "write_ready m len \<longleftrightarrow> sm_active m \<noteq> [] \<and> s_state (sm_sec m (last (sm_active m))) \<noteq> SEC_FULL \<and>
     (sec_room (sm_sec m (last (sm_active m))) len \<or> 2 \<le> length (sm_idle m))"

lemma current_last: "sm_active m \<noteq> [] \<Longrightarrow> wm_nvs_sm_get_current_sector m = Some (last (sm_active m))"
  by (simp add: wm_nvs_sm_get_current_sector_def list_last_def)

lemma write_plain_refines:
  assumes ok: "sm_ok env dev (st_sm st)" and rdy: "write_ready (st_sm st) len" and t: "t \<noteq> TYPE_BLOB"
    and len: "len \<le> NVS_SINGLE_ITEM_MAX_DATA" "len \<le> length d"
    and plain: "\<And>x v. find (kv_any env g k) (sm_live dev (st_sm st)) = Some (x, v) \<Longrightarrow>
      it_type x \<noteq> TYPE_BLOB \<and> \<not> (it_type x = t \<and> v = take len d)"
  shows "\<exists>dev' m'. wm_nvs_storage_write_item env dev st g t k d len = Some (WM_NVS_ERR_OK, dev', st\<lparr>st_sm := m'\<rparr>) \<and>
    sm_ok env dev' m' \<and> sm_active m' \<noteq> [] \<and> (sm_idle m' \<noteq> [] \<longleftrightarrow> sm_idle (st_sm st) \<noteq> []) \<and>
    sm_live dev' m' = remove_first (kv_any env g k) (sm_live dev (st_sm st)) @
      [(new_item env g t k d len NVS_SEG_ID_ANY, take len d)] \<and>
    sm_pt m' = sm_pt (st_sm st) \<and> (orderly env dev (st_sm st) \<longrightarrow> sm_serial (st_sm st) + 1 < 2 ^ 32 \<longrightarrow> orderly env dev' m') \<and>
    (\<exists>xs j. sm_entries dev' m' = xs @ [(last (sm_active m'), j, new_item env g t k d len NVS_SEG_ID_ANY)])"
proof -
  let ?m = "st_sm st"
  let ?r = "find (\<lambda>e. wanted env g TYPE_ANY_WITHOUT_SEG (Some k) NVS_SEG_ID_ANY SEG_START_ANY (snd e)) (sm_entries dev ?m)"
  define s where "s = last (sm_active ?m)"
  have act: "sm_active ?m = butlast (sm_active ?m) @ [s]" using rdy by (simp add: write_ready_def s_def)
  have sin: "s \<in> set (sm_active ?m)" using rdy by (simp add: write_ready_def s_def)
  have stf: "s_state (sm_sec ?m s) \<noteq> SEC_FULL" using rdy by (simp add: write_ready_def s_def)
  have cur: "wm_nvs_sm_get_current_sector ?m = Some s" using rdy current_last by (simp add: write_ready_def s_def)
  note f = find_any_spec [OF ok, of g TYPE_ANY_WITHOUT_SEG k]
  define ix where "ix = (0 :: nat)"
  obtain err it where fa: "find_any env dev ?m g TYPE_ANY_WITHOUT_SEG k =
      (err, ?m, (case ?r of None \<Rightarrow> ix | Some (i, j, x) \<Rightarrow> j), map_option fst ?r,
       (case ?r of None \<Rightarrow> it | Some (i, j, x) \<Rightarrow> x))" "err = WM_NVS_ERR_OK \<or> err = WM_NVS_ERR_NOT_FOUND"
    using f by (cases ?r) (auto simp: ix_def split: prod.splits)
  have pl: "it_type x \<noteq> TYPE_BLOB" and nsame: "storage_cmp_find_item env dev st (Some i) j x d len = WM_NVS_ERR_OK \<Longrightarrow> t \<noteq> it_type x"
    if r: "?r = Some (i, j, x)" for i j x
  proof -
    have el: "find (kv_any env g k) (sm_live dev ?m) = Some (entry_live dev ?m (i, j, x))" using f r by simp
    have mem: "(i, j, x) \<in> set (sm_entries dev ?m)" using r by (auto simp: find_Some_iff)
    show "it_type x \<noteq> TYPE_BLOB" using el plain by (simp add: entry_live_def)
    show "t \<noteq> it_type x" if "storage_cmp_find_item env dev st (Some i) j x d len = WM_NVS_ERR_OK"
      using that el plain cmp_find_item_spec [OF ok mem len(2)] by auto
  qed
  have pl': "\<forall>i j x. ?r = Some (i, j, x) \<longrightarrow> it_type x \<noteq> TYPE_BLOB" using pl by blast
  let ?fs = "map_option fst ?r" and ?ix = "case ?r of None \<Rightarrow> ix | Some (i, j, x) \<Rightarrow> j"
    and ?it = "case ?r of None \<Rightarrow> it | Some (i, j, x) \<Rightarrow> x"
  have guard: "\<not> (?fs \<noteq> None \<and> t = it_type ?it \<and>
      storage_cmp_find_item env dev st ?fs ?ix ?it d len = WM_NVS_ERR_OK)"
    using nsame by (cases ?r) auto
  have st: "st\<lparr>st_sm := st_sm st\<rparr> = st" by simp
  have top: "wm_nvs_storage_write_item env dev st g t k d len =
      (case write_plain_branch env dev st ?fs ?ix ?it g t k d len of
         None \<Rightarrow> None
       | Some (over, err, dev, st) \<Rightarrow>
           if over then Some (err, dev, st) else Some (erase_old env dev st ?fs ?ix ?it err))"
    using fa t by (auto simp: wm_nvs_storage_write_item_def Let_def)
  show ?thesis
  proof (cases "sec_room (sm_sec ?m s) len")
    case True
    obtain dev1 m1 dev' m' where w: "write_at env dev ?m s g t k d len NVS_SEG_ID_ANY = (WM_NVS_ERR_OK, dev1, m1)"
      "erase_old env dev1 (st\<lparr>st_sm := m1\<rparr>) ?fs ?ix ?it WM_NVS_ERR_OK = (WM_NVS_ERR_OK, dev', st\<lparr>st_sm := m'\<rparr>)"
      "sm_ok env dev' m'"
      "sm_live dev' m' = remove_first (kv_any env g k) (sm_live dev ?m) @
        [(new_item env g t k d len NVS_SEG_ID_ANY, take len d)]"
      "sm_active m' = sm_active ?m" "sm_idle m' = sm_idle ?m" "kept env dev ?m dev' m'"
      "s_state (sm_sec m' s) = (if s_state (sm_sec ?m s) = SEC_UNINIT then SEC_USING else s_state (sm_sec ?m s))"
      "\<exists>xs j. sm_entries dev' m' = xs @ [(s, j, new_item env g t k d len NVS_SEG_ID_ANY)]"
      using write_then_drop [OF ok act stf True len refl pl', where t = t and st = st and ix = ix and it = it]
      unfolding fst_conv by blast
    have pm: "sm_pt m' = sm_pt ?m" using w(7) by (simp add: kept_def)
    have od: "orderly env dev' m'" if "orderly env dev ?m"
      using that lists_ok_kept [OF _ w(7)] w(7) w(8) sin by (auto simp: orderly_def kept_def)
    have "write_plain_branch env dev st ?fs ?ix ?it g t k d len = Some (False, WM_NVS_ERR_OK, dev1, st\<lparr>st_sm := m1\<rparr>)"
      using guard cur w(1) by (auto simp: write_plain_branch_def)
    with top w(2-6,9) od pm rdy show ?thesis by (auto simp: write_ready_def s_def)
  next
    case False
    have idl: "2 \<le> length (sm_idle ?m)" using rdy False by (simp add: write_ready_def s_def)
    then obtain i rest where idle: "sm_idle ?m = i # rest" "rest \<noteq> []"
      by (cases "sm_idle ?m"; cases "tl (sm_idle ?m)") (auto simp: One_nat_def)
    have good: "sec_good env (sm_pt ?m) dev (sm_sec ?m s)" using ok sin by (simp add: sm_ok_def)
    have nu: "s_state (sm_sec ?m s) \<noteq> SEC_UNINIT" and nr: "NVS_ENTRY_COUNT < s_next_free (sm_sec ?m s) + write_span len"
      using False by (auto simp: sec_room_def)
    have full: "write_at env dev ?m s g t k d len NVS_SEG_ID_ANY = (WM_NVS_ERR_SECTOR_FULL, dev, ?m)"
      using write_item_full [OF sec_good_live(1) [OF good nu] stf len(1) nr] by (simp add: write_at_def)
    obtain dev1 s1 where a: "sm_active_sector env dev ?m = Some (WM_NVS_ERR_OK, dev1,
        (sm_upd ?m i s1)\<lparr>sm_serial := u32 (sm_serial ?m + 1), sm_idle := rest, sm_active := sm_active ?m @ [i]\<rparr>)"
      "sector_fresh env (sm_pt ?m) dev1 s1" "s_address s1 = i * NVS_SECTION_SIZE" "s_serial s1 = sm_serial ?m"
      "only_sector (sm_pt ?m) dev dev1 (i * NVS_SECTION_SIZE)" "pt_ok env (sm_pt ?m) dev1"
      using sm_active_sector_spec [OF ok idle(1)] by blast
    let ?m1 = "(sm_upd ?m i s1)\<lparr>sm_serial := u32 (sm_serial ?m + 1), sm_idle := rest, sm_active := sm_active ?m @ [i]\<rparr>"
    have un: "u32 (sm_serial ?m + 1) < 2 ^ 32" by simp
    have gs: "sec_good env (sm_pt ?m) dev1 s1" using a(2,4) ok by (simp add: sec_good_def sm_ok_def)
    note ok1 = sm_ok_activate [OF un ok idle(1) gs a(3,5,6)]
    have ent1: "sm_entries dev1 ?m1 = sm_entries dev ?m" "sm_live dev1 ?m1 = sm_live dev ?m"
      using ok1(2,3) fresh_entries [OF a(2)] by simp_all
    have act1: "sm_active ?m1 = sm_active ?m @ [i]" by simp
    have li: "i < length (sm_secs ?m)" using ok idle(1) by (auto simp: sm_ok_def sm_shape_def)
    have s1: "sm_sec ?m1 i = s1" "s_state s1 = SEC_UNINIT"
      using li a(2) by (simp_all add: sm_sec_upd sector_fresh_def)
    have st1: "s_state (sm_sec ?m1 i) \<noteq> SEC_FULL" "sec_room (sm_sec ?m1 i) len"
      unfolding s1(1) using s1(2) by (simp_all add: sec_room_def)
    obtain dev2 m2 dev' m' where w: "write_at env dev1 ?m1 i g t k d len NVS_SEG_ID_ANY = (WM_NVS_ERR_OK, dev2, m2)"
      "erase_old env dev2 (st\<lparr>st_sm := m2\<rparr>) ?fs ?ix ?it WM_NVS_ERR_OK = (WM_NVS_ERR_OK, dev', st\<lparr>st_sm := m'\<rparr>)"
      "sm_ok env dev' m'"
      "sm_live dev' m' = remove_first (kv_any env g k) (sm_live dev1 ?m1) @
        [(new_item env g t k d len NVS_SEG_ID_ANY, take len d)]"
      "sm_active m' = sm_active ?m1" "sm_idle m' = sm_idle ?m1" "kept env dev1 ?m1 dev' m'"
      "s_state (sm_sec m' i) = (if s_state (sm_sec ?m1 i) = SEC_UNINIT then SEC_USING else s_state (sm_sec ?m1 i))"
      "\<exists>xs j. sm_entries dev' m' = xs @ [(i, j, new_item env g t k d len NVS_SEG_ID_ANY)]"
      using write_then_drop [OF ok1(1) act1 st1 len _ pl', where g = g and k = k and t = t and st = st and ix = ix and it = it] ent1(1)
      unfolding fst_conv by metis
    have pm: "sm_pt m' = sm_pt ?m" using w(7) by (simp add: kept_def)
    have od: "orderly env dev' m'" if o: "orderly env dev ?m" "sm_serial ?m + 1 < 2 ^ 32"
    proof -
      have "lists_ok env dev1 ?m1"
        using lists_ok_activate [OF _ ok idle(1) a(3,4,5,6)] o by (simp add: orderly_def)
      then have lo: "lists_ok env dev' m'" using w(7) by (rule lists_ok_kept)
      have "s_state (sm_sec m' j) = s_state (sm_sec ?m j)" if j: "j \<in> set (sm_active ?m)" for j
      proof -
        have "j \<noteq> i" using j ok idle(1) by (auto simp: sm_ok_def sm_shape_def)
        then have "s_state (sm_sec ?m1 j) = s_state (sm_sec ?m j)" using li by (simp add: sm_sec_upd)
        moreover have "s_state (sm_sec ?m1 j) \<noteq> SEC_UNINIT" using calculation o(1) j by (simp add: orderly_def)
        ultimately show ?thesis using w(7) j by (simp add: kept_def)
      qed
      moreover have "s_state (sm_sec m' i) = SEC_USING" using w(8) s1 by simp
      ultimately show ?thesis using lo o(1) w(5) by (auto simp: orderly_def)
    qed
    have rq: "wm_nvs_sm_request_sector env dev ?m need = Some (WM_NVS_ERR_OK, dev1, ?m1)" for need
      using idle a(1) by (cases rest) (simp_all add: wm_nvs_sm_request_sector_def)
    have "wm_nvs_sm_get_current_sector ?m1 = Some i"
      by (simp add: wm_nvs_sm_get_current_sector_def list_last_def)
    then have "write_plain_branch env dev st ?fs ?ix ?it g t k d len = Some (False, WM_NVS_ERR_OK, dev2, st\<lparr>st_sm := m2\<rparr>)"
      using guard cur full rq w(1) by (auto simp: write_plain_branch_def)
    with top w(2-6,9) od pm ent1(2) idle show ?thesis
      by (intro exI [of _ dev'] exI [of _ m']) simp
  qed
qed

text \<open>Writing the value that is stored changes nothing.\<close>

lemma write_same_refines:
  assumes ok: "sm_ok env dev (st_sm st)" and t: "t \<noteq> TYPE_BLOB" and len: "len \<le> length d"
    and same: "find (kv_any env g k) (sm_live dev (st_sm st)) = Some (x, take len d)" and tx: "it_type x = t"
  shows "wm_nvs_storage_write_item env dev st g t k d len = Some (WM_NVS_ERR_OK, dev, st)"
proof -
  let ?m = "st_sm st"
  let ?r = "find (\<lambda>e. wanted env g TYPE_ANY_WITHOUT_SEG (Some k) NVS_SEG_ID_ANY SEG_START_ANY (snd e)) (sm_entries dev ?m)"
  have st: "st\<lparr>st_sm := st_sm st\<rparr> = st" by simp
  note f = find_any_spec [OF ok, of g TYPE_ANY_WITHOUT_SEG k]
  obtain i j y where r: "?r = Some (i, j, y)" using f same by (cases ?r) auto
  have fa: "find_any env dev ?m g TYPE_ANY_WITHOUT_SEG k = (WM_NVS_ERR_OK, ?m, j, Some i, y)"
    and e: "entry_live dev ?m (i, j, y) = (x, take len d)" using f r same by auto
  have y: "y = x" using e by (simp add: entry_live_def)
  have mem: "(i, j, y) \<in> set (sm_entries dev ?m)" using r by (auto simp: find_Some_iff)
  have "storage_cmp_find_item env dev st (Some i) j y d len = WM_NVS_ERR_OK"
    using cmp_find_item_spec [OF ok mem len] e y by simp
  then show ?thesis
    using fa t tx y by (simp add: wm_nvs_storage_write_item_def write_plain_branch_def st)
qed

section \<open>Read after write\<close>

definition kv_unique :: "env \<Rightarrow> nat \<Rightarrow> bytes \<Rightarrow> (item \<times> bytes) list \<Rightarrow> bool" where
  "kv_unique env g k es \<longleftrightarrow> length (filter (kv_any env g k) es) \<le> 1"

lemma kv_match_any:
  assumes "kv_match env g t k e" and "it_type (fst e) < TYPE_BLOB_SEG"
  shows "kv_any env g k e"
  using assms by (auto simp: kv_match_def item_match_def)

lemma kv_match_type:
  assumes "kv_match env g t k e" and "t \<noteq> TYPE_ANY" and "t < TYPE_BLOB_SEG"
  shows "it_type (fst e) = t"
  using assms by (auto simp: kv_match_def item_match_def)

text \<open>After the old record of a key with one record is gone, the appended one is the answer.\<close>

lemma find_after_write:
  assumes u: "kv_unique env g k es" and g: "g < NVS_GROUP_ID_MAX" and t: "t \<noteq> TYPE_ANY" "t < TYPE_BLOB_SEG"
  shows "find (kv_match env g t k) (remove_first (kv_any env g k) es @
      [(new_item env g t k d len NVS_SEG_ID_ANY, v)]) = Some (new_item env g t k d len NVS_SEG_ID_ANY, v)"
    and "kv_unique env g k (remove_first (kv_any env g k) es @ [(new_item env g t k d len NVS_SEG_ID_ANY, v)])"
proof -
  let ?P = "kv_any env g k" and ?n = "(new_item env g t k d len NVS_SEG_ID_ANY, v)"
  have e: "filter ?P (remove_first ?P es) = []"
    using u by (cases "filter ?P es") (auto simp: remove_first_filter kv_unique_def)
  have sub: "kv_match env g t k x \<Longrightarrow> ?P x" for x
    using kv_match_any [of env g t k x] kv_match_type [of env g t k x] t by simp
  have "filter (kv_match env g t k) (remove_first ?P es) = filter (kv_match env g t k) (filter ?P (remove_first ?P es))"
    by (rule filter_sub, rule sub)
  then have f: "filter (kv_match env g t k) (remove_first ?P es) = []" using e by simp
  have m: "kv_match env g t k ?n" "?P ?n" using new_item_match [OF g t(2)] by blast+
  show "find (kv_match env g t k) (remove_first ?P es @ [?n]) = Some ?n"
    unfolding find_filter using f m by simp
  show "kv_unique env g k (remove_first ?P es @ [?n])" using e m(2) by (simp add: kv_unique_def)
qed

end
