(* ===== verification/NvsKvStore.thy ===== *)
theory NvsKvStore
  imports NvsKvWrite
begin

text \<open>
  The storage as a store of records: the contract \<open>record_store\<close> holds for the modelled write,
  read and delete operations on a partition without blobs. A state is the flash device with
  the storage object; a key is a group id with a name.
\<close>

definition st_content :: "flash_dev \<times> storage \<Rightarrow> (item \<times> bytes) list" where
  "st_content s = sm_live (fst s) (st_sm (snd s))"

definition st_ok :: "env \<Rightarrow> flash_dev \<times> storage \<Rightarrow> bool" where
  "st_ok env s \<longleftrightarrow> sm_ok env (fst s) (st_sm (snd s)) \<and> (\<forall>e \<in> set (st_content s). it_type (fst e) \<noteq> TYPE_BLOB)"

definition st_owns :: "env \<Rightarrow> nat \<times> bytes \<Rightarrow> item \<times> bytes \<Rightarrow> bool" where
  "st_owns env gk = kv_any env (fst gk) (snd gk)"

definition st_is_of :: "env \<Rightarrow> nat \<Rightarrow> nat \<times> bytes \<Rightarrow> item \<times> bytes \<Rightarrow> bool" where
  "st_is_of env t gk = kv_match env (fst gk) t (snd gk)"

definition st_mk :: "env \<Rightarrow> nat \<Rightarrow> nat \<times> bytes \<Rightarrow> bytes \<Rightarrow> item \<times> bytes" where
  "st_mk env t gk v = (new_item env (fst gk) t (snd gk) v (length v) NVS_SEG_ID_ANY, v)"

definition st_valid :: "nat \<Rightarrow> nat \<times> bytes \<Rightarrow> bytes \<Rightarrow> bool" where
  "st_valid t gk v \<longleftrightarrow> t \<noteq> TYPE_ANY \<and> t < TYPE_BLOB \<and> fst gk < NVS_GROUP_ID_MAX \<and>
     length v \<le> NVS_SINGLE_ITEM_MAX_DATA"

definition st_get :: "env \<Rightarrow> flash_dev \<times> storage \<Rightarrow> nat \<Rightarrow> nat \<times> bytes \<Rightarrow> bytes option" where
  "st_get env s t gk =
     (case wm_nvs_storage_read_item env (fst s) (snd s) (fst gk) t (snd gk) (replicate 4095 0) 4095 of
        (err, _, _, buf, n) \<Rightarrow> if err = WM_NVS_ERR_OK then Some (take n buf) else None)"

definition st_put :: "env \<Rightarrow> flash_dev \<times> storage \<Rightarrow> nat \<Rightarrow> nat \<times> bytes \<Rightarrow> bytes \<Rightarrow> flash_dev \<times> storage" where
  "st_put env s t gk v =
     (case wm_nvs_storage_write_item env (fst s) (snd s) (fst gk) t (snd gk) v (length v) of
        None \<Rightarrow> s | Some (_, dev, st) \<Rightarrow> (dev, st))"

definition st_del :: "env \<Rightarrow> flash_dev \<times> storage \<Rightarrow> nat \<times> bytes \<Rightarrow> flash_dev \<times> storage" where
  "st_del env s gk =
     (case wm_nvs_storage_del_item env (fst s) (snd s) (fst gk) TYPE_ANY_WITHOUT_SEG (snd gk) of
        (_, dev, st) \<Rightarrow> (dev, st))"

lemma set_remove_first: "set (remove_first P xs) \<subseteq> set xs"
  by (induction xs) auto

lemma live_length:
  assumes "sm_ok env dev m" and "(x, d) \<in> set (sm_live dev m)"
  shows "length d = it_length x" and "length d < 4096"
proof -
  obtain e where e: "e \<in> set (sm_entries dev m)" "(x, d) = entry_live dev m e"
    using assms(2) by (auto simp: sm_live_entries)
  obtain i j y where ij: "e = (i, j, y)" by (cases e)
  note se = sm_entry_sector [OF assms(1) e(1) [unfolded ij]]
  have "item_wf y" using sector_ok_entry(5) [OF se(3,2)] .
  then show "length d = it_length x" "length d < 4096"
    using e(2) ij by (auto simp: entry_live_def entry_data_def item_wf_def)
qed

text \<open>A write, in the three cases of the contract.\<close>

lemma st_write_cases:
  fixes gk :: "nat \<times> bytes"
  assumes ok: "st_ok env (dev, st)" and v: "st_valid t gk v" and rdy: "write_ready (st_sm st) (length v)"
  shows "\<exists>dev' m'. wm_nvs_storage_write_item env dev st (fst gk) t (snd gk) v (length v) =
      Some (WM_NVS_ERR_OK, dev', st\<lparr>st_sm := m'\<rparr>) \<and> sm_ok env dev' m' \<and>
    sm_live dev' m' = (case find (st_owns env gk) (sm_live dev (st_sm st)) of
      None \<Rightarrow> sm_live dev (st_sm st) @ [st_mk env t gk v]
    | Some r \<Rightarrow> if st_is_of env t gk r \<and> snd r = v then sm_live dev (st_sm st)
                else remove_first (st_owns env gk) (sm_live dev (st_sm st)) @ [st_mk env t gk v])"
proof -
  let ?P = "st_owns env gk" and ?l = "sm_live dev (st_sm st)"
  have sm: "sm_ok env dev (st_sm st)" and nb: "\<forall>e \<in> set ?l. it_type (fst e) \<noteq> TYPE_BLOB"
    using ok by (auto simp: st_ok_def st_content_def)
  have t: "t \<noteq> TYPE_BLOB" "t < TYPE_BLOB_SEG" "t \<noteq> TYPE_ANY" and len: "length v \<le> NVS_SINGLE_ITEM_MAX_DATA"
    using v by (auto simp: st_valid_def)
  have iso: "st_is_of env t gk r \<longleftrightarrow> it_type (fst r) = t" if "?P r" for r
    using that t by (auto simp: st_is_of_def st_owns_def kv_match_def item_match_def)
  show ?thesis
  proof (cases "\<exists>r. find ?P ?l = Some r \<and> st_is_of env t gk r \<and> snd r = v")
    case True
    then obtain r where r: "find ?P ?l = Some r" "st_is_of env t gk r" "snd r = v" by blast
    have "find (kv_any env (fst gk) (snd gk)) ?l = Some (fst r, take (length v) v)"
      using r(1,3) by (cases r) (simp add: st_owns_def)
    moreover have "it_type (fst r) = t" using iso [of r] find_SomeD [OF r(1)] r(2) by simp
    ultimately have "wm_nvs_storage_write_item env dev st (fst gk) t (snd gk) v (length v) =
        Some (WM_NVS_ERR_OK, dev, st)"
      by (intro write_same_refines [OF sm t(1) order_refl])
    with r sm show ?thesis by (intro exI [of _ dev] exI [of _ "st_sm st"]) simp
  next
    case False
    have pl: "it_type x \<noteq> TYPE_BLOB \<and> \<not> (it_type x = t \<and> d = take (length v) v)"
      if f: "find (kv_any env (fst gk) (snd gk)) ?l = Some (x, d)" for x d
    proof -
      have f': "find ?P ?l = Some (x, d)" using f by (simp add: st_owns_def)
      have "(x, d) \<in> set ?l" "?P (x, d)" using find_SomeD [OF f'] by auto
      moreover have "\<not> (st_is_of env t gk (x, d) \<and> snd (x, d) = v)" using False f' by blast
      moreover have "it_type (fst (x, d)) \<noteq> TYPE_BLOB" using nb calculation(1) by blast
      ultimately show ?thesis using iso [of "(x, d)"] by simp
    qed
    obtain dev' m' where w: "wm_nvs_storage_write_item env dev st (fst gk) t (snd gk) v (length v) =
        Some (WM_NVS_ERR_OK, dev', st\<lparr>st_sm := m'\<rparr>)" "sm_ok env dev' m'"
      "sm_live dev' m' = remove_first (kv_any env (fst gk) (snd gk)) ?l @
        [(new_item env (fst gk) t (snd gk) v (length v) NVS_SEG_ID_ANY, take (length v) v)]"
      using write_plain_refines [OF sm rdy t(1) len order_refl pl] by blast
    have "sm_live dev' m' = (case find ?P ?l of None \<Rightarrow> ?l @ [st_mk env t gk v]
        | Some r \<Rightarrow> if st_is_of env t gk r \<and> snd r = v then ?l else remove_first ?P ?l @ [st_mk env t gk v])"
    proof -
      have e: "sm_live dev' m' = remove_first ?P ?l @ [st_mk env t gk v]"
        using w(3) by (simp add: st_mk_def st_owns_def)
      show ?thesis
      proof (cases "find ?P ?l")
        case None
        then show ?thesis unfolding e by (simp add: remove_first_none)
      next
        case (Some r)
        with False have "\<not> (st_is_of env t gk r \<and> snd r = v)" by blast
        with Some show ?thesis unfolding e by (simp only: option.case if_False)
      qed
    qed
    with w(1,2) show ?thesis by (intro exI [of _ dev'] exI [of _ m']) simp
  qed
qed

lemma st_put_eq:
  assumes "st_ok env s" and "st_valid t gk v" and "write_ready (st_sm (snd s)) (length v)"
  shows "st_ok env (st_put env s t gk v)"
    and "st_content (st_put env s t gk v) = (case find (st_owns env gk) (st_content s) of
      None \<Rightarrow> st_content s @ [st_mk env t gk v]
    | Some r \<Rightarrow> if st_is_of env t gk r \<and> snd r = v then st_content s
                else remove_first (st_owns env gk) (st_content s) @ [st_mk env t gk v])"
proof -
  obtain dev st where s: "s = (dev, st)" by (cases s)
  obtain dev' m' where w: "wm_nvs_storage_write_item env dev st (fst gk) t (snd gk) v (length v) =
      Some (WM_NVS_ERR_OK, dev', st\<lparr>st_sm := m'\<rparr>)" "sm_ok env dev' m'"
    "sm_live dev' m' = (case find (st_owns env gk) (sm_live dev (st_sm st)) of
      None \<Rightarrow> sm_live dev (st_sm st) @ [st_mk env t gk v]
    | Some r \<Rightarrow> if st_is_of env t gk r \<and> snd r = v then sm_live dev (st_sm st)
                else remove_first (st_owns env gk) (sm_live dev (st_sm st)) @ [st_mk env t gk v])"
    using st_write_cases [OF assms(1) [unfolded s] assms(2)] assms(3) s by auto
  have p: "st_put env s t gk v = (dev', st\<lparr>st_sm := m'\<rparr>)" using w(1) s by (simp add: st_put_def)
  show c: "st_content (st_put env s t gk v) = (case find (st_owns env gk) (st_content s) of
      None \<Rightarrow> st_content s @ [st_mk env t gk v]
    | Some r \<Rightarrow> if st_is_of env t gk r \<and> snd r = v then st_content s
                else remove_first (st_owns env gk) (st_content s) @ [st_mk env t gk v])"
  proof -
    have cs: "st_content s = sm_live dev (st_sm st)" "st_content (st_put env s t gk v) = sm_live dev' m'"
      using p s by (simp_all add: st_content_def)
    show ?thesis unfolding cs by (rule w(3))
  qed
  have "set (st_content (st_put env s t gk v)) \<subseteq> insert (st_mk env t gk v) (set (st_content s))"
    using c set_remove_first [of "st_owns env gk" "st_content s"] by (auto split: option.splits if_splits)
  moreover have "it_type (fst (st_mk env t gk v)) \<noteq> TYPE_BLOB"
    using assms(2) by (simp add: st_mk_def new_item_def st_valid_def)
  ultimately have "\<forall>e \<in> set (st_content (st_put env s t gk v)). it_type (fst e) \<noteq> TYPE_BLOB"
    using assms(1) by (auto simp: st_ok_def)
  then show "st_ok env (st_put env s t gk v)"
    using w(2) p unfolding st_ok_def by simp
qed

lemma st_del_eq:
  assumes "st_ok env s"
  shows "st_ok env (st_del env s gk)" and "st_content (st_del env s gk) = remove_first (st_owns env gk) (st_content s)"
proof -
  obtain dev st where s: "s = (dev, st)" by (cases s)
  have sm: "sm_ok env dev (st_sm st)" and nb: "\<forall>e \<in> set (sm_live dev (st_sm st)). it_type (fst e) \<noteq> TYPE_BLOB"
    using assms s by (auto simp: st_ok_def st_content_def)
  have pl: "\<forall>x d. find (kv_match env (fst gk) TYPE_ANY_WITHOUT_SEG (snd gk)) (sm_live dev (st_sm st)) =
      Some (x, d) \<longrightarrow> it_type x \<noteq> TYPE_BLOB"
    using nb find_SomeD by fastforce
  obtain dev' m' err where d: "wm_nvs_storage_del_item env dev st (fst gk) TYPE_ANY_WITHOUT_SEG (snd gk) =
      (err, dev', st\<lparr>st_sm := m'\<rparr>)" "sm_ok env dev' m'"
    "sm_live dev' m' = remove_first (kv_any env (fst gk) (snd gk)) (sm_live dev (st_sm st))"
    using del_item_refines [where g = "fst gk" and t = TYPE_ANY_WITHOUT_SEG and k = "snd gk", OF sm pl]
    by blast
  have p: "st_del env s gk = (dev', st\<lparr>st_sm := m'\<rparr>)" using d(1) s by (simp add: st_del_def)
  show c: "st_content (st_del env s gk) = remove_first (st_owns env gk) (st_content s)"
    using d(3) p s by (simp add: st_content_def st_owns_def)
  have "set (st_content (st_del env s gk)) \<subseteq> set (st_content s)" unfolding c by (rule set_remove_first)
  then have "\<forall>e \<in> set (st_content (st_del env s gk)). it_type (fst e) \<noteq> TYPE_BLOB"
    using assms by (auto simp: st_ok_def)
  then show "st_ok env (st_del env s gk)" using d(2) p unfolding st_ok_def by simp
qed

lemma st_get_eq:
  assumes "st_ok env s" and "st_valid t gk w"
  shows "st_get env s t gk = map_option snd (find (st_is_of env t gk) (st_content s))"
proof -
  obtain dev st where s: "s = (dev, st)" by (cases s)
  have sm: "sm_ok env dev (st_sm st)" using assms s by (simp add: st_ok_def)
  have t: "t \<noteq> TYPE_BLOB" using assms(2) by (auto simp: st_valid_def)
  note r = read_item_refines [OF sm t, of "replicate 4095 0" 4095 "fst gk" "snd gk"]
  show ?thesis
  proof (cases "find (st_is_of env t gk) (st_content s)")
    case None
    then show ?thesis using r s by (simp add: st_get_def st_is_of_def st_content_def)
  next
    case (Some e)
    obtain x d where e: "e = (x, d)" by (cases e)
    have "(x, d) \<in> set (sm_live dev (st_sm st))"
      using find_SomeD [OF Some] e s by (simp add: st_content_def)
    note l = live_length [OF sm this]
    have "find (kv_match env (fst gk) t (snd gk)) (sm_live dev (st_sm st)) = Some (x, d)"
      using Some s e by (simp add: st_is_of_def st_content_def)
    then show ?thesis using r l Some s e by (simp add: st_get_def overlay_def)
  qed
qed

text \<open>The contract.\<close>

interpretation rs: record_store "st_ok env" st_content "st_owns env" "st_is_of env" snd "st_mk env" st_valid
  "\<lambda>s v. write_ready (st_sm (snd s)) (length v)" "st_get env" "st_put env" "st_del env"
  for env
proof unfold_locales
  fix s t gk v w r t' v'
  show "st_get env s t gk = map_option snd (find (st_is_of env t gk) (st_content s))"
    if "st_ok env s" "st_valid t gk w" using that by (rule st_get_eq)
  show "st_ok env (st_put env s t gk v)"
    "st_content (st_put env s t gk v) = (case find (st_owns env gk) (st_content s) of
      None \<Rightarrow> st_content s @ [st_mk env t gk v]
    | Some r \<Rightarrow> if st_is_of env t gk r \<and> snd r = v then st_content s
                else remove_first (st_owns env gk) (st_content s) @ [st_mk env t gk v])"
    if "st_ok env s" "st_valid t gk v" "write_ready (st_sm (snd s)) (length v)"
    using st_put_eq [OF that] by auto
  show "st_ok env (st_del env s gk)" "st_content (st_del env s gk) = remove_first (st_owns env gk) (st_content s)"
    if "st_ok env s" using st_del_eq [OF that] by auto
  show "st_is_of env t gk (st_mk env t gk v) \<and> snd (st_mk env t gk v) = v" if "st_valid t gk v"
    using that new_item_match [of "fst gk" t t env "snd gk" v "length v" v]
    by (auto simp: st_is_of_def st_mk_def st_valid_def)
  show "st_owns env gk r" if "st_valid t gk v" "st_is_of env t gk r"
    using that kv_match_any [of env "fst gk" t "snd gk" r] kv_match_type [of env "fst gk" t "snd gk" r]
    by (auto simp: st_is_of_def st_owns_def st_valid_def)
  show "t = t'" if "st_valid t gk v" "st_valid t' gk v'" "st_is_of env t gk r" "st_is_of env t' gk r"
    using that kv_match_type [of env "fst gk" t "snd gk" r] kv_match_type [of env "fst gk" t' "snd gk" r]
    by (auto simp: st_is_of_def st_valid_def)
qed

section \<open>Keys that never share a record\<close>

text \<open>Lookups compare the stored name on the length of the key, so two keys of one group can share a
  record when one is a prefix of the other (and their hashes collide); otherwise never.\<close>

definition keys_apart :: "bytes \<Rightarrow> bytes \<Rightarrow> bool" where
  "keys_apart a b \<longleftrightarrow> (\<exists>j < min (strnlen a NVS_MAX_KEY_LEN) (strnlen b NVS_MAX_KEY_LEN). a ! j \<noteq> b ! j)"

lemma strncmp_nth:
  "strncmp_eq a b n \<Longrightarrow> n \<le> length b \<Longrightarrow> \<forall>i < n. b ! i \<noteq> 0 \<Longrightarrow> j < n \<Longrightarrow> a ! j = b ! j"
proof (induction a b n arbitrary: j rule: strncmp_eq.induct)
  case (2 a b n)
  obtain y ys where b: "b = y # ys" using 2(3) by (cases b) auto
  have "b ! 0 \<noteq> 0" using 2(4) by blast
  then have y: "y \<noteq> 0" using b by simp
  then obtain x xs where a: "a = x # xs" using 2(2) b by (cases a) (auto simp: c_at_def)
  have tl: "\<forall>i < n. ys ! i \<noteq> 0" using 2(4) b by (metis Suc_less_eq nth_Cons_Suc)
  show ?case
    using 2(1) [of "j - 1"] 2(2,3,5) a b y tl by (cases j) (auto simp: c_at_def)
qed simp

lemma strnlen_nonzero: "j < strnlen k n \<Longrightarrow> k ! j \<noteq> 0"
proof -
  assume j: "j < strnlen k n"
  have "takeWhile (\<lambda>b. b \<noteq> 0) (take n k) ! j \<noteq> 0"
    using j nth_mem [of j "takeWhile (\<lambda>b. b \<noteq> 0) (take n k)"] set_takeWhileD [of _ "\<lambda>b. b \<noteq> 0" "take n k"]
    unfolding strnlen_def by metis
  moreover have "takeWhile (\<lambda>b. b \<noteq> 0) (take n k) ! j = take n k ! j"
    using j by (intro takeWhile_nth) (simp add: strnlen_def)
  moreover have "j < n" using j length_takeWhile_le [of "\<lambda>b. b \<noteq> 0" "take n k"] by (simp add: strnlen_def)
  ultimately show ?thesis by simp
qed

lemma keys_apart_owns:
  assumes "keys_apart a b" and "st_owns env (g, a) r"
  shows "\<not> st_owns env (g', b) r"
proof
  assume b: "st_owns env (g', b) r"
  have c: "strncmp_eq (it_name (fst r)) a (strnlen a 15)" "strncmp_eq (it_name (fst r)) b (strnlen b 15)"
    using assms(2) b by (auto simp: st_owns_def kv_match_def item_match_def)
  obtain j where j: "j < strnlen a 15" "j < strnlen b 15" "a ! j \<noteq> b ! j"
    using assms(1) by (auto simp: keys_apart_def)
  show False
    using strncmp_nth [OF c(1) strnlen_length _ j(1)] strncmp_nth [OF c(2) strnlen_length _ j(2)]
      strnlen_nonzero j(3) by (metis (full_types))
qed

lemma apart_keys:
  assumes "\<forall>a \<in> ks. \<forall>b \<in> ks. a \<noteq> b \<longrightarrow> keys_apart a b"
  shows "rs.apart env (Pair g ` ks)"
  using assms keys_apart_owns unfolding rs.apart_def by blast

end
