(* ===== verification/NvsManager.thy ===== *)
theory NvsManager
  imports NvsStorageOps
begin

text \<open>
  The global state of the store: the port layer (\<open>wm_nvs_porting.c\<close>), the mounted partitions
  and open handles (\<open>wm_nvs_partition_manager.c\<close>, \<open>wm_nvs_handler.c\<close>) and the iterators
  (\<open>wm_nvs_iterator.c\<close>). Heap objects are kept in association lists from their address; the
  two global \<open>dl_list\<close>s are the lists themselves, in order. Addresses are never reused. A
  null pointer is \<open>None\<close>. An outcome of \<open>None\<close> is a run that does not return normally: a
  null or freed object is dereferenced, or a callee does not return.
\<close>

record handle_info =
  hi_storage :: nat
  hi_group_id :: nat
  hi_valid :: bool
  hi_mode :: nat

record entry_info =
  ei_group :: bytes
  ei_key :: bytes
  ei_type :: nat
  ei_group_id :: nat
  ei_length :: nat

record iter_info =
  ii_storage :: nat
  ii_sector :: "nat option"
  ii_slice_index :: nat
  ii_group_id :: nat
  ii_type :: nat
  ii_info :: entry_info

record nvs =
  nv_dev :: "flash_dev option"
  nv_table :: part_table
  nv_mutex :: bool
  nv_storages :: "(nat \<times> storage) list"
  nv_handles :: "(nat \<times> handle_info) list"
  nv_iters :: "(nat \<times> iter_info) list"
  nv_next :: nat

abbreviation (input) OP_READ_ONLY :: nat where "OP_READ_ONLY \<equiv> 0"
abbreviation (input) OP_READ_WRITE :: nat where "OP_READ_WRITE \<equiv> 1"
abbreviation (input) OP_MAX :: nat where "OP_MAX \<equiv> 2"
abbreviation (input) NVS_MAX_HANDLE_NUM :: nat where "NVS_MAX_HANDLE_NUM \<equiv> 64"

definition HANDLE_T_SIZE :: nat where "HANDLE_T_SIZE = 20"
definition ITER_T_SIZE :: nat where "ITER_T_SIZE = 60"

definition alist_set :: "nat \<Rightarrow> 'a \<Rightarrow> (nat \<times> 'a) list \<Rightarrow> (nat \<times> 'a) list" where
  "alist_set a x xs = map (\<lambda>(b, y). if b = a then (b, x) else (b, y)) xs"

section \<open>The port layer\<close>

definition wm_nvs_port_init :: "env \<Rightarrow> nvs \<Rightarrow> int \<times> nvs" where
  "wm_nvs_port_init env s =
     (if nv_mutex s then (WM_NVS_ERR_OK, s)
      else (mutex_create_ret env, s\<lparr>nv_mutex := (mutex_create_ret env = 0)\<rparr>))"

definition wm_nvs_port_deinit :: "nvs \<Rightarrow> int \<times> nvs" where
  "wm_nvs_port_deinit s = (WM_NVS_ERR_OK, s\<lparr>nv_mutex := False\<rparr>)"

text \<open>\<open>g_crc_dev\<close> is set when the mutex is created and never reset.\<close>

definition wm_nvs_port_is_init :: "env \<Rightarrow> nvs \<Rightarrow> bool" where
  "wm_nvs_port_is_init env s \<longleftrightarrow> nv_mutex s \<and> crc_dev env"

definition wm_nvs_port_mutex_lock :: "env \<Rightarrow> nvs \<Rightarrow> int" where
  "wm_nvs_port_mutex_lock env s =
     (if \<not> nv_mutex s then WM_NVS_ERR_NOT_INIT
      else if isr_count env > 0 then WM_NVS_ERR_CALL_IN_ISR
      else mutex_acquire_ret env)"

section \<open>Handles\<close>

definition wm_nvs_handler_open ::
  "env \<Rightarrow> nat \<Rightarrow> nat \<Rightarrow> nat \<Rightarrow> int \<times> handle_info option" where
  "wm_nvs_handler_open env storage group_id mode =
     (if alloc_ok env HANDLE_T_SIZE
      then (WM_NVS_ERR_OK, Some \<lparr>hi_storage = storage, hi_group_id = group_id, hi_valid = True,
                                 hi_mode = mode\<rparr>)
      else (WM_NVS_ERR_NO_MEM, None))"

definition wm_nvs_handler_close :: "nat \<Rightarrow> nvs \<Rightarrow> int \<times> nvs" where
  "wm_nvs_handler_close h s =
     (WM_NVS_ERR_OK, s\<lparr>nv_handles := filter (\<lambda>(a, _). a \<noteq> h) (nv_handles s)\<rparr>)"

section \<open>The partition manager\<close>

definition wm_nvs_ptm_is_in_using :: "nvs \<Rightarrow> bool" where
  "wm_nvs_ptm_is_in_using s \<longleftrightarrow> nv_storages s \<noteq> []"

definition wm_nvs_ptm_find_storage :: "nvs \<Rightarrow> bytes \<Rightarrow> (nat \<times> storage) option" where
  "wm_nvs_ptm_find_storage s partition_name =
     find (\<lambda>(a, st). strcmp_eq (pt_name (sm_pt (st_sm st))) partition_name) (nv_storages s)"

definition uninit_pt :: pt where
  "uninit_pt = \<lparr>pt_name = [], pt_offset = 0, pt_sec_num = 0, pt_sec_size = 0, pt_size = 0,
     pt_encrypted = 0, pt_readonly = 0\<rparr>"

definition wm_nvs_ptm_init :: "env \<Rightarrow> nvs \<Rightarrow> bytes \<Rightarrow> (int \<times> nvs) option" where
  "wm_nvs_ptm_init env s partition_name =
     (if wm_nvs_ptm_find_storage s partition_name \<noteq> None then Some (WM_NVS_ERR_AREADY_INIT, s)
      else case wm_nvs_pt_init env (nv_dev s) (nv_table s) partition_name uninit_pt of
             None \<Rightarrow> None
           | Some (err, p) \<Rightarrow>
               if err \<noteq> WM_NVS_ERR_OK then Some (err, s)
               else (case nv_dev s of
                       None \<Rightarrow> None
                     | Some dev \<Rightarrow>
                         (case wm_nvs_storage_init env dev p of
                            None \<Rightarrow> None
                          | Some (err, dev, st) \<Rightarrow>
                              let s = s\<lparr>nv_dev := Some dev\<rparr>
                              in Some (err,
                                   case (if err = WM_NVS_ERR_OK then st else None) of
                                     None \<Rightarrow> s
                                   | Some st \<Rightarrow> s\<lparr>nv_storages := nv_storages s @ [(nv_next s, st)],
                                                  nv_next := nv_next s + 1\<rparr>))))"

definition wm_nvs_ptm_deinit :: "nvs \<Rightarrow> bytes \<Rightarrow> int \<times> nvs" where
  "wm_nvs_ptm_deinit s partition_name =
     (case wm_nvs_ptm_find_storage s partition_name of
        None \<Rightarrow> (WM_NVS_ERR_NOT_FOUND, s)
      | Some (a, st) \<Rightarrow>
          (fst (wm_nvs_storage_deinit st),
           s\<lparr>nv_handles := filter (\<lambda>(_, h). hi_storage h \<noteq> a) (nv_handles s),
             nv_storages := filter (\<lambda>(b, _). b \<noteq> a) (nv_storages s)\<rparr>))"

text \<open>The handle is the address of the new object.\<close>

definition wm_nvs_ptm_open_handle ::
  "env \<Rightarrow> nvs \<Rightarrow> bytes \<Rightarrow> bytes \<Rightarrow> nat \<Rightarrow> (int \<times> nvs \<times> nat option) option" where
  "wm_nvs_ptm_open_handle env s partition_name grp mode =
     (if nv_storages s = [] then Some (WM_NVS_ERR_NOT_INIT, s, None)
      else if length (nv_handles s) \<ge> NVS_MAX_HANDLE_NUM then Some (WM_NVS_ERR_FAIL, s, None)
      else case wm_nvs_ptm_find_storage s partition_name of
             None \<Rightarrow> Some (WM_NVS_ERR_NOT_FOUND, s, None)
           | Some (a, st) \<Rightarrow>
               if mode = OP_READ_WRITE \<and> pt_readonly (sm_pt (st_sm st)) \<noteq> 0
               then Some (WM_NVS_ERR_READ_ONLY, s, None)
               else (case nv_dev s of
                       None \<Rightarrow> None
                     | Some dev \<Rightarrow>
                         (case wm_nvs_storage_open_group env dev st grp True of
                            None \<Rightarrow> None
                          | Some (err, dev, st, group_id) \<Rightarrow>
                              let s = s\<lparr>nv_dev := Some dev,
                                        nv_storages := alist_set a st (nv_storages s)\<rparr>
                              in if err \<noteq> WM_NVS_ERR_OK then Some (err, s, None)
                                 else case wm_nvs_handler_open env a group_id mode of
                                        (err, None) \<Rightarrow> Some (err, s, None)
                                      | (_, Some h) \<Rightarrow>
                                          Some (WM_NVS_ERR_OK,
                                                s\<lparr>nv_handles := nv_handles s @ [(nv_next s, h)],
                                                  nv_next := nv_next s + 1\<rparr>,
                                                Some (nv_next s)))))"

definition wm_nvs_ptm_close_handle :: "nvs \<Rightarrow> nat \<Rightarrow> int \<times> nvs" where
  "wm_nvs_ptm_close_handle s h =
     (if h \<in> fst ` set (nv_handles s) then wm_nvs_handler_close h s
      else (WM_NVS_ERR_INVALID_HANDLE, s))"

definition wm_nvs_ptm_is_handle_valid :: "nvs \<Rightarrow> nat \<Rightarrow> bool" where
  "wm_nvs_ptm_is_handle_valid s h =
     (case map_of (nv_handles s) h of None \<Rightarrow> False | Some hi \<Rightarrow> hi_valid hi)"

definition wm_nvs_ptm_get_status ::
  "nvs \<Rightarrow> bytes \<Rightarrow> nvs_status \<Rightarrow> int \<times> nvs_status" where
  "wm_nvs_ptm_get_status s partition_name status =
     (case wm_nvs_ptm_find_storage s partition_name of
        None \<Rightarrow> (WM_NVS_ERR_NOT_INIT, status)
      | Some (a, st) \<Rightarrow>
          wm_nvs_sm_get_status (st_sm st)
            \<lparr>ns_total_size = 0, ns_using_size = 0, ns_droped_size = 0, ns_free_size = 0,
             ns_group_num = u8n (length (st_groups st)),
             ns_handle_num = u8n (length (filter (\<lambda>(_, h). hi_storage h = a) (nv_handles s)))\<rparr>)"

section \<open>Iterators\<close>

text \<open>The sectors from the iterator's one to the end of the active list. A sector that has left
  the active list makes the C loop run out of it: no result.\<close>

fun iterator_walk ::
  "env \<Rightarrow> flash_dev \<Rightarrow> sm \<Rightarrow> iter_info \<Rightarrow> nat \<Rightarrow> nat list \<Rightarrow> sm \<times> iter_info \<times> item option" where
  "iterator_walk env dev m it look_up_type [] = (m, it, None)"
| "iterator_walk env dev m it look_up_type (i # is) =
     (case wm_nvs_sector_find_item env (sm_pt m) dev (sm_sec m i) (ii_group_id it) look_up_type None
             (ii_slice_index it) blank_item NVS_SEG_ID_ANY SEG_START_ANY of
        (err, sec, idx, item) \<Rightarrow>
          let m = sm_upd m i sec
          in if err = WM_NVS_ERR_OK
             then (m, it\<lparr>ii_sector := Some i, ii_slice_index := idx + wm_nvs_item_get_span item\<rparr>,
                   Some item)
             else iterator_walk env dev m (it\<lparr>ii_slice_index := 0\<rparr>) look_up_type is)"

definition iterator_entry :: "storage \<Rightarrow> item \<Rightarrow> entry_info" where
  "iterator_entry st item =
     \<lparr>ei_group = (case (if it_group_id item > 0
                        then wm_nvs_storage_find_group_by_id st (it_group_id item) else None) of
                   None \<Rightarrow> [] | Some g \<Rightarrow> g_name g),
      ei_key = takeWhile (\<lambda>b. b \<noteq> 0) (it_name item),
      ei_type = it_type item, ei_group_id = it_group_id item,
      ei_length = (if it_type item = TYPE_BLOB then it_all_size item else it_length item)\<rparr>"

text \<open>The argument is \<open>*iterator\<close>; the result has its new value.\<close>

definition wm_nvs_iterator_next ::
  "env \<Rightarrow> nvs \<Rightarrow> nat option \<Rightarrow> (int \<times> nvs \<times> nat option) option" where
  "wm_nvs_iterator_next env s iterator =
     (case iterator of None \<Rightarrow> None | Some a \<Rightarrow>
      (case map_of (nv_iters s) a of None \<Rightarrow> None | Some it \<Rightarrow>
       (case (nv_dev s, map_of (nv_storages s) (ii_storage it)) of
          (Some dev, Some st) \<Rightarrow>
            let m = st_sm st;
                look_up_type = (if ii_type it = TYPE_ANY then TYPE_ANY_WITHOUT_SEG else ii_type it);
                it = (case ii_sector it of
                        None \<Rightarrow> it\<lparr>ii_sector := (case sm_active m of [] \<Rightarrow> None | i # _ \<Rightarrow> Some i),
                                   ii_slice_index := 0\<rparr>
                      | Some _ \<Rightarrow> it)
            in (case ii_sector it of None \<Rightarrow> None | Some i \<Rightarrow>
                  if i \<notin> set (sm_active m) then None
                  else case iterator_walk env dev m it look_up_type
                              (dropWhile (\<lambda>j. j \<noteq> i) (sm_active m)) of
                         (m, it, found) \<Rightarrow>
                           let s = s\<lparr>nv_storages := alist_set (ii_storage it) (st\<lparr>st_sm := m\<rparr>)
                                                      (nv_storages s)\<rparr>
                           in (case found of
                                 Some item \<Rightarrow>
                                   Some (WM_NVS_ERR_OK,
                                         s\<lparr>nv_iters := alist_set a
                                             (it\<lparr>ii_info := iterator_entry st item\<rparr>) (nv_iters s)\<rparr>,
                                         Some a)
                               | None \<Rightarrow>
                                   Some (WM_NVS_ERR_NOT_FOUND,
                                         s\<lparr>nv_iters := filter (\<lambda>(b, _). b \<noteq> a) (nv_iters s)\<rparr>, None)))
        | _ \<Rightarrow> None)))"

definition empty_entry :: entry_info where
  "empty_entry = \<lparr>ei_group = [], ei_key = [], ei_type = 0, ei_group_id = 0, ei_length = 0\<rparr>"

definition iterator_find ::
  "env \<Rightarrow> nvs \<Rightarrow> nat \<Rightarrow> nat \<Rightarrow> nat \<Rightarrow> nat option \<Rightarrow> (int \<times> nvs \<times> nat option) option" where
  "iterator_find env s storage group_id type out =
     (if \<not> alloc_ok env ITER_T_SIZE then Some (WM_NVS_ERR_NO_MEM, s, out)
      else
        let a = nv_next s;
            it = \<lparr>ii_storage = storage, ii_sector = None, ii_slice_index = 0, ii_group_id = group_id,
                  ii_type = type, ii_info = empty_entry\<rparr>
        in wm_nvs_iterator_next env (s\<lparr>nv_iters := nv_iters s @ [(a, it)], nv_next := a + 1\<rparr>) (Some a))"

definition wm_nvs_iterator_find ::
  "env \<Rightarrow> nvs \<Rightarrow> bytes \<Rightarrow> bytes option \<Rightarrow> nat \<Rightarrow> nat option \<Rightarrow> (int \<times> nvs \<times> nat option) option" where
  "wm_nvs_iterator_find env s partition_name grp type out =
     (case wm_nvs_ptm_find_storage s partition_name of
        None \<Rightarrow> Some (WM_NVS_ERR_NOT_INIT, s, out)
      | Some (a, st) \<Rightarrow>
          (case grp of
             None \<Rightarrow> iterator_find env s a NVS_GROUP_ID_ANY type out
           | Some g \<Rightarrow>
               (case wm_nvs_storage_find_group_by_name st g of
                  None \<Rightarrow> Some (WM_NVS_ERR_NOT_FOUND, s, out)
                | Some node \<Rightarrow> iterator_find env s a (g_id node) type out)))"

definition wm_nvs_iterator_find_by_handle ::
  "env \<Rightarrow> nvs \<Rightarrow> nat \<Rightarrow> nat \<Rightarrow> nat option \<Rightarrow> (int \<times> nvs \<times> nat option) option" where
  "wm_nvs_iterator_find_by_handle env s h type out =
     (case map_of (nv_handles s) h of
        None \<Rightarrow> None
      | Some hi \<Rightarrow> iterator_find env s (hi_storage hi) (hi_group_id hi) type out)"

definition wm_nvs_iterator_info :: "nvs \<Rightarrow> nat \<Rightarrow> (int \<times> entry_info) option" where
  "wm_nvs_iterator_info s a =
     map_option (\<lambda>it. (WM_NVS_ERR_OK, ii_info it)) (map_of (nv_iters s) a)"

text \<open>A storage operation on the object at address \<open>a\<close>, and its effect on the global state.\<close>

definition on_storage ::
  "nvs \<Rightarrow> nat \<Rightarrow> (flash_dev \<Rightarrow> storage \<Rightarrow> (int \<times> flash_dev \<times> storage \<times> 'a) option) \<Rightarrow>
   (int \<times> nvs \<times> 'a) option" where
  "on_storage s a f =
     (case (nv_dev s, map_of (nv_storages s) a) of
        (Some dev, Some st) \<Rightarrow>
          (case f dev st of
             None \<Rightarrow> None
           | Some (err, dev, st, x) \<Rightarrow>
               Some (err, s\<lparr>nv_dev := Some dev, nv_storages := alist_set a st (nv_storages s)\<rparr>, x))
      | _ \<Rightarrow> None)"

definition wm_nvs_iterator_data ::
  "env \<Rightarrow> nvs \<Rightarrow> nat \<Rightarrow> bytes \<Rightarrow> nat \<Rightarrow> (int \<times> nvs \<times> bytes \<times> nat) option" where
  "wm_nvs_iterator_data env s a data data_len =
     (case map_of (nv_iters s) a of
        None \<Rightarrow> None
      | Some it \<Rightarrow>
          on_storage s (ii_storage it)
            (\<lambda>dev st. Some (wm_nvs_storage_read_item env dev st (ei_group_id (ii_info it))
                              (ei_type (ii_info it)) (ei_key (ii_info it)) data data_len)))"

definition wm_nvs_iterator_release :: "nvs \<Rightarrow> nat option \<Rightarrow> int \<times> nvs" where
  "wm_nvs_iterator_release s iterator =
     (case iterator of
        None \<Rightarrow> (WM_NVS_ERR_OK, s)
      | Some a \<Rightarrow> (WM_NVS_ERR_OK, s\<lparr>nv_iters := filter (\<lambda>(b, _). b \<noteq> a) (nv_iters s)\<rparr>))"

end
