(* ===== verification/NvsApi.thy ===== *)
theory NvsApi
  imports NvsManager
begin

text \<open>
  The public functions of the store (\<open>wm_nvs.c\<close>): parameter checks, the lock, handle and mode
  checks, and the call into the layers below. A pointer argument that may be null is an
  \<open>option\<close>. An early return of \<open>WM_NVS_LOCK\<close> is its code with the state unchanged; the
  release of the mutex has no effect on a sequential run.
\<close>

section \<open>Partitions and handles\<close>

definition wm_nvs_init :: "env \<Rightarrow> nvs \<Rightarrow> bytes option \<Rightarrow> (int \<times> nvs) option" where
  "wm_nvs_init env s partition_name =
     (case partition_name of
        None \<Rightarrow> Some (WM_NVS_ERR_INVALID_PARAM, s)
      | Some pn \<Rightarrow>
          (case wm_nvs_port_init env s of
             (err, s) \<Rightarrow>
               if err \<noteq> WM_NVS_ERR_OK then Some (err, s)
               else let e = wm_nvs_port_mutex_lock env s
                    in if e \<noteq> WM_ERR_SUCCESS then Some (e, s) else wm_nvs_ptm_init env s pn))"

definition wm_nvs_deinit :: "env \<Rightarrow> nvs \<Rightarrow> bytes option \<Rightarrow> int \<times> nvs" where
  "wm_nvs_deinit env s partition_name =
     (case partition_name of
        None \<Rightarrow> (WM_NVS_ERR_INVALID_PARAM, s)
      | Some pn \<Rightarrow>
          if \<not> (wm_nvs_ptm_is_in_using s \<and> wm_nvs_port_is_init env s) then (WM_NVS_ERR_FAIL, s)
          else let e = wm_nvs_port_mutex_lock env s
               in if e \<noteq> WM_ERR_SUCCESS then (e, s)
                  else case wm_nvs_ptm_deinit s pn of
                         (err, s) \<Rightarrow>
                           (err, if \<not> wm_nvs_ptm_is_in_using s then snd (wm_nvs_port_deinit s) else s))"

definition wm_nvs_erase :: "env \<Rightarrow> nvs \<Rightarrow> bytes option \<Rightarrow> (int \<times> nvs) option" where
  "wm_nvs_erase env s partition_name =
     (case partition_name of
        None \<Rightarrow> Some (WM_NVS_ERR_INVALID_PARAM, s)
      | Some pn \<Rightarrow>
          let erase = (case wm_nvs_pt_erase_all env (nv_dev s) (nv_table s) pn of
                         None \<Rightarrow> None
                       | Some (err, dev) \<Rightarrow> Some (err, s\<lparr>nv_dev := dev\<rparr>))
          in if wm_nvs_ptm_is_in_using s then
               let e = wm_nvs_port_mutex_lock env s
               in if e \<noteq> WM_ERR_SUCCESS then Some (e, s)
                  else if wm_nvs_ptm_find_storage s pn \<noteq> None then Some (WM_NVS_ERR_FAIL, s)
                  else erase
             else erase)"

text \<open>\<open>"nvs"\<close>\<close>

definition WM_NVS_DEF_PARTITION :: bytes where "WM_NVS_DEF_PARTITION = [0x6E, 0x76, 0x73]"

text \<open>\<open>has_out\<close>: the pointer for the handle is not null. The mode is an \<open>int\<close> here, so that the
  range check of the enumeration is a real one.\<close>

definition wm_nvs_open ::
  "env \<Rightarrow> nvs \<Rightarrow> bytes option \<Rightarrow> bytes option \<Rightarrow> int \<Rightarrow> bool \<Rightarrow> (int \<times> nvs \<times> nat option) option" where
  "wm_nvs_open env s partition_name group_name mode has_out =
     (case group_name of
        None \<Rightarrow> Some (WM_NVS_ERR_INVALID_PARAM, s, None)
      | Some gn \<Rightarrow>
          if \<not> (has_out \<and> mode \<ge> 0 \<and> mode < int OP_MAX) then Some (WM_NVS_ERR_INVALID_PARAM, s, None)
          else let pn = (case partition_name of None \<Rightarrow> WM_NVS_DEF_PARTITION | Some pn \<Rightarrow> pn)
               in if strlen gn > NVS_MAX_KEY_LEN then Some (WM_NVS_ERR_INVALID_PARAM, s, None)
                  else let e = wm_nvs_port_mutex_lock env s
                       in if e \<noteq> WM_ERR_SUCCESS then Some (e, s, None)
                          else wm_nvs_ptm_open_handle env s pn gn (nat mode))"

definition wm_nvs_close :: "env \<Rightarrow> nvs \<Rightarrow> nat option \<Rightarrow> int \<times> nvs" where
  "wm_nvs_close env s hdl =
     (case hdl of
        None \<Rightarrow> (WM_NVS_ERR_INVALID_PARAM, s)
      | Some h \<Rightarrow>
          let e = wm_nvs_port_mutex_lock env s
          in if e \<noteq> WM_ERR_SUCCESS then (e, s)
             else if wm_nvs_ptm_is_handle_valid s h then wm_nvs_ptm_close_handle s h
             else (WM_NVS_ERR_INVALID_HANDLE, s))"

section \<open>Items\<close>

text \<open>The output buffer with its content before the call, and the caller's \<open>*length\<close>; the two
  are returned as the call leaves them.\<close>

definition get_item ::
  "env \<Rightarrow> nvs \<Rightarrow> nat option \<Rightarrow> nat \<Rightarrow> bytes option \<Rightarrow> bytes option \<Rightarrow> nat option \<Rightarrow>
   (int \<times> nvs \<times> bytes option \<times> nat option) option" where
  "get_item env s hdl type key out_value len =
     (case (hdl, key, out_value, len) of
        (Some h, Some k, Some out, Some n) \<Rightarrow>
          if \<not> (n > 0 \<and> type > TYPE_ANY \<and> type < TYPE_MAX)
          then Some (WM_NVS_ERR_INVALID_PARAM, s, out_value, len)
          else let e = wm_nvs_port_mutex_lock env s
               in if e \<noteq> WM_ERR_SUCCESS then Some (e, s, out_value, len)
                  else if wm_nvs_ptm_is_handle_valid s h then
                    (case map_of (nv_handles s) h of
                       None \<Rightarrow> None
                     | Some hi \<Rightarrow>
                         map_option (\<lambda>(err, s, out, n). (err, s, Some out, Some n))
                           (on_storage s (hi_storage hi)
                              (\<lambda>dev st. Some (wm_nvs_storage_read_item env dev st (hi_group_id hi)
                                                type k out n))))
                  else Some (WM_NVS_ERR_INVALID_HANDLE, s, out_value, len)
      | _ \<Rightarrow> Some (WM_NVS_ERR_INVALID_PARAM, s, out_value, len))"

text \<open>The handle and mode checks the three writing functions share.\<close>

definition with_rw_handle ::
  "env \<Rightarrow> nvs \<Rightarrow> nat \<Rightarrow> (handle_info \<Rightarrow> (int \<times> nvs) option) \<Rightarrow> (int \<times> nvs) option" where
  "with_rw_handle env s h f =
     (let e = wm_nvs_port_mutex_lock env s
      in if e \<noteq> WM_ERR_SUCCESS then Some (e, s)
         else if \<not> wm_nvs_ptm_is_handle_valid s h then Some (WM_NVS_ERR_INVALID_HANDLE, s)
         else case map_of (nv_handles s) h of
                None \<Rightarrow> None
              | Some hi \<Rightarrow> if hi_mode hi = OP_READ_ONLY then Some (WM_NVS_ERR_READ_ONLY, s) else f hi)"

definition drop_unit :: "(int \<times> nvs \<times> unit) option \<Rightarrow> (int \<times> nvs) option" where
  "drop_unit r = map_option (\<lambda>(err, s, _). (err, s)) r"

definition set_item ::
  "env \<Rightarrow> nvs \<Rightarrow> nat option \<Rightarrow> nat \<Rightarrow> bytes option \<Rightarrow> bytes option \<Rightarrow> nat \<Rightarrow> (int \<times> nvs) option" where
  "set_item env s hdl type key val len =
     (case (hdl, key, val) of
        (Some h, Some k, Some v) \<Rightarrow>
          if \<not> (type > TYPE_ANY \<and> type < TYPE_MAX) then Some (WM_NVS_ERR_INVALID_PARAM, s)
          else if \<not> (strlen k > 0 \<and> strlen k \<le> NVS_MAX_KEY_LEN) then Some (WM_NVS_ERR_INVALID_PARAM, s)
          else with_rw_handle env s h
                 (\<lambda>hi. drop_unit (on_storage s (hi_storage hi)
                    (\<lambda>dev st. map_option (\<lambda>(err, dev, st). (err, dev, st, ()))
                       (wm_nvs_storage_write_item env dev st (hi_group_id hi) type k v len))))
      | _ \<Rightarrow> Some (WM_NVS_ERR_INVALID_PARAM, s))"

definition wm_nvs_get_str where
  "wm_nvs_get_str env s hdl key out len = get_item env s hdl TYPE_STRING key out len"

text \<open>A C string argument is its bytes up to the terminator, which is stored as well.\<close>

definition wm_nvs_set_str :: "env \<Rightarrow> nvs \<Rightarrow> nat option \<Rightarrow> bytes option \<Rightarrow> bytes option \<Rightarrow> (int \<times> nvs) option"
where
  "wm_nvs_set_str env s hdl key val =
     (case val of
        None \<Rightarrow> Some (WM_NVS_ERR_INVALID_PARAM, s)
      | Some v \<Rightarrow> set_item env s hdl TYPE_STRING key (Some (take (strlen v) v @ [0])) (strlen v + 1))"

definition wm_nvs_get_binary where
  "wm_nvs_get_binary env s hdl key out len = get_item env s hdl TYPE_BINARY key out len"

definition wm_nvs_set_binary where
  "wm_nvs_set_binary env s hdl key data len = set_item env s hdl TYPE_BINARY key data len"

definition wm_nvs_get_blob where
  "wm_nvs_get_blob env s hdl key out len = get_item env s hdl TYPE_BLOB key out len"

definition wm_nvs_set_blob where
  "wm_nvs_set_blob env s hdl key data len = set_item env s hdl TYPE_BLOB key data len"

text \<open>The integer setters: the object representation of a value of \<open>n\<close> bytes.\<close>

definition int_bytes :: "nat \<Rightarrow> int \<Rightarrow> bytes" where
  "int_bytes n v = le_bytes n (nat (v mod 256 ^ n))"

definition wm_nvs_set_i8 where
  "wm_nvs_set_i8 env s hdl key v = set_item env s hdl TYPE_INT8 key (Some (int_bytes 1 v)) 1"
definition wm_nvs_set_u8 where
  "wm_nvs_set_u8 env s hdl key v = set_item env s hdl TYPE_UINT8 key (Some (int_bytes 1 v)) 1"
definition wm_nvs_set_i16 where
  "wm_nvs_set_i16 env s hdl key v = set_item env s hdl TYPE_INT16 key (Some (int_bytes 2 v)) 2"
definition wm_nvs_set_u16 where
  "wm_nvs_set_u16 env s hdl key v = set_item env s hdl TYPE_UINT16 key (Some (int_bytes 2 v)) 2"
definition wm_nvs_set_i32 where
  "wm_nvs_set_i32 env s hdl key v = set_item env s hdl TYPE_INT32 key (Some (int_bytes 4 v)) 4"
definition wm_nvs_set_u32 where
  "wm_nvs_set_u32 env s hdl key v = set_item env s hdl TYPE_UINT32 key (Some (int_bytes 4 v)) 4"
definition wm_nvs_set_i64 where
  "wm_nvs_set_i64 env s hdl key v = set_item env s hdl TYPE_INT64 key (Some (int_bytes 8 v)) 8"
definition wm_nvs_set_u64 where
  "wm_nvs_set_u64 env s hdl key v = set_item env s hdl TYPE_UINT64 key (Some (int_bytes 8 v)) 8"

text \<open>A \<open>double\<close> is its eight bytes.\<close>

definition wm_nvs_set_float where
  "wm_nvs_set_float env s hdl key rep = set_item env s hdl TYPE_DOUBLE key (Some rep) 8"

text \<open>The getters; \<open>out\<close> is the object the caller points to.\<close>

definition wm_nvs_get_i8 where
  "wm_nvs_get_i8 env s hdl key out = get_item env s hdl TYPE_INT8 key out (Some 1)"
definition wm_nvs_get_u8 where
  "wm_nvs_get_u8 env s hdl key out = get_item env s hdl TYPE_UINT8 key out (Some 1)"
definition wm_nvs_get_i16 where
  "wm_nvs_get_i16 env s hdl key out = get_item env s hdl TYPE_INT16 key out (Some 2)"
definition wm_nvs_get_u16 where
  "wm_nvs_get_u16 env s hdl key out = get_item env s hdl TYPE_UINT16 key out (Some 2)"
definition wm_nvs_get_i32 where
  "wm_nvs_get_i32 env s hdl key out = get_item env s hdl TYPE_INT32 key out (Some 4)"
definition wm_nvs_get_u32 where
  "wm_nvs_get_u32 env s hdl key out = get_item env s hdl TYPE_UINT32 key out (Some 4)"
definition wm_nvs_get_i64 where
  "wm_nvs_get_i64 env s hdl key out = get_item env s hdl TYPE_INT64 key out (Some 8)"
definition wm_nvs_get_u64 where
  "wm_nvs_get_u64 env s hdl key out = get_item env s hdl TYPE_UINT64 key out (Some 8)"
definition wm_nvs_get_float where
  "wm_nvs_get_float env s hdl key out = get_item env s hdl TYPE_DOUBLE key out (Some 8)"

definition wm_nvs_del_key :: "env \<Rightarrow> nvs \<Rightarrow> nat option \<Rightarrow> bytes option \<Rightarrow> (int \<times> nvs) option" where
  "wm_nvs_del_key env s hdl key =
     (case (hdl, key) of
        (Some h, Some k) \<Rightarrow>
          with_rw_handle env s h
            (\<lambda>hi. drop_unit (on_storage s (hi_storage hi)
               (\<lambda>dev st. case wm_nvs_storage_del_item env dev st (hi_group_id hi)
                                TYPE_ANY_WITHOUT_SEG k of
                           (err, dev, st) \<Rightarrow> Some (err, dev, st, ()))))
      | _ \<Rightarrow> Some (WM_NVS_ERR_INVALID_PARAM, s))"

text \<open>The handle is read before it is validated, so a closed one has no result.\<close>

definition wm_nvs_del_group :: "env \<Rightarrow> nvs \<Rightarrow> nat option \<Rightarrow> (int \<times> nvs) option" where
  "wm_nvs_del_group env s hdl =
     (case hdl of
        None \<Rightarrow> Some (WM_NVS_ERR_INVALID_PARAM, s)
      | Some h \<Rightarrow>
          (case map_of (nv_handles s) h of
             None \<Rightarrow> None
           | Some hi \<Rightarrow>
               if \<not> hi_valid hi then Some (WM_NVS_ERR_INVALID_PARAM, s)
               else with_rw_handle env s h
                      (\<lambda>hi. drop_unit (on_storage s (hi_storage hi)
                         (\<lambda>dev st. case wm_nvs_storage_del_group env dev st (hi_group_id hi) of
                                     (err, dev, st) \<Rightarrow> Some (err, dev, st, ()))))))"

text \<open>As in \<open>wm_nvs_del_group\<close>, but without any check of the handle.\<close>

definition wm_nvs_get_info ::
  "env \<Rightarrow> nvs \<Rightarrow> nat option \<Rightarrow> bytes option \<Rightarrow> nat option \<Rightarrow> nat option \<Rightarrow>
   (int \<times> nvs \<times> nat option \<times> nat option) option" where
  "wm_nvs_get_info env s hdl key type len =
     (case (hdl, key, type, len) of
        (Some h, Some k, Some t, Some n) \<Rightarrow>
          let e = wm_nvs_port_mutex_lock env s
          in if e \<noteq> WM_ERR_SUCCESS then Some (e, s, type, len)
             else (case map_of (nv_handles s) h of
                     None \<Rightarrow> None
                   | Some hi \<Rightarrow>
                       map_option (\<lambda>(err, s, it).
                           if err = WM_NVS_ERR_OK
                           then (err, s, Some (it_type it),
                                 Some (if it_type it = TYPE_BLOB then it_all_size it else it_length it))
                           else (err, s, type, len))
                         (on_storage s (hi_storage hi)
                            (\<lambda>dev st. case wm_nvs_storage_find_key env dev st (hi_group_id hi) k of
                                        (err, st, it) \<Rightarrow> Some (err, dev, st, it))))
      | _ \<Rightarrow> Some (WM_NVS_ERR_INVALID_PARAM, s, type, len))"

section \<open>Iteration and status\<close>

definition any_type :: "nat \<Rightarrow> nat" where
  "any_type type = (if type = TYPE_ANY then TYPE_ANY_WITHOUT_SEG else type)"

text \<open>The outer option of the iterator arguments is the pointer to the iterator variable.\<close>

definition wm_nvs_entry_find ::
  "env \<Rightarrow> nvs \<Rightarrow> bytes option \<Rightarrow> bytes option \<Rightarrow> nat \<Rightarrow> nat option option \<Rightarrow>
   (int \<times> nvs \<times> nat option option) option" where
  "wm_nvs_entry_find env s partition_name grp type out =
     (case (partition_name, grp, out) of
        (Some pn, Some g, Some o1) \<Rightarrow>
          if \<not> (type < TYPE_MAX) then Some (WM_NVS_ERR_INVALID_PARAM, s, out)
          else let e = wm_nvs_port_mutex_lock env s
               in if e \<noteq> WM_ERR_SUCCESS then Some (e, s, out)
                  else map_option (\<lambda>(err, s, o1). (err, s, Some o1))
                         (wm_nvs_iterator_find env s pn (Some g) (any_type type) o1)
      | _ \<Rightarrow> Some (WM_NVS_ERR_INVALID_PARAM, s, out))"

definition wm_nvs_entry_find_by_handle ::
  "env \<Rightarrow> nvs \<Rightarrow> nat option \<Rightarrow> nat \<Rightarrow> nat option option \<Rightarrow> (int \<times> nvs \<times> nat option option) option"
where
  "wm_nvs_entry_find_by_handle env s hdl type out =
     (case (hdl, out) of
        (Some h, Some o1) \<Rightarrow>
          if \<not> (type < TYPE_MAX) then Some (WM_NVS_ERR_INVALID_PARAM, s, out)
          else let e = wm_nvs_port_mutex_lock env s
               in if e \<noteq> WM_ERR_SUCCESS then Some (e, s, out)
                  else if wm_nvs_ptm_is_handle_valid s h
                  then map_option (\<lambda>(err, s, o1). (err, s, Some o1))
                         (wm_nvs_iterator_find_by_handle env s h (any_type type) o1)
                  else Some (WM_NVS_ERR_INVALID_HANDLE, s, out)
      | _ \<Rightarrow> Some (WM_NVS_ERR_INVALID_PARAM, s, out))"

definition wm_nvs_entry_next ::
  "env \<Rightarrow> nvs \<Rightarrow> nat option option \<Rightarrow> (int \<times> nvs \<times> nat option option) option" where
  "wm_nvs_entry_next env s iterator =
     (case iterator of
        None \<Rightarrow> Some (WM_NVS_ERR_INVALID_PARAM, s, None)
      | Some it \<Rightarrow>
          let e = wm_nvs_port_mutex_lock env s
          in if e \<noteq> WM_ERR_SUCCESS then Some (e, s, iterator)
             else map_option (\<lambda>(err, s, it). (err, s, Some it)) (wm_nvs_iterator_next env s it))"

definition wm_nvs_entry_info ::
  "env \<Rightarrow> nvs \<Rightarrow> nat option \<Rightarrow> entry_info option \<Rightarrow> (int \<times> entry_info option) option" where
  "wm_nvs_entry_info env s iterator info =
     (case (iterator, info) of
        (Some a, Some i) \<Rightarrow>
          let e = wm_nvs_port_mutex_lock env s
          in if e \<noteq> WM_ERR_SUCCESS then Some (e, info)
             else map_option (\<lambda>(err, i). (err, Some i)) (wm_nvs_iterator_info s a)
      | _ \<Rightarrow> Some (WM_NVS_ERR_INVALID_PARAM, info))"

definition wm_nvs_entry_data ::
  "env \<Rightarrow> nvs \<Rightarrow> nat option \<Rightarrow> bytes option \<Rightarrow> nat option \<Rightarrow>
   (int \<times> nvs \<times> bytes option \<times> nat option) option" where
  "wm_nvs_entry_data env s iterator data data_len =
     (case (iterator, data, data_len) of
        (Some a, Some d, Some n) \<Rightarrow>
          if \<not> (n > 0) then Some (WM_NVS_ERR_INVALID_PARAM, s, data, data_len)
          else let e = wm_nvs_port_mutex_lock env s
               in if e \<noteq> WM_ERR_SUCCESS then Some (e, s, data, data_len)
                  else map_option (\<lambda>(err, s, d, n). (err, s, Some d, Some n))
                         (wm_nvs_iterator_data env s a d n)
      | _ \<Rightarrow> Some (WM_NVS_ERR_INVALID_PARAM, s, data, data_len))"

definition wm_nvs_release_iterator :: "env \<Rightarrow> nvs \<Rightarrow> nat option \<Rightarrow> int \<times> nvs" where
  "wm_nvs_release_iterator env s iterator =
     (case iterator of
        None \<Rightarrow> (WM_NVS_ERR_OK, s)
      | Some a \<Rightarrow>
          let e = wm_nvs_port_mutex_lock env s
          in if e \<noteq> WM_ERR_SUCCESS then (e, s) else wm_nvs_iterator_release s (Some a))"

definition wm_nvs_get_status ::
  "env \<Rightarrow> nvs \<Rightarrow> bytes option \<Rightarrow> nvs_status option \<Rightarrow> int \<times> nvs_status option" where
  "wm_nvs_get_status env s partition_name status =
     (case (partition_name, status) of
        (Some pn, Some st) \<Rightarrow>
          let e = wm_nvs_port_mutex_lock env s
          in if e \<noteq> WM_ERR_SUCCESS then (e, status)
             else apsnd Some (wm_nvs_ptm_get_status s pn st)
      | _ \<Rightarrow> (WM_NVS_ERR_INVALID_PARAM, status))"

end
