(* ===== verification/NvsApiSpec.thy ===== *)
theory NvsApiSpec
  imports NvsKvStore NvsApi
begin

text \<open>
  The public functions on an open handle: what the record store promises reaches the caller,
  and the guards refuse without touching anything.
\<close>

text \<open>Handle \<open>h\<close> is open for writing on group and storage \<open>hi\<close>, and the lock can be taken.\<close>

definition api_ready :: "env \<Rightarrow> nvs \<Rightarrow> nat \<Rightarrow> handle_info \<Rightarrow> flash_dev \<Rightarrow> storage \<Rightarrow> bool" where
  "api_ready env s h hi dev st \<longleftrightarrow>
     wm_nvs_port_mutex_lock env s = WM_ERR_SUCCESS \<and> map_of (nv_handles s) h = Some hi \<and> hi_valid hi \<and>
     hi_mode hi \<noteq> OP_READ_ONLY \<and> nv_dev s = Some dev \<and> map_of (nv_storages s) (hi_storage hi) = Some st \<and>
     distinct (map fst (nv_storages s)) \<and> st_ok env (dev, st)"

text \<open>The state after the storage object of a handle and the device have changed.\<close>

definition nv_put :: "nvs \<Rightarrow> nat \<Rightarrow> flash_dev \<times> storage \<Rightarrow> nvs" where
  "nv_put s a ds = s\<lparr>nv_dev := Some (fst ds), nv_storages := alist_set a (snd ds) (nv_storages s)\<rparr>"

definition key_ok :: "bytes \<Rightarrow> bool" where
  "key_ok k \<longleftrightarrow> 0 < strlen k \<and> strlen k \<le> NVS_MAX_KEY_LEN"

lemma map_of_alist_set: "map_of xs a \<noteq> None \<Longrightarrow> map_of (alist_set a x xs) a = Some x"
  by (induction xs) (auto simp: alist_set_def split: if_splits)

lemma fst_alist_set [simp]: "map fst (alist_set a x xs) = map fst xs"
  by (induction xs) (auto simp: alist_set_def)

lemma alist_set_same: "distinct (map fst xs) \<Longrightarrow> map_of xs a = Some x \<Longrightarrow> alist_set a x xs = xs"
proof (induction xs)
  case (Cons p xs)
  obtain b y where p: "p = (b, y)" by (cases p)
  show ?case
  proof (cases "b = a")
    case True
    then have "a \<notin> fst ` set xs" using Cons(2) p by auto
    then have "alist_set a x xs = xs" by (induction xs) (auto simp: alist_set_def)
    then show ?thesis using True Cons(3) p by (simp add: alist_set_def)
  next
    case False
    then show ?thesis using Cons p by (simp add: alist_set_def)
  qed
qed (simp add: alist_set_def)

lemma api_ready_put:
  assumes "api_ready env s h hi dev st" and "st_ok env (dev', st')"
  shows "api_ready env (nv_put s (hi_storage hi) (dev', st')) h hi dev' st'"
  using assms by (simp add: api_ready_def nv_put_def map_of_alist_set wm_nvs_port_mutex_lock_def)

lemma api_valid: "api_ready env s h hi dev st \<Longrightarrow> wm_nvs_ptm_is_handle_valid s h"
  by (simp add: api_ready_def wm_nvs_ptm_is_handle_valid_def)

section \<open>Setting and getting\<close>

lemma set_item_spec:
  assumes rd: "api_ready env s h hi dev st" and k: "key_ok k"
    and v: "st_valid t (hi_group_id hi, k) v" and wr: "write_ready (st_sm st) (length v)"
  defines "ds \<equiv> st_put env (dev, st) t (hi_group_id hi, k) v"
  shows "set_item env s (Some h) t (Some k) (Some v) (length v) = Some (WM_NVS_ERR_OK, nv_put s (hi_storage hi) ds)"
    and "api_ready env (nv_put s (hi_storage hi) ds) h hi (fst ds) (snd ds)"
proof -
  have ok: "st_ok env (dev, st)" using rd by (simp add: api_ready_def)
  obtain dev' m' where w: "wm_nvs_storage_write_item env dev st (hi_group_id hi) t k v (length v) =
      Some (WM_NVS_ERR_OK, dev', st\<lparr>st_sm := m'\<rparr>)"
    using st_write_cases [OF ok v wr] by auto
  then have ds: "ds = (dev', st\<lparr>st_sm := m'\<rparr>)" by (simp add: ds_def st_put_def)
  show "set_item env s (Some h) t (Some k) (Some v) (length v) = Some (WM_NVS_ERR_OK, nv_put s (hi_storage hi) ds)"
    using rd k v w ds api_valid [OF rd]
    by (simp add: set_item_def with_rw_handle_def drop_unit_def on_storage_def api_ready_def key_ok_def
        st_valid_def nv_put_def)
  have "st_ok env ds" unfolding ds_def by (rule rs.put_ok [OF ok v]) (use wr in simp)
  then show "api_ready env (nv_put s (hi_storage hi) ds) h hi (fst ds) (snd ds)"
    using api_ready_put [OF rd, of "fst ds" "snd ds"] by simp
qed

lemma get_item_spec:
  assumes rd: "api_ready env s h hi dev st" and t: "t \<noteq> TYPE_ANY" "t < TYPE_BLOB" and n: "0 < length buf"
  shows "get_item env s (Some h) t (Some k) (Some buf) (Some (length buf)) =
    Some (case find (st_is_of env t (hi_group_id hi, k)) (st_content (dev, st)) of
      None \<Rightarrow> (WM_NVS_ERR_NOT_FOUND, s, Some buf, Some (length buf))
    | Some (x, d) \<Rightarrow> if length buf < length d then (WM_NVS_ERR_VALUE_TOO_LONG, s, Some buf, Some (length d))
                     else (WM_NVS_ERR_OK, s, Some (overlay buf 0 d), Some (length d)))"
proof -
  have ok: "sm_ok env dev (st_sm st)" using rd by (simp add: api_ready_def st_ok_def)
  have tb: "t \<noteq> TYPE_BLOB" using t by simp
  have same: "s\<lparr>nv_dev := Some dev, nv_storages := alist_set (hi_storage hi) st (nv_storages s)\<rparr> = s"
    using rd alist_set_same [of "nv_storages s" "hi_storage hi" st] by (simp add: api_ready_def)
  show ?thesis
    using rd t n api_valid [OF rd] read_item_refines [OF ok tb refl, of "hi_group_id hi" k buf] same
    by (simp add: get_item_def on_storage_def api_ready_def st_is_of_def st_content_def split: option.splits)
qed

text \<open>What \<open>get\<close> of the record store says about the caller's buffer.\<close>

lemma get_item_value:
  assumes rd: "api_ready env s h hi dev st" and v: "st_valid t (hi_group_id hi, k) v"
    and g: "st_get env (dev, st) t (hi_group_id hi, k) = Some v"
    and n: "0 < length buf" "length v \<le> length buf"
  shows "get_item env s (Some h) t (Some k) (Some buf) (Some (length buf)) =
    Some (WM_NVS_ERR_OK, s, Some (overlay buf 0 v), Some (length v))"
proof -
  have "st_ok env (dev, st)" using rd by (simp add: api_ready_def)
  then have "map_option snd (find (st_is_of env t (hi_group_id hi, k)) (st_content (dev, st))) = Some v"
    using rs.get [of env "(dev, st)" t "(hi_group_id hi, k)" v] v g by simp
  moreover have "t \<noteq> TYPE_ANY" "t < TYPE_BLOB" using v by (auto simp: st_valid_def)
  ultimately show ?thesis using get_item_spec [OF rd _ _ n(1)] n(2) by auto
qed

lemma get_item_none:
  assumes rd: "api_ready env s h hi dev st" and v: "st_valid t (hi_group_id hi, k) v"
    and g: "st_get env (dev, st) t (hi_group_id hi, k) = None" and n: "0 < length buf"
  shows "get_item env s (Some h) t (Some k) (Some buf) (Some (length buf)) =
    Some (WM_NVS_ERR_NOT_FOUND, s, Some buf, Some (length buf))"
proof -
  have "st_ok env (dev, st)" using rd by (simp add: api_ready_def)
  then have "find (st_is_of env t (hi_group_id hi, k)) (st_content (dev, st)) = None"
    using rs.get [of env "(dev, st)" t "(hi_group_id hi, k)" v] v g by simp
  moreover have "t \<noteq> TYPE_ANY" "t < TYPE_BLOB" using v by (auto simp: st_valid_def)
  ultimately show ?thesis using get_item_spec [OF rd _ _ n] by simp
qed

text \<open>Both, and the short buffer: a get of the API is the get of the record store.\<close>

lemma get_item_eq:
  assumes rd: "api_ready env s h hi dev st" and v: "st_valid t (hi_group_id hi, k) w" and n: "0 < length buf"
  shows "get_item env s (Some h) t (Some k) (Some buf) (Some (length buf)) =
    Some (case st_get env (dev, st) t (hi_group_id hi, k) of
      None \<Rightarrow> (WM_NVS_ERR_NOT_FOUND, s, Some buf, Some (length buf))
    | Some v \<Rightarrow> if length buf < length v then (WM_NVS_ERR_VALUE_TOO_LONG, s, Some buf, Some (length v))
               else (WM_NVS_ERR_OK, s, Some (overlay buf 0 v), Some (length v)))"
proof -
  have ok: "st_ok env (dev, st)" using rd by (simp add: api_ready_def)
  have t: "t \<noteq> TYPE_ANY" "t < TYPE_BLOB" using v by (auto simp: st_valid_def)
  show ?thesis
    unfolding get_item_spec [OF rd t n] rs.get [OF ok v]
    by (cases "find (st_is_of env t (hi_group_id hi, k)) (st_content (dev, st))") auto
qed

section \<open>Deleting\<close>

lemma del_key_spec:
  fixes k :: bytes
  assumes rd: "api_ready env s h hi dev st"
  defines "ds \<equiv> st_del env (dev, st) (hi_group_id hi, k)"
  shows "\<exists>err. wm_nvs_del_key env s (Some h) (Some k) = Some (err, nv_put s (hi_storage hi) ds)"
    and "api_ready env (nv_put s (hi_storage hi) ds) h hi (fst ds) (snd ds)"
proof -
  have ok: "st_ok env (dev, st)" using rd by (simp add: api_ready_def)
  obtain err dev' st' where d: "wm_nvs_storage_del_item env dev st (hi_group_id hi) TYPE_ANY_WITHOUT_SEG k = (err, dev', st')"
    by (metis prod_cases3)
  then have ds: "ds = (dev', st')" by (simp add: ds_def st_del_def)
  show "\<exists>err. wm_nvs_del_key env s (Some h) (Some k) = Some (err, nv_put s (hi_storage hi) ds)"
    using rd d ds api_valid [OF rd]
    by (simp add: wm_nvs_del_key_def with_rw_handle_def drop_unit_def on_storage_def api_ready_def nv_put_def)
  have "st_ok env ds" unfolding ds_def by (rule rs.del_ok [OF ok])
  then show "api_ready env (nv_put s (hi_storage hi) ds) h hi (fst ds) (snd ds)"
    using api_ready_put [OF rd, of "fst ds" "snd ds"] by simp
qed

end
