(* ===== verification/Demo.thy ===== *)
theory Demo
  imports NvsApiSpec
begin

text \<open>
  Concrete states for the witnesses: a blank 2 MB chip, a partition of three sectors on it,
  the store as the first mount of a blank partition leaves it, and an open handle.
\<close>

definition demo_dev :: flash_dev where
  "demo_dev = \<lparr>fd_drv = True, fd_page = 256, fd_sector = 4096, fd_size = 0x200000, fd_vendor = 0,
     fd_uid = [], fd_mem = (\<lambda>_. 0xFF)\<rparr>"

definition demo_pt :: pt where
  "demo_pt = \<lparr>pt_name = [0x6E, 0x76, 0x73], pt_offset = 0x10000, pt_sec_num = 3, pt_sec_size = 4096,
     pt_size = 0x3000, pt_encrypted = 0, pt_readonly = 0\<rparr>"

definition demo_hash :: nvs_hash where
  "demo_hash = \<lparr>h_table = None, h_count = 0, h_size = 0\<rparr>"

definition demo_blank :: "nat \<Rightarrow> sector" where
  "demo_blank i = \<lparr>s_state = SEC_UNINIT, s_version = 1, s_next_free = 0, s_used = 0, s_droped = 0,
     s_address = i * 4096, s_serial = 1, s_hash = demo_hash\<rparr>"

text \<open>A sector in use without entries.\<close>

definition demo_sec :: sector where
  "demo_sec = (demo_blank 0)\<lparr>s_state := SEC_USING\<rparr>"

definition demo_sm :: sm where
  "demo_sm = \<lparr>sm_active = [0], sm_idle = [1, 2], sm_pt = demo_pt,
     sm_secs = [demo_blank 0, demo_blank 1, demo_blank 2], sm_serial = 2\<rparr>"

definition demo_st :: storage where
  "demo_st = \<lparr>st_sm = demo_sm, st_groups = []\<rparr>"

definition demo_nvs :: nvs where
  "demo_nvs = \<lparr>nv_dev = Some demo_dev, nv_table = \<lparr>g_verified = False, g_addr = 0, g_count = 0\<rparr>,
     nv_mutex = True, nv_storages = [(1, demo_st)],
     nv_handles = [(2, \<lparr>hi_storage = 1, hi_group_id = 1, hi_valid = True, hi_mode = 1\<rparr>),
                   (3, \<lparr>hi_storage = 1, hi_group_id = 1, hi_valid = True, hi_mode = 0\<rparr>)],
     nv_iters = [], nv_next = 4\<rparr>"

definition demo_hi :: handle_info where
  "demo_hi = \<lparr>hi_storage = 1, hi_group_id = 1, hi_valid = True, hi_mode = 1\<rparr>"

definition demo_key :: bytes where "demo_key = [0x6B]"

lemma demo_geom [simp]: "flash_geom demo_dev"
  by (simp add: flash_geom_def demo_dev_def)

lemma demo_fields [simp]:
  "fd_drv demo_dev" "fd_page demo_dev = 256" "fd_sector demo_dev = 4096" "fd_size demo_dev = 0x200000"
  "fd_mem demo_dev = (\<lambda>_. 0xFF)"
  by (simp_all add: demo_dev_def)

lemma demo_pt_ok [simp]: "pt_ok demo_env demo_pt demo_dev"
  by (simp add: pt_ok_def) (simp add: demo_pt_def demo_dev_def WM_FT_REGION_def)

lemma demo_mem [simp]: "pt_mem demo_pt demo_dev x = 0xFF"
  by (simp add: pt_mem_def demo_dev_def)

lemma demo_hash_ok [simp]: "hash_inv demo_hash" "hash_list demo_hash = []"
  by (simp_all add: demo_hash_def hash_inv_def hash_list_def)

lemma demo_place [simp]: "i < 3 \<Longrightarrow> sector_place demo_pt (demo_blank i)"
  by (simp add: sector_place_def demo_pt_def demo_blank_def)

lemma demo_fresh [simp]: "i < 3 \<Longrightarrow> sector_fresh demo_env demo_pt demo_dev (demo_blank i)"
  by (simp add: sector_fresh_def) (simp add: demo_blank_def)

lemma demo_entries [simp]: "entries_from demo_pt demo_dev a 0 = []"
  by (simp add: entries_Nil_iff head_state)

lemma demo_sec_entries [simp]: "sector_entries demo_pt demo_dev s = []"
  by (simp add: sector_entries_def)

lemma demo_sec_ok [simp]: "sector_ok demo_env demo_pt demo_dev demo_sec"
proof -
  have "log_ok demo_env demo_pt demo_dev a" for a by (simp add: log_ok_def)
  moreover have "sector_place demo_pt demo_sec"
    using demo_place [of 0] by (simp add: demo_sec_def sector_place_def)
  ultimately show ?thesis
    by (simp add: sector_ok_def hash_keys_def) (simp add: demo_sec_def demo_blank_def sector_live_def)
qed

lemma demo_sm_sec [simp]:
  "sm_sec demo_sm 0 = demo_blank 0" "sm_sec demo_sm 1 = demo_blank 1" "sm_sec demo_sm 2 = demo_blank 2"
  by (simp_all add: sm_sec_def demo_sm_def One_nat_def numeral_2_eq_2)

lemma demo_sm_fields [simp]:
  "sm_active demo_sm = [0]" "sm_idle demo_sm = [1, 2]" "sm_pt demo_sm = demo_pt" "sm_serial demo_sm = 2"
  "length (sm_secs demo_sm) = 3"
  by (simp_all add: demo_sm_def)

lemma less_3: "(i :: nat) < 3 \<longleftrightarrow> i = 0 \<or> i = 1 \<or> i = 2"
  by auto

lemma demo_sm_shape [simp]: "sm_shape demo_sm"
proof -
  have "\<forall>i < 3. s_address (sm_sec demo_sm i) = i * 4096" by (simp add: less_3) (simp add: demo_blank_def)
  then show ?thesis by (simp add: sm_shape_def) (simp add: demo_pt_def)
qed

lemma demo_sm_ok [simp]: "sm_ok demo_env demo_dev demo_sm"
  by (simp add: sm_ok_def sec_good_def sec_idle_def) (simp add: demo_blank_def)

lemma demo_live [simp]: "sm_live demo_dev demo_sm = []"
  by (simp add: sm_live_def live_def)

lemma demo_st_ok [simp]: "st_ok demo_env (demo_dev, demo_st)"
  by (simp add: st_ok_def st_content_def demo_st_def)

lemma demo_ready [simp]: "write_ready demo_sm n"
  by (simp add: write_ready_def sec_room_def demo_blank_def)

lemma demo_api [simp]: "api_ready demo_env demo_nvs 2 demo_hi demo_dev demo_st"
  by (simp add: api_ready_def demo_nvs_def demo_hi_def wm_nvs_port_mutex_lock_def)
    (simp add: demo_env_def)

lemma demo_key_ok [simp]: "key_ok demo_key"
  by (simp add: key_ok_def demo_key_def strlen_def)

section \<open>A sector with one entry\<close>

definition demo_val :: bytes where "demo_val = replicate 40 7"

definition demo_write :: "int \<times> flash_dev \<times> sector" where
  "demo_write = wm_nvs_sector_write_item demo_env demo_pt demo_dev demo_sec 1 TYPE_STRING demo_key
     (Some demo_val) 40 NVS_SEG_ID_ANY"

definition demo_dev1 :: flash_dev where "demo_dev1 = fst (snd demo_write)"
definition demo_sec1 :: sector where "demo_sec1 = snd (snd demo_write)"
definition demo_item :: item where
  "demo_item = new_item demo_env 1 TYPE_STRING demo_key demo_val 40 NVS_SEG_ID_ANY"

lemma demo_sec_fields [simp]:
  "s_state demo_sec = SEC_USING" "s_next_free demo_sec = 0" "s_address demo_sec = 0" "s_used demo_sec = 0"
  by (simp_all add: demo_sec_def demo_blank_def)

lemma demo_write_facts:
  "sector_ok demo_env demo_pt demo_dev1 demo_sec1"
  "sector_entries demo_pt demo_dev1 demo_sec1 = [(0, demo_item)]"
  "entry_data demo_pt demo_dev1 0 (0, demo_item) = demo_val"
  "s_address demo_sec1 = 0" "s_state demo_sec1 = SEC_USING" "s_next_free demo_sec1 = 3"
  "same_on demo_pt demo_dev demo_dev1 128 (pt_size demo_pt)"
proof -
  have "write_span 40 = 3" by (simp add: write_span_def)
  then obtain dev' sec' where w: "demo_write = (WM_NVS_ERR_OK, dev', sec')"
    "sector_ok demo_env demo_pt dev' sec'"
    "sector_entries demo_pt dev' sec' = [(0, demo_item)]" "entry_data demo_pt dev' 0 (0, demo_item) = demo_val"
    "s_address sec' = 0" "s_state sec' = SEC_USING" "s_next_free sec' = 3"
    "same_on demo_pt demo_dev dev' 128 (pt_size demo_pt)"
    using write_item_fits [OF demo_sec_ok, of 40 demo_val 1 TYPE_STRING demo_key NVS_SEG_ID_ANY]
    by (auto simp: demo_write_def demo_val_def demo_item_def)
  have "demo_dev1 = dev'" "demo_sec1 = sec'" by (simp_all add: demo_dev1_def demo_sec1_def w(1))
  then show "sector_ok demo_env demo_pt demo_dev1 demo_sec1"
    "sector_entries demo_pt demo_dev1 demo_sec1 = [(0, demo_item)]"
    "entry_data demo_pt demo_dev1 0 (0, demo_item) = demo_val"
    "s_address demo_sec1 = 0" "s_state demo_sec1 = SEC_USING" "s_next_free demo_sec1 = 3"
    "same_on demo_pt demo_dev demo_dev1 128 (pt_size demo_pt)"
    using w by simp_all
qed

text \<open>Another sector of the same partition, in use and empty.\<close>

definition demo_sec2 :: sector where
  "demo_sec2 = (demo_blank 1)\<lparr>s_state := SEC_USING\<rparr>"

lemma demo_sec2_ok [simp]: "sector_ok demo_env demo_pt demo_dev1 demo_sec2"
proof -
  have "log_ok demo_env demo_pt demo_dev a" for a by (simp add: log_ok_def)
  moreover have pl: "sector_place demo_pt demo_sec2"
    using demo_place [of 1] by (simp add: demo_sec2_def sector_place_def)
  ultimately have "sector_ok demo_env demo_pt demo_dev demo_sec2"
    by (simp add: sector_ok_def hash_keys_def) (simp add: demo_sec2_def demo_blank_def sector_live_def)
  moreover have "pt_ok demo_env demo_pt demo_dev1" using demo_write_facts(1) by (simp add: sector_ok_def)
  moreover have "same_on demo_pt demo_dev demo_dev1 (s_address demo_sec2 + 32) (s_address demo_sec2 + NVS_SECTION_SIZE)"
    using demo_write_facts(7) by (rule same_on_sub) (simp_all add: demo_sec2_def demo_blank_def demo_pt_def)
  ultimately show ?thesis using sector_ok_same(1) by blast
qed

lemma demo_item_fields [simp]: "it_state demo_item = ITEM_USING" "it_length demo_item = 40"
  "wm_nvs_item_get_span demo_item = 3"
  by (simp_all add: demo_item_def new_item_def) (simp add: wm_nvs_item_get_span_def)

lemma demo_item_wanted:
  "wanted demo_env 1 TYPE_STRING (Some demo_key) NVS_SEG_ID_ANY SEG_START_ANY (0, demo_item)"
  using new_item_match [of 1 TYPE_STRING TYPE_STRING demo_env demo_key demo_val 40 demo_val]
  by (simp add: wanted_def kv_match_def) (simp add: demo_item_def)

end
