(* ===== verification/StoreProps.thy ===== *)
theory StoreProps
  imports Demo
begin

text \<open>
  Properties of the store as the caller of \<open>wm_nvs.c\<close> sees it: what was set is what is read,
  what was deleted is gone, other keys do not notice, and the guards refuse without effect.
\<close>

section \<open>Runs of calls on one handle\<close>

datatype store_op = Put nat bytes bytes | Del bytes

text \<open>The current sector of the handle's storage can take \<open>len\<close> bytes, or a second idle sector is
  left: the write needs no collection.\<close>

definition handle_room :: "nvs \<Rightarrow> nat \<Rightarrow> nat \<Rightarrow> bool" where
  "handle_room s h len =
     (case map_of (nv_handles s) h of None \<Rightarrow> False
      | Some hi \<Rightarrow> (case map_of (nv_storages s) (hi_storage hi) of None \<Rightarrow> False
                  | Some st \<Rightarrow> write_ready (st_sm st) len))"

definition plain_value :: "nat \<Rightarrow> bytes \<Rightarrow> bool" where
  "plain_value t v \<longleftrightarrow> t \<noteq> TYPE_ANY \<and> t < TYPE_BLOB \<and> length v \<le> NVS_SINGLE_ITEM_MAX_DATA"

inductive api_run :: "env \<Rightarrow> nat \<Rightarrow> nvs \<Rightarrow> store_op list \<Rightarrow> nvs \<Rightarrow> bool" for env h where
  api_nil: "api_run env h s [] s"
| api_put: "api_run env h s ops s1 \<Longrightarrow> key_ok k \<Longrightarrow> plain_value t v \<Longrightarrow> handle_room s1 h (length v) \<Longrightarrow>
    set_item env s1 (Some h) t (Some k) (Some v) (length v) = Some (err, s2) \<Longrightarrow>
    api_run env h s (ops @ [Put t k v]) s2"
| api_del: "api_run env h s ops s1 \<Longrightarrow> wm_nvs_del_key env s1 (Some h) (Some k) = Some (err, s2) \<Longrightarrow>
    api_run env h s (ops @ [Del k]) s2"

fun op_key :: "store_op \<Rightarrow> bytes" where
  "op_key (Put t k v) = k"
| "op_key (Del k) = k"

text \<open>The specification: a map from names to typed values.\<close>

fun map_op :: "store_op \<Rightarrow> (bytes \<rightharpoonup> nat \<times> bytes) \<Rightarrow> bytes \<rightharpoonup> nat \<times> bytes" where
  "map_op (Put t k v) m = m(k \<mapsto> (t, v))"
| "map_op (Del k) m = m(k := None)"

lemma st_valid_plain: "plain_value t v \<Longrightarrow> g < NVS_GROUP_ID_MAX \<Longrightarrow> st_valid t (g, k) v"
  by (simp add: st_valid_def plain_value_def)

lemma handle_room_ready:
  "api_ready env s h hi dev st \<Longrightarrow> handle_room s h n \<longleftrightarrow> write_ready (st_sm st) n"
  by (simp add: api_ready_def handle_room_def)

text \<open>A run of calls is simulated by the map.\<close>

lemma api_run_sim:
  assumes "api_run env h s ops s'" and "api_ready env s h hi dev st" and g: "hi_group_id hi < NVS_GROUP_ID_MAX"
    and ks: "rs.apart env (Pair (hi_group_id hi) ` ks)" and "op_key ` set ops \<subseteq> ks"
    and "rs.sim env (Pair (hi_group_id hi) ` ks) (\<lambda>_. None) (dev, st)"
  shows "\<exists>dev' st'. api_ready env s' h hi dev' st' \<and>
    rs.sim env (Pair (hi_group_id hi) ` ks) (fold map_op ops Map.empty \<circ> snd) (dev', st')"
  using assms(1,2,5,6)
proof (induction rule: api_run.induct)
  case (api_nil s)
  then show ?case by (auto simp: comp_def)
next
  case (api_put s ops s1 k t v err s2)
  let ?g = "hi_group_id hi" and ?m = "fold map_op ops Map.empty"
  obtain dev1 st1 where r: "api_ready env s1 h hi dev1 st1" "rs.sim env (Pair ?g ` ks) (?m \<circ> snd) (dev1, st1)"
    using api_put.IH [OF api_put.prems(1) _ api_put.prems(3)] api_put.prems(2) by (auto simp del: comp_apply)
  have v: "st_valid t (?g, k) v" using api_put.hyps(3) g by (rule st_valid_plain)
  have w: "write_ready (st_sm st1) (length v)" using api_put.hyps(4) r(1) by (simp add: handle_room_ready)
  let ?ds = "st_put env (dev1, st1) t (?g, k) v"
  note si = set_item_spec [OF r(1) api_put.hyps(2) v w]
  have s2: "s2 = nv_put s1 (hi_storage hi) ?ds" using si(1) api_put.hyps(5) by simp
  have k: "k \<in> ks" using api_put.prems(2) by simp
  have "rs.sim env (Pair ?g ` ks) ((?m \<circ> snd)((?g, k) \<mapsto> (t, v))) ?ds"
    by (rule rs.sim_put [OF r(2) _ ks v]) (use k w in simp_all)
  then have "rs.sim env (Pair ?g ` ks) (fold map_op (ops @ [Put t k v]) Map.empty \<circ> snd) (fst ?ds, snd ?ds)"
    by (auto simp: rs.sim_def)
  then show ?case using si(2) s2 by blast
next
  case (api_del s ops s1 k err s2)
  let ?g = "hi_group_id hi" and ?m = "fold map_op ops Map.empty"
  obtain dev1 st1 where r: "api_ready env s1 h hi dev1 st1" "rs.sim env (Pair ?g ` ks) (?m \<circ> snd) (dev1, st1)"
    using api_del.IH [OF api_del.prems(1) _ api_del.prems(3)] api_del.prems(2) by (auto simp del: comp_apply)
  let ?ds = "st_del env (dev1, st1) (?g, k)"
  note di = del_key_spec [OF r(1), of k]
  have s2: "s2 = nv_put s1 (hi_storage hi) ?ds" using di(1) api_del.hyps(2) by auto
  have k: "k \<in> ks" using api_del.prems(2) by simp
  have "rs.sim env (Pair ?g ` ks) ((?m \<circ> snd)((?g, k) := None)) ?ds"
    by (rule rs.sim_del [OF r(2) _ ks]) (use k in simp)
  then have "rs.sim env (Pair ?g ` ks) (fold map_op (ops @ [Del k]) Map.empty \<circ> snd) (fst ?ds, snd ?ds)"
    by (auto simp: rs.sim_def)
  then show ?case using di(2) s2 by blast
qed

text \<open>C1. The store is a typed map. Take an open handle for writing of a store without blobs and a set
  of names, none stored yet, any two of which differ at a position inside both (\<open>keys_apart\<close>), so
  that none is a prefix of another. After any run of deletes of these names and of sets
  of non-blob values of at most 4032 bytes that find room without a collection (\<open>plain_value\<close>,
  \<open>handle_room\<close>), a get of a name and a non-blob type into a nonempty buffer returns the value last
  set with that type, reports the length when the buffer is too short, and is not found when the
  last call on the name was a delete, a set with another type, or none.\<close>

theorem api_is_typed_map:
  assumes "api_run env h s ops s'" and "api_ready env s h hi dev st" and "hi_group_id hi < NVS_GROUP_ID_MAX"
    and "\<forall>a \<in> ks. \<forall>b \<in> ks. a \<noteq> b \<longrightarrow> keys_apart a b" and "op_key ` set ops \<subseteq> ks"
    and "\<forall>a \<in> ks. \<forall>r \<in> set (st_content (dev, st)). \<not> st_owns env (hi_group_id hi, a) r"
    and "k \<in> ks" and "t \<noteq> TYPE_ANY" and "t < TYPE_BLOB" and "0 < length buf"
  shows "get_item env s' (Some h) t (Some k) (Some buf) (Some (length buf)) =
    Some (case fold map_op ops Map.empty k of
      None \<Rightarrow> (WM_NVS_ERR_NOT_FOUND, s', Some buf, Some (length buf))
    | Some (t', v) \<Rightarrow>
        if t' \<noteq> t then (WM_NVS_ERR_NOT_FOUND, s', Some buf, Some (length buf))
        else if length buf < length v then (WM_NVS_ERR_VALUE_TOO_LONG, s', Some buf, Some (length v))
        else (WM_NVS_ERR_OK, s', Some (overlay buf 0 v), Some (length v)))"
proof -
  let ?g = "hi_group_id hi"
  have "rs.sim env (Pair ?g ` ks) (\<lambda>_. None) (dev, st)"
    using assms(2,6) by (auto simp: rs.sim_def api_ready_def filter_empty_conv)
  from api_run_sim [OF assms(1-3) apart_keys [OF assms(4)] assms(5) this]
  obtain dev' st' where r: "api_ready env s' h hi dev' st'"
    "rs.sim env (Pair ?g ` ks) (fold map_op ops Map.empty \<circ> snd) (dev', st')" by blast
  have v: "st_valid t (?g, k) []" using assms(3,8,9) by (simp add: st_valid_def)
  have "st_get env (dev', st') t (?g, k) = (case fold map_op ops Map.empty k of None \<Rightarrow> None
      | Some (t', v) \<Rightarrow> if t' = t then Some v else None)"
    using rs.sim_get [OF r(2) _ v] assms(7) by simp
  then show ?thesis using get_item_eq [OF r(1) v assms(10)] by (auto split: option.splits)
qed

theorem api_is_typed_map_witness:
  "\<exists>s'. api_run demo_env 2 demo_nvs [Put TYPE_BINARY demo_key [1, 2, 3], Del [0x6C]] s' \<and>
     get_item demo_env s' (Some 2) TYPE_BINARY (Some demo_key) (Some [0, 0, 0, 9]) (Some 4) =
       Some (WM_NVS_ERR_OK, s', Some [1, 2, 3, 9], Some 3)"
proof -
  let ?hi = "demo_hi" and ?o1 = "Put TYPE_BINARY demo_key [1, 2, 3]"
  have v: "st_valid TYPE_BINARY (hi_group_id demo_hi, demo_key) [1, 2, 3]"
    by (simp add: st_valid_def demo_hi_def)
  have w: "write_ready (st_sm demo_st) (length ([1, 2, 3] :: bytes))" by (simp add: demo_st_def)
  note si = set_item_spec [OF demo_api demo_key_ok v w]
  let ?s1 = "nv_put demo_nvs (hi_storage demo_hi) (st_put demo_env (demo_dev, demo_st) TYPE_BINARY
      (hi_group_id demo_hi, demo_key) [1, 2, 3])"
  have r1: "api_run demo_env 2 demo_nvs [?o1] ?s1"
    using api_put [OF api_nil demo_key_ok _ _ si(1)] w handle_room_ready [OF demo_api] by (simp add: plain_value_def)
  obtain err s2 where d: "wm_nvs_del_key demo_env ?s1 (Some 2) (Some [0x6C]) = Some (err, s2)"
    using del_key_spec(1) [OF si(2), of "[0x6C]"] by auto
  have r2: "api_run demo_env 2 demo_nvs [?o1, Del [0x6C]] s2"
    using api_del [OF r1 d] by simp
  have "keys_apart demo_key [0x6C]" "keys_apart [0x6C] demo_key"
    by (simp_all add: keys_apart_def demo_key_def strnlen_def)
  then have a: "\<forall>a \<in> {demo_key, [0x6C]}. \<forall>b \<in> {demo_key, [0x6C]}. a \<noteq> b \<longrightarrow> keys_apart a b" by auto
  have c: "st_content (demo_dev, demo_st) = []" by (simp add: st_content_def demo_st_def)
  have g: "hi_group_id demo_hi < NVS_GROUP_ID_MAX" by (simp add: demo_hi_def)
  have "get_item demo_env s2 (Some 2) TYPE_BINARY (Some demo_key) (Some [0, 0, 0, 9]) (Some 4) =
      Some (WM_NVS_ERR_OK, s2, Some [1, 2, 3, 9], Some 3)"
    using api_is_typed_map [OF r2 demo_api g a, of demo_key TYPE_BINARY "[0, 0, 0, 9]"] c
    by (auto simp: demo_key_def overlay_def numeral_3_eq_3 numeral_eq_Suc)
  with r2 show ?thesis by auto
qed

section \<open>Single calls\<close>

lemma set_get:
  assumes rd: "api_ready env s h hi dev st" and k: "key_ok k" and v: "st_valid t (hi_group_id hi, k) v"
    and w: "write_ready (st_sm st) (length v)" and u: "kv_unique env (hi_group_id hi) k (st_content (dev, st))"
    and b: "0 < length buf" "length v \<le> length buf"
  shows "\<exists>s'. set_item env s (Some h) t (Some k) (Some v) (length v) = Some (WM_NVS_ERR_OK, s') \<and>
    get_item env s' (Some h) t (Some k) (Some buf) (Some (length buf)) =
      Some (WM_NVS_ERR_OK, s', Some (overlay buf 0 v), Some (length v))"
proof -
  note si = set_item_spec [OF rd k v w]
  have ok: "st_ok env (dev, st)" using rd by (simp add: api_ready_def)
  have "st_get env (st_put env (dev, st) t (hi_group_id hi, k) v) t (hi_group_id hi, k) = Some v"
    by (rule rs.get_put [OF ok v]) (use w u in \<open>simp_all add: kv_unique_def st_owns_def\<close>)
  then show ?thesis using si(1) get_item_value [OF si(2) v _ b] by simp
qed

text \<open>C2. Set, then get, on a store without blobs: a non-blob value of up to 4032 bytes that finds
  room without a collection, under a key that at most one entry answers for, is stored, and the
  next get of that key and type on the handle, into a buffer that is long enough, returns exactly
  its bytes and length, whatever value of whatever non-blob type the entry held.\<close>

theorem set_then_get:
  assumes "api_ready env s h hi dev st" and "key_ok k" and "st_valid t (hi_group_id hi, k) v"
    and "write_ready (st_sm st) (length v)" and "kv_unique env (hi_group_id hi) k (st_content (dev, st))"
    and "0 < length buf" and "length v \<le> length buf"
  shows "\<exists>s'. set_item env s (Some h) t (Some k) (Some v) (length v) = Some (WM_NVS_ERR_OK, s') \<and>
    get_item env s' (Some h) t (Some k) (Some buf) (Some (length buf)) =
      Some (WM_NVS_ERR_OK, s', Some (overlay buf 0 v), Some (length v))"
  by (rule set_get [OF assms])

lemma demo_unique [simp]: "kv_unique demo_env 1 demo_key (st_content (demo_dev, demo_st))"
  by (simp add: kv_unique_def st_content_def demo_st_def)

lemma demo_hi_group [simp]: "hi_group_id demo_hi = 1" by (simp add: demo_hi_def)

lemma demo_st_sm [simp]: "st_sm demo_st = demo_sm" by (simp add: demo_st_def)

theorem set_then_get_witness:
  "\<exists>s'. set_item demo_env demo_nvs (Some 2) TYPE_STRING (Some demo_key) (Some (replicate 100 65)) 100 =
       Some (WM_NVS_ERR_OK, s') \<and>
     get_item demo_env s' (Some 2) TYPE_STRING (Some demo_key) (Some (replicate 120 0)) (Some 120) =
       Some (WM_NVS_ERR_OK, s', Some (replicate 100 65 @ replicate 20 0), Some 100)"
  using set_then_get [OF demo_api demo_key_ok, of TYPE_STRING "replicate 100 65" "replicate 120 0"]
  by (simp add: st_valid_def overlay_def)

definition ints_back :: "env \<Rightarrow> nvs \<Rightarrow> nat \<Rightarrow> bytes \<Rightarrow> nat \<Rightarrow> int \<Rightarrow>
    (int \<times> nvs) option \<Rightarrow> (nvs \<Rightarrow> (int \<times> nvs \<times> bytes option \<times> nat option) option) \<Rightarrow> bool" where
  "ints_back env s h k n v set_r get_r \<longleftrightarrow>
     (\<exists>s' b. set_r = Some (WM_NVS_ERR_OK, s') \<and> get_r s' = Some (WM_NVS_ERR_OK, s', Some b, Some n) \<and>
        length b = n \<and> int (le_nat b) = v mod 256 ^ n)"

lemma int_back:
  assumes rd: "api_ready env s h hi dev st" and k: "key_ok k" and g: "hi_group_id hi < NVS_GROUP_ID_MAX"
    and t: "t \<noteq> TYPE_ANY" "t < TYPE_BLOB" and n: "0 < n" "n \<le> 8" and w: "write_ready (st_sm st) n"
    and u: "kv_unique env (hi_group_id hi) k (st_content (dev, st))" and b: "length buf = n"
  shows "ints_back env s h k n v (set_item env s (Some h) t (Some k) (Some (int_bytes n v)) n)
    (\<lambda>s'. get_item env s' (Some h) t (Some k) (Some buf) (Some n))"
proof -
  let ?v = "int_bytes n v"
  have l: "length ?v = n" by (simp add: int_bytes_def)
  have "st_valid t (hi_group_id hi, k) ?v" using t g n l by (simp add: st_valid_def)
  from set_get [OF rd k this _ u, of buf] obtain s' where s':
    "set_item env s (Some h) t (Some k) (Some ?v) n = Some (WM_NVS_ERR_OK, s')"
    "get_item env s' (Some h) t (Some k) (Some buf) (Some n) = Some (WM_NVS_ERR_OK, s', Some (overlay buf 0 ?v), Some n)"
    using w l b n by auto
  have "int (le_nat ?v) = v mod 256 ^ n"
    by (simp add: int_bytes_def le_nat_le_bytes zmod_int)
  moreover have "overlay buf 0 ?v = ?v" using l b by (simp add: overlay_def)
  ultimately show ?thesis using s' l by (auto simp: ints_back_def)
qed

text \<open>The eight integer setters and getters are inverse to each other: the bytes the getter
  leaves in the caller's object are the object representation of the value that was set, and that
  representation determines every value of the type's range, signed or unsigned.\<close>

theorem integers_back:
  assumes "api_ready env s h hi dev st" and "key_ok k" and "hi_group_id hi < NVS_GROUP_ID_MAX"
    and "write_ready (st_sm st) 1" and "write_ready (st_sm st) 2" and "write_ready (st_sm st) 4"
    and "write_ready (st_sm st) 8" and "kv_unique env (hi_group_id hi) k (st_content (dev, st))"
    and "length b1 = 1" and "length b2 = 2" and "length b4 = 4" and "length b8 = 8"
  shows "ints_back env s h k 1 v (wm_nvs_set_i8 env s (Some h) (Some k) v) (\<lambda>s. wm_nvs_get_i8 env s (Some h) (Some k) (Some b1)) \<and>
    ints_back env s h k 1 v (wm_nvs_set_u8 env s (Some h) (Some k) v) (\<lambda>s. wm_nvs_get_u8 env s (Some h) (Some k) (Some b1)) \<and>
    ints_back env s h k 2 v (wm_nvs_set_i16 env s (Some h) (Some k) v) (\<lambda>s. wm_nvs_get_i16 env s (Some h) (Some k) (Some b2)) \<and>
    ints_back env s h k 2 v (wm_nvs_set_u16 env s (Some h) (Some k) v) (\<lambda>s. wm_nvs_get_u16 env s (Some h) (Some k) (Some b2)) \<and>
    ints_back env s h k 4 v (wm_nvs_set_i32 env s (Some h) (Some k) v) (\<lambda>s. wm_nvs_get_i32 env s (Some h) (Some k) (Some b4)) \<and>
    ints_back env s h k 4 v (wm_nvs_set_u32 env s (Some h) (Some k) v) (\<lambda>s. wm_nvs_get_u32 env s (Some h) (Some k) (Some b4)) \<and>
    ints_back env s h k 8 v (wm_nvs_set_i64 env s (Some h) (Some k) v) (\<lambda>s. wm_nvs_get_i64 env s (Some h) (Some k) (Some b8)) \<and>
    ints_back env s h k 8 v (wm_nvs_set_u64 env s (Some h) (Some k) v) (\<lambda>s. wm_nvs_get_u64 env s (Some h) (Some k) (Some b8))"
  unfolding wm_nvs_set_i8_def wm_nvs_set_u8_def wm_nvs_set_i16_def wm_nvs_set_u16_def wm_nvs_set_i32_def
    wm_nvs_set_u32_def wm_nvs_set_i64_def wm_nvs_set_u64_def wm_nvs_get_i8_def wm_nvs_get_u8_def
    wm_nvs_get_i16_def wm_nvs_get_u16_def wm_nvs_get_i32_def wm_nvs_get_u32_def wm_nvs_get_i64_def wm_nvs_get_u64_def
  using int_back [OF assms(1-3)] assms(4-) by simp

theorem integers_back_witness:
  "ints_back demo_env demo_nvs 2 demo_key 4 (-5) (wm_nvs_set_i32 demo_env demo_nvs (Some 2) (Some demo_key) (-5))
     (\<lambda>s. wm_nvs_get_i32 demo_env s (Some 2) (Some demo_key) (Some [0, 0, 0, 0]))"
  using integers_back [OF demo_api demo_key_ok, of "[0]" "[0, 0]" "[0, 0, 0, 0]" "[0, 0, 0, 0, 0, 0, 0, 0]" "-5"]
  by simp

text \<open>C12. Delete, then get, on a store without blobs and for a key that at most one entry answers
  for: whatever non-blob type is asked for, the key is not found and the caller's buffer and length
  are as they were.\<close>

theorem delete_then_get:
  assumes "api_ready env s h hi dev st" and "hi_group_id hi < NVS_GROUP_ID_MAX"
    and "kv_unique env (hi_group_id hi) k (st_content (dev, st))"
    and "t \<noteq> TYPE_ANY" and "t < TYPE_BLOB" and "0 < length buf"
  shows "\<exists>err s'. wm_nvs_del_key env s (Some h) (Some k) = Some (err, s') \<and>
    get_item env s' (Some h) t (Some k) (Some buf) (Some (length buf)) =
      Some (WM_NVS_ERR_NOT_FOUND, s', Some buf, Some (length buf))"
proof -
  note d = del_key_spec [OF assms(1), of k]
  have ok: "st_ok env (dev, st)" using assms(1) by (simp add: api_ready_def)
  have v: "st_valid t (hi_group_id hi, k) []" using assms by (simp add: st_valid_def)
  have "st_get env (st_del env (dev, st) (hi_group_id hi, k)) t (hi_group_id hi, k) = None"
    by (rule rs.get_del [OF ok v]) (use assms(3) in \<open>simp add: kv_unique_def st_owns_def\<close>)
  then show ?thesis using d(1) get_item_none [OF d(2) v _ assms(6)] by auto
qed

theorem delete_then_get_witness:
  "\<exists>err s'. wm_nvs_del_key demo_env demo_nvs (Some 2) (Some demo_key) = Some (err, s') \<and>
     get_item demo_env s' (Some 2) TYPE_UINT8 (Some demo_key) (Some [1, 2]) (Some 2) =
       Some (WM_NVS_ERR_NOT_FOUND, s', Some [1, 2], Some 2)"
  using delete_then_get [OF demo_api, of demo_key TYPE_UINT8 "[1, 2]"] by (simp add: numeral_2_eq_2)

text \<open>Writing the value a key already has leaves the flash and the whole state untouched.\<close>

theorem set_same_value_is_free:
  assumes "api_ready env s h hi dev st" and "key_ok k" and "st_valid t (hi_group_id hi, k) v"
    and "find (st_owns env (hi_group_id hi, k)) (st_content (dev, st)) = Some (x, v)" and "it_type x = t"
  shows "set_item env s (Some h) t (Some k) (Some v) (length v) = Some (WM_NVS_ERR_OK, s)"
proof -
  have ok: "sm_ok env dev (st_sm st)" using assms(1) by (simp add: api_ready_def st_ok_def)
  have t: "t \<noteq> TYPE_BLOB" using assms(3) by (auto simp: st_valid_def)
  have f: "find (kv_any env (hi_group_id hi) k) (sm_live dev (st_sm st)) = Some (x, take (length v) v)"
    using assms(4) by (simp add: st_owns_def st_content_def)
  have w: "wm_nvs_storage_write_item env dev st (hi_group_id hi) t k v (length v) = Some (WM_NVS_ERR_OK, dev, st)"
    by (rule write_same_refines [OF ok t order_refl f assms(5)])
  have same: "s\<lparr>nv_dev := Some dev, nv_storages := alist_set (hi_storage hi) st (nv_storages s)\<rparr> = s"
    using assms(1) alist_set_same [of "nv_storages s" "hi_storage hi" st] by (simp add: api_ready_def)
  show ?thesis
    using assms(1-3) w same api_valid [OF assms(1)]
    by (simp add: set_item_def with_rw_handle_def drop_unit_def on_storage_def api_ready_def key_ok_def st_valid_def)
qed

theorem set_same_value_is_free_witness:
  "\<exists>s. set_item demo_env demo_nvs (Some 2) TYPE_UINT8 (Some demo_key) (Some [7]) 1 = Some (WM_NVS_ERR_OK, s) \<and>
     set_item demo_env s (Some 2) TYPE_UINT8 (Some demo_key) (Some [7]) 1 = Some (WM_NVS_ERR_OK, s)"
proof -
  let ?gk = "(hi_group_id demo_hi, demo_key)"
  have v: "st_valid TYPE_UINT8 ?gk [7]" by (simp add: st_valid_def)
  have w: "write_ready (st_sm demo_st) (length ([7] :: bytes))" by simp
  note si = set_item_spec [OF demo_api demo_key_ok v w]
  let ?ds = "st_put demo_env (demo_dev, demo_st) TYPE_UINT8 ?gk [7]"
  have "st_content (demo_dev, demo_st) = []" by (simp add: st_content_def)
  then have c: "st_content ?ds = [st_mk demo_env TYPE_UINT8 ?gk [7]]"
    using rs.put [OF demo_st_ok v] w by simp
  have "st_owns demo_env ?gk (st_mk demo_env TYPE_UINT8 ?gk [7])"
    using rs.is_of_owns [OF v] rs.mk [OF v] by blast
  then have f: "find (st_owns demo_env ?gk) (st_content (fst ?ds, snd ?ds)) =
      Some (new_item demo_env (hi_group_id demo_hi) TYPE_UINT8 demo_key [7] 1 NVS_SEG_ID_ANY, [7])"
    unfolding prod.collapse c by (simp add: st_mk_def One_nat_def)
  show ?thesis
    using set_same_value_is_free [OF si(2) demo_key_ok v f] si(1) by (simp add: new_item_def One_nat_def)
qed

section \<open>Guards\<close>

definition refused :: "nvs \<Rightarrow> (int \<times> nvs) option \<Rightarrow> bool" where
  "refused s r \<longleftrightarrow> (\<exists>err. r = Some (err, s) \<and> err \<noteq> WM_NVS_ERR_OK)"

text \<open>C16. Only a valid handle for writing changes anything: on a handle opened read-only or no longer
  valid, set, delete of a key and delete of the group fail and leave the whole state, flash
  included, as it is, for all arguments. On a number that is no open handle set and delete of a
  key do the same, while deleting the group has no result: the code dereferences the handle before
  it checks it.\<close>

theorem no_write_without_rw_handle:
  assumes "case map_of (nv_handles s) h of None \<Rightarrow> True | Some hi \<Rightarrow> hi_mode hi = OP_READ_ONLY \<or> \<not> hi_valid hi"
  shows "refused s (set_item env s (Some h) t k v len) \<and> refused s (wm_nvs_del_key env s (Some h) k) \<and>
    (case map_of (nv_handles s) h of None \<Rightarrow> wm_nvs_del_group env s (Some h) = None
     | Some _ \<Rightarrow> refused s (wm_nvs_del_group env s (Some h)))"
proof -
  have rw: "refused s (with_rw_handle env s h f)" for f
    using assms
    by (auto simp: refused_def with_rw_handle_def wm_nvs_ptm_is_handle_valid_def Let_def split: option.splits)
  have "refused s (set_item env s (Some h) t k v len)"
    using rw by (auto simp: set_item_def split: option.splits) (auto simp: refused_def)
  moreover have "refused s (wm_nvs_del_key env s (Some h) k)"
    using rw by (auto simp: wm_nvs_del_key_def split: option.splits) (auto simp: refused_def)
  moreover have "refused s (wm_nvs_del_group env s (Some h))" if "map_of (nv_handles s) h \<noteq> None"
    using rw that by (auto simp: wm_nvs_del_group_def split: option.splits) (auto simp: refused_def)
  ultimately show ?thesis by (auto simp: wm_nvs_del_group_def split: option.splits)
qed

theorem no_write_without_rw_handle_witness:
  "refused demo_nvs (set_item demo_env demo_nvs (Some 3) TYPE_UINT8 (Some demo_key) (Some [1]) 1) \<and>
   refused demo_nvs (wm_nvs_del_group demo_env demo_nvs (Some 3))"
  using no_write_without_rw_handle [of demo_nvs 3 demo_env TYPE_UINT8 "Some demo_key" "Some [1]" 1]
  by (simp add: demo_nvs_def)

section \<open>Groups\<close>

lemma strcmp_eq_refl [simp]: "strcmp_eq a a"
  by (simp add: strcmp_eq_def)

lemma find_upt_Some:
  assumes "find P [a..<b] = Some i"
  shows "a \<le> i \<and> i < b \<and> P i \<and> (\<forall>j. a \<le> j \<and> j < i \<longrightarrow> \<not> P j)"
proof -
  obtain k where k: "k < b - a" "P (a + k)" "i = a + k" "\<forall>j < k. \<not> P (a + j)"
    using assms by (auto simp: find_Some_iff)
  have "\<not> P j" if "a \<le> j" "j < i" for j
    using k(3) spec [OF k(4), of "j - a"] that by auto
  with k show ?thesis by auto
qed

lemma takeWhile_take: "takeWhile P (take n xs) = take n (takeWhile P xs)"
proof (induction xs arbitrary: n)
  case (Cons x xs)
  then show ?case by (cases n) simp_all
qed simp

definition groups_ok :: "storage \<Rightarrow> bool" where
  "groups_ok st \<longleftrightarrow> distinct (map g_id (st_groups st)) \<and>
     (\<forall>g \<in> set (st_groups st). 0 < g_id g \<and> g_id g < NVS_GROUP_ID_MAX)"

lemma groups_card:
  assumes "groups_ok st"
  shows "length (st_groups st) \<le> 62" and "length (st_groups st) = 62 \<longleftrightarrow> {1..<63} \<subseteq> g_id ` set (st_groups st)"
proof -
  have c: "card (g_id ` set (st_groups st)) = length (st_groups st)"
    using assms distinct_card [of "map g_id (st_groups st)"] by (simp add: groups_ok_def)
  have s: "g_id ` set (st_groups st) \<subseteq> {1..<63}" using assms by (fastforce simp: groups_ok_def)
  have n: "card {1..<63 :: nat} = 62" by simp
  show "length (st_groups st) \<le> 62" using card_mono [OF finite_atLeastLessThan s] c n by simp
  show "length (st_groups st) = 62 \<longleftrightarrow> {1..<63} \<subseteq> g_id ` set (st_groups st)"
  proof
    assume "length (st_groups st) = 62"
    then have "g_id ` set (st_groups st) = {1..<63}"
      using card_subset_eq [OF finite_atLeastLessThan s] c n by simp
    then show "{1..<63} \<subseteq> g_id ` set (st_groups st)" by (rule equalityD2)
  next
    assume "{1..<63} \<subseteq> g_id ` set (st_groups st)"
    with s have "g_id ` set (st_groups st) = {1..<63}" by (rule equalityI)
    then show "length (st_groups st) = 62" using c n by simp
  qed
qed

lemma storage_find_group_new:
  assumes "find (\<lambda>g. strcmp_eq (g_name g) nm) (st_groups st) = None" and "groups_ok st"
  shows "\<exists>i. storage_find_group st nm = (WM_NVS_ERR_FAIL, i) \<and> 0 < i \<and> i \<le> NVS_GROUP_ID_MAX \<and>
    i \<notin> g_id ` set (st_groups st) \<and> (\<forall>j. 0 < j \<and> j < i \<longrightarrow> j \<in> g_id ` set (st_groups st)) \<and>
    (i = NVS_GROUP_ID_MAX \<longleftrightarrow> length (st_groups st) = 62)"
proof (cases "find (\<lambda>i. i \<notin> set (map g_id (st_groups st))) [1..<63]")
  case None
  then have all: "{1..<63} \<subseteq> g_id ` set (st_groups st)" by (auto simp: find_None_iff)
  have "63 \<notin> g_id ` set (st_groups st)" using assms(2) by (fastforce simp: groups_ok_def)
  then show ?thesis
    using None assms(1) all groups_card(2) [OF assms(2)] by (auto simp: storage_find_group_def)
next
  case (Some i)
  then have i: "1 \<le> i" "i < 63" "i \<notin> g_id ` set (st_groups st)"
    "\<forall>j. 1 \<le> j \<and> j < i \<longrightarrow> j \<in> g_id ` set (st_groups st)" using find_upt_Some [OF Some] by auto
  have "length (st_groups st) \<noteq> 62" using i groups_card(2) [OF assms(2)] by auto
  then show ?thesis using Some assms(1) i by (auto simp: storage_find_group_def)
qed

text \<open>C17. Group numbers: a name that has a group keeps its number, a new name gets the lowest number
  from 1 that no group has, and the reserved number 63, which opening refuses, comes out exactly
  when all 62 are taken.\<close>

theorem group_number_lowest_free:
  assumes "groups_ok st"
  shows "case storage_find_group st nm of (err, i) \<Rightarrow>
    if \<exists>g \<in> set (st_groups st). strcmp_eq (g_name g) nm
    then err = WM_NVS_ERR_OK \<and> (\<exists>g \<in> set (st_groups st). strcmp_eq (g_name g) nm \<and> g_id g = i)
    else err = WM_NVS_ERR_FAIL \<and> 0 < i \<and> i \<notin> g_id ` set (st_groups st) \<and>
      (\<forall>j. 0 < j \<and> j < i \<longrightarrow> j \<in> g_id ` set (st_groups st)) \<and>
      (i = NVS_GROUP_ID_ANY \<longleftrightarrow> length (st_groups st) = 62)"
proof (cases "find (\<lambda>g. strcmp_eq (g_name g) nm) (st_groups st)")
  case None
  then show ?thesis using storage_find_group_new [OF None assms] by (auto simp: find_None_iff)
next
  case (Some g)
  then show ?thesis using find_SomeD [OF Some] by (auto simp: storage_find_group_def)
qed

theorem group_number_lowest_free_witness:
  "storage_find_group (demo_st\<lparr>st_groups := [\<lparr>g_name = [0x61], g_id = 1\<rparr>, \<lparr>g_name = [0x62], g_id = 3\<rparr>]\<rparr>) [0x63] =
     (WM_NVS_ERR_FAIL, 2)"
  using group_number_lowest_free [of "demo_st\<lparr>st_groups := [\<lparr>g_name = [0x61], g_id = 1\<rparr>, \<lparr>g_name = [0x62], g_id = 3\<rparr>]\<rparr>" "[0x63]"]
  by (simp add: groups_ok_def strcmp_eq_def storage_find_group_def upt_rec)

text \<open>Opening a group: with room for its record the call succeeds, the new number is recorded on
  flash and in RAM, the numbers stay distinct, and opening the same name again returns the
  same number without touching flash or RAM.\<close>

theorem group_open_stable:
  assumes "st_ok env (dev, st)" and "groups_ok st" and "write_ready (st_sm st) 1" and "alloc_ok env GROUP_T_SIZE"
    and "strlen grp \<le> NVS_MAX_KEY_LEN" and "length (st_groups st) < 62"
  shows "\<exists>dev' st' i. wm_nvs_storage_open_group env dev st grp c = Some (WM_NVS_ERR_OK, dev', st', i) \<and>
    st_ok env (dev', st') \<and> groups_ok st' \<and> 0 < i \<and> i < NVS_GROUP_ID_MAX \<and>
    wm_nvs_storage_open_group env dev' st' grp c = Some (WM_NVS_ERR_OK, dev', st', i)"
proof (cases "find (\<lambda>g. strcmp_eq (g_name g) grp) (st_groups st)")
  case (Some g)
  then show ?thesis
    using assms(1,2) find_SomeD [OF Some]
    by (intro exI [of _ dev] exI [of _ st] exI [of _ "g_id g"])
      (auto simp: wm_nvs_storage_open_group_def storage_find_group_def groups_ok_def)
next
  case None
  obtain i where i: "storage_find_group st grp = (WM_NVS_ERR_FAIL, i)" "0 < i" "i \<le> NVS_GROUP_ID_MAX"
    "i \<notin> g_id ` set (st_groups st)" "i \<noteq> NVS_GROUP_ID_MAX"
    using storage_find_group_new [OF None assms(2)] assms(6) by auto
  have v: "st_valid TYPE_UINT8 (NVS_GROUP_ITSELF_ID, grp) [of_nat i]" by (simp add: st_valid_def)
  obtain dev' m' where w: "wm_nvs_storage_write_item env dev st NVS_GROUP_ITSELF_ID TYPE_UINT8 grp [of_nat i] 1 =
      Some (WM_NVS_ERR_OK, dev', st\<lparr>st_sm := m'\<rparr>)"
    using st_write_cases [OF assms(1) v] assms(3) by (auto simp: One_nat_def)
  have ok: "st_ok env (dev', st\<lparr>st_sm := m'\<rparr>)"
    using rs.put_ok [OF assms(1) v] assms(3) w by (simp add: st_put_def One_nat_def)
  let ?g = "\<lparr>g_name = takeWhile (\<lambda>b. b \<noteq> 0) (take (min (strnlen grp NVS_MAX_KEY_LEN) NVS_MAX_KEY_LEN) grp), g_id = i\<rparr>"
  let ?st = "st\<lparr>st_sm := m', st_groups := st_groups st @ [?g]\<rparr>"
  have o1: "wm_nvs_storage_open_group env dev st grp c = Some (WM_NVS_ERR_OK, dev', ?st, i)"
    using i w assms(4) by (simp add: wm_nvs_storage_open_group_def storage_add_group_def)
  have n: "strcmp_eq (g_name ?g) grp"
  proof -
    let ?P = "\<lambda>b :: 8 word. b \<noteq> 0"
    have l: "length (takeWhile ?P grp) \<le> 15" using assms(5) by (simp add: strlen_def)
    then have "strnlen grp 15 = length (takeWhile ?P grp)" by (simp add: strnlen_def takeWhile_take)
    then show ?thesis using l by (simp add: strcmp_eq_def takeWhile_take)
  qed
  have "find (\<lambda>g. strcmp_eq (g_name g) grp) (st_groups ?st) = Some ?g"
    using None n by (simp add: find_append)
  then have o2: "wm_nvs_storage_open_group env dev' ?st grp c = Some (WM_NVS_ERR_OK, dev', ?st, i)"
    by (simp add: wm_nvs_storage_open_group_def storage_find_group_def)
  have "groups_ok ?st" using assms(2) i by (auto simp: groups_ok_def)
  moreover have "st_ok env (dev', ?st)" using ok by (simp add: st_ok_def st_content_def)
  ultimately show ?thesis using o1 o2 i by (intro exI [of _ dev'] exI [of _ ?st] exI [of _ i]) simp
qed

theorem group_open_stable_witness:
  "\<exists>dev' st' i. wm_nvs_storage_open_group demo_env demo_dev demo_st [0x61] True = Some (WM_NVS_ERR_OK, dev', st', i) \<and>
     wm_nvs_storage_open_group demo_env dev' st' [0x61] True = Some (WM_NVS_ERR_OK, dev', st', i)"
proof -
  have g: "groups_ok demo_st" "length (st_groups demo_st) < 62" by (simp_all add: groups_ok_def demo_st_def)
  have a: "alloc_ok demo_env GROUP_T_SIZE" by (simp add: demo_env_def)
  have w: "write_ready (st_sm demo_st) 1" by simp
  have l: "strlen [0x61] \<le> NVS_MAX_KEY_LEN" by (simp add: strlen_def)
  show ?thesis using group_open_stable [OF demo_st_ok g(1) w a l g(2)] by blast
qed

end
