(* ===== verification/NvsMount.thy ===== *)
theory NvsMount
  imports NvsSmGc
begin

text \<open>
  Mounting: the sector manager after a restart, built from the flash alone. A mounted store has
  the active sectors in the order of their serial numbers with the content they had, and the
  erased sectors idle.
\<close>

section \<open>Loading an erased sector\<close>

lemma sector_load_fresh:
  assumes fr: "sector_fresh env p dev sec" and idx: "idx * NVS_SECTION_SIZE = s_address sec"
  shows "\<exists>sec'. wm_nvs_sector_load env p dev old idx = (WM_NVS_ERR_OK, dev, sec') \<and>
    sector_fresh env p dev sec' \<and> s_address sec' = s_address sec \<and> s_serial sec' = s_serial old"
proof -
  let ?a = "s_address sec"
  let ?s = "old\<lparr>s_address := ?a, s_used := 0, s_droped := 0, s_hash := snd (wm_nvs_hash_init (s_hash old)),
      s_state := SEC_UNINIT\<rparr>"
  have pt: "pt_ok env p dev" and pl: "?a + NVS_SECTION_SIZE \<le> pt_size p"
    and ff: "\<And>x. ?a \<le> x \<Longrightarrow> x < ?a + NVS_SECTION_SIZE \<Longrightarrow> pt_mem p dev x = 0xFF"
    using fr by (auto simp: sector_fresh_def sector_place_def)
  have ss: "pt_sec_size p = NVS_SECTION_SIZE" and heap: "heap_ok env" using pt by (auto simp: pt_ok_def)
  have sl: "pt_slice p dev ?a 32 = replicate 32 0xFF" "pt_slice p dev ?a 4096 = replicate 4096 0xFF"
    by (rule pt_slice_blankI; use ff in simp)+
  have rd: "wm_nvs_pt_read_raw env p dev ?a (replicate 32 0) 32 = (WM_NVS_ERR_OK, replicate 32 0xFF)"
    "wm_nvs_pt_read_raw env p dev ?a (replicate 4096 0) 4096 = (WM_NVS_ERR_OK, replicate 4096 0xFF)"
    using pt_read_spec(2) [OF pt, of ?a 32 "replicate 32 0"] pt_read_spec(2) [OF pt, of ?a 4096 "replicate 4096 0"] pl sl
    by simp_all
  have st: "sh_state (header_of_bytes (replicate 32 0xFF)) = SEC_UNINIT"
    by (simp add: header_of_bytes_def)
  have "sector_check_empty env p dev ?s (header_of_bytes (replicate 32 0xFF)) = (WM_NVS_ERR_OK, ?s)"
    using rd(2) heap st by (simp add: sector_check_empty_def ss list_all_iff)
  then have "wm_nvs_sector_load env p dev old idx = (WM_NVS_ERR_OK, dev, ?s)"
    using rd(1) st by (simp add: wm_nvs_sector_load_def Let_def ss idx sector_classify_def)
  moreover have "sector_fresh env p dev ?s"
    using fr by (simp add: sector_fresh_def sector_place_def)
  ultimately show ?thesis by (intro exI [of _ ?s]) simp
qed

section \<open>The order of the active list\<close>

lemma insert_by_serial_sorted:
  assumes "sorted_wrt (<) (map f as)" and "i \<in> set as" and "\<forall>j \<in> set as. j \<le> i \<longrightarrow> s_serial (secs ! j) = f j"
  shows "insert_by_serial secs i (filter (\<lambda>j. j < i) as) = filter (\<lambda>j. j < Suc i) as"
  using assms
proof (induction as)
  case (Cons a as)
  show ?case
  proof (cases "a = i")
    case True
    have gt: "f i < f j" if "j \<in> set as" for j using Cons(2) True that by auto
    then have ni: "i \<notin> set as" by auto
    have e: "filter (\<lambda>j. j < Suc i) as = filter (\<lambda>j. j < i) as"
      by (rule filter_cong) (use ni in \<open>auto simp: less_Suc_eq\<close>)
    have "insert_by_serial secs i (filter (\<lambda>j. j < i) as) = i # filter (\<lambda>j. j < i) as"
    proof (cases "filter (\<lambda>j. j < i) as")
      case (Cons b bs)
      then have "b \<in> set (filter (\<lambda>j. j < i) as)" by simp
      then have "b \<in> set as" "b < i" by simp_all
      then have "s_serial (secs ! b) > s_serial (secs ! i)"
        using gt [of b] Cons.prems(3) True by simp
      then show ?thesis using Cons by simp
    qed simp
    then show ?thesis using True e by simp
  next
    case False
    then have i: "i \<in> set as" using Cons(3) by simp
    note IH = Cons(1) [OF _ i] Cons(2,4)
    show ?thesis
    proof (cases "a < i")
      case True
      have "f a < f i" using Cons(2) i by auto
      then have "\<not> s_serial (secs ! a) > s_serial (secs ! i)"
        using Cons(4) True i by auto
      then show ?thesis using IH True by simp
    next
      case False
      with \<open>a \<noteq> i\<close> show ?thesis using IH by auto
    qed
  qed
qed simp

section \<open>The load loop\<close>

text \<open>The RAM state is the one the flash stands for: everything in use has its header, everything
  else is erased, the active list is in serial order, and every sector is in one of the lists.\<close>

definition mountable :: "env \<Rightarrow> flash_dev \<Rightarrow> sm \<Rightarrow> bool" where
  "mountable env dev m \<longleftrightarrow> sm_ok env dev m \<and>
     (\<forall>i \<in> set (sm_active m). s_state (sm_sec m i) \<noteq> SEC_UNINIT) \<and> lists_ok env dev m"

text \<open>Sector \<open>i\<close> as it was and as it is loaded.\<close>

definition same_sector :: "env \<Rightarrow> flash_dev \<Rightarrow> sm \<Rightarrow> nat \<Rightarrow> sector \<Rightarrow> bool" where
  "same_sector env dev m i s \<longleftrightarrow> s_address s = i * NVS_SECTION_SIZE \<and>
     (if i \<in> set (sm_active m)
      then sector_ok env (sm_pt m) dev s \<and> header_ok env (sm_pt m) dev s \<and>
        s_state s = s_state (sm_sec m i) \<and> s_serial s = s_serial (sm_sec m i) \<and>
        s_next_free s = s_next_free (sm_sec m i) \<and> s_used s = s_used (sm_sec m i) \<and>
        s_droped s = s_droped (sm_sec m i) \<and> hash_list (s_hash s) = hash_list (s_hash (sm_sec m i))
      else sector_fresh env (sm_pt m) dev s \<and> s_serial s < 2 ^ 32)"

lemma mountable_sector:
  assumes "mountable env dev m" and "i < length (sm_secs m)" and "s_serial old < 2 ^ 32"
  shows "\<exists>s. wm_nvs_sector_load env (sm_pt m) dev old i = (WM_NVS_ERR_OK, dev, s) \<and> same_sector env dev m i s"
proof -
  have sh: "sm_shape m" and good: "\<forall>i \<in> set (sm_active m). sec_good env (sm_pt m) dev (sm_sec m i)"
    using assms(1) by (auto simp: mountable_def lists_ok_def sm_ok_def)
  have a: "i * NVS_SECTION_SIZE = s_address (sm_sec m i)" using sh assms(2) by (simp add: sm_shape_def)
  show ?thesis
  proof (cases "i \<in> set (sm_active m)")
    case True
    then have "sector_ok env (sm_pt m) dev (sm_sec m i)" "header_ok env (sm_pt m) dev (sm_sec m i)"
      using assms(1) good sec_good_live by (auto simp: mountable_def lists_ok_def)
    from sector_load_spec [OF this a, of old] True a show ?thesis by (auto simp: same_sector_def)
  next
    case False
    then have "sector_fresh env (sm_pt m) dev (sm_sec m i)"
      using assms(1,2) by (auto simp: mountable_def lists_ok_def)
    from sector_load_fresh [OF this a, of old] False a assms(3) show ?thesis by (auto simp: same_sector_def)
  qed
qed

lemma same_sector_active:
  assumes "same_sector env dev m i s"
  shows "s_state s = SEC_UNINIT \<or> s_state s = SEC_CRASH \<or> s_state s = SEC_INVALID \<longleftrightarrow> i \<notin> set (sm_active m)"
  using assms by (auto simp: same_sector_def sector_ok_def sector_live_def sector_fresh_def split: if_splits)

lemma sm_load_loop_spec:
  assumes mt: "mountable env dev m" and "n = length (sm_secs m)"
    and "sm_pt m1 = sm_pt m" and "length (sm_secs m1) = n" and "i \<le> n"
    and "\<forall>j < n. if j < i then same_sector env dev m j (sm_sec m1 j) else s_serial (sm_sec m1 j) < 2 ^ 32"
    and "sm_active m1 = filter (\<lambda>j. j < i) (sm_active m)" and "sm_idle m1 = filter (\<lambda>j. j \<notin> set (sm_active m)) [0..<i]"
  shows "\<exists>m2. sm_load_loop env dev m1 i = Some (WM_NVS_ERR_OK, dev, m2) \<and> sm_pt m2 = sm_pt m \<and>
    length (sm_secs m2) = n \<and> (\<forall>j < n. same_sector env dev m j (sm_sec m2 j)) \<and>
    sm_active m2 = sm_active m \<and> sm_idle m2 = filter (\<lambda>j. j \<notin> set (sm_active m)) [0..<n] \<and>
    sm_serial m2 = sm_serial m1"
  using assms(3-)
proof (induction "n - i" arbitrary: m1 i)
  case 0
  then have i: "i = n" by simp
  have pn: "pt_sec_num (sm_pt m) = n" using mt assms(2) by (simp add: mountable_def lists_ok_def sm_ok_def sm_shape_def)
  have "filter (\<lambda>j. j < n) (sm_active m) = sm_active m"
    using mt assms(2) by (auto simp: filter_id_conv mountable_def lists_ok_def)
  then show ?case using 0 i pn by (subst sm_load_loop.simps) auto
next
  case (Suc k)
  then have i: "i < n" by simp
  have pn: "pt_sec_num (sm_pt m) = n" using mt assms(2) by (simp add: mountable_def lists_ok_def sm_ok_def sm_shape_def)
  have old: "s_serial (sm_sec m1 i) < 2 ^ 32" using Suc.prems(4) i by auto
  obtain s where s: "wm_nvs_sector_load env (sm_pt m) dev (sm_sec m1 i) i = (WM_NVS_ERR_OK, dev, s)"
    "same_sector env dev m i s"
    using mountable_sector [OF mt _ old] i assms(2) by auto
  note act = same_sector_active [OF s(2)]
  let ?m = "sm_upd m1 i s"
  let ?m' = "if i \<in> set (sm_active m) then ?m\<lparr>sm_active := insert_by_serial (sm_secs ?m) i (sm_active ?m)\<rparr>
      else ?m\<lparr>sm_idle := sm_idle ?m @ [i]\<rparr>"
  have step: "sm_load_loop env dev m1 i = sm_load_loop env dev ?m' (Suc i)"
    using i pn s(1) act Suc.prems(1,2) by (subst sm_load_loop.simps) (auto simp: Let_def One_nat_def)
  have secs: "\<forall>j < n. if j < Suc i then same_sector env dev m j (sm_sec ?m' j) else s_serial (sm_sec ?m' j) < 2 ^ 32"
  proof (intro allI impI)
    fix j assume j: "j < n"
    have "sm_sec ?m' j = (if j = i then s else sm_sec m1 j)" using i Suc.prems(2) by (auto simp: sm_sec_upd)
    then show "if j < Suc i then same_sector env dev m j (sm_sec ?m' j) else s_serial (sm_sec ?m' j) < 2 ^ 32"
      using s(2) Suc.prems(4) j by (auto simp: less_Suc_eq)
  qed
  have a': "sm_active ?m' = filter (\<lambda>j. j < Suc i) (sm_active m)"
  proof (cases "i \<in> set (sm_active m)")
    case True
    have "s_serial (sm_secs ?m ! j) = s_serial (sm_sec m j)" if "j \<in> set (sm_active m)" "j \<le> i" for j
    proof -
      have "same_sector env dev m j (sm_sec ?m' j)" using secs that i by auto
      moreover have "sm_sec ?m' j = sm_secs ?m ! j" by (simp add: sm_sec_def)
      ultimately show ?thesis using that by (simp add: same_sector_def)
    qed
    then have "insert_by_serial (sm_secs ?m) i (filter (\<lambda>j. j < i) (sm_active m)) =
        filter (\<lambda>j. j < Suc i) (sm_active m)"
      using mt True by (intro insert_by_serial_sorted [where f = "\<lambda>j. s_serial (sm_sec m j)"])
        (auto simp: mountable_def lists_ok_def serials_ok_def)
    then show ?thesis using True Suc.prems(5) by simp
  next
    case False
    then have "filter (\<lambda>j. j < Suc i) (sm_active m) = filter (\<lambda>j. j < i) (sm_active m)"
      by (intro filter_cong) (auto simp: less_Suc_eq)
    then show ?thesis using False Suc.prems(5) by simp
  qed
  have i': "sm_idle ?m' = filter (\<lambda>j. j \<notin> set (sm_active m)) [0..<Suc i]"
    using Suc.prems(6) by simp
  have "k = n - Suc i" using Suc.hyps(2) by simp
  from Suc.hyps(1) [OF this _ _ _ secs a' i'] i Suc.prems(1,2) show ?case
    unfolding step by (auto split: if_splits)
qed

section \<open>The loaded manager\<close>

text \<open>\<open>m'\<close> is \<open>m\<close> after a restart.\<close>

definition remounted :: "env \<Rightarrow> flash_dev \<Rightarrow> sm \<Rightarrow> sm \<Rightarrow> bool" where
  "remounted env dev m m' \<longleftrightarrow> sm_pt m' = sm_pt m \<and> length (sm_secs m') = length (sm_secs m) \<and>
     (\<forall>j < length (sm_secs m). same_sector env dev m j (sm_sec m' j)) \<and> sm_active m' = sm_active m \<and>
     sm_idle m' = filter (\<lambda>j. j \<notin> set (sm_active m)) [0..<length (sm_secs m)] \<and>
     sm_serial m' = u32 (s_serial (sm_sec m (last (sm_active m))) + 1)"

lemma sm_load_sectors_spec:
  assumes mt: "mountable env dev m" and ne: "sm_active m \<noteq> []" and heap: "heap_ok env"
  shows "\<exists>m'. sm_load_sectors env dev (snd (sm_init_default env m0 (sm_pt m))) = Some (WM_NVS_ERR_OK, dev, m') \<and>
    remounted env dev m m'"
proof -
  let ?n = "length (sm_secs m)" and ?m0 = "snd (sm_init_default env m0 (sm_pt m))"
  have pn: "pt_sec_num (sm_pt m) = ?n" using mt by (simp add: mountable_def lists_ok_def sm_ok_def sm_shape_def)
  have m0: "sm_pt ?m0 = sm_pt m" "sm_secs ?m0 = replicate ?n zero_sector" "sm_active ?m0 = []" "sm_idle ?m0 = []"
    using heap pn by (simp_all add: sm_init_default_def)
  have "\<exists>m2. sm_load_loop env dev ?m0 0 = Some (WM_NVS_ERR_OK, dev, m2) \<and> sm_pt m2 = sm_pt m \<and>
    length (sm_secs m2) = ?n \<and> (\<forall>j < ?n. same_sector env dev m j (sm_sec m2 j)) \<and>
    sm_active m2 = sm_active m \<and> sm_idle m2 = filter (\<lambda>j. j \<notin> set (sm_active m)) [0..<?n] \<and>
    sm_serial m2 = sm_serial ?m0"
    by (rule sm_load_loop_spec [OF mt refl]) (simp_all add: m0 sm_sec_def zero_sector_def)
  then obtain m2 where m2: "sm_load_loop env dev ?m0 0 = Some (WM_NVS_ERR_OK, dev, m2)" "sm_pt m2 = sm_pt m"
    "length (sm_secs m2) = ?n" "\<forall>j < ?n. same_sector env dev m j (sm_sec m2 j)"
    "sm_active m2 = sm_active m" "sm_idle m2 = filter (\<lambda>j. j \<notin> set (sm_active m)) [0..<?n]" by blast
  let ?l = "last (sm_active m)"
  have l: "?l \<in> set (sm_active m)" "?l < ?n" using ne mt by (auto simp: mountable_def lists_ok_def)
  have "s_serial (sm_sec m2 ?l) = s_serial (sm_sec m ?l)" using m2(4) l by (simp add: same_sector_def)
  then have "sm_load_sectors env dev ?m0 = Some (WM_NVS_ERR_OK, dev, m2\<lparr>sm_serial := u32 (s_serial (sm_sec m ?l) + 1)\<rparr>)"
    using m2(1,5) ne by (simp add: sm_load_sectors_def sm_then_def list_last_def)
  then show ?thesis using m2(2-6) by (intro exI [of _ "m2\<lparr>sm_serial := u32 (s_serial (sm_sec m ?l) + 1)\<rparr>"])
      (simp add: remounted_def)
qed

lemma remounted_ok:
  assumes mt: "mountable env dev m" and rm: "remounted env dev m m'"
  shows "sm_ok env dev m'" and "sm_live dev m' = sm_live dev m" and "sm_entries dev m' = sm_entries dev m"
    and "\<forall>i \<in> set (sm_active m). sector_ok env (sm_pt m) dev (sm_sec m' i) \<and> s_state (sm_sec m' i) = s_state (sm_sec m i)"
proof -
  have a: "i < length (sm_secs m)" if "i \<in> set (sm_active m)" for i using mt that by (auto simp: mountable_def lists_ok_def)
  have ss: "\<And>j. j < length (sm_secs m) \<Longrightarrow> same_sector env dev m j (sm_sec m' j)" using rm by (simp add: remounted_def)
  have ad: "s_address (sm_sec m' i) = s_address (sm_sec m i)" if "i \<in> set (sm_active m)" for i
    using ss [OF a [OF that]] mt a [OF that] by (simp add: same_sector_def mountable_def lists_ok_def sm_ok_def sm_shape_def)
  have "sm_shape m'"
    using mt rm ss by (auto simp: sm_shape_def mountable_def lists_ok_def sm_ok_def remounted_def same_sector_def)
  then show "sm_ok env dev m'"
    using mt rm ss a by (auto simp: sm_ok_def mountable_def lists_ok_def remounted_def same_sector_def sec_good_def sec_idle_def)
  show "sm_live dev m' = sm_live dev m"
    using rm ad by (simp add: sm_live_def remounted_def live_def sector_entries_def cong: map_cong)
  show "sm_entries dev m' = sm_entries dev m"
    using rm ad by (simp add: sm_entries_def remounted_def sector_entries_def cong: map_cong)
  show "\<forall>i \<in> set (sm_active m). sector_ok env (sm_pt m) dev (sm_sec m' i) \<and> s_state (sm_sec m' i) = s_state (sm_sec m i)"
    using ss a by (simp add: same_sector_def)
qed

end
