(* ===== verification/NvsRecovery.thy ===== *)
theory NvsRecovery
  imports NvsMount NvsKv
begin

text \<open>
  The checks of the mount: the scan for the last entry of the last sector, the check of its data,
  and the search for an older copy. On a store whose last operation was a finished write they
  change nothing; the item they check is the last one that was read, live or not.
\<close>

section \<open>The scan for the last entry\<close>

lemma item_match_any [simp]: "item_match NVS_GROUP_ID_ANY TYPE_ANY None NVS_SEG_ID_ANY SEG_START_ANY x"
  by (simp add: item_match_def)

text \<open>The scan from a position, when the entries before it are \<open>pre\<close> and the others \<open>suf\<close>.\<close>

lemma scan_any_loop:
  assumes "sector_ok env p dev sec" and "item_wf it"
    and "sector_entries p dev sec = pre @ suf" and "log_end 0 pre = start"
  shows "sector_find_loop env p dev sec NVS_GROUP_ID_ANY TYPE_ANY None ix it NVS_SEG_ID_ANY SEG_START_ANY
      start (s_next_free sec) =
    (case find is_using suf of Some (j, x) \<Rightarrow> (WM_NVS_ERR_OK, sec, j, x)
     | None \<Rightarrow> (WM_NVS_ERR_NOT_FOUND, sec, ix, if suf = [] then it else snd (last suf)))"
  using assms
proof (induction suf arbitrary: pre start it)
  case Nil
  then have "s_next_free sec = start" by (simp add: sector_ok_def)
  then show ?case by (subst sector_find_loop.simps) simp
next
  case (Cons e suf)
  obtain j x where e: "e = (j, x)" by (cases e)
  note ok = Cons.prems(1)
  have ch: "chained 0 (pre @ (j, x) # suf)" using chained_sector [of p dev sec] Cons.prems(3) e by simp
  then have j: "j = start" using Cons.prems(4) by (simp add: chained_append)
  have mem: "(start, x) \<in> set (sector_entries p dev sec)" using Cons.prems(3) e j by simp
  note xe = sector_ok_entry [OF ok mem]
  have lt: "start < s_next_free sec"
    using chained_less [OF chained_sector mem] ok by (simp add: sector_ok_def)
  have rd: "wm_nvs_pt_read_item env p dev (s_address sec + (start + 1) * NVS_SLICE_SIZE) it = (WM_NVS_ERR_OK, x)"
    using read_head [of env p dev sec start it] ok xe Cons.prems(2) by (simp add: sector_ok_def)
  have n: "sector_find_next env sec NVS_GROUP_ID_ANY TYPE_ANY None NVS_SEG_ID_ANY start it = (int start, it)"
    by (simp add: sector_find_next_def)
  show ?case
  proof (cases "it_state x = ITEM_USING")
    case True
    then show ?thesis using lt n rd e j
      by (subst sector_find_loop.simps) (simp add: Let_def algebra_simps)
  next
    case False
    then have d: "it_state x = ITEM_DROPED" using xe(1) by simp
    have step: "sector_find_loop env p dev sec NVS_GROUP_ID_ANY TYPE_ANY None ix it NVS_SEG_ID_ANY SEG_START_ANY
        start (s_next_free sec) =
      sector_find_loop env p dev sec NVS_GROUP_ID_ANY TYPE_ANY None ix x NVS_SEG_ID_ANY SEG_START_ANY
        (start + wm_nvs_item_get_span x) (s_next_free sec)"
      using lt n rd d by (subst sector_find_loop.simps) (simp add: Let_def algebra_simps)
    have "sector_entries p dev sec = (pre @ [(j, x)]) @ suf" "log_end 0 (pre @ [(j, x)]) = start + wm_nvs_item_get_span x"
      using Cons.prems(3) e j by simp_all
    from Cons.IH [OF ok xe(5) this] show ?thesis unfolding step using e False by (simp split: option.splits)
  qed
qed

lemma scan_any:
  assumes "sector_ok env p dev sec" and "item_wf it"
    and "sector_entries p dev sec = pre @ suf" and "log_end 0 pre = start"
  shows "wm_nvs_sector_find_item env p dev sec NVS_GROUP_ID_ANY TYPE_ANY None start it NVS_SEG_ID_ANY SEG_START_ANY =
    (case find is_using suf of Some (j, x) \<Rightarrow> (WM_NVS_ERR_OK, sec, j, x)
     | None \<Rightarrow> (WM_NVS_ERR_NOT_FOUND, sec, start, if suf = [] then it else snd (last suf)))"
proof (cases "NVS_ENTRY_COUNT \<le> start")
  case True
  have "suf = []"
  proof (cases suf)
    case (Cons e es)
    have "chained 0 (pre @ e # es)" using chained_sector [of p dev sec] assms(3) Cons by simp
    then have "fst e = start" using assms(4) by (cases e) (simp add: chained_append)
    moreover have "(fst e, snd e) \<in> set (sector_entries p dev sec)" using assms(3) Cons by simp
    ultimately have "start < NVS_ENTRY_COUNT"
      using sector_ok_entry(7) [OF assms(1)] by metis
    with True show ?thesis by simp
  qed simp
  with True assms show ?thesis by (simp add: wm_nvs_sector_find_item_def)
next
  case False
  have "min (s_next_free sec) NVS_ENTRY_COUNT = s_next_free sec"
    using sector_ok_next_free [OF assms(1)] by simp
  with False assms scan_any_loop [OF assms] show ?thesis
    by (auto simp: wm_nvs_sector_find_item_def sector_ok_def sector_live_def)
qed

lemma find_split: "find P xs = Some x \<Longrightarrow> \<exists>A B. xs = A @ x # B \<and> (\<forall>y \<in> set A. \<not> P y)"
proof (induction xs)
  case (Cons a xs)
  show ?case
  proof (cases "P a")
    case True
    with Cons(2) show ?thesis by (intro exI [of _ "[]"] exI [of _ xs]) simp
  next
    case False
    with Cons obtain A B where "xs = A @ x # B" "\<forall>y \<in> set A. \<not> P y" by auto
    with False show ?thesis by (intro exI [of _ "a # A"] exI [of _ B]) simp
  qed
qed simp

text \<open>The result: the position of the last entry in use, but the item that was read last.\<close>

lemma sm_find_last_spec:
  assumes "sector_ok env p dev sec" and "item_wf it"
    and "sector_entries p dev sec = pre @ suf" and "log_end 0 pre = start"
  shows "sm_find_last env p dev sec found li start it =
    (sec, found \<or> filter is_using suf \<noteq> [],
     if filter is_using suf = [] then li else fst (last (filter is_using suf)),
     if suf = [] then it else snd (last suf))"
  using assms
proof (induction "length suf" arbitrary: pre suf start it found li rule: less_induct)
  case less
  note f = scan_any [OF less.prems]
  show ?case
  proof (cases "find is_using suf")
    case None
    then have "filter is_using suf = []" by (auto simp: find_None_iff filter_empty_conv)
    then show ?thesis using f None by (subst sm_find_last.simps) simp
  next
    case (Some e)
    obtain j x where e: "e = (j, x)" by (cases e)
    obtain A B where s: "suf = A @ (j, x) # B" "\<forall>y \<in> set A. \<not> is_using y"
      using find_split [OF Some] e by auto
    have u: "it_state x = ITEM_USING" using find_SomeD [OF Some] e by simp
    have mem: "(j, x) \<in> set (sector_entries p dev sec)" using less.prems(3) s by simp
    have "chained 0 ((pre @ A) @ (j, x) # B)" using chained_sector [of p dev sec] less.prems(3) s by simp
    then have j: "log_end 0 (pre @ A @ [(j, x)]) = j + wm_nvs_item_get_span x" by simp
    have step: "sm_find_last env p dev sec found li start it =
        sm_find_last env p dev sec True j (j + wm_nvs_item_get_span x) x"
      using f Some e by (subst sm_find_last.simps) simp
    have en: "sector_entries p dev sec = (pre @ A @ [(j, x)]) @ B" using less.prems(3) s by simp
    have l: "length B < length suf" using s by simp
    have fA: "filter is_using A = []" using s(2) by (simp add: filter_empty_conv)
    show ?thesis
      unfolding step less.hyps [OF l less.prems(1) sector_ok_entry(5) [OF less.prems(1) mem] en j]
      using s(1) u fA by simp
  qed
qed

section \<open>A store that was left in order\<close>

definition has_data :: "item \<Rightarrow> bool" where
  "has_data it \<longleftrightarrow> (it_type it = TYPE_STRING \<or> it_type it = TYPE_BINARY \<or> it_type it = TYPE_BLOB_SEG) \<and> it_length it > 8"

lemma new_item_crc_data:
  "8 < len \<Longrightarrow> it_crc_data (new_item env g t k d len si) = wm_nvs_port_crc32 env 0xFFFFFFFF (take len d)"
  by (simp add: it_crc_data_def new_item_def wm_nvs_item_init_def Let_def overlay_def)

lemma check_item_data_spec:
  assumes ok: "sector_ok env p dev sec" and mem: "(k, it) \<in> set (sector_entries p dev sec)"
    and len: "it_length it' \<le> it_length it"
  shows "sm_check_item_data env p dev sec k it' =
    (if has_data it' \<and>
        wm_nvs_port_crc32 env 0xFFFFFFFF (pt_slice p dev (s_address sec + (k + 2) * 32) (it_length it')) \<noteq> it_crc_data it'
     then (case wm_nvs_sector_erase_item env p dev sec k it' True of (_, dev, sec) \<Rightarrow> (WM_NVS_ERR_FAIL, dev, sec))
     else (WM_NVS_ERR_OK, dev, sec))"
proof (cases "has_data it'")
  case True
  then have l: "8 < it_length it'" by (simp add: has_data_def)
  have pt: "pt_ok env p dev" and pl: "sector_place p sec" using ok by (auto simp: sector_ok_def)
  have heap: "heap_ok env" using pt by (simp add: pt_ok_def)
  note se = sector_ok_entry [OF ok mem]
  have "it_length it \<le> (wm_nvs_item_get_span it - 1) * 32" using l len by (simp add: wm_nvs_item_get_span_def)
  moreover have "k + wm_nvs_item_get_span it \<le> 127" using se(3,4) by simp
  moreover have "1 < wm_nvs_item_get_span it" using l len by (simp add: wm_nvs_item_get_span_def)
  ultimately have b: "(k + 2) * 32 + it_length it' \<le> 4096" using len by (simp add: algebra_simps)
  have "wm_nvs_pt_read env p dev (s_address sec + (k + 2) * 32) (replicate (it_length it') 0) (it_length it') =
      (WM_NVS_ERR_OK, pt_slice p dev (s_address sec + (k + 2) * 32) (it_length it'))"
    by (rule pt_read_spec(1) [OF pt]) (use pl l b in \<open>simp_all add: sector_place_def\<close>)
  then show ?thesis using True heap by (simp add: sm_check_item_data_def has_data_def)
next
  case False
  then show ?thesis by (auto simp: sm_check_item_data_def has_data_def)
qed

text \<open>The last entry of the store is in use (or the last sector has none in use), its data is
  intact, and it is the only entry a search for it finds.\<close>

definition last_sector :: "sm \<Rightarrow> nat" where "last_sector m = last (sm_active m)"

definition tail_ok :: "env \<Rightarrow> flash_dev \<Rightarrow> sm \<Rightarrow> bool" where
  "tail_ok env dev m \<longleftrightarrow>
     (let l = last_sector m; es = sector_entries (sm_pt m) dev (sm_sec m l); k = fst (last es); it = snd (last es);
          seg = (if it_type it = TYPE_BLOB_SEG then it_seg_id it else NVS_SEG_ID_ANY)
      in filter is_using es = [] \<or>
         (it_state it = ITEM_USING \<and>
          (has_data it \<longrightarrow> wm_nvs_port_crc32 env 0xFFFFFFFF (entry_data (sm_pt m) dev (s_address (sm_sec m l)) (k, it)) = it_crc_data it) \<and>
          (\<forall>(i, e) \<in> set (sm_entries dev m).
             wanted env (it_group_id it) (it_type it) (Some (it_name it)) seg SEG_START_ANY e \<longrightarrow> i = l \<and> fst e = k)))"

lemma sm_drop_old_none:
  assumes "\<forall>i \<in> set is. sector_ok env (sm_pt m) dev (sm_sec m i)"
    and "\<forall>i \<in> set is. \<forall>e \<in> set (sector_entries (sm_pt m) dev (sm_sec m i)).
      wanted env (it_group_id it) (it_type it) (Some (it_name it)) seg SEG_START_ANY e \<longrightarrow> i = l \<and> fst e = k"
  shows "sm_drop_old env dev m l k it seg is = (dev, m)"
  using assms
proof (induction "is")
  case (Cons i "is")
  let ?es = "sector_entries (sm_pt m) dev (sm_sec m i)"
  let ?W = "wanted env (it_group_id it) (it_type it) (Some (it_name it)) seg SEG_START_ANY"
  have ok: "sector_ok env (sm_pt m) dev (sm_sec m i)" using Cons(2) by simp
  have wf: "item_wf blank_item" by (simp add: blank_item_def item_of_bytes_wf)
  note f = wm_nvs_sector_find_item_spec [OF ok start_ok_zero [OF chained_sector] wf, where g = "it_group_id it"
      and t = "it_type it" and key = "Some (it_name it)" and si = seg and ss = SEG_START_ANY]
  have IH: "sm_drop_old env dev m l k it seg is = (dev, m)" using Cons by simp
  show ?case
  proof (cases "find ?W ?es")
    case None
    then show ?thesis using f IH by (auto simp: find_result_def)
  next
    case (Some e)
    then have "i = l \<and> fst e = k" using find_SomeD [OF Some] Cons(3) by auto
    then show ?thesis using f IH Some by (cases e) (simp add: find_result_def)
  qed
qed simp

lemma last_filter: "xs \<noteq> [] \<Longrightarrow> P (last xs) \<Longrightarrow> last (filter P xs) = last xs"
  by (induction xs) (auto simp: filter_empty_conv)

lemma check_write_clean:
  assumes ok: "sm_ok env dev m" and so: "\<forall>i \<in> set (sm_active m). sector_ok env (sm_pt m) dev (sm_sec m i)"
    and ne: "sm_active m \<noteq> []" and tl: "tail_ok env dev m"
  shows "sm_check_imcomplete_write env dev m = (WM_NVS_ERR_OK, dev, m)"
proof -
  let ?l = "last_sector m" and ?p = "sm_pt m"
  let ?es = "sector_entries ?p dev (sm_sec m ?l)"
  have l: "?l \<in> set (sm_active m)" "list_last (sm_active m) = Some ?l"
    using ne by (simp_all add: last_sector_def list_last_def)
  have sl: "sector_ok env ?p dev (sm_sec m ?l)" using so l(1) by simp
  have wf: "item_wf blank_item" by (simp add: blank_item_def item_of_bytes_wf)
  have fl: "sm_find_last env ?p dev (sm_sec m ?l) False 0 0 blank_item =
    (sm_sec m ?l, filter is_using ?es \<noteq> [], if filter is_using ?es = [] then 0 else fst (last (filter is_using ?es)),
     if ?es = [] then blank_item else snd (last ?es))"
    using sm_find_last_spec [OF sl wf, of "[]" ?es 0 False 0] by simp
  show ?thesis
  proof (cases "filter is_using ?es = []")
    case True
    then show ?thesis using l(2) fl by (simp add: sm_check_imcomplete_write_def)
  next
    case False
    let ?k = "fst (last ?es)" and ?it = "snd (last ?es)"
    have ne': "?es \<noteq> []" using False by auto
    have mem: "(?k, ?it) \<in> set ?es" using ne' by simp
    let ?seg = "if it_type ?it = TYPE_BLOB_SEG then it_seg_id ?it else NVS_SEG_ID_ANY"
    have T: "it_state ?it = ITEM_USING"
      "has_data ?it \<longrightarrow> wm_nvs_port_crc32 env 0xFFFFFFFF (entry_data ?p dev (s_address (sm_sec m ?l)) (?k, ?it)) = it_crc_data ?it"
      "\<forall>(i, e) \<in> set (sm_entries dev m).
        wanted env (it_group_id ?it) (it_type ?it) (Some (it_name ?it)) ?seg SEG_START_ANY e \<longrightarrow> i = ?l \<and> fst e = ?k"
      using tl False unfolding tail_ok_def Let_def by blast+
    note u = T(1)
    have "last (filter is_using ?es) = last ?es" by (rule last_filter [OF ne']) (rule u)
    then have fl': "sm_find_last env ?p dev (sm_sec m ?l) False 0 0 blank_item = (sm_sec m ?l, True, ?k, ?it)"
      using fl False ne' by simp
    have off: "s_address (sm_sec m ?l) + (?k + 1 + 1) * NVS_SLICE_SIZE = s_address (sm_sec m ?l) + (?k + 2) * 32" by simp
    have "entry_data ?p dev (s_address (sm_sec m ?l)) (?k, ?it) =
        pt_slice ?p dev (s_address (sm_sec m ?l) + (?k + 2) * 32) (it_length ?it)" if "has_data ?it"
      using that unfolding entry_data_def fst_conv snd_conv off by (simp add: has_data_def)
    with T(2) have "has_data ?it \<longrightarrow> wm_nvs_port_crc32 env 0xFFFFFFFF
        (pt_slice ?p dev (s_address (sm_sec m ?l) + (?k + 2) * 32) (it_length ?it)) = it_crc_data ?it" by simp
    then have ck: "sm_check_item_data env ?p dev (sm_sec m ?l) ?k ?it = (WM_NVS_ERR_OK, dev, sm_sec m ?l)"
      unfolding check_item_data_spec [OF sl mem order_refl] by (intro if_not_P) blast
    have dr: "sm_drop_old env dev m ?l ?k ?it ?seg (sm_active m) = (dev, m)"
    proof (rule sm_drop_old_none [OF so], intro ballI impI)
      fix i e assume "i \<in> set (sm_active m)" "e \<in> set (sector_entries ?p dev (sm_sec m i))"
        "wanted env (it_group_id ?it) (it_type ?it) (Some (it_name ?it)) ?seg SEG_START_ANY e"
      moreover from this(1,2) have "(i, e) \<in> set (sm_entries dev m)" by (auto simp: sm_entries_def)
      ultimately show "i = ?l \<and> fst e = ?k" using T(3) by blast
    qed
    obtain k it where e: "last ?es = (k, it)" by (cases "last ?es")
    show ?thesis using l(2) fl' ck dr unfolding e
      by (auto simp: sm_check_imcomplete_write_def Let_def split: if_splits)
  qed
qed

text \<open>The whole mount of the sector manager.\<close>

lemma wm_nvs_sm_load_spec:
  assumes mt: "mountable env dev m" and ne: "sm_active m \<noteq> []" and tl: "tail_ok env dev m"
    and nd: "\<forall>i \<in> set (sm_active m). s_state (sm_sec m i) \<noteq> SEC_DELETTING" and idle: "sm_idle m \<noteq> []"
  shows "\<exists>m'. wm_nvs_sm_load env dev m0 (sm_pt m) = Some (WM_NVS_ERR_OK, dev, m') \<and> remounted env dev m m'"
proof -
  have heap: "heap_ok env" using mt by (simp add: mountable_def lists_ok_def sm_ok_def pt_ok_def)
  obtain m' where l: "sm_load_sectors env dev (snd (sm_init_default env m0 (sm_pt m))) = Some (WM_NVS_ERR_OK, dev, m')"
    "remounted env dev m m'" using sm_load_sectors_spec [OF mt ne heap] by blast
  note ro = remounted_ok [OF mt l(2)]
  have p: "sm_pt m' = sm_pt m" "sm_active m' = sm_active m" using l(2) by (auto simp: remounted_def)
  have la: "last_sector m \<in> set (sm_active m)" using ne by (simp add: last_sector_def)
  have ad: "s_address (sm_sec m' i) = s_address (sm_sec m i)" if "i \<in> set (sm_active m)" for i
    using that mt l(2) ro(1) by (auto simp: mountable_def lists_ok_def sm_ok_def sm_shape_def remounted_def)
  have tl': "tail_ok env dev m'"
    using tl ad [OF la] p unfolding tail_ok_def ro(3) by (simp add: last_sector_def sector_entries_def)
  have w: "sm_check_imcomplete_write env dev m' = (WM_NVS_ERR_OK, dev, m')"
    by (rule check_write_clean [OF ro(1) _ _ tl']) (use ro(4) p ne in simp_all)
  have "find (\<lambda>i. s_state (sm_sec m' i) = SEC_DELETTING) (sm_active m') = None"
    using nd ro(4) p by (auto simp: find_None_iff)
  then have g: "sm_check_imcomplete_gc env dev m' = Some (WM_NVS_ERR_OK, dev, m')"
    by (simp add: sm_check_imcomplete_gc_def)
  obtain i where i: "i \<in> set (sm_idle m)" using idle by (cases "sm_idle m") auto
  then have "i \<notin> set (sm_active m) \<and> i < length (sm_secs m)"
    using mt by (auto simp: mountable_def lists_ok_def sm_ok_def sm_shape_def)
  then have "sm_idle m' \<noteq> []" using l(2) by (auto simp: remounted_def filter_empty_conv)
  then have k: "sm_keep_idle dev m' = Some (WM_NVS_ERR_OK, dev, m')" by (simp add: sm_keep_idle_def)
  obtain mi where mi: "sm_init_default env m0 (sm_pt m) = (WM_NVS_ERR_OK, mi)" by (auto simp: sm_init_default_def)
  then have "wm_nvs_sm_load env dev m0 (sm_pt m) = Some (WM_NVS_ERR_OK, dev, m')"
    using l(1) w g k by (simp add: wm_nvs_sm_load_def sm_then_def)
  with l(2) show ?thesis by blast
qed

end
