(* ===== verification/NvsRemount.thy ===== *)
theory NvsRemount
  imports NvsRecovery NvsKvStore
begin

text \<open>
  The mount of a whole storage: the scans over the entries of a type, the groups they give back,
  and the blob check, which has nothing to do on a store without blobs. A write leaves the
  store in a state from which the mount comes back to the same content.
\<close>

section \<open>Scans\<close>

text \<open>A scan whose body leaves flash and manager alone folds over the entries it visits.\<close>

abbreviation any_name :: "env \<Rightarrow> nat \<Rightarrow> nat \<Rightarrow> nat \<times> item \<Rightarrow> bool" where
  "any_name env g t \<equiv> wanted env g t None NVS_SEG_ID_ANY SEG_START_ANY"

lemma find_behind:
  assumes "chained 0 (pre @ suf)" and "log_end 0 pre = start"
  shows "find (\<lambda>e. start \<le> fst e \<and> P e) (pre @ suf) = find P suf"
proof -
  have c: "chained 0 pre" "chained start suf" using assms by (simp_all add: chained_append)
  have "find (\<lambda>e. start \<le> fst e \<and> P e) pre = None"
    using chained_less [OF c(1)] assms(2) by (fastforce simp: find_None_iff)
  moreover have "start \<le> fst e" if "e \<in> set suf" for e
    using chained_mem [OF c(2), of "fst e" "snd e"] that by simp
  then have "find (\<lambda>e. start \<le> fst e \<and> P e) suf = find P suf" by (simp cong: find_cong)
  ultimately show ?thesis by (simp add: find_append)
qed

lemma sector_scan_spec:
  assumes ok: "sector_ok env (sm_pt m) dev (sm_sec m i)"
    and body: "\<And>a j x. (j, x) \<in> set (sector_entries (sm_pt m) dev (sm_sec m i)) \<Longrightarrow> any_name env g t (j, x) \<Longrightarrow>
      body dev m a i j x = (None, dev, m, F a i j x)"
    and "item_wf it" and "sector_entries (sm_pt m) dev (sm_sec m i) = pre @ suf" and "log_end 0 pre = start"
  shows "\<exists>n e. sector_scan env body g t dev m a i start it =
    (None, dev, m, fold (\<lambda>(j, x) a. F a i j x) (filter (any_name env g t) suf) a, n, e)"
  using assms(3-5)
proof (induction "length suf" arbitrary: pre suf start it a rule: less_induct)
  case less
  let ?es = "sector_entries (sm_pt m) dev (sm_sec m i)"
  have ch: "chained 0 (pre @ suf)" using chained_sector [of "sm_pt m" dev "sm_sec m i"] less.prems(2) by simp
  have so: "start_ok ?es None start"
    using less.prems(2,3) ch by (cases suf) (auto simp: start_ok_def chained_append)
  note f = wm_nvs_sector_find_item_spec [OF ok so less.prems(1), of g t NVS_SEG_ID_ANY SEG_START_ANY,
      unfolded less.prems(2) find_behind [OF ch less.prems(3)]]
  show ?case
  proof (cases "find (any_name env g t) suf")
    case None
    then have "filter (any_name env g t) suf = []" by (auto simp: find_None_iff filter_empty_conv)
    then show ?thesis using f None by (subst sector_scan.simps) (auto simp: find_result_def)
  next
    case (Some e)
    obtain j x where e: "e = (j, x)" by (cases e)
    obtain A B where s: "suf = A @ (j, x) # B" "\<forall>y \<in> set A. \<not> any_name env g t y"
      using find_split [OF Some] e by blast
    have w: "any_name env g t (j, x)" using find_SomeD [OF Some] e by simp
    have fA: "filter (any_name env g t) A = []" using s(2) by (simp add: filter_empty_conv)
    have mem: "(j, x) \<in> set ?es" using less.prems(2) s by simp
    have "chained 0 ((pre @ A) @ (j, x) # B)" using ch s by simp
    then have le: "log_end 0 (pre @ A @ [(j, x)]) = j + wm_nvs_item_get_span x"
      by (simp add: chained_append log_end_append)
    have en: "?es = (pre @ A @ [(j, x)]) @ B" using less.prems(2) s by simp
    have l: "length B < length suf" using s by simp
    obtain n er where IH: "sector_scan env body g t dev m (F a i j x) i (j + wm_nvs_item_get_span x) x =
        (None, dev, m, fold (\<lambda>(j, x) a. F a i j x) (filter (any_name env g t) B) (F a i j x), n, er)"
      using less.hyps [OF l sector_ok_entry(5) [OF ok mem] en le] by blast
    have "sector_scan env body g t dev m a i start it =
        sector_scan env body g t dev m (F a i j x) i (j + wm_nvs_item_get_span x) x"
      using f Some e body [OF mem w] by (subst sector_scan.simps) (simp add: find_result_def)
    then show ?thesis using IH s w fA by simp
  qed
qed

lemma sm_scan_spec:
  assumes ok: "\<forall>i \<in> set (sm_active m). sector_ok env (sm_pt m) dev (sm_sec m i)"
    and body: "\<And>a i j x. (i, j, x) \<in> set (sm_entries dev m) \<Longrightarrow> any_name env g t (j, x) \<Longrightarrow>
      body dev m a i j x = (None, dev, m, F a i j x)"
  shows "\<exists>n. sm_scan env body g t dev m a =
    (None, dev, m, fold (\<lambda>(i, j, x) a. F a i j x) (filter (\<lambda>e. any_name env g t (snd e)) (sm_entries dev m)) a, n)"
proof -
  have wf: "item_wf blank_item" by (simp add: blank_item_def item_of_bytes_wf)
  have "\<exists>n. sm_scan_list env body g t dev m a xs n0 =
    (None, dev, m, fold (\<lambda>(i, j, x) a. F a i j x) (filter (\<lambda>e. any_name env g t (snd e))
      (concat (map (\<lambda>i. map (\<lambda>e. (i, e)) (sector_entries (sm_pt m) dev (sm_sec m i))) xs))) a, n)"
    if "set xs \<subseteq> set (sm_active m)" for xs n0
    using that
  proof (induction xs arbitrary: a n0)
    case (Cons i xs)
    let ?es = "sector_entries (sm_pt m) dev (sm_sec m i)"
    have si: "sector_ok env (sm_pt m) dev (sm_sec m i)" using ok Cons.prems by simp
    have bi: "body dev m a i j x = (None, dev, m, F a i j x)" if "(j, x) \<in> set ?es" "any_name env g t (j, x)" for a j x
      by (rule body) (use that Cons.prems in \<open>auto simp: sm_entries_def\<close>)
    have "\<exists>n e. sector_scan env body g t dev m a i 0 blank_item =
        (None, dev, m, fold (\<lambda>(j, x) a. F a i j x) (filter (any_name env g t) ?es) a, n, e)"
      by (rule sector_scan_spec [where pre = "[]" and F = F, OF si _ wf]) (use bi in auto)
    then obtain n e where r: "sector_scan env body g t dev m a i 0 blank_item =
        (None, dev, m, fold (\<lambda>(j, x) a. F a i j x) (filter (any_name env g t) ?es) a, n, e)" by blast
    have fo: "fold (\<lambda>(i, j, x) a. F a i j x) (filter (\<lambda>e. any_name env g t (snd e)) (map (\<lambda>e. (i, e)) es)) b =
        fold (\<lambda>(j, x) a. F a i j x) (filter (any_name env g t) es) b" for es b
      by (induction es arbitrary: b) auto
    obtain n' where "sm_scan_list env body g t dev m (fold (\<lambda>(j, x) a. F a i j x) (filter (any_name env g t) ?es) a) xs n =
      (None, dev, m, fold (\<lambda>(i, j, x) a. F a i j x) (filter (\<lambda>e. any_name env g t (snd e))
        (concat (map (\<lambda>i. map (\<lambda>e. (i, e)) (sector_entries (sm_pt m) dev (sm_sec m i))) xs)))
        (fold (\<lambda>(j, x) a. F a i j x) (filter (any_name env g t) ?es) a), n')"
      using Cons by fastforce
    with r show ?case by (simp add: fo)
  qed simp
  then show ?thesis unfolding sm_scan_def sm_entries_def by blast
qed

section \<open>Groups and blobs at the mount\<close>

text \<open>The groups the entries of group 0 stand for.\<close>

definition groups_of :: "(item \<times> bytes) list \<Rightarrow> nvs_group list" where
  "groups_of es = map (\<lambda>e. \<lparr>g_name = takeWhile (\<lambda>b. b \<noteq> 0) (take NVS_MAX_KEY_LEN (it_name (fst e))),
       g_id = unat (it_data (fst e) ! 0)\<rparr>)
     (filter (\<lambda>e. it_group_id (fst e) = NVS_GROUP_ITSELF_ID \<and> it_type (fst e) = TYPE_UINT8) es)"

lemma fold_snoc: "fold (\<lambda>(i, j, x) a. a @ [f x]) xs a = a @ map (\<lambda>e. f (snd (snd e))) xs"
  by (induction xs arbitrary: a) auto

lemma any_name_type:
  "t < TYPE_BLOB_SEG \<or> t = TYPE_BLOB_SEG \<Longrightarrow> t \<noteq> TYPE_ANY \<Longrightarrow> any_name env g t e \<longleftrightarrow>
   is_using e \<and> (g = NVS_GROUP_ID_ANY \<or> g = it_group_id (snd e)) \<and> it_type (snd e) = t"
  by (auto simp: wanted_def cand_def item_match_def)

lemma storage_load_groups_spec:
  assumes ok: "\<forall>i \<in> set (sm_active m). sector_ok env (sm_pt m) dev (sm_sec m i)" and al: "alloc_ok env GROUP_T_SIZE"
  shows "storage_load_groups env dev \<lparr>st_sm = m, st_groups = []\<rparr> =
    (WM_NVS_ERR_OK, \<lparr>st_sm = m, st_groups = groups_of (sm_live dev m)\<rparr>)"
proof -
  let ?G = "\<lambda>x. \<lparr>g_name = takeWhile (\<lambda>b. b \<noteq> 0) (take NVS_MAX_KEY_LEN (it_name x)), g_id = unat (it_data x ! 0)\<rparr>"
  let ?F = "filter (\<lambda>e. any_name env NVS_GROUP_ITSELF_ID TYPE_UINT8 (snd e)) (sm_entries dev m)"
  let ?body = "\<lambda>dev m gs i idx it.
      (None, dev, m, snd (storage_add_group env gs (unat (it_data it ! 0)) (it_name it) NVS_MAX_KEY_LEN))"
  have "\<exists>n. sm_scan env ?body NVS_GROUP_ITSELF_ID TYPE_UINT8 dev m [] =
      (None, dev, m, fold (\<lambda>(i, j, x) a. a @ [?G x]) ?F [], n)"
    by (rule sm_scan_spec [where F = "\<lambda>a i j x. a @ [?G x]", OF ok]) (simp add: storage_add_group_def al)
  then obtain n where "sm_scan env ?body NVS_GROUP_ITSELF_ID TYPE_UINT8 dev m [] =
      (None, dev, m, fold (\<lambda>(i, j, x) a. a @ [?G x]) ?F [], n)" by blast
  moreover have "map (\<lambda>e. ?G (snd (snd e))) ?F = groups_of (sm_live dev m)"
    by (simp add: groups_of_def sm_live_entries filter_map comp_def entry_live_def any_name_type conj_ac)
  ultimately show ?thesis by (simp add: storage_load_groups_def fold_snoc)
qed

lemma sm_scan_none:
  assumes ok: "\<forall>i \<in> set (sm_active m). sector_ok env (sm_pt m) dev (sm_sec m i)"
    and n: "\<And>i j x. (i, j, x) \<in> set (sm_entries dev m) \<Longrightarrow> \<not> any_name env g t (j, x)"
  shows "\<exists>k. sm_scan env body g t dev m a = (None, dev, m, a, k)"
proof -
  have f: "filter (\<lambda>e. any_name env g t (snd e)) (sm_entries dev m) = []"
    using n by (auto simp: filter_empty_conv)
  have "\<exists>k. sm_scan env body g t dev m a = (None, dev, m,
      fold (\<lambda>(i, j, x) a. a) (filter (\<lambda>e. any_name env g t (snd e)) (sm_entries dev m)) a, k)"
    by (rule sm_scan_spec [where F = "\<lambda>a i j x. a", OF ok]) (use n in blast)
  then show ?thesis unfolding f by simp
qed

definition no_blobs :: "(item \<times> bytes) list \<Rightarrow> bool" where
  "no_blobs es \<longleftrightarrow> (\<forall>e \<in> set es. it_type (fst e) \<noteq> TYPE_BLOB \<and> it_type (fst e) \<noteq> TYPE_BLOB_SEG)"

lemma storage_blob_check_none:
  assumes ok: "\<forall>i \<in> set (sm_active (st_sm st)). sector_ok env (sm_pt (st_sm st)) dev (sm_sec (st_sm st) i)"
    and nb: "no_blobs (sm_live dev (st_sm st))"
  shows "storage_blob_check env dev st = (WM_NVS_ERR_OK, dev, st)"
proof -
  let ?m = "st_sm st"
  have v: "\<not> any_name env NVS_GROUP_ID_ANY t (j, x)"
    if "(i, j, x) \<in> set (sm_entries dev ?m)" "t = TYPE_BLOB \<or> t = TYPE_BLOB_SEG" for t i j x
    using that nb by (fastforce simp: no_blobs_def sm_live_entries entry_live_def any_name_type)
  let ?init = "\<lambda>dev m info i idx it.
      if \<not> alloc_ok env BLOB_INFO_T_SIZE then (Some WM_NVS_ERR_NO_MEM, dev, m, info)
      else (None, dev, m, info @ [blob_info_of_item it])"
  let ?drop = "\<lambda>dev m a i idx it.
      if list_ex (\<lambda>desc. strncmp_eq (it_name it) (bi_name desc) (strnlen (bi_name desc) NVS_MAX_KEY_LEN) \<and>
           seg_of_blob it desc) []
      then (None, dev, m, a)
      else case wm_nvs_sector_erase_item env (sm_pt m) dev (sm_sec m i) idx it True of
             (_, dev, sec) \<Rightarrow> (None, dev, sm_upd m i sec, a)"
  have "\<exists>k. sm_scan env ?init NVS_GROUP_ID_ANY TYPE_BLOB dev ?m [] = (None, dev, ?m, [], k)"
    by (rule sm_scan_none [OF ok]) (rule v, assumption, rule disjI1 [OF refl])
  then have 1: "storage_blob_init_info env dev ?m = (WM_NVS_ERR_OK, ?m, [])"
    by (elim exE) (simp only: storage_blob_init_info_def prod.case option.case)
  have "\<exists>k. sm_scan env ?drop NVS_GROUP_ID_ANY TYPE_BLOB_SEG dev ?m () = (None, dev, ?m, (), k)"
    by (rule sm_scan_none [OF ok]) (rule v, assumption, rule disjI2 [OF refl])
  then have 2: "storage_blob_check_drop env dev ?m [] = (WM_NVS_ERR_OK, dev, ?m)"
    by (elim exE) (simp only: storage_blob_check_drop_def prod.case)
  show ?thesis by (simp add: storage_blob_check_def storage_blob_check_match_def 1 2)
qed

section \<open>The state a write leaves\<close>

lemma key_field_alt:
  "key_field k = take (strnlen k 15) k @ (if strnlen k 15 < 15 then 0 # replicate (14 - strnlen k 15) 0xFF else [])"
proof -
  let ?n = "strnlen k 15"
  have l: "length (take ?n k) = ?n" using strnlen_length [of k 15] by simp
  have o: "overlay (replicate 15 0xFF) 0 (take ?n k) = take ?n k @ replicate (15 - ?n) 0xFF"
    using l by (simp add: overlay_def)
  show ?thesis
  proof (cases "?n < 15")
    case True
    then have "15 - ?n = Suc (14 - ?n)" by simp
    then show ?thesis using True o l by (simp add: key_field_def Let_def list_update_append)
  next
    case False
    then show ?thesis using o by (simp add: key_field_def Let_def)
  qed
qed

lemma key_field_idem: "key_field (key_field k) = key_field k" and strnlen_key_field: "strnlen (key_field k) 15 = strnlen k 15"
proof -
  let ?P = "\<lambda>b :: 8 word. b \<noteq> 0" and ?n = "strnlen k 15"
  have t: "take ?n k = takeWhile ?P (take 15 k)"
    using takeWhile_eq_take [of ?P "take 15 k"] strnlen_le [of k 15] by (simp add: strnlen_def)
  have l: "length (take ?n k) = ?n" using strnlen_length [of k 15] by simp
  have a: "\<forall>b \<in> set (take ?n k). b \<noteq> 0" unfolding t by (auto dest: set_takeWhileD)
  have "takeWhile ?P (take 15 (key_field k)) = take ?n k"
    using a l by (auto simp: key_field_alt takeWhile_append)
  then have n: "strnlen (key_field k) 15 = ?n" using l by (simp add: strnlen_def)
  have "key_field (key_field k) = take ?n (key_field k) @ (if ?n < 15 then 0 # replicate (14 - ?n) 0xFF else [])"
    using key_field_alt [of "key_field k"] unfolding n .
  also have "\<dots> = key_field k" unfolding take_key_field by (rule key_field_alt [symmetric])
  finally show "key_field (key_field k) = key_field k" .
  show "strnlen (key_field k) 15 = ?n" by (rule n)
qed

text \<open>A search by the name field of an entry is a search by its key.\<close>

lemma strncmp_take: "strncmp_eq a b n \<longleftrightarrow> strncmp_eq a (take n b) n"
proof (induction a b n rule: strncmp_eq.induct)
  case (2 a b n)
  then show ?case by (cases b) (simp_all add: c_at_def)
qed simp

lemma kv_match_field: "kv_match env g t (key_field k) e = kv_match env g t k e"
proof -
  have "item_hash24 env (wm_nvs_item_init env ITEM_USING g 0 (key_field k) None 0 NVS_SEG_ID_ANY) =
      item_hash24 env (wm_nvs_item_init env ITEM_USING g 0 k None 0 NVS_SEG_ID_ANY)"
    by (simp add: wm_nvs_item_init_def key_field_idem)
  moreover have "strncmp_eq x (key_field k) (strnlen k 15) = strncmp_eq x k (strnlen k 15)" for x
    using strncmp_take [of x "key_field k" "strnlen k 15"] strncmp_take [of x k "strnlen k 15"]
    by (simp add: take_key_field)
  ultimately show ?thesis by (simp add: kv_match_def cand_def item_match_def strnlen_key_field)
qed

lemma last_entry_sector:
  assumes "sm_entries dev m = xs @ [(l, e)]" and "l = last (sm_active m)" and "distinct (sm_active m)"
  shows "\<exists>ys. sector_entries (sm_pt m) dev (sm_sec m l) = ys @ [e]"
proof -
  let ?f = "\<lambda>i. map (\<lambda>e. (i, e)) (sector_entries (sm_pt m) dev (sm_sec m i))"
  have ne: "sm_active m \<noteq> []" using assms(1) by (auto simp: sm_entries_def)
  then have act: "sm_active m = butlast (sm_active m) @ [l]" using assms(2) by simp
  then have nl: "l \<notin> set (butlast (sm_active m))" using assms(3) by (metis distinct_append distinct.simps(2) disjoint_insert(1) list.set(2))
  have c: "concat (map ?f (butlast (sm_active m))) @ ?f l = xs @ [(l, e)]"
    using assms(1) arg_cong [OF act, of "\<lambda>ys. concat (map ?f ys)"] by (simp add: sm_entries_def)
  show ?thesis
  proof (cases "sector_entries (sm_pt m) dev (sm_sec m l)" rule: rev_cases)
    case Nil
    then have "(l, e) \<in> set (concat (map ?f (butlast (sm_active m))))" using c by simp
    with nl show ?thesis by auto
  next
    case (snoc ys y)
    with c show ?thesis by auto
  qed
qed

text \<open>The entry a write appends passes the check of the next mount, when its key had one
  record before at most.\<close>

lemma tail_after_write:
  assumes ok: "sm_ok env dev m" and es: "sm_entries dev m = xs @ [(last (sm_active m), j, it)]"
    and it: "it = new_item env g t k v (length v) NVS_SEG_ID_ANY"
    and lv: "sm_live dev m = ls @ [(it, v)]" and u: "filter (kv_any env g k) ls = []"
    and v: "st_valid t (g, k) v"
  shows "tail_ok env dev m"
proof -
  let ?l = "last (sm_active m)"
  have g: "g < NVS_GROUP_ID_MAX" and t: "t \<noteq> TYPE_ANY" "t < TYPE_BLOB" and len: "length v \<le> NVS_SINGLE_ITEM_MAX_DATA"
    using v by (auto simp: st_valid_def)
  note f = new_item_facts [OF len order_refl, of env g t k NVS_SEG_ID_ANY, folded it]
  have fi: "it_group_id it = g" "it_type it = t" "it_name it = key_field k"
    using g t by (simp_all add: it new_item_def wm_nvs_item_init_def Let_def)
  have dist: "distinct (sm_active m)" using ok by (simp add: sm_ok_def sm_shape_def)
  obtain ys where ys: "sector_entries (sm_pt m) dev (sm_sec m ?l) = ys @ [(j, it)]"
    using last_entry_sector [OF es refl dist] by blast
  have "sm_live dev m = map (entry_live dev m) (filter (\<lambda>e. is_using (snd e)) xs) @ [entry_live dev m (?l, j, it)]"
    using f(3) by (simp add: sm_live_entries es)
  then have ed: "entry_data (sm_pt m) dev (s_address (sm_sec m ?l)) (j, it) = v"
    and ls: "ls = map (entry_live dev m) (filter (\<lambda>e. is_using (snd e)) xs)"
    using lv by (auto simp: entry_live_def)
  have sub: "kv_match env g t k e \<Longrightarrow> kv_any env g k e" for e
    using kv_match_any [of env g t k e] kv_match_type [of env g t k e] t by simp
  have "i = ?l \<and> fst e = j"
    if m: "(i, e) \<in> set (sm_entries dev m)" and w: "wanted env g t (Some (key_field k)) NVS_SEG_ID_ANY SEG_START_ANY e" for i e
  proof -
    have "is_using e" "kv_match env g t k (entry_live dev m (i, e))"
      using w wanted_match [of env g t "key_field k" "(i, e)" dev m] by (simp_all add: kv_match_field)
    moreover have "\<not> (is_using e \<and> kv_any env g k (entry_live dev m (i, e)))" if "(i, e) \<in> set xs"
      using u that by (cases e) (auto simp: ls filter_empty_conv)
    ultimately have "(i, e) \<notin> set xs" using sub by blast
    with m es show ?thesis by auto
  qed
  moreover have "wm_nvs_port_crc32 env 0xFFFFFFFF v = it_crc_data it" if "has_data it"
    using that new_item_crc_data [of "length v" env g t k v NVS_SEG_ID_ANY] f(2) by (simp add: it has_data_def)
  ultimately show ?thesis
    using ys f(3) fi t ed by (auto simp: tail_ok_def last_sector_def Let_def)
qed

section \<open>The mount of the storage\<close>

lemma wm_nvs_storage_init_spec:
  assumes mt: "mountable env dev m" and ne: "sm_active m \<noteq> []" and tl: "tail_ok env dev m"
    and nd: "\<forall>i \<in> set (sm_active m). s_state (sm_sec m i) \<noteq> SEC_DELETTING" and idle: "sm_idle m \<noteq> []"
    and nb: "no_blobs (sm_live dev m)" and al: "alloc_ok env STORAGE_T_SIZE" "alloc_ok env GROUP_T_SIZE"
  shows "\<exists>m'. wm_nvs_storage_init env dev (sm_pt m) =
      Some (WM_NVS_ERR_OK, dev, Some \<lparr>st_sm = m', st_groups = groups_of (sm_live dev m)\<rparr>) \<and> remounted env dev m m'"
proof -
  obtain m' where l: "wm_nvs_sm_load env dev (zero_sm (sm_pt m)) (sm_pt m) = Some (WM_NVS_ERR_OK, dev, m')"
    "remounted env dev m m'"
    using wm_nvs_sm_load_spec [OF mt ne tl nd idle] by blast
  note ro = remounted_ok [OF mt l(2)]
  have so: "\<forall>i \<in> set (sm_active m'). sector_ok env (sm_pt m') dev (sm_sec m' i)"
    using ro(4) l(2) by (simp add: remounted_def)
  let ?st = "\<lparr>st_sm = m', st_groups = groups_of (sm_live dev m')\<rparr>"
  have "storage_blob_check env dev ?st = (WM_NVS_ERR_OK, dev, ?st)"
    by (rule storage_blob_check_none) (use so nb ro(2) in simp_all)
  then show ?thesis
    using l storage_load_groups_spec [OF so al(2)] al(1) ro(2) by (simp add: wm_nvs_storage_init_def)
qed

end
