(* ===== verification/DemoStore.thy ===== *)
theory DemoStore
  imports Demo NvsRemount
begin

text \<open>
  A store on the flash of \<open>Demo\<close> whose first sector has its header and one string, in the state
  that a mount expects.
\<close>

section \<open>A formatted store\<close>

text \<open>Sector 0 with its header and one string, sectors 1 and 2 erased.\<close>

definition demo_format :: "int \<times> flash_dev \<times> sector" where
  "demo_format = wm_nvs_sector_init demo_env demo_pt demo_dev (demo_blank 0)"

definition demo_stored :: "int \<times> flash_dev \<times> sector" where
  "demo_stored = wm_nvs_sector_write_item demo_env demo_pt (fst (snd demo_format)) (snd (snd demo_format)) 1
     TYPE_STRING demo_key (Some demo_val) 40 NVS_SEG_ID_ANY"

definition demo_fdev :: flash_dev where "demo_fdev = fst (snd demo_stored)"

definition demo_fsm :: sm where "demo_fsm = sm_upd demo_sm 0 (snd (snd demo_stored))"

lemma demo_stored_facts:
  "sector_ok demo_env demo_pt demo_fdev (sm_sec demo_fsm 0)" "header_ok demo_env demo_pt demo_fdev (sm_sec demo_fsm 0)"
  "sector_entries demo_pt demo_fdev (sm_sec demo_fsm 0) = [(0, demo_item)]"
  "entry_data demo_pt demo_fdev 0 (0, demo_item) = demo_val"
  "s_address (sm_sec demo_fsm 0) = 0" "s_state (sm_sec demo_fsm 0) = SEC_USING" "s_next_free (sm_sec demo_fsm 0) = 3"
  "s_serial (sm_sec demo_fsm 0) = 1" "same_on demo_pt demo_dev demo_fdev 4096 (pt_size demo_pt)"
proof -
  have sn: "s_serial (demo_blank 0) < 2 ^ 32" by (simp add: demo_blank_def)
  have fr: "sector_fresh demo_env demo_pt demo_dev (demo_blank 0)" by simp
  have ad: "s_address (demo_blank 0) = 0" "s_serial (demo_blank 0) = 1" by (simp_all add: demo_blank_def)
  obtain d1 s1 where f: "demo_format = (WM_NVS_ERR_OK, d1, s1)"
    "sector_ok demo_env demo_pt d1 s1" "sector_entries demo_pt d1 s1 = []" "header_ok demo_env demo_pt d1 s1"
    "s_state s1 = SEC_USING" "s_address s1 = 0" "s_serial s1 = 1" "s_next_free s1 = 0"
    "same_on demo_pt demo_dev d1 32 (pt_size demo_pt)"
    using sector_init_spec [OF fr sn] ad by (auto simp: demo_format_def)
  have w3: "write_span 40 = 3" by (simp add: write_span_def)
  have dl: "length demo_val = 40" "take 40 demo_val = demo_val" by (simp_all add: demo_val_def)
  obtain d2 s2 where w: "demo_stored = (WM_NVS_ERR_OK, d2, s2)" "sector_ok demo_env demo_pt d2 s2"
    "sector_entries demo_pt d2 s2 = [(0, demo_item)]" "entry_data demo_pt d2 0 (0, demo_item) = demo_val"
    "same_on demo_pt d1 d2 0 32" "same_on demo_pt d1 d2 128 (pt_size demo_pt)"
    "s_address s2 = 0" "s_state s2 = SEC_USING" "s_serial s2 = 1" "s_next_free s2 = 3"
    using write_item_fits [OF f(2), of 40 demo_val 1 TYPE_STRING demo_key NVS_SEG_ID_ANY] f(3,5-8) w3 dl
    unfolding demo_stored_def f(1) fst_conv snd_conv demo_item_def [symmetric] by auto
  have e: "demo_fdev = d2" "sm_sec demo_fsm 0 = s2" by (simp_all add: demo_fdev_def demo_fsm_def w(1) sm_sec_upd)
  show "sector_ok demo_env demo_pt demo_fdev (sm_sec demo_fsm 0)"
    "sector_entries demo_pt demo_fdev (sm_sec demo_fsm 0) = [(0, demo_item)]"
    "entry_data demo_pt demo_fdev 0 (0, demo_item) = demo_val"
    "s_address (sm_sec demo_fsm 0) = 0" "s_state (sm_sec demo_fsm 0) = SEC_USING" "s_next_free (sm_sec demo_fsm 0) = 3"
    "s_serial (sm_sec demo_fsm 0) = 1"
    using w(2-4,7-10) by (simp_all only: e)
  have "same_on demo_pt d1 d2 (s_address s1) (s_address s1 + 32)" using w(5) f(6) by simp
  from header_ok_same [OF this] f(4-7) w(7-9) show "header_ok demo_env demo_pt demo_fdev (sm_sec demo_fsm 0)"
    by (simp add: e header_ok_def)
  show "same_on demo_pt demo_dev demo_fdev 4096 (pt_size demo_pt)"
    using f(9) w(6) unfolding e by (auto simp: same_on_def)
qed

lemma demo_fsm_fields [simp]:
  "sm_active demo_fsm = [0]" "sm_idle demo_fsm = [1, 2]" "sm_pt demo_fsm = demo_pt" "sm_serial demo_fsm = 2"
  "length (sm_secs demo_fsm) = 3" "sm_sec demo_fsm 1 = demo_blank 1" "sm_sec demo_fsm 2 = demo_blank 2"
  "sm_sec demo_fsm (Suc 0) = demo_blank 1"
  using demo_sm_sec(2,3) by (simp_all add: demo_fsm_def sm_sec_upd One_nat_def)

lemma demo_fsm_fresh [simp]: "i = 1 \<or> i = 2 \<Longrightarrow> sector_fresh demo_env demo_pt demo_fdev (demo_blank i)"
  using demo_stored_facts(1,9) demo_fresh [of i] sector_fresh_same [of demo_pt demo_dev demo_fdev "demo_blank i" demo_env]
  by (auto simp: demo_blank_def same_on_def sector_ok_def demo_pt_def)

lemma demo_fsm_mountable [simp]: "mountable demo_env demo_fdev demo_fsm"
proof -
  have pt: "pt_ok demo_env demo_pt demo_fdev" using demo_stored_facts(1) by (simp add: sector_ok_def)
  have "\<forall>i < 3. s_address (sm_sec demo_fsm i) = i * 4096"
    using demo_stored_facts(5) by (simp add: less_3) (simp add: demo_blank_def)
  then have "sm_shape demo_fsm" by (simp add: sm_shape_def) (simp add: demo_pt_def)
  then have "sm_ok demo_env demo_fdev demo_fsm"
    using pt demo_stored_facts(1,2) demo_fsm_fresh [of 1] demo_fsm_fresh [of 2]
    by (auto simp: sm_ok_def sec_good_def sec_idle_def)
  moreover have "{0, 1, 2} = {..<3 :: nat}" by auto
  ultimately show ?thesis
    using demo_stored_facts(6,8) demo_fsm_fresh [of 1] demo_fsm_fresh [of 2]
    by (auto simp: mountable_def lists_ok_def serials_ok_def)
qed

lemma demo_fsm_live: "sm_live demo_fdev demo_fsm = [(demo_item, demo_val)]"
  using demo_stored_facts(3,4,5) by (simp add: sm_live_def live_def)

lemma demo_fsm_tail: "tail_ok demo_env demo_fdev demo_fsm"
  using demo_stored_facts(3,4,5) new_item_crc_data [of 40 demo_env 1 TYPE_STRING demo_key demo_val NVS_SEG_ID_ANY]
  by (simp add: tail_ok_def last_sector_def sm_entries_def Let_def)
    (simp add: demo_item_def demo_val_def)

lemma demo_fsm_size:
  "wm_nvs_sm_get_gc_size (sm_sec demo_fsm 0) = 3968" "wm_nvs_sm_get_free_size (sm_sec demo_fsm 0) = 3968"
  using demo_stored_facts(1,3) by (simp_all add: wm_nvs_sm_get_gc_size_def wm_nvs_sm_get_free_size_def sector_ok_def)

lemma demo_fsm_ok [simp]: "sm_ok demo_env demo_fdev demo_fsm"
  using demo_fsm_mountable by (simp add: mountable_def lists_ok_def)

text \<open>The same store with a single erased sector.\<close>

definition demo_tight :: sm where "demo_tight = demo_fsm\<lparr>sm_idle := [1]\<rparr>"

lemma demo_tight_ok [simp]: "sm_ok demo_env demo_fdev demo_tight"
  using demo_fsm_ok by (simp add: demo_tight_def sm_ok_def sm_shape_def)

lemma demo_tight_fields [simp]:
  "sm_active demo_tight = [0]" "sm_idle demo_tight = [1]" "sm_sec demo_tight j = sm_sec demo_fsm j"
  "sm_live dev demo_tight = sm_live dev demo_fsm"
  by (simp_all add: demo_tight_def sm_live_def)

end
