(* ===== verification/SpaceProps.thy ===== *)
theory SpaceProps
  imports DemoStore "HOL-Library.Multiset"
begin

text \<open>
  Properties of the sector manager: what a restart brings back, and the room it makes. The
  content of the store is the list of its live entries with their data, over the active
  sectors in order; a collection may reorder it, nothing may lose or invent an entry.
\<close>

section \<open>What a restart brings back\<close>

lemma kv_any_group: "kv_any env g k e \<Longrightarrow> g \<noteq> NVS_GROUP_ID_ANY \<Longrightarrow> it_group_id (fst e) = g"
  by (simp add: kv_match_def item_match_def)

text \<open>C3. What was written survives a power cycle. On a well-formed store without blobs, whose
  active sectors all have their headers, whose idle sectors are erased and at least one, and whose
  groups in RAM are those of its group records, a write of a non-blob value of a group that finds
  room without a collection, of a key that at most one entry answers for, and that is not the
  value already stored, succeeds. Mounting the partition afterwards from the flash alone succeeds
  without writing to it and gives back the same content, the same groups as before the write,
  and the written value under its key.\<close>

theorem write_survives_restart:
  assumes ok: "st_ok env (dev, st)" and nb: "no_blobs (st_content (dev, st))" and od: "orderly env dev (st_sm st)"
    and idle: "sm_idle (st_sm st) \<noteq> []" and sn: "sm_serial (st_sm st) + 1 < 2 ^ 32"
    and rdy: "write_ready (st_sm st) (length v)" and v: "st_valid t (g, k) v"
    and gr: "0 < g" "st_groups st = groups_of (st_content (dev, st))"
    and uq: "kv_unique env g k (st_content (dev, st))"
    and ch: "\<forall>x. find (st_owns env (g, k)) (st_content (dev, st)) = Some (x, v) \<longrightarrow> it_type x \<noteq> t"
    and al: "alloc_ok env STORAGE_T_SIZE" "alloc_ok env GROUP_T_SIZE"
  shows "\<exists>dev' st' st2. wm_nvs_storage_write_item env dev st g t k v (length v) = Some (WM_NVS_ERR_OK, dev', st') \<and>
    wm_nvs_storage_init env dev' (sm_pt (st_sm st)) = Some (WM_NVS_ERR_OK, dev', Some st2) \<and> st_ok env (dev', st2) \<and>
    st_content (dev', st2) = st_content (dev', st') \<and> st_groups st2 = st_groups st \<and>
    st_get env (dev', st2) t (g, k) = Some v"
proof -
  let ?m = "st_sm st" and ?it = "new_item env g t k v (length v) NVS_SEG_ID_ANY"
  have sm: "sm_ok env dev ?m" using ok by (simp add: st_ok_def)
  have gt: "g < NVS_GROUP_ID_MAX" "t \<noteq> TYPE_ANY" "t < TYPE_BLOB" "length v \<le> NVS_SINGLE_ITEM_MAX_DATA"
    using v by (auto simp: st_valid_def)
  have pl: "it_type x \<noteq> TYPE_BLOB \<and> \<not> (it_type x = t \<and> d = take (length v) v)"
    if f: "find (kv_any env g k) (sm_live dev ?m) = Some (x, d)" for x d
    using find_SomeD [OF f] nb ch f by (auto simp: no_blobs_def st_content_def st_owns_def)
  obtain dev' m' xs j where w: "wm_nvs_storage_write_item env dev st g t k v (length v) = Some (WM_NVS_ERR_OK, dev', st\<lparr>st_sm := m'\<rparr>)"
    "sm_ok env dev' m'" "sm_active m' \<noteq> []" "sm_idle m' \<noteq> []"
    "sm_live dev' m' = remove_first (kv_any env g k) (sm_live dev ?m) @ [(?it, v)]" "sm_pt m' = sm_pt ?m"
    "orderly env dev' m'" "sm_entries dev' m' = xs @ [(last (sm_active m'), j, ?it)]"
    using write_plain_refines [OF sm rdy _ gt(4) order_refl, where g = g and k = k and t = t] pl gt(3) idle od sn by auto
  have mt: "mountable env dev' m'" using w(2,7) by (simp add: mountable_def orderly_def)
  have nd: "\<forall>i \<in> set (sm_active m'). s_state (sm_sec m' i) \<noteq> SEC_DELETTING" using w(7) by (simp add: orderly_def)
  have u0: "filter (kv_any env g k) (remove_first (kv_any env g k) (sm_live dev ?m)) = []"
    using uq by (cases "filter (kv_any env g k) (sm_live dev ?m)")
      (auto simp: remove_first_filter kv_unique_def st_content_def)
  have tl: "tail_ok env dev' m'" by (rule tail_after_write [OF w(2,8) refl w(5) u0 v])
  have "it_type ?it = t" using gt(3) by (simp add: new_item_def)
  then have nb': "no_blobs (sm_live dev' m')"
    using nb gt(3) set_remove_first [of "kv_any env g k" "sm_live dev ?m"]
    by (auto simp: no_blobs_def st_content_def w(5))
  have "it_group_id ?it = g" using gt by (simp add: new_item_def wm_nvs_item_init_def Let_def)
  then have gs: "groups_of (sm_live dev' m') = st_groups st"
    using gr remove_first_other [of "\<lambda>e. it_group_id (fst e) = NVS_GROUP_ITSELF_ID \<and> it_type (fst e) = TYPE_UINT8"
      "kv_any env g k" "sm_live dev ?m"] gt(1) kv_any_group [of env g k]
    by (fastforce simp: groups_of_def w(5) st_content_def)
  obtain m2 where i: "wm_nvs_storage_init env dev' (sm_pt m') =
      Some (WM_NVS_ERR_OK, dev', Some \<lparr>st_sm = m2, st_groups = groups_of (sm_live dev' m')\<rparr>)" "remounted env dev' m' m2"
    using wm_nvs_storage_init_spec [OF mt w(3) tl nd w(4) nb' al] by blast
  let ?st2 = "\<lparr>st_sm = m2, st_groups = groups_of (sm_live dev' m')\<rparr>"
  note ro = remounted_ok [OF mt i(2)]
  have ok2: "st_ok env (dev', ?st2)" using ro(1,2) nb' by (simp add: st_ok_def st_content_def no_blobs_def)
  have "find (kv_match env g t k) (sm_live dev' m') = Some (?it, v)"
    unfolding w(5) using find_after_write(1) [OF uq [unfolded st_content_def] gt(1,2)] gt(3) by simp
  then have "st_get env (dev', ?st2) t (g, k) = Some v"
    unfolding st_get_eq [OF ok2 v] by (simp add: st_is_of_def st_content_def ro(2))
  with w(1,6) i(1) ok2 ro(2) gs show ?thesis
    by (intro exI [of _ dev'] exI [of _ "st\<lparr>st_sm := m'\<rparr>"] exI [of _ ?st2]) (simp add: st_content_def)
qed

theorem write_survives_restart_witness:
  "\<exists>dev' st' st2. wm_nvs_storage_write_item demo_env demo_fdev \<lparr>st_sm = demo_fsm, st_groups = []\<rparr> 2 TYPE_UINT8 demo_key [7] 1 =
      Some (WM_NVS_ERR_OK, dev', st') \<and>
    wm_nvs_storage_init demo_env dev' demo_pt = Some (WM_NVS_ERR_OK, dev', Some st2) \<and>
    st_groups st2 = [] \<and> st_get demo_env (dev', st2) TYPE_UINT8 (2, demo_key) = Some [7]"
proof -
  let ?st = "\<lparr>st_sm = demo_fsm, st_groups = []\<rparr>"
  have c: "st_content (demo_fdev, ?st) = [(demo_item, demo_val)]" by (simp add: st_content_def demo_fsm_live)
  have ty: "it_type demo_item = TYPE_STRING" by (simp add: demo_item_def new_item_def)
  have h: "st_ok demo_env (demo_fdev, ?st)" "no_blobs (st_content (demo_fdev, ?st))"
    using c ty by (simp_all add: st_ok_def no_blobs_def)
  have o: "orderly demo_env demo_fdev (st_sm ?st)"
    using demo_fsm_mountable demo_stored_facts(6) by (simp add: orderly_def mountable_def)
  have r: "write_ready (st_sm ?st) (length ([7] :: bytes))" by (simp add: write_ready_def demo_stored_facts(6))
  have u: "kv_unique demo_env 2 demo_key (st_content (demo_fdev, ?st))" using c by (simp add: kv_unique_def)
  have a: "alloc_ok demo_env n" for n by (simp add: demo_env_def)
  have vl: "st_valid TYPE_UINT8 (2, demo_key) [7]" by (simp add: st_valid_def)
  have gr: "0 < (2 :: nat)" "st_groups ?st = groups_of (st_content (demo_fdev, ?st))"
    using c ty by (simp_all add: groups_of_def)
  have ch: "\<forall>x. find (st_owns demo_env (2, demo_key)) (st_content (demo_fdev, ?st)) = Some (x, [7]) \<longrightarrow> it_type x \<noteq> TYPE_UINT8"
    using c ty by simp
  show ?thesis
    using write_survives_restart [OF h o _ _ r vl gr u ch a a] by (simp add: One_nat_def) blast
qed

text \<open>C13. A restart loses nothing. When the sectors in use have their headers, the others are
  erased, no collection was cut short, an erased sector is left, and the last entry written is
  intact and has no older copy, the mount of the sector manager succeeds, writes nothing to flash,
  and comes to a well-formed manager with the active sectors in the same order, the same
  entries at the same places and the same content.\<close>

theorem mount_keeps_store:
  assumes "mountable env dev m" and "sm_active m \<noteq> []" and "sm_idle m \<noteq> []" and "tail_ok env dev m"
    and "\<forall>i \<in> set (sm_active m). s_state (sm_sec m i) \<noteq> SEC_DELETTING"
  shows "\<exists>m'. wm_nvs_sm_load env dev m0 (sm_pt m) = Some (WM_NVS_ERR_OK, dev, m') \<and> sm_ok env dev m' \<and>
    sm_active m' = sm_active m \<and> set (sm_idle m') = set (sm_idle m) \<and>
    sm_entries dev m' = sm_entries dev m \<and> sm_live dev m' = sm_live dev m"
proof -
  obtain m' where m': "wm_nvs_sm_load env dev m0 (sm_pt m) = Some (WM_NVS_ERR_OK, dev, m')" "remounted env dev m m'"
    using wm_nvs_sm_load_spec [OF assms(1,2,4,5,3)] by blast
  have "set (sm_idle m) = {..<length (sm_secs m)} - set (sm_active m)"
    using assms(1) by (auto simp: mountable_def lists_ok_def sm_ok_def sm_shape_def)
  then have "set (sm_idle m') = set (sm_idle m)" using m'(2) by (auto simp: remounted_def)
  with m' remounted_ok [OF assms(1) m'(2)] show ?thesis by (auto simp: remounted_def)
qed

theorem mount_keeps_store_witness:
  "\<exists>m'. wm_nvs_sm_load demo_env demo_fdev demo_sm demo_pt = Some (WM_NVS_ERR_OK, demo_fdev, m') \<and>
     sm_live demo_fdev m' = [(demo_item, demo_val)]"
  using mount_keeps_store [OF demo_fsm_mountable, of demo_sm] demo_fsm_tail demo_fsm_live demo_stored_facts(6)
  by auto

section \<open>Room\<close>

lemma sm_dirtiest_Some: "\<exists>most dd. sm_dirtiest m is a b = (most, dd)"
  by (cases "sm_dirtiest m is a b") blast

lemma mset_concat_remove1:
  "d \<in> set xs \<Longrightarrow> mset (concat (map f (remove1 d xs)) @ f d) = mset (concat (map f xs))"
  by (induction xs) auto

lemma sm_collect_room:
  assumes ok: "sm_ok env dev m" and idle: "sm_idle m = i # rest"
    and hd: "\<forall>j \<in> set (sm_active m). s_state (sm_sec m j) \<noteq> SEC_UNINIT"
    and need: "0 < need" and room: "\<exists>j \<in> set (sm_active m). need \<le> wm_nvs_sm_get_gc_size (sm_sec m j)"
  shows "\<exists>dev' m' d. sm_garbage_collection env dev m need = Some (WM_NVS_ERR_OK, dev', m') \<and> sm_ok env dev' m' \<and>
    d \<in> set (sm_active m) \<and> (\<forall>j \<in> set (sm_active m). wm_nvs_sm_get_gc_size (sm_sec m j) \<le> wm_nvs_sm_get_gc_size (sm_sec m d)) \<and>
    sm_active m' = remove1 d (sm_active m) @ [i] \<and> sm_idle m' = rest @ [d] \<and>
    need \<le> wm_nvs_sm_get_free_size (sm_sec m' i) \<and> mset (sm_live dev' m') = mset (sm_live dev m)"
proof -
  obtain most dd where d: "sm_dirtiest m (sm_active m) 0 None = (most, dd)" using sm_dirtiest_Some by blast
  have need': "need \<le> most" using room sm_dirtiest_spec [OF d] by force
  obtain dev' m' c where g: "sm_garbage_collection env dev m need = Some (WM_NVS_ERR_OK, dev', m')" "sm_ok env dev' m'"
    "c \<in> set (sm_active m)" "wm_nvs_sm_get_gc_size (sm_sec m c) = most"
    "\<forall>j \<in> set (sm_active m). wm_nvs_sm_get_gc_size (sm_sec m j) \<le> most"
    "sm_active m' = remove1 c (sm_active m) @ [i]" "sm_idle m' = rest @ [c]"
    "sm_live dev' m' = concat (map (\<lambda>j. live (sm_pt m) dev (sm_sec m j)) (remove1 c (sm_active m))) @
      live (sm_pt m) dev (sm_sec m c)"
    "wm_nvs_sm_get_free_size (sm_sec m' i) = most"
    using sm_garbage_collection_spec [OF ok idle hd d need need'] by blast
  have "mset (sm_live dev' m') = mset (sm_live dev m)"
    unfolding g(8) sm_live_def [of dev m] by (rule mset_concat_remove1 [OF g(3)])
  with g need' show ?thesis by (intro exI [of _ dev'] exI [of _ m'] exI [of _ c]) simp
qed

lemma sm_active_room:
  assumes ok: "sm_ok env dev m" and idle: "sm_idle m = i # rest" and need: "need \<le> 4064"
  shows "\<exists>dev' m'. sm_active_sector env dev m = Some (WM_NVS_ERR_OK, dev', m') \<and> sm_ok env dev' m' \<and>
    sm_active m' = sm_active m @ [i] \<and> sm_idle m' = rest \<and>
    need \<le> wm_nvs_sm_get_free_size (sm_sec m' i) \<and> sm_live dev' m' = sm_live dev m"
proof -
  obtain dev' s where a: "sm_active_sector env dev m = Some (WM_NVS_ERR_OK, dev',
      (sm_upd m i s)\<lparr>sm_serial := u32 (sm_serial m + 1), sm_idle := rest, sm_active := sm_active m @ [i]\<rparr>)"
    "sector_fresh env (sm_pt m) dev' s" "s_address s = i * NVS_SECTION_SIZE" "s_serial s = sm_serial m"
    "only_sector (sm_pt m) dev dev' (i * NVS_SECTION_SIZE)" "pt_ok env (sm_pt m) dev'"
    using sm_active_sector_spec [OF ok idle] by blast
  have gs: "sec_good env (sm_pt m) dev' s" using a(2,4) ok by (simp add: sec_good_def sm_ok_def)
  have un: "u32 (sm_serial m + 1) < 2 ^ 32" by simp
  have i: "i < length (sm_secs m)" using ok idle by (auto simp: sm_ok_def sm_shape_def)
  note k = sm_ok_activate [OF un ok idle gs a(3,5,6)]
  have "need \<le> wm_nvs_sm_get_free_size s" using a(2) need by (simp add: wm_nvs_sm_get_free_size_def sector_fresh_def)
  then show ?thesis using a(1) k(1,2) i fresh_entries [OF a(2)]
    by (intro exI [of _ dev'] exI [of _ "(sm_upd m i s)\<lparr>sm_serial := u32 (sm_serial m + 1), sm_idle := rest,
        sm_active := sm_active m @ [i]\<rparr>"]) (simp add: sm_sec_upd)
qed

text \<open>C14. A collection keeps the content. With one erased sector and a sector that has the room
  asked for, free or dropped, the collection picks the one that has the most, moves its live
  entries behind the others, gives the source back as the erased sector, and leaves
  that room in the current sector; the entries with their data are the same as before.\<close>

theorem collection_keeps_store:
  assumes ok: "sm_ok env dev m" and idle: "sm_idle m = i # rest"
    and hd: "\<forall>j \<in> set (sm_active m). s_state (sm_sec m j) \<noteq> SEC_UNINIT"
    and need: "0 < need" and room: "\<exists>j \<in> set (sm_active m). need \<le> wm_nvs_sm_get_gc_size (sm_sec m j)"
  shows "\<exists>dev' m' d. sm_garbage_collection env dev m need = Some (WM_NVS_ERR_OK, dev', m') \<and> sm_ok env dev' m' \<and>
    d \<in> set (sm_active m) \<and> (\<forall>j \<in> set (sm_active m). wm_nvs_sm_get_gc_size (sm_sec m j) \<le> wm_nvs_sm_get_gc_size (sm_sec m d)) \<and>
    sm_active m' = remove1 d (sm_active m) @ [i] \<and> sm_idle m' = rest @ [d] \<and>
    need \<le> wm_nvs_sm_get_free_size (sm_sec m' i) \<and> mset (sm_live dev' m') = mset (sm_live dev m)"
  by (rule sm_collect_room [OF assms])

theorem collection_keeps_store_witness:
  "\<exists>dev' m'. sm_garbage_collection demo_env demo_fdev demo_tight 3968 = Some (WM_NVS_ERR_OK, dev', m') \<and>
     mset (sm_live dev' m') = {#(demo_item, demo_val)#}"
  using collection_keeps_store [OF demo_tight_ok, of 1 "[]" 3968] demo_stored_facts(6) demo_fsm_size
  by (auto simp: demo_fsm_live)

text \<open>C15. Room on request. The request for a sector fails without effect when no sector is
  idle, or when one is and no sector in use has the room; otherwise it succeeds, and then the
  current sector has the room asked for, one idle sector is always left, and the content is
  the same, in another order at most.\<close>

theorem request_makes_room:
  assumes ok: "sm_ok env dev m" and hd: "\<forall>j \<in> set (sm_active m). s_state (sm_sec m j) \<noteq> SEC_UNINIT"
    and need: "0 < need" "need \<le> 4064"
  shows "\<exists>err dev' m'. wm_nvs_sm_request_sector env dev m need = Some (err, dev', m') \<and>
    (err = WM_NVS_ERR_OK \<longleftrightarrow> 2 \<le> length (sm_idle m) \<or>
       length (sm_idle m) = 1 \<and> (\<exists>j \<in> set (sm_active m). need \<le> wm_nvs_sm_get_gc_size (sm_sec m j))) \<and>
    (if err = WM_NVS_ERR_OK
     then sm_ok env dev' m' \<and> sm_idle m' \<noteq> [] \<and> mset (sm_live dev' m') = mset (sm_live dev m) \<and>
       (\<exists>c. wm_nvs_sm_get_current_sector m' = Some c \<and> need \<le> wm_nvs_sm_get_free_size (sm_sec m' c))
     else dev' = dev \<and> m' = m)"
proof (cases "length (sm_idle m) \<le> 1")
  case True
  show ?thesis
  proof (cases "sm_idle m")
    case Nil
    then show ?thesis by (simp add: wm_nvs_sm_request_sector_def)
  next
    case (Cons i rest)
    with True have idle: "sm_idle m = [i]" by simp
    then have rq: "wm_nvs_sm_request_sector env dev m need = sm_garbage_collection env dev m need"
      by (simp add: wm_nvs_sm_request_sector_def One_nat_def)
    show ?thesis
    proof (cases "\<exists>j \<in> set (sm_active m). need \<le> wm_nvs_sm_get_gc_size (sm_sec m j)")
      case True
      then obtain dev' m' where g: "sm_garbage_collection env dev m need = Some (WM_NVS_ERR_OK, dev', m')"
        "sm_ok env dev' m'" "last (sm_active m') = i" "sm_active m' \<noteq> []" "sm_idle m' \<noteq> []"
        "need \<le> wm_nvs_sm_get_free_size (sm_sec m' i)" "mset (sm_live dev' m') = mset (sm_live dev m)"
        using sm_collect_room [OF ok idle hd need(1) True] by auto
      with True rq idle show ?thesis
        by (intro exI [of _ WM_NVS_ERR_OK] exI [of _ dev'] exI [of _ m']) (simp add: current_last)
    next
      case False
      obtain most dd where d: "sm_dirtiest m (sm_active m) 0 None = (most, dd)" using sm_dirtiest_Some by blast
      have "most < need" using False need(1) sm_dirtiest_spec(3) [OF d] by auto
      with rq d False idle show ?thesis by (simp add: sm_garbage_collection_def)
    qed
  qed
next
  case False
  then obtain i rest where idle: "sm_idle m = i # rest" "rest \<noteq> []"
    by (cases "sm_idle m"; cases "tl (sm_idle m)") (auto simp: One_nat_def)
  obtain dev' m' where a: "sm_active_sector env dev m = Some (WM_NVS_ERR_OK, dev', m')" "sm_ok env dev' m'"
    "sm_active m' = sm_active m @ [i]" "sm_idle m' = rest" "need \<le> wm_nvs_sm_get_free_size (sm_sec m' i)"
    "sm_live dev' m' = sm_live dev m"
    using sm_active_room [OF ok idle(1) need(2)] by blast
  moreover have "2 \<le> length (sm_idle m)" using False by simp
  ultimately show ?thesis using idle
    by (intro exI [of _ WM_NVS_ERR_OK] exI [of _ dev'] exI [of _ m'])
      (simp add: wm_nvs_sm_request_sector_def wm_nvs_sm_get_current_sector_def list_last_def)
qed

theorem request_makes_room_witness:
  "\<exists>dev' m'. wm_nvs_sm_request_sector demo_env demo_fdev demo_tight 64 = Some (WM_NVS_ERR_OK, dev', m') \<and>
     mset (sm_live dev' m') = {#(demo_item, demo_val)#}"
  using request_makes_room [OF demo_tight_ok, of 64] demo_stored_facts(6) demo_fsm_size
  by (auto simp: demo_fsm_live split: if_splits)

section \<open>The check for an incomplete write\<close>




text \<open>The store after another, shorter string was written and deleted.\<close>

definition demo_key2 :: bytes where "demo_key2 = [0x6A]"

definition demo_item2 :: item where
  "demo_item2 = new_item demo_env 1 TYPE_STRING demo_key2 (replicate 9 1) 9 NVS_SEG_ID_ANY"





lemma demo_item2_fields [simp]: "it_state demo_item2 = ITEM_USING" "it_length demo_item2 = 9"
  "it_type demo_item2 = TYPE_STRING" "wm_nvs_item_get_span demo_item2 = 2"
  by (simp_all add: demo_item2_def new_item_def) (simp_all add: wm_nvs_item_get_span_def wm_nvs_item_init_def Let_def)




end
