(* ===== verification/SectorProps.thy ===== *)
theory SectorProps
  imports Demo
begin

text \<open>
  Properties of one sector: lookup, append, drop, read, erase, mount and copy, and of the hash
  list behind the lookup.
\<close>

section \<open>The hash list\<close>

text \<open>The lookup of the hash list returns the least recently appended position at or after
  \<open>start\<close> whose stored 24 bits are those of the item, and \<open>-1\<close> when there is none.\<close>

theorem hash_find_first:
  assumes "hash_inv h"
  shows "wm_nvs_hash_find env h start it =
    (case find (\<lambda>(c, i). start \<le> i \<and> c = item_hash24 env it) (hash_list h) of
       None \<Rightarrow> -1 | Some (c, i) \<Rightarrow> int i)"
  by (rule wm_nvs_hash_find_spec [OF assms])

theorem hash_find_first_witness:
  "wm_nvs_hash_find demo_env (s_hash demo_sec1) 0 demo_item = 0"
proof -
  have h: "hash_inv (s_hash demo_sec1)" "hash_list (s_hash demo_sec1) = [(item_hash24 demo_env demo_item, 0)]"
    using demo_write_facts(1,2) by (simp_all add: sector_ok_def hash_keys_def)
  show ?thesis using hash_find_first [OF h(1), of demo_env 0 demo_item] h(2) by simp
qed

text \<open>The hash list grows and shrinks as a list: any run of appends that fits the slices of a
  sector leaves exactly the old pairs followed by the new ones, in order, growing its table ten
  nodes at a time on the way.\<close>

theorem hash_appends:
  assumes "hash_inv h" and "heap_ok env" and "length (hash_list h) + length ps \<le> NVS_ENTRY_COUNT"
    and "\<forall>(it, i) \<in> set ps. i < NVS_ENTRY_COUNT"
  shows "hash_inv (fold (\<lambda>(it, i) h. snd (wm_nvs_hash_append env h it i)) ps h) \<and>
    hash_list (fold (\<lambda>(it, i) h. snd (wm_nvs_hash_append env h it i)) ps h) =
      hash_list h @ map (\<lambda>(it, i). (item_hash24 env it, i)) ps"
  using ht.appends_list [of h env ps] assms by simp

theorem hash_appends_witness:
  "hash_list (fold (\<lambda>(it, i) h. snd (wm_nvs_hash_append demo_env h it i))
     (map (\<lambda>i. (demo_item, i)) [0..<30]) demo_hash) =
   map (\<lambda>i. (item_hash24 demo_env demo_item, i)) [0..<30]"
  using hash_appends [of demo_hash demo_env "map (\<lambda>i. (demo_item, i)) [0..<30]"]
  by (simp add: comp_def)

text \<open>An erased position is never offered again, and erasing reports whether it was there.\<close>

theorem hash_erase_gone:
  assumes "hash_inv h" and "heap_ok env" and "distinct (map snd (hash_list h))" and "i < NVS_ENTRY_COUNT"
  shows "(fst (wm_nvs_hash_erase env h i) \<longleftrightarrow> i \<in> snd ` set (hash_list h)) \<and>
    wm_nvs_hash_find env (snd (wm_nvs_hash_erase env h i)) start it \<noteq> int i"
  using wm_nvs_hash_erase_spec(3) [OF assms(1,3,4), of env] ht.lookup_erase [of h env i start it] assms
  by simp

theorem hash_erase_gone_witness:
  "fst (wm_nvs_hash_erase demo_env (s_hash demo_sec1) 0) \<and>
   wm_nvs_hash_find demo_env (snd (wm_nvs_hash_erase demo_env (s_hash demo_sec1) 0)) 0 demo_item \<noteq> 0"
proof -
  have h: "hash_inv (s_hash demo_sec1)" "hash_list (s_hash demo_sec1) = [(item_hash24 demo_env demo_item, 0)]"
    using demo_write_facts(1,2) by (simp_all add: sector_ok_def hash_keys_def)
  show ?thesis
    using hash_erase_gone [OF h(1) demo_env_heap, of 0 0 demo_item] h(2) by simp
qed

section \<open>Entries\<close>

text \<open>Looking up an entry in a sector: the scan over the hash list (or over all slices when no
  key is given) returns the first entry in use, at or after the start, that has the wanted
  group, type, segment and name, with its slice index; otherwise not found. The sector and the
  index are unchanged when nothing is found.\<close>

theorem sector_lookup_first:
  assumes "sector_ok env p dev sec" and "start_ok (sector_entries p dev sec) key ix" and "item_wf it"
  shows "find_result sec ix (find (\<lambda>e. ix \<le> fst e \<and> wanted env g t key si ss e) (sector_entries p dev sec))
    (wm_nvs_sector_find_item env p dev sec g t key ix it si ss)"
  by (rule wm_nvs_sector_find_item_spec [OF assms])

theorem sector_lookup_first_witness:
  "wm_nvs_sector_find_item demo_env demo_pt demo_dev1 demo_sec1 1 TYPE_STRING (Some demo_key) 0 blank_item
     NVS_SEG_ID_ANY SEG_START_ANY = (WM_NVS_ERR_OK, demo_sec1, 0, demo_item)"
proof -
  have "item_wf blank_item" by (simp add: blank_item_def item_of_bytes_wf)
  then show ?thesis
    using sector_lookup_first [OF demo_write_facts(1), of "Some demo_key" 0 blank_item 1 TYPE_STRING NVS_SEG_ID_ANY SEG_START_ANY]
      demo_item_wanted by (simp add: start_ok_def demo_write_facts(2) find_result_def)
qed

text \<open>C19. Writing an entry with room: the list of entries grows by exactly the new one, at the first
  free slice, its data reads back, the RAM copy still describes the flash, and no cell outside
  the slices of the entry changes.\<close>

theorem sector_write_appends:
  assumes "sector_ok env p dev sec" and "s_state sec \<noteq> SEC_FULL"
    and "len \<le> NVS_SINGLE_ITEM_MAX_DATA" and "len \<le> length d"
    and "s_next_free sec + write_span len \<le> NVS_ENTRY_COUNT"
  shows "\<exists>dev' sec'. wm_nvs_sector_write_item env p dev sec g t k (Some d) len si = (WM_NVS_ERR_OK, dev', sec') \<and>
    sector_ok env p dev' sec' \<and>
    live p dev' sec' = live p dev sec @ [(new_item env g t k d len si, take len d)] \<and>
    (\<forall>x < pt_size p. x < s_address sec + (s_next_free sec + 1) * 32 \<or>
        s_address sec + (s_next_free sec + write_span len + 1) * 32 \<le> x \<longrightarrow> pt_mem p dev' x = pt_mem p dev x)"
proof -
  let ?it = "new_item env g t k d len si"
  obtain dev' sec' where w: "wm_nvs_sector_write_item env p dev sec g t k (Some d) len si = (WM_NVS_ERR_OK, dev', sec')"
    "sector_ok env p dev' sec'" "sector_entries p dev' sec' = sector_entries p dev sec @ [(s_next_free sec, ?it)]"
    "entry_data p dev' (s_address sec) (s_next_free sec, ?it) = take len d"
    "same_on p dev dev' 0 (s_address sec + (s_next_free sec + 1) * 32)"
    "same_on p dev dev' (s_address sec + (s_next_free sec + write_span len + 1) * 32) (pt_size p)"
    "s_address sec' = s_address sec"
    using write_item_fits [OF assms, of g t k si] by blast
  have "it_state ?it = ITEM_USING" by (simp add: new_item_def)
  from live_append [OF assms(1) w(3) this w(4,5,7)] w show ?thesis
    by (intro exI [of _ dev'] exI [of _ sec']) (auto simp: same_on_def)
qed

theorem sector_write_appends_witness:
  "\<exists>dev' sec'. wm_nvs_sector_write_item demo_env demo_pt demo_dev1 demo_sec1 1 TYPE_UINT8 [0x78] (Some [9]) 1 255 =
     (WM_NVS_ERR_OK, dev', sec') \<and>
   live demo_pt dev' sec' = [(demo_item, demo_val), (new_item demo_env 1 TYPE_UINT8 [0x78] [9] 1 255, [9])]"
proof -
  have "write_span 1 = 1" by (simp add: write_span_def)
  moreover have "live demo_pt demo_dev1 demo_sec1 = [(demo_item, demo_val)]"
    using demo_write_facts by (simp add: live_def)
  ultimately show ?thesis
    using sector_write_appends [OF demo_write_facts(1), of 1 "[9]" 1 TYPE_UINT8 "[0x78]" 255]
      demo_write_facts(5,6) by auto
qed

text \<open>A sector without enough free slices refuses the entry and neither flash nor RAM changes.\<close>

theorem sector_write_refuses:
  assumes "sector_ok env p dev sec" and "s_state sec \<noteq> SEC_FULL" and "len \<le> NVS_SINGLE_ITEM_MAX_DATA"
    and "NVS_ENTRY_COUNT < s_next_free sec + write_span len"
  shows "wm_nvs_sector_write_item env p dev sec g t k d len si = (WM_NVS_ERR_SECTOR_FULL, dev, sec)"
  by (rule write_item_full [OF assms])

theorem sector_write_refuses_witness:
  "wm_nvs_sector_write_item demo_env demo_pt demo_dev1 demo_sec1 1 TYPE_STRING demo_key (Some demo_val) 4000 255 =
     (WM_NVS_ERR_SECTOR_FULL, demo_dev1, demo_sec1)"
  using sector_write_refuses [OF demo_write_facts(1), of 4000] demo_write_facts(5,6)
  by (simp add: write_span_def)

text \<open>Dropping an entry removes exactly that entry from the live content, by changing one cell:
  its state byte.\<close>

theorem sector_drop_removes:
  assumes "sector_ok env p dev sec" and "(k, it) \<in> set (sector_entries p dev sec)" and "it_state it = ITEM_USING"
  shows "\<exists>dev' sec'. wm_nvs_sector_erase_item env p dev sec k it True = (WM_NVS_ERR_OK, dev', sec') \<and>
    sector_ok env p dev' sec' \<and>
    live p dev' sec' = map (\<lambda>e. (snd e, entry_data p dev (s_address sec) e))
      (filter (\<lambda>e. is_using e \<and> fst e \<noteq> k) (sector_entries p dev sec)) \<and>
    (\<forall>x < pt_size p. x \<noteq> s_address sec + (k + 1) * 32 \<longrightarrow> pt_mem p dev' x = pt_mem p dev x)"
proof -
  obtain dev' sec' where e: "wm_nvs_sector_erase_item env p dev sec k it True = (WM_NVS_ERR_OK, dev', sec')"
    "sector_ok env p dev' sec'"
    "sector_entries p dev' sec' = map (drop_entry k) (sector_entries p dev sec)"
    "same_on p dev dev' 0 (s_address sec + (k + 1) * 32)"
    "same_on p dev dev' (s_address sec + (k + 1) * 32 + 1) (pt_size p)"
    "sec' = sec\<lparr>s_droped := s_droped sec + wm_nvs_item_get_span it, s_hash := s_hash sec'\<rparr>"
    using erase_item_spec [OF assms] by blast
  have a: "s_address sec' = s_address sec" using arg_cong [OF e(6), of s_address] by simp
  have "k \<in> fst ` set (sector_entries p dev sec)" using assms(2) by force
  note l = live_drop [OF assms(1) sector_ok_entry(7) [OF assms(1,2)] this e(3-5) a]
  have "pt_mem p dev' x = pt_mem p dev x" if "x < pt_size p" "x \<noteq> s_address sec + (k + 1) * 32" for x
    using e(4,5) that by (cases "x < s_address sec + (k + 1) * 32") (auto simp: same_on_def)
  with l e(1,2) show ?thesis by blast
qed

theorem sector_drop_removes_witness:
  "\<exists>dev' sec'. wm_nvs_sector_erase_item demo_env demo_pt demo_dev1 demo_sec1 0 demo_item True =
     (WM_NVS_ERR_OK, dev', sec') \<and> live demo_pt dev' sec' = []"
  using sector_drop_removes [OF demo_write_facts(1), of 0 demo_item] demo_write_facts(2) by auto

text \<open>Mounting a sector whose header and entries are intact rebuilds its RAM copy from flash
  alone, whatever the old RAM copy held: state, serial number, free position, counters and the
  positions in the hash list are the ones before the restart.\<close>

theorem sector_mount_rebuilds:
  assumes "sector_ok env p dev sec" and "header_ok env p dev sec" and "idx * NVS_SECTION_SIZE = s_address sec"
  shows "\<exists>sec'. wm_nvs_sector_load env p dev old idx = (WM_NVS_ERR_OK, dev, sec') \<and>
    sector_ok env p dev sec' \<and> s_address sec' = s_address sec \<and> s_state sec' = s_state sec \<and>
    s_serial sec' = s_serial sec \<and> s_next_free sec' = s_next_free sec \<and> s_used sec' = s_used sec \<and>
    s_droped sec' = s_droped sec \<and> hash_list (s_hash sec') = hash_list (s_hash sec)"
  using sector_load_spec [OF assms, of old] by blast

theorem sector_mount_rebuilds_witness:
  "\<exists>dev sec sec'. wm_nvs_sector_init demo_env demo_pt demo_dev (demo_blank 0) = (WM_NVS_ERR_OK, dev, sec) \<and>
     wm_nvs_sector_load demo_env demo_pt dev zero_sector 0 = (WM_NVS_ERR_OK, dev, sec') \<and>
     s_state sec' = SEC_USING \<and> s_serial sec' = 1 \<and> s_next_free sec' = 0"
proof -
  have f: "sector_fresh demo_env demo_pt demo_dev (demo_blank 0)" "s_serial (demo_blank 0) < 2 ^ 32"
    by (simp, simp add: demo_blank_def)
  obtain dev sec where i: "wm_nvs_sector_init demo_env demo_pt demo_dev (demo_blank 0) = (WM_NVS_ERR_OK, dev, sec)"
    "sector_ok demo_env demo_pt dev sec" "header_ok demo_env demo_pt dev sec" "s_state sec = SEC_USING"
    "s_address sec = s_address (demo_blank 0)" "s_serial sec = s_serial (demo_blank 0)" "s_next_free sec = 0"
    using sector_init_spec [OF f] by blast
  have "0 * NVS_SECTION_SIZE = s_address sec" using i(5) by (simp add: demo_blank_def)
  from sector_mount_rebuilds [OF i(2,3) this, of zero_sector] i show ?thesis
    by (auto simp: demo_blank_def)
qed

text \<open>Copying a sector for a collection: the target ends up with exactly the live entries of
  the source, in order and with their data, and nothing of the dropped ones; the source and
  every other sector keep their cells.\<close>

theorem sector_copy_compacts:
  assumes "sector_ok env p dev dst" and "s_next_free dst = 0" and "sector_ok env p dev src"
    and "sec_disjoint dst src"
  shows "\<exists>dev' dst'. wm_nvs_sector_copy env p dev dst src = (WM_NVS_ERR_OK, dev', dst', src) \<and>
    sector_ok env p dev' dst' \<and> live p dev' dst' = live p dev src \<and>
    s_next_free dst' = s_used src - s_droped src \<and>
    (\<forall>x < pt_size p. x < s_address dst + 32 \<or> s_address dst + NVS_SECTION_SIZE \<le> x \<longrightarrow>
       pt_mem p dev' x = pt_mem p dev x)"
proof -
  obtain dev' dst' where c: "wm_nvs_sector_copy env p dev dst src = (WM_NVS_ERR_OK, dev', dst', src)"
    "sector_ok env p dev' dst'" "live p dev' dst' = live p dev src"
    "same_on p dev dev' 0 (s_address dst + 32)"
    "same_on p dev dev' (s_address dst + NVS_SECTION_SIZE) (pt_size p)"
    "s_next_free dst' = s_used src - s_droped src" "s_address dst' = s_address dst"
    using wm_nvs_sector_copy_spec [OF assms] by blast
  show ?thesis
    by (intro exI [of _ dev'] exI [of _ dst']) (use c in \<open>auto simp: same_on_def\<close>)
qed

theorem sector_copy_compacts_witness:
  "\<exists>dev' dst'. wm_nvs_sector_copy demo_env demo_pt demo_dev1 demo_sec2 demo_sec1 =
     (WM_NVS_ERR_OK, dev', dst', demo_sec1) \<and> live demo_pt dev' dst' = [(demo_item, demo_val)]"
proof -
  have f: "s_next_free demo_sec2 = 0" "sec_disjoint demo_sec2 demo_sec1"
    using demo_write_facts(4) by (simp_all add: demo_sec2_def demo_blank_def sec_disjoint_def)
  have "live demo_pt demo_dev1 demo_sec1 = [(demo_item, demo_val)]"
    using demo_write_facts by (simp add: live_def)
  then show ?thesis
    using sector_copy_compacts [OF demo_sec2_ok f(1) demo_write_facts(1) f(2)] by auto
qed

end
