(* ===== verification/FlashProps.thy ===== *)
theory FlashProps
  imports Demo
begin

text \<open>
  Properties of the flash driver, the partition table, the partition window and the codecs,
  each with the concrete input that shows its hypotheses can hold.
\<close>

section \<open>The driver\<close>

text \<open>C30. Storing with erasure and reading back: after \<open>wm_drv_flash_write_with_erase\<close> of any
  range behind the factory region that ends inside the chip (the sum of offset and length, not
  reduced to 32 bits, is at most the size of the chip), however it lies across sectors,
  \<open>wm_drv_flash_read\<close> of that range returns the data, and every other cell of the chip is as
  before. The chip has the geometry of a NOR flash and the sector buffer can be allocated.\<close>

theorem flash_store_then_read:
  assumes "flash_geom dev" and "nor_cells env" and "heap_ok env"
    and "0 < n" and "n \<le> length buf" and "length out = n" and "off + n \<le> fd_size dev" and "WM_FT_REGION < off"
  shows "\<exists>dev'. wm_drv_flash_write_with_erase env (Some dev) off (Some buf) n = (WM_ERR_SUCCESS, Some dev') \<and>
    wm_drv_flash_read env (Some dev') off (Some out) n = (WM_ERR_SUCCESS, Some (take n buf)) \<and>
    (\<forall>x. x < off \<or> off + n \<le> x \<longrightarrow> fd_mem dev' x = fd_mem dev x)"
proof -
  let ?dev = "dev\<lparr>fd_mem := splice (fd_mem dev) off (take n buf)\<rparr>"
  have sz: "fd_drv dev" "fd_size dev \<le> 0x2000000" using assms(1) by (auto simp: flash_geom_def)
  have u: "u32 (off + n) = off + n" using sz assms(7) by simp
  have w: "iflash_erase_write_body env dev off buf n = (WM_ERR_SUCCESS, ?dev)"
    using assms by (intro iflash_erase_write_body_spec) simp_all
  have r: "wm_drv_internal_flash_read env ?dev off out n =
      (WM_ERR_SUCCESS, overlay out 0 (mem_slice (fd_mem ?dev) off n))"
    using assms by (intro wm_drv_internal_flash_read_spec) simp_all
  have "mem_slice (fd_mem ?dev) off n = take n buf"
    using mem_slice_splice [of "fd_mem dev" off "take n buf"] assms(5) by simp
  with w r u sz assms show ?thesis
    by (intro exI [of _ ?dev])
      (simp add: wm_drv_flash_write_with_erase_def wm_drv_internal_flash_write_with_erase_def
        wm_drv_flash_read_def overlay_all splice_def)
qed

theorem flash_store_then_read_witness:
  "\<exists>dev'. wm_drv_flash_write_with_erase demo_env (Some demo_dev) 0x3001 (Some [1, 2, 3]) 3 = (WM_ERR_SUCCESS, Some dev') \<and>
    wm_drv_flash_read demo_env (Some dev') 0x3001 (Some [0, 0, 0]) 3 = (WM_ERR_SUCCESS, Some [1, 2, 3])"
  using flash_store_then_read [of demo_dev demo_env 3 "[1, 2, 3]" "[0, 0, 0]" "0x3001"]
  by (auto simp: WM_FT_REGION_def)

text \<open>A plain write programs exactly its range: afterwards every cell of the range holds the
  old value AND the new one, every other cell is untouched. In particular a write over erased
  cells stores the data.\<close>

theorem flash_write_programs:
  assumes "flash_geom dev" and "nor_cells env" and "heap_ok env"
    and "0 < n" and "n \<le> length buf" and "off + n \<le> fd_size dev" and "WM_FT_REGION < off"
  shows "\<exists>dev'. wm_drv_flash_write env (Some dev) off (Some buf) n = (WM_ERR_SUCCESS, Some dev') \<and>
    (\<forall>x. fd_mem dev' x = (if off \<le> x \<and> x < off + n then fd_mem dev x AND buf ! (x - off) else fd_mem dev x))"
proof -
  have w: "wm_drv_internal_flash_write env dev off buf n =
      (WM_ERR_SUCCESS, dev\<lparr>fd_mem := prog_mem env (fd_mem dev) off (take n buf)\<rparr>)"
    using assms by (intro wm_drv_internal_flash_write_spec) simp_all
  show ?thesis
    by (rule exI [of _ "dev\<lparr>fd_mem := prog_mem env (fd_mem dev) off (take n buf)\<rparr>"])
      (use w assms(2,5) in \<open>auto simp: wm_drv_flash_write_def prog_mem_def pp_cell_nor\<close>)
qed

theorem flash_write_programs_witness:
  "\<exists>dev'. wm_drv_flash_write demo_env (Some demo_dev) 0x30FE (Some [1, 2, 3]) 3 = (WM_ERR_SUCCESS, Some dev') \<and>
    fd_mem dev' 0x3100 = 3"
proof -
  obtain dev' where d: "wm_drv_flash_write demo_env (Some demo_dev) 0x30FE (Some [1, 2, 3]) 3 = (WM_ERR_SUCCESS, Some dev')"
    "\<forall>x. fd_mem dev' x = (if 0x30FE \<le> x \<and> x < 0x30FE + 3 then fd_mem demo_dev x AND [1, 2, 3] ! (x - 0x30FE)
      else fd_mem demo_dev x)"
    using flash_write_programs [of demo_dev demo_env 3 "[1, 2, 3]" "0x30FE"]
    by (auto simp: WM_FT_REGION_def)
  have "fd_mem dev' 0x3100 = fd_mem demo_dev 0x3100 AND [1, 2, 3] ! (0x3100 - 0x30FE)" using d(2) by simp
  then have "fd_mem dev' 0x3100 = 3" by (simp add: numeral_2_eq_2)
  with d(1) show ?thesis by blast
qed

text \<open>Erasing a region sets exactly that region to \<open>0xFF\<close>, in all five alignments of its ends;
  the cells of the partly covered sectors are saved and written back. The last hypothesis
  excludes a region that starts inside a sector and ends exactly with the chip: there the code
  goes on to the sector behind the region.\<close>

theorem flash_erase_region_exact:
  assumes "flash_geom dev" and "nor_cells env" and "heap_ok env" and "0 < n" and "WM_FT_REGION < off"
    and "off + n < fd_size dev \<or>
      (off mod fd_sector dev = 0 \<or> (off + n) mod fd_sector dev \<noteq> 0) \<and> off + n = fd_size dev"
  shows "\<exists>dev'. wm_drv_flash_erase_region env (Some dev) off n = (WM_ERR_SUCCESS, Some dev') \<and>
    (\<forall>x. fd_mem dev' x = (if off \<le> x \<and> x < off + n then 0xFF else fd_mem dev x))"
proof -
  have "wm_drv_internal_flash_erase_region env dev off n =
      (WM_ERR_SUCCESS, dev\<lparr>fd_mem := erase_mem (fd_mem dev) off n\<rparr>)"
    using assms by (intro wm_drv_internal_flash_erase_region_spec) simp_all
  then show ?thesis
    by (intro exI [of _ "dev\<lparr>fd_mem := erase_mem (fd_mem dev) off n\<rparr>"])
      (auto simp: wm_drv_flash_erase_region_def erase_mem_def)
qed

theorem flash_erase_region_exact_witness:
  "\<exists>dev'. wm_drv_flash_erase_region demo_env (Some demo_dev) 0x3800 0x2000 = (WM_ERR_SUCCESS, Some dev')"
  using flash_erase_region_exact [of demo_dev demo_env "0x2000" "0x3800"]
  by (auto simp: WM_FT_REGION_def)

text \<open>C31. The factory parameters are out of reach of requests that do not wrap: for every offset,
  length and buffer whose offset and length add up to less than \<open>2^32\<close>, accepted or not,
  \<open>wm_drv_flash_write\<close> and \<open>wm_drv_flash_write_with_erase\<close> leave every cell below the end of
  the factory region as it was.\<close>

theorem flash_factory_region_safe:
  assumes "flash_geom dev" and "nor_cells env" and "heap_ok env" and "n \<le> length buf" and "off + n < 2 ^ 32"
    and "x \<le> WM_FT_REGION"
    and "wm_drv_flash_write env (Some dev) off (Some buf) n = (r1, Some dev1)"
    and "wm_drv_flash_write_with_erase env (Some dev) off (Some buf) n = (r2, Some dev2)"
  shows "fd_mem dev1 x = fd_mem dev x \<and> fd_mem dev2 x = fd_mem dev x"
proof -
  have u: "u32 (off + n) = off + n" using assms(5) by simp
  show ?thesis
  proof (cases "0 < n \<and> off + n \<le> fd_size dev \<and> WM_FT_REGION < off")
    case True
    have w: "wm_drv_internal_flash_write env dev off buf n =
        (WM_ERR_SUCCESS, dev\<lparr>fd_mem := prog_mem env (fd_mem dev) off (take n buf)\<rparr>)"
      using True assms by (intro wm_drv_internal_flash_write_spec) simp_all
    have e: "iflash_erase_write_body env dev off buf n =
        (WM_ERR_SUCCESS, dev\<lparr>fd_mem := splice (fd_mem dev) off (take n buf)\<rparr>)"
      using True assms by (intro iflash_erase_write_body_spec) simp_all
    from True assms w e u show ?thesis
      by (auto simp: wm_drv_flash_write_def wm_drv_flash_write_with_erase_def prog_mem_def splice_def
          wm_drv_internal_flash_write_with_erase_def flash_geom_def)
  next
    case False
    with assms u show ?thesis
      by (auto simp: wm_drv_flash_write_def wm_drv_flash_write_with_erase_def
          wm_drv_internal_flash_write_with_erase_def wm_drv_internal_flash_write_def split: if_splits)
  qed
qed

theorem flash_factory_region_safe_witness:
  "\<exists>dev1 dev2. wm_drv_flash_write demo_env (Some demo_dev) 0x2001 (Some [1]) 1 = (0, Some dev1) \<and>
    wm_drv_flash_write_with_erase demo_env (Some demo_dev) 0x2001 (Some [1]) 1 = (0, Some dev2) \<and>
    fd_mem dev1 0x2000 = 0xFF \<and> fd_mem dev2 0x2000 = 0xFF"
proof -
  obtain dev1 where 1: "wm_drv_flash_write demo_env (Some demo_dev) 0x2001 (Some [1]) 1 = (0, Some dev1)"
    using wm_drv_internal_flash_write_spec [of demo_dev demo_env 1 "[1]" "0x2001"]
    by (auto simp: wm_drv_flash_write_def WM_FT_REGION_def)
  obtain dev2 where 2: "wm_drv_flash_write_with_erase demo_env (Some demo_dev) 0x2001 (Some [1]) 1 = (0, Some dev2)"
    using iflash_erase_write_body_spec [of demo_dev demo_env 1 "[1]" "0x2001"]
    by (auto simp: wm_drv_flash_write_with_erase_def wm_drv_internal_flash_write_with_erase_def
        WM_FT_REGION_def)
  have "fd_mem dev1 0x2000 = fd_mem demo_dev 0x2000" "fd_mem dev2 0x2000 = fd_mem demo_dev 0x2000"
    using flash_factory_region_safe [OF demo_geom demo_env_nor demo_env_heap _ _ _ 1 2, of "0x2000"]
    by (simp_all add: WM_FT_REGION_def)
  with 1 2 show ?thesis by simp
qed

text \<open>C32. The range check adds the offset and the length in 32 bits. A write with erase that starts
  in the last 4096 bytes below \<open>2^32\<close> and goes up to 4096 bytes past it passes the check, and
  overwrites the first cells of the chip, which hold the factory parameters, with the caller's
  data: the address of its second sector wraps to 0.\<close>

theorem flash_wrapped_range_hits_factory:
  assumes g: "flash_geom dev" and "nor_cells env" and "heap_ok env" and sec: "fd_sector dev = 4096"
    and "WM_FT_REGION < off" and "2 ^ 32 - 4096 \<le> off" and "off < 2 ^ 32"
    and "0 < k" and "k \<le> 4096" and "k \<le> fd_size dev" and "length buf = (2 ^ 32 - off) + k"
  shows "\<exists>dev'. wm_drv_flash_write_with_erase env (Some dev) off (Some buf) (length buf) =
      (WM_ERR_SUCCESS, Some dev') \<and>
    (\<forall>x < k. fd_mem dev' x = buf ! (2 ^ 32 - off + x))"
proof -
  define r where "r = 2 ^ 32 - off"
  have pw: "(2 :: nat) ^ 32 = 4294967296" by simp
  have off: "4294963200 \<le> off" "off < 4294967296" using assms(6,7) unfolding pw by simp_all
  have r: "0 < r" "r \<le> 4096" "off + r = 4294967296" using off by (simp_all add: r_def)
  have dm: "off div 4096 = 0xFFFFF" "off mod 4096 = 4096 - r"
  proof -
    have "off = 0xFFFFF * 4096 + (4096 - r)" using r off by simp
    moreover have "4096 - r < 4096" using r by simp
    ultimately show "off div 4096 = 0xFFFFF" "off mod 4096 = 4096 - r"
      by (metis div_mult_self3 div_less add.right_neutral zero_neq_numeral, metis mod_mult_self3 mod_less)
  qed
  have len: "length buf = r + k" using assms(11) by (simp add: r_def)
  let ?t = "replicate 4096 0 :: bytes"
  obtain tb d1 where t1: "iflash_erase_write_sector env dev 0xFFFFF (4096 - r) r buf ?t = (tb, d1)"
    by (cases "iflash_erase_write_sector env dev 0xFFFFF (4096 - r) r buf ?t") simp
  note k1 = erase_write_sector_keeps [OF g _ _ _ t1, unfolded sec]
  have l: "length tb = 4096" "flash_geom d1" "fd_sector d1 = 4096" "fd_size d1 = fd_size dev"
    using k1 r len by simp_all
  have "0 * fd_sector d1 < fd_size d1" using assms(8,10) l(4) by simp
  then obtain tc where t2: "iflash_erase_write_sector env d1 0 0 k (drop r buf) tb =
      (tc, d1\<lparr>fd_mem := splice (fd_mem d1) 0 (take k (drop r buf))\<rparr>)" (is "_ = (tc, ?d2)")
    using iflash_erase_write_sector_spec [OF l(2) assms(2), of k 0 "drop r buf" 0 tb] l assms(8,9) len
    by auto
  have w: "u32 (0xFFFFF + 1) = 0x100000" by simp
  have "u32 (0x100000 * fd_sector d1) = 0" unfolding l(3) by (simp add: u32_def)
  then have t2': "iflash_erase_write_sector env d1 0x100000 0 k (drop r buf) tb = (tc, ?d2)"
    using t2 erase_write_sector_wrapped by metis
  have loop: "iflash_erase_write_loop env dev 0xFFFFF (4096 - r) r buf (r + k) ?t = ?d2"
    using erase_write_loop_turn [OF t1 r(1) assms(8)] assms(9) sec w erase_write_loop_last [OF t2'] by simp
  have al: "alloc_ok env 4096" using assms(3) by (simp add: heap_ok_def)
  have "4096 - (4096 - r) = r" "\<not> r + k \<le> r" using r assms(8) by simp_all
  then have "iflash_erase_write_body env dev off buf (r + k) = (WM_ERR_SUCCESS, ?d2)"
    using loop al by (simp add: iflash_erase_write_body_def sec dm Let_def)
  moreover have "u32 (off + (r + k)) = k"
  proof -
    have "off + (r + k) = k + 4294967296" using r(3) by simp
    then show ?thesis using assms(9) unfolding \<open>off + (r + k) = k + 4294967296\<close> by (simp add: u32_def)
  qed
  ultimately have "wm_drv_flash_write_with_erase env (Some dev) off (Some buf) (length buf) =
      (WM_ERR_SUCCESS, Some ?d2)"
    using assms(5,8,10) g by (simp add: wm_drv_flash_write_with_erase_def len
      wm_drv_internal_flash_write_with_erase_def flash_geom_def)
  moreover have "\<forall>x < k. fd_mem ?d2 x = buf ! (r + x)" using len by (simp add: splice_def)
  ultimately show ?thesis unfolding r_def by blast
qed

theorem flash_wrapped_range_hits_factory_witness:
  "\<exists>dev'. wm_drv_flash_write_with_erase demo_env (Some demo_dev) 0xFFFFFFFF (Some [7, 8, 9]) 3 =
      (WM_ERR_SUCCESS, Some dev') \<and> fd_mem dev' 0 = 8 \<and> fd_mem dev' 1 = 9"
proof -
  have l3: "length ([7, 8, 9] :: bytes) = 3" by (simp add: numeral_eq_Suc)
  have "\<exists>dev'. wm_drv_flash_write_with_erase demo_env (Some demo_dev) 0xFFFFFFFF (Some [7, 8, 9])
      (length ([7, 8, 9] :: bytes)) = (WM_ERR_SUCCESS, Some dev') \<and>
    (\<forall>x < 2. fd_mem dev' x = ([7, 8, 9] :: bytes) ! (2 ^ 32 - 0xFFFFFFFF + x))"
    by (rule flash_wrapped_range_hits_factory) (simp_all add: WM_FT_REGION_def)
  then obtain dev' where d: "wm_drv_flash_write_with_erase demo_env (Some demo_dev) 0xFFFFFFFF (Some [7, 8, 9]) 3 =
      (WM_ERR_SUCCESS, Some dev')" "\<forall>x < 2. fd_mem dev' x = ([7, 8, 9] :: bytes) ! (2 ^ 32 - 0xFFFFFFFF + x)"
    unfolding l3 by blast
  have "fd_mem dev' 0 = 8" using d(2) [rule_format, of 0] by simp
  moreover have "fd_mem dev' 1 = 9" using d(2) [rule_format, of 1] by simp
  ultimately show ?thesis using d(1) by blast
qed

section \<open>The partition window\<close>

text \<open>Between erasures the cells of a partition only lose bits: after any sequence of raw
  writes through \<open>wm_nvs_pt_write_raw\<close>, whatever their addresses, lengths and results, every
  cell is its old value with some bits cleared.\<close>

theorem pt_writes_only_clear_bits:
  assumes "pt_ok env p dev" and "\<forall>(a, bs) \<in> set ws. a + length bs < 2 ^ 32"
  shows "pt_mem p (fold (\<lambda>(a, bs) d. snd (wm_nvs_pt_write_raw env p d a bs (length bs))) ws dev) x AND
    pt_mem p dev x =
    pt_mem p (fold (\<lambda>(a, bs) d. snd (wm_nvs_pt_write_raw env p d a bs (length bs))) ws dev) x"
proof -
  have one: "snd (wm_nvs_pt_write_raw env p d a bs (length bs)) =
      pt_prog env p d a (if a + length bs \<le> pt_size p then bs else [])"
    if "pt_ok env p d" "a + length bs < 2 ^ 32" for d a bs
  proof (cases "a + length bs \<le> pt_size p \<and> bs \<noteq> []")
    case True
    then show ?thesis using pt_write_spec(2) [OF that(1), of a "length bs" bs] by simp
  next
    case False
    have "prog_mem env (fd_mem d) (pt_offset p + a) [] = fd_mem d"
      by (auto simp: prog_mem_def fun_eq_iff)
    then have "pt_prog env p d a [] = d" by (simp add: pt_prog_def)
    with False that show ?thesis
      by (auto simp: wm_nvs_pt_write_raw_def wm_drv_flash_write_def wm_drv_internal_flash_write_def)
  qed
  have "fold (\<lambda>(a, bs) d. snd (wm_nvs_pt_write_raw env p d a bs (length bs))) ws dev =
      fold (\<lambda>(a, bs) d. pt_prog env p d a bs)
        (map (\<lambda>(a, bs). (a, if a + length bs \<le> pt_size p then bs else [])) ws) dev"
    using assms
  proof (induction ws arbitrary: dev)
    case (Cons w ws)
    then show ?case using one [of dev "fst w" "snd w"] by (cases w) simp
  qed simp
  then show ?thesis using pw.prog_seq_clears(2) [OF assms(1)] by simp
qed

theorem pt_writes_only_clear_bits_witness:
  "pt_mem demo_pt (fold (\<lambda>(a, bs) d. snd (wm_nvs_pt_write_raw demo_env demo_pt d a bs (length bs)))
     [(0, [0xF0]), (0, [0x3C]), (0x4000, [1])] demo_dev) 0 AND 0xFF =
   pt_mem demo_pt (fold (\<lambda>(a, bs) d. snd (wm_nvs_pt_write_raw demo_env demo_pt d a bs (length bs)))
     [(0, [0xF0]), (0, [0x3C]), (0x4000, [1])] demo_dev) 0"
  using pt_writes_only_clear_bits [OF demo_pt_ok, of "[(0, [0xF0]), (0, [0x3C]), (0x4000, [1])]" 0] by simp

text \<open>The window keeps its bounds: an access of the partition that would end behind it, or a
  change of a read-only partition, is refused with its error code and changes neither the
  device nor the caller's buffer.\<close>

theorem pt_window_guards:
  "(pt_size p < u32 (a + n) \<longrightarrow> wm_nvs_pt_read env p dev a buf n = (WM_NVS_ERR_INVALID_PARAM, buf) \<and>
     wm_nvs_pt_write env p dev a bs n = (WM_NVS_ERR_INVALID_PARAM, dev)) \<and>
   (pt_size p < u32 (a + NVS_SECTION_SIZE) \<and> pt_readonly p = 0 \<longrightarrow>
     wm_nvs_pt_erase p dev a = (WM_NVS_ERR_INVALID_PARAM, dev)) \<and>
   (pt_readonly p \<noteq> 0 \<and> u32 (a + n) \<le> pt_size p \<longrightarrow>
     wm_nvs_pt_write env p dev a bs n = (WM_NVS_ERR_READ_ONLY, dev)) \<and>
   (pt_readonly p \<noteq> 0 \<longrightarrow> wm_nvs_pt_erase p dev a = (WM_NVS_ERR_READ_ONLY, dev))"
  by (simp add: wm_nvs_pt_read_def wm_nvs_pt_write_def wm_nvs_pt_erase_def)

theorem pt_window_guards_witness:
  "wm_nvs_pt_read demo_env demo_pt demo_dev 0x2FFF [7, 7] 2 = (WM_NVS_ERR_INVALID_PARAM, [7, 7]) \<and>
   wm_nvs_pt_write demo_env demo_pt demo_dev 0x2FFF [7, 7] 2 = (WM_NVS_ERR_INVALID_PARAM, demo_dev) \<and>
   wm_nvs_pt_write demo_env (demo_pt\<lparr>pt_readonly := 1\<rparr>) demo_dev 0 [7] 1 = (WM_NVS_ERR_READ_ONLY, demo_dev) \<and>
   wm_nvs_pt_erase (demo_pt\<lparr>pt_readonly := 1\<rparr>) demo_dev 0 = (WM_NVS_ERR_READ_ONLY, demo_dev)"
  using pt_window_guards [of demo_pt "0x2FFF" 2 demo_env demo_dev "[7, 7]" "[7, 7]"]
    pt_window_guards [of "demo_pt\<lparr>pt_readonly := 1\<rparr>" 0 1 demo_env demo_dev "[7]" "[7]"]
  by (simp add: demo_pt_def)

section \<open>Codecs and the partition table\<close>

text \<open>The 32-byte entry head survives flash: writing a well-formed head with
  \<open>wm_nvs_pt_write_item\<close> over erased cells and reading it with \<open>wm_nvs_pt_read_item\<close> gives every
  field back, the bit fields of group, type and length included.\<close>

theorem item_flash_roundtrip:
  assumes "pt_ok env p dev" and "a + 32 \<le> pt_size p" and "item_wf it" and "item_wf old"
    and "pt_slice p dev a 32 = replicate 32 0xFF"
  shows "\<exists>dev'. wm_nvs_pt_write_item env p dev a it = (WM_NVS_ERR_OK, dev') \<and>
    wm_nvs_pt_read_item env p dev' a old = (WM_NVS_ERR_OK, it)"
proof -
  have nor: "nor_cells env" using assms(1) by (simp add: pt_ok_def)
  have l: "length (item_bytes it) = 32" using assms(3) by simp
  have "pt_slice p (pt_prog env p dev a (item_bytes it)) a 32 = item_bytes it"
    using pt_slice_prog_blank [OF nor, of p dev a "item_bytes it"] assms(5) l by simp
  then show ?thesis
    using pt_write_item_spec [OF assms(1-3)] pt_read_item_spec [of env p "pt_prog env p dev a (item_bytes it)" a old]
      assms item_of_bytes_item_bytes [OF assms(3)] by simp
qed

theorem item_flash_roundtrip_witness:
  "\<exists>dev'. wm_nvs_pt_write_item demo_env demo_pt demo_dev 32 blank_item = (WM_NVS_ERR_OK, dev') \<and>
    wm_nvs_pt_read_item demo_env demo_pt dev' 32 blank_item = (WM_NVS_ERR_OK, blank_item)"
proof -
  have "item_wf blank_item" by (simp add: blank_item_def item_of_bytes_wf)
  moreover have "pt_slice demo_pt demo_dev 32 32 = replicate 32 0xFF" by (rule pt_slice_blankI) simp
  ultimately show ?thesis
    using item_flash_roundtrip [OF demo_pt_ok, of 32 blank_item blank_item] by (simp add: demo_pt_def)
qed

text \<open>The sector header is stored and parsed without loss, its checksum included.\<close>

theorem header_codec_roundtrip:
  assumes "header_wf h"
  shows "header_of_bytes (header_bytes h) = h \<and> length (header_bytes h) = 32"
  using header_roundtrip [OF assms] length_header_bytes [OF assms] by simp

theorem header_codec_roundtrip_witness:
  "header_of_bytes (header_bytes \<lparr>sh_magic = 0x4D57, sh_state = 0xFE, sh_resv1 = 0xFF, sh_crc32 = 1,
     sh_serial = 7, sh_version = 1, sh_resv2 = replicate 19 0xFF\<rparr>) =
   \<lparr>sh_magic = 0x4D57, sh_state = 0xFE, sh_resv1 = 0xFF, sh_crc32 = 1,
     sh_serial = 7, sh_version = 1, sh_resv2 = replicate 19 0xFF\<rparr>"
  using header_codec_roundtrip [of "\<lparr>sh_magic = 0x4D57, sh_state = 0xFE, sh_resv1 = 0xFF, sh_crc32 = 1,
     sh_serial = 7, sh_version = 1, sh_resv2 = replicate 19 0xFF\<rparr>"]
  by (simp add: header_wf_def)

text \<open>The search loop of \<open>wm_partition_table_find\<close> ends and returns the first item of that
  name, whenever the item count fits its 8-bit counter; counts the table check accepts do.\<close>

theorem partition_find_first:
  assumes "n \<le> 255"
  shows "part_find_loop name bs 0 n =
    Some (case find (\<lambda>it. strcmp_eq name (pi_name it)) (part_items bs n) of
            None \<Rightarrow> (WM_ERR_NOT_FOUND, None) | Some it \<Rightarrow> (WM_ERR_SUCCESS, Some it))"
  using part_find_loop_spec [of 0 n name bs] assms by simp

theorem partition_find_first_witness:
  "part_find_loop [0x6E] (part_item_bytes \<lparr>pi_name = 0x6E # replicate 15 0, pi_offset = 5, pi_size = 6, pi_flag = 7\<rparr>) 0 1 =
    Some (WM_ERR_SUCCESS, Some \<lparr>pi_name = 0x6E # replicate 15 0, pi_offset = 5, pi_size = 6, pi_flag = 7\<rparr>)"
proof -
  let ?it = "\<lparr>pi_name = 0x6E # replicate 15 0, pi_offset = 5, pi_size = 6, pi_flag = 7\<rparr> :: part_item"
  have "part_item_of_bytes (part_item_bytes ?it) = ?it" by (rule part_item_roundtrip) simp_all
  moreover have "take 28 (part_item_bytes ?it) = part_item_bytes ?it" by (simp add: part_item_bytes_def)
  ultimately have "part_items (part_item_bytes ?it) 1 = [?it]" by (simp add: One_nat_def)
  then show ?thesis
    using partition_find_first [of 1 "[0x6E]" "part_item_bytes ?it"] by (simp add: strcmp_eq_def)
qed

text \<open>A table the check accepted can always be searched: its item count is at most 145, far
  below the wrap of the 8-bit loop counter, and the flag that it was checked is set.\<close>

theorem partition_table_accepted:
  assumes "part_table_verify env dev g info h n = (WM_ERR_SUCCESS, g')" and "fi_sector_size info \<le> 4096"
  shows "g_verified g' \<and> g_count g' = n \<and> n \<le> 145 \<and>
    part_find_loop name bs 0 (g_count g') \<noteq> None"
  using part_table_verify_count [OF assms] part_find_loop_spec [of 0 n name bs] by simp

theorem partition_table_accepted_witness:
  "g_verified (snd (part_table_verify (demo_env\<lparr>md5 := (\<lambda>_. (0, replicate 16 0xFF))\<rparr>) (Some demo_dev)
     \<lparr>g_verified = False, g_addr = 0x8000, g_count = 0\<rparr>
     \<lparr>fi_flash_size = 0x200000, fi_sector_size = 4096, fi_page_size = 256, fi_vendor_id = 0, fi_unique_id = []\<rparr>
     [] 0))"
proof -
  let ?env = "demo_env\<lparr>md5 := (\<lambda>_. (0, replicate 16 0xFF))\<rparr>"
  let ?g = "\<lparr>g_verified = False, g_addr = 0x8000, g_count = 0\<rparr> :: part_table"
  let ?i = "\<lparr>fi_flash_size = 0x200000, fi_sector_size = 4096, fi_page_size = 256, fi_vendor_id = 0, fi_unique_id = []\<rparr> :: flash_info"
  have a: "alloc_ok ?env n" for n using demo_env_heap by (simp add: heap_ok_def)
  have m: "mem_slice (\<lambda>_. 0xFF) x 16 = replicate 16 0xFF" for x
    by (rule nth_equalityI) simp_all
  have "wm_drv_internal_flash_read ?env demo_dev 0x800C (replicate 16 0) 16 =
      (WM_ERR_SUCCESS, overlay (replicate 16 0) 0 (mem_slice (fd_mem demo_dev) 0x800C 16))"
    by (rule wm_drv_internal_flash_read_spec) (simp_all add: a)
  then have "part_table_verify ?env (Some demo_dev) ?g ?i [] 0 = (WM_ERR_SUCCESS, ?g\<lparr>g_count := 0, g_verified := True\<rparr>)"
    by (simp add: part_table_verify_def wm_drv_flash_read_def a m overlay_all part_items_fit_def)
  from partition_table_accepted [OF this] this show ?thesis by simp
qed

end
