(* ===== verification/FtParam.thy ===== *)
theory FtParam
  imports PartitionTable
begin

text \<open>
  The factory parameters (\<open>wm_ft_param.c\<close>): MAC addresses, calibration and gain values in two
  copies, each with its checksums, in the two sectors in front of the flash that other code
  may not write. The build is the default one, without \<open>DATA_RESET_WHEN_GET\<close>. The argument
  \<open>dev\<close> is the result of \<open>wm_dt_get_device_by_name ("iflash")\<close>.
\<close>

section \<open>Data\<close>

datatype ft_cmd = FT_CMD_WIFI_MAC | FT_CMD_BT_MAC | FT_CMD_TX_DC | FT_CMD_RX_DC | FT_CMD_TX_IQ_GAIN
  | FT_CMD_RX_IQ_GAIN | FT_CMD_TX_IQ_PHASE | FT_CMD_RX_IQ_PHASE | FT_CMD_TX_GAIN | FT_CMD_TX_ADC_CAL
  | FT_CMD_FREQ_ERR | FT_CMD_RF_CAL_FLAG | FT_CMD_ALL

record ft_param =
  ft_magic :: nat
  ft_checksum :: crc
  ft_wifi_mac :: bytes
  ft_version :: nat
  ft_bt_mac :: bytes
  ft_ext_len :: nat
  ft_tx_dcoffset :: nat
  ft_rx_dcoffset :: nat
  ft_tx_iq_gain :: nat
  ft_rx_iq_gain :: nat
  ft_tx_iq_phase :: nat
  ft_rx_iq_phase :: nat
  ft_tx_gain :: bytes

text \<open>The versioned record starts with the plain one, which the code casts it to; the
  calibration structures of the extension are opaque bytes to this file.\<close>

record ft_ver = ft_param +
  ft_ext_checksum :: crc
  ft_freq_err :: nat
  ft_cal_flag :: nat
  ft_adc_cal :: bytes
  ft_temp_cal :: bytes
  ft_reversed :: bytes

abbreviation (input) FT_MAC_ADDR_LEN :: nat where "FT_MAC_ADDR_LEN \<equiv> 6"
abbreviation (input) FT_GAIN_LEN :: nat where "FT_GAIN_LEN \<equiv> 84"
abbreviation (input) FT_PARAM_SIZE :: nat where "FT_PARAM_SIZE \<equiv> 132"
abbreviation (input) FT_EXT_SIZE :: nat where "FT_EXT_SIZE \<equiv> 52"
abbreviation (input) FT_EXT_REVERSED_LEN :: nat where "FT_EXT_REVERSED_LEN \<equiv> 32"
abbreviation (input) FT_VER_SIZE :: nat where "FT_VER_SIZE \<equiv> 220"
abbreviation (input) FT_ADC_CAL_SIZE :: nat where "FT_ADC_CAL_SIZE \<equiv> 36"
abbreviation (input) FT_PARAM_SIGNATURE_WORD :: nat where "FT_PARAM_SIGNATURE_WORD \<equiv> 0xA0FFFF9F"

text \<open>The memory image: what the checksums and comparisons run over.\<close>

definition ft_body :: "'a ft_param_scheme \<Rightarrow> bytes" where
  "ft_body p = ft_wifi_mac p @ le_bytes 2 (ft_version p) @ ft_bt_mac p @ le_bytes 2 (ft_ext_len p) @
     le_bytes 4 (ft_tx_dcoffset p) @ le_bytes 4 (ft_rx_dcoffset p) @ le_bytes 4 (ft_tx_iq_gain p) @
     le_bytes 4 (ft_rx_iq_gain p) @ le_bytes 4 (ft_tx_iq_phase p) @ le_bytes 4 (ft_rx_iq_phase p) @ ft_tx_gain p"

definition ft_ext_bytes :: "ft_ver \<Rightarrow> bytes" where
  "ft_ext_bytes v = le_bytes 4 (ft_freq_err v) @ le_bytes 4 (ft_cal_flag v) @ ft_adc_cal v @ ft_temp_cal v @ ft_reversed v"

definition ft_ver_bytes :: "ft_ver \<Rightarrow> bytes" where
  "ft_ver_bytes v = le_bytes 4 (ft_magic v) @ crc_bytes (ft_checksum v) @ ft_body v @
     crc_bytes (ft_ext_checksum v) @ ft_ext_bytes v"

definition ft_ver_of_bytes :: "bytes \<Rightarrow> ft_ver" where
  "ft_ver_of_bytes bs =
     \<lparr>ft_magic = le_nat (take 4 bs), ft_checksum = crc_of (take 4 (drop 4 bs)),
      ft_wifi_mac = take 6 (drop 8 bs), ft_version = le_nat (take 2 (drop 14 bs)),
      ft_bt_mac = take 6 (drop 16 bs), ft_ext_len = le_nat (take 2 (drop 22 bs)),
      ft_tx_dcoffset = le_nat (take 4 (drop 24 bs)), ft_rx_dcoffset = le_nat (take 4 (drop 28 bs)),
      ft_tx_iq_gain = le_nat (take 4 (drop 32 bs)), ft_rx_iq_gain = le_nat (take 4 (drop 36 bs)),
      ft_tx_iq_phase = le_nat (take 4 (drop 40 bs)), ft_rx_iq_phase = le_nat (take 4 (drop 44 bs)),
      ft_tx_gain = take 84 (drop 48 bs), ft_ext_checksum = crc_of (take 4 (drop 132 bs)),
      ft_freq_err = le_nat (take 4 (drop 136 bs)), ft_cal_flag = le_nat (take 4 (drop 140 bs)),
      ft_adc_cal = take 36 (drop 144 bs), ft_temp_cal = take 8 (drop 180 bs), ft_reversed = take 32 (drop 188 bs)\<rparr>"

text \<open>The file-scope variables.\<close>

record ft_state =
  ft_ram :: ft_ver
  ft_addr_0 :: nat
  ft_addr_1 :: nat

section \<open>One copy\<close>

text \<open>\<open>wm_drv_crc32_reverse\<close>: nothing to do or no device leaves 0.\<close>

definition wm_drv_crc32_reverse :: "env \<Rightarrow> bytes \<Rightarrow> crc" where
  "wm_drv_crc32_reverse env buf = (if buf = [] \<or> \<not> crc_dev env then 0 else crc32_rev env buf)"

definition ft_ext_valid :: "'a ft_param_scheme \<Rightarrow> bool" where
  "ft_ext_valid p \<longleftrightarrow> ft_version p > 0 \<and> ft_version p < 0xFFFF \<and>
     ft_ext_len p \<ge> FT_EXT_SIZE \<and> ft_ext_len p \<le> FT_EXT_SIZE + FT_EXT_REVERSED_LEN"

definition ft_read :: "env \<Rightarrow> flash_dev option \<Rightarrow> nat \<Rightarrow> ft_ver" where
  "ft_read env dev addr =
     ft_ver_of_bytes (the (snd (wm_drv_flash_read env dev addr (Some (replicate FT_VER_SIZE 0xFF)) FT_VER_SIZE)))"

text \<open>The code and the buffer: 1 for a copy with extension, 2 for one without.\<close>

definition ft_param_init :: "env \<Rightarrow> flash_dev option \<Rightarrow> nat \<Rightarrow> int \<times> ft_ver" where
  "ft_param_init env dev addr =
     (let pft = ft_read env dev addr
      in if ft_magic pft = FT_PARAM_SIGNATURE_WORD then
           if ft_checksum pft \<noteq> wm_drv_crc32_reverse env (ft_body pft) then (WM_ERR_FAILED, pft)
           else if ft_ext_valid pft then
             if ft_ext_checksum pft = wm_drv_crc32_reverse env (take (ft_ext_len pft) (ft_ext_bytes pft))
             then (1, pft) else (WM_ERR_FAILED, pft)
           else (2, pft\<lparr>ft_version := 0xFFFF, ft_ext_len := 0xFFFF\<rparr>)
         else (WM_ERR_FAILED, pft))"

text \<open>The first copy that is intact goes to RAM, the plain part only when it has no extension.\<close>

definition ft_copy_plain :: "ft_ver \<Rightarrow> ft_ver \<Rightarrow> ft_ver" where
  "ft_copy_plain pft ram = pft\<lparr>ft_ext_checksum := ft_ext_checksum ram, ft_freq_err := ft_freq_err ram,
     ft_cal_flag := ft_cal_flag ram, ft_adc_cal := ft_adc_cal ram, ft_temp_cal := ft_temp_cal ram,
     ft_reversed := ft_reversed ram\<rparr>"

definition wm_ft_param_reset_internal_data :: "env \<Rightarrow> flash_dev option \<Rightarrow> ft_state \<Rightarrow> int \<times> ft_state" where
  "wm_ft_param_reset_internal_data env dev s =
     (if \<not> alloc_ok env FT_VER_SIZE then (WM_ERR_NO_MEM, s)
      else
        let (ret, pft) = (case ft_param_init env dev (ft_addr_0 s) of
              (ret, pft) \<Rightarrow> if ret < 0 then ft_param_init env dev (ft_addr_1 s) else (ret, pft));
            s = (if ret = 1 then s\<lparr>ft_ram := pft\<rparr>
                 else if ret = 2 then s\<lparr>ft_ram := ft_copy_plain pft (ft_ram s)\<rparr> else s)
        in (WM_ERR_SUCCESS, s))"

section \<open>Reading a parameter\<close>

text \<open>\<open>memcpy (data, field, n)\<close> into the caller's buffer.\<close>

definition ft_out :: "bytes \<Rightarrow> bytes \<Rightarrow> nat \<Rightarrow> bytes" where
  "ft_out data field n = overlay data 0 (take n field)"

text \<open>Without a valid extension two values come from the flash behind the plain part.\<close>

definition ft_get_raw :: "env \<Rightarrow> flash_dev option \<Rightarrow> nat \<Rightarrow> bytes \<Rightarrow> int \<times> bytes" where
  "ft_get_raw env dev addr data =
     (case wm_drv_flash_read env dev addr (Some data) 4 of
        (ret, buf) \<Rightarrow> (if ret \<noteq> 0 then WM_ERR_FAILED else WM_ERR_SUCCESS, the buf))"

definition wm_ft_param_get ::
  "env \<Rightarrow> flash_dev option \<Rightarrow> ft_state \<Rightarrow> ft_cmd \<Rightarrow> bytes \<Rightarrow> nat \<Rightarrow> int \<times> bytes" where
  "wm_ft_param_get env dev s opnum data rdlen =
     (let v = ft_ram s;
          word = (\<lambda>x. (WM_ERR_SUCCESS, ft_out data (le_bytes 4 x) 4))
      in case opnum of
           FT_CMD_FREQ_ERR \<Rightarrow> if ft_ext_valid v then word (ft_freq_err v)
             else ft_get_raw env dev (u32 (ft_addr_0 s + FT_PARAM_SIZE)) data
         | FT_CMD_RF_CAL_FLAG \<Rightarrow> if ft_ext_valid v then word (ft_cal_flag v)
             else ft_get_raw env dev (u32 (ft_addr_0 s + FT_PARAM_SIZE + 4)) data
         | FT_CMD_TX_ADC_CAL \<Rightarrow> if ft_ext_valid v then (WM_ERR_SUCCESS, ft_out data (ft_adc_cal v) rdlen)
             else (WM_ERR_FAILED, data)
         | FT_CMD_WIFI_MAC \<Rightarrow> (WM_ERR_SUCCESS, ft_out data (ft_wifi_mac v) rdlen)
         | FT_CMD_BT_MAC \<Rightarrow> (WM_ERR_SUCCESS, ft_out data (ft_bt_mac v) rdlen)
         | FT_CMD_TX_DC \<Rightarrow> word (ft_tx_dcoffset v)
         | FT_CMD_RX_DC \<Rightarrow> word (ft_rx_dcoffset v)
         | FT_CMD_TX_IQ_GAIN \<Rightarrow> word (ft_tx_iq_gain v)
         | FT_CMD_RX_IQ_GAIN \<Rightarrow> word (ft_rx_iq_gain v)
         | FT_CMD_TX_IQ_PHASE \<Rightarrow> word (ft_tx_iq_phase v)
         | FT_CMD_RX_IQ_PHASE \<Rightarrow> word (ft_rx_iq_phase v)
         | FT_CMD_TX_GAIN \<Rightarrow> (WM_ERR_SUCCESS, ft_out data (ft_tx_gain v) (min rdlen FT_GAIN_LEN))
         | FT_CMD_ALL \<Rightarrow> (WM_ERR_FAILED, data))"

section \<open>Writing a parameter\<close>

text \<open>\<open>memcmp\<close> of two images.\<close>

definition ft_same :: "ft_ver \<Rightarrow> ft_ver \<Rightarrow> bool" where
  "ft_same a b \<longleftrightarrow> ft_ver_bytes a = ft_ver_bytes b"

text \<open>Write the RAM image to a copy; the code of the write is dropped. Every write is recorded
  with its address and the device before it: the log is no state of the code, it says between
  which states a power loss can fall.\<close>

type_synonym ft_io = "flash_dev option \<times> (nat \<times> flash_dev option) list"

definition ft_write :: "env \<Rightarrow> ft_io \<Rightarrow> nat \<Rightarrow> ft_ver \<Rightarrow> ft_io" where
  "ft_write env io addr v =
     (case io of (dev, log) \<Rightarrow>
        (snd (wm_drv_iflash_wr_with_erase_private env dev addr (ft_ver_bytes v) FT_VER_SIZE),
         log @ [(addr, dev)]))"

text \<open>First, when copy 0 is intact, copy 1 is brought up to date with RAM. The result says
  whether to go on.\<close>

definition ft_sync_needed :: "env \<Rightarrow> flash_dev option \<Rightarrow> ft_state \<Rightarrow> bool" where
  "ft_sync_needed env dev s \<longleftrightarrow>
     fst (ft_param_init env dev (ft_addr_0 s)) \<noteq> WM_ERR_FAILED \<and>
     (case ft_param_init env dev (ft_addr_1 s) of
        (ret, pft) \<Rightarrow> ret = WM_ERR_FAILED \<or> \<not> ft_same pft (ft_ram s))"

definition ft_sync :: "env \<Rightarrow> ft_io \<Rightarrow> ft_state \<Rightarrow> bool \<times> ft_io" where
  "ft_sync env io s =
     (if ft_sync_needed env (fst io) s then
        let io = ft_write env io (ft_addr_1 s) (ft_ram s)
        in case ft_param_init env (fst io) (ft_addr_1 s) of
             (ret, pft) \<Rightarrow> (\<not> (ret = WM_ERR_FAILED \<or> \<not> ft_same pft (ft_ram s)), io)
      else (True, io))"

text \<open>A missing extension is created, all ones.\<close>

definition ft_make_ext :: "ft_ver \<Rightarrow> ft_ver" where
  "ft_make_ext v =
     (if ft_ext_valid v then v
      else v\<lparr>ft_version := 1, ft_ext_len := FT_EXT_SIZE, ft_freq_err := 0xFFFFFFFF, ft_cal_flag := 0xFFFFFFFF,
             ft_adc_cal := replicate FT_ADC_CAL_SIZE 0xFF, ft_temp_cal := replicate 8 0xFF\<rparr>)"

definition ft_put :: "ft_cmd \<Rightarrow> bytes \<Rightarrow> nat \<Rightarrow> ft_ver \<Rightarrow> ft_ver option" where
  "ft_put opnum data len v =
     (let word = le_nat (take 4 data)
      in case opnum of
           FT_CMD_FREQ_ERR \<Rightarrow> Some (v\<lparr>ft_freq_err := word\<rparr>)
         | FT_CMD_RF_CAL_FLAG \<Rightarrow> Some (v\<lparr>ft_cal_flag := word\<rparr>)
         | FT_CMD_TX_ADC_CAL \<Rightarrow> Some (v\<lparr>ft_adc_cal := overlay (ft_adc_cal v) 0 (take len data)\<rparr>)
         | FT_CMD_WIFI_MAC \<Rightarrow> Some (v\<lparr>ft_wifi_mac := overlay (ft_wifi_mac v) 0 (take len data)\<rparr>)
         | FT_CMD_BT_MAC \<Rightarrow> Some (v\<lparr>ft_bt_mac := overlay (ft_bt_mac v) 0 (take len data)\<rparr>)
         | FT_CMD_TX_DC \<Rightarrow> Some (v\<lparr>ft_tx_dcoffset := word\<rparr>)
         | FT_CMD_RX_DC \<Rightarrow> Some (v\<lparr>ft_rx_dcoffset := word\<rparr>)
         | FT_CMD_TX_IQ_GAIN \<Rightarrow> Some (v\<lparr>ft_tx_iq_gain := word\<rparr>)
         | FT_CMD_RX_IQ_GAIN \<Rightarrow> Some (v\<lparr>ft_rx_iq_gain := word\<rparr>)
         | FT_CMD_TX_IQ_PHASE \<Rightarrow> Some (v\<lparr>ft_tx_iq_phase := word\<rparr>)
         | FT_CMD_RX_IQ_PHASE \<Rightarrow> Some (v\<lparr>ft_rx_iq_phase := word\<rparr>)
         | FT_CMD_TX_GAIN \<Rightarrow>
             Some (v\<lparr>ft_tx_gain := overlay (ft_tx_gain v) 0 (take (if len \<ge> FT_GAIN_LEN then FT_GAIN_LEN else len) data)\<rparr>)
         | FT_CMD_ALL \<Rightarrow> None)"

text \<open>The checksums, the one of the extension first.\<close>

definition ft_seal :: "env \<Rightarrow> ft_ver \<Rightarrow> ft_ver" where
  "ft_seal env v =
     (let v = v\<lparr>ft_ext_checksum := wm_drv_crc32_reverse env (take (ft_ext_len v) (ft_ext_bytes v))\<rparr>;
          v = v\<lparr>ft_magic := FT_PARAM_SIGNATURE_WORD\<rparr>
      in v\<lparr>ft_checksum := wm_drv_crc32_reverse env (ft_body v)\<rparr>)"

text \<open>Write one copy and read it back; the check of the code of \<open>ft_param_init\<close> is as in the
  source, where 0 is not one of its results.\<close>

definition ft_store :: "env \<Rightarrow> ft_io \<Rightarrow> nat \<Rightarrow> ft_ver \<Rightarrow> bool \<times> ft_io" where
  "ft_store env io addr v =
     (let io = ft_write env io addr v
      in case ft_param_init env (fst io) addr of
           (ret, pft) \<Rightarrow> (\<not> (ret = 0 \<or> \<not> ft_same pft v), io))"

text \<open>The body of \<open>wm_ft_param_set\<close>, with the log of its writes.\<close>

definition ft_set_run ::
  "env \<Rightarrow> ft_io \<Rightarrow> ft_state \<Rightarrow> ft_cmd \<Rightarrow> bytes option \<Rightarrow> nat \<Rightarrow> int \<times> ft_io \<times> ft_state" where
  "ft_set_run env io s opnum data len =
     (case data of
        None \<Rightarrow> (WM_ERR_FAILED, io, s)
      | Some d \<Rightarrow>
          if len = 0 \<or> \<not> alloc_ok env FT_VER_SIZE then (WM_ERR_FAILED, io, s)
          else case ft_sync env io s of
            (go, io) \<Rightarrow>
              if \<not> go then (WM_ERR_FAILED, io, s)
              else
                let v = ft_make_ext (ft_ram s)
                in case ft_put opnum d len v of
                     None \<Rightarrow> (WM_ERR_FAILED, io, s\<lparr>ft_ram := v\<rparr>)
                   | Some v \<Rightarrow>
                       let v = ft_seal env v; s = s\<lparr>ft_ram := v\<rparr>
                       in case ft_store env io (ft_addr_1 s) v of
                            (go, io) \<Rightarrow>
                              if \<not> go then (WM_ERR_FAILED, io, s)
                              else case ft_store env io (ft_addr_0 s) v of
                                     (go, io) \<Rightarrow> (if \<not> go then WM_ERR_FAILED else WM_ERR_SUCCESS, io, s))"

definition wm_ft_param_set ::
  "env \<Rightarrow> flash_dev option \<Rightarrow> ft_state \<Rightarrow> ft_cmd \<Rightarrow> bytes option \<Rightarrow> nat \<Rightarrow> int \<times> flash_dev option \<times> ft_state" where
  "wm_ft_param_set env dev s opnum data len =
     (case ft_set_run env (dev, []) s opnum data len of (ret, io, s) \<Rightarrow> (ret, fst io, s))"

text \<open>The flash writes of a call, in their order.\<close>

definition ft_set_writes ::
  "env \<Rightarrow> flash_dev option \<Rightarrow> ft_state \<Rightarrow> ft_cmd \<Rightarrow> bytes option \<Rightarrow> nat \<Rightarrow> (nat \<times> flash_dev option) list" where
  "ft_set_writes env dev s opnum data len =
     (case ft_set_run env (dev, []) s opnum data len of (ret, io, s) \<Rightarrow> snd io)"

section \<open>Initialisation\<close>

text \<open>All ones in every field.\<close>

definition ft_blank :: ft_ver where
  "ft_blank = ft_ver_of_bytes (replicate FT_VER_SIZE 0xFF)"

text \<open>\<open>None\<close> as a whole is a lookup of the partition that does not return.\<close>

definition wm_ft_param_init ::
  "env \<Rightarrow> flash_dev option \<Rightarrow> part_table \<Rightarrow> ft_state \<Rightarrow> (int \<times> ft_state) option" where
  "wm_ft_param_init env dev g s =
     (if ft_magic (ft_ram s) = FT_PARAM_SIGNATURE_WORD then Some (WM_ERR_SUCCESS, s)
      else if fst (wm_drv_flash_get_device_info dev) \<noteq> 0 then Some (WM_ERR_FAILED, s)
      else case wm_partition_table_find env dev g (Some [0x66, 0x74]) of
             None \<Rightarrow> None
           | Some (ret, it) \<Rightarrow>
               (case (ret, it) of
                  (r, Some part) \<Rightarrow>
                    if r \<noteq> 0 then Some (WM_ERR_FAILED, s)
                    else Some (wm_ft_param_reset_internal_data env dev
                           (s\<lparr>ft_addr_0 := pi_offset part, ft_addr_1 := u32 (pi_offset part + 0x1000),
                              ft_ram := ft_blank\<rparr>))
                | (r, None) \<Rightarrow> Some (WM_ERR_FAILED, s)))"

section \<open>The public functions\<close>

definition wm_ft_get_mac_addr where "wm_ft_get_mac_addr env dev s mac = wm_ft_param_get env dev s FT_CMD_WIFI_MAC mac 6"

definition wm_ft_set_mac_addr where "wm_ft_set_mac_addr env dev s mac = wm_ft_param_set env dev s FT_CMD_WIFI_MAC mac 6"

definition wm_ft_get_bt_mac_addr where "wm_ft_get_bt_mac_addr env dev s mac = wm_ft_param_get env dev s FT_CMD_BT_MAC mac 6"

definition wm_ft_set_bt_mac_addr where "wm_ft_set_bt_mac_addr env dev s mac = wm_ft_param_set env dev s FT_CMD_BT_MAC mac 6"

definition wm_ft_get_tx_lo where "wm_ft_get_tx_lo env dev s txlo = wm_ft_param_get env dev s FT_CMD_TX_DC txlo 4"

definition wm_ft_set_tx_lo where "wm_ft_set_tx_lo env dev s txlo = wm_ft_param_set env dev s FT_CMD_TX_DC txlo 4"

definition wm_ft_get_tx_iq_gain where
  "wm_ft_get_tx_iq_gain env dev s gain = wm_ft_param_get env dev s FT_CMD_TX_IQ_GAIN gain 4"

definition wm_ft_set_tx_iq_gain where
  "wm_ft_set_tx_iq_gain env dev s gain = wm_ft_param_set env dev s FT_CMD_TX_IQ_GAIN gain 4"

definition wm_ft_get_rx_iq_gain where
  "wm_ft_get_rx_iq_gain env dev s gain = wm_ft_param_get env dev s FT_CMD_RX_IQ_GAIN gain 4"

definition wm_ft_set_rx_iq_gain where
  "wm_ft_set_rx_iq_gain env dev s gain = wm_ft_param_set env dev s FT_CMD_RX_IQ_GAIN gain 4"

definition wm_ft_get_tx_iq_phase where
  "wm_ft_get_tx_iq_phase env dev s phase = wm_ft_param_get env dev s FT_CMD_TX_IQ_PHASE phase 4"

definition wm_ft_set_tx_iq_phase where
  "wm_ft_set_tx_iq_phase env dev s phase = wm_ft_param_set env dev s FT_CMD_TX_IQ_PHASE phase 4"

definition wm_ft_get_rx_iq_phase where
  "wm_ft_get_rx_iq_phase env dev s phase = wm_ft_param_get env dev s FT_CMD_RX_IQ_PHASE phase 4"

definition wm_ft_set_rx_iq_phase where
  "wm_ft_set_rx_iq_phase env dev s phase = wm_ft_param_set env dev s FT_CMD_RX_IQ_PHASE phase 4"

definition wm_ft_get_tx_gain where
  "wm_ft_get_tx_gain env dev s gain = wm_ft_param_get env dev s FT_CMD_TX_GAIN gain 84"

definition wm_ft_set_tx_gain where
  "wm_ft_set_tx_gain env dev s gain = wm_ft_param_set env dev s FT_CMD_TX_GAIN gain 84"

definition wm_ft_get_adc_cal_param where
  "wm_ft_get_adc_cal_param env dev s cal = wm_ft_param_get env dev s FT_CMD_TX_ADC_CAL cal FT_ADC_CAL_SIZE"

definition wm_ft_set_adc_cal_param where
  "wm_ft_set_adc_cal_param env dev s cal = wm_ft_param_set env dev s FT_CMD_TX_ADC_CAL cal FT_ADC_CAL_SIZE"

text \<open>The frequency error is a signed 32-bit number; a get keeps it inside 200 kHz.\<close>

definition int32_of :: "bytes \<Rightarrow> int" where
  "int32_of bs = (let n = int (le_nat (take 4 bs)) in if n \<ge> 2 ^ 31 then n - 2 ^ 32 else n)"

definition int32_bytes :: "int \<Rightarrow> bytes" where
  "int32_bytes i = le_bytes 4 (nat (i mod 2 ^ 32))"

definition ft_freq_limit :: "bytes \<Rightarrow> bytes" where
  "ft_freq_limit freqerr =
     (let value = int32_of freqerr
      in if value > 200000 then overlay freqerr 0 (int32_bytes 200000)
         else if value < - 200000 then overlay freqerr 0 (int32_bytes (- 200000))
         else freqerr)"

text \<open>With the flag set the buffer is written, otherwise filled; the result is normalised.\<close>

definition wm_ft_freq_err_op ::
  "env \<Rightarrow> flash_dev option \<Rightarrow> ft_state \<Rightarrow> bytes \<Rightarrow> nat \<Rightarrow> int \<times> flash_dev option \<times> ft_state \<times> bytes" where
  "wm_ft_freq_err_op env dev s freqerr flag =
     (if flag \<noteq> 0 then
        case wm_ft_param_set env dev s FT_CMD_FREQ_ERR (Some freqerr) 4 of
          (ret, dev, s) \<Rightarrow> (if ret = 0 then WM_ERR_SUCCESS else WM_ERR_FAILED, dev, s, freqerr)
      else
        case wm_ft_param_get env dev s FT_CMD_FREQ_ERR freqerr 4 of
          (ret, buf) \<Rightarrow>
            if ret = 0 then (WM_ERR_SUCCESS, dev, s, ft_freq_limit buf) else (WM_ERR_FAILED, dev, s, buf))"

definition wm_ft_rf_cal_finish_op ::
  "env \<Rightarrow> flash_dev option \<Rightarrow> ft_state \<Rightarrow> bytes \<Rightarrow> nat \<Rightarrow> int \<times> flash_dev option \<times> ft_state \<times> bytes" where
  "wm_ft_rf_cal_finish_op env dev s calflag flag =
     (if flag \<noteq> 0 then
        case wm_ft_param_set env dev s FT_CMD_RF_CAL_FLAG (Some calflag) 4 of
          (ret, dev, s) \<Rightarrow> (if ret = 0 then WM_ERR_SUCCESS else WM_ERR_FAILED, dev, s, calflag)
      else
        case wm_ft_param_get env dev s FT_CMD_RF_CAL_FLAG calflag 4 of
          (ret, buf) \<Rightarrow> (if ret = 0 then WM_ERR_SUCCESS else WM_ERR_FAILED, dev, s, buf))"

end
