(* ===== verification/FtParamSpec.thy ===== *)
theory FtParamSpec
  imports FtParam
begin

text \<open>
  The image of the factory parameters is read back as it was written, a sealed image passes the
  check of a copy, and a set brings both copies to the new values, one after the other.
\<close>

section \<open>Images\<close>

definition ft_wf :: "ft_ver \<Rightarrow> bool" where
  "ft_wf v \<longleftrightarrow> ft_magic v < 2 ^ 32 \<and> length (ft_wifi_mac v) = 6 \<and> ft_version v < 2 ^ 16 \<and> length (ft_bt_mac v) = 6 \<and>
     ft_ext_len v < 2 ^ 16 \<and> ft_tx_dcoffset v < 2 ^ 32 \<and> ft_rx_dcoffset v < 2 ^ 32 \<and> ft_tx_iq_gain v < 2 ^ 32 \<and>
     ft_rx_iq_gain v < 2 ^ 32 \<and> ft_tx_iq_phase v < 2 ^ 32 \<and> ft_rx_iq_phase v < 2 ^ 32 \<and> length (ft_tx_gain v) = 84 \<and>
     ft_freq_err v < 2 ^ 32 \<and> ft_cal_flag v < 2 ^ 32 \<and> length (ft_adc_cal v) = 36 \<and> length (ft_temp_cal v) = 8 \<and>
     length (ft_reversed v) = 32"

lemma length_ft_ver_bytes [simp]: "ft_wf v \<Longrightarrow> length (ft_ver_bytes v) = 220"
  by (simp add: ft_wf_def ft_ver_bytes_def ft_body_def ft_ext_bytes_def)

lemma le_nat_bytes: "x < 256 ^ n \<Longrightarrow> le_nat (le_bytes n x) = x"
  by (simp add: le_nat_le_bytes)

lemma ft_roundtrip: "ft_wf v \<Longrightarrow> ft_ver_of_bytes (ft_ver_bytes v) = v"
  by (cases v) (simp add: ft_wf_def ft_ver_bytes_def ft_ver_of_bytes_def ft_body_def ft_ext_bytes_def le_nat_le_bytes)

lemma le_nat_take_lt: "le_nat (take n bs) < 256 ^ n"
proof -
  have "le_nat (take n bs) < 256 ^ length (take n bs)" by (rule le_nat_lt)
  also have "\<dots> \<le> 256 ^ n" by (rule power_increasing) simp_all
  finally show ?thesis .
qed

lemma ft_of_bytes_wf: "length bs = 220 \<Longrightarrow> ft_wf (ft_ver_of_bytes bs)"
  using le_nat_take_lt [of 4] le_nat_take_lt [of 2] by (simp add: ft_wf_def ft_ver_of_bytes_def)

lemma ft_same_iff: "ft_wf a \<Longrightarrow> ft_wf b \<Longrightarrow> ft_same a b \<longleftrightarrow> a = b"
  unfolding ft_same_def by (metis ft_roundtrip)

section \<open>The check of an image\<close>

text \<open>An image with extension whose checksums are right.\<close>

definition ft_sealed :: "env \<Rightarrow> ft_ver \<Rightarrow> bool" where
  "ft_sealed env v \<longleftrightarrow> ft_wf v \<and> ft_magic v = FT_PARAM_SIGNATURE_WORD \<and> ft_ext_valid v \<and>
     ft_checksum v = wm_drv_crc32_reverse env (ft_body v) \<and>
     ft_ext_checksum v = wm_drv_crc32_reverse env (take (ft_ext_len v) (ft_ext_bytes v))"

lemma ft_seal_sealed: "ft_wf v \<Longrightarrow> ft_ext_valid v \<Longrightarrow> ft_sealed env (ft_seal env v)"
  by (simp add: ft_sealed_def ft_seal_def ft_wf_def ft_ext_valid_def ft_body_def ft_ext_bytes_def Let_def)

lemma ft_make_ext_wf: "ft_wf v \<Longrightarrow> ft_wf (ft_make_ext v)" and ft_make_ext_valid: "ft_ext_valid (ft_make_ext v)"
  by (simp_all add: ft_make_ext_def ft_wf_def ft_ext_valid_def)

text \<open>The caller's data has the size the command stands for.\<close>

definition ft_data_ok :: "ft_cmd \<Rightarrow> bytes \<Rightarrow> nat \<Rightarrow> bool" where
  "ft_data_ok opnum d len \<longleftrightarrow> len \<le> length d \<and>
     (case opnum of FT_CMD_WIFI_MAC \<Rightarrow> len = 6 | FT_CMD_BT_MAC \<Rightarrow> len = 6 | FT_CMD_TX_GAIN \<Rightarrow> len = 84
      | FT_CMD_TX_ADC_CAL \<Rightarrow> len = 36 | FT_CMD_ALL \<Rightarrow> False | _ \<Rightarrow> len = 4)"

lemma ft_put_ok:
  assumes "ft_data_ok opnum d len" and "ft_wf v" and "ft_ext_valid v"
  shows "\<exists>w. ft_put opnum d len v = Some w \<and> ft_wf w \<and> ft_ext_valid w"
  using assms le_nat_take_lt [of 4 d]
  by (cases opnum) (simp_all add: ft_data_ok_def ft_put_def ft_wf_def ft_ext_valid_def Let_def)

section \<open>The copies on flash\<close>

text \<open>The device, and two disjoint places for the copies on it, a sector each.\<close>

definition ft_dev_ok :: "env \<Rightarrow> flash_dev \<Rightarrow> ft_state \<Rightarrow> bool" where
  "ft_dev_ok env dev s \<longleftrightarrow> flash_geom dev \<and> nor_cells env \<and> heap_ok env \<and>
     ft_addr_0 s + 4096 \<le> ft_addr_1 s \<and> ft_addr_1 s + 4096 \<le> fd_size dev"

definition ft_copy :: "flash_dev \<Rightarrow> nat \<Rightarrow> ft_ver" where
  "ft_copy dev a = ft_ver_of_bytes (mem_slice (fd_mem dev) a FT_VER_SIZE)"

lemma ft_copy_wf [simp]: "ft_wf (ft_copy dev a)"
  by (simp add: ft_copy_def ft_of_bytes_wf)

lemma ft_read_spec:
  assumes "ft_dev_ok env dev s" and "a = ft_addr_0 s \<or> a = ft_addr_1 s"
  shows "ft_read env (Some dev) a = ft_copy dev a"
proof -
  have "wm_drv_internal_flash_read env dev a (replicate 220 0xFF) 220 =
      (WM_ERR_SUCCESS, overlay (replicate 220 0xFF) 0 (mem_slice (fd_mem dev) a 220))"
    by (rule wm_drv_internal_flash_read_spec) (use assms in \<open>auto simp: ft_dev_ok_def\<close>)
  then show ?thesis by (simp add: ft_read_def wm_drv_flash_read_def ft_copy_def overlay_all)
qed

text \<open>The check depends on the image alone.\<close>

definition ft_check :: "env \<Rightarrow> ft_ver \<Rightarrow> int \<times> ft_ver" where
  "ft_check env v =
     (if ft_magic v = FT_PARAM_SIGNATURE_WORD \<and> ft_checksum v = wm_drv_crc32_reverse env (ft_body v) then
        if \<not> ft_ext_valid v then (2, v\<lparr>ft_version := 0xFFFF, ft_ext_len := 0xFFFF\<rparr>)
        else if ft_ext_checksum v = wm_drv_crc32_reverse env (take (ft_ext_len v) (ft_ext_bytes v)) then (1, v)
        else (WM_ERR_FAILED, v)
      else (WM_ERR_FAILED, v))"

lemma ft_param_init_spec:
  assumes "ft_dev_ok env dev s" and "a = ft_addr_0 s \<or> a = ft_addr_1 s"
  shows "ft_param_init env (Some dev) a = ft_check env (ft_copy dev a)"
  using ft_read_spec [OF assms] by (auto simp: ft_param_init_def ft_check_def Let_def)

lemma ft_check_sealed: "ft_sealed env v \<Longrightarrow> ft_check env v = (1, v)"
  by (simp add: ft_check_def ft_sealed_def)

lemma ft_check_one: "ft_wf v \<Longrightarrow> ft_check env v = (1, w) \<longleftrightarrow> ft_sealed env v \<and> w = v"
  by (auto simp: ft_check_def ft_sealed_def split: if_splits)

definition ft_put_copy :: "flash_dev \<Rightarrow> nat \<Rightarrow> ft_ver \<Rightarrow> flash_dev" where
  "ft_put_copy dev a v = dev\<lparr>fd_mem := splice (fd_mem dev) a (ft_ver_bytes v)\<rparr>"

lemma ft_write_spec:
  assumes "ft_dev_ok env dev s" and "a = ft_addr_0 s \<or> a = ft_addr_1 s" and "ft_wf v"
  shows "ft_write env (Some dev, log) a v = (Some (ft_put_copy dev a v), log @ [(a, Some dev)])"
proof -
  have fit: "a + 220 \<le> fd_size dev" and g: "flash_geom dev" and fd: "fd_drv dev" and fs: "fd_size dev \<le> 0x2000000"
    using assms by (auto simp: ft_dev_ok_def flash_geom_def)
  have "iflash_erase_write_body env dev a (ft_ver_bytes v) 220 = (WM_ERR_SUCCESS, ft_put_copy dev a v)"
    using iflash_erase_write_body_spec [OF g, of env 220 "ft_ver_bytes v" a] assms fit
    by (simp add: ft_dev_ok_def ft_put_copy_def)
  then show ?thesis using fd fs fit
    by (simp add: ft_write_def wm_drv_iflash_wr_with_erase_private_def)
qed

lemma ft_dev_ok_put [simp]: "ft_dev_ok env (ft_put_copy dev a v) s = ft_dev_ok env dev s"
  by (simp add: ft_dev_ok_def ft_put_copy_def)

lemma ft_copy_put:
  assumes "ft_wf v"
  shows "ft_copy (ft_put_copy dev a v) a = v"
    and "b + 220 \<le> a \<or> a + 220 \<le> b \<Longrightarrow> ft_copy (ft_put_copy dev a v) b = ft_copy dev b"
proof -
  have "mem_slice (splice (fd_mem dev) a (ft_ver_bytes v)) a (length (ft_ver_bytes v)) = ft_ver_bytes v"
    by (rule mem_slice_splice)
  with assms show "ft_copy (ft_put_copy dev a v) a = v"
    by (simp add: ft_copy_def ft_put_copy_def ft_roundtrip)
  assume "b + 220 \<le> a \<or> a + 220 \<le> b"
  then have "mem_slice (splice (fd_mem dev) a (ft_ver_bytes v)) b 220 = mem_slice (fd_mem dev) b 220"
    using assms by (auto simp: mem_slice_def splice_def)
  then show "ft_copy (ft_put_copy dev a v) b = ft_copy dev b"
    by (simp add: ft_copy_def ft_put_copy_def)
qed

lemma ft_store_spec:
  assumes ok: "ft_dev_ok env dev s" and a: "a = ft_addr_0 s \<or> a = ft_addr_1 s" and v: "ft_sealed env v"
  shows "ft_store env (Some dev, log) a v =
    (True, Some (ft_put_copy dev a v), log @ [(a, Some dev)])"
proof -
  have wf: "ft_wf v" using v by (simp add: ft_sealed_def)
  have ok': "ft_dev_ok env (ft_put_copy dev a v) s" using ok by simp
  show ?thesis
    using ft_write_spec [OF ok a wf] ft_param_init_spec [OF ok' a] ft_check_sealed [OF v] ft_copy_put(1) [OF wf]
    by (simp add: ft_store_def ft_same_def)
qed

section \<open>Loading\<close>

lemma ft_load_spec:
  assumes ok: "ft_dev_ok env dev s"
  shows "wm_ft_param_reset_internal_data env (Some dev) s =
    (WM_ERR_SUCCESS, case ft_check env (ft_copy dev (ft_addr_0 s)) of
       (r, v) \<Rightarrow> if r = 1 then s\<lparr>ft_ram := v\<rparr>
         else if r = 2 then s\<lparr>ft_ram := ft_copy_plain v (ft_ram s)\<rparr>
         else (case ft_check env (ft_copy dev (ft_addr_1 s)) of
            (r, v) \<Rightarrow> if r = 1 then s\<lparr>ft_ram := v\<rparr>
              else if r = 2 then s\<lparr>ft_ram := ft_copy_plain v (ft_ram s)\<rparr> else s))"
  using ok ft_param_init_spec [OF ok disjI1 [OF refl]] ft_param_init_spec [OF ok disjI2 [OF refl]]
  by (auto simp: wm_ft_param_reset_internal_data_def ft_dev_ok_def Let_def ft_check_def)

section \<open>Setting\<close>

lemma ft_sync_spec:
  assumes ok: "ft_dev_ok env dev s"
    and ram: "ft_sealed env (ft_ram s) \<or> fst (ft_check env (ft_copy dev (ft_addr_0 s))) = WM_ERR_FAILED"
  shows "ft_sync env (Some dev, log) s =
    (True, if ft_sync_needed env (Some dev) s
           then (Some (ft_put_copy dev (ft_addr_1 s) (ft_ram s)), log @ [(ft_addr_1 s, Some dev)])
           else (Some dev, log))"
proof (cases "ft_sync_needed env (Some dev) s")
  case True
  have i0: "ft_param_init env (Some dev) (ft_addr_0 s) = ft_check env (ft_copy dev (ft_addr_0 s))"
    by (rule ft_param_init_spec [OF ok]) simp
  have v: "ft_sealed env (ft_ram s)" using ram True i0 by (auto simp: ft_sync_needed_def)
  then have wf: "ft_wf (ft_ram s)" by (simp add: ft_sealed_def)
  have ok': "ft_dev_ok env (ft_put_copy dev (ft_addr_1 s) (ft_ram s)) s" using ok by simp
  show ?thesis
    using True ft_write_spec [OF ok disjI2 [OF refl] wf] ft_param_init_spec [OF ok' disjI2 [OF refl]]
      ft_check_sealed [OF v] ft_copy_put(1) [OF wf]
    by (simp add: ft_sync_def ft_same_def)
qed (simp add: ft_sync_def)

text \<open>The values a set brings to flash and RAM.\<close>

definition ft_new :: "env \<Rightarrow> ft_cmd \<Rightarrow> bytes \<Rightarrow> nat \<Rightarrow> ft_ver \<Rightarrow> ft_ver" where
  "ft_new env opnum d len ram = ft_seal env (the (ft_put opnum d len (ft_make_ext ram)))"

lemma ft_new_sealed:
  assumes "ft_data_ok opnum d len" and "ft_wf ram"
  shows "ft_sealed env (ft_new env opnum d len ram)"
  using ft_put_ok [OF assms(1) ft_make_ext_wf [OF assms(2)] ft_make_ext_valid] ft_seal_sealed [of _ env]
  by (auto simp: ft_new_def)

text \<open>A set writes, in this order: RAM as it was to copy 1, when that is needed, the new values to
  copy 1, the new values to copy 0.\<close>

lemma ft_set_run_spec:
  assumes ok: "ft_dev_ok env dev s" and wf: "ft_wf (ft_ram s)"
    and ram: "ft_sealed env (ft_ram s) \<or> fst (ft_check env (ft_copy dev (ft_addr_0 s))) = WM_ERR_FAILED"
    and d: "ft_data_ok opnum d len"
  defines "v \<equiv> ft_new env opnum d len (ft_ram s)" and "need \<equiv> ft_sync_needed env (Some dev) s"
  defines "d1 \<equiv> if need then ft_put_copy dev (ft_addr_1 s) (ft_ram s) else dev"
  shows "ft_set_run env (Some dev, []) s opnum (Some d) len =
    (WM_ERR_SUCCESS,
     (Some (ft_put_copy (ft_put_copy d1 (ft_addr_1 s) v) (ft_addr_0 s) v),
      (if need then [(ft_addr_1 s, Some dev)] else []) @
        [(ft_addr_1 s, Some d1), (ft_addr_0 s, Some (ft_put_copy d1 (ft_addr_1 s) v))]),
     s\<lparr>ft_ram := v\<rparr>)"
proof -
  obtain w where w: "ft_put opnum d len (ft_make_ext (ft_ram s)) = Some w"
    using ft_put_ok [OF d ft_make_ext_wf [OF wf] ft_make_ext_valid] by blast
  have vw: "v = ft_seal env w" by (simp add: v_def ft_new_def w)
  have sv: "ft_sealed env v" unfolding v_def by (rule ft_new_sealed [OF d wf])
  have ok1: "ft_dev_ok env d1 s" using ok by (simp add: d1_def)
  have ok2: "ft_dev_ok env (ft_put_copy d1 (ft_addr_1 s) v) s" using ok1 by simp
  have "0 < len" "alloc_ok env 220" using d ok by (auto simp: ft_data_ok_def ft_dev_ok_def split: ft_cmd.splits)
  moreover have "ft_sync env (Some dev, []) s =
      (True, Some d1, if need then [(ft_addr_1 s, Some dev)] else [])"
    using ft_sync_spec [OF ok ram] by (simp add: d1_def need_def)
  ultimately show ?thesis
    using w vw ft_store_spec [OF ok1 disjI2 [OF refl] sv] ft_store_spec [OF ok2 disjI1 [OF refl] sv]
    by (simp add: ft_set_run_def Let_def)
qed

lemma wm_ft_param_set_spec:
  assumes ok: "ft_dev_ok env dev s" and wf: "ft_wf (ft_ram s)"
    and ram: "ft_sealed env (ft_ram s) \<or> fst (ft_check env (ft_copy dev (ft_addr_0 s))) = WM_ERR_FAILED"
    and d: "ft_data_ok opnum d len"
  defines "v \<equiv> ft_new env opnum d len (ft_ram s)"
  shows "\<exists>d1. ft_dev_ok env d1 s \<and> wm_ft_param_set env (Some dev) s opnum (Some d) len =
      (WM_ERR_SUCCESS, Some (ft_put_copy (ft_put_copy d1 (ft_addr_1 s) v) (ft_addr_0 s) v), s\<lparr>ft_ram := v\<rparr>)"
  using ft_set_run_spec [OF ok wf ram d] ok unfolding v_def
  by (intro exI [of _ "if ft_sync_needed env (Some dev) s then ft_put_copy dev (ft_addr_1 s) (ft_ram s) else dev"])
    (simp add: wm_ft_param_set_def)

end
