(* ===== verification/FtProps.thy ===== *)
theory FtProps
  imports FtParamSpec Demo
begin

text \<open>
  Properties of the factory parameters: a set lasts, a power loss during a set leaves the old or
  the new values as long as both copies were good, and what happens when copy 0 is damaged.
\<close>

section \<open>A set lasts\<close>

definition ft_with_ram :: "ft_ver \<Rightarrow> ft_state \<Rightarrow> ft_state" where
  "ft_with_ram v s = s\<lparr>ft_ram := v\<rparr>"

definition same_places :: "ft_state \<Rightarrow> ft_state \<Rightarrow> bool" where
  "same_places s s' \<longleftrightarrow> ft_addr_0 s' = ft_addr_0 s \<and> ft_addr_1 s' = ft_addr_1 s"

lemma ft_dev_ok_places: "same_places s s' \<Longrightarrow> ft_dev_ok env dev s \<Longrightarrow> ft_dev_ok env dev s'"
  by (simp add: ft_dev_ok_def same_places_def)

lemma ft_load_first:
  assumes ok: "ft_dev_ok env dev s" and p: "same_places s s0"
    and c: "ft_check env (ft_copy dev (ft_addr_0 s)) = (1, v) \<or>
      fst (ft_check env (ft_copy dev (ft_addr_0 s))) = WM_ERR_FAILED \<and> ft_check env (ft_copy dev (ft_addr_1 s)) = (1, v)"
  shows "wm_ft_param_reset_internal_data env (Some dev) s0 = (WM_ERR_SUCCESS, ft_with_ram v s0)"
proof -
  have a: "ft_addr_0 s0 = ft_addr_0 s" "ft_addr_1 s0 = ft_addr_1 s" using p by (auto simp: same_places_def)
  show ?thesis using c unfolding ft_load_spec [OF ft_dev_ok_places [OF p ok]] a ft_with_ram_def
    by (cases "ft_check env (ft_copy dev (ft_addr_0 s))") auto
qed

lemma ft_get_new:
  assumes d: "ft_data_ok opnum d len" and wf: "ft_wf ram" and b: "len \<le> length buf"
  shows "wm_ft_param_get env dev (s\<lparr>ft_ram := ft_new env opnum d len ram\<rparr>) opnum buf len =
    (WM_ERR_SUCCESS, overlay buf 0 (take len d))"
proof -
  have l4: "le_bytes 4 (le_nat (take 4 d)) = take 4 d" if "4 \<le> length d"
    using that le_bytes_le_nat [of "take 4 d"] by simp
  have wf': "ft_wf (ft_make_ext ram)" by (rule ft_make_ext_wf [OF wf])
  have e: "ft_ext_valid (ft_new env opnum d len ram)"
    using ft_new_sealed [OF d wf, of env] by (simp add: ft_sealed_def)
  show ?thesis using d l4 wf' e
    by (cases opnum) (simp_all add: ft_data_ok_def wm_ft_param_get_def ft_out_def ft_new_def ft_seal_def ft_put_def
        ft_wf_def Let_def overlay_def)
qed

text \<open>C33. A set lasts. With room for the two copies, and RAM holding sealed values or copy 0
  unreadable, a set of a parameter with data of its size succeeds; a get of the parameter then
  returns the data, and every later load of the two copies brings the same values to RAM.\<close>

theorem ft_set_durable:
  assumes ok: "ft_dev_ok env dev s" and wf: "ft_wf (ft_ram s)"
    and ram: "ft_sealed env (ft_ram s) \<or> fst (ft_check env (ft_copy dev (ft_addr_0 s))) = WM_ERR_FAILED"
    and d: "ft_data_ok opnum d len" and b: "len \<le> length buf"
  shows "\<exists>dev' v. wm_ft_param_set env (Some dev) s opnum (Some d) len = (WM_ERR_SUCCESS, Some dev', ft_with_ram v s) \<and>
    wm_ft_param_get env (Some dev') (ft_with_ram v s) opnum buf len = (WM_ERR_SUCCESS, overlay buf 0 (take len d)) \<and>
    (\<forall>s0. same_places s s0 \<longrightarrow>
      wm_ft_param_reset_internal_data env (Some dev') s0 = (WM_ERR_SUCCESS, ft_with_ram v s0))"
proof -
  let ?v = "ft_new env opnum d len (ft_ram s)"
  obtain d1 where r: "ft_dev_ok env d1 s" "wm_ft_param_set env (Some dev) s opnum (Some d) len =
      (WM_ERR_SUCCESS, Some (ft_put_copy (ft_put_copy d1 (ft_addr_1 s) ?v) (ft_addr_0 s) ?v), s\<lparr>ft_ram := ?v\<rparr>)"
    using wm_ft_param_set_spec [OF ok wf ram d] by blast
  let ?dev = "ft_put_copy (ft_put_copy d1 (ft_addr_1 s) ?v) (ft_addr_0 s) ?v"
  have sv: "ft_sealed env ?v" by (rule ft_new_sealed [OF d wf])
  then have "ft_check env (ft_copy ?dev (ft_addr_0 s)) = (1, ?v)"
    using ft_copy_put(1) [of ?v] ft_check_sealed [OF sv] by (simp add: ft_sealed_def)
  then have "wm_ft_param_reset_internal_data env (Some ?dev) s0 = (WM_ERR_SUCCESS, ft_with_ram ?v s0)"
    if "same_places s s0" for s0
    using ft_load_first [of env ?dev s s0 ?v] r(1) that by simp
  then show ?thesis using r(2) ft_get_new [OF d wf b, of env "Some ?dev" s]
    by (intro exI [of _ ?dev] exI [of _ ?v]) (simp add: ft_with_ram_def)
qed

text \<open>A blank chip with the copies at its start, and the values of \<open>wm_ft_param_init\<close> on it.\<close>

definition demo_ft :: ft_state where
  "demo_ft = \<lparr>ft_ram = ft_blank, ft_addr_0 = 0, ft_addr_1 = 0x1000\<rparr>"

definition demo_mac :: bytes where "demo_mac = [0x28, 0x6D, 0xCD, 1, 2, 3]"

lemma demo_ft_ok [simp]: "ft_dev_ok demo_env demo_dev demo_ft" "ft_wf (ft_ram demo_ft)"
  by (simp_all add: ft_dev_ok_def demo_ft_def ft_blank_def ft_of_bytes_wf)

lemma mem_slice_ff: "mem_slice (\<lambda>_. 0xFF) a n = replicate n 0xFF"
  by (simp add: mem_slice_def map_replicate_const)

lemma ft_check_ff: "fst (ft_check env (ft_ver_of_bytes (replicate 220 0xFF))) = WM_ERR_FAILED"
proof -
  have "replicate 4 (0xFF :: u8) = [0xFF, 0xFF, 0xFF, 0xFF]" by (simp add: numeral_eq_Suc)
  moreover have "unat (0xFF :: u8) = 255" by (simp add: One_nat_def)
  ultimately have "ft_magic (ft_ver_of_bytes (replicate 220 0xFF)) = 0xFFFFFFFF" by (simp add: ft_ver_of_bytes_def del: unat_numeral)
  then show ?thesis by (simp add: ft_check_def)
qed

lemma demo_mac_ok [simp]: "ft_data_ok FT_CMD_WIFI_MAC demo_mac 6"
  by (simp add: ft_data_ok_def demo_mac_def)

theorem ft_set_durable_witness:
  "\<exists>dev' v. wm_ft_param_set demo_env (Some demo_dev) demo_ft FT_CMD_WIFI_MAC (Some demo_mac) 6 =
      (WM_ERR_SUCCESS, Some dev', ft_with_ram v demo_ft) \<and>
    wm_ft_param_get demo_env (Some dev') (ft_with_ram v demo_ft) FT_CMD_WIFI_MAC (replicate 6 0) 6 = (WM_ERR_SUCCESS, demo_mac)"
proof -
  have r: "fst (ft_check demo_env (ft_copy demo_dev (ft_addr_0 demo_ft))) = WM_ERR_FAILED"
    by (simp add: ft_copy_def mem_slice_ff ft_check_ff)
  have "overlay (replicate 6 0) 0 (take 6 demo_mac) = demo_mac" by (simp add: overlay_def demo_mac_def)
  then show ?thesis
    using ft_set_durable [OF demo_ft_ok disjI2 [OF r] demo_mac_ok, of "replicate 6 0"] by auto
qed

section \<open>Power loss during a set\<close>

text \<open>What a power loss during the write of a copy can leave: anything in the 4096 bytes from its
  address, the sector the driver erases and programs there.\<close>

definition torn :: "flash_dev \<Rightarrow> nat \<Rightarrow> flash_dev \<Rightarrow> bool" where
  "torn dev a dev' \<longleftrightarrow> (\<exists>m. dev' = dev\<lparr>fd_mem := m\<rparr> \<and> (\<forall>x. x < a \<or> a + 4096 \<le> x \<longrightarrow> m x = fd_mem dev x))"

lemma torn_other:
  assumes "torn dev a dev'" and "ft_dev_ok env dev s"
  shows "ft_dev_ok env dev' s" and "b + 220 \<le> a \<or> a + 4096 \<le> b \<Longrightarrow> ft_copy dev' b = ft_copy dev b"
proof -
  obtain m where m: "dev' = dev\<lparr>fd_mem := m\<rparr>" "\<forall>x. x < a \<or> a + 4096 \<le> x \<longrightarrow> m x = fd_mem dev x"
    using assms(1) by (auto simp: torn_def)
  show "ft_dev_ok env dev' s" using assms(2) m(1) by (simp add: ft_dev_ok_def)
  assume "b + 220 \<le> a \<or> a + 4096 \<le> b"
  then have "mem_slice m b 220 = mem_slice (fd_mem dev) b 220" using m(2) by (auto simp: mem_slice_def)
  then show "ft_copy dev' b = ft_copy dev b" by (simp add: ft_copy_def m(1))
qed

text \<open>C34. A set is atomic when copy 0 is intact and RAM is what it holds. A power loss during any
  write that \<open>wm_ft_param_set\<close> makes, with data of the size of the parameter, leaves copies from
  which the next load brings complete values: the old ones, or, once the call has come to
  copy 0, the old or the new ones. The power loss may leave anything in the sector being written,
  as long as the checksums reject a copy 0 that is neither the old nor the new one.\<close>

theorem ft_set_atomic:
  assumes ok: "ft_dev_ok env dev s" and c0: "ft_sealed env (ft_ram s)" "ft_copy dev (ft_addr_0 s) = ft_ram s"
    and d: "ft_data_ok opnum d len"
    and new: "wm_ft_param_set env (Some dev) s opnum (Some d) len = (r, dev1, s1)"
    and cut: "(a, Some d0) \<in> set (ft_set_writes env (Some dev) s opnum (Some d) len)" "torn d0 a dev'"
    and det: "ft_copy dev' (ft_addr_0 s) \<in> {ft_ram s, ft_ram s1} \<or>
      fst (ft_check env (ft_copy dev' (ft_addr_0 s))) = WM_ERR_FAILED"
    and p: "same_places s s0"
  shows "\<exists>w. wm_ft_param_reset_internal_data env (Some dev') s0 = (WM_ERR_SUCCESS, ft_with_ram w s0) \<and>
    (w = ft_ram s \<or> a = ft_addr_0 s \<and> w = ft_ram s1)"
proof -
  have pl: "ft_addr_0 s + 4096 \<le> ft_addr_1 s" using ok by (simp add: ft_dev_ok_def)
  have wf: "ft_wf (ft_ram s)" using c0 by (simp add: ft_sealed_def)
  define d1 where "d1 = (if ft_sync_needed env (Some dev) s then ft_put_copy dev (ft_addr_1 s) (ft_ram s) else dev)"
  define v where "v = ft_new env opnum d len (ft_ram s)"
  note run = ft_set_run_spec [OF ok wf disjI1 [OF c0(1)] d, folded d1_def v_def]
  have s1: "ft_ram s1 = v" using new by (auto simp: wm_ft_param_set_def run)
  have sv: "ft_sealed env v" unfolding v_def by (rule ft_new_sealed [OF d wf])
  have i1: "ft_dev_ok env d1 s" "ft_copy d1 (ft_addr_0 s) = ft_ram s"
    using ok c0(2) ft_copy_put(2) [OF wf] pl by (simp_all add: d1_def)
  have old: ?thesis if "ft_dev_ok env dev' s" "ft_copy dev' (ft_addr_0 s) = ft_ram s"
    using ft_load_first [OF that(1) p] that(2) ft_check_sealed [OF c0(1)] by auto
  consider (sync) "a = ft_addr_1 s" "d0 = dev" | (first) "a = ft_addr_1 s" "d0 = d1"
    | (second) "a = ft_addr_0 s" "d0 = ft_put_copy d1 (ft_addr_1 s) v"
    using cut(1) by (auto simp: ft_set_writes_def run split: if_splits)
  then show ?thesis
  proof cases
    case sync
    then show ?thesis using torn_other [of dev a dev' env s] cut(2) ok c0(2) pl by (intro old) auto
  next
    case first
    then show ?thesis using torn_other [of d1 a dev' env s] cut(2) i1 pl by (intro old) auto
  next
    case second
    have d2: "ft_dev_ok env d0 s" "ft_copy d0 (ft_addr_1 s) = v"
      using i1(1) ft_copy_put(1) sv unfolding second(2) by (simp_all add: ft_sealed_def)
    note t = torn_other [OF cut(2) d2(1)]
    have c1: "ft_check env (ft_copy dev' (ft_addr_1 s)) = (1, v)"
      using t(2) [of "ft_addr_1 s"] pl d2(2) ft_check_sealed [OF sv] second(1) by simp
    from det show ?thesis
    proof
      assume "ft_copy dev' (ft_addr_0 s) \<in> {ft_ram s, ft_ram s1}"
      then show ?thesis
        using ft_load_first [OF t(1) p] ft_check_sealed [OF sv] ft_check_sealed [OF c0(1)] second(1)
        unfolding s1 by auto
    next
      assume "fst (ft_check env (ft_copy dev' (ft_addr_0 s))) = WM_ERR_FAILED"
      then show ?thesis using ft_load_first [OF t(1) p] c1 second(1) unfolding s1 by auto
    qed
  qed
qed

text \<open>The state of \<open>demo_ft\<close> after one set, and the erased copy 0 of a second set.\<close>

definition demo_ftv :: ft_ver where "demo_ftv = ft_new demo_env FT_CMD_WIFI_MAC demo_mac 6 ft_blank"
definition demo_ftw :: ft_ver where "demo_ftw = ft_new demo_env FT_CMD_TX_DC demo_mac 4 demo_ftv"
definition demo_fts :: ft_state where "demo_fts = ft_with_ram demo_ftv demo_ft"
definition demo_ftd :: flash_dev where "demo_ftd = ft_put_copy (ft_put_copy demo_dev 0x1000 demo_ftv) 0 demo_ftv"
definition demo_ftc :: flash_dev where
  "demo_ftc = (ft_put_copy demo_ftd 0x1000 demo_ftw)\<lparr>fd_mem := erase_mem (fd_mem (ft_put_copy demo_ftd 0x1000 demo_ftw)) 0 4096\<rparr>"

lemma demo_ftv_sealed [simp]: "ft_sealed demo_env demo_ftv" "ft_sealed demo_env demo_ftw"
proof -
  show v: "ft_sealed demo_env demo_ftv"
    unfolding demo_ftv_def by (rule ft_new_sealed) (simp_all add: ft_blank_def ft_of_bytes_wf)
  show "ft_sealed demo_env demo_ftw"
    unfolding demo_ftw_def by (rule ft_new_sealed) (use v in \<open>simp_all add: ft_sealed_def ft_data_ok_def demo_mac_def\<close>)
qed

lemma demo_fts_facts [simp]: "ft_dev_ok demo_env demo_ftd demo_fts" "ft_ram demo_fts = demo_ftv" "ft_addr_0 demo_fts = 0"
  "ft_addr_1 demo_fts = 0x1000"
  by (simp_all add: demo_fts_def ft_with_ram_def demo_ftd_def demo_ft_def ft_dev_ok_def ft_put_copy_def)

lemma demo_ftd_copies [simp]: "ft_copy demo_ftd 0 = demo_ftv" "ft_copy demo_ftd 0x1000 = demo_ftv"
proof -
  have wf: "ft_wf demo_ftv" using demo_ftv_sealed(1) by (simp only: ft_sealed_def)
  show "ft_copy demo_ftd 0 = demo_ftv" "ft_copy demo_ftd 0x1000 = demo_ftv"
    using ft_copy_put [OF wf] by (simp_all add: demo_ftd_def)
qed

lemma demo_ftd_run: "ft_set_run demo_env (Some demo_ftd, []) demo_fts FT_CMD_TX_DC (Some demo_mac) 4 =
  (WM_ERR_SUCCESS, (Some (ft_put_copy (ft_put_copy demo_ftd 0x1000 demo_ftw) 0 demo_ftw),
     [(0x1000, Some demo_ftd), (0, Some (ft_put_copy demo_ftd 0x1000 demo_ftw))]), ft_with_ram demo_ftw demo_fts)"
proof -
  have "ft_param_init demo_env (Some demo_ftd) 0x1000 = ft_check demo_env (ft_copy demo_ftd 0x1000)"
    by (rule ft_param_init_spec [OF demo_fts_facts(1)]) simp
  then have "\<not> ft_sync_needed demo_env (Some demo_ftd) demo_fts"
    using ft_check_sealed [OF demo_ftv_sealed(1)] by (simp add: ft_sync_needed_def ft_same_def)
  moreover have "ft_wf (ft_ram demo_fts)" "ft_sealed demo_env (ft_ram demo_fts)"
    using demo_ftv_sealed(1) by (simp_all add: ft_sealed_def)
  moreover have "ft_data_ok FT_CMD_TX_DC demo_mac 4" by (simp add: ft_data_ok_def demo_mac_def)
  ultimately show ?thesis using ft_set_run_spec [OF demo_fts_facts(1), of FT_CMD_TX_DC demo_mac 4]
    by (simp add: demo_ftw_def ft_with_ram_def)
qed

theorem ft_set_atomic_witness:
  "(0, Some (ft_put_copy demo_ftd 0x1000 demo_ftw)) \<in>
     set (ft_set_writes demo_env (Some demo_ftd) demo_fts FT_CMD_TX_DC (Some demo_mac) 4) \<and>
   (\<exists>w. wm_ft_param_reset_internal_data demo_env (Some demo_ftc) demo_ft = (WM_ERR_SUCCESS, ft_with_ram w demo_ft) \<and>
     (w = demo_ftv \<or> w = demo_ftw))"
proof -
  let ?d2 = "ft_put_copy demo_ftd 0x1000 demo_ftw"
  have l: "(0, Some ?d2) \<in> set (ft_set_writes demo_env (Some demo_ftd) demo_fts FT_CMD_TX_DC (Some demo_mac) 4)"
    by (simp add: ft_set_writes_def demo_ftd_run)
  have n: "wm_ft_param_set demo_env (Some demo_ftd) demo_fts FT_CMD_TX_DC (Some demo_mac) 4 =
    (WM_ERR_SUCCESS, Some (ft_put_copy ?d2 0 demo_ftw), ft_with_ram demo_ftw demo_fts)"
    by (simp add: wm_ft_param_set_def demo_ftd_run)
  have d: "ft_data_ok FT_CMD_TX_DC demo_mac 4" by (simp add: ft_data_ok_def demo_mac_def)
  have t: "torn ?d2 0 demo_ftc" by (auto simp: torn_def demo_ftc_def erase_mem_def)
  have "mem_slice (fd_mem demo_ftc) 0 220 = replicate 220 0xFF"
    by (rule nth_equalityI) (simp_all add: demo_ftc_def erase_mem_def)
  then have f: "fst (ft_check demo_env (ft_copy demo_ftc (ft_addr_0 demo_fts))) = WM_ERR_FAILED"
    by (simp add: ft_copy_def ft_check_ff)
  have s: "same_places demo_fts demo_ft" by (simp add: same_places_def) (simp add: demo_ft_def)
  show ?thesis
    using ft_set_atomic [OF demo_fts_facts(1) _ _ d n l t disjI2 [OF f] s] l
    by (auto simp: ft_with_ram_def)
qed

text \<open>C35. With copy 0 damaged a set is not atomic. Copy 1, the one that is still good, is written
  first and kept nowhere else: \<open>wm_ft_param_set\<close> with valid data comes to a state, behind the erase
  of the sector of copy 1 that its first write begins with, from which every load reports
  success and brings nothing to RAM. The places are sectors of 4096 bytes.\<close>

theorem ft_set_can_lose_all:
  assumes ok: "ft_dev_ok env dev s" and c0: "fst (ft_check env (ft_copy dev (ft_addr_0 s))) = WM_ERR_FAILED"
    and c1: "ft_check env (ft_copy dev (ft_addr_1 s)) = (1, ft_ram s)"
    and d: "ft_data_ok opnum d len" and sec: "fd_sector dev = 4096" "4096 dvd ft_addr_1 s"
  shows "\<exists>dev' log. ft_set_writes env (Some dev) s opnum (Some d) len = (ft_addr_1 s, Some dev) # log \<and>
    wm_hal_flash_erase_sectors dev (ft_addr_1 s) 1 = (WM_ERR_SUCCESS, dev') \<and>
    (\<forall>s0. same_places s s0 \<longrightarrow> wm_ft_param_reset_internal_data env (Some dev') s0 = (WM_ERR_SUCCESS, s0))"
proof -
  let ?dev = "dev\<lparr>fd_mem := erase_mem (fd_mem dev) (ft_addr_1 s) 4096\<rparr>"
  have wf: "ft_wf (ft_ram s)" using c1 ft_check_one [of "ft_copy dev (ft_addr_1 s)" env "ft_ram s"]
    by (simp add: ft_sealed_def)
  have "ft_param_init env (Some dev) (ft_addr_0 s) = ft_check env (ft_copy dev (ft_addr_0 s))"
    by (rule ft_param_init_spec [OF ok]) simp
  then have "\<not> ft_sync_needed env (Some dev) s" using c0 by (simp add: ft_sync_needed_def)
  then have log: "\<exists>log. ft_set_writes env (Some dev) s opnum (Some d) len = (ft_addr_1 s, Some dev) # log"
    using ft_set_run_spec [OF ok wf disjI2 [OF c0] d] by (simp add: ft_set_writes_def)
  obtain i where i: "ft_addr_1 s = i * 4096" using sec(2) by (metis dvdE mult.commute)
  have "i * fd_sector dev + 1 * fd_sector dev \<le> 0x2000000"
    using ok i sec(1) by (simp add: ft_dev_ok_def flash_geom_def)
  then have er: "wm_hal_flash_erase_sectors dev (ft_addr_1 s) 1 = (WM_ERR_SUCCESS, ?dev)"
    using erase_sectors_spec [of dev i 1] ok i sec(1) by (simp add: ft_dev_ok_def)
  have t: "torn dev (ft_addr_1 s) ?dev" by (auto simp: torn_def erase_mem_def)
  have pl: "ft_addr_0 s + 4096 \<le> ft_addr_1 s" using ok by (simp add: ft_dev_ok_def)
  note to = torn_other [OF t ok]
  have f0: "fst (ft_check env (ft_copy ?dev (ft_addr_0 s))) = WM_ERR_FAILED" using to(2) [of "ft_addr_0 s"] pl c0 by simp
  have "mem_slice (fd_mem ?dev) (ft_addr_1 s) 220 = replicate 220 0xFF"
    by (rule nth_equalityI) (simp_all add: erase_mem_def)
  then have f1: "fst (ft_check env (ft_copy ?dev (ft_addr_1 s))) = WM_ERR_FAILED"
    by (simp add: ft_copy_def ft_check_ff)
  have "wm_ft_param_reset_internal_data env (Some ?dev) s0 = (WM_ERR_SUCCESS, s0)" if p: "same_places s s0" for s0
    using ft_load_spec [OF ft_dev_ok_places [OF p to(1)]] f0 f1 p
    by (auto simp: same_places_def split: prod.splits)
  with log er show ?thesis by blast
qed

theorem ft_set_can_lose_all_witness:
  "\<exists>dev' log. ft_set_writes demo_env (Some (ft_put_copy demo_dev 0x1000 demo_ftv)) demo_fts FT_CMD_TX_DC
       (Some demo_mac) 4 = (0x1000, Some (ft_put_copy demo_dev 0x1000 demo_ftv)) # log \<and>
     wm_hal_flash_erase_sectors (ft_put_copy demo_dev 0x1000 demo_ftv) 0x1000 1 = (WM_ERR_SUCCESS, dev') \<and>
     wm_ft_param_reset_internal_data demo_env (Some dev') demo_ft = (WM_ERR_SUCCESS, demo_ft)"
proof -
  let ?d = "ft_put_copy demo_dev 0x1000 demo_ftv"
  have wf: "ft_wf demo_ftv" using demo_ftv_sealed(1) by (simp only: ft_sealed_def)
  have "ft_dev_ok demo_env demo_dev demo_fts" by (simp add: ft_dev_ok_def)
  then have ok: "ft_dev_ok demo_env ?d demo_fts" by simp
  have "ft_copy ?d 0 = ft_copy demo_dev 0" by (rule ft_copy_put(2) [OF wf]) simp
  then have c0: "fst (ft_check demo_env (ft_copy ?d (ft_addr_0 demo_fts))) = WM_ERR_FAILED"
    by (simp add: ft_copy_def [of demo_dev] mem_slice_ff ft_check_ff)
  have c1: "ft_check demo_env (ft_copy ?d (ft_addr_1 demo_fts)) = (1, ft_ram demo_fts)"
    using ft_copy_put(1) [OF wf] ft_check_sealed [OF demo_ftv_sealed(1)] by simp
  have d: "ft_data_ok FT_CMD_TX_DC demo_mac 4" by (simp add: ft_data_ok_def demo_mac_def)
  have sec: "fd_sector ?d = 4096" "4096 dvd ft_addr_1 demo_fts" by (simp_all add: ft_put_copy_def)
  have s: "same_places demo_fts demo_ft" by (simp add: same_places_def) (simp add: demo_ft_def)
  show ?thesis using ft_set_can_lose_all [OF ok c0 c1 d sec] s by auto
qed

end
