(* ===== verification/UtilTime.thy ===== *)
theory UtilTime
  imports Prelude "HOL-Library.Signed_Division"
begin

text \<open>
  The calendar arithmetic of \<open>wm_utils.c\<close>: seconds since 1970 to broken-down time
  (\<open>gmtime_r\<close> and \<open>timestamp_conversion_to_tm\<close>), back (\<open>mktime\<close>), and the parser of the
  time zone string. \<open>int\<close> and \<open>time_t\<close> are \<open>int\<close>; division and remainder are those of C,
  rounding towards zero (\<open>sdiv\<close>, \<open>smod\<close>). \<open>mktime\<close> computes in 32-bit \<open>int\<close>, and its sums
  pass 32 bits for dates from 19 January 2038 on: they wrap here (\<open>int32\<close>), which C leaves
  undefined. In the time zone parser, where an overflow depends on the caller's text, it is
  \<open>None\<close>. The other expressions stay inside \<open>int\<close> for every time that fits 32 bits.
\<close>

declare One_nat_def [simp del]

section \<open>Broken-down time\<close>

record tm =
  tm_sec :: int
  tm_min :: int
  tm_hour :: int
  tm_mday :: int
  tm_mon :: int
  tm_year :: int
  tm_wday :: int
  tm_yday :: int
  tm_isdst :: int

definition tm_zero :: tm where
  "tm_zero = \<lparr>tm_sec = 0, tm_min = 0, tm_hour = 0, tm_mday = 0, tm_mon = 0, tm_year = 0,
     tm_wday = 0, tm_yday = 0, tm_isdst = 0\<rparr>"

abbreviation (input) SPD :: int where "SPD \<equiv> 24 * 60 * 60"

section \<open>\<open>gmtime_r\<close>\<close>

definition spm :: "int list" where
  "spm = [0, 31, 31 + 28, 31 + 28 + 31, 31 + 28 + 31 + 30, 31 + 28 + 31 + 30 + 31,
     31 + 28 + 31 + 30 + 31 + 30, 31 + 28 + 31 + 30 + 31 + 30 + 31,
     31 + 28 + 31 + 30 + 31 + 30 + 31 + 31, 31 + 28 + 31 + 30 + 31 + 30 + 31 + 31 + 30,
     31 + 28 + 31 + 30 + 31 + 30 + 31 + 31 + 30 + 31,
     31 + 28 + 31 + 30 + 31 + 30 + 31 + 31 + 30 + 31 + 30,
     31 + 28 + 31 + 30 + 31 + 30 + 31 + 31 + 30 + 31 + 30 + 31]"

definition isleap :: "int \<Rightarrow> bool" where
  "isleap year \<longleftrightarrow> year smod 4 = 0 \<and> (year smod 100 \<noteq> 0 \<or> year smod 400 = 0)"

text \<open>The year loop: from \<open>i\<close>, with \<open>work\<close> days left.\<close>

function gmtime_year :: "int \<Rightarrow> int \<Rightarrow> int \<times> int" where
  "gmtime_year i work =
     (let k = if isleap i then 366 else 365 in
      if work \<ge> k then gmtime_year (i + 1) (work - k) else (i, work))"
  by auto
termination
  by (relation "measure (\<lambda>(i, work). nat work)") (auto simp: Let_def split: if_splits)

declare gmtime_year.simps [simp del]

text \<open>The month loop \<open>for (i = 11; i && (__spm[i] > work); --i)\<close>.\<close>

fun gmtime_mon :: "nat \<Rightarrow> int \<Rightarrow> nat" where
  "gmtime_mon 0 work = 0"
| "gmtime_mon (Suc i) work = (if spm ! Suc i > work then gmtime_mon i work else Suc i)"

text \<open>The fields of a non-null pointer's value. A negative time leaves the year loop at once.\<close>

definition gmtime_tm :: "int \<Rightarrow> tm" where
  "gmtime_tm t =
     (let work = t smod SPD; sec = work smod 60; work = work sdiv 60;
          mi = work smod 60; hour = work sdiv 60;
          work = t sdiv SPD; wday = (4 + work) smod 7;
          (i, work) = gmtime_year 1970 work;
          year = i - 1900; yday = work;
          (mday, work) = (if isleap i \<and> work > 58 then (if work = 59 then 2 else 1, work - 1)
                          else (1, work));
          mon = gmtime_mon 11 work
      in \<lparr>tm_sec = sec, tm_min = mi, tm_hour = hour, tm_mday = mday + (work - spm ! mon),
          tm_mon = int mon, tm_year = year, tm_wday = wday, tm_yday = yday, tm_isdst = 0\<rparr>)"

text \<open>
  The function reads \<open>*timep\<close> before it tests the pointers: the outer \<open>None\<close> is that null
  dereference, \<open>Some None\<close> the null result. \<open>r_ok\<close> says that \<open>r\<close> is not null.
\<close>

definition gmtime_r :: "int option \<Rightarrow> bool \<Rightarrow> tm option option" where
  "gmtime_r timep r_ok =
     (case timep of
        None \<Rightarrow> None
      | Some t \<Rightarrow> if \<not> r_ok then Some None else Some (Some (gmtime_tm t)))"

definition localtime_r :: "int option \<Rightarrow> bool \<Rightarrow> tm option option" where
  "localtime_r t r_ok =
     (case t of None \<Rightarrow> None | Some s \<Rightarrow> gmtime_r (Some (s + 8 * 3600)) r_ok)"

section \<open>\<open>mktime\<close>\<close>

text \<open>The 32-bit \<open>int\<close> an expression leaves. The fields of the argument are 32-bit numbers.\<close>

definition int32 :: "int \<Rightarrow> int" where
  "int32 x = (x + 2147483648) mod 4294967296 - 2147483648"

lemma int32_id [simp]: "- 2147483648 \<le> x \<Longrightarrow> x < 2147483648 \<Longrightarrow> int32 x = x"
  by (simp add: int32_def)

definition mktime :: "tm \<Rightarrow> int" where
  "mktime tp =
     (let mon = tm_mon tp; year = int32 (tm_year tp + 1900);
          (year, mon) =
            (if tm_mon tp \<ge> 12 then (int32 (year + mon sdiv 12), mon smod 12)
             else if tm_mon tp < 0 then
               (let mon = int32 (0 - mon) in (int32 (year - mon sdiv 12 - 1), 12 - mon smod 12))
             else (year, mon));
          mon = mon + 1;
          mon = mon - 2;
          (year, mon) = (if 0 \<ge> mon then (year - 1, mon + 12) else (year, mon));
          year = int32 year
      in int32 (((((year sdiv 4 - year sdiv 100 + year sdiv 400 + (367 * mon) sdiv 12 + tm_mday tp)
              + year * 365 - 719499) * 24 + tm_hour tp) * 60 + tm_min tp) * 60 + tm_sec tp))"

section \<open>\<open>timestamp_conversion_to_tm\<close>\<close>

abbreviation (input) WM_DAY_SEC :: int where "WM_DAY_SEC \<equiv> 24 * 60 * 60"
abbreviation (input) WM_YEAR_SEC :: int where "WM_YEAR_SEC \<equiv> 365 * (24 * 60 * 60)"
abbreviation (input) WM_BASE_DOW :: int where "WM_BASE_DOW \<equiv> 4"
abbreviation (input) WM_LEAP_YEAR_ADJUST :: int where "WM_LEAP_YEAR_ADJUST \<equiv> 17"

definition WM_IS_LEAP_YEAR :: "int \<Rightarrow> bool" where
  "WM_IS_LEAP_YEAR y \<longleftrightarrow> (y smod 4 = 0 \<and> y smod 100 \<noteq> 0) \<or> (y + 1900) smod 400 = 0"

definition WM_ELAPSED_LEAP_YEARS :: "int \<Rightarrow> int" where
  "WM_ELAPSED_LEAP_YEARS y =
     (y - 1) sdiv 4 - (y - 1) sdiv 100 + (y + 299) sdiv 400 - WM_LEAP_YEAR_ADJUST"

definition lpdays :: "int list" where
  "lpdays = [-1, 30, 59, 90, 120, 151, 181, 212, 243, 273, 304, 334, 365]"

definition nlpdays :: "int list" where
  "nlpdays = [-1, 30, 58, 89, 119, 150, 180, 211, 242, 272, 303, 333, 364]"

text \<open>The year, the seconds since its start, and whether it is a leap year.\<close>

definition conv_year :: "int \<Rightarrow> int \<times> int \<times> bool" where
  "conv_year caltim =
     (let tmptim = caltim sdiv WM_YEAR_SEC + 70;
          caltim = caltim - (tmptim - 70) * WM_YEAR_SEC;
          caltim = caltim - WM_ELAPSED_LEAP_YEARS tmptim * WM_DAY_SEC
      in if caltim < 0 then
           let caltim = caltim + WM_YEAR_SEC; tmptim = tmptim - 1
           in if WM_IS_LEAP_YEAR tmptim then (tmptim, caltim + WM_DAY_SEC, True)
              else (tmptim, caltim, False)
         else (tmptim, caltim, WM_IS_LEAP_YEAR tmptim))"

text \<open>\<open>for (tmptim = 1; mdays[tmptim] < tm->tm_yday; tmptim++)\<close>; \<open>None\<close> reads past the table.\<close>

function conv_mon :: "int list \<Rightarrow> int \<Rightarrow> nat \<Rightarrow> nat option" where
  "conv_mon mdays yday i =
     (if i \<ge> length mdays then None
      else if mdays ! i < yday then conv_mon mdays yday (Suc i)
      else Some i)"
  by auto
termination by (relation "measure (\<lambda>(mdays, _, i). length mdays - i)") auto

declare conv_mon.simps [simp del]

definition timestamp_conversion_to_tm :: "int option \<Rightarrow> (int \<times> tm) option" where
  "timestamp_conversion_to_tm tim_p =
     (case tim_p of
        None \<Rightarrow> Some (-1, tm_zero)
      | Some time_bak \<Rightarrow>
          if time_bak < 0 \<or> time_bak > 0x7fffd27f then Some (-1, tm_zero)
          else
            let (year, caltim, islpyr) = conv_year time_bak;
                yday = caltim sdiv WM_DAY_SEC;
                caltim = caltim - yday * WM_DAY_SEC;
                mdays = if islpyr then lpdays else nlpdays
            in case conv_mon mdays yday 1 of
                 None \<Rightarrow> None
               | Some i \<Rightarrow>
                   let mon = i - 1;
                       mday = yday - mdays ! mon;
                       wday = (time_bak sdiv WM_DAY_SEC + WM_BASE_DOW) smod 7;
                       hour = caltim sdiv 3600;
                       caltim = caltim - hour * 3600;
                       mi = caltim sdiv 60;
                       sec = caltim - mi * 60
                   in Some (0, \<lparr>tm_sec = sec, tm_min = mi, tm_hour = hour, tm_mday = mday,
                        tm_mon = int mon, tm_year = year, tm_wday = wday, tm_yday = yday,
                        tm_isdst = 0\<rparr>))"

section \<open>\<open>tz_to_utc_time\<close>\<close>

text \<open>A signed 32-bit result; the undefined overflow is \<open>None\<close>.\<close>

definition c_int :: "int \<Rightarrow> int option" where
  "c_int x = (if - (2 ^ 31) \<le> x \<and> x < 2 ^ 31 then Some x else None)"

definition is_digit :: "u8 \<Rightarrow> bool" where "is_digit c \<longleftrightarrow> 0x30 \<le> c \<and> c \<le> 0x39"

definition is_space :: "u8 \<Rightarrow> bool" where
  "is_space c \<longleftrightarrow> c = 0x20 \<or> (0x09 \<le> c \<and> c \<le> 0x0D)"

text \<open>The C library's \<open>atoi\<close>, whose value outside \<open>int\<close> is undefined.\<close>

definition digits_val :: "bytes \<Rightarrow> int" where
  "digits_val ds = foldl (\<lambda>n c. 10 * n + (int (unat c) - 0x30)) 0 (takeWhile is_digit ds)"

definition c_atoi :: "bytes \<Rightarrow> int option" where
  "c_atoi s =
     (let s = dropWhile is_space s in
      c_int (if c_at s = 0x2D then - digits_val (tl s)
             else if c_at s = 0x2B then digits_val (tl s)
             else digits_val s))"

text \<open>
  The scan \<open>for (i = 4; i < len; i++)\<close> over the rest of the string: \<open>None\<close> is its \<open>return
  false\<close>, otherwise the text after the colon, if there was one.
\<close>

fun tz_scan :: "bytes \<Rightarrow> bytes option \<Rightarrow> bytes option option" where
  "tz_scan [] min_str = Some min_str"
| "tz_scan (c # cs) min_str =
     (if c < 0x30 \<or> c > 0x39 then
        if c = 0x3A then
          if min_str \<noteq> None then None else tz_scan cs (Some cs)
        else None
      else tz_scan cs min_str)"

text \<open>The minutes behind the colon, negative like the hour.\<close>

definition tz_minutes :: "int \<Rightarrow> bytes option \<Rightarrow> int option option" where
  "tz_minutes hour min_str =
     (case min_str of
        None \<Rightarrow> Some (Some 0)
      | Some ms \<Rightarrow>
          (case c_atoi ms of
             None \<Rightarrow> None
           | Some mi \<Rightarrow>
               if mi > 59 then Some None else Some (Some (if hour < 0 then mi * -1 else mi))))"

text \<open>
  Outer \<open>None\<close>: an overflow of \<open>int\<close>. \<open>Some None\<close> is false, \<open>Some (Some sec)\<close> true and the
  value that goes to \<open>*time_s\<close> when the pointer is not null. \<open>value\<close> has no zero byte.
\<close>

definition tz_to_utc_time :: "bytes \<Rightarrow> int option option" where
  "tz_to_utc_time tz =
     (if take 3 tz \<noteq> [0x55, 0x54, 0x43] then Some None
      else
        let c = c_at (drop 3 tz) in
        if c \<noteq> 0x2B \<and> c \<noteq> 0x2D \<and> (c < 0x30 \<or> c > 0x39) then Some None
        else case tz_scan (drop 4 tz) None of
            None \<Rightarrow> Some None
          | Some min_str \<Rightarrow>
              (case c_atoi (drop 3 tz) of
                 None \<Rightarrow> None
               | Some hour \<Rightarrow>
                   (case tz_minutes hour min_str of
                      None \<Rightarrow> None
                    | Some None \<Rightarrow> Some None
                    | Some (Some mi) \<Rightarrow>
                        (case c_int (hour * 60 * 60 + mi * 60) of
                           None \<Rightarrow> None
                         | Some sec \<Rightarrow>
                             if sec < -43200 \<or> sec > 50400 then Some None
                             else Some (Some sec)))))"

end
