(* ===== verification/Rtc.thy ===== *)
theory Rtc
  imports UtilTime
begin

text \<open>
  The real-time clock: its two registers (\<open>wm_rtc_reg_struct.h\<close>, \<open>wm_ll_rtc.h\<close>), the HAL
  (\<open>wm_hal_rtc.c\<close>), the driver operations (\<open>wm_drv_ops_rtc.c\<close>) and the front end
  (\<open>wm_drv_rtc.c\<close>). The device of the table is a record with the registers it owns; its
  pointer may be null (\<open>None\<close>). The addresses of members the driver passes to the HAL are never
  null. A callback is a number; an interrupt returns the calls it makes. The power management
  unit, which delivers the interrupt, is a parameter: whether its device is found and what the
  registration returns.
\<close>

section \<open>Registers\<close>

type_synonym u32w = "32 word"

record rtc_regs =
  rtc_r1 :: u32w
  rtc_r2 :: u32w

text \<open>A bit field of \<open>w\<close> bits at bit \<open>lo\<close>.\<close>

definition bf_get :: "nat \<Rightarrow> nat \<Rightarrow> u32w \<Rightarrow> u32w" where
  "bf_get lo w r = take_bit w (drop_bit lo r)"

definition bf_set :: "nat \<Rightarrow> nat \<Rightarrow> u32w \<Rightarrow> u32w \<Rightarrow> u32w" where
  "bf_set lo w v r = (r AND NOT (push_bit lo (mask w))) OR push_bit lo (take_bit w v)"

definition wm_ll_rtc_set_second :: "rtc_regs \<Rightarrow> u32w \<Rightarrow> rtc_regs" where
  "wm_ll_rtc_set_second hw v = hw\<lparr>rtc_r1 := bf_set 0 6 v (rtc_r1 hw)\<rparr>"
definition wm_ll_rtc_get_second :: "rtc_regs \<Rightarrow> u32w" where
  "wm_ll_rtc_get_second hw = bf_get 0 6 (rtc_r1 hw)"
definition wm_ll_rtc_set_minute :: "rtc_regs \<Rightarrow> u32w \<Rightarrow> rtc_regs" where
  "wm_ll_rtc_set_minute hw v = hw\<lparr>rtc_r1 := bf_set 8 6 v (rtc_r1 hw)\<rparr>"
definition wm_ll_rtc_get_minute :: "rtc_regs \<Rightarrow> u32w" where
  "wm_ll_rtc_get_minute hw = bf_get 8 6 (rtc_r1 hw)"
definition wm_ll_rtc_set_hour :: "rtc_regs \<Rightarrow> u32w \<Rightarrow> rtc_regs" where
  "wm_ll_rtc_set_hour hw v = hw\<lparr>rtc_r1 := bf_set 16 5 v (rtc_r1 hw)\<rparr>"
definition wm_ll_rtc_get_hour :: "rtc_regs \<Rightarrow> u32w" where
  "wm_ll_rtc_get_hour hw = bf_get 16 5 (rtc_r1 hw)"
definition wm_ll_rtc_set_day :: "rtc_regs \<Rightarrow> u32w \<Rightarrow> rtc_regs" where
  "wm_ll_rtc_set_day hw v = hw\<lparr>rtc_r1 := bf_set 24 5 v (rtc_r1 hw)\<rparr>"
definition wm_ll_rtc_get_day :: "rtc_regs \<Rightarrow> u32w" where
  "wm_ll_rtc_get_day hw = bf_get 24 5 (rtc_r1 hw)"
definition wm_ll_rtc_set_month :: "rtc_regs \<Rightarrow> u32w \<Rightarrow> rtc_regs" where
  "wm_ll_rtc_set_month hw v = hw\<lparr>rtc_r2 := bf_set 0 4 v (rtc_r2 hw)\<rparr>"
definition wm_ll_rtc_get_month :: "rtc_regs \<Rightarrow> u32w" where
  "wm_ll_rtc_get_month hw = bf_get 0 4 (rtc_r2 hw)"
definition wm_ll_rtc_set_year :: "rtc_regs \<Rightarrow> u32w \<Rightarrow> rtc_regs" where
  "wm_ll_rtc_set_year hw v = hw\<lparr>rtc_r2 := bf_set 8 7 v (rtc_r2 hw)\<rparr>"
definition wm_ll_rtc_get_year :: "rtc_regs \<Rightarrow> u32w" where
  "wm_ll_rtc_get_year hw = bf_get 8 7 (rtc_r2 hw)"
definition wm_ll_rtc_timer_enable :: "rtc_regs \<Rightarrow> u32w \<Rightarrow> rtc_regs" where
  "wm_ll_rtc_timer_enable hw v = hw\<lparr>rtc_r1 := bf_set 31 1 v (rtc_r1 hw)\<rparr>"
definition wm_ll_rtc_timer_counting_enable :: "rtc_regs \<Rightarrow> u32w \<Rightarrow> rtc_regs" where
  "wm_ll_rtc_timer_counting_enable hw v = hw\<lparr>rtc_r2 := bf_set 16 1 v (rtc_r2 hw)\<rparr>"

section \<open>HAL\<close>

record hal_rtc =
  hr_init :: bool
  hr_cb :: "(nat \<times> nat) option"

text \<open>The cast of an \<open>int\<close> field to the register's \<open>uint32_t\<close>, and back (fields of at most
  seven bits).\<close>

abbreviation (input) to_u32 :: "int \<Rightarrow> u32w" where "to_u32 x \<equiv> word_of_int x"

definition wm_hal_rtc_init :: "hal_rtc \<Rightarrow> rtc_regs \<Rightarrow> int \<times> hal_rtc \<times> rtc_regs" where
  "wm_hal_rtc_init dev hw =
     (if hr_init dev then (WM_ERR_SUCCESS, dev, hw)
      else (WM_ERR_SUCCESS, dev\<lparr>hr_init := True\<rparr>,
            wm_ll_rtc_timer_enable (wm_ll_rtc_timer_counting_enable hw 1) 0))"

definition wm_hal_rtc_deinit :: "hal_rtc \<Rightarrow> rtc_regs \<Rightarrow> int \<times> hal_rtc \<times> rtc_regs" where
  "wm_hal_rtc_deinit dev hw =
     (if \<not> hr_init dev then (WM_ERR_SUCCESS, dev, hw)
      else (WM_ERR_SUCCESS, dev\<lparr>hr_init := False\<rparr>,
            wm_ll_rtc_timer_counting_enable (wm_ll_rtc_timer_enable hw 0) 0))"

text \<open>The six field writes that setting the time and the alarm share.\<close>

definition rtc_put :: "rtc_regs \<Rightarrow> tm \<Rightarrow> rtc_regs" where
  "rtc_put hw t =
     (let hw = wm_ll_rtc_set_year hw (to_u32 (tm_year t));
          hw = wm_ll_rtc_set_month hw (to_u32 (tm_mon t));
          hw = wm_ll_rtc_set_day hw (to_u32 (tm_mday t));
          hw = wm_ll_rtc_set_hour hw (to_u32 (tm_hour t));
          hw = wm_ll_rtc_set_minute hw (to_u32 (tm_min t))
      in wm_ll_rtc_set_second hw (to_u32 (tm_sec t)))"

definition wm_hal_rtc_set_time :: "hal_rtc \<Rightarrow> rtc_regs \<Rightarrow> tm option \<Rightarrow> int \<times> rtc_regs" where
  "wm_hal_rtc_set_time dev hw time =
     (case time of
        None \<Rightarrow> (WM_ERR_INVALID_PARAM, hw)
      | Some t \<Rightarrow>
          if \<not> hr_init dev then (WM_ERR_INVALID_PARAM, hw)
          else (WM_ERR_SUCCESS,
            wm_ll_rtc_timer_counting_enable (rtc_put (wm_ll_rtc_timer_counting_enable hw 0) t) 1))"

definition wm_hal_rtc_get_time :: "hal_rtc \<Rightarrow> rtc_regs \<Rightarrow> tm option \<Rightarrow> int \<times> tm option" where
  "wm_hal_rtc_get_time dev hw time =
     (case time of
        None \<Rightarrow> (WM_ERR_INVALID_PARAM, None)
      | Some t \<Rightarrow>
          if \<not> hr_init dev then (WM_ERR_INVALID_PARAM, Some t)
          else (WM_ERR_SUCCESS, Some (t\<lparr>
            tm_year := uint (wm_ll_rtc_get_year hw), tm_mon := uint (wm_ll_rtc_get_month hw),
            tm_mday := uint (wm_ll_rtc_get_day hw), tm_hour := uint (wm_ll_rtc_get_hour hw),
            tm_min := uint (wm_ll_rtc_get_minute hw),
            tm_sec := uint (wm_ll_rtc_get_second hw)\<rparr>)))"

text \<open>The alarm is prepared in two words of RAM and written word by word.\<close>

definition wm_hal_rtc_set_alarm :: "hal_rtc \<Rightarrow> rtc_regs \<Rightarrow> tm option \<Rightarrow> int \<times> rtc_regs" where
  "wm_hal_rtc_set_alarm dev hw time =
     (case time of
        None \<Rightarrow> (WM_ERR_INVALID_PARAM, hw)
      | Some t \<Rightarrow>
          if \<not> hr_init dev then (WM_ERR_INVALID_PARAM, hw)
          else
            let fake = rtc_put \<lparr>rtc_r1 = 0, rtc_r2 = 0\<rparr> t;
                fake = wm_ll_rtc_timer_counting_enable fake 1;
                fake = wm_ll_rtc_timer_enable fake 1;
                hw = hw\<lparr>rtc_r1 := rtc_r1 fake\<rparr>
            in (WM_ERR_SUCCESS, hw\<lparr>rtc_r2 := rtc_r2 fake\<rparr>))"

definition wm_hal_rtc_abort_alarm :: "hal_rtc \<Rightarrow> rtc_regs \<Rightarrow> int \<times> rtc_regs" where
  "wm_hal_rtc_abort_alarm dev hw =
     (if \<not> hr_init dev then (WM_ERR_INVALID_PARAM, hw)
      else (WM_ERR_SUCCESS, wm_ll_rtc_timer_enable hw 0))"

definition wm_hal_rtc_register_callback ::
    "hal_rtc \<Rightarrow> nat option \<Rightarrow> nat \<Rightarrow> int \<times> hal_rtc" where
  "wm_hal_rtc_register_callback dev call_back user_data =
     (case call_back of
        None \<Rightarrow> (WM_ERR_INVALID_PARAM, dev)
      | Some cb \<Rightarrow>
          if \<not> hr_init dev then (WM_ERR_INVALID_PARAM, dev)
          else (WM_ERR_SUCCESS, dev\<lparr>hr_cb := Some (cb, user_data)\<rparr>))"

text \<open>The mask behind a pointer: \<open>None\<close> when nothing was written.\<close>

definition wm_hal_rtc_get_supported_mask :: "hal_rtc \<Rightarrow> bool \<Rightarrow> int \<times> int option" where
  "wm_hal_rtc_get_supported_mask dev mask_ok =
     (if \<not> mask_ok \<or> \<not> hr_init dev then (WM_ERR_INVALID_PARAM, None)
      else (WM_ERR_SUCCESS, Some 0))"

end
