(* ===== verification/RtcDriver.thy ===== *)
theory RtcDriver
  imports Rtc
begin

text \<open>
  The driver of the real-time clock (\<open>wm_drv_ops_rtc.c\<close>) and its front end
  (\<open>wm_drv_rtc.c\<close>). A function returns its code, the device and what it stores through its
  pointers. The outer \<open>None\<close> of \<open>deinit\<close> is the null dereference of a device that says it is
  initialised and has no data.
\<close>

section \<open>Device\<close>

datatype dev_state = DEV_UNINIT | DEV_INITING | DEV_INITED | DEV_UNKNOWN

record rtc_alarm =
  al_active :: bool
  al_time :: tm
  al_cb :: "nat option"
  al_user :: nat

record rtc_data =
  rd_hal :: hal_rtc
  rd_alarm :: "rtc_alarm list"

record rtc_dev =
  rd_ops :: bool
  rd_state :: dev_state
  rd_drv :: "rtc_data option"
  rd_regs :: rtc_regs

text \<open>The environment of the driver: is there a PMU device, what does it say to the callback.\<close>

record rtc_env = env +
  pmu_dev :: bool
  pmu_register_ret :: int

abbreviation (input) WM_DRV_RTC_ALARM_NUMBER :: nat where "WM_DRV_RTC_ALARM_NUMBER \<equiv> 1"
abbreviation (input) STD_TIME_START_YEAR :: int where "STD_TIME_START_YEAR \<equiv> 1900"
abbreviation (input) WM_RTC_TIME_START_YEAR :: int where "WM_RTC_TIME_START_YEAR \<equiv> 2000"
abbreviation (input) WM_RTC_TIME_MAX_YEAR :: int where "WM_RTC_TIME_MAX_YEAR \<equiv> 2127"
abbreviation (input) STD_TIME_START_MONTH :: int where "STD_TIME_START_MONTH \<equiv> 0"
abbreviation (input) WM_RTC_TIME_START_MONTH :: int where "WM_RTC_TIME_START_MONTH \<equiv> 1"
abbreviation (input) RTC_DATA_SIZE :: nat where "RTC_DATA_SIZE \<equiv> 72"

section \<open>Checks and conversions\<close>

definition wm_drv_time_is_available :: "tm \<Rightarrow> bool" where
  "wm_drv_time_is_available t =
     (if tm_year t < WM_RTC_TIME_START_YEAR - STD_TIME_START_YEAR \<or>
         tm_year t > WM_RTC_TIME_MAX_YEAR - STD_TIME_START_YEAR then False
      else if tm_mon t < 0 \<or> tm_mon t > 11 then False
      else if tm_mday t \<le> 0 \<or> tm_mday t > 31 then False
      else if tm_mon t = 1 \<and>
        (let year = tm_year t + STD_TIME_START_YEAR in
         if year smod 4 = 0 \<and> (year smod 100 \<noteq> 0 \<or> year smod 400 = 0) then tm_mday t > 29
         else tm_mday t > 28) then False
      else if tm_mon t \<in> {3, 5, 8, 10} \<and> tm_mday t > 30 then False
      else if tm_hour t < 0 \<or> tm_hour t > 23 then False
      else if tm_min t < 0 \<or> tm_min t > 59 then False
      else if tm_sec t < 0 \<or> tm_sec t > 59 then False
      else True)"

definition wm_drv_rtc_time_compare :: "tm \<Rightarrow> tm \<Rightarrow> int" where
  "wm_drv_rtc_time_compare t1 t2 =
     (if tm_year t1 \<noteq> tm_year t2 then if tm_year t1 < tm_year t2 then -1 else 1
      else if tm_mon t1 \<noteq> tm_mon t2 then if tm_mon t1 < tm_mon t2 then -1 else 1
      else if tm_mday t1 \<noteq> tm_mday t2 then if tm_mday t1 < tm_mday t2 then -1 else 1
      else if tm_hour t1 \<noteq> tm_hour t2 then if tm_hour t1 < tm_hour t2 then -1 else 1
      else if tm_min t1 \<noteq> tm_min t2 then if tm_min t1 < tm_min t2 then -1 else 1
      else if tm_sec t1 \<noteq> tm_sec t2 then if tm_sec t1 < tm_sec t2 then -1 else 1
      else 0)"

definition wm_800_rtc_std_time_conversion :: "bool \<Rightarrow> tm \<Rightarrow> tm" where
  "wm_800_rtc_std_time_conversion dir t =
     (if dir then
        t\<lparr>tm_year := tm_year t - (WM_RTC_TIME_START_YEAR - STD_TIME_START_YEAR),
          tm_mon := tm_mon t - (STD_TIME_START_MONTH - WM_RTC_TIME_START_MONTH)\<rparr>
      else
        t\<lparr>tm_year := tm_year t + (WM_RTC_TIME_START_YEAR - STD_TIME_START_YEAR),
          tm_mon := tm_mon t + (STD_TIME_START_MONTH - WM_RTC_TIME_START_MONTH)\<rparr>)"

section \<open>Interrupt\<close>

text \<open>The loop over the alarms, with the calls of the callbacks in order.\<close>

fun rtc_fire :: "tm \<Rightarrow> rtc_alarm list \<Rightarrow> rtc_alarm list \<times> (nat \<times> nat) list" where
  "rtc_fire now [] = ([], [])"
| "rtc_fire now (a # as) =
     (let (as', calls) = rtc_fire now as in
      if al_active a then
        if wm_drv_rtc_time_compare (al_time a) now > 0 then (a # as', calls)
        else (a\<lparr>al_active := False\<rparr> # as',
              (case al_cb a of None \<Rightarrow> [] | Some cb \<Rightarrow> [(cb, al_user a)]) @ calls)
      else (a # as', calls))"

text \<open>\<open>user_data\<close> is the data of the device that registered; null fails the assertion.\<close>

definition wm_800_rtc_callback :: "rtc_dev \<Rightarrow> (rtc_dev \<times> (nat \<times> nat) list) option" where
  "wm_800_rtc_callback dev =
     (case rd_drv dev of
        None \<Rightarrow> None
      | Some d \<Rightarrow>
          (case wm_hal_rtc_get_time (rd_hal d) (rd_regs dev) (Some tm_zero) of
             (r, Some now) \<Rightarrow>
               if r \<noteq> WM_ERR_SUCCESS then Some (dev, [])
               else let (as, calls) = rtc_fire now (rd_alarm d)
                    in Some (dev\<lparr>rd_drv := Some (d\<lparr>rd_alarm := as\<rparr>)\<rparr>, calls)
           | (r, None) \<Rightarrow> Some (dev, [])))"

section \<open>Life of the device\<close>

definition wm_w800_drv_rtc_regist_temp_function :: "rtc_env \<Rightarrow> int" where
  "wm_w800_drv_rtc_regist_temp_function e =
     (if \<not> pmu_dev e then WM_ERR_FAILED
      else if pmu_register_ret e \<noteq> WM_ERR_SUCCESS then WM_ERR_FAILED
      else WM_ERR_SUCCESS)"

text \<open>What \<open>calloc\<close> leaves.\<close>

definition rtc_data_zero :: rtc_data where
  "rtc_data_zero = \<lparr>rd_hal = \<lparr>hr_init = False, hr_cb = None\<rparr>,
     rd_alarm = replicate WM_DRV_RTC_ALARM_NUMBER
       \<lparr>al_active = False, al_time = tm_zero, al_cb = None, al_user = 0\<rparr>\<rparr>"

definition wm_w800_drv_rtc_init :: "rtc_env \<Rightarrow> rtc_dev \<Rightarrow> int \<times> rtc_dev" where
  "wm_w800_drv_rtc_init e dev =
     (if rd_state dev = DEV_INITED then (WM_ERR_ALREADY_INITED, dev)
      else if \<not> alloc_ok e RTC_DATA_SIZE then (WM_ERR_NO_MEM, dev)
      else if mutex_create_ret e \<noteq> 0 then (WM_ERR_FAILED, dev\<lparr>rd_drv := None\<rparr>)
      else if mutex_acquire_ret e \<noteq> 0 then (WM_ERR_FAILED, dev\<lparr>rd_drv := None\<rparr>)
      else
        let (r, hal, hw) = wm_hal_rtc_init (rd_hal rtc_data_zero) (rd_regs dev);
            dev = dev\<lparr>rd_regs := hw\<rparr>
        in if r \<noteq> WM_ERR_SUCCESS then (WM_ERR_FAILED, dev\<lparr>rd_drv := None\<rparr>)
           else if wm_w800_drv_rtc_regist_temp_function e \<noteq> WM_ERR_SUCCESS
           then (WM_ERR_FAILED, dev\<lparr>rd_drv := None\<rparr>)
           else (WM_ERR_SUCCESS, dev\<lparr>rd_drv := Some (rtc_data_zero\<lparr>rd_hal := hal\<rparr>),
                                     rd_state := DEV_INITED\<rparr>))"

definition wm_w800_drv_rtc_deinit :: "rtc_env \<Rightarrow> rtc_dev \<Rightarrow> (int \<times> rtc_dev) option" where
  "wm_w800_drv_rtc_deinit e dev =
     (if rd_state dev \<noteq> DEV_INITED then Some (WM_ERR_NO_INITED, dev)
      else case rd_drv dev of
        None \<Rightarrow> None
      | Some d \<Rightarrow>
          if mutex_acquire_ret e \<noteq> 0 then Some (WM_ERR_NO_INITED, dev)
          else
            let (r, hal, hw) = wm_hal_rtc_deinit (rd_hal d) (rd_regs dev) in
            if r \<noteq> WM_ERR_SUCCESS
            then Some (WM_ERR_FAILED, dev\<lparr>rd_drv := Some (d\<lparr>rd_hal := hal\<rparr>), rd_regs := hw\<rparr>)
            else Some (WM_ERR_SUCCESS,
              dev\<lparr>rd_drv := None, rd_state := DEV_UNINIT, rd_regs := hw\<rparr>))"

section \<open>Time\<close>

definition wm_w800_drv_rtc_set_time :: "rtc_env \<Rightarrow> rtc_dev \<Rightarrow> tm \<Rightarrow> int \<times> rtc_dev" where
  "wm_w800_drv_rtc_set_time e dev t =
     (case rd_drv dev of
        None \<Rightarrow> (WM_ERR_INVALID_PARAM, dev)
      | Some d \<Rightarrow>
          if \<not> wm_drv_time_is_available t then (WM_ERR_INVALID_PARAM, dev)
          else
            let t = wm_800_rtc_std_time_conversion True t in
            if mutex_acquire_ret e \<noteq> 0 then (WM_ERR_FAILED, dev)
            else
              let (r, hw) = wm_hal_rtc_set_time (rd_hal d) (rd_regs dev) (Some t);
                  dev = dev\<lparr>rd_regs := hw\<rparr>
              in if r \<noteq> WM_ERR_SUCCESS then (WM_ERR_FAILED, dev)
                 else (WM_ERR_SUCCESS, dev\<lparr>rd_drv :=
                   Some (d\<lparr>rd_alarm := map (\<lambda>a. a\<lparr>al_active := False\<rparr>) (rd_alarm d)\<rparr>)\<rparr>))"

definition wm_w800_drv_rtc_get_time :: "rtc_env \<Rightarrow> rtc_dev \<Rightarrow> tm option \<Rightarrow> int \<times> tm option" where
  "wm_w800_drv_rtc_get_time e dev time =
     (case rd_drv dev of
        None \<Rightarrow> (WM_ERR_INVALID_PARAM, time)
      | Some d \<Rightarrow>
          if mutex_acquire_ret e \<noteq> 0 then (WM_ERR_FAILED, time)
          else (case wm_hal_rtc_get_time (rd_hal d) (rd_regs dev) time of
              (r, None) \<Rightarrow> (WM_ERR_FAILED, None)
            | (r, Some t) \<Rightarrow>
                if r \<noteq> WM_ERR_SUCCESS then (WM_ERR_FAILED, Some t)
                else (WM_ERR_SUCCESS, Some ((wm_800_rtc_std_time_conversion False t)
                  \<lparr>tm_wday := -1, tm_yday := -1, tm_isdst := -1\<rparr>))))"

section \<open>Alarms\<close>

definition rtc_bad_id :: "int \<Rightarrow> bool" where
  "rtc_bad_id i \<longleftrightarrow> i \<ge> int WM_DRV_RTC_ALARM_NUMBER \<or> i < 0"

definition wm_w800_drv_rtc_get_supported_mask ::
    "rtc_env \<Rightarrow> rtc_dev \<Rightarrow> int \<Rightarrow> bool \<Rightarrow> int \<times> int option" where
  "wm_w800_drv_rtc_get_supported_mask e dev i mask_ok =
     (case rd_drv dev of
        None \<Rightarrow> (WM_ERR_INVALID_PARAM, None)
      | Some d \<Rightarrow>
          if rtc_bad_id i \<or> \<not> mask_ok then (WM_ERR_INVALID_PARAM, None)
          else if mutex_acquire_ret e \<noteq> 0 then (WM_ERR_FAILED, None)
          else let (r, m) = wm_hal_rtc_get_supported_mask (rd_hal d) mask_ok
               in if r \<noteq> WM_ERR_SUCCESS then (WM_ERR_FAILED, m) else (WM_ERR_SUCCESS, m))"

text \<open>The search loop, from position \<open>i\<close>.\<close>

fun rtc_free_id :: "nat \<Rightarrow> rtc_alarm list \<Rightarrow> int" where
  "rtc_free_id i [] = -1"
| "rtc_free_id i (a # as) = (if \<not> al_active a then int i else rtc_free_id (Suc i) as)"

definition wm_w800_drv_rtc_get_alarm_available_id ::
    "rtc_env \<Rightarrow> rtc_dev \<Rightarrow> bool \<Rightarrow> int \<times> int option" where
  "wm_w800_drv_rtc_get_alarm_available_id e dev id_ok =
     (case rd_drv dev of
        None \<Rightarrow> (WM_ERR_INVALID_PARAM, None)
      | Some d \<Rightarrow>
          if \<not> id_ok then (WM_ERR_INVALID_PARAM, None)
          else if mutex_acquire_ret e \<noteq> 0 then (WM_ERR_FAILED, None)
          else let available_id = rtc_free_id 0 (rd_alarm d)
               in if available_id \<ge> 0 then (WM_ERR_SUCCESS, Some available_id)
                  else (WM_ERR_FAILED, None))"

definition rtc_upd_alarm :: "rtc_dev \<Rightarrow> rtc_data \<Rightarrow> int \<Rightarrow> (rtc_alarm \<Rightarrow> rtc_alarm) \<Rightarrow> rtc_dev" where
  "rtc_upd_alarm dev d i f =
     dev\<lparr>rd_drv := Some (d\<lparr>rd_alarm := (rd_alarm d)[nat i := f (rd_alarm d ! nat i)]\<rparr>)\<rparr>"

definition wm_w800_drv_rtc_register_alarm_callback ::
    "rtc_env \<Rightarrow> rtc_dev \<Rightarrow> int \<Rightarrow> nat option \<Rightarrow> nat \<Rightarrow> int \<times> rtc_dev" where
  "wm_w800_drv_rtc_register_alarm_callback e dev i callback user_data =
     (case rd_drv dev of
        None \<Rightarrow> (WM_ERR_INVALID_PARAM, dev)
      | Some d \<Rightarrow>
          if rtc_bad_id i \<or> callback = None then (WM_ERR_INVALID_PARAM, dev)
          else if mutex_acquire_ret e \<noteq> 0 then (WM_ERR_FAILED, dev)
          else (WM_ERR_SUCCESS,
            rtc_upd_alarm dev d i (\<lambda>a. a\<lparr>al_cb := callback, al_user := user_data\<rparr>)))"

definition wm_w800_drv_rtc_set_alarm ::
    "rtc_env \<Rightarrow> rtc_dev \<Rightarrow> int \<Rightarrow> int \<Rightarrow> tm \<Rightarrow> int \<times> rtc_dev" where
  "wm_w800_drv_rtc_set_alarm e dev i msk t =
     (case rd_drv dev of
        None \<Rightarrow> (WM_ERR_INVALID_PARAM, dev)
      | Some d \<Rightarrow>
          if rtc_bad_id i \<or> \<not> wm_drv_time_is_available t then (WM_ERR_INVALID_PARAM, dev)
          else
            let t = wm_800_rtc_std_time_conversion True t in
            if mutex_acquire_ret e \<noteq> 0 then (WM_ERR_FAILED, dev)
            else (case wm_hal_rtc_get_supported_mask (rd_hal d) True of
                (r, None) \<Rightarrow> (WM_ERR_FAILED, dev)
              | (r, Some supported) \<Rightarrow>
                  if r \<noteq> WM_ERR_SUCCESS then (WM_ERR_FAILED, dev)
                  else if msk AND NOT supported \<noteq> 0 then (WM_ERR_FAILED, dev)
                  else (case wm_hal_rtc_get_time (rd_hal d) (rd_regs dev) (Some tm_zero) of
                      (r, None) \<Rightarrow> (WM_ERR_FAILED, dev)
                    | (r, Some now) \<Rightarrow>
                        if r \<noteq> WM_ERR_SUCCESS then (WM_ERR_FAILED, dev)
                        else if wm_drv_rtc_time_compare t now \<le> 0 then (WM_ERR_FAILED, dev)
                        else
                          let dev = rtc_upd_alarm dev d i (\<lambda>a. a\<lparr>al_time := t\<rparr>);
                              (r, hw) = wm_hal_rtc_set_alarm (rd_hal d) (rd_regs dev) (Some t);
                              dev = dev\<lparr>rd_regs := hw\<rparr>
                          in if r \<noteq> WM_ERR_SUCCESS then (WM_ERR_FAILED, dev)
                             else (WM_ERR_SUCCESS, rtc_upd_alarm dev d i
                               (\<lambda>a. a\<lparr>al_time := t, al_active := True\<rparr>)))))"

text \<open>The codes of a call, the mask and the time it stores. \<open>t\<close> is what \<open>time\<close> points to.\<close>

definition wm_w800_drv_rtc_get_alarm ::
    "rtc_env \<Rightarrow> rtc_dev \<Rightarrow> int \<Rightarrow> bool \<Rightarrow> tm option \<Rightarrow> int \<times> int option \<times> tm option" where
  "wm_w800_drv_rtc_get_alarm e dev i mask_ok time =
     (case rd_drv dev of
        None \<Rightarrow> (WM_ERR_INVALID_PARAM, None, time)
      | Some d \<Rightarrow>
          if rtc_bad_id i \<or> time = None then (WM_ERR_INVALID_PARAM, None, time)
          else if mutex_acquire_ret e \<noteq> 0 then (WM_ERR_FAILED, None, time)
          else if \<not> al_active (rd_alarm d ! nat i) then (WM_ERR_FAILED, None, time)
          else
            let t = al_time (rd_alarm d ! nat i);
                (r, m) = wm_hal_rtc_get_supported_mask (rd_hal d) mask_ok
            in if r \<noteq> WM_ERR_SUCCESS then (WM_ERR_FAILED, m, Some t)
               else (WM_ERR_SUCCESS, m, Some (wm_800_rtc_std_time_conversion False t)))"

definition wm_w800_drv_rtc_abort_alarm :: "rtc_env \<Rightarrow> rtc_dev \<Rightarrow> int \<Rightarrow> int \<times> rtc_dev" where
  "wm_w800_drv_rtc_abort_alarm e dev i =
     (case rd_drv dev of
        None \<Rightarrow> (WM_ERR_INVALID_PARAM, dev)
      | Some d \<Rightarrow>
          if rtc_bad_id i then (WM_ERR_INVALID_PARAM, dev)
          else if mutex_acquire_ret e \<noteq> 0 then (WM_ERR_FAILED, dev)
          else
            let dev = rtc_upd_alarm dev d i (\<lambda>a. a\<lparr>al_active := False\<rparr>);
                (_, hw) = wm_hal_rtc_abort_alarm (rd_hal d) (rd_regs dev)
            in (WM_ERR_SUCCESS, dev\<lparr>rd_regs := hw\<rparr>))"

section \<open>Front end\<close>

text \<open>The result of \<open>wm_drv_rtc_init\<close> is the device when the flag is true, else null. The
  argument is what the device table has under the name.\<close>

definition wm_drv_rtc_init :: "rtc_env \<Rightarrow> rtc_dev option \<Rightarrow> bool \<times> rtc_dev option" where
  "wm_drv_rtc_init e dev =
     (case dev of
        None \<Rightarrow> (False, None)
      | Some dv \<Rightarrow>
          if rd_ops dv then let (ret, dv) = wm_w800_drv_rtc_init e dv
                            in (ret = WM_ERR_SUCCESS, Some dv)
          else (False, Some dv))"

text \<open>The guards every other function starts with.\<close>

definition rtc_front :: "rtc_dev option \<Rightarrow> (int \<Rightarrow> 'a) \<Rightarrow> (rtc_dev \<Rightarrow> 'a) \<Rightarrow> 'a" where
  "rtc_front dev err op =
     (case dev of
        None \<Rightarrow> err WM_ERR_INVALID_PARAM
      | Some dv \<Rightarrow> if rd_state dv \<noteq> DEV_INITED then err WM_ERR_NO_INITED
                  else if rd_ops dv then op dv else err WM_ERR_FAILED)"

definition wm_drv_rtc_deinit :: "rtc_env \<Rightarrow> rtc_dev option \<Rightarrow> (int \<times> rtc_dev option) option" where
  "wm_drv_rtc_deinit e dev =
     rtc_front dev (\<lambda>c. Some (c, dev))
       (\<lambda>dv. map_option (\<lambda>(r, dv). (r, Some dv)) (wm_w800_drv_rtc_deinit e dv))"

definition wm_drv_rtc_set_time :: "rtc_env \<Rightarrow> rtc_dev option \<Rightarrow> tm \<Rightarrow> int \<times> rtc_dev option" where
  "wm_drv_rtc_set_time e dev t =
     rtc_front dev (\<lambda>c. (c, dev))
       (\<lambda>dv. let (r, dv) = wm_w800_drv_rtc_set_time e dv t in (r, Some dv))"

definition wm_drv_rtc_get_time :: "rtc_env \<Rightarrow> rtc_dev option \<Rightarrow> tm option \<Rightarrow> int \<times> tm option" where
  "wm_drv_rtc_get_time e dev t =
     rtc_front dev (\<lambda>c. (c, t)) (\<lambda>dv. wm_w800_drv_rtc_get_time e dv t)"

definition wm_drv_rtc_get_alarm_supported_mask ::
    "rtc_env \<Rightarrow> rtc_dev option \<Rightarrow> int \<Rightarrow> bool \<Rightarrow> int \<times> int option" where
  "wm_drv_rtc_get_alarm_supported_mask e dev i mask_ok =
     rtc_front dev (\<lambda>c. (c, None)) (\<lambda>dv. wm_w800_drv_rtc_get_supported_mask e dv i mask_ok)"

definition wm_drv_rtc_get_alarm_available_id ::
    "rtc_env \<Rightarrow> rtc_dev option \<Rightarrow> bool \<Rightarrow> int \<times> int option" where
  "wm_drv_rtc_get_alarm_available_id e dev id_ok =
     rtc_front dev (\<lambda>c. (c, None)) (\<lambda>dv. wm_w800_drv_rtc_get_alarm_available_id e dv id_ok)"

definition wm_drv_rtc_set_alarm ::
    "rtc_env \<Rightarrow> rtc_dev option \<Rightarrow> int \<Rightarrow> int \<Rightarrow> tm \<Rightarrow> int \<times> rtc_dev option" where
  "wm_drv_rtc_set_alarm e dev i msk t =
     rtc_front dev (\<lambda>c. (c, dev))
       (\<lambda>dv. let (r, dv) = wm_w800_drv_rtc_set_alarm e dv i msk t in (r, Some dv))"

definition wm_drv_rtc_get_alarm ::
    "rtc_env \<Rightarrow> rtc_dev option \<Rightarrow> int \<Rightarrow> bool \<Rightarrow> tm option \<Rightarrow> int \<times> int option \<times> tm option" where
  "wm_drv_rtc_get_alarm e dev i mask_ok time =
     rtc_front dev (\<lambda>c. (c, None, time)) (\<lambda>dv. wm_w800_drv_rtc_get_alarm e dv i mask_ok time)"

definition wm_drv_rtc_abort_alarm :: "rtc_env \<Rightarrow> rtc_dev option \<Rightarrow> int \<Rightarrow> int \<times> rtc_dev option" where
  "wm_drv_rtc_abort_alarm e dev i =
     rtc_front dev (\<lambda>c. (c, dev))
       (\<lambda>dv. let (r, dv) = wm_w800_drv_rtc_abort_alarm e dv i in (r, Some dv))"

definition wm_drv_rtc_register_alarm_callback ::
    "rtc_env \<Rightarrow> rtc_dev option \<Rightarrow> int \<Rightarrow> nat option \<Rightarrow> nat \<Rightarrow> int \<times> rtc_dev option" where
  "wm_drv_rtc_register_alarm_callback e dev i callback user_data =
     rtc_front dev (\<lambda>c. (c, dev))
       (\<lambda>dv. let (r, dv) = wm_w800_drv_rtc_register_alarm_callback e dv i callback user_data
             in (r, Some dv))"

end
