(* ===== verification/Clock.thy ===== *)
theory Clock
  imports RtcDriver
begin

text \<open>
  The time of day (\<open>wm_utils.c\<close> with the RTC driver enabled, the default): the offset between
  the up-time of the system and the calendar, which is taken from the real-time clock when it is
  zero, and the time zone. \<open>ms\<close> is the value of \<open>wm_os_internal_get_time_ms\<close> at the call, a
  32-bit number. The device of the table under the name \<open>rtc\<close> is \<open>ck_rtc\<close>; looking it up a second
  time gives the same device.
\<close>

record clock =
  ck_rtc :: "rtc_dev option"
  ck_offset :: int
  ck_tz :: "bytes option"

text \<open>Initialisation, or the device as it is when that fails: the device both functions use.\<close>

definition clock_rtc :: "rtc_env \<Rightarrow> clock \<Rightarrow> clock" where
  "clock_rtc e c = c\<lparr>ck_rtc := snd (wm_drv_rtc_init e (ck_rtc c))\<rparr>"

text \<open>Outer \<open>None\<close>: \<open>tv\<close> is dereferenced although it is null.\<close>

definition gettimeofday ::
    "rtc_env \<Rightarrow> nat \<Rightarrow> bool \<Rightarrow> clock \<Rightarrow> (int \<times> (int \<times> int) option \<times> clock) option" where
  "gettimeofday e ms tv_ok c =
     (let fill = (\<lambda>c. if \<not> tv_ok then None
                      else Some (0, Some (ck_offset c + int (ms div 1000),
                                          int (ms mod 1000 * 1000)), c))
      in if ck_offset c = 0 then
           if \<not> tv_ok then Some (-1, None, c)
           else
             let c = clock_rtc e c in
             if ck_rtc c = None then Some (-1, None, c)
             else (case wm_drv_rtc_get_time e (ck_rtc c) (Some tm_zero) of
                 (r, Some t) \<Rightarrow>
                   if r \<noteq> WM_ERR_SUCCESS then Some (-1, None, c)
                   else fill (c\<lparr>ck_offset := mktime t - int (ms div 1000)\<rparr>)
               | (r, None) \<Rightarrow> Some (-1, None, c))
         else fill c)"

definition settimeofday ::
    "rtc_env \<Rightarrow> nat \<Rightarrow> (int \<times> int) option \<Rightarrow> clock \<Rightarrow> (int \<times> clock) option" where
  "settimeofday e ms tv c =
     (case tv of
        None \<Rightarrow> Some (-1, c)
      | Some (tv_sec, tv_usec) \<Rightarrow>
          (case timestamp_conversion_to_tm (Some tv_sec) of
             None \<Rightarrow> None
           | Some (r, t) \<Rightarrow>
               if r \<noteq> 0 then Some (-1, c)
               else
                 let c = clock_rtc e c in
                 if ck_rtc c = None then Some (-1, c)
                 else
                   let (r, dv) = wm_drv_rtc_set_time e (ck_rtc c) t;
                       c = c\<lparr>ck_rtc := dv\<rparr>
                   in if r \<noteq> WM_ERR_SUCCESS then Some (-1, c)
                      else Some (0, c\<lparr>ck_offset := tv_sec - int (ms div 1000)\<rparr>)))"

text \<open>The value of \<open>time\<close> and what it stores through its pointer.\<close>

definition c_time :: "rtc_env \<Rightarrow> nat \<Rightarrow> bool \<Rightarrow> clock \<Rightarrow> (int \<times> int option \<times> clock) option" where
  "c_time e ms t_ok c =
     (case gettimeofday e ms True c of
        None \<Rightarrow> None
      | Some (r, tv, c) \<Rightarrow>
          if r \<noteq> 0 then Some (0, None, c)
          else (case tv of
              None \<Rightarrow> None
            | Some (s, us) \<Rightarrow> Some (s, if t_ok then Some s else None, c)))"

section \<open>Time zone\<close>

abbreviation (input) TZ_NAME :: bytes where "TZ_NAME \<equiv> [0x54, 0x5A]"

definition getenv :: "bytes \<Rightarrow> clock \<Rightarrow> bytes option" where
  "getenv name c = (if strcmp_eq name TZ_NAME then ck_tz c else None)"

text \<open>Outer \<open>None\<close>: an overflow of \<open>int\<close> in the parser.\<close>

definition setenv :: "rtc_env \<Rightarrow> bytes \<Rightarrow> bytes \<Rightarrow> int \<Rightarrow> clock \<Rightarrow> (int \<times> clock) option" where
  "setenv e name val overwrite c =
     (if strcmp_eq name TZ_NAME then
        case tz_to_utc_time val of
          None \<Rightarrow> None
        | Some None \<Rightarrow> Some (-1, c)
        | Some (Some sec) \<Rightarrow>
            if ck_tz c \<noteq> None \<and> overwrite = 0 then Some (-1, c)
            else if \<not> alloc_ok e (strlen val + 1) then Some (-1, c\<lparr>ck_tz := None\<rparr>)
            else Some (0, c\<lparr>ck_tz := Some val\<rparr>)
      else Some (-1, c))"

text \<open>
  Outer \<open>None\<close>: \<open>strlen\<close> of the null pointer that \<open>getenv\<close> returns while no time zone is set, or
  an overflow in the parser. \<open>Some None\<close> is the null result.
\<close>

definition localtime :: "int option \<Rightarrow> clock \<Rightarrow> tm option option" where
  "localtime tim_p c =
     (case tim_p of
        None \<Rightarrow> Some None
      | Some t \<Rightarrow>
          (case getenv TZ_NAME c of
             None \<Rightarrow> None
           | Some tz \<Rightarrow>
               (case tz_to_utc_time tz of
                  None \<Rightarrow> None
                | Some z \<Rightarrow>
                    let time_bak = (case z of None \<Rightarrow> 0 | Some s \<Rightarrow> s) + t in
                    (case timestamp_conversion_to_tm (Some time_bak) of
                       None \<Rightarrow> None
                     | Some (r, tm) \<Rightarrow> if r \<noteq> 0 then Some None else Some (Some tm)))))"

end
