(* ===== verification/Calendar.thy ===== *)
theory Calendar
  imports UtilTime
begin

text \<open>
  The reference calendar: the date of a day is reached from 1 January 1970 by counting days
  forward, one at a time, with the month lengths of the Gregorian calendar. The calendar
  functions of \<open>UtilTime\<close> are shown to compute it, each by its own formula.
\<close>

section \<open>The reference\<close>

definition cal_leap :: "nat \<Rightarrow> bool" where
  "cal_leap y \<longleftrightarrow> y mod 4 = 0 \<and> (y mod 100 \<noteq> 0 \<or> y mod 400 = 0)"

definition mlen :: "bool \<Rightarrow> nat \<Rightarrow> nat" where
  "mlen lp m = (if lp \<and> m = 1 then 29 else [31, 28, 31, 30, 31, 30, 31, 31, 30, 31, 30, 31] ! m)"

fun mstart :: "bool \<Rightarrow> nat \<Rightarrow> nat" where
  "mstart lp 0 = 0"
| "mstart lp (Suc m) = mstart lp m + mlen lp m"

fun next_day :: "nat \<times> nat \<times> nat \<Rightarrow> nat \<times> nat \<times> nat" where
  "next_day (y, m, d) =
     (if d < mlen (cal_leap y) m then (y, m, d + 1)
      else if m < 11 then (y, m + 1, 1) else (y + 1, 0, 1))"

definition cal_date :: "nat \<Rightarrow> nat \<times> nat \<times> nat" where
  "cal_date n = (next_day ^^ n) (1970, 0, 1)"

text \<open>The broken-down time of a second since 1970; 1 January 1970 was a Thursday.\<close>

definition cal_tm :: "nat \<Rightarrow> tm" where
  "cal_tm t =
     (let n = t div 86400; s = t mod 86400; (y, m, d) = cal_date n
      in \<lparr>tm_sec = int (s mod 60), tm_min = int (s div 60 mod 60), tm_hour = int (s div 3600),
          tm_mday = int d, tm_mon = int m, tm_year = int y - 1900,
          tm_wday = int ((n + 4) mod 7),
          tm_yday = int (mstart (cal_leap y) m + d - 1), tm_isdst = 0\<rparr>)"

section \<open>Counting days\<close>

definition year_days :: "nat \<Rightarrow> nat" where
  "year_days y = (if cal_leap y then 366 else 365)"

fun ystart :: "nat \<Rightarrow> nat" where
  "ystart 0 = 0"
| "ystart (Suc k) = ystart k + year_days (1970 + k)"

definition is_date :: "nat \<times> nat \<times> nat \<Rightarrow> bool" where
  "is_date dt \<longleftrightarrow> (case dt of (y, m, d) \<Rightarrow>
     1970 \<le> y \<and> m < 12 \<and> 1 \<le> d \<and> d \<le> mlen (cal_leap y) m)"

definition day_no :: "nat \<times> nat \<times> nat \<Rightarrow> nat" where
  "day_no dt = (case dt of (y, m, d) \<Rightarrow> ystart (y - 1970) + mstart (cal_leap y) m + d - 1)"

lemma month_cases:
  assumes "m < (12 :: nat)"
  obtains "m = 0" | "m = 1" | "m = 2" | "m = 3" | "m = 4" | "m = 5"
    | "m = 6" | "m = 7" | "m = 8" | "m = 9" | "m = 10" | "m = 11"
proof -
  from assms have "m = 0 \<or> m = 1 \<or> m = 2 \<or> m = 3 \<or> m = 4 \<or> m = 5 \<or> m = 6 \<or> m = 7
      \<or> m = 8 \<or> m = 9 \<or> m = 10 \<or> m = 11"
    by presburger
  then show ?thesis using that by blast
qed

lemma mlen_bounds: "m < 12 \<Longrightarrow> 28 \<le> mlen lp m \<and> mlen lp m \<le> 31"
  by (erule month_cases) (simp_all add: mlen_def)

lemma mstart_values:
  "mstart lp 1 = 31" "mstart lp 2 = (if lp then 60 else 59)"
  "mstart lp 3 = (if lp then 91 else 90)" "mstart lp 4 = (if lp then 121 else 120)"
  "mstart lp 5 = (if lp then 152 else 151)" "mstart lp 6 = (if lp then 182 else 181)"
  "mstart lp 7 = (if lp then 213 else 212)" "mstart lp 8 = (if lp then 244 else 243)"
  "mstart lp 9 = (if lp then 274 else 273)" "mstart lp 10 = (if lp then 305 else 304)"
  "mstart lp 11 = (if lp then 335 else 334)" "mstart lp 12 = (if lp then 366 else 365)"
  by (simp_all add: eval_nat_numeral mlen_def One_nat_def)

lemma mlen_values:
  "mlen lp 0 = 31" "mlen lp 1 = (if lp then 29 else 28)" "mlen lp 2 = 31" "mlen lp 3 = 30"
  "mlen lp 4 = 31" "mlen lp 5 = 30" "mlen lp 6 = 31" "mlen lp 7 = 31" "mlen lp 8 = 30"
  "mlen lp 9 = 31" "mlen lp 10 = 30" "mlen lp 11 = 31"
  by (simp_all add: mlen_def)

lemma next_day_step:
  assumes "is_date dt"
  shows "is_date (next_day dt) \<and> day_no (next_day dt) = day_no dt + 1"
proof -
  obtain y m d where dt: "dt = (y, m, d)" by (cases dt) auto
  have v: "1970 \<le> y" "m < 12" "1 \<le> d" "d \<le> mlen (cal_leap y) m"
    using assms by (auto simp: is_date_def dt)
  consider "d < mlen (cal_leap y) m" | "d = mlen (cal_leap y) m" "m < 11"
    | "d = mlen (cal_leap y) m" "m = 11" using v by linarith
  then show ?thesis
  proof cases
    case 1
    with v show ?thesis by (auto simp: dt is_date_def day_no_def)
  next
    case 2
    have "28 \<le> mlen (cal_leap y) (m + 1)" using mlen_bounds [of "m + 1"] 2 by auto
    moreover have "mstart lp (m + 1) = mstart lp m + mlen lp m" for lp by (simp add: One_nat_def)
    ultimately show ?thesis using 2 v by (auto simp: dt is_date_def day_no_def)
  next
    case 3
    have s: "y + 1 - 1970 = Suc (y - 1970)" "1970 + (y - 1970) = y" using v by auto
    with 3 v show ?thesis
      by (auto simp: dt is_date_def day_no_def year_days_def mlen_values mstart_values)
  qed
qed

lemma cal_date_spec: "is_date (cal_date n) \<and> day_no (cal_date n) = n"
proof (induction n)
  case 0
  show ?case by (simp add: cal_date_def is_date_def day_no_def mlen_values)
next
  case (Suc n)
  then show ?case using next_day_step [of "cal_date n"] by (simp add: cal_date_def)
qed

lemma ystart_mono: "j \<le> k \<Longrightarrow> ystart j \<le> ystart k"
  by (rule lift_Suc_mono_le [of ystart]) auto

lemma year_unique:
  assumes "ystart j + r = ystart k + s" and "r < year_days (1970 + j)" and "s < year_days (1970 + k)"
  shows "j = k \<and> r = s"
proof -
  have "\<not> j < k" "\<not> k < j"
    using ystart_mono [of "Suc j" k] ystart_mono [of "Suc k" j] assms by auto
  then have "j = k" by simp
  with assms(1) show ?thesis by simp
qed

text \<open>The place of a date in its year.\<close>

lemma date_yday:
  assumes "is_date (y, m, d)"
  shows "mstart (cal_leap y) m + d - 1 < year_days y"
proof -
  have "m < 12" using assms by (simp add: is_date_def)
  then show ?thesis
    by (rule month_cases) (use assms in \<open>auto simp: is_date_def year_days_def mlen_values
      mstart_values split: if_splits\<close>)
qed

text \<open>How both conversions find the year: any split into a year's start and a rest below the
  length of the year is the one of the date.\<close>

lemma cal_date_year:
  assumes n: "n = ystart k + r" and r: "r < year_days (1970 + k)"
  obtains m d where "cal_date n = (1970 + k, m, d)" and "m < 12" and "1 \<le> d"
    and "d \<le> mlen (cal_leap (1970 + k)) m" and "r = mstart (cal_leap (1970 + k)) m + d - 1"
proof -
  obtain y m d where dt: "cal_date n = (y, m, d)" by (cases "cal_date n") auto
  have v: "is_date (y, m, d)" and dn: "day_no (y, m, d) = n"
    using cal_date_spec [of n] dt by auto
  have y: "1970 + (y - 1970) = y" and d: "1 \<le> d" using v by (auto simp: is_date_def)
  have "ystart (y - 1970) + (mstart (cal_leap y) m + d - 1) = ystart k + r"
    using dn n d by (simp add: day_no_def)
  then have "y - 1970 = k \<and> mstart (cal_leap y) m + d - 1 = r"
    using year_unique [of "y - 1970" "mstart (cal_leap y) m + d - 1" k r] date_yday [OF v] r y
    by simp
  then have "y = 1970 + k" and "r = mstart (cal_leap y) m + d - 1" using y by auto
  then show ?thesis using that dt v by (auto simp: is_date_def)
qed

section \<open>\<open>gmtime_r\<close> computes the calendar\<close>

lemma smod_nonneg: "0 \<le> a \<Longrightarrow> 0 < b \<Longrightarrow> a smod b = a mod (b :: int)"
  by (cases "a = 0") (simp_all add: signed_modulo_int_def)

lemma sdiv_nonneg: "0 \<le> a \<Longrightarrow> 0 < b \<Longrightarrow> a sdiv b = a div (b :: int)"
  by (cases "a = 0") (simp_all add: signed_divide_int_def)

lemma isleap_cal: "isleap (int y) = cal_leap y"
proof -
  have "int y smod int b = int (y mod b)" if "0 < b" for b
    using that by (simp add: smod_nonneg zmod_int)
  from this [of 4] this [of 100] this [of 400] show ?thesis
    by (simp add: isleap_def cal_leap_def)
qed

lemma gmtime_year_spec:
  assumes "n = ystart k + r" and "r < year_days (1970 + k)" and "j \<le> k"
  shows "gmtime_year (1970 + int j) (int (n - ystart j)) = (1970 + int k, int r)"
  using assms(3)
proof (induction "k - j" arbitrary: j)
  case 0
  then have j: "j = k" by simp
  have lp: "isleap (1970 + int k) = cal_leap (1970 + k)" using isleap_cal [of "1970 + k"] by simp
  have "\<not> (if isleap (1970 + int k) then 366 else 365) \<le> int r"
    using assms(2) by (auto simp: lp year_days_def split: if_splits)
  then show ?case using assms(1) by (simp add: j gmtime_year.simps [of "1970 + int k"])
next
  case (Suc i)
  then have jk: "Suc j \<le> k" and i: "i = k - Suc j" by arith+
  have lp: "isleap (1970 + int j) = cal_leap (1970 + j)" using isleap_cal [of "1970 + j"] by simp
  have le: "ystart j + year_days (1970 + j) \<le> n" using ystart_mono [OF jk] assms(1) by simp
  then have "int (n - ystart j) - int (year_days (1970 + j)) = int (n - ystart (Suc j))" by simp
  moreover have "(if isleap (1970 + int j) then 366 else 365) = int (year_days (1970 + j))"
    by (simp add: lp year_days_def)
  moreover have "int (year_days (1970 + j)) \<le> int (n - ystart j)" using le by simp
  moreover have "1970 + int j + 1 = 1970 + int (Suc j)" by simp
  ultimately show ?case using Suc.hyps(1) [OF i jk]
    by (simp add: gmtime_year.simps [of "1970 + int j"] Let_def del: ystart.simps)
qed

lemma spm_values:
  "spm ! 0 = 0" "spm ! 1 = 31" "spm ! 2 = 59" "spm ! 3 = 90" "spm ! 4 = 120" "spm ! 5 = 151"
  "spm ! 6 = 181" "spm ! 7 = 212" "spm ! 8 = 243" "spm ! 9 = 273" "spm ! 10 = 304"
  "spm ! 11 = 334" "spm ! 12 = 365"
  by (simp_all add: spm_def)

lemma spm_sorted: "i \<le> j \<Longrightarrow> j \<le> 12 \<Longrightarrow> spm ! i \<le> spm ! j"
proof -
  have "sorted spm" by (simp add: spm_def)
  then show "i \<le> j \<Longrightarrow> j \<le> 12 \<Longrightarrow> spm ! i \<le> spm ! j"
    by (rule sorted_nth_mono) (simp_all add: spm_def)
qed

lemma gmtime_mon_spec:
  assumes "spm ! m \<le> w" and "w < spm ! (m + 1)"
  shows "m \<le> i \<Longrightarrow> i \<le> 11 \<Longrightarrow> gmtime_mon i w = m"
proof (induction i)
  case (Suc i)
  show ?case
  proof (cases "m = Suc i")
    case True
    then show ?thesis using assms(1) by simp
  next
    case False
    then have "spm ! (m + 1) \<le> spm ! Suc i" using spm_sorted [of "m + 1" "Suc i"] Suc.prems by simp
    then show ?thesis using assms(2) False Suc by simp
  qed
qed simp

text \<open>The day shifted by the leap day, as the function does it.\<close>

lemma leap_shift:
  assumes "m < 12" and "1 \<le> d" and "d \<le> mlen lp m" and r: "r = mstart lp m + d - 1"
    and w: "w = (if lp \<and> int r > 58 then int r - 1 else int r)"
  shows "spm ! m \<le> w \<and> w < spm ! (m + 1) \<and>
    (if lp \<and> int r = 59 then 2 else 1) + (w - spm ! m) = int d"
  using assms(1)
  by (rule month_cases) (use assms(2,3) in \<open>simp_all add: w r spm_values mlen_values mstart_values
    split: if_splits\<close>)

lemma cal_date_split:
  obtains k r m d where "n = ystart k + r" and "r < year_days (1970 + k)"
    and "cal_date n = (1970 + k, m, d)" and "m < 12" and "1 \<le> d"
    and "d \<le> mlen (cal_leap (1970 + k)) m" and "r = mstart (cal_leap (1970 + k)) m + d - 1"
proof -
  obtain y m d where dt: "cal_date n = (y, m, d)" by (cases "cal_date n") auto
  have v: "is_date (y, m, d)" and dn: "day_no (y, m, d) = n"
    using cal_date_spec [of n] dt by auto
  have y: "y = 1970 + (y - 1970)" using v by (auto simp: is_date_def)
  let ?k = "y - 1970" and ?r = "mstart (cal_leap y) m + d - 1"
  have "n = ystart ?k + ?r" using dn v by (simp add: day_no_def is_date_def)
  moreover have "?r < year_days y" by (rule date_yday [OF v])
  ultimately show ?thesis
    by (intro that [of ?k ?r m d]) (use dt v y in \<open>simp_all add: is_date_def\<close>)
qed

lemma hms_nat:
  "int s smod 86400 = int (s mod 86400)" "int s sdiv 86400 = int (s div 86400)"
  "int (s mod 86400) smod 60 = int (s mod 86400 mod 60)"
  "int (s mod 86400) sdiv 60 = int (s mod 86400 div 60)"
  "int (s mod 86400 div 60) smod 60 = int (s mod 86400 div 60 mod 60)"
  "int (s mod 86400 div 60) sdiv 60 = int (s mod 86400 div 3600)"
  "(4 + int n) smod 7 = int ((n + 4) mod 7)"
  by (simp_all add: smod_nonneg sdiv_nonneg zmod_int zdiv_int div_mult2_eq [symmetric] add.commute)

lemma gmtime_tm_cal: "gmtime_tm (int s) = cal_tm s"
proof -
  define n where "n = s div 86400"
  obtain k r m d where n: "n = ystart k + r" and r: "r < year_days (1970 + k)"
    and dt: "cal_date n = (1970 + k, m, d)" and m: "m < 12" and d: "1 \<le> d"
      "d \<le> mlen (cal_leap (1970 + k)) m" and ry: "r = mstart (cal_leap (1970 + k)) m + d - 1"
    by (rule cal_date_split)
  let ?lp = "cal_leap (1970 + k)"
  define w where "w = (if ?lp \<and> int r > 58 then int r - 1 else int r)"
  have yr: "gmtime_year 1970 (int n) = (1970 + int k, int r)"
    using gmtime_year_spec [OF n r, of 0] by simp
  have lp: "isleap (1970 + int k) = ?lp" using isleap_cal [of "1970 + k"] by simp
  note sh = leap_shift [OF m d ry w_def]
  have mon: "gmtime_mon 11 w = m" by (rule gmtime_mon_spec) (use sh m in auto)
  show ?thesis
  proof (cases "?lp \<and> r > 58")
    case True
    then have "w = int r - 1" by (simp add: w_def)
    with True sh mon ry [symmetric] show ?thesis
      by (simp add: gmtime_tm_def cal_tm_def hms_nat Let_def n_def [symmetric] dt yr lp
        split: if_splits)
  next
    case False
    then have "w = int r" by (auto simp: w_def)
    with False sh mon show ?thesis
      by (auto simp: gmtime_tm_def cal_tm_def hms_nat Let_def n_def [symmetric] dt yr lp
        ry [symmetric])
  qed
qed

section \<open>\<open>timestamp_conversion_to_tm\<close> computes the calendar\<close>

lemma mod_shifts:
  "(70 + k) mod 4 = 0 \<longleftrightarrow> (1970 + k) mod 4 = (0 :: nat)"
  "(70 + k) mod 100 = 0 \<longleftrightarrow> (1970 + k) mod 100 = (0 :: nat)"
  "(370 + k) mod 400 = 0 \<longleftrightarrow> (1970 + k) mod 400 = (0 :: nat)"
  using mod_mult_self1 [of "70 + k" 475 4] mod_mult_self1 [of "70 + k" 19 100]
    mod_mult_self1 [of "370 + k" 4 400]
  by (simp_all add: add.commute add.left_commute)

lemma mod_400: "(y :: nat) mod 400 = 0 \<Longrightarrow> y mod 4 = 0 \<and> y mod 100 = 0"
  using mod_mod_cancel [of 4 400 y] mod_mod_cancel [of 100 400 y] by simp

lemma mod_100: "(y :: nat) mod 100 = 0 \<Longrightarrow> y mod 4 = 0"
  using mod_mod_cancel [of 4 100 y] by simp

lemma WM_IS_LEAP_YEAR_cal: "WM_IS_LEAP_YEAR (70 + int k) = cal_leap (1970 + k)"
proof -
  have "(70 + int k) smod 4 = int ((70 + k) mod 4)" "(70 + int k) smod 100 = int ((70 + k) mod 100)"
    "(70 + int k + 1900) smod 400 = int ((1970 + k) mod 400)"
    by (simp_all add: smod_nonneg zmod_int)
  then have "WM_IS_LEAP_YEAR (70 + int k) \<longleftrightarrow>
      (70 + k) mod 4 = 0 \<and> (70 + k) mod 100 \<noteq> 0 \<or> (1970 + k) mod 400 = 0"
    unfolding WM_IS_LEAP_YEAR_def by simp
  then show ?thesis
    unfolding cal_leap_def mod_shifts using mod_400 [of "1970 + k"] by metis
qed

text \<open>The leap days of a year count, in closed form.\<close>

lemma div_Suc_of_bool: "Suc m div n = m div n + of_bool (Suc m mod n = 0)"
  by (simp add: div_Suc)

lemma year_days_of_bool: "int (year_days y) =
    365 + of_bool (y mod 4 = 0) - of_bool (y mod 100 = 0) + of_bool (y mod 400 = 0)"
  using mod_400 [of y] mod_100 [of y]
  by (cases "y mod 400 = 0"; cases "y mod 100 = 0"; cases "y mod 4 = 0")
    (simp_all add: year_days_def cal_leap_def)

lemma elapsed_nat: "WM_ELAPSED_LEAP_YEARS (70 + int k) =
    int ((69 + k) div 4) - int ((69 + k) div 100) + int ((369 + k) div 400) - 17"
  by (simp add: WM_ELAPSED_LEAP_YEARS_def sdiv_nonneg zdiv_int)

lemma ystart_elapsed: "int (ystart k) = 365 * int k + WM_ELAPSED_LEAP_YEARS (70 + int k)"
proof (induction k)
  case 0
  show ?case by (simp add: WM_ELAPSED_LEAP_YEARS_def signed_divide_int_def)
next
  case (Suc k)
  have sc: "Suc (69 + k) = 70 + k" "Suc (369 + k) = 370 + k" by simp_all
  have d: "(69 + Suc k) div 4 = (69 + k) div 4 + of_bool ((1970 + k) mod 4 = 0)"
    "(69 + Suc k) div 100 = (69 + k) div 100 + of_bool ((1970 + k) mod 100 = 0)"
    "(369 + Suc k) div 400 = (369 + k) div 400 + of_bool ((1970 + k) mod 400 = 0)"
    by (simp_all only: add_Suc_right sc
      div_Suc_of_bool [of "69 + k" 4, unfolded sc mod_shifts]
      div_Suc_of_bool [of "69 + k" 100, unfolded sc mod_shifts]
      div_Suc_of_bool [of "369 + k" 400, unfolded sc mod_shifts])
  have ar: "(y :: int) = 365 * j + (a - b + c - 17) \<Longrightarrow>
    y + (365 + u - v + w) = 365 * (j + 1) + ((a + u) - (b + v) + (c + w) - 17)" for y j a b c u v w
    by simp
  show ?case
    unfolding ystart.simps elapsed_nat d of_nat_add year_days_of_bool of_nat_of_bool
    unfolding of_nat_Suc add.commute [of 1 "int k"]
    by (rule ar) (use Suc in \<open>unfold elapsed_nat\<close>)
qed

lemma ystart_le_400: "k \<le> 68 \<Longrightarrow> ystart k \<le> 365 * k + 20"
proof -
  assume k: "k \<le> 68"
  have "(69 + k) div 4 \<le> 137 div 4" by (rule div_le_mono) (use k in simp)
  moreover have "(369 + k) div 400 \<le> 437 div 400" by (rule div_le_mono) (use k in simp)
  ultimately show ?thesis using ystart_elapsed [of k] by (simp add: elapsed_nat)
qed

lemma ystart_ge: "365 * k \<le> ystart k"
  by (induction k) (simp_all add: year_days_def)

text \<open>The seconds of the first correction, before the year is backed up.\<close>

lemma conv_year_spec:
  assumes n: "n = ystart k + r" and r: "r < year_days (1970 + k)" and s: "s < 86400"
    and max: "n \<le> 24854"
  shows "conv_year (int (n * 86400 + s)) =
    (70 + int k, int (r * 86400 + s), cal_leap (1970 + k))"
proof -
  define q where "q = n div 365"
  define e where "e = ystart q - 365 * q"
  have q: "365 * q \<le> n" "n < 365 * q + 365" "q \<le> 68" using max by (auto simp: q_def)
  have e: "ystart q = 365 * q + e" "e \<le> 20"
    using ystart_ge [of q] ystart_le_400 [OF q(3)] by (auto simp: e_def)
  have el: "WM_ELAPSED_LEAP_YEARS (int q + 70) = int e"
    using ystart_elapsed [of q] e(1) by (simp add: add.commute)
  have "(n * 86400 + s) div 86400 = n" using s by simp
  then have "(n * 86400 + s) div (86400 * 365) = q" unfolding div_mult2_eq q_def by simp
  then have dq: "int (n * 86400 + s) sdiv 31536000 = int q" by (simp add: sdiv_nonneg zdiv_int)
  let ?c = "int (n * 86400 + s) - int q * 31536000 - int e * 86400"
  have cv: "conv_year (int (n * 86400 + s)) =
      (if ?c < 0 then
         if WM_IS_LEAP_YEAR (69 + int q) then (69 + int q, ?c + 31536000 + 86400, True)
         else (69 + int q, ?c + 31536000, False)
       else (int q + 70, ?c, WM_IS_LEAP_YEAR (int q + 70)))"
    by (simp add: conv_year_def Let_def dq el del: of_nat_add of_nat_mult)
  show ?thesis
  proof (cases "ystart q \<le> n")
    case True
    have kq: "k = q \<and> r = n - ystart q"
      by (rule year_unique [of k r q "n - ystart q"])
        (use n r True q(2) e in \<open>auto simp: year_days_def\<close>)
    have c: "?c = int (r * 86400 + s)"
    proof -
      have "int r = int n - int (ystart q)" using kq True by simp
      then show ?thesis using e(1) by (simp add: algebra_simps)
    qed
    have "\<not> ?c < 0" "int q + 70 = 70 + int k" using kq unfolding c by simp_all
    then show ?thesis using WM_IS_LEAP_YEAR_cal [of q] kq unfolding cv c
      by (simp add: add.commute)
  next
    case False
    then have q0: "q = Suc (q - 1)" using q(1) e by (cases q) auto
    then have yq: "ystart q = ystart (q - 1) + year_days (1970 + (q - 1))"
      by (metis ystart.simps(2))
    have kq: "k = q - 1 \<and> r = n - ystart (q - 1)"
      by (rule year_unique [of k r "q - 1" "n - ystart (q - 1)"])
        (use n r False q(1) e yq in \<open>auto simp: year_days_def split: if_splits\<close>)
    have lt: "?c < 0" using False e(1) s by simp
    have rc: "int (r * 86400 + s) = ?c + int (year_days (1970 + (q - 1))) * 86400"
    proof -
      have "int r = int n - int (ystart (q - 1))" using kq n by simp
      then show ?thesis using yq e(1) by (simp add: algebra_simps)
    qed
    have lp: "WM_IS_LEAP_YEAR (69 + int q) = cal_leap (1970 + (q - 1))"
      using WM_IS_LEAP_YEAR_cal [of "q - 1"] q0 by (simp add: of_nat_diff)
    have k70: "69 + int q = 70 + int k" and kk: "q - 1 = k" using kq q0 by simp_all
    show ?thesis
      unfolding cv lp k70 kk rc year_days_def using lt
      by (cases "cal_leap (1970 + k)") (simp_all add: WM_IS_LEAP_YEAR_cal)
  qed
qed

definition mdays_of :: "bool \<Rightarrow> int list" where
  "mdays_of lp = (if lp then lpdays else nlpdays)"

lemma mdays_of_values: "m \<le> 12 \<Longrightarrow> mdays_of lp ! m = int (mstart lp m) - 1"
proof -
  assume "m \<le> 12"
  then consider "m < 12" | "m = 12" by linarith
  then show ?thesis
  proof cases
    case 1
    then show ?thesis
      by (rule month_cases) (simp_all add: mdays_of_def lpdays_def nlpdays_def mstart_values)
  qed (simp add: mdays_of_def lpdays_def nlpdays_def mstart_values)
qed

lemma length_mdays_of [simp]: "length (mdays_of lp) = 13"
  by (simp add: mdays_of_def lpdays_def nlpdays_def)

lemma mstart_le: "i \<le> j \<Longrightarrow> mstart lp i \<le> mstart lp j"
  by (rule lift_Suc_mono_le [of "mstart lp"]) auto

lemma conv_mon_spec:
  assumes "m < 12" and "1 \<le> d" and "d \<le> mlen lp m" and r: "r = mstart lp m + d - 1"
  shows "1 \<le> i \<Longrightarrow> i \<le> m + 1 \<Longrightarrow> conv_mon (mdays_of lp) (int r) i = Some (m + 1)"
proof (induction "m + 1 - i" arbitrary: i)
  case 0
  have "\<not> mdays_of lp ! (m + 1) < int r"
    using assms by (simp add: mdays_of_values One_nat_def)
  moreover have "i = m + 1" using 0 by simp
  ultimately show ?case using assms(1) by (simp add: conv_mon.simps [of _ _ "m + 1"])
next
  case (Suc j)
  have im: "i \<le> m" using Suc.hyps(2) by simp
  have "mdays_of lp ! i < int r"
    using mstart_le [OF im, of lp] assms im by (simp add: mdays_of_values of_nat_diff)
  moreover have "conv_mon (mdays_of lp) (int r) (Suc i) = Some (m + 1)"
    by (rule Suc.hyps(1)) (use Suc in auto)
  ultimately show ?case using Suc assms(1) by (simp add: conv_mon.simps [of _ _ i])
qed

lemma day_secs:
  assumes "s < 86400"
  shows "int (r * 86400 + s) sdiv 86400 = int r" "int s sdiv 3600 = int (s div 3600)"
    "int s - int (s div 3600) * 3600 = int (s mod 3600)"
    "int (s mod 3600) sdiv 60 = int (s div 60 mod 60)"
    "int (s mod 3600) - int (s div 60 mod 60) * 60 = int (s mod 60)"
proof -
  have "(r * 86400 + s) div 86400 = r" using assms by simp
  then show "int (r * 86400 + s) sdiv 86400 = int r" by (simp add: sdiv_nonneg zdiv_int)
  show "int s sdiv 3600 = int (s div 3600)" by (simp add: sdiv_nonneg zdiv_int)
  show "int s - int (s div 3600) * 3600 = int (s mod 3600)"
    by (simp add: zmod_int zdiv_int minus_div_mult_eq_mod)
  have "s mod (60 * 60) = 60 * (s div 60 mod 60) + s mod 60" by (rule mod_mult2_eq)
  then have m: "s mod 3600 = 60 * (s div 60 mod 60) + s mod 60" by simp
  show "int (s mod 3600) sdiv 60 = int (s div 60 mod 60)"
    unfolding m by (simp add: sdiv_nonneg zdiv_int)
  show "int (s mod 3600) - int (s div 60 mod 60) * 60 = int (s mod 60)" unfolding m by simp
qed

lemma timestamp_conversion_cal:
  assumes "t \<le> 0x7fffd27f"
  shows "timestamp_conversion_to_tm (Some (int t)) = Some (0, cal_tm t)"
proof -
  define n s where "n = t div 86400" and "s = t mod 86400"
  have t: "t = n * 86400 + s" and s: "s < 86400" by (simp_all add: n_def s_def)
  have max: "n \<le> 24854" using assms by (simp add: n_def)
  obtain k r m d where n: "n = ystart k + r" and r: "r < year_days (1970 + k)"
    and dt: "cal_date n = (1970 + k, m, d)" and m: "m < 12" and d: "1 \<le> d"
      "d \<le> mlen (cal_leap (1970 + k)) m" and ry: "r = mstart (cal_leap (1970 + k)) m + d - 1"
    by (rule cal_date_split)
  have cy: "conv_year (int t) = (70 + int k, int (r * 86400 + s), cal_leap (1970 + k))"
    unfolding t by (rule conv_year_spec [OF n r s max])
  have cm: "conv_mon (mdays_of (cal_leap (1970 + k))) (int r) 1 = Some (m + 1)"
    by (rule conv_mon_spec [OF m d ry]) simp_all
  have md: "int r - mdays_of (cal_leap (1970 + k)) ! m = int d"
    using ry d(1) m by (simp add: mdays_of_values)
  have rest: "int (r * 86400 + s) - int r * 86400 = int s" by simp
  have wd: "(int t sdiv 86400 + 4) smod 7 = int ((n + 4) mod 7)"
    by (simp add: n_def smod_nonneg sdiv_nonneg zmod_int zdiv_int)
  have rng: "\<not> (int t < 0 \<or> int t > 0x7fffd27f)" using assms by simp
  show ?thesis
    unfolding timestamp_conversion_to_tm_def cal_tm_def
    using rng cm md wd
    by (simp add: cy Let_def day_secs [OF s] rest n_def [symmetric] s_def [symmetric] dt
      ry [symmetric] mdays_of_def [symmetric] del: of_nat_add of_nat_mult)
qed

section \<open>\<open>mktime\<close> inverts the calendar\<close>

definition lsum :: "nat \<Rightarrow> int" where
  "lsum y = int (y div 4) - int (y div 100) + int (y div 400)"

lemma lsum_ystart: "lsum (1969 + k) = int (ystart k) - 365 * int k + 477"
proof -
  have d: "(1969 + k) div 4 = (69 + k) div 4 + 475" "(1969 + k) div 100 = (69 + k) div 100 + 19"
    "(1969 + k) div 400 = (369 + k) div 400 + 4"
    using div_mult_self1 [of 4 "69 + k" 475] div_mult_self1 [of 100 "69 + k" 19]
      div_mult_self1 [of 400 "369 + k" 4] by simp_all
  have "int (ystart k) - 365 * int k =
      int ((69 + k) div 4) - int ((69 + k) div 100) + int ((369 + k) div 400) - 17"
    using ystart_elapsed [of k] unfolding elapsed_nat by linarith
  then show ?thesis unfolding lsum_def d of_nat_add by linarith
qed

lemma lsum_ystart_Suc: "lsum (1970 + k) =
    int (ystart k) - 365 * int k + 477 + (if cal_leap (1970 + k) then 1 else 0)"
  using lsum_ystart [of "Suc k"] by (simp add: year_days_def)

lemma sdiv_lsum: "int y sdiv 4 - int y sdiv 100 + int y sdiv 400 = lsum y"
  by (simp add: lsum_def sdiv_nonneg zdiv_int)

definition mon_days :: "nat \<Rightarrow> int" where "mon_days j = (367 * int j) sdiv 12"

lemma mon_days_late: "2 \<le> m \<Longrightarrow> m < 12 \<Longrightarrow>
    mon_days (m - 1) = int (mstart lp m) - 29 - (if lp then 1 else 0)"
proof -
  assume "2 \<le> m" and "m < 12"
  from this(2) show ?thesis
    by (rule month_cases) (use \<open>2 \<le> m\<close> in \<open>simp_all add: mon_days_def sdiv_nonneg mstart_values\<close>)
qed

text \<open>The day count of \<open>mktime\<close> for a date of the calendar.\<close>

lemma mktime_days:
  assumes "m < 12"
  shows "(let mon = int m - 1; year = 1970 + int k;
      (year, mon) = (if 0 \<ge> mon then (year - 1, mon + 12) else (year, mon))
    in (year sdiv 4 - year sdiv 100 + year sdiv 400 + (367 * mon) sdiv 12 + d) + year * 365 - 719499)
    = int (ystart k + mstart (cal_leap (1970 + k)) m) + d - 1"
proof (cases "2 \<le> m")
  case True
  then have m: "int m - 1 = int (m - 1)" "\<not> 0 \<ge> int (m - 1)" by simp_all
  have y: "(1970 + int k) sdiv 4 - (1970 + int k) sdiv 100 + (1970 + int k) sdiv 400 = lsum (1970 + k)"
    using sdiv_lsum [of "1970 + k"] by simp
  show ?thesis
    using m(2) lsum_ystart_Suc [of k] mon_days_late [OF True assms, of "cal_leap (1970 + k)"]
    unfolding Let_def m(1) by (simp add: y mon_days_def)
next
  case False
  then have m: "m = 0 \<or> m = 1" by linarith
  have y: "(1969 + int k) sdiv 4 - (1969 + int k) sdiv 100 + (1969 + int k) sdiv 400 = lsum (1969 + k)"
    using sdiv_lsum [of "1969 + k"] by simp
  have mon: "4037 sdiv 12 = (336 :: int)" "4404 sdiv 12 = (367 :: int)" by (simp_all add: sdiv_nonneg)
  show ?thesis
    using m lsum_ystart [of k] unfolding Let_def by (auto simp: y mon mstart_values)
qed

lemma mktime_cal:
  assumes "t < 2147483648"
  shows "mktime (cal_tm t) = int t"
proof -
  define n s where "n = t div 86400" and "s = t mod 86400"
  obtain k r m d where n: "n = ystart k + r" and r: "r < year_days (1970 + k)"
    and dt: "cal_date n = (1970 + k, m, d)" and m: "m < 12" and d: "1 \<le> d"
      "d \<le> mlen (cal_leap (1970 + k)) m" and ry: "r = mstart (cal_leap (1970 + k)) m + d - 1"
    by (rule cal_date_split)
  have tm: "tm_year (cal_tm t) + 1900 = 1970 + int k" "tm_mon (cal_tm t) = int m"
    "tm_mday (cal_tm t) = int d" "tm_hour (cal_tm t) = int (s div 3600)"
    "tm_min (cal_tm t) = int (s div 60 mod 60)" "tm_sec (cal_tm t) = int (s mod 60)"
    by (simp_all add: cal_tm_def Let_def n_def [symmetric] s_def [symmetric] dt)
  have days: "int (ystart k + mstart (cal_leap (1970 + k)) m) + int d - 1 = int n"
    using n ry d(1) by simp
  have "s div 60 div 60 = s div 3600" by (simp add: div_mult2_eq [symmetric])
  then have "s div 3600 * 60 + s div 60 mod 60 = s div 60"
    using div_mult_mod_eq [of "s div 60" 60] by simp
  then have "(s div 3600 * 60 + s div 60 mod 60) * 60 + s mod 60 = s" by simp
  then have hms: "(int (s div 3600) * 60 + int (s div 60 mod 60)) * 60 + int (s mod 60) = int s"
    by (metis of_nat_add of_nat_mult of_nat_numeral)
  have t: "int t = int n * 86400 + int s" unfolding n_def s_def by (metis div_mult_mod_eq of_nat_add
      of_nat_mult of_nat_numeral)
  have "k \<le> n" using ystart_ge [of k] n by simp
  moreover have "n \<le> 24855" using div_le_mono [of t 2147483647 86400] assms by (simp add: n_def)
  ultimately have y32: "int32 (1970 + int k) = 1970 + int k" "int32 (1970 + int k - 1) = 1970 + int k - 1"
    by simp_all
  define sum where "sum = (\<lambda>y mon. (y sdiv 4 - y sdiv 100 + y sdiv 400 + (367 * mon) sdiv 12 + int d)
      + y * 365 - 719499)"
  have "sum y mon = int n \<and> int32 y = y"
    if "(y, mon) = (if 0 \<ge> int m - 1 then (1970 + int k - 1, int m - 1 + 12) else (1970 + int k, int m - 1))" for y mon
    using mktime_days [OF m, of k "int d"] days that y32
    unfolding sum_def Let_def by (auto simp only: split: if_splits prod.splits)
  moreover have "\<not> int m \<ge> 12" "\<not> int m < 0" "int m + 1 - 2 = int m - 1" using m by simp_all
  then have "mktime (cal_tm t) = (let
      (y, mon) = (if 0 \<ge> int m - 1 then (1970 + int k - 1, int m - 1 + 12) else (1970 + int k, int m - 1))
    in int32 (((sum (int32 y) mon * 24 + int (s div 3600)) * 60 + int (s div 60 mod 60)) * 60 + int (s mod 60)))"
    unfolding mktime_def tm Let_def sum_def y32 by (simp only: if_False prod.case)
  ultimately have "mktime (cal_tm t) =
      int32 (((int n * 24 + int (s div 3600)) * 60 + int (s div 60 mod 60)) * 60 + int (s mod 60))"
    unfolding Let_def by (auto split: prod.splits)
  also have "((int n * 24 + int (s div 3600)) * 60 + int (s div 60 mod 60)) * 60 + int (s mod 60) =
      int n * 86400 + ((int (s div 3600) * 60 + int (s div 60 mod 60)) * 60 + int (s mod 60))"
    by simp
  also have "int32 \<dots> = int t" unfolding hms t [symmetric] using assms by simp
  finally show ?thesis .
qed

end
