(* ===== verification/RtcSpec.thy ===== *)
theory RtcSpec
  imports Clock Calendar
begin

text \<open>
  What the clock driver does to the calendar: the bit fields of the registers keep what is
  written to them, a device shows a second when its registers read as that second's date,
  setting the time makes it show it, the comparison of the driver is the order of the seconds.
\<close>

section \<open>Bit fields\<close>

lemma bf_get_set_same:
  assumes "lo + w \<le> 32"
  shows "bf_get lo w (bf_set lo w v r) = take_bit w v"
  by (rule bit_word_eqI) (use assms in \<open>auto simp: bf_get_def bf_set_def bit_simps\<close>)

lemma bf_get_set_other:
  assumes "lo' + w' \<le> lo \<or> lo + w \<le> lo'"
  shows "bf_get lo' w' (bf_set lo w v r) = bf_get lo' w' r"
  by (rule bit_word_eqI) (use assms in \<open>auto simp: bf_get_def bf_set_def bit_simps
    dest: bit_imp_le_length\<close>)

lemmas bf_simps = bf_get_set_same bf_get_set_other

lemmas ll_defs = wm_ll_rtc_set_second_def wm_ll_rtc_get_second_def wm_ll_rtc_set_minute_def
  wm_ll_rtc_get_minute_def wm_ll_rtc_set_hour_def wm_ll_rtc_get_hour_def wm_ll_rtc_set_day_def
  wm_ll_rtc_get_day_def wm_ll_rtc_set_month_def wm_ll_rtc_get_month_def wm_ll_rtc_set_year_def
  wm_ll_rtc_get_year_def wm_ll_rtc_timer_enable_def wm_ll_rtc_timer_counting_enable_def

lemma uint_field: "0 \<le> x \<Longrightarrow> x < 2 ^ w \<Longrightarrow> w \<le> 32 \<Longrightarrow> uint (take_bit w (to_u32 x)) = x"
  by (simp add: unsigned_take_bit_eq uint_word_of_int_eq take_bit_take_bit min_def take_bit_int_eq_self)

section \<open>The time in the registers\<close>

definition rtc_time :: "rtc_regs \<Rightarrow> tm \<Rightarrow> tm" where
  "rtc_time hw t = t\<lparr>
     tm_year := uint (wm_ll_rtc_get_year hw), tm_mon := uint (wm_ll_rtc_get_month hw),
     tm_mday := uint (wm_ll_rtc_get_day hw), tm_hour := uint (wm_ll_rtc_get_hour hw),
     tm_min := uint (wm_ll_rtc_get_minute hw), tm_sec := uint (wm_ll_rtc_get_second hw)\<rparr>"

definition tm6 :: "tm \<Rightarrow> int \<times> int \<times> int \<times> int \<times> int \<times> int" where
  "tm6 t = (tm_year t, tm_mon t, tm_mday t, tm_hour t, tm_min t, tm_sec t)"

text \<open>Fields that fit the registers.\<close>

definition hw_fits :: "tm \<Rightarrow> bool" where
  "hw_fits t \<longleftrightarrow> 0 \<le> tm_year t \<and> tm_year t < 2 ^ 7 \<and> 0 \<le> tm_mon t \<and> tm_mon t < 2 ^ 4 \<and>
     0 \<le> tm_mday t \<and> tm_mday t < 2 ^ 5 \<and> 0 \<le> tm_hour t \<and> tm_hour t < 2 ^ 5 \<and>
     0 \<le> tm_min t \<and> tm_min t < 2 ^ 6 \<and> 0 \<le> tm_sec t \<and> tm_sec t < 2 ^ 6"

text \<open>The two enable bits: alarm interrupt and counting.\<close>

definition rtc_armed :: "rtc_regs \<Rightarrow> bool" where
  "rtc_armed hw \<longleftrightarrow> bf_get 31 1 (rtc_r1 hw) = 1 \<and> bf_get 16 1 (rtc_r2 hw) = 1"

lemma rtc_put_time:
  assumes "hw_fits t"
  shows "tm6 (rtc_time (rtc_put hw t) u) = tm6 t"
  using assms by (simp add: tm6_def rtc_time_def rtc_put_def Let_def ll_defs bf_simps hw_fits_def
    uint_field)

lemma rtc_time_enables [simp]:
  "rtc_time (wm_ll_rtc_timer_counting_enable hw v) u = rtc_time hw u"
  "rtc_time (wm_ll_rtc_timer_enable hw v) u = rtc_time hw u"
  by (simp_all add: rtc_time_def ll_defs bf_simps)

lemma rtc_put_enables:
  "bf_get 31 1 (rtc_r1 (rtc_put hw t)) = bf_get 31 1 (rtc_r1 hw)"
  "bf_get 16 1 (rtc_r2 (rtc_put hw t)) = bf_get 16 1 (rtc_r2 hw)"
  by (simp_all add: rtc_put_def Let_def ll_defs bf_simps)

lemma wm_hal_rtc_get_time_spec: "hr_init d \<Longrightarrow>
    wm_hal_rtc_get_time d hw (Some t) = (WM_ERR_SUCCESS, Some (rtc_time hw t))"
  by (simp add: wm_hal_rtc_get_time_def rtc_time_def)

section \<open>Dates the hardware can hold\<close>

definition rtc_secs :: "nat \<Rightarrow> bool" where
  "rtc_secs t \<longleftrightarrow> 946684800 \<le> t \<and> t < 4985971200"

abbreviation to_hw :: "tm \<Rightarrow> tm" where "to_hw \<equiv> wm_800_rtc_std_time_conversion True"
abbreviation from_hw :: "tm \<Rightarrow> tm" where "from_hw \<equiv> wm_800_rtc_std_time_conversion False"

text \<open>The device shows the second \<open>t\<close>.\<close>

definition rtc_shows :: "rtc_regs \<Rightarrow> nat \<Rightarrow> bool" where
  "rtc_shows hw t \<longleftrightarrow> tm6 (from_hw (rtc_time hw tm_zero)) = tm6 (cal_tm t)"

lemma ystart_30: "ystart 30 = 10957"
  using ystart_elapsed [of 30] by (simp add: elapsed_nat [of 30, simplified])

lemma ystart_158: "ystart 158 = 57708"
  using ystart_elapsed [of 158] by (simp add: elapsed_nat [of 158, simplified])

lemma cal_tm_fields:
  obtains y m d where "cal_date (t div 86400) = (1970 + y, m, d)" and "m < 12" and "1 \<le> d"
    and "d \<le> mlen (cal_leap (1970 + y)) m" and "d \<le> 31"
    and "tm_year (cal_tm t) = int y + 70" and "tm_mon (cal_tm t) = int m"
    and "tm_mday (cal_tm t) = int d"
    and "rtc_secs t \<Longrightarrow> 30 \<le> y \<and> y \<le> 157"
proof -
  obtain k r m d where n: "t div 86400 = ystart k + r" and r: "r < year_days (1970 + k)"
    and dt: "cal_date (t div 86400) = (1970 + k, m, d)" and m: "m < 12" and d: "1 \<le> d"
      "d \<le> mlen (cal_leap (1970 + k)) m"
    by (rule cal_date_split)
  have "30 \<le> k \<and> k \<le> 157" if "rtc_secs t"
  proof -
    have lo: "10957 \<le> t div 86400" and hi: "t div 86400 < 57708"
      using that by (simp_all add: rtc_secs_def div_le_mono [of 946684800 t 86400, simplified]
        less_mult_imp_div_less)
    have "\<not> k < 30" using ystart_mono [of "Suc k" 30] n r lo by (auto simp: ystart_30)
    moreover have "\<not> 158 \<le> k" using ystart_mono [of 158 k] n hi by (auto simp: ystart_158)
    ultimately show ?thesis by simp
  qed
  moreover have "d \<le> 31" using mlen_bounds [OF m, of "cal_leap (1970 + k)"] d by simp
  ultimately show ?thesis
    by (intro that [OF dt m d]) (simp_all add: cal_tm_def dt Let_def)
qed

lemma cal_tm_hms:
  "tm_hour (cal_tm t) = int (t mod 86400 div 3600)"
  "tm_min (cal_tm t) = int (t mod 86400 div 60 mod 60)"
  "tm_sec (cal_tm t) = int (t mod 86400 mod 60)"
  by (simp_all add: cal_tm_def Let_def split: prod.splits)

lemma hour_lt: "t mod 86400 div 3600 < (24 :: nat)"
  by (simp add: less_mult_imp_div_less)

lemma cal_tm_available:
  assumes "rtc_secs t"
  shows "wm_drv_time_is_available (cal_tm t)"
proof -
  obtain y m d where f: "m < 12" "1 \<le> d" "d \<le> mlen (cal_leap (1970 + y)) m" "d \<le> 31"
    "tm_year (cal_tm t) = int y + 70" "tm_mon (cal_tm t) = int m" "tm_mday (cal_tm t) = int d"
    "30 \<le> y" "y \<le> 157"
    by (rule cal_tm_fields [of t]) (use assms in blast)
  have lp: "(int y + 1970) smod 4 = 0 \<and> ((int y + 1970) smod 100 \<noteq> 0 \<or> (int y + 1970) smod 400 = 0)
      \<longleftrightarrow> cal_leap (1970 + y)"
    using isleap_cal [of "1970 + y"] by (simp add: isleap_def add.commute)
  have feb: "m = 1 \<Longrightarrow> (if cal_leap (1970 + y) then \<not> int d > 29 else \<not> int d > 28)"
    using f(3) by (simp add: mlen_values split: if_splits)
  have short: "m \<in> {3, 5, 8, 10} \<Longrightarrow> \<not> int d > 30"
    using f(3) by (auto simp: mlen_values)
  have mset: "int m \<in> {3, 5, 8, 10} \<longleftrightarrow> m \<in> {3, 5, 8, 10}" "int m = 1 \<longleftrightarrow> m = 1" by auto
  have "t mod 86400 div 60 mod 60 < 60" "t mod 86400 mod 60 < 60" by simp_all
  then have hms: "\<not> (tm_hour (cal_tm t) < 0 \<or> tm_hour (cal_tm t) > 23)"
    "\<not> (tm_min (cal_tm t) < 0 \<or> tm_min (cal_tm t) > 59)"
    "\<not> (tm_sec (cal_tm t) < 0 \<or> tm_sec (cal_tm t) > 59)"
    using hour_lt [of t] by (simp_all add: cal_tm_hms)
  have date: "\<not> (int y + 70 < 2000 - 1900 \<or> int y + 70 > 2127 - 1900)"
    "\<not> (int m < 0 \<or> int m > 11)" "\<not> (int d \<le> 0 \<or> int d > 31)"
    using f by simp_all
  have yr: "int y + 70 + 1900 = int y + 1970" by simp
  show ?thesis
    unfolding wm_drv_time_is_available_def f(5-7) Let_def yr lp mset
    using date hms feb short by (cases "m = 1") auto
qed

lemma to_hw_fits:
  assumes "rtc_secs t"
  shows "hw_fits (to_hw (cal_tm t))"
proof -
  obtain y m d where f: "m < 12" "d \<le> 31"
    "tm_year (cal_tm t) = int y + 70" "tm_mon (cal_tm t) = int m" "tm_mday (cal_tm t) = int d"
    "30 \<le> y" "y \<le> 157"
    by (rule cal_tm_fields [of t]) (use assms in blast)
  have "t mod 86400 div 60 mod 60 < 64" "t mod 86400 mod 60 < 64"
    by (rule order_less_le_trans [of _ 60], simp_all)+
  then show ?thesis
    using f hour_lt [of t]
    by (simp add: hw_fits_def wm_800_rtc_std_time_conversion_def cal_tm_hms)
qed

lemma tm6_conversion:
  "tm6 t = tm6 u \<Longrightarrow> tm6 (wm_800_rtc_std_time_conversion b t) = tm6 (wm_800_rtc_std_time_conversion b u)"
  "tm6 (from_hw (to_hw t)) = tm6 t" "tm6 (to_hw (from_hw t)) = tm6 t"
  by (auto simp: tm6_def wm_800_rtc_std_time_conversion_def)

lemma rtc_put_shows:
  assumes "rtc_secs t"
  shows "rtc_shows (rtc_put hw (to_hw (cal_tm t))) t"
proof -
  have "tm6 (rtc_time (rtc_put hw (to_hw (cal_tm t))) tm_zero) = tm6 (to_hw (cal_tm t))"
    by (rule rtc_put_time [OF to_hw_fits [OF assms]])
  then show ?thesis unfolding rtc_shows_def
    using tm6_conversion(1) [of _ _ False] tm6_conversion(2) by metis
qed

lemma rtc_shows_enables [simp]:
  "rtc_shows (wm_ll_rtc_timer_counting_enable hw v) t = rtc_shows hw t"
  "rtc_shows (wm_ll_rtc_timer_enable hw v) t = rtc_shows hw t"
  by (simp_all add: rtc_shows_def)

lemma mktime_tm6: "tm6 t = tm6 u \<Longrightarrow> mktime t = mktime u"
  unfolding tm6_def prod.inject mktime_def by (elim conjE) (simp only:)

section \<open>The order of dates\<close>

definition compare6 :: "int \<times> int \<times> int \<times> int \<times> int \<times> int \<Rightarrow>
    int \<times> int \<times> int \<times> int \<times> int \<times> int \<Rightarrow> int" where
  "compare6 = (\<lambda>(y, mo, d, h, mi, s) (y', mo', d', h', mi', s').
     if y \<noteq> y' then if y < y' then -1 else 1
     else if mo \<noteq> mo' then if mo < mo' then -1 else 1
     else if d \<noteq> d' then if d < d' then -1 else 1
     else if h \<noteq> h' then if h < h' then -1 else 1
     else if mi \<noteq> mi' then if mi < mi' then -1 else 1
     else if s \<noteq> s' then if s < s' then -1 else 1 else 0)"

lemma compare_6: "wm_drv_rtc_time_compare t u = compare6 (tm6 t) (tm6 u)"
  by (simp add: wm_drv_rtc_time_compare_def compare6_def tm6_def)

lemma compare_sym: "wm_drv_rtc_time_compare u t = - wm_drv_rtc_time_compare t u"
  by (auto simp: wm_drv_rtc_time_compare_def)

lemma compare_to_hw: "wm_drv_rtc_time_compare (to_hw t) (to_hw u) = wm_drv_rtc_time_compare t u"
  by (simp add: wm_drv_rtc_time_compare_def wm_800_rtc_std_time_conversion_def)

lemma day_no_less:
  assumes v: "is_date (y, m, d)" "is_date (y', m', d')"
    and lt: "y < y' \<or> y = y' \<and> (m < m' \<or> m = m' \<and> d < d')"
  shows "day_no (y, m, d) < day_no (y', m', d')"
proof -
  have y: "1970 \<le> y" "1970 \<le> y'" "1 \<le> d" "1 \<le> d'" "d \<le> mlen (cal_leap y) m"
    using v by (auto simp: is_date_def)
  consider "y < y'" | "y = y'" "m < m'" | "y = y'" "m = m'" "d < d'" using lt by blast
  then show ?thesis
  proof cases
    case 1
    have "ystart (Suc (y - 1970)) \<le> ystart (y' - 1970)"
      by (rule ystart_mono) (use 1 y in arith)
    moreover have "1970 + (y - 1970) = y" using y by simp
    ultimately show ?thesis using date_yday [OF v(1)] y by (simp add: day_no_def)
  next
    case 2
    have "mstart (cal_leap y) (Suc m) \<le> mstart (cal_leap y) m'" by (rule mstart_le) (use 2 in simp)
    then show ?thesis using 2 y by (simp add: day_no_def)
  next
    case 3
    then show ?thesis using y by (simp add: day_no_def)
  qed
qed

lemma hms_less:
  assumes "s < s'" and h: "s div 3600 = h" "s div 60 mod 60 = m" "s mod 60 = x"
    and h': "s' div 3600 = h'" "s' div 60 mod 60 = m'" "s' mod 60 = (x' :: nat)"
  shows "h < h' \<or> h = h' \<and> (m < m' \<or> m = m' \<and> x < x')"
proof -
  have e: "s = h * 3600 + m * 60 + x" if "s div 3600 = h" "s div 60 mod 60 = m" "s mod 60 = x"
    for s h m x :: nat
  proof -
    have "s div 60 div 60 = s div 3600" by (simp add: div_mult2_eq [symmetric])
    then have "s div 60 = h * 60 + m" using that div_mult_mod_eq [of "s div 60" 60] by simp
    then show ?thesis using that div_mult_mod_eq [of s 60] by simp
  qed
  have b: "m < 60" "x < 60" "m' < 60" "x' < 60" using h h' by auto
  have lt: "h * 3600 + m * 60 + x < h' * 3600 + m' * 60 + x'"
    using e [OF h] e [OF h'] assms(1) by simp
  have "\<not> h' < h" using lt b by linarith
  moreover have "\<not> (h = h' \<and> m' < m)" using lt b by linarith
  moreover have "\<not> (h = h' \<and> m = m' \<and> x' \<le> x)" using lt by auto
  ultimately show ?thesis by linarith
qed

lemma compare6_date_less:
  assumes "y < y' \<or> y = y' \<and> (m < m' \<or> m = m' \<and> d < d')"
  shows "compare6 (y, m, d, h) (y', m', d', h') = -1"
  using assms by (cases h; cases h') (auto simp: compare6_def)

lemma compare6_hms_less:
  assumes "h < h' \<or> h = h' \<and> (i < i' \<or> i = i' \<and> x < x')"
  shows "compare6 (y, m, d, h, i, x) (y, m, d, h', i', x') = -1"
  using assms by (auto simp: compare6_def)

text \<open>The driver's comparison of two dates is the order of the seconds they stand for.\<close>

lemma compare_cal_less:
  assumes "t < u"
  shows "wm_drv_rtc_time_compare (cal_tm t) (cal_tm u) = -1"
proof -
  let ?s = "t mod 86400" and ?s' = "u mod 86400"
  obtain y m d where a: "cal_date (t div 86400) = (y, m, d)" by (cases "cal_date (t div 86400)") auto
  obtain y' m' d' where b: "cal_date (u div 86400) = (y', m', d')"
    by (cases "cal_date (u div 86400)") auto
  have v: "is_date (y, m, d)" "is_date (y', m', d')"
    and n: "day_no (y, m, d) = t div 86400" "day_no (y', m', d') = u div 86400"
    using cal_date_spec [of "t div 86400"] cal_date_spec [of "u div 86400"] a b by simp_all
  have le: "t div 86400 \<le> u div 86400" using assms by (simp add: div_le_mono)
  have f: "tm6 (cal_tm t) = (int y - 1900, int m, int d, int (?s div 3600), int (?s div 60 mod 60), int (?s mod 60))"
    "tm6 (cal_tm u) = (int y' - 1900, int m', int d', int (?s' div 3600), int (?s' div 60 mod 60), int (?s' mod 60))"
    by (simp_all add: tm6_def cal_tm_def Let_def a b)
  show ?thesis
  proof (cases "t div 86400 = u div 86400")
    case True
    then have same: "y = y'" "m = m'" "d = d'" using a b by simp_all
    have "?s < ?s'" using assms True div_mult_mod_eq [of t 86400] div_mult_mod_eq [of u 86400] by linarith
    from hms_less [OF this refl refl refl refl refl refl]
    show ?thesis unfolding compare_6 f same
      by (intro compare6_hms_less) (simp only: of_nat_less_iff of_nat_eq_iff)
  next
    case False
    then have "t div 86400 < u div 86400" using le by simp
    then have "\<not> (y' < y \<or> y' = y \<and> (m' < m \<or> m' = m \<and> d' < d))" and "(y, m, d) \<noteq> (y', m', d')"
      using day_no_less [OF v(2) v(1)] n by auto
    then have "y < y' \<or> y = y' \<and> (m < m' \<or> m = m' \<and> d < d')" by auto
    then show ?thesis unfolding compare_6 f by (intro compare6_date_less) simp
  qed
qed

lemma compare_cal: "wm_drv_rtc_time_compare (cal_tm t) (cal_tm u) \<le> 0 \<longleftrightarrow> t \<le> u"
proof (cases "t \<le> u")
  case True
  have "wm_drv_rtc_time_compare x x = 0" for x by (simp add: wm_drv_rtc_time_compare_def)
  then show ?thesis using True compare_cal_less [of t u] by (cases "t = u") simp_all
next
  case False
  then show ?thesis
    using compare_cal_less [of u t] compare_sym [of "cal_tm t" "cal_tm u"] by simp
qed

lemma compare_shows:
  assumes "rtc_shows hw u"
  shows "wm_drv_rtc_time_compare (to_hw (cal_tm t)) (rtc_time hw tm_zero) =
    wm_drv_rtc_time_compare (cal_tm t) (cal_tm u)"
proof -
  have "tm6 (rtc_time hw tm_zero) = tm6 (to_hw (cal_tm u))"
    using assms tm6_conversion(1) [of _ _ True] tm6_conversion(3) unfolding rtc_shows_def by metis
  then show ?thesis using compare_to_hw by (simp add: compare_6)
qed

end
