(* ===== verification/ClockSpec.thy ===== *)
theory ClockSpec
  imports RtcSpec
begin

text \<open>
  The invariant of the clock device and its preservation by every operation, the runs of the
  device as a step relation, and what setting, reading and restarting do to the time of day.
\<close>

section \<open>Invariant\<close>

definition alarm_ok :: "rtc_regs \<Rightarrow> rtc_alarm \<Rightarrow> bool" where
  "alarm_ok hw a \<longleftrightarrow> (al_active a \<longrightarrow> rtc_armed hw \<and> hw_fits (al_time a))"

definition rtc_ok :: "rtc_dev \<Rightarrow> bool" where
  "rtc_ok dev \<longleftrightarrow> (rd_state dev = DEV_INITED \<longleftrightarrow> rd_drv dev \<noteq> None) \<and>
     (\<forall>d. rd_drv dev = Some d \<longrightarrow> hr_init (rd_hal d) \<and> length (rd_alarm d) = 1 \<and>
        (\<forall>a \<in> set (rd_alarm d). alarm_ok (rd_regs dev) a))"

definition rtc_env_ok :: "rtc_env \<Rightarrow> bool" where
  "rtc_env_ok e \<longleftrightarrow> alloc_ok e RTC_DATA_SIZE \<and> mutex_create_ret e = 0 \<and>
     mutex_acquire_ret e = 0 \<and> pmu_dev e \<and> pmu_register_ret e = 0"

lemma rtc_okI:
  assumes "rd_state dev = DEV_INITED" and "rd_drv dev = Some d" and "hr_init (rd_hal d)"
    and "rd_alarm d = [a]" and "alarm_ok (rd_regs dev) a"
  shows "rtc_ok dev"
  using assms by (simp add: rtc_ok_def One_nat_def)

lemma rtc_okE:
  assumes "rtc_ok dev" and "rd_drv dev = Some d"
  obtains a where "rd_state dev = DEV_INITED" and "hr_init (rd_hal d)" and "rd_alarm d = [a]"
    and "alarm_ok (rd_regs dev) a"
proof -
  have "length (rd_alarm d) = Suc 0" using assms by (simp add: rtc_ok_def One_nat_def)
  then obtain a where "rd_alarm d = [a]" by (auto simp: length_Suc_conv)
  then show ?thesis using that assms by (auto simp: rtc_ok_def)
qed

lemma rtc_ok_none: "rtc_ok dev \<Longrightarrow> rd_drv dev = None \<longleftrightarrow> rd_state dev \<noteq> DEV_INITED"
  by (auto simp: rtc_ok_def)

lemma inactive_ok [simp]: "\<not> al_active a \<Longrightarrow> alarm_ok hw a"
  by (simp add: alarm_ok_def)

lemma rtc_bad_id_iff: "\<not> rtc_bad_id i \<longleftrightarrow> i = 0"
  by (auto simp: rtc_bad_id_def)

lemma rtc_upd_alarm_0: "rd_alarm d = [a] \<Longrightarrow>
    rtc_upd_alarm dev d 0 f = dev\<lparr>rd_drv := Some (d\<lparr>rd_alarm := [f a]\<rparr>)\<rparr>"
  by (simp add: rtc_upd_alarm_def)

section \<open>Every operation keeps the invariant\<close>

lemma init_ok:
  assumes "rtc_ok dev"
  shows "rtc_ok (snd (wm_w800_drv_rtc_init e dev))"
proof (cases "rd_state dev = DEV_INITED")
  case True
  then show ?thesis using assms by (simp add: wm_w800_drv_rtc_init_def)
next
  case False
  then show ?thesis using assms
    by (simp add: wm_w800_drv_rtc_init_def rtc_data_zero_def wm_hal_rtc_init_def rtc_ok_def
      Let_def One_nat_def split: prod.splits)
qed

lemma deinit_ok: "rtc_ok dev \<Longrightarrow> wm_w800_drv_rtc_deinit e dev = Some (r, dev') \<Longrightarrow> rtc_ok dev'"
  by (auto simp: wm_w800_drv_rtc_deinit_def wm_hal_rtc_deinit_def rtc_ok_def Let_def
    split: if_splits option.splits)

lemma set_time_ok:
  assumes "rtc_ok dev"
  shows "rtc_ok (snd (wm_w800_drv_rtc_set_time e dev t))"
proof (cases "rd_drv dev")
  case None
  then show ?thesis using assms by (simp add: wm_w800_drv_rtc_set_time_def)
next
  case (Some d)
  then show ?thesis
    using rtc_okE [OF assms Some] assms
    by (auto simp: wm_w800_drv_rtc_set_time_def wm_hal_rtc_set_time_def Let_def rtc_ok_def)
qed

lemma register_ok:
  assumes "rtc_ok dev"
  shows "rtc_ok (snd (wm_w800_drv_rtc_register_alarm_callback e dev i cb u))"
proof (cases "rd_drv dev")
  case None
  then show ?thesis using assms by (simp add: wm_w800_drv_rtc_register_alarm_callback_def)
next
  case (Some d)
  from assms Some obtain a where d: "rd_state dev = DEV_INITED" "hr_init (rd_hal d)"
    "rd_alarm d = [a]" "alarm_ok (rd_regs dev) a" by (rule rtc_okE)
  have "rtc_ok (rtc_upd_alarm dev d 0 (\<lambda>a. a\<lparr>al_cb := cb, al_user := u\<rparr>))"
    using d by (intro rtc_okI [where d = "d\<lparr>rd_alarm := [a\<lparr>al_cb := cb, al_user := u\<rparr>]\<rparr>" and a = "a\<lparr>al_cb := cb, al_user := u\<rparr>"])
      (auto simp: rtc_upd_alarm_0 alarm_ok_def)
  then show ?thesis using assms Some
    by (auto simp: wm_w800_drv_rtc_register_alarm_callback_def rtc_bad_id_iff split: if_splits)
qed

lemma put_alarm_armed:
  assumes "hr_init hal"
  shows "rtc_armed (snd (wm_hal_rtc_set_alarm hal hw (Some t)))"
proof -
  have "(1 :: u32w) = take_bit 1 1" by simp
  then show ?thesis using assms
    by (simp add: wm_hal_rtc_set_alarm_def rtc_armed_def Let_def wm_ll_rtc_timer_enable_def
      wm_ll_rtc_timer_counting_enable_def bf_simps)
qed

lemma available_fits: "wm_drv_time_is_available t \<Longrightarrow> hw_fits (to_hw t)"
  by (auto simp: wm_drv_time_is_available_def hw_fits_def wm_800_rtc_std_time_conversion_def
    split: if_splits)

lemma abort_ok:
  assumes "rtc_ok dev"
  shows "rtc_ok (snd (wm_w800_drv_rtc_abort_alarm e dev i))"
proof (cases "rd_drv dev")
  case None
  then show ?thesis using assms by (simp add: wm_w800_drv_rtc_abort_alarm_def)
next
  case (Some d)
  from assms Some obtain a where d: "rd_state dev = DEV_INITED" "hr_init (rd_hal d)"
    "rd_alarm d = [a]" by (rule rtc_okE)
  then have "rtc_ok ((rtc_upd_alarm dev d 0 (\<lambda>a. a\<lparr>al_active := False\<rparr>))\<lparr>rd_regs := hw\<rparr>)" for hw
    by (intro rtc_okI [where d = "d\<lparr>rd_alarm := [a\<lparr>al_active := False\<rparr>]\<rparr>"
        and a = "a\<lparr>al_active := False\<rparr>"]) (auto simp: rtc_upd_alarm_0)
  then show ?thesis using assms Some
    by (auto simp: wm_w800_drv_rtc_abort_alarm_def rtc_bad_id_iff Let_def split: prod.splits)
qed

lemma rtc_fire_1: "rtc_fire now [a] =
    (if al_active a \<and> wm_drv_rtc_time_compare (al_time a) now \<le> 0
     then ([a\<lparr>al_active := False\<rparr>], (case al_cb a of None \<Rightarrow> [] | Some cb \<Rightarrow> [(cb, al_user a)]))
     else ([a], []))"
  by (auto simp: Let_def)

text \<open>The interrupt of a device that keeps the invariant.\<close>

lemma callback_spec:
  assumes "rtc_ok dev" and d: "rd_drv dev = Some d" and a: "rd_alarm d = [a]"
  shows "wm_800_rtc_callback dev =
    (if al_active a \<and> wm_drv_rtc_time_compare (al_time a) (rtc_time (rd_regs dev) tm_zero) \<le> 0
     then Some (dev\<lparr>rd_drv := Some (d\<lparr>rd_alarm := [a\<lparr>al_active := False\<rparr>]\<rparr>)\<rparr>,
                case al_cb a of None \<Rightarrow> [] | Some cb \<Rightarrow> [(cb, al_user a)])
     else Some (dev\<lparr>rd_drv := Some (d\<lparr>rd_alarm := [a]\<rparr>)\<rparr>, []))"
proof -
  have "hr_init (rd_hal d)" using assms(1) d by (auto elim: rtc_okE)
  then show ?thesis
    by (simp add: wm_800_rtc_callback_def d a wm_hal_rtc_get_time_spec rtc_fire_1 del: rtc_fire.simps)
qed

lemma callback_ok:
  assumes "rtc_ok dev" and "wm_800_rtc_callback dev = Some (dev', calls)"
  shows "rtc_ok dev'"
proof -
  obtain d where d: "rd_drv dev = Some d"
    using assms(2) by (auto simp: wm_800_rtc_callback_def split: option.splits)
  from assms(1) d obtain a where r: "rd_state dev = DEV_INITED" "hr_init (rd_hal d)"
    "rd_alarm d = [a]" "alarm_ok (rd_regs dev) a" by (rule rtc_okE)
  show ?thesis using assms(2) r
    by (auto simp: callback_spec [OF assms(1) d r(3)] rtc_ok_def One_nat_def split: if_splits)
qed

text \<open>The alarm is set exactly when everything is in range and it lies in the future.\<close>

lemma set_alarm_cases:
  assumes "rtc_ok dev" and d: "rd_drv dev = Some d" and a: "rd_alarm d = [a]"
  shows "wm_w800_drv_rtc_set_alarm e dev i msk t =
    (if i \<noteq> 0 \<or> \<not> wm_drv_time_is_available t then (WM_ERR_INVALID_PARAM, dev)
     else if mutex_acquire_ret e \<noteq> 0 \<or> msk \<noteq> 0 \<or>
       wm_drv_rtc_time_compare (to_hw t) (rtc_time (rd_regs dev) tm_zero) \<le> 0
     then (WM_ERR_FAILED, dev)
     else (WM_ERR_SUCCESS, dev\<lparr>
       rd_drv := Some (d\<lparr>rd_alarm := [a\<lparr>al_time := to_hw t, al_active := True\<rparr>]\<rparr>),
       rd_regs := snd (wm_hal_rtc_set_alarm (rd_hal d) (rd_regs dev) (Some (to_hw t)))\<rparr>))"
proof -
  have h: "hr_init (rd_hal d)" using assms(1) d by (auto elim: rtc_okE)
  have m: "msk AND NOT (0 :: int) = msk" by simp
  show ?thesis using rtc_bad_id_iff [of i]
    by (auto simp: wm_w800_drv_rtc_set_alarm_def d h wm_hal_rtc_get_supported_mask_def m
      wm_hal_rtc_get_time_spec rtc_upd_alarm_0 [OF a] Let_def wm_hal_rtc_set_alarm_def)
qed

lemma set_alarm_ok:
  assumes "rtc_ok dev"
  shows "rtc_ok (snd (wm_w800_drv_rtc_set_alarm e dev i msk t))"
proof (cases "rd_drv dev")
  case None
  then show ?thesis using assms by (simp add: wm_w800_drv_rtc_set_alarm_def)
next
  case (Some d)
  from assms Some obtain a where r: "rd_state dev = DEV_INITED" "hr_init (rd_hal d)"
    "rd_alarm d = [a]" by (rule rtc_okE)
  let ?a = "a\<lparr>al_time := to_hw t, al_active := True\<rparr>"
  have "rtc_ok (dev\<lparr>rd_drv := Some (d\<lparr>rd_alarm := [?a]\<rparr>),
      rd_regs := snd (wm_hal_rtc_set_alarm (rd_hal d) (rd_regs dev) (Some (to_hw t)))\<rparr>)"
    if "wm_drv_time_is_available t"
    by (rule rtc_okI [where d = "d\<lparr>rd_alarm := [?a]\<rparr>" and a = ?a])
      (use r available_fits [OF that] put_alarm_armed [OF r(2)] in \<open>simp_all add: alarm_ok_def\<close>)
  then show ?thesis using assms unfolding set_alarm_cases [OF assms Some r(3)] by simp
qed

section \<open>The life of an alarm\<close>

lemma alarm_set:
  assumes "rtc_ok dev" and "rd_state dev = DEV_INITED" and "rd_ops dev" and "mutex_acquire_ret e = 0"
    and "rtc_secs t" and "rtc_shows (rd_regs dev) now" and "now < t"
  obtains dev1 dev2 d a
  where "wm_drv_rtc_register_alarm_callback e (Some dev) 0 (Some cb) ud = (0, Some dev1)"
    and "wm_drv_rtc_set_alarm e (Some dev1) 0 0 (cal_tm t) = (0, Some dev2)"
    and "rtc_ok dev2" and "rd_ops dev2" and "rd_drv dev2 = Some d"
    and "rd_alarm d = [a]" and "al_active a" and "al_time a = to_hw (cal_tm t)"
    and "al_cb a = Some cb" and "al_user a = ud"
proof -
  obtain d where d: "rd_drv dev = Some d" using assms(1,2) rtc_ok_none by blast
  from assms(1) d obtain a where r: "hr_init (rd_hal d)" "rd_alarm d = [a]" by (rule rtc_okE)
  let ?a1 = "a\<lparr>al_cb := Some cb, al_user := ud\<rparr>"
  let ?d1 = "d\<lparr>rd_alarm := [?a1]\<rparr>"
  let ?dev1 = "dev\<lparr>rd_drv := Some ?d1\<rparr>"
  let ?a2 = "?a1\<lparr>al_time := to_hw (cal_tm t), al_active := True\<rparr>"
  let ?d2 = "?d1\<lparr>rd_alarm := [?a2]\<rparr>"
  let ?dev2 = "?dev1\<lparr>rd_drv := Some ?d2,
    rd_regs := snd (wm_hal_rtc_set_alarm (rd_hal ?d1) (rd_regs dev) (Some (to_hw (cal_tm t))))\<rparr>"
  have reg: "wm_w800_drv_rtc_register_alarm_callback e dev 0 (Some cb) ud = (0, ?dev1)"
    using assms(4) by (simp add: wm_w800_drv_rtc_register_alarm_callback_def d rtc_bad_id_def
      rtc_upd_alarm_0 [OF r(2)])
  have ok1: "rtc_ok ?dev1" using register_ok [OF assms(1), of e 0 "Some cb" ud] reg by simp
  have "\<not> wm_drv_rtc_time_compare (to_hw (cal_tm t)) (rtc_time (rd_regs dev) tm_zero) \<le> 0"
    unfolding compare_shows [OF assms(6)] compare_cal using assms(7) by simp
  then have set: "wm_w800_drv_rtc_set_alarm e ?dev1 0 0 (cal_tm t) = (0, ?dev2)"
    using set_alarm_cases [OF ok1, of ?d1 ?a1 e 0 0 "cal_tm t"] cal_tm_available [OF assms(5)] assms(4)
    by simp
  have "rtc_ok ?dev2" using set_alarm_ok [OF ok1, of e 0 0 "cal_tm t"] set by simp
  with assms(2,3) reg set show ?thesis
    by (intro that [of ?dev1 ?dev2 ?d2 ?a2]) (simp_all add: wm_drv_rtc_register_alarm_callback_def
      wm_drv_rtc_set_alarm_def rtc_front_def)
qed

lemma alarm_irq:
  assumes "rtc_ok dev" and d: "rd_drv dev = Some d" and a: "rd_alarm d = [a]" and "al_active a"
    and "al_time a = to_hw (cal_tm t)" and "al_cb a = Some cb" and "rtc_shows hw u"
  shows "wm_800_rtc_callback (dev\<lparr>rd_regs := hw\<rparr>) =
    Some (dev\<lparr>rd_regs := hw, rd_drv := Some (d\<lparr>rd_alarm := [a\<lparr>al_active := u < t\<rparr>]\<rparr>)\<rparr>,
          if t \<le> u then [(cb, al_user a)] else [])"
proof -
  have h: "hr_init (rd_hal d)" using assms(1) d by (auto elim: rtc_okE)
  have due: "wm_drv_rtc_time_compare (al_time a) (rtc_time hw tm_zero) \<le> 0 \<longleftrightarrow> t \<le> u"
    unfolding assms(5) compare_shows [OF assms(7)] compare_cal ..
  show ?thesis
  proof (cases "t \<le> u")
    case True
    then show ?thesis by (simp add: wm_800_rtc_callback_def d a wm_hal_rtc_get_time_spec [OF h]
      rtc_fire_1 due assms(4,6) del: rtc_fire.simps)
  next
    case False
    then have "a\<lparr>al_active := u < t\<rparr> = a" using assms(4) by simp
    with False show ?thesis by (simp add: wm_800_rtc_callback_def d a
      wm_hal_rtc_get_time_spec [OF h] rtc_fire_1 due del: rtc_fire.simps)
  qed
qed

section \<open>Runs of the device\<close>

text \<open>
  Any interleaving of the operations, the interrupt and the hardware, which counts the time and
  leaves the two enable bits.
\<close>

inductive rtc_step :: "rtc_dev \<Rightarrow> rtc_dev \<Rightarrow> bool" where
  step_init: "rtc_step dev (snd (wm_w800_drv_rtc_init e dev))"
| step_deinit: "wm_w800_drv_rtc_deinit e dev = Some (r, dev') \<Longrightarrow> rtc_step dev dev'"
| step_set_time: "rtc_step dev (snd (wm_w800_drv_rtc_set_time e dev t))"
| step_set_alarm: "rtc_step dev (snd (wm_w800_drv_rtc_set_alarm e dev i msk t))"
| step_abort: "rtc_step dev (snd (wm_w800_drv_rtc_abort_alarm e dev i))"
| step_register: "rtc_step dev (snd (wm_w800_drv_rtc_register_alarm_callback e dev i cb u))"
| step_irq: "wm_800_rtc_callback dev = Some (dev', calls) \<Longrightarrow> rtc_step dev dev'"
| step_hw: "rtc_armed hw = rtc_armed (rd_regs dev) \<Longrightarrow> rtc_step dev (dev\<lparr>rd_regs := hw\<rparr>)"

inductive rtc_run :: "rtc_dev \<Rightarrow> rtc_dev \<Rightarrow> bool" where
  run_refl: "rtc_run dev dev"
| run_step: "rtc_run dev dev' \<Longrightarrow> rtc_step dev' dev'' \<Longrightarrow> rtc_run dev dev''"

lemma rtc_step_ok: "rtc_step dev dev' \<Longrightarrow> rtc_ok dev \<Longrightarrow> rtc_ok dev'"
proof (induction rule: rtc_step.induct)
  case (step_hw hw dev)
  then show ?case by (auto simp: rtc_ok_def alarm_ok_def)
qed (auto intro: init_ok deinit_ok set_time_ok set_alarm_ok abort_ok register_ok callback_ok)

lemma rtc_run_ok: "rtc_run dev dev' \<Longrightarrow> rtc_ok dev \<Longrightarrow> rtc_ok dev'"
  by (induction rule: rtc_run.induct) (auto intro: rtc_step_ok)

section \<open>Time of day\<close>

lemma rtc_set_time_shows:
  assumes "rtc_ok dev" and "rd_state dev = DEV_INITED" and "mutex_acquire_ret e = 0"
    and "rtc_secs t"
  obtains dev' where "wm_w800_drv_rtc_set_time e dev (cal_tm t) = (WM_ERR_SUCCESS, dev')"
    and "rtc_shows (rd_regs dev') t" and "rd_state dev' = DEV_INITED" and "rd_ops dev' = rd_ops dev"
proof -
  obtain d where d: "rd_drv dev = Some d" using assms(1,2) rtc_ok_none by blast
  have "hr_init (rd_hal d)" using assms(1) d by (auto elim: rtc_okE)
  then show ?thesis
    by (intro that [of "snd (wm_w800_drv_rtc_set_time e dev (cal_tm t))"])
      (use assms d in \<open>auto simp: wm_w800_drv_rtc_set_time_def cal_tm_available
      wm_hal_rtc_set_time_def Let_def rtc_put_shows\<close>)
qed

lemma rtc_get_time_shows:
  assumes "rtc_ok dev" and "rd_state dev = DEV_INITED" and "mutex_acquire_ret e = 0"
    and "rtc_shows (rd_regs dev) t"
  obtains x where "wm_w800_drv_rtc_get_time e dev (Some tm_zero) = (WM_ERR_SUCCESS, Some x)"
    and "tm6 x = tm6 (cal_tm t)"
proof -
  obtain d where d: "rd_drv dev = Some d" using assms(1,2) rtc_ok_none by blast
  have h: "hr_init (rd_hal d)" using assms(1) d by (auto elim: rtc_okE)
  let ?x = "(from_hw (rtc_time (rd_regs dev) tm_zero))\<lparr>tm_wday := -1, tm_yday := -1, tm_isdst := -1\<rparr>"
  have "tm6 ?x = tm6 (cal_tm t)" using assms(4) by (simp add: rtc_shows_def tm6_def)
  moreover have "wm_w800_drv_rtc_get_time e dev (Some tm_zero) = (WM_ERR_SUCCESS, Some ?x)"
    using assms(3) by (simp add: wm_w800_drv_rtc_get_time_def d wm_hal_rtc_get_time_spec [OF h])
  ultimately show ?thesis using that by blast
qed

text \<open>What both time functions do first: afterwards the device is initialised and shows the same
  time as before.\<close>

lemma init_ready:
  assumes "rtc_ok dev" and "rd_ops dev" and "rtc_env_ok e"
  obtains ok dev' where "wm_drv_rtc_init e (Some dev) = (ok, Some dev')" and "rtc_ok dev'"
    and "rd_state dev' = DEV_INITED" and "rd_ops dev'"
    and "\<And>t. rtc_shows (rd_regs dev') t = rtc_shows (rd_regs dev) t"
proof -
  let ?r = "wm_w800_drv_rtc_init e dev"
  have "rtc_ok (snd ?r)" by (rule init_ok [OF assms(1)])
  moreover have "rd_state (snd ?r) = DEV_INITED \<and> rd_ops (snd ?r) \<and>
      (\<forall>t. rtc_shows (rd_regs (snd ?r)) t = rtc_shows (rd_regs dev) t)"
    using assms(2,3) by (simp add: wm_w800_drv_rtc_init_def rtc_env_ok_def wm_hal_rtc_init_def
      rtc_data_zero_def wm_w800_drv_rtc_regist_temp_function_def Let_def)
  ultimately show ?thesis using assms(2)
    by (intro that [of "fst ?r = WM_ERR_SUCCESS" "snd ?r"]) (auto simp: wm_drv_rtc_init_def
      split: prod.splits)
qed

text \<open>A clock whose device is in the table and keeps its invariant.\<close>

definition clock_ok :: "clock \<Rightarrow> bool" where
  "clock_ok c \<longleftrightarrow> (\<exists>dev. ck_rtc c = Some dev \<and> rd_ops dev \<and> rtc_ok dev)"

lemma settimeofday_spec:
  assumes "clock_ok c" and "rtc_env_ok e" and t: "946684800 \<le> t" "t \<le> 0x7fffd27f"
  obtains dev where "settimeofday e ms (Some (int t, us)) c =
      Some (0, c\<lparr>ck_rtc := Some dev, ck_offset := int t - int (ms div 1000)\<rparr>)"
    and "rtc_shows (rd_regs dev) t" and "rtc_ok dev" and "rd_ops dev"
proof -
  obtain dev where c: "ck_rtc c = Some dev" "rd_ops dev" "rtc_ok dev"
    using assms(1) by (auto simp: clock_ok_def)
  obtain ok dev1 where i: "wm_drv_rtc_init e (Some dev) = (ok, Some dev1)" "rtc_ok dev1"
    "rd_state dev1 = DEV_INITED" "rd_ops dev1"
    by (rule init_ready [OF c(3,2) assms(2)]) blast
  have secs: "rtc_secs t" using t by (simp add: rtc_secs_def)
  have acq: "mutex_acquire_ret e = 0" using assms(2) by (simp add: rtc_env_ok_def)
  obtain dev2 where s: "wm_w800_drv_rtc_set_time e dev1 (cal_tm t) = (WM_ERR_SUCCESS, dev2)"
    "rtc_shows (rd_regs dev2) t" "rd_state dev2 = DEV_INITED" "rd_ops dev2 = rd_ops dev1"
    by (rule rtc_set_time_shows [OF i(2,3) acq secs])
  have "rtc_ok dev2" using set_time_ok [OF i(2), of e "cal_tm t"] s(1) by simp
  moreover have "settimeofday e ms (Some (int t, us)) c =
      Some (0, c\<lparr>ck_rtc := Some dev2, ck_offset := int t - int (ms div 1000)\<rparr>)"
    using timestamp_conversion_cal [OF t(2)]
    by (simp add: settimeofday_def clock_rtc_def c(1) i wm_drv_rtc_set_time_def rtc_front_def s
      Let_def)
  ultimately show ?thesis using that s i(4) by blast
qed

lemma gettimeofday_rtc:
  assumes "clock_ok c" and "rtc_env_ok e" and "ck_offset c = 0" and "t < 2147483648"
    and "\<And>dev. ck_rtc c = Some dev \<Longrightarrow> rtc_shows (rd_regs dev) t"
  obtains c' where "gettimeofday e ms True c =
      Some (0, Some (int t, int (ms mod 1000 * 1000)), c')"
    and "ck_offset c' = int t - int (ms div 1000)"
proof -
  obtain dev where c: "ck_rtc c = Some dev" "rd_ops dev" "rtc_ok dev"
    using assms(1) by (auto simp: clock_ok_def)
  obtain ok dev1 where i: "wm_drv_rtc_init e (Some dev) = (ok, Some dev1)" "rtc_ok dev1"
    "rd_state dev1 = DEV_INITED" "rd_ops dev1"
    "\<And>t. rtc_shows (rd_regs dev1) t = rtc_shows (rd_regs dev) t"
    by (rule init_ready [OF c(3,2) assms(2)]) blast
  have sh: "rtc_shows (rd_regs dev1) t" using i(5) assms(5) c(1) by simp
  have acq: "mutex_acquire_ret e = 0" using assms(2) by (simp add: rtc_env_ok_def)
  obtain x where x: "wm_w800_drv_rtc_get_time e dev1 (Some tm_zero) = (WM_ERR_SUCCESS, Some x)"
    "tm6 x = tm6 (cal_tm t)" by (rule rtc_get_time_shows [OF i(2,3) acq sh])
  have "mktime x = int t" using mktime_tm6 [OF x(2)] mktime_cal [OF assms(4)] by simp
  then show ?thesis
    by (intro that [of "c\<lparr>ck_rtc := Some dev1, ck_offset := int t - int (ms div 1000)\<rparr>"])
      (simp_all add: gettimeofday_def assms(3) clock_rtc_def c(1) i wm_drv_rtc_get_time_def
        rtc_front_def x Let_def)
qed

lemma gettimeofday_offset: "ck_offset c \<noteq> 0 \<Longrightarrow> gettimeofday e ms True c =
    Some (0, Some (ck_offset c + int (ms div 1000), int (ms mod 1000 * 1000)), c)"
  by (simp add: gettimeofday_def)

text \<open>The local time while no time zone was ever set dereferences a null pointer.\<close>

lemma localtime_without_zone: "ck_tz c = None \<Longrightarrow> localtime (Some t) c = None"
  by (simp add: localtime_def getenv_def strcmp_eq_def)

text \<open>A restart: the RAM is lost, the clock hardware went on to what \<open>run\<close> makes of it.\<close>

definition power_cycle :: "(rtc_regs \<Rightarrow> rtc_regs) \<Rightarrow> clock \<Rightarrow> clock" where
  "power_cycle run c = \<lparr>ck_rtc = map_option (\<lambda>dev. dev\<lparr>rd_state := DEV_UNINIT, rd_drv := None,
       rd_regs := run (rd_regs dev)\<rparr>) (ck_rtc c), ck_offset = 0, ck_tz = None\<rparr>"

text \<open>The documented behaviour of the hardware: in \<open>k\<close> seconds it counts \<open>k\<close> seconds, as long
  as the time fits the 32-bit \<open>int\<close> of the code.\<close>

definition rtc_counts :: "(rtc_regs \<Rightarrow> rtc_regs) \<Rightarrow> nat \<Rightarrow> bool" where
  "rtc_counts run k \<longleftrightarrow> (\<forall>hw t. 946684800 \<le> t \<and> t + k < 2147483648 \<and> rtc_shows hw t \<longrightarrow>
     rtc_shows (run hw) (t + k))"

text \<open>Hardware that does: the date of the registers, \<open>k\<close> seconds on.\<close>

definition demo_count :: "nat \<Rightarrow> rtc_regs \<Rightarrow> rtc_regs" where
  "demo_count k hw =
     rtc_put hw (to_hw (cal_tm (nat (mktime (from_hw (rtc_time hw tm_zero))) + k)))"

lemma demo_count_counts: "rtc_counts (demo_count k) k"
proof (unfold rtc_counts_def, intro allI impI, elim conjE)
  fix hw t
  assume t: "946684800 \<le> t" "t + k < 2147483648" and "rtc_shows hw t"
  then have "rtc_secs (t + k)" and "t < 2147483648" by (simp_all add: rtc_secs_def)
  with \<open>rtc_shows hw t\<close> have "mktime (from_hw (rtc_time hw tm_zero)) = int t"
    using mktime_tm6 mktime_cal unfolding rtc_shows_def by metis
  then show "rtc_shows (demo_count k hw) (t + k)"
    using rtc_put_shows [OF \<open>rtc_secs (t + k)\<close>] by (simp add: demo_count_def)
qed

end
