(* ===== verification/ClockProps.thy ===== *)
theory ClockProps
  imports ClockSpec
begin

text \<open>
  The properties of the calendar functions, the clock driver and the time of day, and the
  concrete clock their witnesses use.
\<close>

section \<open>A concrete clock\<close>

definition demo_rtc_env :: rtc_env where
  "demo_rtc_env = env.extend demo_env \<lparr>pmu_dev = True, pmu_register_ret = 0\<rparr>"

definition demo_rtc :: rtc_dev where
  "demo_rtc = \<lparr>rd_ops = True, rd_state = DEV_UNINIT, rd_drv = None,
     rd_regs = \<lparr>rtc_r1 = 0, rtc_r2 = 0\<rparr>\<rparr>"

definition demo_clock :: clock where
  "demo_clock = \<lparr>ck_rtc = Some demo_rtc, ck_offset = 0, ck_tz = None\<rparr>"

lemma demo_rtc_env_ok [simp]: "rtc_env_ok demo_rtc_env"
  by (simp add: rtc_env_ok_def demo_rtc_env_def demo_env_def env.defs)

lemma demo_rtc_ok [simp]: "rtc_ok demo_rtc"
  by (simp add: rtc_ok_def demo_rtc_def)

lemma demo_clock_ok [simp]: "clock_ok demo_clock"
  by (simp add: clock_ok_def demo_clock_def, simp add: demo_rtc_def)

section \<open>Calendar\<close>

text \<open>C39. On every time it accepts, the conversion behind the clock and the local time gives the
  date that counting days forward from 1 January 1970 gives, with all nine fields.\<close>

theorem conversion_is_calendar:
  assumes "t \<le> 0x7fffd27f"
  shows "timestamp_conversion_to_tm (Some (int t)) = Some (0, cal_tm t)"
  by (rule timestamp_conversion_cal [OF assms])

theorem conversion_is_calendar_witness:
  "timestamp_conversion_to_tm (Some (int 1709164800)) = Some (0, cal_tm 1709164800)"
  using conversion_is_calendar [of 1709164800] by simp

text \<open>The other conversion, with its own loops and tables, gives the same date for every time
  from 1970 on, without an upper limit.\<close>

theorem gmtime_r_is_calendar:
  "gmtime_r (Some (int t)) True = Some (Some (cal_tm t))"
  by (simp add: gmtime_r_def gmtime_tm_cal)

text \<open>C40. Converting back what \<open>gmtime_r\<close> gives is the identity on every time from 1970 up to
  the last second a 32-bit \<open>int\<close> can count.\<close>

theorem mktime_inverts_gmtime_r:
  assumes "t < 2147483648"
  shows "\<exists>x. gmtime_r (Some (int t)) True = Some (Some x) \<and> mktime x = int t"
  using assms by (simp add: gmtime_r_def gmtime_tm_cal mktime_cal)

theorem mktime_inverts_gmtime_r_witness:
  "\<exists>x. gmtime_r (Some (int 2147483647)) True = Some (Some x) \<and> mktime x = int 2147483647"
  using mktime_inverts_gmtime_r [of 2147483647] by simp

text \<open>After a time zone was set, the local time of every second in range is the calendar date
  of the second moved by the offset the parser read from the zone.\<close>

theorem localtime_is_shifted_calendar:
  assumes "setenv e TZ_NAME zone overwrite c = Some (0, c')"
    and "tz_to_utc_time zone = Some (Some z)" and "0 \<le> t + z" and "t + z \<le> 0x7fffd27f"
  shows "localtime (Some t) c' = Some (Some (cal_tm (nat (t + z))))"
proof -
  have n: "strcmp_eq TZ_NAME TZ_NAME" by (simp add: strcmp_eq_def)
  have "ck_tz c' = Some zone" using assms(1,2) n by (auto simp: setenv_def split: if_splits)
  then show ?thesis
    using timestamp_conversion_cal [of "nat (t + z)"] assms(2-4)
    by (simp add: localtime_def getenv_def n add.commute)
qed

theorem localtime_is_shifted_calendar_witness:
  "localtime (Some 1709164800)
     (demo_clock\<lparr>ck_tz := Some [0x55, 0x54, 0x43, 0x2B, 0x38]\<rparr>) = Some (Some (cal_tm 1709193600))"
proof -
  let ?z = "[0x55, 0x54, 0x43, 0x2B, 0x38] :: bytes"
  have tz: "tz_to_utc_time ?z = Some (Some 28800)" by code_simp
  have "setenv demo_rtc_env TZ_NAME ?z 1 demo_clock = Some (0, demo_clock\<lparr>ck_tz := Some ?z\<rparr>)"
    by (simp add: setenv_def strcmp_eq_def tz demo_rtc_env_def demo_env_def env.defs)
  from localtime_is_shifted_calendar [OF this tz, of 1709164800] show ?thesis by simp
qed

section \<open>Time of day\<close>

text \<open>C36. A time from 2000 on that was set survives a restart: when the clock hardware counts on while
  the RAM is lost, the first reading after the restart is the set time plus the seconds that went
  by, as long as that sum is below \<open>2^31\<close> (19 January 2038), from where the 32-bit \<open>int\<close> of
  \<open>mktime\<close> overflows. The device is in the table and keeps its invariant, and its mutex and
  start-up succeed (\<open>clock_ok\<close>, \<open>rtc_env_ok\<close>).\<close>

theorem clock_survives_restart:
  assumes "clock_ok c" and "rtc_env_ok e" and "946684800 \<le> t" and "t \<le> 0x7fffd27f"
    and "rtc_counts run k" and "t + k < 2147483648"
  shows "\<exists>c1 c2. settimeofday e ms (Some (int t, us)) c = Some (0, c1) \<and>
    gettimeofday e ms' True (power_cycle run c1) =
      Some (0, Some (int (t + k), int (ms' mod 1000 * 1000)), c2)"
proof -
  obtain dev where s: "settimeofday e ms (Some (int t, us)) c =
      Some (0, c\<lparr>ck_rtc := Some dev, ck_offset := int t - int (ms div 1000)\<rparr>)" (is "_ = Some (0, ?c1)")
    and sh: "rtc_shows (rd_regs dev) t" and ok: "rd_ops dev"
    by (rule settimeofday_spec [OF assms(1-4)]) blast
  have "rtc_shows (run (rd_regs dev)) (t + k)"
    using assms(3,5,6) sh by (simp add: rtc_counts_def)
  moreover have "clock_ok (power_cycle run ?c1)"
    using ok by (simp add: clock_ok_def power_cycle_def rtc_ok_def)
  ultimately obtain c2 where "gettimeofday e ms' True (power_cycle run ?c1) =
      Some (0, Some (int (t + k), int (ms' mod 1000 * 1000)), c2)"
    using gettimeofday_rtc [of "power_cycle run ?c1" e "t + k" ms'] assms(2,6)
    by (auto simp: power_cycle_def)
  with s show ?thesis by blast
qed

theorem clock_survives_restart_witness:
  "\<exists>c1 c2. settimeofday demo_rtc_env 5000 (Some (int 1709164800, 0)) demo_clock = Some (0, c1) \<and>
    gettimeofday demo_rtc_env 1250 True (power_cycle (demo_count 86400) c1) =
      Some (0, Some (int (1709164800 + 86400), int (1250 mod 1000 * 1000)), c2)"
  by (rule clock_survives_restart) (simp_all add: demo_count_counts)

text \<open>While the system runs, the time of day is the set time plus the seconds of the 32-bit
  up-time counter since then; it goes back when that counter wraps.\<close>

theorem clock_counts_uptime:
  assumes "clock_ok c" and "rtc_env_ok e" and "946684800 \<le> t" and "t \<le> 0x7fffd27f"
  shows "\<exists>c1. settimeofday e (u32 up0) (Some (int t, us)) c = Some (0, c1) \<and>
    gettimeofday e (u32 up1) True c1 =
      Some (0, Some (int t + int (u32 up1 div 1000) - int (u32 up0 div 1000),
                     int (u32 up1 mod 1000 * 1000)), c1)"
proof -
  obtain dev where s: "settimeofday e (u32 up0) (Some (int t, us)) c =
      Some (0, c\<lparr>ck_rtc := Some dev, ck_offset := int t - int (u32 up0 div 1000)\<rparr>)" (is "_ = Some (0, ?c1)")
    by (rule settimeofday_spec [OF assms]) blast
  have "u32 up0 div 1000 \<le> 4294967296 div 1000"
    by (rule div_le_mono) (simp add: less_imp_le)
  then have "ck_offset ?c1 \<noteq> 0" using assms(3) by simp
  from gettimeofday_offset [OF this, of e "u32 up1"] s show ?thesis by auto
qed

theorem clock_counts_uptime_witness:
  "\<exists>c1. settimeofday demo_rtc_env (u32 4294960000) (Some (int 1709164800, 0)) demo_clock = Some (0, c1) \<and>
    gettimeofday demo_rtc_env (u32 4294970000) True c1 =
      Some (0, Some (int 1709164800 + int (u32 4294970000 div 1000) - int (u32 4294960000 div 1000),
                     int (u32 4294970000 mod 1000 * 1000)), c1)"
  by (rule clock_counts_uptime) simp_all

section \<open>Clock driver\<close>

text \<open>C38. Whatever is called and whenever the interrupt comes, a device of the table that started
  uninitialised has its data exactly while it is initialised, and an active alarm is armed in the
  hardware and fits its registers.\<close>

theorem rtc_device_invariant:
  assumes "rtc_run dev dev'" and "rd_state dev = DEV_UNINIT" and "rd_drv dev = None"
  shows "rtc_ok dev'"
  by (rule rtc_run_ok [OF assms(1)]) (simp add: rtc_ok_def assms(2,3))

theorem rtc_device_invariant_witness:
  "rtc_ok (snd (wm_w800_drv_rtc_init demo_rtc_env demo_rtc))"
  using rtc_device_invariant [OF run_step [OF run_refl step_init], of demo_rtc demo_rtc_env]
  by (simp add: demo_rtc_def)

text \<open>C37. An alarm set for a second in the future is accepted, and the interrupt calls its callback
  exactly when that second has come, after which the alarm is no longer set.\<close>

theorem rtc_alarm_fires_when_due:
  assumes "rtc_ok dev" and "rd_state dev = DEV_INITED" and "rd_ops dev" and "mutex_acquire_ret e = 0"
    and "rtc_secs t" and "rtc_shows (rd_regs dev) now" and "now < t" and "rtc_shows hw u"
  shows "\<exists>dev1 dev2 dev3. wm_drv_rtc_register_alarm_callback e (Some dev) 0 (Some cb) ud = (0, Some dev1) \<and>
    wm_drv_rtc_set_alarm e (Some dev1) 0 0 (cal_tm t) = (0, Some dev2) \<and>
    wm_800_rtc_callback (dev2\<lparr>rd_regs := hw\<rparr>) = Some (dev3, if t \<le> u then [(cb, ud)] else []) \<and>
    fst (wm_drv_rtc_get_alarm e (Some dev3) 0 True (Some x)) = (if t \<le> u then WM_ERR_FAILED else 0)"
proof -
  obtain dev1 dev2 d a
    where set: "wm_drv_rtc_register_alarm_callback e (Some dev) 0 (Some cb) ud = (0, Some dev1)"
      "wm_drv_rtc_set_alarm e (Some dev1) 0 0 (cal_tm t) = (0, Some dev2)"
    and ok: "rtc_ok dev2" "rd_ops dev2" and d: "rd_drv dev2 = Some d"
    and a: "rd_alarm d = [a]" "al_active a" "al_time a = to_hw (cal_tm t)" "al_cb a = Some cb"
      "al_user a = ud"
    by (rule alarm_set [OF assms(1-7)]) blast
  have st: "rd_state dev2 = DEV_INITED" and h: "hr_init (rd_hal d)"
    using ok(1) d by (auto elim: rtc_okE)
  let ?dev3 = "dev2\<lparr>rd_regs := hw, rd_drv := Some (d\<lparr>rd_alarm := [a\<lparr>al_active := u < t\<rparr>]\<rparr>)\<rparr>"
  have "fst (wm_drv_rtc_get_alarm e (Some ?dev3) 0 True (Some x)) = (if t \<le> u then WM_ERR_FAILED else 0)"
    using assms(4) ok(2) st h by (simp add: wm_drv_rtc_get_alarm_def rtc_front_def
      wm_w800_drv_rtc_get_alarm_def rtc_bad_id_def wm_hal_rtc_get_supported_mask_def)
  with set alarm_irq [OF ok(1) d a(1-4) assms(8)] show ?thesis unfolding a(5) by blast
qed

lemma demo_rtc_ready:
  "\<exists>dev. rtc_ok dev \<and> rd_state dev = DEV_INITED \<and> rd_ops dev \<and> rtc_shows (rd_regs dev) 1709164800"
proof -
  let ?i = "snd (wm_w800_drv_rtc_init demo_rtc_env demo_rtc)"
  have "rtc_ok ?i" by (rule init_ok) simp
  moreover have i: "rd_state ?i = DEV_INITED \<and> rd_ops ?i"
    by (simp add: wm_w800_drv_rtc_init_def demo_rtc_def demo_rtc_env_def demo_env_def env.defs
      wm_hal_rtc_init_def rtc_data_zero_def wm_w800_drv_rtc_regist_temp_function_def Let_def)
  ultimately obtain dev' where
    "wm_w800_drv_rtc_set_time demo_rtc_env ?i (cal_tm 1709164800) = (WM_ERR_SUCCESS, dev')"
    "rtc_shows (rd_regs dev') 1709164800" "rd_state dev' = DEV_INITED" "rd_ops dev' = rd_ops ?i"
    by (elim rtc_set_time_shows [of _ demo_rtc_env 1709164800])
      (simp_all add: rtc_secs_def demo_rtc_env_def demo_env_def env.defs)
  then show ?thesis using i set_time_ok [OF \<open>rtc_ok ?i\<close>, of demo_rtc_env "cal_tm 1709164800"]
    by auto
qed

theorem rtc_alarm_fires_when_due_witness:
  "\<exists>dev dev1 dev2 dev3 hw.
    wm_drv_rtc_register_alarm_callback demo_rtc_env (Some dev) 0 (Some 7) 42 = (0, Some dev1) \<and>
    wm_drv_rtc_set_alarm demo_rtc_env (Some dev1) 0 0 (cal_tm 1709164860) = (0, Some dev2) \<and>
    wm_800_rtc_callback (dev2\<lparr>rd_regs := hw\<rparr>) = Some (dev3, [(7, 42)]) \<and>
    fst (wm_drv_rtc_get_alarm demo_rtc_env (Some dev3) 0 True (Some tm_zero)) = WM_ERR_FAILED"
proof -
  obtain dev where d: "rtc_ok dev" "rd_state dev = DEV_INITED" "rd_ops dev"
    "rtc_shows (rd_regs dev) 1709164800" using demo_rtc_ready by blast
  let ?hw = "rtc_put \<lparr>rtc_r1 = 0, rtc_r2 = 0\<rparr> (to_hw (cal_tm 1709164861))"
  have acq: "mutex_acquire_ret demo_rtc_env = 0" by (simp add: demo_rtc_env_def demo_env_def env.defs)
  have t: "rtc_secs 1709164860" "(1709164800 :: nat) < 1709164860" by (simp_all add: rtc_secs_def)
  have hw: "rtc_shows ?hw 1709164861" by (rule rtc_put_shows) (simp add: rtc_secs_def)
  have le: "(1709164860 :: nat) \<le> 1709164861" by simp
  show ?thesis
    using rtc_alarm_fires_when_due [OF d(1-3) acq t(1) d(4) t(2) hw, of 7 42 tm_zero]
    unfolding if_P [OF le] by blast
qed

end
