(* ===== verification/UtilText.thy ===== *)
theory UtilText
  imports UtilTime
begin

text \<open>
  The text, number and buffer helpers of \<open>wm_utils.c\<close>. A string argument is the list of its bytes
  up to the terminator; \<open>char\<close> is unsigned, as on the C-SKY core. What would read or write outside
  an object, and the signed overflow of \<open>wm_atoi\<close>, is \<open>None\<close>.
\<close>

section \<open>Hexadecimal text\<close>

definition wm_atohex :: "u8 \<Rightarrow> int" where
  "wm_atohex ch =
     (if ch \<ge> 0x30 \<and> ch \<le> 0x39 then int (unat ch) - 0x30
      else if ch \<ge> 0x61 \<and> ch \<le> 0x66 then int (unat ch) - 0x61 + 0xa
      else if ch \<ge> 0x41 \<and> ch \<le> 0x46 then int (unat ch) - 0x41 + 0xa
      else -1)"

definition wm_hex2byte :: "u8 \<Rightarrow> u8 \<Rightarrow> int" where
  "wm_hex2byte h0 h1 =
     (let a = wm_atohex h0 in
      if a < 0 then -1
      else let b = wm_atohex h1 in if b < 0 then -1 else push_bit 4 a OR b)"

text \<open>The loop, with the bytes written so far; the terminator is no digit, which ends it.\<close>

fun hex_loop :: "bytes \<Rightarrow> nat \<Rightarrow> bytes \<Rightarrow> int \<times> bytes" where
  "hex_loop str 0 des = (if c_at str = 0 then 0 else -1, des)"
| "hex_loop [] (Suc n) des = (-1, des)"
| "hex_loop (c # cs) (Suc n) des =
     (if c = 0x3A \<or> c = 0x2D then hex_loop cs (Suc n) des
      else if wm_atohex c < 0 then (-1, des)
      else
        let tmp = (word_of_int (push_bit 4 (wm_atohex c)) :: u8) AND 0xF0 in
        if wm_atohex (c_at cs) < 0 then (-1, des)
        else hex_loop (tl cs) n
          (des @ [tmp OR (word_of_int (wm_atohex (c_at cs) AND 0x0F) :: u8)]))"

definition wm_hex_str_to_array :: "bytes \<Rightarrow> bytes \<Rightarrow> int \<Rightarrow> int \<times> bytes" where
  "wm_hex_str_to_array str arr array_len =
     (let (r, des) = hex_loop str (nat array_len) [] in (r, overlay arr 0 des))"

section \<open>Decimal text\<close>

text \<open>The digits, as a negative number; \<open>None\<close> is a signed overflow.\<close>

fun atoi_loop :: "bytes \<Rightarrow> int \<Rightarrow> int option" where
  "atoi_loop [] n = Some n"
| "atoi_loop (c # cs) n =
     (if is_digit c then
        case c_int (10 * n) of
          None \<Rightarrow> None
        | Some m \<Rightarrow>
            (case c_int (m - (int (unat c) - 0x30)) of
               None \<Rightarrow> None
             | Some n \<Rightarrow> atoi_loop cs n)
      else Some n)"

text \<open>The value and what goes to \<open>*err\<close> when the pointer is not null.\<close>

definition wm_atoi :: "bytes \<Rightarrow> (int \<times> int) option" where
  "wm_atoi s =
     (let s = dropWhile is_space s;
          neg = (c_at s = 0x2D);
          s = (if c_at s = 0x2D \<or> c_at s = 0x2B then tl s else s)
      in if \<not> is_digit (c_at s) then Some (0, 1)
         else case atoi_loop s 0 of
             None \<Rightarrow> None
           | Some n \<Rightarrow>
               if neg then Some (n, 0) else map_option (\<lambda>v. (v, 0)) (c_int (- n)))"

definition wm_isdigitstr :: "bytes \<Rightarrow> bool" where
  "wm_isdigitstr str = list_all is_digit str"

text \<open>The loop of \<open>wm_isdecimalstr\<close>: the count of points, or \<open>None\<close> for \<open>return false\<close>.\<close>

fun decimal_loop :: "bytes \<Rightarrow> nat \<Rightarrow> nat option" where
  "decimal_loop [] k = Some k"
| "decimal_loop (c # cs) k =
     (if \<not> is_digit c \<and> c \<noteq> 0x2E then None
      else
        let k = (if c = 0x2E then k + 1 else k) in
        if k > 1 then None else decimal_loop cs k)"

definition wm_isdecimalstr :: "bytes \<Rightarrow> bool" where
  "wm_isdecimalstr str =
     (if length str = 0 \<or> c_at str = 0x2E then False
      else case decimal_loop str 0 of None \<Rightarrow> False | Some k \<Rightarrow> k \<noteq> 0)"

definition wm_isstr :: "bytes \<Rightarrow> bool" where
  "wm_isstr str =
     (if length str \<ge> 2 then c_at str = 0x22 \<and> str ! (length str - 1) = 0x22 else False)"

definition is_xdigit :: "u8 \<Rightarrow> bool" where
  "is_xdigit c \<longleftrightarrow> is_digit c \<or> (0x61 \<le> c \<and> c \<le> 0x66) \<or> (0x41 \<le> c \<and> c \<le> 0x46)"

definition hex_prefix :: "bytes \<Rightarrow> bool" where
  "hex_prefix str \<longleftrightarrow>
     c_at str = 0x30 \<and> (c_at (tl str) = 0x78 \<or> c_at (tl str) = 0x58)"

definition wm_ishexstr :: "bytes option \<Rightarrow> bool" where
  "wm_ishexstr str =
     (case str of
        None \<Rightarrow> False
      | Some s \<Rightarrow> list_all is_xdigit (if hex_prefix s then drop 2 s else s))"

definition wm_isnumstr :: "bytes \<Rightarrow> bool" where
  "wm_isnumstr str = (if wm_isdigitstr str \<or> wm_ishexstr (Some str) then True else False)"

text \<open>\<open>strtol\<close> of the C library with base 0 and \<open>long\<close> of 32 bits.\<close>

definition digit_value :: "u8 \<Rightarrow> nat" where
  "digit_value c =
     (if is_digit c then unat c - 0x30
      else if 0x61 \<le> c \<and> c \<le> 0x7A then unat c - 0x61 + 10
      else if 0x41 \<le> c \<and> c \<le> 0x5A then unat c - 0x41 + 10
      else 99)"

definition based_value :: "nat \<Rightarrow> bytes \<Rightarrow> int" where
  "based_value b ds =
     foldl (\<lambda>n c. int b * n + int (digit_value c)) 0 (takeWhile (\<lambda>c. digit_value c < b) ds)"

definition strtol_0 :: "bytes \<Rightarrow> int" where
  "strtol_0 s =
     (let s = dropWhile is_space s;
          neg = (c_at s = 0x2D);
          s = (if c_at s = 0x2D \<or> c_at s = 0x2B then tl s else s);
          v = (if hex_prefix s \<and> is_xdigit (c_at (drop 2 s)) then based_value 16 (drop 2 s)
               else if c_at s = 0x30 then based_value 8 s
               else based_value 10 s);
          v = (if neg then - v else v)
      in max (- (2 ^ 31)) (min (2 ^ 31 - 1) v))"

text \<open>The code and what goes to \<open>*value\<close>.\<close>

definition wm_str2int :: "bytes option \<Rightarrow> int \<times> int option" where
  "wm_str2int str =
     (case str of
        None \<Rightarrow> (WM_ERR_FAILED, None)
      | Some s \<Rightarrow>
          if wm_isnumstr s = False then (WM_ERR_FAILED, None)
          else (WM_ERR_SUCCESS, Some (strtol_0 s)))"

section \<open>Quotation marks\<close>

text \<open>
  One argument: \<open>memmove (tmp, tmp + 1, strlen (tmp) - 1)\<close>, then the terminator at \<open>len - 2\<close>.
  \<open>None\<close> is a write in front of the string.
\<close>

definition unquote1 :: "bytes \<Rightarrow> bytes option" where
  "unquote1 tmp =
     (let len = length tmp in
      if len = 0 then None
      else if tmp ! 0 = 0x22 \<or> tmp ! (len - 1) = 0x22 then
        if len < 2 then None else Some (take (len - 2) (drop 1 tmp))
      else Some tmp)"

fun wm_remove_quotation_mark :: "bytes list \<Rightarrow> bytes list option" where
  "wm_remove_quotation_mark [] = Some []"
| "wm_remove_quotation_mark (a # as) =
     (case unquote1 a of
        None \<Rightarrow> None
      | Some b \<Rightarrow> map_option (\<lambda>bs. b # bs) (wm_remove_quotation_mark as))"

section \<open>Checksum\<close>

definition crc8_tbl :: "u8 list" where
  "crc8_tbl =
    [0x00, 0x91, 0xE3, 0x72, 0x07, 0x96, 0xE4, 0x75, 0x0E, 0x9F, 0xED, 0x7C, 0x09, 0x98, 0xEA, 0x7B,
     0x1C, 0x8D, 0xFF, 0x6E, 0x1B, 0x8A, 0xF8, 0x69, 0x12, 0x83, 0xF1, 0x60, 0x15, 0x84, 0xF6, 0x67,
     0x38, 0xA9, 0xDB, 0x4A, 0x3F, 0xAE, 0xDC, 0x4D, 0x36, 0xA7, 0xD5, 0x44, 0x31, 0xA0, 0xD2, 0x43,
     0x24, 0xB5, 0xC7, 0x56, 0x23, 0xB2, 0xC0, 0x51, 0x2A, 0xBB, 0xC9, 0x58, 0x2D, 0xBC, 0xCE, 0x5F,
     0x70, 0xE1, 0x93, 0x02, 0x77, 0xE6, 0x94, 0x05, 0x7E, 0xEF, 0x9D, 0x0C, 0x79, 0xE8, 0x9A, 0x0B,
     0x6C, 0xFD, 0x8F, 0x1E, 0x6B, 0xFA, 0x88, 0x19, 0x62, 0xF3, 0x81, 0x10, 0x65, 0xF4, 0x86, 0x17,
     0x48, 0xD9, 0xAB, 0x3A, 0x4F, 0xDE, 0xAC, 0x3D, 0x46, 0xD7, 0xA5, 0x34, 0x41, 0xD0, 0xA2, 0x33,
     0x54, 0xC5, 0xB7, 0x26, 0x53, 0xC2, 0xB0, 0x21, 0x5A, 0xCB, 0xB9, 0x28, 0x5D, 0xCC, 0xBE, 0x2F,
     0xE0, 0x71, 0x03, 0x92, 0xE7, 0x76, 0x04, 0x95, 0xEE, 0x7F, 0x0D, 0x9C, 0xE9, 0x78, 0x0A, 0x9B,
     0xFC, 0x6D, 0x1F, 0x8E, 0xFB, 0x6A, 0x18, 0x89, 0xF2, 0x63, 0x11, 0x80, 0xF5, 0x64, 0x16, 0x87,
     0xD8, 0x49, 0x3B, 0xAA, 0xDF, 0x4E, 0x3C, 0xAD, 0xD6, 0x47, 0x35, 0xA4, 0xD1, 0x40, 0x32, 0xA3,
     0xC4, 0x55, 0x27, 0xB6, 0xC3, 0x52, 0x20, 0xB1, 0xCA, 0x5B, 0x29, 0xB8, 0xCD, 0x5C, 0x2E, 0xBF,
     0x90, 0x01, 0x73, 0xE2, 0x97, 0x06, 0x74, 0xE5, 0x9E, 0x0F, 0x7D, 0xEC, 0x99, 0x08, 0x7A, 0xEB,
     0x8C, 0x1D, 0x6F, 0xFE, 0x8B, 0x1A, 0x68, 0xF9, 0x82, 0x13, 0x61, 0xF0, 0x85, 0x14, 0x66, 0xF7,
     0xA8, 0x39, 0x4B, 0xDA, 0xAF, 0x3E, 0x4C, 0xDD, 0xA6, 0x37, 0x45, 0xD4, 0xA1, 0x30, 0x42, 0xD3,
     0xB4, 0x25, 0x57, 0xC6, 0xB3, 0x22, 0x50, 0xC1, 0xBA, 0x2B, 0x59, 0xC8, 0xBD, 0x2C, 0x5E, 0xCF]"

definition wm_get_crc8 :: "bytes \<Rightarrow> u8" where
  "wm_get_crc8 ptr = foldl (\<lambda>crc8 data. crc8_tbl ! unat (crc8 XOR data)) 0 ptr"

section \<open>String functions\<close>

definition to_lower :: "u8 \<Rightarrow> u8" where
  "to_lower c = (if 0x41 \<le> c \<and> c \<le> 0x5A then c + 0x20 else c)"

text \<open>
  \<open>memrchr\<close> reads the bytes \<open>n\<close>, \<open>n - 1\<close>, ..., 1 behind \<open>s\<close>. \<open>obj\<close> is the object \<open>s\<close> points to;
  the outer \<open>None\<close> is a read behind its end, \<open>Some None\<close> the null result.
\<close>

fun memrchr :: "bytes \<Rightarrow> u8 \<Rightarrow> nat \<Rightarrow> nat option option" where
  "memrchr obj c 0 = Some None"
| "memrchr obj c (Suc i) =
     (if Suc i \<ge> length obj then None
      else if obj ! Suc i = c then Some (Some (Suc i))
      else memrchr obj c i)"

definition strdup :: "'a env_scheme \<Rightarrow> bytes \<Rightarrow> bytes option" where
  "strdup env s =
     (let len = length s in if \<not> alloc_ok env (len + 1) then None else Some s)"

fun casestr_at :: "bytes \<Rightarrow> bytes \<Rightarrow> bool" where
  "casestr_at s1 [] = True"
| "casestr_at [] (b # bs) = False"
| "casestr_at (a # as) (b # bs) = (if to_lower a = to_lower b then casestr_at as bs else False)"

text \<open>The position of the match; \<open>i\<close> counts the characters passed.\<close>

fun strcasestr_from :: "nat \<Rightarrow> bytes \<Rightarrow> bytes \<Rightarrow> nat option" where
  "strcasestr_from i [] str2 = None"
| "strcasestr_from i (c # cs) str2 =
     (if casestr_at (c # cs) str2 then Some i else strcasestr_from (Suc i) cs str2)"

definition strcasestr :: "bytes \<Rightarrow> bytes \<Rightarrow> nat option" where
  "strcasestr str1 str2 = (if str2 = [] then Some 0 else strcasestr_from 0 str1 str2)"

definition upper_of :: "u8 \<Rightarrow> u8" where
  "upper_of c = (if c \<ge> 0x61 \<and> c \<le> 0x7A then c - (0x61 - 0x41) else c)"

fun strcasecmp :: "bytes \<Rightarrow> bytes \<Rightarrow> int" where
  "strcasecmp [] s2 = 0"
| "strcasecmp (a # s1) [] = 0"
| "strcasecmp (a # s1) (b # s2) =
     (if a = b then strcasecmp s1 s2
      else if upper_of a \<noteq> upper_of b then 1
      else strcasecmp s1 s2)"

fun strncasecmp :: "bytes \<Rightarrow> bytes \<Rightarrow> nat \<Rightarrow> int" where
  "strncasecmp s1 s2 0 = 0"
| "strncasecmp s1 s2 (Suc n) =
     (let result = int (unat (to_lower (c_at s1))) - int (unat (to_lower (c_at s2))) in
      if result \<noteq> 0 then result
      else if c_at s1 = 0 then 0
      else strncasecmp (tl s1) (tl s2) n)"

text \<open>\<open>None\<close> when the terminated copy does not fit \<open>dest\<close>.\<close>

definition strlcpy :: "bytes \<Rightarrow> bytes \<Rightarrow> nat \<Rightarrow> (nat \<times> bytes) option" where
  "strlcpy dest src len =
     (let ret = length src;
          out = (if ret < len then src @ [0] else take (len - 1) src @ [0])
      in if len = 0 then Some (ret, dest)
         else if length out > length dest then None
         else Some (ret, overlay dest 0 out))"

fun wm_strnlen :: "bytes \<Rightarrow> nat \<Rightarrow> nat" where
  "wm_strnlen s 0 = 0"
| "wm_strnlen [] (Suc n) = 0"
| "wm_strnlen (c # cs) (Suc n) = (if c \<noteq> 0 then Suc (wm_strnlen cs n) else 0)"

section \<open>Alignment of a transfer\<close>

datatype align_flag = ALIGN_INVALID | ALIGN_DMA | ALIGN_CPU

record align_entry =
  ae_flag :: align_flag
  ae_addr :: nat
  ae_size :: nat

abbreviation (input) align_none :: align_entry where
  "align_none \<equiv> \<lparr>ae_flag = ALIGN_INVALID, ae_addr = 0, ae_size = 0\<rparr>"

text \<open>
  The three steps append to the used entries of the table; \<open>addr\<close> 0 is the null pointer, and
  \<open>table_ok\<close> says that the table is there. \<open>size0\<close> is the argument \<open>size\<close>, a signed 32-bit
  number.
\<close>

definition align_head :: "nat \<Rightarrow> nat \<Rightarrow> nat \<Rightarrow> align_entry list" where
  "align_head addr sz unaligned_part =
     (if unaligned_part > 0 \<or> sz < 4 then
        [\<lparr>ae_flag = ALIGN_CPU, ae_addr = addr,
          ae_size = (if (unaligned_part > 0 \<and> sz < 4 + unaligned_part) \<or> sz < 4 then sz
                     else unaligned_part)\<rparr>]
      else [])"

definition wm_data_align_parser ::
    "nat \<Rightarrow> int \<Rightarrow> bool \<Rightarrow> int \<times> align_entry list option" where
  "wm_data_align_parser addr size0 table_ok =
     (let unaligned_part = addr mod 4 in
      if addr = 0 \<or> size0 \<le> 0 \<or> \<not> table_ok then (WM_ERR_INVALID_PARAM, None)
      else
        let unaligned_part = (if unaligned_part = 0 then 0 else 4 - unaligned_part);
            sz = nat size0;
            tab = align_head addr sz unaligned_part;
            remaining = sz - sum_list (map ae_size tab);
            (tab, remaining) =
              (if remaining \<ge> 4 then
                 (tab @ [\<lparr>ae_flag = ALIGN_DMA, ae_addr = u32 (addr + unaligned_part),
                          ae_size = remaining - remaining mod 4\<rparr>],
                  remaining - (remaining - remaining mod 4))
               else (tab, remaining));
            tab =
              (if remaining > 0 \<and> length tab \<ge> 1 then
                 tab @ [\<lparr>ae_flag = ALIGN_CPU, ae_addr = u32 (ae_addr (last tab) + ae_size (last tab)),
                         ae_size = remaining\<rparr>]
               else tab)
        in (WM_ERR_SUCCESS, Some (tab @ replicate (3 - length tab) align_none)))"

end
