(* ===== verification/UtilProps.thy ===== *)
theory UtilProps
  imports UtilText
begin

text \<open>
  Properties of the helpers of \<open>wm_utils.c\<close>: the segments of a transfer, the checksum against its
  polynomial, the text of numbers and bytes, and the string functions that do not do what their
  names promise.
\<close>

section \<open>Alignment\<close>

text \<open>Entries that lie end to end from \<open>a\<close> to \<open>e\<close>, none empty, those for DMA aligned.\<close>

fun tiles :: "nat \<Rightarrow> align_entry list \<Rightarrow> nat \<Rightarrow> bool" where
  "tiles a [] e \<longleftrightarrow> a = e"
| "tiles a (x # xs) e \<longleftrightarrow> ae_addr x = a \<and> ae_size x > 0 \<and> ae_flag x \<noteq> ALIGN_INVALID \<and>
     (ae_flag x = ALIGN_DMA \<longrightarrow> a mod 4 = 0 \<and> ae_size x mod 4 = 0) \<and> tiles (a + ae_size x) xs e"

lemma tiles_append: "tiles a (xs @ ys) e \<longleftrightarrow> (\<exists>m. tiles a xs m \<and> tiles m ys e)"
  by (induction xs arbitrary: a) auto

text \<open>The bytes in front of the first multiple of four.\<close>

definition head_gap :: "nat \<Rightarrow> nat" where
  "head_gap addr = (if addr mod 4 = 0 then 0 else 4 - addr mod 4)"

lemma head_gap_align: "(addr + head_gap addr) mod 4 = 0"
  unfolding head_gap_def by presburger

text \<open>What is left after the first step: nothing, or the part from an aligned address on.\<close>

lemma align_head_tiles:
  assumes "0 < sz" and tab: "tab = align_head addr sz (head_gap addr)"
  shows "length tab \<le> 1 \<and> sum_list (map ae_size tab) \<le> sz \<and>
    tiles addr tab (addr + sum_list (map ae_size tab)) \<and>
    (sum_list (map ae_size tab) < sz \<longrightarrow>
      sum_list (map ae_size tab) = head_gap addr \<and> sz - head_gap addr \<ge> 4)"
  using assms(1) unfolding tab align_head_def by (auto simp: One_nat_def)

text \<open>The two other steps, from an aligned address.\<close>

lemma align_tail_tiles:
  assumes "a mod 4 = 0" and "4 \<le> r"
  shows "tiles a ([\<lparr>ae_flag = ALIGN_DMA, ae_addr = a, ae_size = r - r mod 4\<rparr>] @
    (if r mod 4 > 0 then [\<lparr>ae_flag = ALIGN_CPU, ae_addr = a + (r - r mod 4), ae_size = r mod 4\<rparr>] else []))
    (a + r)"
proof -
  have "0 < r - r mod 4" using assms(2) mod_less_divisor [of 4 r] by linarith
  moreover have "(r - r mod 4) mod 4 = 0" by (simp add: minus_mod_eq_mult_div)
  moreover have "r - r mod 4 + r mod 4 = r" by simp
  ultimately show ?thesis using assms(1) by auto
qed

text \<open>The segments of a transfer are at most three, lie end to end over exactly the buffer, and
  every DMA segment starts at a multiple of four and is a multiple of four long.\<close>

theorem align_parser_tiles:
  assumes "0 < addr" and "0 < n" and "addr + n \<le> 2 ^ 32" and "n < 2 ^ 31"
  shows "\<exists>tab. wm_data_align_parser addr (int n) True =
      (WM_ERR_SUCCESS, Some (tab @ replicate (3 - length tab) align_none)) \<and>
    length tab \<le> 3 \<and> tiles addr tab (addr + n)"
proof -
  define u where "u = head_gap addr"
  define h where "h = align_head addr n u"
  define s where "s = sum_list (map ae_size h)"
  define r where "r = n - s"
  have h: "length h \<le> 1" "s \<le> n" "tiles addr h (addr + s)" "s < n \<Longrightarrow> s = u \<and> n - u \<ge> 4"
    using align_head_tiles [OF assms(2) refl, of addr] unfolding s_def h_def u_def by blast+
  have "wm_data_align_parser addr (int n) True =
      (let tab = align_head addr n (head_gap addr); r = n - sum_list (map ae_size tab);
           (tab, r) = (if r \<ge> 4 then
             (tab @ [\<lparr>ae_flag = ALIGN_DMA, ae_addr = u32 (addr + head_gap addr),
                ae_size = r - r mod 4\<rparr>], r - (r - r mod 4)) else (tab, r));
           tab = (if r > 0 \<and> length tab \<ge> 1 then tab @ [\<lparr>ae_flag = ALIGN_CPU,
             ae_addr = u32 (ae_addr (last tab) + ae_size (last tab)), ae_size = r\<rparr>] else tab)
       in (WM_ERR_SUCCESS, Some (tab @ replicate (3 - length tab) align_none)))"
    using assms(1,2) unfolding wm_data_align_parser_def head_gap_def Let_def
    by (simp only: nat_int of_nat_le_0_iff) simp
  note parser = this [folded u_def, folded h_def, unfolded Let_def, folded s_def, folded r_def]
  show ?thesis
  proof (cases "s < n")
    case False
    then have "r = 0" by (simp add: r_def)
    then have "wm_data_align_parser addr (int n) True =
        (WM_ERR_SUCCESS, Some (h @ replicate (3 - length h) align_none))" unfolding parser by simp
    moreover have "tiles addr h (addr + n)" using h(2,3) False by simp
    ultimately show ?thesis using h(1) by (intro exI [of _ h]) simp
  next
    case True
    then have r: "4 \<le> r" and e: "addr + n = addr + u + r" and s: "s = u" using h(4) by (auto simp: r_def)
    let ?t = "(if r mod 4 > 0 then [\<lparr>ae_flag = ALIGN_CPU, ae_addr = addr + u + (r - r mod 4),
      ae_size = r mod 4\<rparr>] else [])"
    let ?d = "[\<lparr>ae_flag = ALIGN_DMA, ae_addr = addr + u, ae_size = r - r mod 4\<rparr>] @ ?t"
    have lt: "addr + u < 2 ^ 32" using assms(3) r unfolding e by linarith
    have lt': "addr + u + (r - r mod 4) < 2 ^ 32" if "r mod 4 > 0"
      using assms(3) mod_less_eq_dividend [of r 4] that unfolding e by linarith
    have "wm_data_align_parser addr (int n) True =
        (WM_ERR_SUCCESS, Some ((h @ ?d) @ replicate (3 - length (h @ ?d)) align_none))"
      unfolding parser using r lt lt' by (simp add: One_nat_def)
    moreover have "tiles addr (h @ ?d) (addr + n)"
      using h(3) align_tail_tiles [OF head_gap_align [of addr] r] unfolding tiles_append e s u_def
      by blast
    ultimately show ?thesis using h(1) by (intro exI [of _ "h @ ?d"]) auto
  qed
qed

theorem align_parser_tiles_witness:
  "\<exists>tab. wm_data_align_parser 4098 (int 103) True =
      (WM_ERR_SUCCESS, Some (tab @ replicate (3 - length tab) align_none)) \<and>
    length tab \<le> 3 \<and> tiles 4098 tab (4098 + 103)"
  by (rule align_parser_tiles) simp_all

section \<open>Checksum\<close>

text \<open>The division by the polynomial, bit by bit, lowest bit first.\<close>

fun crc8_bits :: "nat \<Rightarrow> u8 \<Rightarrow> u8" where
  "crc8_bits 0 c = c"
| "crc8_bits (Suc n) c = crc8_bits n (if bit c 0 then drop_bit 1 c XOR 0xE0 else drop_bit 1 c)"

declare crc8_bits.simps [simp del]

lemma crc8_bits_xor: "crc8_bits n (a XOR b) = crc8_bits n a XOR crc8_bits n b"
proof (induction n arbitrary: a b)
  case (Suc n)
  have x: "(x XOR y) XOR 0xE0 = x XOR (y XOR (0xE0 :: u8))"
    "(x XOR 0xE0) XOR (y XOR 0xE0) = x XOR (y :: u8)"
    "(x XOR 0xE0) XOR y = (x XOR y) XOR (0xE0 :: u8)" for x y
    by (simp_all add: ac_simps)
  show ?case
    by (cases "bit a 0"; cases "bit b 0") (simp_all add: crc8_bits.simps bit_xor_iff drop_bit_xor Suc [symmetric] x)
qed (simp add: crc8_bits.simps)

text \<open>The table by doubling: the second half of its first \<open>2 ^ (k + 1)\<close> entries is the first half
  with the entry of the next power of two added.\<close>

definition crc8_part :: "nat \<Rightarrow> u8 list" where
  "crc8_part k = map (\<lambda>i. crc8_bits 8 (of_nat i)) [0..<2 ^ k]"

lemma of_nat_add_power: "i < 2 ^ k \<Longrightarrow> (of_nat (2 ^ k + i) :: u8) = of_nat i XOR of_nat (2 ^ k)"
proof -
  assume "i < 2 ^ k"
  then have "i AND 2 ^ k = 0" by (simp add: and_exp_eq_0_iff_not_bit bit_iff_odd)
  then have "i + 2 ^ k = i XOR 2 ^ k" by (rule disjunctive_add_eq_xor)
  then have "of_nat (2 ^ k + i) = (of_nat (i XOR 2 ^ k) :: u8)" by (simp only: add.commute)
  then show ?thesis by (simp only: of_nat_xor_eq)
qed

lemma crc8_part_Suc:
  "crc8_part (Suc k) = crc8_part k @ map (\<lambda>x. x XOR crc8_bits 8 (of_nat (2 ^ k))) (crc8_part k)"
proof -
  have "map (\<lambda>i. 2 ^ k + i) [0..<2 ^ k] = [2 ^ k..<2 ^ k + 2 ^ k]"
    using map_add_upt [of "2 ^ k" "2 ^ k"] by (simp only: add.commute)
  moreover have "[0..<2 ^ k + 2 ^ k] = [0..<2 ^ k] @ [2 ^ k..<2 ^ k + 2 ^ k]"
    using upt_add_eq_append [of 0 "2 ^ k" "2 ^ k"] by simp
  ultimately have "[0..<2 ^ Suc k] = [0..<2 ^ k] @ map (\<lambda>i. 2 ^ k + i) [0..<2 ^ k]"
    by (simp only: power_Suc mult_2)
  then have "crc8_part (Suc k) = crc8_part k @ map (\<lambda>i. crc8_bits 8 (of_nat (2 ^ k + i))) [0..<2 ^ k]"
    by (simp only: crc8_part_def map_append map_map o_def)
  also have "map (\<lambda>i. crc8_bits 8 (of_nat (2 ^ k + i))) [0..<2 ^ k] =
      map (\<lambda>i. crc8_bits 8 (of_nat i) XOR crc8_bits 8 (of_nat (2 ^ k))) [0..<2 ^ k]"
    by (rule map_cong [OF refl]) (simp only: set_upt atLeastLessThan_iff of_nat_add_power crc8_bits_xor)
  finally show ?thesis by (simp only: crc8_part_def map_map o_def)
qed

lemma eight: "(8 :: nat) = Suc (Suc (Suc (Suc (Suc (Suc (Suc (Suc 0)))))))"
  by simp

lemma crc8_powers:
  "crc8_bits 8 1 = 0x91" "crc8_bits 8 2 = 0xE3" "crc8_bits 8 4 = 0x07" "crc8_bits 8 8 = 0x0E"
  "crc8_bits 8 16 = 0x1C" "crc8_bits 8 32 = 0x38" "crc8_bits 8 64 = 0x70" "crc8_bits 8 128 = 0xE0"
  unfolding eight by (simp_all add: One_nat_def crc8_bits.simps)

lemma crc8_table: "map (\<lambda>i. crc8_bits 8 (of_nat i)) [0..<256] = crc8_tbl"
proof -
  have "crc8_bits 8 0 = 0" unfolding eight by (simp add: crc8_bits.simps)
  then have "crc8_part 0 = [0]" by (simp add: crc8_part_def One_nat_def)
  then have "crc8_part (Suc (Suc (Suc (Suc (Suc (Suc (Suc (Suc 0)))))))) = crc8_tbl"
    by (simp add: crc8_part_Suc crc8_tbl_def crc8_powers)
  then show ?thesis by (simp add: crc8_part_def)
qed

lemma crc8_entry: "crc8_tbl ! unat c = crc8_bits 8 c"
proof -
  have "unat c < 256" by simp
  then have "map (\<lambda>i. crc8_bits 8 (of_nat i)) [0..<256] ! unat c = crc8_bits 8 (of_nat (unat c))"
    by (simp only: nth_map length_upt nth_upt) simp
  then show ?thesis by (simp add: crc8_table)
qed

text \<open>The table-driven checksum is the bitwise one of the polynomial 0xE0 (reversed 0x07) with
  initial value 0, on every input.\<close>

theorem crc8_is_bitwise:
  "wm_get_crc8 bs = foldl (\<lambda>c d. crc8_bits 8 (c XOR d)) 0 bs"
  by (simp add: wm_get_crc8_def crc8_entry)

text \<open>A block that ends in its checksum has checksum zero.\<close>

lemma crc8_of_sealed: "wm_get_crc8 (bs @ [wm_get_crc8 bs]) = 0"
  by (simp add: wm_get_crc8_def) (simp add: crc8_tbl_def)

section \<open>Text of bytes and numbers\<close>

definition hex_digit :: "nat \<Rightarrow> u8" where
  "hex_digit k = (if k < 10 then of_nat (0x30 + k) else of_nat (0x61 + (k - 10)))"

definition byte_text :: "u8 \<Rightarrow> bytes" where
  "byte_text b = [hex_digit (unat (drop_bit 4 b)), hex_digit (unat (take_bit 4 b))]"

text \<open>Bytes, each behind any number of colons and dashes.\<close>

fun hex_text :: "(bytes \<times> u8) list \<Rightarrow> bytes" where
  "hex_text [] = []"
| "hex_text ((sep, b) # xs) = sep @ byte_text b @ hex_text xs"

lemma hex_digits: "\<forall>k \<in> set [0..<16]. wm_atohex (hex_digit k) = int k \<and>
    hex_digit k \<noteq> 0x3A \<and> hex_digit k \<noteq> 0x2D"
  by (simp add: upt_rec hex_digit_def wm_atohex_def One_nat_def)

lemma hex_digit_simps:
  assumes "k < 16"
  shows "wm_atohex (hex_digit k) = int k" and "hex_digit k \<noteq> 0x3A" and "hex_digit k \<noteq> 0x2D"
  using hex_digits assms by (auto simp del: upt_rec_numeral)

lemma nibbles_lt: "unat (drop_bit 4 (b :: u8)) < 16" "unat (take_bit 4 (b :: u8)) < 16"
proof -
  have "unat b div 16 < 16" using u8_lt [of b] by (simp add: less_mult_imp_div_less)
  moreover have "unat (drop_bit 4 b) = unat b div 16"
    by (simp only: unat_drop_bit_eq) (simp add: drop_bit_eq_div)
  ultimately show "unat (drop_bit 4 b) < 16" by simp
  have "unat (take_bit 4 b) = unat b mod 16"
    by (simp only: unsigned_take_bit_eq) (simp add: take_bit_eq_mod)
  then show "unat (take_bit 4 b) < 16" by simp
qed

lemma nibbles_join:
  "(word_of_int (push_bit 4 (int (unat (drop_bit 4 b)))) AND 0xF0) OR
     word_of_int (int (unat (take_bit 4 b)) AND 0x0F) = (b :: u8)"
proof -
  have h: "(word_of_int (push_bit 4 (int (unat (drop_bit 4 b)))) :: u8) = push_bit 4 (drop_bit 4 b)"
    by (rule bit_word_eqI) (auto simp: bit_simps bit_push_bit_iff_int
      bit_of_nat_iff_bit unsigned_drop_bit_eq)
  have l: "(word_of_int (int (unat (take_bit 4 b)) AND 0x0F) :: u8) = take_bit 4 b AND 0x0F"
    by (simp add: of_int_and_eq)
  have m: "(0xF0 :: u8) = push_bit 4 (mask 4)" "(0x0F :: u8) = mask 4" by (simp_all add: mask_eq_exp_minus_1 push_bit_eq_mult)
  show ?thesis unfolding h l m
    by (rule bit_word_eqI) (auto simp: bit_simps)
qed

lemma hex_loop_seps: "set sep \<subseteq> {0x3A, 0x2D} \<Longrightarrow>
    hex_loop (sep @ str) (Suc n) des = hex_loop str (Suc n) des"
  by (induction sep) auto

lemma hex_loop_text:
  assumes "\<forall>(sep, b) \<in> set xs. set sep \<subseteq> {0x3A, 0x2D}"
  shows "hex_loop (hex_text xs) (length xs) des = (0, des @ map snd xs)"
  using assms
proof (induction xs arbitrary: des)
  case (Cons x xs)
  obtain sep b where x: "x = (sep, b)" by (cases x)
  have "hex_loop (byte_text b @ hex_text xs) (Suc (length xs)) des =
      hex_loop (hex_text xs) (length xs) (des @ [b])"
    using hex_digit_simps [OF nibbles_lt(1), of b] hex_digit_simps [OF nibbles_lt(2), of b]
      nibbles_join [of b] by (simp add: byte_text_def c_at_def Let_def)
  then show ?case using Cons x by (simp add: hex_loop_seps)
qed (simp add: c_at_def)

text \<open>The hexadecimal text of bytes, with any separators in front of each, is read back.\<close>

lemma hex_text_back:
  assumes "\<forall>(sep, b) \<in> set xs. set sep \<subseteq> {0x3A, 0x2D}" and "length xs \<le> length arr"
  shows "wm_hex_str_to_array (hex_text xs) arr (int (length xs)) =
    (0, map snd xs @ drop (length xs) arr)"
  by (simp add: wm_hex_str_to_array_def hex_loop_text [OF assms(1)] overlay_def)

function dec_text :: "nat \<Rightarrow> bytes" where
  "dec_text n = (if n < 10 then [of_nat (0x30 + n)] else dec_text (n div 10) @ [of_nat (0x30 + n mod 10)])"
  by auto
termination by (relation "measure id") auto

declare dec_text.simps [simp del]

definition int_text :: "int \<Rightarrow> bytes" where
  "int_text v = (if v < 0 then 0x2D # dec_text (nat (- v)) else dec_text (nat v))"

lemma digit_char:
  assumes "k < 10"
  shows "is_digit (of_nat (0x30 + k))" and "int (unat (of_nat (0x30 + k) :: u8)) - 0x30 = int k"
  using assms by (simp_all add: is_digit_def word_le_nat_alt del: of_nat_add)

lemma dec_text_head: "\<exists>c cs. dec_text n = c # cs \<and> is_digit c"
proof (induction n rule: dec_text.induct)
  case (1 n)
  show ?case
    using 1 digit_char [of n] by (cases "n < 10") (auto simp: dec_text.simps [of n])
qed

lemma atoi_loop_text: "int n \<le> 2 ^ 31 \<Longrightarrow> atoi_loop (dec_text n @ cs) 0 = atoi_loop cs (- int n)"
proof (induction n arbitrary: cs rule: dec_text.induct)
  case (1 n)
  show ?case
  proof (cases "n < 10")
    case True
    then show ?thesis using digit_char [of n] by (simp add: dec_text.simps [of n] c_int_def)
  next
    case False
    have e: "- int n = 10 * - int (n div 10) - int (n mod 10)"
      using div_mult_mod_eq [of n 10] by linarith
    have "c_int (10 * - int (n div 10)) = Some (10 * - int (n div 10))" "c_int (- int n) = Some (- int n)"
      using 1(2) e by (simp_all add: c_int_def)
    moreover have "atoi_loop (dec_text (n div 10) @ [of_nat (0x30 + n mod 10)] @ cs) 0 =
        atoi_loop ([of_nat (0x30 + n mod 10)] @ cs) (- int (n div 10))"
      using 1(1) [OF False] 1(2) by simp
    ultimately show ?thesis using digit_char [of "n mod 10"] False e
      by (simp add: dec_text.simps [of n])
  qed
qed

text \<open>The decimal text of every 32-bit number is read back without error, the smallest number
  included.\<close>

theorem atoi_reads_int_text:
  assumes "- (2 ^ 31) \<le> v" and "v < 2 ^ 31"
  shows "wm_atoi (int_text v) = Some (v, 0)"
proof (cases "v < 0")
  case True
  have "int (nat (- v)) \<le> 2 ^ 31" using assms by simp
  from atoi_loop_text [OF this, of "[]"] True dec_text_head [of "nat (- v)"] show ?thesis
    by (auto simp: wm_atoi_def int_text_def is_space_def c_at_def Let_def)
next
  case False
  obtain c cs where c: "dec_text (nat v) = c # cs" "is_digit c" using dec_text_head by blast
  have ns: "\<not> is_space c" "c \<noteq> 0x2D" "c \<noteq> 0x2B"
    using c(2) by (auto simp: is_digit_def is_space_def word_le_nat_alt)
  have "int (nat v) \<le> 2 ^ 31" using assms by simp
  from atoi_loop_text [OF this, of "[]"] False c ns assms(2) show ?thesis
    by (auto simp: wm_atoi_def int_text_def c_at_def Let_def c_int_def)
qed

theorem atoi_reads_int_text_witness:
  "wm_atoi (int_text (- 2147483648)) = Some (- 2147483648, 0)"
  by (rule atoi_reads_int_text) simp_all

section \<open>String functions\<close>

lemma wm_strnlen_is_strnlen: "wm_strnlen s n = strnlen s n"
  by (induction s n rule: wm_strnlen.induct) (simp_all add: strnlen_def)

text \<open>The copy is terminated and as long as it fits; the result tells the full length.\<close>

lemma strlcpy_truncates:
  assumes "0 < len" and "len \<le> length dest" and "0 \<notin> set src"
  obtains out where "strlcpy dest src len = Some (length src, out)" and "length out = length dest"
    and "takeWhile (\<lambda>b. b \<noteq> 0) out = take (len - 1) src"
proof -
  have nz: "takeWhile (\<lambda>b. b \<noteq> 0) (xs @ 0 # ys) = xs" if "set xs \<subseteq> set src" for xs ys
    using that assms(3) by (subst takeWhile_append2) auto
  let ?o = "if length src < len then src @ [0] else take (len - 1) src @ [0]"
  have l: "length ?o \<le> length dest" using assms(1,2) by auto
  have "takeWhile (\<lambda>b. b \<noteq> 0) (overlay dest 0 ?o) = take (len - 1) src"
    using nz [of src] nz [of "take (len - 1) src"] set_take_subset [of "len - 1" src]
    by (simp add: overlay_def)
  moreover have "strlcpy dest src len = Some (length src, overlay dest 0 ?o)"
    using assms(1) l by (simp add: strlcpy_def Let_def)
  ultimately show ?thesis using l that by simp
qed

text \<open>\<open>memrchr\<close> looks one byte too far and never at the first: a match there is missed, and an
  object of exactly the given size is read behind its end.\<close>

lemma memrchr_misses_first: "x \<noteq> c \<Longrightarrow> memrchr [c, x] c 1 = Some None"
  by (simp add: One_nat_def)

lemma memrchr_reads_past: "obj \<noteq> [] \<Longrightarrow> memrchr obj c (length obj) = None"
  by (cases "length obj") auto

text \<open>A string equals every string it is a prefix of.\<close>

lemma strcasecmp_ignores_rest: "strcasecmp s (s @ t) = 0"
  by (induction s) auto

text \<open>A hexadecimal number without prefix passes the check and reads as 0.\<close>

lemma str2int_bare_hex: "wm_str2int (Some [0x66, 0x66]) = (WM_ERR_SUCCESS, Some 0)"
  by code_simp

text \<open>A quotation mark at one end alone takes a character off the other end, too.\<close>

lemma unquote_one_sided: "unquote1 [0x22, 0x61, 0x62] = Some [0x61]"
  by code_simp

text \<open>Half an hour west of Greenwich is taken for half an hour east.\<close>

lemma tz_half_hour_west:
  "tz_to_utc_time [0x55, 0x54, 0x43, 0x2D, 0x30, 0x30, 0x3A, 0x33, 0x30] = Some (Some 1800)"
  by code_simp

end
