(* ===== verification/Crc.thy ===== *)
theory Crc
  imports RtcDriver
begin

text \<open>
  The checksum unit: the HAL (\<open>wm_hal_crc.c\<close>, with the register accesses of
  \<open>wm_ll_gpsec.h\<close>), the driver of the chip (\<open>wm_drv_ops_crc.c\<close>, and the mutex of the shared
  unit in \<open>wm_drv_ops_hash.c\<close>) and the front end (\<open>wm_drv_crc.c\<close>). The arithmetic of the unit is
  hardware: \<open>gh_unit\<close> is what the value register holds after a run, given the algorithm,
  the reverse setting, what the value register held before, and the bytes it fetched.
\<close>

section \<open>The unit\<close>

text \<open>The registers of \<open>wm_gpsec_reg_t\<close> that the checksum uses; the source address stands for
  the bytes it points to.\<close>

record gpsec_reg =
  gr_src_addr :: bytes
  gr_total_bytes :: nat
  gr_cypher_mode :: nat
  gr_sub_mode :: nat
  gr_crc_reverse :: nat
  gr_int_mask :: nat
  gr_crc_value :: crc

text \<open>A checksum context, kept by the caller from one call to the next.\<close>

record crc_cfg =
  cc_state :: crc
  cc_type :: nat
  cc_reverse :: nat

text \<open>The hardware and the system around it; \<open>gh_junk\<close> is what an uninitialised context holds.\<close>

record crc_hw =
  gh_unit :: "nat \<Rightarrow> nat \<Rightarrow> crc \<Rightarrow> bytes \<Rightarrow> crc"
  gh_reg_base :: bool
  gh_rcc :: bool
  gh_mutex_create :: int
  gh_mutex_acquire :: int
  gh_mutex_release :: int
  gh_junk :: crc_cfg

abbreviation (input) WM_GPSEC_CRC8 :: nat where "WM_GPSEC_CRC8 \<equiv> 0"
abbreviation (input) WM_GPSEC_CRC16_MODBUS :: nat where "WM_GPSEC_CRC16_MODBUS \<equiv> 1"
abbreviation (input) WM_GPSEC_CRC16_CCITT :: nat where "WM_GPSEC_CRC16_CCITT \<equiv> 2"
abbreviation (input) WM_GPSEC_CRC32 :: nat where "WM_GPSEC_CRC32 \<equiv> 3"
abbreviation (input) WM_GPSEC_CRC_OUT_REVERSE :: nat where "WM_GPSEC_CRC_OUT_REVERSE \<equiv> 1"
abbreviation (input) WM_GPSEC_CRC_OUT_IN_REVERSE :: nat where "WM_GPSEC_CRC_OUT_IN_REVERSE \<equiv> 3"
abbreviation (input) WM_GPSEC_CYPHER_MODE_CRC :: nat where "WM_GPSEC_CYPHER_MODE_CRC \<equiv> 6"
abbreviation (input) W800_CRC_MAX_CALC_BYTES :: nat where "W800_CRC_MAX_CALC_BYTES \<equiv> 65532"
abbreviation (input) WM_ERR_BUSY :: int where "WM_ERR_BUSY \<equiv> -4"

definition IS_CRC_TYPE :: "nat \<Rightarrow> bool" where
  "IS_CRC_TYPE t = (t = WM_GPSEC_CRC8 \<or> t = WM_GPSEC_CRC16_MODBUS \<or>
     t = WM_GPSEC_CRC16_CCITT \<or> t = WM_GPSEC_CRC32)"

definition IS_CRC_REVERSE :: "nat \<Rightarrow> bool" where
  "IS_CRC_REVERSE r = (r = 0 \<or> r = 1 \<or> r = 2 \<or> r = 3)"

text \<open>Setting the start bit: the unit fetches the bytes and leaves its result.\<close>

definition wm_ll_gpsec_set_total_bytes :: "gpsec_reg \<Rightarrow> nat \<Rightarrow> gpsec_reg" where
  "wm_ll_gpsec_set_total_bytes reg n = reg\<lparr>gr_total_bytes := u16n n\<rparr>"

definition gpsec_run :: "crc_hw \<Rightarrow> gpsec_reg \<Rightarrow> gpsec_reg" where
  "gpsec_run hw reg = reg\<lparr>gr_crc_value := gh_unit hw (gr_sub_mode reg) (gr_crc_reverse reg)
     (gr_crc_value reg) (take (gr_total_bytes reg) (gr_src_addr reg))\<rparr>"

section \<open>HAL\<close>

record hal_crc =
  hc_gpsec_reg :: bool
  hc_cfg :: crc_cfg

text \<open>The loop of \<open>reverse_num\<close> from \<open>i\<close> on; \<open>nbit\<close> is the count of bits.\<close>

function reverse_num_loop :: "nat \<Rightarrow> crc \<Rightarrow> nat \<Rightarrow> crc \<Rightarrow> crc" where
  "reverse_num_loop i num nbit ret =
     (if i < nbit + 1 then
        reverse_num_loop (i + 1) (drop_bit 1 num) nbit
          (if num AND 1 \<noteq> 0 then ret OR push_bit (nbit - i) 1 else ret)
      else ret)"
  by pat_completeness auto
termination
  by (relation "measure (\<lambda>(i, num, nbit, ret). nbit + 1 - i)") auto

definition reverse_num :: "crc \<Rightarrow> nat \<Rightarrow> crc" where
  "reverse_num num nbit = reverse_num_loop 1 num nbit 0"

definition crc_bits :: "nat \<Rightarrow> nat" where
  "crc_bits type = (if type = WM_GPSEC_CRC8 then 8
     else if type = WM_GPSEC_CRC16_MODBUS \<or> type = WM_GPSEC_CRC16_CCITT then 16
     else if type = WM_GPSEC_CRC32 then 32 else 16)"

definition set_crc_value :: "gpsec_reg \<Rightarrow> hal_crc \<Rightarrow> int \<times> gpsec_reg" where
  "set_crc_value reg dev =
     (let cfg = hc_cfg dev in
      if \<not> (IS_CRC_TYPE (cc_type cfg) \<and> IS_CRC_REVERSE (cc_reverse cfg))
      then (WM_ERR_INVALID_PARAM, reg)
      else if odd (cc_reverse cfg)
      then (WM_ERR_SUCCESS,
            reg\<lparr>gr_crc_value := reverse_num (cc_state cfg) (crc_bits (cc_type cfg))\<rparr>)
      else (WM_ERR_SUCCESS, reg\<lparr>gr_crc_value := cc_state cfg\<rparr>))"

definition wm_hal_crc_init :: "gpsec_reg \<Rightarrow> hal_crc option \<Rightarrow> int \<times> gpsec_reg" where
  "wm_hal_crc_init reg dev =
     (case dev of
        None \<Rightarrow> (WM_ERR_INVALID_PARAM, reg)
      | Some d \<Rightarrow>
          let cfg = hc_cfg d in
          if \<not> (hc_gpsec_reg d \<and> IS_CRC_TYPE (cc_type cfg) \<and> IS_CRC_REVERSE (cc_reverse cfg))
          then (WM_ERR_INVALID_PARAM, reg)
          else (WM_ERR_SUCCESS,
                reg\<lparr>gr_int_mask := 1, gr_cypher_mode := WM_GPSEC_CYPHER_MODE_CRC,
                    gr_sub_mode := cc_type cfg, gr_crc_reverse := cc_reverse cfg\<rparr>))"

definition wm_hal_crc_update ::
  "crc_hw \<Rightarrow> gpsec_reg \<Rightarrow> hal_crc option \<Rightarrow> bytes option \<Rightarrow> nat \<Rightarrow> int \<times> gpsec_reg \<times> hal_crc option"
where
  "wm_hal_crc_update hw reg dev inp len =
     (case (dev, inp) of
        (Some d, Some bs) \<Rightarrow>
          if \<not> (0 < len \<and> len \<le> W800_CRC_MAX_CALC_BYTES) then (WM_ERR_INVALID_PARAM, reg, dev)
          else if \<not> hc_gpsec_reg d then (WM_ERR_INVALID_PARAM, reg, dev)
          else
            let reg = snd (wm_hal_crc_init reg dev);
                reg = wm_ll_gpsec_set_total_bytes reg len;
                reg = snd (set_crc_value reg d);
                reg = reg\<lparr>gr_src_addr := bs\<rparr>;
                reg = gpsec_run hw reg;
                d = d\<lparr>hc_cfg := (hc_cfg d)\<lparr>cc_state := gr_crc_value reg\<rparr>\<rparr>
            in (WM_ERR_SUCCESS, reg\<lparr>gr_int_mask := 1\<rparr>, Some d)
      | _ \<Rightarrow> (WM_ERR_INVALID_PARAM, reg, dev))"

definition wm_hal_crc_final :: "hal_crc option \<Rightarrow> bool \<Rightarrow> int \<times> crc option" where
  "wm_hal_crc_final dev crc_val =
     (case dev of
        Some d \<Rightarrow> if crc_val then (WM_ERR_SUCCESS, Some (cc_state (hc_cfg d)))
                  else (WM_ERR_INVALID_PARAM, None)
      | None \<Rightarrow> (WM_ERR_INVALID_PARAM, None))"

section \<open>Driver\<close>

text \<open>
  The device of the tree (whether it is there, its state, its data), with the unit's
  registers, the shared mutex (has it been created) and the clock gate of the unit.
\<close>

record crc_data =
  cd_hal :: hal_crc
  cd_clock :: bool

record crc_sys =
  cs_present :: bool
  cs_state :: dev_state
  cs_drv :: "crc_data option"
  cs_reg :: gpsec_reg
  cs_mutex :: bool
  cs_gate :: bool

abbreviation (input) CRC_DATA_SIZE :: nat where "CRC_DATA_SIZE \<equiv> 20"

definition wm_drv_creat_gpsec_mutex :: "crc_hw \<Rightarrow> crc_sys \<Rightarrow> int \<times> crc_sys" where
  "wm_drv_creat_gpsec_mutex hw s =
     (if \<not> cs_mutex s
      then (gh_mutex_create hw, s\<lparr>cs_mutex := (gh_mutex_create hw = 0)\<rparr>)
      else (0, s))"

definition wm_drv_acquire_gpsec_mutex :: "crc_hw \<Rightarrow> crc_sys \<Rightarrow> int" where
  "wm_drv_acquire_gpsec_mutex hw s = (if \<not> cs_mutex s then 0 else gh_mutex_acquire hw)"

definition wm_drv_release_gpsec_mutex :: "crc_hw \<Rightarrow> crc_sys \<Rightarrow> int" where
  "wm_drv_release_gpsec_mutex hw s = (if \<not> cs_mutex s then 0 else gh_mutex_release hw)"

definition hal_crc_zero :: hal_crc where
  "hal_crc_zero = \<lparr>hc_gpsec_reg = False, hc_cfg = \<lparr>cc_state = 0, cc_type = 0, cc_reverse = 0\<rparr>\<rparr>"

definition wm_w800_drv_crc_init :: "env \<Rightarrow> crc_hw \<Rightarrow> crc_sys \<Rightarrow> int \<times> crc_sys" where
  "wm_w800_drv_crc_init env hw s =
     (let (m, s) = wm_drv_creat_gpsec_mutex hw s in
      if m \<noteq> 0 then (WM_ERR_FAILED, s)
      else if cs_state s = DEV_INITED then (WM_ERR_ALREADY_INITED, s)
      else if cs_state s = DEV_INITING then (WM_ERR_BUSY, s)
      else if cs_drv s = None \<and> \<not> alloc_ok env CRC_DATA_SIZE
      then (WM_ERR_NO_MEM, s\<lparr>cs_state := DEV_UNINIT\<rparr>)
      else if \<not> gh_rcc hw then (WM_ERR_FAILED, s\<lparr>cs_state := DEV_UNINIT\<rparr>)
      else
        let drv = (case cs_drv s of
                     None \<Rightarrow> \<lparr>cd_hal = hal_crc_zero, cd_clock = False\<rparr> | Some d \<Rightarrow> d);
            drv = drv\<lparr>cd_hal := (cd_hal drv)\<lparr>hc_gpsec_reg := gh_reg_base hw\<rparr>, cd_clock := True\<rparr>
        in (WM_ERR_SUCCESS, s\<lparr>cs_drv := Some drv, cs_state := DEV_INITED\<rparr>))"

definition wm_w800_drv_crc_deinit :: "crc_sys \<Rightarrow> int \<times> crc_sys" where
  "wm_w800_drv_crc_deinit s =
     (if cs_state s = DEV_UNINIT \<or> cs_drv s = None then (WM_ERR_NO_INITED, s)
      else (WM_ERR_SUCCESS, s\<lparr>cs_gate := False, cs_drv := None, cs_state := DEV_UNINIT\<rparr>))"

definition wm_w800_drv_crc_cfg :: "crc_cfg \<Rightarrow> crc \<Rightarrow> nat \<Rightarrow> nat \<Rightarrow> int \<times> crc_cfg" where
  "wm_w800_drv_crc_cfg ctx state type reverse =
     (WM_ERR_SUCCESS, ctx\<lparr>cc_state := state, cc_type := type, cc_reverse := reverse\<rparr>)"

definition wm_w800_drv_crc_update ::
  "crc_hw \<Rightarrow> crc_sys \<Rightarrow> crc_cfg \<Rightarrow> bytes \<Rightarrow> nat \<Rightarrow> int \<times> crc_sys \<times> crc_cfg" where
  "wm_w800_drv_crc_update hw s ctx bs len =
     (case cs_drv s of
        None \<Rightarrow> (WM_ERR_INVALID_PARAM, s, ctx)
      | Some drv \<Rightarrow>
          if wm_drv_acquire_gpsec_mutex hw s \<noteq> 0 then (WM_ERR_FAILED, s, ctx)
          else
            let s = s\<lparr>cs_gate := True\<rparr>;
                hal = (cd_hal drv)\<lparr>hc_cfg := ctx\<rparr>;
                (ret, reg, hal') = wm_hal_crc_update hw (cs_reg s) (Some hal) (Some bs) len;
                hal' = the hal';
                ctx = ctx\<lparr>cc_state := cc_state (hc_cfg hal')\<rparr>;
                s = s\<lparr>cs_reg := reg, cs_drv := Some (drv\<lparr>cd_hal := hal'\<rparr>)\<rparr>
            in if wm_drv_release_gpsec_mutex hw s \<noteq> 0 then (WM_ERR_FAILED, s, ctx)
               else (ret, s, ctx))"

definition wm_w800_drv_crc_final :: "crc_cfg \<Rightarrow> int \<times> crc" where
  "wm_w800_drv_crc_final ctx = (WM_ERR_SUCCESS, cc_state ctx)"

section \<open>Front end\<close>

text \<open>A device pointer is \<open>True\<close> when it is the device, \<open>False\<close> when it is null.\<close>

definition wm_drv_crc_init :: "env \<Rightarrow> crc_hw \<Rightarrow> crc_sys \<Rightarrow> bool \<times> crc_sys" where
  "wm_drv_crc_init env hw s =
     (if \<not> cs_present s then (False, s)
      else let (ret, s) = wm_w800_drv_crc_init env hw s
           in (ret = WM_ERR_ALREADY_INITED \<or> ret = WM_ERR_SUCCESS, s))"

definition wm_drv_crc_deinit :: "crc_sys \<Rightarrow> bool \<Rightarrow> int \<times> crc_sys" where
  "wm_drv_crc_deinit s dev =
     (if \<not> dev then (WM_ERR_INVALID_PARAM, s) else wm_w800_drv_crc_deinit s)"

definition wm_drv_crc_cfg ::
  "bool \<Rightarrow> crc_cfg option \<Rightarrow> crc \<Rightarrow> nat \<Rightarrow> nat \<Rightarrow> int \<times> crc_cfg option" where
  "wm_drv_crc_cfg dev ctx state type reverse =
     (case ctx of
        Some c \<Rightarrow> if dev \<and> IS_CRC_TYPE type \<and> IS_CRC_REVERSE reverse
                  then (let (ret, c) = wm_w800_drv_crc_cfg c state type reverse in (ret, Some c))
                  else (WM_ERR_INVALID_PARAM, ctx)
      | None \<Rightarrow> (WM_ERR_INVALID_PARAM, ctx))"

definition wm_drv_crc_update ::
  "crc_hw \<Rightarrow> crc_sys \<Rightarrow> bool \<Rightarrow> crc_cfg option \<Rightarrow> bytes option \<Rightarrow> nat \<Rightarrow> int \<times> crc_sys \<times> crc_cfg option"
where
  "wm_drv_crc_update hw s dev ctx inp len =
     (case (ctx, inp) of
        (Some c, Some bs) \<Rightarrow>
          if dev \<and> len > 0
          then (let (ret, s, c) = wm_w800_drv_crc_update hw s c bs len in (ret, s, Some c))
          else (WM_ERR_INVALID_PARAM, s, ctx)
      | _ \<Rightarrow> (WM_ERR_INVALID_PARAM, s, ctx))"

text \<open>The last argument is whether the caller gave a place for the result; what it holds
  afterwards comes back as an option.\<close>

definition wm_drv_crc_final :: "bool \<Rightarrow> crc_cfg option \<Rightarrow> bool \<Rightarrow> int \<times> crc option" where
  "wm_drv_crc_final dev ctx crc_val =
     (case ctx of
        Some c \<Rightarrow> if dev \<and> crc_val
                  then (let (ret, v) = wm_w800_drv_crc_final c in (ret, Some v))
                  else (WM_ERR_INVALID_PARAM, None)
      | None \<Rightarrow> (WM_ERR_INVALID_PARAM, None))"

text \<open>The context of this function is an uninitialised local.\<close>

definition wm_drv_crc32_reverse ::
  "env \<Rightarrow> crc_hw \<Rightarrow> crc_sys \<Rightarrow> bytes option \<Rightarrow> nat \<Rightarrow> crc \<times> crc_sys" where
  "wm_drv_crc32_reverse env hw s buf len =
     (if buf = None \<or> len = 0 then (0, s)
      else
        let (dev, s) = wm_drv_crc_init env hw s;
            ctx = snd (wm_drv_crc_cfg dev (Some (gh_junk hw)) 0xFFFFFFFF WM_GPSEC_CRC32
                         WM_GPSEC_CRC_OUT_IN_REVERSE);
            (_, s, ctx) = wm_drv_crc_update hw s dev ctx buf len;
            crcvalue = (case wm_drv_crc_final dev ctx True of (_, None) \<Rightarrow> 0 | (_, Some v) \<Rightarrow> v)
        in (crcvalue, if gh_rcc hw then s\<lparr>cs_gate := False\<rparr> else s))"

declare reverse_num_loop.simps [simp del]

end
