(* ===== verification/OtaOps.thy ===== *)
theory OtaOps
  imports Crc PartitionTable
begin

text \<open>
  Writing a firmware image into the update partition (\<open>wm_ota_ops.c\<close>): the image header and
  its checks, erasing, writing chunk by chunk with the running checksum, and the final check.
  A context pointer is an option; a function returns its code, the system and what it left
  in the context. Flash addresses and lengths are 32 bits wide.
\<close>

section \<open>Constants and errors\<close>

abbreviation (input) OTA_FLASH_BASE_ADDR :: nat where "OTA_FLASH_BASE_ADDR \<equiv> 0x8000000"
abbreviation (input) OTA_FLASH_SECTOR_SIZE :: nat where "OTA_FLASH_SECTOR_SIZE \<equiv> 0x1000"
abbreviation (input) OTA_MAGIC_NO :: nat where "OTA_MAGIC_NO \<equiv> 0xA0FFFF9F"
abbreviation (input) OTA_APP_RUN_ADDRESS_OFFSET :: nat where "OTA_APP_RUN_ADDRESS_OFFSET \<equiv> 0x400"
abbreviation (input) OTA_FW_HEADER_SIZE_IN_BIN :: nat where "OTA_FW_HEADER_SIZE_IN_BIN \<equiv> 0x40"
abbreviation (input) OTA_SIZE_UNKNOWN :: nat where "OTA_SIZE_UNKNOWN \<equiv> 0xFFFFFFFF"
abbreviation (input) OTA_WITH_SEQUENTIAL_WRITES :: nat where "OTA_WITH_SEQUENTIAL_WRITES \<equiv> 0xFFFFFFFE"
abbreviation (input) WM_OTA_OPS_COMPRESS_MAX :: nat where "WM_OTA_OPS_COMPRESS_MAX \<equiv> 2"
abbreviation (input) WM_REBOOT_REASON_OTA :: nat where "WM_REBOOT_REASON_OTA \<equiv> 5"

abbreviation (input) WM_ERR_NOT_ALLOWED :: int where "WM_ERR_NOT_ALLOWED \<equiv> -9"
abbreviation (input) WM_ERR_OTA_NO_INIT :: int where "WM_ERR_OTA_NO_INIT \<equiv> -10001"
abbreviation (input) WM_ERR_OTA_HEADER_INVALID :: int where "WM_ERR_OTA_HEADER_INVALID \<equiv> -10002"
abbreviation (input) WM_ERR_OTA_CRC_ERROR :: int where "WM_ERR_OTA_CRC_ERROR \<equiv> -10004"
abbreviation (input) WM_ERR_OTA_FW_OVERFLOW :: int where "WM_ERR_OTA_FW_OVERFLOW \<equiv> -10005"
abbreviation (input) WM_ERR_OTA_TIMEOUT :: int where "WM_ERR_OTA_TIMEOUT \<equiv> -10006"
abbreviation (input) WM_ERR_OTA_CONNECTION_FAILED :: int where "WM_ERR_OTA_CONNECTION_FAILED \<equiv> -10008"

section \<open>Data\<close>

text \<open>The image header as it lies in memory; \<open>oh_flags\<close> is the word of bit fields behind the
  version (log level and the skip bits).\<close>

record ota_header =
  oh_magic_no :: nat
  oh_img_attr :: nat
  oh_img_addr :: nat
  oh_img_len :: nat
  oh_img_header_addr :: nat
  oh_upgrade_img_addr :: nat
  oh_org_checksum :: nat
  oh_upd_no :: nat
  oh_ver :: bytes
  oh_flags :: nat
  oh_reserved1 :: nat
  oh_next :: nat
  oh_hd_checksum :: nat

definition ota_header_of_bytes :: "bytes \<Rightarrow> ota_header" where
  "ota_header_of_bytes bs =
     (let w = (\<lambda>a. le_nat (take 4 (drop a bs))) in
      \<lparr>oh_magic_no = w 0, oh_img_attr = w 4, oh_img_addr = w 8, oh_img_len = w 12,
       oh_img_header_addr = w 16, oh_upgrade_img_addr = w 20, oh_org_checksum = w 24,
       oh_upd_no = w 28, oh_ver = take 16 (drop 32 bs), oh_flags = w 48, oh_reserved1 = w 52,
       oh_next = w 56, oh_hd_checksum = w 60\<rparr>)"

definition ota_header_bytes :: "ota_header \<Rightarrow> bytes" where
  "ota_header_bytes h =
     le_bytes 4 (oh_magic_no h) @ le_bytes 4 (oh_img_attr h) @ le_bytes 4 (oh_img_addr h) @
     le_bytes 4 (oh_img_len h) @ le_bytes 4 (oh_img_header_addr h) @
     le_bytes 4 (oh_upgrade_img_addr h) @ le_bytes 4 (oh_org_checksum h) @
     le_bytes 4 (oh_upd_no h) @ oh_ver h @ le_bytes 4 (oh_flags h) @
     le_bytes 4 (oh_reserved1 h) @ le_bytes 4 (oh_next h) @ le_bytes 4 (oh_hd_checksum h)"

text \<open>The fields of \<open>wm_img_attr_t\<close>.\<close>

definition img_type :: "nat \<Rightarrow> nat" where "img_type attr = attr mod 16"
definition gzip_enable :: "nat \<Rightarrow> nat" where "gzip_enable attr = attr div 2 ^ 16 mod 2"
definition compress_type :: "nat \<Rightarrow> nat" where "compress_type attr = attr div 2 ^ 20 mod 4"

record ota_ops_ctx =
  oo_app_addr :: nat
  oo_app_size :: nat
  oo_app_ota_addr :: nat
  oo_app_ota_size :: nat
  oo_need_erase :: nat
  oo_wrote_addr :: nat
  oo_header :: ota_header
  oo_crc_ctx :: crc_cfg

definition ota_ops_zero :: ota_ops_ctx where
  "ota_ops_zero =
     \<lparr>oo_app_addr = 0, oo_app_size = 0, oo_app_ota_addr = 0, oo_app_ota_size = 0,
      oo_need_erase = 0, oo_wrote_addr = 0, oo_header = ota_header_of_bytes (replicate 64 0),
      oo_crc_ctx = \<lparr>cc_state = 0, cc_type = 0, cc_reverse = 0\<rparr>\<rparr>"

text \<open>The system: the flash device, the checksum device, the text of the running version
  (\<open>CONFIG_BUILD_VERSION\<close>), the reboot reason, the watchdog counter when it was loaded, and
  whether interrupts are off.\<close>

record ota_sys =
  od_flash :: "flash_dev option"
  od_crc :: crc_sys
  od_version :: bytes
  od_reason :: nat
  od_wdt :: "nat option"
  od_critical :: bool

section \<open>Operations\<close>

text \<open>\<open>strcpy\<close> into the caller's buffer, given with its content; a version text as long as the
  buffer would overrun it.\<close>

definition wm_ota_ops_get_version :: "ota_sys \<Rightarrow> bytes option \<Rightarrow> int \<times> bytes option" where
  "wm_ota_ops_get_version s version =
     (case version of
        None \<Rightarrow> (WM_ERR_INVALID_PARAM, None)
      | Some buf \<Rightarrow> (WM_ERR_SUCCESS, Some (overlay buf 0 (od_version s @ [0]))))"

definition wm_ota_ops_check_fields :: "ota_ops_ctx \<Rightarrow> int" where
  "wm_ota_ops_check_fields ctx =
     (let h = oo_header ctx in
      if oh_magic_no h \<noteq> OTA_MAGIC_NO then WM_ERR_OTA_HEADER_INVALID
      else if img_type (oh_img_attr h) = 0 \<or> img_type (oh_img_attr h) = 0x0E
      then WM_ERR_OTA_HEADER_INVALID
      else if gzip_enable (oh_img_attr h) \<noteq> 0 then WM_ERR_OTA_HEADER_INVALID
      else if compress_type (oh_img_attr h) \<ge> WM_OTA_OPS_COMPRESS_MAX
      then WM_ERR_OTA_HEADER_INVALID
      else if oh_img_addr h \<noteq>
          u32 (OTA_FLASH_BASE_ADDR + oo_app_ota_addr ctx + OTA_APP_RUN_ADDRESS_OFFSET) \<and>
        oh_img_addr h \<noteq> u32 (OTA_FLASH_BASE_ADDR + oo_app_addr ctx + OTA_APP_RUN_ADDRESS_OFFSET)
      then WM_ERR_OTA_HEADER_INVALID
      else if oh_img_len h > u32 (oo_app_ota_size ctx + 2 ^ 32 - OTA_FW_HEADER_SIZE_IN_BIN)
      then WM_ERR_OTA_FW_OVERFLOW
      else if oh_img_header_addr h \<noteq> u32 (OTA_FLASH_BASE_ADDR + oo_app_ota_addr ctx) \<and>
        oh_img_header_addr h \<noteq> u32 (OTA_FLASH_BASE_ADDR + oo_app_addr ctx)
      then WM_ERR_OTA_HEADER_INVALID
      else if oh_upgrade_img_addr h \<noteq> 0 \<and>
        oh_upgrade_img_addr h \<noteq> u32 (OTA_FLASH_BASE_ADDR + oo_app_ota_addr ctx)
      then WM_ERR_OTA_HEADER_INVALID
      else WM_ERR_SUCCESS)"

definition wm_ota_ops_check_header ::
  "env \<Rightarrow> crc_hw \<Rightarrow> ota_sys \<Rightarrow> ota_ops_ctx option \<Rightarrow> bytes option \<Rightarrow> nat \<Rightarrow>
   int \<times> ota_sys \<times> ota_ops_ctx option" where
  "wm_ota_ops_check_header env hw s ctx data len =
     (case (ctx, data) of
        (Some c, Some bs) \<Rightarrow>
          if len < OTA_FW_HEADER_SIZE_IN_BIN then (WM_ERR_INVALID_PARAM, s, ctx)
          else
            let c = c\<lparr>oo_header := ota_header_of_bytes (take 64 bs)\<rparr>;
                ret = wm_ota_ops_check_fields c
            in if ret \<noteq> WM_ERR_SUCCESS then (ret, s, Some c)
               else
                 let (ret, _) = wm_ota_ops_get_version s (Some (replicate 16 0)) in
                 if ret \<noteq> WM_ERR_SUCCESS then (ret, s, Some c)
                 else
                   let (crc, cs) = wm_drv_crc32_reverse env hw (od_crc s)
                                     (Some (ota_header_bytes (oo_header c))) (64 - 4);
                       s = s\<lparr>od_crc := cs\<rparr>
                   in if oh_hd_checksum (oo_header c) \<noteq> unat crc
                      then (WM_ERR_OTA_CRC_ERROR, s, Some c)
                      else (ret, s, Some c)
      | _ \<Rightarrow> (WM_ERR_INVALID_PARAM, s, ctx))"

definition app_name :: bytes where "app_name = map (of_nat \<circ> of_char) ''app''"
definition app_ota_name :: bytes where "app_ota_name = map (of_nat \<circ> of_char) ''app_ota''"

text \<open>The outer \<open>None\<close> is a lookup that does not return.\<close>

definition wm_ota_ops_get_ota_partition ::
  "env \<Rightarrow> part_table \<Rightarrow> ota_sys \<Rightarrow> ota_ops_ctx option \<Rightarrow> (int \<times> ota_ops_ctx option) option"
where
  "wm_ota_ops_get_ota_partition env g s ctx =
     (case ctx of
        None \<Rightarrow> Some (WM_ERR_INVALID_PARAM, ctx)
      | Some c \<Rightarrow>
          (case wm_partition_table_find env (od_flash s) g (Some app_name) of
             None \<Rightarrow> None
           | Some (ret, p) \<Rightarrow>
               if ret \<noteq> WM_ERR_SUCCESS then Some (WM_ERR_FAILED, ctx)
               else
                 let c = c\<lparr>oo_app_addr := pi_offset (the p), oo_app_size := pi_size (the p)\<rparr> in
                 case wm_partition_table_find env (od_flash s) g (Some app_ota_name) of
                   None \<Rightarrow> None
                 | Some (ret, p) \<Rightarrow>
                     if ret \<noteq> WM_ERR_SUCCESS then Some (WM_ERR_FAILED, Some c)
                     else Some (ret, Some (c\<lparr>oo_app_ota_addr := pi_offset (the p),
                                             oo_app_ota_size := pi_size (the p)\<rparr>))))"

definition flash_erase :: "env \<Rightarrow> ota_sys \<Rightarrow> nat \<Rightarrow> nat \<Rightarrow> int \<times> ota_sys" where
  "flash_erase env s addr len =
     (let (ret, d) = wm_drv_flash_erase_region env (od_flash s) addr len
      in (ret, s\<lparr>od_flash := d\<rparr>))"

definition wm_ota_ops_begin ::
  "env \<Rightarrow> ota_sys \<Rightarrow> ota_ops_ctx option \<Rightarrow> nat \<Rightarrow> int \<times> ota_sys \<times> ota_ops_ctx option" where
  "wm_ota_ops_begin env s ctx image_size =
     (case ctx of
        None \<Rightarrow> (WM_ERR_INVALID_PARAM, s, ctx)
      | Some c \<Rightarrow>
          if oo_app_ota_addr c = 0 then (WM_ERR_INVALID_PARAM, s, ctx)
          else
            let c = c\<lparr>oo_wrote_addr := oo_app_ota_addr c\<rparr>;
                (ret, s) = flash_erase env s
                  (u32 (oo_app_ota_addr c + oo_app_ota_size c + 2 ^ 32 - OTA_FLASH_SECTOR_SIZE))
                  OTA_FLASH_SECTOR_SIZE
            in if ret \<noteq> WM_ERR_SUCCESS then (ret, s, Some c)
               else if image_size = OTA_WITH_SEQUENTIAL_WRITES
               then (ret, s, Some (c\<lparr>oo_need_erase := 1\<rparr>))
               else if image_size \<noteq> 0 \<and> image_size \<noteq> OTA_SIZE_UNKNOWN \<and>
                       image_size > oo_app_ota_size c
               then (WM_ERR_OTA_FW_OVERFLOW, s, Some c)
               else
                 let len = (if image_size = 0 \<or> image_size = OTA_SIZE_UNKNOWN
                            then oo_app_ota_size c
                            else u32 (image_size + OTA_FLASH_SECTOR_SIZE - 1)
                                   div OTA_FLASH_SECTOR_SIZE * OTA_FLASH_SECTOR_SIZE);
                     (ret, s) = flash_erase env s (oo_app_ota_addr c) len
                 in (ret, s, Some (c\<lparr>oo_need_erase := (if ret \<noteq> WM_ERR_SUCCESS then 1 else 0)\<rparr>)))"

text \<open>The erasure in front of a write; the result is \<open>ret\<close> behind it.\<close>

definition ota_write_erase :: "env \<Rightarrow> ota_sys \<Rightarrow> ota_ops_ctx \<Rightarrow> nat \<Rightarrow> int \<times> ota_sys" where
  "ota_write_erase env s c len =
     (let first_sector = oo_wrote_addr c div OTA_FLASH_SECTOR_SIZE;
          last_sector = u32 (oo_wrote_addr c + len) div OTA_FLASH_SECTOR_SIZE
      in if oo_wrote_addr c mod OTA_FLASH_SECTOR_SIZE = 0 then
           (if len mod OTA_FLASH_SECTOR_SIZE = 0
            then flash_erase env s (oo_wrote_addr c)
                   (u32 ((last_sector + 2 ^ 32 - first_sector) * OTA_FLASH_SECTOR_SIZE))
            else flash_erase env s (oo_wrote_addr c)
                   (u32 ((last_sector + 2 ^ 32 - first_sector + 1) * OTA_FLASH_SECTOR_SIZE)))
         else if first_sector \<noteq> last_sector
         then flash_erase env s (u32 ((first_sector + 1) * OTA_FLASH_SECTOR_SIZE))
                (u32 ((last_sector + 2 ^ 32 - first_sector) * OTA_FLASH_SECTOR_SIZE))
         else (WM_ERR_SUCCESS, s))"

text \<open>The checksum behind the erasure: the first chunk is checked as a header and starts the
  running checksum. The codes of the checksum calls are not looked at.\<close>

definition ota_write_crc ::
  "env \<Rightarrow> crc_hw \<Rightarrow> ota_sys \<Rightarrow> ota_ops_ctx \<Rightarrow> bytes \<Rightarrow> nat \<Rightarrow> int \<times> ota_sys \<times> ota_ops_ctx" where
  "ota_write_crc env hw s c data len =
     (let (crc_dev, cs) = wm_drv_crc_init env hw (od_crc s);
          s = s\<lparr>od_crc := cs\<rparr>
      in if oo_app_ota_addr c = oo_wrote_addr c then
           (let (ret, s, c') = wm_ota_ops_check_header env hw s (Some c) (Some data) len;
                c = the c'
            in if ret \<noteq> WM_ERR_SUCCESS then (ret, s, c)
               else
                 let ctx = snd (wm_drv_crc_cfg crc_dev (Some (oo_crc_ctx c)) 0xFFFFFFFF
                                  WM_GPSEC_CRC32 WM_GPSEC_CRC_OUT_IN_REVERSE);
                     (cs, ctx) =
                       (if u32 (len + 2 ^ 32 - OTA_FW_HEADER_SIZE_IN_BIN) > 0
                        then snd (wm_drv_crc_update hw (od_crc s) crc_dev ctx
                                    (Some (drop OTA_FW_HEADER_SIZE_IN_BIN data))
                                    (len - OTA_FW_HEADER_SIZE_IN_BIN))
                        else (od_crc s, ctx))
                 in (ret, s\<lparr>od_crc := cs\<rparr>, c\<lparr>oo_crc_ctx := the ctx\<rparr>))
         else
           (let (_, cs, ctx) = wm_drv_crc_update hw (od_crc s) crc_dev (Some (oo_crc_ctx c))
                                 (Some data) len
            in (WM_ERR_SUCCESS, s\<lparr>od_crc := cs\<rparr>, c\<lparr>oo_crc_ctx := the ctx\<rparr>)))"

definition wm_ota_ops_write ::
  "env \<Rightarrow> crc_hw \<Rightarrow> ota_sys \<Rightarrow> ota_ops_ctx option \<Rightarrow> bytes option \<Rightarrow> nat \<Rightarrow>
   int \<times> ota_sys \<times> ota_ops_ctx option" where
  "wm_ota_ops_write env hw s ctx data len =
     (case (ctx, data) of
        (Some c, Some bs) \<Rightarrow>
          if len = 0 \<or> oo_app_ota_addr c = 0 then (WM_ERR_INVALID_PARAM, s, ctx)
          else if oo_wrote_addr c < oo_app_ota_addr c \<or>
            len > u32 (oo_app_ota_addr c + oo_app_ota_size c + 2 ^ 32 - oo_wrote_addr c)
          then (WM_ERR_NOT_ALLOWED, s, ctx)
          else
            let (ret, s) = (if oo_need_erase c \<noteq> 0 then ota_write_erase env s c len
                            else (WM_ERR_SUCCESS, s))
            in if ret \<noteq> WM_ERR_SUCCESS then (ret, s, ctx)
               else
                 let (ret, s, c) = ota_write_crc env hw s c bs len
                 in if ret \<noteq> WM_ERR_SUCCESS then (ret, s, Some c)
                    else
                      let (ret, d) = wm_drv_flash_write_with_erase env (od_flash s)
                                       (oo_wrote_addr c) (Some bs) len;
                          s = s\<lparr>od_flash := d\<rparr>;
                          c = (if ret = WM_ERR_SUCCESS
                               then c\<lparr>oo_wrote_addr := u32 (oo_wrote_addr c + len)\<rparr> else c)
                      in (ret, s, Some c)
      | _ \<Rightarrow> (WM_ERR_INVALID_PARAM, s, ctx))"

definition wm_ota_ops_end ::
  "env \<Rightarrow> crc_hw \<Rightarrow> ota_sys \<Rightarrow> ota_ops_ctx option \<Rightarrow> int \<times> ota_sys" where
  "wm_ota_ops_end env hw s ctx =
     (let (crc_dev, cs) = wm_drv_crc_init env hw (od_crc s);
          s = s\<lparr>od_crc := cs\<rparr>
      in case ctx of
           None \<Rightarrow> (WM_ERR_INVALID_PARAM, s)
         | Some c \<Rightarrow>
             if oo_wrote_addr c \<le> oo_app_ota_addr c then (WM_ERR_INVALID_PARAM, s)
             else
               let crc = (case wm_drv_crc_final crc_dev (Some (oo_crc_ctx c)) True of
                            (_, None) \<Rightarrow> 0 | (_, Some v) \<Rightarrow> v)
               in if oh_org_checksum (oo_header c) \<noteq> unat crc then (WM_ERR_OTA_CRC_ERROR, s)
                  else (WM_ERR_SUCCESS, s))"

definition wm_ota_ops_reboot :: "ota_sys \<Rightarrow> int \<times> ota_sys" where
  "wm_ota_ops_reboot s =
     (WM_ERR_SUCCESS, s\<lparr>od_critical := True, od_reason := WM_REBOOT_REASON_OTA, od_wdt := Some 0x100\<rparr>)"

definition wm_ota_ops_abort :: "ota_ops_ctx option \<Rightarrow> int \<times> ota_ops_ctx option" where
  "wm_ota_ops_abort ctx =
     (case ctx of
        None \<Rightarrow> (WM_ERR_INVALID_PARAM, None)
      | Some _ \<Rightarrow> (WM_ERR_SUCCESS, Some ota_ops_zero))"

end
