(* ===== verification/Ota.thy ===== *)
theory Ota
  imports OtaOps
begin

text \<open>
  The update session (\<open>wm_ota.c\<close>): connecting with retries, the download loop, reporting to
  the application. The callbacks of the session are arguments: they act on a world \<open>'w\<close> that
  the code does not look into (the network, the server, what the application was told, the
  clock). The download loop has no bound of its own, so it is a partial function: \<open>None\<close> is a
  session that never returns.
\<close>

section \<open>Data\<close>

datatype ota_status =
    WM_OTA_STATUS_START
  | WM_OTA_STATUS_CONNECTION_START
  | WM_OTA_STATUS_CONNECTION_FAILED
  | WM_OTA_STATUS_CONNECTED
  | WM_OTA_STATUS_DOWNLOAD_START
  | WM_OTA_STATUS_DOWNLOAD_FAILED
  | WM_OTA_STATUS_DOWNLOADED
  | WM_OTA_STATUS_UPGRADE_START
  | WM_OTA_STATUS_UPGRADE_FAILED
  | WM_OTA_STATUS_ABORT

text \<open>
  The context with its callbacks, \<open>None\<close> for a null one. Connecting takes the handle and the
  offset and leaves a code and the handle; fetching takes the handle, an offset and the room
  and leaves a code and the bytes it got.
\<close>

record 'w ota_ctx =
  oc_handle :: nat
  oc_conn_ret :: int
  oc_wrote_offset :: nat
  oc_ops :: ota_ops_ctx
  oc_connect_cb :: "(nat \<Rightarrow> nat \<Rightarrow> 'w \<Rightarrow> int \<times> nat \<times> 'w) option"
  oc_get_firmware_cb :: "(nat \<Rightarrow> nat \<Rightarrow> nat \<Rightarrow> 'w \<Rightarrow> int \<times> bytes \<times> 'w) option"
  oc_close_cb :: "(nat \<Rightarrow> 'w \<Rightarrow> 'w) option"
  oc_state_cb :: "(ota_status \<Rightarrow> nat \<Rightarrow> 'w \<Rightarrow> 'w) option"
  oc_status :: ota_status
  oc_progress :: nat

record 'w ota_run =
  or_ctx :: "'w ota_ctx"
  or_sys :: ota_sys
  or_world :: 'w

text \<open>The build's settings, and the clock \<open>wm_os_internal_get_time_ms\<close> in the world.\<close>

record 'w ota_conf =
  cf_block_size :: nat
  cf_reconnect_times :: nat
  cf_retry_timeout :: nat
  cf_time_ms :: "'w \<Rightarrow> nat"

definition ota_ctx_zero :: "'w ota_ctx" where
  "ota_ctx_zero =
     \<lparr>oc_handle = 0, oc_conn_ret = 0, oc_wrote_offset = 0, oc_ops = ota_ops_zero,
      oc_connect_cb = None, oc_get_firmware_cb = None, oc_close_cb = None, oc_state_cb = None,
      oc_status = WM_OTA_STATUS_START, oc_progress = 0\<rparr>"

definition upd_ctx :: "('w ota_ctx \<Rightarrow> 'w ota_ctx) \<Rightarrow> 'w ota_run \<Rightarrow> 'w ota_run" where
  "upd_ctx f a = a\<lparr>or_ctx := f (or_ctx a)\<rparr>"

definition session_missing :: "'w ota_ctx \<Rightarrow> bool" where
  "session_missing c \<longleftrightarrow> oc_connect_cb c = None \<or> oc_get_firmware_cb c = None \<or> oc_close_cb c = None"

section \<open>Reporting and initialisation\<close>

definition wm_ota_update_state :: "'w ota_run \<Rightarrow> ota_status \<Rightarrow> nat \<Rightarrow> 'w ota_run" where
  "wm_ota_update_state a status progress =
     (let a = upd_ctx (\<lambda>c. c\<lparr>oc_status := status, oc_progress := progress\<rparr>) a
      in case oc_state_cb (or_ctx a) of
           None \<Rightarrow> a
         | Some cb \<Rightarrow> a\<lparr>or_world := cb status progress (or_world a)\<rparr>)"

text \<open>\<open>null\<close> says that the context pointer is null. The outer \<open>None\<close> is a partition lookup
  that does not return.\<close>

definition wm_ota_init :: "env \<Rightarrow> part_table \<Rightarrow> bool \<Rightarrow> 'w ota_run \<Rightarrow> (int \<times> 'w ota_run) option"
where
  "wm_ota_init env g null a =
     (if null \<or> session_missing (or_ctx a) then Some (WM_ERR_INVALID_PARAM, a)
      else case wm_ota_ops_get_ota_partition env g (or_sys a) (Some (oc_ops (or_ctx a))) of
             None \<Rightarrow> None
           | Some (ret, o1) \<Rightarrow>
               let a = upd_ctx (\<lambda>c. c\<lparr>oc_ops := the o1\<rparr>) a in
               if ret \<noteq> WM_ERR_SUCCESS then Some (ret, a)
               else
                 let (ret, s, o2) = wm_ota_ops_begin env (or_sys a) o1 OTA_SIZE_UNKNOWN;
                     a = (upd_ctx (\<lambda>c. c\<lparr>oc_ops := the o2\<rparr>) a)\<lparr>or_sys := s\<rparr>
                 in Some (ret, a))"

section \<open>The session\<close>

text \<open>One call of the connect callback, and the retries.\<close>

definition ota_connect :: "'w ota_run \<Rightarrow> 'w ota_run" where
  "ota_connect a =
     (let c = or_ctx a;
          (ret, h, w) = the (oc_connect_cb c) (oc_handle c) (oc_wrote_offset c) (or_world a)
      in a\<lparr>or_ctx := c\<lparr>oc_conn_ret := ret, oc_handle := h\<rparr>, or_world := w\<rparr>)"

function ota_connect_loop :: "'w ota_conf \<Rightarrow> nat \<Rightarrow> 'w ota_run \<Rightarrow> 'w ota_run" where
  "ota_connect_loop cf reconnect_cnt a =
     (let a = ota_connect a in
      if oc_conn_ret (or_ctx a) \<noteq> WM_ERR_SUCCESS \<and> reconnect_cnt < cf_reconnect_times cf
      then ota_connect_loop cf (reconnect_cnt + 1) a else a)"
  by pat_completeness auto
termination
  by (relation "measure (\<lambda>(cf, n, a). cf_reconnect_times cf - n)") auto

text \<open>Storing one chunk; the callers of the operations pass the context's own part.\<close>

definition ota_store :: "env \<Rightarrow> crc_hw \<Rightarrow> 'w ota_run \<Rightarrow> bytes \<Rightarrow> int \<times> 'w ota_run" where
  "ota_store env hw a bs =
     (let (ret, s, o') = wm_ota_ops_write env hw (or_sys a) (Some (oc_ops (or_ctx a))) (Some bs) (length bs)
      in (ret, (upd_ctx (\<lambda>c. c\<lparr>oc_ops := the o'\<rparr>) a)\<lparr>or_sys := s\<rparr>))"

text \<open>What follows the last chunk.\<close>

definition ota_finish :: "env \<Rightarrow> crc_hw \<Rightarrow> bool \<Rightarrow> 'w ota_run \<Rightarrow> int \<times> 'w ota_run" where
  "ota_finish env hw reboot a =
     (let progress = 100;
          (ret, s) = wm_ota_ops_end env hw (or_sys a) (Some (oc_ops (or_ctx a)));
          a = a\<lparr>or_sys := s\<rparr>
      in if ret \<noteq> WM_ERR_SUCCESS then (ret, wm_ota_update_state a WM_OTA_STATUS_ABORT progress)
         else
           let a = wm_ota_update_state a WM_OTA_STATUS_DOWNLOADED progress in
           if \<not> reboot then (ret, a)
           else
             let a = wm_ota_update_state a WM_OTA_STATUS_UPGRADE_START progress;
                 (ret, s) = wm_ota_ops_reboot (or_sys a);
                 a = a\<lparr>or_sys := s\<rparr>
             in if ret \<noteq> WM_ERR_SUCCESS
                then (ret, wm_ota_update_state a WM_OTA_STATUS_UPGRADE_FAILED progress)
                else (ret, a))"

text \<open>Counting a chunk: the new count, progress and report.\<close>

definition ota_count :: "'w ota_run \<Rightarrow> nat \<Rightarrow> nat \<Rightarrow> nat \<Rightarrow> nat \<times> 'w ota_run" where
  "ota_count a got progress total_size =
     (let a = upd_ctx (\<lambda>c. c\<lparr>oc_wrote_offset := u32 (oc_wrote_offset c + got)\<rparr>) a;
          new_progress = u32 (oc_wrote_offset (or_ctx a) * 100) div total_size
      in if progress \<noteq> new_progress
         then (new_progress, wm_ota_update_state a WM_OTA_STATUS_DOWNLOAD_START new_progress)
         else (progress, a))"

partial_function (option) ota_loop ::
  "env \<Rightarrow> crc_hw \<Rightarrow> 'w ota_conf \<Rightarrow> bool \<Rightarrow> 'w ota_run \<Rightarrow> nat \<Rightarrow> nat \<Rightarrow> nat \<Rightarrow>
   (int \<times> 'w ota_run) option" where
  "ota_loop env hw cf reboot a progress next_read_size total_size =
     (let c = or_ctx a;
          (ret, bs, w) = the (oc_get_firmware_cb c) (oc_handle c) 0 next_read_size (or_world a);
          a = a\<lparr>or_world := w\<rparr>
      in if ret \<noteq> WM_ERR_SUCCESS
         then Some (ret, wm_ota_update_state a WM_OTA_STATUS_DOWNLOAD_FAILED progress)
         else if bs = [] then ota_loop env hw cf reboot a progress next_read_size total_size
         else
           let (ret, a) = ota_store env hw a bs in
           if ret \<noteq> WM_ERR_SUCCESS
           then Some (ret, wm_ota_update_state a WM_OTA_STATUS_ABORT progress)
           else
             let total_size = (if total_size = 0
                   then u32 (oh_img_len (oo_header (oc_ops (or_ctx a))) + OTA_FW_HEADER_SIZE_IN_BIN)
                   else total_size);
                 (progress, a) = ota_count a (length bs) progress total_size;
                 left = u32 (total_size + 2 ^ 32 - oc_wrote_offset (or_ctx a));
                 next_read_size = (if left \<ge> cf_block_size cf then cf_block_size cf else left)
             in if oc_wrote_offset (or_ctx a) \<ge> total_size then Some (ota_finish env hw reboot a)
                else ota_loop env hw cf reboot a progress next_read_size total_size)"

definition ota_start ::
  "env \<Rightarrow> crc_hw \<Rightarrow> 'w ota_conf \<Rightarrow> bool \<Rightarrow> 'w ota_run \<Rightarrow> (int \<times> 'w ota_run) option" where
  "ota_start env hw cf reboot a =
     (let progress = 0;
          a = wm_ota_update_state a WM_OTA_STATUS_CONNECTION_START progress;
          a = ota_connect_loop cf 0 a
      in if oc_conn_ret (or_ctx a) \<noteq> WM_ERR_SUCCESS
         then Some (WM_ERR_OTA_CONNECTION_FAILED,
                    wm_ota_update_state a WM_OTA_STATUS_CONNECTION_FAILED progress)
         else
           let a = wm_ota_update_state a WM_OTA_STATUS_CONNECTED progress;
               a = wm_ota_update_state a WM_OTA_STATUS_DOWNLOAD_START progress
           in if \<not> alloc_ok env (cf_block_size cf + 1)
              then Some (WM_ERR_NO_MEM, wm_ota_update_state a WM_OTA_STATUS_ABORT progress)
              else ota_loop env hw cf reboot a progress (cf_block_size cf) 0)"

partial_function (option) ota_retry ::
  "env \<Rightarrow> crc_hw \<Rightarrow> 'w ota_conf \<Rightarrow> bool \<Rightarrow> nat \<Rightarrow> 'w ota_run \<Rightarrow> (int \<times> 'w ota_run) option" where
  "ota_retry env hw cf reboot start_time a =
     (case ota_start env hw cf reboot a of
        None \<Rightarrow> None
      | Some (ret, a) \<Rightarrow>
          if ret = WM_ERR_OTA_TIMEOUT \<and>
             u32 (cf_time_ms cf (or_world a) + 2 ^ 32 - start_time) < cf_retry_timeout cf
          then ota_retry env hw cf reboot start_time a
          else Some (ret, a))"

definition wm_ota_start ::
  "env \<Rightarrow> crc_hw \<Rightarrow> 'w ota_conf \<Rightarrow> bool \<Rightarrow> bool \<Rightarrow> 'w ota_run \<Rightarrow> (int \<times> 'w ota_run) option" where
  "wm_ota_start env hw cf null reboot a =
     (let start_time = cf_time_ms cf (or_world a) in
      if null \<or> session_missing (or_ctx a) then Some (WM_ERR_INVALID_PARAM, a)
      else if oc_ops (or_ctx a) = ota_ops_zero
      then Some (WM_ERR_OTA_NO_INIT, wm_ota_update_state a WM_OTA_STATUS_ABORT 0)
      else ota_retry env hw cf reboot start_time (wm_ota_update_state a WM_OTA_STATUS_START 0))"

definition wm_ota_stop :: "bool \<Rightarrow> 'w ota_run \<Rightarrow> int \<times> 'w ota_run" where
  "wm_ota_stop null a =
     (if null \<or> session_missing (or_ctx a) then (WM_ERR_INVALID_PARAM, a)
      else if oc_ops (or_ctx a) = ota_ops_zero
      then (WM_ERR_OTA_NO_INIT, wm_ota_update_state a WM_OTA_STATUS_ABORT 0)
      else
        let c = or_ctx a;
            a = (case oc_close_cb c of
                   Some cl \<Rightarrow> if oc_conn_ret c = WM_ERR_SUCCESS
                              then a\<lparr>or_world := cl (oc_handle c) (or_world a)\<rparr> else a
                 | None \<Rightarrow> a)
        in (WM_ERR_SUCCESS, upd_ctx (\<lambda>c. c\<lparr>oc_handle := 0, oc_conn_ret := -1\<rparr>) a))"

definition wm_ota_deinit :: "bool \<Rightarrow> 'w ota_run \<Rightarrow> int \<times> 'w ota_run" where
  "wm_ota_deinit null a =
     (if null \<or> session_missing (or_ctx a) then (WM_ERR_INVALID_PARAM, a)
      else if oc_ops (or_ctx a) = ota_ops_zero
      then (WM_ERR_OTA_NO_INIT, wm_ota_update_state a WM_OTA_STATUS_ABORT 0)
      else
        let (_, a) = wm_ota_stop null a
        in (WM_ERR_SUCCESS, upd_ctx (\<lambda>_. ota_ctx_zero) a))"

declare ota_connect_loop.simps [simp del]

end
