(* ===== verification/CrcSpec.thy ===== *)
theory CrcSpec
  imports Crc
begin

text \<open>
  What the checksum driver promises its clients: a ready device folds a buffer into the
  context, a buffer longer than the unit takes leaves the context alone, and, for a unit that
  runs a register over the bytes and reverses what it puts out as it is told, the chunks of a
  buffer give the checksum of the whole: the driver takes the reversal back before it goes on.
  A bit-level unit of all four polynomials shows that such a unit exists.
\<close>

section \<open>Reversing bits\<close>

lemma reverse_num_loop_bit:
  assumes "1 \<le> i" and "i \<le> n + 1" and "n \<le> 32"
  shows "bit (reverse_num_loop i (drop_bit (i - 1) x) n r) k \<longleftrightarrow>
    bit r k \<or> (k + i \<le> n \<and> bit x (n - 1 - k))"
  using assms
proof (induction "n + 1 - i" arbitrary: i r)
  case 0
  then show ?case by (subst reverse_num_loop.simps) auto
next
  case (Suc m)
  then have i: "i < n + 1" by simp
  let ?r = "if drop_bit (i - 1) x AND 1 \<noteq> 0 then r OR push_bit (n - i) 1 else r"
  have o: "drop_bit (i - 1) x AND 1 \<noteq> 0 \<longleftrightarrow> bit x (i - 1)"
    by (simp add: and_one_eq bit_iff_odd_drop_bit odd_iff_mod_2_eq_one)
  have d: "drop_bit 1 (drop_bit (i - 1) x) = drop_bit (i + 1 - 1) x"
    using Suc.prems by (simp add: One_nat_def)
  have "bit (reverse_num_loop i (drop_bit (i - 1) x) n r) k \<longleftrightarrow>
      bit (reverse_num_loop (i + 1) (drop_bit (i + 1 - 1) x) n ?r) k"
    using i by (subst reverse_num_loop.simps) (simp only: d if_True)
  also have "\<dots> \<longleftrightarrow> bit ?r k \<or> (k + (i + 1) \<le> n \<and> bit x (n - 1 - k))"
    using Suc i by (intro Suc.hyps(1)) auto
  also have "bit ?r k \<longleftrightarrow> bit r k \<or> (k = n - i \<and> bit x (i - 1))"
    using i Suc.prems by (auto simp: o bit_or_iff bit_push_bit_iff bit_1_iff bit_exp_iff possible_bit_word)
  also have "(bit r k \<or> (k = n - i \<and> bit x (i - 1))) \<or> (k + (i + 1) \<le> n \<and> bit x (n - 1 - k)) \<longleftrightarrow>
      bit r k \<or> (k + i \<le> n \<and> bit x (n - 1 - k))"
  proof -
    have "k = n - i \<Longrightarrow> n - 1 - k = i - 1" "k + i \<le> n \<longleftrightarrow> k = n - i \<or> k + (i + 1) \<le> n"
      using i Suc.prems by auto
    then show ?thesis by auto
  qed
  finally show ?case .
qed

lemma bit_reverse_num: "n \<le> 32 \<Longrightarrow> bit (reverse_num x n) k \<longleftrightarrow> k < n \<and> bit x (n - 1 - k)"
  using reverse_num_loop_bit [of 1 n x 0 k] by (auto simp: reverse_num_def)

text \<open>The reversal as the hardware does it: the low \<open>n\<close> bits read from the other end.\<close>

definition bit_rev :: "nat \<Rightarrow> crc \<Rightarrow> crc" where
  "bit_rev n x = horner_sum of_bool 2 (map (bit x) (rev [0..<n]))"

lemma bit_bit_rev: "n \<le> 32 \<Longrightarrow> bit (bit_rev n x) k \<longleftrightarrow> k < n \<and> bit x (n - 1 - k)"
  by (auto simp: bit_rev_def bit_horner_sum_bit_iff possible_bit_word rev_nth One_nat_def)

lemma bit_rev_twice: "n \<le> 32 \<Longrightarrow> bit_rev n (bit_rev n x) = take_bit n x"
  by (rule bit_word_eqI) (auto simp: bit_bit_rev bit_take_bit_iff)

text \<open>The loop of the HAL computes it.\<close>

lemma reverse_num_bit_rev: "n \<le> 32 \<Longrightarrow> reverse_num x n = bit_rev n x"
  by (rule bit_word_eqI) (simp add: bit_reverse_num bit_bit_rev)

lemma crc_bits_le [simp]: "crc_bits t \<le> 32" and crc_bits_ge: "8 \<le> crc_bits t"
  by (simp_all add: crc_bits_def)

section \<open>The ready device\<close>

definition cfg_ok :: "crc_cfg \<Rightarrow> bool" where
  "cfg_ok c \<longleftrightarrow> IS_CRC_TYPE (cc_type c) \<and> IS_CRC_REVERSE (cc_reverse c)"

definition unit_seed :: "nat \<Rightarrow> nat \<Rightarrow> crc \<Rightarrow> crc" where
  "unit_seed t r v = (if odd r then reverse_num v (crc_bits t) else v)"

text \<open>What one update makes of a context.\<close>

definition crc_feed :: "crc_hw \<Rightarrow> crc_cfg \<Rightarrow> bytes \<Rightarrow> crc_cfg" where
  "crc_feed hw c bs = c\<lparr>cc_state := gh_unit hw (cc_type c) (cc_reverse c)
     (unit_seed (cc_type c) (cc_reverse c) (cc_state c)) bs\<rparr>"

definition crc_hw_ok :: "crc_hw \<Rightarrow> bool" where
  "crc_hw_ok hw \<longleftrightarrow> gh_reg_base hw \<and> gh_rcc hw \<and> gh_mutex_create hw = 0 \<and>
     gh_mutex_acquire hw = 0 \<and> gh_mutex_release hw = 0"

definition crc_sys_ok :: "crc_sys \<Rightarrow> bool" where
  "crc_sys_ok s \<longleftrightarrow> cs_present s \<and>
     (cs_state s = DEV_UNINIT \<and> cs_drv s = None \<or>
      cs_state s = DEV_INITED \<and> (\<exists>d. cs_drv s = Some d \<and> hc_gpsec_reg (cd_hal d)))"

definition crc_ready :: "crc_sys \<Rightarrow> bool" where
  "crc_ready s \<longleftrightarrow> crc_sys_ok s \<and> cs_state s = DEV_INITED"

lemma cfg_ok_feed [simp]: "cfg_ok (crc_feed hw c bs) = cfg_ok c"
  by (simp add: cfg_ok_def crc_feed_def)

lemma crc_feed_sel [simp]:
  "cc_type (crc_feed hw c bs) = cc_type c" "cc_reverse (crc_feed hw c bs) = cc_reverse c"
  by (simp_all add: crc_feed_def)

lemma crc_ready_sys_ok: "crc_ready s \<Longrightarrow> crc_sys_ok s"
  by (simp add: crc_ready_def)

lemma wm_drv_crc_init_ok:
  assumes "crc_hw_ok hw" and "heap_ok env" and "crc_sys_ok s"
  shows "\<exists>s'. wm_drv_crc_init env hw s = (True, s') \<and> crc_ready s'"
proof (cases "cs_state s = DEV_INITED")
  case True
  then show ?thesis using assms
    by (auto simp: wm_drv_crc_init_def wm_w800_drv_crc_init_def wm_drv_creat_gpsec_mutex_def
        crc_hw_ok_def crc_sys_ok_def crc_ready_def)
next
  case False
  then show ?thesis using assms
    by (auto simp: wm_drv_crc_init_def wm_w800_drv_crc_init_def wm_drv_creat_gpsec_mutex_def
        crc_hw_ok_def crc_sys_ok_def crc_ready_def)
qed

lemma wm_drv_crc_cfg_ok:
  "IS_CRC_TYPE t \<Longrightarrow> IS_CRC_REVERSE r \<Longrightarrow> wm_drv_crc_cfg True (Some c) v t r =
     (WM_ERR_SUCCESS, Some (c\<lparr>cc_state := v, cc_type := t, cc_reverse := r\<rparr>))"
  by (simp add: wm_drv_crc_cfg_def wm_w800_drv_crc_cfg_def)

lemma wm_hal_crc_update_ok:
  assumes "hc_gpsec_reg d" and "cfg_ok (hc_cfg d)" and "0 < n" and "n \<le> W800_CRC_MAX_CALC_BYTES"
  shows "\<exists>reg'. wm_hal_crc_update hw reg (Some d) (Some bs) n =
    (WM_ERR_SUCCESS, reg', Some (d\<lparr>hc_cfg := crc_feed hw (hc_cfg d) (take n bs)\<rparr>))"
  using assms
  by (auto simp: wm_hal_crc_update_def wm_hal_crc_init_def cfg_ok_def set_crc_value_def gpsec_run_def
      wm_ll_gpsec_set_total_bytes_def crc_feed_def unit_seed_def Let_def)

lemma wm_drv_crc_update_ok:
  assumes "crc_hw_ok hw" and "crc_ready s" and "cfg_ok c"
    and "0 < n" and "n \<le> W800_CRC_MAX_CALC_BYTES"
  shows "\<exists>s'. wm_drv_crc_update hw s True (Some c) (Some bs) n =
    (WM_ERR_SUCCESS, s', Some (crc_feed hw c (take n bs))) \<and> crc_ready s'"
proof -
  obtain d where d: "cs_drv s = Some d" "hc_gpsec_reg (cd_hal d)"
    using assms(2) by (auto simp: crc_ready_def crc_sys_ok_def)
  let ?h = "(cd_hal d)\<lparr>hc_cfg := c\<rparr>"
  obtain reg' where "wm_hal_crc_update hw (cs_reg s) (Some ?h) (Some bs) n =
      (WM_ERR_SUCCESS, reg', Some (?h\<lparr>hc_cfg := crc_feed hw c (take n bs)\<rparr>))"
    using wm_hal_crc_update_ok [of ?h n hw "cs_reg s" bs] d assms by auto
  then show ?thesis using assms d
    by (auto simp: wm_drv_crc_update_def wm_w800_drv_crc_update_def crc_hw_ok_def
        wm_drv_acquire_gpsec_mutex_def wm_drv_release_gpsec_mutex_def crc_ready_def
        crc_sys_ok_def crc_feed_def Let_def)
qed

text \<open>More bytes than the unit takes: an error, and the context is as it was.\<close>

lemma wm_drv_crc_update_long:
  assumes "crc_hw_ok hw" and "crc_ready s" and "W800_CRC_MAX_CALC_BYTES < n"
  shows "\<exists>s'. wm_drv_crc_update hw s True (Some c) (Some bs) n =
    (WM_ERR_INVALID_PARAM, s', Some c) \<and> crc_ready s'"
  using assms
  by (auto simp: wm_drv_crc_update_def wm_w800_drv_crc_update_def crc_hw_ok_def
      wm_drv_acquire_gpsec_mutex_def wm_drv_release_gpsec_mutex_def crc_ready_def
      crc_sys_ok_def wm_hal_crc_update_def)

lemma wm_drv_crc32_reverse_ok:
  assumes "crc_hw_ok hw" and "heap_ok env" and "crc_sys_ok s" and "0 < n"
    and "n \<le> W800_CRC_MAX_CALC_BYTES"
  shows "\<exists>s'. wm_drv_crc32_reverse env hw s (Some bs) n =
    (cc_state (crc_feed hw \<lparr>cc_state = 0xFFFFFFFF, cc_type = 3, cc_reverse = 3\<rparr> (take n bs)), s') \<and>
    crc_ready s'"
proof -
  let ?c = "\<lparr>cc_state = 0xFFFFFFFF, cc_type = 3, cc_reverse = 3\<rparr> :: crc_cfg"
  obtain s1 where s1: "wm_drv_crc_init env hw s = (True, s1)" "crc_ready s1"
    using wm_drv_crc_init_ok [OF assms(1-3)] by blast
  have c: "snd (wm_drv_crc_cfg True (Some (gh_junk hw)) 0xFFFFFFFF 3 3) = Some ?c"
    by (simp add: wm_drv_crc_cfg_def wm_w800_drv_crc_cfg_def IS_CRC_TYPE_def IS_CRC_REVERSE_def)
  obtain s2 where s2: "wm_drv_crc_update hw s1 True (Some ?c) (Some bs) n =
      (WM_ERR_SUCCESS, s2, Some (crc_feed hw ?c (take n bs)))" "crc_ready s2"
    using wm_drv_crc_update_ok [OF assms(1) s1(2) _ assms(4,5), of ?c bs]
    by (auto simp: cfg_ok_def IS_CRC_TYPE_def IS_CRC_REVERSE_def)
  have "crc_ready (s2\<lparr>cs_gate := False\<rparr>)"
    using s2(2) by (auto simp: crc_ready_def crc_sys_ok_def)
  with s1(1) c s2 assms(4) show ?thesis
    by (simp add: wm_drv_crc32_reverse_def wm_drv_crc_final_def wm_w800_drv_crc_final_def)
qed

section \<open>Streaming\<close>

text \<open>
  The documented behaviour of the unit: it takes its value register as the start, runs a
  register of the width of the checksum over the bytes one by one, and puts the register out,
  its bits reversed when the output reversal is set. Nothing is said of how a run goes on
  from the run before: that is the code's affair.
\<close>

definition crc_out :: "nat \<Rightarrow> nat \<Rightarrow> crc \<Rightarrow> crc" where
  "crc_out t r v = (if odd r then bit_rev (crc_bits t) v else v)"

definition crc_unit_runs :: "crc_hw \<Rightarrow> nat \<Rightarrow> nat \<Rightarrow> bool" where
  "crc_unit_runs hw t r \<longleftrightarrow> (\<exists>step. (\<forall>b v. take_bit (crc_bits t) (step b v) = step b v) \<and>
     (\<forall>v bs. gh_unit hw t r v bs = crc_out t r (fold step bs (take_bit (crc_bits t) v))))"

text \<open>Feeding back the value with \<open>set_crc_value\<close> restores the register.\<close>

lemma unit_seed_out: "take_bit (crc_bits t) (unit_seed t r (crc_out t r v)) = take_bit (crc_bits t) v"
  by (simp add: unit_seed_def crc_out_def reverse_num_bit_rev bit_rev_twice)

lemma crc_feed_append:
  assumes "crc_unit_runs hw (cc_type c) (cc_reverse c)"
  shows "crc_feed hw (crc_feed hw c xs) ys = crc_feed hw c (xs @ ys)"
proof -
  let ?n = "crc_bits (cc_type c)"
  obtain step where s: "\<And>b v. take_bit ?n (step b v) = step b v"
    and u: "\<And>v bs. gh_unit hw (cc_type c) (cc_reverse c) v bs =
      crc_out (cc_type c) (cc_reverse c) (fold step bs (take_bit ?n v))"
    using assms by (auto simp: crc_unit_runs_def)
  have "take_bit ?n (fold step xs (take_bit ?n v)) = fold step xs (take_bit ?n v)" for v
    by (induction xs rule: rev_induct) (simp_all add: s)
  then show ?thesis by (simp add: crc_feed_def u unit_seed_out)
qed

text \<open>The chunks of a transfer, handed to the driver one by one.\<close>

fun crc_updates :: "crc_hw \<Rightarrow> crc_sys \<Rightarrow> crc_cfg \<Rightarrow> bytes list \<Rightarrow> crc_sys \<times> crc_cfg" where
  "crc_updates hw s c [] = (s, c)"
| "crc_updates hw s c (b # bs) =
     (let (_, s, c') = wm_drv_crc_update hw s True (Some c) (Some b) (length b)
      in crc_updates hw s (the c') bs)"

lemma crc_updates_feed:
  assumes "crc_hw_ok hw" and "crc_ready s" and "cfg_ok c"
    and "crc_unit_runs hw (cc_type c) (cc_reverse c)"
    and "\<forall>b \<in> set bs. 0 < length b \<and> length b \<le> W800_CRC_MAX_CALC_BYTES" and "bs \<noteq> []"
  shows "\<exists>s'. crc_updates hw s c bs = (s', crc_feed hw c (concat bs)) \<and> crc_ready s'"
  using assms
proof (induction bs arbitrary: s c)
  case (Cons b bs)
  obtain s1 where s1: "wm_drv_crc_update hw s True (Some c) (Some b) (length b) =
      (WM_ERR_SUCCESS, s1, Some (crc_feed hw c b))" "crc_ready s1"
    using wm_drv_crc_update_ok [OF Cons.prems(1-3), of "length b" b] Cons.prems(5) by auto
  show ?case
  proof (cases "bs = []")
    case True
    with s1 show ?thesis by simp
  next
    case False
    then obtain s' where "crc_updates hw s1 (crc_feed hw c b) bs =
        (s', crc_feed hw (crc_feed hw c b) (concat bs))" "crc_ready s'"
      using Cons.IH [of s1 "crc_feed hw c b"] Cons.prems s1(2) by auto
    with s1(1) show ?thesis by (simp add: crc_feed_append [OF Cons.prems(4)])
  qed
qed simp

section \<open>A unit that streams\<close>

text \<open>Shift register with the usual polynomials, most significant bit first.\<close>

definition crc_poly :: "nat \<Rightarrow> crc" where
  "crc_poly t = (if t = WM_GPSEC_CRC8 then 0x07 else if t = WM_GPSEC_CRC16_MODBUS then 0x8005
     else if t = WM_GPSEC_CRC16_CCITT then 0x1021 else 0x04C11DB7)"

definition crc_shift :: "nat \<Rightarrow> crc \<Rightarrow> crc" where
  "crc_shift t v = take_bit (crc_bits t)
     (if bit v (crc_bits t - 1) then push_bit 1 v XOR crc_poly t else push_bit 1 v)"

definition crc_byte :: "nat \<Rightarrow> nat \<Rightarrow> crc \<Rightarrow> u8 \<Rightarrow> crc" where
  "crc_byte t r v b =
     (crc_shift t ^^ 8) (v XOR push_bit (crc_bits t - 8)
        (if 2 \<le> r then bit_rev 8 (ucast b) else ucast b))"

definition ref_unit :: "nat \<Rightarrow> nat \<Rightarrow> crc \<Rightarrow> bytes \<Rightarrow> crc" where
  "ref_unit t r v bs =
     crc_out t r (fold (\<lambda>b v. crc_byte t r v b) bs (take_bit (crc_bits t) v))"

definition demo_hw :: crc_hw where
  "demo_hw = \<lparr>gh_unit = ref_unit, gh_reg_base = True, gh_rcc = True, gh_mutex_create = 0,
     gh_mutex_acquire = 0, gh_mutex_release = 0,
     gh_junk = \<lparr>cc_state = 0, cc_type = 9, cc_reverse = 9\<rparr>\<rparr>"

lemma demo_hw_ok [simp]: "crc_hw_ok demo_hw"
  by (simp add: crc_hw_ok_def demo_hw_def)

lemma take_bit_crc_shift [simp]: "take_bit (crc_bits t) (crc_shift t v) = crc_shift t v"
  by (simp add: crc_shift_def)

lemma take_bit_crc_byte: "take_bit (crc_bits t) (crc_byte t r v b) = crc_byte t r v b"
  by (simp add: crc_byte_def numeral_eq_Suc)

lemma demo_hw_streams [simp]: "crc_unit_runs demo_hw t r"
  unfolding crc_unit_runs_def
  by (rule exI [of _ "\<lambda>b v. crc_byte t r v b"]) (simp add: take_bit_crc_byte demo_hw_def ref_unit_def)

definition demo_crc_sys :: crc_sys where
  "demo_crc_sys = \<lparr>cs_present = True, cs_state = DEV_UNINIT, cs_drv = None,
     cs_reg = \<lparr>gr_src_addr = [], gr_total_bytes = 0, gr_cypher_mode = 0, gr_sub_mode = 0,
       gr_crc_reverse = 0, gr_int_mask = 0, gr_crc_value = 0\<rparr>,
     cs_mutex = False, cs_gate = False\<rparr>"

lemma demo_crc_sys_ok [simp]: "crc_sys_ok demo_crc_sys"
  by (simp add: crc_sys_ok_def demo_crc_sys_def)

end
