(* ===== verification/OtaSpec.thy ===== *)
theory OtaSpec
  imports OtaOps CrcSpec
begin

text \<open>
  What the update operations do to the flash and to the running checksum. \<open>ota_holds\<close> ties the
  context to the bytes written so far; every operation keeps it.
\<close>

section \<open>The header codec\<close>

lemma le_bytes_field:
  "a + 4 \<le> length bs \<Longrightarrow> le_bytes 4 (le_nat (take 4 (drop a bs))) = take 4 (drop a bs)"
  using le_bytes_le_nat [of "take 4 (drop a bs)"] by simp

lemma take_drop_join: "take n (drop a bs) @ take m (drop (a + n) bs) = take (n + m) (drop a bs)"
  by (simp only: take_add drop_drop add.commute [of n a])

lemma ota_header_bytes_of_bytes:
  assumes "64 \<le> length bs"
  shows "ota_header_bytes (ota_header_of_bytes bs) = take 64 bs"
proof -
  have "ota_header_bytes (ota_header_of_bytes bs) =
      take 4 (drop 0 bs) @ take 4 (drop 4 bs) @ take 4 (drop 8 bs) @ take 4 (drop 12 bs) @
      take 4 (drop 16 bs) @ take 4 (drop 20 bs) @ take 4 (drop 24 bs) @ take 4 (drop 28 bs) @
      take 16 (drop 32 bs) @ take 4 (drop 48 bs) @ take 4 (drop 52 bs) @ take 4 (drop 56 bs) @
      take 4 (drop 60 bs)"
    using assms le_bytes_field [of 0 bs]
    by (simp add: ota_header_bytes_def ota_header_of_bytes_def Let_def le_bytes_field)
  also have "\<dots> = take 64 bs"
    using take_drop_join [of 4 56 bs 4] take_drop_join [of 4 52 bs 8] take_drop_join [of 4 48 bs 12]
      take_drop_join [of 16 32 bs 16] take_drop_join [of 4 28 bs 32] take_drop_join [of 4 24 bs 36]
      take_drop_join [of 4 20 bs 40] take_drop_join [of 4 16 bs 44] take_drop_join [of 4 12 bs 48]
      take_drop_join [of 4 8 bs 52] take_drop_join [of 4 4 bs 56] take_drop_join [of 4 0 bs 60]
    by simp
  finally show ?thesis .
qed

section \<open>The partition on the chip\<close>

text \<open>The update partition is whole sectors, above the factory region and inside the chip.\<close>

definition ota_part :: "flash_dev \<Rightarrow> ota_ops_ctx \<Rightarrow> bool" where
  "ota_part d c \<longleftrightarrow> flash_geom d \<and> fd_sector d = 4096 \<and> WM_FT_REGION < oo_app_ota_addr c \<and>
     oo_app_ota_addr c mod 4096 = 0 \<and> oo_app_ota_size c mod 4096 = 0 \<and>
     4096 \<le> oo_app_ota_size c \<and> oo_app_ota_addr c + oo_app_ota_size c \<le> fd_size d"

definition ota_env :: "env \<Rightarrow> crc_hw \<Rightarrow> bool" where
  "ota_env env hw \<longleftrightarrow> nor_cells env \<and> heap_ok env \<and> crc_hw_ok hw \<and> crc_unit_runs hw 3 3"

abbreviation (input) part_end :: "ota_ops_ctx \<Rightarrow> nat" where
  "part_end c \<equiv> oo_app_ota_addr c + oo_app_ota_size c"

lemma ota_part_bounds:
  assumes "ota_part d c"
  shows "part_end c \<le> 0x2000000" "0 < oo_app_ota_addr c" "oo_app_ota_addr c < part_end c"
  using assms by (auto simp: ota_part_def flash_geom_def)

lemma ota_part_mem [simp]: "ota_part (d\<lparr>fd_mem := m\<rparr>) c = ota_part d c"
  by (simp add: ota_part_def)

lemma ota_part_ctx [simp]:
  "ota_part d (c\<lparr>oo_wrote_addr := a\<rparr>) = ota_part d c"
  "ota_part d (c\<lparr>oo_need_erase := e\<rparr>) = ota_part d c"
  "ota_part d (c\<lparr>oo_header := h\<rparr>) = ota_part d c"
  "ota_part d (c\<lparr>oo_crc_ctx := x\<rparr>) = ota_part d c"
  by (simp_all add: ota_part_def)

lemma flash_erase_aligned:
  assumes "ota_env env hw" and "flash_geom d" and "fd_sector d = 4096" and "od_flash s = Some d"
    and "a mod 4096 = 0" and "0 < n" and "WM_FT_REGION < a" and "n mod 4096 = 0"
    and "a + n \<le> fd_size d"
  shows "flash_erase env s a n =
    (WM_ERR_SUCCESS, s\<lparr>od_flash := Some (d\<lparr>fd_mem := erase_mem (fd_mem d) a n\<rparr>)\<rparr>)"
proof -
  have "wm_drv_internal_flash_erase_region env d a n =
      (WM_ERR_SUCCESS, d\<lparr>fd_mem := erase_mem (fd_mem d) a n\<rparr>)"
    using assms by (intro wm_drv_internal_flash_erase_region_spec) (auto simp: ota_env_def)
  with assms(4) show ?thesis
    by (simp add: flash_erase_def wm_drv_flash_erase_region_def)
qed

lemma flash_erase_beyond:
  assumes "od_flash s = Some d" and "flash_geom d" and "0 < n" and "fd_size d < a + n" and "a + n < 2 ^ 32"
  shows "flash_erase env s a n = (WM_ERR_INVALID_PARAM, s)"
  using assms by (simp add: flash_erase_def wm_drv_flash_erase_region_def
      wm_drv_internal_flash_erase_region_def flash_geom_def)

lemma flash_write_inside:
  assumes "ota_env env hw" and "flash_geom d" and "0 < n" and "n \<le> length bs"
    and "WM_FT_REGION < a" and "a + n \<le> fd_size d"
  shows "wm_drv_flash_write_with_erase env (Some d) a (Some bs) n =
    (WM_ERR_SUCCESS, Some (d\<lparr>fd_mem := splice (fd_mem d) a (take n bs)\<rparr>))"
proof -
  have "u32 (a + n) = a + n" "fd_drv d" using assms by (auto simp: flash_geom_def)
  moreover have "iflash_erase_write_body env d a bs n =
      (WM_ERR_SUCCESS, d\<lparr>fd_mem := splice (fd_mem d) a (take n bs)\<rparr>)"
    using assms by (intro iflash_erase_write_body_spec) (auto simp: ota_env_def)
  ultimately show ?thesis using assms
    by (simp add: wm_drv_flash_write_with_erase_def wm_drv_internal_flash_write_with_erase_def)
qed

section \<open>Erasing in front of a write\<close>

text \<open>The first cell of the erasure, and the cell behind it.\<close>

definition erase_from :: "nat \<Rightarrow> nat" where
  "erase_from a = (a + 4095) div 4096 * 4096"

definition erase_to :: "nat \<Rightarrow> nat \<Rightarrow> nat" where
  "erase_to a n = (if a mod 4096 = 0 \<and> n mod 4096 = 0 then a + n
     else ((a + n) div 4096 + 1) * 4096)"

lemma erase_from_ge: "a \<le> erase_from a"
  using div_mult_mod_eq [of "a + 4095" 4096] mod_less_divisor [of 4096 "a + 4095"]
  unfolding erase_from_def by linarith

lemma erase_from_mod: "erase_from a mod 4096 = 0"
  by (simp add: erase_from_def)

lemma erase_to_mod: "erase_to a n mod 4096 = 0"
  unfolding erase_to_def by (auto simp: mod_add_eq [symmetric])

lemma round_up_le: "e mod 4096 = 0 \<Longrightarrow> b < e \<Longrightarrow> (b div 4096 + 1) * 4096 \<le> (e :: nat)"
proof -
  assume "e mod 4096 = 0" and "b < e"
  then obtain k where k: "e = k * 4096" by (metis div_mult_mod_eq add.right_neutral)
  with \<open>b < e\<close> have "b div 4096 < k" by (simp add: less_mult_imp_div_less)
  then have "(b div 4096 + 1) * 4096 \<le> k * 4096" by (intro mult_le_mono1) simp
  with k show ?thesis by simp
qed

text \<open>Only the last chunk can reach behind the partition: when it starts inside a sector and
  ends exactly with the partition.\<close>

lemma erase_to_le:
  assumes "e mod 4096 = 0" and "a + n \<le> e" and "a mod 4096 = 0 \<or> a + n < e"
  shows "erase_to a n \<le> e"
proof (cases "a mod 4096 = 0 \<and> n mod 4096 = 0")
  case True
  with assms(2) show ?thesis by (simp add: erase_to_def)
next
  case False
  have "a + n < e"
  proof (rule ccontr)
    assume "\<not> a + n < e"
    with assms have a: "a mod 4096 = 0" and e: "(a + n) mod 4096 = 0" by auto
    from e have "(a mod 4096 + n mod 4096) mod 4096 = 0" by (simp only: mod_add_eq)
    with a False show False by simp
  qed
  with False show ?thesis using round_up_le [OF assms(1)] by (simp add: erase_to_def)
qed

text \<open>What the code computes is that stretch.\<close>

lemma ota_write_erase_stretch:
  assumes "oo_wrote_addr c + n \<le> 0x2000000" and "0 < n"
  shows "ota_write_erase env s c n =
    (let a = oo_wrote_addr c in
     if erase_from a = erase_to a n then (WM_ERR_SUCCESS, s)
     else flash_erase env s (erase_from a) (erase_to a n - erase_from a))"
proof -
  let ?a = "oo_wrote_addr c"
  define f where "f = ?a div 4096"
  define l where "l = (?a + n) div 4096"
  have a: "?a = f * 4096 + ?a mod 4096" "?a + n = l * 4096 + (?a + n) mod 4096"
    unfolding f_def l_def by presburger+
  have fl: "f \<le> l" unfolding f_def l_def by (rule div_le_mono) simp
  have lb: "l \<le> 8192" using div_le_mono [OF assms(1), of 4096] unfolding l_def by simp
  have u: "u32 (?a + n) div 4096 = l" using assms(1) unfolding l_def by simp
  have d: "u32 ((l + 2 ^ 32 - f) * 4096) = (l - f) * 4096" (is ?d1)
    "u32 ((l + 2 ^ 32 - f) * 4096 + 4096) = (l - f) * 4096 + 4096" (is ?d2)
    "u32 ((f + 1) * 4096) = (f + 1) * 4096" (is ?d3)
  proof -
    have "(l + 2 ^ 32 - f) * 4096 = (l - f) * 4096 + 4096 * 2 ^ 32"
      "(l + 2 ^ 32 - f) * 4096 + 4096 = (l - f) * 4096 + 4096 + 4096 * 2 ^ 32"
      using fl by (simp_all add: algebra_simps)
    moreover have "(l - f) * 4096 < 2 ^ 32" "(l - f) * 4096 + 4096 < 2 ^ 32" "(f + 1) * 4096 < 2 ^ 32"
      using lb fl by simp_all
    ultimately show ?d1 ?d2 ?d3 unfolding u32_def by (simp_all only: mod_mult_self1 mod_less)
  qed
  show ?thesis
  proof (cases "?a mod 4096 = 0")
    case True
    then have af: "?a = f * 4096" using a(1) by simp
    have fr: "erase_from ?a = ?a" unfolding erase_from_def af by simp
    show ?thesis
    proof (cases "n mod 4096 = 0")
      case n: True
      with True have "(?a + n) mod 4096 = 0" by (simp add: mod_add_eq [symmetric])
      then have "?a + n = l * 4096" using a(2) by simp
      then have "(l - f) * 4096 = n" using af by (simp add: diff_mult_distrib)
      with True n fr assms(2) d u show ?thesis
        by (simp add: ota_write_erase_def Let_def f_def [symmetric] erase_to_def)
    next
      case n: False
      have "erase_to ?a n = (l + 1) * 4096" using n by (simp add: erase_to_def l_def)
      moreover have "(l + 1) * 4096 - f * 4096 = (l - f + 1) * 4096" using fl
        by (simp add: diff_mult_distrib add_mult_distrib)
      moreover have "f * 4096 \<noteq> (l + 1) * 4096" using fl by simp
      ultimately show ?thesis using True n fr d u af
        by (simp add: ota_write_erase_def Let_def f_def [symmetric])
    qed
  next
    case False
    have fr: "erase_from ?a = (f + 1) * 4096"
    proof -
      have "?a mod 4096 < 4096" by simp
      then have "(?a + 4095) div 4096 = f + 1" using a(1) False by linarith
      then show ?thesis by (simp add: erase_from_def)
    qed
    have til: "erase_to ?a n = (l + 1) * 4096" using False by (simp add: erase_to_def l_def)
    have "(l + 1) * 4096 - (f + 1) * 4096 = (l - f) * 4096" by (simp add: diff_mult_distrib add_mult_distrib)
    with False fr til d u show ?thesis
      by (simp add: ota_write_erase_def Let_def f_def [symmetric])
  qed
qed

lemma od_flash_same: "od_flash s = Some d \<Longrightarrow> s\<lparr>od_flash := Some d\<rparr> = s"
  by (cases s) simp

lemma ota_write_erase_keeps:
  assumes "ota_env env hw" and "ota_part d c" and "od_flash s = Some d" and "0 < n"
    and "oo_app_ota_addr c \<le> oo_wrote_addr c" and "oo_wrote_addr c + n \<le> part_end c"
  shows "\<exists>ret m. ota_write_erase env s c n = (ret, s\<lparr>od_flash := Some (d\<lparr>fd_mem := m\<rparr>)\<rparr>) \<and>
    (\<forall>x < oo_wrote_addr c. m x = fd_mem d x) \<and>
    (\<forall>x \<ge> part_end c. oo_wrote_addr c mod 4096 = 0 \<or> oo_wrote_addr c + n < part_end c \<longrightarrow>
       m x = fd_mem d x)"
proof -
  let ?a = "oo_wrote_addr c" and ?e = "part_end c"
  have b: "?a + n \<le> 0x2000000" using assms(6) ota_part_bounds(1) [OF assms(2)] by simp
  have g: "flash_geom d" "fd_sector d = 4096" "WM_FT_REGION < ?a" "?e mod 4096 = 0"
    "fd_size d \<le> 0x2000000"
    using assms(2,5) by (auto simp: ota_part_def flash_geom_def mod_add_eq [symmetric])
  let ?f = "erase_from ?a" and ?t = "erase_to ?a n"
  note w = ota_write_erase_stretch [OF b assms(4), of env s, unfolded Let_def]
  note id = od_flash_same [OF assms(3)]
  have same: ?thesis if "ota_write_erase env s c n = (r, s)" for r
    by (rule exI [of _ r], rule exI [of _ "fd_mem d"]) (simp add: that id)
  show ?thesis
  proof (cases "?f = ?t")
    case True
    then show ?thesis using w by (intro same) simp
  next
    case False
    have "?f \<le> ?t" "?t \<le> ?a + n + 4096"
    proof -
      show "?t \<le> ?a + n + 4096" unfolding erase_to_def by auto
      show "?f \<le> ?t"
      proof (cases "?a mod 4096 = 0 \<and> n mod 4096 = 0")
        case True
        then obtain k where "?a = k * 4096" by (metis div_mult_mod_eq add.right_neutral)
        then have "?f = ?a" by (simp add: erase_from_def)
        then show ?thesis using True by (simp add: erase_to_def)
      next
        case False
        have "(?a + 4095) div 4096 \<le> (?a + n) div 4096 + 1"
          using div_le_mono [of "?a + 4095" "?a + n + 4096" 4096] by simp
        then have "?f \<le> ((?a + n) div 4096 + 1) * 4096"
          unfolding erase_from_def by (rule mult_le_mono1)
        then show ?thesis using False by (simp only: erase_to_def if_False)
      qed
    qed
    with False have ft: "0 < ?t - ?f" "?f + (?t - ?f) = ?t" "?t \<le> ?a + n + 4096" by auto
    have m: "(?t - ?f) mod 4096 = 0" using mod_diff_eq erase_from_mod erase_to_mod
      by (metis dvd_diff_nat mod_0_imp_dvd dvd_imp_mod_0)
    show ?thesis
    proof (cases "?t \<le> fd_size d")
      case True
      have ge: "?a \<le> ?f" by (rule erase_from_ge)
      have "flash_erase env s ?f (?t - ?f) = (WM_ERR_SUCCESS,
          s\<lparr>od_flash := Some (d\<lparr>fd_mem := erase_mem (fd_mem d) ?f (?t - ?f)\<rparr>)\<rparr>)"
        using ft ge g m True erase_from_mod
        by (intro flash_erase_aligned [OF assms(1) g(1,2) assms(3)]) auto
      moreover have "?t \<le> ?e" if "?a mod 4096 = 0 \<or> ?a + n < ?e"
        by (rule erase_to_le [OF g(4) assms(6) that])
      ultimately show ?thesis using False w ge ft
        by (intro exI [of _ WM_ERR_SUCCESS] exI [of _ "erase_mem (fd_mem d) ?f (?t - ?f)"])
          (auto simp: erase_mem_def)
    next
      case no: False
      have "flash_erase env s ?f (?t - ?f) = (WM_ERR_INVALID_PARAM, s)"
        using ft no b by (intro flash_erase_beyond [OF assms(3) g(1)]) auto
      then show ?thesis using False w by (intro same) simp
    qed
  qed
qed

section \<open>The checksum of a chunk\<close>

definition ota_cfg0 :: crc_cfg where
  "ota_cfg0 = \<lparr>cc_state = 0xFFFFFFFF, cc_type = 3, cc_reverse = 3\<rparr>"

text \<open>The context after the bytes behind the header, and the checksum of a block.\<close>

definition ota_feed :: "crc_hw \<Rightarrow> bytes \<Rightarrow> crc_cfg" where
  "ota_feed hw bs = (if bs = [] then ota_cfg0 else crc_feed hw ota_cfg0 bs)"

definition ota_crc :: "crc_hw \<Rightarrow> bytes \<Rightarrow> nat" where
  "ota_crc hw bs = unat (cc_state (ota_feed hw bs))"

definition ota_header_ok :: "crc_hw \<Rightarrow> ota_ops_ctx \<Rightarrow> bytes \<Rightarrow> bool" where
  "ota_header_ok hw c bs \<longleftrightarrow> 64 \<le> length bs \<and>
     wm_ota_ops_check_fields (c\<lparr>oo_header := ota_header_of_bytes (take 64 bs)\<rparr>) = WM_ERR_SUCCESS \<and>
     oh_hd_checksum (ota_header_of_bytes (take 64 bs)) = ota_crc hw (take 60 bs)"

lemma ota_cfg0_ok [simp]: "cfg_ok ota_cfg0"
  by (simp add: cfg_ok_def ota_cfg0_def IS_CRC_TYPE_def IS_CRC_REVERSE_def)

lemma ota_feed_ok [simp]: "cfg_ok (ota_feed hw bs)"
  by (simp add: ota_feed_def)

lemma ota_feed_append:
  assumes "crc_unit_runs hw 3 3" and "ys \<noteq> []"
  shows "crc_feed hw (ota_feed hw xs) ys = ota_feed hw (xs @ ys)"
  using crc_feed_append [of hw ota_cfg0 xs ys] assms by (auto simp: ota_feed_def ota_cfg0_def)

lemma check_header_ok:
  assumes "ota_env env hw" and "crc_ready (od_crc s)"
  shows "\<exists>ret cs h. wm_ota_ops_check_header env hw s (Some c) (Some bs) (length bs) =
      (ret, s\<lparr>od_crc := cs\<rparr>, Some (c\<lparr>oo_header := h\<rparr>)) \<and> crc_ready cs \<and>
    (ret = WM_ERR_SUCCESS \<longleftrightarrow> ota_header_ok hw c bs) \<and>
    (ret = WM_ERR_SUCCESS \<longrightarrow> h = ota_header_of_bytes (take 64 bs))"
proof (cases "64 \<le> length bs")
  case False
  then show ?thesis using assms(2)
    by (intro exI [of _ WM_ERR_INVALID_PARAM] exI [of _ "od_crc s"] exI [of _ "oo_header c"])
      (simp add: wm_ota_ops_check_header_def ota_header_ok_def)
next
  case True
  let ?h = "ota_header_of_bytes (take 64 bs)"
  let ?c = "c\<lparr>oo_header := ?h\<rparr>"
  obtain cs where cs: "wm_drv_crc32_reverse env hw (od_crc s) (Some (ota_header_bytes ?h)) 60 =
      (cc_state (crc_feed hw ota_cfg0 (take 60 (ota_header_bytes ?h))), cs)" "crc_ready cs"
    using wm_drv_crc32_reverse_ok [of hw env "od_crc s" 60 "ota_header_bytes ?h"] assms
      crc_ready_sys_ok [OF assms(2)]
    by (auto simp: ota_env_def ota_cfg0_def)
  have bs: "take 60 (ota_header_bytes ?h) = take 60 bs"
    using ota_header_bytes_of_bytes [of "take 64 bs"] True by (simp add: min_def)
  have ne: "take 60 bs \<noteq> []" using True by auto
  have crc: "unat (cc_state (crc_feed hw ota_cfg0 (take 60 bs))) = ota_crc hw (take 60 bs)"
    using ne by (simp add: ota_crc_def ota_feed_def)
  show ?thesis
  proof (cases "wm_ota_ops_check_fields ?c = WM_ERR_SUCCESS")
    case False
    with True assms(2) show ?thesis
      by (intro exI [of _ "wm_ota_ops_check_fields ?c"] exI [of _ "od_crc s"] exI [of _ ?h])
        (simp add: wm_ota_ops_check_header_def ota_header_ok_def Let_def)
  next
    case f: True
    let ?r = "if oh_hd_checksum ?h \<noteq> ota_crc hw (take 60 bs) then WM_ERR_OTA_CRC_ERROR else WM_ERR_SUCCESS"
    have "wm_ota_ops_check_header env hw s (Some c) (Some bs) (length bs) = (?r, s\<lparr>od_crc := cs\<rparr>, Some ?c)"
      using True f cs(1) crc
      by (simp add: wm_ota_ops_check_header_def Let_def wm_ota_ops_get_version_def bs)
    with True f cs(2) show ?thesis
      by (intro exI [of _ ?r] exI [of _ cs] exI [of _ ?h]) (simp add: ota_header_ok_def)
  qed
qed

lemma ota_write_crc_next:
  assumes "ota_env env hw" and "crc_sys_ok (od_crc s)" and "oo_app_ota_addr c \<noteq> oo_wrote_addr c"
    and "cfg_ok (oo_crc_ctx c)" and "bs \<noteq> []" and "length bs \<le> W800_CRC_MAX_CALC_BYTES"
  shows "\<exists>cs. ota_write_crc env hw s c bs (length bs) = (WM_ERR_SUCCESS, s\<lparr>od_crc := cs\<rparr>,
    c\<lparr>oo_crc_ctx := crc_feed hw (oo_crc_ctx c) bs\<rparr>) \<and> crc_sys_ok cs"
proof -
  have e: "crc_hw_ok hw" "heap_ok env" using assms(1) by (auto simp: ota_env_def)
  obtain s1 where s1: "wm_drv_crc_init env hw (od_crc s) = (True, s1)" "crc_ready s1"
    using wm_drv_crc_init_ok [OF e assms(2)] by blast
  obtain s2 where s2: "wm_drv_crc_update hw s1 True (Some (oo_crc_ctx c)) (Some bs) (length bs) =
      (WM_ERR_SUCCESS, s2, Some (crc_feed hw (oo_crc_ctx c) bs))" "crc_ready s2"
    using wm_drv_crc_update_ok [OF e(1) s1(2) assms(4), of "length bs" bs] assms(5,6) by auto
  show ?thesis
    by (rule exI [of _ s2])
      (use s1(1) s2 assms(3) in \<open>simp add: ota_write_crc_def Let_def crc_ready_sys_ok\<close>)
qed

lemma ota_write_crc_first:
  assumes "ota_env env hw" and "crc_sys_ok (od_crc s)" and "oo_app_ota_addr c = oo_wrote_addr c"
    and "length bs \<le> W800_CRC_MAX_CALC_BYTES"
  shows "\<exists>ret cs h x. ota_write_crc env hw s c bs (length bs) = (ret, s\<lparr>od_crc := cs\<rparr>,
      c\<lparr>oo_header := h, oo_crc_ctx := x\<rparr>) \<and> crc_sys_ok cs \<and>
    (ret = WM_ERR_SUCCESS \<longleftrightarrow> ota_header_ok hw c bs) \<and>
    (ret = WM_ERR_SUCCESS \<longrightarrow> h = ota_header_of_bytes (take 64 bs) \<and> x = ota_feed hw (drop 64 bs))"
proof -
  have e: "crc_hw_ok hw" "heap_ok env" using assms(1) by (auto simp: ota_env_def)
  obtain s1 where s1: "wm_drv_crc_init env hw (od_crc s) = (True, s1)" "crc_ready s1"
    using wm_drv_crc_init_ok [OF e assms(2)] by blast
  let ?s = "s\<lparr>od_crc := s1\<rparr>"
  obtain ret cs h where ch: "wm_ota_ops_check_header env hw ?s (Some c) (Some bs) (length bs) =
      (ret, ?s\<lparr>od_crc := cs\<rparr>, Some (c\<lparr>oo_header := h\<rparr>))" "crc_ready cs"
    "ret = WM_ERR_SUCCESS \<longleftrightarrow> ota_header_ok hw c bs"
    "ret = WM_ERR_SUCCESS \<longrightarrow> h = ota_header_of_bytes (take 64 bs)"
    using check_header_ok [OF assms(1), of ?s c bs] s1(2) by auto
  note ok = crc_ready_sys_ok [OF ch(2)]
  show ?thesis
  proof (cases "ret = WM_ERR_SUCCESS")
    case False
    then show ?thesis using s1(1) ch ok assms(3)
      by (intro exI [of _ ret] exI [of _ cs] exI [of _ h] exI [of _ "oo_crc_ctx c"])
        (simp add: ota_write_crc_def Let_def)
  next
    case True
    then have len: "64 \<le> length bs" using ch(3) by (simp add: ota_header_ok_def)
    have rest: "u32 (length bs + 2 ^ 32 - 64) = length bs - 64"
    proof -
      obtain k where k: "length bs = 64 + k" using len le_Suc_ex by blast
      have "u32 (2 ^ 32 + k) = k" using k assms(4) unfolding u32_def by simp
      with k show ?thesis by simp
    qed
    have cfg: "wm_drv_crc_cfg True (Some (oo_crc_ctx c)) 0xFFFFFFFF 3 3 = (WM_ERR_SUCCESS, Some ota_cfg0)"
      by (simp add: wm_drv_crc_cfg_def wm_w800_drv_crc_cfg_def IS_CRC_TYPE_def IS_CRC_REVERSE_def
          ota_cfg0_def)
    show ?thesis
    proof (cases "length bs = 64")
      case no: True
      then show ?thesis using s1(1) ch ok assms(3) True rest cfg
        by (intro exI [of _ 0] exI [of _ cs] exI [of _ h] exI [of _ ota_cfg0])
          (simp add: ota_write_crc_def Let_def ota_feed_def)
    next
      case more: False
      have n: "0 < length bs - 64" "length bs - 64 \<le> W800_CRC_MAX_CALC_BYTES"
        using more len assms(4) by auto
      obtain s2 where s2: "wm_drv_crc_update hw cs True (Some ota_cfg0) (Some (drop 64 bs)) (length bs - 64) =
          (WM_ERR_SUCCESS, s2, Some (crc_feed hw ota_cfg0 (drop 64 bs)))" "crc_ready s2"
        using wm_drv_crc_update_ok [OF e(1) ch(2) ota_cfg0_ok n, of "drop 64 bs"] by auto
      show ?thesis using s1(1) ch(1,3,4) s2 crc_ready_sys_ok [OF s2(2)] assms(3) True rest cfg more n
        by (intro exI [of _ 0] exI [of _ s2] exI [of _ h] exI [of _ "ota_feed hw (drop 64 bs)"])
          (simp add: ota_write_crc_def Let_def ota_feed_def)
    qed
  qed
qed

section \<open>Writing chunk by chunk\<close>

text \<open>\<open>img\<close> is what was written since \<open>begin\<close>: it lies at the start of the partition, its
  header was accepted, and the running checksum covers everything behind the header.\<close>

definition ota_holds :: "crc_hw \<Rightarrow> ota_sys \<Rightarrow> ota_ops_ctx \<Rightarrow> bytes \<Rightarrow> bool" where
  "ota_holds hw s c img \<longleftrightarrow> crc_sys_ok (od_crc s) \<and>
     (\<exists>d. od_flash s = Some d \<and> ota_part d c \<and>
        mem_slice (fd_mem d) (oo_app_ota_addr c) (length img) = img) \<and>
     oo_wrote_addr c = oo_app_ota_addr c + length img \<and> length img \<le> oo_app_ota_size c \<and>
     (img \<noteq> [] \<longrightarrow> ota_header_ok hw c img \<and> oo_header c = ota_header_of_bytes (take 64 img) \<and>
        oo_crc_ctx c = ota_feed hw (drop 64 img))"

text \<open>Same partitions, and the flash outside the update partition is untouched.\<close>

definition same_part :: "ota_ops_ctx \<Rightarrow> ota_ops_ctx \<Rightarrow> bool" where
  "same_part c c' \<longleftrightarrow> oo_app_addr c' = oo_app_addr c \<and> oo_app_size c' = oo_app_size c \<and>
     oo_app_ota_addr c' = oo_app_ota_addr c \<and> oo_app_ota_size c' = oo_app_ota_size c \<and>
     oo_need_erase c' = oo_need_erase c"

definition outside_same :: "ota_ops_ctx \<Rightarrow> ota_sys \<Rightarrow> ota_sys \<Rightarrow> bool" where
  "outside_same c s s' \<longleftrightarrow> (\<exists>d d'. od_flash s = Some d \<and> od_flash s' = Some d' \<and>
     fd_size d' = fd_size d \<and>
     (\<forall>x. x < oo_app_ota_addr c \<or> part_end c \<le> x \<longrightarrow> fd_mem d' x = fd_mem d x))"

lemma same_part_refl [simp]: "same_part c c"
  and same_part_upd [simp]:
    "same_part c (c\<lparr>oo_header := h, oo_crc_ctx := x\<rparr>)"
    "same_part c (c\<lparr>oo_header := h, oo_crc_ctx := x, oo_wrote_addr := a\<rparr>)"
    "same_part c (c\<lparr>oo_crc_ctx := x, oo_wrote_addr := a\<rparr>)"
  by (simp_all add: same_part_def)

lemma same_part_trans: "same_part a b \<Longrightarrow> same_part b c \<Longrightarrow> same_part a c"
  by (simp add: same_part_def)

lemma outside_same_trans:
  "outside_same c s s' \<Longrightarrow> same_part c c' \<Longrightarrow> outside_same c' s' s'' \<Longrightarrow> outside_same c s s''"
  by (auto simp: outside_same_def same_part_def)

lemma check_fields_part:
  assumes "same_part c c'" and "oo_header c' = oo_header c"
  shows "wm_ota_ops_check_fields c' = wm_ota_ops_check_fields c"
  using assms unfolding wm_ota_ops_check_fields_def Let_def by (simp only: same_part_def)

lemma ota_header_ok_part:
  assumes "same_part c c'"
  shows "ota_header_ok hw c' bs = ota_header_ok hw c bs"
proof -
  have "wm_ota_ops_check_fields (c'\<lparr>oo_header := h\<rparr>) = wm_ota_ops_check_fields (c\<lparr>oo_header := h\<rparr>)" for h
    using assms by (intro check_fields_part) (simp_all add: same_part_def)
  then show ?thesis by (simp add: ota_header_ok_def)
qed

lemma ota_header_ok_append:
  "64 \<le> length xs \<Longrightarrow> ota_header_ok hw c (xs @ ys) = ota_header_ok hw c xs"
  by (simp add: ota_header_ok_def)

lemma ota_part_same: "same_part c c' \<Longrightarrow> ota_part d c' = ota_part d c"
  by (simp add: ota_part_def same_part_def)

lemma ota_holds_len: "ota_holds hw s c img \<Longrightarrow> img \<noteq> [] \<Longrightarrow> 64 \<le> length img"
  by (simp add: ota_holds_def ota_header_ok_def)

text \<open>The checksum step keeps the flash, and what it leaves in the context is right for the
  image with the chunk behind it.\<close>

lemma ota_write_crc_step:
  assumes "ota_env env hw" and "ota_holds hw s c img" and "bs \<noteq> []"
    and "length bs \<le> W800_CRC_MAX_CALC_BYTES"
  shows "\<exists>ret cs h x. ota_write_crc env hw s c bs (length bs) = (ret, s\<lparr>od_crc := cs\<rparr>,
      c\<lparr>oo_header := h, oo_crc_ctx := x\<rparr>) \<and> crc_sys_ok cs \<and>
    (ret = WM_ERR_SUCCESS \<longleftrightarrow> img \<noteq> [] \<or> ota_header_ok hw c bs) \<and>
    (ret = WM_ERR_SUCCESS \<longrightarrow> ota_header_ok hw c (img @ bs) \<and>
       h = ota_header_of_bytes (take 64 (img @ bs)) \<and> x = ota_feed hw (drop 64 (img @ bs)))"
proof (cases "img = []")
  case True
  then have "oo_app_ota_addr c = oo_wrote_addr c" using assms(2) by (simp add: ota_holds_def)
  then obtain ret cs h x where "ota_write_crc env hw s c bs (length bs) = (ret, s\<lparr>od_crc := cs\<rparr>,
      c\<lparr>oo_header := h, oo_crc_ctx := x\<rparr>)" "crc_sys_ok cs"
    "ret = WM_ERR_SUCCESS \<longleftrightarrow> ota_header_ok hw c bs"
    "ret = WM_ERR_SUCCESS \<longrightarrow> h = ota_header_of_bytes (take 64 bs) \<and> x = ota_feed hw (drop 64 bs)"
    using ota_write_crc_first [OF assms(1), of s c bs] assms(2,4) by (auto simp: ota_holds_def)
  with True show ?thesis
    by (intro exI [of _ ret] exI [of _ cs] exI [of _ h] exI [of _ x]) simp
next
  case False
  then have h: "ota_header_ok hw c img" "oo_header c = ota_header_of_bytes (take 64 img)"
    "oo_crc_ctx c = ota_feed hw (drop 64 img)" "64 \<le> length img"
    "oo_app_ota_addr c \<noteq> oo_wrote_addr c" "crc_sys_ok (od_crc s)"
    using assms(2) by (auto simp: ota_holds_def ota_header_ok_def)
  obtain cs where cs: "ota_write_crc env hw s c bs (length bs) = (WM_ERR_SUCCESS, s\<lparr>od_crc := cs\<rparr>,
      c\<lparr>oo_crc_ctx := crc_feed hw (oo_crc_ctx c) bs\<rparr>)" "crc_sys_ok cs"
    using ota_write_crc_next [OF assms(1) h(6,5) _ assms(3,4)] h(3) by auto
  have x: "crc_feed hw (oo_crc_ctx c) bs = ota_feed hw (drop 64 (img @ bs))"
    using ota_feed_append [OF _ assms(3), of hw "drop 64 img"] assms(1) h(3,4) by (simp add: ota_env_def)
  have "c\<lparr>oo_crc_ctx := y\<rparr> = c\<lparr>oo_header := oo_header c, oo_crc_ctx := y\<rparr>" for y by simp
  with cs h x False show ?thesis
    by (intro exI [of _ 0] exI [of _ cs] exI [of _ "oo_header c"] exI [of _ "ota_feed hw (drop 64 (img @ bs))"])
      (simp add: ota_header_ok_append)
qed

text \<open>What erasing in front of the chunk leaves still holds the image.\<close>

lemma ota_erase_step:
  assumes "ota_env env hw" and "ota_holds hw s c img" and "bs \<noteq> []"
    and "length img + length bs \<le> oo_app_ota_size c"
  shows "\<exists>ret s1. (if oo_need_erase c \<noteq> 0 then ota_write_erase env s c (length bs)
      else (WM_ERR_SUCCESS, s)) = (ret, s1) \<and> ota_holds hw s1 c img \<and>
    (oo_need_erase c = 0 \<or> oo_wrote_addr c mod 4096 = 0 \<or> oo_wrote_addr c + length bs < part_end c
       \<longrightarrow> outside_same c s s1) \<and> (oo_need_erase c = 0 \<longrightarrow> ret = WM_ERR_SUCCESS)"
proof -
  obtain d where d: "od_flash s = Some d" "ota_part d c"
    "mem_slice (fd_mem d) (oo_app_ota_addr c) (length img) = img"
    "oo_wrote_addr c = oo_app_ota_addr c + length img"
    using assms(2) by (auto simp: ota_holds_def)
  show ?thesis
  proof (cases "oo_need_erase c = 0")
    case True
    then show ?thesis using assms(2) d(1)
      by (intro exI [of _ 0] exI [of _ s]) (simp add: outside_same_def)
  next
    case False
    obtain ret m where e: "ota_write_erase env s c (length bs) =
        (ret, s\<lparr>od_flash := Some (d\<lparr>fd_mem := m\<rparr>)\<rparr>)"
      "\<forall>x < oo_wrote_addr c. m x = fd_mem d x"
      "\<forall>x \<ge> part_end c. oo_wrote_addr c mod 4096 = 0 \<or>
         oo_wrote_addr c + length bs < part_end c \<longrightarrow> m x = fd_mem d x"
      using ota_write_erase_keeps [OF assms(1) d(2,1), of "length bs"] assms(3,4) d(4) by auto
    let ?s = "s\<lparr>od_flash := Some (d\<lparr>fd_mem := m\<rparr>)\<rparr>"
    have "mem_slice m (oo_app_ota_addr c) (length img) = img"
      using mem_slice_cong [of "oo_app_ota_addr c" "length img" m "fd_mem d"] e(2) d(3,4) by simp
    then have "ota_holds hw ?s c img" using assms(2) d by (auto simp: ota_holds_def)
    moreover have "outside_same c s ?s"
      if "oo_wrote_addr c mod 4096 = 0 \<or> oo_wrote_addr c + length bs < part_end c"
      using e(2,3) d that by (auto simp: outside_same_def)
    ultimately show ?thesis using False e(1) by (intro exI [of _ ret] exI [of _ ?s]) simp
  qed
qed

lemma mem_slice_splice_behind:
  "n = length xs \<Longrightarrow> mem_slice m a n = xs \<Longrightarrow> mem_slice (splice m (a + n) bs) a (n + length bs) = xs @ bs"
  using mem_slice_append [of "splice m (a + n) bs" a n "length bs"] mem_slice_splice [of m "a + n" bs]
    mem_slice_cong [of a n "splice m (a + n) bs" m] by (simp add: splice_def)

text \<open>One write: it takes the chunk or leaves the image as it was.\<close>

lemma wm_ota_ops_write_step:
  assumes "ota_env env hw" and "ota_holds hw s c img" and "length bs \<le> W800_CRC_MAX_CALC_BYTES"
  shows "\<exists>ret s' c'. wm_ota_ops_write env hw s (Some c) (Some bs) (length bs) = (ret, s', Some c') \<and>
    same_part c c' \<and> ota_holds hw s' c' (if ret = WM_ERR_SUCCESS then img @ bs else img) \<and>
    (oo_need_erase c = 0 \<or> oo_wrote_addr c mod 4096 = 0 \<or> oo_wrote_addr c + length bs \<noteq> part_end c
       \<longrightarrow> outside_same c s s') \<and>
    (oo_need_erase c = 0 \<longrightarrow> (ret = WM_ERR_SUCCESS \<longleftrightarrow> bs \<noteq> [] \<and>
       length img + length bs \<le> oo_app_ota_size c \<and> (img = [] \<longrightarrow> ota_header_ok hw c bs)))"
proof -
  let ?a = "oo_app_ota_addr c"
  obtain d where d: "od_flash s = Some d" "ota_part d c" using assms(2) by (auto simp: ota_holds_def)
  note b = ota_part_bounds [OF d(2)]
  have w: "oo_wrote_addr c = ?a + length img" "length img \<le> oo_app_ota_size c"
    using assms(2) by (auto simp: ota_holds_def)
  have room: "u32 (part_end c + 2 ^ 32 - oo_wrote_addr c) = oo_app_ota_size c - length img"
  proof -
    have "part_end c + 2 ^ 32 - oo_wrote_addr c = (oo_app_ota_size c - length img) + 2 ^ 32"
      using w by simp
    moreover have "oo_app_ota_size c - length img < 2 ^ 32" using b(1) by simp
    ultimately show ?thesis unfolding u32_def by (simp only: mod_add_self2 mod_less)
  qed
  have stay: ?thesis if "wm_ota_ops_write env hw s (Some c) (Some bs) (length bs) = (r, s, Some c)"
    "r \<noteq> 0" "\<not> (bs \<noteq> [] \<and> length img + length bs \<le> oo_app_ota_size c)" for r
    using that assms(2) d(1)
    by (intro exI [of _ r] exI [of _ s] exI [of _ c]) (auto simp: outside_same_def)
  show ?thesis
  proof (cases "bs = [] \<or> oo_app_ota_size c < length img + length bs")
    case True
    then show ?thesis
    proof
      assume "bs = []"
      then show ?thesis
        by (intro stay [of WM_ERR_INVALID_PARAM]) (simp_all add: wm_ota_ops_write_def)
    next
      assume "oo_app_ota_size c < length img + length bs"
      then show ?thesis using room w b(2)
        by (intro stay [of "if bs = [] then WM_ERR_INVALID_PARAM else WM_ERR_NOT_ALLOWED"])
          (auto simp: wm_ota_ops_write_def)
    qed
  next
    case False
    then have bs: "bs \<noteq> []" "length img + length bs \<le> oo_app_ota_size c" by auto
    obtain r1 s1 where e: "(if oo_need_erase c \<noteq> 0 then ota_write_erase env s c (length bs)
        else (WM_ERR_SUCCESS, s)) = (r1, s1)" "ota_holds hw s1 c img"
      "oo_need_erase c = 0 \<or> oo_wrote_addr c mod 4096 = 0 \<or> oo_wrote_addr c + length bs < part_end c
         \<longrightarrow> outside_same c s s1" "oo_need_erase c = 0 \<longrightarrow> r1 = WM_ERR_SUCCESS"
      using ota_erase_step [OF assms(1,2) bs] by (elim exE conjE) (rule that; assumption)
    have guards: "(length bs = 0 \<or> ?a = 0) = False"
      "(oo_wrote_addr c < ?a \<or> length bs > u32 (part_end c + 2 ^ 32 - oo_wrote_addr c)) = False"
      using bs b(2) room w by auto
    have le: "oo_wrote_addr c + length bs \<noteq> part_end c \<longleftrightarrow> oo_wrote_addr c + length bs < part_end c"
      using bs(2) w by auto
    note unf = wm_ota_ops_write_def option.case prod.case guards if_False e(1) Let_def
    show ?thesis
    proof (cases "r1 = WM_ERR_SUCCESS")
      case no: False
      have "wm_ota_ops_write env hw s (Some c) (Some bs) (length bs) = (r1, s1, Some c)"
        unfolding unf using no by simp
      then show ?thesis using no e le by (intro exI [of _ r1] exI [of _ s1] exI [of _ c]) simp
    next
      case True
      obtain r2 cs h x where c: "ota_write_crc env hw s1 c bs (length bs) =
          (r2, s1\<lparr>od_crc := cs\<rparr>, c\<lparr>oo_header := h, oo_crc_ctx := x\<rparr>)" "crc_sys_ok cs"
        "r2 = WM_ERR_SUCCESS \<longleftrightarrow> img \<noteq> [] \<or> ota_header_ok hw c bs"
        "r2 = WM_ERR_SUCCESS \<longrightarrow> ota_header_ok hw c (img @ bs) \<and>
           h = ota_header_of_bytes (take 64 (img @ bs)) \<and> x = ota_feed hw (drop 64 (img @ bs))"
        using ota_write_crc_step [OF assms(1) e(2) bs(1) assms(3)] by blast
      obtain d1 where d1: "od_flash s1 = Some d1" "ota_part d1 c"
        "mem_slice (fd_mem d1) ?a (length img) = img" using e(2) by (auto simp: ota_holds_def)
      let ?s2 = "s1\<lparr>od_crc := cs\<rparr>" and ?c2 = "c\<lparr>oo_header := h, oo_crc_ctx := x\<rparr>"
      show ?thesis
      proof (cases "r2 = WM_ERR_SUCCESS")
        case no: False
        have "wm_ota_ops_write env hw s (Some c) (Some bs) (length bs) = (r2, ?s2, Some ?c2)"
          unfolding unf using True no c(1) by simp
        moreover have "ota_holds hw ?s2 ?c2 img" using no c(2,3) e(2) by (auto simp: ota_holds_def)
        moreover have "outside_same c s s1 \<Longrightarrow> outside_same c s ?s2" by (simp add: outside_same_def)
        ultimately show ?thesis using no e(3) le c(3)
          by (intro exI [of _ r2] exI [of _ ?s2] exI [of _ ?c2]) auto
      next
        case r2: True
        let ?d = "d1\<lparr>fd_mem := splice (fd_mem d1) (oo_wrote_addr c) bs\<rparr>"
        let ?s3 = "?s2\<lparr>od_flash := Some ?d\<rparr>"
        let ?c3 = "?c2\<lparr>oo_wrote_addr := oo_wrote_addr c + length bs\<rparr>"
        have g: "flash_geom d1" "WM_FT_REGION < oo_wrote_addr c"
          "oo_wrote_addr c + length bs \<le> fd_size d1" "fd_size d1 \<le> 0x2000000"
          using d1(2) w bs(2) by (auto simp: ota_part_def flash_geom_def)
        have "wm_drv_flash_write_with_erase env (Some d1) (oo_wrote_addr c) (Some bs) (length bs) =
            (WM_ERR_SUCCESS, Some ?d)"
          using flash_write_inside [OF assms(1) g(1) _ _ g(2,3), of bs] bs(1) by simp
        moreover have "u32 (oo_wrote_addr c + length bs) = oo_wrote_addr c + length bs" using g(3,4) by simp
        ultimately have "wm_ota_ops_write env hw s (Some c) (Some bs) (length bs) = (WM_ERR_SUCCESS, ?s3, Some ?c3)"
          unfolding unf using True c(1) r2 d1(1) by simp
        moreover have "ota_holds hw ?s3 ?c3 (img @ bs)"
        proof -
          have "mem_slice (fd_mem ?d) ?a (length img + length bs) = img @ bs"
            using mem_slice_splice_behind [OF refl d1(3), of bs] w(1) by simp
          moreover have "ota_header_ok hw ?c3 (img @ bs)"
            using c(4) r2 ota_header_ok_part [of c ?c3] by simp
          ultimately show ?thesis using c(2,4) r2 d1(2) w(1) bs(2) by (simp add: ota_holds_def)
        qed
        moreover have "outside_same c s s1 \<Longrightarrow> outside_same c s ?s3"
          using d1(1) w(1) bs(2) by (auto simp: outside_same_def splice_def)
        moreover have "same_part c ?c3" by simp
        ultimately show ?thesis using e(3) le bs c(3) r2
          by (intro exI [of _ 0] exI [of _ ?s3] exI [of _ ?c3]) auto
      qed
    qed
  qed
qed

section \<open>Beginning and ending\<close>

lemma round_up_size:
  assumes "n \<le> e" and "e mod 4096 = 0" and "0 < n" and "e \<le> 0x2000000"
  shows "u32 (n + OTA_FLASH_SECTOR_SIZE - 1) div OTA_FLASH_SECTOR_SIZE * OTA_FLASH_SECTOR_SIZE \<le> e"
    and "0 < u32 (n + OTA_FLASH_SECTOR_SIZE - 1) div OTA_FLASH_SECTOR_SIZE * OTA_FLASH_SECTOR_SIZE"
proof -
  have u: "u32 (n + 0x1000 - 1) = n - 1 + 4096" using assms by simp
  have "(n - 1 + 4096) div 4096 = (n - 1) div 4096 + 1" by simp
  with u round_up_le [OF assms(2), of "n - 1"] assms(1,3)
  show "u32 (n + 0x1000 - 1) div 0x1000 * 0x1000 \<le> e" "0 < u32 (n + 0x1000 - 1) div 0x1000 * 0x1000"
    by simp_all
qed

text \<open>Erasing whole sectors of the partition changes nothing outside it.\<close>

lemma flash_erase_in_part:
  assumes "ota_env env hw" and "ota_part d c" and "od_flash s = Some d" and "oo_app_ota_addr c \<le> a"
    and "a + n \<le> part_end c" and "a mod 4096 = 0" and "n mod 4096 = 0" and "0 < n"
  shows "\<exists>m. flash_erase env s a n = (WM_ERR_SUCCESS, s\<lparr>od_flash := Some (d\<lparr>fd_mem := m\<rparr>)\<rparr>) \<and>
    outside_same c s (s\<lparr>od_flash := Some (d\<lparr>fd_mem := m\<rparr>)\<rparr>)"
proof -
  have g: "flash_geom d" "fd_sector d = 4096" "WM_FT_REGION < a" "a + n \<le> fd_size d"
    using assms by (auto simp: ota_part_def)
  show ?thesis
    by (rule exI [of _ "erase_mem (fd_mem d) a n"])
      (use flash_erase_aligned [OF assms(1) g(1,2) assms(3,6,8) g(3) assms(7) g(4)] assms(3-5)
        in \<open>auto simp: outside_same_def erase_mem_def\<close>)
qed

lemma wm_ota_ops_begin_ok:
  assumes "ota_env env hw" and "ota_part d c" and "od_flash s = Some d" and "crc_sys_ok (od_crc s)"
    and "n = OTA_WITH_SEQUENTIAL_WRITES \<or> n = OTA_SIZE_UNKNOWN \<or> n \<le> oo_app_ota_size c"
  shows "\<exists>m s' c'. wm_ota_ops_begin env s (Some c) n = (WM_ERR_SUCCESS, s', Some c') \<and>
    s' = s\<lparr>od_flash := Some (d\<lparr>fd_mem := m\<rparr>)\<rparr> \<and> outside_same c s s' \<and>
    c' = c\<lparr>oo_wrote_addr := oo_app_ota_addr c,
           oo_need_erase := (if n = OTA_WITH_SEQUENTIAL_WRITES then 1 else 0)\<rparr> \<and>
    ota_holds hw s' c' []"
proof -
  let ?e = "part_end c"
  have p: "?e mod 4096 = 0" "4096 \<le> oo_app_ota_size c" "oo_app_ota_addr c mod 4096 = 0"
    "oo_app_ota_size c mod 4096 = 0" "oo_app_ota_size c \<le> 0x2000000"
    using assms(2) ota_part_bounds(1) [OF assms(2)] by (auto simp: ota_part_def mod_add_eq [symmetric])
  have last: "u32 (?e + 2 ^ 32 - OTA_FLASH_SECTOR_SIZE) = ?e - 4096"
  proof -
    have "?e + 2 ^ 32 - 0x1000 = (?e - 4096) + 2 ^ 32" using p(2) by simp
    moreover have "?e - 4096 < 2 ^ 32" using ota_part_bounds(1) [OF assms(2)] by simp
    ultimately show ?thesis unfolding u32_def by (simp only: mod_add_self2 mod_less)
  qed
  have lm: "(?e - 4096) mod 4096 = 0" using p(1) dvd_diff_nat [of 4096 ?e 4096]
    by (simp add: mod_eq_0_iff_dvd)
  have le: "oo_app_ota_addr c \<le> ?e - 4096" using p(2) by simp
  obtain m1 where m1: "flash_erase env s (?e - 4096) 4096 =
      (WM_ERR_SUCCESS, s\<lparr>od_flash := Some (d\<lparr>fd_mem := m1\<rparr>)\<rparr>)"
    "outside_same c s (s\<lparr>od_flash := Some (d\<lparr>fd_mem := m1\<rparr>)\<rparr>)"
    using flash_erase_in_part [OF assms(1-3) le _ lm, of 4096] p(2) by auto
  let ?s1 = "s\<lparr>od_flash := Some (d\<lparr>fd_mem := m1\<rparr>)\<rparr>" and ?c1 = "c\<lparr>oo_wrote_addr := oo_app_ota_addr c\<rparr>"
  have holds: "ota_holds hw (s\<lparr>od_flash := Some (d\<lparr>fd_mem := m\<rparr>)\<rparr>) (?c1\<lparr>oo_need_erase := e\<rparr>) []" for m e
    using assms(2,4) by (simp add: ota_holds_def)
  have a0: "oo_app_ota_addr c \<noteq> 0" using ota_part_bounds(2) [OF assms(2)] by simp
  note unf = wm_ota_ops_begin_def option.case Let_def
  show ?thesis
  proof (cases "n = OTA_WITH_SEQUENTIAL_WRITES")
    case True
    then have "wm_ota_ops_begin env s (Some c) n = (WM_ERR_SUCCESS, ?s1, Some (?c1\<lparr>oo_need_erase := 1\<rparr>))"
      using a0 m1(1) last by (simp add: unf)
    with True m1(2) holds [of m1 1] show ?thesis
      by (intro exI [of _ m1] exI [of _ ?s1] exI [of _ "?c1\<lparr>oo_need_erase := 1\<rparr>"]) simp
  next
    case False
    let ?len = "if n = 0 \<or> n = OTA_SIZE_UNKNOWN then oo_app_ota_size c
      else u32 (n + OTA_FLASH_SECTOR_SIZE - 1) div OTA_FLASH_SECTOR_SIZE * OTA_FLASH_SECTOR_SIZE"
    have len: "?len \<le> oo_app_ota_size c" "0 < ?len" "?len mod 4096 = 0"
      using round_up_size [OF _ p(4) _ p(5), of n] assms(5) False p(2,4) by auto
    obtain m2 where m2: "flash_erase env ?s1 (oo_app_ota_addr c) ?len =
        (WM_ERR_SUCCESS, ?s1\<lparr>od_flash := Some (d\<lparr>fd_mem := m2\<rparr>)\<rparr>)"
      "outside_same c ?s1 (?s1\<lparr>od_flash := Some (d\<lparr>fd_mem := m2\<rparr>)\<rparr>)"
      using flash_erase_in_part [OF assms(1), of "d\<lparr>fd_mem := m1\<rparr>" c ?s1 "oo_app_ota_addr c" ?len]
        assms(2) p(3) len by auto
    let ?s2 = "s\<lparr>od_flash := Some (d\<lparr>fd_mem := m2\<rparr>)\<rparr>"
    have "\<not> (n \<noteq> 0 \<and> n \<noteq> OTA_SIZE_UNKNOWN \<and> n > oo_app_ota_size c)" using assms(5) False by auto
    then have "wm_ota_ops_begin env s (Some c) n = (WM_ERR_SUCCESS, ?s2, Some (?c1\<lparr>oo_need_erase := 0\<rparr>))"
      using a0 m1(1) last m2(1) False
      by (cases "n = 0 \<or> n = OTA_SIZE_UNKNOWN") (auto simp: unf)
    moreover have "outside_same c s ?s2"
      using outside_same_trans [OF m1(2) same_part_refl] m2(2) by simp
    ultimately show ?thesis using False holds [of m2 0]
      by (intro exI [of _ m2] exI [of _ ?s2] exI [of _ "?c1\<lparr>oo_need_erase := 0\<rparr>"]) simp
  qed
qed

text \<open>Any run of writes, whatever each of them returns.\<close>

fun ota_writes ::
  "env \<Rightarrow> crc_hw \<Rightarrow> ota_sys \<Rightarrow> ota_ops_ctx option \<Rightarrow> bytes list \<Rightarrow> ota_sys \<times> ota_ops_ctx option" where
  "ota_writes env hw s c [] = (s, c)"
| "ota_writes env hw s c (b # bs) =
     (let (_, s, c) = wm_ota_ops_write env hw s c (Some b) (length b) in ota_writes env hw s c bs)"

lemma ota_writes_holds:
  assumes "ota_env env hw" and "ota_holds hw s c img" and "oo_need_erase c = 0"
    and "\<forall>b \<in> set bs. length b \<le> W800_CRC_MAX_CALC_BYTES"
  shows "\<exists>s' c' img'. ota_writes env hw s (Some c) bs = (s', Some c') \<and> same_part c c' \<and>
    ota_holds hw s' c' img' \<and> outside_same c s s'"
  using assms(2-4)
proof (induction bs arbitrary: s c img)
  case Nil
  then obtain d where "od_flash s = Some d" by (auto simp: ota_holds_def)
  with Nil show ?case
    by (intro exI [of _ s] exI [of _ c] exI [of _ img]) (auto simp: outside_same_def)
next
  case (Cons b bs)
  obtain ret s1 c1 where w: "wm_ota_ops_write env hw s (Some c) (Some b) (length b) = (ret, s1, Some c1)"
    "same_part c c1" "ota_holds hw s1 c1 (if ret = WM_ERR_SUCCESS then img @ b else img)"
    "outside_same c s s1"
    using wm_ota_ops_write_step [OF assms(1) Cons.prems(1), of b] Cons.prems(2,3) by auto
  have "oo_need_erase c1 = 0" using w(2) Cons.prems(2) by (simp add: same_part_def)
  then obtain s' c' img' where "ota_writes env hw s1 (Some c1) bs = (s', Some c')" "same_part c1 c'"
    "ota_holds hw s' c' img'" "outside_same c1 s1 s'"
    using Cons.IH [OF w(3)] Cons.prems(3) by auto
  with w show ?case
    by (intro exI [of _ s'] exI [of _ c'] exI [of _ img'])
      (auto intro: same_part_trans outside_same_trans)
qed

text \<open>The final check compares the checksum of the image with its header.\<close>

lemma wm_ota_ops_end_ok:
  assumes "ota_env env hw" and "ota_holds hw s c img"
  shows "\<exists>ret cs. wm_ota_ops_end env hw s (Some c) = (ret, s\<lparr>od_crc := cs\<rparr>) \<and> crc_sys_ok cs \<and>
    (ret = WM_ERR_SUCCESS \<longleftrightarrow> img \<noteq> [] \<and>
       oh_org_checksum (ota_header_of_bytes (take 64 img)) = ota_crc hw (drop 64 img))"
proof -
  have e: "crc_hw_ok hw" "heap_ok env" using assms(1) by (auto simp: ota_env_def)
  obtain cs where cs: "wm_drv_crc_init env hw (od_crc s) = (True, cs)" "crc_ready cs"
    using wm_drv_crc_init_ok [OF e, of "od_crc s"] assms(2) by (auto simp: ota_holds_def)
  let ?r = "if img = [] then WM_ERR_INVALID_PARAM
    else if oh_org_checksum (ota_header_of_bytes (take 64 img)) = ota_crc hw (drop 64 img)
    then WM_ERR_SUCCESS else WM_ERR_OTA_CRC_ERROR"
  have "wm_ota_ops_end env hw s (Some c) = (?r, s\<lparr>od_crc := cs\<rparr>)"
    using cs(1) assms(2)
    by (auto simp: wm_ota_ops_end_def wm_drv_crc_final_def wm_w800_drv_crc_final_def ota_holds_def
        ota_crc_def Let_def)
  with crc_ready_sys_ok [OF cs(2)] show ?thesis
    by (intro exI [of _ ?r] exI [of _ cs]) auto
qed

end
