(* ===== verification/OtaSession.thy ===== *)
theory OtaSession
  imports Ota OtaSpec
begin

text \<open>
  What a session does: it keeps the relation between the context and the flash through every
  callback and retry, and it reports success only for an image that passed every check. The
  facts about the loop are by computation induction, so they speak of sessions that return.
\<close>

section \<open>An accepted image\<close>

definition ota_image_ok :: "crc_hw \<Rightarrow> ota_ops_ctx \<Rightarrow> bytes \<Rightarrow> bool" where
  "ota_image_ok hw c img \<longleftrightarrow> ota_header_ok hw c img \<and>
     oh_org_checksum (ota_header_of_bytes (take 64 img)) = ota_crc hw (drop 64 img)"

definition ota_image_len :: "bytes \<Rightarrow> nat" where
  "ota_image_len img = oh_img_len (ota_header_of_bytes (take 64 img)) + 64"

lemma ota_image_len_append: "64 \<le> length xs \<Longrightarrow> ota_image_len (xs @ ys) = ota_image_len xs"
  by (simp add: ota_image_len_def)

lemma ota_image_ok_part: "same_part c c' \<Longrightarrow> ota_image_ok hw c' img = ota_image_ok hw c img"
  by (simp add: ota_image_ok_def ota_header_ok_part)

lemma ota_header_ok_begin [simp]:
  "ota_header_ok hw (c\<lparr>oo_wrote_addr := a, oo_need_erase := e\<rparr>) img = ota_header_ok hw c img"
  by (simp add: ota_header_ok_def wm_ota_ops_check_fields_def Let_def)

lemma ota_image_ok_begin [simp]:
  "ota_image_ok hw (c\<lparr>oo_wrote_addr := a, oo_need_erase := e\<rparr>) img = ota_image_ok hw c img"
  by (simp add: ota_image_ok_def)

lemma check_fields_len:
  assumes "wm_ota_ops_check_fields c = WM_ERR_SUCCESS"
  shows "oh_img_len (oo_header c) \<le> u32 (oo_app_ota_size c + 2 ^ 32 - OTA_FW_HEADER_SIZE_IN_BIN)"
proof (rule ccontr)
  assume n: "\<not> ?thesis"
  from assms show False
    unfolding wm_ota_ops_check_fields_def Let_def using n by (simp split: if_splits)
qed

lemma ota_image_fits:
  assumes "ota_part d c" and "ota_header_ok hw c img"
  shows "ota_image_len img \<le> oo_app_ota_size c"
proof -
  have b: "4096 \<le> oo_app_ota_size c" "oo_app_ota_size c \<le> 0x2000000"
    using assms(1) ota_part_bounds(1) [OF assms(1)] by (auto simp: ota_part_def)
  have "u32 (oo_app_ota_size c + 2 ^ 32 - 64) = oo_app_ota_size c - 64"
  proof -
    have "oo_app_ota_size c + 2 ^ 32 - 64 = (oo_app_ota_size c - 64) + 2 ^ 32" using b by simp
    moreover have "oo_app_ota_size c - 64 < 2 ^ 32" using b by simp
    ultimately show ?thesis unfolding u32_def by (simp only: mod_add_self2 mod_less)
  qed
  then show ?thesis
    using check_fields_len [of "c\<lparr>oo_header := ota_header_of_bytes (take 64 img)\<rparr>"] assms(2) b
    by (simp add: ota_header_ok_def ota_image_len_def)
qed

section \<open>The session invariant\<close>

definition chunks_ok :: "'w ota_ctx \<Rightarrow> bool" where
  "chunks_ok c \<longleftrightarrow> (\<exists>get. oc_get_firmware_cb c = Some get \<and>
     (\<forall>h off room w. length (fst (snd (get h off room w))) \<le> W800_CRC_MAX_CALC_BYTES))"

definition ses_holds :: "crc_hw \<Rightarrow> 'w ota_run \<Rightarrow> bytes \<Rightarrow> bool" where
  "ses_holds hw a img \<longleftrightarrow> ota_holds hw (or_sys a) (oc_ops (or_ctx a)) img \<and>
     oo_need_erase (oc_ops (or_ctx a)) = 0 \<and> oc_wrote_offset (or_ctx a) = length img \<and>
     chunks_ok (or_ctx a)"

text \<open>From \<open>a\<close> to \<open>b\<close>: the same partitions, nothing outside the update partition changed.\<close>

definition ses_step :: "'w ota_run \<Rightarrow> 'w ota_run \<Rightarrow> bool" where
  "ses_step a b \<longleftrightarrow> same_part (oc_ops (or_ctx a)) (oc_ops (or_ctx b)) \<and>
     outside_same (oc_ops (or_ctx a)) (or_sys a) (or_sys b)"

lemma ses_step_trans: "ses_step a b \<Longrightarrow> ses_step b c \<Longrightarrow> ses_step a c"
  unfolding ses_step_def by (blast intro: same_part_trans outside_same_trans)

lemma ses_step_refl: "ses_holds hw a img \<Longrightarrow> ses_step a a"
  by (auto simp: ses_step_def ses_holds_def ota_holds_def outside_same_def)

lemma ses_step_image: "ses_step a b \<Longrightarrow>
    ota_image_ok hw (oc_ops (or_ctx b)) img = ota_image_ok hw (oc_ops (or_ctx a)) img"
  by (simp add: ses_step_def ota_image_ok_part)

lemma update_state_sel [simp]:
  "or_sys (wm_ota_update_state a st p) = or_sys a"
  "oc_ops (or_ctx (wm_ota_update_state a st p)) = oc_ops (or_ctx a)"
  "oc_wrote_offset (or_ctx (wm_ota_update_state a st p)) = oc_wrote_offset (or_ctx a)"
  "oc_get_firmware_cb (or_ctx (wm_ota_update_state a st p)) = oc_get_firmware_cb (or_ctx a)"
  "oc_connect_cb (or_ctx (wm_ota_update_state a st p)) = oc_connect_cb (or_ctx a)"
  "oc_close_cb (or_ctx (wm_ota_update_state a st p)) = oc_close_cb (or_ctx a)"
  "oc_state_cb (or_ctx (wm_ota_update_state a st p)) = oc_state_cb (or_ctx a)"
  "oc_conn_ret (or_ctx (wm_ota_update_state a st p)) = oc_conn_ret (or_ctx a)"
  "oc_handle (or_ctx (wm_ota_update_state a st p)) = oc_handle (or_ctx a)"
  "oc_status (or_ctx (wm_ota_update_state a st p)) = st"
  "oc_progress (or_ctx (wm_ota_update_state a st p)) = p"
  by (simp_all add: wm_ota_update_state_def upd_ctx_def Let_def split: option.splits)

lemma ses_cong:
  assumes "or_sys b = or_sys a" and "oc_ops (or_ctx b) = oc_ops (or_ctx a)"
    and "oc_wrote_offset (or_ctx b) = oc_wrote_offset (or_ctx a)"
    and "oc_get_firmware_cb (or_ctx b) = oc_get_firmware_cb (or_ctx a)"
  shows "ses_holds hw b img = ses_holds hw a img" and "ses_step b x = ses_step a x"
    and "ses_step x b = ses_step x a"
  using assms by (simp_all add: ses_holds_def chunks_ok_def ses_step_def)

lemma ses_update [simp]:
  "ses_holds hw (wm_ota_update_state a st p) img = ses_holds hw a img"
  "ses_step (wm_ota_update_state a st p) x = ses_step a x"
  "ses_step x (wm_ota_update_state a st p) = ses_step x a"
  by (simp_all add: ses_cong [of "wm_ota_update_state a st p" a])

section \<open>Connecting\<close>

lemma ota_connect_sel [simp]:
  "or_sys (ota_connect a) = or_sys a"
  "oc_ops (or_ctx (ota_connect a)) = oc_ops (or_ctx a)"
  "oc_wrote_offset (or_ctx (ota_connect a)) = oc_wrote_offset (or_ctx a)"
  "oc_get_firmware_cb (or_ctx (ota_connect a)) = oc_get_firmware_cb (or_ctx a)"
  "oc_connect_cb (or_ctx (ota_connect a)) = oc_connect_cb (or_ctx a)"
  by (simp_all add: ota_connect_def Let_def split: prod.splits)

lemma ota_connect_loop_sel [simp]:
  "or_sys (ota_connect_loop cf n a) = or_sys a"
  "oc_ops (or_ctx (ota_connect_loop cf n a)) = oc_ops (or_ctx a)"
  "oc_wrote_offset (or_ctx (ota_connect_loop cf n a)) = oc_wrote_offset (or_ctx a)"
  "oc_get_firmware_cb (or_ctx (ota_connect_loop cf n a)) = oc_get_firmware_cb (or_ctx a)"
  by (induction cf n a rule: ota_connect_loop.induct,
      subst ota_connect_loop.simps, simp add: Let_def)+

text \<open>The loop ends with a connection, or after as many attempts as there are retries and one.\<close>

lemma ota_connect_loop_attempts:
  "n \<le> cf_reconnect_times cf \<Longrightarrow> \<exists>k \<le> cf_reconnect_times cf - n.
    ota_connect_loop cf n a = (ota_connect ^^ Suc k) a \<and>
    (\<forall>j < k. oc_conn_ret (or_ctx ((ota_connect ^^ Suc j) a)) \<noteq> WM_ERR_SUCCESS) \<and>
    (oc_conn_ret (or_ctx (ota_connect_loop cf n a)) \<noteq> WM_ERR_SUCCESS \<longrightarrow>
       k = cf_reconnect_times cf - n)"
proof (induction cf n a rule: ota_connect_loop.induct)
  case (1 cf n a)
  let ?b = "ota_connect a"
  show ?case
  proof (cases "oc_conn_ret (or_ctx ?b) \<noteq> WM_ERR_SUCCESS \<and> n < cf_reconnect_times cf")
    case False
    then have "ota_connect_loop cf n a = ?b" by (subst ota_connect_loop.simps) (auto simp: Let_def)
    with False 1(2) show ?thesis by (intro exI [of _ 0]) auto
  next
    case True
    then have e: "ota_connect_loop cf n a = ota_connect_loop cf (n + 1) ?b"
      by (subst ota_connect_loop.simps) (simp add: Let_def)
    have n: "n + 1 \<le> cf_reconnect_times cf" using True by simp
    from 1(1) [OF refl True n] obtain k where k: "k \<le> cf_reconnect_times cf - (n + 1)"
      "ota_connect_loop cf (n + 1) ?b = (ota_connect ^^ Suc k) ?b"
      "\<forall>j < k. oc_conn_ret (or_ctx ((ota_connect ^^ Suc j) ?b)) \<noteq> WM_ERR_SUCCESS"
      "oc_conn_ret (or_ctx (ota_connect_loop cf (n + 1) ?b)) \<noteq> WM_ERR_SUCCESS \<longrightarrow>
         k = cf_reconnect_times cf - (n + 1)"
      by blast
    have "oc_conn_ret (or_ctx ((ota_connect ^^ Suc j) a)) \<noteq> WM_ERR_SUCCESS" if "j < Suc k" for j
      using k(3) True that by (cases j) (simp_all add: funpow_swap1)
    with k e True show ?thesis
      by (intro exI [of _ "Suc k"]) (auto simp: funpow_swap1)
  qed
qed

section \<open>The download loop\<close>

lemma ota_store_step:
  assumes "ota_env env hw" and "ses_holds hw a img" and "length bs \<le> W800_CRC_MAX_CALC_BYTES"
  shows "\<exists>ret b. ota_store env hw a bs = (ret, b) \<and> ses_step a b \<and> or_world b = or_world a \<and>
    or_ctx b = (or_ctx a)\<lparr>oc_ops := oc_ops (or_ctx b)\<rparr> \<and>
    ota_holds hw (or_sys b) (oc_ops (or_ctx b)) (if ret = WM_ERR_SUCCESS then img @ bs else img) \<and>
    (ret = WM_ERR_SUCCESS \<longleftrightarrow> bs \<noteq> [] \<and> length img + length bs \<le> oo_app_ota_size (oc_ops (or_ctx a)) \<and>
       (img = [] \<longrightarrow> ota_header_ok hw (oc_ops (or_ctx a)) bs))"
proof -
  let ?o = "oc_ops (or_ctx a)"
  have h: "ota_holds hw (or_sys a) ?o img" "oo_need_erase ?o = 0" using assms(2) by (auto simp: ses_holds_def)
  obtain ret s' o' where w: "wm_ota_ops_write env hw (or_sys a) (Some ?o) (Some bs) (length bs) =
      (ret, s', Some o')" "same_part ?o o'"
    "ota_holds hw s' o' (if ret = WM_ERR_SUCCESS then img @ bs else img)"
    "oo_need_erase ?o = 0 \<or> oo_wrote_addr ?o mod 4096 = 0 \<or>
       oo_wrote_addr ?o + length bs \<noteq> part_end ?o \<longrightarrow> outside_same ?o (or_sys a) s'"
    "oo_need_erase ?o = 0 \<longrightarrow> (ret = WM_ERR_SUCCESS \<longleftrightarrow> bs \<noteq> [] \<and> length img + length bs \<le> oo_app_ota_size ?o \<and>
       (img = [] \<longrightarrow> ota_header_ok hw ?o bs))"
    using wm_ota_ops_write_step [OF assms(1) h(1) assms(3)]
    by (elim exE conjE) (rule that; assumption)
  let ?b = "(upd_ctx (\<lambda>c. c\<lparr>oc_ops := o'\<rparr>) a)\<lparr>or_sys := s'\<rparr>"
  have "ota_store env hw a bs = (ret, ?b)" using w(1) by (simp add: ota_store_def)
  with w h(2) show ?thesis
    by (intro exI [of _ ret] exI [of _ ?b]) (simp add: ses_step_def upd_ctx_def)
qed

lemma ota_count_step:
  assumes "ota_holds hw (or_sys a) (oc_ops (or_ctx a)) img" and "img \<noteq> []"
    and "oo_need_erase (oc_ops (or_ctx a)) = 0" and "chunks_ok (or_ctx a)"
    and "oc_wrote_offset (or_ctx a) + n = length img"
  shows "\<exists>p' b. ota_count a n p t = (p', b) \<and> ses_holds hw b img \<and> ses_step a b \<and>
    oc_ops (or_ctx b) = oc_ops (or_ctx a) \<and> or_sys b = or_sys a"
proof -
  obtain d where d: "ota_part d (oc_ops (or_ctx a))" "od_flash (or_sys a) = Some d"
    using assms(1) by (auto simp: ota_holds_def)
  have "length img \<le> 0x2000000"
    using assms(1) ota_part_bounds(1) [OF d(1)] by (auto simp: ota_holds_def)
  then have u: "u32 (oc_wrote_offset (or_ctx a) + n) = length img" using assms(5) by simp
  let ?a = "upd_ctx (\<lambda>c. c\<lparr>oc_wrote_offset := u32 (oc_wrote_offset c + n)\<rparr>) a"
  have h: "ses_holds hw ?a img" "ses_step a ?a"
    using assms(1,3,4) u d(2) by (auto simp: ses_holds_def upd_ctx_def chunks_ok_def ses_step_def
        outside_same_def)
  define q where "q = u32 (oc_wrote_offset (or_ctx ?a) * 100) div t"
  have "ota_count a n p t = (if p \<noteq> q then (q, wm_ota_update_state ?a WM_OTA_STATUS_DOWNLOAD_START q)
      else (p, ?a))" by (simp add: ota_count_def Let_def q_def)
  moreover have "oc_ops (or_ctx ?a) = oc_ops (or_ctx a)" "or_sys ?a = or_sys a" by (simp_all add: upd_ctx_def)
  ultimately show ?thesis using h by (cases "p = q") auto
qed

lemma ota_store_fail:
  assumes "ota_env env hw" and "ses_holds hw a img" and "length bs \<le> W800_CRC_MAX_CALC_BYTES"
    and "ota_store env hw a bs = (ret, b)" and "ret \<noteq> WM_ERR_SUCCESS"
  shows "ses_holds hw b img" and "ses_step a b"
proof -
  obtain b: "ses_step a b" "or_ctx b = (or_ctx a)\<lparr>oc_ops := oc_ops (or_ctx b)\<rparr>"
    "ota_holds hw (or_sys b) (oc_ops (or_ctx b)) img"
    using ota_store_step [OF assms(1-3)] assms(4,5) by auto
  have "oc_wrote_offset (or_ctx b) = oc_wrote_offset (or_ctx a)"
    "oc_get_firmware_cb (or_ctx b) = oc_get_firmware_cb (or_ctx a)"
    by (subst b(2), simp)+
  with b assms(2) show "ses_holds hw b img" "ses_step a b"
    by (simp_all add: ses_holds_def chunks_ok_def ses_step_def same_part_def)
qed

text \<open>The size of the image as the loop computes it.\<close>

lemma total_size_ok:
  assumes "ses_holds hw a img" and "img \<noteq> []" and "t = 0 \<or> t = ota_image_len img"
  shows "(if t = 0 then u32 (oh_img_len (oo_header (oc_ops (or_ctx a))) + OTA_FW_HEADER_SIZE_IN_BIN)
    else t) = ota_image_len img"
proof -
  obtain d where d: "ota_part d (oc_ops (or_ctx a))" using assms(1) by (auto simp: ses_holds_def ota_holds_def)
  have h: "ota_header_ok hw (oc_ops (or_ctx a)) img"
    "oo_header (oc_ops (or_ctx a)) = ota_header_of_bytes (take 64 img)"
    using assms(1,2) by (auto simp: ses_holds_def ota_holds_def)
  have "ota_image_len img \<le> 0x2000000"
    using ota_image_fits [OF d h(1)] ota_part_bounds(1) [OF d] by simp
  then have "u32 (ota_image_len img) = ota_image_len img" by simp
  then show ?thesis using assms(3) h(2) by (auto simp: ota_image_len_def)
qed

text \<open>What a session leaves: the image so far, and with success a checked one.\<close>

definition ses_result :: "crc_hw \<Rightarrow> 'w ota_run \<Rightarrow> int \<times> 'w ota_run \<Rightarrow> bool" where
  "ses_result hw a r \<longleftrightarrow> (\<exists>img. ses_holds hw (snd r) img \<and> ses_step a (snd r) \<and>
     (fst r = WM_ERR_SUCCESS \<longrightarrow> ota_image_ok hw (oc_ops (or_ctx a)) img \<and>
        ota_image_len img \<le> length img))"

lemma ses_result_fail: "ses_holds hw b img \<Longrightarrow> ses_step a b \<Longrightarrow> ret \<noteq> WM_ERR_SUCCESS \<Longrightarrow> ses_result hw a (ret, b)"
  by (auto simp: ses_result_def)

lemma ses_result_trans:
  assumes "ses_step a b" and "ses_result hw b r"
  shows "ses_result hw a r"
  using assms ses_step_trans ses_step_image [OF assms(1)] by (fastforce simp: ses_result_def)

lemma ota_finish_result:
  assumes "ota_env env hw" and "ses_holds hw a img" and "ota_image_len img \<le> length img"
  shows "ses_result hw a (ota_finish env hw reboot a)"
proof -
  let ?o = "oc_ops (or_ctx a)"
  obtain ret cs where e: "wm_ota_ops_end env hw (or_sys a) (Some ?o) = (ret, (or_sys a)\<lparr>od_crc := cs\<rparr>)"
    "crc_sys_ok cs" "ret = WM_ERR_SUCCESS \<longleftrightarrow> img \<noteq> [] \<and>
       oh_org_checksum (ota_header_of_bytes (take 64 img)) = ota_crc hw (drop 64 img)"
    using wm_ota_ops_end_ok [OF assms(1), of "or_sys a" ?o img] assms(2) by (auto simp: ses_holds_def)
  have sys: "ses_holds hw (a\<lparr>or_sys := s\<rparr>) img \<and> ses_step a (a\<lparr>or_sys := s\<rparr>)"
    if "od_flash s = od_flash (or_sys a)" "crc_sys_ok (od_crc s)" for s
    using assms(2) that by (auto simp: ses_holds_def ota_holds_def ses_step_def outside_same_def)
  have hdr: "img \<noteq> [] \<Longrightarrow> ota_header_ok hw ?o img" using assms(2) by (simp add: ses_holds_def ota_holds_def)
  note s1 = sys [of "(or_sys a)\<lparr>od_crc := cs\<rparr>"]
  show ?thesis
  proof (cases "ret = WM_ERR_SUCCESS")
    case False
    then show ?thesis using e(1,2) s1
      by (simp add: ota_finish_def Let_def ses_result_fail [where img = img])
  next
    case True
    let ?b = "wm_ota_update_state (a\<lparr>or_sys := (or_sys a)\<lparr>od_crc := cs\<rparr>\<rparr>) WM_OTA_STATUS_DOWNLOADED 100"
    let ?c = "wm_ota_update_state ?b WM_OTA_STATUS_UPGRADE_START 100"
    have "ota_finish env hw reboot a = (WM_ERR_SUCCESS, if reboot
        then ?c\<lparr>or_sys := snd (wm_ota_ops_reboot (or_sys ?c))\<rparr> else ?b)"
      using True e(1) by (simp add: ota_finish_def Let_def wm_ota_ops_reboot_def)
    moreover have "ses_holds hw ?b img" "ses_step a ?b" using s1 e(2) by simp_all
    moreover have "ses_holds hw (?c\<lparr>or_sys := snd (wm_ota_ops_reboot (or_sys ?c))\<rparr>) img"
      "ses_step a (?c\<lparr>or_sys := snd (wm_ota_ops_reboot (or_sys ?c))\<rparr>)"
      using assms(2) e(2) by (auto simp: ses_holds_def ota_holds_def ses_step_def outside_same_def
          wm_ota_ops_reboot_def chunks_ok_def)
    ultimately show ?thesis using True e(3) assms(3) hdr
      by (cases reboot) (auto simp: ses_result_def ota_image_ok_def)
  qed
qed

text \<open>One round of the loop, in terms of the image.\<close>

lemma ota_round:
  assumes "ota_env env hw" and "ses_holds hw a img" and "t = 0 \<or> img \<noteq> [] \<and> t = ota_image_len img"
    and "ota_store env hw (a\<lparr>or_world := w\<rparr>) bs = (WM_ERR_SUCCESS, b)"
    and "length bs \<le> W800_CRC_MAX_CALC_BYTES"
    and "t' = (if t = 0 then u32 (oh_img_len (oo_header (oc_ops (or_ctx b))) + OTA_FW_HEADER_SIZE_IN_BIN) else t)"
    and "ota_count b (length bs) p t' = (p', c)"
  shows "ses_holds hw c (img @ bs)" and "ses_step a c" and "t' = ota_image_len (img @ bs)" and "bs \<noteq> []"
proof -
  have a: "ses_holds hw (a\<lparr>or_world := w\<rparr>) img" using assms(2) by (simp add: ses_holds_def)
  have aw: "ses_step (a\<lparr>or_world := w\<rparr>) x = ses_step a x" for x by (simp add: ses_step_def)
  obtain s: "ses_step a b" "or_ctx b = (or_ctx a)\<lparr>oc_ops := oc_ops (or_ctx b)\<rparr>"
    "ota_holds hw (or_sys b) (oc_ops (or_ctx b)) (img @ bs)" "bs \<noteq> []"
    using ota_store_step [OF assms(1) a assms(5)] assms(4) by (auto simp: aw)
  have sel: "oc_wrote_offset (or_ctx b) = oc_wrote_offset (or_ctx a)"
    "oc_get_firmware_cb (or_ctx b) = oc_get_firmware_cb (or_ctx a)"
    by (subst s(2), simp)+
  have ne: "oo_need_erase (oc_ops (or_ctx b)) = 0"
    using s(1) assms(2) by (simp add: ses_step_def same_part_def ses_holds_def)
  obtain c: "ses_holds hw c (img @ bs)" "ses_step b c" "oc_ops (or_ctx c) = oc_ops (or_ctx b)"
    using ota_count_step [OF s(3) _ ne, of "length bs" p t'] assms(2,7) sel s(4)
    by (auto simp: ses_holds_def chunks_ok_def)
  show "ses_holds hw c (img @ bs)" "bs \<noteq> []" using c s(4) by simp_all
  show "ses_step a c" by (rule ses_step_trans [OF s(1) c(2)])
  have ne: "img @ bs \<noteq> []" using s(4) by simp
  have tt: "t = 0 \<or> t = ota_image_len (img @ bs)"
  proof (cases "img = []")
    case False
    then have "64 \<le> length img"
      using assms(2) ota_holds_len [of hw "or_sys a" "oc_ops (or_ctx a)" img] by (simp add: ses_holds_def)
    then show ?thesis using assms(3) by (auto simp: ota_image_len_append)
  qed (use assms(3) in auto)
  show "t' = ota_image_len (img @ bs)"
    by (rule trans [OF assms(6) total_size_ok [OF c(1) ne tt, unfolded c(3)]])
qed

lemma ota_loop_result:
  assumes ret: "ota_loop env hw cf reboot a p n t = Some r"
    and env: "ota_env env hw" and holds: "ses_holds hw a img"
    and t: "t = 0 \<or> img \<noteq> [] \<and> t = ota_image_len img"
  shows "ses_result hw a r"
proof -
  let ?P = "\<lambda>env hw cf reboot a p n t r. \<forall>img. ota_env env hw \<longrightarrow> ses_holds hw a img \<longrightarrow>
    (t = 0 \<or> img \<noteq> [] \<and> t = ota_image_len img) \<longrightarrow> ses_result hw a r"
  have "?P env hw cf reboot a p n t r"
  proof (rule ota_loop.raw_induct [where P = ?P, OF _ ret], intro allI impI)
    fix loop :: "env \<Rightarrow> crc_hw \<Rightarrow> 'a ota_conf \<Rightarrow> bool \<Rightarrow> 'a ota_run \<Rightarrow> nat \<Rightarrow> nat \<Rightarrow> nat \<Rightarrow> (int \<times> 'a ota_run) option"
      and env hw cf reboot a p n t r img
    assume IH: "\<And>env hw cf reboot a p n t r. loop env hw cf reboot a p n t = Some r \<Longrightarrow> ?P env hw cf reboot a p n t r"
      and env: "ota_env env hw" and holds: "ses_holds hw a img"
      and t: "t = 0 \<or> img \<noteq> [] \<and> t = ota_image_len img"
      and eq: "(let c = or_ctx a;
          (ret, bs, w) = the (oc_get_firmware_cb c) (oc_handle c) 0 n (or_world a);
          a = a\<lparr>or_world := w\<rparr>
        in if ret \<noteq> WM_ERR_SUCCESS
         then Some (ret, wm_ota_update_state a WM_OTA_STATUS_DOWNLOAD_FAILED p)
         else if bs = [] then loop env hw cf reboot a p n t
         else
           let (ret, a) = ota_store env hw a bs in
           if ret \<noteq> WM_ERR_SUCCESS
           then Some (ret, wm_ota_update_state a WM_OTA_STATUS_ABORT p)
           else
             let t = (if t = 0
                   then u32 (oh_img_len (oo_header (oc_ops (or_ctx a))) + OTA_FW_HEADER_SIZE_IN_BIN)
                   else t);
                 (p, a) = ota_count a (length bs) p t;
                 left = u32 (t + 2 ^ 32 - oc_wrote_offset (or_ctx a));
                 n = (if left \<ge> cf_block_size cf then cf_block_size cf else left)
             in if oc_wrote_offset (or_ctx a) \<ge> t then Some (ota_finish env hw reboot a)
                else loop env hw cf reboot a p n t) = Some r"
    obtain ret bs w where g: "the (oc_get_firmware_cb (or_ctx a)) (oc_handle (or_ctx a)) 0 n (or_world a) = (ret, bs, w)"
      by (metis prod_cases3)
    have len: "length bs \<le> W800_CRC_MAX_CALC_BYTES"
    proof -
      obtain get where "oc_get_firmware_cb (or_ctx a) = Some get"
        "\<forall>h off room w. length (fst (snd (get h off room w))) \<le> W800_CRC_MAX_CALC_BYTES"
        using holds by (auto simp: ses_holds_def chunks_ok_def)
      then show ?thesis using g by (metis fst_conv option.sel snd_conv)
    qed
    let ?a = "a\<lparr>or_world := w\<rparr>"
    have aw: "ses_holds hw ?a img" "ses_step a ?a"
      using holds ses_step_refl [OF holds] by (simp_all add: ses_holds_def ses_step_def)
    consider (fail) "ret \<noteq> WM_ERR_SUCCESS" | (wait) "ret = WM_ERR_SUCCESS" "bs = []"
      | (chunk) "ret = WM_ERR_SUCCESS" "bs \<noteq> []" by blast
    then show "ses_result hw a r"
    proof cases
      case fail
      with eq g aw show ?thesis by (auto simp: Let_def intro: ses_result_fail [where img = img])
    next
      case wait
      with eq g have "loop env hw cf reboot ?a p n t = Some r" by (simp add: Let_def)
      from IH [OF this] env aw t have "ses_result hw ?a r" by blast
      with aw(2) show ?thesis by (rule ses_result_trans)
    next
      case chunk
      obtain r1 b where st: "ota_store env hw ?a bs = (r1, b)" by (cases "ota_store env hw ?a bs")
      show ?thesis
      proof (cases "r1 = WM_ERR_SUCCESS")
        case False
        then have "ses_holds hw b img \<and> ses_step ?a b"
          using ota_store_fail [OF env aw(1) len st] by blast
        with False eq g st chunk ses_step_trans [OF aw(2)] show ?thesis
          by (auto simp: Let_def intro!: ses_result_fail [where img = img])
      next
        case True
        define t' where "t' = (if t = 0 then u32 (oh_img_len (oo_header (oc_ops (or_ctx b))) + OTA_FW_HEADER_SIZE_IN_BIN) else t)"
        obtain p' c where cn: "ota_count b (length bs) p t' = (p', c)" by (cases "ota_count b (length bs) p t'")
        note rd = ota_round [OF env holds t st [unfolded True] len t'_def cn]
        define n' where "n' = (let left = u32 (t' + 2 ^ 32 - oc_wrote_offset (or_ctx c))
          in if left \<ge> cf_block_size cf then cf_block_size cf else left)"
        have e: "(if oc_wrote_offset (or_ctx c) \<ge> t' then Some (ota_finish env hw reboot c)
            else loop env hw cf reboot c p' n' t') = Some r"
          using eq g st chunk True cn unfolding t'_def n'_def Let_def by simp
        show ?thesis
        proof (cases "oc_wrote_offset (or_ctx c) \<ge> t'")
          case fin: True
          then have "ota_image_len (img @ bs) \<le> length (img @ bs)"
            using rd(1,3) by (simp add: ses_holds_def)
          from ota_finish_result [OF env rd(1) this, of reboot] have "ses_result hw c r" using e fin by simp
          with rd(2) show ?thesis by (rule ses_result_trans)
        next
          case False
          with e have "loop env hw cf reboot c p' n' t' = Some r" by simp
          from IH [OF this] env rd have "ses_result hw c r" by blast
          with rd(2) show ?thesis by (rule ses_result_trans)
        qed
      qed
    qed
  qed
  with env holds t show ?thesis by blast
qed

section \<open>The session as a whole\<close>

lemma ota_start_result:
  assumes "ota_start env hw cf reboot a = Some r" and "ota_env env hw" and "ses_holds hw a img"
  shows "ses_result hw a r"
proof -
  let ?b = "ota_connect_loop cf 0 (wm_ota_update_state a WM_OTA_STATUS_CONNECTION_START 0)"
  have b: "ses_holds hw ?b img" "ses_step a ?b"
    using assms(3) ses_step_refl [OF assms(3)]
    by (simp_all add: ses_cong [of ?b "wm_ota_update_state a WM_OTA_STATUS_CONNECTION_START 0"])
  let ?c = "wm_ota_update_state (wm_ota_update_state ?b WM_OTA_STATUS_CONNECTED 0) WM_OTA_STATUS_DOWNLOAD_START 0"
  have c: "ses_holds hw ?c img" "ses_step a ?c" using b by simp_all
  show ?thesis
  proof (cases "oc_conn_ret (or_ctx ?b) = WM_ERR_SUCCESS \<and> alloc_ok env (cf_block_size cf + 1)")
    case True
    then have "ota_loop env hw cf reboot ?c 0 (cf_block_size cf) 0 = Some r"
      using assms(1) by (simp add: ota_start_def Let_def)
    then have "ses_result hw ?c r" by (rule ota_loop_result [OF _ assms(2) c(1)]) simp
    with c(2) show ?thesis by (rule ses_result_trans)
  next
    case False
    with assms(1) b c show ?thesis
      by (auto simp: ota_start_def Let_def split: if_splits intro: ses_result_fail [where img = img])
  qed
qed

lemma ota_retry_result:
  assumes ret: "ota_retry env hw cf reboot t0 a = Some r" and env: "ota_env env hw"
    and holds: "ses_holds hw a img"
  shows "ses_result hw a r"
proof -
  let ?P = "\<lambda>env hw cf reboot t0 a r. \<forall>img. ota_env env hw \<longrightarrow> ses_holds hw a img \<longrightarrow> ses_result hw a r"
  have "?P env hw cf reboot t0 a r"
  proof (rule ota_retry.raw_induct [where P = ?P, OF _ ret], intro allI impI)
    fix retry :: "env \<Rightarrow> crc_hw \<Rightarrow> 'a ota_conf \<Rightarrow> bool \<Rightarrow> nat \<Rightarrow> 'a ota_run \<Rightarrow> (int \<times> 'a ota_run) option"
      and env hw cf reboot t0 a r img
    assume IH: "\<And>env hw cf reboot t0 a r. retry env hw cf reboot t0 a = Some r \<Longrightarrow> ?P env hw cf reboot t0 a r"
      and env: "ota_env env hw" and holds: "ses_holds hw a img"
      and eq: "(case ota_start env hw cf reboot a of None \<Rightarrow> None
        | Some (ret, a) \<Rightarrow>
            if ret = WM_ERR_OTA_TIMEOUT \<and>
               u32 (cf_time_ms cf (or_world a) + 2 ^ 32 - t0) < cf_retry_timeout cf
            then retry env hw cf reboot t0 a else Some (ret, a)) = Some r"
    then obtain ret b where st: "ota_start env hw cf reboot a = Some (ret, b)"
      by (auto split: option.splits)
    have b: "ses_result hw a (ret, b)" by (rule ota_start_result [OF st env holds])
    then obtain img' where h: "ses_holds hw b img'" "ses_step a b" by (auto simp: ses_result_def)
    show "ses_result hw a r"
    proof (cases "r = (ret, b)")
      case False
      then have "retry env hw cf reboot t0 b = Some r" using eq st by (auto split: if_splits)
      from IH [OF this] env h(1) have "ses_result hw b r" by blast
      with h(2) show ?thesis by (rule ses_result_trans)
    qed (use b in simp)
  qed
  with env holds show ?thesis by blast
qed

lemma wm_ota_start_result:
  assumes "wm_ota_start env hw cf null reboot a = Some r" and "ota_env env hw" and "ses_holds hw a img"
  shows "ses_result hw a r"
  using assms ses_step_refl [OF assms(3)]
    ota_retry_result [of env hw cf reboot _ "wm_ota_update_state a WM_OTA_STATUS_START 0" r img]
  by (auto simp: wm_ota_start_def Let_def ses_result_def split: if_splits)

section \<open>Reports\<close>

text \<open>The last report agrees with the code the session returns.\<close>

definition report_ok :: "int \<times> 'w ota_run \<Rightarrow> bool" where
  "report_ok r \<longleftrightarrow>
     (if fst r = WM_ERR_SUCCESS
      then oc_status (or_ctx (snd r)) \<in> {WM_OTA_STATUS_DOWNLOADED, WM_OTA_STATUS_UPGRADE_START} \<and>
        oc_progress (or_ctx (snd r)) = 100
      else oc_status (or_ctx (snd r)) \<in>
        {WM_OTA_STATUS_CONNECTION_FAILED, WM_OTA_STATUS_DOWNLOAD_FAILED, WM_OTA_STATUS_ABORT})"

lemma ota_finish_report: "report_ok (ota_finish env hw reboot a)"
  by (simp add: ota_finish_def report_ok_def Let_def wm_ota_ops_reboot_def split: prod.splits)

lemma ota_loop_report:
  assumes ret: "ota_loop env hw cf reboot a p n t = Some r"
  shows "report_ok r"
proof (rule ota_loop.raw_induct [where P = "\<lambda>env hw cf reboot a p n t r. report_ok r", OF _ ret])
  fix loop :: "env \<Rightarrow> crc_hw \<Rightarrow> 'a ota_conf \<Rightarrow> bool \<Rightarrow> 'a ota_run \<Rightarrow> nat \<Rightarrow> nat \<Rightarrow> nat \<Rightarrow> (int \<times> 'a ota_run) option"
    and env hw cf reboot a p n t r
  assume IH: "\<And>env hw cf reboot a p n t r. loop env hw cf reboot a p n t = Some r \<Longrightarrow> report_ok r"
    and eq: "(let c = or_ctx a;
          (ret, bs, w) = the (oc_get_firmware_cb c) (oc_handle c) 0 n (or_world a);
          a = a\<lparr>or_world := w\<rparr>
        in if ret \<noteq> WM_ERR_SUCCESS
         then Some (ret, wm_ota_update_state a WM_OTA_STATUS_DOWNLOAD_FAILED p)
         else if bs = [] then loop env hw cf reboot a p n t
         else
           let (ret, a) = ota_store env hw a bs in
           if ret \<noteq> WM_ERR_SUCCESS
           then Some (ret, wm_ota_update_state a WM_OTA_STATUS_ABORT p)
           else
             let t = (if t = 0
                   then u32 (oh_img_len (oo_header (oc_ops (or_ctx a))) + OTA_FW_HEADER_SIZE_IN_BIN)
                   else t);
                 (p, a) = ota_count a (length bs) p t;
                 left = u32 (t + 2 ^ 32 - oc_wrote_offset (or_ctx a));
                 n = (if left \<ge> cf_block_size cf then cf_block_size cf else left)
             in if oc_wrote_offset (or_ctx a) \<ge> t then Some (ota_finish env hw reboot a)
                else loop env hw cf reboot a p n t) = Some r"
  then show "report_ok r"
    by (auto simp: Let_def ota_finish_report report_ok_def [of "(_, wm_ota_update_state _ _ _)"]
        split: prod.splits if_splits)
qed

lemma ota_start_report: "ota_start env hw cf reboot a = Some r \<Longrightarrow> report_ok r"
  by (auto simp: ota_start_def Let_def report_ok_def [of "(_, wm_ota_update_state _ _ _)"]
      split: if_splits intro: ota_loop_report)

lemma ota_retry_report:
  assumes ret: "ota_retry env hw cf reboot t0 a = Some r"
  shows "report_ok r"
  by (rule ota_retry.raw_induct [where P = "\<lambda>env hw cf reboot t0 a r. report_ok r", OF _ ret])
    (auto split: option.splits if_splits intro: ota_start_report)

end
