(* ===== verification/OtaServe.thy ===== *)
theory OtaServe
  imports OtaSession
begin

text \<open>
  The other direction: a server that delivers a good image, in whatever chunks and with
  whatever pauses, is served to the end. The world is the list of replies still to come with
  anything the other callbacks keep.
\<close>

definition feed_get :: "nat \<Rightarrow> nat \<Rightarrow> nat \<Rightarrow> bytes list \<times> 'v \<Rightarrow> int \<times> bytes \<times> bytes list \<times> 'v" where
  "feed_get h off room w =
     (case fst w of [] \<Rightarrow> (WM_ERR_FAILED, [], w) | b # bs \<Rightarrow> (WM_ERR_SUCCESS, take 65532 b, (bs, snd w)))"

text \<open>The callbacks fetch from the replies, connect at once, and report without touching the
  replies.\<close>

definition fed :: "(bytes list \<times> 'v) ota_run \<Rightarrow> bytes list \<Rightarrow> bool" where
  "fed a bss \<longleftrightarrow> oc_get_firmware_cb (or_ctx a) = Some feed_get \<and> fst (or_world a) = bss \<and>
     (\<forall>cb st p w. oc_state_cb (or_ctx a) = Some cb \<longrightarrow> fst (cb st p w) = fst w)"

lemma feed_chunks_ok: "fed a bss \<Longrightarrow> chunks_ok (or_ctx a)"
  by (auto simp: fed_def chunks_ok_def feed_get_def split: list.splits)

lemma fed_update [simp]: "fed (wm_ota_update_state a st p) bss = fed a bss"
  by (cases "oc_state_cb (or_ctx a)")
    (auto simp: fed_def wm_ota_update_state_def upd_ctx_def Let_def simp del: split_paired_All)

lemma fed_store:
  assumes "ota_env env hw" and "ses_holds hw a img" and "length bs \<le> W800_CRC_MAX_CALC_BYTES"
    and "ota_store env hw a bs = (ret, b)"
  shows "fed b bss = fed a bss"
proof -
  obtain b: "or_world b = or_world a" "or_ctx b = (or_ctx a)\<lparr>oc_ops := oc_ops (or_ctx b)\<rparr>"
    using ota_store_step [OF assms(1-3)] assms(4) by auto
  have "oc_get_firmware_cb (or_ctx b) = oc_get_firmware_cb (or_ctx a)"
    "oc_state_cb (or_ctx b) = oc_state_cb (or_ctx a)"
    by (subst b(2), simp)+
  with b(1) show ?thesis by (simp add: fed_def)
qed

lemma fed_count: "ota_count a n p t = (p', b) \<Longrightarrow> fed b bss = fed a bss"
proof -
  have "fed (upd_ctx (\<lambda>c. c\<lparr>oc_wrote_offset := f c\<rparr>) a) bss = fed a bss" for f
    by (simp add: fed_def upd_ctx_def)
  then show "ota_count a n p t = (p', b) \<Longrightarrow> fed b bss = fed a bss"
    by (auto simp: ota_count_def Let_def split: if_splits)
qed

text \<open>What a finished session has: the image, the report, and the reset when it was asked for.\<close>

definition ses_done :: "crc_hw \<Rightarrow> bool \<Rightarrow> (int \<times> 'w ota_run) option \<Rightarrow> bytes \<Rightarrow> bool" where
  "ses_done hw reboot r img \<longleftrightarrow> (\<exists>b. r = Some (WM_ERR_SUCCESS, b) \<and> ses_holds hw b img \<and>
     oc_status (or_ctx b) = (if reboot then WM_OTA_STATUS_UPGRADE_START else WM_OTA_STATUS_DOWNLOADED) \<and>
     oc_progress (or_ctx b) = 100 \<and>
     (reboot \<longrightarrow> od_reason (or_sys b) = WM_REBOOT_REASON_OTA \<and> od_wdt (or_sys b) = Some 0x100))"

lemma ota_finish_done:
  assumes "ota_env env hw" and "ses_holds hw a img" and "ota_image_ok hw (oc_ops (or_ctx a)) img"
  shows "ses_done hw reboot (Some (ota_finish env hw reboot a)) img"
proof -
  let ?o = "oc_ops (or_ctx a)"
  have "64 \<le> length img" using assms(3) by (simp add: ota_image_ok_def ota_header_ok_def)
  then have ne: "img \<noteq> []" by auto
  obtain cs where e: "wm_ota_ops_end env hw (or_sys a) (Some ?o) = (WM_ERR_SUCCESS, (or_sys a)\<lparr>od_crc := cs\<rparr>)"
    "crc_sys_ok cs"
    using wm_ota_ops_end_ok [OF assms(1), of "or_sys a" ?o img] assms(2,3) ne
    by (auto simp: ses_holds_def ota_image_ok_def)
  then show ?thesis using assms(2)
    by (simp add: ses_done_def ota_finish_def Let_def wm_ota_ops_reboot_def ses_holds_def
        ota_holds_def chunks_ok_def)
qed

lemma ota_loop_done:
  assumes "ota_env env hw"
  shows "ses_holds hw a img0 \<Longrightarrow> fed a bss \<Longrightarrow> img0 @ concat bss = img \<Longrightarrow> length img0 < length img \<Longrightarrow>
    ota_image_ok hw (oc_ops (or_ctx a)) img \<Longrightarrow> length img = ota_image_len img \<Longrightarrow>
    \<forall>b \<in> set bss. length b \<le> W800_CRC_MAX_CALC_BYTES \<Longrightarrow>
    img0 = [] \<longrightarrow> 64 \<le> length (hd (filter (\<lambda>b. b \<noteq> []) bss)) \<Longrightarrow>
    t = 0 \<or> img0 \<noteq> [] \<and> t = ota_image_len img0 \<Longrightarrow>
    ses_done hw reboot (ota_loop env hw cf reboot a p n t) img"
proof (induction bss arbitrary: a img0 p n t)
  case Nil
  then show ?case by simp
next
  case (Cons b bss)
  note prems = Cons.prems
  let ?w = "(bss, snd (or_world a))"
  let ?a = "a\<lparr>or_world := ?w\<rparr>"
  have g: "the (oc_get_firmware_cb (or_ctx a)) (oc_handle (or_ctx a)) 0 n (or_world a) = (WM_ERR_SUCCESS, b, ?w)"
    using prems(2,7) by (simp add: fed_def feed_get_def)
  have aw: "ses_holds hw ?a img0" "ses_step a ?a" "fed ?a bss" "oc_ops (or_ctx ?a) = oc_ops (or_ctx a)"
    using prems(1,2) ses_step_refl [OF prems(1)] by (simp_all add: ses_holds_def ses_step_def fed_def)
  show ?case
  proof (cases "b = []")
    case True
    then have "ota_loop env hw cf reboot a p n t = ota_loop env hw cf reboot ?a p n t"
      using g by (subst ota_loop.simps) (simp add: Let_def)
    with True Cons.IH [OF aw(1,3)] prems(3-9) show ?thesis by simp
  next
    case False
    obtain d where d: "ota_part d (oc_ops (or_ctx a))" using prems(1) by (auto simp: ses_holds_def ota_holds_def)
    have fits: "length img \<le> oo_app_ota_size (oc_ops (or_ctx a))"
      using ota_image_fits [OF d, of hw img] prems(5,6) unfolding ota_image_ok_def by linarith
    have le: "length (img0 @ b) \<le> length img" using prems(3) by auto
    have len: "length b \<le> W800_CRC_MAX_CALC_BYTES" using prems(7) by simp
    have hdr: "img0 = [] \<Longrightarrow> ota_header_ok hw (oc_ops (or_ctx a)) b"
      using prems(3,5,8) False ota_header_ok_append [of b hw _ "concat bss"] by (auto simp: ota_image_ok_def)
    obtain r1 c where st: "ota_store env hw ?a b = (r1, c)" by (cases "ota_store env hw ?a b")
    have r1: "r1 = WM_ERR_SUCCESS"
      using ota_store_step [OF assms aw(1) len] st False fits le hdr by auto
    define t' where "t' = (if t = 0 then u32 (oh_img_len (oo_header (oc_ops (or_ctx c))) + OTA_FW_HEADER_SIZE_IN_BIN) else t)"
    obtain p' e where cn: "ota_count c (length b) p t' = (p', e)" by (cases "ota_count c (length b) p t'")
    note rd = ota_round [OF assms prems(1,9) st [unfolded r1] len t'_def cn]
    have f: "fed e bss" using fed_count [OF cn] fed_store [OF assms aw(1) len st] aw(3) by simp
    have ok: "ota_image_ok hw (oc_ops (or_ctx e)) img" using ses_step_image [OF rd(2)] prems(5) by simp
    have l64: "64 \<le> length (img0 @ b)"
      using rd(1,4) ota_holds_len [of hw "or_sys e" "oc_ops (or_ctx e)" "img0 @ b"] by (simp add: ses_holds_def)
    have il: "ota_image_len (img0 @ b) = length img"
      using ota_image_len_append [OF l64, of "concat bss"] prems(3,6) by simp
    define n' where "n' = (let left = u32 (t' + 2 ^ 32 - oc_wrote_offset (or_ctx e))
      in if left \<ge> cf_block_size cf then cf_block_size cf else left)"
    have step: "ota_loop env hw cf reboot a p n t = (if oc_wrote_offset (or_ctx e) \<ge> t'
        then Some (ota_finish env hw reboot e) else ota_loop env hw cf reboot e p' n' t')"
      using g st r1 False cn unfolding t'_def n'_def Let_def by (subst ota_loop.simps) (simp add: Let_def)
    have off: "oc_wrote_offset (or_ctx e) = length (img0 @ b)" using rd(1) by (simp add: ses_holds_def)
    show ?thesis
    proof (cases "length (img0 @ b) < length img")
      case more: True
      then have "\<not> oc_wrote_offset (or_ctx e) \<ge> t'" using off rd(3) il by simp
      moreover have "ses_done hw reboot (ota_loop env hw cf reboot e p' n' t') img"
        using Cons.IH [OF rd(1) f] prems(3,6,7) more ok False rd(3) by auto
      ultimately show ?thesis using step by simp
    next
      case no: False
      then have "img0 @ b = img" using prems(3) by auto
      moreover have "oc_wrote_offset (or_ctx e) \<ge> t'" using no off rd(3) il by simp
      ultimately show ?thesis using step ota_finish_done [OF assms, of e img reboot] rd(1) ok by simp
    qed
  qed
qed

section \<open>From initialisation to the end\<close>

lemma ota_image_wrote: "ses_holds hw a [] \<Longrightarrow> oc_ops (or_ctx a) \<noteq> ota_ops_zero"
  by (auto dest!: ota_part_bounds(2) simp: ses_holds_def ota_holds_def ota_ops_zero_def)

text \<open>Initialisation with a usable pair of partitions leaves an empty image.\<close>

lemma wm_ota_init_ok:
  assumes "ota_env env hw" and "\<not> session_missing (or_ctx a)"
    and "wm_ota_ops_get_ota_partition env g (or_sys a) (Some (oc_ops (or_ctx a))) = Some (WM_ERR_SUCCESS, Some c)"
    and "od_flash (or_sys a) = Some d" and "ota_part d c" and "crc_sys_ok (od_crc (or_sys a))"
    and "oc_wrote_offset (or_ctx a) = 0" and "chunks_ok (or_ctx a)"
  shows "\<exists>m b. wm_ota_init env g False a = Some (WM_ERR_SUCCESS, b) \<and> ses_holds hw b [] \<and>
    b = a\<lparr>or_ctx := (or_ctx a)\<lparr>oc_ops := oc_ops (or_ctx b)\<rparr>,
          or_sys := (or_sys a)\<lparr>od_flash := Some (d\<lparr>fd_mem := m\<rparr>)\<rparr>\<rparr> \<and>
    oc_ops (or_ctx b) = c\<lparr>oo_wrote_addr := oo_app_ota_addr c, oo_need_erase := 0\<rparr> \<and>
    outside_same c (or_sys a) (or_sys b)"
proof -
  obtain m s' c' where bg: "wm_ota_ops_begin env (or_sys a) (Some c) OTA_SIZE_UNKNOWN = (WM_ERR_SUCCESS, s', Some c')"
    "s' = (or_sys a)\<lparr>od_flash := Some (d\<lparr>fd_mem := m\<rparr>)\<rparr>" "outside_same c (or_sys a) s'"
    "c' = c\<lparr>oo_wrote_addr := oo_app_ota_addr c, oo_need_erase := 0\<rparr>" "ota_holds hw s' c' []"
    using wm_ota_ops_begin_ok [OF assms(1,5,4,6), of OTA_SIZE_UNKNOWN] by auto
  let ?b = "a\<lparr>or_ctx := (or_ctx a)\<lparr>oc_ops := c'\<rparr>, or_sys := s'\<rparr>"
  have "wm_ota_init env g False a = Some (WM_ERR_SUCCESS, ?b)"
    using assms(2,3) bg(1) by (simp add: wm_ota_init_def upd_ctx_def)
  moreover have "ses_holds hw ?b []"
    using bg(4,5) assms(7,8) by (simp add: ses_holds_def chunks_ok_def)
  ultimately show ?thesis using bg(2-4) by (intro exI [of _ m] exI [of _ ?b]) simp
qed

text \<open>A connect callback that succeeds at once and leaves the replies alone.\<close>

definition connects :: "(bytes list \<times> 'v) ota_run \<Rightarrow> bool" where
  "connects a \<longleftrightarrow> (\<exists>con. oc_connect_cb (or_ctx a) = Some con \<and>
     (\<forall>h off w. fst (con h off w) = WM_ERR_SUCCESS \<and> fst (snd (snd (con h off w))) = fst w))"

lemma connect_fed:
  assumes "connects a" and "fed a bss"
  shows "ota_connect_loop cf 0 a = ota_connect a" and "fed (ota_connect a) bss"
    and "oc_conn_ret (or_ctx (ota_connect a)) = WM_ERR_SUCCESS"
proof -
  obtain con where con: "oc_connect_cb (or_ctx a) = Some con"
    "\<And>h off w. fst (con h off w) = WM_ERR_SUCCESS" "\<And>h off w. fst (snd (snd (con h off w))) = fst w"
    using assms(1) unfolding connects_def by blast
  obtain r h' w' where c: "con (oc_handle (or_ctx a)) (oc_wrote_offset (or_ctx a)) (or_world a) = (r, h', w')"
    by (metis prod_cases3)
  then have r: "r = WM_ERR_SUCCESS" "fst w' = fst (or_world a)"
    using con(2,3) [of "oc_handle (or_ctx a)" "oc_wrote_offset (or_ctx a)" "or_world a"] by auto
  have e: "ota_connect a = a\<lparr>or_ctx := (or_ctx a)\<lparr>oc_conn_ret := r, oc_handle := h'\<rparr>, or_world := w'\<rparr>"
    using con(1) c by (simp add: ota_connect_def)
  then show s: "oc_conn_ret (or_ctx (ota_connect a)) = WM_ERR_SUCCESS" using r by simp
  show "ota_connect_loop cf 0 a = ota_connect a"
    using s by (subst ota_connect_loop.simps) (simp add: Let_def)
  show "fed (ota_connect a) bss" using e assms(2) r(2) by (simp add: fed_def)
qed

lemma wm_ota_start_done:
  assumes "ota_env env hw" and "ses_holds hw a []" and "fed a bss" and "connects a"
    and "\<not> session_missing (or_ctx a)" and "ota_image_ok hw (oc_ops (or_ctx a)) (concat bss)"
    and "length (concat bss) = ota_image_len (concat bss)"
    and "\<forall>b \<in> set bss. length b \<le> W800_CRC_MAX_CALC_BYTES"
    and "64 \<le> length (hd (filter (\<lambda>b. b \<noteq> []) bss))"
  shows "ses_done hw reboot (wm_ota_start env hw cf False reboot a) (concat bss)"
proof -
  let ?a1 = "wm_ota_update_state (wm_ota_update_state a WM_OTA_STATUS_START 0) WM_OTA_STATUS_CONNECTION_START 0"
  have c1: "connects ?a1" "fed ?a1 bss" "ses_holds hw ?a1 []"
    using assms(2-4) by (simp_all add: connects_def)
  let ?a2 = "ota_connect ?a1"
  note cn = connect_fed [OF c1(1,2)]
  let ?a3 = "wm_ota_update_state (wm_ota_update_state ?a2 WM_OTA_STATUS_CONNECTED 0) WM_OTA_STATUS_DOWNLOAD_START 0"
  have h3: "ses_holds hw ?a3 []" "fed ?a3 bss" "oc_ops (or_ctx ?a3) = oc_ops (or_ctx a)"
    using c1(3) cn(2) by (simp_all add: ses_cong [of ?a2 ?a1])
  have "64 \<le> length (concat bss)" using assms(6) unfolding ota_image_ok_def ota_header_ok_def by blast
  then have ne: "length [] < length (concat bss)" by (simp only: list.size)
  have d: "ses_done hw reboot (ota_loop env hw cf reboot ?a3 0 (cf_block_size cf) 0) (concat bss)"
    by (rule ota_loop_done [OF assms(1) h3(1,2)]) (use ne assms(6-9) h3(3) in auto)
  have al: "alloc_ok env (cf_block_size cf + 1)" using assms(1) by (simp add: ota_env_def)
  have s: "ota_start env hw cf reboot (wm_ota_update_state a WM_OTA_STATUS_START 0) =
      ota_loop env hw cf reboot ?a3 0 (cf_block_size cf) 0"
    using cn(1,3) al by (simp add: ota_start_def Let_def)
  from d obtain b where b: "ota_loop env hw cf reboot ?a3 0 (cf_block_size cf) 0 = Some (WM_ERR_SUCCESS, b)"
    by (auto simp: ses_done_def)
  have "ota_retry env hw cf reboot t0 (wm_ota_update_state a WM_OTA_STATUS_START 0) =
      ota_loop env hw cf reboot ?a3 0 (cf_block_size cf) 0" for t0
    using s b by (subst ota_retry.simps) simp
  with d assms(5) ota_image_wrote [OF assms(2)] show ?thesis
    by (simp add: wm_ota_start_def Let_def)
qed

section \<open>From the partition table\<close>

lemma wm_partition_table_find_spec:
  assumes "flash_geom d" and "heap_ok env" and "g_verified g" and "0 < g_count g" and "g_count g \<le> 255"
    and "g_addr g + 12 + g_count g * 28 \<le> fd_size d"
  shows "wm_partition_table_find env (Some d) g (Some nm) =
    Some (case find (\<lambda>it. strcmp_eq nm (pi_name it))
        (part_items (mem_slice (fd_mem d) (g_addr g + 12) (g_count g * 28)) (g_count g)) of
      None \<Rightarrow> (WM_ERR_NOT_FOUND, None) | Some it \<Rightarrow> (WM_ERR_SUCCESS, Some it))"
proof -
  let ?n = "g_count g * 28"
  have "wm_drv_internal_flash_read env d (g_addr g + 12) (replicate ?n 0) ?n =
      (WM_ERR_SUCCESS, overlay (replicate ?n 0) 0 (mem_slice (fd_mem d) (g_addr g + 12) ?n))"
    using assms by (intro wm_drv_internal_flash_read_spec) simp_all
  then have "wm_drv_flash_read env (Some d) (g_addr g + 12) (Some (replicate ?n 0)) ?n =
      (WM_ERR_SUCCESS, Some (mem_slice (fd_mem d) (g_addr g + 12) ?n))"
    by (simp add: wm_drv_flash_read_def overlay_all)
  then show ?thesis using assms(2,3,5) part_find_loop_spec [of 0 "g_count g" nm]
    by (simp add: wm_partition_table_find_def)
qed

section \<open>Packing an image\<close>

text \<open>What the packing tool does for a partition: a header for the body.\<close>

definition ota_pack_header :: "crc_hw \<Rightarrow> ota_ops_ctx \<Rightarrow> bytes \<Rightarrow> ota_header" where
  "ota_pack_header hw c body =
     \<lparr>oh_magic_no = OTA_MAGIC_NO, oh_img_attr = 1,
      oh_img_addr = OTA_FLASH_BASE_ADDR + oo_app_ota_addr c + OTA_APP_RUN_ADDRESS_OFFSET,
      oh_img_len = length body, oh_img_header_addr = OTA_FLASH_BASE_ADDR + oo_app_ota_addr c,
      oh_upgrade_img_addr = 0, oh_org_checksum = ota_crc hw body, oh_upd_no = 0,
      oh_ver = replicate 16 0, oh_flags = 0, oh_reserved1 = 0, oh_next = 0, oh_hd_checksum = 0\<rparr>"

definition ota_pack :: "crc_hw \<Rightarrow> ota_ops_ctx \<Rightarrow> bytes \<Rightarrow> bytes" where
  "ota_pack hw c body =
     (let h = ota_pack_header hw c body
      in ota_header_bytes (h\<lparr>oh_hd_checksum := ota_crc hw (take 60 (ota_header_bytes h))\<rparr>) @ body)"

lemma le_nat_le_bytes_4: "x < 2 ^ 32 \<Longrightarrow> le_nat (le_bytes 4 x) = x"
  by (simp add: le_nat_le_bytes)

lemma ota_header_of_bytes_bytes:
  assumes "length (oh_ver h) = 16" and "oh_magic_no h < 2 ^ 32" and "oh_img_attr h < 2 ^ 32"
    and "oh_img_addr h < 2 ^ 32" and "oh_img_len h < 2 ^ 32" and "oh_img_header_addr h < 2 ^ 32"
    and "oh_upgrade_img_addr h < 2 ^ 32" and "oh_org_checksum h < 2 ^ 32" and "oh_upd_no h < 2 ^ 32"
    and "oh_flags h < 2 ^ 32" and "oh_reserved1 h < 2 ^ 32" and "oh_next h < 2 ^ 32"
    and "oh_hd_checksum h < 2 ^ 32"
  shows "ota_header_of_bytes (ota_header_bytes h) = h"
  using assms by (simp add: ota_header_of_bytes_def ota_header_bytes_def Let_def le_nat_le_bytes_4)

lemma length_ota_header_bytes: "length (oh_ver h) = 16 \<Longrightarrow> length (ota_header_bytes h) = 64"
  by (simp add: ota_header_bytes_def)

lemma ota_crc_lt: "ota_crc hw bs < 2 ^ 32"
  using unsigned_less [of "cc_state (ota_feed hw bs)"] by (simp add: ota_crc_def)

text \<open>Every body that fits becomes an image that passes every check.\<close>

lemma ota_pack_ok:
  assumes "ota_part d c" and "length body + 64 \<le> oo_app_ota_size c"
  shows "ota_image_ok hw c (ota_pack hw c body)" and "ota_image_len (ota_pack hw c body) = length (ota_pack hw c body)"
    and "length (ota_pack hw c body) = length body + 64"
proof -
  have b: "oo_app_ota_addr c + oo_app_ota_size c \<le> 0x2000000" by (rule ota_part_bounds(1) [OF assms(1)])
  define h where "h = ota_pack_header hw c body"
  define k where "k = ota_crc hw (take 60 (ota_header_bytes h))"
  let ?h = "h\<lparr>oh_hd_checksum := k\<rparr>"
  have img: "ota_pack hw c body = ota_header_bytes ?h @ body" by (simp add: ota_pack_def h_def k_def Let_def)
  have len: "length (ota_header_bytes ?h) = 64" "length (oh_ver h) = 16"
    by (simp_all add: length_ota_header_bytes h_def ota_pack_header_def)
  have bk: "ota_header_of_bytes (ota_header_bytes ?h) = ?h"
    by (rule ota_header_of_bytes_bytes)
      (use b assms(2) ota_crc_lt [of hw body] ota_crc_lt [of hw "take 60 (ota_header_bytes h)"]
        in \<open>simp_all add: h_def k_def ota_pack_header_def\<close>)
  have t: "take 64 (ota_pack hw c body) = ota_header_bytes ?h" "drop 64 (ota_pack hw c body) = body"
    using len img by simp_all
  have t60: "take 60 (ota_pack hw c body) = take 60 (ota_header_bytes h)"
  proof -
    have "take 60 (ota_pack hw c body) = take 60 (ota_header_bytes ?h)" using img len by simp
    also have "\<dots> = take 60 (ota_header_bytes h)" using len(2) by (simp add: ota_header_bytes_def)
    finally show ?thesis .
  qed
  have sz: "u32 (oo_app_ota_size c + 2 ^ 32 - OTA_FW_HEADER_SIZE_IN_BIN) = oo_app_ota_size c - 64"
  proof -
    have "oo_app_ota_size c + 2 ^ 32 - 0x40 = (oo_app_ota_size c - 64) + 2 ^ 32" using assms(2) by simp
    moreover have "oo_app_ota_size c - 64 < 2 ^ 32" using b by simp
    ultimately show ?thesis unfolding u32_def by (simp only: mod_add_self2 mod_less)
  qed
  have "wm_ota_ops_check_fields (c\<lparr>oo_header := ?h\<rparr>) = WM_ERR_SUCCESS"
    using b assms(2) sz by (simp add: wm_ota_ops_check_fields_def Let_def h_def ota_pack_header_def
        img_type_def gzip_enable_def compress_type_def)
  moreover have f: "oh_org_checksum ?h = ota_crc hw body" "oh_img_len ?h = length body"
    "oh_hd_checksum ?h = ota_crc hw (take 60 (ota_header_bytes h))"
    by (simp_all add: h_def ota_pack_header_def k_def)
  moreover have l64: "64 \<le> length (ota_pack hw c body)" using img len by simp
  ultimately show "ota_image_ok hw c (ota_pack hw c body)"
    unfolding ota_image_ok_def ota_header_ok_def t t60 bk by blast
  show "ota_image_len (ota_pack hw c body) = length (ota_pack hw c body)"
    unfolding ota_image_len_def t bk f(2) using len img by simp
  show "length (ota_pack hw c body) = length body + 64" using len img by simp
qed

section \<open>A concrete device\<close>

text \<open>The 2 MB chip with the partition table the build uses for updates.\<close>

definition demo_items :: "part_item list" where
  "demo_items =
     [\<lparr>pi_name = app_name @ replicate 13 0, pi_offset = 0xF000, pi_size = 0x122000, pi_flag = 0\<rparr>,
      \<lparr>pi_name = app_ota_name @ replicate 9 0, pi_offset = 0x131000, pi_size = 0xAF000, pi_flag = 0\<rparr>]"

definition demo_ota_dev :: flash_dev where
  "demo_ota_dev = \<lparr>fd_drv = True, fd_page = 256, fd_sector = 4096, fd_size = 0x200000, fd_vendor = 0,
     fd_uid = [], fd_mem = splice (\<lambda>_. 0xFF) 0xE00C (concat (map part_item_bytes demo_items))\<rparr>"

definition demo_table :: part_table where
  "demo_table = \<lparr>g_verified = True, g_addr = 0xE000, g_count = 2\<rparr>"

definition demo_ops :: ota_ops_ctx where
  "demo_ops = ota_ops_zero\<lparr>oo_app_addr := 0xF000, oo_app_size := 0x122000,
     oo_app_ota_addr := 0x131000, oo_app_ota_size := 0xAF000\<rparr>"

definition demo_sys :: ota_sys where
  "demo_sys = \<lparr>od_flash = Some demo_ota_dev, od_crc = demo_crc_sys, od_version = [], od_reason = 0,
     od_wdt = None, od_critical = False\<rparr>"

definition demo_run :: "bytes list \<Rightarrow> (bytes list \<times> (ota_status \<times> nat) list) ota_run" where
  "demo_run bss =
     \<lparr>or_ctx = ota_ctx_zero\<lparr>oc_connect_cb := Some (\<lambda>h off w. (0, 1, w)), oc_get_firmware_cb := Some feed_get,
        oc_close_cb := Some (\<lambda>h w. w), oc_state_cb := Some (\<lambda>st p w. (fst w, snd w @ [(st, p)]))\<rparr>,
      or_sys = demo_sys, or_world = (bss, [])\<rparr>"

definition demo_conf :: "'w ota_conf" where
  "demo_conf = \<lparr>cf_block_size = 4096, cf_reconnect_times = 5, cf_retry_timeout = 120000, cf_time_ms = (\<lambda>_. 0)\<rparr>"

lemma demo_ota_env [simp]: "ota_env demo_env demo_hw"
  by (simp add: ota_env_def)

lemma demo_ota_geom [simp]: "flash_geom demo_ota_dev"
  by (simp add: flash_geom_def demo_ota_dev_def)

lemma demo_ota_part [simp]: "ota_part demo_ota_dev demo_ops"
  unfolding ota_part_def by (simp add: demo_ops_def WM_FT_REGION_def) (simp add: demo_ota_dev_def)

lemma demo_run_sel [simp]:
  "or_sys (demo_run bss) = demo_sys" "od_flash demo_sys = Some demo_ota_dev"
  "od_crc demo_sys = demo_crc_sys" "oc_wrote_offset (or_ctx (demo_run bss)) = 0"
  "oc_ops (or_ctx (demo_run bss)) = ota_ops_zero"
  by (simp_all add: demo_run_def demo_sys_def ota_ctx_zero_def)

lemma demo_run_fed [simp]: "fed (demo_run bss) bss" "connects (demo_run bss)" "\<not> session_missing (or_ctx (demo_run bss))"
  by (simp_all add: fed_def connects_def session_missing_def demo_run_def)

lemma demo_table_items:
  "part_items (mem_slice (fd_mem demo_ota_dev) 0xE00C 56) 2 = demo_items"
proof -
  let ?i = "demo_items ! 0" and ?j = "demo_items ! 1"
  have n: "demo_items = [?i, ?j]" by (simp add: demo_items_def)
  have l: "length (pi_name ?i) = 16" "length (pi_name ?j) = 16"
    by (simp_all add: demo_items_def app_name_def app_ota_name_def)
  have b: "length (part_item_bytes ?i) = 28" "length (part_item_bytes ?j) = 28"
    using l by (simp_all add: part_item_bytes_def)
  have r: "part_item_of_bytes (part_item_bytes ?i) = ?i" "part_item_of_bytes (part_item_bytes ?j) = ?j"
    using l by (intro part_item_roundtrip; simp add: demo_items_def)+
  have c: "concat (map part_item_bytes demo_items) = part_item_bytes ?i @ part_item_bytes ?j"
    by (subst n) simp
  have "mem_slice (fd_mem demo_ota_dev) 0xE00C 56 = part_item_bytes ?i @ part_item_bytes ?j"
    using mem_slice_splice [of "\<lambda>_. 0xFF" "0xE00C" "part_item_bytes ?i @ part_item_bytes ?j"] b
    by (simp add: demo_ota_dev_def c)
  moreover have "part_items (part_item_bytes ?i @ part_item_bytes ?j) (Suc (Suc 0)) = [?i, ?j]"
    using b r by simp
  ultimately show ?thesis using n by (simp add: numeral_2_eq_2)
qed

lemma demo_partitions:
  "wm_ota_ops_get_ota_partition demo_env demo_table demo_sys (Some ota_ops_zero) = Some (WM_ERR_SUCCESS, Some demo_ops)"
proof -
  have f: "wm_partition_table_find demo_env (Some demo_ota_dev) demo_table (Some nm) =
    Some (case find (\<lambda>it. strcmp_eq nm (pi_name it)) demo_items of
      None \<Rightarrow> (WM_ERR_NOT_FOUND, None) | Some it \<Rightarrow> (WM_ERR_SUCCESS, Some it))" for nm
    using wm_partition_table_find_spec [of demo_ota_dev demo_env demo_table nm] demo_table_items
    by (simp add: demo_table_def demo_ota_dev_def [THEN arg_cong [where f = fd_size]])
  have s: "strcmp_eq app_name (app_name @ replicate 13 0)" "\<not> strcmp_eq app_ota_name (app_name @ replicate 13 0)"
    "strcmp_eq app_ota_name (app_ota_name @ replicate 9 0)"
    by (simp_all add: strcmp_eq_def app_name_def app_ota_name_def takeWhile_replicate)
  show ?thesis
    by (simp add: wm_ota_ops_get_ota_partition_def f demo_items_def s demo_ops_def)
qed

end
