(* ===== verification/OtaProps.thy ===== *)
theory OtaProps
  imports OtaServe Demo
begin

text \<open>
  Properties of the checksum driver and of the firmware update, each with the concrete input
  that shows its hypotheses can hold.
\<close>

section \<open>Further facts\<close>

text \<open>The write behind a successful erasure, when the checksum step accepts the chunk.\<close>

lemma wm_ota_ops_write_unfold:
  assumes "ota_env env hw" and "ota_holds hw s c img" and "bs \<noteq> []"
    and "length img + length bs \<le> oo_app_ota_size c"
    and "(if oo_need_erase c \<noteq> 0 then ota_write_erase env s c (length bs) else (WM_ERR_SUCCESS, s)) =
      (WM_ERR_SUCCESS, s1)"
    and "ota_write_crc env hw s1 c bs (length bs) = (WM_ERR_SUCCESS, s2, c2)"
    and "od_flash s2 = Some d" and "flash_geom d" and "part_end c \<le> fd_size d"
    and "oo_wrote_addr c2 = oo_wrote_addr c"
  shows "wm_ota_ops_write env hw s (Some c) (Some bs) (length bs) =
    (WM_ERR_SUCCESS, s2\<lparr>od_flash := Some (d\<lparr>fd_mem := splice (fd_mem d) (oo_wrote_addr c) bs\<rparr>)\<rparr>,
     Some (c2\<lparr>oo_wrote_addr := oo_wrote_addr c + length bs\<rparr>))"
proof -
  let ?a = "oo_app_ota_addr c"
  obtain d0 where d0: "ota_part d0 c" using assms(2) by (auto simp: ota_holds_def)
  note b = ota_part_bounds [OF d0]
  have w: "oo_wrote_addr c = ?a + length img" "WM_FT_REGION < oo_wrote_addr c"
    using assms(2) d0 by (auto simp: ota_holds_def ota_part_def)
  have room: "u32 (part_end c + 2 ^ 32 - oo_wrote_addr c) = oo_app_ota_size c - length img"
  proof -
    have "part_end c + 2 ^ 32 - oo_wrote_addr c = (oo_app_ota_size c - length img) + 2 ^ 32"
      using w assms(4) by simp
    moreover have "oo_app_ota_size c - length img < 2 ^ 32" using b(1) by simp
    ultimately show ?thesis unfolding u32_def by (simp only: mod_add_self2 mod_less)
  qed
  have guards: "(length bs = 0 \<or> ?a = 0) = False"
    "(oo_wrote_addr c < ?a \<or> length bs > u32 (part_end c + 2 ^ 32 - oo_wrote_addr c)) = False"
    using assms(3,4) b(2) room w by auto
  have le: "oo_wrote_addr c + length bs \<le> part_end c" using w assms(4) by simp
  have "wm_drv_flash_write_with_erase env (Some d) (oo_wrote_addr c) (Some bs) (length bs) =
      (WM_ERR_SUCCESS, Some (d\<lparr>fd_mem := splice (fd_mem d) (oo_wrote_addr c) bs\<rparr>))"
    using flash_write_inside [OF assms(1,8) _ _ w(2), of "length bs" bs] assms(3,9) le by simp
  moreover have "u32 (oo_wrote_addr c + length bs) = oo_wrote_addr c + length bs" using le b(1) by simp
  ultimately show ?thesis using assms(6,7,10)
    unfolding wm_ota_ops_write_def option.case prod.case guards if_False assms(5) Let_def
    by simp
qed

text \<open>The last chunk of a sequential update, when it starts inside a sector and ends with the
  partition: the stretch erased ends one sector behind.\<close>

lemma ota_write_erase_behind:
  assumes "ota_env env hw" and "ota_holds hw s c img" and "od_flash s = Some d" and "bs \<noteq> []"
    and "oo_wrote_addr c mod 4096 \<noteq> 0" and "length img + length bs = oo_app_ota_size c"
    and "part_end c + 4096 \<le> fd_size d"
  shows "\<exists>a. ota_write_erase env s c (length bs) = (WM_ERR_SUCCESS,
      s\<lparr>od_flash := Some (d\<lparr>fd_mem := erase_mem (fd_mem d) a (part_end c + 4096 - a)\<rparr>)\<rparr>) \<and>
    a \<le> part_end c"
proof -
  let ?w = "oo_wrote_addr c" and ?e = "part_end c"
  have p: "ota_part d c" "?w = oo_app_ota_addr c + length img" using assms(2,3) by (auto simp: ota_holds_def)
  have e: "?w + length bs = ?e" using p(2) assms(6) by simp
  have g: "flash_geom d" "fd_sector d = 4096" "WM_FT_REGION < ?w" "?e mod 4096 = 0"
    "?e \<le> 0x2000000"
    using p ota_part_bounds(1) [OF p(1)] by (auto simp: ota_part_def mod_add_eq [symmetric])
  have til: "erase_to ?w (length bs) = ?e + 4096"
    using assms(5) g(4) e by (auto simp: erase_to_def)
  have lt: "erase_from ?w \<le> ?e"
  proof -
    have "erase_from ?w = ((?w - 1) div 4096 + 1) * 4096"
    proof -
      have "?w + 4095 = (?w - 1) + 4096" using assms(5) by (cases ?w) simp_all
      then show ?thesis unfolding erase_from_def by (simp only: div_add_self2 zero_neq_numeral not_False_eq_True)
    qed
    moreover have "?w - 1 < ?e" using e assms(4) by (cases bs) auto
    ultimately show ?thesis using round_up_le [OF g(4)] by simp
  qed
  have n: "length bs > 0" using assms(4) by simp
  have m: "(?e + 4096 - erase_from ?w) mod 4096 = 0"
    using erase_from_mod [of ?w] g(4) dvd_diff_nat [of 4096 "?e + 4096" "erase_from ?w"]
    by (simp add: mod_eq_0_iff_dvd)
  have b: "?w + length bs \<le> 0x2000000" using e g(5) by simp
  have ge: "?w \<le> erase_from ?w" by (rule erase_from_ge)
  have "flash_erase env s (erase_from ?w) (?e + 4096 - erase_from ?w) = (WM_ERR_SUCCESS,
      s\<lparr>od_flash := Some (d\<lparr>fd_mem := erase_mem (fd_mem d) (erase_from ?w) (?e + 4096 - erase_from ?w)\<rparr>)\<rparr>)"
    by (rule flash_erase_aligned [OF assms(1) g(1,2) assms(3) erase_from_mod])
      (use lt ge g(3) m assms(7) in auto)
  moreover have "erase_from ?w \<noteq> ?e + 4096" using lt by simp
  ultimately show ?thesis
    using ota_write_erase_stretch [OF b n, of env s] til lt
    by (intro exI [of _ "erase_from ?w"]) (simp add: Let_def)
qed

text \<open>A chunk the unit refuses leaves the running checksum alone.\<close>

lemma ota_write_crc_long:
  assumes "ota_env env hw" and "crc_sys_ok (od_crc s)" and "oo_app_ota_addr c \<noteq> oo_wrote_addr c"
    and "W800_CRC_MAX_CALC_BYTES < length bs"
  shows "\<exists>cs. ota_write_crc env hw s c bs (length bs) = (WM_ERR_SUCCESS, s\<lparr>od_crc := cs\<rparr>, c) \<and>
    crc_sys_ok cs"
proof -
  have e: "crc_hw_ok hw" "heap_ok env" using assms(1) by (auto simp: ota_env_def)
  obtain s1 where s1: "wm_drv_crc_init env hw (od_crc s) = (True, s1)" "crc_ready s1"
    using wm_drv_crc_init_ok [OF e assms(2)] by blast
  obtain s2 where "wm_drv_crc_update hw s1 True (Some (oo_crc_ctx c)) (Some bs) (length bs) =
      (WM_ERR_INVALID_PARAM, s2, Some (oo_crc_ctx c))" "crc_ready s2"
    using wm_drv_crc_update_long [OF e(1) s1(2) assms(4)] by blast
  then show ?thesis using s1(1) assms(3)
    by (intro exI [of _ s2]) (simp add: ota_write_crc_def Let_def crc_ready_sys_ok)
qed

section \<open>The checksum\<close>

text \<open>C29. Handing a buffer to the checksum driver in chunks gives the checksum of the whole: after
  \<open>wm_drv_crc_init\<close> and \<open>wm_drv_crc_cfg\<close> for CRC-32 with both reversals, any cutting of at most
  65532 bytes into nonempty chunks, passed one by one to \<open>wm_drv_crc_update\<close>, ends in the value
  \<open>wm_drv_crc32_reverse\<close> computes at once. The unit runs a register over the bytes and puts it
  out with its bits reversed (\<open>crc_unit_runs\<close>, which does not mention the code); the device, its
  clock and its mutexes work (\<open>crc_hw_ok\<close>, \<open>crc_sys_ok\<close>).\<close>

theorem crc_chunks_equal_whole:
  assumes "crc_hw_ok hw" and "heap_ok env" and "crc_sys_ok s" and "crc_unit_runs hw 3 3"
    and "bs \<noteq> []" and "\<forall>b \<in> set bs. b \<noteq> []" and "length (concat bs) \<le> 65532"
  shows "\<exists>s1 s2 c0 c. wm_drv_crc_init env hw s = (True, s1) \<and>
    wm_drv_crc_cfg True (Some junk) 0xFFFFFFFF WM_GPSEC_CRC32 WM_GPSEC_CRC_OUT_IN_REVERSE = (WM_ERR_SUCCESS, Some c0) \<and>
    crc_updates hw s1 c0 bs = (s2, c) \<and>
    wm_drv_crc_final True (Some c) True = (WM_ERR_SUCCESS,
      Some (fst (wm_drv_crc32_reverse env hw s (Some (concat bs)) (length (concat bs)))))"
proof -
  obtain s1 where s1: "wm_drv_crc_init env hw s = (True, s1)" "crc_ready s1"
    using wm_drv_crc_init_ok [OF assms(1-3)] by blast
  have cfg: "wm_drv_crc_cfg True (Some junk) 0xFFFFFFFF 3 3 = (WM_ERR_SUCCESS, Some ota_cfg0)"
    by (simp add: wm_drv_crc_cfg_def wm_w800_drv_crc_cfg_def IS_CRC_TYPE_def IS_CRC_REVERSE_def ota_cfg0_def)
  have len: "0 < length b \<and> length b \<le> W800_CRC_MAX_CALC_BYTES" if "b \<in> set bs" for b
  proof -
    have "length b \<le> length (concat bs)" using that by (auto simp: length_concat intro!: member_le_sum_list)
    with assms(6,7) that show ?thesis by auto
  qed
  have st: "crc_unit_runs hw (cc_type ota_cfg0) (cc_reverse ota_cfg0)"
    using assms(4) by (simp add: ota_cfg0_def)
  obtain s2 where s2: "crc_updates hw s1 ota_cfg0 bs = (s2, crc_feed hw ota_cfg0 (concat bs))"
    using crc_updates_feed [OF assms(1) s1(2) ota_cfg0_ok st _ assms(5)] len by blast
  have "concat bs \<noteq> []" using assms(5,6) by (cases bs) auto
  then have "0 < length (concat bs)" by simp
  from wm_drv_crc32_reverse_ok [OF assms(1-3) this assms(7), of "concat bs"] s1(1) cfg s2
  show ?thesis
    by (intro exI [of _ s1] exI [of _ s2] exI [of _ ota_cfg0] exI [of _ "crc_feed hw ota_cfg0 (concat bs)"])
      (auto simp: wm_drv_crc_final_def wm_w800_drv_crc_final_def ota_cfg0_def)
qed

theorem crc_chunks_equal_whole_witness:
  "\<exists>s1 s2 c0 c. wm_drv_crc_init demo_env demo_hw demo_crc_sys = (True, s1) \<and>
    wm_drv_crc_cfg True (Some (gh_junk demo_hw)) 0xFFFFFFFF WM_GPSEC_CRC32 WM_GPSEC_CRC_OUT_IN_REVERSE = (WM_ERR_SUCCESS, Some c0) \<and>
    crc_updates demo_hw s1 c0 [[49, 50], [51, 52, 53, 54], [55, 56, 57]] = (s2, c) \<and>
    wm_drv_crc_final True (Some c) True = (WM_ERR_SUCCESS,
      Some (fst (wm_drv_crc32_reverse demo_env demo_hw demo_crc_sys (Some [49, 50, 51, 52, 53, 54, 55, 56, 57]) 9)))"
proof -
  let ?bs = "[[49, 50], [51, 52, 53, 54], [55, 56, 57]] :: bytes list"
  have n: "length [49, 50, 51, 52, 53, 54, 55, 56, 57 :: u8] = 9" and c: "concat ?bs = [49, 50, 51, 52, 53, 54, 55, 56, 57]" by simp_all
  have h: "?bs \<noteq> []" "\<forall>b \<in> set ?bs. b \<noteq> []" "length (concat ?bs) \<le> 65532" by simp_all
  show ?thesis
    using crc_chunks_equal_whole [OF demo_hw_ok demo_env_heap demo_crc_sys_ok demo_hw_streams h, of "gh_junk demo_hw"]
    unfolding c n .
qed

section \<open>The update\<close>

text \<open>C5. A good image is installed: on a device whose table has the two partitions, the first session
  of a context (its count of bytes is 0) over a server to which each connection succeeds at once
  and that delivers an image with a valid header and matching checksums, in whatever chunks of
  at most 65532 bytes and with whatever empty replies between them, as long as the first chunk
  has the 64 bytes of the header, initialises, runs to its end and returns success. Then the
  image lies at the start of \<open>app_ota\<close>, every other cell of the chip is as it was, the last
  report is \<open>DOWNLOADED\<close> at 100 percent, and with \<open>reboot\<close> the reset is armed.\<close>

theorem ota_good_image_installed:
  assumes "ota_env env hw" and "fed a0 bss" and "connects a0" and "\<not> session_missing (or_ctx a0)"
    and "oc_wrote_offset (or_ctx a0) = 0" and "crc_sys_ok (od_crc (or_sys a0))"
    and "od_flash (or_sys a0) = Some d" and "ota_part d c"
    and "wm_ota_ops_get_ota_partition env g (or_sys a0) (Some (oc_ops (or_ctx a0))) = Some (WM_ERR_SUCCESS, Some c)"
    and "ota_image_ok hw c (concat bss)" and "length (concat bss) = ota_image_len (concat bss)"
    and "\<forall>b \<in> set bss. length b \<le> 65532" and "64 \<le> length (hd (filter (\<lambda>b. b \<noteq> []) bss))"
  shows "\<exists>a b d'. wm_ota_init env g False a0 = Some (WM_ERR_SUCCESS, a) \<and>
    wm_ota_start env hw cf False reboot a = Some (WM_ERR_SUCCESS, b) \<and>
    od_flash (or_sys b) = Some d' \<and>
    mem_slice (fd_mem d') (oo_app_ota_addr c) (length (concat bss)) = concat bss \<and>
    (\<forall>x. x < oo_app_ota_addr c \<or> oo_app_ota_addr c + oo_app_ota_size c \<le> x \<longrightarrow> fd_mem d' x = fd_mem d x) \<and>
    oc_status (or_ctx b) = (if reboot then WM_OTA_STATUS_UPGRADE_START else WM_OTA_STATUS_DOWNLOADED) \<and>
    oc_progress (or_ctx b) = 100 \<and>
    (reboot \<longrightarrow> od_reason (or_sys b) = WM_REBOOT_REASON_OTA \<and> od_wdt (or_sys b) = Some 0x100)"
proof -
  obtain m a where a: "wm_ota_init env g False a0 = Some (WM_ERR_SUCCESS, a)" "ses_holds hw a []"
    "a = a0\<lparr>or_ctx := (or_ctx a0)\<lparr>oc_ops := oc_ops (or_ctx a)\<rparr>,
          or_sys := (or_sys a0)\<lparr>od_flash := Some (d\<lparr>fd_mem := m\<rparr>)\<rparr>\<rparr>"
    "oc_ops (or_ctx a) = c\<lparr>oo_wrote_addr := oo_app_ota_addr c, oo_need_erase := 0\<rparr>"
    "outside_same c (or_sys a0) (or_sys a)"
    using wm_ota_init_ok [OF assms(1,4,9,7,8,6,5) feed_chunks_ok [OF assms(2)]]
    by (elim exE conjE) (rule that; assumption)
  have sel: "fed a bss" "connects a" "\<not> session_missing (or_ctx a)"
    using assms(2-4) by (subst a(3), simp add: fed_def connects_def session_missing_def)+
  have im: "ota_image_ok hw (oc_ops (or_ctx a)) (concat bss) = ota_image_ok hw c (concat bss)"
    by (simp add: a(4))
  have dn: "ses_done hw reboot (wm_ota_start env hw cf False reboot a) (concat bss)"
    using wm_ota_start_done [OF assms(1) a(2) sel] im assms(10-13) by simp
  then obtain b where b: "wm_ota_start env hw cf False reboot a = Some (WM_ERR_SUCCESS, b)"
    "ses_holds hw b (concat bss)"
    "oc_status (or_ctx b) = (if reboot then WM_OTA_STATUS_UPGRADE_START else WM_OTA_STATUS_DOWNLOADED)"
    "oc_progress (or_ctx b) = 100"
    "reboot \<longrightarrow> od_reason (or_sys b) = WM_REBOOT_REASON_OTA \<and> od_wdt (or_sys b) = Some 0x100"
    by (auto simp: ses_done_def)
  have st: "ses_step a b" using wm_ota_start_result [OF b(1) assms(1) a(2)] by (auto simp: ses_result_def)
  have adr: "oo_app_ota_addr (oc_ops (or_ctx a)) = oo_app_ota_addr c"
    "oo_app_ota_size (oc_ops (or_ctx a)) = oo_app_ota_size c" by (simp_all add: a(4))
  obtain d' where d': "od_flash (or_sys b) = Some d'"
    "mem_slice (fd_mem d') (oo_app_ota_addr c) (length (concat bss)) = concat bss"
    using b(2) st adr by (auto simp: ses_holds_def ota_holds_def ses_step_def same_part_def)
  have "\<forall>x. x < oo_app_ota_addr c \<or> part_end c \<le> x \<longrightarrow> fd_mem d' x = fd_mem d x"
    using a(5) st d'(1) assms(7) adr by (auto simp: ses_step_def outside_same_def)
  with a(1) b d' show ?thesis
    by - (rule exI [of _ a], rule exI [of _ b], rule exI [of _ d'], (intro conjI; assumption))
qed

theorem ota_good_image_installed_witness:
  "\<exists>a b d' img. wm_ota_init demo_env demo_table False (demo_run [take 100 img, [], drop 100 img]) = Some (WM_ERR_SUCCESS, a) \<and>
    wm_ota_start demo_env demo_hw demo_conf False True a = Some (WM_ERR_SUCCESS, b) \<and>
    od_flash (or_sys b) = Some d' \<and> mem_slice (fd_mem d') 0x131000 10064 = img \<and>
    od_wdt (or_sys b) = Some 0x100"
proof -
  define img where "img = ota_pack demo_hw demo_ops (replicate 10000 7)"
  have ok: "ota_image_ok demo_hw demo_ops img" "ota_image_len img = length img" "length img = 10064"
    using ota_pack_ok [OF demo_ota_part, of "replicate 10000 7" demo_hw]
    by (simp_all add: img_def demo_ops_def)
  let ?bss = "[take 100 img, [], drop 100 img]"
  have c: "concat ?bss = img" by simp
  have ne: "take 100 img \<noteq> []" using ok(3) by auto
  obtain a b d' where "wm_ota_init demo_env demo_table False (demo_run ?bss) = Some (WM_ERR_SUCCESS, a)"
    "wm_ota_start demo_env demo_hw demo_conf False True a = Some (WM_ERR_SUCCESS, b)"
    "od_flash (or_sys b) = Some d'"
    "mem_slice (fd_mem d') (oo_app_ota_addr demo_ops) (length (concat ?bss)) = concat ?bss"
    "od_wdt (or_sys b) = Some 0x100"
    using ota_good_image_installed [of demo_env demo_hw "demo_run ?bss" ?bss demo_ota_dev demo_ops demo_table demo_conf True]
      ok ne demo_partitions unfolding c by auto
  then show ?thesis unfolding c using ok(3)
    by (intro exI [of _ a] exI [of _ b] exI [of _ d'] exI [of _ img]) (simp add: demo_ops_def)
qed

text \<open>C6. Success means a checked image: whatever the server sends in chunks of at most 65532 bytes
  (longer ones escape the checksum), whatever the retries, the first session of a context that
  was initialised with success and returns has changed nothing outside \<open>app_ota\<close>;
  and when it returns success, \<open>app_ota\<close> begins with an image whose header passes every check,
  whose two checksums match, and which is complete by its own length.\<close>

theorem ota_success_means_checked:
  assumes "ota_env env hw" and "chunks_ok (or_ctx a0)" and "\<not> session_missing (or_ctx a0)"
    and "oc_wrote_offset (or_ctx a0) = 0" and "crc_sys_ok (od_crc (or_sys a0))"
    and "od_flash (or_sys a0) = Some d" and "ota_part d c"
    and "wm_ota_ops_get_ota_partition env g (or_sys a0) (Some (oc_ops (or_ctx a0))) = Some (WM_ERR_SUCCESS, Some c)"
    and "wm_ota_init env g False a0 = Some (WM_ERR_SUCCESS, a)"
    and "wm_ota_start env hw cf False reboot a = Some (ret, b)"
  shows "\<exists>d'. od_flash (or_sys b) = Some d' \<and>
    (\<forall>x. x < oo_app_ota_addr c \<or> oo_app_ota_addr c + oo_app_ota_size c \<le> x \<longrightarrow> fd_mem d' x = fd_mem d x) \<and>
    (ret = WM_ERR_SUCCESS \<longrightarrow> (\<exists>img. mem_slice (fd_mem d') (oo_app_ota_addr c) (length img) = img \<and>
       ota_image_ok hw c img \<and> ota_image_len img \<le> length img \<and> length img \<le> oo_app_ota_size c))"
proof -
  obtain i: "ses_holds hw a []" "oc_ops (or_ctx a) = c\<lparr>oo_wrote_addr := oo_app_ota_addr c, oo_need_erase := 0\<rparr>"
    "outside_same c (or_sys a0) (or_sys a)"
    using wm_ota_init_ok [OF assms(1,3,8,6,7,5,4,2)] assms(9) by auto
  obtain img where r: "ses_holds hw b img" "ses_step a b"
    "ret = WM_ERR_SUCCESS \<longrightarrow> ota_image_ok hw (oc_ops (or_ctx a)) img \<and> ota_image_len img \<le> length img"
    using wm_ota_start_result [OF assms(10,1) i(1)] by (auto simp: ses_result_def)
  have im: "ota_image_ok hw (oc_ops (or_ctx a)) img = ota_image_ok hw c img"
    by (simp add: i(2))
  have adr: "oo_app_ota_addr (oc_ops (or_ctx a)) = oo_app_ota_addr c"
    "oo_app_ota_size (oc_ops (or_ctx a)) = oo_app_ota_size c" by (simp_all add: i(2))
  obtain d' where d': "od_flash (or_sys b) = Some d'" "length img \<le> oo_app_ota_size c"
    "mem_slice (fd_mem d') (oo_app_ota_addr c) (length img) = img"
    using r(1,2) adr by (auto simp: ses_holds_def ota_holds_def ses_step_def same_part_def)
  have "\<forall>x. x < oo_app_ota_addr c \<or> part_end c \<le> x \<longrightarrow> fd_mem d' x = fd_mem d x"
    using i(3) r(2) d'(1) assms(6) adr by (auto simp: ses_step_def outside_same_def)
  with d' r(3) im show ?thesis by (intro exI [of _ d']) blast
qed

text \<open>A whole session on the concrete device.\<close>

lemma demo_session:
  "\<exists>a b. wm_ota_init demo_env demo_table False (demo_run [ota_pack demo_hw demo_ops (replicate n 7)]) = Some (WM_ERR_SUCCESS, a) \<and>
    (n \<le> 60000 \<longrightarrow> wm_ota_start demo_env demo_hw demo_conf False reboot a = Some (WM_ERR_SUCCESS, b))"
proof -
  let ?img = "ota_pack demo_hw demo_ops (replicate n 7)"
  obtain a where a: "wm_ota_init demo_env demo_table False (demo_run [?img]) = Some (WM_ERR_SUCCESS, a)"
    "ses_holds demo_hw a []"
    "or_ctx a = (or_ctx (demo_run [?img]))\<lparr>oc_ops := oc_ops (or_ctx a)\<rparr>" "or_world a = or_world (demo_run [?img])"
    "oc_ops (or_ctx a) = demo_ops\<lparr>oo_wrote_addr := oo_app_ota_addr demo_ops, oo_need_erase := 0\<rparr>"
    using wm_ota_init_ok [of demo_env demo_hw "demo_run [?img]" demo_table demo_ops demo_ota_dev]
      feed_chunks_ok [OF demo_run_fed(1)] demo_partitions by (auto dest: arg_cong [where f = or_ctx] arg_cong [where f = or_world])
  show ?thesis
  proof (cases "n \<le> 60000")
    case True
    have ok: "ota_image_ok demo_hw demo_ops ?img" "ota_image_len ?img = length ?img" "length ?img = n + 64"
      using ota_pack_ok [OF demo_ota_part, of "replicate n 7" demo_hw] True by (simp_all add: demo_ops_def)
    have sel: "fed a [?img]" "connects a" "\<not> session_missing (or_ctx a)"
    proof -
      have "oc_get_firmware_cb (or_ctx a) = oc_get_firmware_cb (or_ctx (demo_run [?img]))"
        "oc_connect_cb (or_ctx a) = oc_connect_cb (or_ctx (demo_run [?img]))"
        "oc_close_cb (or_ctx a) = oc_close_cb (or_ctx (demo_run [?img]))"
        "oc_state_cb (or_ctx a) = oc_state_cb (or_ctx (demo_run [?img]))"
        by (subst a(3), simp)+
      with a(4) show "fed a [?img]" "connects a" "\<not> session_missing (or_ctx a)"
        using demo_run_fed [of "[?img]"] by (simp_all add: fed_def connects_def session_missing_def)
    qed
    have im: "ota_image_ok demo_hw (oc_ops (or_ctx a)) ?img"
      using ok(1) by (simp add: a(5))
    have "ses_done demo_hw reboot (wm_ota_start demo_env demo_hw demo_conf False reboot a) (concat [?img])"
      by (rule wm_ota_start_done [OF demo_ota_env a(2) sel]) (use im ok True in auto)
    with a(1) show ?thesis by (auto simp: ses_done_def)
  qed (use a(1) in auto)
qed

theorem ota_success_means_checked_witness:
  "\<exists>a b d' img. wm_ota_init demo_env demo_table False (demo_run [ota_pack demo_hw demo_ops (replicate 200 7)]) = Some (WM_ERR_SUCCESS, a) \<and>
    wm_ota_start demo_env demo_hw demo_conf False False a = Some (WM_ERR_SUCCESS, b) \<and>
    od_flash (or_sys b) = Some d' \<and> mem_slice (fd_mem d') 0x131000 (length img) = img \<and>
    ota_image_ok demo_hw demo_ops img"
proof -
  let ?r = "demo_run [ota_pack demo_hw demo_ops (replicate 200 7)]"
  obtain a b where ab: "wm_ota_init demo_env demo_table False ?r = Some (WM_ERR_SUCCESS, a)"
    "wm_ota_start demo_env demo_hw demo_conf False False a = Some (WM_ERR_SUCCESS, b)"
    using demo_session [of 200 False] by auto
  have p: "wm_ota_ops_get_ota_partition demo_env demo_table (or_sys ?r) (Some (oc_ops (or_ctx ?r))) = Some (WM_ERR_SUCCESS, Some demo_ops)"
    using demo_partitions by simp
  obtain d' img where "od_flash (or_sys b) = Some d'" "mem_slice (fd_mem d') (oo_app_ota_addr demo_ops) (length img) = img"
    "ota_image_ok demo_hw demo_ops img"
    using ota_success_means_checked [OF demo_ota_env feed_chunks_ok [OF demo_run_fed(1)] demo_run_fed(3) _ _ _ demo_ota_part p ab]
    by auto
  with ab show ?thesis
    by (intro exI [of _ a] exI [of _ b] exI [of _ d'] exI [of _ img]) (auto simp: demo_ops_def)
qed

text \<open>C25. The operations alone give the same: after \<open>wm_ota_ops_begin\<close> with a size that is not the
  sequential mode, any run of \<open>wm_ota_ops_write\<close> calls (failing ones included, chunks of at
  most 65532 bytes) followed by an accepting \<open>wm_ota_ops_end\<close> leaves at the start of \<open>app_ota\<close>
  an image whose header and checksums are right, and the rest of the chip as it was.\<close>

theorem ota_end_accepts_checked:
  assumes "ota_env env hw" and "ota_part d c" and "od_flash s = Some d" and "crc_sys_ok (od_crc s)"
    and "n = OTA_SIZE_UNKNOWN \<or> n \<le> oo_app_ota_size c"
    and "wm_ota_ops_begin env s (Some c) n = (WM_ERR_SUCCESS, s1, c1)"
    and "\<forall>b \<in> set bs. length b \<le> 65532" and "ota_writes env hw s1 c1 bs = (s2, c2)"
    and "wm_ota_ops_end env hw s2 c2 = (WM_ERR_SUCCESS, s3)"
  shows "\<exists>d' img. od_flash s3 = Some d' \<and> mem_slice (fd_mem d') (oo_app_ota_addr c) (length img) = img \<and>
    ota_image_ok hw c img \<and> length img \<le> oo_app_ota_size c \<and>
    (\<forall>x. x < oo_app_ota_addr c \<or> oo_app_ota_addr c + oo_app_ota_size c \<le> x \<longrightarrow> fd_mem d' x = fd_mem d x)"
proof -
  have ns: "n \<noteq> OTA_WITH_SEQUENTIAL_WRITES"
    using assms(5) ota_part_bounds(1) [OF assms(2)] by auto
  let ?c1 = "c\<lparr>oo_wrote_addr := oo_app_ota_addr c, oo_need_erase := 0\<rparr>"
  obtain b1: "c1 = Some ?c1" "ota_holds hw s1 ?c1 []" "outside_same c s s1"
    using wm_ota_ops_begin_ok [OF assms(1-4), of n] assms(5,6) ns by auto
  obtain c2' img where w: "c2 = Some c2'" "same_part ?c1 c2'" "ota_holds hw s2 c2' img" "outside_same ?c1 s1 s2"
    using ota_writes_holds [OF assms(1) b1(2) _ assms(7)] assms(8) b1(1) by auto
  obtain cs where e: "s3 = s2\<lparr>od_crc := cs\<rparr>" "img \<noteq> []"
    "oh_org_checksum (ota_header_of_bytes (take 64 img)) = ota_crc hw (drop 64 img)"
    using wm_ota_ops_end_ok [OF assms(1) w(3)] assms(9) w(1) by auto
  have ok: "ota_image_ok hw c img"
    using w(3) e(2,3) ota_image_ok_part [OF w(2), of hw img] by (simp add: ota_holds_def ota_image_ok_def [of hw c2'])
  obtain d' where d': "od_flash s2 = Some d'" "mem_slice (fd_mem d') (oo_app_ota_addr c) (length img) = img"
    "length img \<le> oo_app_ota_size c"
    using w(2,3) by (auto simp: ota_holds_def same_part_def)
  have "\<forall>x. x < oo_app_ota_addr c \<or> part_end c \<le> x \<longrightarrow> fd_mem d' x = fd_mem d x"
    using b1(3) w(4) d'(1) assms(3) by (auto simp: outside_same_def)
  with d' ok e(1) show ?thesis by (intro exI [of _ d'] exI [of _ img]) simp
qed

text \<open>The operations on the concrete device, driven by hand.\<close>

lemma demo_ops_run:
  "\<exists>s1 c1 s2 c2 s3. wm_ota_ops_begin demo_env demo_sys (Some demo_ops) 1000 = (WM_ERR_SUCCESS, s1, c1) \<and>
    ota_writes demo_env demo_hw s1 c1 [ota_pack demo_hw demo_ops (replicate 200 7)] = (s2, c2) \<and>
    wm_ota_ops_end demo_env demo_hw s2 c2 = (WM_ERR_SUCCESS, s3)"
proof -
  let ?img = "ota_pack demo_hw demo_ops (replicate 200 7)"
  let ?c = "demo_ops\<lparr>oo_wrote_addr := oo_app_ota_addr demo_ops, oo_need_erase := 0\<rparr>"
  have ok: "ota_image_ok demo_hw demo_ops ?img" "length ?img = 264"
    using ota_pack_ok [OF demo_ota_part, of "replicate 200 7" demo_hw] by (simp_all add: demo_ops_def)
  have "ota_image_ok demo_hw ?c ?img" using ok(1) by simp
  then have h: "ota_header_ok demo_hw ?c ?img" by (simp only: ota_image_ok_def)
  have sz: "oo_app_ota_size ?c = 0xAF000" by (simp add: demo_ops_def)
  obtain s1 where s1: "wm_ota_ops_begin demo_env demo_sys (Some demo_ops) 1000 = (WM_ERR_SUCCESS, s1, Some ?c)"
    "ota_holds demo_hw s1 ?c []"
    using wm_ota_ops_begin_ok [OF demo_ota_env demo_ota_part demo_run_sel(2), of 1000] sz by auto
  obtain ret s2 c2 where w: "wm_ota_ops_write demo_env demo_hw s1 (Some ?c) (Some ?img) (length ?img) = (ret, s2, Some c2)"
    "ota_holds demo_hw s2 c2 (if ret = WM_ERR_SUCCESS then [] @ ?img else [])" "ret = WM_ERR_SUCCESS"
    using wm_ota_ops_write_step [OF demo_ota_env s1(2), of ?img] ok(2) h sz by auto
  have "?img \<noteq> []" using ok(2) by auto
  then obtain s3 where "wm_ota_ops_end demo_env demo_hw s2 (Some c2) = (WM_ERR_SUCCESS, s3)"
    using wm_ota_ops_end_ok [OF demo_ota_env, of s2 c2 ?img] w(2,3) ok(1) by (auto simp: ota_image_ok_def)
  with s1(1) w(1) show ?thesis by auto
qed

theorem ota_end_accepts_checked_witness:
  "\<exists>s1 c1 s2 c2 s3 d' img. wm_ota_ops_begin demo_env demo_sys (Some demo_ops) 1000 = (WM_ERR_SUCCESS, s1, c1) \<and>
    ota_writes demo_env demo_hw s1 c1 [ota_pack demo_hw demo_ops (replicate 200 7)] = (s2, c2) \<and>
    wm_ota_ops_end demo_env demo_hw s2 c2 = (WM_ERR_SUCCESS, s3) \<and>
    od_flash s3 = Some d' \<and> mem_slice (fd_mem d') 0x131000 (length img) = img \<and> ota_image_ok demo_hw demo_ops img"
proof -
  obtain s1 c1 s2 c2 s3 where r: "wm_ota_ops_begin demo_env demo_sys (Some demo_ops) 1000 = (WM_ERR_SUCCESS, s1, c1)"
    "ota_writes demo_env demo_hw s1 c1 [ota_pack demo_hw demo_ops (replicate 200 7)] = (s2, c2)"
    "wm_ota_ops_end demo_env demo_hw s2 c2 = (WM_ERR_SUCCESS, s3)"
    using demo_ops_run by blast
  have len: "length (ota_pack demo_hw demo_ops (replicate 200 7)) = 264" and sz: "oo_app_ota_size demo_ops = 0xAF000"
    using ota_pack_ok(3) [OF demo_ota_part, of "replicate 200 7" demo_hw] by (simp_all add: demo_ops_def)
  obtain d' img where "od_flash s3 = Some d'" "mem_slice (fd_mem d') (oo_app_ota_addr demo_ops) (length img) = img"
    "ota_image_ok demo_hw demo_ops img"
    using ota_end_accepts_checked [OF demo_ota_env demo_ota_part demo_run_sel(2) _ _ r(1) _ r(2,3)] len sz by auto
  moreover have "oo_app_ota_addr demo_ops = 0x131000" by (simp add: demo_ops_def)
  ultimately show ?thesis using r by metis
qed

text \<open>C28. The reports tell the truth: whatever the callbacks do, when \<open>wm_ota_start\<close> returns
  success the last state of the context is \<open>DOWNLOADED\<close> (or \<open>UPGRADE_START\<close> when it went on to
  the reset) with progress 100, and when it returns an error it is one of the failure states.\<close>

theorem ota_reports_agree:
  assumes "wm_ota_start env hw cf False reboot a = Some (ret, b)" and "\<not> session_missing (or_ctx a)"
  shows "if ret = WM_ERR_SUCCESS
    then oc_status (or_ctx b) \<in> {WM_OTA_STATUS_DOWNLOADED, WM_OTA_STATUS_UPGRADE_START} \<and> oc_progress (or_ctx b) = 100
    else oc_status (or_ctx b) \<in> {WM_OTA_STATUS_CONNECTION_FAILED, WM_OTA_STATUS_DOWNLOAD_FAILED, WM_OTA_STATUS_ABORT}"
  using assms ota_retry_report [of env hw cf reboot _ _ "(ret, b)"]
  by (auto simp: wm_ota_start_def Let_def report_ok_def split: if_splits)

theorem ota_reports_agree_witness:
  "\<exists>a b. wm_ota_init demo_env demo_table False (demo_run [ota_pack demo_hw demo_ops (replicate 200 7)]) = Some (WM_ERR_SUCCESS, a) \<and>
    wm_ota_start demo_env demo_hw demo_conf False True a = Some (WM_ERR_SUCCESS, b) \<and> oc_progress (or_ctx b) = 100"
proof -
  obtain a b where ab: "wm_ota_init demo_env demo_table False (demo_run [ota_pack demo_hw demo_ops (replicate 200 7)]) = Some (WM_ERR_SUCCESS, a)"
    "wm_ota_start demo_env demo_hw demo_conf False True a = Some (WM_ERR_SUCCESS, b)"
    using demo_session [of 200 True] by auto
  have "\<not> session_missing (or_ctx a)"
    using ab(2) by (auto simp: wm_ota_start_def Let_def)
  from ota_reports_agree [OF ab(2) this] ab show ?thesis by auto
qed

text \<open>Connecting is bounded: the session tries until it is connected, at most one time more
  than \<open>CONFIG_OTA_SOCKET_RECONNECT_TIMES\<close>; it stops at the first success, and without one it
  has made every attempt.\<close>

theorem ota_connect_bounded:
  "\<exists>k \<le> cf_reconnect_times cf. ota_connect_loop cf 0 a = (ota_connect ^^ Suc k) a \<and>
    (\<forall>j < k. oc_conn_ret (or_ctx ((ota_connect ^^ Suc j) a)) \<noteq> WM_ERR_SUCCESS) \<and>
    (oc_conn_ret (or_ctx (ota_connect_loop cf 0 a)) = WM_ERR_SUCCESS \<or> k = cf_reconnect_times cf)"
  using ota_connect_loop_attempts [of 0 cf a] by auto

theorem ota_connect_bounded_witness:
  "\<exists>k \<le> 5. ota_connect_loop demo_conf 0 (demo_run []) = (ota_connect ^^ Suc k) (demo_run []) \<and>
    (oc_conn_ret (or_ctx (ota_connect_loop demo_conf 0 (demo_run []))) = WM_ERR_SUCCESS \<or> k = 5)"
  using ota_connect_bounded [of demo_conf "demo_run []"] by (auto simp: demo_conf_def)

section \<open>Two ways it goes wrong\<close>

text \<open>C26. In the sequential mode the end of the update can cost the neighbour a sector: when the
  last chunk starts inside a sector and ends exactly with \<open>app_ota\<close>, the erasure in front of it
  goes one sector too far, and the first sector of whatever lies behind the partition is blank
  after a write that reports success.\<close>

theorem ota_sequential_erases_neighbour:
  assumes "ota_env env hw" and "ota_holds hw s c img" and "od_flash s = Some d" and "oo_need_erase c \<noteq> 0"
    and "bs \<noteq> []" and "length bs \<le> 65532" and "oo_wrote_addr c mod 4096 \<noteq> 0"
    and "length img + length bs = oo_app_ota_size c"
    and "oo_app_ota_addr c + oo_app_ota_size c + 4096 \<le> fd_size d"
  shows "\<exists>s' c' d'. wm_ota_ops_write env hw s (Some c) (Some bs) (length bs) = (WM_ERR_SUCCESS, s', Some c') \<and>
    od_flash s' = Some d' \<and>
    (\<forall>x. oo_app_ota_addr c + oo_app_ota_size c \<le> x \<and> x < oo_app_ota_addr c + oo_app_ota_size c + 4096 \<longrightarrow>
       fd_mem d' x = 0xFF)"
proof -
  have p: "ota_part d c" "oo_wrote_addr c = oo_app_ota_addr c + length img" "oo_app_ota_addr c mod 4096 = 0"
    using assms(2,3) by (auto simp: ota_holds_def ota_part_def)
  have ne: "img \<noteq> []" using assms(7) p(2,3) by auto
  obtain a where a: "ota_write_erase env s c (length bs) = (WM_ERR_SUCCESS,
      s\<lparr>od_flash := Some (d\<lparr>fd_mem := erase_mem (fd_mem d) a (part_end c + 4096 - a)\<rparr>)\<rparr>)" "a \<le> part_end c"
    using ota_write_erase_behind [OF assms(1-3,5,7,8,9)] by blast
  let ?d = "d\<lparr>fd_mem := erase_mem (fd_mem d) a (part_end c + 4096 - a)\<rparr>"
  let ?s = "s\<lparr>od_flash := Some ?d\<rparr>"
  have er: "(if oo_need_erase c \<noteq> 0 then ota_write_erase env s c (length bs) else (WM_ERR_SUCCESS, s)) =
      (WM_ERR_SUCCESS, ?s)" using a(1) assms(4) by simp
  have room: "length img + length bs \<le> oo_app_ota_size c" using assms(8) by simp
  have h: "ota_holds hw ?s c img"
    using ota_erase_step [OF assms(1,2,5) room] er by auto
  obtain cs h' x where cr: "ota_write_crc env hw ?s c bs (length bs) = (WM_ERR_SUCCESS, ?s\<lparr>od_crc := cs\<rparr>,
      c\<lparr>oo_header := h', oo_crc_ctx := x\<rparr>)"
    using ota_write_crc_step [OF assms(1) h assms(5,6)] ne by auto
  have g: "flash_geom ?d" "part_end c \<le> fd_size ?d" "part_end c = oo_wrote_addr c + length bs"
    using p(1,2) assms(8) by (auto simp: ota_part_def)
  let ?m = "splice (fd_mem ?d) (oo_wrote_addr c) bs"
  have "\<forall>x. part_end c \<le> x \<and> x < part_end c + 4096 \<longrightarrow> ?m x = 0xFF"
    using a(2) g(3) by (auto simp: splice_def erase_mem_def)
  moreover have "wm_ota_ops_write env hw s (Some c) (Some bs) (length bs) = (WM_ERR_SUCCESS,
      ?s\<lparr>od_crc := cs, od_flash := Some (?d\<lparr>fd_mem := ?m\<rparr>)\<rparr>,
      Some (c\<lparr>oo_header := h', oo_crc_ctx := x, oo_wrote_addr := oo_wrote_addr c + length bs\<rparr>))"
    using wm_ota_ops_write_unfold [OF assms(1,2,5) room er cr _ g(1,2)] by simp
  ultimately show ?thesis
    by (intro exI [of _ "?s\<lparr>od_crc := cs, od_flash := Some (?d\<lparr>fd_mem := ?m\<rparr>)\<rparr>"]
        exI [of _ "c\<lparr>oo_header := h', oo_crc_ctx := x, oo_wrote_addr := oo_wrote_addr c + length bs\<rparr>"]
        exI [of _ "?d\<lparr>fd_mem := ?m\<rparr>"]) simp
qed

text \<open>A partition of one sector on a chip full of data, with the first 100 bytes of an image.\<close>

definition full_dev :: flash_dev where
  "full_dev = demo_ota_dev\<lparr>fd_mem := (\<lambda>_. 0x55)\<rparr>"

definition small_ops :: ota_ops_ctx where
  "small_ops = demo_ops\<lparr>oo_app_ota_size := 4096\<rparr>"

lemma small_part [simp]: "ota_part full_dev small_ops"
  unfolding ota_part_def by (simp add: small_ops_def full_dev_def demo_ops_def WM_FT_REGION_def) (simp add: demo_ota_dev_def)

text \<open>The state after the first chunk of an image, on a full chip.\<close>

lemma demo_first_chunk:
  assumes "ota_part full_dev c" and "ota_header_ok demo_hw c bs" and "length bs \<le> 65532"
    and "length bs \<le> oo_app_ota_size c"
  shows "\<exists>s2 c2 d. ota_holds demo_hw s2 c2 bs \<and> od_flash s2 = Some d \<and> fd_size d = 0x200000 \<and>
    oo_app_ota_addr c2 = oo_app_ota_addr c \<and> oo_app_ota_size c2 = oo_app_ota_size c \<and> oo_need_erase c2 = 0 \<and>
    (\<forall>x. part_end c \<le> x \<longrightarrow> fd_mem d x = 0x55)"
proof -
  let ?s = "demo_sys\<lparr>od_flash := Some full_dev\<rparr>"
  let ?c = "c\<lparr>oo_wrote_addr := oo_app_ota_addr c, oo_need_erase := 0\<rparr>"
  have f: "od_flash ?s = Some full_dev" by simp
  obtain s1 where s1: "ota_holds demo_hw s1 ?c []" "outside_same c ?s s1"
    using wm_ota_ops_begin_ok [OF demo_ota_env assms(1) f, of OTA_SIZE_UNKNOWN] by auto
  have ok: "ota_header_ok demo_hw ?c bs"
    using assms(2) by simp
  have ne: "bs \<noteq> []" using assms(2) by (auto simp: ota_header_ok_def)
  obtain ret s2 c2 where w: "same_part ?c c2" "ota_holds demo_hw s2 c2 (if ret = WM_ERR_SUCCESS then [] @ bs else [])"
    "outside_same ?c s1 s2" "ret = WM_ERR_SUCCESS"
    using wm_ota_ops_write_step [OF demo_ota_env s1(1) assms(3)] ok ne assms(4) by auto
  obtain d where d: "od_flash s2 = Some d" "fd_size d = fd_size full_dev"
    "\<forall>x. part_end c \<le> x \<longrightarrow> fd_mem d x = fd_mem full_dev x"
    using s1(2) w(3) f by (auto simp: outside_same_def)
  have "fd_size full_dev = 0x200000" "fd_mem full_dev x = 0x55" for x by (simp_all add: full_dev_def demo_ota_dev_def)
  with w d show ?thesis
    by (intro exI [of _ s2] exI [of _ c2] exI [of _ d]) (simp add: same_part_def)
qed

text \<open>An image of one sector, cut behind its first 100 bytes.\<close>

lemma small_image:
  "length (ota_pack demo_hw small_ops (replicate 4032 7)) = 4096"
  "ota_header_ok demo_hw small_ops (take 100 (ota_pack demo_hw small_ops (replicate 4032 7)))"
proof -
  let ?p = "ota_pack demo_hw small_ops (replicate 4032 7)"
  have p: "ota_image_ok demo_hw small_ops ?p" "length ?p = 4096"
    using ota_pack_ok [OF small_part, of "replicate 4032 7" demo_hw] by (simp_all add: small_ops_def)
  show "length ?p = 4096" by (rule p(2))
  have "ota_header_ok demo_hw small_ops (take 100 ?p @ drop 100 ?p)"
    using p(1) unfolding append_take_drop_id ota_image_ok_def by (rule conjunct1)
  moreover have "64 \<le> length (take 100 ?p)" using p(2) by simp
  ultimately show "ota_header_ok demo_hw small_ops (take 100 ?p)" by (simp only: ota_header_ok_append)
qed

theorem ota_sequential_erases_neighbour_witness:
  "\<exists>s c d bs s' c' d'. od_flash s = Some d \<and> fd_mem d 0x132000 = 0x55 \<and>
    wm_ota_ops_write demo_env demo_hw s (Some c) (Some bs) (length bs) = (WM_ERR_SUCCESS, s', Some c') \<and>
    oo_app_ota_addr c + oo_app_ota_size c = 0x132000 \<and>
    od_flash s' = Some d' \<and> fd_mem d' 0x132000 = 0xFF"
proof -
  define p where "p = ota_pack demo_hw small_ops (replicate 4032 7)"
  have p: "length p = 4096" "ota_header_ok demo_hw small_ops (take 100 p)"
    unfolding p_def by (rule small_image)+
  have sz: "oo_app_ota_size small_ops = 4096" "oo_app_ota_addr small_ops = 0x131000"
    by (simp_all add: small_ops_def demo_ops_def)
  obtain s c d where h: "ota_holds demo_hw s c (take 100 p)" "od_flash s = Some d" "fd_size d = 0x200000"
    "oo_app_ota_addr c = 0x131000" "oo_app_ota_size c = 4096" "\<forall>x. 0x132000 \<le> x \<longrightarrow> fd_mem d x = 0x55"
    using demo_first_chunk [OF small_part p(2)] p(1) sz by auto
  let ?c = "c\<lparr>oo_need_erase := 1\<rparr>"
  have sp: "wm_ota_ops_check_fields (?c\<lparr>oo_header := h\<rparr>) = wm_ota_ops_check_fields (c\<lparr>oo_header := h\<rparr>)" for h
    by (simp add: wm_ota_ops_check_fields_def Let_def)
  have e: "ota_holds demo_hw s ?c (take 100 p)"
    using h(1) sp by (simp add: ota_holds_def ota_header_ok_def ota_part_def)
  have w: "oo_wrote_addr ?c mod 4096 \<noteq> 0" using h(1,4) p(1) by (simp add: ota_holds_def)
  obtain s' c' d' where "wm_ota_ops_write demo_env demo_hw s (Some ?c) (Some (drop 100 p)) (length (drop 100 p)) = (WM_ERR_SUCCESS, s', Some c')"
    "od_flash s' = Some d'" "\<forall>x. 0x132000 \<le> x \<and> x < 0x133000 \<longrightarrow> fd_mem d' x = 0xFF"
    using ota_sequential_erases_neighbour [OF demo_ota_env e h(2) _ _ _ w, of "drop 100 p"] p(1) h(3-5) by auto
  with h(2,4-6) show ?thesis
    by (intro exI [of _ s] exI [of _ ?c] exI [of _ d] exI [of _ "drop 100 p"] exI [of _ s'] exI [of _ c'] exI [of _ d']) simp
qed

text \<open>C27. A chunk of more than 65532 bytes is installed without being checked: the checksum unit
  refuses it, the code of that call is not looked at, the bytes go to flash with success, and the
  final check gives the verdict it would have given without them.\<close>

theorem ota_long_chunk_unchecked:
  assumes "ota_env env hw" and "ota_holds hw s c img" and "img \<noteq> []" and "oo_need_erase c = 0"
    and "65532 < length bs" and "length img + length bs \<le> oo_app_ota_size c"
  shows "\<exists>s' c' d'. wm_ota_ops_write env hw s (Some c) (Some bs) (length bs) = (WM_ERR_SUCCESS, s', Some c') \<and>
    od_flash s' = Some d' \<and>
    mem_slice (fd_mem d') (oo_app_ota_addr c) (length img + length bs) = img @ bs \<and>
    fst (wm_ota_ops_end env hw s' (Some c')) = fst (wm_ota_ops_end env hw s (Some c))"
proof -
  obtain d where d: "od_flash s = Some d" "ota_part d c"
    "mem_slice (fd_mem d) (oo_app_ota_addr c) (length img) = img"
    using assms(2) by (auto simp: ota_holds_def)
  have w: "oo_wrote_addr c = oo_app_ota_addr c + length img" "crc_sys_ok (od_crc s)"
    using assms(2) by (auto simp: ota_holds_def)
  have e: "crc_hw_ok hw" "heap_ok env" using assms(1) by (auto simp: ota_env_def)
  have g: "flash_geom d" "part_end c \<le> fd_size d" using d(2) by (auto simp: ota_part_def)
  obtain cs where cs: "ota_write_crc env hw s c bs (length bs) = (WM_ERR_SUCCESS, s\<lparr>od_crc := cs\<rparr>, c)"
    "crc_sys_ok cs"
    using ota_write_crc_long [OF assms(1) w(2), of c bs] w(1) assms(3,5) by auto
  let ?d = "d\<lparr>fd_mem := splice (fd_mem d) (oo_wrote_addr c) bs\<rparr>"
  let ?s = "s\<lparr>od_crc := cs, od_flash := Some ?d\<rparr>"
  let ?c = "c\<lparr>oo_wrote_addr := oo_wrote_addr c + length bs\<rparr>"
  have er: "(if oo_need_erase c \<noteq> 0 then ota_write_erase env s c (length bs) else (WM_ERR_SUCCESS, s)) =
      (WM_ERR_SUCCESS, s)" using assms(4) by simp
  have ne: "bs \<noteq> []" using assms(5) by auto
  have wr: "wm_ota_ops_write env hw s (Some c) (Some bs) (length bs) = (WM_ERR_SUCCESS, ?s, Some ?c)"
    using wm_ota_ops_write_unfold [OF assms(1,2) ne assms(6) er cs(1) _ g] d(1) by simp
  have mem: "mem_slice (fd_mem ?d) (oo_app_ota_addr c) (length img + length bs) = img @ bs"
    using mem_slice_splice_behind [of "length img" img "fd_mem d" "oo_app_ota_addr c" bs] d(3) w(1) by simp
  obtain k1 where k1: "wm_drv_crc_init env hw (od_crc s) = (True, k1)"
    using wm_drv_crc_init_ok [OF e w(2)] by blast
  obtain k2 where k2: "wm_drv_crc_init env hw cs = (True, k2)"
    using wm_drv_crc_init_ok [OF e cs(2)] by blast
  have fin: "fst (wm_ota_ops_end env hw ?s (Some ?c)) = fst (wm_ota_ops_end env hw s (Some c))"
    using w(1) assms(3) by (simp add: wm_ota_ops_end_def k1 k2 Let_def)
  show ?thesis using wr mem fin
    by (intro exI [of _ ?s] exI [of _ ?c] exI [of _ ?d]) simp
qed

theorem ota_long_chunk_unchecked_witness:
  "\<exists>s c s' c' d'. wm_ota_ops_write demo_env demo_hw s (Some c) (Some (replicate 65536 0)) 65536 = (WM_ERR_SUCCESS, s', Some c') \<and>
    od_flash s' = Some d' \<and> mem_slice (fd_mem d') 0x131000 65600 =
      ota_pack demo_hw demo_ops [] @ replicate 65536 0 \<and>
    fst (wm_ota_ops_end demo_env demo_hw s' (Some c')) = fst (wm_ota_ops_end demo_env demo_hw s (Some c))"
proof -
  have part: "ota_part full_dev demo_ops"
    using demo_ota_part by (simp add: full_dev_def)
  define p where "p = ota_pack demo_hw demo_ops []"
  have p: "length p = 64" "ota_header_ok demo_hw demo_ops p"
    using ota_pack_ok [OF demo_ota_part, of "[]" demo_hw] by (simp_all add: p_def demo_ops_def ota_image_ok_def)
  have sz: "oo_app_ota_size demo_ops = 0xAF000" "oo_app_ota_addr demo_ops = 0x131000"
    by (simp_all add: demo_ops_def)
  obtain s c where h: "ota_holds demo_hw s c p" "oo_app_ota_addr c = 0x131000" "oo_app_ota_size c = 0xAF000"
    "oo_need_erase c = 0"
    using demo_first_chunk [OF part p(2)] p(1) sz by auto
  have ne: "p \<noteq> []" using p(1) by auto
  define z :: bytes where "z = replicate 65536 0"
  have z: "length z = 65536" by (simp add: z_def)
  show ?thesis
    using ota_long_chunk_unchecked [OF demo_ota_env h(1) ne h(4), of z] p(1) h(2,3) z
    unfolding z_def [symmetric] p_def [symmetric] by - (rule exI [of _ s], rule exI [of _ c], simp)
qed

end
