(* ===== verification/Osal.thy ===== *)
theory Osal
  imports Prelude
begin

text \<open>
  The message queues and counting semaphores of the operating system layer (\<open>wm_osal.c\<close>), as
  the event component uses them. The objects behind them are those of the real-time kernel, which
  is not part of the SDK's own code; what its documentation says of them is written here: a queue
  holds a bounded number of pointers, first in first out, sending does not wait, receiving waits
  for a message or returns at once, a semaphore counts. A pointer to a queue or semaphore is a
  number, and what happens with a null pointer or a deleted object is \<open>Fault\<close>.
\<close>

type_synonym ptr = "nat option"

text \<open>What a call comes to: it goes on, has to wait, or touches an object that is not there.\<close>

datatype 'a outcome = Steps 'a | Blocked | Fault

record os_sys =
  os_queues :: "nat \<Rightarrow> nat list option"
  os_sems :: "nat \<Rightarrow> nat option"
  os_next :: nat

definition os_empty :: os_sys where
  "os_empty = \<lparr>os_queues = (\<lambda>_. None), os_sems = (\<lambda>_. None), os_next = 0\<rparr>"

text \<open>The length of a queue: a length of 0 means 10.\<close>

definition os_queue_len :: "nat \<Rightarrow> nat" where
  "os_queue_len queue_size = (if queue_size \<noteq> 0 then queue_size else 10)"

text \<open>Creating takes memory; \<open>mem\<close> says whether there was any. The result is the code and the
  pointer, which is left as it was on failure.\<close>

definition wm_os_internal_queue_create :: "bool \<Rightarrow> ptr \<Rightarrow> os_sys \<Rightarrow> bool \<times> ptr \<times> os_sys" where
  "wm_os_internal_queue_create mem q s =
     (if \<not> mem then (False, q, s)
      else (True, Some (os_next s),
            s\<lparr>os_queues := (os_queues s)(os_next s := Some []), os_next := Suc (os_next s)\<rparr>))"

definition wm_os_internal_queue_delete :: "ptr \<Rightarrow> os_sys \<Rightarrow> os_sys outcome" where
  "wm_os_internal_queue_delete q s =
     (case q of
        None \<Rightarrow> Steps s
      | Some i \<Rightarrow> (case os_queues s i of
            None \<Rightarrow> Fault
          | Some _ \<Rightarrow> Steps (s\<lparr>os_queues := (os_queues s)(i := None)\<rparr>)))"

definition wm_os_internal_queue_send :: "nat \<Rightarrow> ptr \<Rightarrow> nat \<Rightarrow> os_sys \<Rightarrow> (bool \<times> os_sys) outcome" where
  "wm_os_internal_queue_send queue_size q msg s =
     (case q of
        None \<Rightarrow> Fault
      | Some i \<Rightarrow> (case os_queues s i of
            None \<Rightarrow> Fault
          | Some ps \<Rightarrow>
              if length ps < os_queue_len queue_size
              then Steps (True, s\<lparr>os_queues := (os_queues s)(i := Some (ps @ [msg]))\<rparr>)
              else Steps (False, s)))"

text \<open>\<open>Blocked\<close> is an empty queue: the caller waits, or with a wait time of 0 gets an error.\<close>

definition wm_os_internal_queue_receive :: "ptr \<Rightarrow> os_sys \<Rightarrow> (nat \<times> os_sys) outcome" where
  "wm_os_internal_queue_receive q s =
     (case q of
        None \<Rightarrow> Fault
      | Some i \<Rightarrow> (case os_queues s i of
            None \<Rightarrow> Fault
          | Some [] \<Rightarrow> Blocked
          | Some (p # ps) \<Rightarrow> Steps (p, s\<lparr>os_queues := (os_queues s)(i := Some ps)\<rparr>)))"

definition wm_os_internal_sem_create :: "bool \<Rightarrow> nat \<Rightarrow> os_sys \<Rightarrow> bool \<times> ptr \<times> os_sys" where
  "wm_os_internal_sem_create mem cnt s =
     (if \<not> mem then (False, None, s)
      else (True, Some (os_next s),
            s\<lparr>os_sems := (os_sems s)(os_next s := Some cnt), os_next := Suc (os_next s)\<rparr>))"

definition wm_os_internal_sem_delete :: "ptr \<Rightarrow> os_sys \<Rightarrow> os_sys outcome" where
  "wm_os_internal_sem_delete sem s =
     (case sem of
        None \<Rightarrow> Fault
      | Some i \<Rightarrow> (case os_sems s i of
            None \<Rightarrow> Fault
          | Some _ \<Rightarrow> Steps (s\<lparr>os_sems := (os_sems s)(i := None)\<rparr>)))"

definition wm_os_internal_sem_acquire :: "ptr \<Rightarrow> os_sys \<Rightarrow> os_sys outcome" where
  "wm_os_internal_sem_acquire sem s =
     (case sem of
        None \<Rightarrow> Fault
      | Some i \<Rightarrow> (case os_sems s i of
            None \<Rightarrow> Fault
          | Some 0 \<Rightarrow> Blocked
          | Some (Suc n) \<Rightarrow> Steps (s\<lparr>os_sems := (os_sems s)(i := Some n)\<rparr>)))"

definition wm_os_internal_sem_release :: "ptr \<Rightarrow> os_sys \<Rightarrow> os_sys outcome" where
  "wm_os_internal_sem_release sem s =
     (case sem of
        None \<Rightarrow> Fault
      | Some i \<Rightarrow> (case os_sems s i of
            None \<Rightarrow> Fault
          | Some n \<Rightarrow> Steps (s\<lparr>os_sems := (os_sems s)(i := Some (Suc n))\<rparr>)))"

lemmas os_defs = wm_os_internal_queue_create_def wm_os_internal_queue_delete_def
  wm_os_internal_queue_send_def wm_os_internal_queue_receive_def wm_os_internal_sem_create_def
  wm_os_internal_sem_delete_def wm_os_internal_sem_acquire_def wm_os_internal_sem_release_def

end
