(* ===== verification/Event.thy ===== *)
theory Event
  imports Osal
begin

text \<open>
  The event component (\<open>wm_event.c\<close>): one task owns the list of callbacks, and every call of the
  interface is a message in its queue. The task, the callers and the exit protocol between them
  are small steps, cut where the C code touches state it shares with another task: testing
  \<open>g_ev_queue\<close>, reading it again for the send, and the send itself are three steps of a caller. A
  callback runs inside the step that handles its message: it sees nothing of the list, which
  only the event task touches, and what it sends is queued behind. \<open>wm_event_init\<close> runs at
  start-up and is one step.
\<close>

section \<open>Data\<close>

datatype ev_status = WM_EV_ST_NOT_INIT | WM_EV_ST_INITED

datatype ev_op = MSG_ADD | MSG_REMOVE | MSG_EXIT | MSG_EVENT

text \<open>Group names are compared by address; \<open>WM_EVENT_ANY_GROUP\<close> is the null pointer.\<close>

record cb_item =
  ci_callback :: ptr
  ci_group :: ptr
  ci_ev :: int
  ci_priv :: ptr

text \<open>A message. The data lie behind the header, the two uses of the union have fields of their
  own.\<close>

record ev_header =
  eh_op :: ev_op
  eh_group :: ptr
  eh_ev :: int
  eh_data :: "bytes option"
  eh_size :: nat
  eh_cb :: ptr
  eh_priv :: ptr

abbreviation (input) WM_EVENT_ANY_GROUP :: ptr where "WM_EVENT_ANY_GROUP \<equiv> None"
abbreviation (input) WM_EVENT_ANY_TYPE :: int where "WM_EVENT_ANY_TYPE \<equiv> -1"
abbreviation (input) CB_ITEM_SIZE :: nat where "CB_ITEM_SIZE \<equiv> 24"
abbreviation (input) EV_HEADER_SIZE :: nat where "EV_HEADER_SIZE \<equiv> 20"

text \<open>Where the event task is: at its loop condition, in the receive on a queue, before it takes
  the queue away, emptying it, deleting it. The pointers are its locals \<open>tmp_queue\<close> and
  \<open>sync_sem_new\<close>.\<close>

datatype ev_task =
    TaskLoop
  | TaskWait ptr
  | TaskStop ptr
  | TaskClear ptr ptr
  | TaskDelete ptr ptr

text \<open>Where a call is: its message is made, the queue was tested, the queue was read, it waits
  for the semaphore of the exit, it is about to return from \<open>wm_event_deinit\<close>.\<close>

datatype ev_kind = CallSend | CallDeinit ptr

datatype ev_caller =
    CallerNew ev_kind nat
  | CallerTested ev_kind nat
  | CallerLoaded ev_kind nat ptr
  | CallerWait ptr
  | CallerEnd ptr int

text \<open>A callback run: the callback, the group, the event, the data, the user's pointer.\<close>

type_synonym ev_call = "ptr \<times> ptr \<times> int \<times> bytes option \<times> ptr"

text \<open>The globals, the operating system, the live messages, the tasks and calls in progress,
  and what an observer saw: messages accepted by the queue and taken from it, callbacks run,
  codes returned.\<close>

record ev_sys =
  es_status :: ev_status
  es_queue :: ptr
  es_list :: "cb_item list"
  es_os :: os_sys
  es_heap :: "nat \<Rightarrow> ev_header option"
  es_brk :: nat
  es_tasks :: "ev_task list"
  es_callers :: "ev_caller list"
  es_accepted :: "ev_header list"
  es_received :: "ev_header list"
  es_called :: "ev_call list"
  es_returned :: "int list"

definition ev_start :: ev_sys where
  "ev_start = \<lparr>es_status = WM_EV_ST_NOT_INIT, es_queue = None, es_list = [], es_os = os_empty,
     es_heap = (\<lambda>_. None), es_brk = 0, es_tasks = [], es_callers = [], es_accepted = [],
     es_received = [], es_called = [], es_returned = []\<rparr>"

section \<open>The event task\<close>

definition ev_match :: "ev_header \<Rightarrow> cb_item \<Rightarrow> bool" where
  "ev_match ev entry \<longleftrightarrow>
     (ci_group entry = WM_EVENT_ANY_GROUP \<or> ci_group entry = eh_group ev) \<and>
     (ci_ev entry = WM_EVENT_ANY_TYPE \<or> ci_ev entry = eh_ev ev)"

definition ev_run_callback :: "ev_header \<Rightarrow> cb_item \<Rightarrow> ev_call" where
  "ev_run_callback ev entry = (ci_callback entry, eh_group ev, eh_ev ev, eh_data ev, ci_priv entry)"

definition ev_same :: "ev_header \<Rightarrow> cb_item \<Rightarrow> bool" where
  "ev_same ev entry \<longleftrightarrow> ci_group entry = eh_group ev \<and> ci_callback entry = eh_cb ev \<and>
     ci_ev entry = eh_ev ev \<and> ci_priv entry = eh_priv ev"

fun ev_remove_first :: "ev_header \<Rightarrow> cb_item list \<Rightarrow> cb_item list" where
  "ev_remove_first ev [] = []"
| "ev_remove_first ev (entry # es) = (if ev_same ev entry then es else entry # ev_remove_first ev es)"

definition wm_event_proc :: "env \<Rightarrow> ev_header \<Rightarrow> ev_sys \<Rightarrow> ev_sys" where
  "wm_event_proc env ev s =
     (case eh_op ev of
        MSG_EVENT \<Rightarrow>
          s\<lparr>es_called := es_called s @ map (ev_run_callback ev) (filter (ev_match ev) (es_list s))\<rparr>
      | MSG_ADD \<Rightarrow>
          if \<exists>entry \<in> set (es_list s). ev_same ev entry then s
          else if \<not> alloc_ok env CB_ITEM_SIZE then s
          else s\<lparr>es_list := es_list s @
                 [\<lparr>ci_callback = eh_cb ev, ci_group = eh_group ev, ci_ev = eh_ev ev, ci_priv = eh_priv ev\<rparr>]\<rparr>
      | MSG_REMOVE \<Rightarrow> s\<lparr>es_list := ev_remove_first ev (es_list s)\<rparr>
      | MSG_EXIT \<Rightarrow> s\<lparr>es_list := []\<rparr>)"

definition ev_free :: "nat \<Rightarrow> ev_sys \<Rightarrow> ev_sys outcome" where
  "ev_free p s =
     (case es_heap s p of
        None \<Rightarrow> Fault
      | Some _ \<Rightarrow> Steps (s\<lparr>es_heap := (es_heap s)(p := None)\<rparr>))"

text \<open>One step of \<open>wm_event_task\<close>; no task in the result is one that deleted itself.\<close>

definition ev_task_step :: "env \<Rightarrow> ev_task \<Rightarrow> ev_sys \<Rightarrow> (ev_task option \<times> ev_sys) outcome" where
  "ev_task_step env t s =
     (case t of
        TaskLoop \<Rightarrow>
          Steps (Some (if es_status s = WM_EV_ST_INITED then TaskWait (es_queue s) else TaskStop None), s)
      | TaskWait q \<Rightarrow>
          (case wm_os_internal_queue_receive q (es_os s) of
             Fault \<Rightarrow> Fault
           | Blocked \<Rightarrow> Blocked
           | Steps (p, os) \<Rightarrow>
               (case es_heap s p of
                  None \<Rightarrow> Fault
                | Some ev \<Rightarrow>
                    let s = s\<lparr>es_os := os, es_received := es_received s @ [ev]\<rparr>;
                        s = wm_event_proc env ev s
                    in case ev_free p s of
                         Fault \<Rightarrow> Fault
                       | Blocked \<Rightarrow> Blocked
                       | Steps s \<Rightarrow>
                           Steps (Some (if eh_op ev = MSG_EXIT then TaskStop (eh_priv ev) else TaskLoop), s)))
      | TaskStop sem \<Rightarrow> Steps (Some (TaskClear (es_queue s) sem), s\<lparr>es_queue := None\<rparr>)
      | TaskClear q sem \<Rightarrow>
          (case wm_os_internal_queue_receive q (es_os s) of
             Fault \<Rightarrow> Fault
           | Blocked \<Rightarrow> Steps (Some (TaskDelete q sem), s)
           | Steps (p, os) \<Rightarrow>
               (case ev_free p (s\<lparr>es_os := os\<rparr>) of
                  Fault \<Rightarrow> Fault
                | Blocked \<Rightarrow> Blocked
                | Steps s \<Rightarrow> Steps (Some (TaskClear q sem), s)))
      | TaskDelete q sem \<Rightarrow>
          (case wm_os_internal_queue_delete q (es_os s) of
             Fault \<Rightarrow> Fault
           | Blocked \<Rightarrow> Blocked
           | Steps os \<Rightarrow>
               if sem = None then Steps (None, s\<lparr>es_os := os\<rparr>)
               else (case wm_os_internal_sem_release sem os of
                       Fault \<Rightarrow> Fault
                     | Blocked \<Rightarrow> Blocked
                     | Steps os \<Rightarrow> Steps (None, s\<lparr>es_os := os\<rparr>))))"

section \<open>The callers\<close>

text \<open>A call begins: a code at once, or a caller with its message.\<close>

definition ev_new_message :: "env \<Rightarrow> nat \<Rightarrow> ev_header \<Rightarrow> ev_kind \<Rightarrow> ev_sys \<Rightarrow> (int + ev_caller) \<times> ev_sys"
where
  "ev_new_message env len ev k s =
     (if \<not> alloc_ok env len then (Inl WM_ERR_NO_MEM, s)
      else (Inr (CallerNew k (es_brk s)),
            s\<lparr>es_heap := (es_heap s)(es_brk s := Some ev), es_brk := Suc (es_brk s)\<rparr>))"

definition wm_event_send_internal_ev ::
  "env \<Rightarrow> ev_op \<Rightarrow> ptr \<Rightarrow> int \<Rightarrow> ptr \<Rightarrow> ptr \<Rightarrow> ev_kind \<Rightarrow> ev_sys \<Rightarrow> (int + ev_caller) \<times> ev_sys" where
  "wm_event_send_internal_ev env op grp event cb priv k s =
     (if (op = MSG_ADD \<or> op = MSG_REMOVE) \<and> cb = None then (Inl WM_ERR_INVALID_PARAM, s)
      else ev_new_message env EV_HEADER_SIZE
             \<lparr>eh_op = op, eh_group = grp, eh_ev = event, eh_data = None, eh_size = 0,
              eh_cb = cb, eh_priv = priv\<rparr> k s)"

definition wm_event_add_callback ::
  "env \<Rightarrow> ptr \<Rightarrow> int \<Rightarrow> ptr \<Rightarrow> ptr \<Rightarrow> ev_sys \<Rightarrow> (int + ev_caller) \<times> ev_sys" where
  "wm_event_add_callback env grp event callback priv s =
     wm_event_send_internal_ev env MSG_ADD grp event callback priv CallSend s"

definition wm_event_remove_callback ::
  "env \<Rightarrow> ptr \<Rightarrow> int \<Rightarrow> ptr \<Rightarrow> ptr \<Rightarrow> ev_sys \<Rightarrow> (int + ev_caller) \<times> ev_sys" where
  "wm_event_remove_callback env grp event callback priv s =
     wm_event_send_internal_ev env MSG_REMOVE grp event callback priv CallSend s"

definition wm_event_send ::
  "env \<Rightarrow> ptr \<Rightarrow> int \<Rightarrow> bytes option \<Rightarrow> nat \<Rightarrow> ev_sys \<Rightarrow> (int + ev_caller) \<times> ev_sys" where
  "wm_event_send env grp event data len s =
     (if grp = None \<or> (data = None \<and> len > 0) \<or> (data \<noteq> None \<and> len = 0)
      then (Inl WM_ERR_INVALID_PARAM, s)
      else ev_new_message env (EV_HEADER_SIZE + (if data \<noteq> None then len else 0))
             \<lparr>eh_op = MSG_EVENT, eh_group = grp, eh_ev = event,
              eh_data = map_option (take len) data, eh_size = (if data \<noteq> None then len else 0),
              eh_cb = None, eh_priv = None\<rparr> CallSend s)"

text \<open>\<open>wm_event_deinit\<close> up to its message; \<open>mem\<close> is the memory for its semaphore.\<close>

definition wm_event_deinit :: "env \<Rightarrow> bool \<Rightarrow> ev_sys \<Rightarrow> (int + ev_caller) \<times> ev_sys" where
  "wm_event_deinit env mem s =
     (if es_status s \<noteq> WM_EV_ST_INITED then (Inl WM_ERR_FAILED, s)
      else
        let (_, sem, os) = wm_os_internal_sem_create mem 0 (es_os s);
            (r, s) = wm_event_send_internal_ev env MSG_EXIT WM_EVENT_ANY_GROUP (-1) None sem
                       (CallDeinit sem) (s\<lparr>es_os := os\<rparr>)
        in case r of
             Inl _ \<Rightarrow> (Inr (CallerEnd sem WM_ERR_FAILED), s)
           | Inr c \<Rightarrow> (Inr c, s))"

text \<open>A call whose message was not sent.\<close>

definition ev_send_failed :: "ev_kind \<Rightarrow> nat \<Rightarrow> ev_sys \<Rightarrow> ((int + ev_caller) \<times> ev_sys) outcome" where
  "ev_send_failed k p s =
     (case ev_free p s of
        Fault \<Rightarrow> Fault
      | Blocked \<Rightarrow> Blocked
      | Steps s \<Rightarrow>
          (case k of
             CallSend \<Rightarrow> Steps (Inl WM_ERR_FAILED, s)
           | CallDeinit sem \<Rightarrow> Steps (Inr (CallerEnd sem WM_ERR_FAILED), s)))"

definition ev_caller_step ::
  "nat \<Rightarrow> ev_caller \<Rightarrow> ev_sys \<Rightarrow> ((int + ev_caller) \<times> ev_sys) outcome" where
  "ev_caller_step qsize c s =
     (case c of
        CallerNew k p \<Rightarrow>
          if es_queue s = None then ev_send_failed k p s else Steps (Inr (CallerTested k p), s)
      | CallerTested k p \<Rightarrow> Steps (Inr (CallerLoaded k p (es_queue s)), s)
      | CallerLoaded k p q \<Rightarrow>
          (case wm_os_internal_queue_send qsize q p (es_os s) of
             Fault \<Rightarrow> Fault
           | Blocked \<Rightarrow> Blocked
           | Steps (ok, os) \<Rightarrow>
               if \<not> ok then ev_send_failed k p s
               else
                 let s = s\<lparr>es_os := os, es_accepted := es_accepted s @ [the (es_heap s p)]\<rparr>
                 in case k of
                      CallSend \<Rightarrow> Steps (Inl WM_ERR_SUCCESS, s)
                    | CallDeinit sem \<Rightarrow> Steps (Inr (CallerWait sem), s))
      | CallerWait sem \<Rightarrow>
          (case wm_os_internal_sem_acquire sem (es_os s) of
             Fault \<Rightarrow> Fault
           | Blocked \<Rightarrow> Blocked
           | Steps os \<Rightarrow> Steps (Inr (CallerEnd sem WM_ERR_SUCCESS), s\<lparr>es_os := os\<rparr>))
      | CallerEnd sem ret \<Rightarrow>
          (case wm_os_internal_sem_delete sem (es_os s) of
             Fault \<Rightarrow> Fault
           | Blocked \<Rightarrow> Blocked
           | Steps os \<Rightarrow> Steps (Inl ret, s\<lparr>es_os := os, es_status := WM_EV_ST_NOT_INIT\<rparr>)))"

section \<open>Start\<close>

text \<open>\<open>mem\<close> is the memory for the queue, \<open>task\<close> whether the task could be created.\<close>

definition wm_event_init :: "bool \<Rightarrow> bool \<Rightarrow> ev_sys \<Rightarrow> (int \<times> ev_sys) outcome" where
  "wm_event_init mem task s =
     (if es_status s = WM_EV_ST_INITED then Steps (WM_ERR_ALREADY_INITED, s)
      else
        let s = s\<lparr>es_status := WM_EV_ST_INITED\<rparr>;
            (ok, q, os) = wm_os_internal_queue_create mem (es_queue s) (es_os s)
        in if \<not> ok then Steps (WM_ERR_FAILED, s)
           else
             let s = s\<lparr>es_queue := q, es_os := os, es_list := []\<rparr>
             in if task then Steps (WM_ERR_SUCCESS, s\<lparr>es_tasks := es_tasks s @ [TaskLoop]\<rparr>)
                else
                  case wm_os_internal_queue_delete q os of
                    Fault \<Rightarrow> Fault
                  | Blocked \<Rightarrow> Blocked
                  | Steps os \<Rightarrow> Steps (WM_ERR_FAILED, s\<lparr>es_os := os, es_status := WM_EV_ST_NOT_INIT\<rparr>))"

section \<open>Runs\<close>

text \<open>What can happen next: a call of the interface begins, or a caller or task goes on.\<close>

datatype ev_act =
    ActInit bool bool
  | ActDeinit bool
  | ActSend ptr int "bytes option" nat
  | ActAdd ptr int ptr ptr
  | ActRemove ptr int ptr ptr
  | ActCaller nat
  | ActTask nat

definition ev_return :: "int \<Rightarrow> ev_sys \<Rightarrow> ev_sys" where
  "ev_return r s = s\<lparr>es_returned := es_returned s @ [r]\<rparr>"

definition ev_enter :: "(int + ev_caller) \<times> ev_sys \<Rightarrow> ev_sys" where
  "ev_enter x =
     (case x of
        (Inl r, s) \<Rightarrow> ev_return r s
      | (Inr c, s) \<Rightarrow> s\<lparr>es_callers := es_callers s @ [c]\<rparr>)"

definition drop_nth :: "nat \<Rightarrow> 'a list \<Rightarrow> 'a list" where
  "drop_nth i xs = take i xs @ drop (Suc i) xs"

definition ev_do :: "env \<Rightarrow> nat \<Rightarrow> ev_act \<Rightarrow> ev_sys \<Rightarrow> ev_sys outcome" where
  "ev_do env qsize a s =
     (case a of
        ActInit mem task \<Rightarrow>
          (case wm_event_init mem task s of
             Fault \<Rightarrow> Fault | Blocked \<Rightarrow> Blocked | Steps (r, s) \<Rightarrow> Steps (ev_return r s))
      | ActDeinit mem \<Rightarrow> Steps (ev_enter (wm_event_deinit env mem s))
      | ActSend grp event data len \<Rightarrow> Steps (ev_enter (wm_event_send env grp event data len s))
      | ActAdd grp event cb priv \<Rightarrow> Steps (ev_enter (wm_event_add_callback env grp event cb priv s))
      | ActRemove grp event cb priv \<Rightarrow>
          Steps (ev_enter (wm_event_remove_callback env grp event cb priv s))
      | ActCaller i \<Rightarrow>
          if i \<ge> length (es_callers s) then Blocked
          else (case ev_caller_step qsize (es_callers s ! i) s of
                  Fault \<Rightarrow> Fault
                | Blocked \<Rightarrow> Blocked
                | Steps (Inl r, s) \<Rightarrow> Steps (ev_return r (s\<lparr>es_callers := drop_nth i (es_callers s)\<rparr>))
                | Steps (Inr c, s) \<Rightarrow> Steps (s\<lparr>es_callers := (es_callers s)[i := c]\<rparr>))
      | ActTask i \<Rightarrow>
          if i \<ge> length (es_tasks s) then Blocked
          else (case ev_task_step env (es_tasks s ! i) s of
                  Fault \<Rightarrow> Fault
                | Blocked \<Rightarrow> Blocked
                | Steps (None, s) \<Rightarrow> Steps (s\<lparr>es_tasks := drop_nth i (es_tasks s)\<rparr>)
                | Steps (Some t, s) \<Rightarrow> Steps (s\<lparr>es_tasks := (es_tasks s)[i := t]\<rparr>)))"

text \<open>States reached with actions of a kind, and the run of a list of actions.\<close>

inductive ev_reach :: "env \<Rightarrow> nat \<Rightarrow> (ev_act \<Rightarrow> bool) \<Rightarrow> ev_sys \<Rightarrow> ev_sys \<Rightarrow> bool"
  for env qsize P s0 where
  ev_reach_start: "ev_reach env qsize P s0 s0"
| ev_reach_step: "ev_reach env qsize P s0 s \<Longrightarrow> P a \<Longrightarrow> ev_do env qsize a s = Steps s' \<Longrightarrow>
    ev_reach env qsize P s0 s'"

fun ev_runs :: "env \<Rightarrow> nat \<Rightarrow> ev_act list \<Rightarrow> ev_sys \<Rightarrow> ev_sys outcome" where
  "ev_runs env qsize [] s = Steps s"
| "ev_runs env qsize (a # as') s =
     (case ev_do env qsize a s of
        Fault \<Rightarrow> Fault | Blocked \<Rightarrow> Blocked | Steps s \<Rightarrow> ev_runs env qsize as' s)"

end
