(* ===== verification/EventSpec.thy ===== *)
theory EventSpec
  imports Event
begin

text \<open>
  What holds in every run of the event component without \<open>wm_event_deinit\<close>: who owns which
  message, that the task takes the messages in the order the queue accepted them, and which
  callbacks are in the list after them. Then the exit protocol, phase by phase.
\<close>

section \<open>Owners of messages\<close>

text \<open>The messages a call holds, those in the queue, and all with an owner.\<close>

fun ev_owned :: "ev_caller \<Rightarrow> nat list" where
  "ev_owned (CallerNew k p) = [p]"
| "ev_owned (CallerTested k p) = [p]"
| "ev_owned (CallerLoaded k p q) = [p]"
| "ev_owned _ = []"

definition ev_pending :: "ev_sys \<Rightarrow> nat list" where
  "ev_pending s = (case es_queue s of None \<Rightarrow> []
     | Some i \<Rightarrow> (case os_queues (es_os s) i of None \<Rightarrow> [] | Some ps \<Rightarrow> ps))"

definition ev_owners :: "ev_sys \<Rightarrow> nat list" where
  "ev_owners s = ev_pending s @ concat (map ev_owned (es_callers s))"

definition ev_heap_ok :: "ev_sys \<Rightarrow> bool" where
  "ev_heap_ok s \<longleftrightarrow> distinct (ev_owners s) \<and> set (ev_owners s) = dom (es_heap s) \<and>
     (\<forall>p \<in> dom (es_heap s). p < es_brk s)"

text \<open>A call of the interface other than the exit, over the queue \<open>q\<close>.\<close>

fun plain_caller :: "ptr \<Rightarrow> ev_caller \<Rightarrow> bool" where
  "plain_caller q (CallerNew k p) \<longleftrightarrow> k = CallSend"
| "plain_caller q (CallerTested k p) \<longleftrightarrow> k = CallSend \<and> q \<noteq> None"
| "plain_caller q (CallerLoaded k p q') \<longleftrightarrow> k = CallSend \<and> q \<noteq> None \<and> q' = q"
| "plain_caller q _ \<longleftrightarrow> False"

definition ev_idle :: "ev_sys \<Rightarrow> bool" where
  "ev_idle s \<longleftrightarrow> es_queue s = None \<and> es_tasks s = [] \<and> es_accepted s = [] \<and> es_received s = [] \<and>
     es_called s = [] \<and> es_list s = []"

definition ev_running :: "ev_sys \<Rightarrow> bool" where
  "ev_running s \<longleftrightarrow> es_status s = WM_EV_ST_INITED \<and>
     (\<exists>i ps. es_queue s = Some i \<and> os_queues (es_os s) i = Some ps \<and>
        (es_tasks s = [TaskLoop] \<or> es_tasks s = [TaskWait (Some i)]) \<and>
        es_accepted s = es_received s @ map (the \<circ> es_heap s) ps)"

definition ev_no_exit :: "ev_sys \<Rightarrow> bool" where
  "ev_no_exit s \<longleftrightarrow> (\<forall>p ev. es_heap s p = Some ev \<longrightarrow> eh_op ev \<noteq> MSG_EXIT)"

definition ev_ok :: "ev_sys \<Rightarrow> bool" where
  "ev_ok s \<longleftrightarrow> ev_heap_ok s \<and> (ev_idle s \<or> ev_running s) \<and> ev_no_exit s \<and>
     (\<forall>c \<in> set (es_callers s). plain_caller (es_queue s) c)"

text \<open>The actions of a run without exit, in which the task could be created.\<close>

fun ev_plain :: "ev_act \<Rightarrow> bool" where
  "ev_plain (ActDeinit _) \<longleftrightarrow> False"
| "ev_plain (ActInit _ task) \<longleftrightarrow> task"
| "ev_plain _ \<longleftrightarrow> True"

section \<open>Lists with one place in focus\<close>

lemma concat_focus:
  assumes "i < length xs"
  obtains ls rs where "concat (map f xs) = ls @ f (xs ! i) @ rs" and "concat (map f (drop_nth i xs)) = ls @ rs"
    and "\<And>y. concat (map f (xs[i := y])) = ls @ f y @ rs"
proof (rule that)
  have "concat (map f xs) = concat (map f (take i xs @ xs ! i # drop (Suc i) xs))"
    using assms by (simp only: id_take_nth_drop [symmetric])
  then show "concat (map f xs) = concat (map f (take i xs)) @ f (xs ! i) @ concat (map f (drop (Suc i) xs))"
    by simp
qed (use assms in \<open>simp_all add: drop_nth_def upd_conv_take_nth_drop\<close>)

lemma set_drop_nth: "set (drop_nth i xs) \<subseteq> set xs"
  using set_take_subset [of i xs] set_drop_subset [of "Suc i" xs] by (auto simp: drop_nth_def)

section \<open>Processing a message\<close>

lemma proc_sel [simp]:
  "es_status (wm_event_proc env ev s) = es_status s" "es_queue (wm_event_proc env ev s) = es_queue s"
  "es_os (wm_event_proc env ev s) = es_os s" "es_heap (wm_event_proc env ev s) = es_heap s"
  "es_brk (wm_event_proc env ev s) = es_brk s" "es_tasks (wm_event_proc env ev s) = es_tasks s"
  "es_callers (wm_event_proc env ev s) = es_callers s" "es_accepted (wm_event_proc env ev s) = es_accepted s"
  "es_received (wm_event_proc env ev s) = es_received s" "es_returned (wm_event_proc env ev s) = es_returned s"
  by (simp_all add: wm_event_proc_def split: ev_op.split)

lemma proc_exit_list [simp]: "eh_op ev = MSG_EXIT \<Longrightarrow> es_list (wm_event_proc env ev s) = []"
  by (simp add: wm_event_proc_def)

section \<open>Every step keeps it\<close>

lemma ev_pending_simps [simp]:
  "es_queue s = None \<Longrightarrow> ev_pending s = []"
  "es_queue s = Some i \<Longrightarrow> os_queues (es_os s) i = Some ps \<Longrightarrow> ev_pending s = ps"
  by (simp_all add: ev_pending_def)

lemmas ev_ok_defs = ev_ok_def ev_heap_ok_def ev_no_exit_def ev_owners_def

lemma ev_ok_start: "ev_ok ev_start"
  by (simp add: ev_ok_defs ev_idle_def ev_start_def)

lemma ev_pending_cong:
  "es_queue s' = es_queue s \<Longrightarrow> es_os s' = es_os s \<Longrightarrow> ev_pending s' = ev_pending s"
  by (simp add: ev_pending_def split: option.split)

lemma ev_ok_return [simp]: "ev_ok (ev_return r s) = ev_ok s"
  using ev_pending_cong [of "ev_return r s" s]
  by (simp add: ev_return_def ev_ok_defs ev_idle_def ev_running_def)

text \<open>A call that begins has a fresh message of its own.\<close>

lemma ev_ok_new:
  assumes "ev_ok s" and "eh_op ev \<noteq> MSG_EXIT"
  shows "ev_ok (ev_enter (ev_new_message env len ev CallSend s))"
proof (cases "alloc_ok env len")
  case False
  then show ?thesis using assms by (simp add: ev_new_message_def ev_enter_def)
next
  case True
  let ?s = "s\<lparr>es_heap := (es_heap s)(es_brk s := Some ev), es_brk := Suc (es_brk s),
    es_callers := es_callers s @ [CallerNew CallSend (es_brk s)]\<rparr>"
  have fresh: "es_brk s \<notin> dom (es_heap s)" "es_brk s \<notin> set (ev_owners s)"
    using assms(1) by (auto simp: ev_ok_def ev_heap_ok_def)
  have pend: "ev_pending ?s = ev_pending s" by (rule ev_pending_cong) simp_all
  have "map (the \<circ> (es_heap s)(es_brk s := Some ev)) ps = map (the \<circ> es_heap s) ps"
    if "es_queue s = Some i" "os_queues (es_os s) i = Some ps" for i ps
    using fresh(2) that by (auto simp: ev_owners_def)
  then have "ev_running ?s" if "ev_running s" using that by (auto simp: ev_running_def)
  moreover have "ev_idle ?s" if "ev_idle s" using that by (simp add: ev_idle_def)
  ultimately have "ev_idle ?s \<or> ev_running ?s" using assms(1) by (auto simp: ev_ok_def)
  moreover have "ev_heap_ok ?s"
    using assms(1) fresh pend by (auto simp: ev_ok_def ev_heap_ok_def ev_owners_def less_Suc_eq)
  moreover have "ev_no_exit ?s" using assms by (auto simp: ev_ok_def ev_no_exit_def)
  ultimately have "ev_ok ?s" using assms(1) by (simp add: ev_ok_def)
  then show ?thesis using True by (simp add: ev_new_message_def ev_enter_def)
qed

lemma ev_ok_internal:
  assumes "ev_ok s" and "op \<noteq> MSG_EXIT"
  shows "ev_ok (ev_enter (wm_event_send_internal_ev env op g e cb priv CallSend s))"
proof (cases "(op = MSG_ADD \<or> op = MSG_REMOVE) \<and> cb = None")
  case True
  then show ?thesis using assms by (simp add: wm_event_send_internal_ev_def ev_enter_def)
next
  case False
  then show ?thesis using ev_ok_new [OF assms(1)] assms(2)
    by (simp only: wm_event_send_internal_ev_def if_False) simp
qed

lemma ev_ok_send:
  assumes "ev_ok s"
  shows "ev_ok (ev_enter (wm_event_send env g e d n s))"
proof (cases "g = None \<or> (d = None \<and> n > 0) \<or> (d \<noteq> None \<and> n = 0)")
  case True
  then show ?thesis using assms by (simp add: wm_event_send_def ev_enter_def)
next
  case False
  then show ?thesis using ev_ok_new [OF assms] by (simp only: wm_event_send_def if_False) simp
qed

text \<open>Starting.\<close>

lemma plain_caller_mono: "plain_caller None c \<Longrightarrow> plain_caller q c"
  by (cases c) auto

lemma ev_ok_init:
  assumes "ev_ok s"
  shows "\<exists>r s'. wm_event_init mem True s = Steps (r, s') \<and> ev_ok s'"
proof (cases "es_status s = WM_EV_ST_INITED")
  case True
  then show ?thesis using assms by (simp add: wm_event_init_def)
next
  case False
  then have q: "ev_idle s" "es_queue s = None" using assms by (auto simp: ev_ok_def ev_running_def ev_idle_def)
  let ?i = "os_next (es_os s)"
  let ?s = "s\<lparr>es_status := WM_EV_ST_INITED, es_queue := Some ?i, es_os := (es_os s)\<lparr>os_queues := (os_queues (es_os s))(?i := Some []),
    os_next := Suc ?i\<rparr>, es_list := [], es_tasks := [TaskLoop]\<rparr>"
  have run: "ev_running ?s" using q by (simp add: ev_running_def ev_idle_def)
  have heap: "ev_heap_ok ?s" "ev_heap_ok (s\<lparr>es_status := WM_EV_ST_INITED\<rparr>)"
    using assms q(2) by (simp_all add: ev_ok_def ev_heap_ok_def ev_owners_def)
  have call: "\<forall>c \<in> set (es_callers s). plain_caller q c" for q
    using assms q(2) plain_caller_mono by (auto simp: ev_ok_def)
  have rest: "ev_no_exit ?s" "ev_no_exit (s\<lparr>es_status := WM_EV_ST_INITED\<rparr>)" "ev_idle (s\<lparr>es_status := WM_EV_ST_INITED\<rparr>)"
    using assms q(1) by (simp_all add: ev_ok_def ev_no_exit_def ev_idle_def)
  show ?thesis
  proof (cases mem)
    case True
    then have "wm_event_init mem True s = Steps (0, ?s)"
      using False q by (simp add: wm_event_init_def wm_os_internal_queue_create_def ev_idle_def)
    moreover have "ev_ok ?s" unfolding ev_ok_def using run heap(1) rest(1) call by simp
    ultimately show ?thesis by blast
  next
    case no: False
    then have "wm_event_init mem True s = Steps (- 1, s\<lparr>es_status := WM_EV_ST_INITED\<rparr>)"
      using False by (simp add: wm_event_init_def wm_os_internal_queue_create_def)
    moreover have "ev_ok (s\<lparr>es_status := WM_EV_ST_INITED\<rparr>)"
      unfolding ev_ok_def using heap(2) rest(2,3) call by simp
    ultimately show ?thesis by blast
  qed
qed

text \<open>A call that goes on hands its message over or gives it up.\<close>

lemma ev_ok_drop_message:
  assumes "ev_ok s" and "i < length (es_callers s)" and "ev_owned (es_callers s ! i) = [p]"
  shows "ev_free p s = Steps (s\<lparr>es_heap := (es_heap s)(p := None)\<rparr>)"
    and "ev_ok (s\<lparr>es_heap := (es_heap s)(p := None), es_callers := drop_nth i (es_callers s)\<rparr>)"
proof -
  obtain ls rs where c: "concat (map ev_owned (es_callers s)) = ls @ [p] @ rs"
    "concat (map ev_owned (drop_nth i (es_callers s))) = ls @ rs"
    using concat_focus [OF assms(2), of ev_owned] assms(3) by metis
  have own: "ev_owners s = ev_pending s @ ls @ p # rs" using c(1) by (simp add: ev_owners_def)
  have h: "distinct (ev_owners s)" "set (ev_owners s) = dom (es_heap s)" "\<forall>p \<in> dom (es_heap s). p < es_brk s"
    using assms(1) by (simp_all add: ev_ok_def ev_heap_ok_def)
  have "p \<in> dom (es_heap s)" using h(2) own by auto
  then show "ev_free p s = Steps (s\<lparr>es_heap := (es_heap s)(p := None)\<rparr>)" by (auto simp: ev_free_def)
  let ?s = "s\<lparr>es_heap := (es_heap s)(p := None), es_callers := drop_nth i (es_callers s)\<rparr>"
  have own': "ev_owners ?s = ev_pending s @ ls @ rs"
    using ev_pending_cong [of ?s s] c(2) by (simp add: ev_owners_def)
  have set': "set (ev_owners ?s) = set (ev_owners s) - {p}" "distinct (ev_owners ?s)" "p \<notin> set (ev_pending s)"
    using h(1) unfolding own own' by auto
  then have "ev_heap_ok ?s" using h by (auto simp: ev_heap_ok_def)
  moreover have "ev_running ?s" if "ev_running s"
    using that set'(3) by (auto simp: ev_running_def map_eq_conv)
  moreover have "ev_idle ?s" if "ev_idle s" using that by (simp add: ev_idle_def)
  moreover have "ev_no_exit ?s" using assms(1) by (simp add: ev_ok_def ev_no_exit_def)
  ultimately show "ev_ok ?s" using assms(1) set_drop_nth [of i "es_callers s"] by (auto simp: ev_ok_def)
qed

lemma ev_ok_caller_moves:
  assumes "ev_ok s" and "i < length (es_callers s)" and "ev_owned c' = ev_owned (es_callers s ! i)"
    and "plain_caller (es_queue s) c'"
  shows "ev_ok (s\<lparr>es_callers := (es_callers s)[i := c']\<rparr>)"
proof -
  let ?s = "s\<lparr>es_callers := (es_callers s)[i := c']\<rparr>"
  obtain ls rs where c: "concat (map ev_owned (es_callers s)) = ls @ ev_owned c' @ rs"
    "concat (map ev_owned ((es_callers s)[i := c'])) = ls @ ev_owned c' @ rs"
    using concat_focus [OF assms(2), of ev_owned] assms(3) by metis
  then have own: "ev_owners ?s = ev_owners s" using ev_pending_cong [of ?s s] by (simp add: ev_owners_def)
  have "set (es_callers ?s) \<subseteq> insert c' (set (es_callers s))"
    using set_update_subset_insert [of "es_callers s" i c'] by simp
  then have "\<forall>c \<in> set (es_callers ?s). plain_caller (es_queue s) c"
    using assms(1,4) by (auto simp: ev_ok_def)
  moreover have "ev_heap_ok ?s" using own assms(1) by (simp add: ev_ok_def ev_heap_ok_def)
  moreover have "ev_running ?s = ev_running s" "ev_idle ?s = ev_idle s" "ev_no_exit ?s = ev_no_exit s"
    by (simp_all add: ev_running_def ev_idle_def ev_no_exit_def)
  ultimately show ?thesis using assms(1) by (simp add: ev_ok_def)
qed

text \<open>The send itself.\<close>

lemma ev_ok_enqueue:
  assumes "ev_ok s" and "i < length (es_callers s)" and "es_callers s ! i = CallerLoaded CallSend p (es_queue s)"
    and "es_queue s = Some q" and "os_queues (es_os s) q = Some ps"
  shows "ev_ok (s\<lparr>es_os := (es_os s)\<lparr>os_queues := (os_queues (es_os s))(q := Some (ps @ [p]))\<rparr>,
      es_accepted := es_accepted s @ [the (es_heap s p)], es_callers := drop_nth i (es_callers s)\<rparr>)"
proof -
  let ?s = "s\<lparr>es_os := (es_os s)\<lparr>os_queues := (os_queues (es_os s))(q := Some (ps @ [p]))\<rparr>,
      es_accepted := es_accepted s @ [the (es_heap s p)], es_callers := drop_nth i (es_callers s)\<rparr>"
  obtain ls rs where c: "concat (map ev_owned (es_callers s)) = ls @ [p] @ rs"
    "concat (map ev_owned (drop_nth i (es_callers s))) = ls @ rs"
    using concat_focus [OF assms(2), of ev_owned] assms(3) by (metis ev_owned.simps(3))
  have own: "ev_owners s = ps @ ls @ p # rs" using c(1) assms(4,5) by (simp add: ev_owners_def)
  have own': "ev_owners ?s = (ps @ [p]) @ ls @ rs" using assms(4) c(2) by (simp add: ev_owners_def)
  have "distinct (ev_owners ?s) = distinct (ev_owners s)" "set (ev_owners ?s) = set (ev_owners s)"
    unfolding own own' by auto
  then have "ev_heap_ok ?s" using assms(1) by (simp add: ev_ok_def ev_heap_ok_def)
  moreover have "ev_running ?s" using assms(1,4,5) by (auto simp: ev_ok_def ev_running_def ev_idle_def)
  moreover have "ev_no_exit ?s" using assms(1) by (simp add: ev_ok_def ev_no_exit_def)
  ultimately show ?thesis using assms(1) set_drop_nth [of i "es_callers s"] by (auto simp: ev_ok_def)
qed

lemma ev_ok_caller_step:
  assumes "ev_ok s" and "i < length (es_callers s)"
  shows "\<exists>s'. ev_do env qsize (ActCaller i) s = Steps s' \<and> ev_ok s'"
proof -
  have pl: "plain_caller (es_queue s) (es_callers s ! i)" using assms by (auto simp: ev_ok_def)
  have gone: "\<exists>s'. (case ev_send_failed CallSend p s of Fault \<Rightarrow> Fault | Blocked \<Rightarrow> Blocked
      | Steps (Inl r, s) \<Rightarrow> Steps (ev_return r (s\<lparr>es_callers := drop_nth i (es_callers s)\<rparr>))
      | Steps (Inr c, s) \<Rightarrow> Steps (s\<lparr>es_callers := (es_callers s)[i := c]\<rparr>)) = Steps s' \<and> ev_ok s'"
    if "ev_owned (es_callers s ! i) = [p]" for p
    using ev_ok_drop_message [OF assms that] by (simp add: ev_send_failed_def)
  have on: "i \<ge> length (es_callers s) \<longleftrightarrow> False" using assms(2) by simp
  show ?thesis
  proof (cases "es_callers s ! i")
    case (CallerNew k p)
    then have k: "k = CallSend" using pl by simp
    show ?thesis
    proof (cases "es_queue s = None")
      case True
      then show ?thesis using gone [of p] CallerNew k by (simp add: ev_do_def ev_caller_step_def on)
    next
      case False
      then obtain j where "es_queue s = Some j" by auto
      then show ?thesis using CallerNew k ev_ok_caller_moves [OF assms, of "CallerTested CallSend p"]
        by (simp add: ev_do_def ev_caller_step_def on)
    qed
  next
    case (CallerTested k p)
    then show ?thesis using pl ev_ok_caller_moves [OF assms, of "CallerLoaded CallSend p (es_queue s)"]
      by (simp add: ev_do_def ev_caller_step_def on)
  next
    case (CallerLoaded k p q)
    then obtain j where j: "k = CallSend" "q = Some j" "es_queue s = Some j" using pl by auto
    then obtain ps where ps: "os_queues (es_os s) j = Some ps"
      using assms(1) by (auto simp: ev_ok_def ev_idle_def ev_running_def)
    have c: "es_callers s ! i = CallerLoaded CallSend p (es_queue s)" using CallerLoaded j by simp
    show ?thesis
    proof (cases "length ps < os_queue_len qsize")
      case True
      then show ?thesis using ev_ok_enqueue [OF assms c j(3) ps] j ps CallerLoaded
        by (simp add: ev_do_def ev_caller_step_def on wm_os_internal_queue_send_def Let_def)
    next
      case False
      then show ?thesis using gone [of p] j ps CallerLoaded
        by (simp add: ev_do_def ev_caller_step_def on wm_os_internal_queue_send_def)
    qed
  qed (use pl in simp_all)
qed

text \<open>The task takes the next message.\<close>

lemma ev_ok_receive:
  assumes "ev_ok s" and "es_tasks s = [TaskWait (Some q)]" and "es_queue s = Some q"
    and "os_queues (es_os s) q = Some (p # ps)"
  shows "\<exists>ev. es_heap s p = Some ev \<and> eh_op ev \<noteq> MSG_EXIT \<and>
    ev_task_step env (TaskWait (Some q)) s = Steps (Some TaskLoop,
      (wm_event_proc env ev (s\<lparr>es_os := (es_os s)\<lparr>os_queues := (os_queues (es_os s))(q := Some ps)\<rparr>,
         es_received := es_received s @ [ev]\<rparr>))\<lparr>es_heap := (es_heap s)(p := None)\<rparr>) \<and>
    ev_ok ((wm_event_proc env ev (s\<lparr>es_os := (es_os s)\<lparr>os_queues := (os_queues (es_os s))(q := Some ps)\<rparr>,
         es_received := es_received s @ [ev]\<rparr>))\<lparr>es_heap := (es_heap s)(p := None), es_tasks := [TaskLoop]\<rparr>)"
proof -
  have own: "ev_owners s = p # ps @ concat (map ev_owned (es_callers s))"
    using assms(3,4) by (simp add: ev_owners_def)
  have h: "distinct (ev_owners s)" "set (ev_owners s) = dom (es_heap s)" "\<forall>p \<in> dom (es_heap s). p < es_brk s"
    using assms(1) by (simp_all add: ev_ok_def ev_heap_ok_def)
  obtain ev where ev: "es_heap s p = Some ev" using h(2) own by auto
  have op: "eh_op ev \<noteq> MSG_EXIT" using assms(1) ev by (auto simp: ev_ok_def ev_no_exit_def)
  let ?m = "s\<lparr>es_os := (es_os s)\<lparr>os_queues := (os_queues (es_os s))(q := Some ps)\<rparr>, es_received := es_received s @ [ev]\<rparr>"
  let ?s = "(wm_event_proc env ev ?m)\<lparr>es_heap := (es_heap s)(p := None), es_tasks := [TaskLoop]\<rparr>"
  have own': "ev_owners ?s = ps @ concat (map ev_owned (es_callers s))" using assms(3) by (simp add: ev_owners_def)
  have "ev_heap_ok ?s" using h unfolding ev_heap_ok_def own' own by auto
  moreover have "p \<notin> set ps" using h(1) own by auto
  then have "ev_running ?s"
    using assms ev by (auto simp: ev_ok_def ev_running_def ev_idle_def map_eq_conv)
  moreover have "ev_no_exit ?s" using assms(1) by (simp add: ev_ok_def ev_no_exit_def)
  ultimately have "ev_ok ?s" using assms(1) by (simp add: ev_ok_def)
  moreover have "ev_task_step env (TaskWait (Some q)) s =
      Steps (Some TaskLoop, (wm_event_proc env ev ?m)\<lparr>es_heap := (es_heap s)(p := None)\<rparr>)"
    using assms(4) ev op by (simp add: ev_task_step_def wm_os_internal_queue_receive_def ev_free_def Let_def)
  ultimately show ?thesis using ev op by blast
qed

lemma ev_ok_task_moves:
  assumes "ev_ok s" and "es_tasks s = [t]" and "t' = TaskLoop \<or> t' = TaskWait (es_queue s)"
  shows "ev_ok (s\<lparr>es_tasks := [t']\<rparr>)"
proof -
  have "ev_running s" using assms(1,2) by (auto simp: ev_ok_def ev_idle_def)
  then have "ev_running (s\<lparr>es_tasks := [t']\<rparr>)" using assms(3) by (auto simp: ev_running_def)
  then show ?thesis
    using assms(1) ev_pending_cong [of "s\<lparr>es_tasks := [t']\<rparr>" s] by (simp add: ev_ok_defs)
qed

lemma ev_ok_task_step:
  assumes "ev_ok s"
  shows "ev_do env qsize (ActTask i) s = Blocked \<or> (\<exists>s'. ev_do env qsize (ActTask i) s = Steps s' \<and> ev_ok s')"
proof (cases "i < length (es_tasks s)")
  case True
  then have run: "ev_running s" using assms by (auto simp: ev_ok_def ev_idle_def)
  then obtain q ps where q: "es_queue s = Some q" "os_queues (es_os s) q = Some ps" "es_status s = WM_EV_ST_INITED"
    "es_tasks s = [TaskLoop] \<or> es_tasks s = [TaskWait (Some q)]" by (auto simp: ev_running_def)
  have i: "i = 0" using True q(4) by auto
  show ?thesis
  proof (cases "es_tasks s = [TaskLoop]")
    case True
    then show ?thesis
      using ev_ok_task_moves [OF assms True, of "TaskWait (es_queue s)"] q i by (simp add: ev_do_def ev_task_step_def)
  next
    case False
    then have t: "es_tasks s = [TaskWait (Some q)]" using q(4) by simp
    show ?thesis
    proof (cases ps)
      case Nil
      then show ?thesis using t q i by (simp add: ev_do_def ev_task_step_def wm_os_internal_queue_receive_def)
    next
      case (Cons p rest)
      then obtain ev where "ev_task_step env (TaskWait (Some q)) s = Steps (Some TaskLoop,
          (wm_event_proc env ev (s\<lparr>es_os := (es_os s)\<lparr>os_queues := (os_queues (es_os s))(q := Some rest)\<rparr>,
           es_received := es_received s @ [ev]\<rparr>))\<lparr>es_heap := (es_heap s)(p := None)\<rparr>)"
        "ev_ok ((wm_event_proc env ev (s\<lparr>es_os := (es_os s)\<lparr>os_queues := (os_queues (es_os s))(q := Some rest)\<rparr>,
           es_received := es_received s @ [ev]\<rparr>))\<lparr>es_heap := (es_heap s)(p := None), es_tasks := [TaskLoop]\<rparr>)"
        using ev_ok_receive [OF assms t q(1), of p rest env] q(2) by blast
      then show ?thesis using t i by (simp add: ev_do_def)
    qed
  qed
qed (simp add: ev_do_def)

text \<open>All of it: a run without exit touches no object that is not there, and keeps the
  invariant.\<close>

lemma ev_ok_do:
  assumes "ev_ok s" and "ev_plain a"
  shows "ev_do env qsize a s \<noteq> Fault \<and> (\<forall>s'. ev_do env qsize a s = Steps s' \<longrightarrow> ev_ok s')"
proof (cases a)
  case (ActInit mem task)
  then show ?thesis using ev_ok_init [OF assms(1), of mem] assms(2) by (auto simp: ev_do_def)
next
  case (ActSend g e d n)
  then show ?thesis using ev_ok_send [OF assms(1)] by (simp add: ev_do_def)
next
  case (ActAdd g e cb priv)
  then show ?thesis using ev_ok_internal [OF assms(1)] by (simp add: ev_do_def wm_event_add_callback_def)
next
  case (ActRemove g e cb priv)
  then show ?thesis using ev_ok_internal [OF assms(1)] by (simp add: ev_do_def wm_event_remove_callback_def)
next
  case (ActCaller i)
  have "ev_do env qsize (ActCaller i) s = Blocked" if "\<not> i < length (es_callers s)"
    using that by (simp add: ev_do_def)
  then show ?thesis using ActCaller ev_ok_caller_step [OF assms(1), of i env qsize]
    by (cases "i < length (es_callers s)") auto
next
  case (ActTask i)
  then show ?thesis using ev_ok_task_step [OF assms(1), of env qsize i] by auto
qed (use assms(2) in simp)

lemma ev_ok_reach:
  assumes "ev_reach env qsize ev_plain ev_start s"
  shows "ev_ok s"
  using assms by (induction rule: ev_reach.induct) (use ev_ok_start ev_ok_do in auto)

end
