(* ===== verification/EventDeliver.thy ===== *)
theory EventDeliver
  imports EventSpec
begin

text \<open>
  Who is called: the callbacks in the list are those added and not removed since, each once, and
  handling an event runs exactly the ones of them that match. Then that the task empties its
  queue.
\<close>

section \<open>Subscriptions\<close>

text \<open>The entry a message is about, and whether it is subscribed after the messages \<open>ms\<close>: it was
  added and has not been removed since.\<close>

definition ev_item :: "ev_header \<Rightarrow> cb_item" where
  "ev_item ev = \<lparr>ci_callback = eh_cb ev, ci_group = eh_group ev, ci_ev = eh_ev ev, ci_priv = eh_priv ev\<rparr>"

definition ev_subscribed :: "ev_header list \<Rightarrow> cb_item \<Rightarrow> bool" where
  "ev_subscribed ms it \<longleftrightarrow> (\<exists>i < length ms. eh_op (ms ! i) = MSG_ADD \<and> ev_item (ms ! i) = it \<and>
     (\<forall>j < length ms. i < j \<longrightarrow> \<not> (eh_op (ms ! j) = MSG_REMOVE \<and> ev_item (ms ! j) = it)))"

text \<open>The callbacks run for message \<open>i\<close> of \<open>ms\<close>.\<close>

definition ev_batch :: "ev_header list \<Rightarrow> nat \<Rightarrow> ev_call list \<Rightarrow> bool" where
  "ev_batch ms i b \<longleftrightarrow>
     (if eh_op (ms ! i) = MSG_EVENT
      then \<exists>its. distinct its \<and> set its = {it. ev_subscribed (take i ms) it \<and> ev_match (ms ! i) it} \<and>
             b = map (ev_run_callback (ms ! i)) its
      else b = [])"

definition ev_served :: "ev_sys \<Rightarrow> bool" where
  "ev_served s \<longleftrightarrow> distinct (es_list s) \<and> (\<forall>it. it \<in> set (es_list s) \<longleftrightarrow> ev_subscribed (es_received s) it) \<and>
     (\<exists>bs. es_called s = concat bs \<and> length bs = length (es_received s) \<and>
        (\<forall>i < length bs. ev_batch (es_received s) i (bs ! i)))"

lemma ev_same_item: "ev_same ev it \<longleftrightarrow> it = ev_item ev"
  by (cases it) (auto simp: ev_same_def ev_item_def)

lemma ev_remove_first_remove1: "ev_remove_first ev es = remove1 (ev_item ev) es"
  by (induction es) (auto simp: ev_same_item)

lemma ev_subscribed_Nil [simp]: "\<not> ev_subscribed [] it"
  by (simp add: ev_subscribed_def)

lemma ev_subscribed_snoc:
  "ev_subscribed (ms @ [m]) it \<longleftrightarrow> (eh_op m = MSG_ADD \<and> ev_item m = it) \<or>
     (ev_subscribed ms it \<and> \<not> (eh_op m = MSG_REMOVE \<and> ev_item m = it))"
  (is "?l \<longleftrightarrow> ?r")
proof
  assume ?l
  then obtain i where i: "i < Suc (length ms)" "eh_op ((ms @ [m]) ! i) = MSG_ADD" "ev_item ((ms @ [m]) ! i) = it"
    "\<forall>j < Suc (length ms). i < j \<longrightarrow> \<not> (eh_op ((ms @ [m]) ! j) = MSG_REMOVE \<and> ev_item ((ms @ [m]) ! j) = it)"
    by (auto simp: ev_subscribed_def)
  show ?r
  proof (cases "i = length ms")
    case True
    then show ?thesis using i(2,3) by simp
  next
    case False
    then have l: "i < length ms" using i(1) by simp
    have "ev_subscribed ms it" unfolding ev_subscribed_def
      using i(2,3,4) l by (intro exI [of _ i]) (auto simp: nth_append less_Suc_eq split: if_splits)
    moreover have "\<not> (eh_op m = MSG_REMOVE \<and> ev_item m = it)" using i(4) l by (auto dest: spec [of _ "length ms"])
    ultimately show ?thesis by blast
  qed
next
  assume ?r
  then show ?l
  proof
    assume "eh_op m = MSG_ADD \<and> ev_item m = it"
    then show ?thesis unfolding ev_subscribed_def by (intro exI [of _ "length ms"]) simp
  next
    assume a: "ev_subscribed ms it \<and> \<not> (eh_op m = MSG_REMOVE \<and> ev_item m = it)"
    then obtain i where "i < length ms" "eh_op (ms ! i) = MSG_ADD" "ev_item (ms ! i) = it"
      "\<forall>j < length ms. i < j \<longrightarrow> \<not> (eh_op (ms ! j) = MSG_REMOVE \<and> ev_item (ms ! j) = it)"
      by (auto simp: ev_subscribed_def)
    with a show ?thesis unfolding ev_subscribed_def
      by (intro exI [of _ i]) (auto simp: nth_append less_Suc_eq)
  qed
qed

lemma ev_batch_snoc: "i < length ms \<Longrightarrow> ev_batch (ms @ [m]) i b = ev_batch ms i b"
  by (simp add: ev_batch_def nth_append)

section \<open>Every message keeps it\<close>

lemma ev_served_cong:
  "es_list s' = es_list s \<Longrightarrow> es_received s' = es_received s \<Longrightarrow> es_called s' = es_called s \<Longrightarrow>
    ev_served s' = ev_served s"
  by (simp add: ev_served_def)

lemma ev_served_proc:
  assumes "heap_ok env" and "eh_op ev \<noteq> MSG_EXIT" and "ev_served s"
    and "es_list s' = es_list (wm_event_proc env ev s)" and "es_called s' = es_called (wm_event_proc env ev s)"
    and "es_received s' = es_received s @ [ev]"
  shows "ev_served s'"
proof -
  let ?p = "wm_event_proc env ev s"
  have d: "distinct (es_list s)" and sub: "\<And>it. it \<in> set (es_list s) \<longleftrightarrow> ev_subscribed (es_received s) it"
    using assms(3) by (auto simp: ev_served_def)
  obtain bs where bs: "es_called s = concat bs" "length bs = length (es_received s)"
    "\<forall>i < length bs. ev_batch (es_received s) i (bs ! i)" using assms(3) by (auto simp: ev_served_def)
  have l: "distinct (es_list ?p) \<and> (\<forall>it. it \<in> set (es_list ?p) \<longleftrightarrow> ev_subscribed (es_received s @ [ev]) it)"
  proof (cases "eh_op ev")
    case MSG_ADD
    have new: "es_list ?p = (if ev_item ev \<in> set (es_list s) then es_list s else es_list s @ [ev_item ev])"
      using assms(1) MSG_ADD unfolding wm_event_proc_def ev_item_def [symmetric]
      by (simp add: ev_same_item)
    show ?thesis
      unfolding new using d sub MSG_ADD by (cases "ev_item ev \<in> set (es_list s)") (auto simp: ev_subscribed_snoc)
  next
    case MSG_REMOVE
    then have new: "es_list ?p = remove1 (ev_item ev) (es_list s)"
      by (simp add: wm_event_proc_def ev_remove_first_remove1)
    show ?thesis
      unfolding new using d sub MSG_REMOVE by (auto simp: ev_subscribed_snoc)
  next
    case MSG_EVENT
    then have new: "es_list ?p = es_list s" by (simp add: wm_event_proc_def)
    show ?thesis unfolding new using d sub MSG_EVENT by (simp add: ev_subscribed_snoc)
  qed (use assms(2) in simp)
  obtain b where b: "es_called ?p = es_called s @ b" "ev_batch (es_received s @ [ev]) (length (es_received s)) b"
  proof (cases "eh_op ev = MSG_EVENT")
    case True
    have "ev_batch (es_received s @ [ev]) (length (es_received s)) (map (ev_run_callback ev) (filter (ev_match ev) (es_list s)))"
      unfolding ev_batch_def nth_append_length if_P [OF True]
      by (rule exI [of _ "filter (ev_match ev) (es_list s)"]) (use d sub in auto)
    then show ?thesis using True that by (simp add: wm_event_proc_def)
  next
    case False
    then have "es_called ?p = es_called s" by (simp add: wm_event_proc_def split: ev_op.split)
    moreover have "ev_batch (es_received s @ [ev]) (length (es_received s)) []" using False by (simp add: ev_batch_def)
    ultimately show ?thesis using that [of "[]"] by simp
  qed
  have "\<forall>i < length (bs @ [b]). ev_batch (es_received s @ [ev]) i ((bs @ [b]) ! i)"
    using bs(2,3) b(2) by (auto simp: nth_append ev_batch_snoc less_Suc_eq)
  then have "\<exists>bs. es_called s' = concat bs \<and> length bs = length (es_received s') \<and>
      (\<forall>i < length bs. ev_batch (es_received s') i (bs ! i))"
    unfolding assms(5,6) b(1) bs(1) by (intro exI [of _ "bs @ [b]"]) (simp add: bs(2))
  then show ?thesis using l unfolding ev_served_def assms(4,6) by blast
qed

text \<open>Callers and starts do not touch it.\<close>

lemma ev_return_sel [simp]:
  "es_list (ev_return r s) = es_list s" "es_received (ev_return r s) = es_received s" "es_called (ev_return r s) = es_called s"
  by (simp_all add: ev_return_def)

lemma ev_enter_new_sel:
  "es_list (ev_enter (ev_new_message env n ev k s)) = es_list s \<and>
   es_received (ev_enter (ev_new_message env n ev k s)) = es_received s \<and>
   es_called (ev_enter (ev_new_message env n ev k s)) = es_called s"
  by (simp add: ev_new_message_def ev_enter_def)

lemma ev_served_new: "ev_served (ev_enter (ev_new_message env n ev k s)) = ev_served s"
  using ev_enter_new_sel by (intro ev_served_cong) auto

lemma ev_served_code: "ev_served (ev_enter (Inl r, s)) = ev_served s"
  by (intro ev_served_cong) (simp_all add: ev_enter_def)

lemma ev_served_begin:
  "ev_served (ev_enter (wm_event_send env g e d n s)) = ev_served s"
  "ev_served (ev_enter (wm_event_send_internal_ev env op g e cb priv k s)) = ev_served s"
  by (simp_all only: wm_event_send_def wm_event_send_internal_ev_def if_distrib [of ev_enter] if_distrib [of ev_served]
      ev_served_new ev_served_code if_cancel)

lemma ev_served_caller:
  assumes "ev_do env qsize (ActCaller i) s = Steps s'"
  shows "ev_served s' = ev_served s"
proof (rule ev_served_cong)
  have f: "ev_free p s = Steps t \<Longrightarrow> es_list t = es_list s \<and> es_received t = es_received s \<and> es_called t = es_called s"
    for p t by (auto simp: ev_free_def split: option.splits)
  have "es_list s' = es_list s \<and> es_received s' = es_received s \<and> es_called s' = es_called s"
    using assms
    by (cases "es_callers s ! i")
      (auto simp: ev_do_def ev_caller_step_def ev_send_failed_def Let_def dest!: f
        split: if_splits outcome.splits sum.splits prod.splits ev_kind.splits)
  then show "es_list s' = es_list s" "es_received s' = es_received s" "es_called s' = es_called s" by simp_all
qed

lemma ev_served_do:
  assumes "heap_ok env" and "ev_ok s" and "ev_served s" and "ev_plain a" and "ev_do env qsize a s = Steps s'"
  shows "ev_served s'"
proof (cases a)
  case (ActInit mem task)
  have f: "es_list t = es_list s \<and> es_received t = es_received s \<and> es_called t = es_called s"
    if "wm_event_init mem True s = Steps (r, t)" for r t
  proof -
    have "es_list s = []" if "es_status s \<noteq> WM_EV_ST_INITED"
      using assms(2) that by (auto simp: ev_ok_def ev_idle_def ev_running_def)
    then show ?thesis using that
      by (auto simp: wm_event_init_def wm_os_internal_queue_create_def Let_def split: if_splits)
  qed
  then have "es_list s' = es_list s \<and> es_received s' = es_received s \<and> es_called s' = es_called s"
    using assms(4,5) ActInit by (auto simp: ev_do_def split: outcome.splits)
  then show ?thesis using assms(3) ev_served_cong [of s' s] by simp
next
  case (ActTask i)
  show ?thesis
  proof (cases "i < length (es_tasks s)")
    case False
    then show ?thesis using assms(5) ActTask by (simp add: ev_do_def)
  next
    case True
    then have "ev_running s" using assms(2) by (auto simp: ev_ok_def ev_idle_def)
    then obtain q ps where q: "es_queue s = Some q" "os_queues (es_os s) q = Some ps" "es_status s = WM_EV_ST_INITED"
      "es_tasks s = [TaskLoop] \<or> es_tasks s = [TaskWait (Some q)]" by (auto simp: ev_running_def)
    have i: "i = 0" using True q(4) by auto
    show ?thesis
    proof (cases "es_tasks s = [TaskLoop]")
      case True
      then have "s' = s\<lparr>es_tasks := [TaskWait (Some q)]\<rparr>"
        using assms(5) ActTask i q by (simp add: ev_do_def ev_task_step_def)
      then show ?thesis using assms(3) ev_served_cong [of s' s] by simp
    next
      case False
      then have t: "es_tasks s = [TaskWait (Some q)]" using q(4) by simp
      then obtain p rest where ps: "ps = p # rest"
        using assms(5) ActTask i q
        by (cases ps) (simp_all add: ev_do_def ev_task_step_def wm_os_internal_queue_receive_def)
      let ?m = "\<lambda>ev. s\<lparr>es_os := (es_os s)\<lparr>os_queues := (os_queues (es_os s))(q := Some rest)\<rparr>, es_received := es_received s @ [ev]\<rparr>"
      obtain ev where ev: "eh_op ev \<noteq> MSG_EXIT" "ev_task_step env (TaskWait (Some q)) s = Steps (Some TaskLoop,
          (wm_event_proc env ev (?m ev))\<lparr>es_heap := (es_heap s)(p := None)\<rparr>)"
        using ev_ok_receive [OF assms(2) t q(1), of p rest env] q(2) ps by blast
      have "es_list (wm_event_proc env ev (?m ev)) = es_list (wm_event_proc env ev s)"
        "es_called (wm_event_proc env ev (?m ev)) = es_called (wm_event_proc env ev s)"
        by (simp_all add: wm_event_proc_def split: ev_op.split)
      moreover have "s' = (wm_event_proc env ev (?m ev))\<lparr>es_heap := (es_heap s)(p := None), es_tasks := [TaskLoop]\<rparr>"
        using assms(5) ActTask i t ev(2) by (simp add: ev_do_def)
      ultimately show ?thesis by (intro ev_served_proc [OF assms(1) ev(1) assms(3)]) simp_all
    qed
  qed
next
  case (ActCaller i)
  then show ?thesis using ev_served_caller assms(3,5) by auto
qed (use assms(3-5) in \<open>auto simp: ev_do_def wm_event_add_callback_def wm_event_remove_callback_def ev_served_begin\<close>)

lemma ev_served_reach:
  assumes "heap_ok env" and "ev_reach env qsize ev_plain ev_start s"
  shows "ev_served s"
  using assms(2)
proof (induction rule: ev_reach.induct)
  case ev_reach_start
  show ?case by (simp add: ev_served_def ev_start_def)
next
  case (ev_reach_step s a s')
  then show ?case using ev_served_do [OF assms(1) ev_ok_reach] by blast
qed

end
