(* ===== verification/EventExit.thy ===== *)
theory EventExit
  imports EventDeliver
begin

text \<open>
  Two things that end: the task empties its queue, and \<open>wm_event_deinit\<close> returns, followed
  phase by phase with the number of steps still to come.
\<close>

section \<open>The task empties its queue\<close>

lemma ev_task_waits:
  "es_tasks s = [TaskLoop] \<Longrightarrow> es_status s = WM_EV_ST_INITED \<Longrightarrow>
    ev_do env qsize (ActTask 0) s = Steps (s\<lparr>es_tasks := [TaskWait (es_queue s)]\<rparr>)"
  by (simp add: ev_do_def ev_task_step_def)

text \<open>A message at the head of the queue is taken, handled and freed.\<close>

lemma ev_task_takes:
  assumes "es_tasks s = [TaskWait (Some q)]" and "os_queues (es_os s) q = Some (x # xs)" and "es_heap s x = Some ev"
  shows "\<exists>s'. ev_do env qsize (ActTask 0) s = Steps s' \<and>
    es_os s' = (es_os s)\<lparr>os_queues := (os_queues (es_os s))(q := Some xs)\<rparr> \<and>
    es_heap s' = (es_heap s)(x := None) \<and> es_received s' = es_received s @ [ev] \<and>
    es_tasks s' = [if eh_op ev = MSG_EXIT then TaskStop (eh_priv ev) else TaskLoop] \<and>
    es_status s' = es_status s \<and> es_queue s' = es_queue s \<and> es_callers s' = es_callers s \<and>
    es_accepted s' = es_accepted s \<and> es_returned s' = es_returned s \<and>
    (eh_op ev = MSG_EXIT \<longrightarrow> es_list s' = [])"
proof -
  let ?m = "wm_event_proc env ev (s\<lparr>es_os := (es_os s)\<lparr>os_queues := (os_queues (es_os s))(q := Some xs)\<rparr>,
    es_received := es_received s @ [ev]\<rparr>)"
  let ?s = "?m\<lparr>es_heap := (es_heap s)(x := None),
    es_tasks := [if eh_op ev = MSG_EXIT then TaskStop (eh_priv ev) else TaskLoop]\<rparr>"
  have "ev_do env qsize (ActTask 0) s = Steps ?s"
    using assms by (simp add: ev_do_def ev_task_step_def wm_os_internal_queue_receive_def ev_free_def Let_def)
  then show ?thesis by (intro exI [of _ ?s]) simp
qed

lemma ev_task_drains:
  assumes "ev_ok s" and "es_queue s = Some q" and "es_tasks s = [TaskLoop]" and "os_queues (es_os s) q = Some ps"
  shows "\<exists>s'. ev_runs env qsize (concat (replicate (length ps) [ActTask 0, ActTask 0])) s = Steps s' \<and> ev_ok s' \<and>
    es_tasks s' = [TaskLoop] \<and> es_accepted s' = es_accepted s \<and> es_received s' = es_accepted s"
  using assms
proof (induction ps arbitrary: s)
  case Nil
  then show ?case by (auto simp: ev_ok_def ev_running_def ev_idle_def)
next
  case (Cons x xs)
  have st: "es_status s = WM_EV_ST_INITED" using Cons.prems by (auto simp: ev_ok_def ev_idle_def ev_running_def)
  let ?w = "s\<lparr>es_tasks := [TaskWait (es_queue s)]\<rparr>"
  have w: "ev_do env qsize (ActTask 0) s = Steps ?w" using ev_task_waits [OF Cons.prems(3) st] .
  have wok: "ev_ok ?w" using ev_ok_task_moves [OF Cons.prems(1,3)] by simp
  have "x \<in> set (ev_owners s)" using Cons.prems(2,4) by (simp add: ev_owners_def)
  then have "x \<in> dom (es_heap s)" using Cons.prems(1) by (auto simp: ev_ok_def ev_heap_ok_def)
  then obtain ev where ev: "es_heap s x = Some ev" by auto
  have op: "eh_op ev \<noteq> MSG_EXIT" using Cons.prems(1) ev by (auto simp: ev_ok_def ev_no_exit_def)
  obtain s1 where s1: "ev_do env qsize (ActTask 0) ?w = Steps s1" "os_queues (es_os s1) q = Some xs"
    "es_tasks s1 = [TaskLoop]" "es_queue s1 = Some q" "es_accepted s1 = es_accepted s"
    using ev_task_takes [of ?w q x xs ev env qsize] Cons.prems(2,4) ev op by auto
  have "ev_ok s1" using ev_ok_task_step [OF wok, of env qsize 0] s1(1) by auto
  then obtain s' where "ev_runs env qsize (concat (replicate (length xs) [ActTask 0, ActTask 0])) s1 = Steps s'"
    "ev_ok s'" "es_tasks s' = [TaskLoop]" "es_accepted s' = es_accepted s1" "es_received s' = es_accepted s1"
    using Cons.IH [of s1] s1(2-4) by blast
  then show ?case using w s1(1,5) by (intro exI [of _ s']) simp
qed

section \<open>Phases of the exit\<close>

definition exit_message :: "nat \<Rightarrow> ev_header" where
  "exit_message k = \<lparr>eh_op = MSG_EXIT, eh_group = WM_EVENT_ANY_GROUP, eh_ev = -1, eh_data = None,
     eh_size = 0, eh_cb = None, eh_priv = Some k\<rparr>"

text \<open>The task still serves; \<open>ps\<close> are the messages before the exit message \<open>p\<close>, \<open>rest\<close> is the
  exit message once it is in the queue.\<close>

definition exit_early :: "nat \<Rightarrow> nat \<Rightarrow> nat \<Rightarrow> nat list \<Rightarrow> nat list \<Rightarrow> ev_sys \<Rightarrow> bool" where
  "exit_early q k p ps rest s \<longleftrightarrow> es_status s = WM_EV_ST_INITED \<and> es_queue s = Some q \<and>
     (es_tasks s = [TaskLoop] \<or> es_tasks s = [TaskWait (Some q)]) \<and> os_sems (es_os s) k = Some 0 \<and>
     os_queues (es_os s) q = Some (ps @ rest) \<and> es_heap s p = Some (exit_message k) \<and>
     distinct (ps @ [p]) \<and> dom (es_heap s) = set (ps @ [p]) \<and>
     (\<forall>x \<in> set ps. \<forall>ev. es_heap s x = Some ev \<longrightarrow> eh_op ev \<noteq> MSG_EXIT) \<and>
     es_accepted s = es_received s @ map (the \<circ> es_heap s) (ps @ rest)"

text \<open>The task has handled the exit message.\<close>

definition exit_late :: "nat \<Rightarrow> nat \<Rightarrow> ev_sys \<Rightarrow> bool" where
  "exit_late q k s \<longleftrightarrow> es_heap s = Map.empty \<and> es_list s = [] \<and> es_accepted s = es_received s \<and>
     es_callers s = [CallerWait (Some k)] \<and> os_sems (es_os s) k = Some 0 \<and> os_queues (es_os s) q = Some []"

definition exit_done :: "nat \<Rightarrow> ev_sys \<Rightarrow> bool" where
  "exit_done q s \<longleftrightarrow> es_heap s = Map.empty \<and> es_list s = [] \<and> es_accepted s = es_received s \<and>
     es_queue s = None \<and> es_tasks s = [] \<and> os_queues (es_os s) q = None"

fun exit_caller_rank :: "nat \<Rightarrow> nat \<Rightarrow> nat \<Rightarrow> ev_caller \<Rightarrow> nat \<Rightarrow> bool" where
  "exit_caller_rank q k p (CallerNew j x) n \<longleftrightarrow> j = CallDeinit (Some k) \<and> x = p \<and> n = 3"
| "exit_caller_rank q k p (CallerTested j x) n \<longleftrightarrow> j = CallDeinit (Some k) \<and> x = p \<and> n = 2"
| "exit_caller_rank q k p (CallerLoaded j x y) n \<longleftrightarrow> j = CallDeinit (Some k) \<and> x = p \<and> y = Some q \<and> n = 1"
| "exit_caller_rank q k p _ n \<longleftrightarrow> False"

definition task_rank :: "ev_sys \<Rightarrow> nat" where
  "task_rank s = (if es_tasks s = [TaskLoop] then 1 else 0)"

text \<open>The phases, each with a bound on the steps still to come; \<open>rs\<close> are the codes returned
  before.\<close>

inductive ev_exit :: "nat \<Rightarrow> nat \<Rightarrow> nat \<Rightarrow> nat \<Rightarrow> int list \<Rightarrow> nat \<Rightarrow> ev_sys \<Rightarrow> bool"
  for qsize q k p rs where
  exit_send: "exit_early q k p ps [] s \<Longrightarrow> length ps < os_queue_len qsize \<Longrightarrow> es_callers s = [c] \<Longrightarrow>
    exit_caller_rank q k p c r \<Longrightarrow> es_returned s = rs \<Longrightarrow>
    ev_exit qsize q k p rs (12 + r + task_rank s + 2 * length ps) s"
| exit_queued: "exit_early q k p ps [p] s \<Longrightarrow> es_callers s = [CallerWait (Some k)] \<Longrightarrow> es_returned s = rs \<Longrightarrow>
    ev_exit qsize q k p rs (10 + task_rank s + 2 * length ps) s"
| exit_stop: "exit_late q k s \<Longrightarrow> es_queue s = Some q \<Longrightarrow> es_tasks s = [TaskStop (Some k)] \<Longrightarrow> es_returned s = rs \<Longrightarrow>
    ev_exit qsize q k p rs 8 s"
| exit_clear: "exit_late q k s \<Longrightarrow> es_queue s = None \<Longrightarrow> es_tasks s = [TaskClear (Some q) (Some k)] \<Longrightarrow>
    es_returned s = rs \<Longrightarrow> ev_exit qsize q k p rs 7 s"
| exit_delete: "exit_late q k s \<Longrightarrow> es_queue s = None \<Longrightarrow> es_tasks s = [TaskDelete (Some q) (Some k)] \<Longrightarrow>
    es_returned s = rs \<Longrightarrow> ev_exit qsize q k p rs 6 s"
| exit_signal: "exit_done q s \<Longrightarrow> es_callers s = [CallerWait (Some k)] \<Longrightarrow> os_sems (es_os s) k = Some 1 \<Longrightarrow>
    es_returned s = rs \<Longrightarrow> ev_exit qsize q k p rs 5 s"
| exit_return: "exit_done q s \<Longrightarrow> es_callers s = [CallerEnd (Some k) WM_ERR_SUCCESS] \<Longrightarrow> os_sems (es_os s) k \<noteq> None \<Longrightarrow>
    es_returned s = rs \<Longrightarrow> ev_exit qsize q k p rs 4 s"
| exit_over: "exit_done q s \<Longrightarrow> es_callers s = [] \<Longrightarrow> os_sems (es_os s) k = None \<Longrightarrow> es_status s = WM_EV_ST_NOT_INIT \<Longrightarrow>
    es_returned s = rs @ [WM_ERR_SUCCESS] \<Longrightarrow> ev_exit qsize q k p rs 0 s"

text \<open>A step of the task while it serves.\<close>

lemma exit_early_task:
  assumes "exit_early q k p ps rest s" and "rest = [] \<or> rest = [p]"
  shows "(ps @ rest = [] \<and> es_tasks s = [TaskWait (Some q)] \<and> ev_do env qsize (ActTask 0) s = Blocked) \<or>
    (\<exists>s'. ev_do env qsize (ActTask 0) s = Steps s' \<and> es_callers s' = es_callers s \<and> es_returned s' = es_returned s \<and>
       ((exit_early q k p ps rest s' \<and> task_rank s = 1 \<and> task_rank s' = 0) \<or>
        (\<exists>x xs. ps = x # xs \<and> exit_early q k p xs rest s' \<and> task_rank s = 0 \<and> task_rank s' = 1) \<or>
        (ps = [] \<and> rest = [p] \<and> es_heap s' = Map.empty \<and> es_list s' = [] \<and> es_accepted s' = es_received s' \<and>
           os_sems (es_os s') k = Some 0 \<and> os_queues (es_os s') q = Some [] \<and> es_queue s' = Some q \<and>
           es_tasks s' = [TaskStop (Some k)])))"
proof (cases "es_tasks s = [TaskLoop]")
  case True
  let ?s = "s\<lparr>es_tasks := [TaskWait (Some q)]\<rparr>"
  have "ev_do env qsize (ActTask 0) s = Steps ?s"
    using ev_task_waits [OF True] assms(1) by (simp add: exit_early_def)
  moreover have "exit_early q k p ps rest ?s" using assms(1) by (simp add: exit_early_def)
  moreover have "task_rank s = 1" "task_rank ?s = 0" using True by (simp_all add: task_rank_def)
  ultimately show ?thesis by (intro disjI2 exI [of _ ?s]) simp
next
  case False
  then have t: "es_tasks s = [TaskWait (Some q)]" "task_rank s = 0" using assms(1) by (auto simp: exit_early_def task_rank_def)
  show ?thesis
  proof (cases ps)
    case (Cons x xs)
    have "x \<in> dom (es_heap s)" using assms(1) Cons by (auto simp: exit_early_def)
    then obtain ev where x: "es_heap s x = Some ev" by blast
    then have ev: "es_heap s x = Some ev" "eh_op ev \<noteq> MSG_EXIT" "x \<noteq> p" "x \<notin> set xs"
      using assms(1) Cons by (auto simp: exit_early_def)
    obtain s' where s': "ev_do env qsize (ActTask 0) s = Steps s'"
      "es_os s' = (es_os s)\<lparr>os_queues := (os_queues (es_os s))(q := Some (xs @ rest))\<rparr>"
      "es_heap s' = (es_heap s)(x := None)" "es_received s' = es_received s @ [ev]" "es_tasks s' = [TaskLoop]"
      "es_status s' = es_status s" "es_queue s' = es_queue s" "es_callers s' = es_callers s"
      "es_accepted s' = es_accepted s" "es_returned s' = es_returned s"
      using ev_task_takes [OF t(1), of x "xs @ rest" ev env qsize] assms(1) Cons ev(1,2) by (auto simp: exit_early_def)
    have eq: "map (the \<circ> (es_heap s)(x := None)) (xs @ rest) = map (the \<circ> es_heap s) (xs @ rest)"
      using ev(3,4) assms(2) by auto
    have "exit_early q k p xs rest s'"
      using assms(1) ev eq unfolding exit_early_def s' Cons by auto
    then show ?thesis using s'(1,5,8,10) t(2) Cons by (intro disjI2 exI [of _ s']) (simp add: task_rank_def)
  next
    case Nil
    show ?thesis
    proof (cases "rest = []")
      case True
      then show ?thesis using t(1) Nil assms(1)
        by (simp add: exit_early_def ev_do_def ev_task_step_def wm_os_internal_queue_receive_def)
    next
      case False
      then have r: "rest = [p]" using assms(2) by simp
      obtain s' where s': "ev_do env qsize (ActTask 0) s = Steps s'"
        "es_os s' = (es_os s)\<lparr>os_queues := (os_queues (es_os s))(q := Some [])\<rparr>"
        "es_heap s' = (es_heap s)(p := None)" "es_received s' = es_received s @ [exit_message k]"
        "es_tasks s' = [TaskStop (Some k)]" "es_queue s' = es_queue s" "es_callers s' = es_callers s"
        "es_accepted s' = es_accepted s" "es_returned s' = es_returned s" "es_list s' = []"
        using ev_task_takes [OF t(1), of p "[]" "exit_message k" env qsize] assms(1) Nil r
        by (auto simp: exit_early_def exit_message_def)
      have "dom (es_heap s) = {p}" using assms(1) Nil by (simp add: exit_early_def)
      then have "es_heap s' = Map.empty" using s'(3) by (auto simp: fun_eq_iff)
      then show ?thesis using s' r Nil assms(1) by (intro disjI2 exI [of _ s']) (simp add: exit_early_def)
    qed
  qed
qed

text \<open>Every step leads on: at most one of the two is blocked, and the bound falls.\<close>

lemma ev_exit_task:
  assumes "ev_exit qsize q k p rs n s"
  shows "ev_do env qsize (ActTask 0) s = Blocked \<or>
    (\<exists>s' m. ev_do env qsize (ActTask 0) s = Steps s' \<and> ev_exit qsize q k p rs m s' \<and> m < n)"
  using assms
proof cases
  case (exit_send ps c r)
  from exit_early_task [OF exit_send(2) disjI1 [OF refl], of env qsize] show ?thesis
  proof (elim disjE exE conjE, goal_cases)
    case (2 s')
    then show ?case using ev_exit.exit_send [of q k p ps s' qsize c r rs] exit_send by auto
  next
    case (3 s' x xs)
    then show ?case using ev_exit.exit_send [of q k p xs s' qsize c r rs] exit_send by auto
  qed simp_all
next
  case (exit_queued ps)
  from exit_early_task [OF exit_queued(2) disjI2 [OF refl], of env qsize] show ?thesis
  proof (elim disjE exE conjE, goal_cases)
    case (2 s')
    then show ?case using ev_exit.exit_queued [of q k p ps s' rs qsize] exit_queued by auto
  next
    case (3 s' x xs)
    then show ?case using ev_exit.exit_queued [of q k p xs s' rs qsize] exit_queued by auto
  next
    case (4 s')
    then show ?case using ev_exit.exit_stop [of q k s' rs qsize p] exit_queued by (auto simp: exit_late_def)
  qed simp_all
next
  case exit_stop
  let ?s = "s\<lparr>es_queue := None, es_tasks := [TaskClear (Some q) (Some k)]\<rparr>"
  have "ev_do env qsize (ActTask 0) s = Steps ?s" using exit_stop by (simp add: ev_do_def ev_task_step_def)
  moreover have "ev_exit qsize q k p rs 7 ?s" using exit_stop by (intro ev_exit.exit_clear) (simp_all add: exit_late_def)
  ultimately show ?thesis using exit_stop(1) by auto
next
  case exit_clear
  let ?s = "s\<lparr>es_tasks := [TaskDelete (Some q) (Some k)]\<rparr>"
  have "ev_do env qsize (ActTask 0) s = Steps ?s" using exit_clear
    by (simp add: ev_do_def ev_task_step_def wm_os_internal_queue_receive_def exit_late_def)
  moreover have "ev_exit qsize q k p rs 6 ?s" using exit_clear by (intro ev_exit.exit_delete) (simp_all add: exit_late_def)
  ultimately show ?thesis using exit_clear(1) by auto
next
  case exit_delete
  let ?s = "s\<lparr>es_os := (es_os s)\<lparr>os_queues := (os_queues (es_os s))(q := None),
    os_sems := (os_sems (es_os s))(k := Some 1)\<rparr>, es_tasks := []\<rparr>"
  have "ev_do env qsize (ActTask 0) s = Steps ?s" using exit_delete
    by (simp add: ev_do_def ev_task_step_def wm_os_internal_queue_delete_def wm_os_internal_sem_release_def
        exit_late_def drop_nth_def One_nat_def)
  moreover have "ev_exit qsize q k p rs 5 ?s" using exit_delete
    by (intro ev_exit.exit_signal) (simp_all add: exit_late_def exit_done_def)
  ultimately show ?thesis using exit_delete(1) by auto
qed (simp_all add: ev_do_def exit_done_def)

lemma exit_early_cong:
  "es_status s' = es_status s \<Longrightarrow> es_queue s' = es_queue s \<Longrightarrow> es_tasks s' = es_tasks s \<Longrightarrow> es_os s' = es_os s \<Longrightarrow>
    es_heap s' = es_heap s \<Longrightarrow> es_accepted s' = es_accepted s \<Longrightarrow> es_received s' = es_received s \<Longrightarrow>
    exit_early q k p ps rest s' = exit_early q k p ps rest s"
  by (simp add: exit_early_def)

lemma ev_exit_caller:
  assumes "ev_exit qsize q k p rs n s"
  shows "ev_do env qsize (ActCaller 0) s = Blocked \<or>
    (\<exists>s' m. ev_do env qsize (ActCaller 0) s = Steps s' \<and> ev_exit qsize q k p rs m s' \<and> m < n)"
  using assms
proof cases
  case (exit_send ps c r)
  have q: "es_queue s = Some q" using exit_send(2) by (simp add: exit_early_def)
  have moves: "ev_exit qsize q k p rs (12 + r' + task_rank s + 2 * length ps) (s\<lparr>es_callers := [c']\<rparr>)"
    if "exit_caller_rank q k p c' r'" for c' r'
    using ev_exit.exit_send [of q k p ps "s\<lparr>es_callers := [c']\<rparr>" qsize c' r' rs] that exit_send
      exit_early_cong [of "s\<lparr>es_callers := [c']\<rparr>" s]
    by (simp add: task_rank_def)
  show ?thesis
  proof (cases c)
    case (CallerNew j x)
    then have j: "j = CallDeinit (Some k)" "x = p" "r = 3" using exit_send(5) by auto
    have "ev_do env qsize (ActCaller 0) s = Steps (s\<lparr>es_callers := [CallerTested j x]\<rparr>)"
      using exit_send(4) q CallerNew by (simp add: ev_do_def ev_caller_step_def)
    then show ?thesis using moves [of "CallerTested j x" 2] j exit_send(1) by auto
  next
    case (CallerTested j x)
    then have j: "j = CallDeinit (Some k)" "x = p" "r = 2" using exit_send(5) by auto
    have "ev_do env qsize (ActCaller 0) s = Steps (s\<lparr>es_callers := [CallerLoaded j x (Some q)]\<rparr>)"
      using exit_send(4) q CallerTested by (simp add: ev_do_def ev_caller_step_def)
    then show ?thesis using moves [of "CallerLoaded j x (Some q)" 1] j exit_send(1) by auto
  next
    case (CallerLoaded j x y)
    then have j: "j = CallDeinit (Some k)" "x = p" "y = Some q" "r = 1" using exit_send(5) by auto
    let ?s = "s\<lparr>es_os := (es_os s)\<lparr>os_queues := (os_queues (es_os s))(q := Some (ps @ [p]))\<rparr>,
      es_accepted := es_accepted s @ [the (es_heap s p)], es_callers := [CallerWait (Some k)]\<rparr>"
    have "ev_do env qsize (ActCaller 0) s = Steps ?s"
      using exit_send(2-4) j CallerLoaded
      by (simp add: ev_do_def ev_caller_step_def wm_os_internal_queue_send_def exit_early_def Let_def)
    moreover have "exit_early q k p ps [p] ?s" using exit_send(2) by (auto simp: exit_early_def)
    then have "ev_exit qsize q k p rs (10 + task_rank ?s + 2 * length ps) ?s"
      using exit_send(6) by (intro ev_exit.exit_queued) simp_all
    ultimately show ?thesis using exit_send(1) j(4) by (auto simp: task_rank_def)
  qed (use exit_send(5) in simp_all)
next
  case (exit_queued ps)
  then show ?thesis by (simp add: ev_do_def ev_caller_step_def wm_os_internal_sem_acquire_def exit_early_def)
next
  case exit_signal
  let ?s = "s\<lparr>es_os := (es_os s)\<lparr>os_sems := (os_sems (es_os s))(k := Some 0)\<rparr>, es_callers := [CallerEnd (Some k) WM_ERR_SUCCESS]\<rparr>"
  have "ev_do env qsize (ActCaller 0) s = Steps ?s" using exit_signal
    by (simp add: ev_do_def ev_caller_step_def wm_os_internal_sem_acquire_def One_nat_def)
  moreover have "ev_exit qsize q k p rs 4 ?s" using exit_signal by (intro ev_exit.exit_return) (simp_all add: exit_done_def)
  ultimately show ?thesis using exit_signal(1) by auto
next
  case exit_return
  let ?s = "ev_return WM_ERR_SUCCESS (s\<lparr>es_os := (es_os s)\<lparr>os_sems := (os_sems (es_os s))(k := None)\<rparr>,
    es_status := WM_EV_ST_NOT_INIT, es_callers := []\<rparr>)"
  have "ev_do env qsize (ActCaller 0) s = Steps ?s" using exit_return
    by (auto simp: ev_do_def ev_caller_step_def wm_os_internal_sem_delete_def drop_nth_def)
  moreover have "ev_exit qsize q k p rs 0 ?s" using exit_return
    by (intro ev_exit.exit_over) (simp_all add: exit_done_def ev_return_def)
  ultimately show ?thesis using exit_return(1) by auto
qed (simp_all add: exit_late_def ev_do_def ev_caller_step_def wm_os_internal_sem_acquire_def)

lemma ev_exit_progress:
  assumes "ev_exit qsize q k p rs n s" and "n \<noteq> 0"
  shows "ev_do env qsize (ActTask 0) s \<noteq> Blocked \<or> ev_do env qsize (ActCaller 0) s \<noteq> Blocked"
  using assms(1)
proof cases
  case (exit_send ps c r)
  then have "es_queue s = Some q" by (simp add: exit_early_def)
  then have "ev_do env qsize (ActCaller 0) s \<noteq> Blocked"
    using exit_send by (cases c) (auto simp: ev_do_def ev_caller_step_def wm_os_internal_queue_send_def exit_early_def Let_def)
  then show ?thesis ..
next
  case (exit_queued ps)
  then show ?thesis using exit_early_task [OF exit_queued(2) disjI2 [OF refl], of env qsize] by auto
qed (use assms(2) in \<open>auto simp: exit_late_def exit_done_def ev_do_def ev_task_step_def ev_caller_step_def os_defs One_nat_def
      split: outcome.splits\<close>)

text \<open>All runs of the two: bounded, and at the end the call has returned.\<close>

lemma ev_exit_runs:
  assumes "ev_exit qsize q k p rs n s" and "set acts \<subseteq> {ActTask 0, ActCaller 0}" and "ev_runs env qsize acts s = r"
  shows "r = Blocked \<or> (\<exists>s' m. r = Steps s' \<and> ev_exit qsize q k p rs m s' \<and> length acts + m \<le> n)"
  using assms
proof (induction acts arbitrary: s n)
  case (Cons a acts)
  have "ev_do env qsize a s = Blocked \<or>
    (\<exists>s' m. ev_do env qsize a s = Steps s' \<and> ev_exit qsize q k p rs m s' \<and> m < n)"
    using Cons.prems(2) ev_exit_task [OF Cons.prems(1)] ev_exit_caller [OF Cons.prems(1)] by auto
  then show ?case
  proof
    assume "\<exists>s' m. ev_do env qsize a s = Steps s' \<and> ev_exit qsize q k p rs m s' \<and> m < n"
    then obtain s' m where m: "ev_do env qsize a s = Steps s'" "ev_exit qsize q k p rs m s'" "m < n" by blast
    have r: "ev_runs env qsize acts s' = r" using Cons.prems(3) m(1) by simp
    have sub: "set acts \<subseteq> {ActTask 0, ActCaller 0}" using Cons.prems(2) by simp
    show ?case using Cons.IH [OF m(2) sub r] m(3) by fastforce
  qed (use Cons.prems(3) in simp)
qed auto

end
