(* ===== verification/EventProps.thy ===== *)
theory EventProps
  imports EventExit
begin

text \<open>Properties of the event component, each with the concrete run that shows its hypotheses can
  hold.\<close>

section \<open>Further facts\<close>

lemma ev_do_accepted:
  assumes "ev_do env qsize a s = Steps s'"
  shows "\<exists>xs. es_accepted s' = es_accepted s @ xs"
proof -
  have f: "ev_free p s = Steps t \<Longrightarrow> es_accepted t = es_accepted s" for p s t
    by (auto simp: ev_free_def split: option.splits)
  have n: "es_accepted (ev_enter (ev_new_message env n ev k s)) = es_accepted s" for n ev k s
    by (simp add: ev_new_message_def ev_enter_def ev_return_def)
  have i: "es_accepted (ev_enter (wm_event_send_internal_ev env op g e cb priv k s)) = es_accepted s" for op g e cb priv k s
    using n by (simp add: wm_event_send_internal_ev_def) (simp add: ev_enter_def ev_return_def)
  show ?thesis
  proof (cases a)
    case (ActInit mem task)
    then show ?thesis using assms
      by (auto simp: ev_do_def wm_event_init_def Let_def ev_return_def split: if_splits prod.splits outcome.splits)
  next
    case (ActDeinit mem)
    then show ?thesis using assms
      by (auto simp: ev_do_def wm_event_deinit_def wm_event_send_internal_ev_def ev_new_message_def ev_enter_def
          ev_return_def Let_def split: prod.splits sum.splits if_splits)
  next
    case (ActSend g e d m)
    then show ?thesis using assms n
      by (auto simp: ev_do_def wm_event_send_def if_distrib [of ev_enter] if_distrib [of es_accepted])
        (auto simp: ev_enter_def ev_return_def)
  next
    case (ActCaller j)
    then show ?thesis using assms
      by (cases "es_callers s ! j")
        (auto simp: ev_do_def ev_caller_step_def ev_send_failed_def Let_def ev_return_def dest!: f
          split: if_splits outcome.splits sum.splits prod.splits ev_kind.splits)
  next
    case (ActTask j)
    then show ?thesis using assms
      by (cases "es_tasks s ! j")
        (auto simp: ev_do_def ev_task_step_def Let_def dest!: f split: if_splits outcome.splits option.splits prod.splits)
  qed (use assms i in \<open>auto simp: ev_do_def wm_event_add_callback_def wm_event_remove_callback_def\<close>)
qed

lemma ev_runs_accepted:
  "ev_runs env qsize acts s = Steps s' \<Longrightarrow> \<exists>xs. es_accepted s' = es_accepted s @ xs"
proof (induction acts arbitrary: s)
  case (Cons a acts)
  then obtain t where t: "ev_do env qsize a s = Steps t" "ev_runs env qsize acts t = Steps s'"
    by (auto split: outcome.splits)
  then show ?case using Cons.IH [OF t(2)] ev_do_accepted [OF t(1)] by auto
qed simp

lemma ev_runs_append:
  "ev_runs env qsize (xs @ ys) s =
    (case ev_runs env qsize xs s of Fault \<Rightarrow> Fault | Blocked \<Rightarrow> Blocked | Steps t \<Rightarrow> ev_runs env qsize ys t)"
  by (induction xs arbitrary: s) (auto split: outcome.splits)

lemma ev_reach_runs:
  assumes "ev_reach env qsize P s0 s" and "\<forall>a \<in> set acts. P a" and "ev_runs env qsize acts s = Steps s'"
  shows "ev_reach env qsize P s0 s'"
  using assms
proof (induction acts arbitrary: s)
  case (Cons a acts)
  then obtain t where t: "ev_do env qsize a s = Steps t" "ev_runs env qsize acts t = Steps s'"
    by (auto split: outcome.splits)
  then show ?case using Cons.IH [OF ev_reach_step [OF Cons.prems(1) _ t(1)]] Cons.prems(2) by auto
qed simp

text \<open>How many messages wait.\<close>

definition ev_waiting :: "ev_sys \<Rightarrow> nat" where
  "ev_waiting s = length (es_accepted s) - length (es_received s)"

lemma ev_waiting_pending: "ev_ok s \<Longrightarrow> ev_waiting s = length (ev_pending s)"
  by (auto simp: ev_ok_def ev_idle_def ev_running_def ev_waiting_def)

text \<open>Going on as long as possible ends the exit.\<close>

lemma ev_exit_ends:
  assumes "ev_exit qsize q k p rs n s"
  shows "\<exists>acts s'. set acts \<subseteq> {ActTask 0, ActCaller 0} \<and> ev_runs env qsize acts s = Steps s' \<and> es_callers s' = []"
  using assms
proof (induction n arbitrary: s rule: less_induct)
  case (less n)
  show ?case
  proof (cases "n = 0")
    case True
    have "es_callers s = []" using less.prems True by (cases rule: ev_exit.cases) simp_all
    then show ?thesis by (intro exI [of _ "[]"] exI [of _ s]) simp
  next
    case False
    then obtain a s1 m where a: "a \<in> {ActTask 0, ActCaller 0}" "ev_do env qsize a s = Steps s1"
      "ev_exit qsize q k p rs m s1" "m < n"
      using ev_exit_progress [OF less.prems, of env] ev_exit_task [OF less.prems, of env]
        ev_exit_caller [OF less.prems, of env] by auto
    obtain acts s' where "set acts \<subseteq> {ActTask 0, ActCaller 0}" "ev_runs env qsize acts s1 = Steps s'" "es_callers s' = []"
      using less.IH [OF a(4,3)] by blast
    then show ?thesis using a(1,2) by (intro exI [of _ "a # acts"] exI [of _ s']) auto
  qed
qed

text \<open>A call of \<open>wm_event_deinit\<close> enters the first phase of the exit.\<close>

lemma ev_exit_enter:
  assumes "heap_ok env" and "ev_ok s" and "es_callers s = []" and "es_queue s = Some q"
    and "ev_waiting s < os_queue_len qsize" and "ev_do env qsize (ActDeinit True) s = Steps s1"
  shows "\<exists>n. ev_exit qsize q (os_next (es_os s)) (es_brk s) (es_returned s) n s1 \<and> n \<le> 2 * ev_waiting s + 16"
proof -
  let ?k = "os_next (es_os s)" and ?p = "es_brk s"
  have run: "ev_running s" using assms(2,4) by (auto simp: ev_ok_def ev_idle_def)
  then obtain qs where ps: "es_status s = WM_EV_ST_INITED" "os_queues (es_os s) q = Some qs"
    "es_tasks s = [TaskLoop] \<or> es_tasks s = [TaskWait (Some q)]"
    "es_accepted s = es_received s @ map (the \<circ> es_heap s) qs"
    using assms(4) by (auto simp: ev_running_def)
  have pend: "ev_pending s = qs" using assms(4) ps(2) by simp
  have own: "distinct qs" "set qs = dom (es_heap s)" "?p \<notin> dom (es_heap s)"
    using assms(2,3) pend by (auto simp: ev_ok_def ev_heap_ok_def ev_owners_def)
  have w: "ev_waiting s = length qs" using ev_waiting_pending [OF assms(2)] pend by simp
  let ?s = "s\<lparr>es_os := (es_os s)\<lparr>os_sems := (os_sems (es_os s))(?k := Some 0), os_next := Suc ?k\<rparr>,
    es_heap := (es_heap s)(?p := Some (exit_message ?k)), es_brk := Suc ?p,
    es_callers := [CallerNew (CallDeinit (Some ?k)) ?p]\<rparr>"
  have "s1 = ?s"
    using assms(1,3,6) ps(1)
    by (simp add: ev_do_def wm_event_deinit_def wm_os_internal_sem_create_def wm_event_send_internal_ev_def
        ev_new_message_def ev_enter_def exit_message_def Let_def)
  moreover have "?p \<notin> set qs" using own(2,3) by simp
  then have d: "map (the \<circ> (es_heap s)(?p := Some (exit_message ?k))) qs = map (the \<circ> es_heap s) qs"
    "distinct (qs @ [?p])" "\<forall>x \<in> set qs. \<forall>ev. es_heap ?s x = Some ev \<longrightarrow> eh_op ev \<noteq> MSG_EXIT"
    using own(1) assms(2) by (auto simp: ev_ok_def ev_no_exit_def)
  have e: "es_status ?s = WM_EV_ST_INITED" "es_queue ?s = Some q" "os_sems (es_os ?s) ?k = Some 0"
    "es_tasks ?s = [TaskLoop] \<or> es_tasks ?s = [TaskWait (Some q)]" "os_queues (es_os ?s) q = Some (qs @ [])"
    "es_heap ?s ?p = Some (exit_message ?k)" "dom (es_heap ?s) = set (qs @ [?p])"
    using ps(1-3) assms(4) own(2) by simp_all
  have "es_accepted ?s = es_received ?s @ map (the \<circ> es_heap ?s) (qs @ [])"
    unfolding append_Nil2 using d(1) ps(4) by simp
  then have "exit_early q ?k ?p qs [] ?s"
    unfolding exit_early_def using e d(2,3) by (intro conjI) assumption+
  then have "ev_exit qsize q ?k ?p (es_returned s) (12 + 3 + task_rank ?s + 2 * length qs) ?s"
    using assms(5) w by (intro ev_exit.exit_send [where c = "CallerNew (CallDeinit (Some ?k)) ?p"]) simp_all
  ultimately show ?thesis using w by (auto simp: task_rank_def intro!: exI [of _ "12 + 3 + task_rank ?s + 2 * length qs"])
qed

text \<open>Calls of the interface on the concrete component.\<close>

lemmas ev_run_simps = ev_do_def ev_caller_step_def ev_task_step_def wm_event_init_def wm_event_deinit_def
  wm_event_send_def wm_event_add_callback_def wm_event_send_internal_ev_def ev_new_message_def ev_enter_def
  ev_return_def drop_nth_def ev_free_def wm_event_proc_def os_defs os_queue_len_def ev_send_failed_def

definition demo_serve :: "ev_act list" where
  "demo_serve = [ActInit True True, ActAdd (Some 1) 5 (Some 100) None, ActCaller 0, ActCaller 0, ActCaller 0,
     ActSend (Some 1) 5 None 0, ActCaller 0, ActCaller 0, ActCaller 0]"

lemma demo_serve_run:
  "\<exists>s. ev_runs demo_env 32 demo_serve ev_start = Steps s \<and> es_callers s = [] \<and> es_queue s = Some 0 \<and>
    es_tasks s = [TaskLoop] \<and> length (es_accepted s) = 2 \<and> es_received s = [] \<and> es_called s = [] \<and>
    es_heap s 0 = Some \<lparr>eh_op = MSG_ADD, eh_group = Some 1, eh_ev = 5, eh_data = None, eh_size = 0, eh_cb = Some 100, eh_priv = None\<rparr> \<and>
    es_heap s 1 = Some \<lparr>eh_op = MSG_EVENT, eh_group = Some 1, eh_ev = 5, eh_data = None, eh_size = 0, eh_cb = None, eh_priv = None\<rparr> \<and>
    os_queues (es_os s) 0 = Some [0, 1] \<and> es_status s = WM_EV_ST_INITED \<and> es_list s = []"
  by (simp add: demo_serve_def ev_run_simps ev_start_def os_empty_def Let_def One_nat_def)

definition demo_race :: "ev_act list" where
  "demo_race = [ActInit True True, ActSend (Some 1) 5 None 0, ActCaller 0, ActDeinit True,
     ActCaller 1, ActCaller 1, ActCaller 1, ActTask 0, ActTask 0, ActTask 0, ActCaller 0]"

lemma demo_race_run:
  "\<exists>s. ev_runs demo_env 32 demo_race ev_start = Steps s \<and> es_callers s ! 0 = CallerLoaded CallSend 0 None \<and>
    ev_do demo_env 32 (ActCaller 0) s = Fault"
  by (simp add: demo_race_def ev_run_simps ev_start_def os_empty_def Let_def One_nat_def)

lemma demo_served_run:
  "\<exists>s. ev_runs demo_env 32 (demo_serve @ replicate 4 (ActTask 0)) ev_start = Steps s \<and>
    es_called s = [(Some 100, Some 1, 5, None, None)] \<and> length (es_received s) = 2"
  by (simp add: demo_serve_def ev_run_simps ev_start_def os_empty_def Let_def One_nat_def numeral_eq_Suc
      ev_match_def ev_run_callback_def)

lemma demo_serve_plain: "\<forall>a \<in> set (demo_serve @ replicate n (ActTask 0)). ev_plain a"
  by (simp add: demo_serve_def)

lemma demo_serve_reach:
  "\<exists>s. ev_reach demo_env 32 ev_plain ev_start s \<and> es_callers s = [] \<and> es_queue s = Some 0 \<and>
    ev_waiting s = 2 \<and> length (es_accepted s) = 2 \<and> es_status s = WM_EV_ST_INITED"
proof -
  obtain s where s: "ev_runs demo_env 32 demo_serve ev_start = Steps s" "es_callers s = []" "es_queue s = Some 0"
    "length (es_accepted s) = 2" "es_received s = []" "es_status s = WM_EV_ST_INITED"
    using demo_serve_run by blast
  have "ev_reach demo_env 32 ev_plain ev_start s"
    by (rule ev_reach_runs [OF ev_reach_start _ s(1)]) (use demo_serve_plain [of 0] in simp)
  then show ?thesis using s by (intro exI [of _ s]) (simp add: ev_waiting_def)
qed

section \<open>Serving\<close>

text \<open>C7. Every run without exit refines the sequential registry: the task takes the messages in
  the order the queue accepted them, none lost and none twice, and the callbacks run are, message
  by message, each subscribed callback that matches the event exactly once, where subscribed
  means added by an earlier message and not removed since.\<close>

theorem event_delivery_exact:
  assumes "heap_ok env" and "ev_reach env qsize ev_plain ev_start s"
  shows "(\<exists>waiting. es_accepted s = es_received s @ waiting) \<and>
    (\<exists>bs. es_called s = concat bs \<and> length bs = length (es_received s) \<and>
      (\<forall>i < length bs. ev_batch (es_received s) i (bs ! i)))"
  using ev_ok_reach [OF assms(2)] ev_served_reach [OF assms]
  by (auto simp: ev_ok_def ev_idle_def ev_running_def ev_served_def)

theorem event_delivery_exact_witness:
  "\<exists>s bs. ev_reach demo_env 32 ev_plain ev_start s \<and> es_called s = [(Some 100, Some 1, 5, None, None)] \<and>
    es_called s = concat bs \<and> length bs = 2 \<and> (\<forall>i < 2. ev_batch (es_received s) i (bs ! i))"
proof -
  obtain s where s: "ev_runs demo_env 32 (demo_serve @ replicate 4 (ActTask 0)) ev_start = Steps s"
    "es_called s = [(Some 100, Some 1, 5, None, None)]" "length (es_received s) = 2"
    using demo_served_run by blast
  have r: "ev_reach demo_env 32 ev_plain ev_start s" by (rule ev_reach_runs [OF ev_reach_start demo_serve_plain s(1)])
  show ?thesis using event_delivery_exact [OF demo_env_heap r] r s(2,3) by metis
qed

text \<open>C9. In a run without an exit and without a failed task creation in \<open>wm_event_init\<close> (\<open>ev_plain\<close>)
  no further such step touches a null or deleted object, every live message is with exactly one owner, the queue or one call, and when no call is in progress and nothing
  waits, no message is left over.\<close>

theorem event_messages_owned_once:
  assumes "ev_reach env qsize ev_plain ev_start s"
  shows "(\<forall>a. ev_plain a \<longrightarrow> ev_do env qsize a s \<noteq> Fault) \<and> distinct (ev_owners s) \<and>
    dom (es_heap s) = set (ev_owners s) \<and>
    (es_callers s = [] \<and> es_received s = es_accepted s \<longrightarrow> es_heap s = Map.empty)"
proof -
  have ok: "ev_ok s" by (rule ev_ok_reach [OF assms])
  then have h: "distinct (ev_owners s)" "dom (es_heap s) = set (ev_owners s)" by (auto simp: ev_ok_def ev_heap_ok_def)
  have "es_heap s = Map.empty" if "es_callers s = []" "es_received s = es_accepted s"
  proof -
    have "ev_pending s = []" using ev_waiting_pending [OF ok] that(2) by (simp add: ev_waiting_def)
    then show ?thesis using h(2) that(1) by (simp add: ev_owners_def)
  qed
  then show ?thesis using h ev_ok_do [OF ok] by blast
qed

theorem event_messages_owned_once_witness:
  "\<exists>s. ev_reach demo_env 32 ev_plain ev_start s \<and> length (es_accepted s) = 2 \<and>
    ev_do demo_env 32 (ActTask 0) s \<noteq> Fault \<and> distinct (ev_owners s)"
proof -
  obtain s where s: "ev_reach demo_env 32 ev_plain ev_start s" "length (es_accepted s) = 2"
    using demo_serve_reach by blast
  then show ?thesis using event_messages_owned_once [OF s(1)] by (intro exI [of _ s]) simp
qed

text \<open>C20. Nothing accepted stays: from any state that a run without an exit and without a failed task
  creation reaches, and in which the queue exists, the task alone handles every message that
  waits, in at most two steps for each and one more.\<close>

theorem event_queue_drains:
  assumes "ev_reach env qsize ev_plain ev_start s" and "es_queue s \<noteq> None"
  shows "\<exists>n s'. n \<le> 2 * ev_waiting s + 1 \<and> ev_runs env qsize (replicate n (ActTask 0)) s = Steps s' \<and>
    es_accepted s' = es_accepted s \<and> es_received s' = es_accepted s"
proof -
  have pairs: "concat (replicate n [ActTask 0, ActTask 0]) = replicate (2 * n) (ActTask 0)" for n
    by (induction n) auto
  have ok: "ev_ok s" by (rule ev_ok_reach [OF assms(1)])
  then have "ev_running s" using assms(2) by (auto simp: ev_ok_def ev_idle_def)
  then obtain q ps where q: "es_queue s = Some q" "os_queues (es_os s) q = Some ps"
    "es_tasks s = [TaskLoop] \<or> es_tasks s = [TaskWait (Some q)]" "es_accepted s = es_received s @ map (the \<circ> es_heap s) ps"
    by (auto simp: ev_running_def)
  have w: "ev_waiting s = length ps" using q(4) by (simp add: ev_waiting_def)
  show ?thesis
  proof (cases "es_tasks s = [TaskLoop] \<or> ps = []")
    case True
    then show ?thesis
    proof
      assume "es_tasks s = [TaskLoop]"
      then show ?thesis using ev_task_drains [OF ok q(1) _ q(2), of env qsize] w
        by (intro exI [of _ "2 * length ps"]) (auto simp: pairs)
    next
      assume "ps = []"
      then show ?thesis using q(4) by (intro exI [of _ 0]) simp
    qed
  next
    case False
    then obtain x xs where x: "ps = x # xs" "es_tasks s = [TaskWait (Some q)]" using q(3) by (cases ps) auto
    have "x \<in> set (ev_owners s)" using q(1,2) x(1) by (simp add: ev_owners_def)
    then have "x \<in> dom (es_heap s)" using ok by (auto simp: ev_ok_def ev_heap_ok_def)
    then obtain ev where ev: "es_heap s x = Some ev" by blast
    have op: "eh_op ev \<noteq> MSG_EXIT" using ok ev by (auto simp: ev_ok_def ev_no_exit_def)
    obtain s1 where s1: "ev_do env qsize (ActTask 0) s = Steps s1" "os_queues (es_os s1) q = Some xs"
      "es_tasks s1 = [TaskLoop]" "es_queue s1 = Some q" "es_accepted s1 = es_accepted s"
      using ev_task_takes [of s q x xs ev env qsize] q(1,2) x ev op by auto
    have "ev_ok s1" using ev_ok_task_step [OF ok, of env qsize 0] s1(1) by auto
    then obtain s' where s': "ev_runs env qsize (replicate (2 * length xs) (ActTask 0)) s1 = Steps s'"
      "es_accepted s' = es_accepted s1" "es_received s' = es_accepted s1"
      using ev_task_drains [OF _ s1(4,3,2), of env qsize] pairs by auto
    then show ?thesis using s1(1,5) w x(1) by (intro exI [of _ "Suc (2 * length xs)"] exI [of _ s']) simp
  qed
qed

theorem event_queue_drains_witness:
  "\<exists>s n s'. ev_waiting s = 2 \<and> n \<le> 5 \<and> ev_runs demo_env 32 (replicate n (ActTask 0)) s = Steps s' \<and>
    length (es_received s') = 2"
proof -
  obtain s where s: "ev_reach demo_env 32 ev_plain ev_start s" "es_queue s = Some 0" "ev_waiting s = 2" "length (es_accepted s) = 2"
    using demo_serve_reach by blast
  then obtain n s' where n: "n \<le> 2 * ev_waiting s + 1" "ev_runs demo_env 32 (replicate n (ActTask 0)) s = Steps s'"
    "es_received s' = es_accepted s" using event_queue_drains [OF s(1)] by auto
  have "n \<le> 5" using n(1) s(3) by simp
  then show ?thesis using n(2,3) s(3,4) by metis
qed

section \<open>Leaving\<close>

text \<open>C8. From a state reached without an exit or a failed task creation, a call of
  \<open>wm_event_deinit\<close> that is the only call in progress, with room in the queue and memory for its
  message and its semaphore, returns success: however its steps and those of the task alternate,
  there are at most \<open>16\<close> and two for each message that waited, one of the two can always go on until the call is back, and then every message accepted
  before was handled, no message, callback, task or queue is left and the component can be
  started again.\<close>

theorem event_deinit_returns:
  assumes "heap_ok env" and "ev_reach env qsize ev_plain ev_start s" and "es_callers s = []"
    and "es_queue s = Some q" and "ev_waiting s < os_queue_len qsize"
    and "ev_do env qsize (ActDeinit True) s = Steps s1" and "set acts \<subseteq> {ActTask 0, ActCaller 0}"
    and "ev_runs env qsize acts s1 = Steps s2"
  shows "length acts \<le> 2 * ev_waiting s + 16 \<and>
    (if es_callers s2 = []
     then es_returned s2 = es_returned s @ [WM_ERR_SUCCESS] \<and>
       (\<exists>xs. es_received s2 = es_accepted s @ xs) \<and> es_heap s2 = Map.empty \<and> es_list s2 = [] \<and>
       es_tasks s2 = [] \<and> es_queue s2 = None \<and> os_queues (es_os s2) q = None \<and> es_status s2 = WM_EV_ST_NOT_INIT
     else \<exists>a s3. a \<in> {ActTask 0, ActCaller 0} \<and> ev_do env qsize a s2 = Steps s3)"
proof -
  let ?k = "os_next (es_os s)" and ?p = "es_brk s"
  obtain n where n: "ev_exit qsize q ?k ?p (es_returned s) n s1" "n \<le> 2 * ev_waiting s + 16"
    using ev_exit_enter [OF assms(1) ev_ok_reach [OF assms(2)] assms(3-6)] by blast
  obtain m where m: "ev_exit qsize q ?k ?p (es_returned s) m s2" "length acts + m \<le> n"
    using ev_exit_runs [OF n(1) assms(7,8)] by auto
  obtain xs where xs: "es_accepted s2 = es_accepted s @ xs"
    using ev_do_accepted [OF assms(6)] ev_runs_accepted [OF assms(8)] by auto
  have "length acts \<le> 2 * ev_waiting s + 16" using n(2) m(2) by simp
  moreover have "\<exists>a s3. a \<in> {ActTask 0, ActCaller 0} \<and> ev_do env qsize a s2 = Steps s3" if "es_callers s2 \<noteq> []"
  proof -
    have "m \<noteq> 0" using m(1) that by (cases rule: ev_exit.cases) simp_all
    then show ?thesis
      using ev_exit_progress [OF m(1), of env] ev_exit_task [OF m(1), of env] ev_exit_caller [OF m(1), of env] by auto
  qed
  moreover have "es_returned s2 = es_returned s @ [WM_ERR_SUCCESS] \<and> es_received s2 = es_accepted s @ xs \<and>
      es_heap s2 = Map.empty \<and> es_list s2 = [] \<and> es_tasks s2 = [] \<and> es_queue s2 = None \<and>
      os_queues (es_os s2) q = None \<and> es_status s2 = WM_EV_ST_NOT_INIT" if "es_callers s2 = []"
    using m(1) that xs by (cases rule: ev_exit.cases) (simp_all add: exit_done_def exit_late_def)
  ultimately show ?thesis by auto
qed

theorem event_deinit_returns_witness:
  "\<exists>s s1 acts s2. ev_waiting s = 2 \<and> ev_do demo_env 32 (ActDeinit True) s = Steps s1 \<and>
    ev_runs demo_env 32 acts s1 = Steps s2 \<and> es_callers s2 = [] \<and>
    es_returned s2 = es_returned s @ [WM_ERR_SUCCESS] \<and> es_heap s2 = Map.empty \<and> es_tasks s2 = []"
proof -
  obtain s where s: "ev_reach demo_env 32 ev_plain ev_start s" "es_callers s = []" "es_queue s = Some 0"
    "ev_waiting s = 2" using demo_serve_reach by blast
  have room: "ev_waiting s < os_queue_len 32" using s(4) by (simp add: os_queue_len_def)
  obtain s1 where s1: "ev_do demo_env 32 (ActDeinit True) s = Steps s1" by (simp add: ev_do_def)
  obtain n where n: "ev_exit 32 0 (os_next (es_os s)) (es_brk s) (es_returned s) n s1"
    using ev_exit_enter [OF demo_env_heap ev_ok_reach [OF s(1)] s(2,3) room s1] by blast
  obtain acts s2 where r: "set acts \<subseteq> {ActTask 0, ActCaller 0}" "ev_runs demo_env 32 acts s1 = Steps s2" "es_callers s2 = []"
    using ev_exit_ends [OF n] by blast
  show ?thesis
    using event_deinit_returns [OF demo_env_heap s(1-3) room s1 r(1,2)] r s(4) s1 by auto
qed

section \<open>Where the exit goes wrong\<close>

text \<open>A call that waits for a semaphore nobody will release: no message, task or other call knows
  it.\<close>

fun task_sem :: "ev_task \<Rightarrow> ptr" where
  "task_sem (TaskStop x) = x"
| "task_sem (TaskClear q x) = x"
| "task_sem (TaskDelete q x) = x"
| "task_sem _ = None"

fun caller_sem :: "ev_caller \<Rightarrow> ptr" where
  "caller_sem (CallerNew (CallDeinit x) p) = x"
| "caller_sem (CallerTested (CallDeinit x) p) = x"
| "caller_sem (CallerLoaded (CallDeinit x) p q) = x"
| "caller_sem (CallerEnd x r) = x"
| "caller_sem _ = None"

definition ev_orphan :: "nat \<Rightarrow> ev_sys \<Rightarrow> bool" where
  "ev_orphan k s \<longleftrightarrow> CallerWait (Some k) \<in> set (es_callers s) \<and> os_sems (es_os s) k = Some 0 \<and>
     k < os_next (es_os s) \<and>
     (\<forall>p ev. es_heap s p = Some ev \<longrightarrow> eh_op ev = MSG_EXIT \<longrightarrow> eh_priv ev \<noteq> Some k) \<and>
     (\<forall>t \<in> set (es_tasks s). task_sem t \<noteq> Some k) \<and> (\<forall>c \<in> set (es_callers s). caller_sem c \<noteq> Some k)"

lemma in_set_others:
  assumes "x \<in> set xs" and "i < length xs" and "xs ! i \<noteq> x"
  shows "x \<in> set (xs[i := y])" and "x \<in> set (drop_nth i xs)"
proof -
  have "xs = take i xs @ xs ! i # drop (Suc i) xs" using assms(2) by (rule id_take_nth_drop)
  then have "x \<in> set (take i xs) \<or> x \<in> set (drop (Suc i) xs)"
    using assms(1,3) by (metis in_set_conv_decomp_last set_ConsD Un_iff set_append)
  then show "x \<in> set (xs[i := y])" "x \<in> set (drop_nth i xs)"
    using assms(2) by (auto simp: drop_nth_def upd_conv_take_nth_drop)
qed

lemma ev_orphan_return [simp]: "ev_orphan k (ev_return r s) = ev_orphan k s"
  by (simp add: ev_orphan_def ev_return_def)

lemma ev_orphan_new:
  assumes "ev_orphan k s" and "eh_op ev = MSG_EXIT \<longrightarrow> eh_priv ev \<noteq> Some k" and "\<And>p. caller_sem (CallerNew j p) \<noteq> Some k"
  shows "ev_orphan k (ev_enter (ev_new_message env n ev j s))"
proof (cases "alloc_ok env n")
  case True
  then show ?thesis using assms
    by (simp add: ev_new_message_def ev_enter_def) (auto simp: ev_orphan_def)
next
  case False
  then show ?thesis using assms(1) by (simp add: ev_new_message_def ev_enter_def)
qed

lemma ev_orphan_free:
  assumes "ev_orphan k s" and "ev_free p s = Steps t"
  shows "ev_orphan k t" and "es_callers t = es_callers s"
  using assms by (auto simp: ev_free_def ev_orphan_def split: option.splits if_splits)

lemma ev_orphan_moves:
  assumes "ev_orphan k s" and "i < length (es_callers s)" and "es_callers s ! i \<noteq> CallerWait (Some k)"
  shows "ev_orphan k (s\<lparr>es_callers := drop_nth i (es_callers s)\<rparr>)"
    and "caller_sem c \<noteq> Some k \<Longrightarrow> ev_orphan k (s\<lparr>es_callers := (es_callers s)[i := c]\<rparr>)"
proof -
  have w: "CallerWait (Some k) \<in> set (es_callers s)" using assms(1) by (simp add: ev_orphan_def)
  show "ev_orphan k (s\<lparr>es_callers := drop_nth i (es_callers s)\<rparr>)"
    using in_set_others(2) [OF w assms(2,3)] set_drop_nth [of i "es_callers s"] assms(1)
    by (auto simp: ev_orphan_def)
  show "ev_orphan k (s\<lparr>es_callers := (es_callers s)[i := c]\<rparr>)" if "caller_sem c \<noteq> Some k"
    using in_set_others(1) [OF w assms(2,3), of c] set_update_subset_insert [of "es_callers s" i c] assms(1) that
    by (auto simp: ev_orphan_def)
qed

lemma ev_orphan_os:
  "ev_orphan k s \<Longrightarrow> os_sems os k = Some 0 \<Longrightarrow> k < os_next os \<Longrightarrow> ev_orphan k (s\<lparr>es_os := os\<rparr>)"
  by (simp add: ev_orphan_def)

lemma ev_orphan_sem: "ev_orphan k s \<Longrightarrow> os_sems (es_os s) k = Some 0 \<and> k < os_next (es_os s)"
  by (simp add: ev_orphan_def)

lemma ev_orphan_cong:
  "es_callers s' = es_callers s \<Longrightarrow> es_os s' = es_os s \<Longrightarrow> es_heap s' = es_heap s \<Longrightarrow> es_tasks s' = es_tasks s \<Longrightarrow>
    ev_orphan k s' = ev_orphan k s"
  by (simp add: ev_orphan_def)

lemma os_keeps_sem:
  "wm_os_internal_queue_receive q os = Steps (p, os') \<Longrightarrow> os_sems os' = os_sems os \<and> os_next os' = os_next os"
  "wm_os_internal_queue_send n q p os = Steps (b, os') \<Longrightarrow> os_sems os' = os_sems os \<and> os_next os' = os_next os"
  "wm_os_internal_queue_delete q os = Steps os' \<Longrightarrow> os_sems os' = os_sems os \<and> os_next os' = os_next os"
  "wm_os_internal_sem_release x os = Steps os' \<Longrightarrow> x \<noteq> Some k \<Longrightarrow> os_sems os' k = os_sems os k \<and> os_next os' = os_next os"
  "wm_os_internal_sem_acquire x os = Steps os' \<Longrightarrow> x \<noteq> Some k \<Longrightarrow> os_sems os' k = os_sems os k \<and> os_next os' = os_next os"
  "wm_os_internal_sem_delete x os = Steps os' \<Longrightarrow> x \<noteq> Some k \<Longrightarrow> os_sems os' k = os_sems os k \<and> os_next os' = os_next os"
  by (auto simp: os_defs split: option.splits list.splits if_splits nat.splits)

lemma ev_orphan_failed:
  assumes "ev_orphan k s" and "caller_sem (CallerNew j p) \<noteq> Some k" and "ev_send_failed j p s = Steps (x, t)"
  shows "ev_orphan k t \<and> es_callers t = es_callers s \<and> (\<forall>c. x = Inr c \<longrightarrow> caller_sem c \<noteq> Some k)"
proof -
  obtain u where u: "ev_free p s = Steps u" using assms(3) by (auto simp: ev_send_failed_def split: outcome.splits)
  then show ?thesis using assms(2,3) ev_orphan_free [OF assms(1) u]
    by (cases j) (auto simp: ev_send_failed_def)
qed

lemma ev_orphan_caller_step:
  assumes "ev_orphan k s" and "c \<in> set (es_callers s)" and "ev_caller_step qsize c s = Steps (x, t)"
  shows "c \<noteq> CallerWait (Some k) \<and> ev_orphan k t \<and> es_callers t = es_callers s \<and>
    (\<forall>c'. x = Inr c' \<longrightarrow> caller_sem c' \<noteq> Some k)"
proof -
  have sem: "caller_sem c \<noteq> Some k" "os_sems (es_os s) k = Some 0" using assms(1,2) by (auto simp: ev_orphan_def)
  show ?thesis
  proof (cases c)
    case (CallerNew j p)
    then show ?thesis using assms sem ev_orphan_failed [OF assms(1), of j p x t]
      by (cases j) (auto simp: ev_caller_step_def split: if_splits)
  next
    case (CallerTested j p)
    then show ?thesis using assms sem by (cases j) (auto simp: ev_caller_step_def)
  next
    case (CallerLoaded j p q)
    then obtain ok os where o: "wm_os_internal_queue_send qsize q p (es_os s) = Steps (ok, os)"
      using assms(3) by (auto simp: ev_caller_step_def split: outcome.splits)
    have sem': "caller_sem (CallerNew j p) \<noteq> Some k" using sem(1) CallerLoaded by (cases j) auto
    show ?thesis
    proof (cases ok)
      case False
      then show ?thesis using CallerLoaded o assms(3) ev_orphan_failed [OF assms(1) sem']
        by (auto simp: ev_caller_step_def)
    next
      case True
      let ?t = "s\<lparr>es_os := os, es_accepted := es_accepted s @ [the (es_heap s p)]\<rparr>"
      have "ev_orphan k ?t"
        using ev_orphan_os [OF assms(1), of os] ev_orphan_sem [OF assms(1)] os_keeps_sem(2) [OF o]
          ev_orphan_cong [of ?t "s\<lparr>es_os := os\<rparr>"] by simp
      then show ?thesis using CallerLoaded o assms(3) True
        by (cases j) (auto simp: ev_caller_step_def Let_def)
    qed
  next
    case (CallerWait y)
    then obtain os where o: "wm_os_internal_sem_acquire y (es_os s) = Steps os"
      using assms(3) by (auto simp: ev_caller_step_def split: outcome.splits)
    have y: "y \<noteq> Some k" using o sem(2) by (auto simp: wm_os_internal_sem_acquire_def)
    have "ev_orphan k (s\<lparr>es_os := os\<rparr>)"
      using ev_orphan_os [OF assms(1)] ev_orphan_sem [OF assms(1)] os_keeps_sem(5) [OF o y] by simp
    then show ?thesis using CallerWait o y assms(3) by (auto simp: ev_caller_step_def)
  next
    case (CallerEnd y r)
    then obtain os where o: "wm_os_internal_sem_delete y (es_os s) = Steps os"
      using assms(3) by (auto simp: ev_caller_step_def split: outcome.splits)
    have y: "y \<noteq> Some k" using sem(1) CallerEnd by simp
    let ?t = "s\<lparr>es_os := os, es_status := WM_EV_ST_NOT_INIT\<rparr>"
    have "ev_orphan k ?t"
      using ev_orphan_os [OF assms(1), of os] ev_orphan_sem [OF assms(1)] os_keeps_sem(6) [OF o y]
        ev_orphan_cong [of ?t "s\<lparr>es_os := os\<rparr>"] by simp
    then show ?thesis using CallerEnd o assms(3) by (auto simp: ev_caller_step_def)
  qed
qed

lemma ev_orphan_task_step:
  assumes "ev_orphan k s" and "t \<in> set (es_tasks s)" and "ev_task_step env t s = Steps (x, s')"
  shows "ev_orphan k s' \<and> es_tasks s' = es_tasks s \<and> (\<forall>t'. x = Some t' \<longrightarrow> task_sem t' \<noteq> Some k)"
proof -
  have sem: "task_sem t \<noteq> Some k" using assms(1,2) by (auto simp: ev_orphan_def)
  have fr: "es_tasks v = es_tasks u" if "ev_free p u = Steps v" for p u v
    using that by (auto simp: ev_free_def split: option.splits)
  show ?thesis
  proof (cases t)
    case TaskLoop
    then show ?thesis using assms by (auto simp: ev_task_step_def split: if_splits)
  next
    case (TaskWait q)
    then obtain p os where o: "wm_os_internal_queue_receive q (es_os s) = Steps (p, os)"
      using assms(3) by (auto simp: ev_task_step_def split: outcome.splits)
    then obtain ev where ev: "es_heap s p = Some ev"
      using TaskWait assms(3) by (auto simp: ev_task_step_def split: option.splits)
    let ?u = "wm_event_proc env ev (s\<lparr>es_os := os, es_received := es_received s @ [ev]\<rparr>)"
    have u: "ev_orphan k ?u"
      using ev_orphan_os [OF assms(1), of os] ev_orphan_sem [OF assms(1)] os_keeps_sem(1) [OF o]
        ev_orphan_cong [of ?u "s\<lparr>es_os := os\<rparr>"] by simp
    have v: "ev_free p ?u = Steps (?u\<lparr>es_heap := (es_heap s)(p := None)\<rparr>)" using ev by (simp add: ev_free_def)
    have "eh_op ev = MSG_EXIT \<longrightarrow> eh_priv ev \<noteq> Some k" using assms(1) ev by (simp add: ev_orphan_def)
    then show ?thesis using ev_orphan_free [OF u v] fr [OF v] TaskWait o ev v assms(3)
      by (auto simp: ev_task_step_def Let_def split: if_splits)
  next
    case (TaskStop y)
    then show ?thesis using assms sem ev_orphan_cong [of "s\<lparr>es_queue := None\<rparr>" s]
      by (auto simp: ev_task_step_def)
  next
    case (TaskClear q y)
    show ?thesis
    proof (cases "wm_os_internal_queue_receive q (es_os s)")
      case (Steps po)
      obtain p os where po: "po = (p, os)" by (cases po)
      have u: "ev_orphan k (s\<lparr>es_os := os\<rparr>)"
        using ev_orphan_os [OF assms(1), of os] ev_orphan_sem [OF assms(1)] os_keeps_sem(1) Steps po by simp
      obtain v where v: "ev_free p (s\<lparr>es_os := os\<rparr>) = Steps v"
        using TaskClear Steps po assms(3) by (auto simp: ev_task_step_def split: outcome.splits)
      show ?thesis using ev_orphan_free [OF u v] fr [OF v] TaskClear Steps po v assms(3) sem
        by (auto simp: ev_task_step_def)
    qed (use assms TaskClear sem in \<open>auto simp: ev_task_step_def\<close>)
  next
    case (TaskDelete q y)
    then obtain os where o: "wm_os_internal_queue_delete q (es_os s) = Steps os"
      using assms(3) by (auto simp: ev_task_step_def split: outcome.splits)
    have y: "y \<noteq> Some k" using sem TaskDelete by simp
    have k: "os_sems os k = Some 0" "k < os_next os" using os_keeps_sem(3) [OF o] ev_orphan_sem [OF assms(1)] by simp_all
    have "\<exists>os'. os_sems os' k = Some 0 \<and> k < os_next os' \<and> x = None \<and> s' = s\<lparr>es_os := os'\<rparr>"
      using TaskDelete o y k assms(3) os_keeps_sem(4) [of y os _ k]
      by (auto simp: ev_task_step_def split: if_splits outcome.splits)
    then show ?thesis using ev_orphan_os [OF assms(1)] by auto
  qed
qed

lemma ev_orphan_do:
  assumes "ev_orphan k s" and "ev_do env qsize a s = Steps s'"
  shows "ev_orphan k s'"
proof (cases a)
  case (ActInit mem task)
  have "ev_orphan k t" if "wm_event_init mem task s = Steps (r, t)" for r t
    using that assms(1)
    by (auto simp: wm_event_init_def os_defs ev_orphan_def Let_def split: if_splits)
  then show ?thesis using assms(2) ActInit by (auto simp: ev_do_def split: outcome.splits)
next
  case (ActDeinit mem)
  have n: "k \<noteq> os_next (es_os s)" "k < Suc (os_next (es_os s))" using assms(1) by (auto simp: ev_orphan_def)
  obtain ok x os where c: "wm_os_internal_sem_create mem 0 (es_os s) = (ok, x, os)"
    by (cases "wm_os_internal_sem_create mem 0 (es_os s)") auto
  have os: "ev_orphan k (s\<lparr>es_os := os\<rparr>)" "x \<noteq> Some k"
    using assms(1) n c by (auto simp: ev_orphan_def wm_os_internal_sem_create_def split: if_splits)
  let ?ev = "\<lparr>eh_op = MSG_EXIT, eh_group = WM_EVENT_ANY_GROUP, eh_ev = -1, eh_data = None, eh_size = 0,
    eh_cb = None, eh_priv = x\<rparr>"
  have new: "ev_orphan k (ev_enter (ev_new_message env EV_HEADER_SIZE ?ev (CallDeinit x) (s\<lparr>es_os := os\<rparr>)))"
    by (rule ev_orphan_new [OF os(1)]) (use os(2) in simp_all)
  have "ev_orphan k (s\<lparr>es_os := os, es_callers := es_callers s @ [CallerEnd x WM_ERR_FAILED]\<rparr>)"
    using os by (auto simp: ev_orphan_def)
  then have "ev_orphan k (ev_enter (wm_event_deinit env mem s))"
    using new assms(1)
    by (cases "es_status s = WM_EV_ST_INITED"; cases "alloc_ok env EV_HEADER_SIZE")
      (simp_all add: wm_event_deinit_def c wm_event_send_internal_ev_def ev_new_message_def ev_enter_def)
  then show ?thesis using assms(2) ActDeinit by (simp add: ev_do_def)
next
  case (ActSend g e d m)
  have "ev_orphan k (ev_enter (wm_event_send env g e d m s))"
    unfolding wm_event_send_def using ev_orphan_new [OF assms(1)] assms(1) by (auto simp: ev_enter_def)
  then show ?thesis using assms(2) ActSend by (simp add: ev_do_def)
next
  case (ActAdd g e cb priv)
  have "ev_orphan k (ev_enter (wm_event_send_internal_ev env MSG_ADD g e cb priv CallSend s))"
    unfolding wm_event_send_internal_ev_def using ev_orphan_new [OF assms(1)] assms(1) by (auto simp: ev_enter_def)
  then show ?thesis using assms(2) ActAdd by (simp add: ev_do_def wm_event_add_callback_def)
next
  case (ActRemove g e cb priv)
  have "ev_orphan k (ev_enter (wm_event_send_internal_ev env MSG_REMOVE g e cb priv CallSend s))"
    unfolding wm_event_send_internal_ev_def using ev_orphan_new [OF assms(1)] assms(1) by (auto simp: ev_enter_def)
  then show ?thesis using assms(2) ActRemove by (simp add: ev_do_def wm_event_remove_callback_def)
next
  case (ActCaller i)
  have i: "i < length (es_callers s)" using assms(2) ActCaller by (auto simp: ev_do_def split: if_splits)
  obtain x t where x: "ev_caller_step qsize (es_callers s ! i) s = Steps (x, t)"
    using assms(2) ActCaller i by (auto simp: ev_do_def split: outcome.splits)
  have o: "es_callers s ! i \<noteq> CallerWait (Some k)" "ev_orphan k t" "es_callers t = es_callers s"
    "\<forall>c'. x = Inr c' \<longrightarrow> caller_sem c' \<noteq> Some k"
    using ev_orphan_caller_step [OF assms(1) _ x] i by auto
  show ?thesis
    using ev_orphan_moves [OF o(2), of i] o i x assms(2) ActCaller by (cases x) (auto simp: ev_do_def)
next
  case (ActTask i)
  have i: "i < length (es_tasks s)" using assms(2) ActTask by (auto simp: ev_do_def split: if_splits)
  obtain x t where x: "ev_task_step env (es_tasks s ! i) s = Steps (x, t)"
    using assms(2) ActTask i by (auto simp: ev_do_def split: outcome.splits)
  have o: "ev_orphan k t" "es_tasks t = es_tasks s" "\<forall>t'. x = Some t' \<longrightarrow> task_sem t' \<noteq> Some k"
    using ev_orphan_task_step [OF assms(1) _ x] i by auto
  have "ev_orphan k (t\<lparr>es_tasks := ts\<rparr>)" if "\<forall>u \<in> set ts. task_sem u \<noteq> Some k" for ts
    using o(1) that by (simp add: ev_orphan_def)
  moreover have "\<forall>u \<in> set (es_tasks s). task_sem u \<noteq> Some k" using assms(1) by (simp add: ev_orphan_def)
  ultimately have parts: "ev_orphan k (t\<lparr>es_tasks := drop_nth i (es_tasks s)\<rparr>)"
    "\<And>u. task_sem u \<noteq> Some k \<Longrightarrow> ev_orphan k (t\<lparr>es_tasks := (es_tasks s)[i := u]\<rparr>)"
    using set_drop_nth [of i "es_tasks s"] set_update_subset_insert [of "es_tasks s" i] by blast+
  show ?thesis
  proof (cases x)
    case None
    then have "s' = t\<lparr>es_tasks := drop_nth i (es_tasks s)\<rparr>" using x i o(2) assms(2) ActTask by (simp add: ev_do_def)
    then show ?thesis using parts(1) by simp
  next
    case (Some u)
    then have "s' = t\<lparr>es_tasks := (es_tasks s)[i := u]\<rparr>" using x i o(2) assms(2) ActTask by (simp add: ev_do_def)
    then show ?thesis using parts(2) o(3) Some by simp
  qed
qed

lemma ev_orphan_runs: "ev_runs env qsize acts s = Steps s' \<Longrightarrow> ev_orphan k s \<Longrightarrow> ev_orphan k s'"
  by (induction acts arbitrary: s) (auto split: outcome.splits dest: ev_orphan_do)

definition demo_two_exits :: "ev_act list" where
  "demo_two_exits = [ActInit True True, ActDeinit True, ActDeinit True, ActCaller 0, ActCaller 0, ActCaller 0,
     ActCaller 1, ActCaller 1, ActCaller 1, ActTask 0, ActTask 0, ActTask 0, ActTask 0, ActTask 0, ActTask 0,
     ActCaller 0, ActCaller 0]"

lemma demo_two_exits_run:
  "\<exists>s. ev_runs demo_env 32 demo_two_exits ev_start = Steps s \<and> ev_orphan 2 s \<and> es_callers s = [CallerWait (Some 2)] \<and>
    es_tasks s = [] \<and> es_returned s = [0, 0]"
  by (simp add: demo_two_exits_def ev_run_simps ev_start_def os_empty_def Let_def One_nat_def ev_orphan_def numeral_2_eq_2)

text \<open>C21. Two tasks that leave at the same time: when both calls of \<open>wm_event_deinit\<close> have put
  their message in the queue, the task answers the first and throws the second away, and the
  second call waits for its semaphore in every state that can ever follow, whatever is called.\<close>

theorem event_second_deinit_hangs:
  "\<exists>s. ev_runs demo_env 32 demo_two_exits ev_start = Steps s \<and> es_returned s = [WM_ERR_SUCCESS, WM_ERR_SUCCESS] \<and>
    (\<forall>env qsize acts s'. ev_runs env qsize acts s = Steps s' \<longrightarrow> CallerWait (Some 2) \<in> set (es_callers s'))"
proof -
  obtain s where s: "ev_runs demo_env 32 demo_two_exits ev_start = Steps s" "ev_orphan 2 s" "es_returned s = [0, 0]"
    using demo_two_exits_run by blast
  have "CallerWait (Some 2) \<in> set (es_callers s')" if "ev_runs env qsize acts s = Steps s'" for env qsize acts s'
    using ev_orphan_runs [OF that s(2)] by (simp add: ev_orphan_def)
  then show ?thesis using s(1,3) by blast
qed

lemma demo_two_exits_again:
  "\<exists>s'. ev_runs demo_env 32 (demo_two_exits @ [ActInit True True]) ev_start = Steps s'"
  by (simp add: demo_two_exits_def ev_run_simps ev_start_def os_empty_def Let_def One_nat_def numeral_2_eq_2)

theorem event_second_deinit_hangs_witness:
  "\<exists>s s'. ev_runs demo_env 32 demo_two_exits ev_start = Steps s \<and> ev_runs demo_env 32 [ActInit True True] s = Steps s' \<and>
    CallerWait (Some 2) \<in> set (es_callers s')"
proof -
  obtain s where s: "ev_runs demo_env 32 demo_two_exits ev_start = Steps s"
    "\<And>env qsize acts s'. ev_runs env qsize acts s = Steps s' \<Longrightarrow> CallerWait (Some 2) \<in> set (es_callers s')"
    using event_second_deinit_hangs by blast
  obtain s' where s': "ev_runs demo_env 32 [ActInit True True] s = Steps s'"
    using demo_two_exits_again s(1) unfolding ev_runs_append by auto
  show ?thesis using s(1) s' s(2) [OF s'] by blast
qed

text \<open>Sending while another task leaves can use the queue after it is gone: \<open>wm_event_send\<close> tests
  \<open>g_ev_queue\<close> and then reads it again; when the event task clears it in between, the message is sent
  to a null queue.\<close>

theorem event_send_races_deinit:
  "\<exists>s. ev_runs demo_env 32 demo_race ev_start = Steps s \<and> es_callers s ! 0 = CallerLoaded CallSend 0 None \<and>
    ev_do demo_env 32 (ActCaller 0) s = Fault"
  by (rule demo_race_run)

end
