(* ===== verification/Heap.thy ===== *)
theory Heap
  imports Prelude
begin

text \<open>
  The heap (\<open>wm_heap.c\<close>) in its default build, with assertions and tracing on and without
  poisoning: memory regions with a free list each, sorted by address, first fit, blocks that are
  split on allocation and joined with both neighbours on release, and one list of all used
  blocks. Block headers are bytes of the memory the heap hands out, and the list nodes
  \<open>heap->start\<close> and \<open>heap_used_block_list\<close> lie in the same memory at addresses of their own;
  the other variables are fields of records.

  A call is one step: the lists change with interrupts disabled. (A release leaves the list of used
  blocks in one such section and joins the free list in a second; what another task does between
  the two is not modelled.) Its outcome is \<open>Done\<close>, a failed
  \<open>HEAP_ASSERT\<close>, a list walk that never ends, or the use of a \<open>heap\<close> pointer of a header that is not
  one of the heaps (\<open>Wild\<close>). Pointers and \<open>size_t\<close> are \<open>nat\<close> with their wrap-around.
\<close>

section \<open>Memory and variables\<close>

type_synonym memory = "nat \<Rightarrow> u8"

definition rd32 :: "memory \<Rightarrow> nat \<Rightarrow> nat" where
  "rd32 m a = le_nat (mem_slice m a 4)"

definition wr32 :: "memory \<Rightarrow> nat \<Rightarrow> nat \<Rightarrow> memory" where
  "wr32 m a v = splice m a (le_bytes 4 v)"

definition sub32 :: "nat \<Rightarrow> nat \<Rightarrow> nat" where
  "sub32 x y = u32 (x + 2 ^ 32 - y)"

text \<open>\<open>x & ~y\<close>\<close>

definition clear_bits :: "nat \<Rightarrow> nat \<Rightarrow> nat" where
  "clear_bits x y = x - (x AND y)"

text \<open>The fields of \<open>wm_heap_block_t\<close>.\<close>

abbreviation "blk_next m b \<equiv> rd32 m b"
abbreviation "blk_size m b \<equiv> rd32 m (b + 4)"
abbreviation "blk_heap m b \<equiv> rd32 m (b + 8)"
abbreviation "blk_caps m b \<equiv> rd32 m (b + 12)"
abbreviation "blk_file m b \<equiv> rd32 m (b + 16)"
abbreviation "set_next m b v \<equiv> wr32 m b v"
abbreviation "set_size m b v \<equiv> wr32 m (b + 4) v"
abbreviation "set_heap m b v \<equiv> wr32 m (b + 8) v"
abbreviation "set_caps m b v \<equiv> wr32 m (b + 12) v"
abbreviation "set_file m b v \<equiv> wr32 m (b + 16) v"
abbreviation "set_line m b v \<equiv> wr32 m (b + 20) v"

definition sizeof_heap_block :: nat where "sizeof_heap_block = 24"
definition HEAP_BYTE_ALIGNMENT :: nat where "HEAP_BYTE_ALIGNMENT = 8"
definition HEAP_BYTE_ALIGNMENT_MASK :: nat where "HEAP_BYTE_ALIGNMENT_MASK = 7"

abbreviation (input) WM_HEAP_CAP_DEFAULT :: nat where "WM_HEAP_CAP_DEFAULT \<equiv> 1"
abbreviation (input) WM_HEAP_CAP_INTERNAL :: nat where "WM_HEAP_CAP_INTERNAL \<equiv> 2"
abbreviation (input) WM_HEAP_CAP_SPIRAM :: nat where "WM_HEAP_CAP_SPIRAM \<equiv> 4"
abbreviation (input) WM_HEAP_CAP_EXEC :: nat where "WM_HEAP_CAP_EXEC \<equiv> 8"
abbreviation (input) WM_HEAP_CAP_SHARED :: nat where "WM_HEAP_CAP_SHARED \<equiv> 16"
abbreviation (input) WM_HEAP_CAP_INVALID :: nat where "WM_HEAP_CAP_INVALID \<equiv> 0x100000"

text \<open>\<open>wm_heaps_t\<close>, and \<open>wm_memory_layout_t\<close> with its \<open>wm_heap_t\<close>; \<open>mm_heap\<close> is the address of that
  heap, where its list node \<open>start\<close> lies.\<close>

record wm_heaps =
  hg_struct :: nat
  hg_free :: nat
  hg_min :: nat
  hg_allocs :: nat
  hg_frees :: nat

record wm_memory =
  mm_name :: bytes
  mm_start :: nat
  mm_size :: nat
  mm_caps :: nat
  mm_heap :: nat
  mm_end :: nat
  mm_free :: nat
  mm_min :: nat
  mm_allocs :: nat
  mm_frees :: nat
  mm_bit :: nat

text \<open>The memory, \<open>wm_soc_memory\<close>, \<open>wm_heaps\<close> and the address of \<open>heap_used_block_list\<close>.\<close>

record heap_sys =
  hs_mem :: memory
  hs_soc :: "wm_memory list"
  hs_glob :: wm_heaps
  hs_used :: nat

datatype 'a hrun = Done 'a | Asserts | Hangs | Wild

abbreviation hs_at :: "heap_sys \<Rightarrow> nat \<Rightarrow> wm_memory" where
  "hs_at S i \<equiv> hs_soc S ! i"

definition hs_set :: "heap_sys \<Rightarrow> nat \<Rightarrow> wm_memory \<Rightarrow> heap_sys" where
  "hs_set S i mm = S\<lparr>hs_soc := (hs_soc S)[i := mm]\<rparr>"

section \<open>The list of used blocks\<close>

definition heap_insert_block_into_used_list :: "memory \<Rightarrow> nat \<Rightarrow> nat \<Rightarrow> memory" where
  "heap_insert_block_into_used_list m used b =
     (let m1 = set_next m b (blk_next m used);
          m2 = set_next m1 used b;
          m3 = set_size m2 used (u32 (blk_size m2 used + blk_size m2 b))
      in set_file m3 used (u32 (blk_file m3 used + 1)))"

text \<open>The walk to the node before a block, \<open>Some None\<close> when the block is not in the list.\<close>

partial_function (option) used_find :: "memory \<Rightarrow> nat \<Rightarrow> nat \<Rightarrow> nat \<Rightarrow> nat option option" where
  "used_find m prev b t =
     (if b = 0 then Some None
      else if b = t then Some (Some prev)
      else used_find m b (blk_next m b) t)"

definition heap_remove_block_from_used_list :: "memory \<Rightarrow> nat \<Rightarrow> nat \<Rightarrow> nat \<Rightarrow> memory option" where
  "heap_remove_block_from_used_list m used abit t =
     (case used_find m used (blk_next m used) t of
        None \<Rightarrow> None
      | Some None \<Rightarrow> Some m
      | Some (Some prev) \<Rightarrow>
          (let m1 = set_next m prev (blk_next m t);
               m2 = set_next m1 t 0;
               m3 = set_size m2 used (sub32 (blk_size m2 used) (clear_bits (blk_size m2 t) abit))
           in Some (set_file m3 used (sub32 (blk_file m3 used) 1))))"

section \<open>The free list\<close>

partial_function (option) free_list_pos :: "memory \<Rightarrow> nat \<Rightarrow> nat \<Rightarrow> nat option" where
  "free_list_pos m it b =
     (if blk_next m it < b then free_list_pos m (blk_next m it) b else Some it)"

definition heap_link_in :: "memory \<Rightarrow> nat \<Rightarrow> nat \<Rightarrow> nat \<Rightarrow> memory" where
  "heap_link_in m it b hend =
     (if u32 (b + blk_size m b) = blk_next m it
      then if blk_next m it \<noteq> hend
           then let m1 = set_size m b (u32 (blk_size m b + blk_size m (blk_next m it)))
                in set_next m1 b (blk_next m1 (blk_next m1 it))
           else set_next m b hend
      else set_next m b (blk_next m it))"

definition heap_insert_block_into_free_list :: "memory \<Rightarrow> nat \<Rightarrow> nat \<Rightarrow> nat \<Rightarrow> memory option" where
  "heap_insert_block_into_free_list m start hend b =
     (case free_list_pos m start b of
        None \<Rightarrow> None
      | Some it \<Rightarrow>
          if u32 (it + blk_size m it) = b
          then Some (heap_link_in (set_size m it (u32 (blk_size m it + blk_size m b))) it it hend)
          else Some (set_next (heap_link_in m it b hend) it b))"

section \<open>Allocation in one region\<close>

text \<open>The size of a request with its header, rounded up.\<close>

definition heap_wanted :: "nat \<Rightarrow> nat \<Rightarrow> nat" where
  "heap_wanted hstruct n =
     (if 0 < n
      then let w = u32 (n + hstruct)
           in if w AND HEAP_BYTE_ALIGNMENT_MASK \<noteq> 0
              then u32 (w + (HEAP_BYTE_ALIGNMENT - (w AND HEAP_BYTE_ALIGNMENT_MASK))) else w
      else n)"

partial_function (option) first_fit :: "memory \<Rightarrow> nat \<Rightarrow> nat \<Rightarrow> nat \<Rightarrow> (nat \<times> nat) option" where
  "first_fit m prev b w =
     (if blk_size m b < w \<and> blk_next m b \<noteq> 0 then first_fit m b (blk_next m b) w
      else Some (prev, b))"

text \<open>Cutting the wanted size off a block that is out of the list.\<close>

definition heap_split :: "memory \<Rightarrow> nat \<Rightarrow> wm_memory \<Rightarrow> nat \<Rightarrow> nat \<Rightarrow> memory hrun" where
  "heap_split m hstruct mm b w =
     (if u32 (hstruct * 2) < sub32 (blk_size m b) w
      then let nb = u32 (b + w) in
        if nb AND HEAP_BYTE_ALIGNMENT_MASK \<noteq> 0 then Asserts
        else let m1 = set_size m nb (sub32 (blk_size m b) w);
                 m2 = set_size m1 b w
             in (case heap_insert_block_into_free_list m2 (mm_heap mm) (mm_end mm) nb of
                   None \<Rightarrow> Hangs | Some m3 \<Rightarrow> Done m3)
      else Done m)"

text \<open>The rest of the allocation once the block is cut: header and used list, and the counters.\<close>

definition heap_mark_used ::
  "memory \<Rightarrow> nat \<Rightarrow> nat \<Rightarrow> nat \<Rightarrow> nat \<Rightarrow> nat \<Rightarrow> nat \<Rightarrow> nat \<Rightarrow> memory" where
  "heap_mark_used m used b heap caps file line abit =
     (let m1 = set_caps (set_heap m b heap) b caps;
          m2 = set_line (set_file m1 b file) b line;
          m3 = heap_insert_block_into_used_list m2 used b
      in set_size m3 b (blk_size m3 b OR abit))"

definition heap_claim ::
  "heap_sys \<Rightarrow> nat \<Rightarrow> memory \<Rightarrow> nat \<Rightarrow> nat \<Rightarrow> nat \<Rightarrow> nat \<Rightarrow> heap_sys" where
  "heap_claim S i m b caps file line =
     (let mm = hs_at S i;
          n = blk_size m b;
          hfree = sub32 (mm_free mm) n;
          gfree = sub32 (hg_free (hs_glob S)) n
      in (hs_set S i
            (mm\<lparr>mm_free := hfree, mm_min := (if hfree < mm_min mm then hfree else mm_min mm),
               mm_allocs := u32 (mm_allocs mm + 1)\<rparr>))
           \<lparr>hs_mem := heap_mark_used m (hs_used S) b (mm_heap mm) caps file line (mm_bit mm),
            hs_glob := (hs_glob S)\<lparr>hg_free := gfree,
              hg_min := (if gfree < hg_min (hs_glob S) then gfree else hg_min (hs_glob S)),
              hg_allocs := u32 (hg_allocs (hs_glob S) + 1)\<rparr>\<rparr>)"

definition heap_alloc_tracing ::
  "heap_sys \<Rightarrow> nat \<Rightarrow> nat \<Rightarrow> nat \<Rightarrow> nat \<Rightarrow> nat \<Rightarrow> (nat \<times> heap_sys) hrun" where
  "heap_alloc_tracing S i n caps file line =
     (let mm = hs_at S i; m = hs_mem S; hstruct = hg_struct (hs_glob S); w = heap_wanted hstruct n in
      if mm_end mm = 0 then Asserts
      else if n AND mm_bit mm \<noteq> 0 then Done (0, S)
      else if 0 < n \<and> w AND HEAP_BYTE_ALIGNMENT_MASK \<noteq> 0 then Asserts
      else if \<not> (0 < w \<and> w \<le> mm_free mm) then Done (0, S)
      else (case first_fit m (mm_heap mm) (blk_next m (mm_heap mm)) w of
              None \<Rightarrow> Hangs
            | Some (prev, b) \<Rightarrow>
                if b = mm_end mm then Done (0, S)
                else let p = u32 (blk_next m prev + hstruct) in
                  (case heap_split (set_next m prev (blk_next m b)) hstruct mm b w of
                     Asserts \<Rightarrow> Asserts | Hangs \<Rightarrow> Hangs | Wild \<Rightarrow> Wild
                   | Done m1 \<Rightarrow>
                       if p AND HEAP_BYTE_ALIGNMENT_MASK \<noteq> 0 then Asserts
                       else Done (p, heap_claim S i m1 b caps file line))))"

section \<open>Release\<close>

text \<open>The heap a pointer of a header means.\<close>

definition heap_of :: "heap_sys \<Rightarrow> nat \<Rightarrow> nat option" where
  "heap_of S h = find (\<lambda>i. mm_heap (hs_at S i) = h) [0..<length (hs_soc S)]"

definition heap_release :: "heap_sys \<Rightarrow> nat \<Rightarrow> memory \<Rightarrow> nat \<Rightarrow> heap_sys hrun" where
  "heap_release S i m b =
     (let mm = hs_at S i;
          m1 = set_size m b (clear_bits (blk_size m b) (mm_bit mm));
          m2 = set_line (set_file m1 b 0) b 0xFFFFFFFF;
          n = blk_size m2 b
      in case heap_insert_block_into_free_list m2 (mm_heap mm) (mm_end mm) b of
           None \<Rightarrow> Hangs
         | Some m3 \<Rightarrow> Done ((hs_set S i
             (mm\<lparr>mm_free := u32 (mm_free mm + n), mm_frees := u32 (mm_frees mm + 1)\<rparr>))
             \<lparr>hs_mem := m3,
              hs_glob := (hs_glob S)\<lparr>hg_free := u32 (hg_free (hs_glob S) + n),
                hg_frees := u32 (hg_frees (hs_glob S) + 1)\<rparr>\<rparr>))"

definition heap_free :: "heap_sys \<Rightarrow> nat \<Rightarrow> heap_sys hrun" where
  "heap_free S p =
     (if p = 0 then Done S
      else let b = sub32 p (hg_struct (hs_glob S)) in
        (case heap_of S (blk_heap (hs_mem S) b) of
           None \<Rightarrow> Wild
         | Some i \<Rightarrow>
             (case heap_remove_block_from_used_list (hs_mem S) (hs_used S) (mm_bit (hs_at S i)) b of
                None \<Rightarrow> Hangs
              | Some m \<Rightarrow>
                  if blk_size m b AND mm_bit (hs_at S i) = 0 then Asserts
                  else if blk_next m b \<noteq> 0 then Asserts
                  else heap_release S i m b)))"

section \<open>The interface\<close>

text \<open>The regions in the order of the table, until one has room.\<close>

fun caps_alloc_loop ::
  "heap_sys \<Rightarrow> nat list \<Rightarrow> nat \<Rightarrow> nat \<Rightarrow> nat \<Rightarrow> nat \<Rightarrow> (nat \<times> heap_sys) hrun" where
  "caps_alloc_loop S [] n caps file line = Done (0, S)"
| "caps_alloc_loop S (i # is) n caps file line =
     (if WM_HEAP_CAP_INVALID AND mm_caps (hs_at S i) \<noteq> 0 then caps_alloc_loop S is n caps file line
      else if caps AND mm_caps (hs_at S i) = caps
      then (case heap_alloc_tracing S i n caps file line of
              Asserts \<Rightarrow> Asserts | Hangs \<Rightarrow> Hangs | Wild \<Rightarrow> Wild
            | Done (p, S') \<Rightarrow>
                if p \<noteq> 0 then Done (p, S') else caps_alloc_loop S' is n caps file line)
      else caps_alloc_loop S is n caps file line)"

definition wm_heap_caps_alloc_tracing ::
  "heap_sys \<Rightarrow> nat \<Rightarrow> nat \<Rightarrow> nat \<Rightarrow> nat \<Rightarrow> (nat \<times> heap_sys) hrun" where
  "wm_heap_caps_alloc_tracing S n caps file line =
     (if n = 0 then Done (0, S)
      else caps_alloc_loop S [0..<length (hs_soc S)] n
        (if caps = 0 then WM_HEAP_CAP_DEFAULT else caps) file line)"

definition wm_heap_caps_free :: "heap_sys \<Rightarrow> nat \<Rightarrow> heap_sys hrun" where
  "wm_heap_caps_free S p = (if p = 0 then Done S else heap_free S p)"

text \<open>The part of a reallocation after the new block is there.\<close>

definition realloc_move :: "heap_sys \<Rightarrow> nat \<Rightarrow> nat \<Rightarrow> nat \<Rightarrow> nat \<Rightarrow> (nat \<times> heap_sys) hrun" where
  "realloc_move S abit old new n =
     (let m = hs_mem S;
          old_size = clear_bits (blk_size m (sub32 old (hg_struct (hs_glob S)))) abit;
          k = (if old_size \<le> n then old_size else n);
          S1 = S\<lparr>hs_mem := splice m new (mem_slice m old k)\<rparr>
      in case wm_heap_caps_free S1 old of
           Asserts \<Rightarrow> Asserts | Hangs \<Rightarrow> Hangs | Wild \<Rightarrow> Wild
         | Done S2 \<Rightarrow> Done (new, S2))"

definition wm_heap_caps_realloc_tracing ::
  "heap_sys \<Rightarrow> nat \<Rightarrow> nat \<Rightarrow> nat \<Rightarrow> nat \<Rightarrow> nat \<Rightarrow> (nat \<times> heap_sys) hrun" where
  "wm_heap_caps_realloc_tracing S old n caps file line =
     (if old = 0 then wm_heap_caps_alloc_tracing S n caps file line
      else if n = 0
      then (case wm_heap_caps_free S old of
              Asserts \<Rightarrow> Asserts | Hangs \<Rightarrow> Hangs | Wild \<Rightarrow> Wild
            | Done S1 \<Rightarrow> Done (0, S1))
      else let b = sub32 old (hg_struct (hs_glob S)) in
        (case heap_of S (blk_heap (hs_mem S) b) of
           None \<Rightarrow> Wild
         | Some i \<Rightarrow>
             if blk_size (hs_mem S) b AND mm_bit (hs_at S i) = 0 then Asserts
             else (case wm_heap_caps_alloc_tracing S n
                          (if caps = 0 then blk_caps (hs_mem S) b else caps) file line of
                     Asserts \<Rightarrow> Asserts | Hangs \<Rightarrow> Hangs | Wild \<Rightarrow> Wild
                   | Done (p, S1) \<Rightarrow>
                       if p = 0 then Done (0, S1) else realloc_move S1 (mm_bit (hs_at S i)) old p n)))"

definition wm_heap_get_free_size :: "heap_sys \<Rightarrow> nat" where
  "wm_heap_get_free_size S = hg_free (hs_glob S)"

definition wm_heap_get_minimum_ever_free_size :: "heap_sys \<Rightarrow> nat" where
  "wm_heap_get_minimum_ever_free_size S = hg_min (hs_glob S)"

section \<open>Start-up\<close>

definition heap_init :: "heap_sys \<Rightarrow> nat \<Rightarrow> heap_sys" where
  "heap_init S i =
     (let mm = hs_at S i; m = hs_mem S;
          up = mm_start mm AND HEAP_BYTE_ALIGNMENT_MASK \<noteq> 0;
          a = (if up then clear_bits (u32 (mm_start mm + (HEAP_BYTE_ALIGNMENT - 1))) HEAP_BYTE_ALIGNMENT_MASK
               else mm_start mm);
          len = (if up then sub32 (mm_size mm) (sub32 a (mm_start mm)) else mm_size mm);
          m1 = set_size (set_next m (mm_heap mm) a) (mm_heap mm) 0;
          e = clear_bits (sub32 (u32 (a + len)) (hg_struct (hs_glob S))) HEAP_BYTE_ALIGNMENT_MASK;
          m2 = set_next (set_size m1 e 0) e 0;
          m3 = set_next (set_size m2 a (sub32 e a)) a e
      in (hs_set S i
            (mm\<lparr>mm_end := e, mm_min := blk_size m3 a, mm_free := blk_size m3 a, mm_bit := 2 ^ 31\<rparr>))
           \<lparr>hs_mem := m3\<rparr>)"

definition heap_zero :: "wm_memory \<Rightarrow> wm_memory" where
  "heap_zero mm = mm\<lparr>mm_end := 0, mm_free := 0, mm_min := 0, mm_allocs := 0, mm_frees := 0, mm_bit := 0\<rparr>"

text \<open>Clearing the fields of one heap, initialising it and counting its memory.\<close>

definition heap_start :: "heap_sys \<Rightarrow> nat \<Rightarrow> heap_sys" where
  "heap_start S i =
     (let S1 = heap_init (hs_set S i (heap_zero (hs_at S i))) i;
          f = u32 (hg_free (hs_glob S1) + mm_free (hs_at S1 i))
      in S1\<lparr>hs_glob := (hs_glob S1)\<lparr>hg_free := f, hg_min := f\<rparr>\<rparr>)"

definition WM_HEAP_PSRAM_NAME :: bytes where
  "WM_HEAP_PSRAM_NAME = [0x50, 0x53, 0x52, 0x41, 0x4D]"

definition heap_init_region :: "heap_sys \<Rightarrow> nat \<Rightarrow> heap_sys" where
  "heap_init_region S i =
     (if strcmp_eq (mm_name (hs_at S i)) WM_HEAP_PSRAM_NAME
      then hs_set S i ((hs_at S i)\<lparr>mm_caps := mm_caps (hs_at S i) OR WM_HEAP_CAP_INVALID\<rparr>)
      else heap_start S i)"

text \<open>The table of regions with the addresses of the chip; \<open>h\<close> says where the heap of each entry lies.\<close>

definition soc_region :: "bytes \<Rightarrow> nat \<Rightarrow> nat \<Rightarrow> nat \<Rightarrow> nat \<Rightarrow> wm_memory" where
  "soc_region name start len caps node =
     \<lparr>mm_name = name, mm_start = start, mm_size = len, mm_caps = caps, mm_heap = node,
      mm_end = 0, mm_free = 0, mm_min = 0, mm_allocs = 0, mm_frees = 0, mm_bit = 0\<rparr>"

definition wm_soc_memory :: "bool \<Rightarrow> (nat \<Rightarrow> nat) \<Rightarrow> wm_memory list" where
  "wm_soc_memory psram h =
     [soc_region [0x53, 0x52, 0x41, 0x4D] 0x20000000 0x28000
        (WM_HEAP_CAP_DEFAULT OR WM_HEAP_CAP_INTERNAL OR WM_HEAP_CAP_EXEC) (h 0),
      soc_region [0x44, 0x52, 0x41, 0x4D] 0x20028000 0x20000
        (WM_HEAP_CAP_DEFAULT OR WM_HEAP_CAP_INTERNAL OR WM_HEAP_CAP_SHARED) (h 1)] @
     (if psram then [soc_region WM_HEAP_PSRAM_NAME 0x30000000 0x800000 WM_HEAP_CAP_SPIRAM (h 2)] else [])"

text \<open>The two symbols of the linker are the ends of the static data in both memories.\<close>

definition heap_trim :: "nat \<Rightarrow> nat \<Rightarrow> wm_memory \<Rightarrow> wm_memory" where
  "heap_trim from extra mm =
     mm\<lparr>mm_size := sub32 (mm_size mm) (u32 (sub32 from (mm_start mm) + extra)), mm_start := from\<rparr>"

definition wm_heap_init :: "nat \<Rightarrow> nat \<Rightarrow> heap_sys \<Rightarrow> heap_sys" where
  "wm_heap_init bss_end eshram S =
     (let soc = hs_soc S;
          soc1 = soc[0 := heap_trim bss_end 0 (soc ! 0)];
          soc2 = soc1[1 := heap_trim eshram 4 (soc1 ! 1)];
          g = \<lparr>hg_struct = clear_bits (sizeof_heap_block + (HEAP_BYTE_ALIGNMENT - 1)) HEAP_BYTE_ALIGNMENT_MASK,
               hg_free = 0, hg_min = 0, hg_allocs = 0, hg_frees = 0\<rparr>
      in fold (\<lambda>i S. heap_init_region S i) [0..<length soc2] (S\<lparr>hs_soc := soc2, hs_glob := g\<rparr>))"

text \<open>\<open>wm_heap_append_to_heap\<close> with the PSRAM in the build: \<open>psram\<close> is the size its driver reports,
  \<open>base\<close> where it is mapped, \<open>epsram\<close> the end of the static data in it.\<close>

fun append_loop :: "nat option \<Rightarrow> nat \<Rightarrow> nat \<Rightarrow> bytes \<Rightarrow> nat list \<Rightarrow> heap_sys \<Rightarrow> int \<times> heap_sys" where
  "append_loop psram base epsram name [] S = (WM_ERR_SUCCESS, S)"
| "append_loop psram base epsram name (i # is) S =
     (if \<not> strcmp_eq (mm_name (hs_at S i)) name then append_loop psram base epsram name is S
      else let S0 = hs_set S i (heap_zero (hs_at S i)) in
        (case psram of
           None \<Rightarrow> (WM_ERR_FAILED, S0)
         | Some total_size \<Rightarrow>
             let len = sub32 total_size (sub32 epsram base);
                 S1 = hs_set S0 i ((hs_at S0 i)\<lparr>mm_start := epsram, mm_size := len\<rparr>)
             in if len \<le> u32 (hg_struct (hs_glob S1) * 2) then (WM_ERR_FAILED, S1)
                else let S2 = heap_start S1 i;
                         mm = hs_at S2 i
                     in append_loop psram base epsram name is
                          (hs_set S2 i (mm\<lparr>mm_caps := clear_bits (mm_caps mm) WM_HEAP_CAP_INVALID\<rparr>))))"

definition wm_heap_append_to_heap ::
  "nat option \<Rightarrow> nat \<Rightarrow> nat \<Rightarrow> bytes option \<Rightarrow> heap_sys \<Rightarrow> int \<times> heap_sys" where
  "wm_heap_append_to_heap psram base epsram name S =
     (case name of
        None \<Rightarrow> (WM_ERR_INVALID_PARAM, S)
      | Some nm \<Rightarrow> append_loop psram base epsram nm [0..<length (hs_soc S)] S)"

section \<open>The functions of the operating system layer\<close>

definition wm_os_internal_malloc :: "heap_sys \<Rightarrow> nat \<Rightarrow> nat \<Rightarrow> nat \<Rightarrow> (nat \<times> heap_sys) hrun" where
  "wm_os_internal_malloc S n file line = wm_heap_caps_alloc_tracing S n WM_HEAP_CAP_DEFAULT file line"

definition wm_os_internal_free :: "heap_sys \<Rightarrow> nat \<Rightarrow> heap_sys hrun" where
  "wm_os_internal_free S p = wm_heap_caps_free S p"

definition wm_os_internal_realloc :: "heap_sys \<Rightarrow> nat \<Rightarrow> nat \<Rightarrow> nat \<Rightarrow> nat \<Rightarrow> (nat \<times> heap_sys) hrun" where
  "wm_os_internal_realloc S p n file line =
     wm_heap_caps_realloc_tracing S p n WM_HEAP_CAP_DEFAULT file line"

definition wm_os_internal_calloc_tracing ::
  "heap_sys \<Rightarrow> nat \<Rightarrow> nat \<Rightarrow> nat \<Rightarrow> nat \<Rightarrow> (nat \<times> heap_sys) hrun" where
  "wm_os_internal_calloc_tracing S nelem elsize file line =
     (let n = u32 (nelem * elsize) in
      case wm_heap_caps_alloc_tracing S n WM_HEAP_CAP_DEFAULT file line of
        Asserts \<Rightarrow> Asserts | Hangs \<Rightarrow> Hangs | Wild \<Rightarrow> Wild
      | Done (p, S') \<Rightarrow>
          if p = 0 then Done (0, S') else Done (p, S'\<lparr>hs_mem := splice (hs_mem S') p (replicate n 0)\<rparr>))"

end
