(* ===== verification/HeapList.thy ===== *)
theory HeapList
  imports Heap
begin

text \<open>
  The two linked lists of the heap as paths in memory: words read back, a path is kept by writes
  elsewhere and re-linked by a write to its last node, and insertion into the free list is
  insertion into a sorted list of areas that joins the new area with its neighbours.
\<close>

section \<open>Words in memory\<close>

lemma u32_u32 [simp]: "u32 (u32 x) = u32 x"
  by (simp add: u32_def)

lemma rd32_lt [simp]: "rd32 m a < 4294967296"
  using le_nat_lt [of "mem_slice m a 4"] by (simp add: rd32_def)

lemma rd32_wr32 [simp]: "rd32 (wr32 m a v) a = u32 v"
  using mem_slice_splice [of m a "le_bytes 4 v"] by (simp add: rd32_def wr32_def le_nat_le_bytes u32_def)

lemma wr32_other: "x < a \<or> a + 4 \<le> x \<Longrightarrow> wr32 m a v x = m x"
  by (auto simp: wr32_def splice_def)

lemma rd32_cong: "(\<And>x. a \<le> x \<Longrightarrow> x < a + 4 \<Longrightarrow> m x = m' x) \<Longrightarrow> rd32 m a = rd32 m' a"
  unfolding rd32_def by (rule arg_cong [OF mem_slice_cong])

lemma rd32_wr32_other [simp]: "a + 4 \<le> b \<or> b + 4 \<le> a \<Longrightarrow> rd32 (wr32 m b v) a = rd32 m a"
  by (rule rd32_cong) (auto simp: wr32_other)

lemma sub32_id:
  assumes "y \<le> x" and "x < 4294967296"
  shows "sub32 x y = x - y"
proof -
  have "x + 4294967296 - y = (x - y) + 4294967296" using assms(1) by linarith
  moreover have "x - y < 4294967296" using assms(2) by linarith
  moreover have "(2 :: nat) ^ 32 = 4294967296" by simp
  ultimately show ?thesis unfolding sub32_def u32_def by (simp only: mod_add_self2 mod_less)
qed

section \<open>Paths\<close>

text \<open>Two nodes do not overlap.\<close>

definition apart :: "nat \<Rightarrow> nat \<Rightarrow> bool" where
  "apart p q \<longleftrightarrow> p + 24 \<le> q \<or> q + 24 \<le> p"

lemma apart_sym: "apart p q \<Longrightarrow> apart q p"
  by (auto simp: apart_def)

lemma apart_irrefl [simp]: "\<not> apart p p"
  by (simp add: apart_def)

fun path :: "memory \<Rightarrow> nat \<Rightarrow> nat list \<Rightarrow> nat \<Rightarrow> bool" where
  "path m s [] t \<longleftrightarrow> blk_next m s = t"
| "path m s (x # xs) t \<longleftrightarrow> blk_next m s = x \<and> path m x xs t"

lemma path_split: "path m s (xs @ x # ys) t \<longleftrightarrow> path m s xs x \<and> path m x ys t"
  by (induction xs arbitrary: s) auto

lemma path_cong:
  "(\<And>p. p = s \<or> p \<in> set xs \<Longrightarrow> blk_next m' p = blk_next m p) \<Longrightarrow> path m' s xs t = path m s xs t"
  by (induction xs arbitrary: s) auto

lemma path_last: "path m s xs t \<Longrightarrow> blk_next m (last (s # xs)) = t"
  by (induction xs arbitrary: s) auto

lemma path_relink:
  assumes "path m s xs t" and "sorted_wrt apart (s # xs)" and "t' < 4294967296"
  shows "path (set_next m (last (s # xs)) t') s xs t'"
  using assms(1,2)
proof (induction xs arbitrary: s)
  case (Cons x xs)
  have "apart s (last (x # xs))" using Cons.prems(2) last_in_set [of "x # xs"] by auto
  then have "blk_next (set_next m (last (x # xs)) t') s = blk_next m s" by (auto simp: apart_def)
  with Cons show ?case by simp
qed (use assms(3) in simp)

section \<open>The free list\<close>

text \<open>Areas are pairs of address and length.\<close>

type_synonym area = "nat \<times> nat"

definition before :: "area \<Rightarrow> area \<Rightarrow> bool" where
  "before x y \<longleftrightarrow> fst x + snd x \<le> fst y"

text \<open>The free list between \<open>lo\<close> and the node \<open>e\<close> at the end, with its first node outside.\<close>

definition free_list :: "memory \<Rightarrow> nat \<Rightarrow> area list \<Rightarrow> nat \<Rightarrow> nat \<Rightarrow> bool" where
  "free_list m s fs lo e \<longleftrightarrow>
     path m s (map fst fs) e \<and> (\<forall>f \<in> set fs. blk_size m (fst f) = snd f) \<and> blk_size m s = 0 \<and>
     sorted_wrt before fs \<and> (\<forall>f \<in> set fs. 24 \<le> snd f \<and> lo \<le> fst f \<and> fst f + snd f \<le> e) \<and>
     (s + 24 \<le> lo \<or> e + 24 \<le> s) \<and> s + 24 \<le> 4294967296 \<and> e + 24 \<le> 4294967296 \<and> lo \<le> e"

text \<open>Memory changed at most in the list fields of some nodes.\<close>

definition links_only :: "memory \<Rightarrow> memory \<Rightarrow> nat set \<Rightarrow> bool" where
  "links_only m m' A \<longleftrightarrow> (\<forall>x. (\<forall>p \<in> A. x < p \<or> p + 8 \<le> x) \<longrightarrow> m' x = m x)"

lemma links_onlyD: "links_only m m' A \<Longrightarrow> (\<And>p. p \<in> A \<Longrightarrow> x < p \<or> p + 8 \<le> x) \<Longrightarrow> m' x = m x"
  by (simp add: links_only_def)

lemma links_only_refl [simp]: "links_only m m A"
  by (simp add: links_only_def)

lemma links_only_trans: "links_only m m1 A \<Longrightarrow> links_only m1 m2 B \<Longrightarrow> A \<union> B \<subseteq> C \<Longrightarrow> links_only m m2 C"
  unfolding links_only_def by (metis Un_iff subsetD)

lemma links_only_mono: "links_only m m' A \<Longrightarrow> A \<subseteq> B \<Longrightarrow> links_only m m' B"
  using links_only_trans [OF _ links_only_refl, of m m' A B B] by auto

lemma links_only_next: "p \<in> A \<Longrightarrow> links_only m (set_next m p v) A"
  by (fastforce simp: links_only_def intro: wr32_other)

lemma links_only_size: "p \<in> A \<Longrightarrow> links_only m (set_size m p v) A"
  by (fastforce simp: links_only_def intro: wr32_other)

lemma links_only_rd32:
  "links_only m m' A \<Longrightarrow> (\<And>p. p \<in> A \<Longrightarrow> a + 4 \<le> p \<or> p + 8 \<le> a) \<Longrightarrow> rd32 m' a = rd32 m a"
  by (rule rd32_cong, erule links_onlyD) fastforce

lemma before_areas:
  assumes "sorted_wrt before fs" and "\<forall>f \<in> set fs. 24 \<le> snd f"
  shows "sorted_wrt apart (map fst fs)"
  using assms by (induction fs) (auto simp: before_def apart_def)

lemma free_list_apart: "free_list m s fs lo e \<Longrightarrow> sorted_wrt apart (s # map fst fs)"
  unfolding free_list_def using before_areas [of fs] by (fastforce simp: apart_def)

lemma free_list_cong:
  assumes "free_list m s fs lo e" and "links_only m m' A"
    and "\<And>p q. p \<in> A \<Longrightarrow> q = s \<or> q \<in> fst ` set fs \<Longrightarrow> apart p q"
  shows "free_list m' s fs lo e"
proof -
  have r: "rd32 m' q = rd32 m q" "rd32 m' (q + 4) = rd32 m (q + 4)" if "q = s \<or> q \<in> fst ` set fs" for q
    using assms(3) [OF _ that] by (auto intro!: links_only_rd32 [OF assms(2)] simp: apart_def) fastforce+
  then have "path m' s (map fst fs) e = path m s (map fst fs) e" by (intro path_cong) auto
  then show ?thesis using assms(1) r by (simp add: free_list_def)
qed

text \<open>The walk stops behind the last node before the block.\<close>

lemma free_list_pos_spec:
  assumes "path m s (xs @ ys) e" and "\<forall>x \<in> set xs. x < b" and "\<forall>y \<in> set ys. b \<le> y" and "b \<le> e"
  shows "free_list_pos m s b = Some (last (s # xs))"
  using assms
proof (induction xs arbitrary: s)
  case Nil
  then show ?case by (cases ys) (simp_all add: free_list_pos.simps)
next
  case (Cons x xs)
  then show ?case by (simp add: free_list_pos.simps [of m s])
qed

text \<open>An area joined with the one behind it, and insertion between two parts of a list.\<close>

definition join_right :: "nat \<Rightarrow> nat \<Rightarrow> area list \<Rightarrow> area list" where
  "join_right b n fs = (case fs of [] \<Rightarrow> [(b, n)] | (c, k) # r \<Rightarrow> if b + n = c then (b, n + k) # r else (b, n) # fs)"

definition join_in :: "area list \<Rightarrow> nat \<Rightarrow> nat \<Rightarrow> area list \<Rightarrow> area list" where
  "join_in f1 b n f2 =
     (if f1 \<noteq> [] \<and> fst (last f1) + snd (last f1) = b
      then butlast f1 @ join_right (fst (last f1)) (snd (last f1) + n) f2
      else f1 @ join_right b n f2)"

definition areas_ok :: "area list \<Rightarrow> nat \<Rightarrow> nat \<Rightarrow> bool" where
  "areas_ok fs lo e \<longleftrightarrow> sorted_wrt before fs \<and> (\<forall>f \<in> set fs. 24 \<le> snd f \<and> lo \<le> fst f \<and> fst f + snd f \<le> e)"

lemma join_right_ok: "areas_ok (g @ (b, n) # fs) lo e \<Longrightarrow> areas_ok (g @ join_right b n fs) lo e"
proof (cases fs)
  case (Cons f r)
  assume a: "areas_ok (g @ (b, n) # fs) lo e"
  show ?thesis
  proof (cases "b + n = fst f")
    case True
    then have j: "join_right b n fs = (b, n + snd f) # r" using Cons by (simp add: join_right_def split: prod.splits)
    have e: "b + (n + snd f) = fst f + snd f" using True by simp
    show ?thesis using a Cons True unfolding j areas_ok_def sorted_wrt_append before_def
      by (auto simp: e)
  next
    case False
    then have "join_right b n fs = (b, n) # fs" using Cons by (cases f) (simp add: join_right_def)
    then show ?thesis using a by simp
  qed
qed (simp add: join_right_def)

lemma join_right_tail: "join_right b n fs = (b, k) # r \<Longrightarrow> set r \<subseteq> set fs"
  by (auto simp: join_right_def split: list.splits prod.splits if_splits)

lemma join_in_ok:
  assumes "areas_ok (f1 @ (b, n) # f2) lo e"
  shows "areas_ok (join_in f1 b n f2) lo e"
proof (cases f1 rule: rev_cases)
  case (snoc g c)
  show ?thesis
  proof (cases "fst c + snd c = b")
    case True
    then have "areas_ok (g @ (fst c, snd c + n) # f2) lo e"
      using assms snoc by (auto simp: areas_ok_def sorted_wrt_append before_def)
    then show ?thesis using True snoc join_right_ok by (simp add: join_in_def)
  qed (use assms snoc join_right_ok [of "g @ [c]"] in \<open>simp add: join_in_def\<close>)
qed (use assms join_right_ok [of f1] in \<open>simp add: join_in_def\<close>)

lemma path_cut: "path m s (xs @ ys) t \<Longrightarrow> \<exists>u. path m s xs u \<and> path m (last (s # xs)) ys t"
  by (induction xs arbitrary: s) auto

lemma path_head:
  "path m c xs t \<Longrightarrow> blk_next m' b = blk_next m c \<Longrightarrow> (\<And>p. p \<in> set xs \<Longrightarrow> blk_next m' p = blk_next m p) \<Longrightarrow>
    path m' b xs t"
proof (cases xs)
  case (Cons x ys)
  assume "path m c xs t" "blk_next m' b = blk_next m c" "\<And>p. p \<in> set xs \<Longrightarrow> blk_next m' p = blk_next m p"
  then show ?thesis using path_cong [of x ys m' m t] Cons by simp
qed simp

lemma links_only_node:
  assumes "links_only m m' A" and "\<And>p. p \<in> A \<Longrightarrow> apart p q"
  shows "blk_next m' q = blk_next m q" and "blk_size m' q = blk_size m q"
proof -
  have a: "p + 24 \<le> q \<or> q + 24 \<le> p" if "p \<in> A" for p using assms(2) [OF that] by (simp add: apart_def)
  show "blk_next m' q = blk_next m q" by (rule links_only_rd32 [OF assms(1)]) (use a in force)
  show "blk_size m' q = blk_size m q" by (rule links_only_rd32 [OF assms(1)]) (use a in force)
qed

lemma heap_link_in_spec:
  assumes "path m it (map fst fs) e" and "\<forall>f \<in> set fs. blk_size m (fst f) = snd f"
    and "b = it \<or> apart b it" and "\<forall>f \<in> set fs. apart b (fst f)"
    and "areas_ok ((b, blk_size m b) # fs) lo e" and "e < 4294967296"
  shows "\<exists>k r. join_right b (blk_size m b) fs = (b, k) # r \<and> path (heap_link_in m it b e) b (map fst r) e \<and>
    blk_size (heap_link_in m it b e) b = k \<and> links_only m (heap_link_in m it b e) {b} \<and>
    (\<forall>f \<in> set r. blk_size (heap_link_in m it b e) (fst f) = snd f)"
proof (cases fs)
  case Nil
  then have "heap_link_in m it b e = set_next m b e" using assms(1) by (simp add: heap_link_in_def)
  then show ?thesis using Nil assms(6) by (simp add: join_right_def links_only_next)
next
  case (Cons f r)
  obtain c k where f: "f = (c, k)" by (cases f)
  let ?n = "blk_size m b"
  have bn: "u32 (b + ?n) = b + ?n" and c: "blk_next m it = c" "path m c (map fst r) e" "blk_size m c = k" "c \<noteq> e"
    and ck: "apart b c" "24 \<le> k" "c + k \<le> e" "c < 4294967296"
    using assms Cons f by (auto simp: areas_ok_def)
  show ?thesis
  proof (cases "b + ?n = c")
    case True
    define m1 where "m1 = set_size m b (u32 (?n + k))"
    have l1: "links_only m m1 {b}" by (simp add: m1_def links_only_size)
    have n1: "blk_next m1 it = c" "blk_next m1 c = blk_next m c"
      using assms(3) c(1) ck(1) by (auto simp: m1_def apart_def)
    have eq: "heap_link_in m it b e = set_next m1 b (blk_next m c)"
      using True bn c n1 by (simp add: heap_link_in_def m1_def Let_def)
    have l: "links_only m (set_next m1 b (blk_next m c)) {b}"
      by (rule links_only_trans [OF l1 links_only_next]) auto
    have r: "blk_next (set_next m1 b (blk_next m c)) (fst g) = blk_next m (fst g)"
      "blk_size (set_next m1 b (blk_next m c)) (fst g) = blk_size m (fst g)" if "g \<in> set r" for g
      using links_only_node [OF l, of "fst g"] assms(4) Cons that by auto
    have "path (set_next m1 b (blk_next m c)) b (map fst r) e"
      by (rule path_head [OF c(2)]) (use r in auto)
    moreover have "u32 (?n + k) = ?n + k" using ck(3) assms(6) True by simp
    ultimately show ?thesis using eq f Cons l r assms(2) ck True by (simp add: join_right_def m1_def)
  next
    case False
    have eq: "heap_link_in m it b e = set_next m b c"
      using False bn c by (simp add: heap_link_in_def)
    have l: "links_only m (set_next m b c) {b}" by (simp add: links_only_next)
    have r: "blk_next (set_next m b c) (fst g) = blk_next m (fst g)"
      "blk_size (set_next m b c) (fst g) = blk_size m (fst g)" if "g \<in> set fs" for g
      using links_only_node [OF l, of "fst g"] assms(4) that by auto
    have "path (set_next m b c) c (map fst r) e"
      by (rule path_head [OF c(2)]) (use r(1) [of f] r(1) Cons f in \<open>auto simp del: split_paired_All\<close>)
    then have "path (set_next m b c) b (map fst fs) e" using Cons f ck(4) by simp
    then show ?thesis using eq False f Cons l r assms(2) by (simp add: join_right_def)
  qed
qed

text \<open>Insertion: the block goes between the areas before and behind it and joins what it touches; at
  most the list fields of the node before it and of the block itself change.\<close>

lemma heap_insert_spec:
  assumes fl: "free_list m s (f1 @ f2) lo e" and ok: "areas_ok (f1 @ (b, n) # f2) lo e" and n: "n = blk_size m b"
  shows "\<exists>m'. heap_insert_block_into_free_list m s e b = Some m' \<and> free_list m' s (join_in f1 b n f2) lo e \<and>
    links_only m m' {last (s # map fst f1), b} \<and> (blk_size m' b = n \<or> (b, blk_size m' b) \<in> set (join_in f1 b n f2))"
proof -
  let ?it = "last (s # map fst f1)"
  have bounds: "24 \<le> n" "lo \<le> b" "b + n \<le> e" "e + 24 \<le> 4294967296" "s + 24 \<le> 4294967296"
    and s: "s + 24 \<le> lo \<or> e + 24 \<le> s" "blk_size m s = 0"
    and p: "path m s (map fst f1 @ map fst f2) e" and sz: "\<forall>f \<in> set (f1 @ f2). blk_size m (fst f) = snd f"
    and f1b: "\<forall>f \<in> set f1. fst f + snd f \<le> b \<and> 24 \<le> snd f" and f2b: "\<forall>f \<in> set f2. b + n \<le> fst f"
    and ap: "sorted_wrt apart (s # map fst (f1 @ f2))"
    using fl ok free_list_apart [OF fl]
    by (auto simp: free_list_def areas_ok_def sorted_wrt_append before_def)
  have sb: "apart s b" and f1a: "\<forall>f \<in> set f1. apart (fst f) b" and f2a: "\<forall>f \<in> set f2. apart b (fst f)"
    using s(1) bounds f1b f2b by (auto simp: apart_def)
  have f1lt: "x < b" if "x \<in> set (map fst f1)" for x
    using f1b that by fastforce
  have pos: "free_list_pos m s b = Some ?it"
    by (rule free_list_pos_spec [OF p]) (use f1lt f2b bounds in fastforce)+
  obtain u where u: "path m s (map fst f1) u" "path m ?it (map fst f2) e"
    using path_cut [OF p] by blast
  have fl': "free_list m' s fs lo e"
    if "fs = join_in f1 b n f2" "path m' s (map fst fs) e" "\<forall>f \<in> set fs. blk_size m' (fst f) = snd f" "blk_size m' s = 0"
    for m' fs
    using that join_in_ok [OF ok] fl by (simp add: free_list_def areas_ok_def)
  show ?thesis
  proof (cases "f1 \<noteq> [] \<and> fst (last f1) + snd (last f1) = b")
    case True
    then obtain g c k where f1: "f1 = g @ [(c, k)]" "c + k = b" by (cases f1 rule: rev_cases) auto
    define m1 where "m1 = set_size m c (u32 (k + n))"
    have ck: "blk_size m c = k" "24 \<le> k" "lo \<le> c" "u32 (c + k) = b" "u32 (k + n) = k + n"
      using sz f1 ok bounds by (auto simp: areas_ok_def)
    have l1: "links_only m m1 {c}" by (simp add: m1_def links_only_size)
    have s1: "blk_size m1 c = k + n" using ck(5) by (simp add: m1_def)
    have cf: "\<forall>f \<in> set f2. apart c (fst f)" "\<forall>f \<in> set g. apart c (fst f)" "apart c s"
      using ap f1 by (auto simp: sorted_wrt_append intro: apart_sym)
    have keep: "blk_next m1 (fst f) = blk_next m (fst f)" "blk_size m1 (fst f) = blk_size m (fst f)" if "f \<in> set f2" for f
      using links_only_node [OF l1, of "fst f"] cf(1) that by auto
    have pc: "path m c (map fst f2) e" using u(2) f1 by simp
    have "path m1 c (map fst f2) e"
      by (rule path_head [OF pc]) (use keep in \<open>auto simp: m1_def\<close>)
    moreover have "areas_ok ((c, k + n) # f2) lo e"
      using ok f1 ck by (auto simp: areas_ok_def sorted_wrt_append before_def)
    ultimately obtain j r where j: "join_right c (k + n) f2 = (c, j) # r" "path (heap_link_in m1 c c e) c (map fst r) e"
      "blk_size (heap_link_in m1 c c e) c = j" "links_only m1 (heap_link_in m1 c c e) {c}"
      "\<forall>f \<in> set r. blk_size (heap_link_in m1 c c e) (fst f) = snd f"
      using heap_link_in_spec [of m1 c f2 e c lo] keep sz cf(1) s1 bounds by auto
    let ?m = "heap_link_in m1 c c e"
    have l: "links_only m ?m {c}" by (rule links_only_trans [OF l1 j(4)]) simp
    have eq: "heap_insert_block_into_free_list m s e b = Some ?m"
      using pos f1 ck n by (simp add: heap_insert_block_into_free_list_def m1_def)
    have res: "join_in f1 b n f2 = g @ (c, j) # r" using j(1) f1 by (simp add: join_in_def)
    have old: "blk_next ?m q = blk_next m q" "blk_size ?m q = blk_size m q" if "q = s \<or> q \<in> fst ` set g" for q
      using links_only_node [OF l, of q] cf that by auto
    have "path m s (map fst g) c" using u(1) f1 path_split [of m s "map fst g" c "[]" u] by simp
    then have "path ?m s (map fst g) c" using path_cong [of s "map fst g" ?m m c] old(1) by simp
    moreover have "\<forall>f \<in> set g. blk_size ?m (fst f) = snd f"
    proof
      fix f assume f: "f \<in> set g"
      then have "blk_size ?m (fst f) = blk_size m (fst f)" by (intro old(2)) simp
      then show "blk_size ?m (fst f) = snd f" using sz f1 f by simp
    qed
    moreover have "blk_size ?m s = 0" using old(2) [of s] s(2) by simp
    ultimately have "free_list ?m s (g @ (c, j) # r) lo e"
      using fl' [of "g @ (c, j) # r" ?m] res j by (auto simp: path_split)
    moreover have "blk_size ?m b = n" using links_only_node(2) [OF l, of b] f1a f1 n by simp
    ultimately show ?thesis using eq res links_only_mono [OF l] f1 by auto
  next
    case False
    have itb: "apart b ?it" using sb f1a by (cases f1 rule: rev_cases) (auto intro: apart_sym)
    obtain j r where j: "join_right b n f2 = (b, j) # r" "path (heap_link_in m ?it b e) b (map fst r) e"
      "blk_size (heap_link_in m ?it b e) b = j" "links_only m (heap_link_in m ?it b e) {b}"
      "\<forall>f \<in> set r. blk_size (heap_link_in m ?it b e) (fst f) = snd f"
      using heap_link_in_spec [OF u(2), of b lo] sz f2a itb n ok bounds by (auto simp: areas_ok_def sorted_wrt_append)
    let ?m1 = "heap_link_in m ?it b e" and ?m = "set_next (heap_link_in m ?it b e) ?it b"
    have nb: "u32 (?it + blk_size m ?it) \<noteq> b"
      using False s sz bounds f1b sb by (cases f1 rule: rev_cases) (auto simp: apart_def)
    have eq: "heap_insert_block_into_free_list m s e b = Some ?m"
      using pos nb by (simp add: heap_insert_block_into_free_list_def)
    have res: "join_in f1 b n f2 = f1 @ (b, j) # r" using j(1) False by (auto simp: join_in_def)
    have l: "links_only m ?m {?it, b}"
      by (rule links_only_trans [OF j(4) links_only_next [of ?it "{?it}"]]) auto
    have old: "blk_next ?m1 q = blk_next m q" "blk_size ?m1 q = blk_size m q" if "q = s \<or> q \<in> fst ` set f1" for q
      using links_only_node [OF j(4), of q] sb f1a that by (auto simp: apart_sym)
    have "path ?m1 s (map fst f1) u" using u(1) path_cong [of s "map fst f1" ?m1 m u] old(1) by simp
    then have pre: "path ?m s (map fst f1) b"
      by (rule path_relink) (use ap bounds in \<open>auto simp: sorted_wrt_append\<close>)
    have ir: "apart ?it (fst f)" if "f \<in> set r" for f
      using ap join_right_tail [OF j(1)] that by (cases f1 rule: rev_cases) (auto simp: sorted_wrt_append)
    have new: "blk_next ?m q = blk_next ?m1 q" "blk_size ?m q = blk_size ?m1 q" if "q = b \<or> q \<in> fst ` set r" for q
      using links_only_node [OF links_only_next [of ?it "{?it}" ?m1 b], of q] itb ir that by (auto simp: apart_sym)
    have "path ?m b (map fst r) e" using j(2) path_cong [of b "map fst r" ?m ?m1 e] new(1) by simp
    moreover have "blk_size ?m q = blk_size m q" if "q = s \<or> q \<in> fst ` set f1" for q
    proof -
      have "q = ?it \<or> apart q ?it" using that ap by (cases f1 rule: rev_cases) (auto simp: sorted_wrt_append intro: apart_sym)
      then have "blk_size ?m q = blk_size ?m1 q" by (auto simp: apart_def)
      then show ?thesis using old(2) [OF that] by simp
    qed
    moreover from this have "\<forall>f \<in> set f1. blk_size ?m (fst f) = snd f" using sz by simp
    moreover have "\<forall>f \<in> set r. blk_size ?m (fst f) = snd f" using new(2) j(5) by simp
    moreover have bj: "blk_size ?m b = j" using new(2) [of b] j(3) by simp
    ultimately have "free_list ?m s (f1 @ (b, j) # r) lo e"
      using fl' [of "f1 @ (b, j) # r" ?m] res pre s(2) by (simp add: path_split ball_Un)
    then show ?thesis using eq res l bj by auto
  qed
qed

end
