(* ===== verification/HeapBlocks.thy ===== *)
theory HeapBlocks
  imports HeapList
begin

text \<open>
  A region as the list of its blocks: the blocks tile the memory between its first block and its
  end node, no two free ones touch, and the free list of the code is the list of the free ones.
  Cutting a block and giving one back are functions on that list, which the memory follows.
\<close>

section \<open>Blocks\<close>

text \<open>Address, size with the header, and whether it is in use.\<close>

type_synonym hblock = "nat \<times> nat \<times> bool"

fun tiled :: "nat \<Rightarrow> hblock list \<Rightarrow> nat \<Rightarrow> bool" where
  "tiled a [] e \<longleftrightarrow> a = e"
| "tiled a ((b, n, u) # bs) e \<longleftrightarrow> b = a \<and> 24 \<le> n \<and> 8 dvd n \<and> tiled (a + n) bs e"

fun free_areas :: "hblock list \<Rightarrow> area list" where
  "free_areas [] = []"
| "free_areas ((b, n, u) # bs) = (if u then free_areas bs else (b, n) # free_areas bs)"

fun used_areas :: "hblock list \<Rightarrow> area list" where
  "used_areas [] = []"
| "used_areas ((b, n, u) # bs) = (if u then (b, n) # used_areas bs else used_areas bs)"

definition coalesced :: "hblock list \<Rightarrow> bool" where
  "coalesced bs \<longleftrightarrow> successively (\<lambda>x y. snd (snd x) \<or> snd (snd y)) bs"

lemma free_areas_append [simp]: "free_areas (xs @ ys) = free_areas xs @ free_areas ys"
  by (induction xs rule: free_areas.induct) auto

lemma used_areas_append [simp]: "used_areas (xs @ ys) = used_areas xs @ used_areas ys"
  by (induction xs rule: used_areas.induct) auto

lemma set_free_areas: "(b, n) \<in> set (free_areas bs) \<longleftrightarrow> (b, n, False) \<in> set bs"
  by (induction bs rule: free_areas.induct) auto

lemma set_used_areas: "(b, n) \<in> set (used_areas bs) \<longleftrightarrow> (b, n, True) \<in> set bs"
  by (induction bs rule: used_areas.induct) auto

lemma tiled_append: "tiled a (xs @ ys) e \<longleftrightarrow> (\<exists>c. tiled a xs c \<and> tiled c ys e)"
  by (induction a xs e rule: tiled.induct) auto

lemma tiled_le: "tiled a bs e \<Longrightarrow> a \<le> e"
  by (induction a bs e rule: tiled.induct) auto

lemma tiled_block: "tiled a bs e \<Longrightarrow> (b, n, u) \<in> set bs \<Longrightarrow> a \<le> b \<and> b + n \<le> e \<and> 24 \<le> n \<and> 8 dvd n"
  by (induction a bs e rule: tiled.induct) (auto dest: tiled_le)

lemma tiled_dvd: "tiled a bs e \<Longrightarrow> 8 dvd a \<Longrightarrow> 8 dvd e \<and> (\<forall>x \<in> set bs. 8 dvd fst x)"
  by (induction a bs e rule: tiled.induct) auto

lemma tiled_areas_ok: "tiled a bs e \<Longrightarrow> areas_ok (free_areas bs) a e"
proof (induction a bs e rule: tiled.induct)
  case (2 a b n u bs e)
  then have ih: "areas_ok (free_areas bs) (a + n) e" and "a + n \<le> e" by (auto dest: tiled_le)
  have "a + n \<le> fst f" if "f \<in> set (free_areas bs)" for f using ih that by (auto simp: areas_ok_def)
  then show ?case using ih 2(2) \<open>a + n \<le> e\<close> by (fastforce simp: areas_ok_def before_def)
qed (simp add: areas_ok_def)

lemma tiled_apart:
  "tiled a bs e \<Longrightarrow> (b, n, u) \<in> set bs \<Longrightarrow> (c, k, v) \<in> set bs \<Longrightarrow> (b, n, u) = (c, k, v) \<or> b + n \<le> c \<or> c + k \<le> b"
proof (induction a bs e rule: tiled.induct)
  case (2 a d j w bs e)
  then have t: "tiled (a + j) bs e" "d = a" by auto
  then show ?case using 2 tiled_block [OF t(1)] by (elim set_ConsD [elim_format]) (fastforce)+
qed simp

text \<open>A free area is a block of the list, which splits there.\<close>

lemma free_areas_split:
  "free_areas bs = f1 @ (b, n) # f2 \<Longrightarrow> \<exists>xs ys. bs = xs @ (b, n, False) # ys \<and> free_areas xs = f1 \<and> free_areas ys = f2"
proof (induction bs arbitrary: f1)
  case (Cons x bs)
  obtain c k u where x: "x = (c, k, u)" by (cases x)
  consider "u" | "\<not> u" "f1 = []" | f1' where "\<not> u" "f1 = (c, k) # f1'"
    using Cons.prems x by (cases u; cases f1) auto
  then show ?case
  proof cases
    case 1
    then obtain xs ys where "bs = xs @ (b, n, False) # ys" "free_areas xs = f1" "free_areas ys = f2"
      using Cons x by auto
    then show ?thesis using 1 x by - (rule exI [of _ "x # xs"], rule exI [of _ ys], simp)
  next
    case 2
    then show ?thesis using Cons.prems x by - (rule exI [of _ "[]"], rule exI [of _ bs], simp)
  next
    case 3
    then obtain xs ys where "bs = xs @ (b, n, False) # ys" "free_areas xs = f1'" "free_areas ys = f2"
      using Cons x by auto
    then show ?thesis using 3 x by - (rule exI [of _ "x # xs"], rule exI [of _ ys], simp)
  qed
qed simp

section \<open>Cutting and giving back\<close>

definition cut_block :: "nat \<Rightarrow> nat \<Rightarrow> nat \<Rightarrow> hblock list" where
  "cut_block b n w = (if 48 < n - w then [(b, w, True), (b + w, n - w, False)] else [(b, n, True)])"

definition glue :: "nat \<Rightarrow> nat \<Rightarrow> hblock list \<Rightarrow> hblock list" where
  "glue b n ys = (case ys of (c, k, False) # r \<Rightarrow> (b, n + k, False) # r | _ \<Rightarrow> (b, n, False) # ys)"

definition give_back :: "hblock list \<Rightarrow> nat \<Rightarrow> nat \<Rightarrow> hblock list \<Rightarrow> hblock list" where
  "give_back xs b n ys =
     (if xs \<noteq> [] \<and> \<not> snd (snd (last xs))
      then butlast xs @ glue (fst (last xs)) (fst (snd (last xs)) + n) ys
      else xs @ glue b n ys)"

lemma glue_cases:
  obtains (join) c k r where "ys = (c, k, False) # r" "glue b n ys = (b, n + k, False) # r"
  | (keep) "ys = [] \<or> snd (snd (hd ys))" "glue b n ys = (b, n, False) # ys"
proof (cases ys)
  case (Cons y r)
  obtain c k u where "y = (c, k, u)" by (cases y)
  then show ?thesis using Cons that by (cases u) (auto simp: glue_def)
qed (use that in \<open>auto simp: glue_def\<close>)

lemma tiled_glue: "tiled a ((b, n, u) # ys) e \<Longrightarrow> tiled a (glue b n ys) e"
  by (cases rule: glue_cases [of ys b n]) (auto simp: add.assoc)

lemma used_glue [simp]: "used_areas (glue b n ys) = used_areas ys"
  by (cases rule: glue_cases [of ys b n]) auto

lemma free_glue:
  assumes "tiled a ((b, n, u) # ys) e"
  shows "free_areas (glue b n ys) = join_right b n (free_areas ys)"
proof (cases rule: glue_cases [of ys b n])
  case (keep)
  show ?thesis
  proof (cases ys)
    case (Cons y r)
    obtain c k where y: "y = (c, k, True)" using keep Cons by (cases y) auto
    then have t: "c = b + n" "24 \<le> k" "tiled (b + n + k) r e" using assms Cons by auto
    have "b + n \<notin> fst ` set (free_areas r)"
      using tiled_areas_ok [OF t(3)] t(2) by (fastforce simp: areas_ok_def)
    then show ?thesis using keep Cons y by (auto simp: join_right_def split: list.splits)
  qed (use keep in \<open>simp add: join_right_def\<close>)
qed (use assms in \<open>simp add: join_right_def\<close>)

lemma coalesced_Cons:
  "coalesced (x # xs) \<longleftrightarrow> coalesced xs \<and> (xs = [] \<or> snd (snd x) \<or> snd (snd (hd xs)))"
  by (cases xs) (auto simp: coalesced_def)

lemma coalesced_Nil [simp]: "coalesced []"
  by (simp add: coalesced_def)

lemma coalesced_append:
  "coalesced (xs @ ys) \<longleftrightarrow> coalesced xs \<and> coalesced ys \<and>
    (xs = [] \<or> ys = [] \<or> snd (snd (last xs)) \<or> snd (snd (hd ys)))"
  by (cases "xs = [] \<or> ys = []") (auto simp: coalesced_def successively_append_iff)

lemma coalesced_glue:
  "coalesced (x # ys) \<Longrightarrow> coalesced (glue b n ys) \<and> glue b n ys \<noteq> []"
  by (cases rule: glue_cases [of ys b n]) (auto simp: coalesced_Cons)

lemma tiled_give_back:
  assumes "tiled a (xs @ (b, n, u) # ys) e"
  shows "tiled a (give_back xs b n ys) e"
proof (cases "xs \<noteq> [] \<and> \<not> snd (snd (last xs))")
  case True
  then obtain g c k where xs: "xs = g @ [(c, k, False)]" by (cases xs rule: rev_cases) auto
  have "tiled a (g @ (c, k + n, False) # ys) e"
    using assms xs by (auto simp: tiled_append add.assoc)
  then show ?thesis using xs tiled_glue by (auto simp: give_back_def tiled_append)
next
  case False
  obtain c where c: "tiled a xs c" "tiled c ((b, n, u) # ys) e" using assms by (auto simp: tiled_append)
  have "give_back xs b n ys = xs @ glue b n ys" using False by (auto simp: give_back_def)
  then show ?thesis using c(1) tiled_glue [OF c(2)] by (auto simp: tiled_append)
qed

lemma used_give_back: "used_areas (give_back xs b n ys) = used_areas xs @ used_areas ys"
  by (cases xs rule: rev_cases) (auto simp: give_back_def)

lemma free_give_back:
  assumes t: "tiled a (xs @ (b, n, u) # ys) e"
  shows "free_areas (give_back xs b n ys) = join_in (free_areas xs) b n (free_areas ys)"
proof -
  obtain c where c: "tiled a xs c" "tiled c ((b, n, u) # ys) e" "c = b" using t by (auto simp: tiled_append)
  show ?thesis
  proof (cases xs rule: rev_cases)
    case Nil
    then show ?thesis using free_glue [OF c(2)] by (simp add: give_back_def join_in_def)
  next
    case (snoc g x)
    obtain d k v where x: "x = (d, k, v)" by (cases x)
    have d: "tiled a g d" "d + k = b" "24 \<le> k" using c snoc x by (auto simp: tiled_append)
    show ?thesis
    proof (cases v)
      case False
      have "tiled d ((d, k + n, u) # ys) e" using t snoc x by (auto simp: tiled_append add.assoc)
      from free_glue [OF this] show ?thesis
        using False snoc x d(2) by (simp add: give_back_def join_in_def)
    next
      case True
      have "fst f + snd f \<noteq> b" if "f \<in> set (free_areas g)" for f
        using tiled_areas_ok [OF d(1)] that d(2,3) by (auto simp: areas_ok_def)
      then have "\<not> (free_areas g \<noteq> [] \<and> fst (last (free_areas g)) + snd (last (free_areas g)) = b)"
        by (metis last_in_set)
      then show ?thesis using free_glue [OF c(2)] True snoc x by (auto simp: give_back_def join_in_def)
    qed
  qed
qed

lemma coalesced_give_back:
  assumes "coalesced (xs @ (b, n, True) # ys)"
  shows "coalesced (give_back xs b n ys)"
proof (cases xs rule: rev_cases)
  case Nil
  then show ?thesis using assms coalesced_glue by (simp add: give_back_def)
next
  case (snoc g x)
  have y: "coalesced (glue d k ys)" "glue d k ys \<noteq> []" "\<not> snd (snd (hd (glue d k ys)))" for d k
    using assms coalesced_glue [of _ ys d k] by (auto simp: coalesced_append glue_def split: list.splits prod.splits bool.splits)
  show ?thesis using assms snoc y by (auto simp: give_back_def coalesced_append coalesced_Cons)
qed

lemma coalesced_cut:
  assumes "coalesced (xs @ (b, n, False) # ys)"
  shows "coalesced (xs @ cut_block b n w @ ys)"
  using assms by (auto simp: coalesced_append coalesced_Cons cut_block_def)

lemma tiled_cut:
  assumes "tiled a (xs @ (b, n, u) # ys) e" and "w \<le> n" and "24 \<le> w" and "8 dvd w"
  shows "tiled a (xs @ cut_block b n w @ ys) e"
  using assms by (auto simp: tiled_append cut_block_def)

text \<open>When nothing is in use, one free block covers the whole region.\<close>

lemma no_used_one_block:
  assumes "tiled a bs e" and "coalesced bs" and "used_areas bs = []" and "a < e"
  shows "bs = [(a, e - a, False)]"
proof (cases bs)
  case (Cons x r)
  obtain b n u where x: "x = (b, n, u)" by (cases x)
  have u: "\<not> u" using assms(3) Cons x by (auto split: if_splits)
  moreover have "r = []"
  proof (rule ccontr)
    assume "r \<noteq> []"
    then obtain c k v s where r: "r = (c, k, v) # s" by (cases r) auto
    then show False using assms(2,3) Cons x u by (auto simp: coalesced_Cons split: if_splits)
  qed
  ultimately show ?thesis using assms(1) Cons x by auto
qed (use assms in simp)

section \<open>The first block that fits\<close>

lemma first_fit_pass:
  assumes "path m s (map fst (f # fs)) e" and "blk_size m (fst f) < w" and "\<forall>g \<in> set fs. 0 < fst g" and "0 < e"
  shows "first_fit m s (fst f) w = first_fit m (fst f) (blk_next m (fst f)) w"
proof -
  have "blk_next m (fst f) \<noteq> 0" using assms by (cases fs) auto
  then show ?thesis using assms(2) by (simp add: first_fit.simps [of m s])
qed

lemma first_fit_none:
  assumes "path m s (map fst fs) e" and "\<forall>f \<in> set fs. blk_size m (fst f) < w \<and> 0 < fst f" and "blk_next m e = 0" "0 < e"
  shows "first_fit m s (blk_next m s) w = Some (last (s # map fst fs), e)"
  using assms(1,2)
proof (induction fs arbitrary: s)
  case Nil
  then show ?case using assms(3) by (simp add: first_fit.simps)
next
  case (Cons f fs)
  then show ?case using first_fit_pass [of m s f fs e w] assms(4) by simp
qed

lemma first_fit_some:
  assumes "path m s (map fst f1 @ b # xs) e" and "\<forall>f \<in> set f1. blk_size m (fst f) < w \<and> 0 < fst f"
    and "w \<le> blk_size m b" "0 < b"
  shows "first_fit m s (blk_next m s) w = Some (last (s # map fst f1), b)"
  using assms(1,2)
proof (induction f1 arbitrary: s)
  case Nil
  then show ?case using assms(3) by (simp add: first_fit.simps)
next
  case (Cons f f1)
  have "path m s (map fst (f # f1)) b" using Cons.prems(1) path_split [of m s "map fst (f # f1)" b xs e] by simp
  then show ?case using Cons first_fit_pass [of m s f f1 b w] assms(4) by simp
qed

end
