(* ===== verification/HeapSpec.thy ===== *)
theory HeapSpec
  imports HeapBlocks
begin

text \<open>
  The invariant of the whole heap: every region in use is tiled by its blocks, its free list and
  its counter of free bytes agree with them, every block in use has its mark and its heap in its
  header, the list of used blocks is exactly the blocks in use, and nothing overlaps. One
  allocation and one release keep it and change no byte of any other block in use.
\<close>

section \<open>Bits\<close>

lemma and_7 [simp]: "x AND HEAP_BYTE_ALIGNMENT_MASK = x mod 8" for x :: nat
proof -
  have "x AND mask 3 = take_bit 3 x" by (simp add: take_bit_eq_mask)
  then show ?thesis by (simp add: HEAP_BYTE_ALIGNMENT_MASK_def mask_eq_exp_minus_1 take_bit_eq_mod)
qed

lemma and_pow: "x AND 2 ^ k = (if bit x k then 2 ^ k else 0)" for x :: nat
  by (rule bit_eqI) (auto simp: bit_and_iff bit_exp_iff)

lemma and_bit31:
  fixes x :: nat
  assumes "x < 4294967296"
  shows "x AND 2147483648 = (if x < 2147483648 then 0 else 2147483648)"
proof -
  have "x div 2147483648 = (if x < 2147483648 then 0 else 1)" using assms by (auto intro!: div_nat_eqI)
  then have "bit x 31 \<longleftrightarrow> \<not> x < 2147483648" by (simp add: bit_iff_odd)
  then show ?thesis using and_pow [of x 31] by simp
qed

lemma or_bit31: "x < 2147483648 \<Longrightarrow> x OR 2147483648 = x + 2147483648" for x :: nat
  by (rule disjunctive_add_eq_or [symmetric]) (simp add: and_bit31)

lemma clear_bit31: "x < 2147483648 \<Longrightarrow> clear_bits (x + 2147483648) 2147483648 = x"
  by (simp add: clear_bits_def and_bit31)

text \<open>The space a request takes: its header of 24 bytes, rounded up to a multiple of 8.\<close>

definition heap_need :: "nat \<Rightarrow> nat" where
  "heap_need n = (n + 31) div 8 * 8"

lemma heap_need: "n + 24 \<le> heap_need n" "heap_need n < n + 32" "8 dvd heap_need n"
proof -
  have e: "heap_need n + (n + 31) mod 8 = n + 31" unfolding heap_need_def by (rule div_mult_mod_eq)
  have m: "(n + 31) mod 8 < 8" by (rule mod_less_divisor) simp
  show "n + 24 \<le> heap_need n" using e m by linarith
  show "heap_need n < n + 32" using e by linarith
  show "8 dvd heap_need n" unfolding heap_need_def by (rule dvd_triv_right)
qed

lemma heap_need_unique:
  assumes "8 dvd w" and "n + 24 \<le> w" and "w < n + 32"
  shows "w = heap_need n"
proof -
  obtain i j where "w = 8 * i" "heap_need n = 8 * j" using assms(1) heap_need(3) [of n] by (auto elim!: dvdE)
  moreover from this have "8 * i < 8 * j + 8" "8 * j < 8 * i + 8"
    using assms(2,3) heap_need(1,2) [of n] by linarith+
  ultimately show ?thesis by simp
qed

lemma heap_wanted_need:
  assumes "0 < n" and "n < 2147483648"
  shows "heap_wanted 24 n = heap_need n"
proof -
  let ?r = "(n + 24) mod 8"
  have w: "u32 (n + 24) = n + 24" using assms by simp
  have r: "?r < 8" by (rule mod_less_divisor) simp
  have d: "8 dvd n + 24 - ?r" by (rule dvd_minus_mod)
  show ?thesis
  proof (cases "?r = 0")
    case True
    then have "n + 24 = heap_need n" using d by (intro heap_need_unique) auto
    then show ?thesis using True w assms(1) by (simp add: heap_wanted_def Let_def)
  next
    case False
    have "?r \<le> n + 24" by (rule mod_less_eq_dividend)
    then have e: "n + 24 + (8 - ?r) = (n + 24 - ?r) + 8" using r by linarith
    have "n + 24 + (8 - ?r) = heap_need n"
    proof (rule heap_need_unique)
      show "8 dvd n + 24 + (8 - ?r)" unfolding e using d by (rule dvd_add) simp
    qed (use r False in linarith)+
    moreover have "u32 (n + 24 + (8 - ?r)) = n + 24 + (8 - ?r)" using assms r by (intro u32_id) linarith
    ultimately show ?thesis using False w assms(1) by (simp add: heap_wanted_def Let_def HEAP_BYTE_ALIGNMENT_def del: mod_add_self1 mod_add_self2)
  qed
qed

section \<open>Changes to headers\<close>

text \<open>Memory changed at most in the headers at some addresses.\<close>

definition heads_only :: "memory \<Rightarrow> memory \<Rightarrow> nat set \<Rightarrow> bool" where
  "heads_only m m' A \<longleftrightarrow> (\<forall>x. (\<forall>p \<in> A. x < p \<or> p + 24 \<le> x) \<longrightarrow> m' x = m x)"

lemma heads_onlyD: "heads_only m m' A \<Longrightarrow> (\<And>p. p \<in> A \<Longrightarrow> x < p \<or> p + 24 \<le> x) \<Longrightarrow> m' x = m x"
  by (simp add: heads_only_def)

lemma heads_only_refl [simp]: "heads_only m m A"
  by (simp add: heads_only_def)

lemma heads_only_trans: "heads_only m m1 A \<Longrightarrow> heads_only m1 m2 B \<Longrightarrow> A \<union> B \<subseteq> C \<Longrightarrow> heads_only m m2 C"
  unfolding heads_only_def by (metis Un_iff subsetD)

lemma links_heads: "links_only m m' A \<Longrightarrow> A \<subseteq> B \<Longrightarrow> heads_only m m' B"
proof -
  assume l: "links_only m m' A" "A \<subseteq> B"
  have "m' x = m x" if "\<And>p. p \<in> B \<Longrightarrow> x < p \<or> p + 24 \<le> x" for x
    using that l(2) by (intro links_onlyD [OF l(1)]) (fastforce dest: subsetD)
  then show ?thesis by (simp add: heads_only_def)
qed

lemma heads_only_wr32: "p \<in> A \<Longrightarrow> p \<le> a \<Longrightarrow> a \<le> p + 20 \<Longrightarrow> heads_only m (wr32 m a v) A"
  unfolding heads_only_def using wr32_other [of _ a m v] by fastforce

lemma heads_only_step:
  "heads_only m m1 A \<Longrightarrow> \<exists>p \<in> A. p \<le> a \<and> a \<le> p + 20 \<Longrightarrow> heads_only m (wr32 m1 a v) A"
  by (elim bexE conjE) (rule heads_only_trans [OF _ heads_only_wr32 [of _ A]]; auto)

lemma heads_only_rd32:
  "heads_only m m' A \<Longrightarrow> (\<And>p. p \<in> A \<Longrightarrow> apart p q) \<Longrightarrow> q \<le> a \<Longrightarrow> a \<le> q + 20 \<Longrightarrow> rd32 m' a = rd32 m a"
  by (rule rd32_cong, erule heads_onlyD) (fastforce simp: apart_def)

lemma heads_only_node:
  assumes "heads_only m m' A" and "\<And>p. p \<in> A \<Longrightarrow> apart p q"
  shows "blk_next m' q = blk_next m q" "blk_size m' q = blk_size m q" "blk_heap m' q = blk_heap m q"
    "blk_caps m' q = blk_caps m q" "blk_file m' q = blk_file m q"
  by (rule heads_only_rd32 [OF assms]; simp)+

lemma free_list_heads:
  assumes "free_list m s fs lo e" and "heads_only m m' A"
    and "\<And>p q. p \<in> A \<Longrightarrow> q = s \<or> q \<in> fst ` set fs \<Longrightarrow> apart p q"
  shows "free_list m' s fs lo e"
proof -
  have r: "blk_next m' q = blk_next m q" "blk_size m' q = blk_size m q" if "q = s \<or> q \<in> fst ` set fs" for q
    using heads_only_node [OF assms(2), of q] assms(3) that by blast+
  then have "path m' s (map fst fs) e = path m s (map fst fs) e" by (intro path_cong) auto
  then show ?thesis using assms(1) r by (simp add: free_list_def)
qed

section \<open>The invariant\<close>

definition heap_live :: "wm_memory \<Rightarrow> bool" where
  "heap_live mm \<longleftrightarrow> WM_HEAP_CAP_INVALID AND mm_caps mm = 0"

text \<open>A node outside a region.\<close>

definition outside :: "nat \<Rightarrow> wm_memory \<Rightarrow> bool" where
  "outside p mm \<longleftrightarrow> p + 24 \<le> mm_start mm \<or> mm_start mm + mm_size mm \<le> p"

text \<open>What the linker and the table of regions guarantee: the list nodes in the static data and the
  regions lie apart from each other, inside the address space.\<close>

definition static_ok :: "nat \<Rightarrow> wm_memory list \<Rightarrow> bool" where
  "static_ok used soc \<longleftrightarrow> 0 < used \<and> used + 24 \<le> 4294967296 \<and>
     (\<forall>i < length soc. mm_heap (soc ! i) + 24 \<le> 4294967296 \<and> apart used (mm_heap (soc ! i)) \<and>
       (\<forall>j < length soc. i \<noteq> j \<longrightarrow> apart (mm_heap (soc ! i)) (mm_heap (soc ! j))) \<and>
       (heap_live (soc ! i) \<longrightarrow>
         0 < mm_start (soc ! i) \<and> 64 \<le> mm_size (soc ! i) \<and> mm_start (soc ! i) + mm_size (soc ! i) \<le> 4294967296 \<and>
         mm_size (soc ! i) < 2147483648 \<and> outside used (soc ! i) \<and>
         (\<forall>j < length soc. outside (mm_heap (soc ! j)) (soc ! i) \<and>
           (heap_live (soc ! j) \<longrightarrow> i \<noteq> j \<longrightarrow>
             mm_start (soc ! i) + mm_size (soc ! i) \<le> mm_start (soc ! j) \<or>
             mm_start (soc ! j) + mm_size (soc ! j) \<le> mm_start (soc ! i)))))"

definition region_ok :: "memory \<Rightarrow> wm_memory \<Rightarrow> hblock list \<Rightarrow> bool" where
  "region_ok m mm bs \<longleftrightarrow>
     (\<exists>lo. tiled lo bs (mm_end mm) \<and> mm_start mm \<le> lo \<and> lo < mm_start mm + 8 \<and> 8 dvd lo \<and>
        free_list m (mm_heap mm) (free_areas bs) lo (mm_end mm)) \<and>
     mm_end mm + 24 \<le> mm_start mm + mm_size mm \<and> mm_start mm + mm_size mm < mm_end mm + 32 \<and>
     8 dvd mm_end mm \<and> blk_next m (mm_end mm) = 0 \<and> mm_bit mm = 2147483648 \<and>
     coalesced bs \<and>
     (\<forall>f \<in> set (used_areas bs). blk_size m (fst f) = snd f + 2147483648 \<and> blk_heap m (fst f) = mm_heap mm) \<and>
     mm_free mm = sum_list (map snd (free_areas bs)) \<and> mm_min mm \<le> mm_free mm"

definition all_used :: "hblock list list \<Rightarrow> area list" where
  "all_used B = concat (map used_areas B)"

definition free_total :: "wm_memory list \<Rightarrow> nat" where
  "free_total soc = sum_list (map (\<lambda>mm. if heap_live mm then mm_free mm else 0) soc)"

definition hs_ok :: "heap_sys \<Rightarrow> hblock list list \<Rightarrow> nat list \<Rightarrow> bool" where
  "hs_ok S B us \<longleftrightarrow> length B = length (hs_soc S) \<and> hg_struct (hs_glob S) = 24 \<and>
     static_ok (hs_used S) (hs_soc S) \<and>
     (\<forall>i < length B. if heap_live (hs_at S i) then region_ok (hs_mem S) (hs_at S i) (B ! i) else B ! i = []) \<and>
     path (hs_mem S) (hs_used S) us 0 \<and> distinct us \<and> set us = fst ` set (all_used B) \<and>
     blk_size (hs_mem S) (hs_used S) = u32 (sum_list (map snd (all_used B))) \<and>
     hg_free (hs_glob S) = u32 (free_total (hs_soc S))"

text \<open>The nodes of the heap: the two kinds of list heads, the blocks and the ends of the regions.\<close>

definition region_nodes :: "wm_memory \<Rightarrow> hblock list \<Rightarrow> nat set" where
  "region_nodes mm bs = insert (mm_end mm) (fst ` set bs)"

definition sys_nodes :: "heap_sys \<Rightarrow> hblock list list \<Rightarrow> nat set" where
  "sys_nodes S B = insert (hs_used S) (mm_heap ` set (hs_soc S) \<union>
     (\<Union>i \<in> {i. i < length B \<and> heap_live (hs_at S i)}. region_nodes (hs_at S i) (B ! i)))"

lemma all_used_split: "i < length B \<Longrightarrow> all_used B = all_used (take i B) @ used_areas (B ! i) @ all_used (drop (Suc i) B)"
  by (subst id_take_nth_drop [of i B]) (simp_all add: all_used_def)

lemma all_used_update:
  "i < length B \<Longrightarrow> all_used (B[i := bs]) = all_used (take i B) @ used_areas bs @ all_used (drop (Suc i) B)"
  by (simp add: upd_conv_take_nth_drop all_used_def)

lemma free_total_update:
  assumes "i < length soc" and "heap_live (soc ! i)" and "heap_live mm"
  shows "free_total (soc[i := mm]) + mm_free (soc ! i) = free_total soc + mm_free mm"
proof -
  have "free_total soc = free_total (take i soc @ soc ! i # drop (Suc i) soc)"
    using id_take_nth_drop [OF assms(1)] by simp
  then show ?thesis using assms by (simp add: upd_conv_take_nth_drop free_total_def)
qed

lemma set_all_used: "(b, n) \<in> set (all_used B) \<longleftrightarrow> (\<exists>i < length B. (b, n, True) \<in> set (B ! i))"
  by (auto simp: all_used_def set_used_areas in_set_conv_nth [of _ B]) (metis set_used_areas nth_mem)

lemma hs_ok_region: "hs_ok S B us \<Longrightarrow> i < length B \<Longrightarrow> heap_live (hs_at S i) \<Longrightarrow> region_ok (hs_mem S) (hs_at S i) (B ! i)"
  by (simp add: hs_ok_def)

lemma hs_ok_block_live: "hs_ok S B us \<Longrightarrow> i < length B \<Longrightarrow> x \<in> set (B ! i) \<Longrightarrow> heap_live (hs_at S i)"
  unfolding hs_ok_def by (metis empty_iff empty_set)

lemma hs_ok_static: "hs_ok S B us \<Longrightarrow> static_ok (hs_used S) (hs_soc S)"
  by (simp add: hs_ok_def)

lemma hs_ok_length: "hs_ok S B us \<Longrightarrow> length B = length (hs_soc S)"
  by (simp add: hs_ok_def)

text \<open>A block keeps clear of every other node.\<close>

lemma region_block:
  assumes "region_ok m mm bs" and "(b, n, u) \<in> set bs"
  shows "mm_start mm \<le> b" "b + n \<le> mm_end mm" "24 \<le> n" "8 dvd b" "8 dvd n" "mm_end mm + 24 \<le> mm_start mm + mm_size mm"
proof -
  obtain lo where lo: "tiled lo bs (mm_end mm)" "mm_start mm \<le> lo \<and> lo < mm_start mm + 8" "8 dvd lo" using assms(1) by (auto simp: region_ok_def)
  show "mm_start mm \<le> b" "b + n \<le> mm_end mm" "24 \<le> n" "8 dvd n" using tiled_block [OF lo(1) assms(2)] lo(2) by auto
  show "8 dvd b" using tiled_dvd [OF lo(1,3)] assms(2) by auto
  show "mm_end mm + 24 \<le> mm_start mm + mm_size mm" using assms(1) by (simp add: region_ok_def)
qed

lemma region_used:
  assumes "region_ok m mm bs" and "(c, k, True) \<in> set bs"
  shows "blk_size m c = k + 2147483648" and "blk_heap m c = mm_heap mm"
proof -
  have "\<forall>f \<in> set (used_areas bs). blk_size m (fst f) = snd f + 2147483648 \<and> blk_heap m (fst f) = mm_heap mm"
    using assms(1) by (simp add: region_ok_def)
  moreover have "(c, k) \<in> set (used_areas bs)" using assms(2) by (simp add: set_used_areas)
  ultimately show "blk_size m c = k + 2147483648" "blk_heap m c = mm_heap mm" by auto
qed

lemma region_end: "region_ok m mm bs \<Longrightarrow> mm_start mm \<le> mm_end mm"
  by (auto simp: region_ok_def dest: tiled_le)

lemma region_node_in:
  assumes "region_ok m mm bs" and "q \<in> region_nodes mm bs"
  shows "mm_start mm \<le> q" and "q + 24 \<le> mm_start mm + mm_size mm"
proof -
  have e: "mm_end mm + 24 \<le> mm_start mm + mm_size mm" using assms(1) by (simp add: region_ok_def)
  consider "q = mm_end mm" | n u where "(q, n, u) \<in> set bs" using assms(2) by (auto simp: region_nodes_def)
  then have "mm_start mm \<le> q \<and> q + 24 \<le> mm_start mm + mm_size mm"
  proof cases
    case 2
    show ?thesis using region_block [OF assms(1) 2] by linarith
  qed (use e region_end [OF assms(1)] in simp)
  then show "mm_start mm \<le> q" and "q + 24 \<le> mm_start mm + mm_size mm" by simp_all
qed

lemma node_clear:
  assumes ok: "hs_ok S B us" and j: "j < length B" and c: "(c, k, u) \<in> set (B ! j)" and q: "q \<in> sys_nodes S B" "q \<noteq> c"
  shows "q + 24 \<le> c \<or> c + k \<le> q"
proof -
  have l: "heap_live (hs_at S j)" "length B = length (hs_soc S)" using hs_ok_block_live [OF ok j c] ok by (auto simp: hs_ok_def)
  have r: "region_ok (hs_mem S) (hs_at S j) (B ! j)" using hs_ok_region [OF ok j l(1)] .
  note b = region_block [OF r c]
  have st: "outside (hs_used S) (hs_at S j)" "\<forall>i < length B. outside (mm_heap (hs_at S i)) (hs_at S j)"
    "\<forall>i < length B. heap_live (hs_at S i) \<longrightarrow> i \<noteq> j \<longrightarrow>
       mm_start (hs_at S i) + mm_size (hs_at S i) \<le> mm_start (hs_at S j) \<or>
       mm_start (hs_at S j) + mm_size (hs_at S j) \<le> mm_start (hs_at S i)"
    using hs_ok_static [OF ok] j l by (auto simp: static_ok_def)
  have out: "q + 24 \<le> c \<or> c + k \<le> q" if "outside q (hs_at S j)"
    using that b by (auto simp: outside_def)
  consider "q = hs_used S" | i where "i < length B" "q = mm_heap (hs_at S i)"
    | i where "i < length B" "heap_live (hs_at S i)" "q \<in> region_nodes (hs_at S i) (B ! i)"
    using q(1) l(2) by (auto simp: sys_nodes_def in_set_conv_nth)
  then show ?thesis
  proof cases
    case (3 i)
    show ?thesis
    proof (cases "i = j")
      case True
      obtain lo where lo: "tiled lo (B ! j) (mm_end (hs_at S j))" using r by (auto simp: region_ok_def)
      show ?thesis
      proof (cases "q = mm_end (hs_at S j)")
        case False
        then obtain n v where x: "(q, n, v) \<in> set (B ! j)" using 3(3) True by (auto simp: region_nodes_def)
        show ?thesis using tiled_apart [OF lo x c] region_block(3) [OF r x] q(2) by auto
      qed (use b in simp)
    next
      case False
      then show ?thesis using region_node_in [OF hs_ok_region [OF ok 3(1,2)] 3(3)] st(3) 3 b by fastforce
    qed
  qed (use out st in auto)
qed

section \<open>Taking a block off the free list\<close>

lemma region_ok_heads:
  assumes "region_ok m mm bs" and "heads_only m m' A"
    and ap: "\<And>p q. p \<in> A \<Longrightarrow> q = mm_heap mm \<or> q \<in> region_nodes mm bs \<Longrightarrow> apart p q"
  shows "region_ok m' mm bs"
proof -
  obtain lo where lo: "tiled lo bs (mm_end mm)" "mm_start mm \<le> lo \<and> lo < mm_start mm + 8" "8 dvd lo"
    "free_list m (mm_heap mm) (free_areas bs) lo (mm_end mm)" using assms(1) by (auto simp: region_ok_def)
  have "free_list m' (mm_heap mm) (free_areas bs) lo (mm_end mm)"
  proof (rule free_list_heads [OF lo(4) assms(2)])
    fix p q assume "p \<in> A" "q = mm_heap mm \<or> q \<in> fst ` set (free_areas bs)"
    moreover have "fst ` set (free_areas bs) \<subseteq> region_nodes mm bs"
      by (force simp: region_nodes_def set_free_areas)
    ultimately show "apart p q" using ap by blast
  qed
  moreover have "blk_next m' (mm_end mm) = blk_next m (mm_end mm)"
    by (rule heads_only_node [OF assms(2)]) (use ap in \<open>auto simp: region_nodes_def\<close>)
  moreover have "blk_size m' (fst f) = blk_size m (fst f) \<and> blk_heap m' (fst f) = blk_heap m (fst f)"
    if "f \<in> set (used_areas bs)" for f
  proof -
    obtain b n where f: "f = (b, n)" by (cases f)
    then have "b \<in> region_nodes mm bs" using that by (force simp: region_nodes_def set_used_areas)
    then have "apart p b" if "p \<in> A" for p using ap that by blast
    from heads_only_node [OF assms(2) this] show ?thesis using f by simp
  qed
  ultimately show ?thesis using assms(1) lo(1-3) unfolding region_ok_def by auto
qed

lemma free_list_unlink:
  assumes fl: "free_list m s (f1 @ (b, n) # f2) lo e"
  shows "free_list (set_next m (last (s # map fst f1)) (blk_next m b)) s (f1 @ f2) lo e"
proof -
  let ?p = "last (s # map fst f1)" and ?m = "set_next m (last (s # map fst f1)) (blk_next m b)"
  have ap: "sorted_wrt apart (s # map fst f1 @ b # map fst f2)" using free_list_apart [OF fl] by simp
  have p: "path m s (map fst f1) b" "path m b (map fst f2) e" using fl by (auto simp: free_list_def path_split)
  have r: "path ?m s (map fst f1) (blk_next m b)"
    by (rule path_relink [OF p(1)]) (use ap in \<open>auto simp: sorted_wrt_append\<close>)
  have far: "apart ?p q" if "q \<in> set (map fst f2)" for q
    using ap that by (cases f1 rule: rev_cases) (auto simp: sorted_wrt_append)
  have "path ?m s (map fst (f1 @ f2)) e"
  proof (cases f2)
    case (Cons c f3)
    have "path ?m (fst c) (map fst f3) e = path m (fst c) (map fst f3) e"
    proof (rule path_cong)
      fix q assume "q = fst c \<or> q \<in> set (map fst f3)"
      then have "apart ?p q" using Cons far by auto
      then show "blk_next ?m q = blk_next m q" by (auto simp: apart_def)
    qed
    then show ?thesis using Cons r p(2) by (simp add: path_split)
  qed (use r p in simp)
  moreover have "blk_size ?m q = blk_size m q" if "q \<in> insert s (fst ` set (f1 @ f2))" for q
  proof -
    have "q = ?p \<or> apart q ?p"
      using that ap by (cases f1 rule: rev_cases) (auto simp: sorted_wrt_append intro: apart_sym)
    then show ?thesis by (auto simp: apart_def)
  qed
  ultimately show ?thesis using fl by (auto simp: free_list_def sorted_wrt_append)
qed

text \<open>The part of a block the request gets.\<close>

definition taken :: "nat \<Rightarrow> nat \<Rightarrow> nat" where
  "taken n w = (if 48 < n - w then w else n)"

lemma heap_split_spec:
  assumes fl: "free_list m s (free_areas xs @ free_areas ys) lo e" and s: "mm_heap mm = s" "mm_end mm = e"
    and t: "tiled lo (xs @ (b, n, False) # ys) e" and c: "coalesced (xs @ (b, n, False) # ys)"
    and n: "blk_size m b = n" and w: "w \<le> n" "24 \<le> w" "8 dvd w" and lo: "8 dvd lo"
  shows "\<exists>m1. heap_split m 24 mm b w = Done m1 \<and> free_list m1 s (free_areas (xs @ cut_block b n w @ ys)) lo e \<and>
    blk_size m1 b = taken n w \<and> heads_only m m1 (insert (last (s # map fst (free_areas xs))) (fst ` set (cut_block b n w)))"
proof (cases "48 < n - w")
  case False
  have "sub32 (blk_size m b) w = n - w" using n w rd32_lt [of m "b + 4"] by (simp add: sub32_id)
  then have "heap_split m 24 mm b w = Done m" using False by (simp add: heap_split_def)
  then show ?thesis using False fl n by (simp add: cut_block_def taken_def)
next
  case True
  let ?nb = "b + w" and ?k = "n - w"
  have e: "e + 24 \<le> 4294967296" "s + 24 \<le> lo \<or> e + 24 \<le> s" using fl by (auto simp: free_list_def)
  obtain d where d: "tiled lo xs b" "24 \<le> n" "8 dvd n" "tiled (b + n) ys e" using t by (auto simp: tiled_append)
  have b: "lo \<le> b" "b + n \<le> e" "8 dvd b"
    using tiled_le [OF d(1)] tiled_le [OF d(4)] tiled_dvd [OF d(1) lo] by auto
  define m2 where "m2 = set_size (set_size m ?nb ?k) b w"
  have sub: "sub32 (blk_size m b) w = ?k" using n w b e by (simp add: sub32_id)
  have k: "u32 ?nb = ?nb" "?nb mod 8 = 0" "u32 w = w" "u32 ?k = ?k" using b e w True by auto
  have sizes: "blk_size m2 b = w" "blk_size m2 ?nb = ?k" using k w by (simp_all add: m2_def)
  have h2: "heads_only m m2 {?nb, b}" unfolding m2_def
    by (rule heads_only_trans [OF heads_only_wr32 [of ?nb "{?nb}"] heads_only_wr32 [of b "{b}"]]) auto
  have far: "apart p q" if "p \<in> {?nb, b}" "q = s \<or> q \<in> fst ` set (free_areas xs @ free_areas ys)" for p q
  proof -
    have "q + 24 \<le> b \<or> b + n \<le> q"
      using that(2) e b tiled_areas_ok [OF d(1)] tiled_areas_ok [OF d(4)] by (force simp: areas_ok_def)
    then show ?thesis using that(1) w True by (auto simp: apart_def)
  qed
  have fl2: "free_list m2 s (free_areas xs @ free_areas ys) lo e" by (rule free_list_heads [OF fl h2 far])
  let ?xs = "xs @ [(b, w, True)]"
  have t2: "tiled lo (?xs @ (?nb, ?k, False) # ys) e" using t w True by (auto simp: tiled_append)
  have res: "join_in (free_areas xs) ?nb ?k (free_areas ys) = free_areas xs @ (?nb, ?k) # free_areas ys"
  proof -
    have "glue ?nb ?k ys = (?nb, ?k, False) # ys"
      using c by (cases rule: glue_cases [of ys ?nb ?k]) (auto simp: coalesced_append coalesced_Cons)
    then show ?thesis using free_give_back [OF t2] by (simp add: give_back_def)
  qed
  have "areas_ok (free_areas xs @ (?nb, ?k) # free_areas ys) lo e" using tiled_areas_ok [OF t2] by simp
  from heap_insert_spec [OF fl2 this sizes(2) [symmetric]]
  obtain m3 where m3: "heap_insert_block_into_free_list m2 s e ?nb = Some m3"
    "free_list m3 s (free_areas xs @ (?nb, ?k) # free_areas ys) lo e"
    "links_only m2 m3 {last (s # map fst (free_areas xs)), ?nb}"
    unfolding res by auto
  have "apart (last (s # map fst (free_areas xs))) b"
    using far [of b] by (cases "free_areas xs" rule: rev_cases) (auto intro: apart_sym)
  moreover have "apart ?nb b" using w by (simp add: apart_def)
  ultimately have "blk_size m3 b = w"
    using links_only_node(2) [OF m3(3), of b] sizes(1) by blast
  moreover have "heads_only m m3 (insert (last (s # map fst (free_areas xs))) {?nb, b})"
    by (rule heads_only_trans [OF h2 links_heads [OF m3(3) order_refl]]) auto
  moreover have "heap_split m 24 mm b w = Done m3"
    using True sub k m3(1) s by (simp add: heap_split_def m2_def Let_def)
  ultimately show ?thesis using True m3(2) by (auto simp: cut_block_def taken_def insert_commute)
qed

end
