(* ===== verification/HeapSteps.thy ===== *)
theory HeapSteps
  imports HeapSpec
begin

text \<open>
  One allocation in one region and one release, at the level of the whole heap: the outcome, the
  blocks afterwards, and the bytes of every block in use.
\<close>

section \<open>Numbers\<close>

lemma sub32_u32: 
  assumes "y \<le> x" and "y < 4294967296"
  shows "sub32 (u32 x) y = u32 (x - y)"
proof -
  have "u32 x + 2 ^ 32 - y = x mod 4294967296 + (4294967296 - y)" using assms(2) by (simp add: u32_def)
  moreover have "(x mod 4294967296 + (4294967296 - y)) mod 4294967296 = (x + (4294967296 - y)) mod 4294967296"
    by (rule mod_add_left_eq)
  moreover have "x + (4294967296 - y) = (x - y) + 4294967296" using assms by linarith
  moreover have "(2 :: nat) ^ 32 = 4294967296" by simp
  ultimately show ?thesis unfolding sub32_def u32_def by (metis mod_add_self2)
qed

lemma u32_add: "u32 (u32 x + y) = u32 (x + y)" "u32 (x + u32 y) = u32 (x + y)"
  by (simp_all add: u32_def mod_simps)

lemma free_sum_le: "tiled a bs e \<Longrightarrow> a + sum_list (map snd (free_areas bs)) \<le> e"
  by (induction a bs e rule: tiled.induct) auto

section \<open>Nodes of different parts\<close>

definition layout :: "wm_memory \<Rightarrow> wm_memory" where
  "layout mm = mm\<lparr>mm_free := 0, mm_min := 0, mm_allocs := 0, mm_frees := 0\<rparr>"

definition same_layout :: "heap_sys \<Rightarrow> heap_sys \<Rightarrow> bool" where
  "same_layout S S' \<longleftrightarrow> map layout (hs_soc S') = map layout (hs_soc S) \<and> hs_used S' = hs_used S \<and>
     hg_struct (hs_glob S') = hg_struct (hs_glob S)"

lemma same_layout_refl [simp]: "same_layout S S"
  by (simp add: same_layout_def)

lemma same_layout_trans: "same_layout S S1 \<Longrightarrow> same_layout S1 S2 \<Longrightarrow> same_layout S S2"
  by (simp add: same_layout_def)

lemma same_layout_at:
  assumes "same_layout S S'"
  shows "length (hs_soc S') = length (hs_soc S)"
    and "i < length (hs_soc S) \<Longrightarrow> mm_start (hs_at S' i) = mm_start (hs_at S i) \<and> mm_size (hs_at S' i) = mm_size (hs_at S i) \<and>
      mm_caps (hs_at S' i) = mm_caps (hs_at S i) \<and> mm_heap (hs_at S' i) = mm_heap (hs_at S i) \<and>
      mm_end (hs_at S' i) = mm_end (hs_at S i) \<and> mm_bit (hs_at S' i) = mm_bit (hs_at S i)"
proof -
  show l: "length (hs_soc S') = length (hs_soc S)" using assms unfolding same_layout_def by (metis length_map)
  assume "i < length (hs_soc S)"
  then have "layout (hs_at S' i) = layout (hs_at S i)" using assms l unfolding same_layout_def by (metis nth_map)
  then have "f (layout (hs_at S' i)) = f (layout (hs_at S i))" for f :: "wm_memory \<Rightarrow> nat" by simp
  from this [of mm_start] this [of mm_size] this [of mm_caps] this [of mm_heap] this [of mm_end] this [of mm_bit]
  show "mm_start (hs_at S' i) = mm_start (hs_at S i) \<and> mm_size (hs_at S' i) = mm_size (hs_at S i) \<and>
      mm_caps (hs_at S' i) = mm_caps (hs_at S i) \<and> mm_heap (hs_at S' i) = mm_heap (hs_at S i) \<and>
      mm_end (hs_at S' i) = mm_end (hs_at S i) \<and> mm_bit (hs_at S' i) = mm_bit (hs_at S i)"
    by (simp add: layout_def)
qed

lemma static_ok_cong:
  assumes "same_layout S S'" and "static_ok (hs_used S) (hs_soc S)"
  shows "static_ok (hs_used S') (hs_soc S')"
proof -
  have u: "hs_used S' = hs_used S" using assms(1) by (simp add: same_layout_def)
  have l: "length (hs_soc S') = length (hs_soc S)" by (rule same_layout_at(1) [OF assms(1)])
  have e: "mm_start (hs_at S' i) = mm_start (hs_at S i)" "mm_size (hs_at S' i) = mm_size (hs_at S i)"
    "mm_heap (hs_at S' i) = mm_heap (hs_at S i)" "heap_live (hs_at S' i) = heap_live (hs_at S i)"
    "\<And>p. outside p (hs_at S' i) = outside p (hs_at S i)" if "i < length (hs_soc S)" for i
    using same_layout_at(2) [OF assms(1) that] by (simp_all add: heap_live_def outside_def)
  show ?thesis using assms(2) unfolding static_ok_def u l by (simp add: e)
qed

lemma outside_apart: "outside p mm \<Longrightarrow> mm_start mm \<le> q \<Longrightarrow> q + 24 \<le> mm_start mm + mm_size mm \<Longrightarrow> apart p q"
  by (auto simp: outside_def apart_def)

text \<open>A heap's own nodes, and how they lie to those of other heaps and to the used list.\<close>

definition heap_nodes :: "heap_sys \<Rightarrow> hblock list list \<Rightarrow> nat \<Rightarrow> nat set" where
  "heap_nodes S B i = insert (mm_heap (hs_at S i)) (region_nodes (hs_at S i) (B ! i))"

lemma used_apart:
  assumes "hs_ok S B us" and "i < length B" and "heap_live (hs_at S i)" and "q \<in> heap_nodes S B i"
  shows "apart (hs_used S) q"
proof -
  have st: "outside (hs_used S) (hs_at S i)" "apart (hs_used S) (mm_heap (hs_at S i))"
    using hs_ok_static [OF assms(1)] hs_ok_length [OF assms(1)] assms(2,3) by (auto simp: static_ok_def)
  then show ?thesis
    using assms(4) outside_apart [OF st(1)] region_node_in [OF hs_ok_region [OF assms(1-3)]] by (auto simp: heap_nodes_def)
qed

lemma heaps_apart:
  assumes ok: "hs_ok S B us" and i: "i < length B" "heap_live (hs_at S i)" and j: "j < length B" "heap_live (hs_at S j)"
    and "i \<noteq> j" and "p \<in> heap_nodes S B i" and "q \<in> heap_nodes S B j"
  shows "apart p q"
proof -
  have st: "apart (mm_heap (hs_at S i)) (mm_heap (hs_at S j))" "outside (mm_heap (hs_at S i)) (hs_at S j)"
    "outside (mm_heap (hs_at S j)) (hs_at S i)"
    "mm_start (hs_at S i) + mm_size (hs_at S i) \<le> mm_start (hs_at S j) \<or>
     mm_start (hs_at S j) + mm_size (hs_at S j) \<le> mm_start (hs_at S i)"
    using hs_ok_static [OF ok] hs_ok_length [OF ok] i j assms(6) by (auto simp: static_ok_def)
  note ri = region_node_in [OF hs_ok_region [OF ok i]] and rj = region_node_in [OF hs_ok_region [OF ok j]]
  consider "p = mm_heap (hs_at S i)" "q = mm_heap (hs_at S j)"
    | "p = mm_heap (hs_at S i)" "q \<in> region_nodes (hs_at S j) (B ! j)"
    | "p \<in> region_nodes (hs_at S i) (B ! i)" "q = mm_heap (hs_at S j)"
    | "p \<in> region_nodes (hs_at S i) (B ! i)" "q \<in> region_nodes (hs_at S j) (B ! j)"
    using assms(7,8) by (auto simp: heap_nodes_def)
  then show ?thesis
  proof cases
    case 3
    then show ?thesis using outside_apart [OF st(3) ri] by (auto intro: apart_sym)
  next
    case 4
    then show ?thesis using ri [of p] rj [of q] st(4) by (auto simp: apart_def)
  qed (use st(1) outside_apart [OF st(2) rj] in auto)
qed

lemma heap_node_apart_block:
  assumes "hs_ok S B us" and "i < length B" and "(b, n, u) \<in> set (B ! i)" and "q \<in> heap_nodes S B i" and "q \<noteq> b"
  shows "q + 24 \<le> b \<or> b + n \<le> q"
proof (rule node_clear [OF assms(1-3) _ assms(5)])
  have "heap_live (hs_at S i)" by (rule hs_ok_block_live [OF assms(1-3)])
  then show "q \<in> sys_nodes S B"
    using assms(2,4) hs_ok_length [OF assms(1)] by (auto simp: sys_nodes_def heap_nodes_def)
qed

section \<open>A step in one region\<close>

text \<open>The bytes of a block behind its header.\<close>

definition payload :: "memory \<Rightarrow> area \<Rightarrow> bytes" where
  "payload m f = mem_slice m (fst f + 24) (snd f - 24)"

lemma payload_heads:
  assumes "heads_only m m' A" and "\<And>p. p \<in> A \<Longrightarrow> p \<noteq> c \<Longrightarrow> p + 24 \<le> c \<or> c + k \<le> p"
  shows "payload m' (c, k) = payload m (c, k)"
  unfolding payload_def by (rule mem_slice_cong, rule heads_onlyD [OF assms(1)]) (use assms(2) in fastforce)

text \<open>What has to be shown of a step that changes the blocks and counters of one region.\<close>

lemma hs_ok_step:
  assumes ok: "hs_ok S B us" and i: "i < length B" "heap_live (hs_at S i)"
    and soc: "hs_soc S' = (hs_soc S)[i := mm']" "layout mm' = layout (hs_at S i)"
    and fixd: "hs_used S' = hs_used S" "hg_struct (hs_glob S') = hg_struct (hs_glob S)"
    and ri: "region_ok (hs_mem S') mm' bs'"
    and rj: "\<And>j. j < length B \<Longrightarrow> heap_live (hs_at S j) \<Longrightarrow> j \<noteq> i \<Longrightarrow> region_ok (hs_mem S') (hs_at S j) (B ! j)"
    and us': "path (hs_mem S') (hs_used S) us' 0" "distinct us'" "set us' = fst ` set (all_used (B[i := bs']))"
    and sz: "blk_size (hs_mem S') (hs_used S) = u32 (sum_list (map snd (all_used (B[i := bs']))))"
    and fr: "hg_free (hs_glob S') = u32 (free_total (hs_soc S'))"
  shows "hs_ok S' (B[i := bs']) us'" and "same_layout S S'"
proof -
  have il: "i < length (hs_soc S)" using i(1) hs_ok_length [OF ok] by simp
  show sl: "same_layout S S'"
    using soc(2) il by (simp add: same_layout_def soc(1) fixd map_update list_update_same_conv)
  have live': "heap_live (hs_at S' j) = heap_live (hs_at S j)" if "j < length B" for j
    using same_layout_at(2) [OF sl, of j] that hs_ok_length [OF ok] by (simp add: heap_live_def)
  have at': "hs_at S' j = (if j = i then mm' else hs_at S j)" if "j < length B" for j
    using il that by (simp add: soc(1))
  have "if heap_live (hs_at S' j) then region_ok (hs_mem S') (hs_at S' j) (B[i := bs'] ! j) else B[i := bs'] ! j = []"
    if j: "j < length B" for j
    using ri rj [OF j] live' [OF j] at' [OF j] j i ok by (auto simp: hs_ok_def)
  then show "hs_ok S' (B[i := bs']) us'"
    using static_ok_cong [OF sl hs_ok_static [OF ok]] same_layout_at(1) [OF sl] ok us' sz fr fixd
    unfolding hs_ok_def by simp
qed

lemma free_total_step:
  assumes "hs_ok S B us" and "i < length B" and "heap_live (hs_at S i)" and "layout mm' = layout (hs_at S i)"
  shows "free_total ((hs_soc S)[i := mm']) + mm_free (hs_at S i) = free_total (hs_soc S) + mm_free mm'"
proof -
  have "mm_caps (layout mm') = mm_caps (layout (hs_at S i))" using assms(4) by simp
  then have "heap_live mm'" using assms(3) by (simp add: layout_def heap_live_def)
  then show ?thesis using free_total_update assms hs_ok_length [OF assms(1)] by simp
qed

text \<open>A list of used blocks that is re-linked at its head.\<close>

lemma path_push:
  assumes "path m used us 0" and "blk_next m' used = b" and "blk_next m' b = blk_next m used"
    and "\<And>q. q \<in> set us \<Longrightarrow> blk_next m' q = blk_next m q"
  shows "path m' used (b # us) 0"
  using path_head [OF assms(1,3)] assms(2,4) by simp

lemma free_areas_pos:
  assumes "region_ok m mm bs" and "0 < mm_start mm" and "f \<in> set (free_areas bs)"
  shows "0 < fst f" and "blk_size m (fst f) = snd f"
proof -
  have "(fst f, snd f, False) \<in> set bs" using assms(3) by (subst set_free_areas [symmetric]) simp
  from region_block(1) [OF assms(1) this] show "0 < fst f" using assms(2) by simp
  show "blk_size m (fst f) = snd f" using assms(1,3) by (auto simp: region_ok_def free_list_def)
qed

end
