(* ===== verification/HeapAlloc.thy ===== *)
theory HeapAlloc
  imports HeapSteps
begin

text \<open>
  Allocation: what one region does with a request, and the search through the regions.
\<close>

section \<open>Marking a block as used\<close>

lemma mark_used_spec:
  assumes ap: "apart used b" and n: "blk_size m b = n" "n < 2147483648" and bh: "b < 4294967296" "h < 4294967296"
    and m'_def: "m' = heap_mark_used m used b h caps file line 2147483648"
  shows "heads_only m m' {used, b}" and "blk_size m' b = n + 2147483648" and "blk_heap m' b = h"
    and "blk_next m' used = b" and "blk_next m' b = blk_next m used" and "blk_caps m' b = u32 caps"
    and "blk_size m' used = u32 (blk_size m used + n)"
proof -
  have a: "used + 24 \<le> b \<or> b + 24 \<le> used" using ap by (simp add: apart_def)
  define m2 where "m2 = set_line (set_file (set_caps (set_heap m b h) b caps) b file) b line"
  have h2: "heads_only m m2 {used, b}" unfolding m2_def
    by (intro heads_only_step heads_only_refl) auto
  have f2: "blk_size m2 b = n" "blk_heap m2 b = h" "blk_caps m2 b = u32 caps" "blk_next m2 used = blk_next m used"
    "blk_size m2 used = blk_size m used" "blk_next m2 b = blk_next m b"
    using a n bh by (auto simp: m2_def)
  define m3 where "m3 = heap_insert_block_into_used_list m2 used b"
  have h3: "heads_only m2 m3 {used, b}" unfolding m3_def heap_insert_block_into_used_list_def Let_def
    by (intro heads_only_step heads_only_refl) auto
  have f3: "blk_size m3 b = n" "blk_heap m3 b = h" "blk_caps m3 b = u32 caps" "blk_next m3 used = b"
    "blk_size m3 used = u32 (blk_size m used + n)" "blk_next m3 b = blk_next m used"
    using a n bh f2 by (auto simp: m3_def heap_insert_block_into_used_list_def Let_def)
  have m': "m' = set_size m3 b (n + 2147483648)"
    using f3(1) n by (simp add: m'_def heap_mark_used_def m2_def [symmetric] m3_def [symmetric] Let_def or_bit31)
  show "heads_only m m' {used, b}" unfolding m'
    by (rule heads_only_step [OF heads_only_trans [OF h2 h3]]) auto
  show "blk_size m' b = n + 2147483648" "blk_heap m' b = h" "blk_next m' used = b" "blk_next m' b = blk_next m used"
    "blk_caps m' b = u32 caps" "blk_size m' used = u32 (blk_size m used + n)"
    using f3 a n by (auto simp: m')
qed

section \<open>The nodes an allocation writes\<close>

lemma last_free_node: "last (s # map fst (free_areas xs)) = s \<or> (\<exists>k. (last (s # map fst (free_areas xs)), k, False) \<in> set xs)"
proof (cases "free_areas xs" rule: rev_cases)
  case (snoc g f)
  then have "(fst f, snd f, False) \<in> set xs" by (subst set_free_areas [symmetric]) simp
  then show ?thesis using snoc by auto
qed simp

text \<open>The nodes an allocation writes, besides the head of the used list: the one before the block, the
  block and the rest that stays free. They keep clear of everything else.\<close>

definition alloc_heads :: "heap_sys \<Rightarrow> nat \<Rightarrow> hblock list \<Rightarrow> nat \<Rightarrow> nat \<Rightarrow> nat \<Rightarrow> nat set" where
  "alloc_heads S i xs b k w =
     insert (last (mm_heap (hs_at S i) # map fst (free_areas xs))) (fst ` set (cut_block b k w))"

lemma alloc_nodes_clear:
  assumes ok: "hs_ok S B us" and i: "i < length B" and bs: "B ! i = xs @ (b, k, False) # ys" and w: "24 \<le> w"
    and p: "p \<in> alloc_heads S i xs b k w"
  shows "p \<in> heap_nodes S B i \<or> b + 24 \<le> p \<and> p + 24 \<le> b + k"
    and "j < length B \<Longrightarrow> (c, n, True) \<in> set (B ! j) \<Longrightarrow> p + 24 \<le> c \<or> c + n \<le> p"
proof -
  have b: "(b, k, False) \<in> set (B ! i)" using bs by simp
  have l: "heap_live (hs_at S i)" by (rule hs_ok_block_live [OF ok i b])
  let ?p = "last (mm_heap (hs_at S i) # map fst (free_areas xs))"
  have head: "q \<in> heap_nodes S B i" if "q = mm_heap (hs_at S i) \<or> (\<exists>x. (q, x) \<in> set (B ! i))" for q
    using that by (force simp: heap_nodes_def region_nodes_def)
  have pn: "?p \<in> heap_nodes S B i" by (rule head) (use last_free_node [of "mm_heap (hs_at S i)" xs] bs in fastforce)
  have bn: "b \<in> heap_nodes S B i" by (rule head) (use b in blast)
  have p': "p = ?p \<or> p = b \<or> p = b + w \<and> 48 < k - w" using p by (auto simp: alloc_heads_def cut_block_def split: if_splits)
  then show "p \<in> heap_nodes S B i \<or> b + 24 \<le> p \<and> p + 24 \<le> b + k" using pn bn w by auto
  assume j: "j < length B" and c: "(c, n, True) \<in> set (B ! j)"
  have lj: "heap_live (hs_at S j)" by (rule hs_ok_block_live [OF ok j c])
  have ne: "?p \<noteq> c \<and> b \<noteq> c"
  proof (cases "j = i")
    case True
    have r: "region_ok (hs_mem S) (hs_at S i) (B ! i)" by (rule hs_ok_region [OF ok i l])
    obtain lo where lo: "tiled lo (B ! i) (mm_end (hs_at S i))" using r by (auto simp: region_ok_def)
    have no: "q \<noteq> c" if "(q, x, False) \<in> set (B ! i)" for q x
      using tiled_apart [OF lo that, of c n True] c True region_block(3) [OF r that] region_block(3) [OF r, of c n True] by auto
    have "mm_heap (hs_at S i) \<noteq> c"
    proof
      assume h: "mm_heap (hs_at S i) = c"
      have "outside (mm_heap (hs_at S i)) (hs_at S i)"
        using hs_ok_static [OF ok] hs_ok_length [OF ok] i l by (auto simp: static_ok_def)
      then show False using h region_block [OF r, of c n True] c True by (auto simp: outside_def)
    qed
    then show ?thesis using no [OF b] no last_free_node [of "mm_heap (hs_at S i)" xs] bs by fastforce
  next
    case False
    have "c \<in> heap_nodes S B j" using c by (force simp: heap_nodes_def region_nodes_def)
    then show ?thesis using heaps_apart [OF ok j lj i l False] pn bn by fastforce
  qed
  have node: "q + 24 \<le> c \<or> c + n \<le> q" if "q \<in> heap_nodes S B i" "q \<noteq> c" for q
  proof (rule node_clear [OF ok j c _ that(2)])
    show "q \<in> sys_nodes S B" using that(1) i l hs_ok_length [OF ok] by (auto simp: sys_nodes_def heap_nodes_def)
  qed
  have cn: "24 \<le> n" by (rule region_block(3) [OF hs_ok_region [OF ok j lj] c])
  have cb: "c + 24 \<le> b \<or> b + k \<le> c"
  proof (rule node_clear [OF ok i b])
    show "c \<in> sys_nodes S B" using c j lj by (force simp: sys_nodes_def region_nodes_def)
  qed (use ne in simp)
  from p' show "p + 24 \<le> c \<or> c + n \<le> p"
  proof (elim disjE)
    assume "p = b + w \<and> 48 < k - w"
    then show ?thesis using cb node [OF bn] ne w by auto
  qed (use node pn bn ne in blast)+
qed

lemma alloc_nodes_apart:
  assumes ok: "hs_ok S B us" and i: "i < length B" and bs: "B ! i = xs @ (b, k, False) # ys" and w: "24 \<le> w"
    and p: "p \<in> alloc_heads S i xs b k w"
  shows "apart p (hs_used S)"
    and "j < length B \<Longrightarrow> heap_live (hs_at S j) \<Longrightarrow> j \<noteq> i \<Longrightarrow> q \<in> heap_nodes S B j \<Longrightarrow> apart p q"
    and "apart p (mm_end (hs_at S i))"
    and "(c, n) \<in> set (all_used B) \<Longrightarrow> apart p c"
proof -
  have bi: "(b, k, False) \<in> set (B ! i)" using bs by simp
  have l: "heap_live (hs_at S i)" by (rule hs_ok_block_live [OF ok i bi])
  have r: "region_ok (hs_mem S) (hs_at S i) (B ! i)" by (rule hs_ok_region [OF ok i l])
  have bn: "b \<in> heap_nodes S B i" "mm_end (hs_at S i) \<in> heap_nodes S B i"
    using bi by (force simp: heap_nodes_def region_nodes_def)+
  note in_b = alloc_nodes_clear(1) [OF ok i bs w p] and rb = region_block [OF r bi]
  have "hs_used S + 24 \<le> b \<or> b + k \<le> hs_used S"
    using node_clear [OF ok i bi] used_apart [OF ok i l bn(1)] by (force simp: sys_nodes_def)
  then show "apart p (hs_used S)" using in_b used_apart [OF ok i l, of p] by (auto simp: apart_def)
  show "apart p q" if j: "j < length B" "heap_live (hs_at S j)" "j \<noteq> i" "q \<in> heap_nodes S B j"
  proof -
    have x: "apart a q" if "a \<in> heap_nodes S B i" for a
      using heaps_apart [OF ok i l j(1,2) _ that j(4)] j(3) by simp
    have "q \<noteq> b" using x [OF bn(1)] by auto
    moreover have "q \<in> sys_nodes S B" using j hs_ok_length [OF ok] by (auto simp: heap_nodes_def sys_nodes_def)
    ultimately have "q + 24 \<le> b \<or> b + k \<le> q" using node_clear [OF ok i bi] by blast
    then show ?thesis using in_b x by (auto simp: apart_def)
  qed
  show "apart p (mm_end (hs_at S i))"
  proof -
    obtain lo where lo: "tiled lo (B ! i) (mm_end (hs_at S i))" "free_list (hs_mem S) (mm_heap (hs_at S i)) (free_areas (B ! i)) lo (mm_end (hs_at S i))"
      using r by (auto simp: region_ok_def)
    have "apart (mm_heap (hs_at S i)) (mm_end (hs_at S i))"
      using lo tiled_le [OF lo(1)] by (auto simp: free_list_def apart_def)
    moreover have "apart c (mm_end (hs_at S i))" if "(c, d) \<in> set (B ! i)" for c d
      using region_block(2,3) [OF r, of c "fst d" "snd d"] that by (simp add: apart_def)
    ultimately show ?thesis
      using p bi last_free_node [of "mm_heap (hs_at S i)" xs] rb w
      by (fastforce simp: alloc_heads_def cut_block_def bs apart_def split: if_splits)
  qed
  show "apart p c" if cn: "(c, n) \<in> set (all_used B)"
  proof -
    obtain q where q: "q < length B" "(c, n, True) \<in> set (B ! q)" using cn by (auto simp: set_all_used)
    have "24 \<le> n" by (rule region_block(3) [OF hs_ok_region [OF ok q(1) hs_ok_block_live [OF ok q]] q(2)])
    then show ?thesis using alloc_nodes_clear(2) [OF ok i bs w p q] by (auto simp: apart_def)
  qed
qed

text \<open>The region itself after its block is cut and marked.\<close>

lemma region_ok_alloc:
  assumes r: "region_ok m mm bs" and bs: "bs = xs @ (b, k, False) # ys" and w: "w \<le> k" "24 \<le> w" "8 dvd w"
    and lo: "tiled lo bs (mm_end mm)" "mm_start mm \<le> lo \<and> lo < mm_start mm + 8" "8 dvd lo"
    and fl: "free_list m' (mm_heap mm) (free_areas (xs @ cut_block b k w @ ys)) lo (mm_end mm)"
    and e: "blk_next m' (mm_end mm) = 0" and b: "blk_size m' b = taken k w + 2147483648" "blk_heap m' b = mm_heap mm"
    and old: "\<And>f. f \<in> set (used_areas bs) \<Longrightarrow> blk_size m' (fst f) = blk_size m (fst f) \<and> blk_heap m' (fst f) = blk_heap m (fst f)"
    and lay: "layout mm' = layout mm" and fr: "mm_free mm' = mm_free mm - taken k w" "mm_min mm' \<le> mm_free mm'"
  shows "region_ok m' mm' (xs @ cut_block b k w @ ys)"
proof -
  have "f (layout mm') = f (layout mm)" for f :: "wm_memory \<Rightarrow> nat" using lay by simp
  from this [of mm_start] this [of mm_size] this [of mm_end] this [of mm_heap] this [of mm_bit]
  have l: "mm_start mm' = mm_start mm" "mm_size mm' = mm_size mm" "mm_end mm' = mm_end mm" "mm_heap mm' = mm_heap mm"
    "mm_bit mm' = mm_bit mm" by (simp_all add: layout_def)
  have "tiled lo (xs @ cut_block b k w @ ys) (mm_end mm)" using lo(1) bs w by (intro tiled_cut) auto
  moreover have "coalesced (xs @ cut_block b k w @ ys)" using r bs by (intro coalesced_cut) (simp add: region_ok_def)
  moreover have "sum_list (map snd (free_areas (xs @ cut_block b k w @ ys))) = sum_list (map snd (free_areas bs)) - taken k w"
    using bs w by (simp add: cut_block_def taken_def)
  moreover have "blk_size m' (fst f) = snd f + 2147483648 \<and> blk_heap m' (fst f) = mm_heap mm"
    if "f \<in> set (used_areas (xs @ cut_block b k w @ ys))" for f
  proof -
    have "f = (b, taken k w) \<or> f \<in> set (used_areas bs)"
      using that bs by (auto simp: cut_block_def taken_def split: if_splits)
    then show ?thesis
    proof
      assume f: "f \<in> set (used_areas bs)"
      then show ?thesis using old [OF f] r by (simp add: region_ok_def)
    qed (use b in simp)
  qed
  ultimately show ?thesis using r fl lo(2,3) e fr unfolding region_ok_def l by auto
qed

text \<open>Search and cut in one region.\<close>

lemma region_cut:
  assumes r: "region_ok m mm (xs @ (b, k, False) # ys)" and st: "0 < mm_start mm"
    and small: "\<forall>f \<in> set (free_areas xs). snd f < w" and w: "w \<le> k" "24 \<le> w" "8 dvd w"
  defines "prev \<equiv> last (mm_heap mm # map fst (free_areas xs))"
  shows "first_fit m (mm_heap mm) (blk_next m (mm_heap mm)) w = Some (prev, b)" and "blk_next m prev = b"
    and "\<exists>m' lo. heap_split (set_next m prev (blk_next m b)) 24 mm b w = Done m' \<and>
      tiled lo (xs @ (b, k, False) # ys) (mm_end mm) \<and> mm_start mm \<le> lo \<and> lo < mm_start mm + 8 \<and> 8 dvd lo \<and>
      free_list m' (mm_heap mm) (free_areas (xs @ cut_block b k w @ ys)) lo (mm_end mm) \<and>
      blk_size m' b = taken k w \<and> heads_only m m' (insert prev (fst ` set (cut_block b k w)))"
proof -
  let ?bs = "xs @ (b, k, False) # ys" and ?h = "mm_heap mm" and ?e = "mm_end mm"
  obtain lo where lo: "tiled lo ?bs ?e" "mm_start mm \<le> lo \<and> lo < mm_start mm + 8" "8 dvd lo" "free_list m ?h (free_areas ?bs) lo ?e"
    using r by (auto simp: region_ok_def)
  have pos: "0 < fst f \<and> blk_size m (fst f) = snd f" if "f \<in> set (free_areas ?bs)" for f
    using free_areas_pos [OF r st that] by simp
  have pth: "path m ?h (map fst (free_areas xs) @ b # map fst (free_areas ys)) ?e"
    using lo(4) by (simp add: free_list_def)
  have size_b: "blk_size m b = k" "0 < b" using pos [of "(b, k)"] by simp_all
  show "first_fit m ?h (blk_next m ?h) w = Some (prev, b)"
    unfolding prev_def by (rule first_fit_some [OF pth]) (use pos small w size_b in auto)
  show "blk_next m prev = b"
    using pth path_last [of m ?h "map fst (free_areas xs)" b] by (simp add: path_split prev_def)
  define m1 where "m1 = set_next m prev (blk_next m b)"
  have fl1: "free_list m1 ?h (free_areas xs @ free_areas ys) lo ?e"
    unfolding m1_def prev_def by (rule free_list_unlink) (use lo(4) in simp)
  have "apart prev b"
    using free_list_apart [OF lo(4)] unfolding prev_def
    by (cases "free_areas xs" rule: rev_cases) (auto simp: sorted_wrt_append)
  then have b1: "blk_size m1 b = k" using size_b by (auto simp: m1_def apart_def)
  have h1: "heads_only m m1 {prev}" unfolding m1_def by (rule heads_only_wr32 [of prev]) auto
  have "coalesced ?bs" using r by (simp add: region_ok_def)
  from heap_split_spec [OF fl1 refl refl lo(1) this b1 w lo(3)]
  obtain m2 where m2: "heap_split m1 24 mm b w = Done m2" "free_list m2 ?h (free_areas (xs @ cut_block b k w @ ys)) lo ?e"
    "blk_size m2 b = taken k w" "heads_only m1 m2 (insert prev (fst ` set (cut_block b k w)))" by (auto simp: prev_def)
  have "heads_only m m2 (insert prev (fst ` set (cut_block b k w)))" by (rule heads_only_trans [OF h1 m2(4)]) auto
  then show "\<exists>m' lo. heap_split (set_next m prev (blk_next m b)) 24 mm b w = Done m' \<and> tiled lo ?bs ?e \<and>
      mm_start mm \<le> lo \<and> lo < mm_start mm + 8 \<and> 8 dvd lo \<and> free_list m' ?h (free_areas (xs @ cut_block b k w @ ys)) lo ?e \<and>
      blk_size m' b = taken k w \<and> heads_only m m' (insert prev (fst ` set (cut_block b k w)))"
    using m2(1-3) lo(1-3) unfolding m1_def by blast
qed

text \<open>Marking leaves the free list of the region alone.\<close>

lemma mark_free_list:
  assumes ok: "hs_ok S B us" and i: "i < length B" and bs: "B ! i = xs @ (b, k, False) # ys" and w: "24 \<le> w" "w \<le> k"
    and fl: "free_list m (mm_heap (hs_at S i)) (free_areas (xs @ cut_block b k w @ ys)) lo e"
    and h: "heads_only m m' {hs_used S, b}"
  shows "free_list m' (mm_heap (hs_at S i)) (free_areas (xs @ cut_block b k w @ ys)) lo e"
proof (rule free_list_heads [OF fl h])
  let ?h = "mm_heap (hs_at S i)"
  fix p q assume pq: "p \<in> {hs_used S, b}" "q = ?h \<or> q \<in> fst ` set (free_areas (xs @ cut_block b k w @ ys))"
  have bi: "(b, k, False) \<in> set (B ! i)" using bs by simp
  have l: "heap_live (hs_at S i)" by (rule hs_ok_block_live [OF ok i bi])
  have r: "region_ok (hs_mem S) (hs_at S i) (B ! i)" by (rule hs_ok_region [OF ok i l])
  obtain lo' where lo: "tiled lo' (B ! i) (mm_end (hs_at S i))" "free_list (hs_mem S) ?h (free_areas (B ! i)) lo' (mm_end (hs_at S i))"
    using r by (auto simp: region_ok_def)
  have bn: "b \<in> heap_nodes S B i" using bi by (force simp: heap_nodes_def region_nodes_def)
  have "(\<exists>j. (q, j, False) \<in> set (xs @ ys)) \<or> q = b + w \<and> 48 < k - w \<or> q = ?h"
    using pq(2) by (force simp: set_free_areas cut_block_def split: if_splits)
  moreover have "q \<noteq> b" if "(q, j, False) \<in> set (xs @ ys)" for j
  proof -
    have "tiled lo' (xs @ (b, k, False) # ys) (mm_end (hs_at S i))" using lo(1) bs by simp
    then show ?thesis using that by (auto simp: tiled_append dest!: tiled_block split_list)
  qed
  moreover have "?h \<noteq> b" using lo(2) tiled_block [OF lo(1) bi] by (auto simp: free_list_def)
  ultimately have "q \<in> heap_nodes S B i \<and> q \<noteq> b \<or> q = b + w \<and> 48 < k - w"
    using bs by (force simp: heap_nodes_def region_nodes_def)
  moreover have "hs_used S + 24 \<le> b \<or> b + k \<le> hs_used S"
    using node_clear [OF ok i bi] used_apart [OF ok i l bn] by (force simp: sys_nodes_def)
  ultimately show "apart p q"
    using pq(1) used_apart [OF ok i l, of q] heap_node_apart_block [OF ok i bi, of q] w region_block(3) [OF r bi]
    by (auto simp: apart_def)
qed

lemma heap_claim_fields:
  assumes "i < length (hs_soc S)" and "blk_size m b = t" and "t \<le> mm_free (hs_at S i)" and "mm_free (hs_at S i) < 4294967296"
    and S': "S' = heap_claim S i m b caps file line"
  shows "hs_soc S' = (hs_soc S)[i := hs_at S' i]" and "layout (hs_at S' i) = layout (hs_at S i)"
    and "mm_free (hs_at S' i) = mm_free (hs_at S i) - t" and "mm_min (hs_at S' i) \<le> mm_free (hs_at S' i)"
    and "hg_free (hs_glob S') = sub32 (hg_free (hs_glob S)) t" and "hg_struct (hs_glob S') = hg_struct (hs_glob S)"
    and "hs_used S' = hs_used S"
    and "hs_mem S' = heap_mark_used m (hs_used S) b (mm_heap (hs_at S i)) caps file line (mm_bit (hs_at S i))"
  using assms(1-4) by (auto simp: S' heap_claim_def hs_set_def Let_def layout_def sub32_id)

text \<open>From the cut block to a consistent heap.\<close>

lemma heap_claim_ok:
  assumes ok: "hs_ok S B us" and i: "i < length B" "heap_live (hs_at S i)" and bs: "B ! i = xs @ (b, k, False) # ys"
    and w: "24 \<le> w" "8 dvd w" "w \<le> k"
    and lo: "tiled lo (xs @ (b, k, False) # ys) (mm_end (hs_at S i))" "mm_start (hs_at S i) \<le> lo \<and> lo < mm_start (hs_at S i) + 8" "8 dvd lo"
    and m: "free_list m (mm_heap (hs_at S i)) (free_areas (xs @ cut_block b k w @ ys)) lo (mm_end (hs_at S i))"
      "blk_size m b = taken k w" "heads_only (hs_mem S) m (alloc_heads S i xs b k w)"
    and S'_def: "S' = heap_claim S i m b caps file line"
  shows "hs_ok S' (B[i := xs @ cut_block b k w @ ys]) (b # us)" and "same_layout S S'"
    and "blk_caps (hs_mem S') b = u32 caps" and "f \<in> set (all_used B) \<Longrightarrow> payload (hs_mem S') f = payload (hs_mem S) f"
proof -
  let ?mm = "hs_at S i" and ?m = "hs_mem S" and ?bs = "xs @ cut_block b k w @ ys"
  let ?A = "alloc_heads S i xs b k w" and ?t = "taken k w"
  have bi: "(b, k, False) \<in> set (B ! i)" using bs by simp
  have il: "i < length (hs_soc S)" using i(1) hs_ok_length [OF ok] by simp
  have r: "region_ok ?m ?mm (B ! i)" by (rule hs_ok_region [OF ok i])
  have st: "mm_start ?mm + mm_size ?mm \<le> 4294967296" "mm_size ?mm < 2147483648" "mm_heap ?mm < 4294967296"
    using hs_ok_static [OF ok] il i by (auto simp: static_ok_def)
  note rb = region_block [OF r bi]
  have fr: "k \<le> mm_free ?mm" "mm_free ?mm < 4294967296" and bit: "mm_bit ?mm = 2147483648"
    using r free_sum_le [OF lo(1)] rb(6) st(1) bs by (auto simp: region_ok_def)
  have tk: "?t \<le> k" "?t \<le> mm_free ?mm" "?t < 2147483648" "b < 4294967296"
    using fr rb st w by (auto simp: taken_def)
  note S' = heap_claim_fields [OF il m(2) tk(2) fr(2) S'_def]
  have "b \<in> heap_nodes S B i" using bi by (force simp: heap_nodes_def region_nodes_def)
  note mu = mark_used_spec [OF used_apart [OF ok i this] m(2) tk(3,4) st(3) S'(8) [unfolded bit]]
  note clear = alloc_nodes_clear(2) [OF ok i(1) bs w(1)] and ap = alloc_nodes_apart [OF ok i(1) bs w(1)]
  have h: "heads_only ?m (hs_mem S') (insert (hs_used S) ?A)"
    by (rule heads_only_trans [OF m(3) mu(1)]) (auto simp: alloc_heads_def cut_block_def)
  have ua: "apart (hs_used S) q" if "q \<in> heap_nodes S B j" "j < length B" "heap_live (hs_at S j)" for q j
    using used_apart [OF ok] that by blast
  have blk: "c \<in> heap_nodes S B j \<and> heap_live (hs_at S j)" if "(c, x) \<in> set (B ! j)" "j < length B" for c x j
    using that hs_ok_block_live [OF ok that(2,1)] by (force simp: heap_nodes_def region_nodes_def)
  have old: "apart p c" if p: "p \<in> insert (hs_used S) ?A" and c: "(c, j) \<in> set (all_used B)" for p c j
  proof (cases "p = hs_used S")
    case True
    obtain q where q: "(c, j, True) \<in> set (B ! q)" "q < length B" using c by (auto simp: set_all_used)
    show ?thesis unfolding True using blk [OF q] ua q(2) by blast
  qed (use p ap(4) [OF _ c] in blast)
  have nodes: "blk_next (hs_mem S') c = blk_next ?m c" "blk_size (hs_mem S') c = blk_size ?m c"
    "blk_heap (hs_mem S') c = blk_heap ?m c" if "(c, j) \<in> set (all_used B)" for c j
    using heads_only_node [OF h old [OF _ that]] by blast+
  have us: "set us = fst ` set (all_used B)" "distinct us" "path ?m (hs_used S) us 0"
    "blk_size ?m (hs_used S) = u32 (sum_list (map snd (all_used B)))" "hg_free (hs_glob S) = u32 (free_total (hs_soc S))"
    using ok by (auto simp: hs_ok_def)
  have used_B: "all_used B = all_used (take i B) @ used_areas xs @ used_areas ys @ all_used (drop (Suc i) B)"
    and used_B': "all_used (B[i := ?bs]) =
      all_used (take i B) @ used_areas xs @ (b, ?t) # used_areas ys @ all_used (drop (Suc i) B)"
    using all_used_split [OF i(1)] all_used_update [OF i(1)] bs by (simp_all add: cut_block_def taken_def)
  have bA: "b \<in> ?A" by (simp add: alloc_heads_def cut_block_def)
  note m2u = heads_only_node [OF m(3) ap(1)]
  have path': "path (hs_mem S') (hs_used S) (b # us) 0"
    by (rule path_push [OF us(3) mu(4)]) (use mu(5) m2u(1) nodes(1) us(1) in auto)
  have dist: "distinct (b # us)" using old [of b b] bA us(1,2) by auto
  have tot: "hg_free (hs_glob S') = u32 (free_total (hs_soc S'))"
  proof -
    have e: "free_total (hs_soc S') + ?t = free_total (hs_soc S)"
      using free_total_step [OF ok i S'(2)] S'(1,3) tk(2) by simp
    then have "sub32 (u32 (free_total (hs_soc S))) ?t = u32 (free_total (hs_soc S) - ?t)"
      using tk(3) by (intro sub32_u32) linarith+
    then show ?thesis using S'(5) us(5) e [symmetric] by simp
  qed
  have end': "blk_next (hs_mem S') (mm_end ?mm) = 0"
    using heads_only_node(1) [OF h, of "mm_end ?mm"] ap(3) ua [of "mm_end ?mm" i] i r
    by (auto simp: heap_nodes_def region_nodes_def region_ok_def)
  have oi: "blk_size (hs_mem S') (fst f) = blk_size ?m (fst f) \<and> blk_heap (hs_mem S') (fst f) = blk_heap ?m (fst f)"
    if "f \<in> set (used_areas (B ! i))" for f
    using nodes(2,3) [of "fst f" "snd f"] that all_used_split [OF i(1)] by simp
  have ri: "region_ok (hs_mem S') (hs_at S' i) ?bs"
    by (rule region_ok_alloc [OF r bs w(3,1,2) _ lo(2,3) mark_free_list [OF ok i(1) bs w(1,3) m(1) mu(1)] end' mu(2,3) oi S'(2-4)])
      (use lo(1) bs in auto)
  have rj: "region_ok (hs_mem S') (hs_at S j) (B ! j)" if j: "j < length B" "heap_live (hs_at S j)" "j \<noteq> i" for j
  proof (rule region_ok_heads [OF hs_ok_region [OF ok j(1,2)] h])
    fix p q assume "p \<in> insert (hs_used S) ?A" "q = mm_heap (hs_at S j) \<or> q \<in> region_nodes (hs_at S j) (B ! j)"
    then show "apart p q" using ua [of q j] ap(2) [OF _ j] j by (auto simp: heap_nodes_def)
  qed
  have sz: "blk_size (hs_mem S') (hs_used S) = u32 (sum_list (map snd (all_used (B[i := ?bs]))))"
    using mu(7) m2u(2) us(4) unfolding used_B used_B' by (simp add: u32_add ac_simps)
  show "hs_ok S' (B[i := ?bs]) (b # us)" "same_layout S S'"
    by (rule hs_ok_step [OF ok i S'(1,2,7,6) ri rj path' dist _ sz tot]; use us(1) in \<open>auto simp: used_B used_B'\<close>)+
  show "blk_caps (hs_mem S') b = u32 caps" by (rule mu(6))
  show "payload (hs_mem S') f = payload ?m f" if f: "f \<in> set (all_used B)"
  proof -
    obtain c j where c: "f = (c, j)" by (cases f)
    then obtain q where q: "q < length B" "(c, j, True) \<in> set (B ! q)" using f by (auto simp: set_all_used)
    show ?thesis unfolding c
    proof (rule payload_heads [OF h])
      fix p assume "p \<in> insert (hs_used S) ?A" "p \<noteq> c"
      then show "p + 24 \<le> c \<or> c + j \<le> p"
        using clear [OF _ q] node_clear [OF ok q, of "hs_used S"] by (auto simp: sys_nodes_def)
    qed
  qed
qed

lemma heap_alloc_ok:
  assumes ok: "hs_ok S B us" and i: "i < length B" "heap_live (hs_at S i)" and n: "0 < n" "n < 2147483648"
    and bs: "B ! i = xs @ (b, k, False) # ys" and small: "\<forall>f \<in> set (free_areas xs). snd f < heap_need n" and fit: "heap_need n \<le> k"
  shows "\<exists>S'. heap_alloc_tracing S i n caps file line = Done (b + 24, S') \<and>
    hs_ok S' (B[i := xs @ cut_block b k (heap_need n) @ ys]) (b # us) \<and> same_layout S S' \<and>
    blk_caps (hs_mem S') b = u32 caps \<and> (\<forall>f \<in> set (all_used B). payload (hs_mem S') f = payload (hs_mem S) f)"
proof -
  let ?w = "heap_need n" and ?mm = "hs_at S i" and ?m = "hs_mem S"
  have w: "24 \<le> ?w" "8 dvd ?w" "0 < ?w" using heap_need [of n] by auto
  have r: "region_ok ?m ?mm (xs @ (b, k, False) # ys)" using hs_ok_region [OF ok i] bs by simp
  have st: "0 < mm_start ?mm" "mm_start ?mm + mm_size ?mm \<le> 4294967296"
    using hs_ok_static [OF ok] hs_ok_length [OF ok] i by (auto simp: static_ok_def)
  note rb = region_block [OF r, of b k False, simplified] and cut = region_cut [OF r st(1) small fit w(1,2)]
  obtain m2 lo where m2: "heap_split (set_next ?m (last (mm_heap ?mm # map fst (free_areas xs))) (blk_next ?m b)) 24 ?mm b ?w = Done m2"
    "tiled lo (xs @ (b, k, False) # ys) (mm_end ?mm)" "mm_start ?mm \<le> lo \<and> lo < mm_start ?mm + 8" "8 dvd lo"
    "free_list m2 (mm_heap ?mm) (free_areas (xs @ cut_block b k ?w @ ys)) lo (mm_end ?mm)" "blk_size m2 b = taken k ?w"
    "heads_only ?m m2 (alloc_heads S i xs b k ?w)"
    using cut(3) unfolding alloc_heads_def by blast
  have "mm_end ?mm \<noteq> 0" "b \<noteq> mm_end ?mm" "n AND mm_bit ?mm = 0" using rb r n by (simp_all add: and_bit31 region_ok_def)
  moreover have "?w mod 8 = 0" "?w \<le> mm_free ?mm" using w fit r by (simp_all add: region_ok_def)
  moreover have "u32 (b + 24) = b + 24" "(b + 24) mod 8 = 0" using rb st by auto
  ultimately have "heap_alloc_tracing S i n caps file line = Done (b + 24, heap_claim S i m2 b caps file line)"
    using cut(1,2) m2(1) ok heap_wanted_need [OF n] w(3) n(1) by (simp add: heap_alloc_tracing_def Let_def hs_ok_def)
  then show ?thesis using heap_claim_ok [OF ok i bs w(1,2) fit m2(2-7) refl] by blast
qed

text \<open>Nothing fits: the request is refused and nothing changes.\<close>

definition no_room :: "nat \<Rightarrow> hblock list \<Rightarrow> bool" where
  "no_room n bs \<longleftrightarrow> 2147483648 \<le> n \<or> (\<forall>f \<in> set (free_areas bs). snd f < heap_need n)"

lemma heap_alloc_refused:
  assumes ok: "hs_ok S B us" and i: "i < length B" "heap_live (hs_at S i)" and n: "0 < n" "n < 4294967296"
    and no: "no_room n (B ! i)"
  shows "heap_alloc_tracing S i n caps file line = Done (0, S)"
proof -
  let ?mm = "hs_at S i" and ?m = "hs_mem S"
  have r: "region_ok ?m ?mm (B ! i)" by (rule hs_ok_region [OF ok i])
  have st: "0 < mm_start ?mm" using hs_ok_static [OF ok] hs_ok_length [OF ok] i by (auto simp: static_ok_def)
  have e: "0 < mm_end ?mm" "blk_next ?m (mm_end ?mm) = 0" "mm_bit ?mm = 2147483648" "hg_struct (hs_glob S) = 24"
    using region_end [OF r] st r ok by (auto simp: region_ok_def hs_ok_def)
  show ?thesis
  proof (cases "n < 2147483648")
    case False
    then show ?thesis using e n by (simp add: heap_alloc_tracing_def Let_def and_bit31)
  next
    case True
    obtain lo where "free_list ?m (mm_heap ?mm) (free_areas (B ! i)) lo (mm_end ?mm)" using r by (auto simp: region_ok_def)
    then have p: "path ?m (mm_heap ?mm) (map fst (free_areas (B ! i))) (mm_end ?mm)" by (simp add: free_list_def)
    have small: "\<forall>f \<in> set (free_areas (B ! i)). blk_size ?m (fst f) < heap_need n \<and> 0 < fst f"
      using free_areas_pos [OF r st] no True by (auto simp: no_room_def)
    have "heap_need n mod 8 = 0" using heap_need(3) [of n] by simp
    then show ?thesis using first_fit_none [OF p small e(2,1)] e True n(1) heap_wanted_need [OF n(1) True]
      by (simp add: heap_alloc_tracing_def Let_def and_bit31)
  qed
qed

section \<open>The search through the regions\<close>

definition serves :: "wm_memory \<Rightarrow> nat \<Rightarrow> bool" where
  "serves mm caps \<longleftrightarrow> heap_live mm \<and> caps AND mm_caps mm = caps"

text \<open>What an allocation of \<open>n\<close> bytes leaves, given that it returned \<open>p\<close>: either no region that
  serves the request has room and nothing changed, or \<open>p\<close> is a new block of at least \<open>n\<close> bytes in one
  that does.\<close>

definition alloc_step ::
  "heap_sys \<Rightarrow> hblock list list \<Rightarrow> nat list \<Rightarrow> nat set \<Rightarrow> nat \<Rightarrow> nat \<Rightarrow> nat \<Rightarrow> heap_sys \<Rightarrow> bool" where
  "alloc_step S B us I n caps p S' \<longleftrightarrow>
     (p = 0 \<and> S' = S \<and> (\<forall>i \<in> I. serves (hs_at S i) caps \<longrightarrow> no_room n (B ! i))) \<or>
     (\<exists>i b k xs ys. i \<in> I \<and> p = b + 24 \<and> serves (hs_at S i) caps \<and> n < 2147483648 \<and> heap_need n \<le> k \<and>
        B ! i = xs @ (b, k, False) # ys \<and>
        hs_ok S' (B[i := xs @ cut_block b k (heap_need n) @ ys]) (b # us) \<and> same_layout S S' \<and>
        blk_caps (hs_mem S') b = u32 caps \<and> (\<forall>f \<in> set (all_used B). payload (hs_mem S') f = payload (hs_mem S) f))"

lemma heap_alloc_cases:
  assumes ok: "hs_ok S B us" and i: "i < length B" and sv: "serves (hs_at S i) caps" and n: "0 < n" "n < 4294967296"
  obtains p S' where "heap_alloc_tracing S i n caps file line = Done (p, S')" and "alloc_step S B us {i} n caps p S'"
proof (cases "no_room n (B ! i)")
  case True
  have "heap_alloc_tracing S i n caps file line = Done (0, S)"
    using heap_alloc_refused [OF ok i _ n True] sv by (simp add: serves_def)
  then show thesis using that True by (simp add: alloc_step_def)
next
  case False
  then have n31: "n < 2147483648" and ex: "\<exists>f \<in> set (free_areas (B ! i)). heap_need n \<le> snd f"
    by (auto simp: no_room_def not_less)
  obtain f1 f f2 where f: "free_areas (B ! i) = f1 @ f # f2" "heap_need n \<le> snd f" "\<forall>g \<in> set f1. \<not> heap_need n \<le> snd g"
    using split_list_first_prop [OF ex] by blast
  obtain b k where bk: "f = (b, k)" by (cases f)
  obtain xs ys where bs: "B ! i = xs @ (b, k, False) # ys" "free_areas xs = f1" using free_areas_split f(1) bk by blast
  have l: "heap_live (hs_at S i)" using sv by (simp add: serves_def)
  have small: "\<forall>g \<in> set (free_areas xs). snd g < heap_need n" and fit: "heap_need n \<le> k" using f bs bk
    by (auto simp: not_le)
  obtain S' where S': "heap_alloc_tracing S i n caps file line = Done (b + 24, S')"
    "hs_ok S' (B[i := xs @ cut_block b k (heap_need n) @ ys]) (b # us)" "same_layout S S'"
    "blk_caps (hs_mem S') b = u32 caps" "\<forall>f \<in> set (all_used B). payload (hs_mem S') f = payload (hs_mem S) f"
    using heap_alloc_ok [OF ok i l n(1) n31 bs(1) small fit] by blast
  have "alloc_step S B us {i} n caps (b + 24) S'"
    unfolding alloc_step_def using S' n31 fit bs(1) sv by blast
  then show thesis using that S'(1) by blast
qed

lemma alloc_step_mono:
  assumes "alloc_step S B us I n caps p S'" and "I \<subseteq> J" and "p = 0 \<Longrightarrow> \<forall>i \<in> J - I. serves (hs_at S i) caps \<longrightarrow> no_room n (B ! i)"
  shows "alloc_step S B us J n caps p S'"
  using assms unfolding alloc_step_def by (elim disjE) blast+

lemma caps_alloc_loop_spec:
  assumes ok: "hs_ok S B us" and n: "0 < n" "n < 4294967296" and I: "\<forall>i \<in> set is. i < length B"
  shows "\<exists>p S'. caps_alloc_loop S is n caps file line = Done (p, S') \<and> alloc_step S B us (set is) n caps p S'"
  using I
proof (induction "is")
  case Nil
  then show ?case by (simp add: alloc_step_def)
next
  case (Cons i "is")
  then obtain p S' where ih: "caps_alloc_loop S is n caps file line = Done (p, S')" "alloc_step S B us (set is) n caps p S'" by auto
  show ?case
  proof (cases "serves (hs_at S i) caps")
    case False
    then have "caps_alloc_loop S (i # is) n caps file line = Done (p, S')" using ih(1) by (auto simp: serves_def heap_live_def)
    moreover have "alloc_step S B us (set (i # is)) n caps p S'" by (rule alloc_step_mono [OF ih(2)]) (use False in auto)
    ultimately show ?thesis by blast
  next
    case True
    have "i < length B" using Cons.prems by simp
    then obtain p1 S1 where a: "heap_alloc_tracing S i n caps file line = Done (p1, S1)" "alloc_step S B us {i} n caps p1 S1"
      using heap_alloc_cases [OF ok _ True n] by blast
    have loop: "caps_alloc_loop S (i # is) n caps file line =
        (if p1 \<noteq> 0 then Done (p1, S1) else caps_alloc_loop S1 is n caps file line)"
      using True a(1) by (simp add: serves_def heap_live_def)
    show ?thesis
    proof (cases "p1 = 0")
      case True
      then have "S1 = S" "serves (hs_at S i) caps \<longrightarrow> no_room n (B ! i)" using a(2) by (auto simp: alloc_step_def)
      then show ?thesis using loop ih True alloc_step_mono [OF ih(2), of "set (i # is)"] by auto
    next
      case False
      then show ?thesis using loop alloc_step_mono [OF a(2), of "set (i # is)"] by auto
    qed
  qed
qed

end
