(* ===== verification/HeapFree.thy ===== *)
theory HeapFree
  imports HeapAlloc
begin

text \<open>
  Release: taking a block off the list of used blocks and giving it back to the free list of its
  heap, joined with what it touches.
\<close>

section \<open>Off the list of used blocks\<close>

lemma used_find_spec:
  assumes "path m s (us @ b # vs) t" and "b \<notin> set us" and "0 \<notin> set us" and "b \<noteq> 0"
  shows "used_find m s (blk_next m s) b = Some (Some (last (s # us)))"
  using assms(1-3)
proof (induction us arbitrary: s)
  case Nil
  then show ?case using assms(4) by (simp add: used_find.simps)
next
  case (Cons u us)
  then show ?case by (simp add: used_find.simps [of m s])
qed

lemma remove_used_spec:
  assumes p: "path m used (us @ b # vs) 0" and ap: "sorted_wrt apart (used # us @ b # vs)"
    and nz: "0 \<notin> set (us @ b # vs)" and size_b: "clear_bits (blk_size m b) abit = n"
  defines "prev \<equiv> last (used # us)"
  obtains m' where "heap_remove_block_from_used_list m used abit b = Some m'"
    and "path m' used (us @ vs) 0" and "blk_next m' b = 0" and "blk_size m' used = sub32 (blk_size m used) n"
    and "m' = set_file (set_size (set_next (set_next m prev (blk_next m b)) b 0) used (sub32 (blk_size m used) n))
      used (sub32 (blk_file m used) 1)"
proof -
  have prev: "prev = used \<or> prev \<in> set us" by (simp add: prev_def)
  have bp: "apart prev b" "apart used b" "prev = used \<or> apart prev used" and b: "b \<notin> set us"
    using ap prev by (auto simp: sorted_wrt_append intro: apart_sym)
  have pth: "path m used us b" "path m b vs 0" using p by (auto simp: path_split)
  define m1 where "m1 = set_next m prev (blk_next m b)"
  define m2 where "m2 = set_next m1 b 0"
  define m3 where "m3 = set_size m2 used (sub32 (blk_size m used) n)"
  define m4 where "m4 = set_file m3 used (sub32 (blk_file m used) 1)"
  have f: "blk_size m2 used = blk_size m used" "blk_size m2 b = blk_size m b" "blk_file m3 used = blk_file m used"
    using bp by (auto simp: m1_def m2_def m3_def apart_def)
  have "used_find m used (blk_next m used) b = Some (Some prev)"
    unfolding prev_def by (rule used_find_spec [OF p b]) (use nz in auto)
  then have "heap_remove_block_from_used_list m used abit b = Some m4"
    using f size_b by (simp add: heap_remove_block_from_used_list_def Let_def m1_def m2_def m3_def m4_def)
  moreover have "path m4 used (us @ vs) 0"
  proof -
    have r: "path m1 used us (blk_next m b)"
      unfolding m1_def prev_def by (rule path_relink [OF pth(1)]) (use ap in \<open>auto simp: sorted_wrt_append\<close>)
    have far: "apart prev q" "apart b q" "apart used q" if "q \<in> set vs" for q
      using ap that prev by (auto simp: sorted_wrt_append)
    have "path m1 used (us @ vs) 0"
    proof (cases vs)
      case (Cons v ws)
      have "path m1 v ws 0 = path m v ws 0"
      proof (rule path_cong)
        fix q assume "q = v \<or> q \<in> set ws"
        then have "apart prev q" using far(1) Cons by auto
        then show "blk_next m1 q = blk_next m q" by (auto simp: m1_def apart_def)
      qed
      then show ?thesis using r pth(2) Cons by (simp add: path_split)
    qed (use r pth in simp)
    moreover have "path m4 used (us @ vs) 0 = path m1 used (us @ vs) 0"
    proof (rule path_cong)
      fix q assume q: "q = used \<or> q \<in> set (us @ vs)"
      then have "apart b q" "q = used \<or> apart used q" using ap by (auto simp: sorted_wrt_append intro: apart_sym)
      then show "blk_next m4 q = blk_next m1 q" by (auto simp: m2_def m3_def m4_def apart_def)
    qed
    ultimately show ?thesis by simp
  qed
  moreover have "blk_next m4 b = 0" "blk_size m4 used = sub32 (blk_size m used) n"
    using bp by (auto simp: m1_def m2_def m3_def m4_def apart_def sub32_def)
  ultimately show thesis using that [of m4] by (simp add: m1_def m2_def m3_def m4_def)
qed

text \<open>Re-linking a used block, or writing a node of another list, leaves a region intact.\<close>

lemma free_not_used:
  assumes r: "region_ok m mm bs" and out: "outside (mm_heap mm) mm" and c: "(c, n, True) \<in> set bs"
    and q: "q = mm_heap mm \<or> q = mm_end mm \<or> (\<exists>k. (q, k, False) \<in> set bs)"
  shows "apart c q"
proof -
  obtain lo where lo: "tiled lo bs (mm_end mm)" using r by (auto simp: region_ok_def)
  note rc = region_block [OF r c]
  from q show ?thesis
  proof (elim disjE exE)
    fix k assume k: "(q, k, False) \<in> set bs"
    show ?thesis using tiled_apart [OF lo c k] region_block(3) [OF r k] rc(3) by (auto simp: apart_def)
  qed (use out rc in \<open>auto simp: outside_def apart_def\<close>)
qed

lemma region_ok_next:
  assumes r: "region_ok m mm bs" and out: "outside (mm_heap mm) mm" and c: "(c, n, True) \<in> set bs"
  shows "region_ok (set_next m c v) mm bs"
proof -
  let ?m = "set_next m c v"
  obtain lo where lo: "tiled lo bs (mm_end mm)" "mm_start mm \<le> lo \<and> lo < mm_start mm + 8" "8 dvd lo"
    "free_list m (mm_heap mm) (free_areas bs) lo (mm_end mm)" using r by (auto simp: region_ok_def)
  have h: "heads_only m ?m {c}" by (rule heads_only_wr32 [of c]) auto
  have "free_list ?m (mm_heap mm) (free_areas bs) lo (mm_end mm)"
  proof (rule free_list_heads [OF lo(4) h])
    fix p q assume "p \<in> {c}" "q = mm_heap mm \<or> q \<in> fst ` set (free_areas bs)"
    then show "apart p q" using free_not_used [OF r out c, of q] by (force simp: set_free_areas)
  qed
  moreover have "blk_next ?m (mm_end mm) = blk_next m (mm_end mm)"
    using free_not_used [OF r out c, of "mm_end mm"] by (auto simp: apart_def)
  moreover have "blk_size ?m (fst f) = blk_size m (fst f) \<and> blk_heap ?m (fst f) = blk_heap m (fst f)"
    if "f \<in> set (used_areas bs)" for f
  proof -
    have f: "(fst f, snd f, True) \<in> set bs" using that by (subst set_used_areas [symmetric]) simp
    have "fst f = c \<or> apart (fst f) c"
      using tiled_apart [OF lo(1) f c] region_block(3) [OF r f] region_block(3) [OF r c] by (auto simp: apart_def)
    then show ?thesis by (auto simp: apart_def)
  qed
  ultimately show ?thesis using r lo(1-3) unfolding region_ok_def by auto
qed

section \<open>Back to the free list\<close>

lemma sum_join_in: "sum_list (map snd (join_in f1 b n f2)) = sum_list (map snd f1) + n + sum_list (map snd f2)"
proof -
  have r: "sum_list (map snd (join_right c k f2)) = k + sum_list (map snd f2)" for c k
    by (auto simp: join_right_def split: list.splits prod.splits)
  then show ?thesis by (cases f1 rule: rev_cases) (auto simp: join_in_def)
qed

lemma region_release:
  assumes r: "region_ok m mm (xs @ (b, n, True) # ys)" and out: "outside (mm_heap mm) mm"
    and st: "mm_start mm + mm_size mm \<le> 4294967296" "mm_size mm < 2147483648"
    and mm': "layout mm' = layout mm" "mm_free mm' = mm_free mm + n" "mm_min mm' = mm_min mm"
  defines "m2 \<equiv> set_line (set_file (set_size m b (clear_bits (blk_size m b) (mm_bit mm))) b 0) b 0xFFFFFFFF"
  shows "blk_size m2 b = n"
    and "\<exists>m'. heap_insert_block_into_free_list m2 (mm_heap mm) (mm_end mm) b = Some m' \<and>
      region_ok m' mm' (give_back xs b n ys) \<and> heads_only m m' {last (mm_heap mm # map fst (free_areas xs)), b} \<and>
      blk_size m' b < 2147483648 \<and> blk_heap m' b = mm_heap mm"
proof -
  let ?bs = "xs @ (b, n, True) # ys" and ?h = "mm_heap mm" and ?e = "mm_end mm"
  have bi: "(b, n, True) \<in> set ?bs" by simp
  note rb = region_block [OF r bi]
  obtain lo where lo: "tiled lo ?bs ?e" "mm_start mm \<le> lo \<and> lo < mm_start mm + 8" "8 dvd lo" "free_list m ?h (free_areas ?bs) lo ?e"
    using r by (auto simp: region_ok_def)
  have bit: "mm_bit mm = 2147483648" "blk_size m b = n + 2147483648" using r by (auto simp: region_ok_def)
  have n: "n < 2147483648" using rb st by linarith
  show size_b: "blk_size m2 b = n" using n by (simp add: m2_def bit clear_bit31)
  have h2: "heads_only m m2 {b}" unfolding m2_def by (intro heads_only_step heads_only_refl) auto
  have fl2: "free_list m2 ?h (free_areas xs @ free_areas ys) lo ?e"
  proof -
    have "free_list m2 ?h (free_areas ?bs) lo ?e"
    proof (rule free_list_heads [OF lo(4) h2])
      fix p q assume "p \<in> {b}" "q = ?h \<or> q \<in> fst ` set (free_areas ?bs)"
      then show "apart p q" using free_not_used [OF r out bi, of q] by (force simp: set_free_areas)
    qed
    then show ?thesis by simp
  qed
  have "areas_ok (free_areas (xs @ (b, n, False) # ys)) lo ?e"
    by (rule tiled_areas_ok) (use lo(1) in \<open>auto simp: tiled_append\<close>)
  then have "areas_ok (free_areas xs @ (b, n) # free_areas ys) lo ?e" by simp
  from heap_insert_spec [OF fl2 this size_b [symmetric]]
  obtain m' where m': "heap_insert_block_into_free_list m2 ?h ?e b = Some m'"
    "free_list m' ?h (join_in (free_areas xs) b n (free_areas ys)) lo ?e"
    "links_only m2 m' {last (?h # map fst (free_areas xs)), b}"
    "blk_size m' b = n \<or> (b, blk_size m' b) \<in> set (join_in (free_areas xs) b n (free_areas ys))" by blast
  let ?A = "{last (?h # map fst (free_areas xs)), b}"
  have h: "heads_only m m' ?A" by (rule heads_only_trans [OF h2 links_heads [OF m'(3) order_refl]]) auto
  have node: "last (?h # map fst (free_areas xs)) = ?h \<or> (\<exists>k. (last (?h # map fst (free_areas xs)), k, False) \<in> set ?bs)"
    using last_free_node [of ?h xs] by auto
  have "f (layout mm') = f (layout mm)" for f :: "wm_memory \<Rightarrow> nat" using mm'(1) by simp
  from this [of mm_start] this [of mm_size] this [of mm_end] this [of mm_heap] this [of mm_bit]
  have l: "mm_start mm' = mm_start mm" "mm_size mm' = mm_size mm" "mm_end mm' = ?e" "mm_heap mm' = ?h" "mm_bit mm' = mm_bit mm"
    by (simp_all add: layout_def)
  have "blk_next m' ?e = blk_next m ?e"
  proof (rule heads_only_node(1) [OF h])
    fix p assume "p \<in> ?A"
    moreover have "apart b ?e" using free_not_used [OF r out bi, of ?e] by simp
    moreover have "apart ?h ?e" using lo(4) tiled_le [OF lo(1)] by (auto simp: free_list_def apart_def)
    moreover have "apart q ?e" if "(q, k, False) \<in> set ?bs" for q k
      using region_block(2,3) [OF r that] by (simp add: apart_def)
    ultimately show "apart p ?e" using node by auto
  qed
  moreover have "blk_size m' (fst f) = snd f + 2147483648 \<and> blk_heap m' (fst f) = ?h"
    if f: "f \<in> set (used_areas (give_back xs b n ys))" for f
  proof -
    obtain c k where c: "f = (c, k)" by (cases f)
    have i: "(c, k, True) \<in> set xs \<union> set ys" using f c by (auto simp: used_give_back set_used_areas)
    have "c \<noteq> b" using lo(1) i rb(3) by (auto simp: tiled_append dest!: tiled_block split_list)
    then have "apart b c" using tiled_apart [OF lo(1) bi, of c k True] i region_block(3) [OF r, of c k True] rb(3)
      by (auto simp: apart_def)
    moreover have "apart (last (?h # map fst (free_areas xs))) c"
    proof (rule apart_sym, rule free_not_used [OF r out])
      show "(c, k, True) \<in> set ?bs" using i by auto
    qed (use node in blast)
    ultimately have "apart p c" if "p \<in> ?A" for p using that by auto
    note e = heads_only_node(2,3) [OF h this]
    have "(c, k, True) \<in> set ?bs" using i by auto
    from region_used [OF r this] show ?thesis using e c by simp
  qed
  ultimately have ok': "region_ok m' mm' (give_back xs b n ys)"
    using r m'(2) lo(2,3) tiled_give_back [OF lo(1)] coalesced_give_back [of xs b n ys] free_give_back [OF lo(1)] mm'(2,3)
    unfolding region_ok_def l by (auto simp: sum_join_in)
  have "blk_size m' b < 2147483648"
  proof (rule disjE [OF m'(4)])
    assume "(b, blk_size m' b) \<in> set (join_in (free_areas xs) b n (free_areas ys))"
    then have "(b, blk_size m' b, False) \<in> set (give_back xs b n ys)"
      using free_give_back [OF lo(1)] by (metis set_free_areas)
    from region_block [OF ok' this] show ?thesis using st(2) unfolding l by linarith
  qed (use n in simp)
  moreover have "blk_heap m' b = mm_heap mm"
  proof -
    have "apart (last (?h # map fst (free_areas xs))) b"
      using node free_not_used [OF r out bi, of "last (?h # map fst (free_areas xs))"] by (blast intro: apart_sym)
    then have "blk_heap m' b = blk_heap m2 b" by (intro links_only_rd32 [OF m'(3)]) (auto simp: apart_def)
    also have "\<dots> = blk_heap m b" by (simp add: m2_def)
    finally show ?thesis using region_used(2) [OF r bi] by simp
  qed
  ultimately show "\<exists>m'. heap_insert_block_into_free_list m2 ?h ?e b = Some m' \<and>
      region_ok m' mm' (give_back xs b n ys) \<and> heads_only m m' ?A \<and> blk_size m' b < 2147483648 \<and> blk_heap m' b = mm_heap mm"
    using m'(1) ok' h by blast
qed

section \<open>One release\<close>

lemma sorted_wrt_distinct: "distinct xs \<Longrightarrow> (\<And>x y. x \<in> set xs \<Longrightarrow> y \<in> set xs \<Longrightarrow> x \<noteq> y \<Longrightarrow> R x y) \<Longrightarrow> sorted_wrt R xs"
  by (induction xs) auto

lemma used_block:
  assumes ok: "hs_ok S B us" and p: "p \<in> set us"
  obtains j k where "j < length B" and "heap_live (hs_at S j)" and "(p, k, True) \<in> set (B ! j)" and "p \<in> heap_nodes S B j"
    and "p \<in> sys_nodes S B" and "0 < p"
proof -
  obtain j k where j: "j < length B" "(p, k, True) \<in> set (B ! j)" using ok p by (auto simp: hs_ok_def set_all_used)
  have l: "heap_live (hs_at S j)" by (rule hs_ok_block_live [OF ok j])
  have "mm_start (hs_at S j) \<le> p" by (rule region_block(1) [OF hs_ok_region [OF ok j(1) l] j(2)])
  moreover have "0 < mm_start (hs_at S j)" using hs_ok_static [OF ok] hs_ok_length [OF ok] j l by (auto simp: static_ok_def)
  moreover have "p \<in> region_nodes (hs_at S j) (B ! j)" using j(2) by (force simp: region_nodes_def)
  ultimately show thesis using that j l by (auto simp: heap_nodes_def sys_nodes_def)
qed

lemma used_list_apart:
  assumes ok: "hs_ok S B us"
  shows "sorted_wrt apart (hs_used S # us)"
proof -
  have "apart p q" if p: "p \<in> set us" and q: "q \<in> set us" and ne: "p \<noteq> q" for p q
  proof -
    obtain j k where j: "j < length B" "heap_live (hs_at S j)" "(p, k, True) \<in> set (B ! j)" using used_block [OF ok p] by metis
    have "q \<in> sys_nodes S B" using used_block [OF ok q] by metis
    then have "q + 24 \<le> p \<or> p + k \<le> q" using node_clear [OF ok j(1,3)] ne by blast
    then show ?thesis using region_block(3) [OF hs_ok_region [OF ok j(1,2)] j(3)] by (auto simp: apart_def)
  qed
  then have "sorted_wrt apart us" using ok by (intro sorted_wrt_distinct) (auto simp: hs_ok_def)
  moreover have "apart (hs_used S) p" if "p \<in> set us" for p
    using used_block [OF ok that] used_apart [OF ok] by metis
  ultimately show ?thesis by simp
qed

text \<open>Writes to the used list keep every region.\<close>

lemma used_link_ok:
  assumes ok: "hs_ok S B us" and j: "j < length B" "heap_live (hs_at S j)" and r: "region_ok m (hs_at S j) (B ! j)"
    and p: "p \<in> set us"
  shows "region_ok (set_next m p v) (hs_at S j) (B ! j)"
proof -
  obtain q k where q: "q < length B" "heap_live (hs_at S q)" "(p, k, True) \<in> set (B ! q)" "p \<in> heap_nodes S B q"
    using used_block [OF ok p] by metis
  show ?thesis
  proof (cases "q = j")
    case True
    have "outside (mm_heap (hs_at S j)) (hs_at S j)"
      using hs_ok_static [OF ok] hs_ok_length [OF ok] j by (auto simp: static_ok_def)
    then show ?thesis using region_ok_next [OF r] q(3) True by blast
  next
    case False
    show ?thesis
    proof (rule region_ok_heads [OF r])
      show "heads_only m (set_next m p v) {p}" by (rule heads_only_wr32 [of p]) auto
      fix a b assume "a \<in> {p}" "b = mm_heap (hs_at S j) \<or> b \<in> region_nodes (hs_at S j) (B ! j)"
      then show "apart a b" using heaps_apart [OF ok q(1,2) j False q(4)] by (auto simp: heap_nodes_def)
    qed
  qed
qed

lemma used_head_ok:
  assumes ok: "hs_ok S B us" and j: "j < length B" "heap_live (hs_at S j)" and r: "region_ok m (hs_at S j) (B ! j)"
    and a: "hs_used S \<le> a" "a \<le> hs_used S + 20"
  shows "region_ok (wr32 m a v) (hs_at S j) (B ! j)"
proof (rule region_ok_heads [OF r])
  show "heads_only m (wr32 m a v) {hs_used S}" using a by (intro heads_only_wr32 [of "hs_used S"]) auto
  fix p q assume "p \<in> {hs_used S}" "q = mm_heap (hs_at S j) \<or> q \<in> region_nodes (hs_at S j) (B ! j)"
  then show "apart p q" using used_apart [OF ok j] by (auto simp: heap_nodes_def)
qed

lemma remove_used_ok:
  assumes ok: "hs_ok S B us" and us: "us = u1 @ b # u2" and i: "i < length B" "heap_live (hs_at S i)"
    and b: "(b, n, True) \<in> set (B ! i)"
  obtains m where "heap_remove_block_from_used_list (hs_mem S) (hs_used S) (mm_bit (hs_at S i)) b = Some m"
    and "path m (hs_used S) (u1 @ u2) 0" and "blk_next m b = 0"
    and "blk_size m (hs_used S) = sub32 (blk_size (hs_mem S) (hs_used S)) n"
    and "\<And>j. j < length B \<Longrightarrow> heap_live (hs_at S j) \<Longrightarrow> region_ok m (hs_at S j) (B ! j)"
    and "heads_only (hs_mem S) m {hs_used S, last (hs_used S # u1), b}"
proof -
  let ?m = "hs_mem S" and ?p = "last (hs_used S # u1)"
  have r: "region_ok ?m (hs_at S i) (B ! i)" by (rule hs_ok_region [OF ok i])
  have st: "mm_size (hs_at S i) < 2147483648" using hs_ok_static [OF ok] hs_ok_length [OF ok] i by (auto simp: static_ok_def)
  have "clear_bits (blk_size ?m b) (mm_bit (hs_at S i)) = n"
    using region_used [OF r b] region_block [OF r b] st r by (simp add: region_ok_def clear_bit31)
  moreover have "path ?m (hs_used S) (u1 @ b # u2) 0" using ok us by (simp add: hs_ok_def)
  moreover have "0 \<notin> set (u1 @ b # u2)" using used_block [OF ok] us by (metis less_irrefl)
  ultimately obtain m where m: "heap_remove_block_from_used_list ?m (hs_used S) (mm_bit (hs_at S i)) b = Some m"
    "path m (hs_used S) (u1 @ u2) 0" "blk_next m b = 0" "blk_size m (hs_used S) = sub32 (blk_size ?m (hs_used S)) n"
    "m = set_file (set_size (set_next (set_next ?m ?p (blk_next ?m b)) b 0) (hs_used S) (sub32 (blk_size ?m (hs_used S)) n))
      (hs_used S) (sub32 (blk_file ?m (hs_used S)) 1)"
    using remove_used_spec [of ?m "hs_used S" u1 b u2] used_list_apart [OF ok] us by metis
  have p: "?p = hs_used S \<or> ?p \<in> set us" and bu: "b \<in> set us" using us by auto
  have "region_ok m (hs_at S j) (B ! j)" if j: "j < length B" "heap_live (hs_at S j)" for j
  proof -
    have "region_ok (set_next ?m ?p v) (hs_at S j) (B ! j)" for v
      using p used_link_ok [OF ok j hs_ok_region [OF ok j]] used_head_ok [OF ok j hs_ok_region [OF ok j], of "hs_used S"] by auto
    from used_link_ok [OF ok j this bu] show ?thesis
      unfolding m(5) by - (rule used_head_ok [OF ok j], rule used_head_ok [OF ok j], assumption, simp_all)
  qed
  moreover have "heads_only ?m m {hs_used S, ?p, b}" unfolding m(5) by (intro heads_only_step heads_only_refl) auto
  ultimately show thesis using that m(1-4) by blast
qed

lemma heap_of_at:
  assumes ok: "hs_ok S B us" and i: "i < length B"
  shows "heap_of S (mm_heap (hs_at S i)) = Some i"
proof -
  have "mm_heap (hs_at S j) \<noteq> mm_heap (hs_at S i)" if "j < i" for j
  proof -
    have "apart (mm_heap (hs_at S j)) (mm_heap (hs_at S i))"
      using hs_ok_static [OF ok] hs_ok_length [OF ok] i that by (auto simp: static_ok_def)
    then show ?thesis by (metis apart_irrefl)
  qed
  then show ?thesis using i hs_ok_length [OF ok] unfolding heap_of_def find_Some_iff
    by (intro exI [of _ i]) auto
qed

text \<open>The node before a block given back is none of the used list, and of no other heap.\<close>

lemma free_node_apart:
  assumes ok: "hs_ok S B us" and i: "i < length B" "heap_live (hs_at S i)"
    and p: "p = mm_heap (hs_at S i) \<or> (\<exists>k. (p, k, False) \<in> set (B ! i))" and q: "q \<in> set us"
  shows "apart p q"
proof -
  obtain j k where j: "j < length B" "heap_live (hs_at S j)" "(q, k, True) \<in> set (B ! j)" "q \<in> heap_nodes S B j"
    using used_block [OF ok q] by metis
  have out: "outside (mm_heap (hs_at S i)) (hs_at S i)"
    using hs_ok_static [OF ok] hs_ok_length [OF ok] i by (auto simp: static_ok_def)
  show ?thesis
  proof (cases "j = i")
    case True
    show ?thesis by (rule apart_sym, rule free_not_used [OF hs_ok_region [OF ok i] out]) (use j(3) True p in auto)
  next
    case False
    have "p \<in> heap_nodes S B i" using p by (force simp: heap_nodes_def region_nodes_def)
    from heaps_apart [OF ok i j(1,2) _ this j(4)] show ?thesis using False by simp
  qed
qed

lemma heap_release_fields:
  assumes "i < length (hs_soc S)" and S': "heap_release S i m b = Done S'"
    and n: "blk_size (set_line (set_file (set_size m b (clear_bits (blk_size m b) (mm_bit (hs_at S i)))) b 0) b 0xFFFFFFFF) b = n"
  shows "hs_soc S' = (hs_soc S)[i := hs_at S' i]" and "layout (hs_at S' i) = layout (hs_at S i)"
    and "mm_free (hs_at S' i) = u32 (mm_free (hs_at S i) + n)" and "mm_min (hs_at S' i) = mm_min (hs_at S i)"
    and "hg_free (hs_glob S') = u32 (hg_free (hs_glob S) + n)" and "hg_struct (hs_glob S') = hg_struct (hs_glob S)"
    and "hs_used S' = hs_used S"
  using assms by (auto simp: heap_release_def hs_set_def Let_def layout_def split: option.splits)

lemma region_free_lt:
  assumes "region_ok m mm bs" and "mm_start mm + mm_size mm \<le> 4294967296"
  shows "mm_free mm < 4294967296"
proof -
  obtain lo where "tiled lo bs (mm_end mm)" using assms(1) by (auto simp: region_ok_def)
  from free_sum_le [OF this] show ?thesis using assms by (simp add: region_ok_def)
qed

lemma give_back_used:
  assumes ok: "hs_ok S B us" and i: "i < length B" and bs: "B ! i = xs @ (b, n, True) # ys" and c: "c \<in> set (all_used (B[i := give_back xs b n ys]))"
  shows "c \<in> set (all_used B)" and "fst c \<noteq> b"
proof -
  let ?B = "B[i := give_back xs b n ys]"
  have bi: "(b, n, True) \<in> set (B ! i)" using bs by simp
  have l: "heap_live (hs_at S i)" by (rule hs_ok_block_live [OF ok i bi])
  show cB: "c \<in> set (all_used B)" using c all_used_split [OF i] all_used_update [OF i] bs by (auto simp: used_give_back)
  have "(fst c, snd c) \<in> set (all_used ?B)" using c by simp
  then obtain j where j: "j < length B" "(fst c, snd c, True) \<in> set (?B ! j)" by (auto simp only: set_all_used length_list_update)
  show "fst c \<noteq> b"
  proof (cases "j = i")
    case True
    then have "(fst c, snd c) \<in> set (used_areas (give_back xs b n ys))" using j i by (simp only: set_used_areas nth_list_update_eq)
    then have "(fst c, snd c, True) \<in> set xs \<union> set ys" by (simp only: used_give_back set_append Un_iff set_used_areas)
    moreover obtain lo where "tiled lo (xs @ (b, n, True) # ys) (mm_end (hs_at S i))"
      using hs_ok_region [OF ok i l] bs by (auto simp: region_ok_def)
    ultimately show ?thesis by (auto simp: tiled_append dest!: tiled_block split_list)
  next
    case False
    then have jc: "(fst c, snd c, True) \<in> set (B ! j)" using j i by simp
    have "apart b (fst c)"
      by (rule heaps_apart [OF ok i l j(1) hs_ok_block_live [OF ok j(1) jc]])
        (use False bi jc in \<open>force simp: heap_nodes_def region_nodes_def\<close>)+
    then show ?thesis by auto
  qed
qed

lemma heap_release_ok:
  assumes ok: "hs_ok S B us" and u: "us = u1 @ b # u2" and i: "i < length B" "heap_live (hs_at S i)"
    and bs: "B ! i = xs @ (b, n, True) # ys"
    and m: "path m (hs_used S) (u1 @ u2) 0" "blk_size m (hs_used S) = sub32 (blk_size (hs_mem S) (hs_used S)) n"
      "\<And>j. j < length B \<Longrightarrow> heap_live (hs_at S j) \<Longrightarrow> region_ok m (hs_at S j) (B ! j)"
      "heads_only (hs_mem S) m {hs_used S, last (hs_used S # u1), b}"
  obtains S' where "heap_release S i m b = Done S'" and "hs_ok S' (B[i := give_back xs b n ys]) (u1 @ u2)" and "same_layout S S'"
    and "\<And>f. f \<in> set (all_used (B[i := give_back xs b n ys])) \<Longrightarrow> payload (hs_mem S') f = payload (hs_mem S) f"
    and "blk_size (hs_mem S') b < 2147483648" and "blk_heap (hs_mem S') b = mm_heap (hs_at S i)"
proof -
  let ?mm = "hs_at S i" and ?bs = "give_back xs b n ys" and ?h = "mm_heap (hs_at S i)"
  let ?p = "last (mm_heap (hs_at S i) # map fst (free_areas xs))"
  have bi: "(b, n, True) \<in> set (B ! i)" using bs by simp
  have il: "i < length (hs_soc S)" using i hs_ok_length [OF ok] by simp
  have st: "outside ?h ?mm" "mm_start ?mm + mm_size ?mm \<le> 4294967296" "mm_size ?mm < 2147483648"
    using hs_ok_static [OF ok] il i by (auto simp: static_ok_def)
  have us: "set us = fst ` set (all_used B)" "distinct us" "sub32 (blk_size (hs_mem S) (hs_used S)) n = u32 (sum_list (map snd (all_used B)) - n)"
    "hg_free (hs_glob S) = u32 (free_total (hs_soc S))"
  proof -
    have "(b, n) \<in> set (all_used B)" using bi i by (auto simp: set_all_used)
    then have "n \<le> sum_list (map snd (all_used B))" by (force intro: member_le_sum_list)
    moreover have "n < 4294967296" using region_block [OF hs_ok_region [OF ok i] bi] st by linarith
    ultimately show "sub32 (blk_size (hs_mem S) (hs_used S)) n = u32 (sum_list (map snd (all_used B)) - n)"
      using ok sub32_u32 by (simp add: hs_ok_def)
  qed (use ok in \<open>auto simp: hs_ok_def\<close>)
  have rm: "region_ok m ?mm (xs @ (b, n, True) # ys)" using m(3) [OF i] bs by simp
  note rel = region_release [OF rm st]
  let ?grown = "?mm\<lparr>mm_free := mm_free ?mm + n\<rparr>" and
    ?marked = "set_line (set_file (set_size m b (clear_bits (blk_size m b) (mm_bit ?mm))) b 0) b 0xFFFFFFFF"
  obtain m' where m': "heap_insert_block_into_free_list ?marked ?h (mm_end ?mm) b = Some m'" "region_ok m' ?grown ?bs"
    "heads_only m m' {?p, b}" "blk_size m' b < 2147483648" "blk_heap m' b = ?h"
    using rel(2) [of ?grown] by (auto simp: layout_def)
  obtain S' where S': "heap_release S i m b = Done S'" "hs_mem S' = m'"
    using m'(1) by (simp add: heap_release_def Let_def)
  have size_b: "blk_size ?marked b = n" by (rule rel(1) [of ?grown]) (simp_all add: layout_def)
  note fields = heap_release_fields [OF il S'(1) size_b]
  have free': "mm_free (hs_at S' i) = mm_free ?mm + n" using fields(3) region_free_lt [OF m'(2)] st(2) by simp
  have ri: "region_ok (hs_mem S') (hs_at S' i) ?bs"
    using rel(2) [OF fields(2) free' fields(4)] m'(1) S'(2) by simp
  have pn: "?p = ?h \<or> (\<exists>k. (?p, k, False) \<in> set (B ! i))" using last_free_node [of ?h xs] bs by auto
  have nodes: "?p \<in> heap_nodes S B i" "b \<in> heap_nodes S B i" using pn bi by (force simp: heap_nodes_def region_nodes_def)+
  have rj: "region_ok (hs_mem S') (hs_at S j) (B ! j)" if j: "j < length B" "heap_live (hs_at S j)" "j \<noteq> i" for j
    unfolding S'(2)
  proof (rule region_ok_heads [OF m(3) [OF j(1,2)] m'(3)])
    fix p q assume "p \<in> {?p, b}" "q = mm_heap (hs_at S j) \<or> q \<in> region_nodes (hs_at S j) (B ! j)"
    then show "apart p q" using heaps_apart [OF ok i j(1,2)] j(3) nodes by (auto simp: heap_nodes_def)
  qed
  have keep: "apart p q" if "p \<in> {?p, b}" "q \<in> insert (hs_used S) (set (u1 @ u2))" for p q
  proof (cases "q = hs_used S")
    case True
    show ?thesis unfolding True by (rule apart_sym, rule used_apart [OF ok i]) (use that(1) nodes in auto)
  next
    case False
    then have q: "q \<in> set us" "apart b q" using that(2) used_list_apart [OF ok] u by (auto simp: sorted_wrt_append intro: apart_sym)
    then show ?thesis using that(1) free_node_apart [OF ok i pn q(1)] by auto
  qed
  note kn = heads_only_node [OF m'(3) keep]
  have path': "path (hs_mem S') (hs_used S) (u1 @ u2) 0"
    using m(1) path_cong [of "hs_used S" "u1 @ u2" m' m 0] kn(1) S'(2) by auto
  have used_B: "all_used B = all_used (take i B) @ used_areas xs @ (b, n) # used_areas ys @ all_used (drop (Suc i) B)"
    and used_B': "all_used (B[i := ?bs]) = all_used (take i B) @ used_areas xs @ used_areas ys @ all_used (drop (Suc i) B)"
    using all_used_split [OF i(1)] all_used_update [OF i(1)] bs by (simp_all add: used_give_back)
  have set': "set (u1 @ u2) = fst ` set (all_used (B[i := ?bs]))"
  proof -
    have "set (u1 @ u2) = set us - {b}" using us(2) u by auto
    moreover have "fst ` set (all_used (B[i := ?bs])) = fst ` set (all_used B) - {b}"
      using give_back_used(2) [OF ok i(1) bs] unfolding used_B used_B' by auto
    ultimately show ?thesis using us(1) by simp
  qed
  have sz: "blk_size (hs_mem S') (hs_used S) = u32 (sum_list (map snd (all_used (B[i := ?bs]))))"
    using kn(2) [of "hs_used S"] m(2) us(3) S'(2) unfolding used_B used_B' by simp
  have tot: "hg_free (hs_glob S') = u32 (free_total (hs_soc S'))"
  proof -
    have "free_total (hs_soc S') = free_total (hs_soc S) + n"
      using free_total_step [OF ok i fields(2)] fields(1) free' by simp
    then show ?thesis using fields(5) us(4) by (simp add: u32_add)
  qed
  have dist: "distinct (u1 @ u2)" using us(2) u by simp
  have h: "heads_only (hs_mem S) (hs_mem S') {hs_used S, last (hs_used S # u1), b, ?p}"
    unfolding S'(2) by (rule heads_only_trans [OF m(4) m'(3)]) auto
  show thesis
  proof (rule that [OF S'(1)])
    show "hs_ok S' (B[i := ?bs]) (u1 @ u2)" "same_layout S S'"
      by (rule hs_ok_step [OF ok i fields(1,2,7,6) ri rj path' dist set' sz tot]; assumption)+
    show "blk_size (hs_mem S') b < 2147483648" "blk_heap (hs_mem S') b = ?h" using m'(4,5) S'(2) by simp_all
    fix f assume f: "f \<in> set (all_used (B[i := ?bs]))"
    obtain c j where c: "f = (c, j)" by (cases f)
    obtain q where q: "q < length B" "(c, j, True) \<in> set (B ! q)"
      using give_back_used(1) [OF ok i(1) bs f] c by (auto simp: set_all_used)
    show "payload (hs_mem S') f = payload (hs_mem S) f" unfolding c
    proof (rule payload_heads [OF h])
      fix p assume p: "p \<in> {hs_used S, last (hs_used S # u1), b, ?p}" "p \<noteq> c"
      have "last (hs_used S # u1) = hs_used S \<or> last (hs_used S # u1) \<in> set us" using u by auto
      then have "p = hs_used S \<or> p \<in> set us \<or> p \<in> heap_nodes S B i" using p(1) nodes by auto
      moreover have "heap_nodes S B i \<subseteq> sys_nodes S B" using i il by (auto simp: heap_nodes_def sys_nodes_def)
      moreover have "set us \<subseteq> sys_nodes S B" using used_block [OF ok] by blast
      ultimately have "p \<in> sys_nodes S B" by (auto simp: sys_nodes_def)
      from node_clear [OF ok q this p(2)] show "p + 24 \<le> c \<or> c + j \<le> p" .
    qed
  qed
qed

lemma heap_free_ok:
  assumes ok: "hs_ok S B us" and i: "i < length B" and bs: "B ! i = xs @ (b, n, True) # ys"
  obtains S' us' where "heap_free S (b + 24) = Done S'" and "hs_ok S' (B[i := give_back xs b n ys]) us'" and "same_layout S S'"
    and "b \<notin> set us'"
    and "\<And>f. f \<in> set (all_used (B[i := give_back xs b n ys])) \<Longrightarrow> payload (hs_mem S') f = payload (hs_mem S) f"
    and "blk_size (hs_mem S') b < 2147483648" and "blk_heap (hs_mem S') b = mm_heap (hs_at S i)"
proof -
  have bi: "(b, n, True) \<in> set (B ! i)" using bs by simp
  have l: "heap_live (hs_at S i)" by (rule hs_ok_block_live [OF ok i bi])
  have r: "region_ok (hs_mem S) (hs_at S i) (B ! i)" by (rule hs_ok_region [OF ok i l])
  have st: "mm_start (hs_at S i) + mm_size (hs_at S i) \<le> 4294967296" "mm_size (hs_at S i) < 2147483648"
    using hs_ok_static [OF ok] hs_ok_length [OF ok] i l by (auto simp: static_ok_def)
  note rb = region_block [OF r bi]
  have bA: "(b, n) \<in> set (all_used B)" using bi i by (auto simp: set_all_used)
  then have "b \<in> set us" using ok by (force simp: hs_ok_def)
  then obtain u1 u2 where u: "us = u1 @ b # u2" by (metis split_list)
  obtain m where m: "heap_remove_block_from_used_list (hs_mem S) (hs_used S) (mm_bit (hs_at S i)) b = Some m"
    "path m (hs_used S) (u1 @ u2) 0" "blk_next m b = 0" "blk_size m (hs_used S) = sub32 (blk_size (hs_mem S) (hs_used S)) n"
    "\<And>j. j < length B \<Longrightarrow> heap_live (hs_at S j) \<Longrightarrow> region_ok m (hs_at S j) (B ! j)"
    "heads_only (hs_mem S) m {hs_used S, last (hs_used S # u1), b}"
    using remove_used_ok [OF ok u i l bi] by blast
  obtain S' where S': "heap_release S i m b = Done S'" "hs_ok S' (B[i := give_back xs b n ys]) (u1 @ u2)" "same_layout S S'"
    "\<And>f. f \<in> set (all_used (B[i := give_back xs b n ys])) \<Longrightarrow> payload (hs_mem S') f = payload (hs_mem S) f"
    "blk_size (hs_mem S') b < 2147483648" "blk_heap (hs_mem S') b = mm_heap (hs_at S i)"
    using heap_release_ok [OF ok u i l bs m(2,4-6)] by blast
  have "b \<notin> set (u1 @ u2)" using ok u by (auto simp: hs_ok_def)
  moreover have "sub32 (b + 24) (hg_struct (hs_glob S)) = b" using ok rb st by (simp add: hs_ok_def sub32_id)
  moreover have "blk_size m b AND mm_bit (hs_at S i) \<noteq> 0"
    using region_used(1) [OF m(5) [OF i l] bi] r rb st by (simp add: region_ok_def and_bit31)
  ultimately have "heap_free S (b + 24) = Done S'" "b \<notin> set (u1 @ u2)"
    using region_used(2) [OF r bi] heap_of_at [OF ok i] m(1,3) S'(1) by (simp_all add: heap_free_def Let_def)
  then show thesis using that S'(2-6) by blast
qed

end
