(* ===== verification/HeapUse.thy ===== *)
theory HeapUse
  imports HeapFree
begin

text \<open>
  The heap as its callers see it: what they write into their blocks disturbs nothing, and
  allocation, release and reallocation are described by the blocks in use and their bytes.
\<close>

section \<open>Writing into a block\<close>

lemma region_ok_same:
  assumes r: "region_ok m mm bs"
    and e: "\<And>q. q = mm_heap mm \<or> q \<in> region_nodes mm bs \<Longrightarrow>
      blk_next m' q = blk_next m q \<and> blk_size m' q = blk_size m q \<and> blk_heap m' q = blk_heap m q"
  shows "region_ok m' mm bs"
proof -
  obtain lo where lo: "tiled lo bs (mm_end mm)" "mm_start mm \<le> lo \<and> lo < mm_start mm + 8" "8 dvd lo"
    "free_list m (mm_heap mm) (free_areas bs) lo (mm_end mm)" using r by (auto simp: region_ok_def)
  have fn: "fst ` set (free_areas bs) \<subseteq> region_nodes mm bs" "fst ` set (used_areas bs) \<subseteq> region_nodes mm bs"
    by (force simp: region_nodes_def set_free_areas set_used_areas)+
  have en: "mm_end mm \<in> region_nodes mm bs" by (simp add: region_nodes_def)
  have "path m' (mm_heap mm) (map fst (free_areas bs)) (mm_end mm) = path m (mm_heap mm) (map fst (free_areas bs)) (mm_end mm)"
    by (rule path_cong) (use e fn in auto)
  moreover have "blk_size m' (fst f) = blk_size m (fst f)" if "f \<in> set (free_areas bs)" for f using e fn that by blast
  ultimately have "free_list m' (mm_heap mm) (free_areas bs) lo (mm_end mm)"
    using lo(4) e by (simp add: free_list_def)
  moreover have "blk_size m' (fst f) = blk_size m (fst f) \<and> blk_heap m' (fst f) = blk_heap m (fst f)"
    if "f \<in> set (used_areas bs)" for f using e fn that by blast
  ultimately show ?thesis using r lo(1-3) e [OF disjI2 [OF en]] unfolding region_ok_def by auto
qed

lemma hs_ok_same:
  assumes ok: "hs_ok S B us"
    and e: "\<And>q. q \<in> sys_nodes S B \<Longrightarrow> blk_next m' q = blk_next (hs_mem S) q \<and> blk_size m' q = blk_size (hs_mem S) q \<and>
      blk_heap m' q = blk_heap (hs_mem S) q"
  shows "hs_ok (S\<lparr>hs_mem := m'\<rparr>) B us"
proof -
  have "region_ok m' (hs_at S i) (B ! i)" if i: "i < length B" "heap_live (hs_at S i)" for i
  proof (rule region_ok_same [OF hs_ok_region [OF ok i]])
    fix q assume "q = mm_heap (hs_at S i) \<or> q \<in> region_nodes (hs_at S i) (B ! i)"
    then have "q \<in> sys_nodes S B" using i hs_ok_length [OF ok] by (auto simp: sys_nodes_def)
    from e [OF this] show "blk_next m' q = blk_next (hs_mem S) q \<and> blk_size m' q = blk_size (hs_mem S) q \<and>
      blk_heap m' q = blk_heap (hs_mem S) q" .
  qed
  moreover have "path m' (hs_used S) us 0 = path (hs_mem S) (hs_used S) us 0"
  proof (rule path_cong)
    fix q assume "q = hs_used S \<or> q \<in> set us"
    moreover have "set us \<subseteq> sys_nodes S B" using used_block [OF ok] by blast
    ultimately have "q \<in> sys_nodes S B" by (auto simp: sys_nodes_def)
    then show "blk_next m' q = blk_next (hs_mem S) q" using e by blast
  qed
  moreover have "blk_size m' (hs_used S) = blk_size (hs_mem S) (hs_used S)" using e by (simp add: sys_nodes_def)
  ultimately show ?thesis using ok by (simp add: hs_ok_def)
qed

text \<open>Blocks in use do not overlap, and an address belongs to one of them at most.\<close>

lemma used_at:
  assumes ok: "hs_ok S B us" and b: "(b, n) \<in> set (all_used B)"
  obtains i where "i < length B" and "(b, n, True) \<in> set (B ! i)" and "heap_live (hs_at S i)" and "24 \<le> n" and "8 dvd b"
    and "b \<in> sys_nodes S B" and "b + n < 4294967296" and "0 < b"
proof -
  obtain i where i: "i < length B" "(b, n, True) \<in> set (B ! i)" using b by (auto simp: set_all_used)
  have l: "heap_live (hs_at S i)" by (rule hs_ok_block_live [OF ok i])
  note rb = region_block [OF hs_ok_region [OF ok i(1) l] i(2)]
  have st: "mm_start (hs_at S i) + mm_size (hs_at S i) \<le> 4294967296" "0 < mm_start (hs_at S i)"
    using hs_ok_static [OF ok] hs_ok_length [OF ok] i(1) l by (auto simp: static_ok_def)
  have "b \<in> sys_nodes S B" using i l by (force simp: sys_nodes_def region_nodes_def)
  then show thesis using that i l rb st by auto
qed

lemma used_disjoint:
  assumes ok: "hs_ok S B us" and b: "(b, n) \<in> set (all_used B)" and d: "(d, k) \<in> set (all_used B)" and "b \<noteq> d"
  shows "b + n \<le> d \<or> d + k \<le> b"
proof -
  obtain i where i: "i < length B" "(b, n, True) \<in> set (B ! i)" "24 \<le> n" "b \<in> sys_nodes S B" using used_at [OF ok b] by metis
  obtain j where j: "j < length B" "(d, k, True) \<in> set (B ! j)" "24 \<le> k" "d \<in> sys_nodes S B" using used_at [OF ok d] by metis
  have "d + 24 \<le> b \<or> b + n \<le> d" by (rule node_clear [OF ok i(1,2) j(4)]) (use assms(4) in simp)
  moreover have "b + 24 \<le> d \<or> d + k \<le> b" by (rule node_clear [OF ok j(1,2) i(4) assms(4)])
  ultimately show ?thesis using i(3) j(3) by linarith
qed

lemma used_unique:
  assumes ok: "hs_ok S B us" and b: "(b, n) \<in> set (all_used B)" and d: "(b, k) \<in> set (all_used B)"
  shows "k = n"
proof -
  obtain i where i: "i < length B" "(b, n, True) \<in> set (B ! i)" "heap_live (hs_at S i)" "24 \<le> n" using used_at [OF ok b] by metis
  obtain j where j: "j < length B" "(b, k, True) \<in> set (B ! j)" "heap_live (hs_at S j)" "24 \<le> k" using used_at [OF ok d] by metis
  have "i = j"
  proof (rule ccontr)
    assume "i \<noteq> j"
    have "apart b b"
      by (rule heaps_apart [OF ok i(1,3) j(1,3) \<open>i \<noteq> j\<close>]) (use i j in \<open>force simp: heap_nodes_def region_nodes_def\<close>)+
    then show False by simp
  qed
  moreover obtain lo where "tiled lo (B ! i) (mm_end (hs_at S i))"
    using hs_ok_region [OF ok i(1,3)] by (auto simp: region_ok_def)
  ultimately show ?thesis using tiled_apart [OF _ i(2), of lo "mm_end (hs_at S i)" b k True] i j by auto
qed

lemma splice_other: "x < a \<or> a + length bs \<le> x \<Longrightarrow> splice m a bs x = m x"
  by (auto simp: splice_def)

lemma hs_ok_store:
  assumes ok: "hs_ok S B us" and c: "(b, n) \<in> set (all_used B)" and fit: "off + length bs \<le> n - 24"
  shows "hs_ok (S\<lparr>hs_mem := splice (hs_mem S) (b + 24 + off) bs\<rparr>) B us"
    and "\<And>f. f \<in> set (all_used B) \<Longrightarrow> payload (splice (hs_mem S) (b + 24 + off) bs) f =
      (if fst f = b then overlay (payload (hs_mem S) f) off bs else payload (hs_mem S) f)"
proof -
  let ?m = "splice (hs_mem S) (b + 24 + off) bs"
  obtain i where i: "i < length B" "(b, n, True) \<in> set (B ! i)" using c by (auto simp: set_all_used)
  have r: "region_ok (hs_mem S) (hs_at S i) (B ! i)" by (rule hs_ok_region [OF ok i(1) hs_ok_block_live [OF ok i]])
  have n: "24 \<le> n" by (rule region_block(3) [OF r i(2)])
  show "hs_ok (S\<lparr>hs_mem := ?m\<rparr>) B us"
  proof (rule hs_ok_same [OF ok])
    fix q assume "q \<in> sys_nodes S B"
    then have "q = b \<or> q + 24 \<le> b \<or> b + n \<le> q" using node_clear [OF ok i] by blast
    then have "?m x = hs_mem S x" if "q \<le> x" "x < q + 24" for x using that fit n by (auto intro: splice_other)
    then have "rd32 ?m a = rd32 (hs_mem S) a" if "q \<le> a" "a \<le> q + 20" for a using that by (intro rd32_cong) auto
    then show "blk_next ?m q = blk_next (hs_mem S) q \<and> blk_size ?m q = blk_size (hs_mem S) q \<and> blk_heap ?m q = blk_heap (hs_mem S) q"
      by simp
  qed
  fix f assume f: "f \<in> set (all_used B)"
  obtain d k where d: "f = (d, k)" by (cases f)
  show "payload ?m f = (if fst f = b then overlay (payload (hs_mem S) f) off bs else payload (hs_mem S) f)"
  proof (cases "d = b")
    case False
    then have "b + n \<le> d \<or> d + k \<le> b" using used_disjoint [OF ok c] f d by simp
    then have "mem_slice ?m (d + 24) (k - 24) = mem_slice (hs_mem S) (d + 24) (k - 24)"
      using fit n by (intro mem_slice_cong) (auto intro: splice_other)
    then show ?thesis using d False by (simp add: payload_def)
  next
    case True
    then have "k = n" using used_unique [OF ok c] f d by simp
    then show ?thesis using d True fit
      by (intro nth_equalityI) (auto simp: payload_def nth_overlay splice_def add.assoc length_overlay)
  qed
qed

section \<open>The abstract allocator\<close>

text \<open>The blocks in use as a map from pointers to contents.\<close>

type_synonym heap_map = "nat \<Rightarrow> bytes option"

datatype heap_op = HAlloc nat nat | HRealloc nat nat nat | HFree nat | HStore nat nat bytes

text \<open>A block that overlaps none of the others, for a request of \<open>n\<close> bytes.\<close>

definition fresh_block :: "heap_map \<Rightarrow> nat \<Rightarrow> nat \<Rightarrow> bytes \<Rightarrow> bool" where
  "fresh_block A r n bs \<longleftrightarrow> r \<noteq> 0 \<and> 8 dvd r \<and> n \<le> length bs \<and> A r = None \<and>
     (\<forall>q cs. A q = Some cs \<longrightarrow> r + length bs \<le> q \<or> q + length cs \<le> r)"

text \<open>What a caller may do: sizes are 32-bit numbers, pointers are null or to blocks in use, and
  stores stay inside their block.\<close>

fun heap_allowed :: "heap_map \<Rightarrow> heap_op \<Rightarrow> bool" where
  "heap_allowed A (HAlloc n caps) \<longleftrightarrow> n < 4294967296"
| "heap_allowed A (HRealloc p n caps) \<longleftrightarrow> n < 4294967296 \<and> (p = 0 \<or> A p \<noteq> None)"
| "heap_allowed A (HFree p) \<longleftrightarrow> p = 0 \<or> A p \<noteq> None"
| "heap_allowed A (HStore p off bs) \<longleftrightarrow> (case A p of None \<Rightarrow> False | Some cs \<Rightarrow> off + length bs \<le> length cs)"

definition alloc_map_step :: "heap_map \<Rightarrow> nat \<Rightarrow> nat \<Rightarrow> heap_map \<Rightarrow> bool" where
  "alloc_map_step A n r A' \<longleftrightarrow>
     r = 0 \<and> A' = A \<or> (\<exists>bs. 0 < n \<and> fresh_block A r n bs \<and> A' = A(r \<mapsto> bs))"

fun heap_map_step :: "heap_map \<Rightarrow> heap_op \<Rightarrow> nat \<Rightarrow> heap_map \<Rightarrow> bool" where
  "heap_map_step A (HAlloc n caps) r A' \<longleftrightarrow> alloc_map_step A n r A'"
| "heap_map_step A (HRealloc p n caps) r A' \<longleftrightarrow>
     (if p = 0 then alloc_map_step A n r A'
      else if n = 0 then r = 0 \<and> A' = A(p := None)
      else r = 0 \<and> A' = A \<or>
        (\<exists>cs bs. A p = Some cs \<and> fresh_block A r n bs \<and> A' = (A(p := None))(r \<mapsto> bs) \<and>
           take (min (length cs) n) bs = take (min (length cs) n) cs))"
| "heap_map_step A (HFree p) r A' \<longleftrightarrow> r = 0 \<and> A' = A(p := None)"
| "heap_map_step A (HStore p off bs) r A' \<longleftrightarrow>
     r = 0 \<and> (\<exists>cs. A p = Some cs \<and> A' = A(p \<mapsto> overlay cs off bs))"

definition heap_do :: "nat \<Rightarrow> nat \<Rightarrow> heap_sys \<Rightarrow> heap_op \<Rightarrow> (nat \<times> heap_sys) hrun" where
  "heap_do file line S op = (case op of
     HAlloc n caps \<Rightarrow> wm_heap_caps_alloc_tracing S n caps file line
   | HRealloc p n caps \<Rightarrow> wm_heap_caps_realloc_tracing S p n caps file line
   | HFree p \<Rightarrow> (case wm_heap_caps_free S p of Done S' \<Rightarrow> Done (0, S') | Asserts \<Rightarrow> Asserts | Hangs \<Rightarrow> Hangs | Wild \<Rightarrow> Wild)
   | HStore p off bs \<Rightarrow> Done (0, S\<lparr>hs_mem := splice (hs_mem S) (p + off) bs\<rparr>))"

definition heap_shows :: "heap_sys \<Rightarrow> hblock list list \<Rightarrow> heap_map \<Rightarrow> bool" where
  "heap_shows S B A \<longleftrightarrow>
     (\<forall>p cs. A p = Some cs \<longleftrightarrow> (\<exists>f \<in> set (all_used B). p = fst f + 24 \<and> cs = payload (hs_mem S) f))"

definition heap_sim :: "heap_sys \<Rightarrow> heap_map \<Rightarrow> bool" where
  "heap_sim S A \<longleftrightarrow> (\<exists>B us. hs_ok S B us \<and> heap_shows S B A)"

lemma heap_showsD:
  assumes "heap_shows S B A" and "A p \<noteq> None"
  obtains b n where "(b, n) \<in> set (all_used B)" and "p = b + 24" and "A p = Some (payload (hs_mem S) (b, n))"
  using assms unfolding heap_shows_def by fastforce

lemma heap_shows_at: "heap_shows S B A \<Longrightarrow> f \<in> set (all_used B) \<Longrightarrow> A (fst f + 24) = Some (payload (hs_mem S) f)"
  by (auto simp: heap_shows_def)

lemma length_payload [simp]: "length (payload m f) = snd f - 24"
  by (simp add: payload_def)

text \<open>Adding, removing and changing a block.\<close>

lemma heap_shows_add:
  assumes ok: "hs_ok S' B' us'" and sh: "heap_shows S B A" and new: "set (all_used B') = insert (b, t) (set (all_used B))"
    and nb: "b \<notin> fst ` set (all_used B)" and keep: "\<And>f. f \<in> set (all_used B) \<Longrightarrow> payload (hs_mem S') f = payload (hs_mem S) f"
  shows "heap_shows S' B' (A(b + 24 \<mapsto> payload (hs_mem S') (b, t)))"
    and "n + 24 \<le> t \<Longrightarrow> fresh_block A (b + 24) n (payload (hs_mem S') (b, t))"
proof -
  have no: "A (b + 24) = None"
    using sh nb unfolding heap_shows_def by (metis add_right_cancel image_eqI not_None_eq)
  show "heap_shows S' B' (A(b + 24 \<mapsto> payload (hs_mem S') (b, t)))"
    unfolding heap_shows_def new
  proof (intro allI)
    fix p cs
    show "((A(b + 24 \<mapsto> payload (hs_mem S') (b, t))) p = Some cs) =
      (\<exists>f \<in> insert (b, t) (set (all_used B)). p = fst f + 24 \<and> cs = payload (hs_mem S') f)"
    proof (cases "p = b + 24")
      case True
      then show ?thesis using nb by (auto simp: image_def)
    next
      case False
      then have "((A(b + 24 \<mapsto> payload (hs_mem S') (b, t))) p = Some cs) = (\<exists>f \<in> set (all_used B). p = fst f + 24 \<and> cs = payload (hs_mem S) f)"
        using sh by (simp add: heap_shows_def)
      then show ?thesis using keep False by auto
    qed
  qed
  assume t: "n + 24 \<le> t"
  have bB: "(b, t) \<in> set (all_used B')" using new by simp
  obtain "24 \<le> t" "8 dvd b" using used_at [OF ok bB] by metis
  moreover have "b + 24 + (t - 24) \<le> q \<or> q + length cs \<le> b + 24" if q: "A q = Some cs" for q cs
  proof -
    obtain d k where d: "(d, k) \<in> set (all_used B)" "q = d + 24" "cs = payload (hs_mem S) (d, k)"
      using sh q unfolding heap_shows_def by fastforce
    then have "b \<noteq> d" using nb by force
    then have "b + t \<le> d \<or> d + k \<le> b" using used_disjoint [OF ok bB] d(1) new by simp
    moreover have "24 \<le> k" using used_at [OF ok, of d k] d(1) new by (metis insertI2)
    ultimately show ?thesis using d \<open>24 \<le> t\<close> by auto
  qed
  ultimately show "fresh_block A (b + 24) n (payload (hs_mem S') (b, t))"
    using t no unfolding fresh_block_def by auto
qed

lemma heap_shows_remove:
  assumes sh: "heap_shows S B A" and rest: "set (all_used B') = {f \<in> set (all_used B). fst f \<noteq> b}"
    and keep: "\<And>f. f \<in> set (all_used B') \<Longrightarrow> payload (hs_mem S') f = payload (hs_mem S) f"
  shows "heap_shows S' B' (A(b + 24 := None))"
  unfolding heap_shows_def
proof (intro allI)
  fix p cs
  show "((A(b + 24 := None)) p = Some cs) = (\<exists>f \<in> set (all_used B'). p = fst f + 24 \<and> cs = payload (hs_mem S') f)"
  proof (cases "p = b + 24")
    case False
    then have e: "((A(b + 24 := None)) p = Some cs) = (\<exists>f \<in> set (all_used B). p = fst f + 24 \<and> cs = payload (hs_mem S) f)"
      using sh by (simp add: heap_shows_def)
    have m: "f \<in> set (all_used B') \<longleftrightarrow> f \<in> set (all_used B)" if "p = fst f + 24" for f
      using rest that False by simp
    show ?thesis unfolding e
    proof (intro iffI; elim bexE conjE)
      fix f assume f: "f \<in> set (all_used B)" "p = fst f + 24" "cs = payload (hs_mem S) f"
      then have "f \<in> set (all_used B')" using m [OF f(2)] by blast
      moreover from this have "cs = payload (hs_mem S') f" using keep f(3) by simp
      ultimately show "\<exists>f \<in> set (all_used B'). p = fst f + 24 \<and> cs = payload (hs_mem S') f" using f(2) by blast
    next
      fix f assume f: "f \<in> set (all_used B')" "p = fst f + 24" "cs = payload (hs_mem S') f"
      then have "f \<in> set (all_used B)" using m [OF f(2)] by blast
      moreover have "cs = payload (hs_mem S) f" using keep [OF f(1)] f(3) by simp
      ultimately show "\<exists>f \<in> set (all_used B). p = fst f + 24 \<and> cs = payload (hs_mem S) f" using f(2) by blast
    qed
  qed (use rest in auto)
qed

section \<open>The code implements it\<close>

lemma free_sim:
  assumes ok: "hs_ok S B us" and sh: "heap_shows S B A" and p: "A p \<noteq> None"
  obtains S' where "wm_heap_caps_free S p = Done S'" and "heap_sim S' (A(p := None))" and "same_layout S S'"
proof -
  obtain b n where b: "(b, n) \<in> set (all_used B)" "p = b + 24" using heap_showsD [OF sh p] by metis
  obtain i where i: "i < length B" "(b, n, True) \<in> set (B ! i)" using b(1) by (auto simp: set_all_used)
  obtain xs ys where bs: "B ! i = xs @ (b, n, True) # ys" using split_list [OF i(2)] by blast
  obtain S' us' where S': "heap_free S (b + 24) = Done S'" "hs_ok S' (B[i := give_back xs b n ys]) us'" "same_layout S S'"
    "\<And>f. f \<in> set (all_used (B[i := give_back xs b n ys])) \<Longrightarrow> payload (hs_mem S') f = payload (hs_mem S) f"
    using heap_free_ok [OF ok i(1) bs] by blast
  have "f \<in> set (all_used (B[i := give_back xs b n ys]))" if "f \<in> set (all_used B)" "fst f \<noteq> b" for f
    using that all_used_split [OF i(1)] all_used_update [OF i(1)] bs by (auto simp: used_give_back)
  then have "set (all_used (B[i := give_back xs b n ys])) = {f \<in> set (all_used B). fst f \<noteq> b}"
    using give_back_used [OF ok i(1) bs] by blast
  from heap_shows_remove [OF sh this S'(4)] have "heap_sim S' (A(p := None))"
    using S'(2) b(2) unfolding heap_sim_def by blast
  then show thesis using that S'(1,3) b(2) by (simp add: wm_heap_caps_free_def)
qed

text \<open>The successful case of an allocation, in terms of the blocks in use.\<close>

lemma alloc_step_used:
  assumes ok: "hs_ok S B us" and st: "alloc_step S B us I n caps p S'" and p: "p \<noteq> 0" and I: "\<forall>i \<in> I. i < length B"
  obtains b t B' us' where "p = b + 24" and "n + 24 \<le> t" and "hs_ok S' B' us'" and "same_layout S S'"
    and "set (all_used B') = insert (b, t) (set (all_used B))" and "b \<notin> fst ` set (all_used B)"
    and "\<And>f. f \<in> set (all_used B) \<Longrightarrow> payload (hs_mem S') f = payload (hs_mem S) f"
proof -
  obtain i b k xs ys where a: "i \<in> I" "p = b + 24" "heap_need n \<le> k" "B ! i = xs @ (b, k, False) # ys"
    "hs_ok S' (B[i := xs @ cut_block b k (heap_need n) @ ys]) (b # us)" "same_layout S S'"
    "\<forall>f \<in> set (all_used B). payload (hs_mem S') f = payload (hs_mem S) f"
    using st p unfolding alloc_step_def by blast
  have i: "i < length B" using I a(1) by blast
  have "n + 24 \<le> taken k (heap_need n)" using heap_need(1) [of n] a(3) by (simp add: taken_def)
  moreover have "set (all_used (B[i := xs @ cut_block b k (heap_need n) @ ys])) = insert (b, taken k (heap_need n)) (set (all_used B))"
    using all_used_split [OF i] all_used_update [OF i] a(4) by (auto simp: cut_block_def taken_def)
  moreover have "b \<notin> fst ` set (all_used B)" using ok a(5) by (auto simp: hs_ok_def)
  ultimately show thesis using that a(2,5-7) by blast
qed

lemma alloc_sim:
  assumes ok: "hs_ok S B us" and sh: "heap_shows S B A" and n: "n < 4294967296"
  obtains r S' A' where "wm_heap_caps_alloc_tracing S n caps file line = Done (r, S')" and "alloc_map_step A n r A'"
    and "heap_sim S' A'" and "same_layout S S'"
proof (cases "n = 0")
  case True
  then show thesis using that [of 0 S A] ok sh by (auto simp: wm_heap_caps_alloc_tracing_def alloc_map_step_def heap_sim_def)
next
  case False
  let ?caps = "if caps = 0 then 1 else caps"
  have I: "\<forall>i \<in> set [0..<length (hs_soc S)]. i < length B" using hs_ok_length [OF ok] by simp
  have n0: "0 < n" using False by simp
  obtain r S' where r: "caps_alloc_loop S [0..<length (hs_soc S)] n ?caps file line = Done (r, S')"
    "alloc_step S B us (set [0..<length (hs_soc S)]) n ?caps r S'"
    using caps_alloc_loop_spec [OF ok n0 n I] by blast
  have run: "wm_heap_caps_alloc_tracing S n caps file line = Done (r, S')"
    using r(1) False by (simp add: wm_heap_caps_alloc_tracing_def)
  show thesis
  proof (cases "r = 0")
    case True
    then have "S' = S" using r(2) by (auto simp: alloc_step_def)
    then show thesis using that [OF run, of A] True ok sh by (auto simp: alloc_map_step_def heap_sim_def)
  next
    case r0: False
    obtain b t B' us' where a: "r = b + 24" "n + 24 \<le> t" "hs_ok S' B' us'" "same_layout S S'"
      "set (all_used B') = insert (b, t) (set (all_used B))" "b \<notin> fst ` set (all_used B)"
      "\<And>f. f \<in> set (all_used B) \<Longrightarrow> payload (hs_mem S') f = payload (hs_mem S) f"
      using alloc_step_used [OF ok r(2) r0 I] by blast
    have "alloc_map_step A n r (A(b + 24 \<mapsto> payload (hs_mem S') (b, t)))"
      using heap_shows_add(2) [OF a(3) sh a(5-7) a(2)] n0 a(1) unfolding alloc_map_step_def by blast
    moreover have "heap_sim S' (A(b + 24 \<mapsto> payload (hs_mem S') (b, t)))"
      using heap_shows_add(1) [OF a(3) sh a(5-7)] a(3) unfolding heap_sim_def by blast
    ultimately show thesis using that [OF run] a(4) by blast
  qed
qed

lemma bex_single: "x \<in> A \<Longrightarrow> P x \<Longrightarrow> (\<And>y. y \<in> A \<Longrightarrow> P y \<Longrightarrow> y = x) \<Longrightarrow> (\<exists>y \<in> A. P y \<and> Q y) = Q x"
  by blast

lemma store_sim:
  assumes ok: "hs_ok S B us" and sh: "heap_shows S B A" and p: "A p = Some cs" and fit: "off + length bs \<le> length cs"
  shows "heap_sim (S\<lparr>hs_mem := splice (hs_mem S) (p + off) bs\<rparr>) (A(p \<mapsto> overlay cs off bs))"
proof -
  let ?S = "S\<lparr>hs_mem := splice (hs_mem S) (p + off) bs\<rparr>"
  obtain b n where b: "(b, n) \<in> set (all_used B)" "p = b + 24" "cs = payload (hs_mem S) (b, n)"
    using sh p unfolding heap_shows_def by fastforce
  have f: "off + length bs \<le> n - 24" using fit b(3) by simp
  have "heap_shows ?S B (A(p \<mapsto> overlay cs off bs))" unfolding heap_shows_def
  proof (intro allI)
    fix q ds
    show "((A(p \<mapsto> overlay cs off bs)) q = Some ds) = (\<exists>g \<in> set (all_used B). q = fst g + 24 \<and> ds = payload (hs_mem ?S) g)"
    proof (cases "q = p")
      case True
      have "g = (b, n)" if "g \<in> set (all_used B)" "p = fst g + 24" for g
        using used_unique [OF ok b(1), of "snd g"] that b(2) by (cases g) auto
      then have "(\<exists>g \<in> set (all_used B). q = fst g + 24 \<and> ds = payload (hs_mem ?S) g) = (ds = payload (hs_mem ?S) (b, n))"
        unfolding True by (intro bex_single [OF b(1)]) (use b(2) in auto)
      moreover have "payload (hs_mem ?S) (b, n) = overlay cs off bs"
        using hs_ok_store(2) [OF ok b(1) f b(1)] b(2,3) by simp
      ultimately show ?thesis using True by auto
    next
      case False
      have "payload (hs_mem ?S) g = payload (hs_mem S) g" if "g \<in> set (all_used B)" "q = fst g + 24" for g
        using hs_ok_store(2) [OF ok b(1) f that(1)] that(2) False b(2) by auto
      then show ?thesis using sh False unfolding heap_shows_def by (metis fun_upd_apply)
    qed
  qed
  moreover have "hs_ok ?S B us" using hs_ok_store(1) [OF ok b(1) f] b(2) by simp
  ultimately show ?thesis unfolding heap_sim_def by blast
qed

lemma sub32_24 [simp]: "b + 24 < 4294967296 \<Longrightarrow> sub32 (b + 24) 24 = b"
  by (simp add: sub32_id)

text \<open>The header of a block in use.\<close>

lemma used_header:
  assumes ok: "hs_ok S B us" and b: "(b, n) \<in> set (all_used B)"
  obtains i where "heap_of S (blk_heap (hs_mem S) b) = Some i" and "blk_size (hs_mem S) b = n + 2147483648" and "n < 2147483648"
    and "mm_bit (hs_at S i) = 2147483648" and "b + 24 < 4294967296" and "hg_struct (hs_glob S) = 24"
proof -
  obtain i where i: "i < length B" "(b, n, True) \<in> set (B ! i)" "heap_live (hs_at S i)" "24 \<le> n" "b + n < 4294967296"
    using used_at [OF ok b] by metis
  have r: "region_ok (hs_mem S) (hs_at S i) (B ! i)" by (rule hs_ok_region [OF ok i(1,3)])
  have "mm_size (hs_at S i) < 2147483648" using hs_ok_static [OF ok] hs_ok_length [OF ok] i by (auto simp: static_ok_def)
  then have "n < 2147483648" using region_block [OF r i(2)] by linarith
  moreover have "heap_of S (blk_heap (hs_mem S) b) = Some i" using region_used(2) [OF r i(2)] heap_of_at [OF ok i(1)] by simp
  ultimately show thesis using that region_used(1) [OF r i(2)] r i ok by (auto simp: region_ok_def hs_ok_def)
qed

lemma alloc_map_step_kept: "alloc_map_step A n r A' \<Longrightarrow> A p \<noteq> None \<Longrightarrow> A' p = A p"
  by (auto simp: alloc_map_step_def fresh_block_def)

text \<open>The bytes that move: the old contents and, for a larger block, what lies behind them.\<close>

lemma realloc_move_sim:
  assumes sim: "heap_sim S A" and old: "A old = Some cs" and new: "A p = Some bs" and ne: "old \<noteq> p" and n: "n \<le> length bs"
  obtains S' xs where "realloc_move S 2147483648 old p n = Done (p, S')" and "heap_sim S' (A(p \<mapsto> xs, old := None))"
    and "length xs = length bs" and "take (min (length cs) n) xs = take (min (length cs) n) cs"
    and "take (min (length cs + 24) n) xs = mem_slice (hs_mem S) old (min (length cs + 24) n)"
proof -
  obtain B us where ok: "hs_ok S B us" and sh: "heap_shows S B A" using sim by (auto simp: heap_sim_def)
  obtain b k where b: "(b, k) \<in> set (all_used B)" "old = b + 24" "cs = payload (hs_mem S) (b, k)"
    using sh old unfolding heap_shows_def by fastforce
  obtain i where h: "blk_size (hs_mem S) b = k + 2147483648" "k < 2147483648" "b + 24 < 4294967296" "hg_struct (hs_glob S) = 24"
    using used_header [OF ok b(1)] by metis
  have k: "24 \<le> k" using used_at [OF ok b(1)] by metis
  let ?c = "if k \<le> n then k else n"
  let ?bs = "mem_slice (hs_mem S) old ?c" and ?S = "S\<lparr>hs_mem := splice (hs_mem S) p (mem_slice (hs_mem S) old (if k \<le> n then k else n))\<rparr>"
  have len: "length ?bs \<le> length bs" using n by simp
  have sim2: "heap_sim ?S (A(p \<mapsto> overlay bs 0 ?bs))" using store_sim [OF ok sh new, of 0 ?bs] len by simp
  obtain B2 us2 where ok2: "hs_ok ?S B2 us2" "heap_shows ?S B2 (A(p \<mapsto> overlay bs 0 ?bs))" using sim2 by (auto simp: heap_sim_def)
  obtain S' where S': "wm_heap_caps_free ?S old = Done S'" "heap_sim S' (A(p \<mapsto> overlay bs 0 ?bs, old := None))"
    using free_sim [OF ok2, of old] old ne by auto
  have c: "?c = min (length cs + 24) n" using b(3) k by simp
  have run: "realloc_move S 2147483648 old p n = Done (p, S')"
    using S'(1) h b(2) by (cases "k \<le> n") (simp_all add: realloc_move_def Let_def clear_bit31)
  have ov: "take j (overlay bs 0 ?bs) = mem_slice (hs_mem S) old j" if "j \<le> ?c" for j
    using that by (simp add: overlay_def take_mem_slice)
  show thesis
  proof (rule that [OF run S'(2)])
    show "length (overlay bs 0 ?bs) = length bs" using len by (simp add: length_overlay)
    show "take (min (length cs) n) (overlay bs 0 ?bs) = take (min (length cs) n) cs"
      using ov [of "min (length cs) n"] b k by (simp add: payload_def take_mem_slice)
    show "take (min (length cs + 24) n) (overlay bs 0 ?bs) = mem_slice (hs_mem S) old (min (length cs + 24) n)"
      unfolding c [symmetric] by (rule ov) simp
  qed
qed

lemma realloc_sim:
  assumes sim: "heap_sim S A" and n: "0 < n" "n < 4294967296" and old: "A p = Some cs"
  obtains r S' A' where "wm_heap_caps_realloc_tracing S p n caps file line = Done (r, S')" and "heap_sim S' A'"
    and "r = 0 \<and> A' = A \<or> (\<exists>bs. fresh_block A r n bs \<and> A' = (A(p := None))(r \<mapsto> bs) \<and>
      take (min (length cs) n) bs = take (min (length cs) n) cs)"
proof -
  obtain B us where ok: "hs_ok S B us" and sh: "heap_shows S B A" using sim by (auto simp: heap_sim_def)
  obtain b k where b: "(b, k) \<in> set (all_used B)" "p = b + 24" using sh old unfolding heap_shows_def by fastforce
  obtain i where h: "heap_of S (blk_heap (hs_mem S) b) = Some i" "blk_size (hs_mem S) b = k + 2147483648" "k < 2147483648"
    "mm_bit (hs_at S i) = 2147483648" "b + 24 < 4294967296" "hg_struct (hs_glob S) = 24"
    using used_header [OF ok b(1)] by metis
  let ?caps = "if caps = 0 then blk_caps (hs_mem S) b else caps"
  obtain r S1 A1 where a: "wm_heap_caps_alloc_tracing S n ?caps file line = Done (r, S1)" "alloc_map_step A n r A1" "heap_sim S1 A1"
    using alloc_sim [OF ok sh n(2)] by blast
  have run: "wm_heap_caps_realloc_tracing S p n caps file line =
      (if r = 0 then Done (0, S1) else realloc_move S1 2147483648 p r n)"
    using a(1) h b(2) n(1) by (simp add: wm_heap_caps_realloc_tracing_def Let_def and_bit31)
  show thesis
  proof (cases "r = 0")
    case True
    then have "A1 = A" using a(2) by (auto simp: alloc_map_step_def fresh_block_def)
    then show thesis using that [of 0 S1 A] run a(3) True by simp
  next
    case False
    then obtain bs where f: "fresh_block A r n bs" "A1 = A(r \<mapsto> bs)" using a(2) by (auto simp: alloc_map_step_def)
    have ne: "p \<noteq> r" using f(1) old by (auto simp: fresh_block_def)
    obtain S' xs where m: "realloc_move S1 2147483648 p r n = Done (r, S')" "heap_sim S' (A1(r \<mapsto> xs, p := None))"
      "length xs = length bs" "take (min (length cs) n) xs = take (min (length cs) n) cs"
    proof (rule realloc_move_sim [OF a(3)])
      show "A1 p = Some cs" "A1 r = Some bs" using old ne f(2) by simp_all
      show "p \<noteq> r" "n \<le> length bs" using ne f(1) by (simp_all add: fresh_block_def)
    qed blast
    have "fresh_block A r n xs" using f(1) m(3) by (simp add: fresh_block_def)
    moreover have "A1(r \<mapsto> xs, p := None) = (A(p := None))(r \<mapsto> xs)" using f(2) ne by (simp add: fun_upd_twist)
    ultimately show thesis using that [of r S' "(A(p := None))(r \<mapsto> xs)"] run m False by auto
  qed
qed

lemma heap_do_sim:
  assumes sim: "heap_sim S A" and al: "heap_allowed A op"
  shows "\<exists>r S' A'. heap_do file line S op = Done (r, S') \<and> heap_sim S' A' \<and> heap_map_step A op r A'"
proof -
  obtain B us where ok: "hs_ok S B us" and sh: "heap_shows S B A" using sim by (auto simp: heap_sim_def)
  have null: "A 0 = None" using sh by (cases "A 0") (auto simp: heap_shows_def)
  have fr: "\<exists>S'. wm_heap_caps_free S p = Done S' \<and> heap_sim S' (A(p := None))" if "p = 0 \<or> A p \<noteq> None" for p
  proof (cases "p = 0")
    case True
    then have "A(p := None) = A" using null by (simp add: fun_upd_idem)
    then show ?thesis using True sim by (simp add: wm_heap_caps_free_def)
  qed (use free_sim [OF ok sh, of p] that in blast)
  have all: "\<exists>r S' A'. wm_heap_caps_alloc_tracing S n caps file line = Done (r, S') \<and> heap_sim S' A' \<and> alloc_map_step A n r A'"
    if "n < 4294967296" for n caps using alloc_sim [OF ok sh that] by blast
  show ?thesis
  proof (cases op)
    case (HAlloc n caps)
    then show ?thesis using all [of n caps] al by (simp add: heap_do_def)
  next
    case (HRealloc p n caps)
    show ?thesis
    proof (cases "p = 0 \<or> n = 0")
      case True
      then show ?thesis using HRealloc all [of n caps] fr [of p] al
        by (auto simp: heap_do_def wm_heap_caps_realloc_tracing_def)
    next
      case False
      then obtain cs where "A p = Some cs" using al HRealloc by auto
      then show ?thesis using realloc_sim [OF sim, of n p cs] al HRealloc False
        by (simp add: heap_do_def) metis
    qed
  next
    case (HFree p)
    then show ?thesis using fr [of p] al by (auto simp: heap_do_def)
  next
    case (HStore p off bs)
    then show ?thesis using store_sim [OF ok sh] al by (auto simp: heap_do_def split: option.splits)
  qed
qed

end
