(* ===== verification/HeapStart.thy ===== *)
theory HeapStart
  imports HeapUse
begin

text \<open>
  Start-up: a region that is initialised is one free block between its aligned ends, and joins the
  regions that are already there without disturbing them. \<open>wm_heap_init\<close> does this for every region
  but the PSRAM, \<open>wm_heap_append_to_heap\<close> for the PSRAM later.
\<close>

section \<open>One region\<close>

definition align_up :: "nat \<Rightarrow> nat" where
  "align_up a = (a + 7) div 8 * 8"

definition align_down :: "nat \<Rightarrow> nat" where
  "align_down a = a div 8 * 8"

definition init_blocks :: "nat \<Rightarrow> nat \<Rightarrow> hblock list" where
  "init_blocks start len = (let a = align_up start; e = align_down (start + len - 24) in [(a, e - a, False)])"

lemma align_up: "a \<le> align_up a" "align_up a < a + 8" "8 dvd align_up a"
proof -
  have e: "align_up a + (a + 7) mod 8 = a + 7" unfolding align_up_def by (rule div_mult_mod_eq)
  have m: "(a + 7) mod 8 < 8" by (rule mod_less_divisor) simp
  show "a \<le> align_up a" "align_up a < a + 8" using e m by linarith+
  show "8 dvd align_up a" unfolding align_up_def by (rule dvd_triv_right)
qed

lemma align_down: "align_down a \<le> a" "a < align_down a + 8" "8 dvd align_down a"
proof -
  have e: "align_down a + a mod 8 = a" unfolding align_down_def by (rule div_mult_mod_eq)
  have m: "a mod 8 < 8" by (rule mod_less_divisor) simp
  show "align_down a \<le> a" "a < align_down a + 8" using e m by linarith+
  show "8 dvd align_down a" unfolding align_down_def by (rule dvd_triv_right)
qed

lemma clear_low: "clear_bits a HEAP_BYTE_ALIGNMENT_MASK = align_down a"
  by (simp add: clear_bits_def align_down_def minus_mod_eq_div_mult)

lemma align_up_down: "align_up a = align_down (a + 7)"
  by (simp add: align_up_def align_down_def)

lemma align_up_id: "a mod 8 = 0 \<Longrightarrow> align_up a = a"
  by (auto simp: align_up_def mod_eq_0_iff_dvd elim!: dvdE)

text \<open>The bounds \<open>heap_init\<close> computes.\<close>

definition init_mem :: "memory \<Rightarrow> nat \<Rightarrow> nat \<Rightarrow> nat \<Rightarrow> memory" where
  "init_mem m h a e = set_next (set_size (set_next (set_size (set_size (set_next m h a) h 0) e 0) e 0) a (sub32 e a)) a e"

lemma heap_init_eq:
  assumes st: "64 \<le> mm_size (hs_at S i)" "mm_start (hs_at S i) + mm_size (hs_at S i) \<le> 4294967296" and g: "hg_struct (hs_glob S) = 24"
  defines "a \<equiv> align_up (mm_start (hs_at S i))" and "e \<equiv> align_down (mm_start (hs_at S i) + mm_size (hs_at S i) - 24)"
  shows "heap_init S i = (hs_set S i
      ((hs_at S i)\<lparr>mm_end := e, mm_min := blk_size (init_mem (hs_mem S) (mm_heap (hs_at S i)) a e) a,
        mm_free := blk_size (init_mem (hs_mem S) (mm_heap (hs_at S i)) a e) a, mm_bit := 2 ^ 31\<rparr>))
      \<lparr>hs_mem := init_mem (hs_mem S) (mm_heap (hs_at S i)) a e\<rparr>"
proof -
  let ?s = "mm_start (hs_at S i)" and ?n = "mm_size (hs_at S i)"
  have a': "(if ?s mod 8 \<noteq> 0 then clear_bits (u32 (?s + (HEAP_BYTE_ALIGNMENT - 1))) HEAP_BYTE_ALIGNMENT_MASK else ?s) = a"
    using st align_up_id [of ?s] by (auto simp: a_def clear_low align_up_down HEAP_BYTE_ALIGNMENT_def)
  have up: "?s \<le> a" "a < ?s + 8" using align_up [of ?s] by (simp_all add: a_def)
  have len: "u32 (a + (if ?s mod 8 \<noteq> 0 then sub32 ?n (sub32 a ?s) else ?n)) = u32 (?s + ?n)"
    using up st align_up_id [of ?s] by (auto simp: a_def sub32_id add.commute)
  have "sub32 (u32 (?s + ?n)) 24 = ?s + ?n - 24"
  proof (cases "?s + ?n = 4294967296")
    case True
    then show ?thesis by (simp add: u32_def sub32_def)
  qed (use st in \<open>simp add: sub32_id\<close>)
  then have e': "clear_bits (sub32 (u32 (?s + ?n)) 24) HEAP_BYTE_ALIGNMENT_MASK = e" by (simp add: clear_low e_def)
  show ?thesis
  proof (cases "?s mod 8 = 0")
    case True
    then have "a = ?s" using a' by simp
    moreover from this have "clear_bits (sub32 (u32 (a + ?n)) 24) HEAP_BYTE_ALIGNMENT_MASK = e" using e' by simp
    ultimately show ?thesis using True g by (simp add: heap_init_def Let_def init_mem_def)
  next
    case False
    then have "clear_bits (u32 (?s + (HEAP_BYTE_ALIGNMENT - 1))) HEAP_BYTE_ALIGNMENT_MASK = a"
      "u32 (a + sub32 ?n (sub32 a ?s)) = u32 (?s + ?n)" using a' len by simp_all
    then show ?thesis using False g e' by (simp add: heap_init_def Let_def init_mem_def)
  qed
qed

lemma region_init:
  assumes st: "64 \<le> mm_size mm" "mm_start mm + mm_size mm \<le> 4294967296" "mm_size mm < 2147483648" "0 < mm_start mm"
    and out: "outside (mm_heap mm) mm" and h: "mm_heap mm + 24 \<le> 4294967296"
    and a_def: "a = align_up (mm_start mm)" and e_def: "e = align_down (mm_start mm + mm_size mm - 24)"
    and m'_def: "m' = init_mem m (mm_heap mm) a e"
  shows "blk_size m' a = e - a" and "heads_only m m' {mm_heap mm, a, e}"
    and "mm_start mm \<le> a" and "a + 24 \<le> e" and "e + 24 \<le> mm_start mm + mm_size mm"
    and "a < mm_start mm + 8" and "mm_start mm + mm_size mm < e + 32"
    and "layout mm' = layout (mm\<lparr>mm_end := e, mm_bit := 2147483648\<rparr>) \<Longrightarrow> mm_free mm' = e - a \<Longrightarrow> mm_min mm' = e - a \<Longrightarrow>
      region_ok m' mm' (init_blocks (mm_start mm) (mm_size mm))"
proof -
  let ?h = "mm_heap mm"
  show b: "mm_start mm \<le> a" "a + 24 \<le> e" "e + 24 \<le> mm_start mm + mm_size mm"
    "a < mm_start mm + 8" "mm_start mm + mm_size mm < e + 32"
    using align_up [of "mm_start mm"] align_down [of "mm_start mm + mm_size mm - 24"] st by (simp_all add: a_def e_def)
  have d: "8 dvd a" "8 dvd e" using align_up(3) align_down(3) by (simp_all add: a_def e_def)
  have ap: "?h + 24 \<le> a \<or> e + 24 \<le> ?h" using out b by (auto simp: outside_def)
  have e32: "sub32 e a = e - a" "u32 (e - a) = e - a" "u32 a = a" "u32 e = e" using b st by (simp_all add: sub32_id)
  have f: "blk_next m' ?h = a" "blk_size m' ?h = 0" "blk_size m' a = e - a" "blk_next m' a = e" "blk_next m' e = 0"
    using ap b e32 by (auto simp: m'_def init_mem_def)
  show "blk_size m' a = e - a" by (rule f(3))
  show "heads_only m m' {?h, a, e}" unfolding m'_def init_mem_def by (intro heads_only_step heads_only_refl) auto
  assume l: "layout mm' = layout (mm\<lparr>mm_end := e, mm_bit := 2147483648\<rparr>)" and fr: "mm_free mm' = e - a" "mm_min mm' = e - a"
  have "g (layout mm') = g (layout (mm\<lparr>mm_end := e, mm_bit := 2147483648\<rparr>))" for g :: "wm_memory \<Rightarrow> nat" using l by simp
  from this [of mm_start] this [of mm_size] this [of mm_end] this [of mm_heap] this [of mm_bit]
  have l': "mm_start mm' = mm_start mm" "mm_size mm' = mm_size mm" "mm_end mm' = e" "mm_heap mm' = ?h" "mm_bit mm' = 2147483648"
    by (simp_all add: layout_def)
  have bl: "init_blocks (mm_start mm) (mm_size mm) = [(a, e - a, False)]" by (simp add: init_blocks_def a_def e_def Let_def)
  have "free_list m' ?h [(a, e - a)] a e" using f b ap st h by (auto simp: free_list_def)
  moreover have "8 dvd e - a" using d b(2) by (intro dvd_diff_nat)
  ultimately show "region_ok m' mm' (init_blocks (mm_start mm) (mm_size mm))"
    unfolding region_ok_def bl l' using b d f fr
    by (intro conjI exI [of _ a]) (simp_all add: coalesced_def)
qed

section \<open>A region that joins\<close>

lemma static_okD:
  assumes "static_ok used soc" and "i < length soc"
  shows "apart used (mm_heap (soc ! i))"
    and "j < length soc \<Longrightarrow> i \<noteq> j \<Longrightarrow> apart (mm_heap (soc ! i)) (mm_heap (soc ! j))"
    and "mm_heap (soc ! i) + 24 \<le> 4294967296"
    and "heap_live (soc ! i) \<Longrightarrow> outside used (soc ! i)"
    and "heap_live (soc ! i) \<Longrightarrow> j < length soc \<Longrightarrow> outside (mm_heap (soc ! j)) (soc ! i)"
    and "j < length soc \<Longrightarrow> i \<noteq> j \<Longrightarrow> heap_live (soc ! i) \<Longrightarrow> heap_live (soc ! j) \<Longrightarrow>
      mm_start (soc ! i) + mm_size (soc ! i) \<le> mm_start (soc ! j) \<or> mm_start (soc ! j) + mm_size (soc ! j) \<le> mm_start (soc ! i)"
    and "heap_live (soc ! i) \<Longrightarrow> 0 < mm_start (soc ! i) \<and> 64 \<le> mm_size (soc ! i) \<and> mm_start (soc ! i) + mm_size (soc ! i) \<le> 4294967296 \<and>
      mm_size (soc ! i) < 2147483648"
  using assms unfolding static_ok_def by blast+

lemma used_node:
  assumes ok: "hs_ok S B us" and q: "q \<in> set us"
  shows "\<exists>j. j < length B \<and> heap_live (hs_at S j) \<and> q \<in> heap_nodes S B j"
proof -
  have "q \<in> fst ` set (all_used B)" using ok q by (simp add: hs_ok_def)
  then obtain n j where j: "j < length B" "(q, n, True) \<in> set (B ! j)" by (auto simp: set_all_used)
  then have "q \<in> heap_nodes S B j" by (force simp: heap_nodes_def region_nodes_def)
  then show ?thesis using j hs_ok_block_live [OF ok j] by blast
qed

lemma free_total_join:
  assumes "i < length soc" and "\<not> heap_live (soc ! i)" and "heap_live mm"
  shows "free_total (soc[i := mm]) = free_total soc + mm_free mm"
proof -
  have "free_total soc = free_total (take i soc @ soc ! i # drop (Suc i) soc)"
    using id_take_nth_drop [OF assms(1)] by simp
  then show ?thesis using assms by (simp add: upd_conv_take_nth_drop free_total_def)
qed

lemma hs_ok_join:
  assumes ok: "hs_ok S B us" and i: "i < length B" "\<not> heap_live (hs_at S i)" and mm: "heap_live mm"
    and soc: "hs_soc S' = (hs_soc S)[i := mm]" "mm_heap mm = mm_heap (hs_at S i)"
    and fixd: "hs_used S' = hs_used S" "hg_struct (hs_glob S') = hg_struct (hs_glob S)"
    and st: "static_ok (hs_used S) (hs_soc S')"
    and r: "region_ok (hs_mem S') mm bs" and nu: "used_areas bs = []"
    and h: "heads_only (hs_mem S) (hs_mem S') (insert (mm_heap mm) I)"
    and I: "\<And>p. p \<in> I \<Longrightarrow> mm_start mm \<le> p \<and> p + 24 \<le> mm_start mm + mm_size mm"
    and fr: "hg_free (hs_glob S') = u32 (hg_free (hs_glob S) + mm_free mm)"
  shows "hs_ok S' (B[i := bs]) us"
proof -
  have il: "i < length (hs_soc S)" using i(1) hs_ok_length [OF ok] by simp
  have Bi: "B ! i = []" using ok i by (simp add: hs_ok_def)
  have at': "hs_at S' j = (if j = i then mm else hs_at S j)" if "j < length B" for j
    using il that by (simp add: soc(1))
  have away: "apart p q" if p: "p \<in> insert (mm_heap mm) I" and q: "q = hs_used S \<or> (\<exists>j. j < length B \<and> heap_live (hs_at S j) \<and> q \<in> heap_nodes S B j)" for p q
  proof (cases "q = hs_used S")
    case True
    have "apart (hs_used S) (mm_heap mm)" "outside (hs_used S) mm"
      using st il mm by (auto simp: static_ok_def soc(1))
    then show ?thesis using p True I outside_apart by (auto intro: apart_sym)
  next
    case False
    then obtain j where j: "j < length B" "heap_live (hs_at S j)" "q \<in> heap_nodes S B j" using q by blast
    have ij: "i \<noteq> j" "j < length (hs_soc S')" "i < length (hs_soc S')" using j i il hs_ok_length [OF ok] soc(1) by auto
    have sj: "hs_soc S' ! j = hs_at S j" "hs_soc S' ! i = mm" using at' [OF j(1)] at' [OF i(1)] ij(1) by simp_all
    have s1: "apart (mm_heap mm) (mm_heap (hs_at S j))"
      using static_okD(2) [OF st ij(3,2,1)] unfolding sj .
    have s2: "outside (mm_heap mm) (hs_at S j)"
      using static_okD(5) [OF st ij(2)] ij(3) j(2) unfolding sj using sj by metis
    have s3: "outside (mm_heap (hs_at S j)) mm"
      using static_okD(5) [OF st ij(3)] ij(2) mm unfolding sj using sj by metis
    have s4: "mm_start mm + mm_size mm \<le> mm_start (hs_at S j) \<or> mm_start (hs_at S j) + mm_size (hs_at S j) \<le> mm_start mm"
      using static_okD(6) [OF st ij(3,2,1)] mm j(2) unfolding sj by blast
    note s = s1 s2 s3 s4
    note rj = region_node_in [OF hs_ok_region [OF ok j(1,2)], of q]
    have "q = mm_heap (hs_at S j) \<or> q \<in> region_nodes (hs_at S j) (B ! j)" using j(3) by (auto simp: heap_nodes_def)
    then show ?thesis
    proof
      assume "q = mm_heap (hs_at S j)"
      then show ?thesis using p s(1) outside_apart [OF s(3)] I by (auto intro: apart_sym)
    next
      assume qj: "q \<in> region_nodes (hs_at S j) (B ! j)"
      show ?thesis
      proof (cases "p = mm_heap mm")
        case False
        then have "mm_start mm \<le> p" "p + 24 \<le> mm_start mm + mm_size mm" using I [of p] p by auto
        then show ?thesis using s(4) rj [OF qj] by (auto simp: apart_def)
      qed (use outside_apart [OF s(2) rj [OF qj]] in simp)
    qed
  qed
  have keep: "region_ok (hs_mem S') (hs_at S j) (B ! j)" if j: "j < length B" "heap_live (hs_at S j)" for j
  proof (rule region_ok_heads [OF hs_ok_region [OF ok j] h])
    fix p q assume "p \<in> insert (mm_heap mm) I" "q = mm_heap (hs_at S j) \<or> q \<in> region_nodes (hs_at S j) (B ! j)"
    then show "apart p q" using away j by (auto simp: heap_nodes_def)
  qed
  have un: "apart p q" if "p \<in> insert (mm_heap mm) I" "q = hs_used S \<or> q \<in> set us" for p q
  proof (rule away [OF that(1)])
    show "q = hs_used S \<or> (\<exists>j. j < length B \<and> heap_live (hs_at S j) \<and> q \<in> heap_nodes S B j)"
      using that(2) used_node [OF ok] by blast
  qed
  have kn: "blk_next (hs_mem S') q = blk_next (hs_mem S) q" "blk_size (hs_mem S') q = blk_size (hs_mem S) q"
    if "q = hs_used S \<or> q \<in> set us" for q
    by (rule heads_only_node [OF h un [OF _ that]], assumption)+
  have "path (hs_mem S') (hs_used S) us 0" using ok path_cong [of "hs_used S" us "hs_mem S'" "hs_mem S" 0] kn(1) by (simp add: hs_ok_def)
  moreover have "all_used (B[i := bs]) = all_used B" using all_used_split [OF i(1)] all_used_update [OF i(1)] Bi nu by simp
  moreover have "u32 (hg_free (hs_glob S) + mm_free mm) = u32 (free_total (hs_soc S'))"
    using ok free_total_join [OF il i(2) mm] by (simp add: hs_ok_def soc(1) u32_add)
  moreover have "\<forall>j < length B. if heap_live ((hs_soc S)[i := mm] ! j)
      then region_ok (hs_mem S') ((hs_soc S)[i := mm] ! j) (B[i := bs] ! j) else B[i := bs] ! j = []"
  proof (intro allI impI)
    fix j assume j: "j < length B"
    show "if heap_live ((hs_soc S)[i := mm] ! j)
      then region_ok (hs_mem S') ((hs_soc S)[i := mm] ! j) (B[i := bs] ! j) else B[i := bs] ! j = []"
      using j keep [OF j] r mm at' [OF j] il i(1) ok unfolding soc(1) by (cases "j = i") (auto simp: hs_ok_def)
  qed
  ultimately show ?thesis using ok st kn(2) [of "hs_used S"] fr fixd unfolding hs_ok_def by (simp add: soc(1))
qed

text \<open>A region without a used block is again what \<open>heap_init\<close> made of it.\<close>

lemma region_whole:
  assumes r: "region_ok m mm bs" and nu: "used_areas bs = []" and st: "64 \<le> mm_size mm"
  shows "bs = init_blocks (mm_start mm) (mm_size mm)"
proof -
  obtain lo where lo: "tiled lo bs (mm_end mm)" "mm_start mm \<le> lo \<and> lo < mm_start mm + 8" "8 dvd lo" using r by (auto simp: region_ok_def)
  have e: "mm_end mm + 24 \<le> mm_start mm + mm_size mm" "mm_start mm + mm_size mm < mm_end mm + 32" "8 dvd mm_end mm"
    "coalesced bs" using r by (auto simp: region_ok_def)
  have mult: "x = y" if "8 dvd x" "8 dvd y" "x < y + 8" "y < x + 8" for x y :: nat using that by (auto elim!: dvdE)
  have "lo = align_up (mm_start mm)"
    by (rule mult [OF lo(3) align_up(3)]) (use lo(2) align_up(1,2) [of "mm_start mm"] in linarith)+
  moreover have "mm_end mm = align_down (mm_start mm + mm_size mm - 24)"
    by (rule mult [OF e(3) align_down(3)]) (use e(1,2) align_down(1,2) [of "mm_start mm + mm_size mm - 24"] in linarith)+
  moreover have "bs = [(lo, mm_end mm - lo, False)]"
    by (rule no_used_one_block [OF lo(1) e(4) nu]) (use lo(2) e(1,2) st in linarith)
  ultimately show ?thesis by (simp add: init_blocks_def Let_def)
qed

section \<open>Start-up of all regions\<close>

definition mark_invalid :: "wm_memory \<Rightarrow> wm_memory" where
  "mark_invalid mm = mm\<lparr>mm_caps := mm_caps mm OR 1048576\<rparr>"

text \<open>The regions as they look while the first \<open>i\<close> of them are started.\<close>

definition boot_view :: "nat \<Rightarrow> heap_sys \<Rightarrow> heap_sys" where
  "boot_view i S = S\<lparr>hs_soc := take i (hs_soc S) @ map mark_invalid (drop i (hs_soc S))\<rparr>"

definition start_blocks :: "wm_memory \<Rightarrow> hblock list" where
  "start_blocks mm = (if heap_live mm then init_blocks (mm_start mm) (mm_size mm) else [])"

lemma not_live_mark [simp]: "\<not> heap_live (mark_invalid mm)"
proof -
  have "1048576 AND (c OR 1048576) = (1048576 :: nat)" for c :: nat
    by (rule bit_eqI) (auto simp: bit_and_iff bit_or_iff)
  then show ?thesis by (simp add: heap_live_def mark_invalid_def)
qed

lemma mark_same [simp]: "mm_start (mark_invalid mm) = mm_start mm" "mm_size (mark_invalid mm) = mm_size mm"
  "mm_heap (mark_invalid mm) = mm_heap mm" "mm_name (mark_invalid mm) = mm_name mm"
  by (simp_all add: mark_invalid_def)

lemma mark_mark [simp]: "mark_invalid (mark_invalid mm) = mark_invalid mm"
  by (simp add: mark_invalid_def or.assoc)

text \<open>Fewer regions in use, the same places.\<close>

lemma static_ok_mono:
  assumes st: "static_ok used soc" and len: "length soc' = length soc"
    and same: "\<And>i. i < length soc \<Longrightarrow> mm_heap (soc' ! i) = mm_heap (soc ! i) \<and> mm_start (soc' ! i) = mm_start (soc ! i) \<and>
      mm_size (soc' ! i) = mm_size (soc ! i) \<and> (heap_live (soc' ! i) \<longrightarrow> heap_live (soc ! i))"
  shows "static_ok used soc'"
  using st same unfolding static_ok_def outside_def len by simp

lemma hs_at_set [simp]: "i < length (hs_soc S) \<Longrightarrow> hs_at (hs_set S i mm) i = mm"
  by (simp add: hs_set_def)

lemma heap_start_facts:
  assumes i: "i < length (hs_soc S)" and st: "64 \<le> mm_size (hs_at S i)" "mm_start (hs_at S i) + mm_size (hs_at S i) \<le> 4294967296"
    and g: "hg_struct (hs_glob S) = 24" and mm: "mm = hs_at S i" and S': "S' = heap_start S i"
    and a: "a = align_up (mm_start mm)" and e: "e = align_down (mm_start mm + mm_size mm - 24)"
    and sz: "blk_size (init_mem (hs_mem S) (mm_heap mm) a e) a = e - a"
  shows "hs_soc S' = (hs_soc S)[i := hs_at S' i]" and "layout (hs_at S' i) = layout (mm\<lparr>mm_end := e, mm_bit := 2147483648\<rparr>)"
    and "mm_free (hs_at S' i) = e - a" and "mm_min (hs_at S' i) = e - a" and "mm_caps (hs_at S' i) = mm_caps mm"
    and "mm_start (hs_at S' i) = mm_start mm" "mm_size (hs_at S' i) = mm_size mm" "mm_heap (hs_at S' i) = mm_heap mm"
    and "mm_name (hs_at S' i) = mm_name mm"
    and "hs_mem S' = init_mem (hs_mem S) (mm_heap mm) a e" and "hs_used S' = hs_used S" and "hg_struct (hs_glob S') = 24"
    and "hg_free (hs_glob S') = u32 (hg_free (hs_glob S) + mm_free (hs_at S' i))"
proof -
  let ?T = "hs_set S i (heap_zero (hs_at S i))"
  have T: "hs_at ?T i = heap_zero mm" "hs_mem ?T = hs_mem S" "hs_glob ?T = hs_glob S" "hs_used ?T = hs_used S"
    "hs_soc ?T = (hs_soc S)[i := heap_zero mm]" using i mm by (simp_all add: hs_set_def)
  have z: "mm_start (heap_zero mm) = mm_start mm" "mm_size (heap_zero mm) = mm_size mm" "mm_heap (heap_zero mm) = mm_heap mm"
    by (simp_all add: heap_zero_def)
  have I: "heap_init ?T i = (hs_set ?T i ((heap_zero mm)\<lparr>mm_end := e, mm_min := e - a, mm_free := e - a, mm_bit := 2 ^ 31\<rparr>))
      \<lparr>hs_mem := init_mem (hs_mem S) (mm_heap mm) a e\<rparr>"
    using heap_init_eq [of ?T i] st g sz i unfolding T(1-4) a e mm by (simp add: z [unfolded mm])
  let ?mm = "(heap_zero mm)\<lparr>mm_end := e, mm_min := e - a, mm_free := e - a, mm_bit := 2147483648\<rparr>"
  have R: "hs_soc S' = (hs_soc S)[i := ?mm]" "hs_mem S' = init_mem (hs_mem S) (mm_heap mm) a e" "hs_used S' = hs_used S"
    "hg_struct (hs_glob S') = hg_struct (hs_glob S)" "hg_free (hs_glob S') = u32 (hg_free (hs_glob S) + (e - a))"
    unfolding S' heap_start_def I Let_def using i by (simp_all add: hs_set_def)
  have at: "hs_at S' i = ?mm" using R(1) i by simp
  show "hs_soc S' = (hs_soc S)[i := hs_at S' i]" using R(1) at by simp
  show "layout (hs_at S' i) = layout (mm\<lparr>mm_end := e, mm_bit := 2147483648\<rparr>)" "mm_free (hs_at S' i) = e - a"
    "mm_min (hs_at S' i) = e - a" "mm_caps (hs_at S' i) = mm_caps mm" "mm_start (hs_at S' i) = mm_start mm"
    "mm_size (hs_at S' i) = mm_size mm" "mm_heap (hs_at S' i) = mm_heap mm" "mm_name (hs_at S' i) = mm_name mm"
    unfolding at by (simp_all add: layout_def heap_zero_def)
  show "hs_mem S' = init_mem (hs_mem S) (mm_heap mm) a e" "hs_used S' = hs_used S" "hg_struct (hs_glob S') = 24"
    using R(2-4) g by simp_all
  show "hg_free (hs_glob S') = u32 (hg_free (hs_glob S) + mm_free (hs_at S' i))" using R(5) at by simp
qed

lemma boot_view_at: "j < length (hs_soc S) \<Longrightarrow> hs_at (boot_view i S) j = (if j < i then hs_at S j else mark_invalid (hs_at S j))"
  by (simp add: boot_view_def nth_append)

lemma boot_view_sel [simp]: "hs_mem (boot_view i S) = hs_mem S" "hs_used (boot_view i S) = hs_used S"
  "hs_glob (boot_view i S) = hs_glob S" "length (hs_soc (boot_view i S)) = length (hs_soc S)"
  by (simp_all add: boot_view_def)

lemma boot_view_step:
  assumes "i < length (hs_soc S)" and "hs_soc S' = (hs_soc S)[i := mm]"
  shows "hs_soc (boot_view (Suc i) S') = (hs_soc (boot_view i S))[i := mm]"
  using assms by (simp add: boot_view_def take_Suc_conv_app_nth list_update_append upd_conv_take_nth_drop drop_map [symmetric] Cons_nth_drop_Suc [symmetric])

text \<open>What holds when the first \<open>i\<close> regions are started.\<close>

definition booting :: "nat \<Rightarrow> heap_sys \<Rightarrow> bool" where
  "booting i S \<longleftrightarrow> static_ok (hs_used S) (hs_soc S) \<and> (\<forall>j. i \<le> j \<longrightarrow> j < length (hs_soc S) \<longrightarrow> heap_live (hs_at S j)) \<and>
     hs_ok (boot_view i S) (map start_blocks (hs_soc (boot_view i S))) []"

lemma booting_skip:
  assumes b: "booting i S" and i: "i < length (hs_soc S)"
  shows "booting (Suc i) (hs_set S i (mark_invalid (hs_at S i)))"
proof -
  let ?S' = "hs_set S i (mark_invalid (hs_at S i))"
  have soc: "hs_soc ?S' = (hs_soc S)[i := mark_invalid (hs_at S i)]" by (simp add: hs_set_def)
  have "hs_soc (boot_view (Suc i) ?S') = hs_soc (boot_view i S)"
    using boot_view_at [OF i, of i] list_update_id [of "hs_soc (boot_view i S)" i] unfolding boot_view_step [OF i soc] by simp
  then have "boot_view (Suc i) ?S' = boot_view i S" by (simp add: boot_view_def hs_set_def)
  moreover have "static_ok (hs_used S) (hs_soc ?S')"
    by (rule static_ok_mono [of _ "hs_soc S"]) (use b i in \<open>auto simp: booting_def soc nth_list_update\<close>)
  ultimately show ?thesis using b i unfolding booting_def by (simp add: soc) (simp add: hs_set_def)
qed

lemma booting_start:
  assumes b: "booting i S" and i: "i < length (hs_soc S)"
  shows "booting (Suc i) (heap_start S i)"
proof -
  let ?mm = "hs_at S i" and ?V = "boot_view i S" and ?S' = "heap_start S i" and ?V' = "boot_view (Suc i) (heap_start S i)"
  define a where "a = align_up (mm_start ?mm)"
  define e where "e = align_down (mm_start ?mm + mm_size ?mm - 24)"
  have st: "static_ok (hs_used S) (hs_soc S)" and l: "heap_live ?mm" and ok: "hs_ok ?V (map start_blocks (hs_soc ?V)) []"
    using b i by (auto simp: booting_def)
  note d = static_okD(7) [OF st i l] and out = static_okD(5) [OF st i l i] and hp = static_okD(3) [OF st i]
  have sz: "64 \<le> mm_size ?mm" "mm_start ?mm + mm_size ?mm \<le> 4294967296" "mm_size ?mm < 2147483648" "0 < mm_start ?mm" using d by blast+
  note R = region_init [OF sz out hp a_def e_def refl [of "init_mem (hs_mem S) (mm_heap ?mm) a e"]]
  have g: "hg_struct (hs_glob S) = 24" using ok by (simp add: hs_ok_def)
  note F = heap_start_facts [OF i sz(1,2) g refl refl a_def e_def R(1)]
  have live: "heap_live (hs_at ?S' i)" using F(5) l by (simp add: heap_live_def)
  have soc: "hs_soc ?V' = (hs_soc ?V)[i := hs_at ?S' i]" by (rule boot_view_step [OF i F(1)])
  have r: "region_ok (hs_mem ?V') (hs_at ?S' i) (init_blocks (mm_start ?mm) (mm_size ?mm))"
    using R(8) [OF F(2-4)] F(10) by simp
  have at: "mm_heap (hs_at ?S' j) = mm_heap (hs_at S j) \<and> mm_start (hs_at ?S' j) = mm_start (hs_at S j) \<and>
      mm_size (hs_at ?S' j) = mm_size (hs_at S j) \<and> (heap_live (hs_at ?S' j) \<longrightarrow> heap_live (hs_at S j))" if "j < length (hs_soc S)" for j
    using F(1,6-8) l that by (cases "j = i") (metis nth_list_update_neq)+
  have len: "length (hs_soc ?S') = length (hs_soc S)" using F(1) by (metis length_list_update)
  have st1: "static_ok (hs_used S) (hs_soc ?S')" by (rule static_ok_mono [OF st len at])
  have st2: "static_ok (hs_used S) (hs_soc ?V')"
    by (rule static_ok_mono [OF st1]) (simp_all add: boot_view_at len)
  have "hs_ok ?V' ((map start_blocks (hs_soc ?V))[i := init_blocks (mm_start ?mm) (mm_size ?mm)]) []"
  proof (rule hs_ok_join [OF ok _ _ live soc _ _ _ _ r])
    show "i < length (map start_blocks (hs_soc ?V))" "\<not> heap_live (hs_at ?V i)" using i by (simp_all add: boot_view_at)
    show "mm_heap (hs_at ?S' i) = mm_heap (hs_at ?V i)" using F(8) i by (simp add: boot_view_at)
    show "hs_used ?V' = hs_used ?V" "hg_struct (hs_glob ?V') = hg_struct (hs_glob ?V)" using F(11,12) g by simp_all
    show "static_ok (hs_used ?V) (hs_soc ?V')" using st2 by simp
    show "used_areas (init_blocks (mm_start ?mm) (mm_size ?mm)) = []" by (simp add: init_blocks_def Let_def)
    show "heads_only (hs_mem ?V) (hs_mem ?V') (insert (mm_heap (hs_at ?S' i)) {a, e})" using R(2) F(8,10) by simp
    show "hg_free (hs_glob ?V') = u32 (hg_free (hs_glob ?V) + mm_free (hs_at ?S' i))" using F(13) by simp
    fix p assume "p \<in> {a, e}"
    then show "mm_start (hs_at ?S' i) \<le> p \<and> p + 24 \<le> mm_start (hs_at ?S' i) + mm_size (hs_at ?S' i)"
      using R(3-5) F(6,7) by auto
  qed
  moreover have "map start_blocks (hs_soc ?V') = (map start_blocks (hs_soc ?V))[i := init_blocks (mm_start ?mm) (mm_size ?mm)]"
    unfolding soc using live F(6,7) by (simp add: map_update start_blocks_def)
  moreover have "\<forall>j. Suc i \<le> j \<longrightarrow> j < length (hs_soc S) \<longrightarrow> heap_live (hs_at ?S' j)"
    using b F(1) unfolding booting_def by (metis Suc_le_lessD less_imp_le nat_neq_iff nth_list_update_neq)
  ultimately show ?thesis using st1 F(11) len unfolding booting_def by simp
qed

lemma booting_region: "booting i S \<Longrightarrow> i < length (hs_soc S) \<Longrightarrow> booting (Suc i) (heap_init_region S i)"
  using booting_skip [of i S] booting_start [of i S] unfolding heap_init_region_def mark_invalid_def by simp

lemma length_heap_init_region: "booting i S \<Longrightarrow> i < length (hs_soc S) \<Longrightarrow> length (hs_soc (heap_init_region S i)) = length (hs_soc S)"
  by (simp add: heap_init_region_def heap_start_def heap_init_def hs_set_def Let_def)

lemma booting_all:
  assumes "booting 0 S" and "n \<le> length (hs_soc S)"
  shows "booting n (fold (\<lambda>i S. heap_init_region S i) [0..<n] S) \<and>
    length (hs_soc (fold (\<lambda>i S. heap_init_region S i) [0..<n] S)) = length (hs_soc S)"
  using assms(2)
proof (induction n)
  case (Suc n)
  let ?S = "fold (\<lambda>i S. heap_init_region S i) [0..<n] S"
  have n: "booting n ?S" "length (hs_soc ?S) = length (hs_soc S)" using Suc by simp_all
  have "booting (Suc n) (heap_init_region ?S n)" "length (hs_soc (heap_init_region ?S n)) = length (hs_soc S)"
    using booting_region [OF n(1)] length_heap_init_region [OF n(1)] n(2) Suc.prems by simp_all
  then show ?case by simp
qed (use assms(1) in simp)

text \<open>What the linker and the table of regions have to provide, with the list of used blocks empty.\<close>

definition boot_soc :: "nat \<Rightarrow> nat \<Rightarrow> wm_memory list \<Rightarrow> wm_memory list" where
  "boot_soc bss_end eshram soc = (let soc1 = soc[0 := heap_trim bss_end 0 (soc ! 0)] in soc1[1 := heap_trim eshram 4 (soc1 ! 1)])"

definition boot_ok :: "nat \<Rightarrow> nat \<Rightarrow> heap_sys \<Rightarrow> bool" where
  "boot_ok bss_end eshram S \<longleftrightarrow> 2 \<le> length (hs_soc S) \<and> static_ok (hs_used S) (boot_soc bss_end eshram (hs_soc S)) \<and>
     list_all heap_live (boot_soc bss_end eshram (hs_soc S)) \<and>
     blk_next (hs_mem S) (hs_used S) = 0 \<and> blk_size (hs_mem S) (hs_used S) = 0"

lemma sizeof_aligned: "clear_bits (sizeof_heap_block + (HEAP_BYTE_ALIGNMENT - 1)) HEAP_BYTE_ALIGNMENT_MASK = 24"
  by (simp add: clear_low align_down_def sizeof_heap_block_def HEAP_BYTE_ALIGNMENT_def)

lemma wm_heap_init_ok:
  assumes "boot_ok bss_end eshram S"
  shows "hs_ok (wm_heap_init bss_end eshram S) (map start_blocks (hs_soc (wm_heap_init bss_end eshram S))) []"
proof -
  let ?soc = "boot_soc bss_end eshram (hs_soc S)"
  define X where "X = S\<lparr>hs_soc := ?soc, hs_glob := \<lparr>hg_struct = 24, hg_free = 0, hg_min = 0, hg_allocs = 0, hg_frees = 0\<rparr>\<rparr>"
  have init: "wm_heap_init bss_end eshram S = fold (\<lambda>i S. heap_init_region S i) [0..<length (hs_soc X)] X"
    by (simp add: wm_heap_init_def X_def boot_soc_def Let_def sizeof_aligned)
  have st: "static_ok (hs_used S) ?soc" using assms by (simp add: boot_ok_def)
  have u: "blk_next (hs_mem S) (hs_used S) = 0" "blk_size (hs_mem S) (hs_used S) = 0" using assms by (simp_all add: boot_ok_def)
  have st0: "static_ok (hs_used S) (map mark_invalid ?soc)" by (rule static_ok_mono [OF st]) simp_all
  have nil: "map start_blocks (map mark_invalid ?soc) = replicate (length ?soc) []"
    by (rule nth_equalityI) (simp_all add: start_blocks_def)
  have "free_total (map mark_invalid ?soc) = 0" by (simp add: free_total_def comp_def)
  then have "hs_ok (boot_view 0 X) (map start_blocks (hs_soc (boot_view 0 X))) []"
    using st0 u nil unfolding hs_ok_def boot_view_def X_def all_used_def by (simp add: start_blocks_def)
  then have "booting 0 X" using assms unfolding booting_def X_def by (simp add: boot_ok_def list_all_length)
  from booting_all [OF this order_refl]
  have "booting (length (hs_soc X)) (wm_heap_init bss_end eshram S)" "length (hs_soc (wm_heap_init bss_end eshram S)) = length (hs_soc X)"
    unfolding init by simp_all
  then show ?thesis unfolding booting_def by (simp add: boot_view_def)
qed

end
