(* ===== verification/HeapRun.thy ===== *)
theory HeapRun
  imports HeapStart
begin

text \<open>
  Programs that use an allocator, and what they can rely on. A client decides from the results it
  has seen what to do next; it is well-behaved when, against the abstract allocator, it only does
  what is allowed. The locale says what one step of an implementation has to show; the run of any
  well-behaved client follows.
\<close>

type_synonym heap_client = "nat list \<Rightarrow> heap_op option"

inductive client_map :: "heap_client \<Rightarrow> nat list \<Rightarrow> heap_map \<Rightarrow> bool" for c where
  client_begins: "client_map c [] Map.empty"
| client_goes_on: "client_map c rs A \<Longrightarrow> c rs = Some op \<Longrightarrow> heap_map_step A op r A' \<Longrightarrow> client_map c (rs @ [r]) A'"

inductive_cases client_map_snocE: "client_map c (rs @ [r]) A"
inductive_cases client_map_NilE: "client_map c [] A"

definition client_ok :: "heap_client \<Rightarrow> bool" where
  "client_ok c \<longleftrightarrow> (\<forall>rs A op. client_map c rs A \<longrightarrow> c rs = Some op \<longrightarrow> heap_allowed A op)"

fun client_run ::
  "('s \<Rightarrow> heap_op \<Rightarrow> (nat \<times> 's) hrun) \<Rightarrow> heap_client \<Rightarrow> nat \<Rightarrow> 's \<Rightarrow> nat list \<Rightarrow> (nat list \<times> 's) hrun" where
  "client_run act c 0 S rs = Done (rs, S)"
| "client_run act c (Suc k) S rs =
     (case c rs of
        None \<Rightarrow> Done (rs, S)
      | Some op \<Rightarrow>
          (case act S op of
             Asserts \<Rightarrow> Asserts | Hangs \<Rightarrow> Hangs | Wild \<Rightarrow> Wild
           | Done (r, S') \<Rightarrow> client_run act c k S' (rs @ [r])))"

locale allocator =
  fixes sim :: "'s \<Rightarrow> heap_map \<Rightarrow> bool" and act :: "'s \<Rightarrow> heap_op \<Rightarrow> (nat \<times> 's) hrun"
  assumes step: "sim S A \<Longrightarrow> heap_allowed A op \<Longrightarrow>
    \<exists>r S' A'. act S op = Done (r, S') \<and> sim S' A' \<and> heap_map_step A op r A'"
begin

lemma serves_client:
  assumes "client_ok c" and "client_map c rs A" and "sim S A"
  shows "\<exists>rs' S' A'. client_run act c k S rs = Done (rs', S') \<and> client_map c rs' A' \<and> sim S' A' \<and>
    (c rs' = None \<or> length rs' = length rs + k)"
  using assms(2,3)
proof (induction k arbitrary: S rs A)
  case (Suc k)
  show ?case
  proof (cases "c rs")
    case (Some op)
    then have "heap_allowed A op" using assms(1) Suc.prems(1) unfolding client_ok_def by blast
    then obtain r S' A' where s: "act S op = Done (r, S')" "sim S' A'" "heap_map_step A op r A'"
      using step [OF Suc.prems(2)] by blast
    show ?thesis using Suc.IH [OF client_goes_on [OF Suc.prems(1) Some s(3)] s(2)] Some s(1) by simp
  qed (use Suc.prems in auto)
qed auto

end

text \<open>The blocks in use follow from the results.\<close>

lemma alloc_map_step_dom: "alloc_map_step A n r A' \<Longrightarrow> dom A' = (if r = 0 then dom A else insert r (dom A))"
  by (cases "r = 0") (auto simp: alloc_map_step_def fresh_block_def)

lemma heap_map_step_dom:
  assumes "heap_map_step A op r A'" and "heap_map_step C op r C'" and "dom A = dom C"
  shows "dom A' = dom C'"
proof (cases op)
  case (HRealloc p n caps)
  show ?thesis
  proof (cases "p = 0")
    case True
    then have "alloc_map_step A n r A'" "alloc_map_step C n r C'" using assms HRealloc by simp_all
    from alloc_map_step_dom [OF this(1)] alloc_map_step_dom [OF this(2)] assms(3) show ?thesis by simp
  next
    case False
    have "dom X' = (if n = 0 then dom X - {p} else if r = 0 then dom X else insert r (dom X - {p}))"
      if "heap_map_step X op r X'" for X X'
      using that HRealloc False by (auto simp: fresh_block_def split: if_splits)
    from this [OF assms(1)] this [OF assms(2)] assms(3) show ?thesis by simp
  qed
next
  case (HAlloc n caps)
  then show ?thesis using assms alloc_map_step_dom [of A n r A'] alloc_map_step_dom [of C n r C'] by simp
next
  case (HFree p)
  then show ?thesis using assms by simp
next
  case (HStore p off bs)
  then obtain cs ds where "A' = A(p \<mapsto> cs)" "C' = C(p \<mapsto> ds)" using assms(1,2) by auto
  then show ?thesis using assms(3) by simp
qed

lemma client_map_dom: "client_map c rs A \<Longrightarrow> client_map c rs C \<Longrightarrow> dom A = dom C"
proof (induction arbitrary: C rule: client_map.induct)
  case client_begins
  then show ?case by (auto elim: client_map_NilE)
next
  case (client_goes_on rs A op r A')
  from client_goes_on.prems obtain C0 op' where C: "client_map c rs C0" "c rs = Some op'" "heap_map_step C0 op' r C"
    by (rule client_map_snocE) auto
  have "op' = op" using C(2) client_goes_on.hyps(2) by simp
  then show ?case using heap_map_step_dom [OF client_goes_on.hyps(3)] C(3) client_goes_on.IH [OF C(1)] by blast
qed

section \<open>The regions stay where they are\<close>

definition places :: "wm_memory \<Rightarrow> bytes \<times> nat \<times> nat \<times> nat \<times> nat" where
  "places mm = (mm_name mm, mm_start mm, mm_size mm, mm_caps mm, mm_heap mm)"

lemma places_update:
  assumes "places mm = places (soc ! i)"
  shows "map places (soc[i := mm]) = map places soc"
proof (cases "i < length soc")
  case True
  then have "map places soc ! i = places (soc ! i)" by simp
  then show ?thesis unfolding map_update assms by (metis list_update_id)
qed (simp add: list_update_beyond)

lemma heap_claim_places: "map places (hs_soc (heap_claim S i m b caps file line)) = map places (hs_soc S)"
  unfolding heap_claim_def Let_def hs_set_def
  by (simp add: places_update [of "mm\<lparr>mm_free := x, mm_allocs := y\<rparr>" for mm x y]
    places_update [of "mm\<lparr>mm_free := x, mm_min := z, mm_allocs := y\<rparr>" for mm x y z] places_def)

lemma heap_alloc_places: "heap_alloc_tracing S i n caps file line = Done (r, S') \<Longrightarrow> map places (hs_soc S') = map places (hs_soc S)"
  by (auto simp: heap_alloc_tracing_def Let_def heap_claim_places split: if_splits option.splits prod.splits hrun.splits)

lemma caps_alloc_places: "caps_alloc_loop S is n caps file line = Done (r, S') \<Longrightarrow> map places (hs_soc S') = map places (hs_soc S)"
proof (induction "is" arbitrary: S)
  case (Cons i "is")
  show ?case
  proof (cases "heap_alloc_tracing S i n caps file line")
    case (Done x)
    obtain p S1 where x: "x = (p, S1)" by (cases x)
    show ?thesis using Cons.prems Cons.IH [of S] Cons.IH [of S1] heap_alloc_places [OF Done [unfolded x]] Done x
      by (auto split: if_splits)
  qed (use Cons in \<open>auto split: if_splits\<close>)
qed simp

lemma alloc_places: "wm_heap_caps_alloc_tracing S n caps file line = Done (r, S') \<Longrightarrow> map places (hs_soc S') = map places (hs_soc S)"
  using caps_alloc_places by (auto simp: wm_heap_caps_alloc_tracing_def split: if_splits)

lemma release_places: "heap_release S i m b = Done S' \<Longrightarrow> map places (hs_soc S') = map places (hs_soc S)"
  by (auto simp: heap_release_def Let_def hs_set_def places_def intro!: places_update split: option.splits)

lemma free_places: "wm_heap_caps_free S p = Done S' \<Longrightarrow> map places (hs_soc S') = map places (hs_soc S)"
  by (auto simp: wm_heap_caps_free_def heap_free_def Let_def dest: release_places split: if_splits option.splits)

lemma move_places: "realloc_move S abit old new n = Done (r, S') \<Longrightarrow> map places (hs_soc S') = map places (hs_soc S)"
  by (auto simp: realloc_move_def Let_def dest: free_places split: hrun.splits)

lemma realloc_places: "wm_heap_caps_realloc_tracing S p n caps file line = Done (r, S') \<Longrightarrow> map places (hs_soc S') = map places (hs_soc S)"
  unfolding wm_heap_caps_realloc_tracing_def Let_def
  by (fastforce dest: alloc_places free_places move_places split: if_splits option.splits hrun.splits prod.splits)

lemma heap_do_places: "heap_do file line S op = Done (r, S') \<Longrightarrow> map places (hs_soc S') = map places (hs_soc S)"
  by (cases op) (auto simp: heap_do_def dest: alloc_places free_places realloc_places split: hrun.splits)

text \<open>The heap of the code implements the interface, with its regions in their places.\<close>

interpretation wm_alloc: allocator "\<lambda>S A. heap_sim S A \<and> map places (hs_soc S) = P" "heap_do file line"
  by unfold_locales (metis heap_do_sim heap_do_places)

section \<open>What the memory shows\<close>

lemma heap_sim_contents:
  assumes "heap_sim S A" and "A p = Some cs"
  shows "mem_slice (hs_mem S) p (length cs) = cs"
proof -
  obtain B f where "p = fst f + 24" "cs = payload (hs_mem S) f" "f \<in> set (all_used B)"
    using assms unfolding heap_sim_def heap_shows_def by blast
  then show ?thesis by (simp add: payload_def)
qed

lemma wm_heap_init_sim:
  assumes "boot_ok bss_end eshram S"
  shows "heap_sim (wm_heap_init bss_end eshram S) Map.empty"
proof -
  let ?S = "wm_heap_init bss_end eshram S" and ?B = "map start_blocks (hs_soc (wm_heap_init bss_end eshram S))"
  have ok: "hs_ok ?S ?B []" by (rule wm_heap_init_ok [OF assms])
  then have "set (all_used ?B) = {}" by (simp add: hs_ok_def)
  then show ?thesis using ok unfolding heap_sim_def heap_shows_def by (intro exI [of _ ?B] exI [of _ "[]"]) simp
qed

text \<open>A region of one free block: the list leads from its head over the block to the end.\<close>

definition region_fresh :: "memory \<Rightarrow> wm_memory \<Rightarrow> bool" where
  "region_fresh m mm \<longleftrightarrow>
     (let a = align_up (mm_start mm); e = align_down (mm_start mm + mm_size mm - 24)
      in blk_next m (mm_heap mm) = a \<and> blk_size m a = e - a \<and> blk_next m a = e \<and> mm_end mm = e \<and>
         blk_next m e = 0 \<and> mm_free mm = e - a)"

lemma nothing_used_fresh:
  assumes sim: "heap_sim S Map.empty" and i: "i < length (hs_soc S)" and l: "heap_live (hs_at S i)"
  shows "region_fresh (hs_mem S) (hs_at S i)"
proof -
  obtain B us where ok: "hs_ok S B us" and sh: "heap_shows S B Map.empty" using sim by (auto simp: heap_sim_def)
  have none: "all_used B = []" using sh unfolding heap_shows_def by (metis list.set_intros(1) neq_Nil_conv option.distinct(1))
  have iB: "i < length B" using i hs_ok_length [OF ok] by simp
  have r: "region_ok (hs_mem S) (hs_at S i) (B ! i)" by (rule hs_ok_region [OF ok iB l])
  have nu: "used_areas (B ! i) = []" using none iB by (simp add: all_used_def)
  have "64 \<le> mm_size (hs_at S i)" using static_okD(7) [OF hs_ok_static [OF ok] i l] by blast
  from region_whole [OF r nu this] have B: "B ! i = init_blocks (mm_start (hs_at S i)) (mm_size (hs_at S i))" .
  obtain lo where "tiled lo (B ! i) (mm_end (hs_at S i))" "free_list (hs_mem S) (mm_heap (hs_at S i)) (free_areas (B ! i)) lo (mm_end (hs_at S i))"
    using r by (auto simp: region_ok_def)
  then show ?thesis using r unfolding region_fresh_def B init_blocks_def Let_def
    by (auto simp: region_ok_def free_list_def)
qed

lemma nothing_used_total:
  assumes sim: "heap_sim S Map.empty"
  shows "hg_free (hs_glob S) = u32 (free_total (hs_soc S))" and "blk_next (hs_mem S) (hs_used S) = 0"
    and "blk_size (hs_mem S) (hs_used S) = 0"
proof -
  obtain B us where ok: "hs_ok S B us" and sh: "heap_shows S B Map.empty" using sim by (auto simp: heap_sim_def)
  have none: "all_used B = []" using sh unfolding heap_shows_def by (metis list.set_intros(1) neq_Nil_conv option.distinct(1))
  then show "hg_free (hs_glob S) = u32 (free_total (hs_soc S))" "blk_next (hs_mem S) (hs_used S) = 0"
    "blk_size (hs_mem S) (hs_used S) = 0" using ok by (auto simp: hs_ok_def)
qed

section \<open>The regions after start-up\<close>

definition booted :: "wm_memory \<Rightarrow> wm_memory" where
  "booted mm = (if strcmp_eq (mm_name mm) WM_HEAP_PSRAM_NAME then mark_invalid mm else mm)"

lemma soc_of_update: "hs_soc (S\<lparr>hs_soc := x\<rparr>\<lparr>hs_mem := m\<rparr>) = x"
  by simp

lemma heap_init_soc:
  "\<exists>e n. hs_soc (heap_init S i) = (hs_soc S)[i := (hs_at S i)\<lparr>mm_end := e, mm_min := n, mm_free := n, mm_bit := 2 ^ 31\<rparr>]"
  unfolding heap_init_def Let_def hs_set_def by (intro exI) (rule soc_of_update)

lemma heap_start_soc:
  assumes "i < length (hs_soc S)"
  shows "\<exists>mm. hs_soc (heap_start S i) = (hs_soc S)[i := mm] \<and> places mm = places (hs_at S i)"
proof -
  let ?T = "hs_set S i (heap_zero (hs_at S i))"
  obtain e n where "hs_soc (heap_init ?T i) = (hs_soc ?T)[i := (hs_at ?T i)\<lparr>mm_end := e, mm_min := n, mm_free := n, mm_bit := 2 ^ 31\<rparr>]"
    using heap_init_soc by blast
  then have "hs_soc (heap_start S i) = (hs_soc S)[i := (heap_zero (hs_at S i))\<lparr>mm_end := e, mm_min := n, mm_free := n, mm_bit := 2 ^ 31\<rparr>]"
    using assms by (simp add: heap_start_def Let_def hs_set_def)
  then show ?thesis by (auto simp: places_def heap_zero_def)
qed

lemma heap_init_region_places:
  assumes "i < length (hs_soc S)" and "j < length (hs_soc S)"
  shows "places (hs_at (heap_init_region S i) j) = (if j = i then places (booted (hs_at S i)) else places (hs_at S j))"
    and "length (hs_soc (heap_init_region S i)) = length (hs_soc S)"
proof -
  have "\<exists>mm. hs_soc (heap_init_region S i) = (hs_soc S)[i := mm] \<and> places mm = places (booted (hs_at S i))"
    using heap_start_soc [OF assms(1)] by (auto simp: heap_init_region_def booted_def hs_set_def mark_invalid_def)
  then obtain mm where "hs_soc (heap_init_region S i) = (hs_soc S)[i := mm]" "places mm = places (booted (hs_at S i))" by blast
  then show "places (hs_at (heap_init_region S i) j) = (if j = i then places (booted (hs_at S i)) else places (hs_at S j))"
    "length (hs_soc (heap_init_region S i)) = length (hs_soc S)" using assms by simp_all
qed

lemma heap_init_regions_places:
  assumes "n \<le> length (hs_soc S)" and "j < length (hs_soc S)"
  shows "places (hs_at (fold (\<lambda>i S. heap_init_region S i) [0..<n] S) j) =
      (if j < n then places (booted (hs_at S j)) else places (hs_at S j)) \<and>
    length (hs_soc (fold (\<lambda>i S. heap_init_region S i) [0..<n] S)) = length (hs_soc S)"
  using assms(1)
proof (induction n)
  case (Suc n)
  let ?S = "fold (\<lambda>i S. heap_init_region S i) [0..<n] S"
  have IH: "places (hs_at ?S j) = (if j < n then places (booted (hs_at S j)) else places (hs_at S j))"
    "length (hs_soc ?S) = length (hs_soc S)" using Suc by simp_all
  have eq: "places (booted (hs_at ?S n)) = places (booted (hs_at S n))" if "j = n"
    using IH(1) that by (auto simp: places_def booted_def mark_invalid_def)
  show ?case using heap_init_region_places [of n ?S j] IH eq assms(2) Suc.prems by auto
qed simp

lemma wm_heap_init_places:
  assumes "2 \<le> length (hs_soc S)" and "j < length (hs_soc S)"
  shows "places (hs_at (wm_heap_init bss_end eshram S) j) = places (booted (boot_soc bss_end eshram (hs_soc S) ! j))"
    and "length (hs_soc (wm_heap_init bss_end eshram S)) = length (hs_soc S)"
    and "hs_used (wm_heap_init bss_end eshram S) = hs_used S"
proof -
  let ?soc = "boot_soc bss_end eshram (hs_soc S)"
  define X where "X = S\<lparr>hs_soc := ?soc, hs_glob := \<lparr>hg_struct = 24, hg_free = 0, hg_min = 0, hg_allocs = 0, hg_frees = 0\<rparr>\<rparr>"
  have init: "wm_heap_init bss_end eshram S = fold (\<lambda>i S. heap_init_region S i) [0..<length (hs_soc X)] X"
    by (simp add: wm_heap_init_def X_def boot_soc_def Let_def sizeof_aligned)
  have len: "length ?soc = length (hs_soc S)" by (simp add: boot_soc_def Let_def)
  show "places (hs_at (wm_heap_init bss_end eshram S) j) = places (booted (?soc ! j))"
    "length (hs_soc (wm_heap_init bss_end eshram S)) = length (hs_soc S)"
    using heap_init_regions_places [of "length (hs_soc X)" X j] assms len unfolding init by (simp_all add: X_def)
  have "hs_used (fold (\<lambda>i S. heap_init_region S i) is X) = hs_used X" for "is"
  proof (induction "is" arbitrary: X)
    case (Cons a "is")
    have "hs_used (heap_init_region X a) = hs_used X"
      by (simp add: heap_init_region_def heap_start_def heap_init_def hs_set_def Let_def)
    then show ?case using Cons.IH [of "heap_init_region X a"] by simp
  qed simp
  then show "hs_used (wm_heap_init bss_end eshram S) = hs_used S" unfolding init by (simp add: X_def)
qed

section \<open>The chip's own table\<close>

text \<open>The static data of a program: the heaps and the list of used blocks lie below the end of the
  static data, apart from each other, and both memories have room left.\<close>

definition linked :: "nat \<Rightarrow> nat \<Rightarrow> (nat \<Rightarrow> nat) \<Rightarrow> nat \<Rightarrow> bool" where
  "linked bss_end eshram h used \<longleftrightarrow>
     0x20000000 \<le> bss_end \<and> bss_end + 64 \<le> 0x20028000 \<and> 0x20028000 \<le> eshram \<and> eshram + 68 \<le> 0x20048000 \<and>
     0 < used \<and> used + 24 \<le> bss_end \<and> h 0 + 24 \<le> bss_end \<and> h 1 + 24 \<le> bss_end \<and> h 2 + 24 \<le> bss_end \<and>
     apart used (h 0) \<and> apart used (h 1) \<and> apart used (h 2) \<and> apart (h 0) (h 1) \<and> apart (h 0) (h 2) \<and> apart (h 1) (h 2)"

lemma linked_sym: "linked bss_end eshram h used \<Longrightarrow> apart (h 1) (h 0) \<and> apart (h 2) (h 0) \<and> apart (h 2) (h 1)"
  unfolding linked_def using apart_sym by blast

lemma caps_live: "WM_HEAP_CAP_INVALID AND (11 :: nat) = 0" "WM_HEAP_CAP_INVALID AND (19 :: nat) = 0"
  "WM_HEAP_CAP_INVALID AND (4 :: nat) = 0" "(1 :: nat) OR (2 OR 8) = 11" "(1 :: nat) OR (2 OR 16) = 19"
  by simp_all

definition linked_soc :: "bool \<Rightarrow> nat \<Rightarrow> nat \<Rightarrow> (nat \<Rightarrow> nat) \<Rightarrow> wm_memory list" where
  "linked_soc psram bss_end eshram h =
     [soc_region [0x53, 0x52, 0x41, 0x4D] bss_end (0x20028000 - bss_end) 11 (h 0),
      soc_region [0x44, 0x52, 0x41, 0x4D] eshram (0x20048000 - eshram - 4) 19 (h 1)] @
     (if psram then [soc_region WM_HEAP_PSRAM_NAME 0x30000000 0x800000 4 (h 2)] else [])"

lemma boot_soc_linked:
  assumes "linked bss_end eshram h used"
  shows "boot_soc bss_end eshram (wm_soc_memory psram h) = linked_soc psram bss_end eshram h"
proof -
  have "sub32 bss_end 0x20000000 = bss_end - 0x20000000" "sub32 eshram 0x20028000 = eshram - 0x20028000"
    "sub32 0x28000 (bss_end - 0x20000000) = 0x20028000 - bss_end"
    "sub32 0x20000 (eshram - 0x20028000 + 4) = 0x20048000 - eshram - 4"
    "u32 (bss_end - 0x20000000) = bss_end - 0x20000000" "u32 (eshram - 0x20028000 + 4) = eshram - 0x20028000 + 4"
    using assms unfolding linked_def by (subst sub32_id u32_id; linarith)+
  then show ?thesis
    by (simp add: boot_soc_def linked_soc_def wm_soc_memory_def heap_trim_def soc_region_def Let_def or.assoc caps_live One_nat_def)
qed

lemma wm_soc_boot_ok:
  assumes l: "linked bss_end eshram h (hs_used S)" and soc: "hs_soc S = wm_soc_memory psram h"
    and m: "blk_next (hs_mem S) (hs_used S) = 0" "blk_size (hs_mem S) (hs_used S) = 0"
  shows "boot_ok bss_end eshram S"
proof -
  have live: "heap_live (soc_region nm a n 11 g)" "heap_live (soc_region nm a n 19 g)" "heap_live (soc_region nm a n 4 g)" for nm a n g
    using caps_live by (simp_all add: heap_live_def soc_region_def)
  have s: "mm_start (soc_region nm a n k g) = a" "mm_size (soc_region nm a n k g) = n" "mm_heap (soc_region nm a n k g) = g" for nm a n k g
    by (simp_all add: soc_region_def)
  have "static_ok (hs_used S) (linked_soc psram bss_end eshram h)"
  proof -
    define n k where e: "n = 0x20028000 - bss_end" "k = 0x20048000 - eshram - 4"
    have nk: "bss_end + n = 0x20028000" "eshram + k + 4 = 0x20048000" using l unfolding linked_def e by linarith+
    show ?thesis using l l [THEN linked_sym] nk unfolding static_ok_def linked_soc_def linked_def e [symmetric]
      by (cases psram) (simp_all add: All_less_Suc One_nat_def s live outside_def)
  qed
  then show ?thesis unfolding boot_ok_def soc boot_soc_linked [OF l]
    using m by (simp add: linked_soc_def live wm_soc_memory_def)
qed

section \<open>A second release\<close>

lemma used_find_none:
  assumes "path m s us 0" and "b \<notin> set us" and "0 \<notin> set us"
  shows "used_find m s (blk_next m s) b = Some None"
  using assms
proof (induction us arbitrary: s)
  case Nil
  then show ?case by (simp add: used_find.simps)
next
  case (Cons u us)
  then show ?case by (simp add: used_find.simps [of m s])
qed

lemma second_free:
  assumes ok: "hs_ok S B us" and c: "(b, n) \<in> set (all_used B)" and f: "heap_free S (b + 24) = Done S'"
  shows "heap_free S' (b + 24) = Asserts"
proof -
  obtain i where i: "i < length B" "(b, n, True) \<in> set (B ! i)" "heap_live (hs_at S i)" "b + n < 4294967296" "24 \<le> n" "0 < b"
    using used_at [OF ok c] by metis
  obtain xs ys where bs: "B ! i = xs @ (b, n, True) # ys" using split_list [OF i(2)] by blast
  obtain T vs where T: "heap_free S (b + 24) = Done T" "hs_ok T (B[i := give_back xs b n ys]) vs" "same_layout S T" "b \<notin> set vs"
    "\<And>f. f \<in> set (all_used (B[i := give_back xs b n ys])) \<Longrightarrow> payload (hs_mem T) f = payload (hs_mem S) f"
    "blk_size (hs_mem T) b < 2147483648" "blk_heap (hs_mem T) b = mm_heap (hs_at S i)"
    by (rule heap_free_ok [OF ok i(1) bs]) (rule that; assumption)
  have eq: "S' = T" using f T(1) by simp
  let ?B = "B[i := give_back xs b n ys]"
  have iB: "i < length ?B" "i < length (hs_soc S)" using i(1) hs_ok_length [OF ok] by simp_all
  have at: "mm_heap (hs_at T i) = mm_heap (hs_at S i)" "mm_caps (hs_at T i) = mm_caps (hs_at S i)"
    using same_layout_at(2) [OF T(3) iB(2)] by blast+
  have l: "heap_live (hs_at T i)" using i(3) at(2) by (simp add: heap_live_def)
  have "mm_bit (hs_at T i) = 2147483648" using hs_ok_region [OF T(2) iB(1) l] by (simp add: region_ok_def)
  moreover have "heap_of T (blk_heap (hs_mem T) b) = Some i" using heap_of_at [OF T(2) iB(1)] T(7) at(1) by simp
  moreover have "used_find (hs_mem T) (hs_used T) (blk_next (hs_mem T) (hs_used T)) b = Some None"
  proof (rule used_find_none [OF _ T(4)])
    show "path (hs_mem T) (hs_used T) vs 0" using T(2) by (simp add: hs_ok_def)
    show "0 \<notin> set vs" using used_block [OF T(2), of 0] by blast
  qed
  moreover have "sub32 (b + 24) (hg_struct (hs_glob T)) = b" using T(2) i by (simp add: hs_ok_def sub32_id)
  ultimately show ?thesis unfolding eq using T(6) by (simp add: heap_free_def Let_def heap_remove_block_from_used_list_def and_bit31)
qed

section \<open>Success and refusal\<close>

lemma heap_alloc_decides:
  assumes ok: "hs_ok S B us" and n: "0 < n" "n < 4294967296" and k: "k = (if caps = 0 then 1 else caps)"
  obtains r S' where "wm_heap_caps_alloc_tracing S n caps file line = Done (r, S')"
    and "r = 0 \<longleftrightarrow> (\<forall>i < length B. serves (hs_at S i) k \<longrightarrow> no_room n (B ! i))" and "r = 0 \<Longrightarrow> S' = S"
    and "r \<noteq> 0 \<Longrightarrow> \<exists>i b m xs ys. i < length B \<and> r = b + 24 \<and> serves (hs_at S i) k \<and> heap_need n \<le> m \<and>
      B ! i = xs @ (b, m, False) # ys \<and> hs_ok S' (B[i := xs @ cut_block b m (heap_need n) @ ys]) (b # us) \<and>
      (\<forall>f \<in> set (all_used B). payload (hs_mem S') f = payload (hs_mem S) f)"
proof -
  have I: "\<forall>i \<in> set [0..<length (hs_soc S)]. i < length B" using hs_ok_length [OF ok] by simp
  obtain r S' where r: "caps_alloc_loop S [0..<length (hs_soc S)] n k file line = Done (r, S')"
    "alloc_step S B us (set [0..<length (hs_soc S)]) n k r S'"
    using caps_alloc_loop_spec [OF ok n I] by blast
  have run: "wm_heap_caps_alloc_tracing S n caps file line = Done (r, S')"
    using r(1) n(1) k by (simp add: wm_heap_caps_alloc_tracing_def)
  have idx: "i \<in> set [0..<length (hs_soc S)] \<longleftrightarrow> i < length B" for i using hs_ok_length [OF ok] by simp
  show thesis
  proof (rule that [OF run])
    have "\<not> no_room n (B ! i)" if "heap_need n \<le> m" "n < 2147483648" "B ! i = xs @ (b, m, False) # ys" for i b m xs ys
      using that by (auto simp: no_room_def)
    then show "r = 0 \<longleftrightarrow> (\<forall>i < length B. serves (hs_at S i) k \<longrightarrow> no_room n (B ! i))"
      using r(2) idx unfolding alloc_step_def by (metis add_eq_0_iff_both_eq_0 zero_neq_numeral)
    show "r = 0 \<Longrightarrow> S' = S" using r(2) by (auto simp: alloc_step_def)
    show "\<exists>i b m xs ys. i < length B \<and> r = b + 24 \<and> serves (hs_at S i) k \<and> heap_need n \<le> m \<and>
      B ! i = xs @ (b, m, False) # ys \<and> hs_ok S' (B[i := xs @ cut_block b m (heap_need n) @ ys]) (b # us) \<and>
      (\<forall>f \<in> set (all_used B). payload (hs_mem S') f = payload (hs_mem S) f)" if "r \<noteq> 0"
      using r(2) idx that unfolding alloc_step_def by blast
  qed
qed

text \<open>Every consistent heap shows a map.\<close>

lemma hs_ok_shows:
  assumes ok: "hs_ok S B us"
  shows "heap_shows S B (map_of (map (\<lambda>f. (fst f + 24, payload (hs_mem S) f)) (all_used B)))"
  unfolding heap_shows_def
proof (intro allI)
  fix p cs
  let ?l = "map (\<lambda>f. (fst f + 24, payload (hs_mem S) f)) (all_used B)"
  show "map_of ?l p = Some cs \<longleftrightarrow> (\<exists>f \<in> set (all_used B). p = fst f + 24 \<and> cs = payload (hs_mem S) f)"
  proof
    assume "map_of ?l p = Some cs"
    from map_of_SomeD [OF this] show "\<exists>f \<in> set (all_used B). p = fst f + 24 \<and> cs = payload (hs_mem S) f" by auto
  next
    assume "\<exists>f \<in> set (all_used B). p = fst f + 24 \<and> cs = payload (hs_mem S) f"
    then obtain b n where f: "(b, n) \<in> set (all_used B)" "p = b + 24" "cs = payload (hs_mem S) (b, n)" by auto
    then have "p \<in> fst ` set ?l" by force
    then have "map_of ?l p \<noteq> None" unfolding map_of_eq_None_iff by blast
    then obtain ds where ds: "map_of ?l p = Some ds" by blast
    from map_of_SomeD [OF this] obtain d m where g: "(d, m) \<in> set (all_used B)" "p = d + 24" "ds = payload (hs_mem S) (d, m)" by auto
    then have "m = n" using used_unique [OF ok f(1)] f(2) by simp
    then show "map_of ?l p = Some cs" using ds g f by simp
  qed
qed

end
