(* ===== verification/HeapProps.thy ===== *)
theory HeapProps
  imports HeapRun
begin

text \<open>
  The properties of the heap: what a program that uses it correctly gets, what a request is refused
  for, and what happens outside of that.
\<close>

section \<open>A started heap\<close>

text \<open>The chip's table with the list heads in the static data of a program.\<close>

definition heap_demo :: heap_sys where
  "heap_demo = \<lparr>hs_mem = (\<lambda>_. 0), hs_soc = wm_soc_memory False (\<lambda>i. 0x20001000 + 64 * i),
     hs_glob = \<lparr>hg_struct = 0, hg_free = 0, hg_min = 0, hg_allocs = 0, hg_frees = 0\<rparr>, hs_used = 0x20000100\<rparr>"

definition demo_started :: heap_sys where
  "demo_started = wm_heap_init 0x20005004 0x20028800 heap_demo"

lemma rd32_zero: "rd32 (\<lambda>_. 0) a = 0"
proof -
  have "le_nat (replicate n 0) = 0" for n by (induction n) simp_all
  then show ?thesis by (simp add: rd32_def mem_slice_def map_replicate_const)
qed

lemma demo_linked: "linked 0x20005004 0x20028800 (\<lambda>i. 0x20001000 + 64 * i) 0x20000100"
  by (simp add: linked_def apart_def)

lemma demo_boot: "boot_ok 0x20005004 0x20028800 heap_demo"
proof (rule wm_soc_boot_ok)
  show "linked 0x20005004 0x20028800 (\<lambda>i. 0x20001000 + 64 * i) (hs_used heap_demo)"
    using demo_linked by (simp add: heap_demo_def)
qed (simp_all add: heap_demo_def rd32_zero)

lemma demo_ok: "hs_ok demo_started (map start_blocks (hs_soc demo_started)) []"
  unfolding demo_started_def by (rule wm_heap_init_ok [OF demo_boot])

lemma demo_sim: "heap_sim demo_started Map.empty"
  unfolding demo_started_def by (rule wm_heap_init_sim [OF demo_boot])

lemma demo_region:
  "length (hs_soc demo_started) = 2" "heap_live (hs_at demo_started 0)" "serves (hs_at demo_started 0) 1"
  "start_blocks (hs_at demo_started 0) = [(0x20005008, 0x22FE0, False)]"
proof -
  have l: "length (hs_soc heap_demo) = 2" by (simp add: heap_demo_def wm_soc_memory_def)
  have soc: "boot_soc 0x20005004 0x20028800 (hs_soc heap_demo) = linked_soc False 0x20005004 0x20028800 (\<lambda>i. 0x20001000 + 64 * i)"
    unfolding heap_demo_def by simp (rule boot_soc_linked [OF demo_linked])
  note pl = wm_heap_init_places [where S = heap_demo and j = 0 and bss_end = "0x20005004" and eshram = "0x20028800", folded demo_started_def]
  have "places (hs_at demo_started 0) = places (booted (linked_soc False 0x20005004 0x20028800 (\<lambda>i. 0x20001000 + 64 * i) ! 0))"
    using pl(1) l unfolding soc by simp
  then have at: "mm_caps (hs_at demo_started 0) = 11" "mm_start (hs_at demo_started 0) = 0x20005004"
    "mm_size (hs_at demo_started 0) = 0x22FFC"
    by (simp_all add: places_def booted_def linked_soc_def soc_region_def strcmp_eq_def WM_HEAP_PSRAM_NAME_def)
  show "length (hs_soc demo_started) = 2" using pl(2) l by simp
  show live: "heap_live (hs_at demo_started 0)" using at caps_live by (simp add: heap_live_def)
  show "serves (hs_at demo_started 0) 1" using live at by (simp add: serves_def)
  show "start_blocks (hs_at demo_started 0) = [(0x20005008, 0x22FE0, False)]"
    using live at by (simp add: start_blocks_def init_blocks_def align_up_def align_down_def Let_def)
qed

section \<open>A program that uses the heap\<close>

lemma heap_client_runs:
  assumes "client_ok c" and "heap_sim S Map.empty"
  shows "\<exists>rs S' A. client_run (heap_do file line) c k S [] = Done (rs, S') \<and> client_map c rs A \<and> heap_sim S' A \<and>
    map places (hs_soc S') = map places (hs_soc S) \<and> (c rs = None \<or> length rs = k)"
proof -
  have "heap_sim S Map.empty \<and> map places (hs_soc S) = map places (hs_soc S)" using assms(2) by simp
  from wm_alloc.serves_client [OF assms(1) client_begins this] show ?thesis by auto
qed

text \<open>One client: it asks for ten bytes, writes three of them and releases them.\<close>

fun demo_client :: heap_client where
  "demo_client [] = Some (HAlloc 10 0)"
| "demo_client [r] = (if r = 0 then None else Some (HStore r 0 [1, 2, 3]))"
| "demo_client [r, x] = Some (HFree r)"
| "demo_client (r # x # y # zs) = None"

lemma demo_client_states:
  "client_map demo_client rs A \<Longrightarrow>
    (case rs of [] \<Rightarrow> A = Map.empty
     | [r] \<Rightarrow> (r = 0 \<longrightarrow> A = Map.empty) \<and> (r \<noteq> 0 \<longrightarrow> (\<exists>bs. A = [r \<mapsto> bs] \<and> 10 \<le> length bs))
     | [r, x] \<Rightarrow> r \<noteq> 0 \<and> (\<exists>bs. A = [r \<mapsto> bs])
     | r # x # y # zs \<Rightarrow> zs = [] \<and> A = Map.empty)"
proof (induction rule: client_map.induct)
  case (client_goes_on rs A op r A')
  consider "rs = []" | p where "rs = [p]" "p \<noteq> 0" | p x where "rs = [p, x]"
    using client_goes_on.hyps(2) by (cases rs rule: demo_client.cases) (auto split: if_splits)
  then show ?case
  proof cases
    case 1
    then show ?thesis using client_goes_on by (auto simp: alloc_map_step_def fresh_block_def)
  next
    case (2 p)
    then show ?thesis using client_goes_on by auto
  next
    case (3 p x)
    then show ?thesis using client_goes_on by auto
  qed
qed simp

lemma demo_client_ok: "client_ok demo_client"
  unfolding client_ok_def
proof (intro allI impI)
  fix rs A op assume "client_map demo_client rs A" and op: "demo_client rs = Some op"
  note st = demo_client_states [OF this(1)]
  show "heap_allowed A op"
    using st op by (cases rs rule: demo_client.cases) (auto split: if_splits)
qed

text \<open>C4. A program that keeps to the rules of an allocator, asks for sizes below 4 GB, passes only
  pointers it holds and writes only inside its blocks, can use the heap for as long as it likes from
  start-up on: no assertion fails, no list walk runs forever, and the results and the contents of
  memory are those of an allocator whose blocks are aligned, large enough, never overlap and keep
  what was written to them, also through reallocations.\<close>

theorem heap_serves_clients:
  assumes "boot_ok bss_end eshram S" and "client_ok c"
  shows "\<exists>rs S' A. client_run (heap_do file line) c k (wm_heap_init bss_end eshram S) [] = Done (rs, S') \<and>
    client_map c rs A \<and> (\<forall>p cs. A p = Some cs \<longrightarrow> mem_slice (hs_mem S') p (length cs) = cs)"
proof -
  obtain rs S' A where "client_run (heap_do file line) c k (wm_heap_init bss_end eshram S) [] = Done (rs, S')"
    "client_map c rs A" "heap_sim S' A"
    using heap_client_runs [OF assms(2) wm_heap_init_sim [OF assms(1)]] by blast
  then show ?thesis using heap_sim_contents by blast
qed

theorem heap_serves_clients_witness:
  "\<exists>rs S' A. client_run (heap_do 0 0) demo_client 2 demo_started [] = Done (rs, S') \<and> client_map demo_client rs A \<and>
    (\<forall>p cs. A p = Some cs \<longrightarrow> mem_slice (hs_mem S') p (length cs) = cs)"
  using heap_serves_clients [OF demo_boot demo_client_ok, of 0 0 2] unfolding demo_started_def .

text \<open>C10. Whatever such a program did, once it has released everything each region is one free block
  again from its aligned start to its end marker, the counters say so and the list of used blocks is
  empty: all the memory is back and none of it is in pieces.\<close>

theorem heap_all_back:
  assumes "boot_ok bss_end eshram S" and "client_ok c"
    and "client_run (heap_do file line) c k (wm_heap_init bss_end eshram S) [] = Done (rs, S')"
    and "client_map c rs Map.empty" and "i < length (hs_soc S)"
    and "\<not> strcmp_eq (mm_name (boot_soc bss_end eshram (hs_soc S) ! i)) WM_HEAP_PSRAM_NAME"
  shows "mm_start (hs_at S' i) = mm_start (boot_soc bss_end eshram (hs_soc S) ! i) \<and>
    mm_size (hs_at S' i) = mm_size (boot_soc bss_end eshram (hs_soc S) ! i) \<and> region_fresh (hs_mem S') (hs_at S' i) \<and>
    hg_free (hs_glob S') = u32 (free_total (hs_soc S')) \<and>
    blk_next (hs_mem S') (hs_used S') = 0 \<and> blk_size (hs_mem S') (hs_used S') = 0"
proof -
  let ?I = "wm_heap_init bss_end eshram S" and ?soc = "boot_soc bss_end eshram (hs_soc S)"
  have "heap_sim ?I Map.empty" by (rule wm_heap_init_sim [OF assms(1)])
  from heap_client_runs [OF assms(2) this, of "file" line k] obtain A where A: "client_map c rs A" "heap_sim S' A" "map places (hs_soc S') = map places (hs_soc ?I)"
    using assms(3) by auto
  have "dom A = dom (Map.empty :: heap_map)" by (rule client_map_dom [OF A(1) assms(4)])
  then have sim: "heap_sim S' Map.empty" using A(2) by simp
  have len: "2 \<le> length (hs_soc S)" "list_all heap_live ?soc" using assms(1) by (simp_all add: boot_ok_def)
  note pl = wm_heap_init_places [OF len(1) assms(5), of bss_end eshram]
  have len': "length (hs_soc S') = length (hs_soc S)" using A(3) pl(2) by (metis length_map)
  have "places (hs_at S' i) = places (hs_at ?I i)" using A(3) len' pl(2) assms(5) by (metis nth_map)
  then have at: "places (hs_at S' i) = places (?soc ! i)" using pl(1) assms(6) by (simp add: booted_def)
  have "heap_live (?soc ! i)" using len(2) assms(5) by (simp add: list_all_length boot_soc_def Let_def)
  then have "heap_live (hs_at S' i)" using at by (simp add: places_def heap_live_def)
  then have "region_fresh (hs_mem S') (hs_at S' i)" using nothing_used_fresh [OF sim] len' assms(5) by simp
  then show ?thesis using nothing_used_total [OF sim] at by (simp add: places_def)
qed

theorem heap_all_back_witness:
  "\<exists>rs S'. client_run (heap_do 0 0) demo_client 3 demo_started [] = Done (rs, S') \<and> rs \<noteq> [] \<and>
    region_fresh (hs_mem S') (hs_at S' 0) \<and> mm_start (hs_at S' 0) = 0x20005004"
proof -
  obtain rs S' A where r: "client_run (heap_do 0 0) demo_client 3 demo_started [] = Done (rs, S')" "client_map demo_client rs A"
    "demo_client rs = None \<or> length rs = 3"
    using heap_client_runs [OF demo_client_ok demo_sim, of 0 0 3] by blast
  have A: "A = Map.empty" "rs \<noteq> []"
    using demo_client_states [OF r(2)] r(3) by (cases rs rule: demo_client.cases; auto split: if_splits)+
  have soc: "boot_soc 0x20005004 0x20028800 (hs_soc heap_demo) = linked_soc False 0x20005004 0x20028800 (\<lambda>i. 0x20001000 + 64 * i)"
    unfolding heap_demo_def by simp (rule boot_soc_linked [OF demo_linked])
  have len: "0 < length (hs_soc heap_demo)" by (simp add: heap_demo_def wm_soc_memory_def)
  have nm: "\<not> strcmp_eq (mm_name (boot_soc 0x20005004 0x20028800 (hs_soc heap_demo) ! 0)) WM_HEAP_PSRAM_NAME"
    "mm_start (boot_soc 0x20005004 0x20028800 (hs_soc heap_demo) ! 0) = 0x20005004"
    unfolding soc by (simp_all add: linked_soc_def soc_region_def strcmp_eq_def WM_HEAP_PSRAM_NAME_def)
  have "region_fresh (hs_mem S') (hs_at S' 0) \<and> mm_start (hs_at S' 0) = 0x20005004"
    using heap_all_back [OF demo_boot demo_client_ok r(1) [unfolded demo_started_def] r(2) [unfolded A(1)] len nm(1)] nm(2) by simp
  then show ?thesis using r(1) A(2) by blast
qed

section \<open>When a request is refused\<close>

text \<open>C11. An allocation returns null exactly when no region of the wanted kind has a free block for the
  request with its header, rounded up to eight bytes, or the request is 2 GB or more; then nothing
  changes. Otherwise one free block of such a region is replaced by the block handed out and, when
  more than two headers are left of it, the rest; every other block and its contents stay.\<close>

theorem heap_alloc_exact:
  assumes "hs_ok S B us" and "0 < n" and "n < 4294967296" and "k = (if caps = 0 then 1 else caps)"
  shows "\<exists>r S'. wm_heap_caps_alloc_tracing S n caps file line = Done (r, S') \<and>
    (r = 0 \<longleftrightarrow> (\<forall>i < length B. serves (hs_at S i) k \<longrightarrow> no_room n (B ! i))) \<and> (r = 0 \<longrightarrow> S' = S) \<and>
    (r \<noteq> 0 \<longrightarrow> (\<exists>i b m xs ys. i < length B \<and> r = b + 24 \<and> serves (hs_at S i) k \<and> heap_need n \<le> m \<and>
      B ! i = xs @ (b, m, False) # ys \<and> hs_ok S' (B[i := xs @ cut_block b m (heap_need n) @ ys]) (b # us) \<and>
      (\<forall>f \<in> set (all_used B). payload (hs_mem S') f = payload (hs_mem S) f)))"
proof (rule heap_alloc_decides [OF assms])
  fix r S'
  assume a: "wm_heap_caps_alloc_tracing S n caps file line = Done (r, S')"
    "r = 0 \<longleftrightarrow> (\<forall>i < length B. serves (hs_at S i) k \<longrightarrow> no_room n (B ! i))" "r = 0 \<Longrightarrow> S' = S"
    "r \<noteq> 0 \<Longrightarrow> \<exists>i b m xs ys. i < length B \<and> r = b + 24 \<and> serves (hs_at S i) k \<and> heap_need n \<le> m \<and>
      B ! i = xs @ (b, m, False) # ys \<and> hs_ok S' (B[i := xs @ cut_block b m (heap_need n) @ ys]) (b # us) \<and>
      (\<forall>f \<in> set (all_used B). payload (hs_mem S') f = payload (hs_mem S) f)"
  show ?thesis
    by (rule exI [of _ r], rule exI [of _ S'], intro conjI, rule a(1), rule a(2), rule impI, erule a(3), rule impI, erule a(4))
qed

theorem heap_alloc_exact_witness:
  "(\<exists>r S'. wm_heap_caps_alloc_tracing demo_started 100 0 0 0 = Done (r, S') \<and> r \<noteq> 0) \<and>
   wm_heap_caps_alloc_tracing demo_started 0x80000000 0 0 0 = Done (0, demo_started)"
proof (rule conjI)
  let ?B = "map start_blocks (hs_soc demo_started)"
  have n: "0 < (100 :: nat)" "(100 :: nat) < 4294967296" "0 < (0x80000000 :: nat)" "(0x80000000 :: nat) < 4294967296"
    and k: "(1 :: nat) = (if (0 :: nat) = 0 then 1 else 0)" by simp_all
  have i: "0 < length ?B" "\<not> no_room 100 (?B ! 0)" using demo_region by (simp_all add: no_room_def heap_need_def)
  have q: "(\<forall>i < length ?B. serves (hs_at demo_started i) 1 \<longrightarrow> no_room 100 (?B ! i)) = False" using i demo_region(3) by blast
  show "\<exists>r S'. wm_heap_caps_alloc_tracing demo_started 100 0 0 0 = Done (r, S') \<and> r \<noteq> 0"
    using heap_alloc_exact [OF demo_ok n(1,2) k, of 0 0]
    by (elim exE conjE) (intro exI conjI, assumption, simp only: q simp_thms)
  have q2: "(\<forall>i < length ?B. serves (hs_at demo_started i) 1 \<longrightarrow> no_room 0x80000000 (?B ! i)) = True" by (simp add: no_room_def)
  show "wm_heap_caps_alloc_tracing demo_started 0x80000000 0 0 0 = Done (0, demo_started)"
    using heap_alloc_exact [OF demo_ok n(3,4) k, of 0 0] by (elim exE conjE) (simp only: q2 simp_thms)
qed

section \<open>Two blocks in use\<close>

lemma demo_two_blocks:
  "\<exists>S B us A. hs_ok S B us \<and> heap_shows S B A \<and> (0x20005008, 40) \<in> set (all_used B) \<and>
    A 0x20005020 = Some (payload (hs_mem S) (0x20005008, 40)) \<and> 0 < length B \<and> serves (hs_at S 0) 1 \<and>
    B ! 0 = [(0x20005008, 40, True), (0x20005030, 0x22FB8, False)]"
proof -
  let ?B = "map start_blocks (hs_soc demo_started)"
  have i: "0 < length ?B" using demo_region(1) by simp
  have B0: "?B ! 0 = [] @ (0x20005008, 0x22FE0, False) # []" using demo_region(1,4) by simp
  have nd: "heap_need 10 = 40" by (simp add: heap_need_def)
  have "\<exists>S'. heap_alloc_tracing demo_started 0 10 1 0 0 = Done (0x20005008 + 24, S') \<and>
    hs_ok S' (?B[0 := [] @ cut_block 0x20005008 0x22FE0 (heap_need 10) @ []]) [0x20005008] \<and> same_layout demo_started S' \<and>
    blk_caps (hs_mem S') 0x20005008 = u32 1 \<and> (\<forall>f \<in> set (all_used ?B). payload (hs_mem S') f = payload (hs_mem demo_started) f)"
    by (rule heap_alloc_ok [OF demo_ok i demo_region(2) _ _ B0]) (simp_all add: nd)
  then obtain S' where S': "hs_ok S' (?B[0 := cut_block 0x20005008 0x22FE0 40]) [0x20005008]" "same_layout demo_started S'"
    by (auto simp: nd)
  let ?B' = "?B[0 := cut_block 0x20005008 0x22FE0 40]"
  have B': "?B' ! 0 = [(0x20005008, 40, True), (0x20005030, 0x22FB8, False)]" using i by (simp add: cut_block_def)
  have u: "(0x20005008, 40) \<in> set (all_used ?B')" using B' i by (force simp: set_all_used)
  have "serves (hs_at S' 0) 1" using demo_region(1,3) same_layout_at(2) [OF S'(2), of 0] by (simp add: serves_def heap_live_def)
  then show ?thesis using S'(1) hs_ok_shows [OF S'(1)] heap_shows_at [OF hs_ok_shows [OF S'(1)] u] u B' i by fastforce
qed

section \<open>Outside the rules\<close>

text \<open>C24. A second release of a block right after the first one is caught: it fails an assertion.\<close>

theorem heap_second_free_asserts:
  assumes "heap_sim S A" and "A p \<noteq> None" and "wm_heap_caps_free S p = Done S'"
  shows "wm_heap_caps_free S' p = Asserts"
proof -
  obtain B us b n where ok: "hs_ok S B us" and b: "(b, n) \<in> set (all_used B)" "p = b + 24"
    using assms(1,2) unfolding heap_sim_def by (blast elim: heap_showsD)
  show ?thesis using second_free [OF ok b(1)] assms(3) b(2) by (simp add: wm_heap_caps_free_def)
qed

theorem heap_second_free_asserts_witness:
  "\<exists>S S'. wm_heap_caps_free S 0x20005020 = Done S' \<and> wm_heap_caps_free S' 0x20005020 = Asserts"
proof -
  obtain S B us A where s: "hs_ok S B us" "heap_shows S B A" "A 0x20005020 \<noteq> None" using demo_two_blocks by force
  have sim: "heap_sim S A" using s(1,2) by (auto simp: heap_sim_def)
  obtain S' where "wm_heap_caps_free S 0x20005020 = Done S'" using free_sim [OF s(1,2), of "0x20005020"] s(3) by blast
  from this heap_second_free_asserts [OF sim s(3) this] show ?thesis by blast
qed

text \<open>The two halves of a reallocation.\<close>

lemma realloc_run:
  assumes sim: "heap_sim S A" and old: "A p = Some cs" and n: "0 < n" "n < 4294967296"
    and k: "k = (if caps = 0 then blk_caps (hs_mem S) (p - 24) else caps)"
  obtains r S1 A1 where "wm_heap_caps_alloc_tracing S n k file line = Done (r, S1)" and "alloc_map_step A n r A1" and "heap_sim S1 A1"
    and "wm_heap_caps_realloc_tracing S p n caps file line = (if r = 0 then Done (0, S1) else realloc_move S1 2147483648 p r n)"
proof -
  obtain B us where ok: "hs_ok S B us" and sh: "heap_shows S B A" using sim by (auto simp: heap_sim_def)
  obtain b m where b: "(b, m) \<in> set (all_used B)" "p = b + 24" using sh old unfolding heap_shows_def by fastforce
  obtain i where h: "heap_of S (blk_heap (hs_mem S) b) = Some i" "blk_size (hs_mem S) b = m + 2147483648" "m < 2147483648"
    "mm_bit (hs_at S i) = 2147483648" "b + 24 < 4294967296" "hg_struct (hs_glob S) = 24"
    using used_header [OF ok b(1)] by metis
  have k': "k = (if caps = 0 then blk_caps (hs_mem S) b else caps)" using k b(2) by simp
  obtain r S1 A1 where a: "wm_heap_caps_alloc_tracing S n k file line = Done (r, S1)" "alloc_map_step A n r A1" "heap_sim S1 A1"
    using alloc_sim [OF ok sh n(2)] by blast
  moreover have "wm_heap_caps_realloc_tracing S p n caps file line = (if r = 0 then Done (0, S1) else realloc_move S1 2147483648 p r n)"
    using a(1) h b(2) n(1) unfolding k' by (simp add: wm_heap_caps_realloc_tracing_def Let_def and_bit31)
  ultimately show thesis using that by blast
qed

text \<open>C23. A reallocation copies 24 bytes more than the old block holds when the new one has room for
  them: the old size it takes for the length of the copy counts the header of the block. The first
  bytes of the new block after its old contents are therefore what lies behind the old block, the
  header of its neighbour.\<close>

theorem heap_realloc_reads_past:
  assumes "heap_sim S A" and "A p = Some cs" and "0 < n" and "n < 4294967296"
    and "wm_heap_caps_realloc_tracing S p n caps file line = Done (r, S')" and "r \<noteq> 0"
  shows "\<exists>S1. wm_heap_caps_alloc_tracing S n (if caps = 0 then blk_caps (hs_mem S) (p - 24) else caps) file line = Done (r, S1) \<and>
    mem_slice (hs_mem S') r (min (length cs + 24) n) = mem_slice (hs_mem S1) p (min (length cs + 24) n)"
proof -
  obtain q S1 A1 where a: "wm_heap_caps_alloc_tracing S n (if caps = 0 then blk_caps (hs_mem S) (p - 24) else caps) file line = Done (q, S1)"
    "alloc_map_step A n q A1" "heap_sim S1 A1"
    "wm_heap_caps_realloc_tracing S p n caps file line = (if q = 0 then Done (0, S1) else realloc_move S1 2147483648 p q n)"
    by (rule realloc_run [OF assms(1-4) refl])
  have q: "q \<noteq> 0" using a(4) assms(5,6) by (auto split: if_splits)
  then obtain bs where f: "fresh_block A q n bs" "A1 = A(q \<mapsto> bs)" using a(2) by (auto simp: alloc_map_step_def)
  have ne: "p \<noteq> q" using f(1) assms(2) by (auto simp: fresh_block_def)
  obtain S2 xs where m: "realloc_move S1 2147483648 p q n = Done (q, S2)" "heap_sim S2 (A1(q \<mapsto> xs, p := None))"
    "length xs = length bs" "take (min (length cs + 24) n) xs = mem_slice (hs_mem S1) p (min (length cs + 24) n)"
  proof (rule realloc_move_sim [OF a(3)])
    show "A1 p = Some cs" "A1 q = Some bs" using assms(2) ne f(2) by simp_all
    show "p \<noteq> q" "n \<le> length bs" using ne f(1) by (simp_all add: fresh_block_def)
  qed blast
  have rq: "r = q" "S' = S2" using a(4) q m(1) assms(5) by simp_all
  have "mem_slice (hs_mem S2) q (length xs) = xs" using heap_sim_contents [OF m(2), of q xs] ne by simp
  moreover have "min (length cs + 24) n \<le> length xs" using f(1) m(3) by (simp add: fresh_block_def min_le_iff_disj)
  ultimately have "take (min (length cs + 24) n) xs = mem_slice (hs_mem S2) q (min (length cs + 24) n)"
    using take_mem_slice [of "min (length cs + 24) n" "length xs" "hs_mem S2" q] by simp
  then show ?thesis using a(1) m(4) rq by simp
qed

theorem heap_realloc_reads_past_witness:
  "\<exists>S S1 S' r. wm_heap_caps_realloc_tracing S 0x20005020 100 1 0 0 = Done (r, S') \<and> r \<noteq> 0 \<and>
    wm_heap_caps_alloc_tracing S 100 1 0 0 = Done (r, S1) \<and> mem_slice (hs_mem S') r 40 = mem_slice (hs_mem S1) 0x20005020 40"
proof -
  obtain S B us A where s: "hs_ok S B us" "heap_shows S B A" "A 0x20005020 = Some (payload (hs_mem S) (0x20005008, 40))"
    "0 < length B" "serves (hs_at S 0) 1" "B ! 0 = [(0x20005008, 40, True), (0x20005030, 0x22FB8, False)]"
    using demo_two_blocks by blast
  have sim: "heap_sim S A" using s(1,2) by (auto simp: heap_sim_def)
  obtain r S1 A1 where a: "wm_heap_caps_alloc_tracing S 100 1 0 0 = Done (r, S1)" "alloc_map_step A 100 r A1" "heap_sim S1 A1"
    "wm_heap_caps_realloc_tracing S 0x20005020 100 1 0 0 = (if r = 0 then Done (0, S1) else realloc_move S1 2147483648 0x20005020 r 100)"
    by (rule realloc_run [OF sim s(3), of 100 1 1 0 0]) simp_all
  have "\<not> no_room 100 (B ! 0)" using s(6) by (simp add: no_room_def heap_need_def)
  then have r: "r \<noteq> 0" using heap_alloc_decides [OF s(1), of 100 1 1 0 0] a(1) s(4,5) by fastforce
  then obtain bs where f: "fresh_block A r 100 bs" "A1 = A(r \<mapsto> bs)" using a(2) by (auto simp: alloc_map_step_def)
  have ne: "0x20005020 \<noteq> r" using f(1) s(3) by (auto simp: fresh_block_def)
  obtain S' where "realloc_move S1 2147483648 0x20005020 r 100 = Done (r, S')"
    by (rule realloc_move_sim [OF a(3), of "0x20005020" _ r bs 100]) (use f ne s(3) in \<open>auto simp: fresh_block_def\<close>)
  then have run: "wm_heap_caps_realloc_tracing S 0x20005020 100 1 0 0 = Done (r, S')" using a(4) r by simp
  show ?thesis using heap_realloc_reads_past [OF sim s(3) _ _ run r] run r by auto
qed





end
