(* ===== verification/Spec2Isabelle.thy ===== *)
theory Spec2Isabelle
  imports StoreProps SpaceProps SectorProps FlashProps FtProps ClockProps UtilProps OtaProps EventProps HeapProps
begin

text \<open>
  The key-value store of the SDK and the flash layers below it, the firmware update over the same
  flash, and the events, the heap, the clock and helpers beside them.

  Parts of the program and the theories that model them, from the chip upwards:
  \<^item> \<open>FlashHal\<close>: pages and sectors of the SPI flash (\<open>wm_hal_flash.c\<close>);
  \<^item> \<open>InternalFlash\<close>: the internal flash driver, reads and writes of any range, read-erase-write,
    region and sector erasure (\<open>wm_drv_ops_internal_flash.c\<close>, \<open>wm_drv_flash.c\<close>);
  \<^item> \<open>PartitionTable\<close>: the partition table (\<open>wm_partition_table.c\<close>);
  \<^item> \<open>FtParam\<close>: the factory parameters in their two copies (\<open>wm_ft_param.c\<close>);
  \<^item> \<open>NvsItem\<close>, \<open>NvsHash\<close>, \<open>NvsPartition\<close>, \<open>NvsSector\<close>: entries, the hash list, the window of a
    partition on the flash, and one 4 KB sector (\<open>wm_nvs_item.c\<close>, \<open>wm_nvs_hash.c\<close>,
    \<open>wm_nvs_partition.c\<close>, \<open>wm_nvs_sector.c\<close>);
  \<^item> \<open>NvsSectorManager\<close>: active and idle sectors, mount, recovery, garbage collection
    (\<open>wm_nvs_sector_manager.c\<close>);
  \<^item> \<open>NvsStorage\<close>, \<open>NvsStorageOps\<close>: groups, items and blobs of a partition (\<open>wm_nvs_storage.c\<close>);
  \<^item> \<open>NvsManager\<close>: mounted partitions, handles, iterators, the lock (\<open>wm_nvs_partition_manager.c\<close>,
    \<open>wm_nvs_handler.c\<close>, \<open>wm_nvs_porting.c\<close>, \<open>wm_nvs_iterator.c\<close>);
  \<^item> \<open>NvsApi\<close>: the public functions (\<open>wm_nvs.c\<close>);
  \<^item> \<open>Rtc\<close>, \<open>RtcDriver\<close>: registers, HAL, driver and front end of the real-time clock with its alarm
    and interrupt (\<open>wm_hal_rtc.c\<close>, \<open>wm_drv_ops_rtc.c\<close>, \<open>wm_drv_rtc.c\<close>);
  \<^item> \<open>UtilTime\<close>, \<open>Clock\<close>: calendar arithmetic, time of day and time zone (\<open>wm_utils.c\<close>);
  \<^item> \<open>UtilText\<close>: text, checksum, string and transfer helpers (\<open>wm_utils.c\<close>);
  \<^item> \<open>Crc\<close>: the checksum unit, its HAL, driver, shared mutex and front end (\<open>wm_hal_crc.c\<close>,
    \<open>wm_drv_ops_crc.c\<close>, \<open>wm_drv_ops_hash.c\<close>, \<open>wm_drv_crc.c\<close>);
  \<^item> \<open>OtaOps\<close>: the operations on the update partition, which use the partition table, the flash
    driver and the checksum unit (\<open>wm_ota_ops.c\<close>);
  \<^item> \<open>Ota\<close>: the update session with its callbacks (\<open>wm_ota.c\<close>);
  \<^item> \<open>Osal\<close>: queues and semaphores as the events use them (\<open>wm_osal.c\<close>);
  \<^item> \<open>Event\<close>: the event task, the calls that send to it, start and exit (\<open>wm_event.c\<close>);
  \<^item> \<open>Heap\<close>: the allocator with its regions, free lists and list of used blocks, start-up and the later
    addition of the PSRAM, and the malloc family over it (\<open>wm_heap.c\<close>, \<open>wm_memory_layout.c\<close>,
    \<open>wm_osal.c\<close>).

  Conventions. \<open>Prelude\<close> fixes the machine types: bytes are \<open>8 word\<close>, checksums \<open>32 word\<close>, other
  unsigned integers are \<open>nat\<close> with the wrap-around (\<open>u8n\<close>, \<open>u16n\<close>, \<open>u32\<close>) at the assignments that
  can wrap, return codes are \<open>int\<close>. State is passed explicitly: a function takes the flash device and
  the object it works on and returns the code and both. A C pointer to a sector is its index,
  handles, iterators and storages are numbers in association lists, a null pointer is \<open>None\<close>. Where
  a run of the C code would dereference a null or freed object, or not return, the model's result
  is \<open>None\<close>; every theorem that gives a result shows \<open>Some\<close>. The record \<open>env\<close> holds what the
  repository does not define: the CRC and MD5 units, the cell physics (programming clears bits,
  hypothesis \<open>nor_cells\<close>), the allocator (hypothesis \<open>heap_ok\<close>), the mutex and interrupt state.
  Flash offsets and addresses wrap at 32 bits, in the range checks and behind them.
  All loops are total functions with measures, except the segment loop of a blob write, the
  lookup loop of the partition table, the download and retry loops of the update session, and the
  list walks of the heap, which are partial functions with \<open>None\<close> for divergence.

  Library. \<open>Interfaces\<close> states three contracts as locales: memory that only programming and
  erasure change (\<open>nor_window\<close>), a hash list (\<open>hash_table\<close>) and a store of records
  (\<open>record_store\<close>); they are interpreted on the model in \<open>NvsPartition\<close>, \<open>NvsHash\<close> and
  \<open>NvsKvStore\<close>. \<open>InternalFlashSpec\<close> says what the driver does to the cells; \<open>NvsSectorLog\<close>,
  \<open>NvsSectorFind\<close>, \<open>NvsSectorOps\<close>, \<open>NvsSectorLife\<close>, \<open>NvsSectorCopy\<close> say what a sector is as a
  log of entries and what lookup, write, drop, erasure, mount and copy do to the log; \<open>NvsSmSpec\<close>
  and \<open>NvsSmGc\<close> give the invariant of the sector manager, lookup over all sectors and the
  collection; \<open>NvsMount\<close> and \<open>NvsRecovery\<close> the mount with its checks, \<open>NvsRemount\<close> the mount of
  the storage on top of it; \<open>NvsKv\<close>, \<open>NvsKvOps\<close>, \<open>NvsKvWrite\<close>, \<open>NvsKvStore\<close> refine reading,
  deleting and writing to operations on a list of records; \<open>NvsApiSpec\<close> lifts this to open handles;
  \<open>FtParamSpec\<close> says what the factory parameters look like on flash after each write, in the order
  of the log that \<open>ft_set_run\<close> keeps of the writes of \<open>wm_ft_param_set\<close>: a power loss falls
  into one of them. \<open>Calendar\<close>
  defines dates by counting days forward from 1970 and shows that both conversions and \<open>mktime\<close>
  compute it; \<open>RtcSpec\<close> says when the clock's registers show a second; \<open>ClockSpec\<close> has the invariant
  of the clock device, its runs as a step relation and the life of an alarm. \<open>Demo\<close> and
  \<open>DemoStore\<close> have the concrete states of the witnesses.

  The properties are in \<open>StoreProps\<close> (the caller's view), \<open>SpaceProps\<close> (restart and room),
  \<open>SectorProps\<close>, \<open>FlashProps\<close>, \<open>FtProps\<close>, \<open>ClockProps\<close>, \<open>UtilProps\<close>, \<open>OtaProps\<close>, \<open>EventProps\<close>
  and \<open>HeapProps\<close>. In the clock, the up-time
  counter is an argument of the functions that read it, the power management unit is two fields of
  \<open>rtc_env\<close>, and the counting hardware is a function with the hypothesis \<open>rtc_counts\<close>. \<open>int\<close> and
  \<open>time_t\<close> of the calendar are \<open>int\<close> with the rounding of C; \<open>mktime\<close>, whose sums pass 32 bits from
  2038 on, wraps its results to 32 bits (\<open>int32\<close>), and what is proved of it is for times below \<open>2^31\<close>.

  The update. The arithmetic of the checksum unit is the function \<open>gh_unit\<close> of \<open>crc_hw\<close>; what the
  driver relies on is \<open>crc_unit_runs\<close>: the unit runs a register over the bytes and puts it out, with
  its bits reversed when told so. That a run goes on where the run before ended is proved, from
  the reversal \<open>set_crc_value\<close> does in software. \<open>CrcSpec\<close> shows the law for a bit-level unit and
  has what each driver call does. The callbacks of a
  session act on a world of any type; the checksum unit, the clock and the build's settings are
  arguments. \<open>OtaSpec\<close> says what the partition and the context hold after each operation
  (\<open>ota_holds\<close>), \<open>OtaSession\<close> carries this through the session whatever the callbacks do, and
  \<open>OtaServe\<close> shows that a session with a server that delivers an image ends.

  The events. Tasks run at the same time here, so the component is a step function over labelled
  actions (\<open>ev_do\<close>): a call begins, a call goes on, the task goes on, each in steps no larger than
  one access to shared state; a touch of a null, freed or deleted object is the outcome \<open>Fault\<close>.
  Runs and reachable states are \<open>ev_runs\<close> and \<open>ev_reach\<close>. Queues and semaphores belong to the
  real-time kernel; \<open>Osal\<close> writes down what its documentation says of them. \<open>EventSpec\<close> has the
  invariant of every run without exit, \<open>EventDeliver\<close> the registry the run refines, \<open>EventExit\<close>
  the phases of \<open>wm_event_deinit\<close> with the number of steps left.

  The heap. Block headers are bytes of one memory, which the callers write to as well; the outcome of
  a call is a result, a failed assertion, a walk that never ends or the use of a stray \<open>heap\<close> pointer.
  \<open>HeapList\<close> has linked lists in that memory and the insertion into the free list, \<open>HeapBlocks\<close> the
  blocks that tile a region, \<open>HeapSpec\<close> the invariant \<open>hs_ok\<close> of all regions, \<open>HeapSteps\<close>,
  \<open>HeapAlloc\<close>, \<open>HeapFree\<close> one allocation and one release, \<open>HeapStart\<close> start-up. \<open>HeapUse\<close> describes the
  heap as a map from pointers to contents (\<open>heap_map_step\<close>) and shows that each call is a step of it;
  \<open>HeapRun\<close> states this contract as the locale \<open>allocator\<close>, interprets it on the code and proves
  once what every well-behaved client gets. The addresses of the static data are arguments
  (\<open>boot_ok\<close>, shown for the chip's own table under \<open>linked\<close>). The build is the default one,
  assertions and tracing on, poisoning off; calls do not interleave.

  Not modelled: logging and printing, the debugging build, driver and mutex set-up, and the
  components of the SDK that are third-party or glue to hardware and binary libraries
  (Wi-Fi, Bluetooth, network stacks, graphics, the real-time kernel, drivers other than flash,
  clock and checksum). The HTTP callbacks of the update are glue to the HTTP client; delays are
  left out, since only the retry time-out of a session looks at the time.
\<close>

end
